(* ===== verification/Mblue_Prelude.thy ===== *)
theory Mblue_Prelude
  imports Main "HOL-Library.Word" "HOL-Library.Monad_Syntax"
begin

text \<open>
  Shared vocabulary of the development: the machine types of the 32-bit target
  (\<^verbatim>\<open>linux_m32.cmake\<close> compiles with \<^verbatim>\<open>-m32\<close>, so \<^verbatim>\<open>size_t\<close>, \<^verbatim>\<open>unsigned int\<close> and pointers
  are 32 bits wide), the error codes of \<^verbatim>\<open>middleware/common/mblue_errcode.h\<close>, the tagged
  pointers (\<^verbatim>\<open>SMART_DATA\<close>) and size macros of \<^verbatim>\<open>middleware/common/mblue_macro.h\<close> and
  \<^verbatim>\<open>mblue_comm.h\<close>, a bounds-checked \<^verbatim>\<open>memcpy\<close>, and the
  generic lemmas on lists and words the components share.
\<close>

unbundle bit_operations_syntax

type_synonym u8 = "8 word"
type_synonym u16 = "16 word"
type_synonym u32 = "32 word"
type_synonym u64 = "64 word"
type_synonym byte = "8 word"

named_theorems word_norm \<open>rewrite rules that move word operations to natural numbers\<close>
named_theorems mem_simps \<open>successful bounds-checked memory accesses\<close>

section \<open>Error codes\<close>

datatype mblue_errcode =
    MBLUE_REMOTE_CALL_PENDING
  | MBLUE_WAIT_ACK
  | MBLUE_ERR_RESET
  | MBLUE_ERR_STATE_NEED_DELAY
  | MBLUE_ERR_UNKNOWN
  | MBLUE_ERR_UNKNOWN_AT_RESP
  | MBLUE_ERR_PPP
  | MBLUE_ERR_DNS
  | MBLUE_ERR_SOCKET
  | MBLUE_ERR_INVALID_PARAMETER
  | MBLUE_ERR_PB_ENCODE
  | MBLUE_ERR_PB_DECODE
  | MBLUE_ERR_TIMEOUT
  | MBLUE_ERR_CORRUPT_MEM
  | MBLUE_ERR_NOMEM
  | MBLUE_ERR_NOELEMENT
  | MBLUE_ERR_SYSBUS
  | MBLUE_ERR_SEMAPHORE
  | MBLUE_ERR_STRING_FMT
  | MBLUE_ERR_LOG_LEVEL
  | MBLUE_ELEMENT_EXIT
  | MBLUE_OK

text \<open>The value the C enumeration gives each code: the first is -64 and the following ones
  count up, the last two are given explicitly.\<close>

primrec errcode_value :: "mblue_errcode \<Rightarrow> int" where
  "errcode_value MBLUE_REMOTE_CALL_PENDING = -64"
| "errcode_value MBLUE_WAIT_ACK = -63"
| "errcode_value MBLUE_ERR_RESET = -62"
| "errcode_value MBLUE_ERR_STATE_NEED_DELAY = -61"
| "errcode_value MBLUE_ERR_UNKNOWN = -60"
| "errcode_value MBLUE_ERR_UNKNOWN_AT_RESP = -59"
| "errcode_value MBLUE_ERR_PPP = -58"
| "errcode_value MBLUE_ERR_DNS = -57"
| "errcode_value MBLUE_ERR_SOCKET = -56"
| "errcode_value MBLUE_ERR_INVALID_PARAMETER = -55"
| "errcode_value MBLUE_ERR_PB_ENCODE = -54"
| "errcode_value MBLUE_ERR_PB_DECODE = -53"
| "errcode_value MBLUE_ERR_TIMEOUT = -52"
| "errcode_value MBLUE_ERR_CORRUPT_MEM = -51"
| "errcode_value MBLUE_ERR_NOMEM = -50"
| "errcode_value MBLUE_ERR_NOELEMENT = -49"
| "errcode_value MBLUE_ERR_SYSBUS = -48"
| "errcode_value MBLUE_ERR_SEMAPHORE = -47"
| "errcode_value MBLUE_ERR_STRING_FMT = -46"
| "errcode_value MBLUE_ERR_LOG_LEVEL = -45"
| "errcode_value MBLUE_ELEMENT_EXIT = -1"
| "errcode_value MBLUE_OK = 0"

definition IN_ERRCODE_RANGE :: "int \<Rightarrow> bool" where
  "IN_ERRCODE_RANGE v \<longleftrightarrow>
     errcode_value MBLUE_REMOTE_CALL_PENDING \<le> v \<and> v \<le> errcode_value MBLUE_OK"

lemma errcode_value_inj: "errcode_value a = errcode_value b \<longleftrightarrow> a = b"
  by (cases a; cases b; simp)

lemma errcode_value_range: "-64 \<le> errcode_value e" "errcode_value e \<le> 0"
  by (cases e; simp)+

lemma errcode_in_range: "IN_ERRCODE_RANGE (errcode_value e)"
  by (simp add: IN_ERRCODE_RANGE_def errcode_value_range)

section \<open>Tagged pointers and size macros\<close>

text \<open>A \<^verbatim>\<open>SMART_DATA\<close> is a pointer whose two low bits say what it holds.\<close>

type_synonym SMART_DATA = u32

definition GET_POINTER :: "SMART_DATA \<Rightarrow> u32" where
  "GET_POINTER x = push_bit 2 (drop_bit 2 x)"

definition PB_PAYLOAD :: "SMART_DATA \<Rightarrow> bool" where
  "PB_PAYLOAD x \<longleftrightarrow> x \<noteq> 0 \<and> x AND 3 = 0"

definition INTEGER_P :: "SMART_DATA \<Rightarrow> bool" where
  "INTEGER_P x \<longleftrightarrow> x AND 3 = 1"

definition POINTER_S :: "SMART_DATA \<Rightarrow> bool" where
  "POINTER_S x \<longleftrightarrow> GET_POINTER x \<noteq> 0 \<and> x AND 3 = 2"

definition POINTER_H :: "SMART_DATA \<Rightarrow> bool" where
  "POINTER_H x \<longleftrightarrow> GET_POINTER x \<noteq> 0 \<and> x AND 3 = 3"

definition GET_INTEGER :: "SMART_DATA \<Rightarrow> u32" where
  "GET_INTEGER x = drop_bit 2 x"

definition MAKE_INTEGER :: "u32 \<Rightarrow> SMART_DATA" where
  "MAKE_INTEGER x = push_bit 2 x OR 1"

definition MAKE_POINTER_S :: "u32 \<Rightarrow> SMART_DATA" where
  "MAKE_POINTER_S x = x OR 2"

definition MAKE_POINTER_H :: "u32 \<Rightarrow> SMART_DATA" where
  "MAKE_POINTER_H x = x OR 3"

text \<open>An error code cast to a pointer-sized integer, and the cast back to the enumeration's
  underlying \<^verbatim>\<open>int\<close>.\<close>

definition errcode_word :: "mblue_errcode \<Rightarrow> u32" where
  "errcode_word e = word_of_int (errcode_value e)"

definition word_errcode :: "u32 \<Rightarrow> int" where
  "word_errcode w = sint w"

definition alignment_up :: "u32 \<Rightarrow> u32 \<Rightarrow> u32" where
  "alignment_up a size' = (a + size' - 1) AND NOT (size' - 1)"

definition MBLUE_ALIGN :: "u32 \<Rightarrow> u32" where
  "MBLUE_ALIGN a = alignment_up a 16"

definition c_MIN :: "u32 \<Rightarrow> u32 \<Rightarrow> u32" where
  "c_MIN a b = (if a < b then a else b)"

lemma unat_c_MIN [word_norm]: "unat (c_MIN a b) = min (unat a) (unat b)"
  by (simp add: c_MIN_def word_less_nat_alt)

section \<open>Bounds-checked memory copies\<close>

text \<open>\<^verbatim>\<open>memcpy\<close> between two arrays: \<open>None\<close> when either range leaves its array.\<close>

definition memcpy :: "'a list \<Rightarrow> nat \<Rightarrow> 'a list \<Rightarrow> nat \<Rightarrow> nat \<Rightarrow> 'a list option" where
  "memcpy dst doff src soff n =
     (if doff + n \<le> length dst \<and> soff + n \<le> length src
      then Some (take doff dst @ take n (drop soff src) @ drop (doff + n) dst)
      else None)"

lemma memcpy_Some [mem_simps]:
  "doff + n \<le> length dst \<Longrightarrow> soff + n \<le> length src \<Longrightarrow>
   memcpy dst doff src soff n = Some (take doff dst @ take n (drop soff src) @ drop (doff + n) dst)"
  by (simp add: memcpy_def)

lemma memcpy_length: "memcpy dst doff src soff n = Some d \<Longrightarrow> length d = length dst"
  by (auto simp: memcpy_def split: if_splits)

lemma memcpy_nth:
  assumes "memcpy dst doff src soff n = Some d" and "i < length dst"
  shows "d ! i = (if doff \<le> i \<and> i < doff + n then src ! (soff + (i - doff)) else dst ! i)"
proof -
  from assms(1) have b: "doff + n \<le> length dst" "soff + n \<le> length src"
    and d: "d = take doff dst @ take n (drop soff src) @ drop (doff + n) dst"
    by (auto simp: memcpy_def split: if_splits)
  have "length (take n (drop soff src)) = n" using b by simp
  with b assms(2) show ?thesis by (auto simp: d nth_append)
qed

section \<open>Words\<close>

lemma unat_small32: "n < 2 ^ 32 \<Longrightarrow> unat (of_nat n :: u32) = n"
  by (simp add: unat_of_nat)

lemma unat_diff_wrap:
  fixes a b :: "'a::len word"
  assumes "unat b \<le> unat a"
  shows "unat (a - b) = unat a - unat b"
  using assms by (simp add: unat_sub word_le_nat_alt)

lemma sint_small:
  fixes w :: u32
  assumes "unat w < 2 ^ 31"
  shows "sint w = int (unat w)"
proof -
  have "uint w < 2 ^ 31" using assms by (metis of_nat_less_iff of_nat_numeral of_nat_power uint_nat)
  then have "signed_take_bit 31 (uint w) = uint w" 
    using unsigned_greater_eq [of w, where 'a = int] by (intro signed_take_bit_int_eq_self) linarith+
  then show ?thesis by (simp add: sint_uint)
qed

lemma unat_and_mask [word_norm]:
  fixes x :: "'a::len word"
  shows "unat (x AND mask k) = unat x mod 2 ^ k"
  by (simp add: take_bit_eq_mask [symmetric] take_bit_eq_mod [symmetric] unsigned_take_bit_eq)

text \<open>The address of a block is a payload, and survives as a word.\<close>

lemma aligned_payload:
  assumes "p \<noteq> 0" "p mod 16 = 0" "p < 2 ^ 32"
  shows "unat (of_nat p :: u32) = p" "PB_PAYLOAD (of_nat p)"
proof -
  show u: "unat (of_nat p :: u32) = p" by (rule unat_small32 [OF assms(3)])
  have "(of_nat p :: u32) AND 3 = 0"
  proof (rule word_unat_eq_iff [THEN iffD2])
    have "unat ((of_nat p :: u32) AND 3) = p mod 4"
      using unat_and_mask [of "of_nat p :: u32" 2] u by (simp add: mask_eq_exp_minus_1)
    moreover have "p mod 4 = 0" using assms(2) by presburger
    ultimately show "unat ((of_nat p :: u32) AND 3) = unat (0 :: u32)" by simp
  qed
  moreover have "(of_nat p :: u32) \<noteq> 0" using u assms(1) by (metis unat_0)
  ultimately show "PB_PAYLOAD (of_nat p)" by (simp add: PB_PAYLOAD_def)
qed

lemma and_not_mask: "(x::'a::len word) AND NOT (mask n) = push_bit n (drop_bit n x)"
  by (rule bit_word_eqI) (auto simp: bit_simps)

lemma unat_push_drop [word_norm]: "unat (push_bit n (drop_bit n (x::'a::len word))) = 2 ^ n * (unat x div 2 ^ n)"
proof -
  have "push_bit n (drop_bit n x) = x - take_bit n x"
    by (metis bits_ident add_diff_cancel_right')
  moreover have t: "unat (take_bit n x) = unat x mod 2 ^ n"
    by (simp add: unsigned_take_bit_eq flip: take_bit_eq_mod)
  moreover have "unat (x - take_bit n x) = unat x - unat (take_bit n x)"
    by (rule unat_sub) (simp add: word_le_nat_alt t)
  ultimately show ?thesis by (simp add: minus_mod_eq_mult_div)
qed

lemma unat_lt_bit: "unat (w::'a::len word) < 2 ^ k \<Longrightarrow> k \<le> n \<Longrightarrow> \<not> bit w n"
proof -
  assume "unat w < 2 ^ k" "k \<le> n"
  then have "unat w < 2 ^ n" by (meson less_le_trans one_le_numeral power_increasing)
  then have "unat w div 2 ^ n = 0" by simp
  then have "\<not> bit (unat w) n" by (simp add: bit_iff_odd)
  then show "\<not> bit w n" by (simp add: bit_unsigned_iff)
qed

lemma and_not_disjoint: "a AND t = 0 \<Longrightarrow> a AND NOT t = (a::'a::len word)"
proof -
  assume d: "a AND t = 0"
  have "a = (a AND t) OR (a AND NOT t)" by (simp flip: bit.conj_disj_distrib)
  then show ?thesis unfolding d by simp
qed

lemma xor_right_cancel: "a XOR c = b XOR c \<longleftrightarrow> a = (b::'a::len word)"
  by (metis xor.assoc xor_self_eq xor.right_neutral)

lemma take_xor_push_drop: "(x::'a::len word) = take_bit n x XOR push_bit n (drop_bit n x)"
proof (rule bit_word_eqI)
  fix k
  show "bit x k = bit (take_bit n x XOR push_bit n (drop_bit n x)) k"
    by (cases "k < n") (auto simp: bit_simps dest: bit_imp_le_length)
qed

lemma ucast_byte_inj: "(ucast a :: u32) = ucast (b::byte) \<longleftrightarrow> a = b"
proof
  assume eq: "(ucast a :: u32) = ucast b"
  show "a = b"
  proof (rule bit_word_eqI)
    fix n assume "n < LENGTH(8)"
    with arg_cong [OF eq, of "\<lambda>w. bit w n"] show "bit a n = bit b n" by (simp add: bit_simps)
  qed
qed simp

text \<open>The test \<^verbatim>\<open>(x & (x - 1)) == 0\<close> recognises powers of two.\<close>

lemma and_pred_zero_nat: "n AND (n - 1) = 0 \<Longrightarrow> 0 < n \<Longrightarrow> \<exists>k. n = 2 ^ k" for n :: nat
proof (induction n rule: less_induct)
  case (less n)
  show ?case
  proof (cases "even n")
    case True
    then obtain m where m: "n = 2 * m" by blast
    with less.prems have "0 < m" by simp
    then have "(n - 1) div 2 = m - 1" by (simp add: m)
    then have "n AND (n - 1) = 2 * (m AND (m - 1))"
      by (simp add: m and_nat_rec [of "2 * m"])
    with less.prems have "m AND (m - 1) = 0" by simp
    with less.IH [of m] \<open>0 < m\<close> m obtain k where "m = 2 ^ k" by auto
    then show ?thesis using m by (intro exI [of _ "Suc k"]) simp
  next
    case False
    then obtain m where m: "n = 2 * m + 1" by (elim oddE)
    then have "n AND (n - 1) = 2 * m"
      by (simp add: and_nat_rec [of "Suc (2 * m)"])
    with less.prems m have "n = 2 ^ 0" by simp
    then show ?thesis by blast
  qed
qed

lemma and_pred_zero_word:
  fixes x :: "'a::len word"
  assumes "x \<noteq> 0" and "x AND (x - 1) = 0"
  shows "\<exists>k < LENGTH('a). unat x = 2 ^ k"
proof -
  have "unat x AND (unat x - 1) = unat (x AND (x - 1))"
    using assms(1) by (simp add: unsigned_and_eq unat_minus_one)
  with assms obtain k where k: "unat x = 2 ^ k"
    using and_pred_zero_nat [of "unat x"] by (auto simp: unat_gt_0)
  moreover have "k < LENGTH('a)"
    using unsigned_less [of x, where 'a = nat] by (simp add: k)
  ultimately show ?thesis by blast
qed

section \<open>Properties\<close>

text \<open>An integer below \<open>2 ^ 30\<close> survives \<^verbatim>\<open>MAKE_INTEGER\<close> and \<^verbatim>\<open>GET_INTEGER\<close> and is
  recognised as an integer and as nothing else; a word-aligned non-null pointer survives its two
  tagged forms, which are told apart.\<close>

lemma smart_data_roundtrip:
  fixes x p :: u32
  assumes "unat x < 2 ^ 30" and "p AND 3 = 0" and "p \<noteq> 0"
  shows "GET_INTEGER (MAKE_INTEGER x) = x \<and> INTEGER_P (MAKE_INTEGER x) \<and> \<not> PB_PAYLOAD (MAKE_INTEGER x) \<and>
    GET_POINTER (MAKE_POINTER_S p) = p \<and> POINTER_S (MAKE_POINTER_S p) \<and> \<not> POINTER_H (MAKE_POINTER_S p) \<and>
    GET_POINTER (MAKE_POINTER_H p) = p \<and> POINTER_H (MAKE_POINTER_H p) \<and> \<not> POINTER_S (MAKE_POINTER_H p) \<and>
    PB_PAYLOAD p"
proof -
  have low: "w AND 3 = take_bit 2 w" for w :: u32
    by (simp add: take_bit_eq_mask mask_eq_exp_minus_1)
  have tag: "take_bit 2 (push_bit 2 x OR 1) = 1"
    by (simp add: take_bit_or take_bit_push_bit)
  have ptag: "take_bit 2 (p OR 2) = 2" "take_bit 2 (p OR 3) = 3"
    using assms(2) by (simp_all add: take_bit_or low)
  have x: "\<not> bit x n" if "30 \<le> n" for n using assms(1) that by (rule unat_lt_bit)
  have gi: "drop_bit 2 (push_bit 2 x OR 1) = x"
    by (rule bit_word_eqI) (use x in \<open>auto simp: bit_simps bit_1_iff simp flip: not_le\<close>)
  have up: "push_bit 2 (drop_bit 2 p) = p"
    using bits_ident [of 2 p] assms(2) by (simp add: low)
  have gp: "push_bit 2 (drop_bit 2 (p OR 2)) = p" "push_bit 2 (drop_bit 2 (p OR 3)) = p"
    using up by (simp_all add: drop_bit_or)
  show ?thesis
    using assms(2,3) tag ptag gi gp
    by (simp add: GET_INTEGER_def MAKE_INTEGER_def INTEGER_P_def PB_PAYLOAD_def GET_POINTER_def
        MAKE_POINTER_S_def MAKE_POINTER_H_def POINTER_S_def POINTER_H_def low)
qed

lemma smart_data_roundtrip_example:
  "GET_INTEGER (MAKE_INTEGER 5) = 5 \<and> INTEGER_P (MAKE_INTEGER 5) \<and> \<not> PB_PAYLOAD (MAKE_INTEGER 5) \<and>
    GET_POINTER (MAKE_POINTER_S 16) = 16 \<and> POINTER_S (MAKE_POINTER_S 16) \<and> \<not> POINTER_H (MAKE_POINTER_S 16) \<and>
    GET_POINTER (MAKE_POINTER_H 16) = 16 \<and> POINTER_H (MAKE_POINTER_H 16) \<and> \<not> POINTER_S (MAKE_POINTER_H 16) \<and>
    PB_PAYLOAD 16"
  by (rule smart_data_roundtrip) simp_all

text \<open>An error code other than \<^verbatim>\<open>MBLUE_OK\<close> does not survive \<^verbatim>\<open>MAKE_INTEGER\<close> and \<^verbatim>\<open>GET_INTEGER\<close>: the
  two top bits of its negative value are shifted out and come back as zeros, so the comparison of
  a returned code with a negative enumerator never holds.\<close>

lemma errcode_lost:
  "word_errcode (GET_INTEGER (MAKE_INTEGER (errcode_word e))) = errcode_value e \<longleftrightarrow> e = MBLUE_OK"
  by (cases e) (simp_all add: word_errcode_def GET_INTEGER_def MAKE_INTEGER_def errcode_word_def
      mask_eq_exp_minus_1)

end
