(* ===== verification/Fifo_Spec.thy ===== *)
theory Fifo_Spec
  imports Mblue_Prelude
begin

text \<open>
  The abstract contract of a bounded first-in first-out buffer, which the byte ring of
  \<^verbatim>\<open>mblue_fifo.c\<close> and the pointer queue of \<^verbatim>\<open>mblue_queue.c\<close> both promise: an input operation
  appends some items (it says how many it accepted), an output operation takes items from the
  front, and the number of items never exceeds the capacity. Inputs and outputs may fail only by
  accepting or returning nothing. The consequence for arbitrary interleavings of inputs and
  outputs is proved here once.
\<close>

datatype ('i, 'o) fifo_op = Put 'i | Get 'o

locale bounded_fifo =
  fixes put :: "'s \<Rightarrow> 'i \<Rightarrow> ('a list \<times> 's) option"
    and get :: "'s \<Rightarrow> 'o \<Rightarrow> ('a list \<times> 's) option"
    and items :: "'s \<Rightarrow> 'a list"
    and capacity :: "'s \<Rightarrow> nat"
    and inv :: "'s \<Rightarrow> bool"
    and valid_in :: "'i \<Rightarrow> bool"
    and valid_out :: "'o \<Rightarrow> bool"
  assumes put_ok: "inv s \<Longrightarrow> valid_in i \<Longrightarrow>
            \<exists>acc s'. put s i = Some (acc, s') \<and> inv s' \<and> items s' = items s @ acc \<and>
                     capacity s' = capacity s"
    and get_ok: "inv s \<Longrightarrow> valid_out k \<Longrightarrow>
            \<exists>out s'. get s k = Some (out, s') \<and> inv s' \<and> items s = out @ items s' \<and>
                     capacity s' = capacity s"
    and items_bound: "inv s \<Longrightarrow> length (items s) \<le> capacity s"
begin

text \<open>A run of operations: the items accepted, the items delivered, the final state.\<close>

fun run :: "('i, 'o) fifo_op list \<Rightarrow> 's \<Rightarrow> ('a list \<times> 'a list \<times> 's) option" where
  "run [] s = Some ([], [], s)"
| "run (Put i # ops) s =
     do { (acc, s) \<leftarrow> put s i; (ins, outs, s) \<leftarrow> run ops s; Some (acc @ ins, outs, s) }"
| "run (Get k # ops) s =
     do { (out, s) \<leftarrow> get s k; (ins, outs, s) \<leftarrow> run ops s; Some (ins, out @ outs, s) }"

definition valid_op :: "('i, 'o) fifo_op \<Rightarrow> bool" where
  "valid_op p \<longleftrightarrow> (case p of Put i \<Rightarrow> valid_in i | Get k \<Rightarrow> valid_out k)"

lemma run_in_order:
  assumes "inv s" and "list_all valid_op ops"
  shows "\<exists>ins outs s'. run ops s = Some (ins, outs, s') \<and> inv s' \<and>
           items s @ ins = outs @ items s' \<and> length (items s') \<le> capacity s"
  using assms
proof (induction ops arbitrary: s)
  case Nil
  then show ?case by (simp add: items_bound)
next
  case (Cons p ops)
  show ?case
  proof (cases p)
    case (Put i)
    with Cons.prems obtain acc s1 where s1: "put s i = Some (acc, s1)" "inv s1"
      "items s1 = items s @ acc" "capacity s1 = capacity s"
      using put_ok [of s i] by (auto simp: valid_op_def)
    with Cons.IH [OF s1(2)] Cons.prems Put show ?thesis by fastforce
  next
    case (Get k)
    with Cons.prems obtain out s1 where s1: "get s k = Some (out, s1)" "inv s1"
      "items s = out @ items s1" "capacity s1 = capacity s"
      using get_ok [of s k] by (auto simp: valid_op_def)
    with Cons.IH [OF s1(2)] Cons.prems Get show ?thesis by fastforce
  qed
qed

end

end
