(* ===== verification/Pal_Heap.thy ===== *)
theory Pal_Heap
  imports Mblue_Prelude
begin

text \<open>
  The heap wrapper of \<^verbatim>\<open>pal/heap/mblue_heap.c\<close>. The platform's \<^verbatim>\<open>malloc\<close> may refuse any request:
  which ones it refuses is part of the heap (\<open>hfail\<close>, by the number of the call), so every
  allocation of the code has both branches. A block is the list of its bytes; releasing a block
  that is not live, and clearing more bytes than the block has, are memory errors (\<open>None\<close>).
\<close>

section \<open>The platform heap\<close>

text \<open>Addresses are handed out in units of 16 bytes and never again; \<open>hnext\<close> counts the units so far. At
  least one byte is left between two blocks.\<close>

record mblue_heap =
  hblocks :: "nat \<Rightarrow> byte list option"
  hnext :: nat
  hcalls :: nat
  hfail :: "nat \<Rightarrow> bool"

definition imalloc :: "u32 \<Rightarrow> mblue_heap \<Rightarrow> nat \<times> mblue_heap" where
  "imalloc size' hp =
     (if hfail hp (hcalls hp) then (0, hp\<lparr>hcalls := Suc (hcalls hp)\<rparr>)
      else (16 * Suc (hnext hp),
            hp\<lparr>hblocks := (hblocks hp)(16 * Suc (hnext hp) \<mapsto> replicate (unat size') 0xCD),
               hnext := hnext hp + Suc (unat size' div 16), hcalls := Suc (hcalls hp)\<rparr>))"

definition ifree :: "nat \<Rightarrow> mblue_heap \<Rightarrow> mblue_heap option" where
  "ifree p hp =
     (case hblocks hp p of None \<Rightarrow> None | Some _ \<Rightarrow> Some (hp\<lparr>hblocks := (hblocks hp)(p := None)\<rparr>))"

definition memset0 :: "nat \<Rightarrow> nat \<Rightarrow> mblue_heap \<Rightarrow> mblue_heap option" where
  "memset0 p n hp =
     (case hblocks hp p of None \<Rightarrow> None
      | Some bs \<Rightarrow> if n \<le> length bs
                   then Some (hp\<lparr>hblocks := (hblocks hp)(p \<mapsto> replicate n 0 @ drop n bs)\<rparr>)
                   else None)"

section \<open>The wrapper\<close>

definition heap_malloc :: "u32 \<Rightarrow> mblue_heap \<Rightarrow> nat \<times> mblue_heap" where
  "heap_malloc size' hp = imalloc size' hp"

definition heap_free :: "nat \<Rightarrow> mblue_heap \<Rightarrow> mblue_heap option" where
  "heap_free p hp = ifree p hp"

definition mblue_malloc :: "u32 \<Rightarrow> mblue_heap \<Rightarrow> (nat \<times> mblue_heap) option" where
  "mblue_malloc size' hp =
     (let (p, hp) = heap_malloc (MBLUE_ALIGN size') hp in
      if p \<noteq> 0 then do { hp \<leftarrow> memset0 p (unat size') hp; Some (p, hp) }
      else Some (0, hp))"

definition mblue_free :: "nat \<Rightarrow> mblue_heap \<Rightarrow> mblue_heap option" where
  "mblue_free p hp = heap_free p hp"

text \<open>The blocks are below the next address, and no two of them overlap.\<close>

definition heap_wf :: "mblue_heap \<Rightarrow> bool" where
  "heap_wf hp \<longleftrightarrow>
     (\<forall>p bs. hblocks hp p = Some bs \<longrightarrow> p \<noteq> 0 \<and> p \<le> 16 * hnext hp \<and> p + length bs \<le> 16 * Suc (hnext hp)) \<and>
     (\<forall>p q bs. hblocks hp p = Some bs \<longrightarrow> hblocks hp q \<noteq> None \<longrightarrow> p < q \<longrightarrow> p + length bs \<le> q)"

lemma heap_wf_fresh: "heap_wf hp \<Longrightarrow> hblocks hp (16 * Suc (hnext hp)) = None"
  unfolding heap_wf_def by (cases "hblocks hp (16 * Suc (hnext hp))") fastforce+

lemma heap_wf_extend:
  assumes "heap_wf hp" and "n = hnext hp + Suc (length bs div 16)"
  shows "heap_wf (hp\<lparr>hblocks := (hblocks hp)(16 * Suc (hnext hp) \<mapsto> bs), hnext := n, hcalls := k\<rparr>)"
proof -
  have l: "length bs \<le> 16 * Suc (length bs div 16)"
    by presburger
  let ?P = "16 * Suc (hnext hp)"
  let ?hp = "hp\<lparr>hblocks := (hblocks hp)(?P \<mapsto> bs), hnext := n, hcalls := k\<rparr>"
  have old: "p \<noteq> 0 \<and> p \<le> 16 * hnext hp \<and> p + length as \<le> ?P" if "hblocks hp p = Some as" for p as
    using assms(1) that unfolding heap_wf_def by blast
  have apart: "p + length as \<le> q" if "hblocks hp p = Some as" "hblocks hp q \<noteq> None" "p < q" for p q as
    using assms(1) that unfolding heap_wf_def by blast
  have n: "hnext hp + Suc (length bs div 16) = n" by (simp add: assms(2))
  have "p \<noteq> 0 \<and> p \<le> 16 * n \<and> p + length as \<le> 16 * Suc n" if "hblocks ?hp p = Some as" for p as
  proof (cases "p = ?P")
    case True
    then show ?thesis using that l n by auto
  next
    case False
    then have "hblocks hp p = Some as" using that by simp
    then show ?thesis using old n by fastforce
  qed
  moreover have "p + length as \<le> q" if a: "hblocks ?hp p = Some as" "hblocks ?hp q \<noteq> None" "p < q" for p q as
  proof (cases "p = ?P")
    case True
    then obtain cs where "hblocks hp q = Some cs" using a by auto
    then show ?thesis using old [of q cs] a(3) True by simp
  next
    case False
    then have p: "hblocks hp p = Some as" using a(1) by simp
    then show ?thesis using old [OF p] apart [OF p _ a(3)] a(2) by (cases "q = ?P") simp_all
  qed
  ultimately show ?thesis unfolding heap_wf_def by simp
qed

lemma heap_wf_drop: "heap_wf hp \<Longrightarrow> heap_wf (hp\<lparr>hblocks := (hblocks hp)(p := None)\<rparr>)"
  unfolding heap_wf_def by auto

text \<open>The heap before the first allocation, on a platform that grants every request.\<close>

definition fresh_heap :: mblue_heap where
  "fresh_heap = \<lparr>hblocks = (\<lambda>_. None), hnext = 0, hcalls = 0, hfail = (\<lambda>_. False)\<rparr>"

lemma fresh_heap_wf [simp]: "heap_wf fresh_heap"
  by (simp add: heap_wf_def fresh_heap_def)

section \<open>Alignment\<close>

lemma MBLUE_ALIGN_nat:
  assumes "unat a \<le> 2 ^ 32 - 16"
  shows "unat (MBLUE_ALIGN a) = 16 * ((unat a + 15) div 16)"
proof -
  have m: "x AND - 16 = push_bit 4 (drop_bit 4 x)" for x :: u32
    using and_not_mask [of x 4] by (simp add: mask_eq_exp_minus_1)
  have "unat (a + 15) = unat a + 15"
    using assms by (subst unat_add_lem [THEN iffD1]) auto
  then show ?thesis
    by (simp add: MBLUE_ALIGN_def alignment_up_def m unat_push_drop add.commute)
qed

lemma MBLUE_ALIGN_wraps:
  assumes "2 ^ 32 - 16 < unat a"
  shows "MBLUE_ALIGN a = 0"
proof -
  have m: "x AND - 16 = push_bit 4 (drop_bit 4 x)" for x :: u32
    using and_not_mask [of x 4] by (simp add: mask_eq_exp_minus_1)
  have "unat (a + 15) = unat a + 15 - 2 ^ 32"
    using assms unsigned_less [of a, where 'a = nat] by (simp add: unat_word_ariths mod_if)
  moreover have "unat a + 15 - 2 ^ 32 < 16" using unsigned_less [of a, where 'a = nat] by simp
  ultimately have "unat (MBLUE_ALIGN a) = 0"
    by (simp add: MBLUE_ALIGN_def alignment_up_def m unat_push_drop add.commute)
  then show ?thesis by (simp add: unat_eq_0)
qed

section \<open>What the wrapper guarantees\<close>

lemma mblue_malloc_refused:
  "hfail hp (hcalls hp) \<Longrightarrow> mblue_malloc s hp = Some (0, hp\<lparr>hcalls := Suc (hcalls hp)\<rparr>)"
  by (simp add: mblue_malloc_def heap_malloc_def imalloc_def)

lemma mblue_malloc_granted:
  assumes "\<not> hfail hp (hcalls hp)" and "unat s \<le> 2 ^ 32 - 16"
  shows "mblue_malloc s hp = Some (16 * Suc (hnext hp),
    hp\<lparr>hblocks := (hblocks hp)(16 * Suc (hnext hp) \<mapsto>
         replicate (unat s) 0 @ replicate (16 * ((unat s + 15) div 16) - unat s) 0xCD),
       hnext := hnext hp + Suc ((unat s + 15) div 16), hcalls := Suc (hcalls hp)\<rparr>)"
proof -
  have "unat s \<le> 16 * ((unat s + 15) div 16)" by arith
  then show ?thesis using assms
    by (simp add: mblue_malloc_def heap_malloc_def imalloc_def memset0_def MBLUE_ALIGN_nat)
qed

lemma mblue_malloc_overrun:
  assumes "\<not> hfail hp (hcalls hp)" and "2 ^ 32 - 16 < unat s"
  shows "mblue_malloc s hp = None"
  using assms by (simp add: mblue_malloc_def heap_malloc_def imalloc_def memset0_def MBLUE_ALIGN_wraps)

text \<open>A live block: at least as many bytes as were asked for, all of them zero.\<close>

definition zeroed :: "nat \<Rightarrow> byte list \<Rightarrow> bool" where
  "zeroed n bs \<longleftrightarrow> n \<le> length bs \<and> take n bs = replicate n 0"

text \<open>The interface the allocating components use.\<close>

locale allocator =
  fixes malloc :: "u32 \<Rightarrow> 'h \<Rightarrow> (nat \<times> 'h) option"
    and free :: "nat \<Rightarrow> 'h \<Rightarrow> 'h option"
    and live :: "'h \<Rightarrow> nat \<Rightarrow> byte list option"
    and wf :: "'h \<Rightarrow> bool"
    and limit :: nat
  assumes malloc_total: "wf h \<Longrightarrow> unat s \<le> limit \<Longrightarrow> \<exists>p h'. malloc s h = Some (p, h')"
    and malloc_wf: "wf h \<Longrightarrow> unat s \<le> limit \<Longrightarrow> malloc s h = Some (p, h') \<Longrightarrow> wf h'"
    and malloc_null: "wf h \<Longrightarrow> unat s \<le> limit \<Longrightarrow> malloc s h = Some (0, h') \<Longrightarrow> live h' = live h"
    and malloc_block: "wf h \<Longrightarrow> unat s \<le> limit \<Longrightarrow> malloc s h = Some (p, h') \<Longrightarrow> p \<noteq> 0 \<Longrightarrow>
          live h p = None \<and> (\<exists>bs. live h' = (live h)(p \<mapsto> bs) \<and> zeroed (unat s) bs)"
    and free_live: "wf h \<Longrightarrow> live h p = Some bs \<Longrightarrow>
          \<exists>h'. free p h = Some h' \<and> wf h' \<and> live h' = (live h)(p := None)"
begin

text \<open>Allocate, then release: nothing is left behind.\<close>

lemma malloc_free:
  assumes "wf h" "unat s \<le> limit" "malloc s h = Some (p, h')" "p \<noteq> 0"
  shows "\<exists>h''. free p h' = Some h'' \<and> wf h'' \<and> live h'' = live h"
proof -
  from malloc_block [OF assms] obtain bs
    where b: "live h p = None" "live h' = (live h)(p \<mapsto> bs)" by blast
  with free_live [OF malloc_wf [OF assms(1-3)], of p bs] show ?thesis
    by (auto simp: fun_upd_idem)
qed

text \<open>The two-step allocation of the object constructors: the second request is made only when
  the first was granted, and the first block is released when the second is refused.\<close>

lemma malloc_two:
  assumes w: "wf h" and s: "unat s1 \<le> limit" "unat s2 \<le> limit"
  obtains (first_refused) h1 where "malloc s1 h = Some (0, h1)" "wf h1" "live h1 = live h"
  | (second_refused) p h1 h2 h3 where "malloc s1 h = Some (p, h1)" "p \<noteq> 0"
      "malloc s2 h1 = Some (0, h2)" "free p h2 = Some h3" "wf h3" "live h3 = live h"
  | (granted) p q h1 h2 bs cs where "malloc s1 h = Some (p, h1)" "p \<noteq> 0"
      "malloc s2 h1 = Some (q, h2)" "q \<noteq> 0" "p \<noteq> q" "wf h2" "live h p = None" "live h q = None"
      "live h2 = (live h)(p \<mapsto> bs, q \<mapsto> cs)" "zeroed (unat s1) bs" "zeroed (unat s2) cs"
proof -
  from malloc_total [OF w s(1)] obtain p h1 where m1: "malloc s1 h = Some (p, h1)" by blast
  note w1 = malloc_wf [OF w s(1) m1]
  from malloc_total [OF w1 s(2)] obtain q h2 where m2: "malloc s2 h1 = Some (q, h2)" by blast
  note w2 = malloc_wf [OF w1 s(2) m2]
  show thesis
  proof (cases "p = 0")
    case True
    with first_refused m1 w1 malloc_null [OF w s(1)] show thesis by blast
  next
    case p: False
    from malloc_block [OF w s(1) m1 p] obtain bs
      where bs: "live h p = None" "live h1 = (live h)(p \<mapsto> bs)" "zeroed (unat s1) bs" by blast
    show thesis
    proof (cases "q = 0")
      case True
      with malloc_null [OF w1 s(2)] m2 bs(2) have "live h2 = (live h)(p \<mapsto> bs)" by simp
      with free_live [OF w2, of p bs] bs(1) obtain h3
        where "free p h2 = Some h3" "wf h3" "live h3 = live h" by (auto simp: fun_upd_idem)
      with second_refused m1 m2 p True show thesis by blast
    next
      case q: False
      from malloc_block [OF w1 s(2) m2 q] obtain cs where cs: "live h1 q = None"
        "live h2 = (live h1)(q \<mapsto> cs)" "zeroed (unat s2) cs" by blast
      with bs have "p \<noteq> q" "live h q = None" by (auto split: if_splits)
      with bs cs show thesis by (intro granted [OF m1 p m2 q _ w2]) simp_all
    qed
  qed
qed

end

interpretation mheap: allocator mblue_malloc mblue_free hblocks heap_wf "2 ^ 32 - 16"
proof unfold_locales
  fix h h' :: mblue_heap and s :: u32 and p :: nat
  assume w: "heap_wf h" and s: "unat s \<le> 2 ^ 32 - 16"
  let ?p = "16 * Suc (hnext h)"
  note fresh = heap_wf_fresh [OF w]
  have l: "unat s + (16 * ((unat s + 15) div 16) - unat s) = 16 * ((unat s + 15) div 16)" by presburger
  consider (no) "mblue_malloc s h = Some (0, h\<lparr>hcalls := Suc (hcalls h)\<rparr>)"
    | (yes) bs where "mblue_malloc s h = Some (?p, h\<lparr>hblocks := (hblocks h)(?p \<mapsto> bs),
          hnext := hnext h + Suc (length bs div 16), hcalls := Suc (hcalls h)\<rparr>)" "zeroed (unat s) bs"
  proof (cases "hfail h (hcalls h)")
    case True
    then show thesis by (rule no [OF mblue_malloc_refused])
  next
    case False
    let ?bs = "replicate (unat s) 0 @ replicate (16 * ((unat s + 15) div 16) - unat s) 0xCD"
    show thesis by (rule yes [of ?bs]) (use mblue_malloc_granted [OF False s] l in \<open>simp_all add: zeroed_def\<close>)
  qed
  note malloc_cases = this
  show "\<exists>p h'. mblue_malloc s h = Some (p, h')"
    by (cases rule: malloc_cases) blast+
  show "mblue_malloc s h = Some (p, h') \<Longrightarrow> heap_wf h'"
  proof (cases rule: malloc_cases)
    case no
    moreover assume "mblue_malloc s h = Some (p, h')"
    ultimately show ?thesis using w by (auto simp: heap_wf_def)
  next
    case (yes bs)
    moreover assume "mblue_malloc s h = Some (p, h')"
    ultimately show ?thesis using heap_wf_extend [OF w refl, where bs = bs and k = "Suc (hcalls h)"] by auto
  qed
  show "mblue_malloc s h = Some (0, h') \<Longrightarrow> hblocks h' = hblocks h"
    by (cases rule: malloc_cases) auto
  show "mblue_malloc s h = Some (p, h') \<Longrightarrow> p \<noteq> 0 \<Longrightarrow> hblocks h p = None \<and>
      (\<exists>bs. hblocks h' = (hblocks h)(p \<mapsto> bs) \<and> zeroed (unat s) bs)"
    using fresh by (cases rule: malloc_cases) auto
next
  fix h :: mblue_heap and p :: nat and bs
  assume "heap_wf h" "hblocks h p = Some bs"
  then show "\<exists>h'. mblue_free p h = Some h' \<and> heap_wf h' \<and> hblocks h' = (hblocks h)(p := None)"
    using heap_wf_drop by (auto simp: mblue_free_def heap_free_def ifree_def)
qed

section \<open>Properties\<close>

text \<open>\<^verbatim>\<open>mblue_malloc\<close> of at most \<open>2 ^ 32 - 16\<close> bytes either returns \<^verbatim>\<open>NULL\<close> and
  leaves every block as it was, or returns a block that was not live before, which holds at least
  the requested number of bytes, all zero; \<^verbatim>\<open>mblue_free\<close> of it restores the heap.\<close>

lemma heap_wrapper:
  assumes "heap_wf hp" and "unat s \<le> 2 ^ 32 - 16"
  shows "\<exists>p hp'. mblue_malloc s hp = Some (p, hp') \<and> heap_wf hp' \<and>
    (if p = 0 then hblocks hp' = hblocks hp
     else hblocks hp p = None \<and> (\<exists>bs. hblocks hp' = (hblocks hp)(p \<mapsto> bs) \<and> zeroed (unat s) bs) \<and>
       (\<exists>hp''. mblue_free p hp' = Some hp'' \<and> hblocks hp'' = hblocks hp))"
proof -
  obtain p hp' where m: "mblue_malloc s hp = Some (p, hp')" using mheap.malloc_total [OF assms] by blast
  show ?thesis
  proof (cases "p = 0")
    case True
    with m mheap.malloc_wf [OF assms m] mheap.malloc_null [OF assms] show ?thesis by auto
  next
    case False
    with m mheap.malloc_wf [OF assms m] mheap.malloc_block [OF assms m False] mheap.malloc_free [OF assms m False]
    show ?thesis by auto
  qed
qed

lemma heap_wrapper_example:
  "\<exists>p hp'. mblue_malloc 20 fresh_heap = Some (p, hp') \<and> heap_wf hp' \<and>
    (if p = 0 then hblocks hp' = hblocks fresh_heap
     else hblocks fresh_heap p = None \<and> (\<exists>bs. hblocks hp' = (hblocks fresh_heap)(p \<mapsto> bs) \<and> zeroed (unat (20::u32)) bs) \<and>
       (\<exists>hp''. mblue_free p hp' = Some hp'' \<and> hblocks hp'' = hblocks fresh_heap))"
  by (rule heap_wrapper) simp_all

text \<open>A request of more than \<open>2 ^ 32 - 16\<close> bytes makes the alignment wrap to zero, so
  the block that is granted is empty and clearing it overruns it.\<close>

lemma heap_overrun:
  assumes "\<not> hfail hp (hcalls hp)" and "2 ^ 32 - 16 < unat s"
  shows "MBLUE_ALIGN s = 0 \<and> mblue_malloc s hp = None"
  using mblue_malloc_overrun [OF assms] MBLUE_ALIGN_wraps [OF assms(2)] by simp

lemma heap_overrun_example:
  "MBLUE_ALIGN 0xFFFFFFF8 = 0 \<and> mblue_malloc 0xFFFFFFF8 fresh_heap = None"
  by (rule heap_overrun) (simp_all add: fresh_heap_def)

end
