(* ===== verification/Ring_Fifo.thy ===== *)
theory Ring_Fifo
  imports Fifo_Spec Pal_Heap
begin

text \<open>
  The byte ring of \<^verbatim>\<open>middleware/components/ring_buffer/mblue_fifo.c\<close>: the \<^verbatim>\<open>in\<close> and \<^verbatim>\<open>out\<close>
  counters run freely over 32 bits and are reduced with a mask, which is sound because the size
  is a power of two. The ring is shown to be a bounded FIFO of bytes, through counter
  wrap-around, with every \<^verbatim>\<open>memcpy\<close> inside its buffers.
\<close>

section \<open>The ring\<close>

definition is_power_of_2 :: "u32 \<Rightarrow> bool" where
  "is_power_of_2 x \<longleftrightarrow> x \<noteq> 0 \<and> x AND (x - 1) = 0"

record mblue_fifo =
  buffer :: "byte list"
  fifo_size :: u32
  fifo_in :: u32
  fifo_out :: u32

definition kfifo_init :: "mblue_fifo \<Rightarrow> byte list \<Rightarrow> u32 \<Rightarrow> mblue_fifo" where
  "kfifo_init fifo buf size' = fifo\<lparr>buffer := buf, fifo_size := size', fifo_in := 0, fifo_out := 0\<rparr>"

definition kfifo_reset :: "mblue_fifo \<Rightarrow> mblue_fifo" where
  "kfifo_reset fifo = fifo\<lparr>fifo_in := 0, fifo_out := 0\<rparr>"

definition kfifo_len :: "mblue_fifo \<Rightarrow> u32" where
  "kfifo_len fifo = fifo_in fifo - fifo_out fifo"

definition kfifo_put :: "mblue_fifo \<Rightarrow> byte list \<Rightarrow> u32 \<Rightarrow> (u32 \<times> mblue_fifo) option" where
  "kfifo_put fifo data len =
     (let len = c_MIN len (fifo_size fifo - fifo_in fifo + fifo_out fifo);
          off = fifo_in fifo AND (fifo_size fifo - 1);
          l = c_MIN len (fifo_size fifo - off)
      in do {
        buf \<leftarrow> memcpy (buffer fifo) (unat off) data 0 (unat l);
        buf \<leftarrow> memcpy buf 0 data (unat l) (unat (len - l));
        Some (len, fifo\<lparr>buffer := buf, fifo_in := fifo_in fifo + len\<rparr>)
      })"

definition kfifo_get :: "mblue_fifo \<Rightarrow> byte list \<Rightarrow> u32 \<Rightarrow> (u32 \<times> byte list \<times> mblue_fifo) option" where
  "kfifo_get fifo dst len =
     (let len = c_MIN len (fifo_in fifo - fifo_out fifo);
          off = fifo_out fifo AND (fifo_size fifo - 1);
          l = c_MIN len (fifo_size fifo - off)
      in do {
        dst \<leftarrow> memcpy dst 0 (buffer fifo) (unat off) (unat l);
        dst \<leftarrow> memcpy dst (unat l) (buffer fifo) 0 (unat (len - l));
        Some (len, dst, fifo\<lparr>fifo_out := fifo_out fifo + len\<rparr>)
      })"

text \<open>The constructor: the buffer is allocated first, the object second; the caller is given
  the addresses of both with the initialised ring, or \<open>None\<close> for \<^verbatim>\<open>NULL\<close>. The outer option is a
  memory error.\<close>

definition sizeof_mblue_fifo :: u32 where
  "sizeof_mblue_fifo = 36"

definition mblue_fifo_alloc ::
    "u32 \<Rightarrow> mblue_heap \<Rightarrow> ((nat \<times> nat \<times> mblue_fifo) option \<times> mblue_heap) option" where
  "mblue_fifo_alloc size' hp =
     do {
       (buf, hp) \<leftarrow> mblue_malloc size' hp;
       if buf = 0 then Some (None, hp)
       else do {
         (fifo, hp) \<leftarrow> mblue_malloc sizeof_mblue_fifo hp;
         if fifo = 0 then do { hp \<leftarrow> mblue_free buf hp; Some (None, hp) }
         else do {
           bytes \<leftarrow> hblocks hp buf;
           Some (Some (fifo, buf,
                   kfifo_init \<lparr>buffer = [], fifo_size = 0, fifo_in = 0, fifo_out = 0\<rparr>
                     (take (unat size') bytes) size'), hp)
         }
       }
     }"

definition mblue_fifo_free :: "nat \<Rightarrow> nat \<Rightarrow> mblue_heap \<Rightarrow> mblue_heap option" where
  "mblue_fifo_free fifo buf hp = do { hp \<leftarrow> mblue_free buf hp; mblue_free fifo hp }"

section \<open>Invariant and contents\<close>

definition fifo_wf :: "mblue_fifo \<Rightarrow> bool" where
  "fifo_wf f \<longleftrightarrow> is_power_of_2 (fifo_size f) \<and> length (buffer f) = unat (fifo_size f) \<and>
     unat (kfifo_len f) \<le> unat (fifo_size f)"

definition fifo_contents :: "mblue_fifo \<Rightarrow> byte list" where
  "fifo_contents f =
     map (\<lambda>i. buffer f ! ((unat (fifo_out f) + i) mod unat (fifo_size f))) [0..<unat (kfifo_len f)]"

lemma length_fifo_contents [simp]: "length (fifo_contents f) = unat (kfifo_len f)"
  by (simp add: fifo_contents_def)

lemma fifo_wf_size:
  assumes "fifo_wf f"
  obtains k where "k < 32" "unat (fifo_size f) = 2 ^ k" "fifo_size f - 1 = mask k"
proof -
  from assms have "fifo_size f \<noteq> 0" "fifo_size f AND (fifo_size f - 1) = 0"
    by (simp_all add: fifo_wf_def is_power_of_2_def)
  then obtain k where k: "k < 32" "unat (fifo_size f) = 2 ^ k"
    using and_pred_zero_word [of "fifo_size f"] by auto
  have "(of_nat (unat (fifo_size f)) :: u32) = of_nat (2 ^ k)" by (simp only: k(2))
  then have "fifo_size f = 2 ^ k" by simp
  then have "fifo_size f - 1 = mask k" by (simp add: mask_eq_exp_minus_1)
  with k that show thesis by blast
qed

text \<open>The counters modulo the size: adding the length to \<^verbatim>\<open>out\<close> gives \<^verbatim>\<open>in\<close>, also when \<^verbatim>\<open>in\<close> has
  wrapped past \<open>2 ^ 32\<close> and \<^verbatim>\<open>out\<close> has not.\<close>

lemma mod_pow2_wrap:
  fixes a b :: u32
  assumes "k < 32"
  shows "unat (a + b) mod 2 ^ k = (unat a + unat b) mod 2 ^ k"
proof -
  have "(2::nat) ^ k dvd 2 ^ 32" using assms by (intro le_imp_power_dvd) simp
  then show ?thesis by (simp add: unat_word_ariths mod_mod_cancel)
qed

lemma fifo_in_mod:
  assumes "k < 32"
  shows "unat (fifo_in f) mod 2 ^ k = (unat (fifo_out f) + unat (kfifo_len f)) mod 2 ^ k"
  using mod_pow2_wrap [OF assms, of "fifo_out f" "kfifo_len f"] by (simp add: kfifo_len_def)

section \<open>Writing and reading around the end of the buffer\<close>

text \<open>The two copies of \<^verbatim>\<open>__kfifo_put\<close> write \<open>n\<close> bytes at consecutive positions modulo the size.\<close>

lemma ring_write:
  assumes S: "length buf = S" "a < S" "n \<le> S" "n \<le> length src" and l: "l = min n (S - a)"
  obtains buf' buf'' where "memcpy buf a src 0 l = Some buf'" "memcpy buf' 0 src l (n - l) = Some buf''"
    "length buf'' = S"
    "\<And>t. t < S \<Longrightarrow> buf'' ! ((a + t) mod S) = (if t < n then src ! t else buf ! ((a + t) mod S))"
proof -
  have b: "a + l \<le> S" "l \<le> length src" "n - l \<le> S" "l + (n - l) \<le> length src"
    using S l by auto
  obtain buf' where m1: "memcpy buf a src 0 l = Some buf'"
    using b S by (simp add: memcpy_def)
  then have l1: "length buf' = S" using S(1) by (simp add: memcpy_length)
  then obtain buf'' where m2: "memcpy buf' 0 src l (n - l) = Some buf''"
    using b by (simp add: memcpy_def)
  then have l2: "length buf'' = S" using l1 by (simp add: memcpy_length)
  have "buf'' ! ((a + t) mod S) = (if t < n then src ! t else buf ! ((a + t) mod S))" if t: "t < S" for t
  proof -
    let ?j = "(a + t) mod S"
    have j: "?j < S" using t by simp
    have jt: "?j = (if a + t < S then a + t else a + t - S)"
      using t S(2) by (simp add: mod_if)
    have "buf'' ! ?j = (if ?j < n - l then src ! (l + ?j)
        else if a \<le> ?j \<and> ?j < a + l then src ! (?j - a) else buf ! ?j)"
      using memcpy_nth [OF m2, of ?j] memcpy_nth [OF m1, of ?j] j l1 S(1) by simp
    also have "\<dots> = (if t < n then src ! t else buf ! ?j)"
    proof (cases "a + t < S")
      case True
      then have "\<not> ?j < n - l" using jt l S by auto
      with True jt show ?thesis using l by auto
    next
      case False
      then have "\<not> (a \<le> ?j \<and> ?j < a + l)" "?j < n - l \<longleftrightarrow> t < n" "t < n \<Longrightarrow> l + ?j = t"
        using jt l S t by auto
      then show ?thesis by auto
    qed
    finally show ?thesis .
  qed
  with m1 m2 l2 that show thesis by blast
qed

text \<open>The two copies of \<^verbatim>\<open>__kfifo_get\<close> read \<open>n\<close> bytes from consecutive positions modulo the size.\<close>

lemma ring_read:
  assumes S: "length buf = S" "a < S" "n \<le> S" "n \<le> length dst" and l: "l = min n (S - a)"
  obtains dst' where "memcpy dst 0 buf a l = Some dst'"
    "memcpy dst' l buf 0 (n - l) = Some (map (\<lambda>i. buf ! ((a + i) mod S)) [0..<n] @ drop n dst)"
proof -
  have b: "l \<le> length dst" "a + l \<le> S" "n - l \<le> S" "l + (n - l) \<le> length dst" "l + (n - l) = n"
    using S l by auto
  obtain dst' where m1: "memcpy dst 0 buf a l = Some dst'"
    using b S(1) by (simp add: memcpy_def)
  then have l1: "length dst' = length dst" by (simp add: memcpy_length)
  then obtain d where m2: "memcpy dst' l buf 0 (n - l) = Some d"
    using b S(1) by (simp add: memcpy_def)
  have "d = map (\<lambda>i. buf ! ((a + i) mod S)) [0..<n] @ drop n dst"
  proof (rule nth_equalityI)
    show "length d = length (map (\<lambda>i. buf ! ((a + i) mod S)) [0..<n] @ drop n dst)"
      using m2 l1 S(4) by (simp add: memcpy_length)
    fix i assume "i < length d"
    then have i: "i < length dst" using m2 l1 by (simp add: memcpy_length)
    have "d ! i = (if l \<le> i \<and> i < n then buf ! (i - l) else if i < l then buf ! (a + i) else dst ! i)"
      using memcpy_nth [OF m2, of i] memcpy_nth [OF m1, of i] i l1 b(5) by simp
    moreover have "(a + i) mod S = (if i < l then a + i else i - l)" if "i < n"
      using that l S(2,3) by (auto simp: mod_if)
    ultimately show "d ! i = (map (\<lambda>i. buf ! ((a + i) mod S)) [0..<n] @ drop n dst) ! i"
      using i by (auto simp: nth_append l)
  qed
  with m1 m2 that show thesis by blast
qed

section \<open>Put and get as list operations\<close>

lemma kfifo_free_space:
  assumes "fifo_wf f"
  shows "unat (fifo_size f - fifo_in f + fifo_out f) = unat (fifo_size f) - unat (kfifo_len f)"
proof -
  have e: "fifo_size f - fifo_in f + fifo_out f = fifo_size f - kfifo_len f"
    by (simp add: kfifo_len_def)
  show ?thesis
    unfolding e using assms by (intro unat_diff_wrap) (simp add: fifo_wf_def)
qed

text \<open>Positions counted from \<^verbatim>\<open>out\<close> and from \<^verbatim>\<open>in\<close>: they differ by the length, modulo the size.\<close>

lemma mod_shift:
  fixes p q l s i :: nat
  assumes "(p + l) mod s = q mod s" and "l \<le> s"
  shows "(p + i) mod s = (q + (s - l + i)) mod s"
proof -
  have "(q + (s - l + i)) mod s = (p + l + (s - l + i)) mod s"
    using assms(1) by (metis mod_add_left_eq)
  also have "p + l + (s - l + i) = (p + i) + s" using assms(2) by simp
  finally show ?thesis by simp
qed

lemma kfifo_put_spec:
  assumes wf: "fifo_wf f" and len: "unat len \<le> length data"
  defines "n \<equiv> min (unat len) (unat (fifo_size f) - length (fifo_contents f))"
  obtains f' where "kfifo_put f data len = Some (of_nat n, f')" "fifo_wf f'"
    "fifo_contents f' = fifo_contents f @ take n data" "fifo_size f' = fifo_size f"
proof -
  obtain k where k: "k < 32" "unat (fifo_size f) = 2 ^ k" "fifo_size f - 1 = mask k"
    using fifo_wf_size [OF wf] .
  define S where "S = unat (fifo_size f)"
  define L where "L = unat (kfifo_len f)"
  define off where "off = fifo_in f AND (fifo_size f - 1)"
  define w where "w = c_MIN len (fifo_size f - fifo_in f + fifo_out f)"
  define l where "l = c_MIN w (fifo_size f - off)"
  have L: "L \<le> S" and bl: "length (buffer f) = S"
    using wf by (simp_all add: fifo_wf_def L_def S_def)
  have w: "unat w = n" by (simp add: w_def unat_c_MIN kfifo_free_space [OF wf] n_def)
  have wn: "w = of_nat n" by (simp add: w [symmetric])
  have off: "unat off = unat (fifo_in f) mod S" by (simp add: off_def k unat_and_mask S_def)
  then have offS: "unat off < S" using k(2) by (simp add: S_def)
  have l: "unat l = min n (S - unat off)"
    using offS by (simp add: l_def unat_c_MIN w unat_diff_wrap S_def)
  have nl: "unat (w - l) = n - unat l" using l w by (simp add: unat_diff_wrap)
  have n: "n \<le> S" "n \<le> length data" "L + n \<le> S" using len L by (auto simp: n_def L_def S_def)
  obtain buf' buf'' where m: "memcpy (buffer f) (unat off) data 0 (unat l) = Some buf'"
    "memcpy buf' 0 data (unat l) (n - unat l) = Some buf''" "length buf'' = S"
    and nth: "\<And>t. t < S \<Longrightarrow> buf'' ! ((unat off + t) mod S)
                = (if t < n then data ! t else buffer f ! ((unat off + t) mod S))"
    by (rule ring_write [OF bl offS n(1,2) l]) blast
  define f' where "f' = f\<lparr>buffer := buf'', fifo_in := fifo_in f + w\<rparr>"
  have put: "kfifo_put f data len = Some (of_nat n, f')"
    using m nl unfolding kfifo_put_def Let_def w_def [symmetric] off_def [symmetric]
      l_def [symmetric] by (simp add: f'_def wn)
  have "kfifo_len f' = kfifo_len f + w" by (simp add: f'_def kfifo_len_def)
  moreover have "L + n < 2 ^ 32"
    using n(3) unsigned_less [of "fifo_size f", where 'a = nat] by (simp add: S_def)
  ultimately have len': "unat (kfifo_len f') = L + n"
    by (simp add: w L_def unat_word_ariths)
  have S': "fifo_size f' = fifo_size f" by (simp add: f'_def)
  have flds: "fifo_size f' = fifo_size f" "buffer f' = buf''" "fifo_out f' = fifo_out f"
    by (simp_all add: f'_def)
  have wf': "fifo_wf f'" using wf m(3) n(3) len' by (simp add: fifo_wf_def f'_def S_def)
  have inS: "(unat (fifo_out f) + L) mod S = unat off mod S"
    using fifo_in_mod [OF k(1), of f] by (simp add: k L_def S_def off)
  have "fifo_contents f' = fifo_contents f @ take n data"
  proof (rule nth_equalityI)
    show "length (fifo_contents f') = length (fifo_contents f @ take n data)"
      using n(2) by (simp add: len' L_def)
    fix i assume "i < length (fifo_contents f')"
    then have i: "i < L + n" by (simp add: len')
    define t where "t = (if i < L then S - L + i else i - L)"
    have tS: "t < S" using i n(3) L by (auto simp: t_def)
    have pos: "(unat (fifo_out f) + i) mod S = (unat off + t) mod S"
    proof (cases "i < L")
      case True
      then show ?thesis using mod_shift [OF inS L, of i] by (simp add: t_def)
    next
      case False
      then have "unat (fifo_out f) + i = unat (fifo_out f) + L + t" by (simp add: t_def)
      then show ?thesis using inS by (metis mod_add_left_eq)
    qed
    have "fifo_contents f' ! i = buf'' ! ((unat off + t) mod S)"
      using i pos by (simp add: fifo_contents_def len' flds flip: S_def)
    also have "\<dots> = (if i < L then buffer f ! ((unat (fifo_out f) + i) mod S) else data ! (i - L))"
      using nth [OF tS] pos n(3) i by (auto simp: t_def)
    also have "\<dots> = (fifo_contents f @ take n data) ! i"
      using i by (simp add: nth_append fifo_contents_def flip: L_def S_def)
    finally show "fifo_contents f' ! i = (fifo_contents f @ take n data) ! i" .
  qed
  with put wf' S' that show thesis by blast
qed

lemma kfifo_get_spec:
  assumes wf: "fifo_wf f" and len: "unat len \<le> length dst"
  defines "n \<equiv> min (unat len) (length (fifo_contents f))"
  obtains f' where "kfifo_get f dst len = Some (of_nat n, take n (fifo_contents f) @ drop n dst, f')"
    "fifo_wf f'" "fifo_contents f' = drop n (fifo_contents f)" "fifo_size f' = fifo_size f"
proof -
  obtain k where k: "k < 32" "unat (fifo_size f) = 2 ^ k" "fifo_size f - 1 = mask k"
    using fifo_wf_size [OF wf] .
  define S where "S = unat (fifo_size f)"
  define L where "L = unat (kfifo_len f)"
  define off where "off = fifo_out f AND (fifo_size f - 1)"
  define w where "w = c_MIN len (fifo_in f - fifo_out f)"
  define l where "l = c_MIN w (fifo_size f - off)"
  have L: "L \<le> S" and bl: "length (buffer f) = S"
    using wf by (simp_all add: fifo_wf_def L_def S_def)
  have w: "unat w = n" by (simp add: w_def unat_c_MIN n_def kfifo_len_def)
  have wn: "w = of_nat n" by (simp add: w [symmetric])
  have off: "unat off = unat (fifo_out f) mod S" by (simp add: off_def k unat_and_mask S_def)
  then have offS: "unat off < S" using k(2) by (simp add: S_def)
  have l: "unat l = min n (S - unat off)"
    using offS by (simp add: l_def unat_c_MIN w unat_diff_wrap S_def)
  have nl: "unat (w - l) = n - unat l" using l w by (simp add: unat_diff_wrap)
  have n: "n \<le> S" "n \<le> length dst" "n \<le> L" using len L by (auto simp: n_def L_def S_def)
  have cont: "map (\<lambda>i. buffer f ! ((unat off + i) mod S)) [0..<n] = take n (fifo_contents f)"
    using n(3) by (simp add: fifo_contents_def off mod_add_left_eq take_map flip: S_def L_def)
  obtain dst' where m: "memcpy dst 0 (buffer f) (unat off) (unat l) = Some dst'"
    "memcpy dst' (unat l) (buffer f) 0 (n - unat l) = Some (take n (fifo_contents f) @ drop n dst)"
    by (rule ring_read [OF bl offS n(1,2) l]) (simp add: cont)
  define f' where "f' = f\<lparr>fifo_out := fifo_out f + w\<rparr>"
  have get: "kfifo_get f dst len = Some (of_nat n, take n (fifo_contents f) @ drop n dst, f')"
    using m nl unfolding kfifo_get_def Let_def w_def [symmetric] off_def [symmetric]
      l_def [symmetric] by (simp add: f'_def wn)
  have "kfifo_len f' = kfifo_len f - w" by (simp add: f'_def kfifo_len_def)
  then have len': "unat (kfifo_len f') = L - n"
    using n(3) by (simp add: w L_def unat_diff_wrap)
  have flds: "fifo_size f' = fifo_size f" "buffer f' = buffer f" "fifo_out f' = fifo_out f + w"
    by (simp_all add: f'_def)
  have wf': "fifo_wf f'" using wf len' L by (simp add: fifo_wf_def flds flip: S_def)
  have "fifo_contents f' = drop n (fifo_contents f)"
  proof (rule nth_equalityI)
    show "length (fifo_contents f') = length (drop n (fifo_contents f))"
      by (simp add: len' L_def)
    fix i assume "i < length (fifo_contents f')"
    then have i: "i < L - n" by (simp add: len')
    have "unat (fifo_out f + w) mod S = (unat (fifo_out f) + n) mod S"
      using mod_pow2_wrap [OF k(1), of "fifo_out f" w] by (simp add: k S_def w)
    then have "(unat (fifo_out f + w) + i) mod S = (unat (fifo_out f) + (n + i)) mod S"
      by (metis mod_add_left_eq add.assoc)
    then show "fifo_contents f' ! i = drop n (fifo_contents f) ! i"
      using i nth_upt [of 0 "n + i" L] by (simp add: fifo_contents_def len' flds flip: S_def L_def)
  qed
  moreover have "fifo_size f' = fifo_size f" by (simp add: f'_def)
  ultimately show thesis using get wf' that by blast
qed

lemma kfifo_init_spec:
  assumes "is_power_of_2 s" and "length buf = unat s"
  shows "fifo_wf (kfifo_init f buf s)" "fifo_contents (kfifo_init f buf s) = []"
  using assms by (simp_all add: fifo_wf_def fifo_contents_def kfifo_init_def kfifo_len_def)

lemma kfifo_reset_spec:
  assumes "fifo_wf f"
  shows "fifo_wf (kfifo_reset f)" "fifo_contents (kfifo_reset f) = []"
  using assms by (simp_all add: fifo_wf_def fifo_contents_def kfifo_reset_def kfifo_len_def)

section \<open>The ring is a bounded FIFO\<close>

text \<open>The ring's operations in the shape of the contract: what was accepted is the prefix of the
  data whose length \<^verbatim>\<open>put\<close> returned, what was delivered is what \<^verbatim>\<open>get\<close> wrote to the destination.\<close>

definition ring_put :: "mblue_fifo \<Rightarrow> byte list \<Rightarrow> (byte list \<times> mblue_fifo) option" where
  "ring_put f data = do { (n, f') \<leftarrow> kfifo_put f data (of_nat (length data)); Some (take (unat n) data, f') }"

definition ring_get :: "mblue_fifo \<Rightarrow> byte list \<Rightarrow> (byte list \<times> mblue_fifo) option" where
  "ring_get f dst = do { (n, dst', f') \<leftarrow> kfifo_get f dst (of_nat (length dst)); Some (take (unat n) dst', f') }"

definition c_sized :: "byte list \<Rightarrow> bool" where
  "c_sized bs \<longleftrightarrow> length bs < 2 ^ 32"

lemma ring_put_spec:
  assumes "fifo_wf f" and "c_sized data"
  shows "\<exists>f'. ring_put f data = Some (take (unat (fifo_size f) - length (fifo_contents f)) data, f') \<and>
    fifo_wf f' \<and> fifo_contents f' = fifo_contents f @ take (unat (fifo_size f) - length (fifo_contents f)) data \<and>
    fifo_size f' = fifo_size f"
proof -
  have u: "unat (of_nat (length data) :: u32) = length data"
    using assms(2) by (simp add: c_sized_def unat_of_nat)
  define n where "n = min (length data) (unat (fifo_size f) - length (fifo_contents f))"
  have "n < 2 ^ 32" using assms(2) by (simp add: n_def c_sized_def)
  then have un: "unat (of_nat n :: u32) = n" by (simp add: unat_of_nat)
  obtain f' where "kfifo_put f data (of_nat (length data)) = Some (of_nat n, f')" "fifo_wf f'"
    "fifo_contents f' = fifo_contents f @ take n data" "fifo_size f' = fifo_size f"
    using kfifo_put_spec [OF assms(1), of "of_nat (length data)" data] unfolding u n_def by auto
  moreover have "take n data = take (unat (fifo_size f) - length (fifo_contents f)) data"
    by (simp add: n_def min_def)
  ultimately show ?thesis by (simp add: ring_put_def un)
qed

lemma ring_get_spec:
  assumes "fifo_wf f" and "c_sized dst"
  shows "\<exists>f'. ring_get f dst = Some (take (length dst) (fifo_contents f), f') \<and> fifo_wf f' \<and>
    fifo_contents f' = drop (length dst) (fifo_contents f) \<and> fifo_size f' = fifo_size f"
proof -
  have u: "unat (of_nat (length dst) :: u32) = length dst"
    using assms(2) by (simp add: c_sized_def unat_of_nat)
  define n where "n = min (length dst) (length (fifo_contents f))"
  have "n < 2 ^ 32" using assms(2) by (simp add: n_def c_sized_def)
  then have un: "unat (of_nat n :: u32) = n" by (simp add: unat_of_nat)
  obtain f' where "kfifo_get f dst (of_nat (length dst)) = Some (of_nat n, take n (fifo_contents f) @ drop n dst, f')"
    "fifo_wf f'" "fifo_contents f' = drop n (fifo_contents f)" "fifo_size f' = fifo_size f"
    using kfifo_get_spec [OF assms(1), of "of_nat (length dst)" dst] unfolding u n_def by auto
  moreover have "take n (take n (fifo_contents f) @ drop n dst) = take (length dst) (fifo_contents f)"
    "drop n (fifo_contents f) = drop (length dst) (fifo_contents f)"
    by (simp_all add: n_def min_def)
  ultimately show ?thesis by (simp add: ring_get_def un)
qed

interpretation ring: bounded_fifo ring_put ring_get fifo_contents "\<lambda>f. unat (fifo_size f)" fifo_wf c_sized c_sized
proof unfold_locales
  fix f data assume "fifo_wf f" "c_sized data"
  from ring_put_spec [OF this]
  show "\<exists>acc f'. ring_put f data = Some (acc, f') \<and> fifo_wf f' \<and> fifo_contents f' = fifo_contents f @ acc \<and>
      unat (fifo_size f') = unat (fifo_size f)" by auto
next
  fix f dst assume "fifo_wf f" "c_sized dst"
  from ring_get_spec [OF this]
  show "\<exists>out f'. ring_get f dst = Some (out, f') \<and> fifo_wf f' \<and> fifo_contents f = out @ fifo_contents f' \<and>
      unat (fifo_size f') = unat (fifo_size f)" by auto
next
  fix f assume "fifo_wf f"
  then show "length (fifo_contents f) \<le> unat (fifo_size f)" by (simp add: fifo_wf_def)
qed

lemma mblue_fifo_alloc_spec:
  assumes "heap_wf hp" and "is_power_of_2 s"
  shows "\<exists>r hp'. mblue_fifo_alloc s hp = Some (r, hp') \<and> heap_wf hp' \<and>
    (case r of None \<Rightarrow> hblocks hp' = hblocks hp
     | Some (p, b, f) \<Rightarrow> fifo_wf f \<and> fifo_contents f = [] \<and> fifo_size f = s \<and>
         (\<exists>hp''. mblue_fifo_free p b hp' = Some hp'' \<and> heap_wf hp'' \<and> hblocks hp'' = hblocks hp))"
proof -
  obtain k where "k < 32" "unat s = 2 ^ k"
    using assms(2) and_pred_zero_word [of s] by (auto simp: is_power_of_2_def)
  then have "unat s \<le> 2 ^ 31" using power_increasing [of k 31 "2::nat"] by simp
  then have s: "unat s \<le> 2 ^ 32 - 16" "unat sizeof_mblue_fifo \<le> 2 ^ 32 - 16"
    by (simp_all add: sizeof_mblue_fifo_def)
  show ?thesis
  proof (rule mheap.malloc_two [OF assms(1) s])
    fix h1 assume "mblue_malloc s hp = Some (0, h1)" "heap_wf h1" "hblocks h1 = hblocks hp"
    then show ?thesis by (simp add: mblue_fifo_alloc_def)
  next
    fix p h1 h2 h3
    assume "mblue_malloc s hp = Some (p, h1)" "p \<noteq> 0" "mblue_malloc sizeof_mblue_fifo h1 = Some (0, h2)"
      "mblue_free p h2 = Some h3" "heap_wf h3" "hblocks h3 = hblocks hp"
    then show ?thesis by (simp add: mblue_fifo_alloc_def)
  next
    fix p q h1 h2 bs cs
    assume a: "mblue_malloc s hp = Some (p, h1)" "p \<noteq> 0" "mblue_malloc sizeof_mblue_fifo h1 = Some (q, h2)"
      "q \<noteq> 0" "p \<noteq> q" "heap_wf h2" "hblocks hp p = None" "hblocks hp q = None"
      "hblocks h2 = (hblocks hp)(p \<mapsto> bs, q \<mapsto> cs)" "zeroed (unat s) bs" "zeroed (unat sizeof_mblue_fifo) cs"
    then obtain h3 where h3: "mblue_free p h2 = Some h3" "heap_wf h3" "hblocks h3 = (hblocks h2)(p := None)"
      using mheap.free_live [of h2 p bs] by auto
    with a obtain h4 where "mblue_free q h3 = Some h4" "heap_wf h4" "hblocks h4 = (hblocks h3)(q := None)"
      using mheap.free_live [of h3 q cs] by auto
    moreover from a h3 have "(hblocks h3)(q := None) = hblocks hp" by (auto simp: fun_eq_iff)
    ultimately have free: "\<exists>h'. mblue_fifo_free q p h2 = Some h' \<and> heap_wf h' \<and> hblocks h' = hblocks hp"
      using h3 by (simp add: mblue_fifo_free_def)
    have "length (take (unat s) bs) = unat s" using a(10) by (simp add: zeroed_def)
    note kfifo_init_spec [OF assms(2) this]
    moreover have "fifo_size (kfifo_init f b s) = s" for f b by (simp add: kfifo_init_def)
    ultimately show ?thesis using a free by (simp add: mblue_fifo_alloc_def)
  qed
qed

section \<open>Properties\<close>

text \<open>C10 (ring\_in\_order): every sequence of puts and gets on a well-formed ring runs without leaving a buffer; the bytes
  delivered, followed by the bytes still inside, are exactly the bytes that were inside at the start
  followed by the bytes accepted, in order; and the ring never holds more than its size.\<close>

theorem ring_in_order:
  assumes "fifo_wf f" and "list_all (ring.valid_op) ops"
  shows "\<exists>ins outs f'. ring.run ops f = Some (ins, outs, f') \<and> fifo_wf f' \<and>
    fifo_contents f @ ins = outs @ fifo_contents f' \<and> length (fifo_contents f') \<le> unat (fifo_size f)"
  by (rule ring.run_in_order [OF assms])

definition sample_ring :: mblue_fifo where
  "sample_ring = \<lparr>buffer = [1, 2, 3, 4], fifo_size = 4, fifo_in = 1, fifo_out = 0xFFFFFFFF\<rparr>"

lemma sample_ring_wf: "fifo_wf sample_ring"
  by (simp add: sample_ring_def fifo_wf_def is_power_of_2_def kfifo_len_def)

theorem ring_in_order_witness:
  "\<exists>ins outs f'. ring.run [Put [7, 8], Get [0], Put [9]] sample_ring = Some (ins, outs, f') \<and> fifo_wf f' \<and>
    fifo_contents sample_ring @ ins = outs @ fifo_contents f' \<and>
    length (fifo_contents f') \<le> unat (fifo_size sample_ring)"
  by (rule ring_in_order) (simp_all add: sample_ring_wf ring.valid_op_def c_sized_def)

text \<open>\<^verbatim>\<open>__kfifo_put\<close> accepts exactly the smaller of the requested length and the free space, returns
  that number and appends that prefix of the data, also when the write wraps around the end of the
  buffer or the counters wrap past \<open>2 ^ 32\<close>.\<close>

lemma ring_put_exact:
  assumes "fifo_wf f" and "unat len \<le> length data"
  shows "\<exists>f'. kfifo_put f data len = Some (of_nat (min (unat len) (unat (fifo_size f) - length (fifo_contents f))), f') \<and>
    fifo_wf f' \<and> fifo_size f' = fifo_size f \<and>
    fifo_contents f' = fifo_contents f @ take (min (unat len) (unat (fifo_size f) - length (fifo_contents f))) data"
  using kfifo_put_spec [OF assms] by metis

lemma ring_put_exact_example:
  "\<exists>f'. kfifo_put sample_ring [7, 8, 9] 3 = Some (of_nat (min (unat (3::u32)) (unat (fifo_size sample_ring) - length (fifo_contents sample_ring))), f') \<and>
    fifo_wf f' \<and> fifo_size f' = fifo_size sample_ring \<and>
    fifo_contents f' = fifo_contents sample_ring @ take (min (unat (3::u32)) (unat (fifo_size sample_ring) - length (fifo_contents sample_ring))) [7, 8, 9]"
  by (rule ring_put_exact) (simp_all add: sample_ring_wf)

text \<open>\<^verbatim>\<open>__kfifo_get\<close> delivers exactly the smaller of the requested length and the number of bytes
  inside, writes them in order to the front of the destination, leaves the rest of the destination
  alone and removes them from the ring.\<close>

lemma ring_get_exact:
  assumes "fifo_wf f" and "unat len \<le> length dst"
  shows "\<exists>f'. kfifo_get f dst len = Some (of_nat (min (unat len) (length (fifo_contents f))),
      take (min (unat len) (length (fifo_contents f))) (fifo_contents f) @ drop (min (unat len) (length (fifo_contents f))) dst, f') \<and>
    fifo_wf f' \<and> fifo_size f' = fifo_size f \<and>
    fifo_contents f' = drop (min (unat len) (length (fifo_contents f))) (fifo_contents f)"
  using kfifo_get_spec [OF assms] by metis

lemma ring_get_exact_example:
  "\<exists>f'. kfifo_get sample_ring [0, 0] 1 = Some (of_nat (min (unat (1::u32)) (length (fifo_contents sample_ring))),
      take (min (unat (1::u32)) (length (fifo_contents sample_ring))) (fifo_contents sample_ring) @ drop (min (unat (1::u32)) (length (fifo_contents sample_ring))) [0, 0], f') \<and>
    fifo_wf f' \<and> fifo_size f' = fifo_size sample_ring \<and>
    fifo_contents f' = drop (min (unat (1::u32)) (length (fifo_contents sample_ring))) (fifo_contents sample_ring)"
  by (rule ring_get_exact) (simp_all add: sample_ring_wf)

text \<open>For a size that is a power of two the constructor never faults: it returns \<^verbatim>\<open>NULL\<close> with nothing left
  allocated, or an empty well-formed ring of that size whose release gives back both blocks.\<close>

lemma ring_lifecycle:
  assumes "heap_wf hp" and "is_power_of_2 s"
  shows "\<exists>r hp'. mblue_fifo_alloc s hp = Some (r, hp') \<and> heap_wf hp' \<and>
    (case r of None \<Rightarrow> hblocks hp' = hblocks hp
     | Some (p, b, f) \<Rightarrow> fifo_wf f \<and> fifo_contents f = [] \<and> fifo_size f = s \<and>
         (\<exists>hp''. mblue_fifo_free p b hp' = Some hp'' \<and> heap_wf hp'' \<and> hblocks hp'' = hblocks hp))"
  by (rule mblue_fifo_alloc_spec [OF assms])

lemma ring_lifecycle_example:
  "\<exists>r hp'. mblue_fifo_alloc 64 fresh_heap = Some (r, hp') \<and> heap_wf hp' \<and>
    (case r of None \<Rightarrow> hblocks hp' = hblocks fresh_heap
     | Some (p, b, f) \<Rightarrow> fifo_wf f \<and> fifo_contents f = [] \<and> fifo_size f = 64 \<and>
         (\<exists>hp''. mblue_fifo_free p b hp' = Some hp'' \<and> heap_wf hp'' \<and> hblocks hp'' = hblocks fresh_heap))"
  by (rule ring_lifecycle) (simp_all add: is_power_of_2_def)

end
