(* ===== verification/Msg_Queue.thy ===== *)
theory Msg_Queue
  imports Fifo_Spec Pal_Heap
begin

text \<open>
  The circular pointer queue of \<^verbatim>\<open>middleware/components/queue/mblue_queue.c\<close>, which every task
  uses as its message queue. The C fields \<^verbatim>\<open>size\<close>, \<^verbatim>\<open>next\<close> and \<^verbatim>\<open>capacity\<close> are signed \<^verbatim>\<open>int\<close>s; the
  invariant keeps them between 0 and 128, so no arithmetic on them overflows. An access of the
  data array outside its cells is \<open>None\<close>. The queue is shown to be a bounded FIFO.
\<close>

section \<open>The queue\<close>

definition MAX_MESSAGE_QUEUE_ITEMS :: u32 where
  "MAX_MESSAGE_QUEUE_ITEMS = 128"

record mblue_queue =
  qsize :: int
  qnext :: int
  qcapacity :: int
  qdata :: "nat list"

definition queue_at_capacity :: "mblue_queue \<Rightarrow> bool" where
  "queue_at_capacity q \<longleftrightarrow> qsize q \<ge> qcapacity q"

definition queue_init :: "mblue_queue \<Rightarrow> nat list \<Rightarrow> u32 \<Rightarrow> int \<times> mblue_queue" where
  "queue_init q data size' =
     (if size' > MAX_MESSAGE_QUEUE_ITEMS then (-1, q)
      else (0, q\<lparr>qsize := 0, qnext := 0, qcapacity := sint size', qdata := data\<rparr>))"

definition queue_add :: "mblue_queue \<Rightarrow> nat \<Rightarrow> (int \<times> mblue_queue) option" where
  "queue_add q value =
     (if queue_at_capacity q then Some (-1, q)
      else let pos = qnext q + qsize q;
               pos = (if pos \<ge> qcapacity q then pos - qcapacity q else pos)
           in if 0 \<le> pos \<and> nat pos < length (qdata q)
              then Some (0, q\<lparr>qdata := (qdata q)[nat pos := value], qsize := qsize q + 1\<rparr>)
              else None)"

definition queue_remove :: "mblue_queue \<Rightarrow> (nat \<times> mblue_queue) option" where
  "queue_remove q =
     (if qsize q > 0
      then if 0 \<le> qnext q \<and> nat (qnext q) < length (qdata q)
           then let next' = qnext q + 1
                in Some (qdata q ! nat (qnext q),
                     q\<lparr>qnext := (if next' \<ge> qcapacity q then next' - qcapacity q else next'),
                       qsize := qsize q - 1\<rparr>)
           else None
      else Some (0, q))"

definition queue_peek :: "mblue_queue \<Rightarrow> nat option" where
  "queue_peek q =
     (if qsize q \<noteq> 0
      then if 0 \<le> qnext q \<and> nat (qnext q) < length (qdata q) then Some (qdata q ! nat (qnext q)) else None
      else Some 0)"

definition queue_size :: "mblue_queue \<Rightarrow> int" where
  "queue_size q = qsize q"

text \<open>The cells of a block of bytes read as an array of little-endian pointers.\<close>

fun cells_of_bytes :: "byte list \<Rightarrow> nat list" where
  "cells_of_bytes (a # b # c # d # bs) =
     (unat a + 2 ^ 8 * unat b + 2 ^ 16 * unat c + 2 ^ 24 * unat d) # cells_of_bytes bs"
| "cells_of_bytes _ = []"

definition mblue_queue_construct :: "mblue_queue \<Rightarrow> nat list \<Rightarrow> u32 \<Rightarrow> mblue_errcode \<times> mblue_queue" where
  "mblue_queue_construct q data size' =
     (let (rc, q) = queue_init q data size'
      in if rc = 0 then (MBLUE_OK, q) else (MBLUE_ERR_NOMEM, q))"

definition sizeof_mblue_queue :: u32 where
  "sizeof_mblue_queue = 40"

text \<open>The result names the queue object, its data block and the initialised queue; the inner
  \<open>None\<close> is \<^verbatim>\<open>NULL\<close>, the outer one a memory error.\<close>

definition mblue_queue_alloc ::
    "u32 \<Rightarrow> mblue_heap \<Rightarrow> ((nat \<times> nat \<times> mblue_queue) option \<times> mblue_heap) option" where
  "mblue_queue_alloc size' hp =
     do {
       (mq, hp) \<leftarrow> mblue_malloc sizeof_mblue_queue hp;
       if mq = 0 then Some (None, hp)
       else do {
         (data, hp) \<leftarrow> mblue_malloc (size' * 4) hp;
         if data = 0 then do { hp \<leftarrow> mblue_free mq hp; Some (None, hp) }
         else do {
           bytes \<leftarrow> hblocks hp data;
           let (rc, q) = mblue_queue_construct \<lparr>qsize = 0, qnext = 0, qcapacity = 0, qdata = []\<rparr>
                           (take (unat size') (cells_of_bytes bytes)) size';
           if rc = MBLUE_OK then Some (Some (mq, data, q), hp)
           else do { hp \<leftarrow> mblue_free data hp; hp \<leftarrow> mblue_free mq hp; Some (None, hp) }
         }
       }
     }"

definition queue_uninit :: "nat \<Rightarrow> nat \<Rightarrow> mblue_heap \<Rightarrow> (int \<times> mblue_heap) option" where
  "queue_uninit mq data hp =
     do { hp \<leftarrow> mblue_free data hp; hp \<leftarrow> mblue_free mq hp; Some (0, hp) }"

definition mblue_queue_release :: "nat \<Rightarrow> nat \<Rightarrow> mblue_heap \<Rightarrow> (int \<times> mblue_heap) option" where
  "mblue_queue_release mq data hp = queue_uninit mq data hp"

section \<open>Invariant and contents\<close>

definition queue_wf :: "mblue_queue \<Rightarrow> bool" where
  "queue_wf q \<longleftrightarrow> 0 \<le> qsize q \<and> qsize q \<le> qcapacity q \<and> qcapacity q \<le> 128 \<and>
     0 \<le> qnext q \<and> (qnext q < qcapacity q \<or> qnext q = 0) \<and> int (length (qdata q)) = qcapacity q"

definition queue_contents :: "mblue_queue \<Rightarrow> nat list" where
  "queue_contents q =
     map (\<lambda>i. qdata q ! ((nat (qnext q) + i) mod nat (qcapacity q))) [0..<nat (qsize q)]"

lemma length_queue_contents [simp]: "length (queue_contents q) = nat (qsize q)"
  by (simp add: queue_contents_def)

lemma queue_wf_nat:
  assumes "queue_wf q"
  obtains s n c where "qsize q = int s" "qnext q = int n" "qcapacity q = int c" "length (qdata q) = c"
    "s \<le> c" "n < c \<or> n = 0" "c \<le> 128"
proof -
  from assms have "qsize q = int (nat (qsize q))" "qnext q = int (nat (qnext q))"
    "qcapacity q = int (length (qdata q))" by (simp_all add: queue_wf_def)
  moreover from assms have "nat (qsize q) \<le> length (qdata q)"
    "nat (qnext q) < length (qdata q) \<or> nat (qnext q) = 0" "length (qdata q) \<le> 128"
    by (auto simp: queue_wf_def)
  ultimately show thesis
    using that [of "nat (qsize q)" "nat (qnext q)" "length (qdata q)"] by argo
qed

lemma mod_wrap: "a < (c::nat) \<Longrightarrow> b \<le> c \<Longrightarrow> (a + b) mod c = (if a + b < c then a + b else a + b - c)"
  by (simp add: mod_if)

section \<open>Add and remove as list operations\<close>

lemma queue_add_spec:
  assumes wf: "queue_wf q" and space: "qsize q < qcapacity q"
  obtains q' where "queue_add q v = Some (0, q')" "queue_wf q'"
    "queue_contents q' = queue_contents q @ [v]" "qcapacity q' = qcapacity q"
proof -
  obtain s n c where q: "qsize q = int s" "qnext q = int n" "qcapacity q = int c"
    "length (qdata q) = c" "s \<le> c" "n < c \<or> n = 0" "c \<le> 128"
    using queue_wf_nat [OF wf] .
  with space have sc: "s < c" "n < c" by auto
  define p where "p = (n + s) mod c"
  have p: "p < c" "p = (if n + s < c then n + s else n + s - c)"
    using sc by (auto simp: p_def mod_wrap)
  define q' where "q' = q\<lparr>qdata := (qdata q)[p := v], qsize := qsize q + 1\<rparr>"
  have pos: "(if qnext q + qsize q \<ge> qcapacity q then qnext q + qsize q - qcapacity q
              else qnext q + qsize q) = int p"
    using p by (auto simp: q)
  have add: "queue_add q v = Some (0, q')"
    using space p(1) unfolding queue_add_def Let_def pos by (simp add: queue_at_capacity_def q(4) q'_def)
  have wf': "queue_wf q'" using sc q by (simp add: queue_wf_def q'_def)
  have ne: "(n + i) mod c \<noteq> p" "(n + i) mod c < c" if "i < s" for i
    using that sc p by (auto simp: mod_wrap)
  have "queue_contents q' = queue_contents q @ [v]"
  proof (rule nth_equalityI)
    show "length (queue_contents q') = length (queue_contents q @ [v])" by (simp add: q'_def q)
    fix i assume "i < length (queue_contents q')"
    then have i: "i \<le> s" by (simp add: q'_def q)
    have "queue_contents q' ! i = (qdata q)[p := v] ! ((n + i) mod c)"
      using i by (simp add: queue_contents_def q'_def q nat_add_distrib del: upt_Suc)
    also have "\<dots> = (queue_contents q @ [v]) ! i"
      using i ne [of i] p(1)
      by (cases "i = s") (simp_all add: queue_contents_def q nth_append p_def [symmetric])
    finally show "queue_contents q' ! i = (queue_contents q @ [v]) ! i" .
  qed
  moreover have "qcapacity q' = qcapacity q" by (simp add: q'_def)
  ultimately show thesis using that add wf' by blast
qed

lemma queue_add_full:
  "qsize q \<ge> qcapacity q \<Longrightarrow> queue_add q v = Some (-1, q)"
  by (simp add: queue_add_def queue_at_capacity_def)

lemma queue_head:
  assumes wf: "queue_wf q" and ne: "0 < qsize q"
  shows "nat (qnext q) < length (qdata q)" "queue_contents q \<noteq> []"
    "hd (queue_contents q) = qdata q ! nat (qnext q)"
proof -
  show 1: "nat (qnext q) < length (qdata q)" using assms by (auto simp: queue_wf_def)
  show 2: "queue_contents q \<noteq> []" using ne by (simp add: queue_contents_def)
  have "length (qdata q) = nat (qcapacity q)" using wf by (auto simp: queue_wf_def)
  then show "hd (queue_contents q) = qdata q ! nat (qnext q)"
    using 1 ne by (simp add: queue_contents_def hd_map)
qed

lemma queue_remove_spec:
  assumes wf: "queue_wf q" and ne: "0 < qsize q"
  obtains q' where "queue_remove q = Some (hd (queue_contents q), q')" "queue_wf q'"
    "queue_contents q = hd (queue_contents q) # queue_contents q'" "qcapacity q' = qcapacity q"
proof -
  obtain s n c where q: "qsize q = int s" "qnext q = int n" "qcapacity q = int c"
    "length (qdata q) = c" "s \<le> c" "n < c \<or> n = 0" "c \<le> 128"
    using queue_wf_nat [OF wf] .
  with ne have sc: "0 < s" "n < c" by auto
  define p where "p = Suc n mod c"
  have pd: "p = (if Suc n < c then Suc n else 0)" using sc by (simp add: p_def mod_if)
  define q' where "q' = q\<lparr>qnext := int p, qsize := qsize q - 1\<rparr>"
  have nx: "(if qnext q + 1 \<ge> qcapacity q then qnext q + 1 - qcapacity q else qnext q + 1) = int p"
    using sc by (auto simp: q pd)
  have rem: "queue_remove q = Some (hd (queue_contents q), q')"
    using ne queue_head [OF wf ne] unfolding queue_remove_def Let_def nx by (simp add: q'_def q(2))
  have wf': "queue_wf q'" using sc q by (auto simp: queue_wf_def q'_def pd)
  have "queue_contents q' = tl (queue_contents q)"
  proof (rule nth_equalityI)
    show "length (queue_contents q') = length (tl (queue_contents q))"
      using sc by (simp add: q'_def q nat_diff_distrib)
    fix i assume "i < length (queue_contents q')"
    then have i: "i < s - 1" using sc by (simp add: q'_def q nat_diff_distrib)
    have "(p + i) mod c = (n + Suc i) mod c" unfolding p_def by (simp add: mod_add_left_eq)
    then show "queue_contents q' ! i = tl (queue_contents q) ! i"
      using i sc nth_upt [of 0 "Suc i" s]
      by (simp add: queue_contents_def q'_def q nth_tl nat_diff_distrib)
  qed
  with queue_head(2) [OF wf ne]
  have "queue_contents q = hd (queue_contents q) # queue_contents q'" by simp
  moreover have "qcapacity q' = qcapacity q" by (simp add: q'_def)
  ultimately show thesis using that rem wf' by blast
qed

lemma queue_remove_empty:
  "qsize q \<le> 0 \<Longrightarrow> queue_remove q = Some (0, q)"
  by (simp add: queue_remove_def)

lemma queue_peek_spec:
  assumes "queue_wf q"
  shows "queue_peek q = Some (if queue_contents q = [] then 0 else hd (queue_contents q))"
proof (cases "0 < qsize q")
  case True
  with queue_head [OF assms] assms show ?thesis by (auto simp: queue_peek_def queue_wf_def)
next
  case False
  with assms show ?thesis by (auto simp: queue_peek_def queue_wf_def queue_contents_def)
qed

section \<open>The queue is a bounded FIFO\<close>

definition mq_put :: "mblue_queue \<Rightarrow> nat \<Rightarrow> (nat list \<times> mblue_queue) option" where
  "mq_put q v = do { (rc, q') \<leftarrow> queue_add q v; Some (if rc = 0 then [v] else [], q') }"

definition mq_get :: "mblue_queue \<Rightarrow> unit \<Rightarrow> (nat list \<times> mblue_queue) option" where
  "mq_get q u = do { (v, q') \<leftarrow> queue_remove q; Some (if queue_size q = 0 then [] else [v], q') }"

interpretation mqueue: bounded_fifo mq_put mq_get queue_contents "\<lambda>q. nat (qcapacity q)" queue_wf
  "\<lambda>_. True" "\<lambda>_. True"
proof unfold_locales
  fix q v assume wf: "queue_wf q"
  show "\<exists>acc q'. mq_put q v = Some (acc, q') \<and> queue_wf q' \<and>
      queue_contents q' = queue_contents q @ acc \<and> nat (qcapacity q') = nat (qcapacity q)"
  proof (cases "qsize q < qcapacity q")
    case True
    obtain q' where "queue_add q v = Some (0, q')" "queue_wf q'"
      "queue_contents q' = queue_contents q @ [v]" "qcapacity q' = qcapacity q"
      by (rule queue_add_spec [OF wf True])
    then show ?thesis by (simp add: mq_put_def)
  next
    case False
    with wf show ?thesis by (simp add: mq_put_def queue_add_full)
  qed
next
  fix q u assume wf: "queue_wf q"
  show "\<exists>out q'. mq_get q u = Some (out, q') \<and> queue_wf q' \<and>
      queue_contents q = out @ queue_contents q' \<and> nat (qcapacity q') = nat (qcapacity q)"
  proof (cases "0 < qsize q")
    case True
    obtain q' where "queue_remove q = Some (hd (queue_contents q), q')" "queue_wf q'"
      "queue_contents q = hd (queue_contents q) # queue_contents q'" "qcapacity q' = qcapacity q"
      by (rule queue_remove_spec [OF wf True])
    with True show ?thesis by (simp add: mq_get_def queue_size_def)
  next
    case False
    with wf have "qsize q = 0" by (simp add: queue_wf_def)
    with wf show ?thesis by (simp add: mq_get_def queue_remove_empty queue_size_def)
  qed
next
  fix q assume "queue_wf q"
  then show "length (queue_contents q) \<le> nat (qcapacity q)" by (auto simp: queue_wf_def)
qed

section \<open>Construction\<close>

lemma cells_of_zero: "cells_of_bytes (replicate (4 * n) 0 @ bs) = replicate n 0 @ cells_of_bytes bs"
proof (induction n)
  case (Suc n)
  have "replicate (4 * Suc n) (0::byte) = 0 # 0 # 0 # 0 # replicate (4 * n) 0"
    by (simp flip: replicate_Suc)
  then show ?case using Suc by simp
qed simp

lemma queue_init_spec:
  "size' \<le> 128 \<Longrightarrow> length data = unat size' \<Longrightarrow>
   fst (queue_init q data size') = 0 \<and> queue_wf (snd (queue_init q data size')) \<and>
   queue_contents (snd (queue_init q data size')) = [] \<and>
   qcapacity (snd (queue_init q data size')) = int (unat size')"
proof -
  assume s: "size' \<le> 128" and l: "length data = unat size'"
  have u: "unat size' \<le> 128" using s by (simp add: word_le_nat_alt)
  have "sint size' = int (unat size')" using u by (intro sint_small) simp
  moreover have "int (unat size') \<le> 128" using u by linarith
  ultimately show ?thesis using s l
    by (auto simp: queue_init_def MAX_MESSAGE_QUEUE_ITEMS_def queue_wf_def queue_contents_def)
qed

text \<open>Every outcome of the constructor: nothing is left allocated when it returns \<^verbatim>\<open>NULL\<close>, and a
  queue it returns is empty, has the requested capacity and can be released.\<close>

lemma queue_release_spec:
  assumes "heap_wf h" "hblocks h = H(p \<mapsto> bs, q \<mapsto> cs)" "p \<noteq> q" "H p = None" "H q = None"
  shows "\<exists>h'. mblue_queue_release p q h = Some (0, h') \<and> heap_wf h' \<and> hblocks h' = H"
proof -
  obtain h1 where h1: "mblue_free q h = Some h1" "heap_wf h1" "hblocks h1 = (hblocks h)(q := None)"
    using mheap.free_live [of h q cs] assms by auto
  with assms obtain h2 where "mblue_free p h1 = Some h2" "heap_wf h2" "hblocks h2 = (hblocks h1)(p := None)"
    using mheap.free_live [of h1 p bs] by auto
  moreover have "(hblocks h1)(p := None) = H" using assms h1 by (auto simp: fun_eq_iff)
  ultimately show ?thesis using h1 by (simp add: mblue_queue_release_def queue_uninit_def)
qed

lemma mblue_queue_alloc_spec:
  assumes "heap_wf hp" and "unat (size' * 4) \<le> 2 ^ 32 - 16"
  shows "\<exists>r hp'. mblue_queue_alloc size' hp = Some (r, hp') \<and> heap_wf hp' \<and>
    (case r of None \<Rightarrow> hblocks hp' = hblocks hp
     | Some (p, d, q) \<Rightarrow> size' \<le> 128 \<and> queue_wf q \<and> queue_contents q = [] \<and> qcapacity q = int (unat size') \<and>
         (\<exists>hp''. mblue_queue_release p d hp' = Some (0, hp'') \<and> heap_wf hp'' \<and> hblocks hp'' = hblocks hp))"
proof -
  have s: "unat sizeof_mblue_queue \<le> 2 ^ 32 - 16" by (simp add: sizeof_mblue_queue_def)
  show ?thesis
  proof (rule mheap.malloc_two [OF assms(1) s assms(2)])
    fix h1 assume "mblue_malloc sizeof_mblue_queue hp = Some (0, h1)" "heap_wf h1" "hblocks h1 = hblocks hp"
    then show ?thesis by (simp add: mblue_queue_alloc_def)
  next
    fix p h1 h2 h3
    assume "mblue_malloc sizeof_mblue_queue hp = Some (p, h1)" "p \<noteq> 0" "mblue_malloc (size' * 4) h1 = Some (0, h2)"
      "mblue_free p h2 = Some h3" "heap_wf h3" "hblocks h3 = hblocks hp"
    then show ?thesis by (simp add: mblue_queue_alloc_def)
  next
    fix p q h1 h2 bs cs
    assume a: "mblue_malloc sizeof_mblue_queue hp = Some (p, h1)" "p \<noteq> 0" "mblue_malloc (size' * 4) h1 = Some (q, h2)"
      "q \<noteq> 0" "p \<noteq> q" "heap_wf h2" "hblocks hp p = None" "hblocks hp q = None"
      "hblocks h2 = (hblocks hp)(p \<mapsto> bs, q \<mapsto> cs)" "zeroed (unat (size' * 4)) cs"
    note rel = queue_release_spec [OF a(6,9,5,7,8)]
    show ?thesis
    proof (cases "size' \<le> 128")
      case True
      then have "unat (size' * 4) = 4 * unat size'"
        by (simp add: unat_word_ariths word_le_nat_alt)
      with a(10) have "cs = replicate (4 * unat size') 0 @ drop (4 * unat size') cs"
        by (metis append_take_drop_id zeroed_def)
      then have "cells_of_bytes cs = replicate (unat size') 0 @ cells_of_bytes (drop (4 * unat size') cs)"
        by (metis cells_of_zero)
      then have "length (take (unat size') (cells_of_bytes cs)) = unat size'" by simp
      note init = queue_init_spec [OF True this, of "\<lparr>qsize = 0, qnext = 0, qcapacity = 0, qdata = []\<rparr>"]
      obtain qq where "queue_init \<lparr>qsize = 0, qnext = 0, qcapacity = 0, qdata = []\<rparr>
          (take (unat size') (cells_of_bytes cs)) size' = (0, qq)"
        using init by (metis prod.collapse)
      with init a rel True show ?thesis
        by (simp add: mblue_queue_alloc_def mblue_queue_construct_def)
    next
      case False
      with rel a show ?thesis
        by (auto simp: mblue_queue_alloc_def mblue_queue_construct_def queue_init_def
            MAX_MESSAGE_QUEUE_ITEMS_def mblue_queue_release_def queue_uninit_def not_le
            split: Option.bind_splits)
    qed
  qed
qed

section \<open>Properties\<close>

text \<open>C21 (queue\_in\_order): every sequence of adds and removes on a well-formed queue runs inside its data array; the pointers
  removed, followed by those still queued, are exactly those queued at the start followed by those
  accepted, in order; and the queue never holds more than its capacity.\<close>

theorem queue_in_order:
  assumes "queue_wf q"
  shows "\<exists>ins outs q'. mqueue.run ops q = Some (ins, outs, q') \<and> queue_wf q' \<and>
    queue_contents q @ ins = outs @ queue_contents q' \<and> length (queue_contents q') \<le> nat (qcapacity q)"
  using assms by (rule mqueue.run_in_order) (simp add: list_all_iff mqueue.valid_op_def split: fifo_op.split)

definition sample_queue :: mblue_queue where
  "sample_queue = \<lparr>qsize = 2, qnext = 2, qcapacity = 3, qdata = [30, 10, 20]\<rparr>"

lemma sample_queue_wf: "queue_wf sample_queue"
  by (simp add: sample_queue_def queue_wf_def)

theorem queue_in_order_witness:
  "\<exists>ins outs q'. mqueue.run [Put 5, Put 6, Get ()] sample_queue = Some (ins, outs, q') \<and> queue_wf q' \<and>
    queue_contents sample_queue @ ins = outs @ queue_contents q' \<and>
    length (queue_contents q') \<le> nat (qcapacity sample_queue)"
  by (rule queue_in_order [OF sample_queue_wf])

text \<open>On every branch: a full queue refuses with \<open>-1\<close> and does not change; otherwise the pointer is
  appended and 0 returned; removing from an empty queue returns \<^verbatim>\<open>NULL\<close> and does not change it,
  otherwise the oldest pointer is returned and removed; peeking returns what removing would.\<close>

lemma queue_operations:
  assumes "queue_wf q"
  shows "(if length (queue_contents q) = nat (qcapacity q) then queue_add q v = Some (-1, q)
          else \<exists>q'. queue_add q v = Some (0, q') \<and> queue_wf q' \<and> queue_contents q' = queue_contents q @ [v]) \<and>
    (case queue_contents q of
       [] \<Rightarrow> queue_remove q = Some (0, q) \<and> queue_peek q = Some 0
     | x # xs \<Rightarrow> queue_peek q = Some x \<and> (\<exists>q'. queue_remove q = Some (x, q') \<and> queue_wf q' \<and> queue_contents q' = xs))"
proof
  show "if length (queue_contents q) = nat (qcapacity q) then queue_add q v = Some (-1, q)
          else \<exists>q'. queue_add q v = Some (0, q') \<and> queue_wf q' \<and> queue_contents q' = queue_contents q @ [v]"
  proof (cases "qsize q < qcapacity q")
    case True
    obtain q' where "queue_add q v = Some (0, q')" "queue_wf q'" "queue_contents q' = queue_contents q @ [v]"
      by (rule queue_add_spec [OF assms True])
    moreover have "length (queue_contents q) \<noteq> nat (qcapacity q)" using True assms by (auto simp: queue_wf_def)
    ultimately show ?thesis by simp
  next
    case False
    with assms show ?thesis by (simp add: queue_add_full queue_wf_def)
  qed
  show "case queue_contents q of
       [] \<Rightarrow> queue_remove q = Some (0, q) \<and> queue_peek q = Some 0
     | x # xs \<Rightarrow> queue_peek q = Some x \<and> (\<exists>q'. queue_remove q = Some (x, q') \<and> queue_wf q' \<and> queue_contents q' = xs)"
  proof (cases "queue_contents q")
    case Nil
    then have "qsize q \<le> 0" using length_queue_contents [of q] by simp
    with Nil show ?thesis by (simp add: queue_remove_empty queue_peek_spec [OF assms])
  next
    case (Cons x xs)
    then have "nat (qsize q) = Suc (length xs)" using length_queue_contents [of q] by simp
    then have "0 < qsize q" by linarith
    from queue_remove_spec [OF assms this] obtain q' where "queue_remove q = Some (hd (queue_contents q), q')"
      "queue_wf q'" "queue_contents q = hd (queue_contents q) # queue_contents q'" by blast
    with Cons show ?thesis by (simp add: queue_peek_spec [OF assms])
  qed
qed

lemma queue_operations_example:
  "(if length (queue_contents sample_queue) = nat (qcapacity sample_queue) then queue_add sample_queue 9 = Some (-1, sample_queue)
          else \<exists>q'. queue_add sample_queue 9 = Some (0, q') \<and> queue_wf q' \<and> queue_contents q' = queue_contents sample_queue @ [9]) \<and>
    (case queue_contents sample_queue of
       [] \<Rightarrow> queue_remove sample_queue = Some (0, sample_queue) \<and> queue_peek sample_queue = Some 0
     | x # xs \<Rightarrow> queue_peek sample_queue = Some x \<and> (\<exists>q'. queue_remove sample_queue = Some (x, q') \<and> queue_wf q' \<and> queue_contents q' = xs))"
  by (rule queue_operations [OF sample_queue_wf])

text \<open>The constructor never faults while the byte size of the data array stays within the heap's
  limit: it returns \<^verbatim>\<open>NULL\<close> with nothing left allocated (always so for more than 128 items), or an
  empty queue of the requested capacity whose release gives back both blocks.\<close>

lemma queue_lifecycle:
  assumes "heap_wf hp" and "unat (size' * 4) \<le> 2 ^ 32 - 16"
  shows "\<exists>r hp'. mblue_queue_alloc size' hp = Some (r, hp') \<and> heap_wf hp' \<and>
    (case r of None \<Rightarrow> hblocks hp' = hblocks hp
     | Some (p, d, q) \<Rightarrow> size' \<le> 128 \<and> queue_wf q \<and> queue_contents q = [] \<and> qcapacity q = int (unat size') \<and>
         (\<exists>hp''. mblue_queue_release p d hp' = Some (0, hp'') \<and> heap_wf hp'' \<and> hblocks hp'' = hblocks hp))"
  by (rule mblue_queue_alloc_spec [OF assms])

lemma queue_lifecycle_example:
  "\<exists>r hp'. mblue_queue_alloc 16 fresh_heap = Some (r, hp') \<and> heap_wf hp' \<and>
    (case r of None \<Rightarrow> hblocks hp' = hblocks fresh_heap
     | Some (p, d, q) \<Rightarrow> (16::u32) \<le> 128 \<and> queue_wf q \<and> queue_contents q = [] \<and> qcapacity q = int (unat (16::u32)) \<and>
         (\<exists>hp''. mblue_queue_release p d hp' = Some (0, hp'') \<and> heap_wf hp'' \<and> hblocks hp'' = hblocks fresh_heap))"
  by (rule queue_lifecycle) simp_all

end
