(* ===== verification/Hash_Crc.thy ===== *)
theory Hash_Crc
  imports Mblue_Prelude
begin

text \<open>
  The string hash of \<^verbatim>\<open>util/hash/mblue_hash.c\<close> and the checksum of
  \<^verbatim>\<open>crc32.c\<close>. The hash is shown to be the polynomial its comment names; the table-driven
  checksum is shown to be the bitwise CRC-32C and to detect every change confined to four
  consecutive bytes.
\<close>

section \<open>The sdbm hash\<close>

text \<open>On the target a plain \<^verbatim>\<open>char\<close> is signed: \<^verbatim>\<open>sdbm_hash\<close> adds the sign-extended character,
  \<^verbatim>\<open>sdbm_mem\<close> the unsigned byte. Reading past the array is \<open>None\<close>.\<close>

definition sdbm_step :: "u32 \<Rightarrow> u32 \<Rightarrow> u32" where
  "sdbm_step hash c = c + push_bit 6 hash + push_bit 16 hash - hash"

fun sdbm_hash_loop :: "u32 \<Rightarrow> byte list \<Rightarrow> u32 option" where
  "sdbm_hash_loop hash [] = None"
| "sdbm_hash_loop hash (c # cs) =
     (if c = 0 then Some hash else sdbm_hash_loop (sdbm_step hash (scast c)) cs)"

definition sdbm_hash :: "byte list \<Rightarrow> u32 option" where
  "sdbm_hash str = do { hash \<leftarrow> sdbm_hash_loop 0 str; Some (hash AND 0x7FFFFFFF) }"

fun sdbm_mem_loop :: "u32 \<Rightarrow> byte list \<Rightarrow> nat \<Rightarrow> u32 option" where
  "sdbm_mem_loop hash str 0 = Some hash"
| "sdbm_mem_loop hash [] (Suc len) = None"
| "sdbm_mem_loop hash (c # cs) (Suc len) = sdbm_mem_loop (sdbm_step hash (ucast c)) cs len"

definition sdbm_mem :: "byte list \<Rightarrow> u32 \<Rightarrow> u32 option" where
  "sdbm_mem str len = do { hash \<leftarrow> sdbm_mem_loop 0 str (unat len); Some (hash AND 0x7FFFFFFF) }"

text \<open>The polynomial hash of the comment.\<close>

definition poly_hash :: "u32 \<Rightarrow> u32 list \<Rightarrow> u32" where
  "poly_hash = foldl (\<lambda>h c. 65599 * h + c)"

lemma sdbm_step_poly: "sdbm_step h c = 65599 * h + c"
  by (simp add: sdbm_step_def push_bit_eq_mult algebra_simps)

lemma sdbm_hash_loop_poly:
  "0 \<notin> set str \<Longrightarrow> sdbm_hash_loop h (str @ 0 # rest) = Some (poly_hash h (map scast str))"
  by (induction str arbitrary: h) (auto simp: poly_hash_def sdbm_step_poly)

lemma sdbm_mem_loop_poly:
  "n \<le> length str \<Longrightarrow> sdbm_mem_loop h str n = Some (poly_hash h (map ucast (take n str)))"
  by (induction h str n rule: sdbm_mem_loop.induct) (auto simp: poly_hash_def sdbm_step_poly)

lemma sdbm_mem_loop_overrun:
  "length str < n \<Longrightarrow> sdbm_mem_loop h str n = None"
  by (induction h str n rule: sdbm_mem_loop.induct) auto

lemma scast_ascii: "c < 128 \<Longrightarrow> (scast c :: u32) = ucast (c :: byte)"
proof -
  assume c: "c < 128"
  then have "uint c < 128" by (simp add: word_less_def)
  moreover have "0 \<le> uint c" by simp
  ultimately have "signed_take_bit 7 (uint c) = uint c"
    by (intro signed_take_bit_int_eq_self) (simp_all add: order_trans [of "- 128" 0])
  then have "sint c = uint c" by (simp add: sint_uint)
  then show ?thesis by (metis scast_eq ucast_eq)
qed

section \<open>The checksum\<close>

definition crc32c_table :: "u32 list" where
  "crc32c_table =
  [0x00000000, 0xF26B8303, 0xE13B70F7, 0x1350F3F4, 0xC79A971F, 0x35F1141C, 0x26A1E7E8, 0xD4CA64EB,
   0x8AD958CF, 0x78B2DBCC, 0x6BE22838, 0x9989AB3B, 0x4D43CFD0, 0xBF284CD3, 0xAC78BF27, 0x5E133C24,
   0x105EC76F, 0xE235446C, 0xF165B798, 0x030E349B, 0xD7C45070, 0x25AFD373, 0x36FF2087, 0xC494A384,
   0x9A879FA0, 0x68EC1CA3, 0x7BBCEF57, 0x89D76C54, 0x5D1D08BF, 0xAF768BBC, 0xBC267848, 0x4E4DFB4B,
   0x20BD8EDE, 0xD2D60DDD, 0xC186FE29, 0x33ED7D2A, 0xE72719C1, 0x154C9AC2, 0x061C6936, 0xF477EA35,
   0xAA64D611, 0x580F5512, 0x4B5FA6E6, 0xB93425E5, 0x6DFE410E, 0x9F95C20D, 0x8CC531F9, 0x7EAEB2FA,
   0x30E349B1, 0xC288CAB2, 0xD1D83946, 0x23B3BA45, 0xF779DEAE, 0x05125DAD, 0x1642AE59, 0xE4292D5A,
   0xBA3A117E, 0x4851927D, 0x5B016189, 0xA96AE28A, 0x7DA08661, 0x8FCB0562, 0x9C9BF696, 0x6EF07595,
   0x417B1DBC, 0xB3109EBF, 0xA0406D4B, 0x522BEE48, 0x86E18AA3, 0x748A09A0, 0x67DAFA54, 0x95B17957,
   0xCBA24573, 0x39C9C670, 0x2A993584, 0xD8F2B687, 0x0C38D26C, 0xFE53516F, 0xED03A29B, 0x1F682198,
   0x5125DAD3, 0xA34E59D0, 0xB01EAA24, 0x42752927, 0x96BF4DCC, 0x64D4CECF, 0x77843D3B, 0x85EFBE38,
   0xDBFC821C, 0x2997011F, 0x3AC7F2EB, 0xC8AC71E8, 0x1C661503, 0xEE0D9600, 0xFD5D65F4, 0x0F36E6F7,
   0x61C69362, 0x93AD1061, 0x80FDE395, 0x72966096, 0xA65C047D, 0x5437877E, 0x4767748A, 0xB50CF789,
   0xEB1FCBAD, 0x197448AE, 0x0A24BB5A, 0xF84F3859, 0x2C855CB2, 0xDEEEDFB1, 0xCDBE2C45, 0x3FD5AF46,
   0x7198540D, 0x83F3D70E, 0x90A324FA, 0x62C8A7F9, 0xB602C312, 0x44694011, 0x5739B3E5, 0xA55230E6,
   0xFB410CC2, 0x092A8FC1, 0x1A7A7C35, 0xE811FF36, 0x3CDB9BDD, 0xCEB018DE, 0xDDE0EB2A, 0x2F8B6829,
   0x82F63B78, 0x709DB87B, 0x63CD4B8F, 0x91A6C88C, 0x456CAC67, 0xB7072F64, 0xA457DC90, 0x563C5F93,
   0x082F63B7, 0xFA44E0B4, 0xE9141340, 0x1B7F9043, 0xCFB5F4A8, 0x3DDE77AB, 0x2E8E845F, 0xDCE5075C,
   0x92A8FC17, 0x60C37F14, 0x73938CE0, 0x81F80FE3, 0x55326B08, 0xA759E80B, 0xB4091BFF, 0x466298FC,
   0x1871A4D8, 0xEA1A27DB, 0xF94AD42F, 0x0B21572C, 0xDFEB33C7, 0x2D80B0C4, 0x3ED04330, 0xCCBBC033,
   0xA24BB5A6, 0x502036A5, 0x4370C551, 0xB11B4652, 0x65D122B9, 0x97BAA1BA, 0x84EA524E, 0x7681D14D,
   0x2892ED69, 0xDAF96E6A, 0xC9A99D9E, 0x3BC21E9D, 0xEF087A76, 0x1D63F975, 0x0E330A81, 0xFC588982,
   0xB21572C9, 0x407EF1CA, 0x532E023E, 0xA145813D, 0x758FE5D6, 0x87E466D5, 0x94B49521, 0x66DF1622,
   0x38CC2A06, 0xCAA7A905, 0xD9F75AF1, 0x2B9CD9F2, 0xFF56BD19, 0x0D3D3E1A, 0x1E6DCDEE, 0xEC064EED,
   0xC38D26C4, 0x31E6A5C7, 0x22B65633, 0xD0DDD530, 0x0417B1DB, 0xF67C32D8, 0xE52CC12C, 0x1747422F,
   0x49547E0B, 0xBB3FFD08, 0xA86F0EFC, 0x5A048DFF, 0x8ECEE914, 0x7CA56A17, 0x6FF599E3, 0x9D9E1AE0,
   0xD3D3E1AB, 0x21B862A8, 0x32E8915C, 0xC083125F, 0x144976B4, 0xE622F5B7, 0xF5720643, 0x07198540,
   0x590AB964, 0xAB613A67, 0xB831C993, 0x4A5A4A90, 0x9E902E7B, 0x6CFBAD78, 0x7FAB5E8C, 0x8DC0DD8F,
   0xE330A81A, 0x115B2B19, 0x020BD8ED, 0xF0605BEE, 0x24AA3F05, 0xD6C1BC06, 0xC5914FF2, 0x37FACCF1,
   0x69E9F0D5, 0x9B8273D6, 0x88D28022, 0x7AB90321, 0xAE7367CA, 0x5C18E4C9, 0x4F48173D, 0xBD23943E,
   0xF36E6F75, 0x0105EC76, 0x12551F82, 0xE03E9C81, 0x34F4F86A, 0xC69F7B69, 0xD5CF889D, 0x27A40B9E,
   0x79B737BA, 0x8BDCB4B9, 0x988C474D, 0x6AE7C44E, 0xBE2DA0A5, 0x4C4623A6, 0x5F16D052, 0xAD7D5351]"

fun crc_loop :: "u32 \<Rightarrow> byte list \<Rightarrow> nat \<Rightarrow> u32 option" where
  "crc_loop crc_value data 0 = Some crc_value"
| "crc_loop crc_value [] (Suc size') = None"
| "crc_loop crc_value (d # data) (Suc size') =
     crc_loop (crc32c_table ! unat ((crc_value XOR ucast d) AND 0xFF) XOR drop_bit 8 crc_value) data size'"

definition calculate_crc32 :: "byte list \<Rightarrow> u32 \<Rightarrow> u32 option" where
  "calculate_crc32 buffer size' =
     do { crc_value \<leftarrow> crc_loop 0xFFFFFFFF buffer (unat size'); Some (crc_value XOR 0xFFFFFFFF) }"

text \<open>The reference: the reflected Castagnoli polynomial, one bit at a time.\<close>

definition crc_bit :: "u32 \<Rightarrow> u32" where
  "crc_bit c = (if bit c 0 then drop_bit 1 c XOR 0x82F63B78 else drop_bit 1 c)"

definition crc_byte :: "u32 \<Rightarrow> byte \<Rightarrow> u32" where
  "crc_byte c b = (crc_bit ^^ 8) (c XOR ucast b)"

definition crc32c :: "byte list \<Rightarrow> u32" where
  "crc32c bs = foldl crc_byte 0xFFFFFFFF bs XOR 0xFFFFFFFF"

lemma crc_bit_xor: "crc_bit (a XOR b) = crc_bit a XOR crc_bit b"
  by (auto simp: crc_bit_def drop_bit_xor ac_simps xor.left_commute bit_xor_iff simp del: bit_0)

lemma crc_bits_xor: "(crc_bit ^^ n) (a XOR b) = (crc_bit ^^ n) a XOR (crc_bit ^^ n) b"
  by (induction n arbitrary: a b) (simp_all add: crc_bit_xor)

lemma crc_bits_high: "(crc_bit ^^ n) (push_bit n (drop_bit n c)) = drop_bit n c"
proof (induction n arbitrary: c)
  case (Suc n)
  have "crc_bit (push_bit (Suc n) (drop_bit (Suc n) c)) = push_bit n (drop_bit n (drop_bit 1 c))"
    by (rule bit_word_eqI)
      (auto simp: crc_bit_def bit_simps Suc_diff_le simp del: bit_0 push_bit_Suc dest: bit_imp_le_length)
  then have "(crc_bit ^^ Suc n) (push_bit (Suc n) (drop_bit (Suc n) c)) = drop_bit n (drop_bit 1 c)"
    by (simp only: funpow_Suc_right o_apply Suc.IH)
  then show ?case by (simp add: drop_bit_drop_bit)
qed simp

lemma crc_bit_inj: "crc_bit a = crc_bit b \<Longrightarrow> a = b"
proof -
  define inv where "inv y = (if bit y 31 then push_bit 1 (y XOR 0x82F63B78) OR 1 else push_bit 1 y)"
    for y :: u32
  have "inv (crc_bit x) = x" for x
  proof (cases "bit x 0")
    case True
    have "bit (drop_bit 1 x XOR (0x82F63B78::u32)) 31"
      using bit_imp_le_length [of x 32] by (auto simp: bit_simps)
    then have "inv (crc_bit x) = push_bit 1 (drop_bit 1 x) OR 1"
      using True by (simp add: inv_def crc_bit_def xor.assoc del: bit_0)
    also have "\<dots> = x"
    proof (rule bit_word_eqI)
      fix n assume "n < LENGTH(32)"
      with True show "bit (push_bit 1 (drop_bit 1 x) OR 1) n = bit x n"
        by (cases n) (auto simp: bit_simps simp del: bit_0 push_bit_Suc)
    qed
    finally show ?thesis .
  next
    case False
    then have "inv (crc_bit x) = push_bit 1 (drop_bit 1 x)"
      using bit_imp_le_length [of x 32] by (auto simp: inv_def crc_bit_def bit_simps simp del: bit_0)
    also have "\<dots> = x"
    proof (rule bit_word_eqI)
      fix n assume "n < LENGTH(32)"
      with False show "bit (push_bit 1 (drop_bit 1 x)) n = bit x n"
        by (cases n) (auto simp: bit_simps simp del: bit_0 push_bit_Suc)
    qed
    finally show ?thesis .
  qed
  then show "crc_bit a = crc_bit b \<Longrightarrow> a = b" by metis
qed

lemma crc_bits_inj: "(crc_bit ^^ n) a = (crc_bit ^^ n) b \<Longrightarrow> a = b"
  by (induction n arbitrary: a b) (auto simp: funpow_swap1 dest: crc_bit_inj)

text \<open>The table, entry by entry.\<close>

fun crc_table_ok :: "u32 \<Rightarrow> u32 list \<Rightarrow> bool" where
  "crc_table_ok i [] \<longleftrightarrow> True"
| "crc_table_ok i (t # ts) \<longleftrightarrow> (crc_bit ^^ 8) i = t \<and> crc_table_ok (i + 1) ts"

lemma crc_table_ok_nth:
  "crc_table_ok i ts \<Longrightarrow> k < length ts \<Longrightarrow> ts ! k = (crc_bit ^^ 8) (i + of_nat k)"
proof (induction ts arbitrary: i k)
  case (Cons t ts)
  then show ?case by (cases k) (auto simp: algebra_simps)
qed simp

lemma crc8:
  "(crc_bit ^^ 8) c = crc_bit (crc_bit (crc_bit (crc_bit (crc_bit (crc_bit (crc_bit (crc_bit c)))))))"
  by (simp add: eval_nat_numeral)

lemma crc_table_computed: "crc_table_ok 0 crc32c_table"
  by (simp add: crc32c_table_def crc8 crc_bit_def)

lemma length_crc32c_table: "length crc32c_table = 256"
  by (simp add: crc32c_table_def)

text \<open>One step of the table-driven loop is eight steps of the bitwise reference.\<close>

lemma crc_step:
  "crc32c_table ! unat ((c XOR ucast d) AND 0xFF) XOR drop_bit 8 c = crc_byte c d"
proof -
  let ?x = "c XOR ucast d :: u32"
  have m: "(0xFF :: u32) = mask 8" by (simp add: mask_eq_exp_minus_1)
  have i: "unat (?x AND 0xFF) < 256" unfolding m unat_and_mask by simp
  have t: "crc32c_table ! unat (?x AND 0xFF) = (crc_bit ^^ 8) (take_bit 8 ?x)"
    using crc_table_ok_nth [OF crc_table_computed, of "unat (?x AND 0xFF)"] i
    by (simp add: length_crc32c_table m take_bit_eq_mask)
  have hi: "drop_bit 8 ?x = drop_bit 8 c"
    by (rule bit_word_eqI) (auto simp: bit_simps dest: bit_imp_le_length)
  have "?x = take_bit 8 ?x XOR push_bit 8 (drop_bit 8 ?x)"
    by (rule take_xor_push_drop)
  then have "(crc_bit ^^ 8) ?x = (crc_bit ^^ 8) (take_bit 8 ?x) XOR drop_bit 8 ?x"
    by (metis crc_bits_xor crc_bits_high)
  then show ?thesis by (simp only: t hi crc_byte_def)
qed

lemma crc_loop_reference:
  "n \<le> length bs \<Longrightarrow> crc_loop c bs n = Some (foldl crc_byte c (take n bs))"
  by (induction c bs n rule: crc_loop.induct) (simp_all add: crc_step)

lemma crc_loop_overrun: "length bs < n \<Longrightarrow> crc_loop c bs n = None"
  by (induction c bs n rule: crc_loop.induct) simp_all

section \<open>Detection of changes\<close>

lemma crc_byte_inj_state: "crc_byte c b = crc_byte c' b \<Longrightarrow> c = c'"
  using crc_bits_inj [of 8 "c XOR ucast b" "c' XOR ucast b"]
  by (auto simp: crc_byte_def xor_right_cancel)

lemma crc_fold_inj_state: "foldl crc_byte c bs = foldl crc_byte c' bs \<Longrightarrow> c = c'"
  by (induction bs arbitrary: c c') (auto dest: crc_byte_inj_state)

text \<open>Four bytes at once: the register is xored with the bytes as a little-endian word.\<close>

fun le_word :: "byte list \<Rightarrow> u32" where
  "le_word [] = 0"
| "le_word (b # bs) = ucast b XOR push_bit 8 (le_word bs)"

lemma le_word_bit: "bit (le_word bs) n \<Longrightarrow> n < 8 * length bs"
proof (induction bs arbitrary: n)
  case (Cons b bs)
  then show ?case
    by (cases "n < 8") (auto simp: bit_simps dest: bit_imp_le_length Cons.IH)
qed simp

lemma le_word_shift: "length bs \<le> 3 \<Longrightarrow> drop_bit 8 (push_bit 8 (le_word bs)) = le_word bs"
  by (rule bit_word_eqI) (auto simp: bit_simps dest: le_word_bit)

lemma le_word_cons:
  assumes "length bs \<le> 3"
  shows "take_bit 8 (le_word (b # bs)) = ucast b" "drop_bit 8 (le_word (b # bs)) = le_word bs"
proof -
  show "take_bit 8 (le_word (b # bs)) = ucast b"
    by (rule bit_word_eqI) (auto simp: bit_simps dest: bit_imp_le_length)
  have "drop_bit 8 (ucast b :: u32) = 0"
    by (rule bit_word_eqI) (auto simp: bit_simps dest: bit_imp_le_length)
  then show "drop_bit 8 (le_word (b # bs)) = le_word bs"
    using le_word_shift [OF assms] by (simp add: drop_bit_xor)
qed

lemma le_word_inj:
  "length bs = length bs' \<Longrightarrow> length bs \<le> 4 \<Longrightarrow> le_word bs = le_word bs' \<Longrightarrow> bs = bs'"
proof (induction bs bs' rule: list_induct2)
  case (Cons b bs b' bs')
  then have l: "length bs \<le> 3" "length bs' \<le> 3" by simp_all
  from Cons.prems(2) le_word_cons [OF l(1), of b] le_word_cons [OF l(2), of b']
  have "(ucast b :: u32) = ucast b'" "le_word bs = le_word bs'" by simp_all
  then have "bs = bs'" "b = b'" using Cons by (auto simp: ucast_byte_inj)
  then show ?case by simp
qed simp

lemma crc_fold_word:
  "length bs \<le> 4 \<Longrightarrow> foldl crc_byte c bs = (crc_bit ^^ (8 * length bs)) (c XOR le_word bs)"
proof (induction bs arbitrary: c)
  case (Cons b bs)
  then have l: "length bs \<le> 3" by simp
  have "foldl crc_byte c (b # bs) = (crc_bit ^^ (8 * length bs)) (crc_byte c b XOR le_word bs)"
    using Cons by simp
  also have "le_word bs = (crc_bit ^^ 8) (push_bit 8 (le_word bs))"
    using crc_bits_high [of 8 "push_bit 8 (le_word bs)"] le_word_shift [OF l] by simp
  also have "crc_byte c b XOR \<dots> = (crc_bit ^^ 8) (c XOR le_word (b # bs))"
    by (simp only: crc_byte_def crc_bits_xor [symmetric] le_word.simps xor.assoc)
  finally have "foldl crc_byte c (b # bs) =
      (crc_bit ^^ (8 * length bs)) ((crc_bit ^^ 8) (c XOR le_word (b # bs)))" .
  also have "\<dots> = (crc_bit ^^ (8 * length bs + 8)) (c XOR le_word (b # bs))"
    by (simp only: funpow_add o_apply)
  finally show ?case by (simp add: add.commute)
qed simp

lemma crc_burst:
  assumes "length bs = length bs'" "length bs \<le> 4" "bs \<noteq> bs'"
  shows "crc32c (pre @ bs @ post) \<noteq> crc32c (pre @ bs' @ post)"
proof
  let ?c = "foldl crc_byte 0xFFFFFFFF pre"
  assume "crc32c (pre @ bs @ post) = crc32c (pre @ bs' @ post)"
  then have "foldl crc_byte (foldl crc_byte ?c bs) post = foldl crc_byte (foldl crc_byte ?c bs') post"
    by (simp add: crc32c_def xor_right_cancel)
  then have "foldl crc_byte ?c bs = foldl crc_byte ?c bs'" by (rule crc_fold_inj_state)
  then have "(crc_bit ^^ (8 * length bs)) (?c XOR le_word bs) = (crc_bit ^^ (8 * length bs)) (?c XOR le_word bs')"
    using assms(1,2) by (simp only: crc_fold_word)
  then have "le_word bs XOR ?c = le_word bs' XOR ?c"
    unfolding xor.commute [of _ ?c] by (rule crc_bits_inj)
  then have "le_word bs = le_word bs'" by (simp only: xor_right_cancel)
  with assms show False using le_word_inj by blast
qed

section \<open>Properties\<close>

text \<open>C35 (crc\_reference): the table-driven loop computes the CRC-32C of the first \<open>size\<close> bytes, bit by bit with the reflected
  polynomial 0x82F63B78; reading more bytes than the buffer has is an overrun.\<close>

theorem crc_reference:
  "calculate_crc32 buf n = (if unat n \<le> length buf then Some (crc32c (take (unat n) buf)) else None)"
  by (simp add: calculate_crc32_def crc_loop_reference crc_loop_overrun crc32c_def)

text \<open>Two messages of the same length that differ only within four consecutive bytes have different
  checksums.\<close>

lemma crc_detects:
  assumes "length bs = length bs'" and "length bs \<le> 4" and "bs \<noteq> bs'"
    and "unat n = length (pre @ bs @ post)"
  shows "calculate_crc32 (pre @ bs @ post) n \<noteq> calculate_crc32 (pre @ bs' @ post) n"
proof -
  have "unat n = length (pre @ bs' @ post)" using assms(1,4) by simp
  with assms(4) crc_burst [OF assms(1-3), of pre post] show ?thesis
    by (simp add: calculate_crc32_def crc_loop_reference crc32c_def)
qed

lemma crc_detects_example:
  "calculate_crc32 ([1, 2] @ [3, 4, 5] @ [6]) 6 \<noteq> calculate_crc32 ([1, 2] @ [3, 0, 9] @ [6]) 6"
  by (rule crc_detects) simp_all

text \<open>The shift-and-add hash of a terminated string is the polynomial hash with factor 65599 the comment
  names, on the sign-extended characters and modulo \<open>2 ^ 31\<close>; on ASCII text it agrees with the hash
  of the same bytes as a memory block.\<close>

lemma hash_polynomial:
  assumes "0 \<notin> set str" and "list_all (\<lambda>c. c < 128) str" and "unat n = length str"
  shows "sdbm_hash (str @ 0 # rest) = Some (take_bit 31 (poly_hash 0 (map scast str))) \<and>
    sdbm_mem (str @ 0 # rest) n = sdbm_hash (str @ 0 # rest)"
proof -
  have m: "w AND 0x7FFFFFFF = take_bit 31 w" for w :: u32
    by (simp add: take_bit_eq_mask mask_eq_exp_minus_1)
  have a: "map ucast str = (map scast str :: u32 list)"
    using assms(2) by (auto simp: list_all_iff scast_ascii)
  show ?thesis
    using sdbm_hash_loop_poly [OF assms(1), of 0 rest] sdbm_mem_loop_poly [of "length str" "str @ 0 # rest" 0]
    by (simp add: sdbm_hash_def sdbm_mem_def m a assms(3))
qed

lemma hash_polynomial_example:
  "sdbm_hash ([0x6D, 0x62 :: byte] @ 0 # []) = Some (take_bit 31 (poly_hash 0 (map scast [0x6D, 0x62 :: byte]))) \<and>
    sdbm_mem ([0x6D, 0x62 :: byte] @ 0 # []) 2 = sdbm_hash ([0x6D, 0x62 :: byte] @ 0 # [])"
  by (rule hash_polynomial) simp_all

end
