(* ===== verification/Mblue_List.thy ===== *)
theory Mblue_List
  imports Mblue_Prelude
begin

text \<open>
  The intrusive doubly linked list of \<^verbatim>\<open>middleware/common/mblue_list.h\<close>. A \<^verbatim>\<open>struct list_head\<close>
  is an address with a \<^verbatim>\<open>next\<close> and a \<^verbatim>\<open>prev\<close> cell in a heap; every inline function of the header
  is a heap transformer whose assignments are made in the source's order, so that aliasing
  between its arguments has the effect it has in C. The abstraction \<open>dlist h head xs\<close> says that
  \<open>head\<close> is the head of a circular list whose entries are \<open>xs\<close>, and each function is proved to
  perform the list operation its comment promises.
\<close>

section \<open>The heap of list nodes\<close>

type_synonym addr = nat

record list_heap =
  lnext :: "addr \<Rightarrow> addr"
  lprev :: "addr \<Rightarrow> addr"

definition NULL_addr :: addr where
  "NULL_addr = 0"

definition set_next :: "addr \<Rightarrow> addr \<Rightarrow> list_heap \<Rightarrow> list_heap" where
  "set_next p v h = h\<lparr>lnext := (lnext h)(p := v)\<rparr>"

definition set_prev :: "addr \<Rightarrow> addr \<Rightarrow> list_heap \<Rightarrow> list_heap" where
  "set_prev p v h = h\<lparr>lprev := (lprev h)(p := v)\<rparr>"

lemma heap_cells [simp]:
  "lnext (set_next p v h) = (lnext h)(p := v)" "lprev (set_next p v h) = lprev h"
  "lprev (set_prev p v h) = (lprev h)(p := v)" "lnext (set_prev p v h) = lnext h"
  by (simp_all add: set_next_def set_prev_def)

section \<open>The operations\<close>

definition INIT_LIST_HEAD :: "addr \<Rightarrow> list_heap \<Rightarrow> list_heap" where
  "INIT_LIST_HEAD list h =
     (let h = set_next list list h;
          h = set_prev list list h
      in h)"

definition list_add_between :: "addr \<Rightarrow> addr \<Rightarrow> addr \<Rightarrow> list_heap \<Rightarrow> list_heap" where
  "list_add_between new prev next h =
     (let h = set_prev next new h;
          h = set_next new next h;
          h = set_prev new prev h;
          h = set_next prev new h
      in h)"

definition list_add :: "addr \<Rightarrow> addr \<Rightarrow> list_heap \<Rightarrow> list_heap" where
  "list_add new head h = list_add_between new head (lnext h head) h"

definition list_add_tail :: "addr \<Rightarrow> addr \<Rightarrow> list_heap \<Rightarrow> list_heap" where
  "list_add_tail new head h = list_add_between new (lprev h head) head h"

definition list_del_between :: "addr \<Rightarrow> addr \<Rightarrow> list_heap \<Rightarrow> list_heap" where
  "list_del_between prev next h =
     (let h = set_prev next prev h;
          h = set_next prev next h
      in h)"

definition list_del :: "addr \<Rightarrow> list_heap \<Rightarrow> list_heap" where
  "list_del entry h =
     (let h = list_del_between (lprev h entry) (lnext h entry) h;
          h = set_next entry NULL_addr h;
          h = set_prev entry NULL_addr h
      in h)"

definition list_replace :: "addr \<Rightarrow> addr \<Rightarrow> list_heap \<Rightarrow> list_heap" where
  "list_replace old new h =
     (let h = set_next new (lnext h old) h;
          h = set_prev (lnext h new) new h;
          h = set_prev new (lprev h old) h;
          h = set_next (lprev h new) new h
      in h)"

definition list_replace_init :: "addr \<Rightarrow> addr \<Rightarrow> list_heap \<Rightarrow> list_heap" where
  "list_replace_init old new h = INIT_LIST_HEAD old (list_replace old new h)"

definition list_del_init :: "addr \<Rightarrow> list_heap \<Rightarrow> list_heap" where
  "list_del_init entry h =
     INIT_LIST_HEAD entry (list_del_between (lprev h entry) (lnext h entry) h)"

definition list_move :: "addr \<Rightarrow> addr \<Rightarrow> list_heap \<Rightarrow> list_heap" where
  "list_move list head h =
     list_add list head (list_del_between (lprev h list) (lnext h list) h)"

definition list_move_tail :: "addr \<Rightarrow> addr \<Rightarrow> list_heap \<Rightarrow> list_heap" where
  "list_move_tail list head h =
     list_add_tail list head (list_del_between (lprev h list) (lnext h list) h)"

definition list_is_last :: "addr \<Rightarrow> addr \<Rightarrow> list_heap \<Rightarrow> bool" where
  "list_is_last list head h \<longleftrightarrow> lnext h list = head"

definition list_empty :: "addr \<Rightarrow> list_heap \<Rightarrow> bool" where
  "list_empty head h \<longleftrightarrow> lnext h head = head"

definition list_empty_careful :: "addr \<Rightarrow> list_heap \<Rightarrow> bool" where
  "list_empty_careful head h \<longleftrightarrow>
     (let next = lnext h head in next = head \<and> next = lprev h head)"

definition list_is_singular :: "addr \<Rightarrow> list_heap \<Rightarrow> bool" where
  "list_is_singular head h \<longleftrightarrow> \<not> list_empty head h \<and> lnext h head = lprev h head"

definition list_cut_position' :: "addr \<Rightarrow> addr \<Rightarrow> addr \<Rightarrow> list_heap \<Rightarrow> list_heap" where
  "list_cut_position' list head entry h =
     (let new_first = lnext h entry;
          h = set_next list (lnext h head) h;
          h = set_prev (lnext h list) list h;
          h = set_prev list entry h;
          h = set_next entry list h;
          h = set_next head new_first h;
          h = set_prev new_first head h
      in h)"

definition list_cut_position :: "addr \<Rightarrow> addr \<Rightarrow> addr \<Rightarrow> list_heap \<Rightarrow> list_heap" where
  "list_cut_position list head entry h =
     (if list_empty head h then h
      else if list_is_singular head h \<and> lnext h head \<noteq> entry \<and> head \<noteq> entry then h
      else if entry = head then INIT_LIST_HEAD list h
      else list_cut_position' list head entry h)"

definition list_splice_between :: "addr \<Rightarrow> addr \<Rightarrow> addr \<Rightarrow> list_heap \<Rightarrow> list_heap" where
  "list_splice_between list prev next h =
     (let first = lnext h list;
          last' = lprev h list;
          h = set_prev first prev h;
          h = set_next prev first h;
          h = set_next last' next h;
          h = set_prev next last' h
      in h)"

definition list_splice :: "addr \<Rightarrow> addr \<Rightarrow> list_heap \<Rightarrow> list_heap" where
  "list_splice list head h =
     (if \<not> list_empty list h then list_splice_between list head (lnext h head) h else h)"

definition list_splice_tail :: "addr \<Rightarrow> addr \<Rightarrow> list_heap \<Rightarrow> list_heap" where
  "list_splice_tail list head h =
     (if \<not> list_empty list h then list_splice_between list (lprev h head) head h else h)"

definition list_splice_init :: "addr \<Rightarrow> addr \<Rightarrow> list_heap \<Rightarrow> list_heap" where
  "list_splice_init list head h =
     (if \<not> list_empty list h
      then INIT_LIST_HEAD list (list_splice_between list head (lnext h head) h) else h)"

definition list_splice_tail_init :: "addr \<Rightarrow> addr \<Rightarrow> list_heap \<Rightarrow> list_heap" where
  "list_splice_tail_init list head h =
     (if \<not> list_empty list h
      then INIT_LIST_HEAD list (list_splice_between list (lprev h head) head h) else h)"

text \<open>The loop of \<^verbatim>\<open>list_for_each\<close>: the positions it visits, starting at \<open>pos\<close>. The macro runs
  for as long as \<^verbatim>\<open>pos != head\<close>, so it is given fuel; \<open>None\<close> is a loop that has not come back.\<close>

fun list_for_each_from :: "nat \<Rightarrow> addr \<Rightarrow> addr \<Rightarrow> list_heap \<Rightarrow> addr list option" where
  "list_for_each_from 0 pos head h = None"
| "list_for_each_from (Suc fuel) pos head h =
     (if pos \<noteq> head then map_option ((#) pos) (list_for_each_from fuel (lnext h pos) head h)
      else Some [])"

definition list_for_each :: "nat \<Rightarrow> addr \<Rightarrow> list_heap \<Rightarrow> addr list option" where
  "list_for_each fuel head h = list_for_each_from fuel (lnext h head) head h"

fun list_for_each_prev_from :: "nat \<Rightarrow> addr \<Rightarrow> addr \<Rightarrow> list_heap \<Rightarrow> addr list option" where
  "list_for_each_prev_from 0 pos head h = None"
| "list_for_each_prev_from (Suc fuel) pos head h =
     (if pos \<noteq> head then map_option ((#) pos) (list_for_each_prev_from fuel (lprev h pos) head h)
      else Some [])"

definition list_for_each_prev :: "nat \<Rightarrow> addr \<Rightarrow> list_heap \<Rightarrow> addr list option" where
  "list_for_each_prev fuel head h = list_for_each_prev_from fuel (lprev h head) head h"

section \<open>Segments and circular lists\<close>

fun seg :: "list_heap \<Rightarrow> addr \<Rightarrow> addr list \<Rightarrow> addr \<Rightarrow> bool" where
  "seg h a [] b \<longleftrightarrow> lnext h a = b \<and> lprev h b = a"
| "seg h a (x # xs) b \<longleftrightarrow> lnext h a = x \<and> lprev h x = a \<and> seg h x xs b"

definition dlist :: "list_heap \<Rightarrow> addr \<Rightarrow> addr list \<Rightarrow> bool" where
  "dlist h head xs \<longleftrightarrow> seg h head xs head \<and> distinct (head # xs) \<and> NULL_addr \<notin> set (head # xs)"

lemma seg_append [simp]: "seg h a (xs @ y # ys) b \<longleftrightarrow> seg h a xs y \<and> seg h y ys b"
  by (induction xs arbitrary: a) auto

lemma seg_first: "seg h a xs b \<Longrightarrow> lnext h a = (case xs of [] \<Rightarrow> b | x # _ \<Rightarrow> x)"
  by (cases xs) auto

lemma seg_last: "seg h a xs b \<Longrightarrow> lprev h b = (if xs = [] then a else last xs)"
  by (induction xs arbitrary: a) auto

text \<open>A segment reads \<^verbatim>\<open>next\<close> at its start and inner nodes and \<^verbatim>\<open>prev\<close> at its inner nodes and
  its end; a heap that agrees there has the same segment.\<close>

lemma seg_cong:
  assumes "\<And>p. p \<in> insert a (set xs) \<Longrightarrow> lnext h' p = lnext h p"
    and "\<And>p. p \<in> insert b (set xs) \<Longrightarrow> lprev h' p = lprev h p"
  shows "seg h' a xs b \<longleftrightarrow> seg h a xs b"
  using assms by (induction xs arbitrary: a) auto

lemma dlist_frame:
  assumes "dlist h head xs"
    and "\<And>p. p \<in> set (head # xs) \<Longrightarrow> lnext h' p = lnext h p"
    and "\<And>p. p \<in> set (head # xs) \<Longrightarrow> lprev h' p = lprev h p"
  shows "dlist h' head xs"
  using assms seg_cong [of head xs h' h head] by (auto simp: dlist_def)

lemma dlist_next: "dlist h head xs \<Longrightarrow> lnext h head = (case xs of [] \<Rightarrow> head | x # _ \<Rightarrow> x)"
  by (auto simp: dlist_def dest: seg_first)

lemma dlist_prev: "dlist h head xs \<Longrightarrow> lprev h head = (if xs = [] then head else last xs)"
  by (auto simp: dlist_def dest: seg_last)

text \<open>A circular list may be entered at any of its nodes.\<close>

lemma dlist_rotate: "dlist h head (xs @ y # ys) \<longleftrightarrow> dlist h y (ys @ head # xs)"
  by (auto simp: dlist_def)

lemma dlist_neighbours:
  assumes "dlist h head (xs @ e # ys)"
  shows "lprev h e = (if xs = [] then head else last xs)"
    and "lnext h e = (case ys of [] \<Rightarrow> head | y # _ \<Rightarrow> y)"
proof -
  from assms have "seg h head xs e" "seg h e ys head" by (simp_all add: dlist_def)
  then show "lprev h e = (if xs = [] then head else last xs)"
    and "lnext h e = (case ys of [] \<Rightarrow> head | y # _ \<Rightarrow> y)"
    by (auto dest: seg_first seg_last)
qed


lemma seg_set_next [simp]: "p \<notin> insert a (set xs) \<Longrightarrow> seg (set_next p v h) a xs b \<longleftrightarrow> seg h a xs b"
  by (rule seg_cong) auto

lemma seg_set_prev [simp]: "p \<notin> insert b (set xs) \<Longrightarrow> seg (set_prev p v h) a xs b \<longleftrightarrow> seg h a xs b"
  by (rule seg_cong) auto

lemmas list_ops_defs = INIT_LIST_HEAD_def list_add_between_def list_add_def list_add_tail_def
  list_del_between_def list_del_def list_replace_def list_replace_init_def list_del_init_def
  list_move_def list_move_tail_def Let_def

section \<open>What the operations do\<close>

lemma dlist_INIT: "head \<noteq> NULL_addr \<Longrightarrow> dlist (INIT_LIST_HEAD head h) head []"
  by (simp add: dlist_def INIT_LIST_HEAD_def)

lemma dlist_list_add:
  assumes "dlist h head xs" and "new \<notin> set (head # xs)" and "new \<noteq> NULL_addr"
  shows "dlist (list_add new head h) head (new # xs)"
  using assms by (cases xs) (auto simp: dlist_def list_ops_defs)

lemma dlist_snoc_cases:
  obtains "xs = []" | ys y where "xs = ys @ [y]"
  by (cases xs rule: rev_cases) auto

lemma dlist_list_add_tail:
  assumes d: "dlist h head xs" and n: "new \<notin> set (head # xs)" "new \<noteq> NULL_addr"
  shows "dlist (list_add_tail new head h) head (xs @ [new])"
proof (cases xs rule: rev_cases)
  case Nil
  with assms show ?thesis by (auto simp: dlist_def list_ops_defs)
next
  case (snoc ys y)
  with assms show ?thesis by (auto simp: dlist_def list_ops_defs)
qed

lemma dlist_del_between_first:
  assumes "dlist h head (e # ys)"
  shows "dlist (list_del_between (lprev h e) (lnext h e) h) head ys"
  using assms by (cases ys) (auto simp: dlist_def list_ops_defs)

lemma list_del_between_rotate:
  assumes d: "dlist h head (xs @ e # ys)"
  shows "dlist (list_del_between (lprev h e) (lnext h e) h) head (xs @ ys)"
proof (cases xs rule: rev_cases)
  case Nil
  with d show ?thesis by (simp add: dlist_del_between_first)
next
  case (snoc zs z)
  with d have "dlist h z (e # ys @ head # zs)"
    using dlist_rotate [of h head zs z "e # ys"] by simp
  then have "dlist (list_del_between (lprev h e) (lnext h e) h) z (ys @ head # zs)"
    by (rule dlist_del_between_first)
  with snoc show ?thesis using dlist_rotate [of _ head zs z ys] by simp
qed

text \<open>Writing the cells of a node that is not on a list leaves the list alone.\<close>

lemma dlist_set_next: "dlist h head xs \<Longrightarrow> p \<notin> set (head # xs) \<Longrightarrow> dlist (set_next p v h) head xs"
  by (auto simp: dlist_def)

lemma dlist_set_prev: "dlist h head xs \<Longrightarrow> p \<notin> set (head # xs) \<Longrightarrow> dlist (set_prev p v h) head xs"
  by (auto simp: dlist_def)

lemma dlist_INIT_other: "dlist h head xs \<Longrightarrow> p \<notin> set (head # xs) \<Longrightarrow> dlist (INIT_LIST_HEAD p h) head xs"
  by (simp add: INIT_LIST_HEAD_def Let_def dlist_set_next dlist_set_prev)

lemma dlist_notin: "dlist h head (xs @ e # ys) \<Longrightarrow> e \<notin> set (head # xs @ ys)"
  by (auto simp: dlist_def)

lemma dlist_list_del:
  assumes d: "dlist h head (xs @ e # ys)"
  shows "dlist (list_del e h) head (xs @ ys)"
    and "lnext (list_del e h) e = NULL_addr" and "lprev (list_del e h) e = NULL_addr"
proof -
  show "dlist (list_del e h) head (xs @ ys)"
    using list_del_between_rotate [OF d] dlist_notin [OF d]
    by (simp add: list_del_def Let_def dlist_set_next dlist_set_prev)
qed (simp_all add: list_del_def Let_def)

lemma dlist_list_del_init:
  assumes d: "dlist h head (xs @ e # ys)"
  shows "dlist (list_del_init e h) head (xs @ ys) \<and> dlist (list_del_init e h) e []"
proof -
  have "e \<noteq> NULL_addr" using d by (auto simp: dlist_def)
  then show ?thesis
    using list_del_between_rotate [OF d] dlist_notin [OF d]
    by (simp add: list_del_init_def dlist_INIT_other dlist_INIT)
qed

lemma dlist_replace_head:
  assumes "dlist h old xs" and "new \<notin> set (old # xs)" and "new \<noteq> NULL_addr"
  shows "dlist (list_replace old new h) new xs"
proof (cases xs rule: rev_cases)
  case Nil
  with assms show ?thesis by (auto simp: dlist_def list_ops_defs)
next
  case (snoc ys y)
  with assms show ?thesis by (cases ys) (auto simp: dlist_def list_ops_defs)
qed

lemma dlist_replace_entry:
  assumes d: "dlist h head (xs @ old # ys)" and n: "new \<notin> set (head # xs @ old # ys)"
    and "new \<noteq> NULL_addr"
  shows "dlist (list_replace old new h) head (xs @ new # ys)"
proof -
  from d have "dlist h old (ys @ head # xs)" by (simp add: dlist_rotate)
  with assms have "dlist (list_replace old new h) new (ys @ head # xs)"
    by (intro dlist_replace_head) auto
  then show ?thesis by (simp add: dlist_rotate)
qed

lemma dlist_replace_init:
  assumes "dlist h old xs" and "new \<notin> set (old # xs)" and "new \<noteq> NULL_addr"
  shows "dlist (list_replace_init old new h) new xs \<and> dlist (list_replace_init old new h) old []"
proof -
  have "old \<noteq> NULL_addr" "old \<notin> set (new # xs)" using assms by (auto simp: dlist_def)
  with dlist_replace_head [OF assms] show ?thesis
    by (simp add: list_replace_init_def dlist_INIT_other dlist_INIT)
qed

lemma dlist_add_between_other:
  "dlist h head xs \<Longrightarrow> {new, prev, next} \<inter> set (head # xs) = {} \<Longrightarrow>
   dlist (list_add_between new prev next h) head xs"
  by (simp add: list_add_between_def Let_def dlist_set_next dlist_set_prev)

lemma dlist_del_between_other:
  "dlist h head xs \<Longrightarrow> {prev, next} \<inter> set (head # xs) = {} \<Longrightarrow>
   dlist (list_del_between prev next h) head xs"
  by (simp add: list_del_between_def Let_def dlist_set_next dlist_set_prev)

lemma dlist_next_in: "dlist h head xs \<Longrightarrow> lnext h head \<in> set (head # xs)"
  by (auto simp: dlist_next split: list.splits)

lemma dlist_prev_in: "dlist h head xs \<Longrightarrow> lprev h head \<in> set (head # xs)"
  by (auto simp: dlist_prev)

lemma dlist_neighbours_in:
  assumes d: "dlist h head (xs @ e # ys)"
  shows "lnext h e \<in> set (head # xs @ ys)" and "lprev h e \<in> set (head # xs @ ys)"
  using dlist_neighbours [OF d] by (auto split: list.splits)

lemma dlist_list_add_other:
  assumes "dlist h head xs" and "dlist h other ys" and "set (head # xs) \<inter> set (other # ys) = {}"
    and "new \<notin> set (other # ys)"
  shows "dlist (list_add new head h) other ys" and "dlist (list_add_tail new head h) other ys"
proof -
  from assms(3,4) dlist_next_in [OF assms(1)] dlist_prev_in [OF assms(1)]
  have d: "{new, head, lnext h head} \<inter> set (other # ys) = {}"
    "{new, lprev h head, head} \<inter> set (other # ys) = {}" by auto
  show "dlist (list_add new head h) other ys"
    unfolding list_add_def by (rule dlist_add_between_other [OF assms(2) d(1)])
  show "dlist (list_add_tail new head h) other ys"
    unfolding list_add_tail_def by (rule dlist_add_between_other [OF assms(2) d(2)])
qed

lemma dlist_list_del_other:
  assumes "dlist h head (xs @ e # ys)" and "dlist h other zs"
    and "set (head # xs @ e # ys) \<inter> set (other # zs) = {}"
  shows "dlist (list_del_between (lprev h e) (lnext h e) h) other zs"
    and "dlist (list_del e h) other zs"
proof -
  have d: "{lprev h e, lnext h e} \<inter> set (other # zs) = {}"
    using assms(3) dlist_neighbours_in [OF assms(1)] by auto
  show b: "dlist (list_del_between (lprev h e) (lnext h e) h) other zs"
    by (rule dlist_del_between_other [OF assms(2) d])
  have "e \<notin> set (other # zs)" using assms(3) by auto
  with b show "dlist (list_del e h) other zs"
    by (simp add: list_del_def Let_def dlist_set_next dlist_set_prev)
qed

lemma dlist_list_move_within:
  assumes d: "dlist h head (xs @ e # ys)"
  shows "dlist (list_move e head h) head (e # xs @ ys)"
    and "dlist (list_move_tail e head h) head (xs @ ys @ [e])"
proof -
  have e: "e \<notin> set (head # xs @ ys)" "e \<noteq> NULL_addr"
    using dlist_notin [OF d] d by (auto simp: dlist_def)
  show "dlist (list_move e head h) head (e # xs @ ys)"
    unfolding list_move_def by (rule dlist_list_add [OF list_del_between_rotate [OF d] e])
  show "dlist (list_move_tail e head h) head (xs @ ys @ [e])"
    using dlist_list_add_tail [OF list_del_between_rotate [OF d] e] by (simp add: list_move_tail_def)
qed

lemma dlist_list_move_across:
  assumes d: "dlist h src (xs @ e # ys)" and o: "dlist h dst zs"
    and disj: "set (src # xs @ e # ys) \<inter> set (dst # zs) = {}"
  shows "dlist (list_move e dst h) src (xs @ ys) \<and> dlist (list_move e dst h) dst (e # zs)"
    and "dlist (list_move_tail e dst h) src (xs @ ys) \<and> dlist (list_move_tail e dst h) dst (zs @ [e])"
proof -
  let ?h = "list_del_between (lprev h e) (lnext h e) h"
  have s: "dlist ?h src (xs @ ys)" by (rule list_del_between_rotate [OF d])
  have t: "dlist ?h dst zs" by (rule dlist_list_del_other(1) [OF d o disj])
  have e: "e \<notin> set (dst # zs)" "e \<noteq> NULL_addr" "e \<notin> set (src # xs @ ys)"
    using disj d dlist_notin [OF d] by (auto simp: dlist_def)
  have dj: "set (dst # zs) \<inter> set (src # xs @ ys) = {}" using disj by auto
  show "dlist (list_move e dst h) src (xs @ ys) \<and> dlist (list_move e dst h) dst (e # zs)"
    using dlist_list_add [OF t e(1,2)] dlist_list_add_other(1) [OF t s dj e(3)]
    by (simp add: list_move_def)
  show "dlist (list_move_tail e dst h) src (xs @ ys) \<and> dlist (list_move_tail e dst h) dst (zs @ [e])"
    using dlist_list_add_tail [OF t e(1,2)] dlist_list_add_other(2) [OF t s dj e(3)]
    by (simp add: list_move_tail_def)
qed

section \<open>Tests, cutting, splicing and iterating\<close>

lemma list_empty_iff: "dlist h head xs \<Longrightarrow> list_empty head h \<longleftrightarrow> xs = []"
  by (auto simp: list_empty_def dlist_next dlist_def split: list.splits)

lemma list_empty_careful_iff: "dlist h head xs \<Longrightarrow> list_empty_careful head h \<longleftrightarrow> xs = []"
  by (auto simp: list_empty_careful_def dlist_next dlist_prev dlist_def split: list.splits)

lemma list_is_singular_iff:
  assumes d: "dlist h head xs"
  shows "list_is_singular head h \<longleftrightarrow> length xs = 1"
proof (cases xs)
  case Nil
  then show ?thesis using list_empty_iff [OF d] by (simp add: list_is_singular_def)
next
  case (Cons y ys)
  then show ?thesis using d list_empty_iff [OF d]
    by (auto simp: list_is_singular_def dlist_next [OF d] dlist_prev [OF d] dlist_def)
qed

lemma list_is_last_iff:
  assumes d: "dlist h head (xs @ e # ys)"
  shows "list_is_last e head h \<longleftrightarrow> ys = []"
  using d dlist_neighbours(2) [OF d] by (auto simp: list_is_last_def dlist_def split: list.splits)

lemma dlist_splice_between:
  assumes l: "dlist h l ys" and d: "dlist h head xs" and ne: "ys \<noteq> []"
    and disj: "set (l # ys) \<inter> set (head # xs) = {}"
  shows "dlist (list_splice_between l head (lnext h head) h) head (ys @ xs)"
proof -
  obtain y ys' where y: "ys = y # ys'" using ne by (cases ys) auto
  show ?thesis
  proof (cases ys' rule: rev_cases)
    case Nil
    with assms y show ?thesis
      by (cases xs) (auto simp: dlist_def list_splice_between_def Let_def)
  next
    case (snoc zs z)
    with assms y show ?thesis
      by (cases xs) (auto simp: dlist_def list_splice_between_def Let_def)
  qed
qed

lemma dlist_list_splice:
  assumes l: "dlist h l ys" and d: "dlist h head xs" and disj: "set (l # ys) \<inter> set (head # xs) = {}"
  shows "dlist (list_splice l head h) head (ys @ xs)"
  using dlist_splice_between [OF l d _ disj] d
  by (auto simp: list_splice_def list_empty_iff [OF l])

text \<open>Appending at the tail is inserting after the last entry: the same lemma on the list entered
  at that entry.\<close>

lemma dlist_splice_between_tail:
  assumes l: "dlist h l ys" and d: "dlist h head xs" and ne: "ys \<noteq> []"
    and disj: "set (l # ys) \<inter> set (head # xs) = {}"
  shows "dlist (list_splice_between l (lprev h head) head h) head (xs @ ys)"
proof (cases xs rule: rev_cases)
  case Nil
  then show ?thesis using dlist_splice_between [OF l d ne disj] d
    by (simp add: dlist_next dlist_prev)
next
  case (snoc zs z)
  with d have z: "dlist h z (head # zs)" using dlist_rotate [of h head zs z "[]"] by simp
  have "dlist (list_splice_between l z (lnext h z) h) z (ys @ head # zs)"
    by (rule dlist_splice_between [OF l z ne]) (use disj snoc in auto)
  then have "dlist (list_splice_between l z head h) head (zs @ z # ys)"
    using z by (simp add: dlist_next dlist_rotate)
  with snoc d show ?thesis by (simp add: dlist_prev)
qed

lemma dlist_list_splice_tail:
  assumes l: "dlist h l ys" and d: "dlist h head xs" and disj: "set (l # ys) \<inter> set (head # xs) = {}"
  shows "dlist (list_splice_tail l head h) head (xs @ ys)"
  using dlist_splice_between_tail [OF l d _ disj] d
  by (auto simp: list_splice_tail_def list_empty_iff [OF l])

lemma dlist_list_splice_init:
  assumes l: "dlist h l ys" and d: "dlist h head xs" and disj: "set (l # ys) \<inter> set (head # xs) = {}"
  shows "dlist (list_splice_init l head h) head (ys @ xs) \<and> dlist (list_splice_init l head h) l []"
    and "dlist (list_splice_tail_init l head h) head (xs @ ys) \<and>
         dlist (list_splice_tail_init l head h) l []"
proof -
  have n: "l \<noteq> NULL_addr" "l \<notin> set (head # ys @ xs)" "l \<notin> set (head # xs @ ys)"
    using l disj by (auto simp: dlist_def)
  show "dlist (list_splice_init l head h) head (ys @ xs) \<and> dlist (list_splice_init l head h) l []"
    using dlist_INIT_other [OF dlist_splice_between [OF l d _ disj] n(2)] dlist_INIT [OF n(1)] l d
    by (cases "ys = []") (simp_all add: list_splice_init_def list_empty_iff [OF l])
  show "dlist (list_splice_tail_init l head h) head (xs @ ys) \<and>
        dlist (list_splice_tail_init l head h) l []"
    using dlist_INIT_other [OF dlist_splice_between_tail [OF l d _ disj] n(3)] dlist_INIT [OF n(1)] l d
    by (cases "ys = []") (simp_all add: list_splice_tail_init_def list_empty_iff [OF l])
qed

lemma dlist_list_cut_position':
  assumes d: "dlist h head (xs @ e # ys)" and n: "l \<notin> set (head # xs @ e # ys)" "l \<noteq> NULL_addr"
  shows "dlist (list_cut_position' l head e h) l (xs @ [e]) \<and> dlist (list_cut_position' l head e h) head ys"
proof -
  define x where "x = lnext h head"
  define y where "y = lnext h e"
  define h' where "h' = list_cut_position' l head e h"
  have s: "seg h head xs e" "seg h e ys head" and di: "distinct (head # xs @ e # ys)" "NULL_addr \<notin> set (head # xs @ e # ys)"
    using d by (auto simp: dlist_def)
  have x: "x = (case xs of [] \<Rightarrow> e | z # _ \<Rightarrow> z)" and y: "y = (case ys of [] \<Rightarrow> head | z # _ \<Rightarrow> z)"
    using s by (auto simp: x_def y_def dest: seg_first)
  have ne: "l \<noteq> head" "l \<noteq> e" "head \<noteq> e" "x \<noteq> l" "y \<noteq> l" "x \<noteq> head" "x \<noteq> y" "y \<noteq> e" "y \<notin> set xs" "x \<notin> set ys"
    using di n by (auto simp: x y split: list.splits)
  have cells: "lnext h' = (lnext h)(l := x, e := l, head := y)" "lprev h' = (lprev h)(x := l, l := e, y := head)"
    using ne by (simp_all add: h'_def list_cut_position'_def Let_def x_def [symmetric] y_def [symmetric])
  have "seg h' l xs e"
  proof (cases xs)
    case Nil then show ?thesis using x ne by (simp add: cells)
  next
    case (Cons z zs)
    then have "seg h' z zs e \<longleftrightarrow> seg h z zs e" using ne di n x y by (intro seg_cong) (auto simp: cells)
    then show ?thesis using Cons s(1) ne x by (simp add: cells)
  qed
  moreover have "seg h' e [] l" using ne by (simp add: cells)
  moreover have "seg h' head ys head"
  proof (cases ys)
    case Nil then show ?thesis using y ne by (simp add: cells)
  next
    case (Cons z zs)
    then have "seg h' z zs head \<longleftrightarrow> seg h z zs head" using ne di n x y by (intro seg_cong) (auto simp: cells)
    then show ?thesis using Cons s(2) ne y by (simp add: cells)
  qed
  ultimately show ?thesis using n di by (auto simp: dlist_def h'_def)
qed
lemma dlist_list_cut_position:
  assumes d: "dlist h head (xs @ e # ys)" and n: "l \<notin> set (head # xs @ e # ys)" "l \<noteq> NULL_addr"
  shows "dlist (list_cut_position l head e h) l (xs @ [e]) \<and>
         dlist (list_cut_position l head e h) head ys"
proof -
  have "list_cut_position l head e h = list_cut_position' l head e h"
    using d list_empty_iff [OF d] list_is_singular_iff [OF d] dlist_next [OF d]
    by (auto simp: list_cut_position_def dlist_def)
  then show ?thesis using dlist_list_cut_position' [OF d n] by simp
qed

lemma list_for_each_from_seg:
  "seg h a xs b \<Longrightarrow> b \<notin> set xs \<Longrightarrow> length xs < fuel \<Longrightarrow>
   list_for_each_from fuel (lnext h a) b h = Some xs"
proof (induction fuel arbitrary: a xs)
  case (Suc fuel)
  then show ?case by (cases xs) auto
qed simp

lemma list_for_each_prev_from_seg:
  "seg h a xs b \<Longrightarrow> a \<notin> set xs \<Longrightarrow> length xs < fuel \<Longrightarrow>
   list_for_each_prev_from fuel (lprev h b) a h = Some (rev xs)"
proof (induction fuel arbitrary: b xs)
  case (Suc fuel)
  then show ?case by (cases xs rule: rev_cases) auto
qed simp

lemma list_for_each_dlist: "dlist h head xs \<Longrightarrow> length xs < fuel \<Longrightarrow> list_for_each fuel head h = Some xs"
  by (simp add: list_for_each_def list_for_each_from_seg dlist_def)

lemma list_for_each_prev_dlist:
  "dlist h head xs \<Longrightarrow> length xs < fuel \<Longrightarrow> list_for_each_prev fuel head h = Some (rev xs)"
  by (simp add: list_for_each_prev_def list_for_each_prev_from_seg dlist_def)

section \<open>The interface the object pools use\<close>

text \<open>The message pool and the timer pool keep their free objects on a list: they initialise its
  head, append every object, take the first node and append it again when it is released. The
  laws they rely on, and what follows from them alone.\<close>

locale node_list =
  fixes init :: "addr \<Rightarrow> 'h \<Rightarrow> 'h"
    and append :: "addr \<Rightarrow> addr \<Rightarrow> 'h \<Rightarrow> 'h"
    and remove :: "addr \<Rightarrow> 'h \<Rightarrow> 'h"
    and first :: "addr \<Rightarrow> 'h \<Rightarrow> addr"
    and holds :: "'h \<Rightarrow> addr \<Rightarrow> addr list \<Rightarrow> bool"
  assumes holds_init: "head \<noteq> 0 \<Longrightarrow> holds (init head h) head []"
    and holds_append: "holds h head xs \<Longrightarrow> n \<notin> set (head # xs) \<Longrightarrow> n \<noteq> 0 \<Longrightarrow>
          holds (append n head h) head (xs @ [n])"
    and holds_remove: "holds h head (xs @ n # ys) \<Longrightarrow> holds (remove n h) head (xs @ ys)"
    and holds_first: "holds h head (x # xs) \<Longrightarrow> first head h = x"
    and holds_distinct: "holds h head xs \<Longrightarrow> distinct (head # xs)"
    and holds_nonnull: "holds h head xs \<Longrightarrow> 0 \<notin> set (head # xs)"
begin

lemma holds_append_all:
  "holds h head xs \<Longrightarrow> distinct (xs @ ns) \<Longrightarrow> head \<notin> set ns \<Longrightarrow> 0 \<notin> set ns \<Longrightarrow>
   holds (fold (\<lambda>n. append n head) ns h) head (xs @ ns)"
proof (induction ns arbitrary: h xs)
  case (Cons n ns)
  have "holds (append n head h) head (xs @ [n])"
    using Cons.prems holds_distinct [OF Cons.prems(1)] by (intro holds_append) auto
  then show ?case using Cons.IH [of "append n head h" "xs @ [n]"] Cons.prems by simp
qed simp

lemma holds_build:
  "head \<noteq> 0 \<Longrightarrow> distinct (head # ns) \<Longrightarrow> 0 \<notin> set ns \<Longrightarrow>
   holds (fold (\<lambda>n. append n head) ns (init head h)) head ns"
  using holds_append_all [OF holds_init, of head ns h] by simp

lemma holds_take_first: "holds h head (x # xs) \<Longrightarrow> holds (remove (first head h) h) head xs"
  using holds_remove [of h head "[]" x xs] by (simp add: holds_first)

lemma holds_recycle:
  assumes "holds h head (x # xs)"
  shows "holds (append x head (remove (first head h) h)) head (xs @ [x])"
  using holds_append [OF holds_take_first [OF assms], of x] holds_distinct [OF assms]
    holds_nonnull [OF assms] by auto

end

interpretation ml: node_list INIT_LIST_HEAD list_add_tail list_del "\<lambda>head h. lnext h head" dlist
proof unfold_locales
  show "head \<noteq> 0 \<Longrightarrow> dlist (INIT_LIST_HEAD head h) head []" for head h
    by (rule dlist_INIT) (simp add: NULL_addr_def)
  show "dlist h head xs \<Longrightarrow> n \<notin> set (head # xs) \<Longrightarrow> n \<noteq> 0 \<Longrightarrow>
      dlist (list_add_tail n head h) head (xs @ [n])" for h head xs n
    by (rule dlist_list_add_tail) (simp_all add: NULL_addr_def)
  show "dlist h head (xs @ n # ys) \<Longrightarrow> dlist (list_del n h) head (xs @ ys)" for h head xs n ys
    by (rule dlist_list_del)
  show "dlist h head (x # xs) \<Longrightarrow> lnext h head = x" for h head x xs
    by (simp add: dlist_next)
qed (simp_all add: dlist_def NULL_addr_def)

section \<open>Properties\<close>

text \<open>A list of three nodes, built with the operations.\<close>

definition sample_list :: list_heap where
  "sample_list = fold (\<lambda>n. list_add_tail n 1) [2, 3, 4]
     (INIT_LIST_HEAD 1 \<lparr>lnext = (\<lambda>_. 0), lprev = (\<lambda>_. 0)\<rparr>)"

lemma sample_dlist: "dlist sample_list 1 [2, 3, 4]"
  by (simp add: sample_list_def dlist_def list_ops_defs NULL_addr_def)

text \<open>On a well-formed list, iterating visits every entry exactly once and in order,
  iterating backwards visits them in reverse, one step more than the number of entries is enough
  for either loop to end, and the emptiness tests agree with what the loops see.\<close>

lemma list_iterate:
  assumes "dlist h head xs" and "length xs < fuel"
  shows "list_for_each fuel head h = Some xs \<and> list_for_each_prev fuel head h = Some (rev xs) \<and>
    (list_empty head h \<longleftrightarrow> xs = []) \<and> (list_empty_careful head h \<longleftrightarrow> xs = []) \<and>
    (list_is_singular head h \<longleftrightarrow> length xs = 1)"
  using assms list_empty_iff list_empty_careful_iff list_is_singular_iff list_for_each_dlist list_for_each_prev_dlist
  by simp

lemma list_iterate_example:
  "list_for_each 4 1 sample_list = Some [2, 3, 4] \<and> list_for_each_prev 4 1 sample_list = Some (rev [2, 3, 4]) \<and>
    (list_empty 1 sample_list \<longleftrightarrow> [2, 3, 4::nat] = []) \<and> (list_empty_careful 1 sample_list \<longleftrightarrow> [2, 3, 4::nat] = []) \<and>
    (list_is_singular 1 sample_list \<longleftrightarrow> length [2, 3, 4::nat] = 1)"
  by (rule list_iterate [OF sample_dlist]) simp

text \<open>Deleting an entry removes exactly it and clears its links, moving it to another list takes
  it out of the first and puts it at the front or the end of the second, and replacing it by a
  fresh node keeps its place.\<close>

lemma list_edit:
  assumes "dlist h src (xs @ e # ys)" and "dlist h dst zs"
    and "set (src # xs @ e # ys) \<inter> set (dst # zs) = {}"
    and "new \<notin> set (src # xs @ e # ys)" "new \<noteq> NULL_addr"
  shows "dlist (list_del e h) src (xs @ ys) \<and> lnext (list_del e h) e = NULL_addr \<and>
    dlist (list_move e dst h) src (xs @ ys) \<and> dlist (list_move e dst h) dst (e # zs) \<and>
    dlist (list_move_tail e dst h) src (xs @ ys) \<and> dlist (list_move_tail e dst h) dst (zs @ [e]) \<and>
    dlist (list_replace e new h) src (xs @ new # ys)"
  using dlist_list_del [OF assms(1)] dlist_list_move_across [OF assms(1-3)]
    dlist_replace_entry [OF assms(1,4,5)] by blast

lemma list_edit_example:
  defines "h \<equiv> INIT_LIST_HEAD 10 sample_list"
  shows "dlist (list_del 3 h) 1 ([2] @ [4]) \<and> lnext (list_del 3 h) 3 = NULL_addr \<and>
    dlist (list_move 3 10 h) 1 ([2] @ [4]) \<and> dlist (list_move 3 10 h) 10 (3 # []) \<and>
    dlist (list_move_tail 3 10 h) 1 ([2] @ [4]) \<and> dlist (list_move_tail 3 10 h) 10 ([] @ [3]) \<and>
    dlist (list_replace 3 5 h) 1 ([2] @ 5 # [4])"
  by (rule list_edit)
    (use sample_dlist in \<open>simp_all add: h_def dlist_INIT dlist_INIT_other NULL_addr_def\<close>)

text \<open>C40 (list\_cut\_splice): cutting a list at an entry gives the entries up to it on the new head and the
  others on the old one; splicing the cut part back in front restores the list, and the splice
  that re-initialises its source leaves that empty.\<close>

theorem list_cut_splice:
  assumes "dlist h head (xs @ e # ys)" and "l \<notin> set (head # xs @ e # ys)" and "l \<noteq> NULL_addr"
  shows "dlist (list_cut_position l head e h) l (xs @ [e]) \<and> dlist (list_cut_position l head e h) head ys \<and>
    dlist (list_splice l head (list_cut_position l head e h)) head (xs @ e # ys) \<and>
    dlist (list_splice_init l head (list_cut_position l head e h)) head (xs @ e # ys) \<and>
    dlist (list_splice_init l head (list_cut_position l head e h)) l []"
proof -
  note c = dlist_list_cut_position [OF assms]
  have disj: "set (l # xs @ [e]) \<inter> set (head # ys) = {}" using assms by (auto simp: dlist_def)
  show ?thesis
    using c dlist_list_splice [OF conjunct1 [OF c] conjunct2 [OF c] disj]
      dlist_list_splice_init(1) [OF conjunct1 [OF c] conjunct2 [OF c] disj] by simp
qed

theorem list_cut_splice_witness:
  "dlist (list_cut_position 9 1 3 sample_list) 9 ([2] @ [3]) \<and> dlist (list_cut_position 9 1 3 sample_list) 1 [4] \<and>
    dlist (list_splice 9 1 (list_cut_position 9 1 3 sample_list)) 1 ([2] @ 3 # [4]) \<and>
    dlist (list_splice_init 9 1 (list_cut_position 9 1 3 sample_list)) 1 ([2] @ 3 # [4]) \<and>
    dlist (list_splice_init 9 1 (list_cut_position 9 1 3 sample_list)) 9 []"
  by (rule list_cut_splice) (use sample_dlist in \<open>simp_all add: NULL_addr_def\<close>)

end
