(* ===== verification/Pool_Spec.thy ===== *)
theory Pool_Spec
  imports Mblue_Prelude "HOL-Library.Multiset"
begin

text \<open>
  The contract of a fixed pool of objects threaded on a free list, which the message pool of
  \<^verbatim>\<open>mblue_message.c\<close> and the timer pool of \<^verbatim>\<open>mblue_timer.c\<close> both implement: an object is taken
  from the front of the free list (\<open>0\<close>, that is \<^verbatim>\<open>NULL\<close>, when there is none) and given back at
  its end. What it means for clients is proved here once: in every sequence of requests and
  returns, the objects handed out and the free ones partition the pool.
\<close>

datatype pool_op = Acquire | Give_Back nat

locale object_pool =
  fixes acquire :: "'s \<Rightarrow> nat \<times> 's"
    and give_back :: "nat \<Rightarrow> 's \<Rightarrow> 's"
    and returnable :: "'s \<Rightarrow> nat \<Rightarrow> bool"
    and holds :: "'s \<Rightarrow> nat list \<Rightarrow> bool"
    and objs :: "nat set"
  assumes acquire_first: "holds s (x # xs) \<Longrightarrow> \<exists>s'. acquire s = (x, s') \<and> holds s' xs \<and> returnable s' x"
    and acquire_null: "holds s [] \<Longrightarrow> \<exists>s'. acquire s = (0, s') \<and> holds s' []"
    and give_back_last: "holds s xs \<Longrightarrow> x \<in> objs \<Longrightarrow> x \<notin> set xs \<Longrightarrow> returnable s x \<Longrightarrow>
          holds (give_back x s) (xs @ [x])"
    and holds_objs: "holds s xs \<Longrightarrow> distinct xs \<and> set xs \<subseteq> objs"
    and null_no_object: "0 \<notin> objs"
begin

text \<open>A client that only gives back what it holds.\<close>

fun client :: "pool_op list \<Rightarrow> nat list \<Rightarrow> 's \<Rightarrow> nat list \<times> 's" where
  "client [] held s = (held, s)"
| "client (Acquire # ops) held s =
     (let (x, s') = acquire s in client ops (if x = 0 then held else x # held) s')"
| "client (Give_Back x # ops) held s =
     (if x \<in> set held \<and> returnable s x then client ops (remove1 x held) (give_back x s)
      else client ops held s)"

lemma client_partition:
  assumes "holds s free" and "distinct (held @ free)" and "set held \<subseteq> objs"
    and "client ops held s = (held', s')"
  shows "\<exists>free'. holds s' free' \<and> distinct (held' @ free') \<and> set held' \<subseteq> objs \<and>
           mset (held' @ free') = mset (held @ free)"
  using assms
proof (induction ops arbitrary: held s free)
  case Nil
  then show ?case by auto
next
  case (Cons p ops)
  show ?case
  proof (cases p)
    case Acquire
    show ?thesis
    proof (cases free)
      case Nil
      with Cons.prems(1) obtain s1 where s1: "acquire s = (0, s1)" "holds s1 []"
        using acquire_null by blast
      with Cons.prems Acquire Nil have "client ops held s1 = (held', s')" by simp
      from Cons.IH [OF s1(2) _ Cons.prems(3) this] Cons.prems(2) Nil show ?thesis by simp
    next
      case (Cons x xs)
      with Cons.prems(1) obtain s1 where s1: "acquire s = (x, s1)" "holds s1 xs"
        using acquire_first by blast
      have x1: "x \<in> objs" using holds_objs [OF Cons.prems(1)] Cons by auto
      have x2: "x \<noteq> 0" using x1 null_no_object by metis
      note x = x1 x2
      with s1 Cons.prems Acquire have "client ops (x # held) s1 = (held', s')" by simp
      from Cons.IH [OF s1(2) _ _ this] Cons.prems(2,3) Cons x show ?thesis by auto
    qed
  next
    case (Give_Back x)
    show ?thesis
    proof (cases "x \<in> set held \<and> returnable s x")
      case True
      then have x: "x \<in> objs" "x \<notin> set free" using Cons.prems(2,3) by auto
      have h: "holds (give_back x s) (free @ [x])"
        using give_back_last [OF Cons.prems(1) x] True by simp
      have c: "client ops (remove1 x held) (give_back x s) = (held', s')"
        using Cons.prems(4) Give_Back True by simp
      have d: "distinct (remove1 x held @ free @ [x])" "set (remove1 x held) \<subseteq> objs"
        using Cons.prems(2,3) x(2) by (auto simp: set_remove1_eq)
      have "mset (remove1 x held @ free @ [x]) = mset (held @ free)"
        using True by (simp flip: add_mset_add_single)
      with Cons.IH [OF h d c] show ?thesis by (simp only:)
    next
      case False
      with Cons.prems(4) Give_Back have "client ops held s = (held', s')" by auto
      from Cons.IH [OF Cons.prems(1-3) this] show ?thesis .
    qed
  qed
qed

text \<open>So a request never returns an object that is still held, and fails only when every object
  of the pool is held.\<close>

lemma acquire_fresh:
  assumes "holds s free" and "distinct (held @ free)" and "set held \<union> set free = objs"
    and "acquire s = (x, s')"
  shows "x \<notin> set held" and "x = 0 \<longleftrightarrow> set held = objs"
proof -
  have z: "0 \<notin> set held" using assms(3) null_no_object by auto
  show "x \<notin> set held"
    using acquire_first [of s] acquire_null [of s] assms z by (cases free) force+
  show "x = 0 \<longleftrightarrow> set held = objs"
  proof (cases free)
    case Nil
    with acquire_null [of s] assms show ?thesis by auto
  next
    case (Cons y ys)
    with acquire_first [of s y ys] assms have "x = y" by auto
    with Cons assms null_no_object show ?thesis by auto
  qed
qed

end

end
