(* ===== verification/Message.thy ===== *)
theory Message
  imports Mblue_List Pool_Spec
begin

text \<open>
  Messages: the identifiers of \<^verbatim>\<open>middleware/components/message/message_def.h\<close>, the packed
  message code of \<^verbatim>\<open>mblue_message.h\<close>, and the pool of 32 reference-counted messages of
  \<^verbatim>\<open>mblue_message.c\<close>, whose free list is an intrusive list of \<^verbatim>\<open>Mblue_List\<close>. The pool is shown to
  implement the contract of \<^verbatim>\<open>Pool_Spec\<close>.
\<close>

section \<open>Message identifiers\<close>

datatype MESSAGE_TYPE = SUBSCRIBE | SIGNAL | SYNC_CALL | ASYNC_CALL | CALL_RETURN

primrec type_value :: "MESSAGE_TYPE \<Rightarrow> nat" where
  "type_value SUBSCRIBE = 0"
| "type_value SIGNAL = 1"
| "type_value SYNC_CALL = 2"
| "type_value ASYNC_CALL = 3"
| "type_value CALL_RETURN = 4"

definition MESSAGE_TYPE_MAX :: nat where
  "MESSAGE_TYPE_MAX = 5"

datatype MESSAGE_MAJOR = MBLUE_BUS | MBLUE_SYSTEM | MBLUE_LOG_SERVICE | MBLUE_SIMPLE_SCENARIO
  | MBLUE_USER_DEFINE1 | MBLUE_USER_DEFINE2 | MBLUE_USER_DEFINE3

primrec major_value :: "MESSAGE_MAJOR \<Rightarrow> nat" where
  "major_value MBLUE_BUS = 0"
| "major_value MBLUE_SYSTEM = 1"
| "major_value MBLUE_LOG_SERVICE = 2"
| "major_value MBLUE_SIMPLE_SCENARIO = 3"
| "major_value MBLUE_USER_DEFINE1 = 4"
| "major_value MBLUE_USER_DEFINE2 = 5"
| "major_value MBLUE_USER_DEFINE3 = 6"

definition SEGMENT_MAJOR_MAX :: nat where
  "SEGMENT_MAJOR_MAX = 7"

text \<open>The minor numbers, the enumerators of \<^verbatim>\<open>TIMER_MESSAGE\<close> to \<^verbatim>\<open>LED_SERVICE_MESSAGE\<close> with the
  values C gives them: every base is \<^verbatim>\<open>MBLUE_MINOR_DEFAULT_GAP\<close> (0x100) above the previous base, and
  the other enumerators count up from their base.\<close>

datatype TIMER_MESSAGE =
    MBLUE_TIMER_SIGNAL_BASE
  | MBLUE_TIMER_WAKEUP
  | MBLUE_TIMER_RPC_BASE
  | MBLUE_TIMER_GET
  | MBLUE_TIMER_INIT
  | MBLUE_TIMER_START
  | MBLUE_TIMER_STOP
  | MBLUE_TIMER_UNINIT
  | MBLUE_TIMER_RELEASE

primrec timer_message_value :: "TIMER_MESSAGE \<Rightarrow> nat" where
  "timer_message_value MBLUE_TIMER_SIGNAL_BASE = 0"
| "timer_message_value MBLUE_TIMER_WAKEUP = 0x1"
| "timer_message_value MBLUE_TIMER_RPC_BASE = 0x100"
| "timer_message_value MBLUE_TIMER_GET = 0x101"
| "timer_message_value MBLUE_TIMER_INIT = 0x102"
| "timer_message_value MBLUE_TIMER_START = 0x103"
| "timer_message_value MBLUE_TIMER_STOP = 0x104"
| "timer_message_value MBLUE_TIMER_UNINIT = 0x105"
| "timer_message_value MBLUE_TIMER_RELEASE = 0x106"

datatype ASYNC_MESSAGE =
    MBLUE_ASYNC_SIGNAL_BASE
  | MBLUE_ASYNC_RPC_BASE
  | MBLUE_ASYNC_SCHEDULE
  | MBLUE_ASYNC_ADD

primrec async_message_value :: "ASYNC_MESSAGE \<Rightarrow> nat" where
  "async_message_value MBLUE_ASYNC_SIGNAL_BASE = 0x200"
| "async_message_value MBLUE_ASYNC_RPC_BASE = 0x300"
| "async_message_value MBLUE_ASYNC_SCHEDULE = 0x301"
| "async_message_value MBLUE_ASYNC_ADD = 0x302"

datatype GPIO_MODULE_MESSAGE =
    MBLUE_GPIO_MODULE_SIGNAL_BASE
  | MBLUE_GPIO_VIBTATION_EVENT
  | MBLUE_GPIO_POWER_EVENT
  | MBLUE_GPIO_ACC_EVENT

primrec gpio_module_message_value :: "GPIO_MODULE_MESSAGE \<Rightarrow> nat" where
  "gpio_module_message_value MBLUE_GPIO_MODULE_SIGNAL_BASE = 0x400"
| "gpio_module_message_value MBLUE_GPIO_VIBTATION_EVENT = 0x401"
| "gpio_module_message_value MBLUE_GPIO_POWER_EVENT = 0x402"
| "gpio_module_message_value MBLUE_GPIO_ACC_EVENT = 0x403"

datatype UART_MODULE_MESSAGE =
    MBLUE_UART_MODULE_SIGNAL_BASE
  | MBLUE_UART1_RECV_COMPLETE
  | MBLUE_UART1_SEND_COMPLETE
  | MBLUE_UART1_DATA_FRAGMENT
  | MBLUE_UART2_RECV_COMPLETE
  | MBLUE_UART2_SEND_COMPLETE
  | MBLUE_UART2_DATA_FRAGMENT
  | MBLUE_UART3_RECV_COMPLETE
  | MBLUE_UART3_SEND_COMPLETE
  | MBLUE_UART3_DATA_FRAGMENT

primrec uart_module_message_value :: "UART_MODULE_MESSAGE \<Rightarrow> nat" where
  "uart_module_message_value MBLUE_UART_MODULE_SIGNAL_BASE = 0x500"
| "uart_module_message_value MBLUE_UART1_RECV_COMPLETE = 0x501"
| "uart_module_message_value MBLUE_UART1_SEND_COMPLETE = 0x502"
| "uart_module_message_value MBLUE_UART1_DATA_FRAGMENT = 0x503"
| "uart_module_message_value MBLUE_UART2_RECV_COMPLETE = 0x504"
| "uart_module_message_value MBLUE_UART2_SEND_COMPLETE = 0x505"
| "uart_module_message_value MBLUE_UART2_DATA_FRAGMENT = 0x506"
| "uart_module_message_value MBLUE_UART3_RECV_COMPLETE = 0x507"
| "uart_module_message_value MBLUE_UART3_SEND_COMPLETE = 0x508"
| "uart_module_message_value MBLUE_UART3_DATA_FRAGMENT = 0x509"

datatype UART_SERVICE_MESSAGE =
    MBLUE_UART_SERVICE_SIGNAL_BASE
  | MBLUE_MODEM_DATA_FRAGMENT
  | MBLUE_MODEM_DATA_COMPLETE
  | MBLUE_UART_SERVICE_RPC_BASE
  | MBLUE_UART_WRITE

primrec uart_service_message_value :: "UART_SERVICE_MESSAGE \<Rightarrow> nat" where
  "uart_service_message_value MBLUE_UART_SERVICE_SIGNAL_BASE = 0x600"
| "uart_service_message_value MBLUE_MODEM_DATA_FRAGMENT = 0x601"
| "uart_service_message_value MBLUE_MODEM_DATA_COMPLETE = 0x602"
| "uart_service_message_value MBLUE_UART_SERVICE_RPC_BASE = 0x700"
| "uart_service_message_value MBLUE_UART_WRITE = 0x701"

datatype AT_SERVICE_MESSAGE =
    MBLUE_AT_SERVICE_SIGNAL_BASE
  | MBLUE_AT_URC
  | MBLUE_AT_SERVICE_RPC_BASE
  | MBLUE_AT_EXECUTE

primrec at_service_message_value :: "AT_SERVICE_MESSAGE \<Rightarrow> nat" where
  "at_service_message_value MBLUE_AT_SERVICE_SIGNAL_BASE = 0x800"
| "at_service_message_value MBLUE_AT_URC = 0x801"
| "at_service_message_value MBLUE_AT_SERVICE_RPC_BASE = 0x900"
| "at_service_message_value MBLUE_AT_EXECUTE = 0x901"

datatype MODEM_SERVICE_MESSAGE =
    MBLUE_MODEM_SERVICE_SIGNAL_BASE
  | MBLUE_MODEM_SERVICE_RPC_BASE
  | MBLUE_MODEM_POWERON
  | MBLUE_MODEM_INFO
  | MBLUE_MODEM_RSSI
  | MBLUE_MODEM_IMEI
  | MBLUE_MODEM_ICCID
  | MBLUE_MODEM_TIME
  | MBLUE_MODEM_ATTACH
  | MBLUE_MODEM_DETTACH
  | MBLUE_MODEM_PPP_OPEN
  | MBLUE_MODEM_TCP_CONNECT
  | MBLUE_MODEM_TCP_SEND
  | MBLUE_MODEM_TCP_RECV
  | MBLUE_MODEM_TCP_CLOSE
  | MBLUE_MODEM_POWEROFF

primrec modem_service_message_value :: "MODEM_SERVICE_MESSAGE \<Rightarrow> nat" where
  "modem_service_message_value MBLUE_MODEM_SERVICE_SIGNAL_BASE = 0xA00"
| "modem_service_message_value MBLUE_MODEM_SERVICE_RPC_BASE = 0xB00"
| "modem_service_message_value MBLUE_MODEM_POWERON = 0xB01"
| "modem_service_message_value MBLUE_MODEM_INFO = 0xB02"
| "modem_service_message_value MBLUE_MODEM_RSSI = 0xB03"
| "modem_service_message_value MBLUE_MODEM_IMEI = 0xB04"
| "modem_service_message_value MBLUE_MODEM_ICCID = 0xB05"
| "modem_service_message_value MBLUE_MODEM_TIME = 0xB06"
| "modem_service_message_value MBLUE_MODEM_ATTACH = 0xB07"
| "modem_service_message_value MBLUE_MODEM_DETTACH = 0xB08"
| "modem_service_message_value MBLUE_MODEM_PPP_OPEN = 0xB09"
| "modem_service_message_value MBLUE_MODEM_TCP_CONNECT = 0xB0A"
| "modem_service_message_value MBLUE_MODEM_TCP_SEND = 0xB0B"
| "modem_service_message_value MBLUE_MODEM_TCP_RECV = 0xB0C"
| "modem_service_message_value MBLUE_MODEM_TCP_CLOSE = 0xB0D"
| "modem_service_message_value MBLUE_MODEM_POWEROFF = 0xB0E"

datatype I2C_SERVICE_MESSAGE =
    MBLUE_I2C_SERVICE_SIGNAL_BASE
  | MBLUE_I2C_SERVICE_RPC_BASE
  | MBLUE_I2C_READ
  | MBLUE_I2C_WRITE

primrec i2c_service_message_value :: "I2C_SERVICE_MESSAGE \<Rightarrow> nat" where
  "i2c_service_message_value MBLUE_I2C_SERVICE_SIGNAL_BASE = 0xC00"
| "i2c_service_message_value MBLUE_I2C_SERVICE_RPC_BASE = 0xD00"
| "i2c_service_message_value MBLUE_I2C_READ = 0xD01"
| "i2c_service_message_value MBLUE_I2C_WRITE = 0xD02"

datatype GPS_SERVICE_MESSAGE =
    MBLUE_GPS_SERVICE_SIGNAL_BASE
  | MBLUE_GPS_NOTIFY
  | MBLUE_GPS_SERVICE_RPC_BASE
  | MBLUE_GPS_SERVICE_START
  | MBLUE_GPS_SERVICE_STOP
  | MBLUE_GPS_GET

primrec gps_service_message_value :: "GPS_SERVICE_MESSAGE \<Rightarrow> nat" where
  "gps_service_message_value MBLUE_GPS_SERVICE_SIGNAL_BASE = 0xE00"
| "gps_service_message_value MBLUE_GPS_NOTIFY = 0xE01"
| "gps_service_message_value MBLUE_GPS_SERVICE_RPC_BASE = 0xF00"
| "gps_service_message_value MBLUE_GPS_SERVICE_START = 0xF01"
| "gps_service_message_value MBLUE_GPS_SERVICE_STOP = 0xF02"
| "gps_service_message_value MBLUE_GPS_GET = 0xF03"

datatype IOT_SERVICE_MESSAGE =
    MBLUE_IOT_SERVICE_SIGNAL_BASE
  | MBLUE_IOT_STATE_MIGRATION
  | MBLUE_IOT_STATE_STOP
  | MBLUE_IOT_NETWORK_CONNECTED
  | MBLUE_IOT_NETWORK_DISCONNECTED
  | MBLUE_IOT_DATA_ARRIVED
  | MBLUE_IOT_YIELD
  | MBLUE_IOT_SERVICE_RPC_BASE
  | MBLUE_IOT_SERVICE_SEND
  | MBLUE_IOT_SERVICE_START
  | MBLUE_IOT_SERVICE_STOP

primrec iot_service_message_value :: "IOT_SERVICE_MESSAGE \<Rightarrow> nat" where
  "iot_service_message_value MBLUE_IOT_SERVICE_SIGNAL_BASE = 0x1000"
| "iot_service_message_value MBLUE_IOT_STATE_MIGRATION = 0x1001"
| "iot_service_message_value MBLUE_IOT_STATE_STOP = 0x1002"
| "iot_service_message_value MBLUE_IOT_NETWORK_CONNECTED = 0x1003"
| "iot_service_message_value MBLUE_IOT_NETWORK_DISCONNECTED = 0x1004"
| "iot_service_message_value MBLUE_IOT_DATA_ARRIVED = 0x1005"
| "iot_service_message_value MBLUE_IOT_YIELD = 0x1006"
| "iot_service_message_value MBLUE_IOT_SERVICE_RPC_BASE = 0x1100"
| "iot_service_message_value MBLUE_IOT_SERVICE_SEND = 0x1101"
| "iot_service_message_value MBLUE_IOT_SERVICE_START = 0x1102"
| "iot_service_message_value MBLUE_IOT_SERVICE_STOP = 0x1103"

datatype LOCATOR_SCENARIO_MESSAGE =
    MBLUE_LOCATOR_SCENARIO_SIGNAL_BASE
  | MBLUE_LOCATOR_SCENARIO_LOOP
  | MBLUE_LOCATOR_TOUCH_LOOP
  | MBLUE_LOCATOR_SCENARIO_RPC_BASE

primrec locator_scenario_message_value :: "LOCATOR_SCENARIO_MESSAGE \<Rightarrow> nat" where
  "locator_scenario_message_value MBLUE_LOCATOR_SCENARIO_SIGNAL_BASE = 0x1200"
| "locator_scenario_message_value MBLUE_LOCATOR_SCENARIO_LOOP = 0x1201"
| "locator_scenario_message_value MBLUE_LOCATOR_TOUCH_LOOP = 0x1202"
| "locator_scenario_message_value MBLUE_LOCATOR_SCENARIO_RPC_BASE = 0x1300"

datatype LOG_SERVICE_MESSAGE =
    MBLUE_LOG_SERVICE_SIGNAL_BASE
  | MBLUE_LOG_SERVICE_RPC_BASE
  | MBLUE_LOG_SERVICE_LOG
  | MBLUE_LOG_SERVICE_SET_TYPE
  | MBLUE_LOG_SERVICE_SET_LEVEL
  | MBLUE_LOG_SERVICE_HEX

primrec log_service_message_value :: "LOG_SERVICE_MESSAGE \<Rightarrow> nat" where
  "log_service_message_value MBLUE_LOG_SERVICE_SIGNAL_BASE = 0x1400"
| "log_service_message_value MBLUE_LOG_SERVICE_RPC_BASE = 0x1500"
| "log_service_message_value MBLUE_LOG_SERVICE_LOG = 0x1501"
| "log_service_message_value MBLUE_LOG_SERVICE_SET_TYPE = 0x1502"
| "log_service_message_value MBLUE_LOG_SERVICE_SET_LEVEL = 0x1503"
| "log_service_message_value MBLUE_LOG_SERVICE_HEX = 0x1504"

datatype LED_SERVICE_MESSAGE =
    MBLUE_LED_SERVICE_SIGNAL_BASE
  | MBLUE_LED_SERVICE_RPC_BASE
  | MBLUE_LED_SERVICE_ACTION

primrec led_service_message_value :: "LED_SERVICE_MESSAGE \<Rightarrow> nat" where
  "led_service_message_value MBLUE_LED_SERVICE_SIGNAL_BASE = 0x1600"
| "led_service_message_value MBLUE_LED_SERVICE_RPC_BASE = 0x1700"
| "led_service_message_value MBLUE_LED_SERVICE_ACTION = 0x1701"

datatype MESSAGE_MINOR =
    Timer_Minor TIMER_MESSAGE
  | Async_Minor ASYNC_MESSAGE
  | GpioModule_Minor GPIO_MODULE_MESSAGE
  | UartModule_Minor UART_MODULE_MESSAGE
  | UartService_Minor UART_SERVICE_MESSAGE
  | AtService_Minor AT_SERVICE_MESSAGE
  | ModemService_Minor MODEM_SERVICE_MESSAGE
  | I2cService_Minor I2C_SERVICE_MESSAGE
  | GpsService_Minor GPS_SERVICE_MESSAGE
  | IotService_Minor IOT_SERVICE_MESSAGE
  | LocatorScenario_Minor LOCATOR_SCENARIO_MESSAGE
  | LogService_Minor LOG_SERVICE_MESSAGE
  | LedService_Minor LED_SERVICE_MESSAGE

primrec minor_value :: "MESSAGE_MINOR \<Rightarrow> nat" where
  "minor_value (Timer_Minor m) = timer_message_value m"
| "minor_value (Async_Minor m) = async_message_value m"
| "minor_value (GpioModule_Minor m) = gpio_module_message_value m"
| "minor_value (UartModule_Minor m) = uart_module_message_value m"
| "minor_value (UartService_Minor m) = uart_service_message_value m"
| "minor_value (AtService_Minor m) = at_service_message_value m"
| "minor_value (ModemService_Minor m) = modem_service_message_value m"
| "minor_value (I2cService_Minor m) = i2c_service_message_value m"
| "minor_value (GpsService_Minor m) = gps_service_message_value m"
| "minor_value (IotService_Minor m) = iot_service_message_value m"
| "minor_value (LocatorScenario_Minor m) = locator_scenario_message_value m"
| "minor_value (LogService_Minor m) = log_service_message_value m"
| "minor_value (LedService_Minor m) = led_service_message_value m"

lemma timer_message_value_range: "timer_message_value m < 0x200"
  by (cases m; simp)+

lemma timer_message_value_inj: "timer_message_value a = timer_message_value b \<Longrightarrow> a = b"
  by (cases a; cases b; simp)

lemma async_message_value_range: "0x200 \<le> async_message_value m" "async_message_value m < 0x400"
  by (cases m; simp)+

lemma async_message_value_inj: "async_message_value a = async_message_value b \<Longrightarrow> a = b"
  by (cases a; cases b; simp)

lemma gpio_module_message_value_range: "0x400 \<le> gpio_module_message_value m" "gpio_module_message_value m < 0x500"
  by (cases m; simp)+

lemma gpio_module_message_value_inj: "gpio_module_message_value a = gpio_module_message_value b \<Longrightarrow> a = b"
  by (cases a; cases b; simp)

lemma uart_module_message_value_range: "0x500 \<le> uart_module_message_value m" "uart_module_message_value m < 0x600"
  by (cases m; simp)+

lemma uart_module_message_value_inj: "uart_module_message_value a = uart_module_message_value b \<Longrightarrow> a = b"
  by (cases a; cases b; simp)

lemma uart_service_message_value_range: "0x600 \<le> uart_service_message_value m" "uart_service_message_value m < 0x800"
  by (cases m; simp)+

lemma uart_service_message_value_inj: "uart_service_message_value a = uart_service_message_value b \<Longrightarrow> a = b"
  by (cases a; cases b; simp)

lemma at_service_message_value_range: "0x800 \<le> at_service_message_value m" "at_service_message_value m < 0xA00"
  by (cases m; simp)+

lemma at_service_message_value_inj: "at_service_message_value a = at_service_message_value b \<Longrightarrow> a = b"
  by (cases a; cases b; simp)

lemma modem_service_message_value_range: "0xA00 \<le> modem_service_message_value m" "modem_service_message_value m < 0xC00"
  by (cases m; simp)+

lemma modem_service_message_value_inj: "modem_service_message_value a = modem_service_message_value b \<Longrightarrow> a = b"
  by (cases a; cases b; simp)

lemma i2c_service_message_value_range: "0xC00 \<le> i2c_service_message_value m" "i2c_service_message_value m < 0xE00"
  by (cases m; simp)+

lemma i2c_service_message_value_inj: "i2c_service_message_value a = i2c_service_message_value b \<Longrightarrow> a = b"
  by (cases a; cases b; simp)

lemma gps_service_message_value_range: "0xE00 \<le> gps_service_message_value m" "gps_service_message_value m < 0x1000"
  by (cases m; simp)+

lemma gps_service_message_value_inj: "gps_service_message_value a = gps_service_message_value b \<Longrightarrow> a = b"
  by (cases a; cases b; simp)

lemma iot_service_message_value_range: "0x1000 \<le> iot_service_message_value m" "iot_service_message_value m < 0x1200"
  by (cases m; simp)+

lemma iot_service_message_value_inj: "iot_service_message_value a = iot_service_message_value b \<Longrightarrow> a = b"
  by (cases a; cases b; simp)

lemma locator_scenario_message_value_range: "0x1200 \<le> locator_scenario_message_value m" "locator_scenario_message_value m < 0x1400"
  by (cases m; simp)+

lemma locator_scenario_message_value_inj: "locator_scenario_message_value a = locator_scenario_message_value b \<Longrightarrow> a = b"
  by (cases a; cases b; simp)

lemma log_service_message_value_range: "0x1400 \<le> log_service_message_value m" "log_service_message_value m < 0x1600"
  by (cases m; simp)+

lemma log_service_message_value_inj: "log_service_message_value a = log_service_message_value b \<Longrightarrow> a = b"
  by (cases a; cases b; simp)

lemma led_service_message_value_range: "0x1600 \<le> led_service_message_value m" "led_service_message_value m < 0x1800"
  by (cases m; simp)+

lemma led_service_message_value_inj: "led_service_message_value a = led_service_message_value b \<Longrightarrow> a = b"
  by (cases a; cases b; simp)

lemmas minor_ranges = timer_message_value_range async_message_value_range gpio_module_message_value_range uart_module_message_value_range uart_service_message_value_range at_service_message_value_range modem_service_message_value_range i2c_service_message_value_range gps_service_message_value_range iot_service_message_value_range locator_scenario_message_value_range log_service_message_value_range led_service_message_value_range

lemmas minor_injs = timer_message_value_inj async_message_value_inj gpio_module_message_value_inj uart_module_message_value_inj uart_service_message_value_inj at_service_message_value_inj modem_service_message_value_inj i2c_service_message_value_inj gps_service_message_value_inj iot_service_message_value_inj locator_scenario_message_value_inj log_service_message_value_inj led_service_message_value_inj

text \<open>The enumeration a value belongs to is read off its range.\<close>

definition rank_of :: "nat \<Rightarrow> nat" where
  "rank_of v =
     (if v < 0x200 then 0 else
      if v < 0x400 then 1 else
      if v < 0x500 then 2 else
      if v < 0x600 then 3 else
      if v < 0x800 then 4 else
      if v < 0xA00 then 5 else
      if v < 0xC00 then 6 else
      if v < 0xE00 then 7 else
      if v < 0x1000 then 8 else
      if v < 0x1200 then 9 else
      if v < 0x1400 then 10 else
      if v < 0x1600 then 11 else
      if v < 0x1800 then 12 else
      13)"

primrec minor_rank :: "MESSAGE_MINOR \<Rightarrow> nat" where
  "minor_rank (Timer_Minor m) = 0"
| "minor_rank (Async_Minor m) = 1"
| "minor_rank (GpioModule_Minor m) = 2"
| "minor_rank (UartModule_Minor m) = 3"
| "minor_rank (UartService_Minor m) = 4"
| "minor_rank (AtService_Minor m) = 5"
| "minor_rank (ModemService_Minor m) = 6"
| "minor_rank (I2cService_Minor m) = 7"
| "minor_rank (GpsService_Minor m) = 8"
| "minor_rank (IotService_Minor m) = 9"
| "minor_rank (LocatorScenario_Minor m) = 10"
| "minor_rank (LogService_Minor m) = 11"
| "minor_rank (LedService_Minor m) = 12"

lemma rank_of_value: "rank_of (minor_value m) = minor_rank m"
proof (cases m)
  case (Timer_Minor x) then show ?thesis using timer_message_value_range [of x] by (simp add: rank_of_def)
next
  case (Async_Minor x) then show ?thesis using async_message_value_range [of x] by (simp add: rank_of_def)
next
  case (GpioModule_Minor x) then show ?thesis using gpio_module_message_value_range [of x] by (simp add: rank_of_def)
next
  case (UartModule_Minor x) then show ?thesis using uart_module_message_value_range [of x] by (simp add: rank_of_def)
next
  case (UartService_Minor x) then show ?thesis using uart_service_message_value_range [of x] by (simp add: rank_of_def)
next
  case (AtService_Minor x) then show ?thesis using at_service_message_value_range [of x] by (simp add: rank_of_def)
next
  case (ModemService_Minor x) then show ?thesis using modem_service_message_value_range [of x] by (simp add: rank_of_def)
next
  case (I2cService_Minor x) then show ?thesis using i2c_service_message_value_range [of x] by (simp add: rank_of_def)
next
  case (GpsService_Minor x) then show ?thesis using gps_service_message_value_range [of x] by (simp add: rank_of_def)
next
  case (IotService_Minor x) then show ?thesis using iot_service_message_value_range [of x] by (simp add: rank_of_def)
next
  case (LocatorScenario_Minor x) then show ?thesis using locator_scenario_message_value_range [of x] by (simp add: rank_of_def)
next
  case (LogService_Minor x) then show ?thesis using log_service_message_value_range [of x] by (simp add: rank_of_def)
next
  case (LedService_Minor x) then show ?thesis using led_service_message_value_range [of x] by (simp add: rank_of_def)
qed

lemma minor_value_inj: "minor_value a = minor_value b \<Longrightarrow> a = b"
proof -
  assume eq: "minor_value a = minor_value b"
  then have "minor_rank a = minor_rank b" by (simp flip: rank_of_value)
  with eq show "a = b" by (cases a; cases b; simp add: minor_injs)
qed

lemma minor_value_bound: "minor_value m < 2 ^ 16"
proof -
  have "rank_of (minor_value m) < 13" unfolding rank_of_value by (cases m) simp_all
  then have "minor_value m < 0x1800" by (auto simp: rank_of_def split: if_splits)
  then show ?thesis by simp
qed

section \<open>The message code\<close>

definition TYPE_OFFSET :: nat where
  "TYPE_OFFSET = 28"

definition MAJOR_OFFSET :: nat where
  "MAJOR_OFFSET = 16"

definition GET_TYPE :: "u32 \<Rightarrow> u32" where
  "GET_TYPE code = drop_bit 28 code"

definition GET_MAJOR :: "u32 \<Rightarrow> u32" where
  "GET_MAJOR code = drop_bit 16 code AND 0xFFF"

definition GET_MINOR :: "u32 \<Rightarrow> u32" where
  "GET_MINOR code = code AND 0xFFFF"

text \<open>The bus composes a code as \<^verbatim>\<open>type << TYPE_OFFSET | major << MAJOR_OFFSET | minor\<close>.\<close>

definition message_code :: "u32 \<Rightarrow> u32 \<Rightarrow> u32 \<Rightarrow> u32" where
  "message_code type major minor =
     push_bit TYPE_OFFSET type OR push_bit MAJOR_OFFSET major OR minor"

lemma code_fields:
  assumes "unat t < 2 ^ 4" and "unat a < 2 ^ 12" and "unat i < 2 ^ 16"
  shows "GET_TYPE (message_code t a i) = t" "GET_MAJOR (message_code t a i) = a"
    "GET_MINOR (message_code t a i) = i"
proof -
  have t: "\<not> bit t n" if "4 \<le> n" for n using assms(1) that by (rule unat_lt_bit)
  have a: "\<not> bit a n" if "12 \<le> n" for n using assms(2) that by (rule unat_lt_bit)
  have i: "\<not> bit i n" if "16 \<le> n" for n using assms(3) that by (rule unat_lt_bit)
  have m: "(0xFFF :: u32) = mask 12" "(0xFFFF :: u32) = mask 16"
    by (simp_all add: mask_eq_exp_minus_1)
  note defs = message_code_def TYPE_OFFSET_def MAJOR_OFFSET_def m
  show "GET_TYPE (message_code t a i) = t"
    unfolding GET_TYPE_def defs using t a i
    by (intro bit_word_eqI) (auto simp: bit_simps simp flip: not_le)
  show "GET_MAJOR (message_code t a i) = a"
    unfolding GET_MAJOR_def defs using t a i
    by (intro bit_word_eqI) (auto simp: bit_simps simp flip: not_le)
  show "GET_MINOR (message_code t a i) = i"
    unfolding GET_MINOR_def defs using t a i
    by (intro bit_word_eqI) (auto simp: bit_simps simp flip: not_le)
qed

section \<open>Messages and the message pool\<close>

text \<open>The fields of \<^verbatim>\<open>struct mblue_message\<close> (the debug magic is compiled out); the pointers of its
  union share one cell. Its list node is the pair of cells at offset 24.\<close>

record mblue_message =
  m_seq :: u16
  m_ref :: u16
  m_code :: u32
  m_src :: nat
  m_dst :: nat
  smart_payload :: SMART_DATA
  m_extra :: nat

definition zero_message :: mblue_message where
  "zero_message = \<lparr>m_seq = 0, m_ref = 0, m_code = 0, m_src = 0, m_dst = 0, smart_payload = 0, m_extra = 0\<rparr>"

text \<open>The static \<^verbatim>\<open>_mblue_message_list\<close> lies at some address; its free-list head follows the count,
  and the 32 messages of 32 bytes each follow the head.\<close>

definition MBLUE_MAX_MESSAGE_NUM :: nat where
  "MBLUE_MAX_MESSAGE_NUM = 32"

definition message_list_addr :: nat where
  "message_list_addr = 0x1000"

definition msg_list_head :: addr where
  "msg_list_head = message_list_addr + 4"

definition msg_addr :: "nat \<Rightarrow> addr" where
  "msg_addr i = message_list_addr + 12 + 32 * i"

definition msg_node :: "addr \<Rightarrow> addr" where
  "msg_node msg = msg + 24"

definition node_msg :: "addr \<Rightarrow> addr" where
  "node_msg node = node - 24"

record message_system =
  ms_sequence :: u16
  ms_mlist :: addr
  ms_count :: int
  ms_links :: list_heap
  ms_pool :: "addr \<Rightarrow> mblue_message"

definition mblue_message_get_sequence :: "message_system \<Rightarrow> u32 \<times> message_system" where
  "mblue_message_get_sequence s =
     (let s = s\<lparr>ms_sequence := ms_sequence s + 1\<rparr>;
          s = (if ms_sequence s AND 0x8000 \<noteq> 0 then s\<lparr>ms_sequence := 0\<rparr> else s)
      in (ucast (ms_sequence s), s))"

definition set_ref :: "addr \<Rightarrow> u16 \<Rightarrow> message_system \<Rightarrow> message_system" where
  "set_ref msg r s = s\<lparr>ms_pool := (ms_pool s)(msg := (ms_pool s msg)\<lparr>m_ref := r\<rparr>)\<rparr>"

definition get_mblue_message :: "addr \<Rightarrow> message_system \<Rightarrow> u16 \<times> message_system" where
  "get_mblue_message msg s =
     (let s = set_ref msg (m_ref (ms_pool s msg) + 1) s in (m_ref (ms_pool s msg), s))"

definition put_mblue_message :: "addr \<Rightarrow> message_system \<Rightarrow> u16 \<times> message_system" where
  "put_mblue_message msg s =
     (let s = (if m_ref (ms_pool s msg) \<noteq> 0 then set_ref msg (m_ref (ms_pool s msg) - 1) s else s)
      in (m_ref (ms_pool s msg), s))"

definition mblue_message_init :: "message_system \<Rightarrow> message_system" where
  "mblue_message_init s =
     (let s = s\<lparr>ms_count := int MBLUE_MAX_MESSAGE_NUM\<rparr>;
          s = s\<lparr>ms_links := INIT_LIST_HEAD msg_list_head (ms_links s)\<rparr>
      in s\<lparr>ms_links := fold (\<lambda>i. list_add_tail (msg_node (msg_addr i)) msg_list_head)
                         [0..<MBLUE_MAX_MESSAGE_NUM] (ms_links s)\<rparr>)"

definition mblue_message_get :: "message_system \<Rightarrow> addr \<times> message_system" where
  "mblue_message_get s =
     (if ms_count s \<noteq> 0
      then let node = lnext (ms_links s) msg_list_head;
               s = s\<lparr>ms_count := ms_count s - 1\<rparr>;
               s = s\<lparr>ms_links := list_del node (ms_links s)\<rparr>
           in (node_msg node, s)
      else (0, s))"

definition mblue_message_put :: "addr \<Rightarrow> message_system \<Rightarrow> message_system" where
  "mblue_message_put msg s =
     s\<lparr>ms_links := list_add_tail (msg_node msg) msg_list_head (ms_links s), ms_count := ms_count s + 1\<rparr>"

definition mblue_message_uninit :: "message_system \<Rightarrow> message_system" where
  "mblue_message_uninit s =
     s\<lparr>ms_count := 0, ms_links := INIT_LIST_HEAD msg_list_head (ms_links s)\<rparr>"

definition get_mblue_message_list_instance :: "message_system \<Rightarrow> message_system" where
  "get_mblue_message_list_instance s =
     (if ms_mlist s = 0 then mblue_message_init (s\<lparr>ms_mlist := message_list_addr\<rparr>) else s)"

text \<open>\<^verbatim>\<open>memset\<close> of a whole message clears its list node as well.\<close>

definition clear_message :: "addr \<Rightarrow> message_system \<Rightarrow> message_system" where
  "clear_message msg s =
     s\<lparr>ms_pool := (ms_pool s)(msg := zero_message),
       ms_links := set_prev (msg_node msg) 0 (set_next (msg_node msg) 0 (ms_links s))\<rparr>"

definition mblue_message_alloc :: "message_system \<Rightarrow> addr \<times> message_system" where
  "mblue_message_alloc s =
     (let s = get_mblue_message_list_instance s;
          (msg, s) = mblue_message_get s
      in if msg = 0 then (0, s) else (msg, clear_message msg s))"

definition mblue_message_release :: "addr \<Rightarrow> message_system \<Rightarrow> message_system" where
  "mblue_message_release msg s =
     (let s = get_mblue_message_list_instance s;
          (r, s) = put_mblue_message msg s
      in if r = 0 then mblue_message_put msg s else s)"

section \<open>Sequence numbers\<close>

definition seq_ok :: "message_system \<Rightarrow> bool" where
  "seq_ok s \<longleftrightarrow> unat (ms_sequence s) < 2 ^ 15"

lemma next_sequence:
  assumes "seq_ok s"
  shows "unat (ms_sequence (snd (mblue_message_get_sequence s))) = (unat (ms_sequence s) + 1) mod 2 ^ 15"
    "unat (fst (mblue_message_get_sequence s)) = (unat (ms_sequence s) + 1) mod 2 ^ 15"
proof -
  let ?n = "ms_sequence s + 1"
  have n: "unat ?n = unat (ms_sequence s) + 1"
    using assms by (simp add: seq_ok_def unat_word_ariths)
  have m: "(0x8000 :: u16) = 2 ^ 15" by simp
  have "?n AND 0x8000 \<noteq> 0 \<longleftrightarrow> unat ?n = 2 ^ 15"
  proof (cases "unat ?n = 2 ^ 15")
    case True
    have "?n = of_nat (unat ?n)" by simp
    also have "\<dots> = 0x8000" unfolding True by simp
    finally show ?thesis using True by simp
  next
    case False
    with n assms have "unat ?n < 2 ^ 15" by (simp add: seq_ok_def)
    then have "\<not> bit ?n 15" by (rule unat_lt_bit) simp
    then have "?n AND 2 ^ 15 = 0" by (simp only: and_exp_eq_0_iff_not_bit simp_thms)
    then show ?thesis using False unfolding m by blast
  qed
  then show 1: "unat (ms_sequence (snd (mblue_message_get_sequence s))) = (unat (ms_sequence s) + 1) mod 2 ^ 15"
    using n assms by (auto simp: mblue_message_get_sequence_def Let_def seq_ok_def)
  then show "unat (fst (mblue_message_get_sequence s)) = (unat (ms_sequence s) + 1) mod 2 ^ 15"
    by (simp add: mblue_message_get_sequence_def Let_def unsigned_ucast_eq take_bit_nat_eq_self)
qed

text \<open>The sequence numbers of any run of calls count modulo \<open>2 ^ 15\<close>: the first \<open>2 ^ 15\<close> are
  pairwise different.\<close>

primrec sequence_run :: "nat \<Rightarrow> message_system \<Rightarrow> u32 list" where
  "sequence_run 0 s = []"
| "sequence_run (Suc n) s = (let (q, s) = mblue_message_get_sequence s in q # sequence_run n s)"

lemma sequence_run_values:
  "seq_ok s \<Longrightarrow> map unat (sequence_run n s) = map (\<lambda>i. (unat (ms_sequence s) + Suc i) mod 2 ^ 15) [0..<n]"
proof (induction n arbitrary: s)
  case (Suc n)
  obtain q s' where g: "mblue_message_get_sequence s = (q, s')" by fastforce
  have s': "unat (ms_sequence s') = (unat (ms_sequence s) + 1) mod 2 ^ 15" "seq_ok s'"
    "unat q = (unat (ms_sequence s) + 1) mod 2 ^ 15"
    using next_sequence [OF Suc.prems] g by (simp_all add: seq_ok_def)
  have "map (\<lambda>i. (unat (ms_sequence s') + Suc i) mod 2 ^ 15) [0..<n] =
        map (\<lambda>i. (unat (ms_sequence s) + Suc i) mod 2 ^ 15) (map Suc [0..<n])"
    using mod_add_left_eq [of "unat (ms_sequence s) + 1" "2 ^ 15" "Suc i" for i] by (simp add: s'(1))
  with Suc.IH [OF s'(2)] s'(3) show ?case
    by (simp add: g upt_conv_Cons map_Suc_upt del: upt_Suc)
qed simp

section \<open>The pool\<close>

definition msg_objs :: "addr set" where
  "msg_objs = msg_addr ` {..<MBLUE_MAX_MESSAGE_NUM}"

definition pool_nodes :: "addr list" where
  "pool_nodes = map (\<lambda>i. msg_node (msg_addr i)) [0..<MBLUE_MAX_MESSAGE_NUM]"

text \<open>The free messages, in the order they will be handed out. Before the first use of the pool
  its list does not exist yet: the first call builds it.\<close>

definition pool_holds :: "message_system \<Rightarrow> addr list \<Rightarrow> bool" where
  "pool_holds s free \<longleftrightarrow>
     (if ms_mlist s = 0 then free = map msg_addr [0..<MBLUE_MAX_MESSAGE_NUM]
      else dlist (ms_links s) msg_list_head (map msg_node free) \<and> ms_count s = int (length free) \<and>
           set free \<subseteq> msg_objs \<and> distinct free)"

lemmas addr_defs = msg_objs_def msg_addr_def msg_node_def node_msg_def msg_list_head_def
  message_list_addr_def MBLUE_MAX_MESSAGE_NUM_def

lemma node_msg_node [simp]: "node_msg (msg_node m) = m"
  by (simp add: node_msg_def msg_node_def)

lemma msg_objs_facts: "m \<in> msg_objs \<Longrightarrow> m \<noteq> 0 \<and> msg_node m \<noteq> 0 \<and> msg_node m \<noteq> msg_list_head"
  by (auto simp: addr_defs)

lemma msg_node_inj: "msg_node a = msg_node b \<longleftrightarrow> a = b"
  by (simp add: msg_node_def)

lemma pool_nodes_facts: "distinct (msg_list_head # pool_nodes)" "0 \<notin> set pool_nodes" "msg_list_head \<noteq> 0"
  by (auto simp: pool_nodes_def distinct_map inj_on_def addr_defs)

lemma instance_holds:
  assumes "pool_holds s free"
  defines "s' \<equiv> get_mblue_message_list_instance s"
  shows "pool_holds s' free" "ms_mlist s' \<noteq> 0" "ms_pool s' = ms_pool s"
proof -
  have f: "fold (\<lambda>i. list_add_tail (msg_node (msg_addr i)) msg_list_head) xs h =
    fold (\<lambda>n. list_add_tail n msg_list_head) (map (\<lambda>i. msg_node (msg_addr i)) xs) h" for xs h
    by (simp add: fold_map o_def)
  have "dlist (fold (\<lambda>n. list_add_tail n msg_list_head) pool_nodes (INIT_LIST_HEAD msg_list_head h))
      msg_list_head pool_nodes" for h
    using ml.holds_build pool_nodes_facts by blast
  note d = this [unfolded pool_nodes_def, folded f]
  have objs: "set (map msg_addr [0..<MBLUE_MAX_MESSAGE_NUM]) \<subseteq> msg_objs"
    "distinct (map msg_addr [0..<MBLUE_MAX_MESSAGE_NUM])"
    by (auto simp: msg_objs_def distinct_map inj_on_def msg_addr_def)
  show "pool_holds s' free"
  proof (cases "ms_mlist s = 0")
    case True
    with assms(1) have "free = map msg_addr [0..<MBLUE_MAX_MESSAGE_NUM]" by (simp add: pool_holds_def)
    with True d objs show ?thesis
      by (simp add: s'_def get_mblue_message_list_instance_def mblue_message_init_def
          pool_holds_def message_list_addr_def o_def)
  next
    case False
    with assms(1) show ?thesis by (simp add: s'_def get_mblue_message_list_instance_def)
  qed
  show "ms_mlist s' \<noteq> 0" "ms_pool s' = ms_pool s"
    by (auto simp: s'_def get_mblue_message_list_instance_def mblue_message_init_def
        message_list_addr_def)
qed

lemma alloc_first:
  assumes "pool_holds s (m # free)"
  shows "\<exists>s'. mblue_message_alloc s = (m, s') \<and> pool_holds s' free \<and>
           ms_pool s' = (ms_pool s)(m := zero_message)"
proof -
  define t where "t = get_mblue_message_list_instance s"
  have t: "pool_holds t (m # free)" "ms_mlist t \<noteq> 0" "ms_pool t = ms_pool s"
    using instance_holds [OF assms] by (simp_all add: t_def)
  then have d: "dlist (ms_links t) msg_list_head (msg_node m # map msg_node free)"
    and c: "ms_count t = 1 + int (length free)" and m: "m \<in> msg_objs" "m \<notin> set free"
    "distinct free" "set free \<subseteq> msg_objs"
    by (auto simp: pool_holds_def)
  have first: "lnext (ms_links t) msg_list_head = msg_node m" using d by (simp add: dlist_next)
  have d': "dlist (list_del (msg_node m) (ms_links t)) msg_list_head (map msg_node free)"
    using ml.holds_take_first [OF d] first by simp
  have n: "msg_node m \<notin> set (msg_list_head # map msg_node free)"
    using m msg_objs_facts [OF m(1)] by (auto simp: msg_node_inj)
  have d'': "dlist (set_prev (msg_node m) 0 (set_next (msg_node m) 0 (list_del (msg_node m) (ms_links t))))
      msg_list_head (map msg_node free)"
    using d' n by (intro dlist_set_prev dlist_set_next) auto
  have z: "m \<noteq> 0" using msg_objs_facts [OF m(1)] by simp
  have "mblue_message_alloc s = (m, clear_message m (t\<lparr>ms_count := int (length free),
      ms_links := list_del (msg_node m) (ms_links t)\<rparr>))"
    using z by (simp add: mblue_message_alloc_def t_def [symmetric] mblue_message_get_def first c)
  moreover have "pool_holds (clear_message m (t\<lparr>ms_count := int (length free),
      ms_links := list_del (msg_node m) (ms_links t)\<rparr>)) free"
    using d'' t(2) m by (simp add: pool_holds_def clear_message_def)
  ultimately show ?thesis using t(3) by (simp add: clear_message_def)
qed

lemma alloc_null:
  assumes "pool_holds s []"
  shows "\<exists>s'. mblue_message_alloc s = (0, s') \<and> pool_holds s' [] \<and> ms_pool s' = ms_pool s"
proof -
  define t where "t = get_mblue_message_list_instance s"
  have t: "pool_holds t []" "ms_mlist t \<noteq> 0" "ms_pool t = ms_pool s"
    using instance_holds [OF assms] by (simp_all add: t_def)
  then have "mblue_message_alloc s = (0, t)"
    by (simp add: mblue_message_alloc_def t_def [symmetric] mblue_message_get_def pool_holds_def)
  with t show ?thesis by simp
qed

text \<open>A release drops one reference; the message returns to the pool with the last one.\<close>

lemma release_shared:
  assumes "pool_holds s free" and "1 < unat (m_ref (ms_pool s m))"
  defines "s' \<equiv> mblue_message_release m s"
  shows "pool_holds s' free" "unat (m_ref (ms_pool s' m)) = unat (m_ref (ms_pool s m)) - 1"
    "\<And>m'. m' \<noteq> m \<Longrightarrow> ms_pool s' m' = ms_pool s m'"
proof -
  define t where "t = get_mblue_message_list_instance s"
  have t: "pool_holds t free" "ms_mlist t \<noteq> 0" "ms_pool t = ms_pool s"
    using instance_holds [OF assms(1)] by (simp_all add: t_def)
  let ?r = "m_ref (ms_pool s m)"
  have r: "?r \<noteq> 0" "?r - 1 \<noteq> 0" "unat (?r - 1) = unat ?r - 1"
    using assms(2) unat_sub [of 1 ?r] by (auto simp: word_le_nat_alt simp flip: unat_eq_0)
  then have s': "s' = set_ref m (?r - 1) t"
    unfolding s'_def mblue_message_release_def Let_def t_def [symmetric]
    by (simp add: put_mblue_message_def Let_def t(3) set_ref_def)
  show "pool_holds s' free" using t(1,2) by (simp add: s' pool_holds_def set_ref_def)
  show "unat (m_ref (ms_pool s' m)) = unat ?r - 1" using r(3) by (simp add: s' set_ref_def)
  show "ms_pool s' m' = ms_pool s m'" if "m' \<noteq> m" for m'
    using that t(3) by (simp add: s' set_ref_def)
qed

lemma release_last:
  assumes "pool_holds s free" and "m \<in> msg_objs" "m \<notin> set free" and "unat (m_ref (ms_pool s m)) \<le> 1"
  defines "s' \<equiv> mblue_message_release m s"
  shows "pool_holds s' (free @ [m])" "m_ref (ms_pool s' m) = 0"
    "\<And>m'. m' \<noteq> m \<Longrightarrow> ms_pool s' m' = ms_pool s m'"
proof -
  define t where "t = get_mblue_message_list_instance s"
  have t: "pool_holds t free" "ms_mlist t \<noteq> 0" "ms_pool t = ms_pool s"
    using instance_holds [OF assms(1)] by (simp_all add: t_def)
  let ?r = "m_ref (ms_pool s m)"
  have r: "?r = 0 \<or> ?r = 1"
    using assms(4) by (metis le_less less_one unat_1 unat_eq_0 word_unat_eq_iff)
  have s': "s' = mblue_message_put m (if ?r \<noteq> 0 then set_ref m 0 t else t)"
    using r unfolding s'_def mblue_message_release_def Let_def t_def [symmetric]
    by (auto simp: put_mblue_message_def Let_def t(3) set_ref_def)
  have d: "dlist (list_add_tail (msg_node m) msg_list_head (ms_links t)) msg_list_head (map msg_node free @ [msg_node m])"
    using t assms(2,3) msg_objs_facts [of m] by (intro ml.holds_append) (auto simp: pool_holds_def msg_node_inj)
  show "pool_holds s' (free @ [m])"
    using t(1,2) d assms(2,3) by (auto simp: s' pool_holds_def mblue_message_put_def set_ref_def)
  show "m_ref (ms_pool s' m) = 0" using t(3) by (simp add: s' mblue_message_put_def set_ref_def)
  show "ms_pool s' m' = ms_pool s m'" if "m' \<noteq> m" for m'
    using that t(3) by (simp add: s' mblue_message_put_def set_ref_def)
qed

interpretation mpool: object_pool mblue_message_alloc mblue_message_release
  "\<lambda>s m. unat (m_ref (ms_pool s m)) \<le> 1" pool_holds msg_objs
proof unfold_locales
  fix s m free assume "pool_holds s (m # free)"
  then show "\<exists>s'. mblue_message_alloc s = (m, s') \<and> pool_holds s' free \<and> unat (m_ref (ms_pool s' m)) \<le> 1"
    using alloc_first by (fastforce simp: zero_message_def)
next
  fix s assume "pool_holds s []"
  then show "\<exists>s'. mblue_message_alloc s = (0, s') \<and> pool_holds s' []" using alloc_null by blast
next
  fix s free m
  assume "pool_holds s free" "m \<in> msg_objs" "m \<notin> set free" "unat (m_ref (ms_pool s m)) \<le> 1"
  then show "pool_holds (mblue_message_release m s) (free @ [m])" by (rule release_last)
next
  fix s free assume "pool_holds s free"
  then show "distinct free \<and> set free \<subseteq> msg_objs"
    by (auto simp: pool_holds_def msg_objs_def distinct_map inj_on_def msg_addr_def split: if_splits)
next
  show "0 \<notin> msg_objs" by (auto simp: addr_defs)
qed

section \<open>Properties\<close>

text \<open>C20 (pool\_partition): whatever sequence of allocations and last releases a client makes, the messages it holds and the
  free ones stay disjoint and together are exactly the 32 messages of the pool: no message is handed
  out twice and none is lost.\<close>

theorem pool_partition:
  assumes "pool_holds s free" and "mpool.client ops [] s = (held, s')"
  shows "\<exists>free'. pool_holds s' free' \<and> distinct (held @ free') \<and> mset (held @ free') = mset free"
  using mpool.client_partition [OF assms(1) _ _ assms(2)] mpool.holds_objs [OF assms(1)] by auto

definition fresh_messages :: message_system where
  "fresh_messages = \<lparr>ms_sequence = 0, ms_mlist = 0, ms_count = 0,
     ms_links = \<lparr>lnext = (\<lambda>_. 0), lprev = (\<lambda>_. 0)\<rparr>, ms_pool = (\<lambda>_. zero_message)\<rparr>"

lemma fresh_messages_hold: "pool_holds fresh_messages (map msg_addr [0..<32])"
  by (simp add: pool_holds_def fresh_messages_def MBLUE_MAX_MESSAGE_NUM_def)

theorem pool_partition_witness:
  "\<exists>held s' free'. mpool.client [Acquire, Acquire, Give_Back (msg_addr 0)] [] fresh_messages = (held, s') \<and>
    pool_holds s' free' \<and> distinct (held @ free') \<and> mset (held @ free') = mset (map msg_addr [0..<32])"
proof -
  obtain held s' where c: "mpool.client [Acquire, Acquire, Give_Back (msg_addr 0)] [] fresh_messages = (held, s')"
    by (rule prod.exhaust)
  from pool_partition [OF fresh_messages_hold c] c show ?thesis by blast
qed

text \<open>C11 (message\_lifetime): an allocated message that is given \<open>k\<close> references (fewer than \<open>2 ^ 16\<close>) stays out of the pool for
  the first \<open>k - 1\<close> releases and is back at the end of the free list after exactly the \<open>k\<close>-th.\<close>

theorem message_lifetime:
  assumes "pool_holds s (m # free)" and "0 < k" and "k < 2 ^ 16" and "j \<le> k"
  defines "s1 \<equiv> snd (mblue_message_alloc s)"
  defines "s2 \<equiv> ((\<lambda>s. snd (get_mblue_message m s)) ^^ k) s1"
  shows "fst (mblue_message_alloc s) = m \<and>
    pool_holds ((mblue_message_release m ^^ j) s2) (if j < k then free else free @ [m])"
proof -
  obtain s' where al: "mblue_message_alloc s = (m, s')" "pool_holds s' free"
    "ms_pool s' = (ms_pool s)(m := zero_message)" using alloc_first [OF assms(1)] by blast
  have m: "m \<in> msg_objs" "m \<notin> set free" using mpool.holds_objs [OF assms(1)] by auto
  have gets: "pool_holds (((\<lambda>s. snd (get_mblue_message m s)) ^^ i) s') free \<and>
      unat (m_ref (ms_pool (((\<lambda>s. snd (get_mblue_message m s)) ^^ i) s') m)) = i" if "i < 2 ^ 16" for i
    using that
  proof (induction i)
    case 0
    then show ?case using al by (simp add: zero_message_def)
  next
    case (Suc i)
    then show ?case
      by (auto simp: get_mblue_message_def set_ref_def pool_holds_def Let_def unat_word_ariths)
  qed
  have s2: "pool_holds s2 free" "unat (m_ref (ms_pool s2 m)) = k"
    using gets [OF assms(3)] by (simp_all add: s2_def s1_def al(1))
  have rel: "pool_holds ((mblue_message_release m ^^ i) s2) free \<and>
      unat (m_ref (ms_pool ((mblue_message_release m ^^ i) s2) m)) = k - i" if "i < k" for i
    using that
  proof (induction i)
    case (Suc i)
    then have "1 < unat (m_ref (ms_pool ((mblue_message_release m ^^ i) s2) m))" by simp
    with Suc release_shared [of "(mblue_message_release m ^^ i) s2" free m] show ?case by simp
  qed (use s2 in simp)
  have "pool_holds ((mblue_message_release m ^^ j) s2) (if j < k then free else free @ [m])"
  proof (cases "j < k")
    case False
    then have j: "j = Suc (k - 1)" using assms(2,4) by simp
    from rel [of "k - 1"] assms(2) have r: "pool_holds ((mblue_message_release m ^^ (k - 1)) s2) free"
      "unat (m_ref (ms_pool ((mblue_message_release m ^^ (k - 1)) s2) m)) \<le> 1" by auto
    show ?thesis using release_last(1) [OF r(1) m r(2)] False by (simp add: j)
  qed (use rel in simp)
  then show ?thesis by (simp add: al(1))
qed

theorem message_lifetime_witness:
  "fst (mblue_message_alloc fresh_messages) = msg_addr 0 \<and>
    pool_holds ((mblue_message_release (msg_addr 0) ^^ 2)
      (((\<lambda>s. snd (get_mblue_message (msg_addr 0) s)) ^^ 2) (snd (mblue_message_alloc fresh_messages))))
      (if (2::nat) < 2 then map msg_addr [1..<32] else map msg_addr [1..<32] @ [msg_addr 0])"
  by (rule message_lifetime) (use fresh_messages_hold in \<open>simp_all add: upt_conv_Cons [of 0 32]\<close>)

text \<open>Starting from any sequence number below \<open>2 ^ 15\<close>, the numbers handed out count up modulo
  \<open>2 ^ 15\<close>; so any \<open>2 ^ 15\<close> consecutive ones are pairwise different and all are below \<open>2 ^ 15\<close>.\<close>

lemma sequence_numbers:
  assumes "unat (ms_sequence s) < 2 ^ 15"
  shows "map unat (sequence_run n s) = map (\<lambda>i. (unat (ms_sequence s) + Suc i) mod 2 ^ 15) [0..<n] \<and>
    (n \<le> 2 ^ 15 \<longrightarrow> distinct (sequence_run n s))"
proof -
  have v: "map unat (sequence_run n s) = map (\<lambda>i. (unat (ms_sequence s) + Suc i) mod 2 ^ 15) [0..<n]"
    using assms by (intro sequence_run_values) (simp add: seq_ok_def)
  have "distinct (sequence_run n s)" if "n \<le> 2 ^ 15"
  proof -
    have "inj_on (\<lambda>i. (unat (ms_sequence s) + Suc i) mod 2 ^ 15) {0..<n}"
    proof (rule inj_onI)
      fix i j assume ij: "i \<in> {0..<n}" "j \<in> {0..<n}"
        and "(unat (ms_sequence s) + Suc i) mod 2 ^ 15 = (unat (ms_sequence s) + Suc j) mod 2 ^ 15"
      then have "i mod 2 ^ 15 = j mod 2 ^ 15"
        unfolding nat_mod_eq_iff by auto
      then show "i = j" using ij that by simp
    qed
    then have "distinct (map unat (sequence_run n s))" by (simp add: v distinct_map)
    then show ?thesis by (simp add: distinct_map)
  qed
  with v show ?thesis by blast
qed

lemma sequence_numbers_example:
  "map unat (sequence_run 3 fresh_messages) = map (\<lambda>i. (unat (ms_sequence fresh_messages) + Suc i) mod 2 ^ 15) [0..<3] \<and>
    distinct (sequence_run 3 fresh_messages)"
  using sequence_numbers [of fresh_messages 3] by (simp add: fresh_messages_def)

text \<open>The type, major and minor number packed into a message code are read back by \<^verbatim>\<open>GET_TYPE\<close>,
  \<^verbatim>\<open>GET_MAJOR\<close> and \<^verbatim>\<open>GET_MINOR\<close>, for every message type, every segment and every message the header defines;
  so codes of different messages differ.\<close>

lemma code_roundtrip:
  "let code = message_code (of_nat (type_value t)) (of_nat (major_value a)) (of_nat (minor_value i))
   in unat (GET_TYPE code) = type_value t \<and> unat (GET_MAJOR code) = major_value a \<and> unat (GET_MINOR code) = minor_value i"
proof -
  have "type_value t < 2 ^ 4" "major_value a < 2 ^ 12" "minor_value i < 2 ^ 16"
    using minor_value_bound [of i] by (cases t; cases a; simp)+
  then have u: "unat (of_nat (type_value t) :: u32) = type_value t" "unat (of_nat (major_value a) :: u32) = major_value a"
    "unat (of_nat (minor_value i) :: u32) = minor_value i"
    "unat (of_nat (type_value t) :: u32) < 2 ^ 4" "unat (of_nat (major_value a) :: u32) < 2 ^ 12"
    "unat (of_nat (minor_value i) :: u32) < 2 ^ 16"
    by (simp_all add: unat_of_nat)
  show ?thesis using code_fields [OF u(4-6)] by (simp add: Let_def u(1-3))
qed

text \<open>No two of the message identifiers of \<^verbatim>\<open>TIMER_MESSAGE\<close> to \<^verbatim>\<open>LED_SERVICE_MESSAGE\<close> have the same minor
  number, and all fit in the 16 bits the code reserves for them.\<close>

lemma minor_unique:
  "(minor_value a = minor_value b \<longleftrightarrow> a = b) \<and> minor_value a < 2 ^ 16"
  using minor_value_inj [of a b] minor_value_bound by blast

end
