(* ===== verification/Timer.thy ===== *)
theory Timer
  imports Mblue_List Pool_Spec Pal_Heap
begin

text \<open>
  Timers: the pool of 12 timer objects of \<^verbatim>\<open>pal/timer/mblue_timer.c\<close> and the POSIX back end of
  \<^verbatim>\<open>pal/timer/custom_timer.h\<close>. The kernel's timers are a table from identifiers to armed settings
  (\<^verbatim>\<open>timer_create\<close> may fail, which calls do is part of the state); the \<^verbatim>\<open>struct posix_timer\<close> blocks
  live on the heap of \<^verbatim>\<open>Pal_Heap\<close>. Using a block that is not live is \<open>None\<close>. The operations are
  defined on every extension of the timer state, so that the event queue can carry it in its own.
\<close>

section \<open>State\<close>

record itimerspec =
  value_sec :: u32
  value_nsec :: u32
  interval_sec :: u32
  interval_nsec :: u32

definition zero_spec :: itimerspec where
  "zero_spec = \<lparr>value_sec = 0, value_nsec = 0, interval_sec = 0, interval_nsec = 0\<rparr>"

record posix_timer =
  pt_id :: nat
  pt_spec :: itimerspec
  pt_notify :: nat
  pt_param :: nat

record mblue_timer =
  t_name :: nat
  t_obj :: addr
  t_param :: nat

definition zero_timer :: mblue_timer where
  "zero_timer = \<lparr>t_name = 0, t_obj = 0, t_param = 0\<rparr>"

record timer_system =
  ts_heap :: mblue_heap
  ts_mlist :: addr
  ts_links :: list_heap
  ts_pool :: "addr \<Rightarrow> mblue_timer"
  ts_posix :: "addr \<Rightarrow> posix_timer"
  kt_next :: nat
  kt_spec :: "nat \<Rightarrow> itimerspec option"
  kt_fail :: "nat \<Rightarrow> bool"

section \<open>The kernel's timers\<close>

definition timer_create :: "'a timer_system_scheme \<Rightarrow> (int \<times> nat) \<times> 'a timer_system_scheme" where
  "timer_create s =
     (let n = kt_next s; s = s\<lparr>kt_next := Suc n\<rparr>
      in if kt_fail s n then ((-1, 0), s)
         else ((0, n), s\<lparr>kt_spec := (kt_spec s)(n \<mapsto> zero_spec)\<rparr>))"

definition timer_settime :: "nat \<Rightarrow> itimerspec \<Rightarrow> 'a timer_system_scheme \<Rightarrow> int \<times> 'a timer_system_scheme" where
  "timer_settime tid spec s =
     (if kt_spec s tid = None \<or> unat (value_nsec spec) \<ge> 1000000000 \<or> unat (interval_nsec spec) \<ge> 1000000000
      then (-1, s) else (0, s\<lparr>kt_spec := (kt_spec s)(tid \<mapsto> spec)\<rparr>))"

definition timer_gettime :: "nat \<Rightarrow> 'a timer_system_scheme \<Rightarrow> int \<times> itimerspec" where
  "timer_gettime tid s = (case kt_spec s tid of None \<Rightarrow> (-1, zero_spec) | Some spec \<Rightarrow> (0, spec))"

text \<open>Expiry: a timer without interval is disarmed, one with an interval is armed again.\<close>

definition timer_expire :: "nat \<Rightarrow> 'a timer_system_scheme \<Rightarrow> 'a timer_system_scheme" where
  "timer_expire tid s =
     (case kt_spec s tid of None \<Rightarrow> s
      | Some spec \<Rightarrow> s\<lparr>kt_spec := (kt_spec s)(tid \<mapsto>
          spec\<lparr>value_sec := interval_sec spec, value_nsec := interval_nsec spec\<rparr>)\<rparr>)"

section \<open>The platform operations\<close>

definition set_obj :: "addr \<Rightarrow> addr \<Rightarrow> 'a timer_system_scheme \<Rightarrow> 'a timer_system_scheme" where
  "set_obj timer v s = s\<lparr>ts_pool := (ts_pool s)(timer := (ts_pool s timer)\<lparr>t_obj := v\<rparr>)\<rparr>"

definition live_posix :: "addr \<Rightarrow> 'a timer_system_scheme \<Rightarrow> posix_timer option" where
  "live_posix pt s = (if hblocks (ts_heap s) pt = None then None else Some (ts_posix s pt))"

definition platform_timer_stop :: "addr \<Rightarrow> 'a timer_system_scheme \<Rightarrow> (int \<times> 'a timer_system_scheme) option" where
  "platform_timer_stop timer s =
     (let pt = t_obj (ts_pool s timer)
      in if pt \<noteq> 0
         then do {
           let s = set_obj timer 0 s;
           p \<leftarrow> live_posix pt s;
           let s = s\<lparr>ts_posix := (ts_posix s)(pt := p\<lparr>pt_spec := zero_spec\<rparr>)\<rparr>;
           let (rc, s) = timer_settime (pt_id p) zero_spec s;
           hp \<leftarrow> mblue_free pt (ts_heap s);
           Some (rc, s\<lparr>ts_heap := hp\<rparr>)
         }
         else Some (-1, s))"

definition platform_timer_start :: "addr \<Rightarrow> 'a timer_system_scheme \<Rightarrow> (int \<times> 'a timer_system_scheme) option" where
  "platform_timer_start timer s =
     (let pt = t_obj (ts_pool s timer)
      in if pt \<noteq> 0 then do { p \<leftarrow> live_posix pt s; Some (timer_settime (pt_id p) (pt_spec p) s) }
         else Some (-1, s))"

definition platform_timer_alive :: "addr \<Rightarrow> 'a timer_system_scheme \<Rightarrow> int option" where
  "platform_timer_alive timer s =
     (let pt = t_obj (ts_pool s timer)
      in if pt = 0 then Some 0
         else do {
           p \<leftarrow> live_posix pt s;
           let (rc, current) = timer_gettime (pt_id p) s;
           if rc \<noteq> 0 then Some 0
           else Some (if value_sec current \<noteq> 0 \<or> value_nsec current \<noteq> 0 then 1 else 0)
         })"

definition sizeof_posix_timer :: u32 where
  "sizeof_posix_timer = 28"

text \<open>The setting \<^verbatim>\<open>platform_timer_init\<close> computes from a period in milliseconds.\<close>

definition period_spec :: "u32 \<Rightarrow> bool \<Rightarrow> itimerspec" where
  "period_spec period auto_reload =
     \<lparr>value_sec = period div 1000, value_nsec = (period mod 1000) * 1000000,
      interval_sec = (if auto_reload then period div 1000 else 0),
      interval_nsec = (if auto_reload then (period mod 1000) * 1000000 else 0)\<rparr>"

text \<open>The result of \<^verbatim>\<open>mblue_malloc\<close> is not checked: a refused request is a null dereference.\<close>

definition platform_timer_init ::
    "addr \<Rightarrow> u32 \<Rightarrow> bool \<Rightarrow> nat \<Rightarrow> nat \<Rightarrow> 'a timer_system_scheme \<Rightarrow> (int \<times> 'a timer_system_scheme) option" where
  "platform_timer_init timer period auto_reload notify data s =
     (let ((rc, timerid), s) = timer_create s
      in if rc \<noteq> 0 then Some (rc, s)
         else do {
           (pt, hp) \<leftarrow> mblue_malloc sizeof_posix_timer (ts_heap s);
           let s = s\<lparr>ts_heap := hp\<rparr>;
           if pt = 0 then None
           else let s = s\<lparr>ts_posix := (ts_posix s)(pt :=
                          \<lparr>pt_id = timerid, pt_spec = period_spec period auto_reload, pt_notify = notify, pt_param = data\<rparr>)\<rparr>
                in Some (rc, set_obj timer pt s)
         })"

definition platform_timer_uninit :: "addr \<Rightarrow> 'a timer_system_scheme \<Rightarrow> (int \<times> 'a timer_system_scheme) option" where
  "platform_timer_uninit timer s = platform_timer_stop timer s"

text \<open>The signal handler: which function it calls with which argument, if any. The outer option
  is a use of a released block.\<close>

definition timer_notify :: "addr \<Rightarrow> 'a timer_system_scheme \<Rightarrow> (nat \<times> nat) option option" where
  "timer_notify timer s =
     (if timer \<noteq> 0 \<and> t_obj (ts_pool s timer) \<noteq> 0
      then do { p \<leftarrow> live_posix (t_obj (ts_pool s timer)) s; Some (Some (pt_notify p, pt_param p)) }
      else Some None)"

section \<open>The timer object's methods\<close>

definition mblue_timer_init ::
    "addr \<Rightarrow> nat \<Rightarrow> u32 \<Rightarrow> bool \<Rightarrow> nat \<Rightarrow> 'a timer_system_scheme \<Rightarrow> (int \<times> 'a timer_system_scheme) option" where
  "mblue_timer_init timer notify period auto_reload data s =
     platform_timer_init timer period auto_reload notify data s"

text \<open>The results of the platform's start and stop are only asserted, and 0 is returned.\<close>

definition mblue_timer_start :: "addr \<Rightarrow> 'a timer_system_scheme \<Rightarrow> (int \<times> 'a timer_system_scheme) option" where
  "mblue_timer_start timer s = do { (rc, s) \<leftarrow> platform_timer_start timer s; Some (0, s) }"

definition mblue_timer_stop :: "addr \<Rightarrow> 'a timer_system_scheme \<Rightarrow> (int \<times> 'a timer_system_scheme) option" where
  "mblue_timer_stop timer s = do { (rc, s) \<leftarrow> platform_timer_stop timer s; Some (0, s) }"

definition mblue_timer_alive :: "addr \<Rightarrow> 'a timer_system_scheme \<Rightarrow> bool option" where
  "mblue_timer_alive timer s = do { a \<leftarrow> platform_timer_alive timer s; Some (a \<noteq> 0) }"

definition mblue_timer_uninit :: "addr \<Rightarrow> 'a timer_system_scheme \<Rightarrow> (int \<times> 'a timer_system_scheme) option" where
  "mblue_timer_uninit timer s = platform_timer_uninit timer s"

definition mblue_timer_set_name :: "addr \<Rightarrow> nat \<Rightarrow> 'a timer_system_scheme \<Rightarrow> 'a timer_system_scheme" where
  "mblue_timer_set_name timer name s = s\<lparr>ts_pool := (ts_pool s)(timer := (ts_pool s timer)\<lparr>t_name := name\<rparr>)\<rparr>"

section \<open>The pool\<close>

definition MAX_TIMER_NUM :: nat where
  "MAX_TIMER_NUM = 12"

text \<open>The static \<^verbatim>\<open>_timer_list\<close>: the head follows the count, the pool of 44-byte timers follows the
  head, and a timer's list node is at offset 12.\<close>

definition timer_list_addr :: addr where
  "timer_list_addr = 0x4000"

definition timer_list_head :: addr where
  "timer_list_head = timer_list_addr + 4"

definition timer_addr :: "nat \<Rightarrow> addr" where
  "timer_addr i = timer_list_addr + 12 + 44 * i"

definition timer_node :: "addr \<Rightarrow> addr" where
  "timer_node timer = timer + 12"

definition node_timer :: "addr \<Rightarrow> addr" where
  "node_timer node = node - 12"

definition timer_list_init :: "'a timer_system_scheme \<Rightarrow> 'a timer_system_scheme" where
  "timer_list_init s =
     (let s = s\<lparr>ts_links := INIT_LIST_HEAD timer_list_head (ts_links s)\<rparr>
      in s\<lparr>ts_links := fold (\<lambda>i. list_add_tail (timer_node (timer_addr i)) timer_list_head)
                        [0..<MAX_TIMER_NUM] (ts_links s)\<rparr>)"

definition timer_get :: "'a timer_system_scheme \<Rightarrow> addr \<times> 'a timer_system_scheme" where
  "timer_get s =
     (if \<not> list_empty timer_list_head (ts_links s)
      then let node = lnext (ts_links s) timer_list_head
           in (node_timer node, s\<lparr>ts_links := list_del node (ts_links s)\<rparr>)
      else (0, s))"

definition timer_put :: "addr \<Rightarrow> 'a timer_system_scheme \<Rightarrow> 'a timer_system_scheme" where
  "timer_put timer s = s\<lparr>ts_links := list_add_tail (timer_node timer) timer_list_head (ts_links s)\<rparr>"

definition timer_list_uninit :: "'a timer_system_scheme \<Rightarrow> 'a timer_system_scheme" where
  "timer_list_uninit s = s\<lparr>ts_links := INIT_LIST_HEAD timer_list_head (ts_links s)\<rparr>"

definition get_timer_list_instance :: "'a timer_system_scheme \<Rightarrow> 'a timer_system_scheme" where
  "get_timer_list_instance s =
     (if ts_mlist s = 0 then timer_list_init (s\<lparr>ts_mlist := timer_list_addr\<rparr>) else s)"

text \<open>\<^verbatim>\<open>memset\<close> clears the list node as well; \<^verbatim>\<open>mblue_timer_construct\<close> then sets the method pointers,
  which always are the functions above.\<close>

definition clear_timer :: "addr \<Rightarrow> 'a timer_system_scheme \<Rightarrow> 'a timer_system_scheme" where
  "clear_timer timer s =
     s\<lparr>ts_pool := (ts_pool s)(timer := zero_timer),
       ts_links := set_prev (timer_node timer) 0 (set_next (timer_node timer) 0 (ts_links s))\<rparr>"

definition mblue_timer_get :: "'a timer_system_scheme \<Rightarrow> addr \<times> 'a timer_system_scheme" where
  "mblue_timer_get s =
     (let s = get_timer_list_instance s;
          (timer, s) = timer_get s
      in if timer = 0 then (0, s) else (timer, clear_timer timer s))"

definition mblue_timer_release :: "addr \<Rightarrow> 'a timer_system_scheme \<Rightarrow> 'a timer_system_scheme" where
  "mblue_timer_release timer s = timer_put timer (get_timer_list_instance s)"

section \<open>The timer pool implements the pool contract\<close>

definition timer_objs :: "addr set" where
  "timer_objs = timer_addr ` {..<MAX_TIMER_NUM}"

definition timers_hold :: "'a timer_system_scheme \<Rightarrow> addr list \<Rightarrow> bool" where
  "timers_hold s free \<longleftrightarrow>
     (if ts_mlist s = 0 then free = map timer_addr [0..<MAX_TIMER_NUM]
      else dlist (ts_links s) timer_list_head (map timer_node free) \<and>
           set free \<subseteq> timer_objs \<and> distinct free)"

lemmas timer_addr_defs = timer_objs_def timer_addr_def timer_node_def node_timer_def timer_list_head_def
  timer_list_addr_def MAX_TIMER_NUM_def

lemma node_timer_node [simp]: "node_timer (timer_node m) = m"
  by (simp add: node_timer_def timer_node_def)

lemma timer_objs_facts: "m \<in> timer_objs \<Longrightarrow> m \<noteq> 0 \<and> timer_node m \<noteq> 0 \<and> timer_node m \<noteq> timer_list_head"
  by (auto simp: timer_addr_defs)

lemma timer_node_inj: "timer_node a = timer_node b \<longleftrightarrow> a = b"
  by (simp add: timer_node_def)

lemma timer_instance_holds:
  assumes "timers_hold s free"
  defines "s' \<equiv> get_timer_list_instance s"
  shows "timers_hold s' free" "ts_mlist s' \<noteq> 0" "ts_pool s' = ts_pool s"
proof -
  define nodes where "nodes = map (\<lambda>i. timer_node (timer_addr i)) [0..<MAX_TIMER_NUM]"
  have n: "distinct (timer_list_head # nodes)" "0 \<notin> set nodes" "timer_list_head \<noteq> 0"
    by (auto simp: nodes_def distinct_map inj_on_def timer_addr_defs)
  have f: "fold (\<lambda>i. list_add_tail (timer_node (timer_addr i)) timer_list_head) [0..<MAX_TIMER_NUM] h =
    fold (\<lambda>n. list_add_tail n timer_list_head) nodes h" for h
    by (simp add: nodes_def fold_map o_def)
  have d: "dlist (fold (\<lambda>n. list_add_tail n timer_list_head) nodes (INIT_LIST_HEAD timer_list_head h))
      timer_list_head nodes" for h
    using ml.holds_build n by blast
  have objs: "set (map timer_addr [0..<MAX_TIMER_NUM]) \<subseteq> timer_objs"
    "distinct (map timer_addr [0..<MAX_TIMER_NUM])" "map timer_node (map timer_addr [0..<MAX_TIMER_NUM]) = nodes"
    by (auto simp: timer_objs_def distinct_map inj_on_def timer_addr_def nodes_def)
  show "timers_hold s' free"
  proof (cases "ts_mlist s = 0")
    case True
    with assms(1) have "free = map timer_addr [0..<MAX_TIMER_NUM]" by (simp add: timers_hold_def)
    with True d objs show ?thesis
      by (simp add: s'_def get_timer_list_instance_def timer_list_init_def f
          timers_hold_def timer_list_addr_def del: map_map)
  next
    case False
    with assms(1) show ?thesis by (simp add: s'_def get_timer_list_instance_def)
  qed
  show "ts_mlist s' \<noteq> 0" "ts_pool s' = ts_pool s"
    by (auto simp: s'_def get_timer_list_instance_def timer_list_init_def timer_list_addr_def)
qed

lemma timer_get_first:
  assumes "timers_hold s (m # free)"
  shows "\<exists>s'. mblue_timer_get s = (m, s') \<and> timers_hold s' free \<and> ts_pool s' = (ts_pool s)(m := zero_timer)"
proof -
  define t where "t = get_timer_list_instance s"
  have t: "timers_hold t (m # free)" "ts_mlist t \<noteq> 0" "ts_pool t = ts_pool s"
    using timer_instance_holds [OF assms] by (simp_all add: t_def)
  then have d: "dlist (ts_links t) timer_list_head (timer_node m # map timer_node free)"
    and m: "m \<in> timer_objs" "m \<notin> set free" "distinct free" "set free \<subseteq> timer_objs"
    by (auto simp: timers_hold_def)
  have first: "lnext (ts_links t) timer_list_head = timer_node m" using d by (simp add: dlist_next)
  have d': "dlist (list_del (timer_node m) (ts_links t)) timer_list_head (map timer_node free)"
    using ml.holds_take_first [OF d] first by simp
  have n: "timer_node m \<notin> set (timer_list_head # map timer_node free)"
    using m timer_objs_facts [OF m(1)] by (auto simp: timer_node_inj)
  have d'': "dlist (set_prev (timer_node m) 0 (set_next (timer_node m) 0 (list_del (timer_node m) (ts_links t))))
      timer_list_head (map timer_node free)"
    using d' n by (intro dlist_set_prev dlist_set_next) auto
  have "mblue_timer_get s = (m, clear_timer m (t\<lparr>ts_links := list_del (timer_node m) (ts_links t)\<rparr>))"
    using timer_objs_facts [OF m(1)]
    by (simp add: mblue_timer_get_def t_def [symmetric] timer_get_def first list_empty_iff [OF d])
  moreover have "timers_hold (clear_timer m (t\<lparr>ts_links := list_del (timer_node m) (ts_links t)\<rparr>)) free"
    using d'' t(2) m by (simp add: timers_hold_def clear_timer_def)
  ultimately show ?thesis using t(3) by (simp add: clear_timer_def)
qed

lemma timer_get_null:
  assumes "timers_hold s []"
  shows "\<exists>s'. mblue_timer_get s = (0, s') \<and> timers_hold s' []"
proof -
  define t where "t = get_timer_list_instance s"
  have t: "timers_hold t []" "ts_mlist t \<noteq> 0"
    using timer_instance_holds [OF assms] by (simp_all add: t_def)
  then have "list_empty timer_list_head (ts_links t)" by (simp add: timers_hold_def list_empty_iff)
  then have "mblue_timer_get s = (0, t)"
    by (simp add: mblue_timer_get_def t_def [symmetric] timer_get_def)
  with t show ?thesis by simp
qed

lemma timer_release_last:
  assumes "timers_hold s free" "m \<in> timer_objs" "m \<notin> set free"
  shows "timers_hold (mblue_timer_release m s) (free @ [m])"
proof -
  define t where "t = get_timer_list_instance s"
  have t: "timers_hold t free" "ts_mlist t \<noteq> 0"
    using timer_instance_holds [OF assms(1)] by (simp_all add: t_def)
  have "dlist (list_add_tail (timer_node m) timer_list_head (ts_links t)) timer_list_head
      (map timer_node free @ [timer_node m])"
    using t assms(2,3) timer_objs_facts [of m]
    by (intro ml.holds_append) (auto simp: timers_hold_def timer_node_inj)
  then show ?thesis
    using t assms(2,3) by (auto simp: mblue_timer_release_def timer_put_def t_def [symmetric] timers_hold_def)
qed

interpretation tpool: object_pool "mblue_timer_get :: timer_system \<Rightarrow> addr \<times> timer_system"
  mblue_timer_release "\<lambda>_ _. True" timers_hold timer_objs
proof unfold_locales
  fix s :: timer_system and m free assume "timers_hold s (m # free)"
  then show "\<exists>s'. mblue_timer_get s = (m, s') \<and> timers_hold s' free \<and> True"
    using timer_get_first by blast
next
  fix s :: timer_system assume "timers_hold s []"
  then show "\<exists>s'. mblue_timer_get s = (0, s') \<and> timers_hold s' []" by (rule timer_get_null)
next
  fix s :: timer_system and free m assume "timers_hold s free" "m \<in> timer_objs" "m \<notin> set free"
  then show "timers_hold (mblue_timer_release m s) (free @ [m])" by (rule timer_release_last)
next
  fix s :: timer_system and free assume "timers_hold s free"
  then show "distinct free \<and> set free \<subseteq> timer_objs"
    by (auto simp: timers_hold_def timer_objs_def distinct_map inj_on_def timer_addr_def split: if_splits)
next
  show "0 \<notin> timer_objs" by (auto simp: timer_addr_defs)
qed

section \<open>The life of a timer\<close>

lemma get_timer_list_instance_frame:
  "ts_heap (get_timer_list_instance s) = ts_heap s" "ts_pool (get_timer_list_instance s) = ts_pool s"
  "ts_posix (get_timer_list_instance s) = ts_posix s" "kt_spec (get_timer_list_instance s) = kt_spec s"
  "kt_next (get_timer_list_instance s) = kt_next s" "kt_fail (get_timer_list_instance s) = kt_fail s"
  "timer_system.more (get_timer_list_instance s) = timer_system.more s"
  by (simp_all add: get_timer_list_instance_def timer_list_init_def)

lemma mblue_timer_release_frame:
  "ts_heap (mblue_timer_release m s) = ts_heap s" "ts_pool (mblue_timer_release m s) = ts_pool s"
  "ts_posix (mblue_timer_release m s) = ts_posix s" "kt_spec (mblue_timer_release m s) = kt_spec s"
  "timer_system.more (mblue_timer_release m s) = timer_system.more s"
  by (simp_all add: mblue_timer_release_def timer_put_def get_timer_list_instance_frame)

lemma mblue_timer_get_frame:
  assumes "mblue_timer_get s = (m, s')"
  shows "ts_heap s' = ts_heap s" "ts_posix s' = ts_posix s" "kt_spec s' = kt_spec s" "kt_next s' = kt_next s"
    "kt_fail s' = kt_fail s" "timer_system.more s' = timer_system.more s"
  using assms by (auto simp: mblue_timer_get_def timer_get_def clear_timer_def Let_def
      get_timer_list_instance_frame split: if_splits)

text \<open>The period in milliseconds becomes seconds and nanoseconds without loss, within what
  \<^verbatim>\<open>timer_settime\<close> accepts.\<close>

lemma period_split:
  fixes period :: u32
  shows "unat ((period mod 1000) * 1000000) = (unat period mod 1000) * 1000000"
    "unat (period div 1000) * 1000 + unat ((period mod 1000) * 1000000) div 1000000 = unat period"
    "unat ((period mod 1000) * 1000000) < 1000000000"
proof -
  have m: "unat (period mod 1000) = unat period mod 1000" "unat (period div 1000) = unat period div 1000"
    by (simp_all add: unat_mod_distrib unat_div_distrib)
  have "unat period mod 1000 < 1000" by simp
  then have "(unat period mod 1000) * 1000000 < 1000000000" by linarith
  then show 1: "unat ((period mod 1000) * 1000000) = (unat period mod 1000) * 1000000"
    by (simp add: unat_word_ariths m)
  show "unat ((period mod 1000) * 1000000) < 1000000000"
    unfolding 1 using \<open>_ < 1000000000\<close> .
  show "unat (period div 1000) * 1000 + unat ((period mod 1000) * 1000000) div 1000000 = unat period"
    unfolding 1 m by simp
qed

text \<open>A timer object bound to a live \<^verbatim>\<open>posix_timer\<close> block whose kernel timer exists.\<close>

definition timer_bound :: "addr \<Rightarrow> addr \<Rightarrow> posix_timer \<Rightarrow> 'a timer_system_scheme \<Rightarrow> bool" where
  "timer_bound timer pt p s \<longleftrightarrow> timer \<noteq> 0 \<and> pt \<noteq> 0 \<and> t_obj (ts_pool s timer) = pt \<and>
     hblocks (ts_heap s) pt \<noteq> None \<and> ts_posix s pt = p \<and> kt_spec s (pt_id p) \<noteq> None \<and>
     unat (value_nsec (pt_spec p)) < 1000000000 \<and> unat (interval_nsec (pt_spec p)) < 1000000000"

lemma period_spec_armed: "value_sec (period_spec p r) \<noteq> 0 \<or> value_nsec (period_spec p r) \<noteq> 0 \<longleftrightarrow> p \<noteq> 0"
proof -
  have "unat (p div 1000) = 0 \<and> unat ((p mod 1000) * 1000000) = 0 \<longleftrightarrow> unat p = 0"
    using period_split(2) [of p] by (auto simp: period_split(1) unat_div_distrib)
  then show ?thesis by (simp only: period_spec_def itimerspec.simps unat_eq_0) blast
qed

lemma mblue_timer_init_granted:
  assumes "timer \<noteq> 0" "heap_wf (ts_heap s)" "\<not> kt_fail s (kt_next s)" "\<not> hfail (ts_heap s) (hcalls (ts_heap s))"
  obtains pt s' bs where "mblue_timer_init timer notify period auto_reload data s = Some (0, s')"
    "timer_bound timer pt \<lparr>pt_id = kt_next s, pt_spec = period_spec period auto_reload,
       pt_notify = notify, pt_param = data\<rparr> s'"
    "heap_wf (ts_heap s')" "hblocks (ts_heap s) pt = None" "hblocks (ts_heap s') = (hblocks (ts_heap s))(pt \<mapsto> bs)"
    "kt_spec s' = (kt_spec s)(kt_next s \<mapsto> zero_spec)" "ts_pool s' = (ts_pool s)(timer := (ts_pool s timer)\<lparr>t_obj := pt\<rparr>)"
    "ts_links s' = ts_links s" "ts_mlist s' = ts_mlist s" "\<And>a. a \<noteq> pt \<Longrightarrow> ts_posix s' a = ts_posix s a"
    "timer_system.more s' = timer_system.more s" "hfail (ts_heap s') = hfail (ts_heap s)" "hnext (ts_heap s') = hnext (ts_heap s) + 3"
proof -
  have lim: "unat sizeof_posix_timer \<le> 2 ^ 32 - 16" by (simp add: sizeof_posix_timer_def)
  obtain pt hp where m: "mblue_malloc sizeof_posix_timer (ts_heap s) = Some (pt, hp)" "pt \<noteq> 0"
      "hfail hp = hfail (ts_heap s)" "hnext hp = hnext (ts_heap s) + 3"
    using mblue_malloc_granted [OF assms(4) lim] by (auto simp: sizeof_posix_timer_def)
  note w = mheap.malloc_wf [OF assms(2) lim m(1)]
  obtain bs where b: "hblocks (ts_heap s) pt = None" "hblocks hp = (hblocks (ts_heap s))(pt \<mapsto> bs)"
    using mheap.malloc_block [OF assms(2) lim m(1,2)] by blast
  define s' where "s' = set_obj timer pt (s\<lparr>kt_next := Suc (kt_next s),
      kt_spec := (kt_spec s)(kt_next s \<mapsto> zero_spec), ts_heap := hp,
      ts_posix := (ts_posix s)(pt := \<lparr>pt_id = kt_next s, pt_spec = period_spec period auto_reload,
       pt_notify = notify, pt_param = data\<rparr>)\<rparr>)"
  have i: "mblue_timer_init timer notify period auto_reload data s = Some (0, s')"
    using assms(3) m by (simp add: mblue_timer_init_def platform_timer_init_def timer_create_def
        Let_def s'_def period_spec_def)
  show thesis
    by (rule that [OF i, of pt bs])
      (use assms m w b period_split(3) [of period] in
        \<open>auto simp: timer_bound_def s'_def set_obj_def period_spec_def\<close>)
qed

lemma timer_start_bound:
  assumes "timer_bound timer pt p s"
  shows "platform_timer_start timer s = Some (0, s\<lparr>kt_spec := (kt_spec s)(pt_id p \<mapsto> pt_spec p)\<rparr>)"
  using assms by (auto simp: timer_bound_def platform_timer_start_def live_posix_def timer_settime_def)

lemma timer_stop_bound:
  assumes "timer_bound timer pt p s" "heap_wf (ts_heap s)"
  obtains s' where "platform_timer_stop timer s = Some (0, s')" "t_obj (ts_pool s' timer) = 0"
    "heap_wf (ts_heap s')" "hblocks (ts_heap s') = (hblocks (ts_heap s))(pt := None)"
    "kt_spec s' = (kt_spec s)(pt_id p \<mapsto> zero_spec)" "ts_links s' = ts_links s" "ts_mlist s' = ts_mlist s"
    "ts_pool s' = (ts_pool s)(timer := (ts_pool s timer)\<lparr>t_obj := 0\<rparr>)"
    "\<And>a. a \<noteq> pt \<Longrightarrow> ts_posix s' a = ts_posix s a" "timer_system.more s' = timer_system.more s"
proof -
  obtain bs where "hblocks (ts_heap s) pt = Some bs" using assms(1) by (auto simp: timer_bound_def)
  from mheap.free_live [OF assms(2) this] obtain hp where hp: "mblue_free pt (ts_heap s) = Some hp"
    "heap_wf hp" "hblocks hp = (hblocks (ts_heap s))(pt := None)" by blast
  define s' where "s' = set_obj timer 0 s\<lparr>ts_posix := (ts_posix s)(pt := p\<lparr>pt_spec := zero_spec\<rparr>),
      kt_spec := (kt_spec s)(pt_id p \<mapsto> zero_spec), ts_heap := hp\<rparr>"
  have "platform_timer_stop timer s = Some (0, s')"
    using assms(1) hp by (auto simp: timer_bound_def platform_timer_stop_def live_posix_def
        timer_settime_def set_obj_def zero_spec_def s'_def)
  then show thesis by (rule that) (use hp in \<open>simp_all add: s'_def set_obj_def\<close>)
qed

lemma timer_alive_bound:
  assumes "timer_bound timer pt p s" "kt_spec s (pt_id p) = Some spec"
  shows "mblue_timer_alive timer s = Some (value_sec spec \<noteq> 0 \<or> value_nsec spec \<noteq> 0)"
  using assms by (auto simp: timer_bound_def mblue_timer_alive_def platform_timer_alive_def
      live_posix_def timer_gettime_def Let_def)

lemma timer_unbound:
  assumes "t_obj (ts_pool s timer) = 0"
  shows "platform_timer_stop timer s = Some (-1, s)" "platform_timer_start timer s = Some (-1, s)"
    "mblue_timer_alive timer s = Some False" "timer_notify timer s = Some None"
  using assms by (simp_all add: platform_timer_stop_def platform_timer_start_def mblue_timer_alive_def
      platform_timer_alive_def timer_notify_def Let_def)

lemma timer_life:
  assumes "timer \<noteq> 0" "heap_wf (ts_heap s)" "\<not> kt_fail s (kt_next s)" "\<not> hfail (ts_heap s) (hcalls (ts_heap s))"
  shows "\<exists>s1 s2 s3. mblue_timer_init timer notify period auto_reload data s = Some (0, s1) \<and>
    platform_timer_start timer s1 = Some (0, s2) \<and> mblue_timer_alive timer s2 = Some (period \<noteq> 0) \<and>
    timer_notify timer s2 = Some (Some (notify, data)) \<and>
    platform_timer_stop timer s2 = Some (0, s3) \<and> mblue_timer_alive timer s3 = Some False \<and>
    timer_notify timer s3 = Some None \<and> hblocks (ts_heap s3) = hblocks (ts_heap s) \<and>
    mblue_timer_uninit timer s3 = Some (-1, s3) \<and> kt_spec s3 (kt_next s) = Some zero_spec"
proof -
  let ?p = "\<lparr>pt_id = kt_next s, pt_spec = period_spec period auto_reload, pt_notify = notify, pt_param = data\<rparr>"
  obtain pt s1 bs where s1: "mblue_timer_init timer notify period auto_reload data s = Some (0, s1)"
    "timer_bound timer pt ?p s1" "heap_wf (ts_heap s1)" "hblocks (ts_heap s) pt = None"
    "hblocks (ts_heap s1) = (hblocks (ts_heap s))(pt \<mapsto> bs)"
    by (rule mblue_timer_init_granted [OF assms, of notify period auto_reload data])
  define s2 where "s2 = s1\<lparr>kt_spec := (kt_spec s1)(kt_next s \<mapsto> period_spec period auto_reload)\<rparr>"
  have start: "platform_timer_start timer s1 = Some (0, s2)"
    using timer_start_bound [OF s1(2)] by (simp add: s2_def)
  have b2: "timer_bound timer pt ?p s2" using s1(2) by (auto simp: timer_bound_def s2_def)
  have alive: "mblue_timer_alive timer s2 = Some (period \<noteq> 0)"
    using timer_alive_bound [OF b2, of "period_spec period auto_reload"] period_spec_armed
    by (simp add: s2_def)
  have notify: "timer_notify timer s2 = Some (Some (notify, data))"
    using b2 by (auto simp: timer_bound_def timer_notify_def live_posix_def)
  have w2: "heap_wf (ts_heap s2)" using s1(3) by (simp add: s2_def)
  obtain s3 where s3: "platform_timer_stop timer s2 = Some (0, s3)" "t_obj (ts_pool s3 timer) = 0"
    "hblocks (ts_heap s3) = (hblocks (ts_heap s2))(pt := None)" "kt_spec s3 = (kt_spec s2)(kt_next s \<mapsto> zero_spec)"
    by (rule timer_stop_bound [OF b2 w2]) simp
  have "hblocks (ts_heap s3) = hblocks (ts_heap s)" using s3(3) s1(4,5) by (auto simp: s2_def)
  with s1(1) start alive notify s3 timer_unbound [OF s3(2)] show ?thesis
    by (simp add: mblue_timer_uninit_def platform_timer_uninit_def)
qed

section \<open>Properties\<close>

definition fresh_timers :: timer_system where
  "fresh_timers = \<lparr>ts_heap = fresh_heap, ts_mlist = 0, ts_links = \<lparr>lnext = (\<lambda>_. 0), lprev = (\<lambda>_. 0)\<rparr>,
     ts_pool = (\<lambda>_. zero_timer), ts_posix = (\<lambda>_. \<lparr>pt_id = 0, pt_spec = zero_spec, pt_notify = 0, pt_param = 0\<rparr>),
     kt_next = 0, kt_spec = (\<lambda>_. None), kt_fail = (\<lambda>_. False)\<rparr>"

lemma fresh_timers_hold: "timers_hold fresh_timers (map timer_addr [0..<12])"
  by (simp add: timers_hold_def fresh_timers_def MAX_TIMER_NUM_def)

text \<open>Whatever sequence of requests and releases clients make, the timers handed out and the free ones
  stay disjoint and together are exactly the 12 timers of the pool; a request that fails means that
  all 12 are in use.\<close>

lemma timer_pool_partition:
  assumes "timers_hold s free" and "set free = timer_objs" and "tpool.client ops [] s = (held, s')"
  shows "\<exists>free'. timers_hold s' free' \<and> distinct (held @ free') \<and> set held \<union> set free' = timer_objs \<and>
    fst (mblue_timer_get s') \<notin> set held \<and> (fst (mblue_timer_get s') = 0 \<longleftrightarrow> set held = timer_objs)"
proof -
  from tpool.client_partition [OF assms(1) _ _ assms(3)] tpool.holds_objs [OF assms(1)]
  obtain free' where f: "timers_hold s' free'" "distinct (held @ free')" "mset (held @ free') = mset free"
    by auto
  then have u: "set held \<union> set free' = timer_objs" using assms(2) by (metis set_append set_mset_mset)
  obtain x s2 where g: "mblue_timer_get s' = (x, s2)" by fastforce
  from f u tpool.acquire_fresh [OF f(1,2) u g] g show ?thesis by auto
qed

lemma timer_pool_partition_example:
  "\<exists>held s' free'. tpool.client [Acquire, Acquire, Give_Back (timer_addr 1)] [] fresh_timers = (held, s') \<and>
    timers_hold s' free' \<and> distinct (held @ free') \<and> set held \<union> set free' = timer_objs \<and>
    fst (mblue_timer_get s') \<notin> set held \<and> (fst (mblue_timer_get s') = 0 \<longleftrightarrow> set held = timer_objs)"
proof -
  obtain held s' where c: "tpool.client [Acquire, Acquire, Give_Back (timer_addr 1)] [] fresh_timers = (held, s')"
    by (rule prod.exhaust)
  have "set (map timer_addr [0..<12]) = timer_objs"
    by (simp only: timer_objs_def MAX_TIMER_NUM_def set_map set_upt atLeast0LessThan)
  from timer_pool_partition [OF fresh_timers_hold this c] obtain free' where
    "timers_hold s' free' \<and> distinct (held @ free') \<and> set held \<union> set free' = timer_objs \<and>
     fst (mblue_timer_get s') \<notin> set held \<and> (fst (mblue_timer_get s') = 0 \<longleftrightarrow> set held = timer_objs)" ..
  with c have "tpool.client [Acquire, Acquire, Give_Back (timer_addr 1)] [] fresh_timers = (held, s') \<and>
     timers_hold s' free' \<and> distinct (held @ free') \<and> set held \<union> set free' = timer_objs \<and>
     fst (mblue_timer_get s') \<notin> set held \<and> (fst (mblue_timer_get s') = 0 \<longleftrightarrow> set held = timer_objs)" ..
  then show ?thesis by (intro exI)
qed

text \<open>A timer that is initialised and started is alive exactly when its period is not zero and its signal
  calls the given function with the given argument; stopping it succeeds, silences it and gives back
  its block. The stop inside a following \<^verbatim>\<open>uninit\<close> then reports failure, and the kernel timer, disarmed,
  is never deleted.\<close>

lemma timer_life_cycle:
  assumes "timer \<noteq> 0" and "heap_wf (ts_heap s)" and "\<not> kt_fail s (kt_next s)"
    and "\<not> hfail (ts_heap s) (hcalls (ts_heap s))"
  shows "\<exists>s1 s2 s3. mblue_timer_init timer notify period auto_reload data s = Some (0, s1) \<and>
    platform_timer_start timer s1 = Some (0, s2) \<and> mblue_timer_alive timer s2 = Some (period \<noteq> 0) \<and>
    timer_notify timer s2 = Some (Some (notify, data)) \<and>
    platform_timer_stop timer s2 = Some (0, s3) \<and> mblue_timer_alive timer s3 = Some False \<and>
    timer_notify timer s3 = Some None \<and> hblocks (ts_heap s3) = hblocks (ts_heap s) \<and>
    mblue_timer_uninit timer s3 = Some (-1, s3) \<and> kt_spec s3 (kt_next s) = Some zero_spec"
  by (rule timer_life [OF assms])

lemma timer_life_cycle_example:
  "\<exists>s1 s2 s3. mblue_timer_init (timer_addr 0) 77 1500 True 5 fresh_timers = Some (0, s1) \<and>
    platform_timer_start (timer_addr 0) s1 = Some (0, s2) \<and> mblue_timer_alive (timer_addr 0) s2 = Some ((1500::u32) \<noteq> 0) \<and>
    timer_notify (timer_addr 0) s2 = Some (Some (77, 5)) \<and>
    platform_timer_stop (timer_addr 0) s2 = Some (0, s3) \<and> mblue_timer_alive (timer_addr 0) s3 = Some False \<and>
    timer_notify (timer_addr 0) s3 = Some None \<and> hblocks (ts_heap s3) = hblocks (ts_heap fresh_timers) \<and>
    mblue_timer_uninit (timer_addr 0) s3 = Some (-1, s3) \<and> kt_spec s3 (kt_next fresh_timers) = Some zero_spec"
  by (rule timer_life_cycle) (simp_all add: timer_addr_def timer_list_addr_def fresh_timers_def, simp add: fresh_heap_def)

text \<open>The setting computed from a period in milliseconds is the period exactly, with a nanosecond part
  \<^verbatim>\<open>timer_settime\<close> accepts, for every 32-bit period; an auto-reload timer repeats with the same setting,
  another one never.\<close>

lemma timer_period:
  "let spec = period_spec period auto_reload
   in unat (value_sec spec) * 1000 + unat (value_nsec spec) div 1000000 = unat period \<and>
      unat (value_nsec spec) mod 1000000 = 0 \<and> unat (value_nsec spec) < 1000000000 \<and>
      (if auto_reload then interval_sec spec = value_sec spec \<and> interval_nsec spec = value_nsec spec
       else interval_sec spec = 0 \<and> interval_nsec spec = 0)"
  using period_split [of period] by (simp add: period_spec_def Let_def)

end
