(* ===== verification/Event_Queue.thy ===== *)
theory Event_Queue
  imports Timer
begin

text \<open>
  The delayed-event queue of \<^verbatim>\<open>middleware/components/event_queue/event_queue.c\<close> and the helpers of
  \<^verbatim>\<open>event_helper.c\<close>. A queue is a bitmap of the pending event types and an intrusive list of
  heap-allocated elements, each with an optional timer, an optional payload and a chain of four
  callbacks. Callbacks are code of the queue's users: they are a parameter \<open>cb\<close>, a function from
  the callback's address, its element and its argument to a result and a new state. Touching a
  released block, calling through a null timer and indexing the call chain out of range are \<open>None\<close>;
  the loops over the list carry fuel, and the theorems show that the number of elements is enough.
\<close>

section \<open>State\<close>

datatype EVENT_CALL_CHAIN_INDEX = CALL_START | CALL_WAKEUP | CALL_CANCEL | CALL_FINISH

primrec chain_index :: "EVENT_CALL_CHAIN_INDEX \<Rightarrow> nat" where
  "chain_index CALL_START = 0"
| "chain_index CALL_WAKEUP = 1"
| "chain_index CALL_CANCEL = 2"
| "chain_index CALL_FINISH = 3"

definition CALL_CHAIN_MAX :: nat where
  "CALL_CHAIN_MAX = 4"

definition EVENT_MODE_PENDING_EVENT :: u32 where
  "EVENT_MODE_PENDING_EVENT = 0"

definition EVENT_MODE_EVENT_PERIODICAL :: u32 where
  "EVENT_MODE_EVENT_PERIODICAL = 1"

definition EVENT_TIMEOUT_FOREVER :: u32 where
  "EVENT_TIMEOUT_FOREVER = 0xFFFFFFFF"

definition MBLUE_EVENT_DELAYED_EVENT :: u32 where
  "MBLUE_EVENT_DELAYED_EVENT = 0x80000000"

record event_queue_element =
  e_type :: u32
  e_mode :: u32
  e_period :: u32
  e_tick :: addr
  e_src :: nat
  e_head :: addr
  e_smart_data :: SMART_DATA
  e_chain :: "nat list"

record event_queue_head =
  event_bm :: u32
  q_context :: nat
  q_timer_function :: nat

record event_world = timer_system +
  ew_links :: list_heap
  ew_elems :: "addr \<Rightarrow> event_queue_element"
  ew_queues :: "addr \<Rightarrow> event_queue_head"

text \<open>The list node of an element is at offset 44, the list head of a queue at offset 4.\<close>

definition ele_node :: "addr \<Rightarrow> addr" where
  "ele_node ele = ele + 44"

definition node_ele :: "addr \<Rightarrow> addr" where
  "node_ele node = node - 44"

definition queue_list :: "addr \<Rightarrow> addr" where
  "queue_list q = q + 4"

definition sizeof_event_queue_element :: u32 where
  "sizeof_event_queue_element = 52"

definition set_bm :: "addr \<Rightarrow> u32 \<Rightarrow> 'a event_world_scheme \<Rightarrow> 'a event_world_scheme" where
  "set_bm q bm w = w\<lparr>ew_queues := (ew_queues w)(q := (ew_queues w q)\<lparr>event_bm := bm\<rparr>)\<rparr>"

definition live_ele :: "addr \<Rightarrow> 'a event_world_scheme \<Rightarrow> event_queue_element option" where
  "live_ele ele w = (if hblocks (ts_heap w) ele = None then None else Some (ew_elems w ele))"

type_synonym 'a callback = "nat \<Rightarrow> addr \<Rightarrow> nat \<Rightarrow> 'a event_world_scheme \<Rightarrow> int \<times> 'a event_world_scheme"

section \<open>The queue's operations\<close>

definition free_event_element :: "addr \<Rightarrow> 'a event_world_scheme \<Rightarrow> 'a event_world_scheme option" where
  "free_event_element ele w =
     do {
       e \<leftarrow> live_ele ele w;
       w \<leftarrow> (if e_tick e \<noteq> 0
            then do {
              (rc, w) \<leftarrow> mblue_timer_stop (e_tick e) w;
              (rc, w) \<leftarrow> mblue_timer_uninit (e_tick e) w;
              Some (mblue_timer_release (e_tick e) w)
            }
            else Some w);
       w \<leftarrow> (if e_smart_data e \<noteq> 0 \<and> PB_PAYLOAD (e_smart_data e)
            then do { hp \<leftarrow> mblue_free (unat (e_smart_data e)) (ts_heap w); Some (w\<lparr>ts_heap := hp\<rparr>) }
            else Some w);
       let w = w\<lparr>ew_links := list_del (ele_node ele) (ew_links w)\<rparr>;
       hp \<leftarrow> mblue_free ele (ts_heap w);
       Some (w\<lparr>ts_heap := hp\<rparr>)
     }"

definition event_queue_init :: "addr \<Rightarrow> nat \<Rightarrow> 'a event_world_scheme \<Rightarrow> mblue_errcode \<times> 'a event_world_scheme" where
  "event_queue_init q context' w =
     (let w = set_bm q 0 w;
          w = w\<lparr>ew_links := INIT_LIST_HEAD (queue_list q) (ew_links w)\<rparr>
      in (MBLUE_OK, w\<lparr>ew_queues := (ew_queues w)(q := (ew_queues w q)\<lparr>q_context := context'\<rparr>)\<rparr>))"

definition event_queue_get_pending_event :: "addr \<Rightarrow> 'a event_world_scheme \<Rightarrow> u32" where
  "event_queue_get_pending_event q w = event_bm (ew_queues w q)"

fun get_element_loop :: "nat \<Rightarrow> addr \<Rightarrow> u32 \<Rightarrow> addr \<Rightarrow> 'a event_world_scheme \<Rightarrow> addr option" where
  "get_element_loop 0 q type node w = None"
| "get_element_loop (Suc fuel) q type node w =
     (if node = queue_list q then Some 0
      else do {
        e \<leftarrow> live_ele (node_ele node) w;
        if e_type e \<noteq> type then get_element_loop fuel q type (lnext (ew_links w) node) w
        else Some (node_ele node)
      })"

definition event_queue_get_element :: "nat \<Rightarrow> addr \<Rightarrow> u32 \<Rightarrow> 'a event_world_scheme \<Rightarrow> addr option" where
  "event_queue_get_element fuel q type w =
     get_element_loop fuel q type (lnext (ew_links w) (queue_list q)) w"

definition event_queue_add ::
    "'a callback \<Rightarrow> addr \<Rightarrow> event_queue_element \<Rightarrow> 'a event_world_scheme \<Rightarrow> (int \<times> 'a event_world_scheme) option" where
  "event_queue_add cb q element w =
     (if event_bm (ew_queues w q) AND e_type element \<noteq> 0
      then Some (errcode_value MBLUE_ERR_UNKNOWN, w)
      else do {
        (ele, hp) \<leftarrow> mblue_malloc sizeof_event_queue_element (ts_heap w);
        let w = w\<lparr>ts_heap := hp\<rparr>;
        if ele = 0 then Some (errcode_value MBLUE_ERR_NOMEM, w)
        else do {
          let w = w\<lparr>ew_elems := (ew_elems w)(ele := element\<lparr>e_head := q\<rparr>)\<rparr>;
          let w = set_bm q (event_bm (ew_queues w q) OR e_type element) w;
          let w = w\<lparr>ew_links := list_add_tail (ele_node ele) (queue_list q) (ew_links w)\<rparr>;
          w \<leftarrow> (if e_period element \<noteq> 0 \<and> e_period element \<noteq> EVENT_TIMEOUT_FOREVER
               then do {
                 let (timer, w) = mblue_timer_get w;
                 if timer = 0 then None
                 else do {
                   (rc, w) \<leftarrow> mblue_timer_init timer (q_timer_function (ew_queues w q)) (e_period element)
                                (e_mode element \<noteq> 0) ele w;
                   (rc, w) \<leftarrow> mblue_timer_start timer w;
                   Some (w\<lparr>ew_elems := (ew_elems w)(ele := (ew_elems w ele)\<lparr>e_tick := timer\<rparr>)\<rparr>)
                 }
               }
               else Some w);
          if e_chain (ew_elems w ele) ! chain_index CALL_START \<noteq> 0
          then Some (cb (e_chain (ew_elems w ele) ! chain_index CALL_START) ele q w)
          else Some (errcode_value MBLUE_OK, w)
        }
      })"

text \<open>\<^verbatim>\<open>list_for_each_safe\<close>: the successor \<open>n\<close> is read before the body runs.\<close>

fun delete_loop :: "nat \<Rightarrow> addr \<Rightarrow> u32 \<Rightarrow> addr \<Rightarrow> addr \<Rightarrow> mblue_errcode \<Rightarrow> 'a event_world_scheme \<Rightarrow>
    (mblue_errcode \<times> 'a event_world_scheme) option" where
  "delete_loop 0 q type node n ret w = None"
| "delete_loop (Suc fuel) q type node n ret w =
     (if node = queue_list q then Some (ret, w)
      else do {
        e \<leftarrow> live_ele (node_ele node) w;
        (ret, w) \<leftarrow> (if e_type e \<noteq> type then Some (ret, w)
                    else do {
                      let w = set_bm q (event_bm (ew_queues w q) AND NOT type) w;
                      w \<leftarrow> free_event_element (node_ele node) w;
                      Some (MBLUE_OK, w)
                    });
        delete_loop fuel q type n (lnext (ew_links w) n) ret w
      })"

definition event_queue_delete :: "nat \<Rightarrow> addr \<Rightarrow> u32 \<Rightarrow> 'a event_world_scheme \<Rightarrow>
    (mblue_errcode \<times> 'a event_world_scheme) option" where
  "event_queue_delete fuel q type w =
     (let node = lnext (ew_links w) (queue_list q)
      in delete_loop fuel q type node (lnext (ew_links w) node) MBLUE_ERR_UNKNOWN w)"

text \<open>The call chain of an element, indexed by a callback's positive result.\<close>

definition chain_at :: "event_queue_element \<Rightarrow> nat \<Rightarrow> nat option" where
  "chain_at e i = (if i < length (e_chain e) then Some (e_chain e ! i) else None)"

text \<open>The end of the wake-up loop's body: an element whose last callback answered
  \<^verbatim>\<open>MBLUE_ELEMENT_EXIT\<close> is removed.\<close>

definition element_exit :: "addr \<Rightarrow> addr \<Rightarrow> int \<Rightarrow> 'a event_world_scheme \<Rightarrow> 'a event_world_scheme option" where
  "element_exit q ele ret w =
     (if ret = errcode_value MBLUE_ELEMENT_EXIT
      then do {
        e \<leftarrow> live_ele ele w;
        free_event_element ele (set_bm q (event_bm (ew_queues w q) AND NOT (e_type e)) w)
      }
      else Some w)"

text \<open>What the loop does with the element it found: a wake-up callback that answers \<^verbatim>\<open>MBLUE_OK\<close>
  leaves the loop at once, a positive answer selects another callback.\<close>

definition wakeup_element :: "'a callback \<Rightarrow> addr \<Rightarrow> addr \<Rightarrow> nat \<Rightarrow> 'a event_world_scheme \<Rightarrow>
    'a event_world_scheme option" where
  "wakeup_element cb q ele param w =
     do {
       e \<leftarrow> live_ele ele w;
       wk \<leftarrow> chain_at e (chain_index CALL_WAKEUP);
       fi \<leftarrow> chain_at e (chain_index CALL_FINISH);
       ca \<leftarrow> chain_at e (chain_index CALL_CANCEL);
       if wk \<noteq> 0
       then let (ret, w) = cb wk ele param w
            in if ret = errcode_value MBLUE_OK then Some w
               else if ret > 0
               then do {
                 e \<leftarrow> live_ele ele w;
                 f \<leftarrow> chain_at e (nat ret);
                 if f \<noteq> 0 then let (ret, w) = cb f ele param w in element_exit q ele ret w
                 else element_exit q ele ret w
               }
               else element_exit q ele ret w
       else if fi \<noteq> 0 then let (ret, w) = cb fi ele param w in element_exit q ele ret w
       else if ca \<noteq> 0 then let (ret, w) = cb ca ele param w in element_exit q ele ret w
       else element_exit q ele (errcode_value MBLUE_ELEMENT_EXIT) w
     }"

fun wakeup_loop :: "nat \<Rightarrow> 'a callback \<Rightarrow> addr \<Rightarrow> u32 \<Rightarrow> nat \<Rightarrow> addr \<Rightarrow> 'a event_world_scheme \<Rightarrow>
    'a event_world_scheme option" where
  "wakeup_loop 0 cb q type param node w = None"
| "wakeup_loop (Suc fuel) cb q type param node w =
     (if node = queue_list q then Some w
      else do {
        e \<leftarrow> live_ele (node_ele node) w;
        if e_type e \<noteq> type then wakeup_loop fuel cb q type param (lnext (ew_links w) node) w
        else wakeup_element cb q (node_ele node) param w
      })"

definition event_queue_wakeup :: "nat \<Rightarrow> 'a callback \<Rightarrow> addr \<Rightarrow> u32 \<Rightarrow> nat \<Rightarrow> 'a event_world_scheme \<Rightarrow>
    (mblue_errcode \<times> 'a event_world_scheme) option" where
  "event_queue_wakeup fuel cb q type param w =
     (if event_bm (ew_queues w q) AND type = 0 then Some (MBLUE_ERR_UNKNOWN, w)
      else do {
        w \<leftarrow> wakeup_loop fuel cb q type param (lnext (ew_links w) (queue_list q)) w;
        Some (MBLUE_OK, w)
      })"

definition event_queue_uninit :: "addr \<Rightarrow> 'a event_world_scheme \<Rightarrow> mblue_errcode" where
  "event_queue_uninit q w = MBLUE_OK"

section \<open>The helpers\<close>

definition INIT_EVENT_ELEMENT_WITH ::
    "u32 \<Rightarrow> u32 \<Rightarrow> u32 \<Rightarrow> nat \<Rightarrow> SMART_DATA \<Rightarrow> addr \<Rightarrow> nat \<Rightarrow> nat \<Rightarrow> nat \<Rightarrow> nat \<Rightarrow> event_queue_element" where
  "INIT_EVENT_ELEMENT_WITH y m p s d t st aw ca fi =
     \<lparr>e_type = y, e_mode = m, e_period = p, e_tick = t, e_src = s, e_head = 0, e_smart_data = d,
      e_chain = [st, aw, ca, fi]\<rparr>"

definition add_pending_event ::
    "'a callback \<Rightarrow> addr \<Rightarrow> u32 \<Rightarrow> u32 \<Rightarrow> nat \<Rightarrow> SMART_DATA \<Rightarrow> nat \<Rightarrow> nat \<Rightarrow> nat \<Rightarrow> nat \<Rightarrow>
     'a event_world_scheme \<Rightarrow> (int \<times> 'a event_world_scheme) option" where
  "add_pending_event cb q type timeout msg data start_cb awaken_cb cancel_cb finish_cb w =
     event_queue_add cb q (INIT_EVENT_ELEMENT_WITH type EVENT_MODE_PENDING_EVENT timeout msg data 0
       start_cb awaken_cb cancel_cb finish_cb) w"

definition add_simple_pending_event ::
    "'a callback \<Rightarrow> addr \<Rightarrow> u32 \<Rightarrow> nat \<Rightarrow> nat \<Rightarrow> 'a event_world_scheme \<Rightarrow> (int \<times> 'a event_world_scheme) option" where
  "add_simple_pending_event cb q type msg finish_cb w =
     event_queue_add cb q (INIT_EVENT_ELEMENT_WITH type EVENT_MODE_PENDING_EVENT 0 msg 0 0 0 0 0 finish_cb) w"

definition schedule_event ::
    "'a callback \<Rightarrow> addr \<Rightarrow> u32 \<Rightarrow> u32 \<Rightarrow> SMART_DATA \<Rightarrow> nat \<Rightarrow> 'a event_world_scheme \<Rightarrow>
     (int \<times> 'a event_world_scheme) option" where
  "schedule_event cb q type timeout data delayed_event w =
     event_queue_add cb q (INIT_EVENT_ELEMENT_WITH type EVENT_MODE_EVENT_PERIODICAL timeout 0 data 0
       0 delayed_event 0 0) w"

definition schedule_delayed_event_with_type ::
    "'a callback \<Rightarrow> addr \<Rightarrow> u32 \<Rightarrow> u32 \<Rightarrow> nat \<Rightarrow> 'a event_world_scheme \<Rightarrow> (int \<times> 'a event_world_scheme) option" where
  "schedule_delayed_event_with_type cb q timeout type delayed_event w =
     (if event_queue_get_pending_event q w AND type = 0
      then event_queue_add cb q (INIT_EVENT_ELEMENT_WITH type EVENT_MODE_EVENT_PERIODICAL timeout 0 0 0
             0 delayed_event 0 0) w
      else Some (errcode_value MBLUE_OK, w))"

definition schedule_default_event ::
    "'a callback \<Rightarrow> addr \<Rightarrow> u32 \<Rightarrow> nat \<Rightarrow> 'a event_world_scheme \<Rightarrow> (int \<times> 'a event_world_scheme) option" where
  "schedule_default_event cb q timeout delayed_event w =
     schedule_delayed_event_with_type cb q timeout MBLUE_EVENT_DELAYED_EVENT delayed_event w"

definition reschedule_delayed_event_with_type ::
    "nat \<Rightarrow> 'a callback \<Rightarrow> addr \<Rightarrow> u32 \<Rightarrow> u32 \<Rightarrow> nat \<Rightarrow> 'a event_world_scheme \<Rightarrow> (int \<times> 'a event_world_scheme) option" where
  "reschedule_delayed_event_with_type fuel cb q timeout type delayed_event w =
     do {
       w \<leftarrow> (if event_queue_get_pending_event q w AND type \<noteq> 0
            then do { (rc, w) \<leftarrow> event_queue_delete fuel q type w; Some w }
            else Some w);
       schedule_delayed_event_with_type cb q timeout type delayed_event w
     }"

definition cancel_delayed_event :: "nat \<Rightarrow> addr \<Rightarrow> u32 \<Rightarrow> 'a event_world_scheme \<Rightarrow>
    (mblue_errcode \<times> 'a event_world_scheme) option" where
  "cancel_delayed_event fuel q event w =
     (if event_queue_get_pending_event q w AND event \<noteq> 0 then event_queue_delete fuel q event w
      else Some (MBLUE_ERR_INVALID_PARAMETER, w))"

section \<open>The invariant\<close>

lemma event_more:
  assumes "timer_system.more w' = timer_system.more w"
  shows "ew_links w' = ew_links w" "ew_elems w' = ew_elems w" "ew_queues w' = ew_queues w"
  using assms by (cases w, cases w', simp)+

text \<open>The heap blocks an element is responsible for: itself, its payload, its timer's block.\<close>

definition owned :: "'a event_world_scheme \<Rightarrow> addr \<Rightarrow> addr list" where
  "owned w ele =
     (let e = ew_elems w ele; pt = t_obj (ts_pool w (e_tick e))
      in ele # (if PB_PAYLOAD (e_smart_data e) then [unat (e_smart_data e)] else []) @
         (if e_tick e \<noteq> 0 \<and> pt \<noteq> 0 then [pt] else []))"

definition ele_ok :: "'a event_world_scheme \<Rightarrow> addr \<Rightarrow> addr \<Rightarrow> bool" where
  "ele_ok w q ele \<longleftrightarrow>
     (let e = ew_elems w ele; t = e_tick e; pt = t_obj (ts_pool w t)
      in (\<forall>a\<in>set (owned w ele). hblocks (ts_heap w) a \<noteq> None) \<and> e_head e = q \<and> length (e_chain e) = CALL_CHAIN_MAX \<and>
         (t \<noteq> 0 \<longrightarrow> t \<in> timer_objs \<and> (pt \<noteq> 0 \<longrightarrow> timer_bound t pt (ts_posix w pt) w)))"

definition ticks :: "'a event_world_scheme \<Rightarrow> addr list \<Rightarrow> addr list" where
  "ticks w els = filter (\<lambda>t. t \<noteq> 0) (map (\<lambda>ele. e_tick (ew_elems w ele)) els)"

definition eq_struct :: "'a event_world_scheme \<Rightarrow> addr \<Rightarrow> addr list \<Rightarrow> addr list \<Rightarrow> bool" where
  "eq_struct w q els tfree \<longleftrightarrow>
     heap_wf (ts_heap w) \<and> dlist (ew_links w) (queue_list q) (map ele_node els) \<and> timers_hold w tfree \<and>
     distinct (ticks w els @ tfree) \<and> distinct (concat (map (owned w) els)) \<and> (\<forall>ele\<in>set els. ele_ok w q ele)"

definition or_list :: "u32 list \<Rightarrow> u32" where
  "or_list ts = foldr (OR) ts 0"

fun types_disjoint :: "u32 list \<Rightarrow> bool" where
  "types_disjoint [] \<longleftrightarrow> True"
| "types_disjoint (t # ts) \<longleftrightarrow> list_all (\<lambda>t'. t' AND t = 0) ts \<and> types_disjoint ts"

definition types :: "'a event_world_scheme \<Rightarrow> addr list \<Rightarrow> u32 list" where
  "types w els = map (\<lambda>ele. e_type (ew_elems w ele)) els"

definition eq_wf :: "'a event_world_scheme \<Rightarrow> addr \<Rightarrow> addr list \<Rightarrow> addr list \<Rightarrow> bool" where
  "eq_wf w q els tfree \<longleftrightarrow> eq_struct w q els tfree \<and> types_disjoint (types w els) \<and>
     event_bm (ew_queues w q) = or_list (types w els)"

lemma types_disjoint_split:
  "types_disjoint (xs @ t # ys) \<longleftrightarrow> types_disjoint (xs @ ys) \<and> (\<forall>t'\<in>set (xs @ ys). t' AND t = 0)"
  by (induction xs) (auto simp: list_all_iff and.commute)

lemma or_list_append: "or_list (xs @ ys) = or_list xs OR or_list ys"
  by (induction xs) (auto simp: or_list_def or.assoc)

lemma or_list_disjoint: "\<forall>t'\<in>set ts. t' AND t = 0 \<Longrightarrow> or_list ts AND t = 0"
  by (induction ts) (auto simp: or_list_def bit.conj_disj_distrib2)

lemma or_list_remove:
  assumes "types_disjoint (xs @ t # ys)"
  shows "or_list (xs @ t # ys) AND NOT t = or_list (xs @ ys)"
proof -
  have d: "or_list (xs @ ys) AND t = 0"
    using assms by (intro or_list_disjoint) (simp add: types_disjoint_split)
  have "or_list (xs @ t # ys) = or_list (xs @ ys) OR t"
    by (simp add: or_list_append) (simp add: or_list_def ac_simps)
  then have "or_list (xs @ t # ys) AND NOT t = or_list (xs @ ys) AND NOT t"
    by (simp add: bit.conj_disj_distrib2)
  also have "\<dots> = or_list (xs @ ys)"
    using d by (rule and_not_disjoint)
  finally show ?thesis .
qed

text \<open>An element's state depends only on what it owns.\<close>

lemma ele_ok_frame:
  assumes "ele_ok w q ele" and "ew_elems w' ele = ew_elems w ele"
    and "e_tick (ew_elems w ele) \<noteq> 0 \<Longrightarrow>
           ts_pool w' (e_tick (ew_elems w ele)) = ts_pool w (e_tick (ew_elems w ele))"
    and "\<And>a. a \<in> set (owned w ele) \<Longrightarrow> hblocks (ts_heap w') a = hblocks (ts_heap w) a \<and> ts_posix w' a = ts_posix w a"
    and "\<And>i. kt_spec w i \<noteq> None \<Longrightarrow> kt_spec w' i \<noteq> None"
  shows "ele_ok w' q ele" "owned w' ele = owned w ele"
proof -
  show o: "owned w' ele = owned w ele" using assms(2,3) by (auto simp: owned_def Let_def)
  let ?t = "e_tick (ew_elems w ele)" and ?pt = "t_obj (ts_pool w (e_tick (ew_elems w ele)))"
  have "?t \<noteq> 0 \<Longrightarrow> ?pt \<noteq> 0 \<Longrightarrow> ?pt \<in> set (owned w ele)" by (simp add: owned_def Let_def)
  then show "ele_ok w' q ele"
    using assms(1,2,3) assms(4) [of ?pt] assms(4) assms(5) unfolding ele_ok_def Let_def o
    by (auto simp: timer_bound_def)
qed

lemma node_ele_node [simp]: "node_ele (ele_node ele) = ele"
  by (simp add: node_ele_def ele_node_def)

lemma ele_node_inj [simp]: "ele_node a = ele_node b \<longleftrightarrow> a = b"
  by (simp add: ele_node_def)

lemma timers_hold_cong:
  "ts_mlist w' = ts_mlist w \<Longrightarrow> ts_links w' = ts_links w \<Longrightarrow> timers_hold w' tf \<longleftrightarrow> timers_hold w tf"
  by (simp add: timers_hold_def)

lemma timers_hold_objs: "timers_hold w tfree \<Longrightarrow> distinct tfree \<and> set tfree \<subseteq> timer_objs"
  by (auto simp: timers_hold_def timer_objs_def distinct_map inj_on_def timer_addr_def split: if_splits)

section \<open>Releasing an element\<close>

text \<open>The timer of an element is stopped, its second stop (through \<^verbatim>\<open>uninit\<close>) finds nothing, and it
  returns to its pool; only the timer's own block is released.\<close>

lemma release_tick:
  assumes "heap_wf (ts_heap w)" "timers_hold w tfree" "t \<in> timer_objs" "t \<notin> set tfree"
    "t_obj (ts_pool w t) \<noteq> 0 \<Longrightarrow> timer_bound t (t_obj (ts_pool w t)) p w"
  obtains w1 w2 rc where "mblue_timer_stop t w = Some (0, w1)" "mblue_timer_uninit t w1 = Some (rc, w2)"
    "timers_hold (mblue_timer_release t w2) (tfree @ [t])" "heap_wf (ts_heap (mblue_timer_release t w2))"
    "hblocks (ts_heap (mblue_timer_release t w2)) =
       (if t_obj (ts_pool w t) = 0 then hblocks (ts_heap w) else (hblocks (ts_heap w))(t_obj (ts_pool w t) := None))"
    "\<And>t'. t' \<noteq> t \<Longrightarrow> ts_pool (mblue_timer_release t w2) t' = ts_pool w t'"
    "\<And>a. a \<noteq> t_obj (ts_pool w t) \<Longrightarrow> ts_posix (mblue_timer_release t w2) a = ts_posix w a"
    "\<And>i. kt_spec w i \<noteq> None \<Longrightarrow> kt_spec (mblue_timer_release t w2) i \<noteq> None"
    "timer_system.more (mblue_timer_release t w2) = timer_system.more w"
proof (cases "t_obj (ts_pool w t) = 0")
  case True
  note u = timer_unbound [OF True]
  show thesis
  proof (rule that)
    show "mblue_timer_stop t w = Some (0, w)" "mblue_timer_uninit t w = Some (-1, w)"
      by (simp_all add: mblue_timer_stop_def mblue_timer_uninit_def platform_timer_uninit_def u)
    show "timers_hold (mblue_timer_release t w) (tfree @ [t])"
      using assms by (intro timer_release_last)
  qed (use True assms(1) in \<open>simp_all add: mblue_timer_release_frame\<close>)
next
  case False
  obtain s' where s: "platform_timer_stop t w = Some (0, s')" "t_obj (ts_pool s' t) = 0"
    "heap_wf (ts_heap s')" "hblocks (ts_heap s') = (hblocks (ts_heap w))(t_obj (ts_pool w t) := None)"
    "kt_spec s' = (kt_spec w)(pt_id p \<mapsto> zero_spec)" "ts_links s' = ts_links w" "ts_mlist s' = ts_mlist w"
    "ts_pool s' = (ts_pool w)(t := (ts_pool w t)\<lparr>t_obj := 0\<rparr>)"
    "\<And>a. a \<noteq> t_obj (ts_pool w t) \<Longrightarrow> ts_posix s' a = ts_posix w a" "timer_system.more s' = timer_system.more w"
    by (rule timer_stop_bound [OF assms(5) [OF False] assms(1)]) blast
  note u = timer_unbound [OF s(2)]
  have h: "timers_hold s' tfree" using assms(2) s(6,7) by (simp add: timers_hold_def)
  show thesis
  proof (rule that)
    show "mblue_timer_stop t w = Some (0, s')" by (simp add: mblue_timer_stop_def s(1))
    show "mblue_timer_uninit t s' = Some (-1, s')"
      by (simp add: mblue_timer_uninit_def platform_timer_uninit_def u)
    show "timers_hold (mblue_timer_release t s') (tfree @ [t])"
      using h assms(3,4) by (intro timer_release_last)
  qed (use False s in \<open>simp_all add: mblue_timer_release_frame\<close>)
qed

text \<open>The two parts of \<^verbatim>\<open>__free_event_element\<close>: the timer, then the payload, the list node and the
  element itself.\<close>

definition tick_block :: "'a event_world_scheme \<Rightarrow> addr \<Rightarrow> addr set" where
  "tick_block w ele =
     (let t = e_tick (ew_elems w ele); pt = t_obj (ts_pool w t) in if t \<noteq> 0 \<and> pt \<noteq> 0 then {pt} else {})"

definition payload_block :: "'a event_world_scheme \<Rightarrow> addr \<Rightarrow> addr set" where
  "payload_block w ele =
     (let d = e_smart_data (ew_elems w ele) in if PB_PAYLOAD d then {unat d} else {})"

lemma set_owned: "set (owned w ele) = insert ele (payload_block w ele \<union> tick_block w ele)"
  by (auto simp: owned_def payload_block_def tick_block_def Let_def)

lemma free_tick:
  assumes "heap_wf (ts_heap w)" "timers_hold w tfree" "ele_ok w q ele" "e_tick (ew_elems w ele) \<notin> set tfree"
  defines "t \<equiv> e_tick (ew_elems w ele)"
  obtains w1 where "(if t \<noteq> 0 then do { (rc, w) \<leftarrow> mblue_timer_stop t w; (rc, w) \<leftarrow> mblue_timer_uninit t w;
              Some (mblue_timer_release t w) } else Some w) = Some w1"
    "timers_hold w1 (tfree @ (if t \<noteq> 0 then [t] else []))" "heap_wf (ts_heap w1)"
    "hblocks (ts_heap w1) = hblocks (ts_heap w) |` (- tick_block w ele)"
    "\<And>t'. t' \<noteq> t \<Longrightarrow> ts_pool w1 t' = ts_pool w t'"
    "\<And>a. a \<notin> tick_block w ele \<Longrightarrow> ts_posix w1 a = ts_posix w a"
    "\<And>i. kt_spec w i \<noteq> None \<Longrightarrow> kt_spec w1 i \<noteq> None" "timer_system.more w1 = timer_system.more w"
proof (cases "t = 0")
  case True
  show thesis
    by (rule that [of w]) (use True assms in \<open>simp_all add: tick_block_def Let_def restrict_map_def\<close>)
next
  case False
  let ?pt = "t_obj (ts_pool w t)"
  have ok: "t \<in> timer_objs" "?pt \<noteq> 0 \<Longrightarrow> timer_bound t ?pt (ts_posix w ?pt) w"
    using assms(3) False by (auto simp: ele_ok_def t_def Let_def)
  have tb: "tick_block w ele = (if ?pt = 0 then {} else {?pt})"
    using False by (simp add: tick_block_def t_def [symmetric] Let_def)
  obtain w1 w2 rc where r: "mblue_timer_stop t w = Some (0, w1)" "mblue_timer_uninit t w1 = Some (rc, w2)"
    "timers_hold (mblue_timer_release t w2) (tfree @ [t])" "heap_wf (ts_heap (mblue_timer_release t w2))"
    "hblocks (ts_heap (mblue_timer_release t w2)) = (if ?pt = 0 then hblocks (ts_heap w) else (hblocks (ts_heap w))(?pt := None))"
    "\<And>t'. t' \<noteq> t \<Longrightarrow> ts_pool (mblue_timer_release t w2) t' = ts_pool w t'"
    "\<And>a. a \<noteq> ?pt \<Longrightarrow> ts_posix (mblue_timer_release t w2) a = ts_posix w a"
    "\<And>i. kt_spec w i \<noteq> None \<Longrightarrow> kt_spec (mblue_timer_release t w2) i \<noteq> None"
    "timer_system.more (mblue_timer_release t w2) = timer_system.more w"
    by (rule release_tick [OF assms(1,2) ok(1) assms(4) [folded t_def] ok(2)]) blast+
  have p: "ts_posix (mblue_timer_release t w2) a = ts_posix w a" if "a \<notin> tick_block w ele" for a
  proof (cases "a = ?pt")
    case True
    with that tb have "?pt = 0" by (auto split: if_splits)
    from timer_unbound(1) [OF this] r(1,2) show ?thesis
      by (auto simp: mblue_timer_stop_def mblue_timer_uninit_def platform_timer_uninit_def mblue_timer_release_frame)
  qed (simp add: r(7))
  show thesis
    by (rule that [of "mblue_timer_release t w2"])
      (use False r p tb in \<open>simp_all add: restrict_map_def fun_eq_iff\<close>)
qed

lemma free_event_element_spec:
  assumes "eq_struct w q (xs @ ele # ys) tfree"
  defines "t \<equiv> e_tick (ew_elems w ele)"
  obtains w' where "free_event_element ele w = Some w'"
    "eq_struct w' q (xs @ ys) (tfree @ (if t \<noteq> 0 then [t] else []))"
    "ew_queues w' = ew_queues w" "ew_elems w' = ew_elems w"
    "hblocks (ts_heap w') = hblocks (ts_heap w) |` (- set (owned w ele))"
proof -
  have st: "heap_wf (ts_heap w)" "dlist (ew_links w) (queue_list q) (map ele_node (xs @ ele # ys))"
    "timers_hold w tfree" "distinct (ticks w (xs @ ele # ys) @ tfree)"
    "distinct (concat (map (owned w) (xs @ ele # ys)))" "\<And>e. e \<in> set (xs @ ele # ys) \<Longrightarrow> ele_ok w q e"
    using assms(1) by (auto simp: eq_struct_def)
  have tfr: "t \<notin> set tfree"
  proof (cases "t = 0")
    case True
    then show ?thesis using tpool.null_no_object st(3) timers_hold_objs [of w tfree] by auto
  next
    case False
    then show ?thesis using st(4) by (auto simp: ticks_def t_def)
  qed
  have ok: "ele_ok w q ele" using st(6) [of ele] by simp
  have own_d: "distinct (owned w ele)" and live: "\<And>a. a \<in> set (owned w ele) \<Longrightarrow> hblocks (ts_heap w) a \<noteq> None"
    using st(5) st(6) [of ele] by (auto simp: ele_ok_def Let_def)
  obtain w1 where w1: "(if t \<noteq> 0 then do { (rc, w) \<leftarrow> mblue_timer_stop t w; (rc, w) \<leftarrow> mblue_timer_uninit t w;
              Some (mblue_timer_release t w) } else Some w) = Some w1"
    "timers_hold w1 (tfree @ (if t \<noteq> 0 then [t] else []))" "heap_wf (ts_heap w1)"
    "hblocks (ts_heap w1) = hblocks (ts_heap w) |` (- tick_block w ele)"
    "\<And>t'. t' \<noteq> t \<Longrightarrow> ts_pool w1 t' = ts_pool w t'"
    "\<And>a. a \<notin> tick_block w ele \<Longrightarrow> ts_posix w1 a = ts_posix w a"
    "\<And>i. kt_spec w i \<noteq> None \<Longrightarrow> kt_spec w1 i \<noteq> None" "timer_system.more w1 = timer_system.more w"
    by (rule free_tick [OF st(1,3) ok tfr [unfolded t_def], folded t_def]) blast
  note more = event_more [OF w1(8)]
  have disj: "ele \<notin> tick_block w ele" "ele \<notin> payload_block w ele" "payload_block w ele \<inter> tick_block w ele = {}"
    using own_d by (auto simp: owned_def tick_block_def payload_block_def Let_def split: if_splits)
  let ?d = "e_smart_data (ew_elems w ele)"
  obtain hp2 where hp2: "(if ?d \<noteq> 0 \<and> PB_PAYLOAD ?d then mblue_free (unat ?d) (ts_heap w1) else Some (ts_heap w1)) = Some hp2"
    "heap_wf hp2" "hblocks hp2 = hblocks (ts_heap w1) |` (- payload_block w ele)"
  proof (cases "PB_PAYLOAD ?d")
    case True
    then have p: "payload_block w ele = {unat ?d}" "?d \<noteq> 0" by (auto simp: payload_block_def PB_PAYLOAD_def)
    with disj live [of "unat ?d"] w1(4) obtain bs where "hblocks (ts_heap w1) (unat ?d) = Some bs"
      by (auto simp: set_owned)
    from mheap.free_live [OF w1(3) this] True p that show thesis
      by (auto simp: restrict_map_def fun_eq_iff)
  next
    case False
    then show thesis using that w1(3) by (simp add: payload_block_def restrict_map_def)
  qed
  have "hblocks hp2 ele \<noteq> None"
    using hp2(3) w1(4) disj live [of ele] by (auto simp: set_owned restrict_map_def)
  with mheap.free_live [OF hp2(2), of ele] obtain hp3 where hp3: "mblue_free ele hp2 = Some hp3"
    "heap_wf hp3" "hblocks hp3 = (hblocks hp2)(ele := None)" by blast
  define w' where "w' = w1\<lparr>ts_heap := hp3, ew_links := list_del (ele_node ele) (ew_links w)\<rparr>"
  have le: "live_ele ele w = Some (ew_elems w ele)" using live [of ele] by (simp add: live_ele_def set_owned)
  have free: "free_event_element ele w = Some w'"
    unfolding free_event_element_def le Option.bind_lunit t_def [symmetric] w1(1)
    using hp2(1) hp3(1) by (auto simp: w'_def more split: if_splits)
  have blocks: "hblocks (ts_heap w') = hblocks (ts_heap w) |` (- set (owned w ele))"
    by (auto simp: w'_def hp3(3) hp2(3) w1(4) set_owned restrict_map_def fun_eq_iff)
  have fields: "ew_queues w' = ew_queues w" "ew_elems w' = ew_elems w" "heap_wf (ts_heap w')"
    "ew_links w' = list_del (ele_node ele) (ew_links w)" "ts_pool w' = ts_pool w1" "ts_posix w' = ts_posix w1"
    "kt_spec w' = kt_spec w1"
    using hp3(2) by (simp_all add: w'_def more)
  have th: "timers_hold w' (tfree @ (if t \<noteq> 0 then [t] else []))"
    using w1(2) by (rule timers_hold_cong [THEN iffD2, rotated 2]) (simp_all add: w'_def)
  have keep: "ele_ok w' q e \<and> owned w' e = owned w e" if e: "e \<in> set (xs @ ys)" for e
  proof -
    have dis: "set (owned w e) \<inter> set (owned w ele) = {}" using st(5) e by auto
    have "t \<noteq> 0 \<Longrightarrow> t \<notin> (\<lambda>e. e_tick (ew_elems w e)) ` set (xs @ ys)"
      using st(4) by (simp add: ticks_def t_def image_Un)
    with e have ne: "e_tick (ew_elems w e) \<noteq> t" if "e_tick (ew_elems w e) \<noteq> 0"
      using that by (metis image_eqI)
    have e': "e \<in> set (xs @ ele # ys)" using e by auto
    have fr: "ew_elems w' e = ew_elems w e"
      "e_tick (ew_elems w e) \<noteq> 0 \<Longrightarrow> ts_pool w' (e_tick (ew_elems w e)) = ts_pool w (e_tick (ew_elems w e))"
      "\<And>a. a \<in> set (owned w e) \<Longrightarrow> hblocks (ts_heap w') a = hblocks (ts_heap w) a \<and> ts_posix w' a = ts_posix w a"
      "\<And>i. kt_spec w i \<noteq> None \<Longrightarrow> kt_spec w' i \<noteq> None"
      using dis ne w1(5,6,7) by (auto simp: blocks fields restrict_map_def set_owned [of w ele])
    show ?thesis using ele_ok_frame [OF st(6) [OF e'] fr] by blast
  qed
  have "dlist (ew_links w') (queue_list q) (map ele_node (xs @ ys))"
    using st(2) dlist_list_del by (simp add: fields)
  moreover have "distinct (ticks w' (xs @ ys) @ tfree @ (if t \<noteq> 0 then [t] else []))"
  proof -
    have "ticks w (xs @ ele # ys) = ticks w xs @ (if t \<noteq> 0 then [t] else []) @ ticks w ys"
      "ticks w' (xs @ ys) = ticks w xs @ ticks w ys" by (simp_all add: ticks_def t_def fields)
    with st(4) show ?thesis by auto
  qed
  moreover have "map (owned w') (xs @ ys) = map (owned w) (xs @ ys)" using keep by auto
  then have "distinct (concat (map (owned w') (xs @ ys)))" using st(5) by (simp only:) auto
  ultimately have "eq_struct w' q (xs @ ys) (tfree @ (if t \<noteq> 0 then [t] else []))"
    using keep th by (simp add: eq_struct_def fields)
  with free blocks fields that show thesis by blast
qed

section \<open>Deleting by type\<close>

text \<open>Changing the bitmap leaves the structure alone.\<close>

lemma set_bm_simps [simp]:
  "event_bm (ew_queues (set_bm q v w) q) = v" "ew_elems (set_bm q v w) = ew_elems w"
  "ew_links (set_bm q v w) = ew_links w" "ts_heap (set_bm q v w) = ts_heap w"
  "ts_pool (set_bm q v w) = ts_pool w" "ts_posix (set_bm q v w) = ts_posix w"
  "kt_spec (set_bm q v w) = kt_spec w" "ts_links (set_bm q v w) = ts_links w" "ts_mlist (set_bm q v w) = ts_mlist w"
  by (simp_all add: set_bm_def)

lemma struct_parts_set_bm [simp]:
  "owned (set_bm q v w) = owned w" "ele_ok (set_bm q v w) = ele_ok w"
  "ticks (set_bm q v w) els = ticks w els" "timers_hold (set_bm q v w) tfree = timers_hold w tfree"
proof -
  show "owned (set_bm q v w) = owned w" by (simp add: fun_eq_iff owned_def)
  then show "ele_ok (set_bm q v w) = ele_ok w" by (simp add: fun_eq_iff ele_ok_def timer_bound_def)
qed (simp_all add: ticks_def timers_hold_def)

lemma eq_struct_set_bm [simp]: "eq_struct (set_bm q v w) q' els tfree \<longleftrightarrow> eq_struct w q' els tfree"
  by (simp add: eq_struct_def)

lemma eq_struct_dlist: "eq_struct w q els tf \<Longrightarrow> dlist (ew_links w) (queue_list q) (map ele_node els)"
  by (simp add: eq_struct_def)

lemma eq_struct_live: "eq_struct w q els tf \<Longrightarrow> ele \<in> set els \<Longrightarrow> live_ele ele w = Some (ew_elems w ele)"
  by (auto simp: eq_struct_def ele_ok_def Let_def live_ele_def set_owned)

lemma eq_wf_bm_type:
  assumes "eq_wf w q (xs @ ele # ys) tf" "eq_struct w' q (xs @ ys) tf'"
    "ew_queues w' = ew_queues (set_bm q (event_bm (ew_queues w q) AND NOT (e_type (ew_elems w ele))) w)"
    "ew_elems w' = ew_elems w"
  shows "eq_wf w' q (xs @ ys) tf'"
  using assms or_list_remove [of "types w xs" "e_type (ew_elems w ele)" "types w ys"]
  by (auto simp: eq_wf_def types_def types_disjoint_split)

lemma remove_element:
  assumes "eq_wf w q (xs @ ele # ys) tf"
  obtains w' tf' where
    "free_event_element ele (set_bm q (event_bm (ew_queues w q) AND NOT (e_type (ew_elems w ele))) w) = Some w'"
    "eq_wf w' q (xs @ ys) tf'" "ew_elems w' = ew_elems w"
    "hblocks (ts_heap w') = hblocks (ts_heap w) |` (- set (owned w ele))"
proof -
  let ?w = "set_bm q (event_bm (ew_queues w q) AND NOT (e_type (ew_elems w ele))) w"
  have st: "eq_struct ?w q (xs @ ele # ys) tf" using assms by (simp add: eq_wf_def)
  have ow: "owned ?w ele = owned w ele" by (simp add: owned_def)
  obtain w' where w': "free_event_element ele ?w = Some w'"
    "eq_struct w' q (xs @ ys) (tf @ (if e_tick (ew_elems ?w ele) \<noteq> 0 then [e_tick (ew_elems ?w ele)] else []))"
    "ew_queues w' = ew_queues ?w" "ew_elems w' = ew_elems ?w"
    "hblocks (ts_heap w') = hblocks (ts_heap ?w) |` (- set (owned ?w ele))"
    by (rule free_event_element_spec [OF st])
  show thesis
    by (rule that [OF w'(1) eq_wf_bm_type [OF assms w'(2,3)]]) (use w'(4,5) ow in simp_all)
qed

definition first_node :: "addr \<Rightarrow> addr list \<Rightarrow> addr" where
  "first_node q els = (case els of [] \<Rightarrow> queue_list q | ele # _ \<Rightarrow> ele_node ele)"

lemma dlist_ele_next:
  assumes "dlist h (queue_list q) (map ele_node (xs @ ele # ys))"
  shows "lnext h (ele_node ele) = first_node q ys" "ele_node ele \<noteq> queue_list q"
proof -
  show "lnext h (ele_node ele) = first_node q ys"
    using dlist_neighbours(2) [of h "queue_list q" "map ele_node xs" "ele_node ele" "map ele_node ys"] assms
    by (auto simp: first_node_def split: list.splits)
  show "ele_node ele \<noteq> queue_list q" using ml.holds_distinct [OF assms] by auto
qed

lemma dlist_ele_first: "dlist h (queue_list q) (map ele_node els) \<Longrightarrow> lnext h (queue_list q) = first_node q els"
  by (auto simp: dlist_next first_node_def split: list.splits)

text \<open>The loop with the elements \<open>xs\<close> behind it and \<open>ys\<close> before it.\<close>

lemma delete_loop_spec:
  assumes "eq_wf w q (xs @ ys) tf" "length ys < fuel" "ys \<noteq> [] \<Longrightarrow> n = first_node q (tl ys)"
  shows "\<exists>w' tf'. delete_loop fuel q type (first_node q ys) n ret w =
      Some (if type \<in> set (types w ys) then MBLUE_OK else ret, w') \<and>
      eq_wf w' q (xs @ filter (\<lambda>e. e_type (ew_elems w e) \<noteq> type) ys) tf' \<and> ew_elems w' = ew_elems w"
  using assms
proof (induction fuel arbitrary: w xs ys tf n ret)
  case (Suc fuel)
  note st = Suc.prems(1) [unfolded eq_wf_def, THEN conjunct1]
  show ?case
  proof (cases ys)
    case Nil
    with Suc.prems show ?thesis by (auto simp: first_node_def types_def)
  next
    case (Cons ele zs)
    note d = eq_struct_dlist [OF st, unfolded Cons]
    have n: "n = first_node q zs" "first_node q ys = ele_node ele"
      using Suc.prems(3) Cons by (simp_all add: first_node_def)
    have live: "live_ele ele w = Some (ew_elems w ele)"
      using eq_struct_live [OF st] Cons by simp
    have nxt: "zs \<noteq> [] \<Longrightarrow> lnext (ew_links v) n = first_node q (tl zs)"
      if "eq_struct v q (us @ zs) tfv" for v us tfv
      using dlist_ele_next(1) [of "ew_links v" q us "hd zs" "tl zs"] eq_struct_dlist [OF that] n(1)
      by (cases zs) (auto simp: first_node_def)
    show ?thesis
    proof (cases "e_type (ew_elems w ele) = type")
      case False
      have wf: "eq_wf w q ((xs @ [ele]) @ zs) tf" using Suc.prems(1) Cons by simp
      have "delete_loop (Suc fuel) q type (first_node q ys) n ret w
          = delete_loop fuel q type (first_node q zs) (lnext (ew_links w) n) ret w"
        using False dlist_ele_next(2) [OF d] by (simp add: n live)
      with Suc.IH [OF wf, of "lnext (ew_links w) n" ret] nxt [of w "xs @ [ele]" tf] st Cons Suc.prems(2) False
      show ?thesis by (auto simp: types_def)
    next
      case True
      obtain w1 tf1 where w1:
        "free_event_element ele (set_bm q (event_bm (ew_queues w q) AND NOT (e_type (ew_elems w ele))) w) = Some w1"
        "eq_wf w1 q (xs @ zs) tf1" "ew_elems w1 = ew_elems w"
        by (rule remove_element [OF Suc.prems(1) [unfolded Cons]])
      have "delete_loop (Suc fuel) q type (first_node q ys) n ret w
          = delete_loop fuel q type (first_node q zs) (lnext (ew_links w1) n) MBLUE_OK w1"
        using True w1(1) dlist_ele_next(2) [OF d] by (simp add: n live)
      with Suc.IH [OF w1(2), of "lnext (ew_links w1) n" MBLUE_OK] nxt [of w1 xs tf1] w1(2,3) Cons Suc.prems(2) True
      show ?thesis by (auto simp: types_def eq_wf_def)
    qed
  qed
qed simp

lemma event_queue_delete_spec:
  assumes "eq_wf w q els tf" "length els < fuel"
  shows "\<exists>w' tf'. event_queue_delete fuel q type w =
      Some (if type \<in> set (types w els) then MBLUE_OK else MBLUE_ERR_UNKNOWN, w') \<and>
      eq_wf w' q (filter (\<lambda>e. e_type (ew_elems w e) \<noteq> type) els) tf' \<and> ew_elems w' = ew_elems w"
proof -
  have d: "dlist (ew_links w) (queue_list q) (map ele_node els)"
    using assms(1) by (auto simp: eq_wf_def dest: eq_struct_dlist)
  have n: "lnext (ew_links w) (first_node q els) = first_node q (tl els)" if "els \<noteq> []"
    using dlist_ele_next(1) [of "ew_links w" q "[]" "hd els" "tl els"] d that
    by (cases els) (auto simp: first_node_def)
  show ?thesis
    using delete_loop_spec [of w q "[]" els tf fuel "lnext (ew_links w) (first_node q els)" type MBLUE_ERR_UNKNOWN]
      assms n by (simp add: event_queue_delete_def Let_def dlist_ele_first [OF d])
qed

section \<open>Adding an event\<close>

text \<open>A platform that grants every request: the heap never refuses, the kernel always has a timer.\<close>

definition grants :: "'a timer_system_scheme \<Rightarrow> bool" where
  "grants w \<longleftrightarrow> (\<forall>k. \<not> hfail (ts_heap w) k) \<and> (\<forall>k. \<not> kt_fail w k)"

definition element_ok :: "'a event_world_scheme \<Rightarrow> addr list \<Rightarrow> event_queue_element \<Rightarrow> bool" where
  "element_ok w els e \<longleftrightarrow> e_tick e = 0 \<and> length (e_chain e) = CALL_CHAIN_MAX \<and>
     (PB_PAYLOAD (e_smart_data e) \<longrightarrow> hblocks (ts_heap w) (unat (e_smart_data e)) \<noteq> None \<and>
        unat (e_smart_data e) \<notin> set (concat (map (owned w) els)))"

lemma ticks_append:
  "ticks w (els @ [ele]) = ticks w els @ (if e_tick (ew_elems w ele) \<noteq> 0 then [e_tick (ew_elems w ele)] else [])"
  by (simp add: ticks_def)

lemma or_list_disjoint_iff: "or_list ts AND t = 0 \<longleftrightarrow> (\<forall>t'\<in>set ts. t' AND t = 0)"
proof
  show "or_list ts AND t = 0 \<Longrightarrow> \<forall>t'\<in>set ts. t' AND t = 0"
    by (induction ts) (auto simp: or_list_def bit.conj_disj_distrib2 or_eq_0_iff)
qed (rule or_list_disjoint)

text \<open>Linking a fresh block into the queue.\<close>

definition link_element :: "addr \<Rightarrow> event_queue_element \<Rightarrow> addr \<Rightarrow> 'a event_world_scheme \<Rightarrow> 'a event_world_scheme" where
  "link_element q element ele w =
     (let w = w\<lparr>ew_elems := (ew_elems w)(ele := element\<lparr>e_head := q\<rparr>)\<rparr>;
          w = set_bm q (event_bm (ew_queues w q) OR e_type element) w
      in w\<lparr>ew_links := list_add_tail (ele_node ele) (queue_list q) (ew_links w)\<rparr>)"

lemma link_element_wf:
  assumes wf: "eq_wf w q els tf" and e: "element_ok w els element"
    and bm: "event_bm (ew_queues w q) AND e_type element = 0"
    and hp: "heap_wf hp" "hblocks (ts_heap w) ele = None" "hblocks hp = (hblocks (ts_heap w))(ele \<mapsto> bs)"
    and node: "ele_node ele \<noteq> queue_list q"
  defines "w' \<equiv> link_element q element ele (w\<lparr>ts_heap := hp\<rparr>)"
  shows "eq_wf w' q (els @ [ele]) tf" "ele \<notin> set els"
proof -
  have st: "eq_struct w q els tf" using wf by (simp add: eq_wf_def)
  have own_live: "hblocks (ts_heap w) a \<noteq> None" if "x \<in> set els" "a \<in> set (owned w x)" for a x
    using st that by (auto simp: eq_struct_def ele_ok_def Let_def)
  have fresh: "ele \<notin> set (owned w x)" if "x \<in> set els" for x
    using own_live [OF that, of ele] hp(2) by blast
  show new: "ele \<notin> set els" using fresh by (auto simp: set_owned)
  have fl: "ew_elems w' = (ew_elems w)(ele := element\<lparr>e_head := q\<rparr>)" "ts_heap w' = hp" "ts_pool w' = ts_pool w"
    "ts_posix w' = ts_posix w" "kt_spec w' = kt_spec w" "ts_mlist w' = ts_mlist w" "ts_links w' = ts_links w"
    "event_bm (ew_queues w' q) = event_bm (ew_queues w q) OR e_type element"
    "ew_links w' = list_add_tail (ele_node ele) (queue_list q) (ew_links w)"
    by (simp_all add: w'_def link_element_def Let_def)
  have keep: "ele_ok w' q x \<and> owned w' x = owned w x" if x: "x \<in> set els" for x
  proof -
    have "ele_ok w q x" using st x by (simp add: eq_struct_def)
    moreover have "x \<noteq> ele" using new x by blast
    moreover have "hblocks hp a = hblocks (ts_heap w) a" if "a \<in> set (owned w x)" for a
      using that fresh [OF x] hp(3) by auto
    ultimately show ?thesis
      using ele_ok_frame [of w q x w'] by (simp add: fl)
  qed
  have own: "owned w' ele = ele # (if PB_PAYLOAD (e_smart_data element) then [unat (e_smart_data element)] else [])"
    using e by (simp add: owned_def fl element_ok_def)
  have mo: "map (owned w') els = map (owned w) els" using keep by auto
  have pl: "PB_PAYLOAD (e_smart_data element) \<Longrightarrow> unat (e_smart_data element) \<noteq> ele"
    using e hp(2) by (auto simp: element_ok_def)
  have "dlist (ew_links w') (queue_list q) (map ele_node els @ [ele_node ele])"
    unfolding fl using eq_struct_dlist [OF st] new node by (intro ml.holds_append) (auto simp: ele_node_def)
  moreover have "timers_hold w' tf" using st timers_hold_cong [of w' w tf] by (simp add: eq_struct_def fl)
  moreover have "map (\<lambda>x. e_tick (ew_elems w' x)) els = map (\<lambda>x. e_tick (ew_elems w x)) els"
    using new by (auto simp: fl)
  then have "ticks w' els = ticks w els" unfolding ticks_def by (simp only:)
  then have "ticks w' (els @ [ele]) = ticks w els"
    using e by (simp add: ticks_append fl element_ok_def)
  moreover have "concat (map (owned w') (els @ [ele])) = concat (map (owned w) els) @ owned w' ele"
    unfolding map_append concat_append mo by simp
  then have "distinct (concat (map (owned w') (els @ [ele])))"
    using st fresh e pl by (auto simp: eq_struct_def own element_ok_def)
  moreover have "ele_ok w' q ele"
    using e hp(3) by (auto simp: ele_ok_def Let_def own element_ok_def fl)
  ultimately have "eq_struct w' q (els @ [ele]) tf"
    using st keep hp(1) by (auto simp: eq_struct_def fl(2))
  moreover have ty: "types w' (els @ [ele]) = types w els @ [e_type element]"
    using new by (auto simp: types_def fl)
  moreover have "types_disjoint (types w els @ [e_type element])"
    using wf bm by (simp add: eq_wf_def types_disjoint_split or_list_disjoint_iff)
  ultimately show "eq_wf w' q (els @ [ele]) tf"
    using wf by (simp add: eq_wf_def fl(8) or_list_append) (simp add: or_list_def)
qed

text \<open>The kernel's timer behind a timer object, and its setting.\<close>

definition kernel_timer :: "addr \<Rightarrow> 'a timer_system_scheme \<Rightarrow> nat" where
  "kernel_timer t s = pt_id (ts_posix s (t_obj (ts_pool s t)))"

definition kernel_setting :: "addr \<Rightarrow> 'a timer_system_scheme \<Rightarrow> itimerspec option" where
  "kernel_setting t s = kt_spec s (kernel_timer t s)"

text \<open>Giving the last element a timer.\<close>

definition attach_timer :: "addr \<Rightarrow> event_queue_element \<Rightarrow> addr \<Rightarrow> 'a event_world_scheme \<Rightarrow> 'a event_world_scheme option" where
  "attach_timer q element ele w =
     (let (timer, w) = mblue_timer_get w
      in if timer = 0 then None
         else do {
           (rc, w) \<leftarrow> mblue_timer_init timer (q_timer_function (ew_queues w q)) (e_period element)
                        (e_mode element \<noteq> 0) ele w;
           (rc, w) \<leftarrow> mblue_timer_start timer w;
           Some (w\<lparr>ew_elems := (ew_elems w)(ele := (ew_elems w ele)\<lparr>e_tick := timer\<rparr>)\<rparr>)
         })"

lemma attach_timer_struct:
  assumes st: "eq_struct w q (els @ [ele]) (t # tf)" and tick: "e_tick (ew_elems w ele) = 0" and g: "grants w"
  obtains w' where "attach_timer q element ele w = Some w'" "eq_struct w' q (els @ [ele]) tf"
    "ew_queues w' = ew_queues w" "ew_elems w' = (ew_elems w)(ele := (ew_elems w ele)\<lparr>e_tick := t\<rparr>)"
    "mblue_timer_alive t w' = Some (e_period element \<noteq> 0)"
    "timer_notify t w' = Some (Some (q_timer_function (ew_queues w q), ele))"
    "kernel_setting t w' = Some (period_spec (e_period element) (e_mode element \<noteq> 0))"
    "event_world.more w' = event_world.more w" "hfail (ts_heap w') = hfail (ts_heap w)" "hnext (ts_heap w') = hnext (ts_heap w) + 3"
proof -
  let ?nf = "q_timer_function (ew_queues w q)" and ?spec = "period_spec (e_period element) (e_mode element \<noteq> 0)"
  have parts: "heap_wf (ts_heap w)" "dlist (ew_links w) (queue_list q) (map ele_node (els @ [ele]))"
    "timers_hold w (t # tf)" "distinct (ticks w (els @ [ele]) @ t # tf)"
    "distinct (concat (map (owned w) (els @ [ele])))" "\<And>x. x \<in> set (els @ [ele]) \<Longrightarrow> ele_ok w q x"
    using st by (auto simp: eq_struct_def)
  have tobj: "t \<in> timer_objs" "t \<noteq> 0"
    using timers_hold_objs [OF parts(3)] timer_objs_facts [of t] by auto
  from timer_get_first [OF parts(3)] obtain w1 where w1: "mblue_timer_get w = (t, w1)" "timers_hold w1 tf"
    "ts_pool w1 = (ts_pool w)(t := zero_timer)" by blast
  note f1 = mblue_timer_get_frame [OF w1(1)] and e1 = event_more [OF mblue_timer_get_frame(6) [OF w1(1)]]
  have hg: "heap_wf (ts_heap w1)" "\<not> kt_fail w1 (kt_next w1)" "\<not> hfail (ts_heap w1) (hcalls (ts_heap w1))"
    using g parts(1) by (simp_all add: grants_def f1)
  let ?p = "\<lparr>pt_id = kt_next w1, pt_spec = ?spec, pt_notify = ?nf, pt_param = ele\<rparr>"
  obtain pt w2 bs where w2: "mblue_timer_init t ?nf (e_period element) (e_mode element \<noteq> 0) ele w1 = Some (0, w2)"
    "timer_bound t pt ?p w2" "heap_wf (ts_heap w2)" "hblocks (ts_heap w1) pt = None"
    "hblocks (ts_heap w2) = (hblocks (ts_heap w1))(pt \<mapsto> bs)" "kt_spec w2 = (kt_spec w1)(kt_next w1 \<mapsto> zero_spec)"
    "ts_pool w2 = (ts_pool w1)(t := (ts_pool w1 t)\<lparr>t_obj := pt\<rparr>)" "ts_links w2 = ts_links w1" "ts_mlist w2 = ts_mlist w1"
    "\<And>a. a \<noteq> pt \<Longrightarrow> ts_posix w2 a = ts_posix w1 a" "timer_system.more w2 = timer_system.more w1"
    "hfail (ts_heap w2) = hfail (ts_heap w1)" "hnext (ts_heap w2) = hnext (ts_heap w1) + 3"
    by (rule mblue_timer_init_granted [OF tobj(2) hg, of ?nf "e_period element" "e_mode element \<noteq> 0" ele]) blast
  note e2 = event_more [OF w2(11)]
  define w3 where "w3 = w2\<lparr>kt_spec := (kt_spec w2)(kt_next w1 \<mapsto> ?spec)\<rparr>"
  have start: "mblue_timer_start t w2 = Some (0, w3)"
    using timer_start_bound [OF w2(2)] by (simp add: mblue_timer_start_def w3_def)
  define w' where "w' = w3\<lparr>ew_elems := (ew_elems w3)(ele := (ew_elems w3 ele)\<lparr>e_tick := t\<rparr>)\<rparr>"
  have at: "attach_timer q element ele w = Some w'"
    using tobj(2) by (simp add: attach_timer_def w1(1) e1 w2(1) start w'_def)
  have fl: "ew_elems w' = (ew_elems w)(ele := (ew_elems w ele)\<lparr>e_tick := t\<rparr>)" "ew_queues w' = ew_queues w"
    "ew_links w' = ew_links w" "ts_pool w' = (ts_pool w)(t := zero_timer\<lparr>t_obj := pt\<rparr>)"
    "hblocks (ts_heap w') = (hblocks (ts_heap w))(pt \<mapsto> bs)" "heap_wf (ts_heap w')"
    "kt_spec w' = (kt_spec w)(kt_next w1 \<mapsto> ?spec)" "\<And>a. a \<noteq> pt \<Longrightarrow> ts_posix w' a = ts_posix w a"
    "hfail (ts_heap w') = hfail (ts_heap w)" "hnext (ts_heap w') = hnext (ts_heap w) + 3"
    using w2 by (simp_all add: w'_def w3_def e2 e1 w1 f1)
  have bound: "timer_bound t pt ?p w'" using w2(2) by (auto simp: timer_bound_def w'_def w3_def)
  have alive: "mblue_timer_alive t w' = Some (e_period element \<noteq> 0)"
    using timer_alive_bound [OF bound, of ?spec] period_spec_armed by (simp add: fl(7))
  have notify: "timer_notify t w' = Some (Some (?nf, ele))"
    using bound by (auto simp: timer_bound_def timer_notify_def live_posix_def)
  have setting: "kernel_setting t w' = Some ?spec"
    using bound by (simp add: timer_bound_def kernel_setting_def kernel_timer_def fl(7))
  have more: "event_world.more w' = event_world.more w"
    using w2(11) f1(6) by (cases w, cases w1, cases w2) (simp add: w'_def w3_def)
  have fresh: "pt \<notin> set (owned w x)" if "x \<in> set (els @ [ele])" for x
    using parts(6) [OF that] w2(4) by (auto simp: ele_ok_def Let_def f1)
  have ne: "ele \<notin> set els" using parts(5) by (auto simp: set_owned)
  have tk: "ticks w (els @ [ele]) = ticks w els" using tick by (simp add: ticks_def)
  have keep: "ele_ok w' q x \<and> owned w' x = owned w x" if x: "x \<in> set els" for x
  proof -
    have "e_tick (ew_elems w x) \<noteq> t" if "e_tick (ew_elems w x) \<noteq> 0"
    proof -
      have "e_tick (ew_elems w x) \<in> set (ticks w els)" using x that by (auto simp: ticks_def)
      with parts(4) tk show ?thesis by auto
    qed
    moreover have "a \<noteq> pt" if "a \<in> set (owned w x)" for a using that fresh [of x] x by auto
    moreover have "x \<noteq> ele" using ne x by blast
    moreover have "ele_ok w q x" using parts(6) x by simp
    ultimately show ?thesis using ele_ok_frame [of w q x w'] by (simp add: fl)
  qed
  have own: "owned w' ele = owned w ele @ [pt]"
    using tick bound by (simp add: owned_def fl timer_bound_def tobj)
  have "ele_ok w' q ele"
    using parts(6) [of ele] bound tobj by (auto simp: ele_ok_def Let_def own fl timer_bound_def)
  moreover have "map (owned w') els = map (owned w) els" using keep by auto
  then have "concat (map (owned w') (els @ [ele])) = concat (map (owned w) (els @ [ele])) @ [pt]"
    by (simp only: map_append concat_append) (simp add: own)
  then have "distinct (concat (map (owned w') (els @ [ele])))"
    using parts(5) fresh by auto
  moreover have "map (\<lambda>x. e_tick (ew_elems w' x)) els = map (\<lambda>x. e_tick (ew_elems w x)) els"
    using ne by (auto simp: fl)
  then have "ticks w' els = ticks w els" unfolding ticks_def by (simp only:)
  then have "ticks w' (els @ [ele]) = ticks w els @ [t]" using tobj(2) by (simp add: ticks_append fl)
  moreover have "timers_hold w' tf"
    using w1(2) by (rule timers_hold_cong [THEN iffD2, rotated 2]) (simp_all add: w'_def w3_def w2)
  ultimately have "eq_struct w' q (els @ [ele]) tf"
    using keep parts(2,4) fl(6) tk by (simp add: eq_struct_def fl(3))
  with at fl alive notify setting more that show thesis by blast
qed

lemma event_queue_add_spec:
  assumes wf: "eq_wf w q els tf" and e: "element_ok w els element" and g: "grants w" and q: "q mod 16 = 0"
    and bm: "event_bm (ew_queues w q) AND e_type element = 0"
  defines "timed \<equiv> e_period element \<noteq> 0 \<and> e_period element \<noteq> EVENT_TIMEOUT_FOREVER"
  assumes timers: "timed \<Longrightarrow> tf \<noteq> []"
  obtains ele w' where
    "event_queue_add cb q element w =
       Some (if e_chain element ! 0 \<noteq> 0 then cb (e_chain element ! 0) ele q w' else (0, w'))"
    "eq_wf w' q (els @ [ele]) (if timed then tl tf else tf)" "ele \<notin> set els" "hblocks (ts_heap w) ele = None"
    "ew_elems w' = (ew_elems w)(ele := element\<lparr>e_head := q, e_tick := if timed then hd tf else 0\<rparr>)"
    "event_bm (ew_queues w' q) = event_bm (ew_queues w q) OR e_type element"
    "timed \<Longrightarrow> mblue_timer_alive (hd tf) w' = Some True"
    "ele = 16 * Suc (hnext (ts_heap w))" "event_world.more w' = event_world.more w"
    "ew_queues w' = (ew_queues w)(q := (ew_queues w q)\<lparr>event_bm := event_bm (ew_queues w q) OR e_type element\<rparr>)"
    "timed \<Longrightarrow> timer_notify (hd tf) w' = Some (Some (q_timer_function (ew_queues w q), ele))"
    "timed \<Longrightarrow> kernel_setting (hd tf) w' = Some (period_spec (e_period element) (e_mode element \<noteq> 0))"
    "hfail (ts_heap w') = hfail (ts_heap w)" "hnext (ts_heap w') = hnext (ts_heap w) + (if timed then 8 else 5)"
proof -
  have lim: "unat sizeof_event_queue_element \<le> 2 ^ 32 - 16" by (simp add: sizeof_event_queue_element_def)
  have hw: "heap_wf (ts_heap w)" using wf by (simp add: eq_wf_def eq_struct_def)
  let ?ele = "16 * Suc (hnext (ts_heap w))"
  have nf: "\<not> hfail (ts_heap w) (hcalls (ts_heap w))" using g by (simp add: grants_def)
  obtain hp where hp: "mblue_malloc sizeof_event_queue_element (ts_heap w) = Some (?ele, hp)" "hfail hp = hfail (ts_heap w)"
    "hnext hp = hnext (ts_heap w) + 5"
    using mblue_malloc_granted [OF nf lim] by (simp add: sizeof_event_queue_element_def)
  note w1 = mheap.malloc_wf [OF hw lim hp(1)]
  have nz: "?ele \<noteq> 0" by simp
  obtain bs where bs: "hblocks (ts_heap w) ?ele = None" "hblocks hp = (hblocks (ts_heap w))(?ele \<mapsto> bs)"
    using mheap.malloc_block [OF hw lim hp(1) nz] by blast
  have node: "ele_node ?ele \<noteq> queue_list q"
  proof
    assume "ele_node ?ele = queue_list q"
    then have "q = 56 + 16 * hnext (ts_heap w)" by (simp add: ele_node_def queue_list_def)
    with q show False by presburger
  qed
  define v where "v = link_element q element ?ele (w\<lparr>ts_heap := hp\<rparr>)"
  have v: "eq_wf v q (els @ [?ele]) tf" "?ele \<notin> set els"
    using link_element_wf [OF wf e bm w1 bs node] by (simp_all add: v_def)
  have vf: "ew_elems v = (ew_elems w)(?ele := element\<lparr>e_head := q\<rparr>)" "grants v"
    "event_bm (ew_queues v q) = event_bm (ew_queues w q) OR e_type element"
    "ew_queues v = (ew_queues w)(q := (ew_queues w q)\<lparr>event_bm := event_bm (ew_queues w q) OR e_type element\<rparr>)"
    "event_world.more v = event_world.more w" "ts_heap v = hp"
    using g hp(2) by (simp_all add: v_def link_element_def Let_def grants_def) (simp_all add: set_bm_def)
  have tick0: "e_tick element = 0" using e by (simp add: element_ok_def)
  have same: "element\<lparr>e_head := q, e_tick := 0\<rparr> = element\<lparr>e_head := q\<rparr>"
    using tick0 by (cases element) simp
  have st0: "chain_index CALL_START = 0" by simp
  have add: "event_queue_add cb q element w = do { w \<leftarrow> (if timed then attach_timer q element ?ele v else Some v);
       if e_chain (ew_elems w ?ele) ! 0 \<noteq> 0 then Some (cb (e_chain (ew_elems w ?ele) ! 0) ?ele q w) else Some (0, w) }"
    unfolding event_queue_add_def using bm hp(1)
    by (simp add: Let_def timed_def attach_timer_def v_def link_element_def st0 case_prod_beta
        cong: if_cong option.case_cong)
  show thesis
  proof (cases timed)
    case False
    show thesis
      by (rule that [of ?ele v]) (use False add v vf bs same hp(2,3) in simp_all)
  next
    case True
    with timers obtain t tf' where tf: "tf = t # tf'" by (cases tf) auto
    have st: "eq_struct v q (els @ [?ele]) (t # tf')" using v(1) tf by (simp add: eq_wf_def)
    have tick: "e_tick (ew_elems v ?ele) = 0" using tick0 by (simp add: vf(1))
    obtain w' where w': "attach_timer q element ?ele v = Some w'" "eq_struct w' q (els @ [?ele]) tf'"
      "ew_queues w' = ew_queues v" "ew_elems w' = (ew_elems v)(?ele := (ew_elems v ?ele)\<lparr>e_tick := t\<rparr>)"
      "mblue_timer_alive t w' = Some (e_period element \<noteq> 0)"
      "timer_notify t w' = Some (Some (q_timer_function (ew_queues v q), ?ele))"
      "kernel_setting t w' = Some (period_spec (e_period element) (e_mode element \<noteq> 0))"
      "event_world.more w' = event_world.more v" "hfail (ts_heap w') = hfail (ts_heap v)" "hnext (ts_heap w') = hnext (ts_heap v) + 3"
      by (rule attach_timer_struct [OF st tick vf(2), of element])
    have ty: "types w' (els @ [?ele]) = types v (els @ [?ele])"
      by (simp add: types_def w'(4))
    have wf': "eq_wf w' q (els @ [?ele]) tf'"
      using v(1) w'(2) unfolding eq_wf_def ty w'(3) by simp
    show thesis
      by (rule that [of ?ele w'])
        (use True add v wf' vf bs w' tf hp(2,3) in \<open>simp_all add: timed_def\<close>)
  qed
qed


lemma event_queue_add_nomem:
  assumes "event_bm (ew_queues w q) AND e_type element = 0" "hfail (ts_heap w) (hcalls (ts_heap w))"
  shows "event_queue_add cb q element w =
    Some (errcode_value MBLUE_ERR_NOMEM, w\<lparr>ts_heap := (ts_heap w)\<lparr>hcalls := Suc (hcalls (ts_heap w))\<rparr>\<rparr>)"
  using assms by (simp add: event_queue_add_def mblue_malloc_refused)

lemma event_queue_init_wf:
  assumes "heap_wf (ts_heap w)" "timers_hold w tf"
  shows "eq_wf (snd (event_queue_init q c w)) q [] tf"
proof -
  have "dlist (INIT_LIST_HEAD (queue_list q) h) (queue_list q) []" for h
    by (rule ml.holds_init) (simp add: queue_list_def)
  with assms show ?thesis
    by (simp add: event_queue_init_def Let_def eq_wf_def eq_struct_def ticks_def types_def or_list_def
        set_bm_def timers_hold_def timers_hold_objs)
qed

section \<open>Finding and waking an event\<close>

lemma get_element_loop_spec:
  assumes "eq_struct w q (xs @ ys) tf" "length ys < fuel"
  shows "get_element_loop fuel q type (first_node q ys) w =
    Some (case find (\<lambda>e. e_type (ew_elems w e) = type) ys of None \<Rightarrow> 0 | Some e \<Rightarrow> e)"
  using assms
proof (induction fuel arbitrary: xs ys)
  case (Suc fuel)
  show ?case
  proof (cases ys)
    case Nil
    then show ?thesis by (simp add: first_node_def)
  next
    case (Cons ele zs)
    note d = eq_struct_dlist [OF Suc.prems(1), unfolded Cons]
    have live: "live_ele ele w = Some (ew_elems w ele)"
      using eq_struct_live [OF Suc.prems(1)] Cons by simp
    have f: "first_node q (ele # zs) = ele_node ele" by (simp add: first_node_def)
    have "eq_struct w q ((xs @ [ele]) @ zs) tf" using Suc.prems(1) Cons by simp
    from Suc.IH [OF this] Suc.prems(2) Cons dlist_ele_next [OF d] show ?thesis by (simp add: f live)
  qed
qed simp

lemma event_queue_get_element_spec:
  assumes "eq_struct w q els tf" "length els < fuel"
  shows "event_queue_get_element fuel q type w =
    Some (case find (\<lambda>e. e_type (ew_elems w e) = type) els of None \<Rightarrow> 0 | Some e \<Rightarrow> e)"
  using get_element_loop_spec [of w q "[]" els tf fuel type] assms
  by (simp add: event_queue_get_element_def dlist_ele_first [OF eq_struct_dlist])

lemma wakeup_loop_spec:
  assumes "eq_struct w q (xs @ ys) tf" "length ys < fuel"
  shows "wakeup_loop fuel cb q type param (first_node q ys) w =
    (case find (\<lambda>e. e_type (ew_elems w e) = type) ys of None \<Rightarrow> Some w | Some e \<Rightarrow> wakeup_element cb q e param w)"
  using assms
proof (induction fuel arbitrary: xs ys)
  case (Suc fuel)
  show ?case
  proof (cases ys)
    case Nil
    then show ?thesis by (simp add: first_node_def)
  next
    case (Cons ele zs)
    note d = eq_struct_dlist [OF Suc.prems(1), unfolded Cons]
    have live: "live_ele ele w = Some (ew_elems w ele)"
      using eq_struct_live [OF Suc.prems(1)] Cons by simp
    have f: "first_node q (ele # zs) = ele_node ele" by (simp add: first_node_def)
    have "eq_struct w q ((xs @ [ele]) @ zs) tf" using Suc.prems(1) Cons by simp
    from Suc.IH [OF this] Suc.prems(2) Cons dlist_ele_next [OF d] show ?thesis by (simp add: f live)
  qed
qed simp

lemma find_element:
  assumes "find P xs = Some e"
  obtains ys zs where "xs = ys @ e # zs" "P e"
  using assms by (auto simp: find_Some_iff split_list_first dest: split_list) (metis id_take_nth_drop)

text \<open>What the queue needs of its users' callbacks: they keep the queue well formed, do not remove
  the element they are called for, and return an error code or an index of the call chain.\<close>

definition callback_ok :: "'a callback \<Rightarrow> addr \<Rightarrow> nat \<Rightarrow> addr \<Rightarrow> bool" where
  "callback_ok cb q param ele \<longleftrightarrow>
     (\<forall>f w els tf. eq_wf w q els tf \<longrightarrow> ele \<in> set els \<longrightarrow>
        fst (cb f ele param w) < int CALL_CHAIN_MAX \<and>
        (\<exists>els' tf'. eq_wf (snd (cb f ele param w)) q els' tf' \<and> ele \<in> set els'))"

lemma callback_okD:
  assumes "callback_ok cb q param ele" "eq_wf w q els tf" "ele \<in> set els" "cb f ele param w = (ret, w')"
  obtains els' tf' where "ret < int CALL_CHAIN_MAX" "eq_wf w' q els' tf'" "ele \<in> set els'"
  using assms(1) [unfolded callback_ok_def, rule_format, OF assms(2,3), of f] assms(4) by auto

lemma chain_at_wf:
  assumes "eq_wf w q els tf" "ele \<in> set els" "i < CALL_CHAIN_MAX"
  shows "live_ele ele w = Some (ew_elems w ele)" "chain_at (ew_elems w ele) i = Some (e_chain (ew_elems w ele) ! i)"
  using assms eq_struct_live [of w q els tf ele]
  by (auto simp: eq_wf_def eq_struct_def ele_ok_def Let_def chain_at_def)

lemma finish_element:
  assumes "eq_wf w q els tf" "ele \<in> set els"
  shows "\<exists>w' els' tf'. element_exit q ele ret w = Some w' \<and>
    eq_wf w' q els' tf' \<and> (ret = errcode_value MBLUE_ELEMENT_EXIT \<longrightarrow> els' = remove1 ele els \<and>
      hblocks (ts_heap w') = hblocks (ts_heap w) |` (- set (owned w ele)))"
proof (cases "ret = errcode_value MBLUE_ELEMENT_EXIT")
  case True
  obtain xs ys where sp: "els = xs @ ele # ys" "ele \<notin> set xs" using split_list_first [OF assms(2)] by blast
  obtain w' tf' where w':
    "free_event_element ele (set_bm q (event_bm (ew_queues w q) AND NOT (e_type (ew_elems w ele))) w) = Some w'"
    "eq_wf w' q (xs @ ys) tf'" "hblocks (ts_heap w') = hblocks (ts_heap w) |` (- set (owned w ele))"
    by (rule remove_element [OF assms(1) [unfolded sp(1)]])
  have "live_ele ele w = Some (ew_elems w ele)"
    using chain_at_wf(1) [OF assms, of 0] by (simp add: CALL_CHAIN_MAX_def)
  then show ?thesis using True w' sp by (auto simp: remove1_append element_exit_def)
next
  case False
  with assms show ?thesis by (auto simp: element_exit_def)
qed

lemma wakeup_element_safe:
  assumes wf: "eq_wf w q els tf" "ele \<in> set els" and ok: "callback_ok cb q param ele"
  shows "\<exists>w' els' tf'. wakeup_element cb q ele param w = Some w' \<and> eq_wf w' q els' tf'"
proof -
  define e where "e = ew_elems w ele"
  have ch: "chain_at e (chain_index c) = Some (e_chain e ! chain_index c)" "live_ele ele w = Some e" for c
    using chain_at_wf [OF wf, of "chain_index c"] by (cases c; simp add: CALL_CHAIN_MAX_def e_def)+
  let ?wk = "e_chain e ! chain_index CALL_WAKEUP" and ?fi = "e_chain e ! chain_index CALL_FINISH"
    and ?ca = "e_chain e ! chain_index CALL_CANCEL"
  have fin_ok: "\<exists>w' els' tf'. element_exit q ele ret v = Some w' \<and> eq_wf w' q els' tf'"
    if "eq_wf v q els' tf'" "ele \<in> set els'" for ret v els' tf'
    using finish_element [OF that, of ret] by blast
  have call: "\<exists>w' els' tf'. (let (ret, v) = cb f ele param v in element_exit q ele ret v) = Some w' \<and> eq_wf w' q els' tf'"
    if v: "eq_wf v q els' tf'" "ele \<in> set els'" for f v els' tf'
  proof -
    obtain ret v1 where c: "cb f ele param v = (ret, v1)" by fastforce
    obtain els1 tf1 where "eq_wf v1 q els1 tf1" "ele \<in> set els1" by (rule callback_okD [OF ok v c])
    from fin_ok [OF this] show ?thesis by (simp add: c)
  qed
  note eq = wakeup_element_def ch Option.bind_lunit
  show ?thesis
  proof (cases "?wk \<noteq> 0")
    case True
    obtain ret v where c: "cb ?wk ele param w = (ret, v)" by fastforce
    obtain els1 tf1 where v: "ret < int CALL_CHAIN_MAX" "eq_wf v q els1 tf1" "ele \<in> set els1"
      by (rule callback_okD [OF ok wf c])
    show ?thesis
    proof (cases "ret > 0")
      case True
      then have "nat ret < CALL_CHAIN_MAX" using v(1) by simp
      note l = chain_at_wf [OF v(2,3) this]
      have "wakeup_element cb q ele param w =
          (if e_chain (ew_elems v ele) ! nat ret \<noteq> 0
           then let (ret, v) = cb (e_chain (ew_elems v ele) ! nat ret) ele param v in element_exit q ele ret v
           else element_exit q ele ret v)"
        unfolding eq using \<open>?wk \<noteq> 0\<close> c True l by simp
      with call [OF v(2,3)] fin_ok [OF v(2,3)] show ?thesis by (simp only: simp_thms split: if_split)
    next
      case False
      with \<open>?wk \<noteq> 0\<close> c have "wakeup_element cb q ele param w = (if ret = 0 then Some v else element_exit q ele ret v)"
        unfolding eq by simp
      with fin_ok [OF v(2,3), of ret] v(2) show ?thesis by (simp only: split: if_split) blast
    qed
  next
    case False
    then have "wakeup_element cb q ele param w =
        (if ?fi \<noteq> 0 then let (ret, v) = cb ?fi ele param w in element_exit q ele ret v
         else if ?ca \<noteq> 0 then let (ret, v) = cb ?ca ele param w in element_exit q ele ret v
         else element_exit q ele (errcode_value MBLUE_ELEMENT_EXIT) w)"
      unfolding eq by simp
    with call [OF wf] fin_ok [OF wf] show ?thesis by (simp only: simp_thms split: if_split)
  qed
qed

lemma event_queue_wakeup_safe:
  assumes wf: "eq_wf w q els tf" and fuel: "length els < fuel" and ok: "\<And>ele. ele \<in> set els \<Longrightarrow> callback_ok cb q param ele"
  shows "\<exists>w' els' tf'. event_queue_wakeup fuel cb q type param w =
      Some (if event_bm (ew_queues w q) AND type = 0 then MBLUE_ERR_UNKNOWN else MBLUE_OK, w') \<and> eq_wf w' q els' tf'"
proof (cases "event_bm (ew_queues w q) AND type = 0")
  case True
  with wf show ?thesis by (auto simp: event_queue_wakeup_def)
next
  case False
  have st: "eq_struct w q els tf" using wf by (simp add: eq_wf_def)
  have l: "wakeup_loop fuel cb q type param (lnext (ew_links w) (queue_list q)) w =
      (case find (\<lambda>e. e_type (ew_elems w e) = type) els of None \<Rightarrow> Some w | Some e \<Rightarrow> wakeup_element cb q e param w)"
    using wakeup_loop_spec [of w q "[]" els tf fuel] st fuel
    by (simp add: dlist_ele_first [OF eq_struct_dlist [OF st]])
  show ?thesis
  proof (cases "find (\<lambda>e. e_type (ew_elems w e) = type) els")
    case None
    with False wf show ?thesis by (auto simp: event_queue_wakeup_def l)
  next
    case (Some ele)
    then have e: "ele \<in> set els" by (auto simp: find_Some_iff)
    obtain w' els' tf' where "wakeup_element cb q ele param w = Some w'" "eq_wf w' q els' tf'"
      using wakeup_element_safe [OF wf e ok [OF e]] by blast
    with False Some show ?thesis by (auto simp: event_queue_wakeup_def l)
  qed
qed

text \<open>The common life of a pending event: it has only a finish callback; waking it calls the callback
  once and, when the callback is done with it, removes it with everything it owns.\<close>

lemma event_queue_wakeup_finish:
  assumes wf: "eq_wf w q els tf" and fuel: "length els < fuel" and e: "ele \<in> set els"
    and ty: "type = e_type (ew_elems w ele)" "type \<noteq> 0"
    and chain: "e_chain (ew_elems w ele) = [st, 0, ca, fi]" "fi \<noteq> 0"
    and cb: "cb fi ele param w = (errcode_value MBLUE_ELEMENT_EXIT, w)"
  shows "\<exists>w' tf'. event_queue_wakeup fuel cb q type param w = Some (MBLUE_OK, w') \<and>
    eq_wf w' q (remove1 ele els) tf' \<and> hblocks (ts_heap w') = hblocks (ts_heap w) |` (- set (owned w ele))"
proof -
  have st: "eq_struct w q els tf" using wf by (simp add: eq_wf_def)
  have d: "types_disjoint (types w els)" using wf by (simp add: eq_wf_def)
  have uniq: "x = ele" if x: "x \<in> set els" "e_type (ew_elems w x) = type" for x
  proof (rule ccontr)
    assume "x \<noteq> ele"
    obtain xs ys where sp: "els = xs @ ele # ys" using split_list [OF e] by blast
    with x \<open>x \<noteq> ele\<close> have "e_type (ew_elems w x) \<in> set (types w xs @ types w ys)" by (auto simp: types_def)
    moreover have "types_disjoint (types w xs @ type # types w ys)" using d sp ty(1) by (simp add: types_def)
    ultimately have "e_type (ew_elems w x) AND type = 0" unfolding types_disjoint_split by blast
    with x ty(2) show False by simp
  qed
  have fnd: "find (\<lambda>e. e_type (ew_elems w e) = type) els = Some ele"
  proof (cases "find (\<lambda>e. e_type (ew_elems w e) = type) els")
    case None
    with e ty show ?thesis by (auto simp: find_None_iff)
  next
    case (Some x)
    then have "x \<in> set els" "e_type (ew_elems w x) = type" by (auto simp: find_Some_iff)
    with uniq Some show ?thesis by simp
  qed
  have bm: "event_bm (ew_queues w q) AND type \<noteq> 0"
  proof -
    have "type \<in> set (types w els)" using e ty(1) by (auto simp: types_def)
    with ty(2) have "\<not> (\<forall>t'\<in>set (types w els). t' AND type = 0)" by (metis and.idem)
    with wf show ?thesis by (simp add: eq_wf_def or_list_disjoint_iff)
  qed
  have l: "wakeup_loop fuel cb q type param (lnext (ew_links w) (queue_list q)) w = wakeup_element cb q ele param w"
    using wakeup_loop_spec [of w q "[]" els tf fuel] st fuel fnd
    by (simp add: dlist_ele_first [OF eq_struct_dlist [OF st]])
  have live: "live_ele ele w = Some (ew_elems w ele)" using eq_struct_live [OF st e] .
  have "wakeup_element cb q ele param w = element_exit q ele (errcode_value MBLUE_ELEMENT_EXIT) w"
    using cb chain by (simp add: wakeup_element_def live chain_at_def)
  with finish_element [OF wf e, of "errcode_value MBLUE_ELEMENT_EXIT"] bm show ?thesis
    by (auto simp: event_queue_wakeup_def l)
qed

section \<open>Properties\<close>

text \<open>C15 (event\_delete): deleting an event type from a well-formed queue ends after one pass and never touches a released block;
  it answers \<^verbatim>\<open>MBLUE_OK\<close> exactly when an element of that type was pending, removes exactly the elements of
  that type, and the bitmap is again the union of the remaining types.\<close>

theorem event_delete:
  assumes "eq_wf w q els tf" and "length els < fuel"
  shows "\<exists>w' tf'. event_queue_delete fuel q type w =
      Some (if type \<in> set (types w els) then MBLUE_OK else MBLUE_ERR_UNKNOWN, w') \<and>
      eq_wf w' q (filter (\<lambda>e. e_type (ew_elems w e) \<noteq> type) els) tf' \<and>
      event_bm (ew_queues w' q) = or_list (types w (filter (\<lambda>e. e_type (ew_elems w e) \<noteq> type) els))"
proof -
  obtain w' tf' where "event_queue_delete fuel q type w =
      Some (if type \<in> set (types w els) then MBLUE_OK else MBLUE_ERR_UNKNOWN, w')"
    "eq_wf w' q (filter (\<lambda>e. e_type (ew_elems w e) \<noteq> type) els) tf'" "ew_elems w' = ew_elems w"
    using event_queue_delete_spec [OF assms] by blast
  then show ?thesis by (auto simp: eq_wf_def types_def)
qed

text \<open>A queue with no events on a fresh platform.\<close>

definition zero_element :: event_queue_element where
  "zero_element = INIT_EVENT_ELEMENT_WITH 0 0 0 0 0 0 0 0 0 0"

definition fresh_events :: event_world where
  "fresh_events = timer_system.extend fresh_timers
     \<lparr>ew_links = \<lparr>lnext = (\<lambda>_. 0), lprev = (\<lambda>_. 0)\<rparr>, ew_elems = (\<lambda>_. zero_element),
      ew_queues = (\<lambda>_. \<lparr>event_bm = 0, q_context = 0, q_timer_function = 99\<rparr>)\<rparr>"

definition empty_queue :: event_world where
  "empty_queue = snd (event_queue_init 0x8000 7 fresh_events)"

lemma empty_queue_wf: "eq_wf empty_queue 0x8000 [] (map timer_addr [0..<12])"
  unfolding empty_queue_def
  by (rule event_queue_init_wf)
    (simp_all add: fresh_events_def fresh_timers_def timer_system.extend_def timers_hold_def MAX_TIMER_NUM_def)

lemma empty_queue_facts: "grants empty_queue" "event_bm (ew_queues empty_queue 0x8000) = 0"
  by (simp_all add: empty_queue_def event_queue_init_def Let_def grants_def fresh_events_def fresh_timers_def
      timer_system.extend_def fresh_heap_def set_bm_def)

text \<open>The queue with one pending event of type 4, a timeout of 100 ms and a finish callback.\<close>

definition pending_element :: event_queue_element where
  "pending_element = INIT_EVENT_ELEMENT_WITH 4 EVENT_MODE_PENDING_EVENT 100 0 0 0 0 0 0 55"

lemma one_event:
  obtains ele and w' :: event_world where "eq_wf w' 0x8000 [ele] (map timer_addr [1..<12])"
    "ew_elems w' ele = pending_element\<lparr>e_head := 0x8000, e_tick := timer_addr 0\<rparr>"
proof -
  have e: "element_ok empty_queue [] pending_element"
    by (simp add: element_ok_def pending_element_def INIT_EVENT_ELEMENT_WITH_def CALL_CHAIN_MAX_def PB_PAYLOAD_def)
  have t: "e_period pending_element \<noteq> 0 \<and> e_period pending_element \<noteq> EVENT_TIMEOUT_FOREVER"
    by (simp add: pending_element_def INIT_EVENT_ELEMENT_WITH_def EVENT_TIMEOUT_FOREVER_def)
  obtain ele and w' :: event_world where "eq_wf w' 0x8000 ([] @ [ele]) (if True then tl (map timer_addr [0..<12]) else map timer_addr [0..<12])"
    "ew_elems w' = (ew_elems empty_queue)(ele := pending_element\<lparr>e_head := 0x8000, e_tick := if True then hd (map timer_addr [0..<12]) else 0\<rparr>)"
    by (rule event_queue_add_spec [OF empty_queue_wf e empty_queue_facts(1), where cb = "\<lambda>f e p w. (0, w)"])
      (use t empty_queue_facts in simp_all)
  then have "eq_wf w' 0x8000 [ele] (map timer_addr [1..<12])"
    "ew_elems w' ele = pending_element\<lparr>e_head := 0x8000, e_tick := timer_addr 0\<rparr>"
    by (simp_all add: upt_conv_Cons [of 0 12])
  then show thesis by (rule that)
qed

theorem event_delete_witness:
  "\<exists>(w :: event_world) ele tf w' tf'. eq_wf w 0x8000 [ele] tf \<and> event_queue_delete 2 0x8000 4 w =
      Some (if 4 \<in> set (types w [ele]) then MBLUE_OK else MBLUE_ERR_UNKNOWN, w') \<and>
      eq_wf w' 0x8000 (filter (\<lambda>e. e_type (ew_elems w e) \<noteq> 4) [ele]) tf' \<and>
      event_bm (ew_queues w' 0x8000) = or_list (types w (filter (\<lambda>e. e_type (ew_elems w e) \<noteq> 4) [ele]))"
proof -
  obtain ele and w' :: event_world where w: "eq_wf w' 0x8000 [ele] (map timer_addr [1..<12])" by (rule one_event) blast
  have "length [ele] < 2" by simp
  from event_delete [OF w this, of 4] w show ?thesis by blast
qed



text \<open>C17 (event\_wakeup\_safe): waking a type on a well-formed queue ends after one pass, never touches a released block and never
  indexes the call chain out of range, whatever the callbacks do as long as they keep the queue well
  formed, do not remove the element they run for and answer an error code or a chain index; the queue
  is well formed afterwards, and the answer tells whether the type was pending.\<close>

theorem event_wakeup_safe:
  assumes "eq_wf w q els tf" and "length els < fuel" and "\<And>ele. ele \<in> set els \<Longrightarrow> callback_ok cb q param ele"
  shows "\<exists>w' els' tf'. event_queue_wakeup fuel cb q type param w =
      Some (if event_bm (ew_queues w q) AND type = 0 then MBLUE_ERR_UNKNOWN else MBLUE_OK, w') \<and> eq_wf w' q els' tf'"
  using assms by (rule event_queue_wakeup_safe)

lemma inert_callback: "callback_ok (\<lambda>f e p w. (errcode_value MBLUE_ELEMENT_EXIT, w)) q param ele"
  by (auto simp: callback_ok_def CALL_CHAIN_MAX_def)

theorem event_wakeup_safe_witness:
  "\<exists>(w :: event_world) ele tf w' els' tf'. eq_wf w 0x8000 [ele] tf \<and>
    event_queue_wakeup 2 (\<lambda>f e p w. (errcode_value MBLUE_ELEMENT_EXIT, w)) 0x8000 4 0 w =
      Some (if event_bm (ew_queues w 0x8000) AND 4 = 0 then MBLUE_ERR_UNKNOWN else MBLUE_OK, w') \<and> eq_wf w' 0x8000 els' tf'"
proof -
  obtain ele and w' :: event_world where w: "eq_wf w' 0x8000 [ele] (map timer_addr [1..<12])" by (rule one_event) blast
  have "length [ele] < 2" by simp
  from event_wakeup_safe [OF w this inert_callback] w show ?thesis by blast
qed

text \<open>Waking a pending event that has a finish callback and no wake-up callback calls that callback; when it
  answers \<^verbatim>\<open>MBLUE_ELEMENT_EXIT\<close> the element leaves the queue and exactly the blocks it owns, itself, its
  payload and its timer's block, are given back.\<close>

lemma event_finish:
  assumes "eq_wf w q els tf" and "length els < fuel" and "ele \<in> set els"
    and "type = e_type (ew_elems w ele)" "type \<noteq> 0"
    and "e_chain (ew_elems w ele) = [st, 0, ca, fi]" "fi \<noteq> 0"
    and "cb fi ele param w = (errcode_value MBLUE_ELEMENT_EXIT, w)"
  shows "\<exists>w' tf'. event_queue_wakeup fuel cb q type param w = Some (MBLUE_OK, w') \<and>
    eq_wf w' q (remove1 ele els) tf' \<and> hblocks (ts_heap w') = hblocks (ts_heap w) |` (- set (owned w ele))"
  using assms by (rule event_queue_wakeup_finish)

lemma event_finish_example:
  "\<exists>(w :: event_world) ele w' tf'.
    event_queue_wakeup 2 (\<lambda>f e p w. (errcode_value MBLUE_ELEMENT_EXIT, w)) 0x8000 4 0 w = Some (MBLUE_OK, w') \<and>
    eq_wf w' 0x8000 (remove1 ele [ele]) tf' \<and> hblocks (ts_heap w') = hblocks (ts_heap w) |` (- set (owned w ele))"
proof -
  obtain ele and w' :: event_world where w: "eq_wf w' 0x8000 [ele] (map timer_addr [1..<12])"
    "ew_elems w' ele = pending_element\<lparr>e_head := 0x8000, e_tick := timer_addr 0\<rparr>" by (rule one_event)
  have c: "4 = e_type (ew_elems w' ele)" "e_chain (ew_elems w' ele) = [0, 0, 0, 55]"
    by (simp_all add: w(2) pending_element_def INIT_EVENT_ELEMENT_WITH_def)
  have "\<exists>w'' tf'. event_queue_wakeup 2 (\<lambda>f e p w. (errcode_value MBLUE_ELEMENT_EXIT, w)) 0x8000 4 0 w' = Some (MBLUE_OK, w'') \<and>
    eq_wf w'' 0x8000 (remove1 ele [ele]) tf' \<and> hblocks (ts_heap w'') = hblocks (ts_heap w') |` (- set (owned w' ele))"
    by (rule event_finish [where fi = 55 and st = 0 and ca = 0 and tf = "map timer_addr [1..<12]"])
      (use w(1) c in simp_all)
  then show ?thesis by blast
qed

end
