(* ===== verification/State_Machine.thy ===== *)
theory State_Machine
  imports Pal_Heap
begin

text \<open>
  The hierarchical state machine of \<^verbatim>\<open>middleware/components/state_machine/state_machine.c\<close> and the
  wrapper of \<^verbatim>\<open>mblue_state_machine.c\<close>. States and transitions are tables the user builds: a store
  from addresses to states, each with its array of transitions (\<open>None\<close> for a null pointer). Guards
  are user code without effect on the machine: a parameter \<open>G\<close>. Actions are user code too: the
  machine's effect is which actions it calls, with which arguments and in which order, so a step
  returns that list of calls. The two loops of the code, up the parents and down the entry states,
  may run forever on cyclic tables; they are partial functions, \<open>None\<close> is not returning (or leaving
  the tables).
\<close>

section \<open>Tables\<close>

record event =
  ev_type :: int
  ev_data :: nat

record transition =
  eventType :: int
  condition :: nat
  guard :: nat
  action :: nat
  nextState :: nat

definition TRANSITION_END :: transition where
  "TRANSITION_END = \<lparr>eventType = 0, condition = 0, guard = 0, action = 0, nextState = 0\<rparr>"

record state =
  parent :: nat
  entry_state :: nat
  transitions :: "transition list option"
  numTransitions :: nat
  st_data :: nat
  entry_action :: nat
  exit_action :: nat

record state_machine =
  currentState :: nat
  previousState :: nat
  errorState :: nat

datatype action_call = Exit_Action nat nat event | Transition_Action nat nat event nat | Entry_Action nat nat event

datatype stateM_handleEventRetVals = stateM_errArg | stateM_errorStateReached | stateM_stateChanged
  | stateM_stateLoopSelf | stateM_noStateChange | stateM_finalStateReached

primrec ret_value :: "stateM_handleEventRetVals \<Rightarrow> int" where
  "ret_value stateM_errArg = -2"
| "ret_value stateM_errorStateReached = -1"
| "ret_value stateM_stateChanged = 0"
| "ret_value stateM_stateLoopSelf = 1"
| "ret_value stateM_noStateChange = 2"
| "ret_value stateM_finalStateReached = 3"

type_synonym states = "nat \<Rightarrow> state option"
type_synonym guards = "nat \<Rightarrow> nat \<Rightarrow> event \<Rightarrow> bool"

section \<open>The machine\<close>

text \<open>A null machine or event pointer is the outer \<open>None\<close> of these arguments.\<close>

definition stateM_init :: "state_machine option \<Rightarrow> nat \<Rightarrow> nat \<Rightarrow> state_machine option" where
  "stateM_init fsm initialState errorState' =
     (case fsm of None \<Rightarrow> None
      | Some m \<Rightarrow> Some (m\<lparr>currentState := initialState, previousState := 0, errorState := errorState'\<rparr>))"

definition stateM_currentState :: "state_machine option \<Rightarrow> nat" where
  "stateM_currentState fsm = (case fsm of None \<Rightarrow> 0 | Some m \<Rightarrow> currentState m)"

definition stateM_previousState :: "state_machine option \<Rightarrow> nat" where
  "stateM_previousState fsm = (case fsm of None \<Rightarrow> 0 | Some m \<Rightarrow> previousState m)"

definition stateM_stopped :: "states \<Rightarrow> state_machine option \<Rightarrow> bool option" where
  "stateM_stopped st fsm =
     (case fsm of None \<Rightarrow> Some True
      | Some m \<Rightarrow> do { s \<leftarrow> st (currentState m); Some (numTransitions s = 0) })"

definition goToErrorState :: "states \<Rightarrow> state_machine \<Rightarrow> event \<Rightarrow> (state_machine \<times> action_call list) option" where
  "goToErrorState st m ev =
     (let m = m\<lparr>previousState := currentState m, currentState := errorState m\<rparr>
      in if currentState m = 0 then Some (m, [])
         else do {
           s \<leftarrow> st (currentState m);
           Some (m, if entry_action s \<noteq> 0 then [Entry_Action (entry_action s) (st_data s) ev] else [])
         })"

definition valid_transition :: "transition \<Rightarrow> bool" where
  "valid_transition t \<longleftrightarrow> t \<noteq> TRANSITION_END"

text \<open>The array is read until the terminator; the number of transitions is not consulted.\<close>

fun getTransition :: "guards \<Rightarrow> transition list \<Rightarrow> event \<Rightarrow> transition option option" where
  "getTransition G [] ev = None"
| "getTransition G (t # ts) ev =
     (if \<not> valid_transition t then Some None
      else if eventType t = ev_type ev \<and> (guard t = 0 \<or> G (guard t) (condition t) ev) then Some (Some t)
      else getTransition G ts ev)"

partial_function (option) enter :: "states \<Rightarrow> nat \<Rightarrow> nat option" where
  "enter st s = (case st s of None \<Rightarrow> None
     | Some x \<Rightarrow> if entry_state x \<noteq> 0 then enter st (entry_state x) else Some s)"

text \<open>Taking a transition whose next state, after the entry states, is \<open>next\<close>.\<close>

definition take_transition ::
    "states \<Rightarrow> state_machine \<Rightarrow> event \<Rightarrow> transition \<Rightarrow> nat \<Rightarrow>
     (stateM_handleEventRetVals \<times> state_machine \<times> action_call list) option" where
  "take_transition st m ev t next =
     do {
       c \<leftarrow> st (currentState m);
       n \<leftarrow> st next;
       let ex = (if next \<noteq> currentState m \<and> exit_action c \<noteq> 0 then [Exit_Action (exit_action c) (st_data c) ev] else []);
       let tr = (if action t \<noteq> 0 then [Transition_Action (action t) (st_data c) ev (st_data n)] else []);
       let en = (if entry_action n \<noteq> 0 then [Entry_Action (entry_action n) (st_data n) ev] else []);
       let m = m\<lparr>previousState := currentState m, currentState := next\<rparr>;
       Some (if currentState m = previousState m then stateM_stateLoopSelf
             else if currentState m = errorState m then stateM_errorStateReached
             else if numTransitions n = 0 then stateM_finalStateReached
             else stateM_stateChanged, m, ex @ tr @ en)
     }"

partial_function (option) handle_from ::
    "guards \<Rightarrow> states \<Rightarrow> state_machine \<Rightarrow> event \<Rightarrow> nat \<Rightarrow>
     (stateM_handleEventRetVals \<times> state_machine \<times> action_call list) option" where
  "handle_from G st m ev s =
     (if s = 0 then Some (stateM_noStateChange, m, [])
      else do {
        x \<leftarrow> st s;
        ts \<leftarrow> transitions x;
        r \<leftarrow> getTransition G ts ev;
        (case r of
           None \<Rightarrow> handle_from G st m ev (parent x)
         | Some t \<Rightarrow>
             if nextState t = 0
             then do { (m, tr) \<leftarrow> goToErrorState st m ev; Some (stateM_errorStateReached, m, tr) }
             else do { next \<leftarrow> enter st (nextState t); take_transition st m ev t next })
      })"

definition stateM_handleEvent ::
    "guards \<Rightarrow> states \<Rightarrow> state_machine option \<Rightarrow> event option \<Rightarrow>
     (stateM_handleEventRetVals \<times> state_machine option \<times> action_call list) option" where
  "stateM_handleEvent G st fsm event' =
     (case (fsm, event') of
        (Some m, Some ev) \<Rightarrow>
          if currentState m = 0
          then do { (m, tr) \<leftarrow> goToErrorState st m ev; Some (stateM_errorStateReached, Some m, tr) }
          else do {
            c \<leftarrow> st (currentState m);
            if transitions c = None then Some (stateM_noStateChange, Some m, [])
            else do { (r, m, tr) \<leftarrow> handle_from G st m ev (currentState m); Some (r, Some m, tr) }
          }
      | _ \<Rightarrow> Some (stateM_errArg, fsm, []))"

section \<open>The wrapper\<close>

definition sm_init :: "state_machine option \<Rightarrow> nat \<Rightarrow> nat \<Rightarrow> mblue_errcode \<times> state_machine option" where
  "sm_init sm start end' = (MBLUE_OK, stateM_init sm start end')"

definition sm_run :: "guards \<Rightarrow> states \<Rightarrow> state_machine option \<Rightarrow> event option \<Rightarrow>
    (state_machine option \<times> action_call list) option" where
  "sm_run G st sm input = do { (rc, sm, tr) \<leftarrow> stateM_handleEvent G st sm input; Some (sm, tr) }"

definition sizeof_mblue_state_maching :: u32 where
  "sizeof_mblue_state_maching = 24"

definition mblue_state_maching_alloc :: "nat \<Rightarrow> nat \<Rightarrow> mblue_heap \<Rightarrow> ((nat \<times> state_machine option) \<times> mblue_heap) option" where
  "mblue_state_maching_alloc start end' hp =
     do {
       (msm, hp) \<leftarrow> mblue_malloc sizeof_mblue_state_maching hp;
       if msm \<noteq> 0
       then Some ((msm, snd (sm_init (Some \<lparr>currentState = 0, previousState = 0, errorState = 0\<rparr>) start end')), hp)
       else Some ((0, None), hp)
     }"

definition mblue_state_maching_release :: "nat \<Rightarrow> mblue_heap \<Rightarrow> mblue_heap option" where
  "mblue_state_maching_release msm hp = mblue_free msm hp"

section \<open>What the tables mean\<close>

text \<open>A state with its ancestors, when the chain of parents ends.\<close>

inductive parent_chain :: "states \<Rightarrow> nat \<Rightarrow> nat list \<Rightarrow> bool" for st :: states where
  root: "parent_chain st 0 []"
| child: "s \<noteq> 0 \<Longrightarrow> st s = Some x \<Longrightarrow> parent_chain st (parent x) ss \<Longrightarrow> parent_chain st s (s # ss)"

text \<open>The state entered for \<open>s\<close>, when the chain of entry states ends.\<close>

inductive entered :: "states \<Rightarrow> nat \<Rightarrow> nat \<Rightarrow> bool" for st :: states where
  leaf: "st s = Some x \<Longrightarrow> entry_state x = 0 \<Longrightarrow> entered st s s"
| group: "st s = Some x \<Longrightarrow> entry_state x \<noteq> 0 \<Longrightarrow> entered st (entry_state x) l \<Longrightarrow> entered st s l"

text \<open>The enabled transition of a state: the first of its array, before the terminator, for the
  event's type whose guard holds.\<close>

definition enabled :: "guards \<Rightarrow> event \<Rightarrow> transition \<Rightarrow> bool" where
  "enabled G ev t \<longleftrightarrow> eventType t = ev_type ev \<and> (guard t = 0 \<or> G (guard t) (condition t) ev)"

definition terminated :: "states \<Rightarrow> nat \<Rightarrow> bool" where
  "terminated st s = (case st s of None \<Rightarrow> False
     | Some x \<Rightarrow> (case transitions x of None \<Rightarrow> False | Some ts \<Rightarrow> TRANSITION_END \<in> set ts))"

definition own_transition :: "guards \<Rightarrow> states \<Rightarrow> event \<Rightarrow> nat \<Rightarrow> transition option" where
  "own_transition G st ev s =
     (case st s of None \<Rightarrow> None | Some x \<Rightarrow> (case transitions x of None \<Rightarrow> None
        | Some ts \<Rightarrow> find (enabled G ev) (takeWhile valid_transition ts)))"

fun first_transition :: "guards \<Rightarrow> states \<Rightarrow> event \<Rightarrow> nat list \<Rightarrow> transition option" where
  "first_transition G st ev [] = None"
| "first_transition G st ev (s # ss) =
     (case own_transition G st ev s of None \<Rightarrow> first_transition G st ev ss | Some t \<Rightarrow> Some t)"

lemma getTransition_terminated:
  "TRANSITION_END \<in> set ts \<Longrightarrow> getTransition G ts ev = Some (find (enabled G ev) (takeWhile valid_transition ts))"
  by (induction ts) (auto simp: valid_transition_def enabled_def)

lemma enter_entered: "entered st s l \<Longrightarrow> enter st s = Some l"
  by (induction rule: entered.induct) (subst enter.simps, simp)+

lemma entered_unique: "entered st s l \<Longrightarrow> entered st s l' \<Longrightarrow> l = l'"
  by (metis enter_entered option.inject)

lemma entered_leaf: "entered st s l \<Longrightarrow> \<exists>x. st l = Some x \<and> entry_state x = 0"
  by (induction rule: entered.induct) auto

lemma handle_from_chain:
  assumes "parent_chain st s ss" "\<forall>s'\<in>set ss. terminated st s'"
  shows "handle_from G st m ev s =
    (case first_transition G st ev ss of
       None \<Rightarrow> Some (stateM_noStateChange, m, [])
     | Some t \<Rightarrow> if nextState t = 0
         then do { (m, tr) \<leftarrow> goToErrorState st m ev; Some (stateM_errorStateReached, m, tr) }
         else do { next \<leftarrow> enter st (nextState t); take_transition st m ev t next })"
  using assms
proof (induction rule: parent_chain.induct)
  case root
  show ?case by (subst handle_from.simps) simp
next
  case (child s x ss)
  obtain ts where ts: "transitions x = Some ts" "TRANSITION_END \<in> set ts"
    using child.prems child.hyps by (auto simp: terminated_def split: option.splits)
  have o: "own_transition G st ev s = find (enabled G ev) (takeWhile valid_transition ts)"
    using child.hyps ts by (simp add: own_transition_def)
  show ?case
    by (subst handle_from.simps)
      (use child ts o in \<open>auto simp: getTransition_terminated split: option.splits\<close>)
qed

text \<open>With a cycle in the parents and no transition for the event on it, the loop does not end.\<close>

lemma handle_from_cycle:
  assumes "C \<noteq> {}" "0 \<notin> C" "\<And>s. s \<in> C \<Longrightarrow> \<exists>x ts. st s = Some x \<and> transitions x = Some ts \<and>
      getTransition G ts ev = Some None \<and> parent x \<in> C"
    and "s \<in> C"
  shows "handle_from G st m ev s = None"
proof -
  have "G' = G \<longrightarrow> st' = st \<longrightarrow> ev' = ev \<longrightarrow> s' \<notin> C" if "handle_from G' st' m' ev' s' = Some r" for G' st' m' ev' s' r
  proof (rule handle_from.raw_induct [where P = "\<lambda>G' st' m' ev' s' r. G' = G \<longrightarrow> st' = st \<longrightarrow> ev' = ev \<longrightarrow> s' \<notin> C", OF _ that])
    fix f G' st' m' ev' s' y
    assume IH: "\<And>G' st' m' ev' s' y. f G' st' m' ev' s' = Some y \<Longrightarrow> G' = G \<longrightarrow> st' = st \<longrightarrow> ev' = ev \<longrightarrow> s' \<notin> C"
      and body: "(if s' = 0 then Some (stateM_noStateChange, m', [])
      else do {
        x \<leftarrow> st' s';
        ts \<leftarrow> transitions x;
        r \<leftarrow> getTransition G' ts ev';
        (case r of
           None \<Rightarrow> f G' st' m' ev' (parent x)
         | Some t \<Rightarrow>
             if nextState t = 0
             then do { (m, tr) \<leftarrow> goToErrorState st' m' ev'; Some (stateM_errorStateReached, m, tr) }
             else do { next \<leftarrow> enter st' (nextState t); take_transition st' m' ev' t next })
      }) = Some y"
    show "G' = G \<longrightarrow> st' = st \<longrightarrow> ev' = ev \<longrightarrow> s' \<notin> C"
    proof (intro impI notI)
      assume eq: "G' = G" "st' = st" "ev' = ev" and s': "s' \<in> C"
      obtain x ts where x: "st s' = Some x" "transitions x = Some ts" "getTransition G ts ev = Some None" "parent x \<in> C"
        using assms(3) [OF s'] by blast
      have "s' \<noteq> 0" using s' assms(2) by metis
      with body x eq have "f G st m' ev (parent x) = Some y" by simp
      with IH [OF this] x(4) show False by simp
    qed
  qed
  then show ?thesis using assms(4) by (cases "handle_from G st m ev s") auto
qed

section \<open>Steps\<close>

text \<open>The result of a handled event whose transition leads to the leaf state \<open>l\<close>.\<close>

definition step_result :: "states \<Rightarrow> state_machine \<Rightarrow> nat \<Rightarrow> stateM_handleEventRetVals" where
  "step_result st m l =
     (if l = currentState m then stateM_stateLoopSelf
      else if l = errorState m then stateM_errorStateReached
      else (case st l of Some x \<Rightarrow> if numTransitions x = 0 then stateM_finalStateReached else stateM_stateChanged
            | None \<Rightarrow> stateM_stateChanged))"

definition call_if :: "nat \<Rightarrow> 'a \<Rightarrow> 'a list" where
  "call_if f c = (if f \<noteq> 0 then [c] else [])"

lemma handle_transition:
  assumes c: "st (currentState m) = Some c" "currentState m \<noteq> 0" "transitions c \<noteq> None"
    and chain: "parent_chain st (currentState m) ss" "\<forall>s\<in>set ss. terminated st s"
    and t: "first_transition G st ev ss = Some t" "nextState t \<noteq> 0" "entered st (nextState t) l" "st l = Some n"
  shows "stateM_handleEvent G st (Some m) (Some ev) =
    Some (step_result st m l, Some (m\<lparr>previousState := currentState m, currentState := l\<rparr>),
      (if l \<noteq> currentState m then call_if (exit_action c) (Exit_Action (exit_action c) (st_data c) ev) else []) @
      call_if (action t) (Transition_Action (action t) (st_data c) ev (st_data n)) @
      call_if (entry_action n) (Entry_Action (entry_action n) (st_data n) ev))"
  using c t handle_from_chain [OF chain, of G m ev] enter_entered [OF t(3)]
  by (auto simp: stateM_handleEvent_def take_transition_def step_result_def call_if_def Let_def)


lemma handle_missing_target:
  assumes c: "st (currentState m) = Some c" "currentState m \<noteq> 0" "transitions c \<noteq> None"
    and chain: "parent_chain st (currentState m) ss" "\<forall>s\<in>set ss. terminated st s"
    and t: "first_transition G st ev ss = Some t" "nextState t = 0"
    and e: "errorState m = 0 \<or> st (errorState m) = Some x"
  shows "stateM_handleEvent G st (Some m) (Some ev) =
    Some (stateM_errorStateReached, Some (m\<lparr>previousState := currentState m, currentState := errorState m\<rparr>),
      if errorState m = 0 then [] else call_if (entry_action x) (Entry_Action (entry_action x) (st_data x) ev))"
  using c t e handle_from_chain [OF chain, of G m ev]
  by (auto simp: stateM_handleEvent_def goToErrorState_def call_if_def Let_def)

section \<open>Runs\<close>

text \<open>The states a machine can be in after any number of events.\<close>

inductive sm_reach :: "guards \<Rightarrow> states \<Rightarrow> state_machine \<Rightarrow> state_machine \<Rightarrow> bool"
  for G :: guards and st :: states and m0 :: state_machine where
  start: "sm_reach G st m0 m0"
| step: "sm_reach G st m0 m \<Longrightarrow> stateM_handleEvent G st (Some m) (Some ev) = Some (r, Some m', tr) \<Longrightarrow>
    sm_reach G st m0 m'"

inductive_cases sm_reachE: "sm_reach G st m0 m"

lemma enter_leaf: "enter st s = Some l \<Longrightarrow> entered st s l"
proof -
  have "entered st' s' r" if "enter st' s' = Some r" for st' s' r
  proof (rule enter.raw_induct [where P = entered, OF _ that])
    fix f st' s' y
    assume IH: "\<And>st' s' y. f st' s' = Some y \<Longrightarrow> entered st' s' y"
      and body: "(case st' s' of None \<Rightarrow> None
        | Some x \<Rightarrow> if entry_state x \<noteq> 0 then f st' (entry_state x) else Some s') = Some y"
    then show "entered st' s' y"
      by (auto split: option.splits if_splits intro: entered.intros)
  qed
  then show "enter st s = Some l \<Longrightarrow> entered st s l" .
qed

definition at_rest :: "states \<Rightarrow> state_machine \<Rightarrow> bool" where
  "at_rest st m \<longleftrightarrow> currentState m = errorState m \<or>
     (case st (currentState m) of None \<Rightarrow> False | Some x \<Rightarrow> entry_state x = 0)"

lemma handle_from_at_rest:
  assumes "handle_from G st m ev s = Some (r, m', tr)"
  shows "m' = m \<or> at_rest st m' \<and> errorState m' = errorState m"
proof -
  have "case r of (_, m1, _) \<Rightarrow> m1 = m' \<or> at_rest st' m1 \<and> errorState m1 = errorState m'"
    if "handle_from G' st' m' ev' s' = Some r" for G' st' m' ev' s' r
  proof (rule handle_from.raw_induct [where P = "\<lambda>G' st' m' ev' s' r.
        case r of (_, m1, _) \<Rightarrow> m1 = m' \<or> at_rest st' m1 \<and> errorState m1 = errorState m'", OF _ that])
    fix f G' st' m' ev' s' y
    assume IH: "\<And>G' st' m' ev' s' y. f G' st' m' ev' s' = Some y \<Longrightarrow>
        (case y of (_, m1, _) \<Rightarrow> m1 = m' \<or> at_rest st' m1 \<and> errorState m1 = errorState m')"
      and body: "(if s' = 0 then Some (stateM_noStateChange, m', [])
      else do {
        x \<leftarrow> st' s';
        ts \<leftarrow> transitions x;
        r \<leftarrow> getTransition G' ts ev';
        (case r of
           None \<Rightarrow> f G' st' m' ev' (parent x)
         | Some t \<Rightarrow>
             if nextState t = 0
             then do { (m, tr) \<leftarrow> goToErrorState st' m' ev'; Some (stateM_errorStateReached, m, tr) }
             else do { next \<leftarrow> enter st' (nextState t); take_transition st' m' ev' t next })
      }) = Some y"
    show "case y of (_, m1, _) \<Rightarrow> m1 = m' \<or> at_rest st' m1 \<and> errorState m1 = errorState m'"
      using body
      by (auto split: if_splits Option.bind_splits option.splits dest: IH dest!: enter_leaf entered_leaf
          simp: at_rest_def goToErrorState_def take_transition_def Let_def)
  qed
  from this [OF assms] show ?thesis by simp
qed

lemma handleEvent_at_rest:
  assumes "stateM_handleEvent G st (Some m) (Some ev) = Some (r, Some m', tr)"
  shows "m' = m \<or> at_rest st m' \<and> errorState m' = errorState m"
proof (cases "currentState m = 0")
  case True
  with assms show ?thesis
    by (auto simp: stateM_handleEvent_def goToErrorState_def at_rest_def Let_def split: Option.bind_splits if_splits)
next
  case False
  with assms consider "m' = m" | r' tr' where "handle_from G st m ev (currentState m) = Some (r', m', tr')"
    by (auto simp: stateM_handleEvent_def split: Option.bind_splits if_splits)
  then show ?thesis using handle_from_at_rest by cases blast+
qed

lemma reach_at_rest:
  "sm_reach G st m0 m \<Longrightarrow> errorState m = errorState m0 \<and> (m = m0 \<or> at_rest st m)"
proof (induction rule: sm_reach.induct)
  case (step m ev r m' tr)
  then show ?case using handleEvent_at_rest [OF step.hyps(2)] by auto
qed simp

lemma mblue_state_maching_alloc_spec:
  assumes "heap_wf hp"
  shows "\<exists>p sm hp'. mblue_state_maching_alloc start end' hp = Some ((p, sm), hp') \<and> heap_wf hp' \<and>
    (if p = 0 then sm = None \<and> hblocks hp' = hblocks hp
     else sm = Some \<lparr>currentState = start, previousState = 0, errorState = end'\<rparr> \<and>
       (\<exists>hp''. mblue_state_maching_release p hp' = Some hp'' \<and> heap_wf hp'' \<and> hblocks hp'' = hblocks hp))"
proof -
  have l: "unat sizeof_mblue_state_maching \<le> 2 ^ 32 - 16" by (simp add: sizeof_mblue_state_maching_def)
  obtain p hp' where m: "mblue_malloc sizeof_mblue_state_maching hp = Some (p, hp')"
    using mheap.malloc_total [OF assms l] by blast
  note w = mheap.malloc_wf [OF assms l m]
  show ?thesis
  proof (cases "p = 0")
    case True
    with m w mheap.malloc_null [OF assms l] show ?thesis by (auto simp: mblue_state_maching_alloc_def)
  next
    case False
    with m w mheap.malloc_free [OF assms l m False] show ?thesis
      by (simp add: mblue_state_maching_alloc_def sm_init_def stateM_init_def mblue_state_maching_release_def)
  qed
qed

section \<open>Properties\<close>

text \<open>A machine with a group state 10 whose entry state is 11, its child 11, and a final state 12.\<close>

definition to_final :: transition where
  "to_final = \<lparr>eventType = 2, condition = 0, guard = 0, action = 7, nextState = 12\<rparr>"

definition to_group :: transition where
  "to_group = \<lparr>eventType = 3, condition = 0, guard = 0, action = 0, nextState = 10\<rparr>"

definition group_state :: state where
  "group_state = \<lparr>parent = 0, entry_state = 11, transitions = Some [to_final, to_group, TRANSITION_END],
     numTransitions = 2, st_data = 100, entry_action = 0, exit_action = 0\<rparr>"

definition child_state :: state where
  "child_state = \<lparr>parent = 10, entry_state = 0,
     transitions = Some [\<lparr>eventType = 1, condition = 0, guard = 0, action = 0, nextState = 0\<rparr>, TRANSITION_END],
     numTransitions = 1, st_data = 110, entry_action = 5, exit_action = 6\<rparr>"

definition final_state :: state where
  "final_state = \<lparr>parent = 0, entry_state = 0, transitions = None, numTransitions = 0, st_data = 120,
     entry_action = 8, exit_action = 0\<rparr>"

definition sample_states :: states where
  "sample_states = [10 \<mapsto> group_state, 11 \<mapsto> child_state, 12 \<mapsto> final_state]"

lemma sample_at [simp]: "sample_states 10 = Some group_state" "sample_states 11 = Some child_state"
  "sample_states 12 = Some final_state"
  by (simp_all add: sample_states_def)

lemmas sample_defs = group_state_def child_state_def final_state_def to_final_def to_group_def
  TRANSITION_END_def valid_transition_def enabled_def own_transition_def terminated_def

definition sample_machine :: state_machine where
  "sample_machine = \<lparr>currentState = 11, previousState = 0, errorState = 12\<rparr>"

lemma sample_chain: "parent_chain sample_states 11 [11, 10]"
proof -
  have "parent_chain sample_states (parent child_state) [10]"
    using parent_chain.child [of 10 sample_states group_state "[]"] parent_chain.root [of sample_states]
    by (simp add: group_state_def child_state_def)
  then show ?thesis by (intro parent_chain.child) simp_all
qed

lemma sample_terminated: "\<forall>s\<in>set [11, 10]. terminated sample_states s"
  by (simp add: sample_defs)

lemma sample_current: "sample_states (currentState sample_machine) = Some child_state" "currentState sample_machine \<noteq> 0"
  "transitions child_state \<noteq> None" "parent_chain sample_states (currentState sample_machine) [11, 10]"
  using sample_chain by (simp_all add: sample_machine_def child_state_def)

lemma sample_entered: "entered sample_states 12 12" "entered sample_states 10 11"
proof -
  show "entered sample_states 12 12"
    using entered.leaf [of sample_states 12 final_state] by (simp add: final_state_def)
  have "entered sample_states 11 11"
    using entered.leaf [of sample_states 11 child_state] by (simp add: child_state_def)
  then show "entered sample_states 10 11"
    using entered.group [of sample_states 10 group_state 11] by (simp add: group_state_def)
qed



text \<open>The entry action of a state runs also when a transition leads back to the state itself, while its exit
  action does not.\<close>

lemma sm_self_entry:
  assumes "st (currentState m) = Some c" and "currentState m \<noteq> 0" and "transitions c \<noteq> None"
    and "parent_chain st (currentState m) ss" and "\<forall>s\<in>set ss. terminated st s"
    and "first_transition G st ev ss = Some t" and "entered st (nextState t) (currentState m)" and "nextState t \<noteq> 0"
    and "entry_action c \<noteq> 0"
  shows "\<exists>m' tr. stateM_handleEvent G st (Some m) (Some ev) = Some (stateM_stateLoopSelf, Some m', tr) \<and>
    Entry_Action (entry_action c) (st_data c) ev \<in> set tr \<and> Exit_Action (exit_action c) (st_data c) ev \<notin> set tr"
  using handle_transition [OF assms(1-6,8,7,1)] assms(9)
  by (auto simp: step_result_def call_if_def)

lemma sm_self_entry_example:
  "\<exists>m' tr. stateM_handleEvent (\<lambda>_ _ _. True) sample_states (Some sample_machine) (Some \<lparr>ev_type = 3, ev_data = 0\<rparr>) =
      Some (stateM_stateLoopSelf, Some m', tr) \<and>
    Entry_Action (entry_action child_state) (st_data child_state) \<lparr>ev_type = 3, ev_data = 0\<rparr> \<in> set tr \<and>
    Exit_Action (exit_action child_state) (st_data child_state) \<lparr>ev_type = 3, ev_data = 0\<rparr> \<notin> set tr"
  by (rule sm_self_entry [OF sample_current sample_terminated, where t = to_group])
    (use sample_entered in \<open>simp_all add: sample_defs sample_machine_def\<close>)




text \<open>On a cycle of parents none of which has a transition for the event, handling the event never returns,
  as the header warns.\<close>

lemma sm_cycle:
  assumes "0 \<notin> C" and "\<And>s. s \<in> C \<Longrightarrow> \<exists>x ts. st s = Some x \<and> transitions x = Some ts \<and>
      getTransition G ts ev = Some None \<and> parent x \<in> C"
    and "currentState m \<in> C"
  shows "stateM_handleEvent G st (Some m) (Some ev) = None"
proof -
  have "handle_from G st m ev (currentState m) = None"
    using handle_from_cycle [of C st G ev "currentState m" m] assms by blast
  moreover have "currentState m \<noteq> 0" using assms(1,3) by metis
  ultimately show ?thesis using assms(2) [OF assms(3)] by (auto simp: stateM_handleEvent_def)
qed

lemma sm_cycle_example:
  "stateM_handleEvent (\<lambda>_ _ _. True)
     [20 \<mapsto> \<lparr>parent = 20, entry_state = 0, transitions = Some [TRANSITION_END], numTransitions = 1, st_data = 0,
             entry_action = 0, exit_action = 0\<rparr>]
     (Some \<lparr>currentState = 20, previousState = 0, errorState = 0\<rparr>) (Some \<lparr>ev_type = 1, ev_data = 0\<rparr>) = None"
  by (rule sm_cycle [where C = "{20}"]) (auto simp: valid_transition_def)

text \<open>C32 (sm\_reachable): whatever events a machine is given and whatever its tables, every machine it can become keeps its error
  state, and unless it never moved its current state is the error state or a state without entry
  state: a group state with an entry state is never occupied.\<close>

theorem sm_reachable:
  assumes "sm_reach G st m0 m"
  shows "errorState m = errorState m0 \<and> (m = m0 \<or> at_rest st m)"
  by (rule reach_at_rest [OF assms])

theorem sm_reachable_witness:
  "\<exists>m1 m2. sm_reach (\<lambda>_ _ _. True) sample_states sample_machine m1 \<and> sm_reach (\<lambda>_ _ _. True) sample_states sample_machine m2 \<and>
    m1 = \<lparr>currentState = 11, previousState = 11, errorState = 12\<rparr> \<and> m1 \<noteq> sample_machine \<and> at_rest sample_states m1 \<and>
    m2 = \<lparr>currentState = 12, previousState = 11, errorState = 12\<rparr> \<and> errorState m2 = errorState sample_machine \<and>
    at_rest sample_states m2"
proof -
  let ?G = "\<lambda>_ _ _. True"
  define m1 where "m1 = sample_machine\<lparr>previousState := currentState sample_machine, currentState := 11\<rparr>"
  define m2 where "m2 = m1\<lparr>previousState := currentState m1, currentState := errorState m1\<rparr>"
  have g: "first_transition ?G sample_states \<lparr>ev_type = 3, ev_data = 0\<rparr> [11, 10] = Some to_group" "nextState to_group \<noteq> 0"
    "entered sample_states (nextState to_group) 11" "sample_states 11 = Some child_state"
    using sample_entered by (simp_all add: sample_defs)
  have r1: "sm_reach ?G sample_states sample_machine m1" unfolding m1_def
    by (rule sm_reach.step [OF sm_reach.start handle_transition [OF sample_current sample_terminated g]])
  have c1: "sample_states (currentState m1) = Some child_state" "currentState m1 \<noteq> 0" "transitions child_state \<noteq> None"
    "parent_chain sample_states (currentState m1) [11, 10]" "errorState m1 = 0 \<or> sample_states (errorState m1) = Some final_state"
    using sample_chain by (simp_all add: m1_def sample_machine_def child_state_def)
  obtain t where t: "first_transition ?G sample_states \<lparr>ev_type = 1, ev_data = 0\<rparr> [11, 10] = Some t" "nextState t = 0"
    by (simp add: sample_defs)
  have r2: "sm_reach ?G sample_states sample_machine m2" unfolding m2_def
    by (rule sm_reach.step [OF r1 handle_missing_target [OF c1(1-4) sample_terminated t c1(5)]])
  have "m1 = \<lparr>currentState = 11, previousState = 11, errorState = 12\<rparr>" "m2 = \<lparr>currentState = 12, previousState = 11, errorState = 12\<rparr>"
    "m1 \<noteq> sample_machine" "m2 \<noteq> sample_machine"
    by (simp_all add: m2_def m1_def sample_machine_def)
  then show ?thesis using r1 r2 sm_reachable [OF r1] sm_reachable [OF r2] by blast
qed

end
