(* ===== verification/Pal_Semaphore.thy ===== *)
theory Pal_Semaphore
  imports Pal_Heap
begin

text \<open>
  The semaphores of \<^verbatim>\<open>pal/semaphore/mblue_semaphore.c\<close> over the POSIX semaphores of
  \<^verbatim>\<open>custom_semaphore.h\<close>. A \<^verbatim>\<open>sem_t\<close> is its value, absent before \<^verbatim>\<open>sem_init\<close> and after \<^verbatim>\<open>sem_destroy\<close>;
  using an absent one is an error (\<open>None\<close>). \<^verbatim>\<open>sem_wait\<close> on a positive value takes one; on zero it
  blocks, which is a value of its own because the caller simply has not returned, unless a signal
  interrupts it. The asserts on the magic number are compiled out of a release build.
\<close>

section \<open>POSIX semaphores\<close>

definition SEM_VALUE_MAX :: nat where
  "SEM_VALUE_MAX = 2147483647"

datatype 'a pend = Blocked | Returns 'a

definition sem_init :: "nat \<Rightarrow> int \<times> nat option" where
  "sem_init v = (0, Some v)"

definition sem_wait :: "bool \<Rightarrow> nat option \<Rightarrow> (int \<times> nat option) pend option" where
  "sem_wait interrupted obj =
     (case obj of None \<Rightarrow> None
      | Some n \<Rightarrow> Some (if n > 0 then Returns (0, Some (n - 1))
                        else if interrupted then Returns (-1, Some n) else Blocked))"

definition sem_post :: "nat option \<Rightarrow> (int \<times> nat option) option" where
  "sem_post obj =
     (case obj of None \<Rightarrow> None
      | Some n \<Rightarrow> Some (if n = SEM_VALUE_MAX then (-1, Some n) else (0, Some (n + 1))))"

definition sem_destroy :: "nat option \<Rightarrow> (int \<times> nat option) option" where
  "sem_destroy obj = (case obj of None \<Rightarrow> None | Some n \<Rightarrow> Some (0, None))"

section \<open>The platform layer\<close>

definition MBLUE_SEMAPHORE_MAGIC :: u32 where
  "MBLUE_SEMAPHORE_MAGIC = 0xFEEEAAA0"

record mblue_semaphore =
  sem_magic :: u32
  sem_obj :: "nat option"

definition platform_semaphore_init :: "mblue_semaphore \<Rightarrow> mblue_errcode \<times> mblue_semaphore" where
  "platform_semaphore_init sem =
     (let (rc, obj) = sem_init 0
      in (if rc = 0 then MBLUE_OK else MBLUE_ERR_SEMAPHORE, sem\<lparr>sem_obj := obj\<rparr>))"

definition platform_semaphore_pend ::
    "bool \<Rightarrow> mblue_semaphore \<Rightarrow> (mblue_errcode \<times> mblue_semaphore) pend option" where
  "platform_semaphore_pend interrupted sem = do {
     r \<leftarrow> sem_wait interrupted (sem_obj sem);
     Some (case r of Blocked \<Rightarrow> Blocked
           | Returns (rc, obj) \<Rightarrow>
               Returns (if rc = 0 then MBLUE_OK else MBLUE_ERR_SEMAPHORE, sem\<lparr>sem_obj := obj\<rparr>))
   }"

definition platform_semaphore_post :: "mblue_semaphore \<Rightarrow> (mblue_errcode \<times> mblue_semaphore) option" where
  "platform_semaphore_post sem = do {
     (rc, obj) \<leftarrow> sem_post (sem_obj sem);
     Some (if rc = 0 then MBLUE_OK else MBLUE_ERR_SEMAPHORE, sem\<lparr>sem_obj := obj\<rparr>)
   }"

definition platform_semaphore_uninit :: "mblue_semaphore \<Rightarrow> (mblue_errcode \<times> mblue_semaphore) option" where
  "platform_semaphore_uninit sem = do {
     (rc, obj) \<leftarrow> sem_destroy (sem_obj sem);
     Some (if rc = 0 then MBLUE_OK else MBLUE_ERR_SEMAPHORE, sem\<lparr>sem_obj := obj\<rparr>)
   }"

section \<open>The semaphore object\<close>

definition semaphore_init :: "mblue_semaphore \<Rightarrow> mblue_errcode \<times> mblue_semaphore" where
  "semaphore_init sem = platform_semaphore_init (sem\<lparr>sem_magic := MBLUE_SEMAPHORE_MAGIC\<rparr>)"

definition semaphore_pend ::
    "bool \<Rightarrow> mblue_semaphore \<Rightarrow> (mblue_errcode \<times> mblue_semaphore) pend option" where
  "semaphore_pend interrupted sem = platform_semaphore_pend interrupted sem"

definition semaphore_post :: "mblue_semaphore \<Rightarrow> (mblue_errcode \<times> mblue_semaphore) option" where
  "semaphore_post sem = platform_semaphore_post sem"

definition semaphore_uninit :: "mblue_semaphore \<Rightarrow> (mblue_errcode \<times> mblue_semaphore) option" where
  "semaphore_uninit sem = do {
     (rc, sem) \<leftarrow> platform_semaphore_uninit sem;
     Some (MBLUE_OK, sem\<lparr>sem_magic := 0\<rparr>)
   }"

definition mblue_semaphore_construct :: "mblue_semaphore \<Rightarrow> mblue_errcode \<times> mblue_semaphore" where
  "mblue_semaphore_construct sem =
     (let (rc, sem) = semaphore_init sem
      in (if rc = MBLUE_OK then MBLUE_OK else MBLUE_ERR_SEMAPHORE, sem))"

definition mblue_semaphore_destruct :: "mblue_semaphore \<Rightarrow> (mblue_errcode \<times> mblue_semaphore) option" where
  "mblue_semaphore_destruct sem = semaphore_uninit sem"

definition sizeof_mblue_semaphore :: u32 where
  "sizeof_mblue_semaphore = 36"

text \<open>The block is not given back when the initialisation fails.\<close>

definition mblue_semaphore_alloc :: "mblue_heap \<Rightarrow> ((nat \<times> mblue_semaphore) \<times> mblue_heap) option" where
  "mblue_semaphore_alloc hp = do {
     (p, hp) \<leftarrow> mblue_malloc sizeof_mblue_semaphore hp;
     let sem = \<lparr>sem_magic = 0, sem_obj = None\<rparr>;
     if p = 0 then Some ((0, sem), hp)
     else let (rc, sem) = semaphore_init sem
          in Some ((if rc = MBLUE_OK then p else 0, sem), hp)
   }"

definition mblue_semaphore_free ::
    "nat \<Rightarrow> mblue_semaphore \<Rightarrow> mblue_heap \<Rightarrow> (mblue_errcode \<times> mblue_heap) option" where
  "mblue_semaphore_free p sem hp = do {
     (rc, sem) \<leftarrow> semaphore_uninit sem;
     hp \<leftarrow> mblue_free p hp;
     Some (MBLUE_OK, hp)
   }"

lemmas semaphore_defs = semaphore_init_def semaphore_pend_def semaphore_post_def semaphore_uninit_def
  platform_semaphore_init_def platform_semaphore_pend_def platform_semaphore_post_def
  platform_semaphore_uninit_def sem_init_def sem_wait_def sem_post_def sem_destroy_def

section \<open>Counting\<close>

text \<open>A live semaphore with value \<open>n\<close>.\<close>

definition sem_value :: "mblue_semaphore \<Rightarrow> nat \<Rightarrow> bool" where
  "sem_value sem n \<longleftrightarrow> sem_obj sem = Some n \<and> n \<le> SEM_VALUE_MAX"

lemma semaphore_construct_value:
  "fst (mblue_semaphore_construct sem) = MBLUE_OK" "sem_value (snd (mblue_semaphore_construct sem)) 0"
  by (simp_all add: mblue_semaphore_construct_def semaphore_defs sem_value_def)

lemma semaphore_post_value:
  assumes "sem_value sem n" and "n < SEM_VALUE_MAX"
  obtains sem' where "semaphore_post sem = Some (MBLUE_OK, sem')" "sem_value sem' (Suc n)"
  using that assms by (simp add: semaphore_defs sem_value_def)

lemma semaphore_post_saturated:
  "sem_value sem SEM_VALUE_MAX \<Longrightarrow> semaphore_post sem = Some (MBLUE_ERR_SEMAPHORE, sem)"
  by (cases sem) (simp add: semaphore_defs sem_value_def)

lemma semaphore_pend_value:
  assumes "sem_value sem (Suc n)"
  obtains sem' where "semaphore_pend i sem = Some (Returns (MBLUE_OK, sem'))" "sem_value sem' n"
  using that assms by (simp add: semaphore_defs sem_value_def)

lemma semaphore_pend_zero:
  "sem_value sem 0 \<Longrightarrow> semaphore_pend i sem =
     Some (if i then Returns (MBLUE_ERR_SEMAPHORE, sem) else Blocked)"
  by (cases sem) (simp add: semaphore_defs sem_value_def)

section \<open>Properties\<close>

text \<open>The values of a run of posts and pends: which of them return, and the value left.\<close>

datatype sem_op = Post | Pend

fun sem_run :: "sem_op list \<Rightarrow> mblue_semaphore \<Rightarrow> (nat \<times> mblue_semaphore) option" where
  "sem_run [] sem = Some (0, sem)"
| "sem_run (Post # ops) sem = do {
     (rc, sem) \<leftarrow> semaphore_post sem;
     sem_run ops sem
   }"
| "sem_run (Pend # ops) sem = do {
     r \<leftarrow> semaphore_pend False sem;
     (case r of Blocked \<Rightarrow> sem_run ops sem
      | Returns (rc, sem) \<Rightarrow> do { (k, sem) \<leftarrow> sem_run ops sem; Some (Suc k, sem) })
   }"

lemma sem_run_counts:
  "sem_value sem n \<Longrightarrow> n + length ops \<le> SEM_VALUE_MAX \<Longrightarrow>
   \<exists>k sem' n'. sem_run ops sem = Some (k, sem') \<and> sem_value sem' n' \<and> n' + k = n + count_list ops Post"
proof (induction ops arbitrary: sem n)
  case (Cons op ops)
  show ?case
  proof (cases op)
    case Post
    obtain sem1 where p: "semaphore_post sem = Some (MBLUE_OK, sem1)" "sem_value sem1 (Suc n)"
      using semaphore_post_value [OF Cons.prems(1)] Cons.prems(2) by auto
    from Cons.IH [OF p(2)] Cons.prems(2) obtain k sem' n' where
      "sem_run ops sem1 = Some (k, sem')" "sem_value sem' n'" "n' + k = Suc n + count_list ops Post" by auto
    then show ?thesis using p Post by auto
  next
    case Pend
    show ?thesis
    proof (cases n)
      case 0
      from Cons.IH [OF Cons.prems(1)] Cons.prems(2) show ?thesis
        using Pend 0 semaphore_pend_zero Cons.prems(1) by auto
    next
      case (Suc m)
      obtain sem1 where p: "semaphore_pend False sem = Some (Returns (MBLUE_OK, sem1))" "sem_value sem1 m"
        using semaphore_pend_value Cons.prems(1) unfolding Suc by metis
      from Cons.IH [OF p(2)] Cons.prems(2) Suc obtain k sem' n' where
        "sem_run ops sem1 = Some (k, sem')" "sem_value sem' n'" "n' + k = m + count_list ops Post" by auto
      then show ?thesis using p Pend Suc by auto
    qed
  qed
qed simp

text \<open>From a freshly constructed semaphore, after any run of at most
  \<open>SEM_VALUE_MAX\<close> posts and pends, the pends that returned and the value left add up to the number
  of posts: a pend returns for each post and for nothing else.\<close>

lemma semaphore_counts:
  assumes "length ops \<le> SEM_VALUE_MAX"
  shows "\<exists>k sem' n'. sem_run ops (snd (mblue_semaphore_construct sem)) = Some (k, sem') \<and>
    sem_obj sem' = Some n' \<and> n' + k = count_list ops Post"
  using sem_run_counts [OF semaphore_construct_value(2), of ops sem] assms by (auto simp: sem_value_def)

lemma semaphore_counts_example:
  "\<exists>k sem' n'. sem_run [Pend, Post, Post, Pend] (snd (mblue_semaphore_construct \<lparr>sem_magic = 0, sem_obj = None\<rparr>)) =
      Some (k, sem') \<and> sem_obj sem' = Some n' \<and> n' + k = count_list [Pend, Post, Post, Pend] Post"
  by (rule semaphore_counts) (simp add: SEM_VALUE_MAX_def)

end
