(* ===== verification/Bus_World.thy ===== *)
theory Bus_World
  imports Message Msg_Queue Pal_Semaphore
begin

text \<open>
  The state the tasks of the framework share: the heap, the message pool, the segments, the tasks
  with their message queues and semaphores, the lists of the system bus and the ipc facade; and the
  operations of a task on it (\<^verbatim>\<open>pal/task/mblue_stdtask.c\<close>,
  \<^verbatim>\<open>middleware/components/task_manager/task_manager.c\<close>). \<open>None\<close> is a memory error: a null or
  released pointer that is used, an index outside its array, a null function pointer that is called.

  Three kinds of lists link objects here: the segments of a task, the subscribers of a segment and
  the pending calls of a segment. Their heads and nodes are fields of structures of different types
  and so never overlap; each kind has a store of its own, in which odd addresses are the heads and
  even ones the nodes.
\<close>

section \<open>Segments, tasks and the records of the bus\<close>

text \<open>The handlers the code installs in \<^verbatim>\<open>handler_array\<close>, and the launch hooks; those of the
  applications are identified by a number.\<close>

datatype segment_handler = Null_handler | Default_signal_handler | Default_ipc_handler
  | Handle_subscribe | Handle_signal | Handle_call | Handle_call_return

datatype launch_hook = Null_launch | Default_launch | Bus_launch | App_launch nat

definition MBLUE_SEGMENT_MAGIC :: u16 where
  "MBLUE_SEGMENT_MAGIC = 0x736D"

definition END_ITEM_ID :: u32 where
  "END_ITEM_ID = 0xEEFFEEFF"

record handler_item =
  item_id :: u32
  item_handler :: nat

record mblue_segment =
  s_magic :: u16
  s_major :: u16
  s_context :: addr
  processing_msg :: addr
  items_array :: "nat \<Rightarrow> handler_item list option"
  s_queue :: addr
  handler_array :: "nat \<Rightarrow> segment_handler"
  on_launch :: launch_hook

text \<open>The function pointers of a task are either null or the template's.\<close>

datatype task_fn = Null_fn | Template_fn

record mblue_task =
  t_id :: int
  t_priority :: int
  t_name :: addr
  t_stack_size :: u32
  t_stack :: addr
  t_obj :: nat
  tproc :: task_fn
  t_on_create :: nat
  nproc :: task_fn
  tpend :: task_fn
  tpost :: task_fn
  t_mq :: addr
  msg_sem :: mblue_semaphore
  call_sem :: mblue_semaphore

record pending_notifier =
  pn_notify :: nat
  pn_user_data :: nat

record pending_call =
  pc_msg :: addr
  pc_src :: addr
  pc_call_type :: u32
  pc_notifier :: addr

definition MBLUE_MAX_TASKS_IN_SYSTEM :: nat where
  "MBLUE_MAX_TASKS_IN_SYSTEM = 16"

text \<open>The cells are the variables of callers that receive the result of a synchronous call; the
  last field is the state of the applications.\<close>

record 'u bus_world =
  bw_heap :: mblue_heap
  bw_msgs :: message_system
  bw_segs :: "addr \<Rightarrow> mblue_segment"
  bw_tasks :: "addr \<Rightarrow> mblue_task"
  bw_queues :: "addr \<Rightarrow> mblue_queue"
  bw_seg_links :: list_heap
  bw_sb_instance :: bool
  bw_node_ms :: "nat \<Rightarrow> addr"
  bw_pub_links :: list_heap
  bw_call_links :: list_heap
  bw_init_lock :: mblue_semaphore
  bw_subs :: "addr \<Rightarrow> addr"
  bw_calls :: "addr \<Rightarrow> pending_call"
  bw_notifiers :: "addr \<Rightarrow> pending_notifier"
  bw_cells :: "addr \<Rightarrow> SMART_DATA"
  bw_ipc :: "addr option"
  bw_tm :: "nat \<Rightarrow> addr"
  bw_task_id :: u8
  bw_user :: 'u

definition list_head_of :: "nat \<Rightarrow> addr" where
  "list_head_of x = 2 * x + 1"

definition list_node_of :: "addr \<Rightarrow> addr" where
  "list_node_of x = 2 * x"

definition list_entry :: "addr \<Rightarrow> addr" where
  "list_entry node = node div 2"

lemma list_node_simps [simp]:
  "list_entry (list_node_of x) = x" "list_node_of x = list_node_of y \<longleftrightarrow> x = y"
  "list_head_of x = list_head_of y \<longleftrightarrow> x = y" "list_node_of x \<noteq> list_head_of y"
  "list_head_of y \<noteq> list_node_of x" "list_head_of x \<noteq> 0" "list_node_of x = 0 \<longleftrightarrow> x = 0"
  "inj_on list_node_of A" "inj_on list_head_of A"
  by (auto simp: list_entry_def list_node_of_def list_head_of_def inj_on_def) arith+

abbreviation msg_at :: "'u bus_world \<Rightarrow> addr \<Rightarrow> mblue_message" where
  "msg_at w m \<equiv> ms_pool (bw_msgs w) m"

abbreviation task_queue :: "'u bus_world \<Rightarrow> addr \<Rightarrow> mblue_queue" where
  "task_queue w t \<equiv> bw_queues w (t_mq (bw_tasks w t))"

abbreviation live :: "'u bus_world \<Rightarrow> addr \<Rightarrow> bool" where
  "live w p \<equiv> hblocks (bw_heap w) p \<noteq> None"

definition upd_task :: "addr \<Rightarrow> (mblue_task \<Rightarrow> mblue_task) \<Rightarrow> 'u bus_world \<Rightarrow> 'u bus_world" where
  "upd_task t f w = w\<lparr>bw_tasks := (bw_tasks w)(t := f (bw_tasks w t))\<rparr>"

definition upd_seg :: "addr \<Rightarrow> (mblue_segment \<Rightarrow> mblue_segment) \<Rightarrow> 'u bus_world \<Rightarrow> 'u bus_world" where
  "upd_seg ms f w = w\<lparr>bw_segs := (bw_segs w)(ms := f (bw_segs w ms))\<rparr>"

definition upd_msg :: "addr \<Rightarrow> (mblue_message \<Rightarrow> mblue_message) \<Rightarrow> 'u bus_world \<Rightarrow> 'u bus_world" where
  "upd_msg m f w = w\<lparr>bw_msgs := (bw_msgs w)\<lparr>ms_pool := (ms_pool (bw_msgs w))(m := f (msg_at w m))\<rparr>\<rparr>"

definition world_release :: "addr \<Rightarrow> 'u bus_world \<Rightarrow> 'u bus_world" where
  "world_release m w = w\<lparr>bw_msgs := mblue_message_release m (bw_msgs w)\<rparr>"

definition world_get :: "addr \<Rightarrow> 'u bus_world \<Rightarrow> 'u bus_world" where
  "world_get m w = w\<lparr>bw_msgs := snd (get_mblue_message m (bw_msgs w))\<rparr>"

definition world_alloc :: "'u bus_world \<Rightarrow> addr \<times> 'u bus_world" where
  "world_alloc w = (let (m, s) = mblue_message_alloc (bw_msgs w) in (m, w\<lparr>bw_msgs := s\<rparr>))"

definition world_malloc :: "u32 \<Rightarrow> 'u bus_world \<Rightarrow> (addr \<times> 'u bus_world) option" where
  "world_malloc n w = do { (p, hp) \<leftarrow> mblue_malloc n (bw_heap w); Some (p, w\<lparr>bw_heap := hp\<rparr>) }"

definition world_free :: "addr \<Rightarrow> 'u bus_world \<Rightarrow> 'u bus_world option" where
  "world_free p w = do { hp \<leftarrow> mblue_free p (bw_heap w); Some (w\<lparr>bw_heap := hp\<rparr>) }"

section \<open>Segments\<close>

definition mblue_segment_get_context :: "addr \<Rightarrow> 'u bus_world \<Rightarrow> addr" where
  "mblue_segment_get_context ms w = s_context (bw_segs w ms)"

definition mblue_segment_set_context :: "addr \<Rightarrow> addr \<Rightarrow> 'u bus_world \<Rightarrow> 'u bus_world" where
  "mblue_segment_set_context ms context w = upd_seg ms (s_context_update (\<lambda>_. context)) w"

definition mblue_segment_get_handler :: "addr \<Rightarrow> nat \<Rightarrow> 'u bus_world \<Rightarrow> segment_handler option" where
  "mblue_segment_get_handler ms type w =
     (if type < MESSAGE_TYPE_MAX then Some (handler_array (bw_segs w ms) type) else None)"

definition mblue_segment_set_handler ::
    "addr \<Rightarrow> nat \<Rightarrow> segment_handler \<Rightarrow> 'u bus_world \<Rightarrow> 'u bus_world option" where
  "mblue_segment_set_handler ms type h w =
     (if type < MESSAGE_TYPE_MAX
      then Some (upd_seg ms (\<lambda>s. s\<lparr>handler_array := (handler_array s)(type := h)\<rparr>) w) else None)"

definition link_msg :: "addr \<Rightarrow> addr \<Rightarrow> 'u bus_world \<Rightarrow> 'u bus_world" where
  "link_msg ms msg w = upd_seg ms (processing_msg_update (\<lambda>_. msg)) w"

definition init_segment :: "addr \<Rightarrow> 'u bus_world \<Rightarrow> 'u bus_world" where
  "init_segment ms w =
     upd_seg ms (\<lambda>_. \<lparr>s_magic = MBLUE_SEGMENT_MAGIC, s_major = 0, s_context = 0, processing_msg = 0,
       items_array = (\<lambda>_. None), s_queue = 0,
       handler_array = (\<lambda>_. Null_handler)(type_value SIGNAL := Default_signal_handler,
         type_value SYNC_CALL := Default_ipc_handler, type_value ASYNC_CALL := Default_ipc_handler),
       on_launch = Default_launch\<rparr>)
     (w\<lparr>bw_seg_links := set_next (list_node_of ms) 0 (set_prev (list_node_of ms) 0 (bw_seg_links w))\<rparr>)"

section \<open>The template of a task\<close>

definition template_msg_post :: "addr \<Rightarrow> addr \<Rightarrow> 'u bus_world \<Rightarrow> (mblue_errcode \<times> 'u bus_world) option" where
  "template_msg_post task msg w =
     (if task = 0 then None
      else do {
        let mq = t_mq (bw_tasks w task);
        (rc, q) \<leftarrow> queue_add (bw_queues w mq) msg;
        let w = w\<lparr>bw_queues := (bw_queues w)(mq := q)\<rparr>;
        if rc = 0
        then do {
          (rc, sem) \<leftarrow> semaphore_post (msg_sem (bw_tasks w task));
          Some (MBLUE_OK, upd_task task (msg_sem_update (\<lambda>_. sem)) w)
        }
        else Some (MBLUE_OK, w)
      })"

definition call_nproc :: "addr \<Rightarrow> addr \<Rightarrow> 'u bus_world \<Rightarrow> (mblue_errcode \<times> 'u bus_world) option" where
  "call_nproc task msg w =
     (case nproc (bw_tasks w task) of Null_fn \<Rightarrow> None | Template_fn \<Rightarrow> template_msg_post task msg w)"

definition template_pend :: "bool \<Rightarrow> addr \<Rightarrow> 'u bus_world \<Rightarrow> (mblue_errcode \<times> 'u bus_world) pend option" where
  "template_pend interrupted task w = do {
     r \<leftarrow> semaphore_pend interrupted (call_sem (bw_tasks w task));
     Some (case r of Blocked \<Rightarrow> Blocked
           | Returns (rc, sem) \<Rightarrow> Returns (rc, upd_task task (call_sem_update (\<lambda>_. sem)) w))
   }"

definition template_post :: "addr \<Rightarrow> 'u bus_world \<Rightarrow> (mblue_errcode \<times> 'u bus_world) option" where
  "template_post task w = do {
     (rc, sem) \<leftarrow> semaphore_post (call_sem (bw_tasks w task));
     Some (rc, upd_task task (call_sem_update (\<lambda>_. sem)) w)
   }"

section \<open>Creating tasks\<close>

text \<open>\<^verbatim>\<open>_task_construct\<close> starts a thread and stores its handle.\<close>

definition task_create :: "nat \<Rightarrow> addr \<Rightarrow> 'u bus_world \<Rightarrow> (addr \<times> 'u bus_world) option" where
  "task_create thread task w =
     (let i = unat (bw_task_id w)
      in if i < MBLUE_MAX_TASKS_IN_SYSTEM
         then let w = upd_task task (t_id_update (\<lambda>_. int i)) w;
                  w = w\<lparr>bw_tm := (bw_tm w)(i := task), bw_task_id := bw_task_id w + 1\<rparr>
              in Some (task, upd_task task (t_obj_update (\<lambda>_. thread)) w)
         else None)"

definition sizeof_mblue_task :: u32 where
  "sizeof_mblue_task = 136"

definition task_start ::
    "nat \<Rightarrow> addr \<Rightarrow> int \<Rightarrow> addr \<Rightarrow> addr \<Rightarrow> u32 \<Rightarrow> u32 \<Rightarrow> nat \<Rightarrow> 'u bus_world \<Rightarrow> (addr \<times> 'u bus_world) option" where
  "task_start thread task_instance priority name stack stack_size elements_in_queue on_create w = do {
     (task, w) \<leftarrow> (if task_instance = 0 then world_malloc sizeof_mblue_task w else Some (task_instance, w));
     let task_in_heap = (task_instance = 0);
     if task = 0 then Some (0, w)
     else do {
       let w = upd_task task (\<lambda>t. t\<lparr>t_stack := stack, t_priority := priority, t_id := priority,
             t_name := name, t_stack_size := stack_size, t_on_create := on_create, tproc := Template_fn,
             nproc := Template_fn, tpend := Template_fn, tpost := Template_fn\<rparr>) w;
       (mq, hp) \<leftarrow> mblue_queue_alloc elements_in_queue (bw_heap w);
       let w = w\<lparr>bw_heap := hp\<rparr>;
       (case mq of
          None \<Rightarrow> if task_in_heap then do { w \<leftarrow> world_free task w; Some (0, w) } else Some (0, w)
        | Some (mq, data, q) \<Rightarrow>
            let w = upd_task task (\<lambda>t. t\<lparr>t_mq := mq\<rparr>) (w\<lparr>bw_queues := (bw_queues w)(mq := q)\<rparr>);
                w = upd_task task (\<lambda>t. t\<lparr>call_sem := snd (mblue_semaphore_construct (call_sem t)),
                      msg_sem := snd (mblue_semaphore_construct (msg_sem t))\<rparr>) w;
                w = w\<lparr>bw_seg_links := INIT_LIST_HEAD (list_head_of task) (bw_seg_links w)\<rparr>
            in task_create thread task w)
     }
   }"

definition create_mblue_task ::
    "nat \<Rightarrow> addr \<Rightarrow> int \<Rightarrow> addr \<Rightarrow> addr \<Rightarrow> u32 \<Rightarrow> u32 \<Rightarrow> nat \<Rightarrow> 'u bus_world \<Rightarrow> (addr \<times> 'u bus_world) option" where
  "create_mblue_task thread task_instance priority name stack stack_size elements_in_queue customized_create w =
     task_start thread task_instance priority name stack stack_size elements_in_queue customized_create w"

text \<open>The task whose thread is running.\<close>

definition get_current_context :: "nat \<Rightarrow> 'u bus_world \<Rightarrow> addr" where
  "get_current_context self w =
     (case find (\<lambda>t. t \<noteq> 0 \<and> t_obj (bw_tasks w t) = self) (map (bw_tm w) [0..<MBLUE_MAX_TASKS_IN_SYSTEM])
      of None \<Rightarrow> 0 | Some t \<Rightarrow> t)"

end
