(* ===== verification/System_Bus.thy ===== *)
theory System_Bus
  imports Bus_World
begin

text \<open>
  The system bus of \<^verbatim>\<open>middleware/components/system_bus/system_bus.c\<close> and the handlers of its service
  segment (\<^verbatim>\<open>service/system_bus/system_bus_service.c\<close>): registering and finding segments, subscribing to a
  segment, publishing a signal to its subscribers, passing a remote call on to its segment and passing
  the answer back to the caller. The loops over the lists take fuel; one step more than the list has
  entries is enough. \<open>None\<close> is a memory error. The functions of the applications that the bus calls
  back are a parameter.
\<close>

section \<open>Operations\<close>

definition bus_init :: "'u bus_world \<Rightarrow> mblue_errcode \<times> 'u bus_world" where
  "bus_init w =
     (let w = w\<lparr>bw_pub_links := fold (\<lambda>i. INIT_LIST_HEAD (list_head_of i)) [0..<SEGMENT_MAJOR_MAX] (bw_pub_links w),
                bw_call_links := fold (\<lambda>i. INIT_LIST_HEAD (list_head_of i)) [0..<SEGMENT_MAJOR_MAX] (bw_call_links w)\<rparr>;
          w = w\<lparr>bw_init_lock := snd (mblue_semaphore_construct (bw_init_lock w))\<rparr>
      in (MBLUE_OK, w))"

definition get_system_bus_instance :: "'u bus_world \<Rightarrow> 'u bus_world" where
  "get_system_bus_instance w =
     (if bw_sb_instance w then w else snd (bus_init (w\<lparr>bw_sb_instance := True\<rparr>)))"

definition bus_register :: "bool \<Rightarrow> addr \<Rightarrow> 'u bus_world \<Rightarrow> 'u bus_world pend option" where
  "bus_register interrupted ms w = do {
     let major = unat (s_major (bw_segs w ms));
     r \<leftarrow> (if major \<noteq> major_value MBLUE_BUS
          then do {
            r \<leftarrow> semaphore_pend interrupted (bw_init_lock w);
            Some (case r of Blocked \<Rightarrow> Blocked | Returns (rc, sem) \<Rightarrow> Returns (w\<lparr>bw_init_lock := sem\<rparr>))
          }
          else Some (Returns w));
     (case r of Blocked \<Rightarrow> Some Blocked
      | Returns w \<Rightarrow>
          if major < SEGMENT_MAJOR_MAX
          then Some (Returns (w\<lparr>bw_node_ms := (bw_node_ms w)(major := ms)\<rparr>)) else None)
   }"

text \<open>The variable \<^verbatim>\<open>rc\<close> of \<^verbatim>\<open>bus_contex_notify\<close> is never initialised: its first value is an argument.\<close>

fun notify_loop :: "nat \<Rightarrow> int \<Rightarrow> mblue_semaphore \<Rightarrow> (int \<times> mblue_semaphore) option" where
  "notify_loop 0 rc sem = Some (rc, sem)"
| "notify_loop (Suc n) rc sem = do {
     (r, sem) \<leftarrow> semaphore_post sem;
     notify_loop n (rc OR errcode_value r) sem
   }"

definition bus_contex_notify :: "int \<Rightarrow> 'u bus_world \<Rightarrow> (int \<times> 'u bus_world) option" where
  "bus_contex_notify rc w = do {
     (rc, sem) \<leftarrow> notify_loop SEGMENT_MAJOR_MAX rc (bw_init_lock w);
     Some (rc, w\<lparr>bw_init_lock := sem\<rparr>)
   }"

definition bus_get_segment :: "nat \<Rightarrow> 'u bus_world \<Rightarrow> addr option" where
  "bus_get_segment major w = (if major < SEGMENT_MAJOR_MAX then Some (bw_node_ms w major) else None)"

definition sizeof_subscriber_info :: u32 where
  "sizeof_subscriber_info = 12"

text \<open>The result of \<^verbatim>\<open>mblue_malloc\<close> is not checked.\<close>

definition bus_subscribe :: "addr \<Rightarrow> nat \<Rightarrow> 'u bus_world \<Rightarrow> (mblue_errcode \<times> 'u bus_world) option" where
  "bus_subscribe ms major w =
     (if major < SEGMENT_MAJOR_MAX
      then do {
        (suber, w) \<leftarrow> world_malloc sizeof_subscriber_info w;
        if suber = 0 then None
        else let w = w\<lparr>bw_subs := (bw_subs w)(suber := ms)\<rparr>
             in Some (MBLUE_OK,
                  w\<lparr>bw_pub_links := list_add_tail (list_node_of suber) (list_head_of major) (bw_pub_links w)\<rparr>)
      }
      else None)"

text \<open>\<^verbatim>\<open>memcpy\<close> of a whole message copies its list node as well.\<close>

definition copy_message :: "addr \<Rightarrow> addr \<Rightarrow> 'u bus_world \<Rightarrow> 'u bus_world" where
  "copy_message replica msg w =
     w\<lparr>bw_msgs := (bw_msgs w)\<lparr>ms_pool := (ms_pool (bw_msgs w))(replica := msg_at w msg),
         ms_links := set_prev (msg_node replica) (lprev (ms_links (bw_msgs w)) (msg_node msg))
           (set_next (msg_node replica) (lnext (ms_links (bw_msgs w)) (msg_node msg)) (ms_links (bw_msgs w)))\<rparr>\<rparr>"

definition publish_to :: "addr \<Rightarrow> addr \<Rightarrow> 'u bus_world \<Rightarrow> 'u bus_world option" where
  "publish_to ms msg w =
     (let dst = mblue_segment_get_context ms w
      in if dst \<noteq> 0 \<and> nproc (bw_tasks w dst) \<noteq> Null_fn
         then let (replica, w) = world_alloc w
              in if replica = 0 then None
                 else do {
                   let w = copy_message replica msg w;
                   let w = world_get replica w;
                   let w = upd_msg replica (m_dst_update (\<lambda>_. ms)) w;
                   (rc, w) \<leftarrow> call_nproc dst replica w;
                   Some w
                 }
         else Some w)"

fun publish_loop ::
    "nat \<Rightarrow> addr \<Rightarrow> addr \<Rightarrow> addr \<Rightarrow> mblue_errcode \<Rightarrow> 'u bus_world \<Rightarrow> (mblue_errcode \<times> 'u bus_world) option" where
  "publish_loop 0 head msg node rc w = None"
| "publish_loop (Suc fuel) head msg node rc w =
     (if node = head then Some (rc, w)
      else let suber = list_entry node
           in if live w suber
              then let ms = bw_subs w suber
                   in if ms = 0 then Some (MBLUE_ERR_CORRUPT_MEM, w)
                      else do {
                        w \<leftarrow> publish_to ms msg w;
                        publish_loop fuel head msg (lnext (bw_pub_links w) node) MBLUE_OK w
                      }
              else None)"

definition bus_signal :: "nat \<Rightarrow> addr \<Rightarrow> 'u bus_world \<Rightarrow> (mblue_errcode \<times> 'u bus_world) option" where
  "bus_signal fuel msg w =
     (let major = unat (GET_MAJOR (m_code (msg_at w msg)))
      in if major < SEGMENT_MAJOR_MAX
         then let head = list_head_of major
              in if list_empty head (bw_pub_links w) then Some (MBLUE_ERR_UNKNOWN, world_release msg w)
                 else do {
                   (rc, w) \<leftarrow> publish_loop fuel head msg (lnext (bw_pub_links w) head) MBLUE_ERR_UNKNOWN w;
                   Some (rc, world_release msg w)
                 }
         else None)"

definition sizeof_pending_call :: u32 where
  "sizeof_pending_call = 24"

text \<open>The second half of \<^verbatim>\<open>bus_call\<close>: passing the message on. When the task has no \<^verbatim>\<open>nproc\<close> the pending
  call is released, although it stays linked; without a pending call an uninitialised pointer is.\<close>

definition bus_call_deliver ::
    "addr option \<Rightarrow> addr \<Rightarrow> addr \<Rightarrow> 'u bus_world \<Rightarrow> (mblue_errcode \<times> 'u bus_world) option" where
  "bus_call_deliver call ms msg w =
     (let dst = mblue_segment_get_context ms w
      in if nproc (bw_tasks w dst) = Null_fn
         then (case call of None \<Rightarrow> None
               | Some c \<Rightarrow> do { w \<leftarrow> world_free c w; Some (MBLUE_ERR_UNKNOWN, w) })
         else do {
           let w = world_get msg w;
           let w = upd_msg msg (m_dst_update (\<lambda>_. ms)) w;
           (rc, w) \<leftarrow> call_nproc dst msg w;
           Some (MBLUE_OK, w)
         })"

definition bus_call :: "addr \<Rightarrow> addr \<Rightarrow> 'u bus_world \<Rightarrow> (mblue_errcode \<times> 'u bus_world) option" where
  "bus_call msg union_info w =
     (let type = GET_TYPE (m_code (msg_at w msg));
          major = unat (GET_MAJOR (m_code (msg_at w msg)))
      in if major < SEGMENT_MAJOR_MAX
         then let ms = bw_node_ms w major
              in if ms = 0 \<or> mblue_segment_get_context ms w = 0 then Some (MBLUE_ERR_UNKNOWN, w)
                 else if \<not> (unat type = type_value ASYNC_CALL \<and> union_info = 0)
                 then do {
                   (call, w) \<leftarrow> world_malloc sizeof_pending_call w;
                   if call = 0 then Some (MBLUE_ERR_UNKNOWN, w)
                   else do {
                     let w = (if unat type = type_value SYNC_CALL
                              then upd_msg msg (m_extra_update (\<lambda>_. union_info)) w else w);
                     let w = w\<lparr>bw_calls := (bw_calls w)(call :=
                           \<lparr>pc_msg = msg, pc_src = 0, pc_call_type = type,
                            pc_notifier = (if unat type = type_value ASYNC_CALL then union_info else 0)\<rparr>)\<rparr>;
                     let w = w\<lparr>bw_call_links :=
                           list_add_tail (list_node_of call) (list_head_of major) (bw_call_links w)\<rparr>;
                     bus_call_deliver (Some call) ms msg w
                   }
                 }
                 else bus_call_deliver None ms msg w
         else None)"

text \<open>What the bus runs back in the applications: the function of a notifier, with the answer and the
  user data of the caller.\<close>

type_synonym 'u notify_fn = "nat \<Rightarrow> SMART_DATA \<Rightarrow> nat \<Rightarrow> 'u bus_world \<Rightarrow> 'u bus_world option"

definition answer_sync :: "addr \<Rightarrow> addr \<Rightarrow> 'u bus_world \<Rightarrow> 'u bus_world option" where
  "answer_sync smsg dmsg w =
     (let task = m_src (msg_at w smsg); p = m_extra (msg_at w smsg)
      in if task = 0 then Some w
         else if p = 0 then None
         else let w = w\<lparr>bw_cells := (bw_cells w)(p := smart_payload (msg_at w dmsg))\<rparr>
              in if tpost (bw_tasks w task) \<noteq> Null_fn
                 then do { (rc, w) \<leftarrow> template_post task w; Some w } else Some w)"

definition answer_async ::
    "'u notify_fn \<Rightarrow> addr \<Rightarrow> addr \<Rightarrow> 'u bus_world \<Rightarrow> 'u bus_world option" where
  "answer_async notify call dmsg w =
     (let notifier = pc_notifier (bw_calls w call)
      in if live w notifier
         then do {
           w \<leftarrow> notify (pn_notify (bw_notifiers w notifier)) (smart_payload (msg_at w dmsg))
                 (pn_user_data (bw_notifiers w notifier)) w;
           world_free notifier w
         }
         else None)"

definition answer_call ::
    "'u notify_fn \<Rightarrow> addr \<Rightarrow> addr \<Rightarrow> 'u bus_world \<Rightarrow> (mblue_errcode \<times> 'u bus_world) option" where
  "answer_call notify call dmsg w = do {
     let smsg = pc_msg (bw_calls w call);
     let type = unat (pc_call_type (bw_calls w call));
     w \<leftarrow> (if type = type_value SYNC_CALL then answer_sync smsg dmsg w
          else if type = type_value ASYNC_CALL then answer_async notify call dmsg w
          else Some w);
     let w = world_release smsg w;
     let w = w\<lparr>bw_call_links := list_del (list_node_of call) (bw_call_links w)\<rparr>;
     w \<leftarrow> world_free call w;
     Some (MBLUE_OK, w)
   }"

fun return_loop ::
    "nat \<Rightarrow> 'u notify_fn \<Rightarrow> addr \<Rightarrow> addr \<Rightarrow> addr \<Rightarrow> 'u bus_world \<Rightarrow> (mblue_errcode \<times> 'u bus_world) option" where
  "return_loop 0 notify head dmsg node w = None"
| "return_loop (Suc fuel) notify head dmsg node w =
     (if node = head then Some (MBLUE_ERR_UNKNOWN, w)
      else let call = list_entry node
           in if live w call
              then let smsg = pc_msg (bw_calls w call)
                   in if smsg = 0 then Some (MBLUE_ERR_CORRUPT_MEM, w)
                      else if m_seq (msg_at w dmsg) \<noteq> m_seq (msg_at w smsg)
                      then return_loop fuel notify head dmsg (lnext (bw_call_links w) node) w
                      else answer_call notify call dmsg w
              else None)"

definition bus_call_return ::
    "nat \<Rightarrow> 'u notify_fn \<Rightarrow> addr \<Rightarrow> 'u bus_world \<Rightarrow> (mblue_errcode \<times> 'u bus_world) option" where
  "bus_call_return fuel notify dmsg w =
     (let major = unat (GET_MAJOR (m_code (msg_at w dmsg)))
      in if major < SEGMENT_MAJOR_MAX
         then let head = list_head_of major
              in if list_empty head (bw_call_links w) then Some (MBLUE_ERR_UNKNOWN, world_release dmsg w)
                 else do {
                   (rc, w) \<leftarrow> return_loop fuel notify head dmsg (lnext (bw_call_links w) head) w;
                   Some (rc, world_release dmsg w)
                 }
         else None)"

section \<open>The service segment\<close>

definition handle_subscribe :: "addr \<Rightarrow> 'u bus_world \<Rightarrow> (mblue_errcode \<times> 'u bus_world) option" where
  "handle_subscribe msg w =
     (let major = unat (GET_MAJOR (m_code (msg_at w msg)));
          coming_ms = m_extra (msg_at w msg);
          w = world_release msg w
      in bus_subscribe coming_ms major w)"

definition handle_signal :: "nat \<Rightarrow> addr \<Rightarrow> 'u bus_world \<Rightarrow> (mblue_errcode \<times> 'u bus_world) option" where
  "handle_signal fuel msg w = bus_signal fuel msg w"

definition handle_call :: "addr \<Rightarrow> 'u bus_world \<Rightarrow> (mblue_errcode \<times> 'u bus_world) option" where
  "handle_call msg w = bus_call msg (m_extra (msg_at w msg)) w"

definition handle_call_return ::
    "nat \<Rightarrow> 'u notify_fn \<Rightarrow> addr \<Rightarrow> 'u bus_world \<Rightarrow> (mblue_errcode \<times> 'u bus_world) option" where
  "handle_call_return fuel notify msg w = bus_call_return fuel notify msg w"

definition system_bus_service_init :: "addr \<Rightarrow> 'u bus_world \<Rightarrow> 'u bus_world option" where
  "system_bus_service_init ms w = do {
     let w = init_segment ms w;
     let w = get_system_bus_instance w;
     let w = upd_seg ms (s_major_update (\<lambda>_. of_nat (major_value MBLUE_BUS))) w;
     w \<leftarrow> mblue_segment_set_handler ms (type_value SUBSCRIBE) Handle_subscribe w;
     w \<leftarrow> mblue_segment_set_handler ms (type_value SIGNAL) Handle_signal w;
     w \<leftarrow> mblue_segment_set_handler ms (type_value SYNC_CALL) Handle_call w;
     w \<leftarrow> mblue_segment_set_handler ms (type_value ASYNC_CALL) Handle_call w;
     w \<leftarrow> mblue_segment_set_handler ms (type_value CALL_RETURN) Handle_call_return w;
     Some (upd_seg ms (on_launch_update (\<lambda>_. Bus_launch)) w)
   }"

text \<open>What the service leaves in the handler array of its segment.\<close>

definition bus_handlers :: "nat \<Rightarrow> segment_handler" where
  "bus_handlers = (\<lambda>_. Null_handler)(type_value SUBSCRIBE := Handle_subscribe, type_value SIGNAL := Handle_signal,
     type_value SYNC_CALL := Handle_call, type_value ASYNC_CALL := Handle_call, type_value CALL_RETURN := Handle_call_return)"

lemma segs_bus_instance [simp]: "bw_segs (get_system_bus_instance w) = bw_segs w"
  by (simp add: get_system_bus_instance_def bus_init_def Let_def)

lemma system_bus_service_handlers:
  assumes "system_bus_service_init ms w = Some w'"
  shows "handler_array (bw_segs w' ms) = bus_handlers" "s_major (bw_segs w' ms) = 0" "on_launch (bw_segs w' ms) = Bus_launch"
  using assms by (auto simp: system_bus_service_init_def mblue_segment_set_handler_def upd_seg_def Let_def
      MESSAGE_TYPE_MAX_def bus_handlers_def init_segment_def fun_eq_iff)

end
