(* ===== verification/Ipc.thy ===== *)
theory Ipc
  imports System_Bus
begin

text \<open>
  The ipc facade of \<^verbatim>\<open>ipc/ipc.c\<close> and the senders of \<^verbatim>\<open>ipc/ipc_helper.c\<close>. Sending has three parts between
  which other tasks run: the message is posted to the queue of a task; then its type is read again
  from the message; then, for a synchronous call, the sender waits on its semaphore. Each part is a
  definition of its own, and what the sender does next is a value.
\<close>

section \<open>The facade\<close>

definition ipc_init :: "addr \<Rightarrow> 'u bus_world \<Rightarrow> mblue_errcode \<times> 'u bus_world" where
  "ipc_init task w =
     (if task \<noteq> 0 then (MBLUE_OK, w\<lparr>bw_ipc := Some task\<rparr>) else (MBLUE_ERR_SYSBUS, w\<lparr>bw_ipc := Some 0\<rparr>))"

text \<open>The second component of the result tells whether the facade was created by this call. The
  facade is a static object: \<open>Some 0\<close> is the facade without a task.\<close>

definition ipc_facade_create_instance :: "addr \<Rightarrow> 'u bus_world \<Rightarrow> bool \<times> 'u bus_world" where
  "ipc_facade_create_instance task w =
     (if bw_ipc w = None then (True, snd (ipc_init task w)) else (False, w))"

definition ipc_get_instance :: "'u bus_world \<Rightarrow> addr option" where
  "ipc_get_instance w = bw_ipc w"

text \<open>The search for the bus segment among the segments of the main task. It stops at the first
  segment with that number and leaves \<^verbatim>\<open>dst\<close> null when there is none.\<close>

fun find_bus_loop :: "nat \<Rightarrow> addr \<Rightarrow> addr \<Rightarrow> addr \<Rightarrow> 'u bus_world \<Rightarrow> (mblue_errcode \<times> 'u bus_world) option" where
  "find_bus_loop 0 head msg node w = None"
| "find_bus_loop (Suc fuel) head msg node w =
     (if node = head then Some (MBLUE_OK, w)
      else let tmp = list_entry node
           in if tmp = 0 then Some (MBLUE_ERR_CORRUPT_MEM, w)
              else if unat (s_major (bw_segs w tmp)) = major_value MBLUE_BUS
              then Some (MBLUE_OK, upd_msg msg (m_dst_update (\<lambda>_. tmp)) w)
              else find_bus_loop fuel head msg (lnext (bw_seg_links w) node) w)"

definition ipc_route :: "nat \<Rightarrow> addr \<Rightarrow> 'u bus_world \<Rightarrow> ((mblue_errcode \<times> addr) \<times> 'u bus_world) option" where
  "ipc_route fuel msg w =
     (let ms = m_dst (msg_at w msg)
      in if ms = 0
         then do {
           dst \<leftarrow> ipc_get_instance w;
           if dst = 0 then None
           else do {
             (rc, w) \<leftarrow> find_bus_loop fuel (list_head_of dst) msg (lnext (bw_seg_links w) (list_head_of dst)) w;
             Some ((rc, dst), w)
           }
         }
         else Some ((MBLUE_OK, s_context (bw_segs w ms)), w))"

text \<open>What the sender does next: it is done with a result, or it still has to look at the type of
  the message it posted, or it waits for the answer on the semaphore of the task.\<close>

datatype sender = Sent mblue_errcode | Posted addr | Waits addr

definition ipc_invoke_post :: "nat \<Rightarrow> addr \<Rightarrow> 'u bus_world \<Rightarrow> (sender \<times> 'u bus_world) option" where
  "ipc_invoke_post fuel msg w = do {
     ((rc, dst), w) \<leftarrow> ipc_route fuel msg w;
     if rc \<noteq> MBLUE_OK then Some (Sent rc, w)
     else do {
       (r, w) \<leftarrow> call_nproc dst msg w;
       if r \<noteq> MBLUE_OK then Some (Sent MBLUE_ERR_SYSBUS, w) else Some (Posted msg, w)
     }
   }"

definition ipc_invoke_check :: "addr \<Rightarrow> 'u bus_world \<Rightarrow> sender" where
  "ipc_invoke_check msg w =
     (if unat (GET_TYPE (m_code (msg_at w msg))) = type_value SYNC_CALL
      then let src = m_src (msg_at w msg) in if src = 0 then Sent MBLUE_ERR_SYSBUS else Waits src
      else Sent MBLUE_OK)"

definition ipc_invoke_wait :: "bool \<Rightarrow> addr \<Rightarrow> 'u bus_world \<Rightarrow> (mblue_errcode \<times> 'u bus_world) pend option" where
  "ipc_invoke_wait interrupted src w =
     (case tpend (bw_tasks w src) of Null_fn \<Rightarrow> None | Template_fn \<Rightarrow> template_pend interrupted src w)"

section \<open>The senders\<close>

definition INIT_MESSAGE_WITH ::
    "addr \<Rightarrow> addr \<Rightarrow> u16 \<Rightarrow> u16 \<Rightarrow> addr \<Rightarrow> u32 \<Rightarrow> SMART_DATA \<Rightarrow> addr \<Rightarrow> 'u bus_world \<Rightarrow> 'u bus_world" where
  "INIT_MESSAGE_WITH msg task seq r dst code input extra w =
     upd_msg msg (\<lambda>m. m\<lparr>m_seq := seq, m_ref := r, m_code := code, m_src := task, m_dst := dst,
       smart_payload := input, m_extra := extra\<rparr>) w"

definition init_message ::
    "addr \<Rightarrow> u16 \<Rightarrow> MESSAGE_TYPE \<Rightarrow> u16 \<Rightarrow> u16 \<Rightarrow> addr \<Rightarrow> SMART_DATA \<Rightarrow> addr \<Rightarrow> addr \<Rightarrow> addr \<Rightarrow> 'u bus_world \<Rightarrow> addr \<times> 'u bus_world" where
  "init_message task seq type major minor dst input out extra pn w =
     (let (msg, w) = world_alloc w
      in if msg = 0 then (0, w)
         else let code = message_code (of_nat (type_value type)) (ucast major) (ucast minor);
                  w = INIT_MESSAGE_WITH msg task seq 0 dst code input extra w
              in (msg,
                  if type = SYNC_CALL \<or> type = ASYNC_CALL
                  then upd_msg msg (\<lambda>m. m\<lparr>m_ref := m_ref m + 1, m_extra := (if type = SYNC_CALL then out else pn)\<rparr>) w
                  else w))"

definition send_message ::
    "nat \<Rightarrow> addr \<Rightarrow> u16 \<Rightarrow> MESSAGE_TYPE \<Rightarrow> u16 \<Rightarrow> u16 \<Rightarrow> addr \<Rightarrow> SMART_DATA \<Rightarrow> addr \<Rightarrow> addr \<Rightarrow> addr \<Rightarrow> 'u bus_world \<Rightarrow>
     (sender \<times> 'u bus_world) option" where
  "send_message fuel src seq type major minor dst input out extra pn w =
     (let (msg, w) = init_message src seq type major minor dst input out extra pn w
      in if msg = 0 then Some (Sent MBLUE_ERR_NOMEM, w) else ipc_invoke_post fuel msg w)"

text \<open>\<^verbatim>\<open>mblue_message_get_sequence\<close> as an argument of type \<^verbatim>\<open>uint16_t\<close>.\<close>

definition next_seq :: "'u bus_world \<Rightarrow> u16 \<times> 'u bus_world" where
  "next_seq w = (let (q, s) = mblue_message_get_sequence (bw_msgs w) in (ucast q, w\<lparr>bw_msgs := s\<rparr>))"

definition mblue_subscribe :: "nat \<Rightarrow> addr \<Rightarrow> u16 \<Rightarrow> 'u bus_world \<Rightarrow> (sender \<times> 'u bus_world) option" where
  "mblue_subscribe fuel ms major w =
     (let (seq, w) = next_seq w
      in send_message fuel (mblue_segment_get_context ms w) seq SUBSCRIBE major 0 0 0 0 ms 0 w)"

text \<open>A synchronous call: \<open>out\<close> is the caller's variable. When the sender is done the result is read
  from it, whatever the sender's result is.\<close>

definition mblue_remote_call ::
    "nat \<Rightarrow> nat \<Rightarrow> addr \<Rightarrow> u16 \<Rightarrow> u16 \<Rightarrow> SMART_DATA \<Rightarrow> 'u bus_world \<Rightarrow> (sender \<times> 'u bus_world) option" where
  "mblue_remote_call fuel self out major minor input w =
     (let (seq, w) = next_seq w
      in send_message fuel (get_current_context self w) seq SYNC_CALL major minor 0 input out 0 0 w)"

definition mblue_remote_call_result :: "addr \<Rightarrow> 'u bus_world \<Rightarrow> SMART_DATA" where
  "mblue_remote_call_result out w = bw_cells w out"

definition sizeof_pending_notifier :: u32 where
  "sizeof_pending_notifier = 8"

definition mblue_remote_call_async ::
    "nat \<Rightarrow> nat \<Rightarrow> u16 \<Rightarrow> u16 \<Rightarrow> SMART_DATA \<Rightarrow> nat \<Rightarrow> nat \<Rightarrow> 'u bus_world \<Rightarrow> (sender \<times> 'u bus_world) option" where
  "mblue_remote_call_async fuel self major minor input notify data w = do {
     (pn, w) \<leftarrow> world_malloc sizeof_pending_notifier w;
     if pn = 0 then Some (Sent MBLUE_ERR_NOMEM, w)
     else let w = w\<lparr>bw_notifiers := (bw_notifiers w)(pn := \<lparr>pn_notify = notify, pn_user_data = data\<rparr>)\<rparr>;
              (seq, w) = next_seq w
          in send_message fuel (get_current_context self w) seq ASYNC_CALL major minor 0 input 0 0 pn w
   }"

definition target_signal ::
    "nat \<Rightarrow> addr \<Rightarrow> u16 \<Rightarrow> u16 \<Rightarrow> addr \<Rightarrow> SMART_DATA \<Rightarrow> addr \<Rightarrow> 'u bus_world \<Rightarrow> (sender \<times> 'u bus_world) option" where
  "target_signal fuel source major minor dest data extra w =
     (let (seq, w) = next_seq w in send_message fuel source seq SIGNAL major minor dest data 0 extra 0 w)"

definition local_signal ::
    "nat \<Rightarrow> addr \<Rightarrow> u16 \<Rightarrow> addr \<Rightarrow> SMART_DATA \<Rightarrow> 'u bus_world \<Rightarrow> (sender \<times> 'u bus_world) option" where
  "local_signal fuel src mi dest data w = target_signal fuel src 0 mi dest data 0 w"

definition broadcast_signal_with_context ::
    "nat \<Rightarrow> addr \<Rightarrow> u16 \<Rightarrow> u16 \<Rightarrow> SMART_DATA \<Rightarrow> 'u bus_world \<Rightarrow> (sender \<times> 'u bus_world) option" where
  "broadcast_signal_with_context fuel c ma mi data w =
     (let (seq, w) = next_seq w in send_message fuel c seq SIGNAL ma mi 0 data 0 0 0 w)"

definition broadcast_signal ::
    "nat \<Rightarrow> nat \<Rightarrow> u16 \<Rightarrow> u16 \<Rightarrow> SMART_DATA \<Rightarrow> 'u bus_world \<Rightarrow> (sender \<times> 'u bus_world) option" where
  "broadcast_signal fuel self ma mi data w =
     (let (seq, w) = next_seq w
      in send_message fuel (get_current_context self w) seq SIGNAL ma mi 0 data 0 0 0 w)"

definition ipc_return ::
    "nat \<Rightarrow> nat \<Rightarrow> u16 \<Rightarrow> u16 \<Rightarrow> SMART_DATA \<Rightarrow> 'u bus_world \<Rightarrow> (sender \<times> 'u bus_world) option" where
  "ipc_return fuel self major seq data w =
     send_message fuel (get_current_context self w) seq CALL_RETURN major 0 0 data 0 0 0 w"

text \<open>The fields of the code a message is sent with.\<close>

lemma sent_code:
  fixes major minor :: u16 and type :: MESSAGE_TYPE
  assumes "unat major < 2 ^ 12"
  shows "unat (GET_TYPE (message_code (of_nat (type_value type)) (ucast major) (ucast minor))) = type_value type"
    "unat (GET_MAJOR (message_code (of_nat (type_value type)) (ucast major) (ucast minor))) = unat major"
    "GET_MINOR (message_code (of_nat (type_value type)) (ucast major) (ucast minor)) = ucast minor"
proof -
  have t: "unat (of_nat (type_value type) :: u32) = type_value type" "type_value type < 2 ^ 4"
    by (cases type; simp)+
  have m: "unat (ucast major :: u32) = unat major" "unat (ucast minor :: u32) = unat minor"
    by (simp_all add: unsigned_ucast_eq take_bit_nat_eq_self_iff unsigned_less [THEN less_le_trans])
  have "unat minor < 2 ^ 16" using unsigned_less [of minor, where 'a = nat] by simp
  with code_fields [of "of_nat (type_value type)" "ucast major" "ucast minor"] t m assms
  show "unat (GET_TYPE (message_code (of_nat (type_value type)) (ucast major) (ucast minor))) = type_value type"
    "unat (GET_MAJOR (message_code (of_nat (type_value type)) (ucast major) (ucast minor))) = unat major"
    "GET_MINOR (message_code (of_nat (type_value type)) (ucast major) (ucast minor)) = ucast minor"
    by simp_all
qed

end
