(* ===== verification/Pb_Common.thy ===== *)
theory Pb_Common
  imports Mblue_Prelude
begin

text \<open>
  The shared part of the protocol-buffer library
  (\<^verbatim>\<open>src/middleware/components/protocal_buffer/pb.h\<close> and \<^verbatim>\<open>pb_common.c\<close>) in the configuration the
  build uses: no \<^verbatim>\<open>PB_ENABLE_MALLOC\<close>, 8-bit \<^verbatim>\<open>pb_size_t\<close>, 64-bit integers, error messages on. It
  holds the memory of C structs as bytes at addresses, the outcome of a stream operation, the field
  descriptors with the macros that build them, and the field iterator. A descriptor array is the
  list of its entries before \<^verbatim>\<open>PB_LAST_FIELD\<close>, so reading one entry past the list gives
  \<^verbatim>\<open>PB_LAST_FIELD\<close>. Addresses are integers: the code's pointer arithmetic stays inside one struct.
\<close>

section \<open>Struct memory\<close>

type_synonym cmem = "int \<Rightarrow> u8"

primrec load_bytes :: "cmem \<Rightarrow> int \<Rightarrow> nat \<Rightarrow> u8 list" where
  "load_bytes m a 0 = []"
| "load_bytes m a (Suc n) = m a # load_bytes m (a + 1) n"

definition store_bytes :: "cmem \<Rightarrow> int \<Rightarrow> u8 list \<Rightarrow> cmem" where
  "store_bytes m a bs = (\<lambda>x. if a \<le> x \<and> x < a + int (length bs) then bs ! nat (x - a) else m x)"

text \<open>Little-endian integers of \<^verbatim>\<open>n\<close> bytes, the byte order of the targets.\<close>

primrec le_word :: "u8 list \<Rightarrow> 'a::len word" where
  "le_word [] = 0"
| "le_word (b # bs) = ucast b OR push_bit 8 (le_word bs)"

primrec le_bytes :: "nat \<Rightarrow> 'a::len word \<Rightarrow> u8 list" where
  "le_bytes 0 w = []"
| "le_bytes (Suc n) w = ucast w # le_bytes n (drop_bit 8 w)"

definition load8 :: "cmem \<Rightarrow> int \<Rightarrow> u8" where "load8 m a = m a"
definition load16 :: "cmem \<Rightarrow> int \<Rightarrow> u16" where "load16 m a = le_word (load_bytes m a 2)"
definition load32 :: "cmem \<Rightarrow> int \<Rightarrow> u32" where "load32 m a = le_word (load_bytes m a 4)"
definition load64 :: "cmem \<Rightarrow> int \<Rightarrow> u64" where "load64 m a = le_word (load_bytes m a 8)"

definition store8 :: "cmem \<Rightarrow> int \<Rightarrow> u8 \<Rightarrow> cmem" where "store8 m a v = m(a := v)"
definition store16 :: "cmem \<Rightarrow> int \<Rightarrow> u16 \<Rightarrow> cmem" where "store16 m a v = store_bytes m a (le_bytes 2 v)"
definition store32 :: "cmem \<Rightarrow> int \<Rightarrow> u32 \<Rightarrow> cmem" where "store32 m a v = store_bytes m a (le_bytes 4 v)"
definition store64 :: "cmem \<Rightarrow> int \<Rightarrow> u64 \<Rightarrow> cmem" where "store64 m a v = store_bytes m a (le_bytes 8 v)"

text \<open>A pointer variable holds the 32-bit word of an address.\<close>

definition load_ptr :: "cmem \<Rightarrow> int \<Rightarrow> int" where "load_ptr m a = uint (load32 m a)"

section \<open>Outcomes\<close>

text \<open>A stream operation returns true with a value (\<open>Val\<close>), returns false (\<open>Fail\<close>), or has no
  defined result (\<open>Stuck\<close>: a read outside an array, a call through a null or missing table entry, a
  loop that a callback keeps from ending). \<open>seqm\<close> is the code's \<^verbatim>\<open>if (!f(stream)) return false;\<close>.\<close>

datatype ('a, 's) pb_out = Stuck | Fail 's | Val 'a 's

definition seqm :: "('s \<Rightarrow> ('a, 's) pb_out) \<Rightarrow> ('a \<Rightarrow> 's \<Rightarrow> ('b, 's) pb_out) \<Rightarrow> 's \<Rightarrow> ('b, 's) pb_out" where
  "seqm f g s = (case f s of Stuck \<Rightarrow> Stuck | Fail s' \<Rightarrow> Fail s' | Val a s' \<Rightarrow> g a s')"

text \<open>\<^verbatim>\<open>PB_SET_ERROR\<close> keeps the first message.\<close>

definition PB_SET_ERROR :: "string option \<Rightarrow> string \<Rightarrow> string option" where
  "PB_SET_ERROR e msg = (case e of None \<Rightarrow> Some msg | Some x \<Rightarrow> Some x)"

section \<open>Field descriptors\<close>

datatype pb_field =
  Pb_Field (fd_tag: u8) (fd_type: u8) (data_offset: u8) (size_offset: u8)
    (data_size: u8) (array_size: u8) (fd_ptr: pb_ptr)
and pb_ptr =
    Pb_Null
  | Pb_Fields "pb_field list"
  | Pb_Default "u8 list"

definition PB_LAST_FIELD :: pb_field where
  "PB_LAST_FIELD = Pb_Field 0 0 0 0 0 0 Pb_Null"

definition PB_SIZE_MAX :: u8 where "PB_SIZE_MAX = -1"

definition PB_LTYPE :: "u8 \<Rightarrow> u8" where "PB_LTYPE x = x AND 0x0F"
definition PB_HTYPE :: "u8 \<Rightarrow> u8" where "PB_HTYPE x = x AND 0x30"
definition PB_ATYPE :: "u8 \<Rightarrow> u8" where "PB_ATYPE x = x AND 0xC0"

definition PB_LTYPE_VARINT :: u8 where "PB_LTYPE_VARINT = 0x00"
definition PB_LTYPE_UVARINT :: u8 where "PB_LTYPE_UVARINT = 0x01"
definition PB_LTYPE_SVARINT :: u8 where "PB_LTYPE_SVARINT = 0x02"
definition PB_LTYPE_FIXED32 :: u8 where "PB_LTYPE_FIXED32 = 0x03"
definition PB_LTYPE_FIXED64 :: u8 where "PB_LTYPE_FIXED64 = 0x04"
definition PB_LTYPE_LAST_PACKABLE :: u8 where "PB_LTYPE_LAST_PACKABLE = 0x04"
definition PB_LTYPE_BYTES :: u8 where "PB_LTYPE_BYTES = 0x05"
definition PB_LTYPE_STRING :: u8 where "PB_LTYPE_STRING = 0x06"
definition PB_LTYPE_SUBMESSAGE :: u8 where "PB_LTYPE_SUBMESSAGE = 0x07"
definition PB_LTYPE_EXTENSION :: u8 where "PB_LTYPE_EXTENSION = 0x08"
definition PB_LTYPE_FIXED_LENGTH_BYTES :: u8 where "PB_LTYPE_FIXED_LENGTH_BYTES = 0x09"

definition PB_HTYPE_REQUIRED :: u8 where "PB_HTYPE_REQUIRED = 0x00"
definition PB_HTYPE_OPTIONAL :: u8 where "PB_HTYPE_OPTIONAL = 0x10"
definition PB_HTYPE_REPEATED :: u8 where "PB_HTYPE_REPEATED = 0x20"
definition PB_HTYPE_ONEOF :: u8 where "PB_HTYPE_ONEOF = 0x30"

definition PB_ATYPE_STATIC :: u8 where "PB_ATYPE_STATIC = 0x00"
definition PB_ATYPE_POINTER :: u8 where "PB_ATYPE_POINTER = 0x80"
definition PB_ATYPE_CALLBACK :: u8 where "PB_ATYPE_CALLBACK = 0x40"

lemmas pb_consts =
  PB_LTYPE_VARINT_def PB_LTYPE_UVARINT_def PB_LTYPE_SVARINT_def PB_LTYPE_FIXED32_def
  PB_LTYPE_FIXED64_def PB_LTYPE_LAST_PACKABLE_def PB_LTYPE_BYTES_def PB_LTYPE_STRING_def
  PB_LTYPE_SUBMESSAGE_def PB_LTYPE_EXTENSION_def PB_LTYPE_FIXED_LENGTH_BYTES_def
  PB_HTYPE_REQUIRED_def PB_HTYPE_OPTIONAL_def PB_HTYPE_REPEATED_def PB_HTYPE_ONEOF_def
  PB_ATYPE_STATIC_def PB_ATYPE_POINTER_def PB_ATYPE_CALLBACK_def

text \<open>Wire types are the enumeration's numbers, as the decoder casts any three bits to them.\<close>

type_synonym pb_wire_type = u32

definition PB_WT_VARINT :: pb_wire_type where "PB_WT_VARINT = 0"
definition PB_WT_64BIT :: pb_wire_type where "PB_WT_64BIT = 1"
definition PB_WT_STRING :: pb_wire_type where "PB_WT_STRING = 2"
definition PB_WT_32BIT :: pb_wire_type where "PB_WT_32BIT = 5"

lemmas pb_wts = PB_WT_VARINT_def PB_WT_64BIT_def PB_WT_STRING_def PB_WT_32BIT_def

text \<open>The bytes array of the 8-bit \<^verbatim>\<open>pb_size_t\<close>: the size, then the bytes at offset 1.\<close>

definition PB_BYTES_ARRAY_T_ALLOCSIZE :: "u32 \<Rightarrow> u32" where
  "PB_BYTES_ARRAY_T_ALLOCSIZE n = n + 1"

text \<open>The macros of the generated tables. A struct member is given by its offset and size; the
  offset of \<^verbatim>\<open>has_m\<close>, \<^verbatim>\<open>m_count\<close> or \<^verbatim>\<open>which_u\<close> by its own offset.\<close>

definition PB_DATAOFFSET_FIRST :: "nat \<Rightarrow> u8" where
  "PB_DATAOFFSET_FIRST m1 = of_nat m1"

definition PB_DATAOFFSET_OTHER :: "nat \<Rightarrow> nat \<Rightarrow> nat \<Rightarrow> u8" where
  "PB_DATAOFFSET_OTHER m1 m2 sz2 = of_int (int m1 - int m2 - int sz2)"

definition PB_DATAOFFSET_UNION :: u8 where
  "PB_DATAOFFSET_UNION = PB_SIZE_MAX"

definition pb_delta :: "nat \<Rightarrow> nat \<Rightarrow> u8" where
  "pb_delta m1 m2 = of_int (int m1 - int m2)"

definition PB_REQUIRED_STATIC :: "u8 \<Rightarrow> nat \<Rightarrow> u8 \<Rightarrow> u8 \<Rightarrow> pb_ptr \<Rightarrow> pb_field" where
  "PB_REQUIRED_STATIC tag sz fd ltype p =
     Pb_Field tag (PB_ATYPE_STATIC OR PB_HTYPE_REQUIRED OR ltype) fd 0 (of_nat sz) 0 p"

definition PB_OPTIONAL_STATIC :: "u8 \<Rightarrow> nat \<Rightarrow> nat \<Rightarrow> nat \<Rightarrow> u8 \<Rightarrow> u8 \<Rightarrow> pb_ptr \<Rightarrow> pb_field" where
  "PB_OPTIONAL_STATIC tag m has_m sz fd ltype p =
     Pb_Field tag (PB_ATYPE_STATIC OR PB_HTYPE_OPTIONAL OR ltype) fd (pb_delta has_m m) (of_nat sz) 0 p"

definition PB_SINGULAR_STATIC :: "u8 \<Rightarrow> nat \<Rightarrow> u8 \<Rightarrow> u8 \<Rightarrow> pb_ptr \<Rightarrow> pb_field" where
  "PB_SINGULAR_STATIC tag sz fd ltype p =
     Pb_Field tag (PB_ATYPE_STATIC OR PB_HTYPE_OPTIONAL OR ltype) fd 0 (of_nat sz) 0 p"

definition PB_REPEATED_STATIC :: "u8 \<Rightarrow> nat \<Rightarrow> nat \<Rightarrow> nat \<Rightarrow> nat \<Rightarrow> u8 \<Rightarrow> u8 \<Rightarrow> pb_ptr \<Rightarrow> pb_field" where
  "PB_REPEATED_STATIC tag m m_count sz entries fd ltype p =
     Pb_Field tag (PB_ATYPE_STATIC OR PB_HTYPE_REPEATED OR ltype) fd (pb_delta m_count m) (of_nat sz)
       (of_nat entries) p"

definition PB_REQUIRED_CALLBACK :: "u8 \<Rightarrow> nat \<Rightarrow> u8 \<Rightarrow> u8 \<Rightarrow> pb_ptr \<Rightarrow> pb_field" where
  "PB_REQUIRED_CALLBACK tag sz fd ltype p =
     Pb_Field tag (PB_ATYPE_CALLBACK OR PB_HTYPE_REQUIRED OR ltype) fd 0 (of_nat sz) 0 p"

definition PB_OPTIONAL_CALLBACK :: "u8 \<Rightarrow> nat \<Rightarrow> u8 \<Rightarrow> u8 \<Rightarrow> pb_ptr \<Rightarrow> pb_field" where
  "PB_OPTIONAL_CALLBACK tag sz fd ltype p =
     Pb_Field tag (PB_ATYPE_CALLBACK OR PB_HTYPE_OPTIONAL OR ltype) fd 0 (of_nat sz) 0 p"

definition PB_ONEOF_STATIC :: "u8 \<Rightarrow> nat \<Rightarrow> nat \<Rightarrow> nat \<Rightarrow> u8 \<Rightarrow> u8 \<Rightarrow> pb_ptr \<Rightarrow> pb_field" where
  "PB_ONEOF_STATIC tag m which_u sz fd ltype p =
     Pb_Field tag (PB_ATYPE_STATIC OR PB_HTYPE_ONEOF OR ltype) fd (pb_delta which_u m) (of_nat sz) 0 p"

section \<open>The field iterator\<close>

text \<open>\<open>it_pos\<close> is the part of the array from the current entry on.\<close>

record pb_field_iter =
  it_start :: "pb_field list"
  it_pos :: "pb_field list"
  it_required :: u32
  it_dest :: int
  it_pData :: int
  it_pSize :: int

definition fields_head :: "pb_field list \<Rightarrow> pb_field" where
  "fields_head fs = (case fs of [] \<Rightarrow> PB_LAST_FIELD | f # _ \<Rightarrow> f)"

definition cur :: "pb_field_iter \<Rightarrow> pb_field" where
  "cur it = fields_head (it_pos it)"

definition pb_field_iter_begin :: "pb_field list \<Rightarrow> int \<Rightarrow> bool \<times> pb_field_iter" where
  "pb_field_iter_begin fs dest =
     (let f = fields_head fs; pData = dest + uint (data_offset f) in
      (fd_tag f \<noteq> 0,
       \<lparr>it_start = fs, it_pos = fs, it_required = 0, it_dest = dest,
        it_pData = pData, it_pSize = pData + sint (size_offset f)\<rparr>))"

definition pb_field_iter_next :: "pb_field_iter \<Rightarrow> bool \<times> pb_field_iter" where
  "pb_field_iter_next it =
     (let prev = cur it; f = fields_head (tl (it_pos it)) in
      if fd_tag prev = 0 then (False, it)
      else if fd_tag f = 0 then (False, snd (pb_field_iter_begin (it_start it) (it_dest it)))
      else if PB_HTYPE (fd_type prev) = PB_HTYPE_ONEOF \<and> PB_HTYPE (fd_type f) = PB_HTYPE_ONEOF \<and>
              data_offset f = PB_SIZE_MAX
        then (True, it\<lparr>it_pos := tl (it_pos it)\<rparr>)
      else
        let prev_size =
              (if PB_ATYPE (fd_type prev) = PB_ATYPE_STATIC \<and> PB_HTYPE (fd_type prev) = PB_HTYPE_REPEATED
                 then uint (data_size prev) * uint (array_size prev)
               else if PB_ATYPE (fd_type prev) = PB_ATYPE_POINTER then 4
               else uint (data_size prev));
            req = (if PB_HTYPE (fd_type prev) = PB_HTYPE_REQUIRED then it_required it + 1
                   else it_required it);
            pData = it_pData it + prev_size + uint (data_offset f)
        in (True, it\<lparr>it_pos := tl (it_pos it), it_required := req, it_pData := pData,
                      it_pSize := pData + sint (size_offset f)\<rparr>))"

text \<open>The search goes round the array once, so one step per entry is enough fuel.\<close>

primrec iter_find_loop :: "nat \<Rightarrow> pb_field list \<Rightarrow> u32 \<Rightarrow> pb_field_iter \<Rightarrow> bool \<times> pb_field_iter" where
  "iter_find_loop 0 start tag it = (False, it)"
| "iter_find_loop (Suc n) start tag it =
     (if ucast (fd_tag (cur it)) = tag \<and> PB_LTYPE (fd_type (cur it)) \<noteq> PB_LTYPE_EXTENSION then (True, it)
      else let it' = snd (pb_field_iter_next it) in
        if length (it_pos it') = length start then (False, it') else iter_find_loop n start tag it')"

definition pb_field_iter_find :: "pb_field_iter \<Rightarrow> u32 \<Rightarrow> bool \<times> pb_field_iter" where
  "pb_field_iter_find it tag = iter_find_loop (Suc (length (it_start it))) (it_pos it) tag it"

text \<open>\<^verbatim>\<open>find_extension_field\<close> of \<^verbatim>\<open>pb_decode.c\<close>, the same walk for the extension placeholder.\<close>

primrec find_ext_loop :: "nat \<Rightarrow> pb_field list \<Rightarrow> pb_field_iter \<Rightarrow> bool \<times> pb_field_iter" where
  "find_ext_loop 0 start it = (False, it)"
| "find_ext_loop (Suc n) start it =
     (if PB_LTYPE (fd_type (cur it)) = PB_LTYPE_EXTENSION then (True, it)
      else let it' = snd (pb_field_iter_next it) in
        if length (it_pos it') = length start then (False, it') else find_ext_loop n start it')"

definition find_extension_field :: "pb_field_iter \<Rightarrow> bool \<times> pb_field_iter" where
  "find_extension_field it = find_ext_loop (Suc (length (it_start it))) (it_pos it) it"

lemma iter_next_shrinks:
  assumes "fst (pb_field_iter_next it)"
  shows "length (it_pos (snd (pb_field_iter_next it))) < length (it_pos it)"
proof -
  have "it_pos it \<noteq> []"
    using assms by (auto simp: pb_field_iter_next_def cur_def fields_head_def PB_LAST_FIELD_def Let_def)
  then show ?thesis
    using assms by (auto simp: pb_field_iter_next_def Let_def split: if_splits)
qed

end
