(* ===== verification/Pb_Encode.thy ===== *)
theory Pb_Encode
  imports Pb_Common
begin

text \<open>
  The encoder (\<^verbatim>\<open>src/middleware/components/protocal_buffer/pb_encode.c\<close>). An output stream holds the
  bytes written so far at its buffer; a stream without callback only counts. The struct to encode is
  bytes in memory, reached through the descriptor table by the field iterator; the function pointers
  found in it (callbacks, extension types) are resolved by \<open>pb_env\<close>. The nesting of submessages and
  the length of extension chains is bounded by the fuel of \<open>pb_encode\<close>.
\<close>

section \<open>Output streams\<close>

record pb_ostream =
  os_writing :: bool
  os_out :: "u8 list"
  max_size :: u32
  bytes_written :: u32
  os_errmsg :: "string option"

type_synonym enc = "pb_ostream \<Rightarrow> (unit, pb_ostream) pb_out"

definition PB_OSTREAM_SIZING :: pb_ostream where
  "PB_OSTREAM_SIZING =
     \<lparr>os_writing = False, os_out = [], max_size = 0, bytes_written = 0, os_errmsg = None\<rparr>"

definition pb_ostream_from_buffer :: "u32 \<Rightarrow> pb_ostream" where
  "pb_ostream_from_buffer bufsize =
     \<lparr>os_writing = True, os_out = [], max_size = bufsize, bytes_written = 0, os_errmsg = None\<rparr>"

definition os_error :: "string \<Rightarrow> enc" where
  "os_error msg s = Fail (s\<lparr>os_errmsg := PB_SET_ERROR (os_errmsg s) msg\<rparr>)"

definition buf_write :: "u8 list \<Rightarrow> u32 \<Rightarrow> enc" where
  "buf_write buf count s =
     (if length buf < unat count then Stuck
      else Val () (s\<lparr>os_out := os_out s @ take (unat count) buf\<rparr>))"

definition pb_write :: "u8 list \<Rightarrow> u32 \<Rightarrow> enc" where
  "pb_write buf count s =
     (if os_writing s then
        if bytes_written s + count > max_size s then os_error ''stream full'' s
        else (case buf_write buf count s of
                Stuck \<Rightarrow> Stuck
              | Fail s' \<Rightarrow> os_error ''io error'' s'
              | Val _ s' \<Rightarrow> Val () (s'\<lparr>bytes_written := bytes_written s' + count\<rparr>))
      else Val () (s\<lparr>bytes_written := bytes_written s + count\<rparr>))"

section \<open>Wire values\<close>

function varint_loop :: "u64 \<Rightarrow> u8 list \<Rightarrow> u8 list" where
  "varint_loop v buffer =
     (if v = 0 then buffer
      else varint_loop (drop_bit 7 v) (buffer @ [ucast (v AND 0x7F) OR 0x80]))"
  by auto
termination
  by (relation "measure (unat \<circ> fst)")
     (auto simp: drop_bit_eq_div unat_div unat_gt_0)
declare varint_loop.simps [simp del]

definition pb_encode_varint :: "u64 \<Rightarrow> enc" where
  "pb_encode_varint value =
     (if value \<le> 0x7F then pb_write [ucast value] 1
      else let buffer = varint_loop value []; i = length buffer in
        pb_write (buffer[i - 1 := buffer ! (i - 1) AND 0x7F]) (of_nat i))"

definition pb_encode_svarint :: "64 word \<Rightarrow> enc" where
  "pb_encode_svarint value =
     pb_encode_varint (if value <s 0 then NOT (push_bit 1 value) else push_bit 1 value)"

definition pb_encode_fixed32 :: "cmem \<Rightarrow> int \<Rightarrow> enc" where
  "pb_encode_fixed32 m value =
     (let val = load32 m value in
      pb_write [ucast (val AND 0xFF), ucast (drop_bit 8 val AND 0xFF),
                ucast (drop_bit 16 val AND 0xFF), ucast (drop_bit 24 val AND 0xFF)] 4)"

definition pb_encode_fixed64 :: "cmem \<Rightarrow> int \<Rightarrow> enc" where
  "pb_encode_fixed64 m value =
     (let val = load64 m value in
      pb_write [ucast (val AND 0xFF), ucast (drop_bit 8 val AND 0xFF),
                ucast (drop_bit 16 val AND 0xFF), ucast (drop_bit 24 val AND 0xFF),
                ucast (drop_bit 32 val AND 0xFF), ucast (drop_bit 40 val AND 0xFF),
                ucast (drop_bit 48 val AND 0xFF), ucast (drop_bit 56 val AND 0xFF)] 8)"

definition pb_encode_tag :: "pb_wire_type \<Rightarrow> u32 \<Rightarrow> enc" where
  "pb_encode_tag wiretype field_number =
     pb_encode_varint (push_bit 3 (ucast field_number) OR ucast wiretype)"

definition wire_type_of :: "u8 \<Rightarrow> pb_wire_type option" where
  "wire_type_of lt =
     (if lt = PB_LTYPE_VARINT \<or> lt = PB_LTYPE_UVARINT \<or> lt = PB_LTYPE_SVARINT then Some PB_WT_VARINT
      else if lt = PB_LTYPE_FIXED32 then Some PB_WT_32BIT
      else if lt = PB_LTYPE_FIXED64 then Some PB_WT_64BIT
      else if lt = PB_LTYPE_BYTES \<or> lt = PB_LTYPE_STRING \<or> lt = PB_LTYPE_SUBMESSAGE \<or>
              lt = PB_LTYPE_FIXED_LENGTH_BYTES then Some PB_WT_STRING
      else None)"

definition pb_encode_tag_for_field :: "pb_field \<Rightarrow> enc" where
  "pb_encode_tag_for_field f =
     (case wire_type_of (PB_LTYPE (fd_type f)) of
        None \<Rightarrow> os_error ''invalid field type''
      | Some wt \<Rightarrow> pb_encode_tag wt (ucast (fd_tag f)))"

text \<open>\<^verbatim>\<open>pb_encode_string\<close> is given the bytes at \<^verbatim>\<open>buffer\<close>.\<close>

definition pb_encode_string :: "u8 list \<Rightarrow> u32 \<Rightarrow> enc" where
  "pb_encode_string buffer sz = seqm (pb_encode_varint (ucast sz)) (\<lambda>_. pb_write buffer sz)"

section \<open>The environment\<close>

text \<open>What the function pointers stored in message structs do: an encode callback gets the stream,
  the field and the address of its \<^verbatim>\<open>arg\<close>; a decode callback the input stream as well as the memory.
  The input stream type is a parameter here. \<open>raw_buffer\<close> is the address of the local array in which
  \<^verbatim>\<open>decode_callback_field\<close> hands a scalar to its callback.\<close>

record 'i pb_ext_type =
  xt_encode :: "(cmem \<Rightarrow> int \<Rightarrow> enc) option"
  xt_decode :: "(int \<Rightarrow> u32 \<Rightarrow> pb_wire_type \<Rightarrow> 'i \<times> cmem \<Rightarrow> (unit, 'i \<times> cmem) pb_out) option"
  xt_arg :: pb_field

record 'i pb_env =
  cb_encode :: "u32 \<Rightarrow> cmem \<Rightarrow> pb_field \<Rightarrow> int \<Rightarrow> enc"
  cb_decode :: "u32 \<Rightarrow> pb_field \<Rightarrow> int \<Rightarrow> 'i \<times> cmem \<Rightarrow> (unit, 'i \<times> cmem) pb_out"
  ext_type_at :: "u32 \<Rightarrow> 'i pb_ext_type"
  raw_buffer :: int

text \<open>\<^verbatim>\<open>pb_callback_t\<close> is the function pointer and then \<^verbatim>\<open>arg\<close>; \<^verbatim>\<open>pb_extension_t\<close> is \<^verbatim>\<open>type\<close>, \<^verbatim>\<open>dest\<close>,
  \<^verbatim>\<open>next\<close> and \<^verbatim>\<open>found\<close>.\<close>

definition callback_funcs :: "cmem \<Rightarrow> int \<Rightarrow> u32" where "callback_funcs m a = load32 m a"
definition callback_arg :: "int \<Rightarrow> int" where "callback_arg a = a + 4"

definition ext_type :: "cmem \<Rightarrow> int \<Rightarrow> u32" where "ext_type m e = load32 m e"
definition ext_dest :: "cmem \<Rightarrow> int \<Rightarrow> int" where "ext_dest m e = load_ptr m (e + 4)"
definition ext_next :: "cmem \<Rightarrow> int \<Rightarrow> int" where "ext_next m e = load_ptr m (e + 8)"

section \<open>Field encoders\<close>

text \<open>\<open>sub\<close> is \<^verbatim>\<open>pb_encode\<close> on a submessage.\<close>

definition write_submessage :: "(pb_field list \<Rightarrow> int \<Rightarrow> enc) \<Rightarrow> pb_field list \<Rightarrow> int \<Rightarrow> u32 \<Rightarrow> enc" where
  "write_submessage sub fs src sz stream =
     (if \<not> os_writing stream then pb_write [] sz stream
      else if bytes_written stream + sz > max_size stream then os_error ''stream full'' stream
      else
        let finish = (\<lambda>ok substream.
              let stream = stream\<lparr>bytes_written := bytes_written stream + bytes_written substream,
                                  os_out := os_out substream, os_errmsg := os_errmsg substream\<rparr>
              in if bytes_written substream \<noteq> sz then os_error ''submsg size changed'' stream
                 else if ok then Val () stream else Fail stream)
        in case sub fs src (stream\<lparr>max_size := sz, bytes_written := 0, os_errmsg := None\<rparr>) of
             Stuck \<Rightarrow> Stuck
           | Fail substream \<Rightarrow> finish False substream
           | Val _ substream \<Rightarrow> finish True substream)"

definition pb_encode_submessage :: "(pb_field list \<Rightarrow> int \<Rightarrow> enc) \<Rightarrow> pb_field list \<Rightarrow> int \<Rightarrow> enc" where
  "pb_encode_submessage sub fs src stream =
     (case sub fs src PB_OSTREAM_SIZING of
        Stuck \<Rightarrow> Stuck
      | Fail substream \<Rightarrow> Fail (stream\<lparr>os_errmsg := os_errmsg substream\<rparr>)
      | Val _ substream \<Rightarrow>
          seqm (pb_encode_varint (ucast (bytes_written substream)))
            (\<lambda>_. write_submessage sub fs src (bytes_written substream)) stream)"

definition pb_enc_varint :: "cmem \<Rightarrow> pb_field \<Rightarrow> int \<Rightarrow> enc" where
  "pb_enc_varint m f src =
     (if data_size f = 1 then pb_encode_varint (scast (load8 m src))
      else if data_size f = 2 then pb_encode_varint (scast (load16 m src))
      else if data_size f = 4 then pb_encode_varint (scast (load32 m src))
      else if data_size f = 8 then pb_encode_varint (load64 m src)
      else os_error ''invalid data_size'')"

definition pb_enc_uvarint :: "cmem \<Rightarrow> pb_field \<Rightarrow> int \<Rightarrow> enc" where
  "pb_enc_uvarint m f src =
     (if data_size f = 1 then pb_encode_varint (ucast (load8 m src))
      else if data_size f = 2 then pb_encode_varint (ucast (load16 m src))
      else if data_size f = 4 then pb_encode_varint (ucast (load32 m src))
      else if data_size f = 8 then pb_encode_varint (load64 m src)
      else os_error ''invalid data_size'')"

definition pb_enc_svarint :: "cmem \<Rightarrow> pb_field \<Rightarrow> int \<Rightarrow> enc" where
  "pb_enc_svarint m f src =
     (if data_size f = 1 then pb_encode_svarint (scast (load8 m src))
      else if data_size f = 2 then pb_encode_svarint (scast (load16 m src))
      else if data_size f = 4 then pb_encode_svarint (scast (load32 m src))
      else if data_size f = 8 then pb_encode_svarint (load64 m src)
      else os_error ''invalid data_size'')"

definition pb_enc_fixed32 :: "cmem \<Rightarrow> pb_field \<Rightarrow> int \<Rightarrow> enc" where
  "pb_enc_fixed32 m f src = pb_encode_fixed32 m src"

definition pb_enc_fixed64 :: "cmem \<Rightarrow> pb_field \<Rightarrow> int \<Rightarrow> enc" where
  "pb_enc_fixed64 m f src = pb_encode_fixed64 m src"

definition pb_enc_bytes :: "cmem \<Rightarrow> pb_field \<Rightarrow> int \<Rightarrow> enc" where
  "pb_enc_bytes m f src =
     (if src = 0 then pb_encode_string [] 0
      else let sz = ucast (load8 m src) in
        if PB_ATYPE (fd_type f) = PB_ATYPE_STATIC \<and> PB_BYTES_ARRAY_T_ALLOCSIZE sz > ucast (data_size f)
          then os_error ''bytes size exceeded''
          else pb_encode_string (load_bytes m (src + 1) (unat sz)) sz)"

primrec strnlen_loop :: "nat \<Rightarrow> cmem \<Rightarrow> int \<Rightarrow> nat" where
  "strnlen_loop 0 m p = 0"
| "strnlen_loop (Suc n) m p = (if load8 m p \<noteq> 0 then Suc (strnlen_loop n m (p + 1)) else 0)"

definition pb_enc_string :: "cmem \<Rightarrow> pb_field \<Rightarrow> int \<Rightarrow> enc" where
  "pb_enc_string m f src =
     (let max_sz = (if PB_ATYPE (fd_type f) = PB_ATYPE_POINTER then -1 else ucast (data_size f)) :: u32;
          sz = (if src = 0 then 0 else strnlen_loop (unat max_sz) m src) in
      pb_encode_string (load_bytes m src sz) (of_nat sz))"

definition pb_enc_submessage :: "(pb_field list \<Rightarrow> int \<Rightarrow> enc) \<Rightarrow> pb_field \<Rightarrow> int \<Rightarrow> enc" where
  "pb_enc_submessage sub f src =
     (case fd_ptr f of
        Pb_Null \<Rightarrow> os_error ''invalid field descriptor''
      | Pb_Fields fs \<Rightarrow> pb_encode_submessage sub fs src
      | Pb_Default _ \<Rightarrow> (\<lambda>_. Stuck))"

definition pb_enc_fixed_length_bytes :: "cmem \<Rightarrow> pb_field \<Rightarrow> int \<Rightarrow> enc" where
  "pb_enc_fixed_length_bytes m f src =
     pb_encode_string (load_bytes m src (unat (data_size f))) (ucast (data_size f))"

text \<open>The table of encoders by \<^verbatim>\<open>PB_LTYPE\<close>; its extension entry is null, and a field with one of the
  unused types reads past its end.\<close>

definition PB_ENCODERS :: "(pb_field list \<Rightarrow> int \<Rightarrow> enc) \<Rightarrow> cmem \<Rightarrow> u8 \<Rightarrow> pb_field \<Rightarrow> int \<Rightarrow> enc" where
  "PB_ENCODERS sub m lt =
     (if lt = PB_LTYPE_VARINT then pb_enc_varint m
      else if lt = PB_LTYPE_UVARINT then pb_enc_uvarint m
      else if lt = PB_LTYPE_SVARINT then pb_enc_svarint m
      else if lt = PB_LTYPE_FIXED32 then pb_enc_fixed32 m
      else if lt = PB_LTYPE_FIXED64 then pb_enc_fixed64 m
      else if lt = PB_LTYPE_BYTES then pb_enc_bytes m
      else if lt = PB_LTYPE_STRING then pb_enc_string m
      else if lt = PB_LTYPE_SUBMESSAGE then pb_enc_submessage sub
      else if lt = PB_LTYPE_FIXED_LENGTH_BYTES then pb_enc_fixed_length_bytes m
      else (\<lambda>_ _ _. Stuck))"

section \<open>Fields\<close>

text \<open>One step per array entry: \<open>each\<close> encodes the entry at an address.\<close>

primrec enc_items :: "nat \<Rightarrow> int \<Rightarrow> (int \<Rightarrow> enc) \<Rightarrow> int \<Rightarrow> enc" where
  "enc_items 0 step each p = Val ()"
| "enc_items (Suc n) step each p = seqm (each p) (\<lambda>_. enc_items n step each (p + step))"

definition encode_array :: "cmem \<Rightarrow> pb_field \<Rightarrow> int \<Rightarrow> u8 \<Rightarrow> (pb_field \<Rightarrow> int \<Rightarrow> enc) \<Rightarrow> enc" where
  "encode_array m f pData count func stream =
     (if count = 0 then Val () stream
      else if PB_ATYPE (fd_type f) \<noteq> PB_ATYPE_POINTER \<and> count > array_size f
        then os_error ''array max size exceeded'' stream
      else if PB_LTYPE (fd_type f) \<le> PB_LTYPE_LAST_PACKABLE then
        seqm (pb_encode_tag PB_WT_STRING (ucast (fd_tag f)))
          (\<lambda>_ stream.
             let put = (\<lambda>sz.
                   seqm (pb_encode_varint (ucast sz))
                     (\<lambda>_ stream. if \<not> os_writing stream then pb_write [] sz stream
                                 else enc_items (unat count) (uint (data_size f)) (func f) pData stream))
             in if PB_LTYPE (fd_type f) = PB_LTYPE_FIXED32 then put (4 * ucast count :: u32) stream
                else if PB_LTYPE (fd_type f) = PB_LTYPE_FIXED64 then put (8 * ucast count) stream
                else (case enc_items (unat count) (uint (data_size f)) (func f) pData PB_OSTREAM_SIZING of
                        Stuck \<Rightarrow> Stuck
                      | Fail _ \<Rightarrow> Fail stream
                      | Val _ sizestream \<Rightarrow> put (bytes_written sizestream) stream))
          stream
      else
        enc_items (unat count) (uint (data_size f))
          (\<lambda>p. seqm (pb_encode_tag_for_field f)
             (\<lambda>_. if PB_ATYPE (fd_type f) = PB_ATYPE_POINTER \<and>
                     (PB_LTYPE (fd_type f) = PB_LTYPE_STRING \<or> PB_LTYPE (fd_type f) = PB_LTYPE_BYTES)
                   then func f (load_ptr m p) else func f p))
          pData stream)"

primrec all_zero :: "nat \<Rightarrow> cmem \<Rightarrow> int \<Rightarrow> bool" where
  "all_zero 0 m p \<longleftrightarrow> True"
| "all_zero (Suc n) m p \<longleftrightarrow> load8 m p = 0 \<and> all_zero n m (p + 1)"

text \<open>The \<^verbatim>\<open>do ... while (pb_field_iter_next)\<close> loop over the fields of a message, for a test.\<close>

function iter_all :: "(pb_field \<Rightarrow> int \<Rightarrow> bool) \<Rightarrow> pb_field_iter \<Rightarrow> bool" where
  "iter_all P it =
     (if \<not> P (cur it) (it_pData it) then False
      else if fst (pb_field_iter_next it) then iter_all P (snd (pb_field_iter_next it)) else True)"
  by auto
termination
  by (relation "measure (length \<circ> it_pos \<circ> snd)") (auto simp: iter_next_shrinks)
declare iter_all.simps [simp del]

definition check_default_body ::
    "(pb_field \<Rightarrow> int \<Rightarrow> bool) \<Rightarrow> cmem \<Rightarrow> pb_field \<Rightarrow> int \<Rightarrow> bool" where
  "check_default_body sub m f pData =
     (let t = fd_type f; pSize = pData + sint (size_offset f) in
      if PB_HTYPE t = PB_HTYPE_REQUIRED then False
      else if PB_HTYPE t = PB_HTYPE_REPEATED then load8 m pSize = 0
      else if PB_HTYPE t = PB_HTYPE_ONEOF then load8 m pSize = 0
      else if PB_HTYPE t = PB_HTYPE_OPTIONAL \<and> size_offset f \<noteq> 0 then load8 m pSize = 0
      else if PB_ATYPE t = PB_ATYPE_STATIC \<and> PB_LTYPE t = PB_LTYPE_BYTES then load8 m pData = 0
      else if PB_ATYPE t = PB_ATYPE_STATIC \<and> PB_LTYPE t = PB_LTYPE_STRING then load8 m pData = 0
      else if PB_ATYPE t = PB_ATYPE_STATIC \<and> PB_LTYPE t = PB_LTYPE_FIXED_LENGTH_BYTES
        then data_size f = 0
      else if PB_ATYPE t = PB_ATYPE_STATIC \<and> PB_LTYPE t = PB_LTYPE_SUBMESSAGE then
        let fs = (case fd_ptr f of Pb_Fields fs \<Rightarrow> fs | _ \<Rightarrow> []);
            (ok, it) = pb_field_iter_begin fs pData
        in if ok then iter_all sub it else True
      else all_zero (unat (data_size f)) m pData)"

text \<open>The recursion goes into the descriptor tree, so its size is enough fuel
  (\<open>check_default_fuel\<close>).\<close>

primrec check_default_depth :: "nat \<Rightarrow> cmem \<Rightarrow> pb_field \<Rightarrow> int \<Rightarrow> bool" where
  "check_default_depth 0 m f p = True"
| "check_default_depth (Suc n) m f p = check_default_body (check_default_depth n m) m f p"

definition pb_check_proto3_default_value :: "cmem \<Rightarrow> pb_field \<Rightarrow> int \<Rightarrow> bool" where
  "pb_check_proto3_default_value m f p = check_default_depth (Suc (size f)) m f p"

text \<open>More fuel makes no difference: the fields of a submessage are smaller than its descriptor.\<close>

lemma submessage_smaller: "fd_ptr f = Pb_Fields fs \<Longrightarrow> g \<in> set fs \<Longrightarrow> size g < size f"
  by (cases f) (auto dest: size_list_estimation' [where f = size, OF _ order_refl])

lemma iter_all_cong:
  "\<lbrakk>\<And>f p. f \<in> set fs \<Longrightarrow> P f p = Q f p; it_start it = fs; it_pos it \<noteq> []; set (it_pos it) \<subseteq> set fs\<rbrakk> \<Longrightarrow>
    iter_all P it = iter_all Q it"
proof (induction Q it rule: iter_all.induct)
  case (1 Q it)
  have c: "cur it \<in> set fs" using 1(4,5) by (cases "it_pos it") (auto simp: cur_def fields_head_def)
  have t: "set (tl (it_pos it)) \<subseteq> set fs" using 1(5) by (cases "it_pos it") auto
  have n: "it_start (snd (pb_field_iter_next it)) = fs" "it_pos (snd (pb_field_iter_next it)) \<noteq> []"
      "set (it_pos (snd (pb_field_iter_next it))) \<subseteq> set fs" if "fst (pb_field_iter_next it)"
    using that 1(3) t
    by (auto simp: pb_field_iter_next_def Let_def fields_head_def PB_LAST_FIELD_def split: if_splits list.splits)
  show ?case
    using 1(1) [OF _ _ 1(2)] n 1(2) [OF c] unfolding iter_all.simps [of P it] iter_all.simps [of Q it] by simp
qed

lemma check_default_body_cong:
  assumes e: "\<And>fs g q. \<lbrakk>fd_ptr f = Pb_Fields fs; g \<in> set fs\<rbrakk> \<Longrightarrow> P g q = Q g q"
  shows "check_default_body P m f p = check_default_body Q m f p"
proof (cases "\<exists>fs. fd_ptr f = Pb_Fields fs")
  case True
  then obtain fs where f: "fd_ptr f = Pb_Fields fs" by blast
  have "iter_all P (snd (pb_field_iter_begin fs p)) = iter_all Q (snd (pb_field_iter_begin fs p))"
    if "fst (pb_field_iter_begin fs p)"
    using that e [OF f]
    by (intro iter_all_cong [of fs])
       (auto simp: pb_field_iter_begin_def Let_def fields_head_def PB_LAST_FIELD_def)
  then show ?thesis by (auto simp: check_default_body_def Let_def f split: prod.split)
next
  case False
  then have "(case fd_ptr f of Pb_Fields fs \<Rightarrow> fs | _ \<Rightarrow> []) = []" by (cases "fd_ptr f") auto
  then show ?thesis
    by (simp add: check_default_body_def Let_def pb_field_iter_begin_def fields_head_def PB_LAST_FIELD_def)
qed

lemma check_default_depth_eq:
  "size f < n \<Longrightarrow> size f < n' \<Longrightarrow> check_default_depth n m f p = check_default_depth n' m f p"
proof (induction n arbitrary: n' f p)
  case (Suc n)
  then obtain k where k: "n' = Suc k" by (cases n') auto
  have "check_default_depth n m g q = check_default_depth k m g q"
    if "fd_ptr f = Pb_Fields fs" "g \<in> set fs" for fs g q
    using submessage_smaller [OF that] Suc.prems by (intro Suc.IH) (simp_all add: k)
  then show ?case unfolding k check_default_depth.simps by (rule check_default_body_cong)
qed simp

lemma check_default_fuel:
  "size f < n \<Longrightarrow> check_default_depth n m f p = pb_check_proto3_default_value m f p"
  unfolding pb_check_proto3_default_value_def by (rule check_default_depth_eq) simp_all

definition encode_basic_field ::
    "(pb_field list \<Rightarrow> int \<Rightarrow> enc) \<Rightarrow> cmem \<Rightarrow> pb_field \<Rightarrow> int \<Rightarrow> enc" where
  "encode_basic_field sub m f pData =
     (let func = PB_ENCODERS sub m (PB_LTYPE (fd_type f));
          is_ptr = PB_ATYPE (fd_type f) = PB_ATYPE_POINTER;
          data = (if is_ptr then load_ptr m pData else pData);
          implicit_has =
            (if is_ptr then data \<noteq> 0
             else if size_offset f = 0 \<and> PB_HTYPE (fd_type f) = PB_HTYPE_OPTIONAL
               then \<not> pb_check_proto3_default_value m f pData
             else True);
          at_pSize = (if size_offset f \<noteq> 0 then load8 m (pData + sint (size_offset f))
                      else if implicit_has then 1 else 0);
          tagged = seqm (pb_encode_tag_for_field f) (\<lambda>_. func f data)
      in
      if PB_HTYPE (fd_type f) = PB_HTYPE_REQUIRED then
        if data = 0 then os_error ''missing required field'' else tagged
      else if PB_HTYPE (fd_type f) = PB_HTYPE_OPTIONAL then
        if at_pSize \<noteq> 0 then tagged else Val ()
      else if PB_HTYPE (fd_type f) = PB_HTYPE_REPEATED then encode_array m f data at_pSize func
      else if PB_HTYPE (fd_type f) = PB_HTYPE_ONEOF then
        if at_pSize = fd_tag f then tagged else Val ()
      else os_error ''invalid field type'')"

definition encode_callback_field :: "'i pb_env \<Rightarrow> cmem \<Rightarrow> pb_field \<Rightarrow> int \<Rightarrow> enc" where
  "encode_callback_field env m f pData stream =
     (if callback_funcs m pData \<noteq> 0 then
        case cb_encode env (callback_funcs m pData) m f (callback_arg pData) stream of
          Stuck \<Rightarrow> Stuck
        | Fail stream' \<Rightarrow> os_error ''callback error'' stream'
        | Val _ stream' \<Rightarrow> Val () stream'
      else Val () stream)"

definition encode_field ::
    "'i pb_env \<Rightarrow> (pb_field list \<Rightarrow> int \<Rightarrow> enc) \<Rightarrow> cmem \<Rightarrow> pb_field \<Rightarrow> int \<Rightarrow> enc" where
  "encode_field env sub m f pData =
     (if PB_ATYPE (fd_type f) = PB_ATYPE_STATIC \<or> PB_ATYPE (fd_type f) = PB_ATYPE_POINTER
        then encode_basic_field sub m f pData
      else if PB_ATYPE (fd_type f) = PB_ATYPE_CALLBACK then encode_callback_field env m f pData
      else os_error ''invalid field type'')"

definition default_extension_encoder ::
    "'i pb_env \<Rightarrow> (pb_field list \<Rightarrow> int \<Rightarrow> enc) \<Rightarrow> cmem \<Rightarrow> int \<Rightarrow> enc" where
  "default_extension_encoder env sub m e =
     (let f = xt_arg (ext_type_at env (ext_type m e)) in
      if PB_ATYPE (fd_type f) = PB_ATYPE_POINTER then encode_field env sub m f (e + 4)
      else encode_field env sub m f (ext_dest m e))"

primrec ext_chain_encode ::
    "nat \<Rightarrow> 'i pb_env \<Rightarrow> (pb_field list \<Rightarrow> int \<Rightarrow> enc) \<Rightarrow> cmem \<Rightarrow> int \<Rightarrow> enc" where
  "ext_chain_encode 0 env sub m e = (\<lambda>s. if e = 0 then Val () s else Stuck)"
| "ext_chain_encode (Suc n) env sub m e =
     (if e = 0 then Val ()
      else seqm (case xt_encode (ext_type_at env (ext_type m e)) of
                   Some encode \<Rightarrow> encode m e
                 | None \<Rightarrow> default_extension_encoder env sub m e)
             (\<lambda>_. ext_chain_encode n env sub m (ext_next m e)))"

definition encode_extension_field ::
    "nat \<Rightarrow> 'i pb_env \<Rightarrow> (pb_field list \<Rightarrow> int \<Rightarrow> enc) \<Rightarrow> cmem \<Rightarrow> int \<Rightarrow> enc" where
  "encode_extension_field n env sub m pData = ext_chain_encode n env sub m (load_ptr m pData)"

section \<open>Messages\<close>

function enc_fields :: "(pb_field \<Rightarrow> int \<Rightarrow> enc) \<Rightarrow> pb_field_iter \<Rightarrow> enc" where
  "enc_fields each it s =
     (case each (cur it) (it_pData it) s of
        Stuck \<Rightarrow> Stuck
      | Fail s' \<Rightarrow> Fail s'
      | Val _ s' \<Rightarrow> if fst (pb_field_iter_next it) then enc_fields each (snd (pb_field_iter_next it)) s'
                    else Val () s')"
  by auto
termination
  by (relation "measure (\<lambda>(_, it, _). length (it_pos it))") (auto simp: iter_next_shrinks)
declare enc_fields.simps [simp del]

text \<open>\<open>n\<close> bounds the nesting of submessages and the length of an extension chain.\<close>

primrec pb_encode :: "nat \<Rightarrow> 'i pb_env \<Rightarrow> cmem \<Rightarrow> pb_field list \<Rightarrow> int \<Rightarrow> enc" where
  "pb_encode 0 env m fs src = (\<lambda>_. Stuck)"
| "pb_encode (Suc n) env m fs src =
     (let (ok, it) = pb_field_iter_begin fs src in
      if \<not> ok then Val ()
      else enc_fields
        (\<lambda>f pData. if PB_LTYPE (fd_type f) = PB_LTYPE_EXTENSION
                   then encode_extension_field n env (pb_encode n env m) m pData
                   else encode_field env (pb_encode n env m) m f pData) it)"

definition pb_encode_delimited :: "nat \<Rightarrow> 'i pb_env \<Rightarrow> cmem \<Rightarrow> pb_field list \<Rightarrow> int \<Rightarrow> enc" where
  "pb_encode_delimited n env m = pb_encode_submessage (pb_encode n env m)"

definition pb_encode_nullterminated :: "nat \<Rightarrow> 'i pb_env \<Rightarrow> cmem \<Rightarrow> pb_field list \<Rightarrow> int \<Rightarrow> enc" where
  "pb_encode_nullterminated n env m fs src = seqm (pb_encode n env m fs src) (\<lambda>_. pb_write [0] 1)"

definition pb_get_encoded_size ::
    "nat \<Rightarrow> 'i pb_env \<Rightarrow> cmem \<Rightarrow> pb_field list \<Rightarrow> int \<Rightarrow> (u32, unit) pb_out" where
  "pb_get_encoded_size n env m fs src =
     (case pb_encode n env m fs src PB_OSTREAM_SIZING of
        Stuck \<Rightarrow> Stuck | Fail _ \<Rightarrow> Fail () | Val _ s \<Rightarrow> Val (bytes_written s) ())"

end
