(* ===== verification/Pb_Decode.thy ===== *)
theory Pb_Decode
  imports Pb_Encode
begin

text \<open>
  The decoder (\<^verbatim>\<open>src/middleware/components/protocal_buffer/pb_decode.c\<close>). An input stream over a buffer
  is the address and the bytes of the buffer from the read position on, with the number of bytes the
  stream may still read; a read past the bytes of the buffer is \<open>Stuck\<close>. The message struct is memory,
  written through the descriptor table; the input buffer is a separate object. \<^verbatim>\<open>uint_fast8_t\<close> is an
  8-bit integer, as in the C library of the 32-bit Linux target.
\<close>

section \<open>Input streams\<close>

record pb_istream =
  is_state :: int
  is_rest :: "u8 list"
  bytes_left :: u32
  is_errmsg :: "string option"

type_synonym 'a rd = "pb_istream \<Rightarrow> ('a, pb_istream) pb_out"

definition pb_istream_from_buffer :: "int \<Rightarrow> u8 list \<Rightarrow> u32 \<Rightarrow> pb_istream" where
  "pb_istream_from_buffer addr bytes bufsize =
     \<lparr>is_state = addr, is_rest = bytes, bytes_left = bufsize, is_errmsg = None\<rparr>"

definition is_error :: "string \<Rightarrow> pb_istream \<Rightarrow> ('a, pb_istream) pb_out" where
  "is_error msg s = Fail (s\<lparr>is_errmsg := PB_SET_ERROR (is_errmsg s) msg\<rparr>)"

definition buf_read :: "u32 \<Rightarrow> u8 list rd" where
  "buf_read count s =
     (if length (is_rest s) < unat count then Stuck
      else Val (take (unat count) (is_rest s))
             (s\<lparr>is_state := is_state s + uint count, is_rest := drop (unat count) (is_rest s)\<rparr>))"

definition pb_read :: "u32 \<Rightarrow> u8 list rd" where
  "pb_read count s =
     (if bytes_left s < count then is_error ''end-of-stream'' s
      else case buf_read count s of
             Stuck \<Rightarrow> Stuck
           | Fail s' \<Rightarrow> is_error ''io error'' s'
           | Val bs s' \<Rightarrow> Val bs (s'\<lparr>bytes_left := bytes_left s' - count\<rparr>))"

definition pb_read_null :: "u32 \<Rightarrow> unit rd" where
  "pb_read_null count = seqm (pb_read count) (\<lambda>_. Val ())"

definition pb_readbyte :: "u8 rd" where
  "pb_readbyte s =
     (if bytes_left s = 0 then is_error ''end-of-stream'' s
      else case buf_read 1 s of
             Stuck \<Rightarrow> Stuck
           | Fail s' \<Rightarrow> is_error ''io error'' s'
           | Val bs s' \<Rightarrow> Val (bs ! 0) (s'\<lparr>bytes_left := bytes_left s' - 1\<rparr>))"

lemma pb_readbyte_shrinks:
  "pb_readbyte s = Val b s' \<Longrightarrow> length (is_rest s') < length (is_rest s)"
  by (auto simp: pb_readbyte_def buf_read_def is_error_def split: if_splits)

lemma pb_read_shrinks:
  "pb_read 1 s = Val b s' \<Longrightarrow> length (is_rest s') < length (is_rest s)"
  by (auto simp: pb_read_def buf_read_def is_error_def split: if_splits)

section \<open>Wire values\<close>

text \<open>The loop of \<^verbatim>\<open>pb_decode_varint32_eof\<close> with the result so far and \<^verbatim>\<open>bitpos\<close>; the last byte is
  returned for the final check.\<close>

function varint32_loop :: "u32 \<Rightarrow> u8 \<Rightarrow> (u32 \<times> u8 \<times> u8) rd" where
  "varint32_loop result bitpos s =
     (case pb_readbyte s of
        Stuck \<Rightarrow> Stuck
      | Fail s' \<Rightarrow> Fail s'
      | Val b s' \<Rightarrow>
          if bitpos \<ge> 32 \<and> b AND 0x7F \<noteq> 0 \<and>
             (drop_bit 31 result = 0 \<or> b \<noteq> (if bitpos < 63 then 0xFF else 0x01))
            then is_error ''varint overflow'' s'
          else
            let result' = (if bitpos \<ge> 32 then result
                           else result OR push_bit (unat bitpos) (ucast (b AND 0x7F)))
            in if b AND 0x80 \<noteq> 0 then varint32_loop result' (bitpos + 7) s'
               else Val (result', bitpos + 7, b) s')"
  by pat_completeness auto
termination
  by (relation "measure (\<lambda>(_, _, s). length (is_rest s))") (auto simp: pb_readbyte_shrinks)
declare varint32_loop.simps [simp del]

text \<open>Returning false is the value \<open>None\<close>; the flag is \<^verbatim>\<open>*eof\<close> set to true.\<close>

definition pb_decode_varint32_eof :: "(u32 option \<times> bool) rd" where
  "pb_decode_varint32_eof s =
     (case pb_readbyte s of
        Stuck \<Rightarrow> Stuck
      | Fail s' \<Rightarrow> Val (None, bytes_left s' = 0) s'
      | Val b s' \<Rightarrow>
          if b AND 0x80 = 0 then Val (Some (ucast b), False) s'
          else case varint32_loop (ucast (b AND 0x7F)) 7 s' of
                 Stuck \<Rightarrow> Stuck
               | Fail s'' \<Rightarrow> Val (None, False) s''
               | Val (result, bitpos, b) s'' \<Rightarrow>
                   if bitpos = 35 \<and> b AND 0x70 \<noteq> 0
                     then Val (None, False) (s''\<lparr>is_errmsg := PB_SET_ERROR (is_errmsg s'') ''varint overflow''\<rparr>)
                     else Val (Some result, False) s'')"

definition pb_decode_varint32 :: "u32 rd" where
  "pb_decode_varint32 =
     seqm pb_decode_varint32_eof (\<lambda>(r, _) s. case r of None \<Rightarrow> Fail s | Some v \<Rightarrow> Val v s)"

function varint_rd_loop :: "u8 \<Rightarrow> u64 \<Rightarrow> u64 rd" where
  "varint_rd_loop bitpos result s =
     (if bitpos \<ge> 64 then is_error ''varint overflow'' s
      else case pb_readbyte s of
             Stuck \<Rightarrow> Stuck
           | Fail s' \<Rightarrow> Fail s'
           | Val b s' \<Rightarrow>
               let result' = result OR push_bit (unat bitpos) (ucast (b AND 0x7F)) in
               if b AND 0x80 \<noteq> 0 then varint_rd_loop (bitpos + 7) result' s' else Val result' s')"
  by pat_completeness auto
termination
  by (relation "measure (\<lambda>(_, _, s). length (is_rest s))") (auto simp: pb_readbyte_shrinks)
declare varint_rd_loop.simps [simp del]

definition pb_decode_varint :: "u64 rd" where
  "pb_decode_varint = varint_rd_loop 0 0"

function pb_skip_varint :: "unit rd" where
  "pb_skip_varint s =
     (case pb_read 1 s of
        Stuck \<Rightarrow> Stuck
      | Fail s' \<Rightarrow> Fail s'
      | Val bs s' \<Rightarrow> if bs ! 0 AND 0x80 \<noteq> 0 then pb_skip_varint s' else Val () s')"
  by pat_completeness auto
termination
  by (relation "measure (length \<circ> is_rest)") (auto simp: pb_read_shrinks)
declare pb_skip_varint.simps [simp del]

definition pb_skip_string :: "unit rd" where
  "pb_skip_string = seqm pb_decode_varint32 pb_read_null"

text \<open>\<^verbatim>\<open>pb_decode_tag\<close>: whether it returned true, then the wire type, the tag and \<^verbatim>\<open>eof\<close>.\<close>

definition pb_decode_tag :: "(bool \<times> pb_wire_type \<times> u32 \<times> bool) rd" where
  "pb_decode_tag =
     seqm pb_decode_varint32_eof
       (\<lambda>(r, eof). Val (case r of
            None \<Rightarrow> (False, 0, 0, eof)
          | Some temp \<Rightarrow> if temp = 0 then (False, 0, 0, True)
                         else (True, temp AND 7, drop_bit 3 temp, eof)))"

definition pb_skip_field :: "pb_wire_type \<Rightarrow> unit rd" where
  "pb_skip_field wt =
     (if wt = PB_WT_VARINT then pb_skip_varint
      else if wt = PB_WT_64BIT then pb_read_null 8
      else if wt = PB_WT_STRING then pb_skip_string
      else if wt = PB_WT_32BIT then pb_read_null 4
      else is_error ''invalid wire_type'')"

text \<open>The bytes \<^verbatim>\<open>read_raw_value\<close> stores; their number is the size it returns.\<close>

primrec raw_varint_loop :: "nat \<Rightarrow> u8 list \<Rightarrow> u8 list rd" where
  "raw_varint_loop 0 buf = Fail"
| "raw_varint_loop (Suc n) buf =
     seqm (pb_read 1)
       (\<lambda>bs. if bs ! 0 AND 0x80 \<noteq> 0 then raw_varint_loop n (buf @ bs) else Val (buf @ bs))"

definition read_raw_value :: "pb_wire_type \<Rightarrow> nat \<Rightarrow> u8 list rd" where
  "read_raw_value wt max_sz =
     (if wt = PB_WT_VARINT then raw_varint_loop max_sz []
      else if wt = PB_WT_64BIT then pb_read 8
      else if wt = PB_WT_32BIT then pb_read 4
      else is_error ''invalid wire_type'')"

text \<open>The substream reads the same buffer; closing it moves the parent to where it stopped.\<close>

definition pb_make_string_substream :: "pb_istream rd" where
  "pb_make_string_substream =
     seqm pb_decode_varint32
       (\<lambda>sz stream. if bytes_left stream < sz then is_error ''parent stream too short'' stream
                    else Val (stream\<lparr>bytes_left := sz\<rparr>)
                           (stream\<lparr>bytes_left := bytes_left stream - sz\<rparr>))"

definition pb_close_string_substream :: "pb_istream \<Rightarrow> unit rd" where
  "pb_close_string_substream substream stream =
     (case (if bytes_left substream \<noteq> 0 then pb_read_null (bytes_left substream) substream
            else Val () substream) of
        Stuck \<Rightarrow> Stuck
      | Fail _ \<Rightarrow> Fail stream
      | Val _ sub \<Rightarrow> Val () (stream\<lparr>is_state := is_state sub, is_rest := is_rest sub,
                                    is_errmsg := is_errmsg sub\<rparr>))"

definition pb_decode_svarint :: "u64 rd" where
  "pb_decode_svarint =
     seqm pb_decode_varint
       (\<lambda>value. Val (if value AND 1 \<noteq> 0 then NOT (drop_bit 1 value) else drop_bit 1 value))"

definition pb_decode_fixed32 :: "u32 rd" where
  "pb_decode_fixed32 =
     seqm (pb_read 4)
       (\<lambda>b. Val (ucast (b ! 0) OR push_bit 8 (ucast (b ! 1)) OR push_bit 16 (ucast (b ! 2)) OR
                  push_bit 24 (ucast (b ! 3))))"

definition pb_decode_fixed64 :: "u64 rd" where
  "pb_decode_fixed64 =
     seqm (pb_read 8)
       (\<lambda>b. Val (ucast (b ! 0) OR push_bit 8 (ucast (b ! 1)) OR push_bit 16 (ucast (b ! 2)) OR
                  push_bit 24 (ucast (b ! 3)) OR push_bit 32 (ucast (b ! 4)) OR
                  push_bit 40 (ucast (b ! 5)) OR push_bit 48 (ucast (b ! 6)) OR
                  push_bit 56 (ucast (b ! 7))))"

section \<open>Field decoders\<close>

type_synonym dec_state = "pb_istream \<times> cmem"
type_synonym dec = "dec_state \<Rightarrow> (unit, dec_state) pb_out"

definition rdm :: "'a rd \<Rightarrow> dec_state \<Rightarrow> ('a, dec_state) pb_out" where
  "rdm r st = (case r (fst st) of
      Stuck \<Rightarrow> Stuck | Fail s \<Rightarrow> Fail (s, snd st) | Val a s \<Rightarrow> Val a (s, snd st))"

definition memop :: "(cmem \<Rightarrow> cmem) \<Rightarrow> dec" where
  "memop f st = Val () (fst st, f (snd st))"

definition dec_error :: "string \<Rightarrow> dec_state \<Rightarrow> ('a, dec_state) pb_out" where
  "dec_error msg = rdm (is_error msg)"

text \<open>Store a value narrowed to the field size, then check that nothing was lost; \<open>widen8\<close> and the
  others are the conversions back to 64 bits, sign or zero extension.\<close>

definition store_clamped ::
    "(u8 \<Rightarrow> u64) \<Rightarrow> (u16 \<Rightarrow> u64) \<Rightarrow> (u32 \<Rightarrow> u64) \<Rightarrow> pb_field \<Rightarrow> int \<Rightarrow> u64 \<Rightarrow> dec" where
  "store_clamped widen8 widen16 widen32 f dest v =
     (let check = (\<lambda>clamped. if clamped \<noteq> v then dec_error ''integer too large'' else Val ()) in
      if data_size f = 8 then seqm (memop (\<lambda>m. store64 m dest v)) (\<lambda>_. check v)
      else if data_size f = 4 then
        seqm (memop (\<lambda>m. store32 m dest (ucast v))) (\<lambda>_. check (widen32 (ucast v)))
      else if data_size f = 2 then
        seqm (memop (\<lambda>m. store16 m dest (ucast v))) (\<lambda>_. check (widen16 (ucast v)))
      else if data_size f = 1 then
        seqm (memop (\<lambda>m. store8 m dest (ucast v))) (\<lambda>_. check (widen8 (ucast v)))
      else dec_error ''invalid data_size'')"

definition pb_dec_varint :: "pb_field \<Rightarrow> int \<Rightarrow> dec" where
  "pb_dec_varint f dest =
     seqm (rdm pb_decode_varint)
       (\<lambda>value. let svalue = (if data_size f = 8 then value else scast (ucast value :: u32)) in
          store_clamped scast scast scast f dest svalue)"

definition pb_dec_uvarint :: "pb_field \<Rightarrow> int \<Rightarrow> dec" where
  "pb_dec_uvarint f dest = seqm (rdm pb_decode_varint) (store_clamped ucast ucast ucast f dest)"

definition pb_dec_svarint :: "pb_field \<Rightarrow> int \<Rightarrow> dec" where
  "pb_dec_svarint f dest = seqm (rdm pb_decode_svarint) (store_clamped scast scast scast f dest)"

definition pb_dec_fixed32 :: "pb_field \<Rightarrow> int \<Rightarrow> dec" where
  "pb_dec_fixed32 f dest = seqm (rdm pb_decode_fixed32) (\<lambda>v. memop (\<lambda>m. store32 m dest v))"

definition pb_dec_fixed64 :: "pb_field \<Rightarrow> int \<Rightarrow> dec" where
  "pb_dec_fixed64 f dest = seqm (rdm pb_decode_fixed64) (\<lambda>v. memop (\<lambda>m. store64 m dest v))"

definition pb_dec_bytes :: "pb_field \<Rightarrow> int \<Rightarrow> dec" where
  "pb_dec_bytes f dest =
     seqm (rdm pb_decode_varint32)
       (\<lambda>sz. if sz > ucast PB_SIZE_MAX then dec_error ''bytes overflow''
             else let alloc_sz = PB_BYTES_ARRAY_T_ALLOCSIZE sz in
               if sz > alloc_sz then dec_error ''size too large''
               else if PB_ATYPE (fd_type f) = PB_ATYPE_POINTER then dec_error ''no malloc support''
               else if alloc_sz > ucast (data_size f) then dec_error ''bytes overflow''
               else seqm (memop (\<lambda>m. store8 m dest (ucast sz)))
                 (\<lambda>_. seqm (rdm (pb_read sz)) (\<lambda>bs. memop (\<lambda>m. store_bytes m (dest + 1) bs))))"

definition pb_dec_string :: "pb_field \<Rightarrow> int \<Rightarrow> dec" where
  "pb_dec_string f dest =
     seqm (rdm pb_decode_varint32)
       (\<lambda>sz. let alloc_sz = sz + 1 in
          if alloc_sz < sz then dec_error ''size too large''
          else if PB_ATYPE (fd_type f) = PB_ATYPE_POINTER then dec_error ''no malloc support''
          else if alloc_sz > ucast (data_size f) then dec_error ''string overflow''
          else (\<lambda>st. case rdm (pb_read sz) st of
                  Stuck \<Rightarrow> Stuck
                | Fail (s, m) \<Rightarrow> Fail (s, store8 m (dest + uint sz) 0)
                | Val bs (s, m) \<Rightarrow> Val () (s, store8 (store_bytes m dest bs) (dest + uint sz) 0)))"

definition pb_dec_fixed_length_bytes :: "pb_field \<Rightarrow> int \<Rightarrow> dec" where
  "pb_dec_fixed_length_bytes f dest =
     seqm (rdm pb_decode_varint32)
       (\<lambda>sz. if sz > ucast PB_SIZE_MAX then dec_error ''bytes overflow''
             else if sz = 0 then memop (\<lambda>m. store_bytes m dest (replicate (unat (data_size f)) 0))
             else if sz \<noteq> ucast (data_size f) then dec_error ''incorrect fixed length bytes size''
             else seqm (rdm (pb_read (ucast (data_size f)))) (\<lambda>bs. memop (\<lambda>m. store_bytes m dest bs)))"

text \<open>\<open>defaults\<close> and \<open>noinit\<close> are \<^verbatim>\<open>pb_message_set_to_defaults\<close> and \<^verbatim>\<open>pb_decode_noinit\<close> on a submessage;
  without \<^verbatim>\<open>PB_ENABLE_MALLOC\<close> \<^verbatim>\<open>pb_decode\<close> is the one after the other. A result is put back on the
  parent stream by closing the substream.\<close>

type_synonym defaults = "pb_field list \<Rightarrow> int \<Rightarrow> cmem \<Rightarrow> cmem option"

definition run_defaults :: "defaults \<Rightarrow> pb_field list \<Rightarrow> int \<Rightarrow> dec" where
  "run_defaults defaults fs dest st =
     (case defaults fs dest (snd st) of None \<Rightarrow> Stuck | Some m \<Rightarrow> Val () (fst st, m))"

definition close_with :: "(unit, dec_state) pb_out \<Rightarrow> pb_istream \<Rightarrow> (unit, dec_state) pb_out" where
  "close_with r stream =
     (case r of
        Stuck \<Rightarrow> Stuck
      | Fail (sub, m) \<Rightarrow> seqm (rdm (pb_close_string_substream sub)) (\<lambda>_. Fail) (stream, m)
      | Val _ (sub, m) \<Rightarrow> rdm (pb_close_string_substream sub) (stream, m))"

definition in_substream :: "dec \<Rightarrow> dec" where
  "in_substream d =
     seqm (rdm pb_make_string_substream) (\<lambda>sub st. close_with (d (sub, snd st)) (fst st))"

definition pb_dec_submessage ::
    "defaults \<Rightarrow> (pb_field list \<Rightarrow> int \<Rightarrow> dec) \<Rightarrow> pb_field \<Rightarrow> int \<Rightarrow> dec" where
  "pb_dec_submessage defaults noinit f dest =
     seqm (rdm pb_make_string_substream)
       (\<lambda>sub st. case fd_ptr f of
            Pb_Null \<Rightarrow> dec_error ''invalid field descriptor'' st
          | Pb_Default _ \<Rightarrow> Stuck
          | Pb_Fields fs \<Rightarrow>
              close_with
                (if PB_HTYPE (fd_type f) = PB_HTYPE_REPEATED
                 then seqm (run_defaults defaults fs dest) (\<lambda>_. noinit fs dest) (sub, snd st)
                 else noinit fs dest (sub, snd st))
                (fst st))"

definition PB_DECODERS ::
    "defaults \<Rightarrow> (pb_field list \<Rightarrow> int \<Rightarrow> dec) \<Rightarrow> u8 \<Rightarrow> pb_field \<Rightarrow> int \<Rightarrow> dec" where
  "PB_DECODERS defaults noinit lt =
     (if lt = PB_LTYPE_VARINT then pb_dec_varint
      else if lt = PB_LTYPE_UVARINT then pb_dec_uvarint
      else if lt = PB_LTYPE_SVARINT then pb_dec_svarint
      else if lt = PB_LTYPE_FIXED32 then pb_dec_fixed32
      else if lt = PB_LTYPE_FIXED64 then pb_dec_fixed64
      else if lt = PB_LTYPE_BYTES then pb_dec_bytes
      else if lt = PB_LTYPE_STRING then pb_dec_string
      else if lt = PB_LTYPE_SUBMESSAGE then pb_dec_submessage defaults noinit
      else if lt = PB_LTYPE_FIXED_LENGTH_BYTES then pb_dec_fixed_length_bytes
      else (\<lambda>_ _ _. Stuck))"

section \<open>Fields\<close>

text \<open>The loop over a packed array: it stops when the substream is empty, the array full or a decoder
  fails. Every entry takes a byte, so one step per byte left and one to stop is enough fuel. The
  flag of the result is \<^verbatim>\<open>status\<close>.\<close>

primrec packed_loop :: "nat \<Rightarrow> (int \<Rightarrow> dec) \<Rightarrow> pb_field_iter \<Rightarrow> dec_state \<Rightarrow> (bool, dec_state) pb_out" where
  "packed_loop 0 func it st = Stuck"
| "packed_loop (Suc n) func it st =
     (let count = load8 (snd st) (it_pSize it) in
      if bytes_left (fst st) > 0 \<and> count < array_size (cur it) then
        case func (it_pData it + uint (data_size (cur it)) * uint count) st of
          Stuck \<Rightarrow> Stuck
        | Fail st' \<Rightarrow> Val False st'
        | Val _ st' \<Rightarrow>
            seqm (memop (\<lambda>m. store8 m (it_pSize it) (load8 m (it_pSize it) + 1)))
              (\<lambda>_. packed_loop n func it) st'
      else Val True st)"

definition decode_static_field ::
    "defaults \<Rightarrow> (pb_field list \<Rightarrow> int \<Rightarrow> dec) \<Rightarrow> pb_wire_type \<Rightarrow> pb_field_iter \<Rightarrow> dec" where
  "decode_static_field defaults noinit wt it =
     (let f = cur it; t = fd_type f; pData = it_pData it; pSize = it_pSize it;
          func = PB_DECODERS defaults noinit (PB_LTYPE t)
      in
      if PB_HTYPE t = PB_HTYPE_REQUIRED then func f pData
      else if PB_HTYPE t = PB_HTYPE_OPTIONAL then
        seqm (memop (\<lambda>m. if pSize \<noteq> pData then store8 m pSize 1 else m)) (\<lambda>_. func f pData)
      else if PB_HTYPE t = PB_HTYPE_REPEATED then
        if wt = PB_WT_STRING \<and> PB_LTYPE t \<le> PB_LTYPE_LAST_PACKABLE then
          seqm (rdm pb_make_string_substream)
            (\<lambda>sub st.
               case packed_loop (Suc (unat (bytes_left sub))) (func f) it (sub, snd st) of
                 Stuck \<Rightarrow> Stuck
               | Fail st' \<Rightarrow> Fail st'
               | Val status (sub, m) \<Rightarrow>
                   if bytes_left sub \<noteq> 0 then dec_error ''array overflow'' (fst st, m)
                   else seqm (rdm (pb_close_string_substream sub))
                          (\<lambda>_ st. if status then Val () st else Fail st) (fst st, m))
        else
          (\<lambda>st. let count = load8 (snd st) pSize in
             if count \<ge> array_size f then dec_error ''array overflow'' st
             else seqm (memop (\<lambda>m. store8 m pSize (count + 1)))
                    (\<lambda>_. func f (pData + uint (data_size f) * uint count)) st)
      else if PB_HTYPE t = PB_HTYPE_ONEOF then
        seqm (memop (\<lambda>m. store8 m pSize (fd_tag f)))
          (\<lambda>_. seqm
             (if PB_LTYPE t = PB_LTYPE_SUBMESSAGE then
                seqm (memop (\<lambda>m. store_bytes m pData (replicate (unat (data_size f)) 0)))
                  (\<lambda>_. run_defaults defaults (case fd_ptr f of Pb_Fields fs \<Rightarrow> fs | _ \<Rightarrow> []) pData)
              else Val ())
             (\<lambda>_. func f pData))
      else dec_error ''invalid field type'')"

definition decode_pointer_field :: "pb_wire_type \<Rightarrow> pb_field_iter \<Rightarrow> dec" where
  "decode_pointer_field wt it = dec_error ''no malloc support''"

text \<open>The callback is called until it has read the whole string; a callback that never does keeps the
  loop from ending. Each useful call takes a byte, which bounds the fuel.\<close>

primrec callback_loop :: "nat \<Rightarrow> dec \<Rightarrow> dec_state \<Rightarrow> (bool, dec_state) pb_out" where
  "callback_loop 0 call st = Stuck"
| "callback_loop (Suc n) call st =
     (case call st of
        Stuck \<Rightarrow> Stuck
      | Fail st' \<Rightarrow> Val False st'
      | Val _ st' \<Rightarrow> if bytes_left (fst st') \<noteq> 0 then callback_loop n call st' else Val True st')"

definition decode_callback_field :: "pb_istream pb_env \<Rightarrow> pb_wire_type \<Rightarrow> pb_field_iter \<Rightarrow> dec" where
  "decode_callback_field env wt it st =
     (let p = it_pData it; fn = callback_funcs (snd st) p; call = cb_decode env fn (cur it) (callback_arg p) in
      if p = 0 \<or> fn = 0 then rdm (pb_skip_field wt) st
      else if wt = PB_WT_STRING then
        seqm (rdm pb_make_string_substream)
          (\<lambda>sub st.
             case callback_loop (Suc (unat (bytes_left sub))) call (sub, snd st) of
               Stuck \<Rightarrow> Stuck
             | Fail st' \<Rightarrow> Fail st'
             | Val ok (sub, m) \<Rightarrow>
                 if ok then rdm (pb_close_string_substream sub) (fst st, m)
                 else dec_error ''callback failed'' (fst st, m)) st
      else
        seqm (rdm (read_raw_value wt 10))
          (\<lambda>buffer st.
             case call (pb_istream_from_buffer (raw_buffer env) buffer (of_nat (length buffer)), snd st) of
               Stuck \<Rightarrow> Stuck
             | Fail (_, m) \<Rightarrow> Fail (fst st, m)
             | Val _ (_, m) \<Rightarrow> Val () (fst st, m)) st)"

definition decode_field ::
    "pb_istream pb_env \<Rightarrow> defaults \<Rightarrow> (pb_field list \<Rightarrow> int \<Rightarrow> dec) \<Rightarrow> pb_wire_type \<Rightarrow> pb_field_iter \<Rightarrow> dec" where
  "decode_field env defaults noinit wt it =
     (if PB_ATYPE (fd_type (cur it)) = PB_ATYPE_STATIC then decode_static_field defaults noinit wt it
      else if PB_ATYPE (fd_type (cur it)) = PB_ATYPE_POINTER then decode_pointer_field wt it
      else if PB_ATYPE (fd_type (cur it)) = PB_ATYPE_CALLBACK then decode_callback_field env wt it
      else dec_error ''invalid field type'')"

text \<open>An extension is decoded through an iterator faked at its descriptor.\<close>

definition iter_from_extension :: "pb_istream pb_env \<Rightarrow> cmem \<Rightarrow> int \<Rightarrow> pb_field_iter" where
  "iter_from_extension env m e =
     (let f = xt_arg (ext_type_at env (ext_type m e));
          it = snd (pb_field_iter_begin [f] (ext_dest m e))
      in it\<lparr>it_pData := (if PB_ATYPE (fd_type f) = PB_ATYPE_POINTER then e + 4 else ext_dest m e),
            it_pSize := e + 12\<rparr>)"

definition default_extension_decoder ::
    "pb_istream pb_env \<Rightarrow> (pb_wire_type \<Rightarrow> pb_field_iter \<Rightarrow> dec) \<Rightarrow> int \<Rightarrow> u32 \<Rightarrow> pb_wire_type \<Rightarrow> dec" where
  "default_extension_decoder env field e tag wt st =
     (let it = iter_from_extension env (snd st) e in
      if ucast (fd_tag (cur it)) \<noteq> tag then Val () st
      else seqm (memop (\<lambda>m. store8 m (e + 12) 1)) (\<lambda>_. field wt it) st)"

text \<open>\<open>n\<close> bounds the length of the chain of extensions.\<close>

primrec ext_chain_decode ::
    "nat \<Rightarrow> pb_istream pb_env \<Rightarrow> (pb_wire_type \<Rightarrow> pb_field_iter \<Rightarrow> dec) \<Rightarrow> u32 \<Rightarrow> u32 \<Rightarrow> pb_wire_type \<Rightarrow>
      int \<Rightarrow> dec" where
  "ext_chain_decode 0 env field pos tag wt e st =
     (if e \<noteq> 0 \<and> pos = bytes_left (fst st) then Stuck else Val () st)"
| "ext_chain_decode (Suc n) env field pos tag wt e st =
     (if e \<noteq> 0 \<and> pos = bytes_left (fst st) then
        seqm (case xt_decode (ext_type_at env (ext_type (snd st) e)) of
                Some decode \<Rightarrow> decode e tag wt
              | None \<Rightarrow> default_extension_decoder env field e tag wt)
          (\<lambda>_ st. ext_chain_decode n env field pos tag wt (ext_next (snd st) e) st) st
      else Val () st)"

definition decode_extension ::
    "nat \<Rightarrow> pb_istream pb_env \<Rightarrow> (pb_wire_type \<Rightarrow> pb_field_iter \<Rightarrow> dec) \<Rightarrow> u32 \<Rightarrow> pb_wire_type \<Rightarrow>
      pb_field_iter \<Rightarrow> dec" where
  "decode_extension n env field tag wt it st =
     ext_chain_decode n env field (bytes_left (fst st)) tag wt (load_ptr (snd st) (it_pData it)) st"

section \<open>Default values\<close>

definition store_default :: "defaults \<Rightarrow> pb_field \<Rightarrow> int \<Rightarrow> cmem \<Rightarrow> cmem option" where
  "store_default defaults f pData m =
     (if PB_LTYPE (fd_type f) = PB_LTYPE_SUBMESSAGE then
        defaults (case fd_ptr f of Pb_Fields fs \<Rightarrow> fs | _ \<Rightarrow> []) pData m
      else case fd_ptr f of
             Pb_Default bs \<Rightarrow>
               if length bs < unat (data_size f) then None
               else Some (store_bytes m pData (take (unat (data_size f)) bs))
           | Pb_Fields _ \<Rightarrow> None
           | Pb_Null \<Rightarrow> Some (store_bytes m pData (replicate (unat (data_size f)) 0)))"

text \<open>All of \<^verbatim>\<open>pb_field_set_to_default\<close> but its extension branch.\<close>

definition set_plain_default :: "defaults \<Rightarrow> pb_field_iter \<Rightarrow> cmem \<Rightarrow> cmem option" where
  "set_plain_default defaults it m =
     (let f = cur it; t = fd_type f; pData = it_pData it; pSize = it_pSize it in
      if PB_ATYPE t = PB_ATYPE_STATIC then
        if PB_HTYPE t = PB_HTYPE_OPTIONAL \<and> pSize \<noteq> pData then
          store_default defaults f pData (store8 m pSize 0)
        else if PB_HTYPE t = PB_HTYPE_REPEATED \<or> PB_HTYPE t = PB_HTYPE_ONEOF then Some (store8 m pSize 0)
        else store_default defaults f pData m
      else if PB_ATYPE t = PB_ATYPE_POINTER then
        let m' = store32 m pData 0 in
        if PB_HTYPE t = PB_HTYPE_REPEATED \<or> PB_HTYPE t = PB_HTYPE_ONEOF then Some (store8 m' pSize 0)
        else Some m'
      else Some m)"

text \<open>\<open>found\<close> is cleared and the extension's own field set, which has no extension branch in turn: an
  extension type describes a real field.\<close>

primrec ext_chain_default :: "nat \<Rightarrow> pb_istream pb_env \<Rightarrow> defaults \<Rightarrow> int \<Rightarrow> cmem \<Rightarrow> cmem option" where
  "ext_chain_default 0 env defaults e m = (if e \<noteq> 0 then None else Some m)"
| "ext_chain_default (Suc n) env defaults e m =
     (if e = 0 then Some m
      else let m1 = store8 m (e + 12) 0; it = iter_from_extension env m1 e in
        if PB_LTYPE (fd_type (cur it)) = PB_LTYPE_EXTENSION then None
        else case set_plain_default defaults it m1 of
               None \<Rightarrow> None
             | Some m2 \<Rightarrow> ext_chain_default n env defaults (ext_next m2 e) m2)"

definition pb_field_set_to_default ::
    "nat \<Rightarrow> pb_istream pb_env \<Rightarrow> defaults \<Rightarrow> pb_field_iter \<Rightarrow> cmem \<Rightarrow> cmem option" where
  "pb_field_set_to_default n env defaults it m =
     (if PB_LTYPE (fd_type (cur it)) = PB_LTYPE_EXTENSION
      then ext_chain_default n env defaults (load_ptr m (it_pData it)) m
      else set_plain_default defaults it m)"

function defaults_loop :: "(pb_field_iter \<Rightarrow> cmem \<Rightarrow> cmem option) \<Rightarrow> pb_field_iter \<Rightarrow> cmem \<Rightarrow> cmem option" where
  "defaults_loop each it m =
     (case each it m of
        None \<Rightarrow> None
      | Some m' \<Rightarrow> if fst (pb_field_iter_next it) then defaults_loop each (snd (pb_field_iter_next it)) m'
                  else Some m')"
  by auto
termination
  by (relation "measure (\<lambda>(_, it, _). length (it_pos it))") (auto simp: iter_next_shrinks)
declare defaults_loop.simps [simp del]

primrec pb_message_set_to_defaults :: "nat \<Rightarrow> pb_istream pb_env \<Rightarrow> defaults" where
  "pb_message_set_to_defaults 0 env fs dest = (\<lambda>_. None)"
| "pb_message_set_to_defaults (Suc n) env fs dest =
     (let (ok, it) = pb_field_iter_begin fs dest in
      if \<not> ok then Some
      else defaults_loop (pb_field_set_to_default n env (pb_message_set_to_defaults n env)) it)"

section \<open>Messages\<close>

definition PB_MAX_REQUIRED_FIELDS :: u32 where "PB_MAX_REQUIRED_FIELDS = 64"

text \<open>The state of the loop: the words of \<^verbatim>\<open>fields_seen\<close>, \<^verbatim>\<open>extension_range_start\<close> and the iterator.
  Every turn reads at least the byte of a tag, so one step per byte left and one to stop is enough
  fuel.\<close>

type_synonym noinit_state = "u32 list \<times> u32 \<times> pb_field_iter"

definition mark_seen :: "pb_field_iter \<Rightarrow> u32 list \<Rightarrow> u32 list" where
  "mark_seen it seen =
     (if PB_HTYPE (fd_type (cur it)) = PB_HTYPE_REQUIRED \<and> it_required it < PB_MAX_REQUIRED_FIELDS then
        let i = unat (drop_bit 5 (it_required it)) in
        seen[i := seen ! i OR push_bit (unat (it_required it AND 31)) 1]
      else seen)"

text \<open>One turn of the loop for a decoded tag: an unknown tag is offered to the extensions, then
  skipped; a known one is decoded.\<close>

definition noinit_turn ::
    "nat \<Rightarrow> pb_istream pb_env \<Rightarrow> (pb_wire_type \<Rightarrow> pb_field_iter \<Rightarrow> dec) \<Rightarrow> pb_wire_type \<Rightarrow> u32 \<Rightarrow> noinit_state \<Rightarrow>
      dec_state \<Rightarrow> (noinit_state, dec_state) pb_out" where
  "noinit_turn n env field wt tag ns st =
     (let (seen, ext_start, it) = ns; (found, it1) = pb_field_iter_find it tag in
      if found then
        seqm (field wt it1) (\<lambda>_. Val (mark_seen it1 seen, ext_start, it1)) st
      else if tag \<ge> ext_start then
        let (has_ext, it2) = find_extension_field it1;
            ext_start' = (if has_ext then ucast (fd_tag (cur it2)) else -1) in
        if tag \<ge> ext_start' then
          seqm (decode_extension n env field tag wt it2)
            (\<lambda>_ st'. if bytes_left (fst st) \<noteq> bytes_left (fst st') then Val (seen, ext_start', it2) st'
                     else seqm (rdm (pb_skip_field wt)) (\<lambda>_. Val (seen, ext_start', it2)) st') st
        else seqm (rdm (pb_skip_field wt)) (\<lambda>_. Val (seen, ext_start', it2)) st
      else seqm (rdm (pb_skip_field wt)) (\<lambda>_. Val (seen, ext_start, it1)) st)"

primrec noinit_loop ::
    "nat \<Rightarrow> nat \<Rightarrow> pb_istream pb_env \<Rightarrow> (pb_wire_type \<Rightarrow> pb_field_iter \<Rightarrow> dec) \<Rightarrow> noinit_state \<Rightarrow>
      dec_state \<Rightarrow> (noinit_state, dec_state) pb_out" where
  "noinit_loop 0 n env field ns st = Stuck"
| "noinit_loop (Suc k) n env field ns st =
     (if bytes_left (fst st) = 0 then Val ns st
      else seqm (rdm pb_decode_tag)
        (\<lambda>(ok, wt, tag, eof).
           if \<not> ok then if eof then Val ns else Fail
           else seqm (noinit_turn n env field wt tag ns) (noinit_loop k n env field)) st)"

text \<open>The number of required fields, found by walking to the end of the array.\<close>

function req_walk :: "pb_field_iter \<Rightarrow> u32 \<times> u8 \<times> pb_field_iter" where
  "req_walk it =
     (if fst (pb_field_iter_next it) then req_walk (snd (pb_field_iter_next it))
      else (it_required it, fd_type (cur it), snd (pb_field_iter_next it)))"
  by auto
termination
  by (relation "measure (length \<circ> it_pos)") (auto simp: iter_next_shrinks)
declare req_walk.simps [simp del]

definition req_field_count :: "pb_field_iter \<Rightarrow> u32" where
  "req_field_count it =
     (let (count, last_type, it') = req_walk it;
          count' = (if PB_HTYPE last_type = PB_HTYPE_REQUIRED \<and> fd_tag (cur it') \<noteq> 0 then count + 1 else count)
      in if count' > PB_MAX_REQUIRED_FIELDS then PB_MAX_REQUIRED_FIELDS else count')"

definition all_required_seen :: "u32 \<Rightarrow> u32 list \<Rightarrow> bool" where
  "all_required_seen count seen \<longleftrightarrow>
     count = 0 \<or>
     (list_all (\<lambda>i. seen ! i = NOT 0) [0..<unat (drop_bit 5 count)] \<and>
      (count AND 31 \<noteq> 0 \<longrightarrow>
         seen ! unat (drop_bit 5 count) = drop_bit (unat (32 - (count AND 31))) (NOT 0)))"

definition noinit_body ::
    "nat \<Rightarrow> pb_istream pb_env \<Rightarrow> (pb_wire_type \<Rightarrow> pb_field_iter \<Rightarrow> dec) \<Rightarrow> pb_field list \<Rightarrow> int \<Rightarrow> dec" where
  "noinit_body n env field fs dest st =
     seqm (noinit_loop (Suc (unat (bytes_left (fst st)))) n env field
             ([0, 0], 0, snd (pb_field_iter_begin fs dest)))
       (\<lambda>(seen, _, it).
          if all_required_seen (req_field_count it) seen then Val ()
          else dec_error ''missing required field'') st"

primrec pb_decode_noinit :: "nat \<Rightarrow> pb_istream pb_env \<Rightarrow> pb_field list \<Rightarrow> int \<Rightarrow> dec" where
  "pb_decode_noinit 0 env fs dest = (\<lambda>_. Stuck)"
| "pb_decode_noinit (Suc n) env fs dest =
     noinit_body n env
       (decode_field env (pb_message_set_to_defaults n env) (pb_decode_noinit n env)) fs dest"

definition pb_decode :: "nat \<Rightarrow> pb_istream pb_env \<Rightarrow> pb_field list \<Rightarrow> int \<Rightarrow> dec" where
  "pb_decode n env fs dest =
     seqm (run_defaults (pb_message_set_to_defaults n env) fs dest) (\<lambda>_. pb_decode_noinit n env fs dest)"

definition pb_decode_delimited_noinit :: "nat \<Rightarrow> pb_istream pb_env \<Rightarrow> pb_field list \<Rightarrow> int \<Rightarrow> dec" where
  "pb_decode_delimited_noinit n env fs dest = in_substream (pb_decode_noinit n env fs dest)"

definition pb_decode_delimited :: "nat \<Rightarrow> pb_istream pb_env \<Rightarrow> pb_field list \<Rightarrow> int \<Rightarrow> dec" where
  "pb_decode_delimited n env fs dest = in_substream (pb_decode n env fs dest)"

definition pb_decode_nullterminated :: "nat \<Rightarrow> pb_istream pb_env \<Rightarrow> pb_field list \<Rightarrow> int \<Rightarrow> dec" where
  "pb_decode_nullterminated n env fs dest = pb_decode n env fs dest"

end
