(* ===== verification/Pb_Wire.thy ===== *)
theory Pb_Wire
  imports Pb_Decode
begin

text \<open>
  What the encoder puts on the wire and what the decoder reads back, value by value. \<open>emits e bs\<close> says
  that the encoder \<open>e\<close> appends exactly the bytes \<open>bs\<close> to a stream with room for them, fails on one
  without, and only counts on a sizing stream; \<open>reads d bs v\<close> that the reader \<open>d\<close> takes exactly \<open>bs\<close>
  from a stream that starts with them and returns \<open>v\<close>. Both are closed under sequencing, so the
  messages are put together from their parts.
\<close>

named_theorems emit_intros \<open>what the encoders emit\<close>
named_theorems read_intros \<open>what the readers read\<close>

section \<open>Emitting and reading\<close>

definition put :: "u8 list \<Rightarrow> pb_ostream \<Rightarrow> pb_ostream" where
  "put bs s = s\<lparr>os_out := (if os_writing s then os_out s @ bs else os_out s),
                bytes_written := bytes_written s + of_nat (length bs)\<rparr>"

text \<open>A stream whose counter does not wrap in the next \<open>n\<close> bytes, and is within its limit and
  without an error so far.\<close>

definition sane :: "pb_ostream \<Rightarrow> nat \<Rightarrow> bool" where
  "sane s n \<longleftrightarrow> unat (bytes_written s) + n < 2 ^ 32 \<and>
     (os_writing s \<longrightarrow> unat (bytes_written s) \<le> unat (max_size s)) \<and> os_errmsg s = None"

definition fits :: "pb_ostream \<Rightarrow> nat \<Rightarrow> bool" where
  "fits s n \<longleftrightarrow> (os_writing s \<longrightarrow> unat (bytes_written s) + n \<le> unat (max_size s))"

definition no_val :: "('a, 's) pb_out \<Rightarrow> bool" where
  "no_val r \<longleftrightarrow> (case r of Val _ _ \<Rightarrow> False | _ \<Rightarrow> True)"

definition emits :: "enc \<Rightarrow> u8 list \<Rightarrow> bool" where
  "emits e bs \<longleftrightarrow> (\<forall>s. sane s (length bs) \<longrightarrow>
     (if fits s (length bs) then e s = Val () (put bs s) else no_val (e s)))"

definition adv :: "nat \<Rightarrow> pb_istream \<Rightarrow> pb_istream" where
  "adv n s = s\<lparr>is_state := is_state s + int n, is_rest := drop n (is_rest s),
               bytes_left := bytes_left s - of_nat n\<rparr>"

definition ready :: "u8 list \<Rightarrow> pb_istream \<Rightarrow> bool" where
  "ready bs s \<longleftrightarrow> (\<exists>r. is_rest s = bs @ r) \<and> length bs \<le> unat (bytes_left s)"

definition reads :: "'a rd \<Rightarrow> u8 list \<Rightarrow> 'a \<Rightarrow> bool" where
  "reads d bs v \<longleftrightarrow> (\<forall>s. ready bs s \<longrightarrow> d s = Val v (adv (length bs) s))"

lemma no_val_simps [simp]: "no_val Stuck" "no_val (Fail s)" "\<not> no_val (Val a s)"
  by (simp_all add: no_val_def)

lemma no_val_seqm: "no_val (f s) \<Longrightarrow> no_val (seqm f g s)"
  by (cases "f s") (simp_all add: seqm_def)

lemma seqm_val: "f s = Val a s' \<Longrightarrow> seqm f g s = g a s'"
  by (simp add: seqm_def)

lemma seqm_fail: "f s = Fail s' \<Longrightarrow> seqm f g s = Fail s'"
  by (simp add: seqm_def)

lemma seqm_assoc: "seqm (seqm f g) h = seqm f (\<lambda>a. seqm (g a) h)"
  by (rule ext) (auto simp: seqm_def split: pb_out.splits)

lemma no_val_error [simp]: "no_val (os_error msg s)"
  by (simp add: os_error_def)

lemma put_put: "put cs (put bs s) = put (bs @ cs) s"
  by (simp add: put_def)

lemma put_fields [simp]:
  "os_errmsg (put bs s) = os_errmsg s" "os_writing (put bs s) = os_writing s" "max_size (put bs s) = max_size s"
  "bytes_written (put bs s) = bytes_written s + of_nat (length bs)"
  by (simp_all add: put_def)

lemma unat_bytes_written_put:
  "sane s (length bs) \<Longrightarrow> unat (bytes_written (put bs s)) = unat (bytes_written s) + length bs"
  by (simp add: sane_def unat_word_ariths unat_of_nat)

lemma sane_append:
  assumes "sane s (length (bs @ cs))"
  shows "sane s (length bs)" and "fits s (length bs) \<Longrightarrow> sane (put bs s) (length cs)"
    and "fits s (length (bs @ cs)) \<longleftrightarrow> fits s (length bs) \<and> fits (put bs s) (length cs)"
proof -
  show s: "sane s (length bs)" using assms by (simp add: sane_def)
  show "fits s (length bs) \<Longrightarrow> sane (put bs s) (length cs)"
    using assms unat_bytes_written_put [OF s] by (auto simp: sane_def fits_def)
  show "fits s (length (bs @ cs)) \<longleftrightarrow> fits s (length bs) \<and> fits (put bs s) (length cs)"
    using unat_bytes_written_put [OF s] by (auto simp: fits_def)
qed

lemma emits_seq [emit_intros]:
  assumes "emits e bs" and "emits (f ()) cs"
  shows "emits (seqm e f) (bs @ cs)"
  unfolding emits_def
proof (intro allI impI)
  fix s assume n: "sane s (length (bs @ cs))"
  note n' = sane_append [OF n]
  show "if fits s (length (bs @ cs)) then seqm e f s = Val () (put (bs @ cs) s) else no_val (seqm e f s)"
  proof (cases "fits s (length bs)")
    case True
    then have "e s = Val () (put bs s)" using assms(1) n'(1) by (simp add: emits_def)
    then have "seqm e f s = f () (put bs s)" by (simp add: seqm_def)
    then show ?thesis
      using assms(2) n'(2,3) True by (auto simp: emits_def put_put)
  next
    case False
    then have "no_val (e s)" using assms(1) n'(1) by (simp add: emits_def)
    then show ?thesis using False n'(3) by (auto simp: no_val_seqm)
  qed
qed

lemma emits_nothing [emit_intros]: "emits (Val ()) []"
  by (auto simp: emits_def put_def fits_def sane_def)

lemma emits_write [emit_intros]:
  assumes "length bs = unat n"
  shows "emits (pb_write bs n) bs"
  unfolding emits_def
proof (intro allI impI)
  fix s assume n: "sane s (length bs)"
  have v: "os_writing s \<Longrightarrow> unat (bytes_written s) \<le> unat (max_size s)" using n by (simp add: sane_def)
  have u: "unat (bytes_written s + n) = unat (bytes_written s) + unat n"
    using n assms by (simp add: sane_def unat_word_ariths)
  have of: "of_nat (length bs) = n" using assms by simp
  show "if fits s (length bs) then pb_write bs n s = Val () (put bs s) else no_val (pb_write bs n s)"
    using u assms of by (auto simp: pb_write_def buf_write_def put_def fits_def word_less_nat_alt os_error_def)
qed

lemma emits_sizing: "emits e bs \<Longrightarrow> length bs < 2 ^ 32 \<Longrightarrow> e PB_OSTREAM_SIZING = Val () (put bs PB_OSTREAM_SIZING)"
  by (simp add: emits_def sane_def fits_def PB_OSTREAM_SIZING_def)

lemma emits_val:
  "emits e bs \<Longrightarrow> sane s (length bs) \<Longrightarrow> fits s (length bs) \<Longrightarrow> e s = Val () (put bs s)"
  by (simp add: emits_def)

lemma adv_adv: "adv m (adv n s) = adv (n + m) s"
  by (simp add: adv_def algebra_simps)

lemma adv_0 [simp]: "adv 0 s = s"
  by (simp add: adv_def)

lemma adv_fields [simp]:
  "is_rest (adv n s) = drop n (is_rest s)" "bytes_left (adv n s) = bytes_left s - of_nat n"
  "is_state (adv n s) = is_state s + int n" "is_errmsg (adv n s) = is_errmsg s"
  by (simp_all add: adv_def)

lemma unat_minus_of_nat: "n \<le> unat (w :: u32) \<Longrightarrow> unat (w - of_nat n) = unat w - n"
proof -
  assume le: "n \<le> unat w"
  have "unat w < 2 ^ LENGTH(32)" by (rule unsigned_less)
  then have n: "unat (of_nat n :: u32) = n" using le by (simp add: unat_of_nat)
  have "(of_nat n :: u32) \<le> w" using le n by (simp add: word_le_nat_alt)
  then show ?thesis using n by (simp add: unat_sub)
qed

lemma ready_append:
  "ready (bs @ cs) s \<longleftrightarrow> ready bs s \<and> ready cs (adv (length bs) s)"
  by (auto simp: ready_def unat_minus_of_nat) 

lemma ready_Nil [simp]: "ready [] s"
  by (simp add: ready_def)

lemma reads_seq [read_intros]:
  assumes "reads d bs v" and "reads (g v) cs w"
  shows "reads (seqm d g) (bs @ cs) w"
  using assms by (auto simp: reads_def ready_append seqm_def adv_adv)

lemma reads_return [read_intros]: "reads (Val v) [] v"
  by (simp add: reads_def)

lemma reads_read [read_intros]:
  assumes "length bs = unat n"
  shows "reads (pb_read n) bs bs"
proof -
  have "of_nat (length bs) = n" "int (length bs) = uint n" using assms by simp_all
  then show ?thesis
    using assms by (auto simp: reads_def ready_def pb_read_def buf_read_def adv_def word_less_nat_alt)
qed

lemma reads_readbyte [read_intros]: "reads pb_readbyte [b] b"
  by (auto simp: reads_def ready_def pb_readbyte_def buf_read_def adv_def)

section \<open>Varints\<close>

text \<open>The reference: seven bits a byte, the low ones first, the high bit on all bytes but the last.\<close>

function varint_bytes :: "u64 \<Rightarrow> u8 list" where
  "varint_bytes v =
     (if v < 0x80 then [ucast v] else (ucast (v AND 0x7F) OR 0x80) # varint_bytes (drop_bit 7 v))"
  by auto
termination
  by (relation "measure unat")
     (auto simp: drop_bit_eq_div unat_div word_less_nat_alt)
declare varint_bytes.simps [simp del]

lemma and_7F: "(v :: u64) AND 0x7F = take_bit 7 v" "(b :: u8) AND 0x7F = take_bit 7 b"
  by (simp_all add: take_bit_eq_mask mask_eq_exp_minus_1)

lemma x80: "(0x80 :: u8) = push_bit 7 1"
  by simp

lemma bit_x80: "bit (0x80 :: u8) n \<longleftrightarrow> n = 7"
  unfolding x80 bit_push_bit_iff by (auto simp: bit_1_iff)

lemma and_80: "(b :: u8) AND 0x80 = 0 \<longleftrightarrow> \<not> bit b 7"
  by (simp only: x80 and_exp_eq_0_iff_not_bit push_bit_of_1)

lemma below_80: "(v :: u64) < 0x80 \<longleftrightarrow> take_bit 7 v = v"
  by (simp add: word_unat_eq_iff unsigned_take_bit_eq take_bit_eq_mod word_less_nat_alt
      mod_eq_self_iff_div_eq_0 div_eq_0_iff unat_mod)

lemma drop_7_eq_0: "drop_bit 7 v = 0 \<longleftrightarrow> (v :: u64) < 0x80"
  by (simp add: below_80 take_bit_eq_self_iff_drop_bit_eq_0)

lemma seven_bits:
  "take_bit 7 (ucast (take_bit 7 (v :: u64)) OR 0x80) = (take_bit 7 (ucast v) :: u8)"
  by (rule bit_word_eqI) (auto simp: bit_simps bit_x80)

lemma bit_7_cont: "bit (ucast (take_bit 7 (v :: u64)) OR (0x80 :: u8)) 7"
  by (simp add: bit_simps bit_x80)

lemma bit_7_last: "(v :: u64) < 0x80 \<Longrightarrow> \<not> bit (ucast v :: u8) 7"
  by (simp add: below_80) (metis bit_take_bit_iff bit_unsigned_iff less_irrefl)

lemma ucast_seven: "(ucast (take_bit 7 (ucast (v :: u64) :: u8)) :: 'a::len word) = ucast (take_bit 7 v)"
  by (rule bit_word_eqI) (auto simp: bit_simps)

lemma ucast_last:
  assumes "take_bit 7 v = (v :: u64)"
  shows "(ucast (ucast v :: u8) :: 'a::len word) = ucast v"
proof -
  have "(ucast (ucast (take_bit 7 v) :: u8) :: 'a word) = ucast (take_bit 7 v)"
    by (rule bit_word_eqI) (auto simp: bit_simps)
  then show ?thesis by (simp only: assms)
qed

lemma seven_ucast: "take_bit 7 (ucast (take_bit 7 (v :: u64)) :: u8) = take_bit 7 (ucast v)"
  by (rule bit_word_eqI) (auto simp: bit_simps)

lemma or_seven:
  "(r OR push_bit k (ucast (take_bit 7 (v :: u64)))) OR push_bit (7 + k) (ucast (drop_bit 7 v)) =
    r OR push_bit k (ucast v :: 'a::len word)"
proof (rule bit_word_eqI)
  fix n assume n: "n < LENGTH('a)"
  show "bit ((r OR push_bit k (ucast (take_bit 7 v))) OR push_bit (7 + k) (ucast (drop_bit 7 v))) n
      \<longleftrightarrow> bit (r OR push_bit k (ucast v)) n"
  proof (cases "7 + k \<le> n")
    case True
    then have "7 + (n - (7 + k)) = n - k" by simp
    then show ?thesis using True n by (auto simp: bit_simps)
  qed (use n in \<open>auto simp: bit_simps\<close>)
qed

lemma take_bit_8: "take_bit 7 (v :: u64) = v \<Longrightarrow> take_bit 7 (ucast v :: u8) = ucast v"
proof -
  assume v: "take_bit 7 v = v"
  have "take_bit 7 (ucast v :: u8) = ucast (take_bit 7 v)"
    by (rule bit_word_eqI) (auto simp: bit_simps)
  then show ?thesis by (simp only: v)
qed

lemma varint_loop_bytes:
  "v \<noteq> 0 \<Longrightarrow> length acc < length (varint_loop v acc) \<and>
     (varint_loop v acc)[length (varint_loop v acc) - 1 :=
        varint_loop v acc ! (length (varint_loop v acc) - 1) AND 0x7F] = acc @ varint_bytes v"
proof (induction v acc rule: varint_loop.induct)
  case (1 v acc)
  let ?x = "ucast (v AND 0x7F) OR (0x80 :: u8)"
  have loop: "varint_loop v acc = varint_loop (drop_bit 7 v) (acc @ [?x])"
    using 1(2) by (subst varint_loop.simps) simp
  show ?case
  proof (cases "v < 0x80")
    case True
    then have "drop_bit 7 v = 0" by (simp add: drop_7_eq_0)
    then have l: "varint_loop v acc = acc @ [?x]" unfolding loop by (subst varint_loop.simps) simp
    have "varint_bytes v = [ucast v]" using True by (simp add: varint_bytes.simps)
    moreover have "?x AND 0x7F = ucast v"
      using True by (simp add: and_7F seven_bits below_80 take_bit_8)
    ultimately show ?thesis unfolding l by simp
  next
    case False
    then have d: "drop_bit 7 v \<noteq> 0" by (simp add: drop_7_eq_0)
    have "varint_bytes v = ?x # varint_bytes (drop_bit 7 v)"
      using False by (subst varint_bytes.simps) simp
    then show ?thesis using 1(1) [OF 1(2) d] unfolding loop by simp
  qed
qed

lemma length_varint_bytes_bound:
  "unat v < 2 ^ (7 * Suc k) \<Longrightarrow> length (varint_bytes v) \<le> Suc k"
proof (induction v arbitrary: k rule: varint_bytes.induct)
  case (1 v)
  show ?case
  proof (cases "v < 0x80")
    case False
    then have "\<not> unat v < 2 ^ 7" by (simp add: word_less_nat_alt)
    with 1(2) obtain k' where k: "k = Suc k'" by (cases k) auto
    have "unat (drop_bit 7 v) < 2 ^ (7 * Suc k')"
      using 1(2) by (simp add: k drop_bit_eq_div unat_div div_less_iff_less_mult power_add mult.commute)
    then show ?thesis using False 1(1) by (subst varint_bytes.simps) (simp add: k)
  qed (simp add: varint_bytes.simps)
qed

lemma length_varint_bytes: "length (varint_bytes v) \<le> 10"
proof -
  have "unat v < 2 ^ LENGTH(64)" by (rule unsigned_less)
  then have "unat v < 2 ^ (7 * Suc 9)" by simp
  from length_varint_bytes_bound [OF this] show ?thesis by simp
qed

lemma varint_bytes_nonempty [simp]: "varint_bytes v \<noteq> []"
  by (subst varint_bytes.simps) simp

lemma pb_encode_varint_eq:
  "pb_encode_varint v = pb_write (varint_bytes v) (of_nat (length (varint_bytes v)))"
proof (cases "v \<le> 0x7F")
  case True
  then have "v < 0x80" by (simp add: word_le_nat_alt word_less_nat_alt)
  then show ?thesis using True by (simp add: pb_encode_varint_def varint_bytes.simps)
next
  case False
  then have v: "v \<noteq> 0" by auto
  let ?b = "varint_loop v []"
  have e: "?b[length ?b - 1 := ?b ! (length ?b - 1) AND 0x7F] = varint_bytes v"
    using varint_loop_bytes [OF v, of "[]"] by simp
  then have "length ?b = length (varint_bytes v)" by (metis length_list_update)
  then show ?thesis using False e by (simp add: pb_encode_varint_def Let_def)
qed

lemma emits_varint [emit_intros]: "emits (pb_encode_varint v) (varint_bytes v)"
  unfolding pb_encode_varint_eq using length_varint_bytes [of v]
  by (intro emits_write) (simp add: unat_of_nat)

lemma readbyte_ready:
  "ready (b # bs) s \<Longrightarrow> pb_readbyte s = Val b (adv 1 s) \<and> ready bs (adv 1 s)"
  using reads_readbyte [of b] ready_append [of "[b]" bs s] by (simp add: reads_def)

lemma varint_bytes_cases:
  obtains (last) "v < 0x80" "varint_bytes v = [ucast v]" "\<not> bit (ucast v :: u8) 7"
      "take_bit 7 (ucast v :: u8) = ucast v" "take_bit 7 v = v"
    | (more) b where "\<not> v < 0x80" "varint_bytes v = b # varint_bytes (drop_bit 7 v)" "bit b 7"
      "take_bit 7 b = take_bit 7 (ucast v :: u8)"
proof (cases "v < 0x80")
  case True
  then have "take_bit 7 v = v" by (simp add: below_80)
  then show ?thesis
    using True by (intro last) (simp_all add: varint_bytes.simps bit_7_last take_bit_8)
next
  case False
  show ?thesis
    by (rule more [of "ucast (v AND 0x7F) OR 0x80"])
       (use False in \<open>simp_all add: varint_bytes.simps [of v] and_7F bit_7_cont seven_bits seven_ucast\<close>)
qed

lemma unat_drop_7:
  assumes "unat (v :: u64) < 2 ^ (m - 7 * k)" and "\<not> v < 0x80"
  shows "7 * Suc k < m" and "unat (drop_bit 7 v) < 2 ^ (m - 7 * Suc k)"
proof -
  have g: "(2 :: nat) ^ 7 \<le> unat v" using assms(2) by (simp add: word_less_nat_alt)
  then have "(2 :: nat) ^ 7 < 2 ^ (m - 7 * k)" using assms(1) by linarith
  then have "7 < m - 7 * k" using power_less_imp_less_exp [of "2 :: nat" 7 "m - 7 * k"] by simp
  then show m: "7 * Suc k < m" by simp
  obtain j where j: "m - 7 * k = 7 + j" "m - 7 * Suc k = j"
    by (rule that [of "m - 7 * Suc k"]) (use m in simp_all)
  have "unat v < 2 ^ 7 * 2 ^ j" using assms(1) unfolding j(1) by (simp only: power_add)
  then show "unat (drop_bit 7 v) < 2 ^ (m - 7 * Suc k)"
    unfolding j(2) by (simp add: drop_bit_eq_div unat_div div_less_iff_less_mult mult.commute)
qed

lemma unat_7k: "7 * k < 256 \<Longrightarrow> unat (of_nat (7 * k) :: u8) = 7 * k"
  by (subst unat_of_nat) simp

lemma varint_rd_loop_bytes:
  "\<lbrakk>ready (varint_bytes v) s; 7 * k < 64; unat v < 2 ^ (64 - 7 * k)\<rbrakk> \<Longrightarrow>
    varint_rd_loop (of_nat (7 * k)) r s = Val (r OR push_bit (7 * k) v) (adv (length (varint_bytes v)) s)"
proof (induction v arbitrary: s k r rule: varint_bytes.induct)
  case (1 v)
  have k: "unat (of_nat (7 * k) :: u8) = 7 * k" using 1(3) by (simp only: unat_7k)
  then have p: "\<not> (64 :: u8) \<le> of_nat (7 * k)" using 1(3) by (simp add: word_le_nat_alt)
  show ?case
  proof (cases v rule: varint_bytes_cases)
    case last
    have "ready [ucast v] s" using 1(2) last(2) by simp
    from readbyte_ready [OF this] show ?thesis
      using last p k by (subst varint_rd_loop.simps) (simp add: and_7F and_80 ucast_seven ucast_last Let_def)
  next
    case (more b)
    have "ready (b # varint_bytes (drop_bit 7 v)) s" using 1(2) more(2) by simp
    note r = readbyte_ready [OF this]
    note d = unat_drop_7 [OF 1(4) more(1)]
    have e: "of_nat (7 * k) + 7 = (of_nat (7 * Suc k) :: u8)" by simp
    have step: "varint_rd_loop (of_nat (7 * k)) r s =
        varint_rd_loop (of_nat (7 * Suc k)) (r OR push_bit (7 * k) (take_bit 7 v)) (adv 1 s)"
      using more p k r by (subst varint_rd_loop.simps) (simp add: and_7F and_80 ucast_seven Let_def e [symmetric] add.commute)
    show ?thesis
      unfolding step using 1(1) [OF more(1) _ d] r
      by (simp add: or_seven [where 'a = 64, simplified] adv_adv more(2))
  qed
qed

lemma reads_varint [read_intros]: "reads pb_decode_varint (varint_bytes v) v"
  unfolding reads_def pb_decode_varint_def
  using varint_rd_loop_bytes [where k = 0 and r = 0] unsigned_less [of v, where 'a = nat] by simp

lemma varint32_loop_bytes:
  "\<lbrakk>ready (varint_bytes v) s; 0 < k; 7 * k < 32; unat v < 2 ^ (32 - 7 * k)\<rbrakk> \<Longrightarrow>
    \<exists>bp b. varint32_loop r (of_nat (7 * k)) s =
      Val (r OR push_bit (7 * k) (ucast v), bp, b) (adv (length (varint_bytes v)) s) \<and>
      (bp = 35 \<longrightarrow> b AND 0x70 = 0)"
proof (induction v arbitrary: s k r rule: varint_bytes.induct)
  case (1 v)
  have k: "unat (of_nat (7 * k) :: u8) = 7 * k" using 1(4) by (simp only: unat_7k)
  then have p: "\<not> (32 :: u8) \<le> of_nat (7 * k)" using 1(4) by (simp add: word_le_nat_alt)
  have e: "of_nat (7 * k) + 7 = (of_nat (7 * Suc k) :: u8)" by simp
  show ?case
  proof (cases v rule: varint_bytes_cases)
    case last
    have "ready [ucast v] s" using 1(2) last(2) by simp
    from readbyte_ready [OF this]
    have "varint32_loop r (of_nat (7 * k)) s =
        Val (r OR push_bit (7 * k) (ucast v), of_nat (7 * Suc k), ucast v) (adv 1 s)"
      using last p k
      by (subst varint32_loop.simps) (simp add: and_7F and_80 ucast_seven ucast_last Let_def e)
    moreover have "ucast v AND (0x70 :: u8) = 0" if "of_nat (7 * Suc k) = (35 :: u8)"
    proof -
      have "7 * Suc k = 35" using arg_cong [OF that, of unat] 1(4) unat_7k [of "Suc k"] by simp
      then have "unat v < 16" using 1(5) by simp
      then have "unat (ucast v :: u8) = unat v" by (simp add: unsigned_ucast_eq take_bit_nat_eq_self)
      then have "(ucast v :: u8) < 2 ^ 4" using \<open>unat v < 16\<close> by (simp add: word_less_nat_alt)
      then have t: "take_bit 4 (ucast v :: u8) = ucast v"
        by (simp add: word_unat_eq_iff unsigned_take_bit_eq take_bit_eq_mod word_less_nat_alt unat_mod)
      have "take_bit 4 (ucast v :: u8) AND 0x70 = 0"
      proof (rule bit_word_eqI)
        fix n assume "n < LENGTH(8)"
        then consider "n = 0" | "n = 1" | "n = 2" | "n = 3" | "n \<ge> 4" by linarith
        then show "bit (take_bit 4 (ucast v :: u8) AND 0x70) n \<longleftrightarrow> bit (0 :: u8) n"
          by cases (auto simp: bit_simps bit_numeral_rec)
      qed
      then show ?thesis by (simp only: t)
    qed
    ultimately show ?thesis using last(2) by auto
  next
    case (more b)
    have "ready (b # varint_bytes (drop_bit 7 v)) s" using 1(2) more(2) by simp
    note r = readbyte_ready [OF this]
    note d = unat_drop_7 [OF 1(5) more(1)]
    have step: "varint32_loop r (of_nat (7 * k)) s =
        varint32_loop (r OR push_bit (7 * k) (ucast (take_bit 7 v))) (of_nat (7 * Suc k)) (adv 1 s)"
      using more p k r
      by (subst varint32_loop.simps) (simp add: and_7F and_80 ucast_seven Let_def e [symmetric] add.commute)
    show ?thesis
      unfolding step using 1(1) [OF more(1) _ _ d, of "adv 1 s" "r OR push_bit (7 * k) (ucast (take_bit 7 v))"] r
      by (simp add: or_seven adv_adv more(2))
  qed
qed

lemma reads_varint32_eof [read_intros]:
  assumes "unat v < 2 ^ 32"
  shows "reads pb_decode_varint32_eof (varint_bytes v) (Some (ucast v), False)"
  unfolding reads_def
proof (intro allI impI)
  fix s assume r: "ready (varint_bytes v) s"
  show "pb_decode_varint32_eof s = Val (Some (ucast v), False) (adv (length (varint_bytes v)) s)"
  proof (cases v rule: varint_bytes_cases)
    case last
    have "ready [ucast v] s" using r last(2) by simp
    from readbyte_ready [OF this] show ?thesis
      using last by (simp add: pb_decode_varint32_eof_def and_80 ucast_last)
  next
    case (more b)
    have "ready (b # varint_bytes (drop_bit 7 v)) s" using r more(2) by simp
    note r' = readbyte_ready [OF this]
    have d: "unat (drop_bit 7 v) < 2 ^ (32 - 7 * 1)"
      using assms by (simp add: drop_bit_eq_div unat_div div_less_iff_less_mult)
    have f: "ucast (b AND 0x7F) = (ucast (take_bit 7 v) :: u32)"
      using more(4) by (simp add: and_7F ucast_seven)
    obtain bp c where l: "varint32_loop (ucast (take_bit 7 v)) 7 (adv 1 s) =
        Val (ucast (take_bit 7 v) OR push_bit 7 (ucast (drop_bit 7 v)), bp, c)
          (adv (length (varint_bytes (drop_bit 7 v))) (adv 1 s))" "bp = 35 \<longrightarrow> c AND 0x70 = 0"
      using varint32_loop_bytes [OF conjunct2 [OF r'] _ _ d, of "ucast (take_bit 7 v)"] by auto
    have o: "ucast (take_bit 7 v) OR push_bit 7 (ucast (drop_bit 7 v)) = (ucast v :: u32)"
      using or_seven [of "0 :: u32" 0 v] by simp
    show ?thesis
      using r' l more(3) unfolding pb_decode_varint32_eof_def
      by (simp add: f and_80 o adv_adv more(2))
  qed
qed

lemma ucast_down_up: "ucast (ucast (n :: u32) :: u64) = n"
  by (rule bit_word_eqI) (auto simp: bit_simps)

lemma reads_varint32 [read_intros]: "reads pb_decode_varint32 (varint_bytes (ucast n)) n"
proof -
  have u: "unat (ucast n :: u64) = unat n"
    using unsigned_less [of n, where 'a = nat]
    by (simp add: unsigned_ucast_eq take_bit_nat_eq_self order.strict_trans)
  have "unat (ucast n :: u64) < 2 ^ 32"
    using unsigned_less [of n, where 'a = nat] u by simp
  from reads_varint32_eof [OF this]
  show ?thesis by (auto simp: pb_decode_varint32_def reads_def seqm_def ucast_down_up)
qed

section \<open>Zigzag, fixed widths, tags and strings\<close>

definition zigzag :: "u64 \<Rightarrow> u64" where
  "zigzag v = (if v <s 0 then NOT (push_bit 1 v) else push_bit 1 v)"

lemma sless_0: "(v :: u64) <s 0 \<longleftrightarrow> bit v 63"
  using bit_last_iff [of v] by (simp add: word_sless_alt)

lemma zigzag_inverse:
  "(if zigzag v AND 1 \<noteq> 0 then NOT (drop_bit 1 (zigzag v)) else drop_bit 1 (zigzag v)) = v"
proof -
  have one: "w AND 1 \<noteq> 0 \<longleftrightarrow> bit w 0" for w :: u64
    using and_exp_eq_0_iff_not_bit [of w 0] by simp
  show ?thesis
  proof (cases "bit v 63")
    case True
    have "NOT (drop_bit 1 (NOT (push_bit 1 v))) = v"
    proof (rule bit_word_eqI)
      fix n assume "n < LENGTH(64)"
      then consider "n = 63" | "n < 63" by force
      then show "bit (NOT (drop_bit 1 (NOT (push_bit 1 v)))) n \<longleftrightarrow> bit v n"
        by cases (use True in \<open>auto simp: bit_simps simp del: push_bit_Suc\<close>)
    qed
    then show ?thesis using True by (simp add: zigzag_def sless_0 one bit_simps del: push_bit_Suc)
  next
    case False
    have "drop_bit 1 (push_bit 1 v) = v"
    proof (rule bit_word_eqI)
      fix n assume "n < LENGTH(64)"
      then consider "n = 63" | "n < 63" by force
      then show "bit (drop_bit 1 (push_bit 1 v)) n \<longleftrightarrow> bit v n"
        by cases (use False in \<open>auto simp: bit_simps simp del: push_bit_Suc\<close>)
    qed
    then show ?thesis using False by (simp add: zigzag_def sless_0 one bit_simps del: push_bit_Suc)
  qed
qed

lemma emits_svarint [emit_intros]: "emits (pb_encode_svarint v) (varint_bytes (zigzag v))"
  unfolding pb_encode_svarint_def zigzag_def [symmetric] by (rule emits_varint)

lemma reads_map: "reads d bs v \<Longrightarrow> reads (seqm d (\<lambda>a. Val (f a))) bs (f v)"
  by (simp add: reads_def seqm_def)

lemma reads_svarint [read_intros]: "reads pb_decode_svarint (varint_bytes (zigzag v)) v"
  unfolding pb_decode_svarint_def
  using reads_map [OF reads_varint [of "zigzag v"],
      of "\<lambda>value. if value AND 1 \<noteq> 0 then NOT (drop_bit 1 value) else drop_bit 1 value"]
  by (simp only: zigzag_inverse)

lemma le_word_bytes: "le_word (le_bytes n w) = take_bit (8 * n) (w :: 'a::len word)"
proof (induction n arbitrary: w)
  case (Suc n)
  have "ucast (ucast w :: u8) OR push_bit 8 (take_bit (8 * n) (drop_bit 8 w)) = take_bit (8 + 8 * n) w"
  proof (rule bit_word_eqI)
    fix i assume "i < LENGTH('a)"
    then show "bit (ucast (ucast w :: u8) OR push_bit 8 (take_bit (8 * n) (drop_bit 8 w))) i \<longleftrightarrow>
        bit (take_bit (8 + 8 * n) w) i"
      by (cases "i < 8") (auto simp: bit_simps)
  qed
  then show ?case using Suc by simp
qed simp

lemma length_le_bytes [simp]: "length (le_bytes n w) = n"
  by (induction n arbitrary: w) simp_all

definition le4 :: "u32 \<Rightarrow> u8 list" where
  "le4 w = le_bytes 4 w"

definition le8 :: "u64 \<Rightarrow> u8 list" where
  "le8 w = le_bytes 8 w"

lemma le4_bytes: "le4 w = [ucast w, ucast (drop_bit 8 w), ucast (drop_bit 16 w), ucast (drop_bit 24 w)]"
  by (simp add: le4_def numeral_eq_Suc)

lemma le8_bytes: "le8 w = [ucast w, ucast (drop_bit 8 w), ucast (drop_bit 16 w), ucast (drop_bit 24 w),
    ucast (drop_bit 32 w), ucast (drop_bit 40 w), ucast (drop_bit 48 w), ucast (drop_bit 56 w)]"
  by (simp add: le8_def numeral_eq_Suc)

lemma length_le [simp]: "length (le4 w) = 4" "length (le8 v) = 8"
  by (simp_all add: le4_def le8_def)

lemma le_word_4: "length b = 4 \<Longrightarrow> le_word b =
    ucast (b ! 0) OR push_bit 8 (ucast (b ! 1)) OR push_bit 16 (ucast (b ! 2)) OR push_bit 24 (ucast (b ! 3))"
  by (auto simp: numeral_eq_Suc length_Suc_conv)

lemma le_word_8: "length b = 8 \<Longrightarrow> le_word b =
    ucast (b ! 0) OR push_bit 8 (ucast (b ! 1)) OR push_bit 16 (ucast (b ! 2)) OR push_bit 24 (ucast (b ! 3)) OR
    push_bit 32 (ucast (b ! 4)) OR push_bit 40 (ucast (b ! 5)) OR push_bit 48 (ucast (b ! 6)) OR
    push_bit 56 (ucast (b ! 7))"
  by (auto simp: numeral_eq_Suc length_Suc_conv)

lemma ucast_low_byte: "(ucast ((w :: 'a::len word) AND 0xFF) :: u8) = ucast w"
proof -
  have m: "w AND 0xFF = take_bit 8 w" by (simp add: take_bit_eq_mask mask_eq_exp_minus_1)
  show ?thesis unfolding m by (rule bit_word_eqI) (auto simp: bit_simps)
qed

lemma emits_fixed32 [emit_intros]: "emits (pb_encode_fixed32 m a) (le4 (load32 m a))"
  unfolding pb_encode_fixed32_def Let_def ucast_low_byte le4_bytes by (rule emits_write) simp

lemma emits_fixed64 [emit_intros]: "emits (pb_encode_fixed64 m a) (le8 (load64 m a))"
  unfolding pb_encode_fixed64_def Let_def ucast_low_byte le8_bytes by (rule emits_write) simp

lemma le4_inverse:
  "ucast (le4 w ! 0) OR push_bit 8 (ucast (le4 w ! 1)) OR push_bit 16 (ucast (le4 w ! 2)) OR
    push_bit 24 (ucast (le4 w ! 3)) = w"
  using le_word_bytes [of 4 w] le_word_4 [of "le4 w", where 'a = 32]
  by (simp add: le4_def take_bit_word_eq_self)

lemma le8_inverse:
  "ucast (le8 w ! 0) OR push_bit 8 (ucast (le8 w ! 1)) OR push_bit 16 (ucast (le8 w ! 2)) OR
    push_bit 24 (ucast (le8 w ! 3)) OR push_bit 32 (ucast (le8 w ! 4)) OR push_bit 40 (ucast (le8 w ! 5)) OR
    push_bit 48 (ucast (le8 w ! 6)) OR push_bit 56 (ucast (le8 w ! 7)) = w"
  using le_word_bytes [of 8 w] le_word_8 [of "le8 w", where 'a = 64]
  by (simp add: le8_def take_bit_word_eq_self)

lemma reads_fixed32 [read_intros]: "reads pb_decode_fixed32 (le4 w) w"
proof -
  have "reads (pb_read 4) (le4 w) (le4 w)" by (rule reads_read) simp
  from reads_map [OF this, of "\<lambda>b. ucast (b ! 0) OR push_bit 8 (ucast (b ! 1)) OR
      push_bit 16 (ucast (b ! 2)) OR push_bit 24 (ucast (b ! 3)) :: u32"]
  show ?thesis unfolding pb_decode_fixed32_def le4_inverse .
qed

lemma reads_fixed64 [read_intros]: "reads pb_decode_fixed64 (le8 w) w"
proof -
  have "reads (pb_read 8) (le8 w) (le8 w)" by (rule reads_read) simp
  from reads_map [OF this, of "\<lambda>b. ucast (b ! 0) OR push_bit 8 (ucast (b ! 1)) OR
      push_bit 16 (ucast (b ! 2)) OR push_bit 24 (ucast (b ! 3)) OR push_bit 32 (ucast (b ! 4)) OR
      push_bit 40 (ucast (b ! 5)) OR push_bit 48 (ucast (b ! 6)) OR push_bit 56 (ucast (b ! 7)) :: u64"]
  show ?thesis unfolding pb_decode_fixed64_def le8_inverse .
qed

text \<open>The key of a field: its number, at most \<open>2\<^sup>2\<^sup>9 - 1\<close>, and its wire type in one varint. The numbers in
  the tables have a byte.\<close>

definition tag_value :: "pb_wire_type \<Rightarrow> u32 \<Rightarrow> u64" where
  "tag_value wt t = push_bit 3 (ucast t) OR ucast wt"

definition key_bytes :: "pb_wire_type \<Rightarrow> u32 \<Rightarrow> u8 list" where
  "key_bytes wt t = varint_bytes (tag_value wt t)"

definition tag_bytes :: "pb_wire_type \<Rightarrow> u8 \<Rightarrow> u8 list" where
  "tag_bytes wt t = key_bytes wt (ucast t)"

lemma tag_value_parts:
  assumes "wt < 8" and "t < 2 ^ 29"
  shows "(ucast (tag_value wt t) :: u32) AND 7 = wt" and "drop_bit 3 (ucast (tag_value wt t) :: u32) = t"
    and "unat (tag_value wt t) < 2 ^ 32"
proof -
  have w: "take_bit 3 wt = wt"
    using assms(1) by (simp add: word_unat_eq_iff unsigned_take_bit_eq take_bit_eq_mod word_less_nat_alt unat_mod)
  have b: "\<not> bit wt n" if "n \<ge> 3" for n
    using that bit_take_bit_iff [of 3 wt n] by (simp add: w)
  have v: "take_bit 29 t = t"
    using assms(2) by (simp add: word_unat_eq_iff unsigned_take_bit_eq take_bit_eq_mod word_less_nat_alt unat_mod)
  have c: "\<not> bit t n" if "n \<ge> 29" for n
    using that bit_take_bit_iff [of 29 t n] by (simp add: v)
  have seven: "x AND 7 = take_bit 3 x" for x :: u32
    by (simp add: take_bit_eq_mask mask_eq_exp_minus_1)
  have "take_bit 3 (ucast (tag_value wt t) :: u32) = take_bit 3 wt"
    by (rule bit_word_eqI) (auto simp: tag_value_def bit_simps)
  then show "(ucast (tag_value wt t) :: u32) AND 7 = wt" by (simp add: seven w)
  show "drop_bit 3 (ucast (tag_value wt t) :: u32) = t"
  proof (rule bit_word_eqI)
    fix n assume "n < LENGTH(32)"
    then show "bit (drop_bit 3 (ucast (tag_value wt t) :: u32)) n \<longleftrightarrow> bit t n"
      using c [of n] b [of "3 + n"] by (cases "n < 29") (auto simp: tag_value_def bit_simps)
  qed
  have "take_bit 32 (tag_value wt t) = tag_value wt t"
  proof (rule bit_word_eqI)
    fix n assume "n < LENGTH(64)"
    then show "bit (take_bit 32 (tag_value wt t)) n \<longleftrightarrow> bit (tag_value wt t) n"
      using c [of "n - 3"] b [of n] by (cases "n < 32") (auto simp: tag_value_def bit_simps)
  qed
  then have "unat (tag_value wt t) = unat (tag_value wt t) mod 2 ^ 32"
    by (metis take_bit_eq_mod unsigned_take_bit_eq)
  then show "unat (tag_value wt t) < 2 ^ 32" by (metis mod_less_divisor zero_less_numeral zero_less_power)
qed

lemma emits_tag [emit_intros]: "emits (pb_encode_tag wt (ucast t)) (tag_bytes wt t)"
  unfolding pb_encode_tag_def tag_bytes_def key_bytes_def tag_value_def by (rule emits_varint)

lemma reads_key:
  assumes "wt < 8" and "t \<noteq> 0" and "t < 2 ^ 29"
  shows "reads pb_decode_tag (key_bytes wt t) (True, wt, t, False)"
proof -
  note p = tag_value_parts [OF assms(1,3)]
  have "(ucast (tag_value wt t) :: u32) \<noteq> 0" using p(2) assms(2) by auto
  then show ?thesis
    using reads_varint32_eof [OF p(3)] unfolding key_bytes_def
    by (simp add: reads_def pb_decode_tag_def seqm_def p)
qed

lemma ucast_tag_small:
  fixes t :: u8
  shows "(ucast t :: u32) < 2 ^ 29" and "(ucast t :: u32) = 0 \<longleftrightarrow> t = 0"
proof -
  have "unat t < 2 ^ LENGTH(8)" by (rule unsigned_less)
  then have u: "unat (ucast t :: u32) = unat t" "unat t < 256" by (simp_all add: unsigned_ucast_eq take_bit_nat_eq_self)
  then show "(ucast t :: u32) < 2 ^ 29" by (simp add: word_less_nat_alt)
  show "(ucast t :: u32) = 0 \<longleftrightarrow> t = 0" using u(1) unat_eq_0 by metis
qed

lemma reads_tag: "\<lbrakk>wt < 8; t \<noteq> 0\<rbrakk> \<Longrightarrow> reads pb_decode_tag (tag_bytes wt t) (True, wt, ucast t, False)"
  unfolding tag_bytes_def using ucast_tag_small by (intro reads_key) blast+

lemma emits_string [emit_intros]:
  "length bs = unat n \<Longrightarrow> emits (pb_encode_string bs n) (varint_bytes (ucast n) @ bs)"
  unfolding pb_encode_string_def by (intro emits_seq emits_varint emits_write)

lemma reads_string: "length bs = unat (n :: u32) \<Longrightarrow> reads (seqm pb_decode_varint32 pb_read) (varint_bytes (ucast n) @ bs) bs"
  by (intro reads_seq [OF reads_varint32] reads_read)

section \<open>Skipping\<close>

text \<open>Skipping a field takes the bytes of its value and nothing more, whatever its wire type.\<close>

lemma reads_null: "length bs = unat n \<Longrightarrow> reads (pb_read_null n) bs ()"
  unfolding pb_read_null_def using reads_read [of bs n] by (auto simp: reads_def seqm_def)

lemma reads_skip_varint: "reads pb_skip_varint (varint_bytes v) ()"
proof (induction v rule: varint_bytes.induct)
  case (1 v)
  have rd: "pb_read 1 s = Val [b] (adv 1 s) \<and> ready bs (adv 1 s)" if "ready (b # bs) s" for b bs s
    using reads_read [of "[b]" 1] ready_append [of "[b]" bs s] that by (simp add: reads_def)
  show ?case
  proof (cases v rule: varint_bytes_cases)
    case last
    then show ?thesis
      by (auto simp: reads_def and_80 dest!: rd) (subst pb_skip_varint.simps, simp add: and_80)
  next
    case (more b)
    then show ?thesis
      using 1 [OF more(1)]
      by (auto simp: reads_def and_80 adv_adv dest!: rd) (subst pb_skip_varint.simps, simp add: and_80 adv_adv)
  qed
qed

lemma reads_skip_string: "length bs = unat (n :: u32) \<Longrightarrow> reads pb_skip_string (varint_bytes (ucast n) @ bs) ()"
  unfolding pb_skip_string_def by (intro reads_seq [OF reads_varint32] reads_null)

section \<open>Substreams\<close>

lemma make_substream:
  assumes "ready (varint_bytes (ucast n) @ bs) s" and "length bs = unat n"
  defines "s' \<equiv> adv (length (varint_bytes (ucast n))) s"
  shows "pb_make_string_substream s =
    Val (s'\<lparr>bytes_left := n\<rparr>) (s'\<lparr>bytes_left := bytes_left s' - n\<rparr>)"
proof -
  have r: "ready (varint_bytes (ucast n)) s" "ready bs s'"
    using assms(1) unfolding s'_def ready_append by simp_all
  then have "pb_decode_varint32 s = Val n s'"
    using reads_varint32 [of n] by (simp add: reads_def s'_def)
  moreover have "\<not> bytes_left s' < n"
    using r(2) assms(2) by (simp add: ready_def word_less_nat_alt)
  ultimately show ?thesis
    unfolding pb_make_string_substream_def by (simp add: seqm_def)
qed

lemma in_substream_val:
  assumes "ready (varint_bytes (ucast n) @ bs) s" and "length bs = unat n"
    and "d ((adv (length (varint_bytes (ucast n))) s)\<lparr>bytes_left := n\<rparr>, m) =
      Val () (adv (length bs) ((adv (length (varint_bytes (ucast n))) s)\<lparr>bytes_left := n\<rparr>), m')"
  shows "in_substream d (s, m) = Val () (adv (length (varint_bytes (ucast n) @ bs)) s, m')"
proof -
  have "n - of_nat (length bs) = 0" using assms(2) by simp
  then show ?thesis
    using make_substream [OF assms(1,2)] assms(3)
    by (simp add: in_substream_def seqm_def rdm_def close_with_def pb_close_string_substream_def adv_def
        assms(2) add.commute add.left_commute diff_diff_eq)
qed

section \<open>Properties\<close>

lemma from_buffer_put:
  "put bs (pb_ostream_from_buffer cap) = (pb_ostream_from_buffer cap)\<lparr>os_out := bs, bytes_written := of_nat (length bs)\<rparr>"
  by (simp add: put_def pb_ostream_from_buffer_def)

lemma emits_from_buffer:
  assumes "emits e bs" and "length bs \<le> unat cap"
  shows "e (pb_ostream_from_buffer cap) =
    Val () ((pb_ostream_from_buffer cap)\<lparr>os_out := bs, bytes_written := of_nat (length bs)\<rparr>)"
proof -
  have "unat cap < 2 ^ LENGTH(32)" by (rule unsigned_less)
  then show ?thesis
    using emits_val [OF assms(1), of "pb_ostream_from_buffer cap"] assms(2)
    by (simp add: from_buffer_put) (simp add: sane_def fits_def pb_ostream_from_buffer_def)
qed

lemma unat_max_u32: "unat (-1 :: u32) = 2 ^ 32 - 1"
  by (simp add: unsigned_minus_1_eq_mask mask_eq_exp_minus_1)

lemma reads_from_buffer:
  assumes "reads d bs v" and "length bs < 2 ^ 32"
  shows "d (pb_istream_from_buffer a (bs @ r) (-1)) =
    Val v (pb_istream_from_buffer (a + int (length bs)) r (- 1 - of_nat (length bs)))"
  using assms unat_max_u32 by (simp add: reads_def ready_def pb_istream_from_buffer_def adv_def)

text \<open>Every 64-bit value is encoded in one to ten bytes, the sizing stream counts
  just these bytes, decoding them gives the value back and leaves the stream behind them, and skipping
  them does too; the same holds for signed values in their zigzag encoding.\<close>

lemma varint_round_trip:
  "\<exists>bs cs. bs \<noteq> [] \<and> length bs \<le> 10 \<and> cs \<noteq> [] \<and> length cs \<le> 10 \<and>
    pb_encode_varint v (pb_ostream_from_buffer 10) =
      Val () ((pb_ostream_from_buffer 10)\<lparr>os_out := bs, bytes_written := of_nat (length bs)\<rparr>) \<and>
    pb_encode_varint v PB_OSTREAM_SIZING = Val () (PB_OSTREAM_SIZING\<lparr>bytes_written := of_nat (length bs)\<rparr>) \<and>
    pb_decode_varint (pb_istream_from_buffer a (bs @ r) (-1)) =
      Val v (pb_istream_from_buffer (a + int (length bs)) r (- 1 - of_nat (length bs))) \<and>
    pb_skip_varint (pb_istream_from_buffer a (bs @ r) (-1)) =
      Val () (pb_istream_from_buffer (a + int (length bs)) r (- 1 - of_nat (length bs))) \<and>
    pb_encode_svarint v (pb_ostream_from_buffer 10) =
      Val () ((pb_ostream_from_buffer 10)\<lparr>os_out := cs, bytes_written := of_nat (length cs)\<rparr>) \<and>
    pb_decode_svarint (pb_istream_from_buffer a (cs @ r) (-1)) =
      Val v (pb_istream_from_buffer (a + int (length cs)) r (- 1 - of_nat (length cs)))"
proof -
  let ?b = "varint_bytes v" and ?c = "varint_bytes (zigzag v)"
  note l = length_varint_bytes [of v] length_varint_bytes [of "zigzag v"]
  have "pb_encode_varint v PB_OSTREAM_SIZING = Val () (PB_OSTREAM_SIZING\<lparr>bytes_written := of_nat (length ?b)\<rparr>)"
    using emits_sizing [OF emits_varint [of v]] l by (simp add: put_def PB_OSTREAM_SIZING_def)
  then show ?thesis
    using l emits_from_buffer [OF emits_varint [of v], of 10] emits_from_buffer [OF emits_svarint [of v], of 10]
      reads_from_buffer [OF reads_varint [of v], of a r] reads_from_buffer [OF reads_skip_varint [of v], of a r]
      reads_from_buffer [OF reads_svarint [of v], of a r]
    by (intro exI [of _ ?b] exI [of _ ?c]) simp
qed

text \<open>The value of a field on the wire, by its wire type.\<close>

definition wire_value :: "pb_wire_type \<Rightarrow> u8 list \<Rightarrow> bool" where
  "wire_value wt bs \<longleftrightarrow>
     wt = PB_WT_VARINT \<and> (\<exists>v. bs = varint_bytes v) \<or> wt = PB_WT_64BIT \<and> length bs = 8 \<or>
     wt = PB_WT_32BIT \<and> length bs = 4 \<or>
     wt = PB_WT_STRING \<and> (\<exists>(n :: u32) cs. length cs = unat n \<and> bs = varint_bytes (ucast n) @ cs)"

lemma wire_value_small: "wire_value wt bs \<Longrightarrow> wt < 8"
  by (auto simp: wire_value_def pb_wts)

lemma reads_skip_field: "wire_value wt bs \<Longrightarrow> reads (pb_skip_field wt) bs ()"
  unfolding wire_value_def pb_skip_field_def
  by (auto simp: pb_wts intro: reads_skip_varint reads_null reads_skip_string)

text \<open>A write to a buffer stream either appends its bytes and counts them, when they fit
  below the limit, or fails and leaves the buffer as it was. The check adds in 32 bits: with a count
  that makes the sum wrap to 0 it passes whatever the limit is, and the bytes go past the end.\<close>

lemma stream_write:
  assumes "os_writing s" and "length buf = unat count" and "bytes_written s \<le> max_size s"
  shows "if unat (bytes_written s) + unat count \<le> unat (max_size s)
      then pb_write buf count s =
        Val () (s\<lparr>os_out := os_out s @ buf, bytes_written := bytes_written s + count\<rparr>)
      else if unat (bytes_written s) + unat count < 2 ^ 32
      then pb_write buf count s = Fail (s\<lparr>os_errmsg := PB_SET_ERROR (os_errmsg s) ''stream full''\<rparr>)
      else unat (bytes_written s) + unat count = 2 ^ 32 \<longrightarrow>
        pb_write buf count s = Val () (s\<lparr>os_out := os_out s @ buf, bytes_written := 0\<rparr>)"
proof -
  have lim: "unat (max_size s) < 2 ^ LENGTH(32)" by (rule unsigned_less)
  have u: "unat (bytes_written s + count) = (unat (bytes_written s) + unat count) mod 2 ^ 32"
    by (simp add: unat_word_ariths)
  consider "unat (bytes_written s) + unat count \<le> unat (max_size s)"
    | "\<not> unat (bytes_written s) + unat count \<le> unat (max_size s)" "unat (bytes_written s) + unat count < 2 ^ 32"
    | "unat (bytes_written s) + unat count \<ge> 2 ^ 32"
    by linarith
  then show ?thesis
  proof cases
    case 1
    then have "\<not> bytes_written s + count > max_size s" using u lim by (simp add: word_less_nat_alt)
    then show ?thesis using 1 assms by (simp add: pb_write_def buf_write_def)
  next
    case 2
    then have "bytes_written s + count > max_size s" using u by (simp add: word_less_nat_alt)
    then show ?thesis using 2 assms by (simp add: pb_write_def os_error_def)
  next
    case 3
    have "bytes_written s + count = 0" if "unat (bytes_written s) + unat count = 2 ^ 32"
      using u that by (simp add: unat_eq_0 [symmetric])
    then show ?thesis using 3 lim assms by (auto simp: pb_write_def buf_write_def)
  qed
qed

lemma stream_write_example:
  "pb_write [7, 8] 2 (pb_ostream_from_buffer 2) =
      Val () ((pb_ostream_from_buffer 2)\<lparr>os_out := [7, 8], bytes_written := 2\<rparr>) \<and>
   pb_write [7, 8] 2 (pb_ostream_from_buffer 1) =
      Fail ((pb_ostream_from_buffer 1)\<lparr>os_errmsg := Some ''stream full''\<rparr>)"
  using stream_write [of "pb_ostream_from_buffer 2" "[7, 8]" 2] stream_write [of "pb_ostream_from_buffer 1" "[7, 8]" 2]
  by (simp add: pb_ostream_from_buffer_def PB_SET_ERROR_def)

end
