(* ===== verification/Pb_Message.thy ===== *)
theory Pb_Message
  imports Pb_Wire
begin

text \<open>
  Whole messages. The iterator of a flat descriptor (no submessage, union or extension) visits its
  fields in the order of the array, whatever field it starts from; the main loop of the decoder takes
  a sequence of encoded fields to the effects of their decoders, in their order, and accepts it when
  every required field is among them. Encoding and decoding the same descriptor are put together
  from the fields.
\<close>

section \<open>Memory\<close>

lemma length_load_bytes [simp]: "length (load_bytes m a n) = n"
  by (induction n arbitrary: a) simp_all

lemma load_bytes_nth: "i < n \<Longrightarrow> load_bytes m a n ! i = m (a + int i)"
proof (induction n arbitrary: a i)
  case (Suc n)
  then show ?case by (cases i) (simp_all add: add.assoc)
qed simp

lemma load_bytes_cong: "(\<And>x. a \<le> x \<Longrightarrow> x < a + int n \<Longrightarrow> m x = m' x) \<Longrightarrow> load_bytes m a n = load_bytes m' a n"
  by (rule nth_equalityI) (simp_all add: load_bytes_nth)

lemma load_store_bytes: "load_bytes (store_bytes m a bs) a (length bs) = bs"
  by (rule nth_equalityI) (simp_all add: load_bytes_nth store_bytes_def)

lemma store_bytes_other: "\<not> (a \<le> x \<and> x < a + int (length bs)) \<Longrightarrow> store_bytes m a bs x = m x"
  by (auto simp: store_bytes_def)

lemma load_store32 [simp]: "load32 (store32 m a v) a = v"
  using load_store_bytes [of m a "le_bytes 4 v"]
  by (simp add: load32_def store32_def le_word_bytes take_bit_word_eq_self)

lemma store32_other: "\<not> (a \<le> x \<and> x < a + 4) \<Longrightarrow> store32 m a v x = m x"
  by (simp add: store32_def store_bytes_other)

lemma load32_cong: "(\<And>x. a \<le> x \<Longrightarrow> x < a + 4 \<Longrightarrow> m x = m' x) \<Longrightarrow> load32 m a = load32 m' a"
  unfolding load32_def using load_bytes_cong [of a 4 m m'] by simp

lemma load32_store32_other: "a + 4 \<le> b \<or> b + 4 \<le> a \<Longrightarrow> load32 (store32 m a v) b = load32 m b"
  by (rule load32_cong) (auto intro: store32_other)

lemma ucast_of_nat_64: "n < 2 ^ 32 \<Longrightarrow> ucast (of_nat n :: u32) = (of_nat n :: u64)"
  by (simp add: unsigned_of_nat take_bit_nat_eq_self)

section \<open>The iterator of a flat descriptor\<close>

definition is_required :: "pb_field \<Rightarrow> bool" where
  "is_required f \<longleftrightarrow> PB_HTYPE (fd_type f) = PB_HTYPE_REQUIRED"

definition flat :: "pb_field list \<Rightarrow> bool" where
  "flat fs \<longleftrightarrow> fs \<noteq> [] \<and> length fs \<le> 64 \<and> distinct (map fd_tag fs) \<and>
     list_all (\<lambda>f. fd_tag f \<noteq> 0 \<and> PB_HTYPE (fd_type f) \<noteq> PB_HTYPE_ONEOF \<and>
        PB_LTYPE (fd_type f) \<noteq> PB_LTYPE_EXTENSION) fs"

primrec iter_at :: "pb_field list \<Rightarrow> int \<Rightarrow> nat \<Rightarrow> pb_field_iter" where
  "iter_at fs dest 0 = snd (pb_field_iter_begin fs dest)"
| "iter_at fs dest (Suc i) = snd (pb_field_iter_next (iter_at fs dest i))"

definition reqs_before :: "pb_field list \<Rightarrow> nat \<Rightarrow> nat" where
  "reqs_before fs i = length (filter is_required (take i fs))"

lemma flatD:
  assumes "flat fs" and "i < length fs"
  shows "fd_tag (fs ! i) \<noteq> 0" "PB_HTYPE (fd_type (fs ! i)) \<noteq> PB_HTYPE_ONEOF"
    "PB_LTYPE (fd_type (fs ! i)) \<noteq> PB_LTYPE_EXTENSION"
  using assms by (auto simp: flat_def list_all_length)

lemma fields_head_drop: "i < length fs \<Longrightarrow> fields_head (drop i fs) = fs ! i"
  by (simp add: fields_head_def Cons_nth_drop_Suc [symmetric])

lemma tl_drop_Suc: "tl (drop i xs) = drop (Suc i) xs"
  by (simp add: drop_Suc tl_drop)

lemma iter_begin:
  "pb_field_iter_begin fs dest = (fd_tag (fields_head fs) \<noteq> 0, iter_at fs dest 0)"
  by (simp add: pb_field_iter_begin_def Let_def)

lemma iter_at_basic:
  assumes "flat fs"
  shows "i < length fs \<Longrightarrow> it_pos (iter_at fs dest i) = drop i fs \<and> it_start (iter_at fs dest i) = fs \<and>
    it_dest (iter_at fs dest i) = dest \<and> it_required (iter_at fs dest i) = of_nat (reqs_before fs i)"
proof (induction i)
  case 0
  then show ?case by (simp add: pb_field_iter_begin_def Let_def reqs_before_def)
next
  case (Suc i)
  let ?it = "iter_at fs dest i"
  have IH: "it_pos ?it = drop i fs" "it_start ?it = fs" "it_dest ?it = dest"
      "it_required ?it = of_nat (reqs_before fs i)"
    using Suc by simp_all
  have c: "cur ?it = fs ! i" using Suc.prems by (simp add: cur_def IH fields_head_drop)
  have h: "fields_head (drop (Suc i) fs) = fs ! Suc i" using Suc.prems by (rule fields_head_drop)
  have r: "reqs_before fs (Suc i) = reqs_before fs i + (if is_required (fs ! i) then 1 else 0)"
    using Suc.prems by (simp add: reqs_before_def take_Suc_conv_app_nth)
  have fi: "i < length fs" using Suc.prems by simp
  note f = flatD [OF assms fi] flatD [OF assms Suc.prems]
  show ?case
    using f by (simp add: pb_field_iter_next_def c tl_drop_Suc h IH r is_required_def Let_def)
qed

lemma cur_iter_at: "flat fs \<Longrightarrow> i < length fs \<Longrightarrow> cur (iter_at fs dest i) = fs ! i"
  by (simp add: cur_def iter_at_basic fields_head_drop)

lemma iter_next_at:
  assumes "flat fs" and "i < length fs"
  shows "pb_field_iter_next (iter_at fs dest i) =
    (if Suc i < length fs then (True, iter_at fs dest (Suc i)) else (False, iter_at fs dest 0))"
proof -
  let ?it = "iter_at fs dest i"
  note b = iter_at_basic [OF assms, of dest]
  have t: "tl (it_pos ?it) = drop (Suc i) fs" using b by (simp add: tl_drop_Suc)
  have tag: "fd_tag (cur ?it) \<noteq> 0" using flatD [OF assms] by (simp add: cur_iter_at assms)
  show ?thesis
  proof (cases "Suc i < length fs")
    case True
    have "fst (pb_field_iter_next ?it)"
      using tag flatD(1) [OF assms(1) True] flatD(2) [OF assms]
      by (simp add: pb_field_iter_next_def t fields_head_drop [OF True] Let_def)
    then show ?thesis using True by (cases "pb_field_iter_next ?it") simp
  next
    case False
    then have h: "fd_tag (fields_head (tl (it_pos ?it))) = 0"
      by (simp add: t fields_head_def PB_LAST_FIELD_def)
    have "pb_field_iter_next ?it = (False, snd (pb_field_iter_begin (it_start ?it) (it_dest ?it)))"
      using tag h by (simp add: pb_field_iter_next_def Let_def)
    then show ?thesis using b False by simp
  qed
qed

text \<open>The address of a field is that of the one before it plus its size and the padding, so the fields
  follow each other without overlapping.\<close>

definition field_addr :: "pb_field list \<Rightarrow> int \<Rightarrow> nat \<Rightarrow> int" where
  "field_addr fs dest i = it_pData (iter_at fs dest i)"

definition single :: "pb_field \<Rightarrow> bool" where
  "single f \<longleftrightarrow> PB_ATYPE (fd_type f) \<noteq> PB_ATYPE_POINTER \<and> PB_HTYPE (fd_type f) \<noteq> PB_HTYPE_REPEATED"

lemma field_addr_Suc:
  assumes "flat fs" and "Suc i < length fs" and "single (fs ! i)"
  shows "field_addr fs dest (Suc i) = field_addr fs dest i + uint (data_size (fs ! i)) + uint (data_offset (fs ! Suc i))"
proof -
  have i: "i < length fs" using assms(2) by simp
  have t: "tl (it_pos (iter_at fs dest i)) = drop (Suc i) fs"
    using iter_at_basic [OF assms(1) i] by (simp add: tl_drop_Suc)
  show ?thesis
    using assms(3) flatD [OF assms(1) i] flatD [OF assms(1,2)]
    by (simp add: field_addr_def pb_field_iter_next_def t fields_head_drop [OF assms(2)] cur_iter_at [OF assms(1) i]
        single_def Let_def)
qed

lemma field_addr_0: "flat fs \<Longrightarrow> field_addr fs dest 0 = dest + uint (data_offset (fs ! 0))"
  by (cases fs) (simp_all add: flat_def field_addr_def pb_field_iter_begin_def fields_head_def Let_def)

declare iter_at.simps [simp del]

lemma field_addr_mono:
  assumes "flat fs" and "\<forall>f\<in>set fs. single f"
  shows "i < j \<Longrightarrow> j < length fs \<Longrightarrow> field_addr fs dest i + uint (data_size (fs ! i)) \<le> field_addr fs dest j"
proof (induction j)
  case (Suc j)
  have s: "single (fs ! j)" using assms(2) Suc.prems by simp
  have a: "field_addr fs dest j + uint (data_size (fs ! j)) \<le> field_addr fs dest (Suc j)"
    using field_addr_Suc [OF assms(1) Suc.prems(2) s, of dest] by simp
  show ?case
  proof (cases "i = j")
    case False
    then have "field_addr fs dest i + uint (data_size (fs ! i)) \<le> field_addr fs dest j"
      using Suc by simp
    then show ?thesis using a uint_nonnegative [of "data_size (fs ! j)"] by linarith
  qed (use a in simp)
qed simp

section \<open>Searching a field\<close>

lemma next_mod:
  assumes "flat fs" and "i < length fs"
  shows "snd (pb_field_iter_next (iter_at fs dest i)) = iter_at fs dest (Suc i mod length fs)"
  using assms by (simp add: iter_next_at mod_Suc)

lemma ucast_tag_eq: "(ucast (a :: u8) :: u32) = ucast b \<longleftrightarrow> a = b"
proof
  assume e: "(ucast a :: u32) = ucast b"
  have "unat (ucast x :: u32) = unat x" for x :: u8
    using unsigned_less [of x, where 'a = nat] by (simp add: unsigned_ucast_eq take_bit_nat_eq_self)
  then have "unat a = unat b" by (metis e)
  then show "a = b" by (simp add: word_unat_eq_iff)
qed simp

lemma pos_length_eq:
  assumes "flat fs" and "i < length fs" and "j < length fs"
  shows "length (it_pos (iter_at fs dest i)) = length (drop j fs) \<longleftrightarrow> i = j"
  using assms by (auto simp: iter_at_basic)

lemma iter_find_loop_known:
  assumes fl: "flat fs" and j: "j < length fs" and i0: "i0 < length fs"
  shows "\<lbrakk>i < length fs; j = (i + d) mod length fs; d < k;
      \<forall>e. 0 < e \<and> e \<le> d \<longrightarrow> (i + e) mod length fs \<noteq> i0\<rbrakk> \<Longrightarrow>
    iter_find_loop k (drop i0 fs) (ucast (fd_tag (fs ! j))) (iter_at fs dest i) = (True, iter_at fs dest j)"
proof (induction d arbitrary: i k)
  case 0
  then show ?case
    using flatD(3) [OF fl j] by (cases k) (simp_all add: cur_iter_at fl)
next
  case (Suc d)
  then obtain k' where k: "k = Suc k'" by (cases k) auto
  show ?case
  proof (cases "i = j")
    case True
    then show ?thesis using flatD(3) [OF fl j] by (simp add: k cur_iter_at fl j)
  next
    case False
    then have t: "fd_tag (fs ! i) \<noteq> fd_tag (fs ! j)"
      using fl Suc.prems(1) j by (auto simp: flat_def distinct_conv_nth)
    let ?i = "Suc i mod length fs"
    have n: "0 < length fs" using j by linarith
    have i: "?i < length fs" by (rule mod_less_divisor [OF n])
    have ne: "?i \<noteq> i0" using Suc.prems(4) [rule_format, of 1] by simp
    have "iter_find_loop k' (drop i0 fs) (ucast (fd_tag (fs ! j))) (iter_at fs dest ?i) = (True, iter_at fs dest j)"
    proof (rule Suc.IH [OF i])
      show "j = (?i + d) mod length fs" using Suc.prems(2) by (simp add: mod_add_left_eq)
      show "d < k'" using Suc.prems(3) k by simp
      show "\<forall>e. 0 < e \<and> e \<le> d \<longrightarrow> (?i + e) mod length fs \<noteq> i0"
        using Suc.prems(4) by (auto simp: mod_add_left_eq dest: spec [of _ "Suc _"])
    qed
    then show ?thesis
      using t ne Suc.prems(1) i
      by (simp add: k cur_iter_at fl ucast_tag_eq next_mod pos_length_eq i0 Let_def
          del: length_drop)
  qed
qed

lemma iter_find_known:
  assumes "flat fs" and "i < length fs" and "j < length fs"
  shows "pb_field_iter_find (iter_at fs dest i) (ucast (fd_tag (fs ! j))) = (True, iter_at fs dest j)"
proof -
  let ?n = "length fs" and ?d = "(j + length fs - i) mod length fs"
  have n: "0 < ?n" using assms(2) by linarith
  have "(i + ?d) mod ?n = (i + (j + ?n - i)) mod ?n" by (rule mod_add_right_eq)
  also have "\<dots> = j" using assms by simp
  finally have "j = (i + ?d) mod ?n" by simp
  moreover have "(i + e) mod ?n \<noteq> i" if "0 < e" "e \<le> ?d" for e
  proof -
    have "e < ?n" using that(2) mod_less_divisor [OF n, of "j + ?n - i"] by linarith
    show ?thesis
    proof (cases "i + e < ?n")
      case False
      then have "(i + e) mod ?n = i + e - ?n" using assms(2) \<open>e < ?n\<close> by (simp add: mod_if)
      then show ?thesis using \<open>e < ?n\<close> False by linarith
    qed (use that in simp)
  qed
  ultimately show ?thesis
    unfolding pb_field_iter_find_def
    using iter_find_loop_known [OF assms(1,3,2,2), of ?d "Suc ?n"] iter_at_basic [OF assms(1,2)] n
    by (simp add: less_Suc_eq_le order_less_imp_le)
qed

lemma iter_find_loop_unknown:
  assumes fl: "flat fs" and i0: "i0 < length fs" and t: "\<forall>f\<in>set fs. ucast (fd_tag f) \<noteq> tag"
  shows "\<lbrakk>e < length fs; length fs - e \<le> k\<rbrakk> \<Longrightarrow>
    iter_find_loop k (drop i0 fs) tag (iter_at fs dest ((i0 + e) mod length fs)) = (False, iter_at fs dest i0)"
proof (induction k arbitrary: e)
  case (Suc k)
  let ?n = "length fs" and ?i = "(i0 + e) mod length fs"
  have n: "0 < ?n" using i0 by linarith
  have i: "?i < ?n" "Suc ?i mod ?n < ?n" by (rule mod_less_divisor [OF n])+
  have s: "Suc ?i mod ?n = (i0 + Suc e) mod ?n" by (simp add: mod_Suc_eq)
  have ne: "ucast (fd_tag (fs ! ?i)) \<noteq> tag" using t i(1) by simp
  have wrap: "(i0 + Suc e) mod ?n = i0 \<longleftrightarrow> Suc e = ?n"
    using Suc.prems(1) i0 by (cases "i0 + Suc e < ?n") (auto simp: mod_if)
  have step: "iter_find_loop (Suc k) (drop i0 fs) tag (iter_at fs dest ?i) =
      (if Suc e = ?n then (False, iter_at fs dest i0)
       else iter_find_loop k (drop i0 fs) tag (iter_at fs dest ((i0 + Suc e) mod ?n)))"
    using ne i wrap by (cases "Suc e = ?n") (simp_all add: cur_iter_at fl next_mod pos_length_eq i0 s Let_def del: length_drop)
  show ?case
    unfolding step using Suc.IH [of "Suc e"] Suc.prems by auto
qed simp

lemma iter_find_unknown:
  assumes "flat fs" and "i < length fs" and "\<forall>f\<in>set fs. ucast (fd_tag f) \<noteq> tag"
  shows "pb_field_iter_find (iter_at fs dest i) tag = (False, iter_at fs dest i)"
  unfolding pb_field_iter_find_def
  using iter_find_loop_unknown [OF assms, of 0 "Suc (length fs)" dest] iter_at_basic [OF assms(1,2), of dest] assms(2)
  by (cases "fs = []") (simp_all del: iter_find_loop.simps)

lemma find_ext_loop_flat:
  assumes fl: "flat fs" and i0: "i0 < length fs"
  shows "\<lbrakk>e < length fs; length fs - e \<le> k\<rbrakk> \<Longrightarrow>
    find_ext_loop k (drop i0 fs) (iter_at fs dest ((i0 + e) mod length fs)) = (False, iter_at fs dest i0)"
proof (induction k arbitrary: e)
  case (Suc k)
  let ?n = "length fs" and ?i = "(i0 + e) mod length fs"
  have n: "0 < ?n" using i0 by linarith
  have i: "?i < ?n" "Suc ?i mod ?n < ?n" by (rule mod_less_divisor [OF n])+
  have s: "Suc ?i mod ?n = (i0 + Suc e) mod ?n" by (simp add: mod_Suc_eq)
  have wrap: "(i0 + Suc e) mod ?n = i0 \<longleftrightarrow> Suc e = ?n"
    using Suc.prems(1) i0 by (cases "i0 + Suc e < ?n") (auto simp: mod_if)
  have step: "find_ext_loop (Suc k) (drop i0 fs) (iter_at fs dest ?i) =
      (if Suc e = ?n then (False, iter_at fs dest i0)
       else find_ext_loop k (drop i0 fs) (iter_at fs dest ((i0 + Suc e) mod ?n)))"
    using flatD(3) [OF fl i(1)] i wrap
    by (cases "Suc e = ?n") (simp_all add: cur_iter_at fl next_mod pos_length_eq i0 s Let_def del: length_drop)
  show ?case
    unfolding step using Suc.IH [of "Suc e"] Suc.prems by auto
qed simp

lemma find_extension_flat:
  assumes "flat fs" and "i < length fs"
  shows "find_extension_field (iter_at fs dest i) = (False, iter_at fs dest i)"
  unfolding find_extension_field_def
  using find_ext_loop_flat [OF assms, of 0 "Suc (length fs)" dest] iter_at_basic [OF assms, of dest] assms(2)
  by (cases "fs = []") (simp_all del: find_ext_loop.simps)

section \<open>Required fields\<close>

definition seen_bit :: "u32 list \<Rightarrow> nat \<Rightarrow> bool" where
  "seen_bit seen b \<longleftrightarrow> bit (seen ! (b div 32)) (b mod 32)"

lemma reqs_before_le: "reqs_before fs i \<le> i"
  unfolding reqs_before_def by (rule order_trans [OF length_filter_le]) simp

lemma div_mod_32:
  assumes "r < 2 ^ 32"
  shows "unat (drop_bit 5 (of_nat r :: u32)) = r div 32" and "unat (of_nat r AND 31 :: u32) = r mod 32"
proof -
  show "unat (drop_bit 5 (of_nat r :: u32)) = r div 32"
    by (simp add: drop_bit_eq_div unat_div unat_small32 [OF assms])
  have "(31 :: u32) = mask 5" by (simp add: mask_eq_exp_minus_1)
  then have "(of_nat r AND 31 :: u32) = take_bit 5 (of_nat r)" by (simp add: take_bit_eq_mask)
  then show "unat (of_nat r AND 31 :: u32) = r mod 32"
    by (simp add: unsigned_take_bit_eq take_bit_eq_mod unat_mod unat_small32 [OF assms])
qed

lemma length_mark_seen [simp]: "length (mark_seen it seen) = length seen"
  by (simp add: mark_seen_def Let_def)

lemma mark_seen_bit:
  assumes "flat fs" and "i < length fs" and "length seen = 2" and "b < 64"
  shows "seen_bit (mark_seen (iter_at fs dest i) seen) b \<longleftrightarrow>
    seen_bit seen b \<or> is_required (fs ! i) \<and> b = reqs_before fs i"
proof -
  let ?r = "reqs_before fs i"
  have r: "?r < 64" using reqs_before_le [of fs i] assms(1,2) by (simp add: flat_def)
  then have dm: "unat (drop_bit 5 (of_nat ?r :: u32)) = ?r div 32" "unat (of_nat ?r AND 31 :: u32) = ?r mod 32"
    by (simp_all add: div_mod_32)
  have lt: "(of_nat ?r :: u32) < PB_MAX_REQUIRED_FIELDS"
    using r by (simp add: PB_MAX_REQUIRED_FIELDS_def word_less_nat_alt unat_small32)
  have q: "?r div 32 < 2" using r by simp
  have eq: "b = ?r \<longleftrightarrow> b div 32 = ?r div 32 \<and> b mod 32 = ?r mod 32"
    by (metis div_mult_mod_eq)
  have m: "b mod 32 < 32" by simp
  show ?thesis
    using lt dm q m assms(3)
    by (cases "b div 32 = ?r div 32")
       (auto simp: mark_seen_def seen_bit_def cur_iter_at iter_at_basic assms(1,2) is_required_def Let_def eq
          bit_simps nth_list_update simp del: push_bit_of_1)
qed

lemma all_required_seenI:
  assumes "c \<le> 64" and "length seen = 2" and b: "\<And>b. b < 64 \<Longrightarrow> seen_bit seen b \<longleftrightarrow> b < c"
  shows "all_required_seen (of_nat c) seen"
proof -
  have c: "unat (drop_bit 5 (of_nat c :: u32)) = c div 32" "unat (of_nat c AND 31 :: u32) = c mod 32"
    using assms(1) by (simp_all add: div_mod_32)
  have word: "bit (seen ! i) n \<longleftrightarrow> 32 * i + n < c" if "i < 2" "n < 32" for i n
    using b [of "32 * i + n"] that by (simp add: seen_bit_def)
  have whole: "seen ! i = NOT 0" if "i < c div 32" for i
  proof (rule bit_word_eqI)
    fix n assume n: "n < LENGTH(32)"
    have "i < 2" "32 * i + n < c" using that n assms(1) by auto
    then show "bit (seen ! i) n \<longleftrightarrow> bit (NOT 0 :: u32) n" using n word [of i n] by (simp add: bit_simps)
  qed
  have part: "seen ! (c div 32) = drop_bit (unat (32 - (of_nat c AND 31) :: u32)) (NOT 0)" if nz: "c mod 32 \<noteq> 0"
  proof (rule bit_word_eqI)
    fix n assume n: "n < LENGTH(32)"
    have "c \<noteq> 64" using nz by auto
    then have i: "c div 32 < 2" using assms(1) by auto
    have "c mod 32 < 32" by simp
    have "unat (32 - (of_nat c AND 31) :: u32) = 32 - c mod 32"
      using c(2) by (simp add: unat_sub word_le_nat_alt)
    then have "bit (drop_bit (unat (32 - (of_nat c AND 31) :: u32)) (NOT 0 :: u32)) n \<longleftrightarrow> n < c mod 32"
      using n \<open>c mod 32 < 32\<close> nz by (auto simp: bit_simps)
    moreover have "bit (seen ! (c div 32)) n \<longleftrightarrow> n < c mod 32"
      using word [OF i, of n] n by (simp add: less_diff_conv2 flip: minus_mult_div_eq_mod) presburger
    ultimately show "bit (seen ! (c div 32)) n \<longleftrightarrow>
        bit (drop_bit (unat (32 - (of_nat c AND 31) :: u32)) (NOT 0 :: u32)) n" by simp
  qed
  have z: "(of_nat c AND 31 :: u32) \<noteq> 0 \<longleftrightarrow> c mod 32 \<noteq> 0"
    using c(2) by (metis unat_eq_0)
  show ?thesis
    using whole part unfolding all_required_seen_def c z by (auto simp: list_all_iff)
qed

lemma req_walk_flat:
  assumes "flat fs"
  shows "i < length fs \<Longrightarrow> req_walk (iter_at fs dest i) =
    (of_nat (reqs_before fs (length fs - 1)), fd_type (fs ! (length fs - 1)), iter_at fs dest 0)"
proof (induction "length fs - i" arbitrary: i)
  case (Suc k)
  show ?case
  proof (cases "Suc i < length fs")
    case True
    then have "req_walk (iter_at fs dest i) = req_walk (iter_at fs dest (Suc i))"
      using Suc.prems by (subst req_walk.simps) (simp add: iter_next_at assms)
    then show ?thesis using Suc.hyps(1) [of "Suc i"] Suc.hyps(2) True by simp
  next
    case False
    then have e: "length fs - 1 = i" using Suc.prems by simp
    show ?thesis
      unfolding e using Suc.prems False by (subst req_walk.simps) (simp add: iter_next_at assms cur_iter_at iter_at_basic)
  qed
qed simp

lemma req_field_count_flat:
  assumes "flat fs" and "i < length fs"
  shows "req_field_count (iter_at fs dest i) = of_nat (reqs_before fs (length fs))"
proof -
  let ?n = "length fs"
  have n: "?n - 1 < ?n" "0 < ?n" using assms(2) by linarith+
  have t: "fd_tag (cur (iter_at fs dest 0)) \<noteq> 0" using flatD(1) [OF assms(1) n(2)] cur_iter_at [OF assms(1) n(2)] by metis
  have r: "reqs_before fs ?n = reqs_before fs (?n - 1) + (if is_required (fs ! (?n - 1)) then 1 else 0)"
  proof -
    have e: "take (?n - 1) fs @ [fs ! (?n - 1)] = fs" using n take_Suc_conv_app_nth [OF n(1)] by simp
    have "length (filter is_required (take (?n - 1) fs @ [fs ! (?n - 1)])) =
        reqs_before fs (?n - 1) + (if is_required (fs ! (?n - 1)) then 1 else 0)"
      by (simp add: reqs_before_def)
    then show ?thesis unfolding e by (simp add: reqs_before_def)
  qed
  have "reqs_before fs ?n \<le> 64" using reqs_before_le [of fs ?n] assms(1) by (simp add: flat_def)
  then have "\<not> (of_nat (reqs_before fs ?n) :: u32) > PB_MAX_REQUIRED_FIELDS"
    by (simp add: PB_MAX_REQUIRED_FIELDS_def word_less_nat_alt unat_small32)
  then show ?thesis
    using t r by (auto simp: req_field_count_def req_walk_flat [OF assms] is_required_def Let_def)
qed

section \<open>The main loop\<close>

text \<open>A message is a sequence of items: the index of a field and the bytes of its value. \<open>eff\<close> gives the
  effect of decoding one, from the address of its bytes.\<close>

type_synonym item = "nat \<times> u8 list"
type_synonym effect = "nat \<Rightarrow> u8 list \<Rightarrow> int \<Rightarrow> cmem \<Rightarrow> cmem"

definition item_tag :: "pb_field list \<Rightarrow> (nat \<Rightarrow> pb_wire_type) \<Rightarrow> nat \<Rightarrow> u8 list" where
  "item_tag fs wt i = tag_bytes (wt i) (fd_tag (fs ! i))"

definition message_bytes :: "pb_field list \<Rightarrow> (nat \<Rightarrow> pb_wire_type) \<Rightarrow> item list \<Rightarrow> u8 list" where
  "message_bytes fs wt items = concat (map (\<lambda>(i, p). item_tag fs wt i @ p) items)"

primrec run_items ::
    "pb_field list \<Rightarrow> (nat \<Rightarrow> pb_wire_type) \<Rightarrow> effect \<Rightarrow> int \<Rightarrow> item list \<Rightarrow> cmem \<Rightarrow> cmem" where
  "run_items fs wt eff pos [] m = m"
| "run_items fs wt eff pos (x # xs) m =
     (let at = pos + int (length (item_tag fs wt (fst x))) in
      run_items fs wt eff (at + int (length (snd x))) xs (eff (fst x) (snd x) at m))"

definition item_ok ::
    "(pb_wire_type \<Rightarrow> pb_field_iter \<Rightarrow> dec) \<Rightarrow> pb_field list \<Rightarrow> int \<Rightarrow> (nat \<Rightarrow> pb_wire_type) \<Rightarrow> effect \<Rightarrow>
      (cmem \<Rightarrow> bool) \<Rightarrow> item \<Rightarrow> bool" where
  "item_ok field fs dest wt eff I x \<longleftrightarrow>
     (case x of (i, p) \<Rightarrow> i < length fs \<and> wt i < 8 \<and>
        (\<forall>s m. ready p s \<longrightarrow> I m \<longrightarrow>
           field (wt i) (iter_at fs dest i) (s, m) = Val () (adv (length p) s, eff i p (is_state s) m) \<and>
           I (eff i p (is_state s) m)))"

lemma rdm_reads: "reads r bs v \<Longrightarrow> ready bs s \<Longrightarrow> rdm r (s, m) = Val v (adv (length bs) s, m)"
  by (simp add: rdm_def reads_def)

lemma noinit_loop_items:
  assumes fl: "flat fs"
  shows "\<lbrakk>list_all (item_ok field fs dest wt eff I) items; i0 < length fs; length seen = 2; I m;
      is_rest s = message_bytes fs wt items @ r; unat (bytes_left s) = length (message_bytes fs wt items);
      length items < k\<rbrakk> \<Longrightarrow>
    \<exists>seen' i. noinit_loop k n env field (seen, ext, iter_at fs dest i0) (s, m) =
        Val (seen', ext, iter_at fs dest i) (adv (length (message_bytes fs wt items)) s,
              run_items fs wt eff (is_state s) items m) \<and>
      i < length fs \<and> length seen' = 2 \<and> I (run_items fs wt eff (is_state s) items m) \<and>
      (\<forall>b<64. seen_bit seen' b \<longleftrightarrow> seen_bit seen b \<or>
         (\<exists>(i, p)\<in>set items. is_required (fs ! i) \<and> b = reqs_before fs i))"
proof (induction items arbitrary: seen i0 m s k)
  case Nil
  then obtain k' where "k = Suc k'" by (cases k) auto
  moreover have "bytes_left s = 0" using Nil.prems(6) by (simp add: message_bytes_def unat_eq_0)
  ultimately show ?case
    using Nil.prems by (intro exI [of _ seen] exI [of _ i0]) (simp add: message_bytes_def)
next
  case (Cons x items)
  obtain i p where x: "x = (i, p)" by force
  obtain k' where k: "k = Suc k'" using Cons.prems(7) by (cases k) auto
  let ?t = "item_tag fs wt i" and ?rest = "message_bytes fs wt items"
  have mb: "message_bytes fs wt (x # items) = ?t @ p @ ?rest" by (simp add: message_bytes_def x)
  have ok: "item_ok field fs dest wt eff I (i, p)" and oks: "list_all (item_ok field fs dest wt eff I) items"
    using Cons.prems(1) by (simp_all add: x)
  have i: "i < length fs" "wt i < 8" using ok by (simp_all add: item_ok_def)
  have rdy: "ready (?t @ p @ ?rest) s"
    using Cons.prems(5,6) by (auto simp: ready_def mb)
  let ?s1 = "adv (length ?t) s"
  have r1: "ready ?t s" "ready (p @ ?rest) ?s1" using rdy unfolding ready_append by simp_all
  have rp: "ready p ?s1" using r1(2) unfolding ready_append by simp
  have nz: "bytes_left s \<noteq> 0"
    using Cons.prems(6) by (auto simp: mb item_tag_def tag_bytes_def key_bytes_def)
  have tag: "rdm pb_decode_tag (s, m) = Val (True, wt i, ucast (fd_tag (fs ! i)), False) (?s1, m)"
    using rdm_reads [OF reads_tag [OF i(2) flatD(1) [OF fl i(1)]], of s m] r1(1) by (simp add: item_tag_def)
  let ?m1 = "eff i p (is_state ?s1) m" and ?s2 = "adv (length p) ?s1"
  have f: "field (wt i) (iter_at fs dest i) (?s1, m) = Val () (?s2, ?m1)" "I ?m1"
    using ok rp Cons.prems(4) by (auto simp: item_ok_def)
  let ?seen = "mark_seen (iter_at fs dest i) seen"
  have turn: "noinit_turn n env field (wt i) (ucast (fd_tag (fs ! i))) (seen, ext, iter_at fs dest i0) (?s1, m) =
      Val (?seen, ext, iter_at fs dest i) (?s2, ?m1)"
    using f by (simp add: noinit_turn_def iter_find_known fl Cons.prems(2) i(1) seqm_def)
  have rest2: "is_rest ?s2 = ?rest @ r" using Cons.prems(5) by (simp add: mb)
  have left2: "unat (bytes_left ?s2) = length ?rest"
  proof -
    have "length ?t + length p \<le> unat (bytes_left s)" using Cons.prems(6) by (simp add: mb)
    from unat_minus_of_nat [OF this] show ?thesis
      using Cons.prems(6) by (simp add: mb adv_adv del: adv_fields) (simp add: adv_def)
  qed
  have step: "noinit_loop k n env field (seen, ext, iter_at fs dest i0) (s, m) =
      noinit_loop k' n env field (?seen, ext, iter_at fs dest i) (?s2, ?m1)"
    using nz tag turn by (simp add: k seqm_def)
  have "length ?seen = 2" using Cons.prems(3) by simp
  from Cons.IH [OF oks i(1) this f(2) rest2 left2, of k']
  obtain seen' j where IH: "noinit_loop k' n env field (?seen, ext, iter_at fs dest i) (?s2, ?m1) =
        Val (seen', ext, iter_at fs dest j) (adv (length ?rest) ?s2, run_items fs wt eff (is_state ?s2) items ?m1)"
      "j < length fs" "length seen' = 2" "I (run_items fs wt eff (is_state ?s2) items ?m1)"
      "\<forall>b<64. seen_bit seen' b \<longleftrightarrow> seen_bit ?seen b \<or>
         (\<exists>(i, p)\<in>set items. is_required (fs ! i) \<and> b = reqs_before fs i)"
    using Cons.prems(7) by (auto simp: k)
  have run: "run_items fs wt eff (is_state s) (x # items) m = run_items fs wt eff (is_state ?s2) items ?m1"
    by (simp add: x Let_def add.assoc)
  have av: "adv (length (message_bytes fs wt (x # items))) s = adv (length ?rest) ?s2"
    by (simp add: mb adv_adv add.assoc)
  show ?case
    unfolding run av using IH
    by (intro exI [of _ seen'] exI [of _ j])
       (auto simp: step mark_seen_bit fl i(1) Cons.prems(3) x)
qed

lemma reqs_before_required:
  assumes "i < length fs" and "is_required (fs ! i)"
  shows "reqs_before fs i < reqs_before fs (length fs)"
proof -
  have "reqs_before fs (Suc i) = Suc (reqs_before fs i)"
    using assms by (simp add: reqs_before_def take_Suc_conv_app_nth)
  moreover have "reqs_before fs (Suc i) \<le> reqs_before fs (length fs)"
    unfolding reqs_before_def
    by (metis append_take_drop_id filter_append le_add1 length_append take_all order_refl)
  ultimately show ?thesis by simp
qed

lemma nth_required:
  "b < reqs_before fs (length fs) \<Longrightarrow> \<exists>i<length fs. is_required (fs ! i) \<and> reqs_before fs i = b"
proof (induction fs arbitrary: b)
  case (Cons f fs)
  have suc: "reqs_before (f # fs) (Suc i) = (if is_required f then 1 else 0) + reqs_before fs i" for i
    by (simp add: reqs_before_def)
  show ?case
  proof (cases "is_required f \<and> b = 0")
    case True
    then show ?thesis by (intro exI [of _ 0]) (simp add: reqs_before_def)
  next
    case False
    then have "b - (if is_required f then 1 else 0) < reqs_before fs (length fs)"
      using Cons.prems by (auto simp: suc split: if_splits)
    then obtain i where "i < length fs" "is_required (fs ! i)"
        "reqs_before fs i = b - (if is_required f then 1 else 0)" using Cons.IH by blast
    then show ?thesis using False by (intro exI [of _ "Suc i"]) (auto simp: suc)
  qed
qed (simp add: reqs_before_def)

lemma length_items_le: "length items \<le> length (message_bytes fs wt items)"
  by (induction items) (auto simp: message_bytes_def item_tag_def tag_bytes_def key_bytes_def Suc_le_eq
      intro: add_le_mono [of 1, simplified])

definition complete :: "pb_field list \<Rightarrow> item list \<Rightarrow> bool" where
  "complete fs items \<longleftrightarrow> (\<forall>i<length fs. is_required (fs ! i) \<longrightarrow> i \<in> fst ` set items)"

lemma seen_bit_zero: "b < 64 \<Longrightarrow> \<not> seen_bit [0, 0] b"
  by (cases "b div 32") (auto simp: seen_bit_def nth_Cons split: nat.splits)

lemma items_all_seen:
  assumes fl: "flat fs" and i: "i < length fs" and c: "complete fs items" and seen: "length seen = 2"
    and in_range: "\<And>j p. (j, p) \<in> set items \<Longrightarrow> j < length fs"
    and bits: "\<forall>b<64. seen_bit seen b \<longleftrightarrow> seen_bit [0, 0] b \<or>
         (\<exists>(i, p)\<in>set items. is_required (fs ! i) \<and> b = reqs_before fs i)"
  shows "all_required_seen (req_field_count (iter_at fs dest i)) seen"
proof -
  have "seen_bit seen b \<longleftrightarrow> b < reqs_before fs (length fs)" if b: "b < 64" for b
  proof
    assume "seen_bit seen b"
    then obtain j p where "(j, p) \<in> set items" "is_required (fs ! j)" "b = reqs_before fs j"
      using bits b seen_bit_zero [OF b] by blast
    then show "b < reqs_before fs (length fs)" using in_range reqs_before_required by blast
  next
    assume "b < reqs_before fs (length fs)"
    then obtain j where j: "j < length fs" "is_required (fs ! j)" "reqs_before fs j = b"
      using nth_required by blast
    then obtain p where "(j, p) \<in> set items" using c by (force simp: complete_def)
    then show "seen_bit seen b" using bits b j by blast
  qed
  moreover have "reqs_before fs (length fs) \<le> 64"
    using reqs_before_le [of fs "length fs"] fl by (simp add: flat_def)
  ultimately show ?thesis unfolding req_field_count_flat [OF fl i] by (intro all_required_seenI seen)
qed

text \<open>A field with an unknown number is skipped, whatever its number: it need not fit into the byte of a tag in a table.\<close>

lemma noinit_loop_unknown:
  assumes fl: "flat fs" and i: "i < length fs" and t: "t \<noteq> 0" "t < 2 ^ 29" "\<forall>f\<in>set fs. ucast (fd_tag f) \<noteq> t" and u: "wire_value wt u"
    and r: "ready (key_bytes wt t @ u) s"
  shows "noinit_loop (Suc k) n env field (seen, ext, iter_at fs dest i) (s, m) =
    noinit_loop k n env field (seen, if t \<ge> ext then -1 else ext, iter_at fs dest i)
      (adv (length (key_bytes wt t @ u)) s, m)"
proof -
  note r' = r [unfolded ready_append]
  let ?s = "adv (length (key_bytes wt t)) s"
  have nz: "bytes_left s \<noteq> 0" using r' by (auto simp: ready_def key_bytes_def)
  have tag: "rdm pb_decode_tag (s, m) = Val (True, wt, t, False) (?s, m)"
    using rdm_reads [OF reads_key [OF wire_value_small [OF u] t(1,2)]] r' by blast
  have skip: "rdm (pb_skip_field wt) (?s, m) = Val () (adv (length u) ?s, m)"
    using rdm_reads [OF reads_skip_field [OF u]] r' by blast
  note ne = t(3)
  have "t \<noteq> -1" using t(2) by (auto simp: word_less_nat_alt unat_max_u32)
  then have "\<not> (-1 :: u32) \<le> t" using word_order.extremum_unique by blast
  then have "noinit_turn n env field wt (t) (seen, ext, iter_at fs dest i) (?s, m) =
      Val (seen, if t \<ge> ext then -1 else ext, iter_at fs dest i) (adv (length u) ?s, m)"
    using skip by (simp add: noinit_turn_def iter_find_unknown [OF fl i ne] find_extension_flat [OF fl i] seqm_def)
  then show ?thesis using nz tag by (simp add: seqm_def adv_adv)
qed

text \<open>\<open>junk\<close> is what the fields with unknown numbers put before the message.\<close>

definition junk :: "(pb_wire_type \<times> u32 \<times> u8 list) list \<Rightarrow> u8 list" where
  "junk us = concat (map (\<lambda>(wt, t, u). key_bytes wt t @ u) us)"

definition unknown :: "pb_field list \<Rightarrow> (pb_wire_type \<times> u32 \<times> u8 list) list \<Rightarrow> bool" where
  "unknown fs us \<longleftrightarrow> (\<forall>(wt, t, u)\<in>set us. t \<noteq> 0 \<and> t < 2 ^ 29 \<and> (\<forall>f\<in>set fs. ucast (fd_tag f) \<noteq> t) \<and> wire_value wt u)"

lemma length_junk_le: "length us \<le> length (junk us)"
proof (induction us)
  case (Cons x us)
  have "length (key_bytes wt t) \<ge> 1" for wt t by (simp add: key_bytes_def Suc_le_eq)
  then have "1 + length us \<le> length (key_bytes (fst x) (fst (snd x))) + length (junk us)"
    using Cons by (intro add_mono)
  then show ?case by (cases x) (simp add: junk_def)
qed (simp add: junk_def)

lemma noinit_loop_junk:
  assumes fl: "flat fs" and i: "i < length fs"
  shows "\<lbrakk>unknown fs us; ready (junk us) s\<rbrakk> \<Longrightarrow>
    \<exists>ext'. noinit_loop (length us + k) n env field (seen, ext, iter_at fs dest i) (s, m) =
      noinit_loop k n env field (seen, ext', iter_at fs dest i) (adv (length (junk us)) s, m)"
proof (induction us arbitrary: s ext)
  case Nil
  then show ?case by (auto simp: junk_def)
next
  case (Cons x us)
  obtain wt t u where x: "x = (wt, t, u)" by (cases x)
  have j: "junk (x # us) = (key_bytes wt t @ u) @ junk us" by (simp add: junk_def x)
  have r: "ready (key_bytes wt t @ u) s" "ready (junk us) (adv (length (key_bytes wt t @ u)) s)"
    using Cons.prems(2) unfolding j ready_append [of "key_bytes wt t @ u"] by simp_all
  have k: "t \<noteq> 0" "t < 2 ^ 29" "\<forall>f\<in>set fs. ucast (fd_tag f) \<noteq> t" "wire_value wt u" "unknown fs us"
    using Cons.prems(1) by (auto simp: unknown_def x)
  from noinit_loop_unknown [OF fl i k(1-4) r(1), of "length us + k" n env field seen ext dest m]
  have "noinit_loop (length (x # us) + k) n env field (seen, ext, iter_at fs dest i) (s, m) =
      noinit_loop (length us + k) n env field (seen, if t \<ge> ext then -1 else ext, iter_at fs dest i)
        (adv (length (key_bytes wt t @ u)) s, m)" by (simp del: noinit_loop.simps)
  moreover obtain ext' where "noinit_loop (length us + k) n env field
      (seen, if t \<ge> ext then -1 else ext, iter_at fs dest i) (adv (length (key_bytes wt t @ u)) s, m) =
      noinit_loop k n env field (seen, ext', iter_at fs dest i)
        (adv (length (junk us)) (adv (length (key_bytes wt t @ u)) s), m)"
    using Cons.IH [OF k(5) r(2)] by blast
  ultimately show ?case unfolding j by (intro exI [of _ ext']) (simp add: adv_adv add.assoc)
qed

lemma noinit_body_items:
  assumes fl: "flat fs" and ok: "list_all (item_ok field fs dest wt eff I) items" and c: "complete fs items"
    and m: "I m" and u: "unknown fs us" and s: "is_rest s = junk us @ message_bytes fs wt items @ r"
      "unat (bytes_left s) = length (junk us @ message_bytes fs wt items)"
  shows "noinit_body n env field fs dest (s, m) =
    Val () (adv (length (junk us @ message_bytes fs wt items)) s,
      run_items fs wt eff (is_state s + int (length (junk us))) items m)"
proof -
  have len: "0 < length fs" using fl by (simp add: flat_def)
  let ?t = "adv (length (junk us)) s"
  obtain k where k: "Suc (unat (bytes_left s)) = length us + k" "length items < k"
  proof (rule that)
    show "Suc (unat (bytes_left s)) = length us + (Suc (unat (bytes_left s)) - length us)"
        "length items < Suc (unat (bytes_left s)) - length us"
      using length_junk_le [of us] length_items_le [of items fs wt] s(2) by simp_all
  qed
  have "ready (junk us) s" using s by (simp add: ready_def)
  then obtain ext where j: "noinit_loop (Suc (unat (bytes_left s))) n env field ([0, 0], 0, iter_at fs dest 0) (s, m) =
      noinit_loop k n env field ([0, 0], ext, iter_at fs dest 0) (?t, m)"
    using noinit_loop_junk [OF fl len u] unfolding k(1) by blast
  have t: "is_rest ?t = message_bytes fs wt items @ r" "unat (bytes_left ?t) = length (message_bytes fs wt items)"
    using s unat_minus_of_nat [of "length (junk us)" "bytes_left s"] by simp_all
  obtain seen i where l: "noinit_loop k n env field ([0, 0], ext, iter_at fs dest 0) (?t, m) =
        Val (seen, ext, iter_at fs dest i) (adv (length (message_bytes fs wt items)) ?t,
              run_items fs wt eff (is_state ?t) items m)"
      and i: "i < length fs" and seen: "length seen = 2"
      and bits: "\<forall>b<64. seen_bit seen b \<longleftrightarrow> seen_bit [0, 0] b \<or>
         (\<exists>(i, p)\<in>set items. is_required (fs ! i) \<and> b = reqs_before fs i)"
    using noinit_loop_items [OF fl ok len _ m t k(2), of "[0, 0]" n env ext] by auto
  have in_range: "i < length fs" if "(i, p) \<in> set items" for i p
    using ok that by (auto simp: list_all_iff item_ok_def)
  from items_all_seen [OF fl i c seen in_range bits]
  show ?thesis
    using l j by (simp add: noinit_body_def seqm_def iter_at.simps(1) [symmetric] adv_adv del: noinit_loop.simps)
qed

section \<open>Encoding the fields\<close>

lemma enc_fields_eq:
  "enc_fields each it = seqm (each (cur it) (it_pData it))
     (\<lambda>_. if fst (pb_field_iter_next it) then enc_fields each (snd (pb_field_iter_next it)) else Val ())"
  by (rule ext, subst enc_fields.simps) (simp add: seqm_def split: pb_out.split)

lemma emits_fields:
  assumes fl: "flat fs" and e: "\<And>i. i < length fs \<Longrightarrow> emits (each (fs ! i) (field_addr fs src i)) (B i)"
  shows "i < length fs \<Longrightarrow> emits (enc_fields each (iter_at fs src i)) (concat (map B [i..<length fs]))"
proof (induction "length fs - i" arbitrary: i)
  case (Suc k)
  let ?rest = "if fst (pb_field_iter_next (iter_at fs src i))
    then enc_fields each (snd (pb_field_iter_next (iter_at fs src i))) else Val ()"
  have cat: "concat (map B [i..<length fs]) = B i @ concat (map B [Suc i..<length fs])"
    using Suc.prems by (simp add: upt_conv_Cons)
  have "emits ?rest (concat (map B [Suc i..<length fs]))"
    using Suc.hyps(1) [of "Suc i"] Suc.hyps(2) Suc.prems
    by (cases "Suc i < length fs") (simp_all add: iter_next_at fl emits_nothing)
  then show ?case
    unfolding enc_fields_eq [of each "iter_at fs src i"] cat cur_iter_at [OF fl Suc.prems]
    using e [OF Suc.prems] by (intro emits_seq) (simp_all add: field_addr_def)
qed simp

lemma emits_write_submessage:
  assumes e: "emits (sub fs src) bs" and l: "length bs < 2 ^ 32"
  shows "emits (write_submessage sub fs src (of_nat (length bs))) bs"
  unfolding emits_def
proof (intro allI impI)
  fix s assume sn: "sane s (length bs)"
  let ?n = "of_nat (length bs) :: u32"
  have n: "unat ?n = length bs" using l by (simp add: unat_of_nat)
  have add: "unat (bytes_written s + ?n) = unat (bytes_written s) + length bs"
    using sn n by (simp add: sane_def unat_word_ariths)
  have over: "os_writing s \<Longrightarrow> bytes_written s + ?n > max_size s \<longleftrightarrow> \<not> fits s (length bs)"
    by (simp add: fits_def word_less_nat_alt add not_le)
  consider "\<not> os_writing s" | "os_writing s" "\<not> fits s (length bs)" | "os_writing s" "fits s (length bs)"
    by blast
  then show "if fits s (length bs) then write_submessage sub fs src ?n s = Val () (put bs s)
      else no_val (write_submessage sub fs src ?n s)"
  proof cases
    case 1
    then show ?thesis by (simp add: write_submessage_def pb_write_def put_def fits_def)
  next
    case 2
    then show ?thesis using over by (simp add: write_submessage_def)
  next
    case 3
    let ?sub = "s\<lparr>max_size := ?n, bytes_written := 0, os_errmsg := None\<rparr>"
    have "sub fs src ?sub = Val () (put bs ?sub)"
      using e l n by (simp add: emits_def sane_def fits_def)
    moreover have "os_errmsg s = None" using sn by (simp add: sane_def)
    ultimately show ?thesis
      using 3 over by (simp add: write_submessage_def put_def Let_def)
  qed
qed

lemma emits_submessage:
  assumes e: "emits (sub fs src) bs" and l: "length bs < 2 ^ 32"
  shows "emits (pb_encode_submessage sub fs src) (varint_bytes (of_nat (length bs)) @ bs)"
proof -
  let ?n = "of_nat (length bs) :: u32"
  have v: "ucast ?n = (of_nat (length bs) :: u64)"
    using l by (simp add: unsigned_of_nat take_bit_nat_eq_self)
  have "bytes_written (put bs PB_OSTREAM_SIZING) = ?n" by (simp add: PB_OSTREAM_SIZING_def)
  then have "pb_encode_submessage sub fs src =
      seqm (pb_encode_varint (of_nat (length bs))) (\<lambda>_. write_submessage sub fs src ?n)"
    by (intro ext) (simp add: pb_encode_submessage_def emits_sizing [OF e l] v)
  moreover have "emits (write_submessage sub fs src ?n) bs" by (rule emits_write_submessage) fact+
  ultimately show ?thesis by (simp only: emits_seq [OF emits_varint])
qed

section \<open>Values\<close>

text \<open>The values of the fields the layouts use: 32-bit integers in one of four encodings, strings held
  in the struct, and byte strings given and received through callbacks.\<close>

datatype fval = FInt u32 | FStr "u8 list" | FBytes "u8 list"

definition int_bytes :: "u8 \<Rightarrow> u32 \<Rightarrow> u8 list" where
  "int_bytes lt w =
     (if lt = PB_LTYPE_VARINT then varint_bytes (scast w)
      else if lt = PB_LTYPE_UVARINT then varint_bytes (ucast w)
      else if lt = PB_LTYPE_SVARINT then varint_bytes (zigzag (scast w))
      else le4 w)"

definition str_bytes :: "u8 list \<Rightarrow> u8 list" where
  "str_bytes bs = varint_bytes (of_nat (length bs)) @ bs"

primrec val_bytes :: "pb_field \<Rightarrow> fval \<Rightarrow> u8 list" where
  "val_bytes f (FInt w) = int_bytes (PB_LTYPE (fd_type f)) w"
| "val_bytes f (FStr bs) = str_bytes bs"
| "val_bytes f (FBytes bs) = str_bytes bs"

definition int_type :: "u8 \<Rightarrow> bool" where
  "int_type lt \<longleftrightarrow> lt \<in> {PB_LTYPE_VARINT, PB_LTYPE_UVARINT, PB_LTYPE_SVARINT, PB_LTYPE_FIXED32}"

primrec carries :: "pb_field \<Rightarrow> fval \<Rightarrow> bool" where
  "carries f (FInt w) \<longleftrightarrow> is_required f \<and> PB_ATYPE (fd_type f) = PB_ATYPE_STATIC \<and>
     int_type (PB_LTYPE (fd_type f)) \<and> data_size f = 4"
| "carries f (FStr bs) \<longleftrightarrow> is_required f \<and> PB_ATYPE (fd_type f) = PB_ATYPE_STATIC \<and>
     PB_LTYPE (fd_type f) = PB_LTYPE_STRING \<and> length bs < unat (data_size f) \<and> 0 \<notin> set bs"
| "carries f (FBytes bs) \<longleftrightarrow> is_required f \<and> PB_ATYPE (fd_type f) = PB_ATYPE_CALLBACK \<and>
     PB_LTYPE (fd_type f) \<in> {PB_LTYPE_BYTES, PB_LTYPE_STRING} \<and> length bs < 2 ^ 32 \<and> data_size f = 8"

text \<open>The bundler at \<open>b\<close>: a length and a pointer.\<close>

definition bundle_len :: "cmem \<Rightarrow> int \<Rightarrow> u32" where "bundle_len m b = load32 m b"
definition bundle_ptr :: "cmem \<Rightarrow> int \<Rightarrow> u32" where "bundle_ptr m b = load32 m (b + 4)"

definition set_bundle :: "int \<Rightarrow> int \<Rightarrow> u32 \<Rightarrow> cmem \<Rightarrow> cmem" where
  "set_bundle b p len m = store32 (store32 m (b + 4) (of_int p)) b len"

definition bundles :: "cmem \<Rightarrow> int \<Rightarrow> u8 list \<Rightarrow> bool" where
  "bundles m b bs \<longleftrightarrow> bundle_len m b = of_nat (length bs) \<and>
     load_bytes m (uint (bundle_ptr m b)) (length bs) = bs"

text \<open>A struct member holds a value; a callback member does when it points to the writer and to the
  bundler of the bytes.\<close>

primrec holds :: "u32 \<Rightarrow> cmem \<Rightarrow> int \<Rightarrow> fval \<Rightarrow> bool" where
  "holds wb m a (FInt w) \<longleftrightarrow> a \<noteq> 0 \<and> load32 m a = w"
| "holds wb m a (FStr bs) \<longleftrightarrow> a \<noteq> 0 \<and> load_bytes m a (length bs) = bs \<and> m (a + int (length bs)) = 0"
| "holds wb m a (FBytes bs) \<longleftrightarrow> callback_funcs m a = wb \<and> bundles m (load_ptr m (a + 4)) bs"

definition field_wt :: "pb_field \<Rightarrow> pb_wire_type" where
  "field_wt f = the (wire_type_of (PB_LTYPE (fd_type f)))"

lemma field_wt_small: "field_wt f < 8" if "wire_type_of (PB_LTYPE (fd_type f)) \<noteq> None"
  using that by (auto simp: field_wt_def wire_type_of_def pb_wts split: if_splits)

lemma carries_wt: "carries f v \<Longrightarrow> wire_type_of (PB_LTYPE (fd_type f)) \<noteq> None"
  by (cases v) (auto simp: int_type_def wire_type_of_def)

lemma carries_required: "carries f v \<Longrightarrow> is_required f"
  by (cases v) auto

lemma emits_tag_for_field:
  "wire_type_of (PB_LTYPE (fd_type f)) \<noteq> None \<Longrightarrow>
    emits (pb_encode_tag_for_field f) (tag_bytes (field_wt f) (fd_tag f))"
  by (auto simp: pb_encode_tag_for_field_def field_wt_def emits_tag)

lemma emits_string_len: "length bs < 2 ^ 32 \<Longrightarrow> emits (pb_encode_string bs (of_nat (length bs))) (str_bytes bs)"
  using emits_string [of bs "of_nat (length bs)"]
  by (simp add: str_bytes_def unat_of_nat unsigned_of_nat take_bit_nat_eq_self)

lemma strnlen_string:
  "\<lbrakk>load_bytes m a (length bs) = bs; m (a + int (length bs)) = 0; 0 \<notin> set bs; length bs \<le> n\<rbrakk> \<Longrightarrow>
    strnlen_loop n m a = length bs"
proof (induction bs arbitrary: a n)
  case Nil
  then show ?case by (cases n) (auto simp: load8_def)
next
  case (Cons b bs)
  then obtain n' where n: "n = Suc n'" by (cases n) auto
  have "strnlen_loop n' m (a + 1) = length bs"
    by (rule Cons.IH) (use Cons.prems in \<open>simp_all add: n algebra_simps\<close>)
  then show ?case using Cons.prems by (simp add: n load8_def)
qed

lemma emits_value:
  assumes c: "carries f v" and h: "holds wb m a v" and nb: "\<forall>bs. v \<noteq> FBytes bs"
  shows "emits (PB_ENCODERS sub m (PB_LTYPE (fd_type f)) f a) (val_bytes f v)"
proof (cases v)
  case (FInt w)
  have w: "load32 m a = w" and d: "data_size f = 4" using c h by (simp_all add: FInt)
  have "int_type (PB_LTYPE (fd_type f))" using c by (simp add: FInt)
  then consider "PB_LTYPE (fd_type f) = PB_LTYPE_VARINT" | "PB_LTYPE (fd_type f) = PB_LTYPE_UVARINT"
    | "PB_LTYPE (fd_type f) = PB_LTYPE_SVARINT" | "PB_LTYPE (fd_type f) = PB_LTYPE_FIXED32"
    by (auto simp: int_type_def)
  then show ?thesis
    using emits_fixed32 [of m a]
    by cases (simp_all add: FInt PB_ENCODERS_def int_bytes_def pb_consts pb_enc_varint_def pb_enc_uvarint_def
        pb_enc_svarint_def pb_enc_fixed32_def d w emits_varint emits_svarint)
next
  case (FStr bs)
  have lt: "PB_LTYPE (fd_type f) = PB_LTYPE_STRING" and at: "PB_ATYPE (fd_type f) = PB_ATYPE_STATIC"
    and l: "length bs < unat (data_size f)" and z: "0 \<notin> set bs"
    using c by (simp_all add: FStr)
  have hs: "a \<noteq> 0" "load_bytes m a (length bs) = bs" "m (a + int (length bs)) = 0" using h by (simp_all add: FStr)
  have u: "unat (ucast (data_size f) :: u32) = unat (data_size f)"
    using unsigned_less [of "data_size f", where 'a = nat] by (simp add: unsigned_ucast_eq take_bit_nat_eq_self)
  have "strnlen_loop (unat (ucast (data_size f) :: u32)) m a = length bs"
    using hs l z by (intro strnlen_string) (simp_all add: u)
  moreover have "length bs < 2 ^ 32" using l unsigned_less [of "data_size f", where 'a = nat] by simp
  ultimately show ?thesis
    using emits_string_len [of bs] lt at hs
    by (simp add: FStr PB_ENCODERS_def pb_enc_string_def pb_consts Let_def)
qed (use nb in auto)

lemma emits_required_field:
  assumes c: "carries f v" and h: "holds wb m a v" and nb: "\<forall>bs. v \<noteq> FBytes bs"
  shows "emits (encode_field env sub m f a) (tag_bytes (field_wt f) (fd_tag f) @ val_bytes f v)"
proof -
  have at: "PB_ATYPE (fd_type f) = PB_ATYPE_STATIC" using c nb by (cases v) auto
  have req: "PB_HTYPE (fd_type f) = PB_HTYPE_REQUIRED"
    using carries_required [OF c] by (simp add: is_required_def)
  have a: "a \<noteq> 0" using h nb by (cases v) auto
  have "encode_field env sub m f a =
      seqm (pb_encode_tag_for_field f) (\<lambda>_. PB_ENCODERS sub m (PB_LTYPE (fd_type f)) f a)"
    using at req a by (simp add: encode_field_def encode_basic_field_def pb_consts Let_def)
  then show ?thesis
    by (simp only: emits_seq [OF emits_tag_for_field [OF carries_wt [OF c]] emits_value [OF c h nb]])
qed

section \<open>Decoding the fields\<close>

text \<open>What a decoded value leaves in memory; \<open>at\<close> is the address of its bytes in the input.\<close>

primrec val_effect :: "int \<Rightarrow> fval \<Rightarrow> int \<Rightarrow> cmem \<Rightarrow> cmem" where
  "val_effect a (FInt w) at m = store32 m a w"
| "val_effect a (FStr bs) at m = store8 (store_bytes m a bs) (a + int (length bs)) 0"
| "val_effect a (FBytes bs) at m =
     set_bundle (load_ptr m (a + 4)) (at + int (length (varint_bytes (of_nat (length bs))))) (of_nat (length bs)) m"

lemma scast_back: "ucast (scast (w :: u32) :: u64) = w"
  by (rule bit_word_eqI) (auto simp: bit_simps)

lemma store_clamped_int:
  "data_size f = 4 \<Longrightarrow> widen w = v \<Longrightarrow> ucast v = w \<Longrightarrow>
    store_clamped w8 w16 widen f a v st = Val () (fst st, store32 (snd st) a w)"
  by (simp add: store_clamped_def memop_def seqm_def Let_def)

lemma dec_int:
  assumes t: "int_type (PB_LTYPE (fd_type f))" and d: "data_size f = 4"
    and r: "ready (int_bytes (PB_LTYPE (fd_type f)) w) s"
  shows "PB_DECODERS defaults noinit (PB_LTYPE (fd_type f)) f a (s, m) =
    Val () (adv (length (int_bytes (PB_LTYPE (fd_type f)) w)) s, store32 m a w)"
proof -
  note undo = scast_back [of w] ucast_down_up [of w]
  consider "PB_LTYPE (fd_type f) = PB_LTYPE_VARINT" | "PB_LTYPE (fd_type f) = PB_LTYPE_UVARINT"
    | "PB_LTYPE (fd_type f) = PB_LTYPE_SVARINT" | "PB_LTYPE (fd_type f) = PB_LTYPE_FIXED32"
    using t by (auto simp: int_type_def)
  then show ?thesis
  proof cases
    case 1
    with r have "rdm pb_decode_varint (s, m) = Val (scast w) (adv (length (varint_bytes (scast w))) s, m)"
      by (intro rdm_reads [OF reads_varint]) (simp add: int_bytes_def pb_consts)
    then show ?thesis using 1 d
      by (simp add: PB_DECODERS_def pb_consts int_bytes_def pb_dec_varint_def seqm_def undo store_clamped_int Let_def)
  next
    case 2
    with r have "rdm pb_decode_varint (s, m) = Val (ucast w) (adv (length (varint_bytes (ucast w))) s, m)"
      by (intro rdm_reads [OF reads_varint]) (simp add: int_bytes_def pb_consts)
    then show ?thesis using 2 d
      by (simp add: PB_DECODERS_def pb_consts int_bytes_def pb_dec_uvarint_def seqm_def undo store_clamped_int)
  next
    case 3
    with r have "rdm pb_decode_svarint (s, m) =
        Val (scast w) (adv (length (varint_bytes (zigzag (scast w)))) s, m)"
      by (intro rdm_reads [OF reads_svarint]) (simp add: int_bytes_def pb_consts)
    then show ?thesis using 3 d
      by (simp add: PB_DECODERS_def pb_consts int_bytes_def pb_dec_svarint_def seqm_def undo store_clamped_int)
  next
    case 4
    with r have "rdm pb_decode_fixed32 (s, m) = Val w (adv (length (le4 w)) s, m)"
      by (intro rdm_reads [OF reads_fixed32]) (simp add: int_bytes_def pb_consts)
    then show ?thesis using 4
      by (simp add: PB_DECODERS_def pb_consts int_bytes_def pb_dec_fixed32_def seqm_def memop_def)
  qed
qed

lemma ready_str:
  assumes "length bs < 2 ^ 32" and "ready (str_bytes bs) s"
  shows "ready (varint_bytes (ucast (of_nat (length bs) :: u32)) @ bs) s"
    and "length bs = unat (of_nat (length bs) :: u32)"
  using assms by (simp_all add: str_bytes_def unat_of_nat unsigned_of_nat take_bit_nat_eq_self)

lemma dec_string:
  assumes at: "PB_ATYPE (fd_type f) = PB_ATYPE_STATIC" and l: "length bs < unat (data_size f)"
    and r: "ready (str_bytes bs) s"
  shows "pb_dec_string f a (s, m) =
    Val () (adv (length (str_bytes bs)) s, store8 (store_bytes m a bs) (a + int (length bs)) 0)"
proof -
  have d: "unat (data_size f) < 256" using unsigned_less [of "data_size f", where 'a = nat] by simp
  then have lb: "length bs < 2 ^ 32" using l by simp
  let ?n = "of_nat (length bs) :: u32"
  note rs = ready_str [OF lb r]
  have n: "unat ?n = length bs" "uint ?n = int (length bs)" using rs(2) by (simp_all add: uint_nat)
  have n1: "unat (?n + 1) = length bs + 1" using n l d by (simp add: unat_word_ariths)
  have u: "unat (ucast (data_size f) :: u32) = unat (data_size f)"
    using d by (simp add: unsigned_ucast_eq take_bit_nat_eq_self)
  have c: "\<not> ?n + 1 < ?n" "\<not> ?n + 1 > ucast (data_size f)"
    using n n1 u l by (simp_all add: word_less_nat_alt)
  let ?v = "varint_bytes (ucast ?n)"
  have r2: "ready ?v s" "ready bs (adv (length ?v) s)" using rs(1) unfolding ready_append by simp_all
  have v: "rdm pb_decode_varint32 (s, m) = Val ?n (adv (length ?v) s, m)"
    by (rule rdm_reads [OF reads_varint32 r2(1)])
  have b: "rdm (pb_read ?n) (adv (length ?v) s, m) = Val bs (adv (length bs) (adv (length ?v) s), m)"
    using rs(2) by (intro rdm_reads [OF reads_read r2(2)]) simp
  have len: "length (str_bytes bs) = length ?v + length bs"
    using lb by (simp add: str_bytes_def unsigned_of_nat take_bit_nat_eq_self)
  show ?thesis
    unfolding pb_dec_string_def seqm_def v
    using c at b by (simp add: pb_consts Let_def n adv_adv len)
qed

lemma decode_required_static:
  assumes c: "carries f v" and nb: "\<forall>bs. v \<noteq> FBytes bs" and f: "cur it = f" "it_pData it = a"
    and r: "ready (val_bytes f v) s"
  shows "decode_field env defaults noinit (field_wt f) it (s, m) =
    Val () (adv (length (val_bytes f v)) s, val_effect a v at m)"
proof -
  have at: "PB_ATYPE (fd_type f) = PB_ATYPE_STATIC" using c nb by (cases v) auto
  have req: "PB_HTYPE (fd_type f) = PB_HTYPE_REQUIRED"
    using carries_required [OF c] by (simp add: is_required_def)
  have "decode_field env defaults noinit (field_wt f) it (s, m) =
      PB_DECODERS defaults noinit (PB_LTYPE (fd_type f)) f a (s, m)"
    using at req f by (simp add: decode_field_def decode_static_field_def Let_def)
  also have "\<dots> = Val () (adv (length (val_bytes f v)) s, val_effect a v at m)"
  proof (cases v)
    case (FInt w)
    then show ?thesis using c r by (simp add: dec_int)
  next
    case (FStr bs)
    then show ?thesis using c r
      by (simp add: PB_DECODERS_def pb_consts dec_string [unfolded pb_consts])
  qed (use nb in auto)
  finally show ?thesis .
qed

section \<open>Where the fields are stored\<close>

text \<open>\<open>b\<close> gives the bundler of each byte field. A value is stored in its member or in its bundler; the
  bundlers lie outside the struct and apart from each other.\<close>

definition region :: "pb_field list \<Rightarrow> fval list \<Rightarrow> int \<Rightarrow> (nat \<Rightarrow> int) \<Rightarrow> nat \<Rightarrow> int set" where
  "region fs vs dest b i =
     (case vs ! i of
        FBytes _ \<Rightarrow> {b i ..< b i + 8}
      | _ \<Rightarrow> {field_addr fs dest i ..< field_addr fs dest i + uint (data_size (fs ! i))})"

definition member :: "pb_field list \<Rightarrow> int \<Rightarrow> nat \<Rightarrow> int set" where
  "member fs dest i = {field_addr fs dest i ..< field_addr fs dest i + uint (data_size (fs ! i))}"

definition is_bytes :: "fval \<Rightarrow> bool" where
  "is_bytes v \<longleftrightarrow> (case v of FBytes _ \<Rightarrow> True | _ \<Rightarrow> False)"

definition sinks :: "pb_field list \<Rightarrow> fval list \<Rightarrow> int \<Rightarrow> (nat \<Rightarrow> int) \<Rightarrow> bool" where
  "sinks fs vs dest b \<longleftrightarrow> (\<forall>i<length fs. is_bytes (vs ! i) \<longrightarrow>
     field_addr fs dest i \<noteq> 0 \<and>
     (\<forall>j<length fs. {b i ..< b i + 8} \<inter> member fs dest j = {} \<and>
        (is_bytes (vs ! j) \<and> i \<noteq> j \<longrightarrow> {b i ..< b i + 8} \<inter> {b j ..< b j + 8} = {})))"

text \<open>The callback members point to the reader and to the bundlers.\<close>

definition armed :: "u32 \<Rightarrow> pb_field list \<Rightarrow> fval list \<Rightarrow> int \<Rightarrow> (nat \<Rightarrow> int) \<Rightarrow> cmem \<Rightarrow> bool" where
  "armed gb fs vs dest b m \<longleftrightarrow> (\<forall>i<length fs. is_bytes (vs ! i) \<longrightarrow>
     callback_funcs m (field_addr fs dest i) = gb \<and> load_ptr m (field_addr fs dest i + 4) = b i)"

definition carried :: "pb_field list \<Rightarrow> fval list \<Rightarrow> bool" where
  "carried fs vs \<longleftrightarrow> length vs = length fs \<and> (\<forall>i<length fs. carries (fs ! i) (vs ! i))"

definition message_items :: "pb_field list \<Rightarrow> fval list \<Rightarrow> item list" where
  "message_items fs vs = map (\<lambda>i. (i, val_bytes (fs ! i) (vs ! i))) [0..<length fs]"

definition encoding :: "pb_field list \<Rightarrow> fval list \<Rightarrow> u8 list" where
  "encoding fs vs = message_bytes fs (\<lambda>i. field_wt (fs ! i)) (message_items fs vs)"

lemma carries_single: "carries f v \<Longrightarrow> single f"
  by (cases v) (auto simp: single_def is_required_def pb_consts)

lemma carried_single: "carried fs vs \<Longrightarrow> \<forall>f\<in>set fs. single f"
  by (metis carried_def carries_single in_set_conv_nth)

lemma members_disjoint:
  assumes "flat fs" and "carried fs vs" and "i < length fs" and "j < length fs" and "i \<noteq> j"
  shows "member fs dest i \<inter> member fs dest j = {}"
proof -
  note mono = field_addr_mono [OF assms(1) carried_single [OF assms(2)]]
  show ?thesis
  proof (cases "i < j")
    case True
    then show ?thesis using mono [OF True assms(4), of dest] by (auto simp: member_def)
  next
    case False
    then have ji: "j < i" using assms(5) by simp
    show ?thesis using mono [OF ji assms(3), of dest] by (auto simp: member_def)
  qed
qed

lemma region_member: "\<not> is_bytes (vs ! i) \<Longrightarrow> region fs vs dest b i = member fs dest i"
  by (cases "vs ! i") (auto simp: region_def member_def is_bytes_def)

lemma region_bundler: "is_bytes (vs ! i) \<Longrightarrow> region fs vs dest b i = {b i ..< b i + 8}"
  by (cases "vs ! i") (auto simp: region_def is_bytes_def)

lemma regions_disjoint:
  assumes "flat fs" and "carried fs vs" and "sinks fs vs dest b" and "i < length fs" and "j < length fs" and "i \<noteq> j"
  shows "region fs vs dest b i \<inter> region fs vs dest b j = {}"
proof -
  have sink: "{b k ..< b k + 8} \<inter> member fs dest l = {}"
      "is_bytes (vs ! l) \<Longrightarrow> k \<noteq> l \<Longrightarrow> {b k ..< b k + 8} \<inter> {b l ..< b l + 8} = {}"
    if "is_bytes (vs ! k)" "k < length fs" "l < length fs" for k l
    using assms(3) that unfolding sinks_def by blast+
  consider "\<not> is_bytes (vs ! i)" "\<not> is_bytes (vs ! j)" | "is_bytes (vs ! i)" "\<not> is_bytes (vs ! j)"
    | "\<not> is_bytes (vs ! i)" "is_bytes (vs ! j)" | "is_bytes (vs ! i)" "is_bytes (vs ! j)" by blast
  then show ?thesis
  proof cases
    case 1
    then show ?thesis using members_disjoint [OF assms(1,2,4-6), of dest] by (simp add: region_member)
  next
    case 2
    then show ?thesis using sink(1) [OF 2(1) assms(4,5)] by (simp add: region_member region_bundler)
  next
    case 3
    then show ?thesis
      using sink(1) [OF 3(2) assms(5,4)] by (simp add: region_member region_bundler Int_commute)
  next
    case 4
    then show ?thesis using sink(2) [OF 4(1) assms(4,5) 4(2) assms(6)] by (simp add: region_bundler)
  qed
qed

lemma region_callback_disjoint:
  assumes "flat fs" and "carried fs vs" and "sinks fs vs dest b" and "i < length fs" and "j < length fs"
    and "is_bytes (vs ! j)"
  shows "region fs vs dest b i \<inter> member fs dest j = {}"
proof (cases "is_bytes (vs ! i)")
  case True
  then show ?thesis using assms(3-5) by (auto simp: region_bundler sinks_def)
next
  case False
  then have "i \<noteq> j" using assms(6) by auto
  then show ?thesis using False members_disjoint [OF assms(1,2,4,5), of dest] by (simp add: region_member)
qed

definition put_at :: "pb_field list \<Rightarrow> fval list \<Rightarrow> int \<Rightarrow> effect" where
  "put_at fs vs dest i p at = val_effect (field_addr fs dest i) (vs ! i) at"

lemma effect_frame:
  assumes c: "carries (fs ! i) (vs ! i)" and b: "is_bytes (vs ! i) \<longrightarrow> load_ptr m (field_addr fs dest i + 4) = b i"
    and x: "x \<notin> region fs vs dest b i"
  shows "put_at fs vs dest i p at m x = m x"
proof (cases "vs ! i")
  case (FInt w)
  then show ?thesis using c x by (auto simp: put_at_def region_def intro: store32_other)
next
  case (FStr bs)
  have "int (length bs) < uint (data_size (fs ! i))"
    using c FStr by (metis carries.simps(2) int_nat_eq of_nat_less_iff uint_nat)
  then show ?thesis using c x FStr by (auto simp: put_at_def region_def store8_def store_bytes_other)
next
  case (FBytes bs)
  then show ?thesis using b x
    by (auto simp: put_at_def region_def set_bundle_def is_bytes_def store32_other)
qed

lemma armed_effect:
  assumes fl: "flat fs" and c: "carried fs vs" and s: "sinks fs vs dest b" and i: "i < length fs"
    and a: "armed gb fs vs dest b m"
  shows "armed gb fs vs dest b (put_at fs vs dest i p at m)"
  unfolding armed_def
proof (intro allI impI)
  fix j assume j: "j < length fs" "is_bytes (vs ! j)"
  let ?m = "put_at fs vs dest i p at m" and ?a = "field_addr fs dest j"
  have ci: "carries (fs ! i) (vs ! i)" and cj: "carries (fs ! j) (vs ! j)" using c i j by (simp_all add: carried_def)
  have bi: "is_bytes (vs ! i) \<longrightarrow> load_ptr m (field_addr fs dest i + 4) = b i" using a i by (simp add: armed_def)
  have "data_size (fs ! j) = 8" using cj j(2) by (cases "vs ! j") (simp_all add: is_bytes_def)
  then have mem: "member fs dest j = {?a ..< ?a + 8}" by (simp add: member_def)
  have same: "?m x = m x" if "?a \<le> x" "x < ?a + 8" for x
  proof -
    have "x \<notin> region fs vs dest b i"
      using region_callback_disjoint [OF fl c s i j] that unfolding mem by auto
    then show ?thesis using ci bi by (intro effect_frame [where b = b]) simp_all
  qed
  have "load32 ?m ?a = load32 m ?a" "load32 ?m (?a + 4) = load32 m (?a + 4)"
    by (rule load32_cong, rule same; simp)+
  then show "callback_funcs ?m ?a = gb \<and> load_ptr ?m (?a + 4) = b j"
    using a j by (simp add: armed_def callback_funcs_def load_ptr_def)
qed

section \<open>A decoded message\<close>

definition stored :: "cmem \<Rightarrow> int \<Rightarrow> fval \<Rightarrow> int \<Rightarrow> int \<Rightarrow> bool" where
  "stored m a v bundle at \<longleftrightarrow>
     (case v of
        FInt w \<Rightarrow> load32 m a = w
      | FStr bs \<Rightarrow> load_bytes m a (length bs) = bs \<and> m (a + int (length bs)) = 0
      | FBytes bs \<Rightarrow> bundle_len m bundle = of_nat (length bs) \<and>
          bundle_ptr m bundle = of_int (at + int (length (varint_bytes (of_nat (length bs))))))"

text \<open>The address of the value of field \<open>i\<close> in an encoding that starts at \<open>pos\<close>.\<close>

definition value_pos :: "pb_field list \<Rightarrow> fval list \<Rightarrow> int \<Rightarrow> nat \<Rightarrow> int" where
  "value_pos fs vs pos i =
     pos + int (length (message_bytes fs (\<lambda>i. field_wt (fs ! i)) (take i (message_items fs vs)))) +
     int (length (item_tag fs (\<lambda>i. field_wt (fs ! i)) i))"

lemma stored_effect:
  assumes c: "carries (fs ! i) (vs ! i)" and b: "is_bytes (vs ! i) \<longrightarrow> load_ptr m (field_addr fs dest i + 4) = b i"
  shows "stored (put_at fs vs dest i p at m) (field_addr fs dest i) (vs ! i) (b i) at"
proof (cases "vs ! i")
  case (FInt w)
  then show ?thesis by (simp add: put_at_def stored_def)
next
  case (FStr bs)
  let ?a = "field_addr fs dest i"
  have "load_bytes (store8 (store_bytes m ?a bs) (?a + int (length bs)) 0) ?a (length bs) =
      load_bytes (store_bytes m ?a bs) ?a (length bs)"
    by (rule load_bytes_cong) (auto simp: store8_def)
  then show ?thesis using FStr by (simp add: put_at_def stored_def load_store_bytes) (simp add: store8_def)
next
  case (FBytes bs)
  then show ?thesis using b
    by (simp add: put_at_def stored_def set_bundle_def bundle_len_def bundle_ptr_def is_bytes_def
        load32_store32_other)
qed

lemma stored_cong:
  assumes c: "carries (fs ! i) (vs ! i)"
    and eq: "\<And>x. x \<in> region fs vs dest b i \<Longrightarrow> m' x = m x"
  shows "stored m' (field_addr fs dest i) (vs ! i) (b i) at \<longleftrightarrow> stored m (field_addr fs dest i) (vs ! i) (b i) at"
proof (cases "vs ! i")
  case (FInt w)
  have "load32 m' (field_addr fs dest i) = load32 m (field_addr fs dest i)"
    by (rule load32_cong, rule eq) (use c FInt in \<open>simp add: region_def\<close>)
  then show ?thesis using FInt by (simp add: stored_def)
next
  case (FStr bs)
  let ?a = "field_addr fs dest i"
  have "int (length bs) < uint (data_size (fs ! i))"
    using c FStr by (metis carries.simps(2) int_nat_eq of_nat_less_iff uint_nat)
  then have r: "{?a .. ?a + int (length bs)} \<subseteq> region fs vs dest b i" using FStr by (auto simp: region_def)
  have "load_bytes m' ?a (length bs) = load_bytes m ?a (length bs)"
    by (rule load_bytes_cong, rule eq) (use r in auto)
  moreover have "m' (?a + int (length bs)) = m (?a + int (length bs))" by (rule eq) (use r in auto)
  ultimately show ?thesis using FStr by (simp add: stored_def)
next
  case (FBytes bs)
  have "load32 m' (b i) = load32 m (b i)" "load32 m' (b i + 4) = load32 m (b i + 4)"
    by (rule load32_cong, rule eq, use FBytes in \<open>simp add: region_def\<close>)+
  then show ?thesis using FBytes by (simp add: stored_def bundle_len_def bundle_ptr_def)
qed

lemma run_items_frame:
  assumes fl: "flat fs" and c: "carried fs vs" and s: "sinks fs vs dest b"
  shows "\<lbrakk>\<forall>(j, p)\<in>set items. j < length fs; armed gb fs vs dest b m;
      \<forall>(j, p)\<in>set items. x \<notin> region fs vs dest b j\<rbrakk> \<Longrightarrow>
    run_items fs wt (put_at fs vs dest) pos items m x = m x"
proof (induction items arbitrary: pos m)
  case (Cons y items)
  obtain j p where y: "y = (j, p)" by force
  let ?at = "pos + int (length (item_tag fs wt j))"
  have j: "j < length fs" using Cons.prems(1) y by auto
  have "armed gb fs vs dest b (put_at fs vs dest j p ?at m)"
    by (rule armed_effect [OF fl c s j Cons.prems(2)])
  then have "run_items fs wt (put_at fs vs dest) (?at + int (length p)) items (put_at fs vs dest j p ?at m) x =
      put_at fs vs dest j p ?at m x"
    using Cons.prems by (intro Cons.IH) (auto simp: y)
  also have "\<dots> = m x"
    using Cons.prems c j by (intro effect_frame [where b = b]) (auto simp: y carried_def armed_def)
  finally show ?case by (simp add: y Let_def)
qed simp

lemma run_items_append:
  "run_items fs wt eff pos (xs @ ys) m =
    run_items fs wt eff (pos + int (length (message_bytes fs wt xs))) ys (run_items fs wt eff pos xs m)"
  by (induction xs arbitrary: pos m) (auto simp: message_bytes_def Let_def algebra_simps)

lemma run_items_armed:
  assumes fl: "flat fs" and c: "carried fs vs" and s: "sinks fs vs dest b"
  shows "\<lbrakk>\<forall>(j, p)\<in>set items. j < length fs; armed gb fs vs dest b m\<rbrakk> \<Longrightarrow>
    armed gb fs vs dest b (run_items fs wt (put_at fs vs dest) pos items m)"
proof (induction items arbitrary: pos m)
  case (Cons y items)
  then show ?case by (auto simp: Let_def intro!: Cons.IH armed_effect [OF fl c s])
qed simp

lemma run_items_stored:
  assumes fl: "flat fs" and c: "carried fs vs" and s: "sinks fs vs dest b" and a: "armed gb fs vs dest b m"
    and i: "i < length fs"
  shows "stored (run_items fs (\<lambda>i. field_wt (fs ! i)) (put_at fs vs dest) pos (message_items fs vs) m)
    (field_addr fs dest i) (vs ! i) (b i) (value_pos fs vs pos i)"
proof -
  let ?wt = "\<lambda>i. field_wt (fs ! i)" and ?xs = "message_items fs vs" and ?p = "val_bytes (fs ! i) (vs ! i)"
  let ?run = "run_items fs ?wt (put_at fs vs dest)"
  have sp: "?xs = take i ?xs @ (i, ?p) # drop (Suc i) ?xs"
    using i id_take_nth_drop [of i ?xs] by (simp add: message_items_def)
  have idx: "\<forall>(j, p)\<in>set (take i ?xs). j < length fs" "\<forall>(j, p)\<in>set (drop (Suc i) ?xs). j < length fs \<and> j \<noteq> i"
    by (auto simp: message_items_def dest!: in_set_takeD simp: drop_map drop_upt)
  let ?q = "pos + int (length (message_bytes fs ?wt (take i ?xs)))"
  let ?m1 = "?run pos (take i ?xs) m" and ?at = "value_pos fs vs pos i"
  let ?m2 = "put_at fs vs dest i ?p ?at ?m1"
  have a1: "armed gb fs vs dest b ?m1" by (rule run_items_armed [OF fl c s idx(1) a])
  have a2: "armed gb fs vs dest b ?m2" by (rule armed_effect [OF fl c s i a1])
  have ci: "carries (fs ! i) (vs ! i)" using c i by (simp add: carried_def)
  have "stored ?m2 (field_addr fs dest i) (vs ! i) (b i) ?at"
    using ci a1 i by (intro stored_effect) (auto simp: armed_def)
  moreover have run: "?run pos ?xs m = ?run (?at + int (length ?p)) (drop (Suc i) ?xs) ?m2"
    by (subst sp) (simp add: run_items_append value_pos_def Let_def)
  moreover have same: "?run (?at + int (length ?p)) (drop (Suc i) ?xs) ?m2 x = ?m2 x" if "x \<in> region fs vs dest b i" for x
  proof (rule run_items_frame [OF fl c s _ a2])
    show "\<forall>(j, p)\<in>set (drop (Suc i) ?xs). x \<notin> region fs vs dest b j"
      using idx(2) regions_disjoint [OF fl c s _ i] that by blast
  qed (use idx(2) in blast)
  ultimately show ?thesis
    unfolding run using stored_cong [of fs i vs dest b, OF ci same] by (simp only:)
qed

section \<open>Byte callbacks\<close>

text \<open>The contract of the two callbacks of byte fields: the writer emits the key and the bytes its
  bundler points to, the reader stores where the bytes are and how many, and takes them all.\<close>

locale byte_fields =
  fixes env :: "pb_istream pb_env" and wb gb :: u32
  assumes wb_nonnull: "wb \<noteq> 0" and gb_nonnull: "gb \<noteq> 0"
    and write_bytes: "wire_type_of (PB_LTYPE (fd_type f)) \<noteq> None \<Longrightarrow> length bs < 2 ^ 32 \<Longrightarrow>
        bundles m (load_ptr m arg) bs \<Longrightarrow>
        emits (cb_encode env wb m f arg) (tag_bytes (field_wt f) (fd_tag f) @ str_bytes bs)"
    and get_bytes: "is_rest s = bs @ r \<Longrightarrow> unat (bytes_left s) = length bs \<Longrightarrow>
        cb_decode env gb f arg (s, m) =
          Val () (adv (length bs) s, set_bundle (load_ptr m arg) (is_state s) (bytes_left s) m)"
begin

lemma emits_bytes_field:
  assumes c: "carries f (FBytes bs)" and h: "holds wb m a (FBytes bs)"
  shows "emits (encode_field env sub m f a) (tag_bytes (field_wt f) (fd_tag f) @ str_bytes bs)"
proof -
  have e: "encode_field env sub m f a = encode_callback_field env m f a"
    using c by (simp add: encode_field_def pb_consts)
  have w: "emits (cb_encode env wb m f (callback_arg a)) (tag_bytes (field_wt f) (fd_tag f) @ str_bytes bs)"
    using c h carries_wt [OF c] by (intro write_bytes) (simp_all add: callback_arg_def)
  have fn: "callback_funcs m a = wb" using h by simp
  show ?thesis
    unfolding e emits_def
  proof (intro allI impI)
    fix s assume "sane s (length (tag_bytes (field_wt f) (fd_tag f) @ str_bytes bs))"
    then show "if fits s (length (tag_bytes (field_wt f) (fd_tag f) @ str_bytes bs))
        then encode_callback_field env m f a s = Val () (put (tag_bytes (field_wt f) (fd_tag f) @ str_bytes bs) s)
        else no_val (encode_callback_field env m f a s)"
      using w fn wb_nonnull
      by (cases "cb_encode env wb m f (callback_arg a) s") (auto simp: emits_def encode_callback_field_def split: if_splits)
  qed
qed

lemma emits_field:
  assumes "carries f v" and "holds wb m a v"
  shows "emits (encode_field env sub m f a) (tag_bytes (field_wt f) (fd_tag f) @ val_bytes f v)"
  using emits_required_field [OF assms] emits_bytes_field [of f _ m a] assms by (cases v) auto

lemma emits_message:
  assumes fl: "flat fs" and c: "carried fs vs" and h: "\<forall>i<length fs. holds wb m (field_addr fs src i) (vs ! i)"
  shows "emits (pb_encode (Suc n) env m fs src) (encoding fs vs)"
proof -
  let ?each = "\<lambda>f pData. if PB_LTYPE (fd_type f) = PB_LTYPE_EXTENSION
    then encode_extension_field n env (pb_encode n env m) m pData else encode_field env (pb_encode n env m) m f pData"
  let ?B = "\<lambda>i. tag_bytes (field_wt (fs ! i)) (fd_tag (fs ! i)) @ val_bytes (fs ! i) (vs ! i)"
  have len: "0 < length fs" using fl by (simp add: flat_def)
  have e: "emits (?each (fs ! i) (field_addr fs src i)) (?B i)" if "i < length fs" for i
    using that flatD(3) [OF fl that] c h by (simp add: emits_field carried_def)
  have "fields_head fs = fs ! 0" using len by (cases fs) (simp_all add: fields_head_def)
  then have "fst (pb_field_iter_begin fs src)" using flatD(1) [OF fl len] by (simp add: pb_field_iter_begin_def Let_def)
  then have "pb_encode (Suc n) env m fs src = enc_fields ?each (iter_at fs src 0)"
    by (auto simp: iter_at.simps(1) split: prod.split)
  moreover have "encoding fs vs = concat (map ?B [0..<length fs])"
    by (simp add: encoding_def message_bytes_def message_items_def item_tag_def comp_def)
  ultimately show ?thesis using emits_fields [of fs ?each src ?B 0, OF fl e len] by simp
qed

lemma emits_delimited:
  assumes "flat fs" and "carried fs vs" and "\<forall>i<length fs. holds wb m (field_addr fs src i) (vs ! i)"
    and "length (encoding fs vs) < 2 ^ 32"
  shows "emits (pb_encode_submessage (pb_encode (Suc n) env m) fs src) (str_bytes (encoding fs vs))"
  unfolding str_bytes_def using emits_message [OF assms(1-3)] assms(4) by (intro emits_submessage)

lemma decode_bytes_field:
  assumes c: "carries f (FBytes bs)" and f: "cur it = f" "it_pData it = a" and a: "a \<noteq> 0" "callback_funcs m a = gb"
    and r: "ready (str_bytes bs) s"
  shows "decode_field env defaults noinit (field_wt f) it (s, m) =
    Val () (adv (length (str_bytes bs)) s, val_effect a (FBytes bs) (is_state s) m)"
proof -
  let ?n = "of_nat (length bs) :: u32"
  have l: "length bs < 2 ^ 32" and at: "PB_ATYPE (fd_type f) = PB_ATYPE_CALLBACK" using c by simp_all
  have wt: "field_wt f = PB_WT_STRING" using c by (auto simp: field_wt_def wire_type_of_def pb_consts)
  note rs = ready_str [OF l r]
  let ?v = "varint_bytes (ucast ?n)"
  have v: "?v = varint_bytes (of_nat (length bs))" using l by (simp add: unsigned_of_nat take_bit_nat_eq_self)
  let ?s = "adv (length ?v) s"
  let ?sub = "?s\<lparr>bytes_left := ?n\<rparr>"
  note mk = make_substream [OF rs]
  obtain q where q: "is_rest ?sub = bs @ q"
    using rs(1) unfolding ready_append by (auto simp: ready_def)
  have call: "cb_decode env gb f (callback_arg a) (?sub, m) =
      Val () (adv (length bs) ?sub, set_bundle (load_ptr m (a + 4)) (is_state ?s) ?n m)"
    using get_bytes [OF q, of f "callback_arg a" m] rs(2) by (simp add: callback_arg_def)
  have z: "bytes_left (adv (length bs) ?sub) = 0" using rs(2) by simp
  have "decode_field env defaults noinit (field_wt f) it (s, m) = decode_callback_field env PB_WT_STRING it (s, m)"
    using at f wt by (simp add: decode_field_def pb_consts)
  also have "\<dots> = Val () (adv (length (?v @ bs)) s, set_bundle (load_ptr m (a + 4)) (is_state ?s) ?n m)"
    using a gb_nonnull f mk call z
    by (simp add: decode_callback_field_def Let_def seqm_def rdm_def pb_close_string_substream_def rs(2) [symmetric])
      (simp add: adv_def add.commute add.left_commute diff_diff_eq)
  finally show ?thesis by (simp add: v str_bytes_def)
qed

lemma message_item_ok:
  assumes fl: "flat fs" and c: "carried fs vs" and s: "sinks fs vs dest b" and i: "i < length fs"
  shows "item_ok (decode_field env defaults noinit) fs dest (\<lambda>i. field_wt (fs ! i)) (put_at fs vs dest)
    (armed gb fs vs dest b) (i, val_bytes (fs ! i) (vs ! i))"
proof -
  let ?p = "val_bytes (fs ! i) (vs ! i)"
  have ci: "carries (fs ! i) (vs ! i)" using c i by (simp add: carried_def)
  have "decode_field env defaults noinit (field_wt (fs ! i)) (iter_at fs dest i) (t, m) =
      Val () (adv (length ?p) t, put_at fs vs dest i ?p (is_state t) m)"
    if "ready ?p t" "armed gb fs vs dest b m" for t m
  proof (cases "is_bytes (vs ! i)")
    case True
    then obtain bs where v: "vs ! i = FBytes bs" by (cases "vs ! i") (auto simp: is_bytes_def)
    have "field_addr fs dest i \<noteq> 0" "callback_funcs m (field_addr fs dest i) = gb"
      using True s i that(2) by (auto simp: sinks_def armed_def)
    then show ?thesis
      using decode_bytes_field [of "fs ! i" bs "iter_at fs dest i" "field_addr fs dest i" m t] ci that(1)
      by (simp add: v cur_iter_at fl i field_addr_def put_at_def)
  next
    case False
    then have "\<forall>bs. vs ! i \<noteq> FBytes bs" by (auto simp: is_bytes_def)
    from decode_required_static [OF ci this, of "iter_at fs dest i" "field_addr fs dest i" t env defaults noinit m "is_state t"]
    show ?thesis using that(1) by (simp add: cur_iter_at fl i field_addr_def put_at_def)
  qed
  then show ?thesis
    using i field_wt_small [OF carries_wt [OF ci]] armed_effect [OF fl c s i] by (simp add: item_ok_def)
qed

lemma defaults_flat:
  assumes fl: "flat fs" and c: "carried fs vs" and s: "sinks fs vs dest b" and n: "\<forall>f\<in>set fs. fd_ptr f = Pb_Null"
  shows "\<lbrakk>i < length fs; armed gb fs vs dest b m\<rbrakk> \<Longrightarrow>
    \<exists>m'. defaults_loop (pb_field_set_to_default k env defaults) (iter_at fs dest i) m = Some m' \<and>
      armed gb fs vs dest b m' \<and> (\<forall>x. (\<forall>j<length fs. x \<notin> member fs dest j) \<longrightarrow> m' x = m x)"
proof (induction "length fs - i" arbitrary: i m)
  case (Suc l)
  have i: "i < length fs" by fact
  let ?f = "fs ! i" and ?a = "field_addr fs dest i"
  let ?m = "if is_bytes (vs ! i) then m else store_bytes m ?a (replicate (unat (data_size ?f)) 0)"
  have ci: "carries ?f (vs ! i)" using c i by (simp add: carried_def)
  have req: "PB_HTYPE (fd_type ?f) = PB_HTYPE_REQUIRED" using carries_required [OF ci] by (simp add: is_required_def)
  have p: "fd_ptr ?f = Pb_Null" using n i by simp
  have each: "pb_field_set_to_default k env defaults (iter_at fs dest i) m = Some ?m"
    using flatD(3) [OF fl i] ci req p
    by (cases "vs ! i")
       (auto simp: pb_field_set_to_default_def set_plain_default_def store_default_def cur_iter_at fl i is_bytes_def
          field_addr_def pb_consts int_type_def Let_def)
  have fr: "?m x = m x" if "x \<notin> member fs dest i" for x
    using that by (auto simp: member_def store_bytes_other)
  have a: "armed gb fs vs dest b ?m"
  proof (cases "is_bytes (vs ! i)")
    case False
    show ?thesis
      unfolding armed_def
    proof (intro allI impI)
      fix j assume j: "j < length fs" "is_bytes (vs ! j)"
      have cj: "carries (fs ! j) (vs ! j)" using c j by (simp add: carried_def)
      have "data_size (fs ! j) = 8" using cj j(2) by (cases "vs ! j") (simp_all add: is_bytes_def)
      then have mem: "member fs dest j = {field_addr fs dest j ..< field_addr fs dest j + 8}" by (simp add: member_def)
      have "i \<noteq> j" using False j(2) by auto
      note dj = members_disjoint [OF fl c i j(1) this, of dest]
      have same: "?m x = m x" if "field_addr fs dest j \<le> x" "x < field_addr fs dest j + 8" for x
        using dj that unfolding mem by (intro fr) auto
      have "load32 ?m (field_addr fs dest j) = load32 m (field_addr fs dest j)"
        "load32 ?m (field_addr fs dest j + 4) = load32 m (field_addr fs dest j + 4)"
        by (rule load32_cong, rule same; simp)+
      then show "callback_funcs ?m (field_addr fs dest j) = gb \<and> load_ptr ?m (field_addr fs dest j + 4) = b j"
        using Suc.prems(2) j by (simp add: armed_def callback_funcs_def load_ptr_def)
    qed
  qed (use Suc.prems in simp)
  show ?case
  proof (cases "Suc i < length fs")
    case True
    have l: "l = length fs - Suc i" using Suc.hyps(2) by simp
    obtain m' where "defaults_loop (pb_field_set_to_default k env defaults) (iter_at fs dest (Suc i)) ?m = Some m'"
        "armed gb fs vs dest b m'" "\<forall>x. (\<forall>j<length fs. x \<notin> member fs dest j) \<longrightarrow> m' x = ?m x"
      using Suc.hyps(1) [OF l True a] by blast
    then show ?thesis
      using fr i by (subst defaults_loop.simps) (simp only: each iter_next_at [OF fl i] True, auto)
  next
    case False
    then show ?thesis
      using fr i a by (subst defaults_loop.simps) (simp only: each iter_next_at [OF fl i] False, auto)
  qed
qed simp

text \<open>\<open>value_pos\<close> is relative to the start of the message, behind its length and the unknown fields.\<close>

lemma decode_with_junk:
  assumes fl: "flat fs" and c: "carried fs vs" and s: "sinks fs vs dest b" and n: "\<forall>f\<in>set fs. fd_ptr f = Pb_Null"
    and a: "armed gb fs vs dest b m" and u: "unknown fs us" and l: "length (junk us @ encoding fs vs) < 2 ^ 32"
    and r: "ready (str_bytes (junk us @ encoding fs vs)) t"
  shows "\<exists>m'. pb_decode_delimited (Suc k) env fs dest (t, m) =
      Val () (adv (length (str_bytes (junk us @ encoding fs vs))) t, m') \<and>
    (\<forall>i<length fs. stored m' (field_addr fs dest i) (vs ! i) (b i)
       (value_pos fs vs (is_state t + int (length (varint_bytes (of_nat (length (junk us @ encoding fs vs)))) +
          length (junk us))) i)) \<and>
    (\<forall>x. (\<forall>j<length fs. x \<notin> member fs dest j \<and> x \<notin> region fs vs dest b j) \<longrightarrow> m' x = m x)"
proof -
  let ?e = "junk us @ encoding fs vs" and ?wt = "\<lambda>i. field_wt (fs ! i)" and ?xs = "message_items fs vs"
  let ?n = "of_nat (length ?e) :: u32"
  have len: "0 < length fs" using fl by (simp add: flat_def)
  obtain m1 where d: "defaults_loop (pb_field_set_to_default k env (pb_message_set_to_defaults k env))
        (iter_at fs dest 0) m = Some m1"
      and a1: "armed gb fs vs dest b m1"
      and f1: "\<forall>x. (\<forall>j<length fs. x \<notin> member fs dest j) \<longrightarrow> m1 x = m x"
    using defaults_flat [OF fl c s n len a, of k "pb_message_set_to_defaults k env"] by blast
  have "fields_head fs = fs ! 0" using len by (cases fs) (simp_all add: fields_head_def)
  then have "fst (pb_field_iter_begin fs dest)" using flatD(1) [OF fl len] by (simp add: pb_field_iter_begin_def Let_def)
  then have defs: "pb_message_set_to_defaults (Suc k) env fs dest m = Some m1"
    using d by (auto simp: iter_at.simps(1) split: prod.split)
  note rs = ready_str [OF l r]
  let ?v = "varint_bytes (ucast ?n)"
  have v: "?v = varint_bytes (of_nat (length ?e))" by (simp only: ucast_of_nat_64 [OF l])
  let ?s = "(adv (length ?v) t)\<lparr>bytes_left := ?n\<rparr>"
  obtain q where q: "is_rest ?s = junk us @ message_bytes fs ?wt ?xs @ q"
    using rs(1) unfolding ready_append [of ?v] by (auto simp: ready_def encoding_def)
  have left: "unat (bytes_left ?s) = length (junk us @ message_bytes fs ?wt ?xs)" using rs(2) by (simp add: encoding_def)
  have ok: "list_all (item_ok (decode_field env (pb_message_set_to_defaults k env) (pb_decode_noinit k env)) fs dest ?wt
      (put_at fs vs dest) (armed gb fs vs dest b)) ?xs"
    by (auto simp: list_all_iff message_items_def intro: message_item_ok [OF fl c s])
  have comp: "complete fs ?xs" by (force simp: complete_def message_items_def)
  let ?m = "run_items fs ?wt (put_at fs vs dest) (is_state ?s + int (length (junk us))) ?xs m1"
  have "pb_decode (Suc k) env fs dest (?s, m) = Val () (adv (length ?e) ?s, ?m)"
    using noinit_body_items [OF fl ok comp a1 u q left]
    by (simp add: pb_decode_def seqm_def run_defaults_def defs encoding_def
        del: pb_message_set_to_defaults.simps)
  then have dec: "pb_decode_delimited (Suc k) env fs dest (t, m) = Val () (adv (length (?v @ ?e)) t, ?m)"
    unfolding pb_decode_delimited_def by (intro in_substream_val rs)
  have st: "stored ?m (field_addr fs dest i) (vs ! i) (b i) (value_pos fs vs (is_state ?s + int (length (junk us))) i)"
    if "i < length fs" for i
    by (rule run_items_stored [OF fl c s a1 that])
  have fr: "?m x = m x" if x: "\<forall>j<length fs. x \<notin> member fs dest j \<and> x \<notin> region fs vs dest b j" for x
  proof -
    have "?m x = m1 x"
      by (rule run_items_frame [OF fl c s _ a1]) (use x in \<open>auto simp: message_items_def\<close>)
    then show ?thesis using f1 x by auto
  qed
  show ?thesis
    using dec st fr by (intro exI [of _ ?m]) (simp add: v str_bytes_def add.assoc del: length_append)
qed

lemma decode_message:
  assumes fl: "flat fs" and c: "carried fs vs" and s: "sinks fs vs dest b" and n: "\<forall>f\<in>set fs. fd_ptr f = Pb_Null"
    and a: "armed gb fs vs dest b m" and l: "length (encoding fs vs) < 2 ^ 32"
    and r: "ready (str_bytes (encoding fs vs)) t"
  shows "\<exists>m'. pb_decode_delimited (Suc k) env fs dest (t, m) = Val () (adv (length (str_bytes (encoding fs vs))) t, m') \<and>
    (\<forall>i<length fs. stored m' (field_addr fs dest i) (vs ! i) (b i)
       (value_pos fs vs (is_state t + int (length (varint_bytes (of_nat (length (encoding fs vs)))))) i)) \<and>
    (\<forall>x. (\<forall>j<length fs. x \<notin> member fs dest j \<and> x \<notin> region fs vs dest b j) \<longrightarrow> m' x = m x)"
  using decode_with_junk [OF fl c s n a, of "[]" t k] l r by (simp add: unknown_def junk_def)

end

end
