(* ===== verification/Pb_Robust.thy ===== *)
theory Pb_Robust
  imports Pb_Message
begin

text \<open>
  The decoder on arbitrary input. A stream is \<open>sound\<close> when it may not read past the bytes of its
  buffer. \<open>rsafe r Q\<close> says that the reader \<open>r\<close> returns on every sound stream, true or false, having only
  moved forward, and that \<open>Q\<close> holds of what it returns; \<open>safe I d Q\<close> says the same of a decoder and
  that it keeps the invariant \<open>I\<close> of the memory. Both are closed under sequencing, so that whole
  messages are treated field by field.
\<close>

named_theorems rsafe_intros \<open>readers on arbitrary input\<close>
named_theorems safe_intros \<open>decoders on arbitrary input\<close>

section \<open>Readers\<close>

definition sound :: "pb_istream \<Rightarrow> bool" where
  "sound s \<longleftrightarrow> unat (bytes_left s) \<le> length (is_rest s)"

definition steps :: "pb_istream \<Rightarrow> pb_istream \<Rightarrow> bool" where
  "steps s s' \<longleftrightarrow> (\<exists>n e. n \<le> unat (bytes_left s) \<and> s' = (adv n s)\<lparr>is_errmsg := e\<rparr>)"

definition rout :: "pb_istream \<Rightarrow> ('a \<Rightarrow> bool) \<Rightarrow> ('a, pb_istream) pb_out \<Rightarrow> bool" where
  "rout s Q r \<longleftrightarrow>
     (case r of Stuck \<Rightarrow> False | Fail s' \<Rightarrow> steps s s' | Val a s' \<Rightarrow> steps s s' \<and> Q a)"

definition rsafe :: "'a rd \<Rightarrow> ('a \<Rightarrow> bool) \<Rightarrow> bool" where
  "rsafe r Q \<longleftrightarrow> (\<forall>s. sound s \<longrightarrow> rout s Q (r s))"

lemma rout_simps [simp]:
  "\<not> rout s Q Stuck" "rout s Q (Fail s') \<longleftrightarrow> steps s s'" "rout s Q (Val a s') \<longleftrightarrow> steps s s' \<and> Q a"
  by (simp_all add: rout_def)

lemma steps_refl [simp]: "steps s s"
  unfolding steps_def by (intro exI [of _ 0] exI [of _ "is_errmsg s"]) (simp add: adv_def)

lemma steps_errmsg [simp]: "steps s (s'\<lparr>is_errmsg := e\<rparr>) \<longleftrightarrow> steps s s'"
proof
  assume "steps s (s'\<lparr>is_errmsg := e\<rparr>)"
  then obtain n e' where n: "n \<le> unat (bytes_left s)" and "s'\<lparr>is_errmsg := e\<rparr> = (adv n s)\<lparr>is_errmsg := e'\<rparr>"
    unfolding steps_def by blast
  then have "s' = (adv n s)\<lparr>is_errmsg := is_errmsg s'\<rparr>" by (cases s, cases s') (simp add: adv_def)
  then show "steps s s'" using n unfolding steps_def by blast
next
  assume "steps s s'"
  then obtain n e' where n: "n \<le> unat (bytes_left s)" and "s' = (adv n s)\<lparr>is_errmsg := e'\<rparr>"
    unfolding steps_def by blast
  then have "s'\<lparr>is_errmsg := e\<rparr> = (adv n s)\<lparr>is_errmsg := e\<rparr>" by simp
  then show "steps s (s'\<lparr>is_errmsg := e\<rparr>)" using n unfolding steps_def by blast
qed

lemma steps_adv: "n \<le> unat (bytes_left s) \<Longrightarrow> steps s (adv n s)"
  unfolding steps_def by (intro exI [of _ n] exI [of _ "is_errmsg s"]) (simp add: adv_def)

lemma steps_left: "steps s s' \<Longrightarrow> unat (bytes_left s') \<le> unat (bytes_left s)"
  by (auto simp: steps_def unat_minus_of_nat)

lemma steps_trans: "steps s t \<Longrightarrow> steps t u \<Longrightarrow> steps s u"
proof -
  assume "steps s t" "steps t u"
  then obtain n e m e' where n: "n \<le> unat (bytes_left s)" "t = (adv n s)\<lparr>is_errmsg := e\<rparr>"
      and m: "m \<le> unat (bytes_left t)" "u = (adv m t)\<lparr>is_errmsg := e'\<rparr>"
    unfolding steps_def by blast
  have "m \<le> unat (bytes_left s) - n" using m(1) n by (simp add: unat_minus_of_nat)
  moreover have "u = (adv (n + m) s)\<lparr>is_errmsg := e'\<rparr>"
    using m(2) n(2) by (simp add: adv_def add.commute diff_diff_eq)
  ultimately show ?thesis using n(1) unfolding steps_def by (intro exI [of _ "n + m"] exI [of _ e']) simp
qed

lemma steps_sound: "steps s s' \<Longrightarrow> sound s \<Longrightarrow> sound s'"
  by (auto simp: steps_def sound_def unat_minus_of_nat)

lemma rout_weaken: "rout s Q r \<Longrightarrow> (\<And>a. Q a \<Longrightarrow> R a) \<Longrightarrow> rout s R r"
  by (cases r) auto

lemma rout_from: "steps s t \<Longrightarrow> rout t Q r \<Longrightarrow> rout s Q r"
  by (cases r) (auto intro: steps_trans)

lemma rsafe_weaken: "rsafe r Q \<Longrightarrow> (\<And>a. Q a \<Longrightarrow> R a) \<Longrightarrow> rsafe r R"
  by (auto simp: rsafe_def intro: rout_weaken)

lemma rsafe_seqm [rsafe_intros]:
  assumes "rsafe r Q" and "\<And>a. Q a \<Longrightarrow> rsafe (g a) R"
  shows "rsafe (seqm r g) R"
  unfolding rsafe_def
proof (intro allI impI)
  fix s assume s: "sound s"
  then have "rout s Q (r s)" using assms(1) by (simp add: rsafe_def)
  then show "rout s R (seqm r g s)"
    using assms(2) s by (cases "r s") (auto simp: seqm_def rsafe_def intro: rout_from steps_sound)
qed

lemma rsafe_return [rsafe_intros]: "Q a \<Longrightarrow> rsafe (Val a) Q"
  by (simp add: rsafe_def)

lemma rsafe_fail [rsafe_intros]: "rsafe Fail Q"
  by (simp add: rsafe_def)

lemma rsafe_error [rsafe_intros]: "rsafe (is_error msg) Q"
  by (simp add: rsafe_def is_error_def)

lemma rsafe_if [rsafe_intros]: "(c \<Longrightarrow> rsafe r Q) \<Longrightarrow> (\<not> c \<Longrightarrow> rsafe r' Q) \<Longrightarrow> rsafe (if c then r else r') Q"
  by simp

lemma read_sound:
  assumes "sound s"
  shows "pb_read n s = (if bytes_left s < n then is_error ''end-of-stream'' s
    else Val (take (unat n) (is_rest s)) (adv (unat n) s))"
proof (cases "bytes_left s < n")
  case False
  then have "unat n \<le> length (is_rest s)" using assms by (simp add: sound_def word_less_nat_alt)
  then show ?thesis using False by (simp add: pb_read_def buf_read_def adv_def)
qed (simp add: pb_read_def)

lemma rsafe_read [rsafe_intros]: "rsafe (pb_read n) (\<lambda>bs. length bs = unat n)"
  unfolding rsafe_def
  by (auto simp: read_sound is_error_def sound_def word_less_nat_alt intro: steps_adv)

lemma rsafe_read_null [rsafe_intros]: "rsafe (pb_read_null n) (\<lambda>_. True)"
  unfolding pb_read_null_def by (rule rsafe_seqm [OF rsafe_read]) (simp add: rsafe_return)

lemma readbyte_sound:
  assumes "sound s"
  shows "pb_readbyte s = (if bytes_left s = 0 then is_error ''end-of-stream'' s else Val (is_rest s ! 0) (adv 1 s))"
proof (cases "bytes_left s = 0")
  case False
  then have "0 < unat (bytes_left s)" by (simp add: unat_gt_0)
  then have "1 \<le> length (is_rest s)" using assms by (simp add: sound_def)
  then show ?thesis using False by (auto simp: pb_readbyte_def buf_read_def adv_def)
qed (simp add: pb_readbyte_def)

lemma readbyte_out: "sound s \<Longrightarrow> rout s (\<lambda>_. True) (pb_readbyte s)"
  by (auto simp: readbyte_sound is_error_def intro!: steps_adv simp: Suc_le_eq unat_gt_0)

lemma varint_rd_out: "sound s \<Longrightarrow> rout s (\<lambda>_. True) (varint_rd_loop bp r s)"
proof (induction bp r s rule: varint_rd_loop.induct)
  case (1 bp r s)
  show ?case
    using readbyte_out [OF 1(2)] 1(1) steps_sound [OF _ 1(2)]
    by (subst varint_rd_loop.simps)
       (auto simp: is_error_def Let_def split: pb_out.split intro: rout_from)
qed

lemma rsafe_varint [rsafe_intros]: "rsafe pb_decode_varint (\<lambda>_. True)"
  by (simp add: rsafe_def pb_decode_varint_def varint_rd_out)

lemma varint32_out: "sound s \<Longrightarrow> rout s (\<lambda>_. True) (varint32_loop r bp s)"
proof (induction r bp s rule: varint32_loop.induct)
  case (1 r bp s)
  show ?case
    using readbyte_out [OF 1(2)] 1(1) steps_sound [OF _ 1(2)]
    by (subst varint32_loop.simps)
       (auto simp: is_error_def Let_def split: pb_out.split intro: rout_from)
qed

text \<open>A value that was decoded took at least one byte.\<close>

lemma varint32_eof_out:
  assumes "sound s"
  shows "rout s (\<lambda>_. True) (pb_decode_varint32_eof s)"
    and "pb_decode_varint32_eof s = Val (Some v, e) s' \<Longrightarrow> unat (bytes_left s') < unat (bytes_left s)"
proof -
  have "rout s (\<lambda>_. True) (pb_decode_varint32_eof s) \<and>
    (\<forall>v e s'. pb_decode_varint32_eof s = Val (Some v, e) s' \<longrightarrow> unat (bytes_left s') < unat (bytes_left s))"
  proof (cases "bytes_left s = 0")
    case True
    then show ?thesis by (simp add: pb_decode_varint32_eof_def readbyte_sound [OF assms] is_error_def)
  next
    case False
    then have pos: "1 \<le> unat (bytes_left s)" by (simp add: Suc_le_eq unat_gt_0)
    let ?t = "adv 1 s"
    have t: "steps s ?t" "sound ?t" using steps_adv [OF pos] steps_sound assms by auto
    have less: "unat (bytes_left ?t) < unat (bytes_left s)" using pos unat_minus_of_nat [OF pos] by simp
    have lt: "unat (bytes_left u) < unat (bytes_left s)" if "steps ?t u" for u
      using steps_left [OF that] less by linarith
    show ?thesis
      using False varint32_out [OF t(2), of "ucast (is_rest s ! 0 AND 0x7F)" 7] t less
      by (auto simp: pb_decode_varint32_eof_def readbyte_sound [OF assms] split: pb_out.split prod.split if_splits
          intro: steps_trans lt)
  qed
  then show "rout s (\<lambda>_. True) (pb_decode_varint32_eof s)"
    and "pb_decode_varint32_eof s = Val (Some v, e) s' \<Longrightarrow> unat (bytes_left s') < unat (bytes_left s)" by blast+
qed

lemma rsafe_varint32 [rsafe_intros]: "rsafe pb_decode_varint32 (\<lambda>_. True)"
  unfolding pb_decode_varint32_def
  by (rule rsafe_seqm [where Q = "\<lambda>_. True"])
     (auto simp: rsafe_def varint32_eof_out split: option.split)

lemma tag_out:
  assumes "sound s"
  shows "rout s (\<lambda>_. True) (pb_decode_tag s)"
    and "pb_decode_tag s = Val (True, r) s' \<Longrightarrow> unat (bytes_left s') < unat (bytes_left s)"
    and "pb_decode_tag s = Val (True, wt, tag, e) s' \<Longrightarrow> tag \<noteq> -1"
proof -
  show "rout s (\<lambda>_. True) (pb_decode_tag s)"
    and "pb_decode_tag s = Val (True, r) s' \<Longrightarrow> unat (bytes_left s') < unat (bytes_left s)"
    using varint32_eof_out [OF assms]
    by (auto simp: pb_decode_tag_def seqm_def split: pb_out.splits option.splits if_splits)
  have "drop_bit 3 (x :: u32) \<noteq> -1" for x
  proof
    assume "drop_bit 3 x = -1"
    then have "bit (drop_bit 3 x) 31" by simp
    then show False by (auto simp: bit_simps dest: bit_imp_le_length)
  qed
  then show "pb_decode_tag s = Val (True, wt, tag, e) s' \<Longrightarrow> tag \<noteq> -1"
    by (auto simp: pb_decode_tag_def seqm_def split: pb_out.splits option.splits if_splits)
qed

lemma skip_varint_out: "sound s \<Longrightarrow> rout s (\<lambda>_. True) (pb_skip_varint s)"
proof (induction s rule: pb_skip_varint.induct)
  case (1 s)
  have "rout s (\<lambda>_. True) (pb_read 1 s)"
    using rsafe_read [of 1] 1(2) by (auto simp: rsafe_def intro: rout_weaken)
  then show ?case
    using 1(1) steps_sound [OF _ 1(2)] by (subst pb_skip_varint.simps) (auto split: pb_out.split intro: rout_from)
qed

lemma rsafe_skip_string [rsafe_intros]: "rsafe pb_skip_string (\<lambda>_. True)"
  unfolding pb_skip_string_def by (rule rsafe_seqm [OF rsafe_varint32 rsafe_read_null])

lemma rsafe_skip_field [rsafe_intros]: "rsafe (pb_skip_field wt) (\<lambda>_. True)"
  unfolding pb_skip_field_def
  by (intro rsafe_intros) (simp add: rsafe_def skip_varint_out)

lemma rsafe_raw_varint: "length buf + n \<le> 10 \<Longrightarrow> rsafe (raw_varint_loop n buf) (\<lambda>bs. length bs \<le> 10)"
proof (induction n arbitrary: buf)
  case (Suc n)
  show ?case unfolding raw_varint_loop.simps
    by (rule rsafe_seqm [OF rsafe_read]) (use Suc in \<open>auto intro!: rsafe_if rsafe_return\<close>)
qed (simp add: rsafe_fail)

lemma rsafe_read_raw [rsafe_intros]: "rsafe (read_raw_value wt 10) (\<lambda>bs. length bs \<le> 10)"
  unfolding read_raw_value_def
  by (intro rsafe_if rsafe_error rsafe_raw_varint rsafe_weaken [OF rsafe_read]) simp_all

section \<open>Decoders\<close>

definition mout :: "(cmem \<Rightarrow> bool) \<Rightarrow> pb_istream \<Rightarrow> ('a \<Rightarrow> bool) \<Rightarrow> ('a, dec_state) pb_out \<Rightarrow> bool" where
  "mout I s Q r \<longleftrightarrow>
     (case r of Stuck \<Rightarrow> False | Fail st \<Rightarrow> steps s (fst st) \<and> I (snd st)
      | Val a st \<Rightarrow> steps s (fst st) \<and> I (snd st) \<and> Q a)"

definition safe :: "(cmem \<Rightarrow> bool) \<Rightarrow> (dec_state \<Rightarrow> ('a, dec_state) pb_out) \<Rightarrow> ('a \<Rightarrow> bool) \<Rightarrow> bool" where
  "safe I d Q \<longleftrightarrow> (\<forall>s m. sound s \<longrightarrow> I m \<longrightarrow> mout I s Q (d (s, m)))"

lemma mout_simps [simp]:
  "\<not> mout I s Q Stuck" "mout I s Q (Fail st) \<longleftrightarrow> steps s (fst st) \<and> I (snd st)"
  "mout I s Q (Val a st) \<longleftrightarrow> steps s (fst st) \<and> I (snd st) \<and> Q a"
  by (simp_all add: mout_def)

lemma mout_from: "steps s t \<Longrightarrow> mout I t Q r \<Longrightarrow> mout I s Q r"
  by (cases r) (auto intro: steps_trans)

lemma mout_weaken: "mout I s Q r \<Longrightarrow> (\<And>a. Q a \<Longrightarrow> R a) \<Longrightarrow> mout I s R r"
  by (cases r) auto

lemma mout_seqm:
  assumes "mout I s Q (d (s, m))" and "sound s"
    and "\<And>a t m'. \<lbrakk>Q a; steps s t; sound t; I m'\<rbrakk> \<Longrightarrow> mout I t R (g a (t, m'))"
  shows "mout I s R (seqm d g (s, m))"
proof (cases "d (s, m)")
  case (Val a st)
  then have "steps s (fst st)" "I (snd st)" "Q a" using assms(1) by simp_all
  then have "mout I (fst st) R (g a (fst st, snd st))" using assms(2,3) steps_sound by blast
  then show ?thesis using \<open>steps s (fst st)\<close> Val by (simp add: seqm_def mout_from)
qed (use assms(1) in \<open>simp_all add: seqm_def\<close>)

lemma safe_seqm [safe_intros]:
  "safe I d Q \<Longrightarrow> (\<And>a. Q a \<Longrightarrow> safe I (g a) R) \<Longrightarrow> safe I (seqm d g) R"
  unfolding safe_def by (blast intro: mout_seqm)

lemma safe_return [safe_intros]: "Q a \<Longrightarrow> safe I (Val a) Q"
  by (simp add: safe_def)

lemma safe_rdm [safe_intros]: "rsafe r Q \<Longrightarrow> safe I (rdm r) Q"
  by (auto simp: safe_def rsafe_def rdm_def rout_def split: pb_out.splits)

lemma safe_error [safe_intros]: "safe I (dec_error msg) Q"
  unfolding dec_error_def by (intro safe_rdm rsafe_error)

lemma safe_memop [safe_intros]: "(\<And>m. I m \<Longrightarrow> I (f m)) \<Longrightarrow> safe I (memop f) (\<lambda>_. True)"
  by (simp add: safe_def memop_def)

lemma safe_if [safe_intros]: "(c \<Longrightarrow> safe I d Q) \<Longrightarrow> (\<not> c \<Longrightarrow> safe I d' Q) \<Longrightarrow> safe I (if c then d else d') Q"
  by simp

text \<open>The substream of a string, and its end: the parent stream stands behind the string, however far
  the substream was read.\<close>

lemma make_substream_out:
  assumes "sound s"
  obtains (fail) s' where "pb_make_string_substream s = Fail s'" "steps s s'"
    | (sub) t n where "steps s t" "sound t" "n \<le> bytes_left t"
        "pb_make_string_substream s = Val (t\<lparr>bytes_left := n\<rparr>) (t\<lparr>bytes_left := bytes_left t - n\<rparr>)"
proof -
  have r: "rout s (\<lambda>_. True) (pb_decode_varint32 s)" using rsafe_varint32 assms by (simp add: rsafe_def)
  show ?thesis
  proof (cases "pb_decode_varint32 s")
    case (Fail s')
    then show ?thesis using r by (intro fail [of s']) (simp_all add: pb_make_string_substream_def seqm_def)
  next
    case (Val n t)
    then have t: "steps s t" "sound t" using r assms by (auto intro: steps_sound)
    show ?thesis
    proof (cases "bytes_left t < n")
      case True
      then have "pb_make_string_substream s =
          Fail (t\<lparr>is_errmsg := PB_SET_ERROR (is_errmsg t) ''parent stream too short''\<rparr>)"
        using Val by (simp add: pb_make_string_substream_def seqm_def is_error_def)
      then show ?thesis by (rule fail) (simp add: t)
    next
      case False
      then show ?thesis using Val t
        by (intro sub [of t n]) (simp_all add: pb_make_string_substream_def seqm_def)
    qed
  qed (use r in simp)
qed

lemma sub_sound: "sound t \<Longrightarrow> n \<le> bytes_left t \<Longrightarrow> sound (t\<lparr>bytes_left := n\<rparr>)"
  by (simp add: sound_def word_le_nat_alt)

lemma close_out:
  assumes t: "sound (t\<lparr>bytes_left := n\<rparr>)" and u: "steps (t\<lparr>bytes_left := n\<rparr>) u"
  shows "pb_close_string_substream u (t\<lparr>bytes_left := bytes_left t - n\<rparr>) =
    Val () ((adv (unat n) t)\<lparr>is_errmsg := is_errmsg u\<rparr>)"
proof -
  obtain k e where k: "k \<le> unat n" and uu: "u = (adv k (t\<lparr>bytes_left := n\<rparr>))\<lparr>is_errmsg := e\<rparr>"
    using u by (auto simp: steps_def)
  have su: "sound u" by (rule steps_sound [OF u t])
  have left: "unat (bytes_left u) = unat n - k" using k by (simp add: uu unat_minus_of_nat)
  have ku: "k + (unat n - k) = unat n" using k by simp
  have "(if bytes_left u \<noteq> 0 then pb_read_null (bytes_left u) u else Val () u) = Val () (adv (unat n - k) u)"
    using left by (auto simp: pb_read_null_def seqm_def read_sound [OF su] unat_eq_0)
  then have "pb_close_string_substream u (t\<lparr>bytes_left := bytes_left t - n\<rparr>) =
      (let v = adv (unat n - k) u in Val () (t\<lparr>bytes_left := bytes_left t - n, is_state := is_state v,
        is_rest := is_rest v, is_errmsg := is_errmsg v\<rparr>))"
    unfolding pb_close_string_substream_def by (simp only: pb_out.case Let_def)
  also have "\<dots> = Val () ((adv (unat n) t)\<lparr>is_errmsg := is_errmsg u\<rparr>)"
    using ku k by (simp add: Let_def uu adv_def)
  finally show ?thesis .
qed

lemma safe_in_substream [safe_intros]:
  assumes "safe I d (\<lambda>_. True)"
  shows "safe I (in_substream d) (\<lambda>_. True)"
  unfolding safe_def
proof (intro allI impI)
  fix s m assume s: "sound s" and m: "I m"
  show "mout I s (\<lambda>_. True) (in_substream d (s, m))"
  proof (cases rule: make_substream_out [OF s])
    case (1 s')
    then show ?thesis using m by (simp add: in_substream_def seqm_def rdm_def)
  next
    case sub: (2 t n)
    let ?t = "t\<lparr>bytes_left := n\<rparr>" and ?p = "t\<lparr>bytes_left := bytes_left t - n\<rparr>"
    have o: "mout I ?t (\<lambda>_. True) (d (?t, m))" using assms sub_sound [OF sub(2,3)] m by (simp add: safe_def)
    have e: "in_substream d (s, m) = close_with (d (?t, m)) ?p"
      using sub(4) by (simp add: in_substream_def seqm_def rdm_def)
    have fin: "steps s ((adv (unat n) t)\<lparr>is_errmsg := e\<rparr>)" for e
      using sub(1,3) by (auto intro: steps_trans steps_adv simp: word_le_nat_alt)
    show ?thesis
      using o close_out [OF sub_sound [OF sub(2,3)]] fin unfolding e
      by (cases "d (?t, m)") (auto simp: close_with_def rdm_def seqm_def)
  qed
qed

section \<open>Fields\<close>

text \<open>\<open>I\<close> absorbs writes to the addresses \<open>A\<close>.\<close>

definition absorbs :: "(cmem \<Rightarrow> bool) \<Rightarrow> int set \<Rightarrow> bool" where
  "absorbs I A \<longleftrightarrow> (\<forall>m m'. I m \<longrightarrow> (\<forall>x. x \<notin> A \<longrightarrow> m' x = m x) \<longrightarrow> I m')"

lemma absorbsD: "absorbs I A \<Longrightarrow> I m \<Longrightarrow> (\<And>x. x \<notin> A \<Longrightarrow> m' x = m x) \<Longrightarrow> I m'"
  unfolding absorbs_def by blast

lemma safe_int_field:
  assumes a: "absorbs I {dest ..< dest + 4}" and t: "int_type lt" and d: "data_size f = 4"
  shows "safe I (PB_DECODERS defaults noinit lt f dest) (\<lambda>_. True)"
proof -
  have st: "I (store32 m dest v)" if "I m" for m v
    using a that by (rule absorbsD) (simp add: store32_other)
  have cl: "safe I (store_clamped w8 w16 w32 f dest v) (\<lambda>_. True)" for w8 w16 w32 v
    unfolding store_clamped_def Let_def
    by (simp only: d) (auto intro!: safe_seqm [OF safe_memop] safe_error safe_return st)
  have "safe I (pb_dec_varint f dest) (\<lambda>_. True)" "safe I (pb_dec_uvarint f dest) (\<lambda>_. True)"
    unfolding pb_dec_varint_def pb_dec_uvarint_def Let_def
    by (rule safe_seqm [OF safe_rdm [OF rsafe_varint]], rule cl)+
  moreover have "safe I (pb_dec_svarint f dest) (\<lambda>_. True)"
    unfolding pb_dec_svarint_def pb_decode_svarint_def
    by (rule safe_seqm [OF safe_rdm [OF rsafe_seqm [OF rsafe_varint rsafe_return [where Q = "\<lambda>_. True", OF TrueI]]]], rule cl)
  moreover have "safe I (pb_dec_fixed32 f dest) (\<lambda>_. True)"
    unfolding pb_dec_fixed32_def pb_decode_fixed32_def
    by (rule safe_seqm [OF safe_rdm [OF rsafe_seqm [OF rsafe_read rsafe_return [where Q = "\<lambda>_. True", OF TrueI]]]],
        rule safe_memop, rule st)
  ultimately show ?thesis using t by (auto simp: PB_DECODERS_def int_type_def pb_consts)
qed

lemma safe_string_field:
  assumes a: "absorbs I {dest ..< dest + uint (data_size f)}" and t: "PB_ATYPE (fd_type f) = PB_ATYPE_STATIC"
  shows "safe I (pb_dec_string f dest) (\<lambda>_. True)"
proof -
  have body: "mout I s (\<lambda>_. True) (case rdm (pb_read n) (s, m) of
        Stuck \<Rightarrow> Stuck
      | Fail (s, m) \<Rightarrow> Fail (s, store8 m (dest + uint n) 0)
      | Val bs (s, m) \<Rightarrow> Val () (s, store8 (store_bytes m dest bs) (dest + uint n) 0))"
    if s: "sound s" and m: "I m" and o: "\<not> n + 1 < n" and l: "\<not> n + 1 > ucast (data_size f)" for s m and n :: u32
  proof -
    have "uint (ucast (data_size f) :: u32) = uint (data_size f)"
      using uint_lt2p [of "data_size f"] by (simp add: unsigned_ucast_eq take_bit_int_eq_self)
    moreover have "uint (n + 1) = uint n + 1"
      using o uint_plus_simple [of n 1] by (simp add: not_less)
    ultimately have n: "0 \<le> uint n" "uint n < uint (data_size f)"
      using l by (simp_all add: word_less_def)
    have "I (store8 m (dest + uint n) 0)"
      by (rule absorbsD [OF a m]) (use n in \<open>auto simp: store8_def\<close>)
    moreover have "I (store8 (store_bytes m dest bs) (dest + uint n) 0)" if "length bs = unat n" for bs
      by (rule absorbsD [OF a m]) (use n that in \<open>auto simp: store8_def store_bytes_other\<close>)
    moreover have "rout s (\<lambda>bs. length bs = unat n) (pb_read n s)" using rsafe_read s by (simp add: rsafe_def)
    ultimately show ?thesis by (cases "pb_read n s") (auto simp: rdm_def)
  qed
  show ?thesis
    unfolding pb_dec_string_def Let_def
    by (rule safe_seqm [OF safe_rdm [OF rsafe_varint32]])
       (use t in \<open>auto simp: safe_def body pb_consts intro!: safe_error [unfolded safe_def, rule_format]\<close>)
qed

section \<open>Messages\<close>

text \<open>The memory keeps the armed callback members and every byte outside the struct and the bundlers.\<close>

definition kept ::
    "u32 \<Rightarrow> pb_field list \<Rightarrow> fval list \<Rightarrow> int \<Rightarrow> (nat \<Rightarrow> int) \<Rightarrow> cmem \<Rightarrow> cmem \<Rightarrow> bool" where
  "kept gb fs vs dest b m0 m \<longleftrightarrow> armed gb fs vs dest b m \<and>
     (\<forall>x. (\<forall>j<length fs. x \<notin> member fs dest j \<and> x \<notin> region fs vs dest b j) \<longrightarrow> m x = m0 x)"

lemma kept_absorbs:
  assumes fl: "flat fs" and c: "carried fs vs" and s: "sinks fs vs dest b" and i: "i < length fs"
  shows "absorbs (kept gb fs vs dest b m0) (region fs vs dest b i)"
  unfolding absorbs_def
proof (intro allI impI)
  fix m m' assume k: "kept gb fs vs dest b m0 m" and e: "\<forall>x. x \<notin> region fs vs dest b i \<longrightarrow> m' x = m x"
  have "armed gb fs vs dest b m'"
    unfolding armed_def
  proof (intro allI impI)
    fix j assume j: "j < length fs" "is_bytes (vs ! j)"
    let ?a = "field_addr fs dest j"
    have cj: "carries (fs ! j) (vs ! j)" using c j by (simp add: carried_def)
    have "data_size (fs ! j) = 8" using cj j(2) by (cases "vs ! j") (simp_all add: is_bytes_def)
    then have mem: "member fs dest j = {?a ..< ?a + 8}" by (simp add: member_def)
    have same: "m' x = m x" if "?a \<le> x" "x < ?a + 8" for x
      using region_callback_disjoint [OF fl c s i j] that e unfolding mem by auto
    have "load32 m' ?a = load32 m ?a" "load32 m' (?a + 4) = load32 m (?a + 4)"
      by (rule load32_cong, rule same; simp)+
    then show "callback_funcs m' ?a = gb \<and> load_ptr m' (?a + 4) = b j"
      using k j by (simp add: kept_def armed_def callback_funcs_def load_ptr_def)
  qed
  then show "kept gb fs vs dest b m0 m'" using k e i by (simp add: kept_def)
qed

lemma safe_static:
  assumes c: "carries f v" and v: "\<not> is_bytes v" and f: "cur it = f" "it_pData it = a"
    and I: "absorbs I {a ..< a + uint (data_size f)}"
  shows "safe I (decode_field env defaults noinit wt it) (\<lambda>_. True)"
proof -
  have "safe I (PB_DECODERS defaults noinit (PB_LTYPE (fd_type f)) f a) (\<lambda>_. True)"
  proof (cases v)
    case (FInt w)
    then show ?thesis using c I by (intro safe_int_field) simp_all
  next
    case (FStr bs)
    then have "PB_DECODERS defaults noinit (PB_LTYPE (fd_type f)) f a = pb_dec_string f a"
      using c by (simp add: PB_DECODERS_def pb_consts)
    then show ?thesis using safe_string_field [OF I] c FStr by simp
  qed (use v in \<open>simp add: is_bytes_def\<close>)
  moreover have "PB_HTYPE (fd_type f) = PB_HTYPE_REQUIRED" "PB_ATYPE (fd_type f) = PB_ATYPE_STATIC"
    using c v carries_required [OF c] by (cases v; simp add: is_required_def is_bytes_def)+
  ultimately show ?thesis
    unfolding decode_field_def decode_static_field_def by (simp add: f pb_consts Let_def)
qed

context byte_fields
begin

lemma call_sound:
  assumes "sound s"
  shows "cb_decode env gb f arg (s, m) =
    Val () (adv (unat (bytes_left s)) s, set_bundle (load_ptr m arg) (is_state s) (bytes_left s) m)"
proof -
  let ?bs = "take (unat (bytes_left s)) (is_rest s)"
  have l: "length ?bs = unat (bytes_left s)" using assms by (simp add: sound_def)
  show ?thesis
    using get_bytes [of s ?bs "drop (unat (bytes_left s)) (is_rest s)" f arg m] l by simp
qed

lemma safe_callback:
  assumes v: "is_bytes (vs ! i)" and i: "i < length fs"
    and f: "it_pData it = field_addr fs dest i" "PB_ATYPE (fd_type (cur it)) = PB_ATYPE_CALLBACK"
    and fl: "flat fs" and c: "carried fs vs" and s: "sinks fs vs dest b"
  shows "safe (kept gb fs vs dest b m0) (decode_field env defaults noinit wt it) (\<lambda>_. True)"
  unfolding safe_def
proof (intro allI impI)
  let ?a = "field_addr fs dest i" and ?I = "kept gb fs vs dest b m0"
  let ?call = "cb_decode env gb (cur it) (callback_arg ?a)"
  fix t m assume t: "sound t" and m: "?I m"
  have a: "?a \<noteq> 0" using s v i by (simp add: sinks_def)
  have fn: "callback_funcs m ?a = gb" "load_ptr m (callback_arg ?a) = b i"
    using m v i by (simp_all add: kept_def armed_def callback_arg_def)
  have st: "?I (set_bundle (b i) p n m)" for p n
  proof (rule absorbsD [OF kept_absorbs [OF fl c s i] m])
    fix x assume "x \<notin> region fs vs dest b i"
    then show "set_bundle (b i) p n m x = m x"
      using v by (auto simp: region_bundler set_bundle_def store32_other)
  qed
  have df: "decode_field env defaults noinit wt it (t, m) = decode_callback_field env wt it (t, m)"
    using f by (simp add: decode_field_def pb_consts)
  show "mout ?I t (\<lambda>_. True) (decode_field env defaults noinit wt it (t, m))"
  proof (cases "wt = PB_WT_STRING")
    case True
    show ?thesis
    proof (cases rule: make_substream_out [OF t])
      case (1 s')
      then show ?thesis
        using a fn gb_nonnull m unfolding df
        by (simp add: decode_callback_field_def f True seqm_def rdm_def)
    next
      case (2 u n)
      let ?u = "u\<lparr>bytes_left := n\<rparr>"
      have su: "sound ?u" by (rule sub_sound [OF 2(2,3)])
      have z: "bytes_left (adv (unat n) ?u) = 0" by simp
      have loop: "callback_loop (Suc (unat n)) ?call (?u, m) =
          Val True (adv (unat n) ?u, set_bundle (b i) (is_state ?u) n m)"
        using call_sound [OF su, of "cur it" "callback_arg ?a" m] z fn by simp
      have cl: "pb_close_string_substream (adv (unat n) ?u) (u\<lparr>bytes_left := bytes_left u - n\<rparr>) =
          Val () ((adv (unat n) u)\<lparr>is_errmsg := is_errmsg u\<rparr>)"
        using close_out [OF su steps_adv] by simp
      have "decode_callback_field env wt it (t, m) =
          Val () ((adv (unat n) u)\<lparr>is_errmsg := is_errmsg u\<rparr>, set_bundle (b i) (is_state ?u) n m)"
        using a fn gb_nonnull loop cl
        by (simp add: decode_callback_field_def f True seqm_def rdm_def 2(4) Let_def del: callback_loop.simps)
      then show ?thesis
        unfolding df using st 2(1,3) by (auto intro: steps_trans steps_adv simp: word_le_nat_alt)
    qed
  next
    case False
    have r: "rout t (\<lambda>bs. length bs \<le> 10) (read_raw_value wt 10 t)" using rsafe_read_raw t by (simp add: rsafe_def)
    show ?thesis
    proof (cases "read_raw_value wt 10 t")
      case (Val bs u)
      have "sound (pb_istream_from_buffer (raw_buffer env) bs (of_nat (length bs)))"
        using r Val by (simp add: sound_def pb_istream_from_buffer_def unat_of_nat)
      note call = call_sound [OF this, of "cur it" "callback_arg ?a" m]
      show ?thesis
        using r Val a fn gb_nonnull st call False unfolding df
        by (simp add: decode_callback_field_def f seqm_def rdm_def Let_def)
    qed (use r a fn gb_nonnull m False in \<open>simp_all add: df decode_callback_field_def f seqm_def rdm_def\<close>)
  qed
qed

lemma safe_field:
  assumes fl: "flat fs" and c: "carried fs vs" and s: "sinks fs vs dest b" and i: "i < length fs"
  shows "safe (kept gb fs vs dest b m0) (decode_field env defaults noinit wt (iter_at fs dest i)) (\<lambda>_. True)"
proof (cases "is_bytes (vs ! i)")
  case True
  then have "PB_ATYPE (fd_type (fs ! i)) = PB_ATYPE_CALLBACK"
    using c i by (cases "vs ! i") (auto simp: carried_def is_bytes_def dest!: spec [of _ i])
  then show ?thesis
    using True i fl c s by (intro safe_callback) (simp_all add: field_addr_def cur_iter_at)
next
  case False
  have "carries (fs ! i) (vs ! i)" using c i by (simp add: carried_def)
  moreover have "absorbs (kept gb fs vs dest b m0)
      {field_addr fs dest i ..< field_addr fs dest i + uint (data_size (fs ! i))}"
    using kept_absorbs [OF fl c s i, of gb m0] False by (simp add: region_member member_def)
  ultimately show ?thesis
    using False by (intro safe_static) (simp_all add: cur_iter_at fl i field_addr_def)
qed

lemma safe_turn:
  assumes fl: "flat fs" and c: "carried fs vs" and s: "sinks fs vs dest b" and i: "i < length fs"
    and tag: "tag \<noteq> -1"
  shows "safe (kept gb fs vs dest b m0)
    (noinit_turn n env (decode_field env defaults noinit) wt tag (seen, ext, iter_at fs dest i))
    (\<lambda>(_, _, it). \<exists>j<length fs. it = iter_at fs dest j)"
proof (cases "\<exists>j<length fs. ucast (fd_tag (fs ! j)) = tag")
  case True
  then obtain j where j: "j < length fs" "tag = ucast (fd_tag (fs ! j))" by blast
  have "noinit_turn n env (decode_field env defaults noinit) wt tag (seen, ext, iter_at fs dest i) =
      seqm (decode_field env defaults noinit wt (iter_at fs dest j))
        (\<lambda>_. Val (mark_seen (iter_at fs dest j) seen, ext, iter_at fs dest j))"
    by (rule ext) (simp add: noinit_turn_def j iter_find_known [OF fl i])
  then show ?thesis
    using j by (auto intro!: safe_seqm [OF safe_field [OF fl c s]] safe_return)
next
  case False
  then have u: "pb_field_iter_find (iter_at fs dest i) tag = (False, iter_at fs dest i)"
    by (intro iter_find_unknown [OF fl i]) (auto simp: in_set_conv_nth)
  have "\<not> tag \<ge> -1" using tag word_order.extremum_unique by blast
  then have "noinit_turn n env (decode_field env defaults noinit) wt tag (seen, ext, iter_at fs dest i) =
      seqm (rdm (pb_skip_field wt))
        (\<lambda>_. Val (seen, if tag \<ge> ext then -1 else ext, iter_at fs dest i))"
    by (intro ext) (simp add: noinit_turn_def u find_extension_flat [OF fl i])
  then show ?thesis
    using i by (auto intro!: safe_seqm [OF safe_rdm [OF rsafe_skip_field]] safe_return)
qed

lemma loop_out:
  assumes fl: "flat fs" and c: "carried fs vs" and s: "sinks fs vs dest b"
  shows "\<lbrakk>i < length fs; sound t; kept gb fs vs dest b m0 m; unat (bytes_left t) < k\<rbrakk> \<Longrightarrow>
    mout (kept gb fs vs dest b m0) t (\<lambda>(_, _, it). \<exists>j<length fs. it = iter_at fs dest j)
      (noinit_loop k n env (decode_field env defaults noinit) (seen, ext, iter_at fs dest i) (t, m))"
proof (induction k arbitrary: seen ext i t m)
  case (Suc k)
  let ?I = "kept gb fs vs dest b m0" and ?field = "decode_field env defaults noinit"
  let ?Q = "\<lambda>(_ :: u32 list, _ :: u32, it). \<exists>j<length fs. it = iter_at fs dest j"
  note tag = tag_out [OF Suc.prems(2)]
  show ?case
  proof (cases "bytes_left t = 0")
    case True
    then show ?thesis using Suc.prems by auto
  next
    case False
    show ?thesis
    proof (cases "pb_decode_tag t")
      case (Val r u)
      obtain ok wt tg eof where r: "r = (ok, wt, tg, eof)" by (cases r)
      have u: "steps t u" "sound u" using tag(1) Val Suc.prems(2) by (auto intro: steps_sound)
      show ?thesis
      proof (cases ok)
        case True
        have less: "unat (bytes_left u) < k" and "tg \<noteq> -1"
          using tag(2,3) Val Suc.prems(4) by (auto simp: r True)
        from safe_turn [OF fl c s Suc.prems(1) this(2), of m0 n defaults noinit wt seen ext]
        have o: "mout ?I u ?Q (noinit_turn n env ?field wt tg (seen, ext, iter_at fs dest i) (u, m))"
          using u(2) Suc.prems(3) by (simp add: safe_def)
        have "mout ?I u ?Q (seqm (noinit_turn n env ?field wt tg (seen, ext, iter_at fs dest i))
            (noinit_loop k n env ?field) (u, m))"
          using o u(2)
        proof (rule mout_seqm)
          fix ns v m' assume "?Q ns" "steps u v" "sound v" "?I m'"
          then show "mout ?I v ?Q (noinit_loop k n env ?field ns (v, m'))"
            using Suc.IH less steps_left [of u v] by (cases ns) auto
        qed
        then show ?thesis using False Val u(1) by (simp add: seqm_def rdm_def r True mout_from)
      qed (use False Val u Suc.prems in \<open>auto simp: seqm_def rdm_def r\<close>)
    qed (use False tag(1) Suc.prems in \<open>simp_all add: seqm_def rdm_def\<close>)
  qed
qed simp

lemma safe_decode:
  assumes fl: "flat fs" and c: "carried fs vs" and s: "sinks fs vs dest b" and n: "\<forall>f\<in>set fs. fd_ptr f = Pb_Null"
  shows "safe (kept gb fs vs dest b m0) (pb_decode_delimited (Suc k) env fs dest) (\<lambda>_. True)"
proof -
  let ?I = "kept gb fs vs dest b m0"
  have len: "0 < length fs" using fl by (simp add: flat_def)
  have "fields_head fs = fs ! 0" using len by (cases fs) (simp_all add: fields_head_def)
  then have fst: "fst (pb_field_iter_begin fs dest)" using flatD(1) [OF fl len] by (simp add: pb_field_iter_begin_def Let_def)
  have "safe ?I (run_defaults (pb_message_set_to_defaults (Suc k) env) fs dest) (\<lambda>_. True)"
    unfolding safe_def
  proof (intro allI impI)
    fix t m assume m: "?I m"
    then have "armed gb fs vs dest b m" by (simp add: kept_def)
    from defaults_flat [OF fl c s n len this, of k "pb_message_set_to_defaults k env"]
    obtain m' where "defaults_loop (pb_field_set_to_default k env (pb_message_set_to_defaults k env)) (iter_at fs dest 0) m = Some m'"
        "armed gb fs vs dest b m'" "\<forall>x. (\<forall>j<length fs. x \<notin> member fs dest j) \<longrightarrow> m' x = m x" by blast
    then have "pb_message_set_to_defaults (Suc k) env fs dest m = Some m'" "?I m'"
      using fst m by (auto simp: iter_at.simps(1) kept_def split: prod.split)
    then show "mout ?I t (\<lambda>_. True) (run_defaults (pb_message_set_to_defaults (Suc k) env) fs dest (t, m))"
      by (simp add: run_defaults_def del: pb_message_set_to_defaults.simps)
  qed
  moreover have "safe ?I (pb_decode_noinit (Suc k) env fs dest) (\<lambda>_. True)"
    unfolding safe_def
  proof (intro allI impI)
    fix t m assume t: "sound t" and m: "?I m"
    have "mout ?I t (\<lambda>(_, _, it). \<exists>j<length fs. it = iter_at fs dest j)
        (noinit_loop (Suc (unat (bytes_left t))) k env
          (decode_field env (pb_message_set_to_defaults k env) (pb_decode_noinit k env))
          ([0, 0], 0, iter_at fs dest 0) (t, m))"
      by (rule loop_out [OF fl c s len t m]) simp
    then show "mout ?I t (\<lambda>_. True) (pb_decode_noinit (Suc k) env fs dest (t, m))"
      unfolding pb_decode_noinit.simps noinit_body_def iter_at.simps(1) [symmetric] fst_conv
      by (rule mout_seqm [OF _ t]) (auto simp: dec_error_def rdm_def is_error_def)
  qed
  ultimately show ?thesis
    unfolding pb_decode_delimited_def pb_decode_def
    by (intro safe_in_substream safe_seqm [where Q = "\<lambda>_. True"])
qed

end

end
