(* ===== verification/Pb_Schema.thy ===== *)
theory Pb_Schema
  imports Pb_Robust Pal_Heap
begin

text \<open>
  The data layouts of remote calls
  (\<^verbatim>\<open>src/middleware/components/data_schema/pb_schema.c\<close>, \<^verbatim>\<open>pb_schema.h\<close> and the descriptor tables of
  \<^verbatim>\<open>mblue.pb.c\<close>): the callbacks for byte fields, serialising a call into a heap block and reading it
  back, and the parsers that call a service function with the decoded arguments. Local structs of the
  C functions are at given addresses of the memory, with whatever bytes were there before.
\<close>

section \<open>Descriptor tables\<close>

text \<open>An \<^verbatim>\<open>int32_t\<close> member takes 4 bytes, a \<^verbatim>\<open>pb_callback_t\<close> member 8.\<close>

definition int32_first :: "u8 \<Rightarrow> pb_field" where
  "int32_first tag = PB_REQUIRED_STATIC tag 4 (PB_DATAOFFSET_FIRST 0) PB_LTYPE_VARINT Pb_Null"

definition int32_other :: "u8 \<Rightarrow> nat \<Rightarrow> nat \<Rightarrow> nat \<Rightarrow> pb_field" where
  "int32_other tag m prev prev_size =
     PB_REQUIRED_STATIC tag 4 (PB_DATAOFFSET_OTHER m prev prev_size) PB_LTYPE_VARINT Pb_Null"

definition bytes_other :: "u8 \<Rightarrow> nat \<Rightarrow> nat \<Rightarrow> nat \<Rightarrow> pb_field" where
  "bytes_other tag m prev prev_size =
     PB_REQUIRED_CALLBACK tag 8 (PB_DATAOFFSET_OTHER m prev prev_size) PB_LTYPE_BYTES Pb_Null"

definition dl_rpc_header_fields :: "pb_field list" where
  "dl_rpc_header_fields =
     [PB_REQUIRED_STATIC 1 32 (PB_DATAOFFSET_FIRST 0) PB_LTYPE_STRING Pb_Null, int32_other 2 32 0 32]"

definition dl_array_fields :: "pb_field list" where
  "dl_array_fields = [PB_REQUIRED_CALLBACK 1 8 (PB_DATAOFFSET_FIRST 0) PB_LTYPE_BYTES Pb_Null]"

definition dl_1_fields :: "pb_field list" where
  "dl_1_fields = [int32_first 1]"

definition dl_111_fields :: "pb_field list" where
  "dl_111_fields = [int32_first 1, int32_other 2 4 0 4, int32_other 3 8 4 4]"

definition dl_1111_fields :: "pb_field list" where
  "dl_1111_fields = [int32_first 1, int32_other 2 4 0 4, int32_other 3 8 4 4, int32_other 4 12 8 4]"

definition dl_12_fields :: "pb_field list" where
  "dl_12_fields = [int32_first 1, bytes_other 2 4 0 4]"

definition dl_112_fields :: "pb_field list" where
  "dl_112_fields = [int32_first 1, int32_other 2 4 0 4, bytes_other 3 8 4 4]"

definition dl_113_fields :: "pb_field list" where
  "dl_113_fields =
     [int32_first 1, int32_other 2 4 0 4,
      PB_REQUIRED_CALLBACK 3 8 (PB_DATAOFFSET_OTHER 8 4 4) PB_LTYPE_STRING Pb_Null]"

definition dl_1112_fields :: "pb_field list" where
  "dl_1112_fields =
     [int32_first 1, int32_other 2 4 0 4, int32_other 3 8 4 4, bytes_other 4 12 8 4]"

definition dl_mblue_message_fields :: "pb_field list" where
  "dl_mblue_message_fields =
     [PB_OPTIONAL_STATIC 1 4 0 4 (PB_DATAOFFSET_FIRST 4) PB_LTYPE_UVARINT Pb_Null,
      PB_REQUIRED_STATIC 2 4 (PB_DATAOFFSET_OTHER 8 4 4) PB_LTYPE_UVARINT Pb_Null,
      PB_REQUIRED_STATIC 3 4 (PB_DATAOFFSET_OTHER 12 8 4) PB_LTYPE_UVARINT Pb_Null,
      PB_OPTIONAL_CALLBACK 4 8 (PB_DATAOFFSET_OTHER 16 12 4) PB_LTYPE_BYTES Pb_Null,
      PB_OPTIONAL_CALLBACK 5 8 (PB_DATAOFFSET_OTHER 24 16 8) PB_LTYPE_BYTES Pb_Null,
      PB_REQUIRED_CALLBACK 6 8 (PB_DATAOFFSET_OTHER 32 24 8) PB_LTYPE_BYTES Pb_Null]"

definition dl_server_init_fields :: "pb_field list" where
  "dl_server_init_fields =
     [PB_REQUIRED_STATIC 1 16 (PB_DATAOFFSET_FIRST 0) PB_LTYPE_STRING Pb_Null,
      PB_REQUIRED_STATIC 2 16 (PB_DATAOFFSET_OTHER 16 0 16) PB_LTYPE_STRING Pb_Null,
      int32_other 3 32 16 16,
      PB_REQUIRED_STATIC 4 28 (PB_DATAOFFSET_OTHER 36 32 4) PB_LTYPE_STRING Pb_Null,
      PB_REQUIRED_STATIC 5 16 (PB_DATAOFFSET_OTHER 64 36 28) PB_LTYPE_STRING Pb_Null,
      PB_REQUIRED_STATIC 6 24 (PB_DATAOFFSET_OTHER 80 64 16) PB_LTYPE_STRING Pb_Null,
      PB_REQUIRED_STATIC 7 16 (PB_DATAOFFSET_OTHER 104 80 24) PB_LTYPE_STRING Pb_Null]"

definition dl_server_event_fields :: "pb_field list" where
  "dl_server_event_fields =
     [int32_first 1,
      PB_OPTIONAL_STATIC 2 8 4 4 (PB_DATAOFFSET_OTHER 8 0 4) PB_LTYPE_VARINT Pb_Null]"

definition dl_server_touch_fields :: "pb_field list" where
  "dl_server_touch_fields =
     [int32_first 1, int32_other 2 4 0 4, int32_other 3 8 4 4, int32_other 4 12 8 4,
      int32_other 5 16 12 4, int32_other 6 20 16 4, int32_other 7 24 20 4, int32_other 8 28 24 4]"

section \<open>Callbacks for byte fields\<close>

function drain_input_buffer :: "u32 \<Rightarrow> unit rd" where
  "drain_input_buffer count s =
     (if count > 16 then
        case pb_read 16 s of
          Stuck \<Rightarrow> Stuck | Fail s' \<Rightarrow> Fail s' | Val _ s' \<Rightarrow> drain_input_buffer (count - 16) s'
      else pb_read_null count s)"
  by pat_completeness auto
termination
  by (relation "measure (\<lambda>(c, _). unat c)") (auto simp: unat_sub word_le_nat_alt word_less_nat_alt)
declare drain_input_buffer.simps [simp del]

definition mblue_pb_write_bytes :: "cmem \<Rightarrow> pb_field \<Rightarrow> int \<Rightarrow> enc" where
  "mblue_pb_write_bytes m f arg =
     (let b = load_ptr m arg in
      seqm (pb_encode_tag_for_field f)
        (\<lambda>_. pb_encode_string (load_bytes m (uint (bundle_ptr m b)) (unat (bundle_len m b))) (bundle_len m b)))"

definition mblue_pb_get_bytes_pointer :: "pb_field \<Rightarrow> int \<Rightarrow> dec" where
  "mblue_pb_get_bytes_pointer f arg st =
     (let stream = fst st; bb = load_ptr (snd st) arg in
      seqm (memop (set_bundle bb (is_state stream) (bytes_left stream)))
        (\<lambda>_. rdm (drain_input_buffer (bytes_left stream))) st)"

text \<open>Function pointers are named by numbers in place of the addresses of the two functions.\<close>

definition FN_WRITE_BYTES :: u32 where "FN_WRITE_BYTES = 1"
definition FN_GET_BYTES :: u32 where "FN_GET_BYTES = 2"

definition schema_env :: "int \<Rightarrow> pb_istream pb_env" where
  "schema_env buf =
     \<lparr>cb_encode = (\<lambda>fn. if fn = FN_WRITE_BYTES then mblue_pb_write_bytes else (\<lambda>_ _ _ _. Stuck)),
      cb_decode = (\<lambda>fn. if fn = FN_GET_BYTES then mblue_pb_get_bytes_pointer else (\<lambda>_ _ _. Stuck)),
      ext_type_at = (\<lambda>_. \<lparr>xt_encode = Some (\<lambda>_ _ _. Stuck), xt_decode = Some (\<lambda>_ _ _ _. Stuck),
                          xt_arg = PB_LAST_FIELD\<rparr>),
      raw_buffer = buf\<rparr>"

text \<open>The layouts have neither submessages nor extensions: one level is enough fuel.\<close>

definition schema_depth :: nat where "schema_depth = 1"

section \<open>The table of layouts\<close>

text \<open>A parser gets the stream and the service function, which is called with words: integers, and
  pointers and lengths of byte arguments. What the function does to the rest of the system is a state
  \<open>w\<close> that the parser passes on. \<open>frame\<close> is the addresses of its locals, the decoded struct and the bundler.\<close>

type_synonym 'w service = "u32 list \<Rightarrow> 'w \<Rightarrow> (SMART_DATA \<times> 'w) option"
type_synonym frame = "int \<times> int"
type_synonym 'w parser =
  "pb_istream pb_env \<Rightarrow> frame \<Rightarrow> 'w service \<Rightarrow> dec_state \<Rightarrow> 'w \<Rightarrow> (SMART_DATA \<times> dec_state \<times> 'w) option"

definition call_service :: "'w service \<Rightarrow> u32 list \<Rightarrow> dec_state \<Rightarrow> 'w \<Rightarrow> (SMART_DATA \<times> dec_state \<times> 'w) option" where
  "call_service f args st w = map_option (\<lambda>(ret, w). (ret, st, w)) (f args w)"

text \<open>\<^verbatim>\<open>INIT_PB_DECODE_DATA_STRUCT\<close> with the callback member at offset \<open>d\<close>.\<close>

definition INIT_PB_DECODE_DATA_STRUCT :: "frame \<Rightarrow> int \<Rightarrow> cmem \<Rightarrow> cmem" where
  "INIT_PB_DECODE_DATA_STRUCT frame d m =
     (let (var, bundle) = frame;
          m1 = store32 (store32 m bundle 0) (bundle + 4) 0
      in store32 (store32 m1 (var + d) FN_GET_BYTES) (var + d + 4) (of_int bundle))"

text \<open>Decode the struct; on success call the function with the arguments \<open>args\<close> reads from it.\<close>

definition parse_call ::
    "pb_istream pb_env \<Rightarrow> pb_field list \<Rightarrow> (cmem \<Rightarrow> u32 list) \<Rightarrow> int \<Rightarrow> 'w service \<Rightarrow> dec_state \<Rightarrow> 'w \<Rightarrow>
      (SMART_DATA \<times> dec_state \<times> 'w) option" where
  "parse_call env fs args var f st w =
     (case pb_decode_delimited schema_depth env fs var st of
        Stuck \<Rightarrow> None
      | Fail st' \<Rightarrow> Some (MAKE_INTEGER (errcode_word MBLUE_ERR_PB_DECODE), st', w)
      | Val _ st' \<Rightarrow> call_service f (args (snd st')) st' w)"

definition simple_request_parser :: "'w parser" where
  "simple_request_parser env frame f st w = call_service f [] st w"

definition dl1_parser :: "'w parser" where
  "dl1_parser env frame f st w =
     (let var = fst frame in parse_call env dl_1_fields (\<lambda>m. [load32 m var]) var f st w)"

definition dl111_parser :: "'w parser" where
  "dl111_parser env frame f st w =
     (let var = fst frame in
      parse_call env dl_111_fields (\<lambda>m. [load32 m var, load32 m (var + 4), load32 m (var + 8)]) var f st w)"

definition dl1111_parser :: "'w parser" where
  "dl1111_parser env frame f st w =
     (let var = fst frame in
      parse_call env dl_1111_fields
        (\<lambda>m. [load32 m var, load32 m (var + 4), load32 m (var + 8), load32 m (var + 12)]) var f st w)"

definition dl_array_parser :: "'w parser" where
  "dl_array_parser env frame f st w =
     (let (var, bundle) = frame in
      parse_call env dl_array_fields (\<lambda>m. [load32 m (bundle + 4), load32 m bundle]) var f
        (fst st, INIT_PB_DECODE_DATA_STRUCT frame 0 (snd st)) w)"

definition dl12_parser :: "'w parser" where
  "dl12_parser env frame f st w =
     (let (var, bundle) = frame in
      parse_call env dl_12_fields (\<lambda>m. [load32 m var, load32 m (bundle + 4), load32 m bundle]) var f
        (fst st, INIT_PB_DECODE_DATA_STRUCT frame 4 (snd st)) w)"

definition dl112_parser :: "'w parser" where
  "dl112_parser env frame f st w =
     (let (var, bundle) = frame in
      parse_call env dl_112_fields
        (\<lambda>m. [load32 m var, load32 m (var + 4), load32 m (bundle + 4), load32 m bundle]) var f
        (fst st, INIT_PB_DECODE_DATA_STRUCT frame 8 (snd st)) w)"

definition dl113_parser :: "'w parser" where
  "dl113_parser env frame f st w =
     (let (var, bundle) = frame in
      parse_call env dl_113_fields
        (\<lambda>m. [load32 m var, load32 m (var + 4), load32 m (bundle + 4)]) var f
        (fst st, INIT_PB_DECODE_DATA_STRUCT frame 8 (snd st)) w)"

definition dl1112_parser :: "'w parser" where
  "dl1112_parser env frame f st w =
     (let (var, bundle) = frame in
      parse_call env dl_1112_fields
        (\<lambda>m. [load32 m var, load32 m (var + 4), load32 m (var + 8), load32 m (bundle + 4),
              load32 m bundle]) var f
        (fst st, INIT_PB_DECODE_DATA_STRUCT frame 12 (snd st)) w)"

datatype PB_TYPE_INDEX = PB_0 | PB_1 | PB_2 | PB_12 | PB_112 | PB_113 | PB_111 | PB_1111 | PB_1112

primrec pb_type_index :: "PB_TYPE_INDEX \<Rightarrow> u16" where
  "pb_type_index PB_0 = 0"
| "pb_type_index PB_1 = 1"
| "pb_type_index PB_2 = 2"
| "pb_type_index PB_12 = 3"
| "pb_type_index PB_112 = 4"
| "pb_type_index PB_113 = 5"
| "pb_type_index PB_111 = 6"
| "pb_type_index PB_1111 = 7"
| "pb_type_index PB_1112 = 8"

primrec layout_entry :: "PB_TYPE_INDEX \<Rightarrow> pb_field list option \<times> 'w parser" where
  "layout_entry PB_0 = (None, simple_request_parser)"
| "layout_entry PB_1 = (Some dl_1_fields, dl1_parser)"
| "layout_entry PB_2 = (Some dl_array_fields, dl_array_parser)"
| "layout_entry PB_12 = (Some dl_12_fields, dl12_parser)"
| "layout_entry PB_111 = (Some dl_111_fields, dl111_parser)"
| "layout_entry PB_112 = (Some dl_112_fields, dl112_parser)"
| "layout_entry PB_113 = (Some dl_113_fields, dl113_parser)"
| "layout_entry PB_1111 = (Some dl_1111_fields, dl1111_parser)"
| "layout_entry PB_1112 = (Some dl_1112_fields, dl1112_parser)"

text \<open>The array has one entry per enumerator, in the order of their numbers; an index past it is
  \<open>None\<close>.\<close>

definition mblue_pb_data_layout_array :: "(pb_field list option \<times> 'w parser) list" where
  "mblue_pb_data_layout_array =
     map layout_entry [PB_0, PB_1, PB_2, PB_12, PB_112, PB_113, PB_111, PB_1111, PB_1112]"

definition layout_at :: "u16 \<Rightarrow> (pb_field list option \<times> 'w parser) option" where
  "layout_at index =
     (let layouts = mblue_pb_data_layout_array
      in if unat index < length layouts then Some (layouts ! unat index) else None)"

definition mblue_pb_data_layout_get :: "u16 \<Rightarrow> pb_field list option option" where
  "mblue_pb_data_layout_get index = map_option fst (layout_at index :: (pb_field list option \<times> unit parser) option)"

definition mblue_pb_data_parser_get :: "u16 \<Rightarrow> 'w parser option" where
  "mblue_pb_data_parser_get index = map_option snd (layout_at index)"

text \<open>Whatever a parser does to the system is done by the one call of the function.\<close>

lemma parse_call_effect:
  "parse_call env fs args var f st w = Some (ret, st', w') \<Longrightarrow> w' = w \<or> (\<exists>as. f as w = Some (ret, w'))"
  by (auto simp: parse_call_def call_service_def split: pb_out.splits)

lemma parser_effect:
  fixes parser :: "'a parser"
  assumes "mblue_pb_data_parser_get index = Some parser" and "parser env frame f st w = Some (ret, st', w')"
  shows "w' = w \<or> (\<exists>as. f as w = Some (ret, w'))"
proof -
  let ?Ts = "[PB_0, PB_1, PB_2, PB_12, PB_112, PB_113, PB_111, PB_1111, PB_1112]"
  have l: "(mblue_pb_data_layout_array :: (pb_field list option \<times> 'a parser) list) = map layout_entry ?Ts"
    by (simp only: mblue_pb_data_layout_array_def)
  have "unat index < length ?Ts" "parser = snd (map layout_entry ?Ts ! unat index)"
    using assms(1) unfolding mblue_pb_data_parser_get_def layout_at_def l
    by (auto simp: Let_def simp del: list.map split: if_splits)
  then obtain T where "parser = snd (layout_entry T)" using nth_map by metis
  then show ?thesis
    using assms(2) by (cases T) (auto simp: Let_def simple_request_parser_def dl1_parser_def dl111_parser_def dl1111_parser_def
        dl_array_parser_def dl12_parser_def dl112_parser_def dl113_parser_def dl1112_parser_def call_service_def
        split: prod.splits dest!: parse_call_effect)
qed

section \<open>Serialising\<close>

text \<open>\<^verbatim>\<open>strncpy\<close>: the string up to its end, then zeros, \<open>n\<close> bytes in all.\<close>

primrec strncpy_bytes :: "nat \<Rightarrow> u8 list \<Rightarrow> u8 list" where
  "strncpy_bytes 0 src = []"
| "strncpy_bytes (Suc n) src =
     (case src of [] \<Rightarrow> 0 # strncpy_bytes n []
      | c # cs \<Rightarrow> if c = 0 then 0 # strncpy_bytes n [] else c # strncpy_bytes n cs)"

definition MAX_IPC_METHOD_NAME_LENGTH :: nat where "MAX_IPC_METHOD_NAME_LENGTH = 31"

text \<open>The bytes an encoder has written are stored at the start of its block.\<close>

definition put_block :: "nat \<Rightarrow> u8 list \<Rightarrow> mblue_heap \<Rightarrow> mblue_heap option" where
  "put_block p out hp =
     (case hblocks hp p of
        None \<Rightarrow> None
      | Some bs \<Rightarrow> if length out \<le> length bs
                  then Some (hp\<lparr>hblocks := (hblocks hp)(p \<mapsto> out @ drop (length out) bs)\<rparr>) else None)"

text \<open>The reading variant of the byte callback copies into a block of its own. A failed read is not
  reported: it returns true with a null pointer in the bundler.\<close>

definition mblue_pb_read_bytes ::
    "pb_field \<Rightarrow> int \<Rightarrow> mblue_heap \<Rightarrow> dec_state \<Rightarrow> ((unit, dec_state) pb_out \<times> mblue_heap) option" where
  "mblue_pb_read_bytes f arg hp st = do {
     let len = bytes_left (fst st);
     (p, hp) \<leftarrow> mblue_malloc (len + 1) hp;
     (if p = 0 then Some (Fail st, hp)
      else case pb_read len (fst st) of
             Stuck \<Rightarrow> None
           | Fail s \<Rightarrow> do {
               hp \<leftarrow> mblue_free p hp;
               Some (Val () (s, set_bundle (load_ptr (snd st) arg) 0 len (snd st)), hp) }
           | Val bs s \<Rightarrow> do {
               hp \<leftarrow> put_block p bs hp;
               Some (Val () (s, set_bundle (load_ptr (snd st) arg) (int p) len (snd st)), hp) })
   }"

definition encode_block :: "nat \<Rightarrow> enc \<Rightarrow> pb_ostream \<Rightarrow> mblue_heap \<Rightarrow> (bool \<times> pb_ostream \<times> mblue_heap) option" where
  "encode_block p e s hp =
     (case e s of
        Stuck \<Rightarrow> None
      | Fail s' \<Rightarrow> do { hp \<leftarrow> put_block p (os_out s') hp; Some (False, s', hp) }
      | Val _ s' \<Rightarrow> do { hp \<leftarrow> put_block p (os_out s') hp; Some (True, s', hp) })"

text \<open>The size of a struct, \<open>Some None\<close> when the encoder fails; a layout without fields has size 0.\<close>

definition layout_size :: "pb_istream pb_env \<Rightarrow> cmem \<Rightarrow> pb_field list option \<Rightarrow> int \<Rightarrow> u32 option option" where
  "layout_size env m fs src =
     (case fs of None \<Rightarrow> Some (Some 0)
      | Some fs \<Rightarrow> (case pb_get_encoded_size schema_depth env m fs src of
          Stuck \<Rightarrow> None | Fail _ \<Rightarrow> Some None | Val n _ \<Rightarrow> Some (Some n)))"

text \<open>The payload of a call, \<open>0\<close> on failure. \<open>hdr\<close> is the address of the local header.\<close>

definition mblue_serialize_ipc ::
    "pb_istream pb_env \<Rightarrow> int \<Rightarrow> cmem \<Rightarrow> u8 list \<Rightarrow> u16 \<Rightarrow> int \<Rightarrow> mblue_heap \<Rightarrow> (nat \<times> mblue_heap) option" where
  "mblue_serialize_ipc env hdr m meth index src hp = do {
     data_schema \<leftarrow> mblue_pb_data_layout_get index;
     let m = store_bytes m hdr (strncpy_bytes MAX_IPC_METHOD_NAME_LENGTH meth);
     let m = store32 m (hdr + 32) (ucast index);
     hs \<leftarrow> layout_size env m (Some dl_rpc_header_fields) hdr;
     (case hs of None \<Rightarrow> Some (0, hp) | Some header_size \<Rightarrow> do {
       ds \<leftarrow> layout_size env m data_schema src;
       (case ds of None \<Rightarrow> Some (0, hp) | Some dsize \<Rightarrow> do {
         let buffer_size = header_size + 4 + (if dsize \<noteq> 0 then dsize + 4 else 0);
         (buffer, hp) \<leftarrow> mblue_malloc buffer_size hp;
         (if buffer = 0 then Some (0, hp) else do {
           (ok, stream, hp) \<leftarrow> encode_block buffer
             (pb_encode_delimited schema_depth env m dl_rpc_header_fields hdr)
             (pb_ostream_from_buffer buffer_size) hp;
           (if \<not> ok then do { hp \<leftarrow> mblue_free buffer hp; Some (0, hp) }
            else case data_schema of
                None \<Rightarrow> Some (buffer, hp)
              | Some fs \<Rightarrow> do {
                  (ok, stream, hp) \<leftarrow> encode_block buffer
                    (pb_encode_submessage (pb_encode schema_depth env m) fs src) stream hp;
                  (if ok then Some (buffer, hp)
                   else do { hp \<leftarrow> mblue_free buffer hp; hp \<leftarrow> mblue_free buffer hp; Some (0, hp) })
                })
         })
       })
     })
   }"

definition mblue_serialize_struct_with_layout ::
    "pb_istream pb_env \<Rightarrow> cmem \<Rightarrow> int \<Rightarrow> pb_field list \<Rightarrow> mblue_heap \<Rightarrow> (nat \<times> mblue_heap) option" where
  "mblue_serialize_struct_with_layout env m src fs hp = do {
     sz \<leftarrow> layout_size env m (Some fs) src;
     (case sz of None \<Rightarrow> Some (0, hp) | Some n \<Rightarrow> do {
       (p, hp) \<leftarrow> mblue_malloc (n + 4) hp;
       (if p = 0 then Some (0, hp) else do {
         (ok, _, hp) \<leftarrow> encode_block p (pb_encode_delimited schema_depth env m fs src)
            (pb_ostream_from_buffer (n + 4)) hp;
         (if ok then Some (p, hp) else do { hp \<leftarrow> mblue_free p hp; Some (0, hp) })
       })
     })
   }"

text \<open>The bytes at \<open>addr\<close> are read through a stream limited by \<^verbatim>\<open>SIZE_MAX\<close> only.\<close>

definition mblue_unserialize_struct_with_layout ::
    "pb_istream pb_env \<Rightarrow> int \<Rightarrow> u8 list \<Rightarrow> pb_field list \<Rightarrow> int \<Rightarrow> cmem \<Rightarrow> (mblue_errcode \<times> cmem) option" where
  "mblue_unserialize_struct_with_layout env addr bytes fs dest m =
     (case pb_decode_delimited schema_depth env fs dest (pb_istream_from_buffer addr bytes (-1), m) of
        Stuck \<Rightarrow> None
      | Fail (_, m) \<Rightarrow> Some (MBLUE_ERR_PB_DECODE, m)
      | Val _ (_, m) \<Rightarrow> Some (MBLUE_OK, m))"

definition mblue_serialize_mono_buffer ::
    "pb_istream pb_env \<Rightarrow> frame \<Rightarrow> cmem \<Rightarrow> int \<Rightarrow> u32 \<Rightarrow> mblue_heap \<Rightarrow> (nat \<times> mblue_heap) option" where
  "mblue_serialize_mono_buffer env frame m buffer len hp =
     (let (da, bundler) = frame;
          m = store32 (store32 m bundler len) (bundler + 4) (of_int buffer);
          m = store32 (store32 m da FN_WRITE_BYTES) (da + 4) (of_int bundler)
      in mblue_serialize_struct_with_layout env m da dl_array_fields hp)"

definition mblue_unserialize_mono_buffer ::
    "pb_istream pb_env \<Rightarrow> int \<Rightarrow> int \<Rightarrow> u8 list \<Rightarrow> int \<Rightarrow> cmem \<Rightarrow> (mblue_errcode \<times> cmem) option" where
  "mblue_unserialize_mono_buffer env da addr bytes bundler m =
     (let m = store32 (store32 m da FN_GET_BYTES) (da + 4) (of_int bundler)
      in mblue_unserialize_struct_with_layout env addr bytes dl_array_fields da m)"

section \<open>Receiving a call\<close>

text \<open>What \<^verbatim>\<open>default_ipc_handler\<close> does with a payload: the header is decoded, then the parser of its
  layout runs on the rest of the stream. \<open>Some None\<close> is a header that does not decode.\<close>

definition receive_header ::
    "pb_istream pb_env \<Rightarrow> int \<Rightarrow> int \<Rightarrow> u8 list \<Rightarrow> cmem \<Rightarrow> (u16 \<times> dec_state) option option" where
  "receive_header env hdr addr bytes m =
     (case pb_decode_delimited schema_depth env dl_rpc_header_fields hdr
             (pb_istream_from_buffer addr bytes (-1), m) of
        Stuck \<Rightarrow> None
      | Fail _ \<Rightarrow> Some None
      | Val _ st \<Rightarrow> Some (Some (ucast (load32 (snd st) (hdr + 32)), st)))"

definition receive_call ::
    "pb_istream pb_env \<Rightarrow> int \<Rightarrow> frame \<Rightarrow> int \<Rightarrow> u8 list \<Rightarrow> 'w service \<Rightarrow> cmem \<Rightarrow> 'w \<Rightarrow>
      (SMART_DATA \<times> 'w) option option" where
  "receive_call env hdr frame addr bytes f m w = do {
     h \<leftarrow> receive_header env hdr addr bytes m;
     (case h of None \<Rightarrow> Some None | Some (index, st) \<Rightarrow> do {
        parser \<leftarrow> mblue_pb_data_parser_get index;
        (ret, _, w) \<leftarrow> parser env frame f st w;
        Some (Some (ret, w))
     })
   }"

section \<open>The callbacks meet their contract\<close>

lemma reads_drain: "length bs = unat n \<Longrightarrow> reads (drain_input_buffer n) bs ()"
proof (induction n arbitrary: bs rule: measure_induct_rule [of unat])
  case (less n bs)
  show ?case
  proof (cases "n > 16")
    case False
    then have "drain_input_buffer n = pb_read_null n" by (intro ext) (simp add: drain_input_buffer.simps)
    then show ?thesis using reads_null [OF less.prems] by simp
  next
    case True
    let ?a = "take 16 bs" and ?b = "drop 16 bs"
    have l: "16 < length bs" using True less.prems by (simp add: word_less_nat_alt)
    have n: "unat (n - 16) = unat n - 16" using True by (simp add: unat_sub word_le_nat_alt word_less_nat_alt)
    have "drain_input_buffer n = seqm (pb_read 16) (\<lambda>_. drain_input_buffer (n - 16))"
      by (intro ext, subst drain_input_buffer.simps) (simp add: True seqm_def)
    moreover have "reads (seqm (pb_read 16) (\<lambda>_. drain_input_buffer (n - 16))) (?a @ ?b) ()"
      using l n less.prems by (intro reads_seq [OF reads_read] less.IH) simp_all
    ultimately show ?thesis by simp
  qed
qed

lemma schema_byte_fields: "byte_fields (schema_env buf) FN_WRITE_BYTES FN_GET_BYTES"
proof
  fix f bs m arg
  assume "wire_type_of (PB_LTYPE (fd_type f)) \<noteq> None" and l: "length bs < 2 ^ 32"
    and b: "bundles m (load_ptr m arg) bs"
  note t = emits_tag_for_field [OF this(1)]
  have "emits (pb_encode_string (load_bytes m (uint (bundle_ptr m (load_ptr m arg))) (unat (bundle_len m (load_ptr m arg))))
      (bundle_len m (load_ptr m arg))) (str_bytes bs)"
    using emits_string_len [OF l] b l by (simp add: bundles_def unat_of_nat)
  from emits_seq [OF t, of "\<lambda>_. _", OF this]
  show "emits (cb_encode (schema_env buf) FN_WRITE_BYTES m f arg) (tag_bytes (field_wt f) (fd_tag f) @ str_bytes bs)"
    by (simp add: schema_env_def mblue_pb_write_bytes_def Let_def)
next
  fix s :: pb_istream and bs r f arg and m :: cmem
  assume s: "is_rest s = bs @ r" "unat (bytes_left s) = length bs"
  then have "ready bs s" by (simp add: ready_def)
  from rdm_reads [OF reads_drain [OF s(2) [symmetric]] this, of "set_bundle (load_ptr m arg) (is_state s) (bytes_left s) m"]
  show "cb_decode (schema_env buf) FN_GET_BYTES f arg (s, m) =
      Val () (adv (length bs) s, set_bundle (load_ptr m arg) (is_state s) (bytes_left s) m)"
    by (simp add: schema_env_def mblue_pb_get_bytes_pointer_def seqm_def memop_def Let_def)
qed (simp_all add: FN_WRITE_BYTES_def FN_GET_BYTES_def)

interpretation schema: byte_fields "schema_env buf" FN_WRITE_BYTES FN_GET_BYTES for buf
  by (rule schema_byte_fields)

section \<open>The layouts\<close>

lemmas layout_defs = int32_first_def int32_other_def bytes_other_def PB_REQUIRED_STATIC_def
  PB_REQUIRED_CALLBACK_def PB_DATAOFFSET_FIRST_def PB_DATAOFFSET_OTHER_def

lemmas field_tables = dl_rpc_header_fields_def dl_array_fields_def dl_1_fields_def dl_111_fields_def
  dl_1111_fields_def dl_12_fields_def dl_112_fields_def dl_113_fields_def dl_1112_fields_def

lemmas type_parts = PB_LTYPE_def PB_HTYPE_def PB_ATYPE_def pb_consts

lemma layouts_flat:
  "flat dl_rpc_header_fields" "flat dl_array_fields" "flat dl_1_fields" "flat dl_111_fields" "flat dl_1111_fields"
  "flat dl_12_fields" "flat dl_112_fields" "flat dl_113_fields" "flat dl_1112_fields"
  by (simp_all add: flat_def field_tables layout_defs type_parts)

lemma addr_header: "field_addr dl_rpc_header_fields d 0 = d" "field_addr dl_rpc_header_fields d (Suc 0) = d + 32"
  using field_addr_0 [OF layouts_flat(1), of d] field_addr_Suc [OF layouts_flat(1), of 0 d]
  by (simp_all add: single_def field_tables layout_defs type_parts)

lemma addr_array: "field_addr dl_array_fields d 0 = d"
  using field_addr_0 [OF layouts_flat(2), of d] by (simp add: field_tables layout_defs)

lemma addr_1: "field_addr dl_1_fields d 0 = d"
  using field_addr_0 [OF layouts_flat(3), of d] by (simp add: field_tables layout_defs)

lemma addr_111: "field_addr dl_111_fields d 0 = d" "field_addr dl_111_fields d (Suc 0) = d + 4"
    "field_addr dl_111_fields d (Suc (Suc 0)) = d + 8"
  using field_addr_0 [OF layouts_flat(4), of d] field_addr_Suc [OF layouts_flat(4), of 0 d]
    field_addr_Suc [OF layouts_flat(4), of "Suc 0" d]
  by (simp_all add: single_def field_tables layout_defs type_parts)

lemma addr_1111: "field_addr dl_1111_fields d 0 = d" "field_addr dl_1111_fields d (Suc 0) = d + 4"
    "field_addr dl_1111_fields d (Suc (Suc 0)) = d + 8" "field_addr dl_1111_fields d (Suc (Suc (Suc 0))) = d + 12"
  using field_addr_0 [OF layouts_flat(5), of d] field_addr_Suc [OF layouts_flat(5), of 0 d]
    field_addr_Suc [OF layouts_flat(5), of "Suc 0" d] field_addr_Suc [OF layouts_flat(5), of "Suc (Suc 0)" d]
  by (simp_all add: single_def field_tables layout_defs type_parts)

lemma addr_12: "field_addr dl_12_fields d 0 = d" "field_addr dl_12_fields d (Suc 0) = d + 4"
  using field_addr_0 [OF layouts_flat(6), of d] field_addr_Suc [OF layouts_flat(6), of 0 d]
  by (simp_all add: single_def field_tables layout_defs type_parts)

lemma addr_112: "field_addr dl_112_fields d 0 = d" "field_addr dl_112_fields d (Suc 0) = d + 4"
    "field_addr dl_112_fields d (Suc (Suc 0)) = d + 8"
  using field_addr_0 [OF layouts_flat(7), of d] field_addr_Suc [OF layouts_flat(7), of 0 d]
    field_addr_Suc [OF layouts_flat(7), of "Suc 0" d]
  by (simp_all add: single_def field_tables layout_defs type_parts)

lemma addr_113: "field_addr dl_113_fields d 0 = d" "field_addr dl_113_fields d (Suc 0) = d + 4"
    "field_addr dl_113_fields d (Suc (Suc 0)) = d + 8"
  using field_addr_0 [OF layouts_flat(8), of d] field_addr_Suc [OF layouts_flat(8), of 0 d]
    field_addr_Suc [OF layouts_flat(8), of "Suc 0" d]
  by (simp_all add: single_def field_tables layout_defs type_parts)

lemma addr_1112: "field_addr dl_1112_fields d 0 = d" "field_addr dl_1112_fields d (Suc 0) = d + 4"
    "field_addr dl_1112_fields d (Suc (Suc 0)) = d + 8" "field_addr dl_1112_fields d (Suc (Suc (Suc 0))) = d + 12"
  using field_addr_0 [OF layouts_flat(9), of d] field_addr_Suc [OF layouts_flat(9), of 0 d]
    field_addr_Suc [OF layouts_flat(9), of "Suc 0" d] field_addr_Suc [OF layouts_flat(9), of "Suc (Suc 0)" d]
  by (simp_all add: single_def field_tables layout_defs type_parts)

section \<open>Serialising a call\<close>

text \<open>The encoding of a call: the header and the arguments, each behind its length.\<close>

definition header_values :: "u8 list \<Rightarrow> u16 \<Rightarrow> fval list" where
  "header_values meth index = [FStr meth, FInt (ucast index)]"

definition layout_bytes :: "pb_field list option \<Rightarrow> fval list \<Rightarrow> u8 list" where
  "layout_bytes fs vs = (case fs of None \<Rightarrow> [] | Some fs \<Rightarrow> str_bytes (encoding fs vs))"

definition call_bytes :: "u8 list \<Rightarrow> u16 \<Rightarrow> pb_field list option \<Rightarrow> fval list \<Rightarrow> u8 list" where
  "call_bytes meth index fs vs =
     str_bytes (encoding dl_rpc_header_fields (header_values meth index)) @ layout_bytes fs vs"

lemma strncpy_short: "\<lbrakk>0 \<notin> set s; length s \<le> n\<rbrakk> \<Longrightarrow> strncpy_bytes n s = s @ replicate (n - length s) 0"
proof (induction n arbitrary: s)
  case (Suc n)
  have z: "strncpy_bytes k [] = replicate k 0" for k by (induction k) simp_all
  show ?case using Suc by (cases s) (auto simp: z)
qed simp

definition header_memory :: "int \<Rightarrow> u8 list \<Rightarrow> u16 \<Rightarrow> cmem \<Rightarrow> cmem" where
  "header_memory hdr meth index m =
     store32 (store_bytes m hdr (strncpy_bytes MAX_IPC_METHOD_NAME_LENGTH meth)) (hdr + 32) (ucast index)"

lemma header_carried:
  assumes "0 \<notin> set meth" and "length meth \<le> 31"
  shows "carried dl_rpc_header_fields (header_values meth index)"
proof -
  have "carries (dl_rpc_header_fields ! i) (header_values meth index ! i)" if "i < 2" for i
  proof -
    consider "i = 0" | "i = 1" using \<open>i < 2\<close> by force
    then show ?thesis
      using assms by cases (simp_all add: header_values_def field_tables layout_defs type_parts is_required_def int_type_def)
  qed
  moreover have "length dl_rpc_header_fields = 2" by (simp add: dl_rpc_header_fields_def)
  ultimately show ?thesis unfolding carried_def by (simp add: header_values_def)
qed

lemma header_holds:
  assumes "0 \<notin> set meth" and "length meth \<le> 30" and "hdr \<noteq> 0" and "hdr + 32 \<noteq> 0"
  shows "\<forall>i<length dl_rpc_header_fields. holds wb (header_memory hdr meth index m)
    (field_addr dl_rpc_header_fields hdr i) (header_values meth index ! i)"
proof -
  let ?m = "header_memory hdr meth index m" and ?n = "strncpy_bytes MAX_IPC_METHOD_NAME_LENGTH meth"
  have n: "?n = meth @ replicate (31 - length meth) 0"
    using assms(1,2) by (simp add: MAX_IPC_METHOD_NAME_LENGTH_def strncpy_short)
  have byte: "?m (hdr + int j) = (meth @ replicate (31 - length meth) 0) ! j" if "j < 31" for j
    using that assms(2) by (simp add: header_memory_def n store32_other store_bytes_def)
  have "load_bytes ?m hdr (length meth) = meth"
    by (rule nth_equalityI) (use assms(2) in \<open>simp_all add: load_bytes_nth byte nth_append\<close>)
  moreover have "?m (hdr + int (length meth)) = 0"
    using byte [of "length meth"] assms(2) by (simp add: nth_append)
  moreover have "load32 ?m (hdr + 32) = ucast index" by (simp add: header_memory_def)
  moreover have "length dl_rpc_header_fields = 2" by (simp add: dl_rpc_header_fields_def)
  ultimately show ?thesis
    using assms(3,4) by (auto simp: header_values_def addr_header less_2_cases_iff)
qed

lemma varint_short: "unat v < 128 \<Longrightarrow> length (varint_bytes v) = 1"
  by (simp add: varint_bytes.simps word_less_nat_alt)

lemma header_length: "length meth \<le> 31 \<Longrightarrow> length (encoding dl_rpc_header_fields (header_values meth index)) \<le> 71"
  using length_varint_bytes [of "of_nat (length meth)"] length_varint_bytes [of "scast (ucast index :: u32)"]
    length_varint_bytes [of "tag_value (field_wt (dl_rpc_header_fields ! 0)) (ucast (fd_tag (dl_rpc_header_fields ! 0)))"]
    length_varint_bytes [of "tag_value (field_wt (dl_rpc_header_fields ! 1)) (ucast (fd_tag (dl_rpc_header_fields ! 1)))"]
  by (simp add: encoding_def message_bytes_def message_items_def header_values_def item_tag_def tag_bytes_def key_bytes_def
      str_bytes_def int_bytes_def field_tables layout_defs type_parts)

lemma length_str_bytes:
  assumes "length bs < 2 ^ 32"
  shows "length (str_bytes bs) \<le> length bs + 5"
proof -
  have "unat (of_nat (length bs) :: u64) = length bs"
    using assms by (simp add: unat_of_nat)
  then have "length (varint_bytes (of_nat (length bs))) \<le> Suc 4"
    using assms by (intro length_varint_bytes_bound) simp
  then show ?thesis by (simp add: str_bytes_def)
qed

lemma length_str_bytes_short: "length bs < 128 \<Longrightarrow> length (str_bytes bs) = length bs + 1"
  by (simp add: str_bytes_def varint_short unat_of_nat)

lemma encode_block_ok:
  assumes e: "emits e bs" and s: "sane s (length bs)" "fits s (length bs)" "os_writing s"
    and b: "hblocks hp p = Some blk" "length (os_out s @ bs) \<le> length blk"
  shows "encode_block p e s hp = Some (True, put bs s,
    hp\<lparr>hblocks := (hblocks hp)(p \<mapsto> os_out s @ bs @ drop (length (os_out s @ bs)) blk)\<rparr>)"
  using emits_val [OF e s(1,2)] s(3) b by (simp add: encode_block_def put_block_def put_def)

lemma layout_size_ok:
  assumes "emits (pb_encode schema_depth env m fs src) bs" and "length bs < 2 ^ 32"
  shows "layout_size env m (Some fs) src = Some (Some (of_nat (length bs)))"
  using emits_sizing [OF assms] by (simp add: layout_size_def pb_get_encoded_size_def) (simp add: PB_OSTREAM_SIZING_def)

lemma layout_size_none: "layout_size env m None src = Some (Some 0)"
  by (simp add: layout_size_def)

lemma layout_size_some:
  assumes "flat fs" and "carried fs vs"
    and "\<forall>i<length fs. holds FN_WRITE_BYTES m (field_addr fs src i) (vs ! i)" and "length (encoding fs vs) < 2 ^ 32"
  shows "layout_size (schema_env buf) m (Some fs) src = Some (Some (of_nat (length (encoding fs vs))))"
  using schema.emits_message [OF assms(1-3), of 0] assms(4) by (intro layout_size_ok) (simp_all add: schema_depth_def)

lemma encoding_nonempty: "flat fs \<Longrightarrow> encoding fs vs \<noteq> []"
  by (cases fs) (auto simp: flat_def encoding_def message_bytes_def message_items_def item_tag_def tag_bytes_def key_bytes_def
      upt_conv_Cons)

text \<open>The block that the heap grants next, with its contents.\<close>

definition granted :: "mblue_heap \<Rightarrow> u8 list \<Rightarrow> nat \<times> mblue_heap" where
  "granted hp bs = (16 * Suc (hnext hp),
     hp\<lparr>hblocks := (hblocks hp)(16 * Suc (hnext hp) \<mapsto> bs), hnext := hnext hp + Suc (length bs div 16),
       hcalls := Suc (hcalls hp)\<rparr>)"

lemma malloc_granted:
  assumes "\<not> hfail hp (hcalls hp)" and "unat s \<le> 2 ^ 32 - 16"
  obtains p hp1 blk where "mblue_malloc s hp = Some (p, hp1)" "granted hp blk = (p, hp1)" "unat s \<le> length blk"
    "\<And>k. k < unat s \<Longrightarrow> \<exists>pad. drop k blk = 0 # pad" "length blk \<le> unat s + 15"
proof -
  have z: "\<exists>pad. drop k (replicate n 0 @ xs) = 0 # pad" if "k < n" for k n and xs :: "u8 list"
    using that by (cases "n - k") simp_all
  have l: "unat s + (16 * ((unat s + 15) div 16) - unat s) = 16 * ((unat s + 15) div 16)"
    "16 * ((unat s + 15) div 16) \<le> unat s + 15" by presburger+
  let ?bs = "replicate (unat s) 0 @ replicate (16 * ((unat s + 15) div 16) - unat s) 0xCD :: u8 list"
  show thesis by (rule that [where blk = ?bs]) (use mblue_malloc_granted [OF assms] z l in \<open>simp_all add: granted_def\<close>)
qed

lemma granted_facts:
  assumes "granted hp blk = (p, hp1)"
  shows "p \<noteq> 0" "hblocks hp1 p = Some blk"
    and "length bs = length blk \<Longrightarrow> granted hp bs = (p, hp1\<lparr>hblocks := (hblocks hp1)(p \<mapsto> bs)\<rparr>)"
  using assms by (auto simp: granted_def)

text \<open>A call of a layout with arguments: the block holds the encoding of the call, from its start.\<close>

lemma serialize_call:
  assumes lay: "mblue_pb_data_layout_get index = Some (Some fs)" and fl: "flat fs" and c: "carried fs vs"
    and h: "\<forall>i<length fs. holds FN_WRITE_BYTES (header_memory hdr meth index m) (field_addr fs src i) (vs ! i)"
    and n: "0 \<notin> set meth" "length meth \<le> 30" "hdr \<noteq> 0" "hdr + 32 \<noteq> 0"
    and l: "length (encoding fs vs) < 2 ^ 31" and hp: "\<not> hfail hp (hcalls hp)"
  shows "\<exists>pad. mblue_serialize_ipc (schema_env buf) hdr m meth index src hp =
    Some (granted hp (call_bytes meth index (Some fs) vs @ 0 # pad)) \<and>
    length (call_bytes meth index (Some fs) vs @ 0 # pad) \<le> 94 + length (encoding fs vs)"
proof -
  let ?m = "header_memory hdr meth index m" and ?env = "schema_env buf"
  let ?he = "encoding dl_rpc_header_fields (header_values meth index)" and ?de = "encoding fs vs"
  let ?H = "str_bytes ?he" and ?D = "str_bytes ?de"
  note hc = header_carried [of meth index, OF n(1)] and hh = header_holds [OF n, of FN_WRITE_BYTES index m]
  have hl: "length ?he \<le> 71" using header_length [of meth index] n(2) by simp
  have "unat (of_nat (length ?de) :: u32) = length ?de" using l by (intro unat_small32) simp
  moreover have "length ?de \<noteq> 0" using encoding_nonempty [OF fl, of vs] by simp
  ultimately have d0: "(of_nat (length ?de) :: u32) \<noteq> 0" by (metis unat_0)
  let ?size = "of_nat (length ?he) + 4 + (of_nat (length ?de) + 4) :: u32"
  have sz: "unat ?size = length ?he + length ?de + 8"
    using hl l by (simp add: unat_word_ariths unat_of_nat)
  have hs: "layout_size ?env ?m (Some dl_rpc_header_fields) hdr = Some (Some (of_nat (length ?he)))"
    using n(2) hl by (intro layout_size_some layouts_flat hc hh) simp_all
  have ds: "layout_size ?env ?m (Some fs) src = Some (Some (of_nat (length ?de)))"
    using l by (intro layout_size_some fl c h) simp
  obtain p hp1 blk where mal: "mblue_malloc ?size hp = Some (p, hp1)" "granted hp blk = (p, hp1)"
      "unat ?size \<le> length blk" "\<And>k. k < unat ?size \<Longrightarrow> \<exists>pad. drop k blk = 0 # pad"
    and up: "length blk \<le> unat ?size + 15"
    by (rule malloc_granted [of hp ?size]) (use hp sz hl l in auto)
  note gr = granted_facts [OF mal(2)]
  have Hl: "length ?H = length ?he + 1" using hl by (intro length_str_bytes_short) simp
  have Dl: "length ?D \<le> length ?de + 5" using l by (intro length_str_bytes) simp
  let ?s0 = "pb_ostream_from_buffer ?size"
  have e1: "emits (pb_encode_delimited schema_depth ?env ?m dl_rpc_header_fields hdr) ?H"
    unfolding pb_encode_delimited_def schema_depth_def One_nat_def
    using n(2) hl by (intro schema.emits_delimited layouts_flat hc hh) simp_all
  have e2: "emits (pb_encode_submessage (pb_encode schema_depth ?env ?m) fs src) ?D"
    unfolding schema_depth_def One_nat_def using l by (intro schema.emits_delimited fl c h) simp
  let ?hp2 = "hp1\<lparr>hblocks := (hblocks hp1)(p \<mapsto> ?H @ drop (length ?H) blk)\<rparr>"
  have b1: "encode_block p (pb_encode_delimited schema_depth ?env ?m dl_rpc_header_fields hdr) ?s0 hp1 =
      Some (True, put ?H ?s0, ?hp2)"
    using encode_block_ok [OF e1 _ _ _ gr(2), of ?s0] sz Hl hl l mal(3)
    by (simp add: sane_def fits_def pb_ostream_from_buffer_def)
  have w: "unat (bytes_written (put ?H ?s0)) = length ?H"
    using unat_small32 [of "length ?H"] Hl hl by (simp add: pb_ostream_from_buffer_def del: of_nat_Suc)
  let ?hp3 = "?hp2\<lparr>hblocks := (hblocks ?hp2)(p \<mapsto> ?H @ ?D @ drop (length (?H @ ?D)) (?H @ drop (length ?H) blk))\<rparr>"
  have b2: "encode_block p (pb_encode_submessage (pb_encode schema_depth ?env ?m) fs src) (put ?H ?s0) ?hp2 =
      Some (True, put ?D (put ?H ?s0), ?hp3)"
    using encode_block_ok [OF e2, of "put ?H ?s0" ?hp2 p "?H @ drop (length ?H) blk"] sz w Hl Dl hl l mal(3)
    by (simp add: sane_def fits_def pb_ostream_from_buffer_def put_def)
  have "mblue_serialize_ipc ?env hdr m meth index src hp = Some (p, ?hp3)"
    using lay hs ds mal(1) gr(1) b1 b2 d0
    by (simp add: mblue_serialize_ipc_def header_memory_def [symmetric] Let_def del: fun_upd_apply)
  moreover obtain pad where pad: "drop (length (?H @ ?D)) (?H @ drop (length ?H) blk) = 0 # pad"
    using mal(4) [of "length (?H @ ?D)"] sz Hl Dl by (auto simp: add.commute)
  moreover have bl: "length (?H @ ?D @ 0 # pad) = length blk"
    unfolding pad [symmetric] using mal(3) sz Hl Dl by simp
  note gr(3) [OF this]
  moreover have "length (?H @ ?D @ 0 # pad) \<le> 94 + length ?de" unfolding bl using up sz hl by simp
  ultimately show ?thesis by (intro exI [of _ pad]) (simp add: call_bytes_def layout_bytes_def)
qed

section \<open>Receiving a call\<close>

lemma layouts_plain:
  "\<forall>f\<in>set dl_rpc_header_fields. fd_ptr f = Pb_Null" "\<forall>f\<in>set dl_array_fields. fd_ptr f = Pb_Null"
  "\<forall>f\<in>set dl_1_fields. fd_ptr f = Pb_Null" "\<forall>f\<in>set dl_111_fields. fd_ptr f = Pb_Null"
  "\<forall>f\<in>set dl_1111_fields. fd_ptr f = Pb_Null" "\<forall>f\<in>set dl_12_fields. fd_ptr f = Pb_Null"
  "\<forall>f\<in>set dl_112_fields. fd_ptr f = Pb_Null" "\<forall>f\<in>set dl_113_fields. fd_ptr f = Pb_Null"
  "\<forall>f\<in>set dl_1112_fields. fd_ptr f = Pb_Null"
  by (simp_all add: field_tables layout_defs)

lemma no_sinks: "\<forall>v\<in>set vs. \<not> is_bytes v \<Longrightarrow> length vs = length fs \<Longrightarrow> sinks fs vs dest b"
  and no_armed: "\<forall>v\<in>set vs. \<not> is_bytes v \<Longrightarrow> length vs = length fs \<Longrightarrow> armed gb fs vs dest b m"
  by (auto simp: sinks_def armed_def)

lemma receive_header_ok:
  assumes n: "0 \<notin> set meth" "length meth \<le> 30"
    and s: "bytes = str_bytes (encoding dl_rpc_header_fields (header_values meth index)) @ rest"
  shows "\<exists>m'. receive_header (schema_env buf) hdr addr bytes m =
    Some (Some (index, adv (length bytes - length rest) (pb_istream_from_buffer addr bytes (-1)), m'))"
proof -
  let ?vs = "header_values meth index" and ?fs = dl_rpc_header_fields
  let ?t = "pb_istream_from_buffer addr bytes (-1)"
  have c: "carried ?fs ?vs" using n by (intro header_carried) simp_all
  have nb: "\<forall>v\<in>set ?vs. \<not> is_bytes v" by (simp add: header_values_def is_bytes_def)
  have lv: "length ?vs = length ?fs" using c by (simp add: carried_def)
  have l: "length (encoding ?fs ?vs) \<le> 71" using header_length [of meth index] n by simp
  then have "length (str_bytes (encoding ?fs ?vs)) \<le> 72"
    using length_str_bytes_short [of "encoding ?fs ?vs"] by simp
  moreover have "unat (-1 :: u32) = 2 ^ 32 - 1" by (simp add: unsigned_minus_1_eq_mask mask_eq_exp_minus_1)
  ultimately have r: "ready (str_bytes (encoding ?fs ?vs)) ?t"
    by (simp add: ready_def pb_istream_from_buffer_def s)
  obtain m' where d: "pb_decode_delimited (Suc 0) (schema_env buf) ?fs hdr (?t, m) =
        Val () (adv (length (str_bytes (encoding ?fs ?vs))) ?t, m')"
      and st: "\<forall>i<length ?fs. \<exists>at. stored m' (field_addr ?fs hdr i) (?vs ! i) 0 at"
    using schema.decode_message [where b = "\<lambda>_. 0" and dest = hdr and m = m and k = 0 and buf = buf,
        OF layouts_flat(1) c no_sinks [OF nb lv] layouts_plain(1) no_armed [OF nb lv] _ r] l by force
  have "load32 m' (hdr + 32) = ucast index"
  proof -
    have "length ?fs = 2" by (simp add: dl_rpc_header_fields_def)
    then obtain at where "stored m' (field_addr ?fs hdr 1) (?vs ! 1) 0 at"
      using st [rule_format, of 1] by auto
    then show ?thesis by (simp add: addr_header stored_def header_values_def)
  qed
  moreover have "ucast (ucast index :: u32) = index"
    by (rule bit_word_eqI) (auto simp: bit_simps)
  ultimately show ?thesis
    using d by (simp add: receive_header_def schema_depth_def s)
qed

lemma last_value_pos:
  assumes "length fs = Suc k" and "vs ! k = FBytes bs"
  shows "value_pos fs vs pos k + int (length (varint_bytes (of_nat (length bs)))) =
    pos + int (length (encoding fs vs)) - int (length bs)"
proof -
  have "message_items fs vs = take k (message_items fs vs) @ [(k, str_bytes bs)]"
    using assms by (simp add: message_items_def take_map)
  then have "encoding fs vs = message_bytes fs (\<lambda>i. field_wt (fs ! i)) (take k (message_items fs vs)) @
      item_tag fs (\<lambda>i. field_wt (fs ! i)) k @ str_bytes bs"
    unfolding encoding_def by (metis (no_types, lifting) append.right_neutral concat.simps(2) concat_append
        list.simps(8) list.simps(9) map_append message_bytes_def concat.simps(1) old.prod.case)
  then show ?thesis by (simp add: value_pos_def str_bytes_def)
qed

text \<open>A parser that has called the service function with the given arguments, in the state \<open>w\<close>.\<close>

definition calls :: "'w service \<Rightarrow> u32 list \<Rightarrow> 'w \<Rightarrow> (SMART_DATA \<times> dec_state \<times> 'w) option \<Rightarrow> bool" where
  "calls f args w r \<longleftrightarrow> (\<exists>st. r = call_service f args st w)"

lemma parse_stored:
  assumes "flat fs" and "carried fs vs" and "sinks fs vs var b" and "\<forall>f\<in>set fs. fd_ptr f = Pb_Null"
    and "armed FN_GET_BYTES fs vs var b m" and "length (encoding fs vs) < 2 ^ 32"
    and "ready (str_bytes (encoding fs vs)) t"
  shows "\<exists>m'. calls f (args m') w (parse_call (schema_env buf) fs args var f (t, m) w) \<and>
    (\<forall>i<length fs. stored m' (field_addr fs var i) (vs ! i) (b i)
       (value_pos fs vs (is_state t + int (length (varint_bytes (of_nat (length (encoding fs vs)))))) i))"
  using schema.decode_message [OF assms, of 0 buf] by (force simp: parse_call_def schema_depth_def calls_def)

text \<open>The frame of a parser: the struct (at most 20 bytes) and the bundler apart from each other.\<close>

definition frame_ok :: "frame \<Rightarrow> bool" where
  "frame_ok fr \<longleftrightarrow> (case fr of (var, bundle) \<Rightarrow> 0 < var \<and> 0 \<le> bundle \<and> bundle < 2 ^ 32 \<and>
     (bundle + 8 \<le> var \<or> var + 20 \<le> bundle))"

lemma init_armed:
  assumes f: "frame_ok (var, bundle)" and d: "0 \<le> d" "d \<le> 12" and k: "length fs = Suc k" "field_addr fs var k = var + d"
    and nb: "\<forall>i<k. \<not> is_bytes (vs ! i)"
  shows "armed FN_GET_BYTES fs vs var (\<lambda>_. bundle) (INIT_PB_DECODE_DATA_STRUCT (var, bundle) d m)"
proof -
  let ?m = "INIT_PB_DECODE_DATA_STRUCT (var, bundle) d m"
  have "callback_funcs ?m (var + d) = FN_GET_BYTES"
    by (simp add: INIT_PB_DECODE_DATA_STRUCT_def callback_funcs_def load32_store32_other Let_def)
  moreover have "load_ptr ?m (var + d + 4) = bundle"
    using f by (simp add: INIT_PB_DECODE_DATA_STRUCT_def load_ptr_def frame_ok_def Let_def uint_word_of_int)
  ultimately show ?thesis
    unfolding armed_def using k nb by (metis less_antisym)
qed

lemma frame_sinks:
  assumes f: "frame_ok (var, bundle)" and k: "length fs = Suc k" "0 < field_addr fs var k"
    and nb: "\<forall>i<k. \<not> is_bytes (vs ! i)"
    and m: "\<And>j. j < length fs \<Longrightarrow> member fs var j \<subseteq> {var ..< var + 20}"
  shows "sinks fs vs var (\<lambda>_. bundle)"
  unfolding sinks_def
proof (intro allI impI conjI)
  fix i j assume "i < length fs" "is_bytes (vs ! i)" "j < length fs"
  then show "{bundle ..< bundle + 8} \<inter> member fs var j = {}"
    using f m [of j] by (auto simp: frame_ok_def)
next
  fix i j assume "i < length fs" "is_bytes (vs ! i)" "j < length fs" "is_bytes (vs ! j) \<and> i \<noteq> j"
  then have "i = k" "j = k" using nb k(1) by (metis less_antisym)+
  then show "{bundle ..< bundle + 8} \<inter> {bundle ..< bundle + 8} = {}" using \<open>is_bytes (vs ! j) \<and> i \<noteq> j\<close> by simp
next
  fix i assume "i < length fs" "is_bytes (vs ! i)"
  then have "i = k" using nb k(1) by (metis less_antisym)
  then show "field_addr fs var i \<noteq> 0" using k(2) by simp
qed

text \<open>The words a service function is called with.\<close>

definition arg_words :: "bool \<Rightarrow> u32 \<Rightarrow> fval \<Rightarrow> u32 list" where
  "arg_words with_len ptr v =
     (case v of FInt w \<Rightarrow> [w] | FStr _ \<Rightarrow> []
      | FBytes bs \<Rightarrow> if with_len then [ptr, of_nat (length bs)] else [ptr])"

definition call_args :: "PB_TYPE_INDEX \<Rightarrow> u32 \<Rightarrow> fval list \<Rightarrow> u32 list" where
  "call_args T ptr vs = concat (map (arg_words (T \<noteq> PB_113) ptr) vs)"

definition bytes_len :: "fval list \<Rightarrow> nat" where
  "bytes_len vs = (case rev vs of FBytes bs # _ \<Rightarrow> length bs | _ \<Rightarrow> 0)"

lemma carries_int [simp]: "carries (int32_first t) v \<longleftrightarrow> (\<exists>w. v = FInt w)"
    "carries (int32_other t m p s) v \<longleftrightarrow> (\<exists>w. v = FInt w)"
  by (cases v; simp add: layout_defs type_parts is_required_def int_type_def)+

lemma carries_bytes [simp]: "carries (bytes_other t m p s) v \<longleftrightarrow> (\<exists>bs. v = FBytes bs \<and> length bs < 2 ^ 32)"
    "carries (PB_REQUIRED_CALLBACK t 8 off PB_LTYPE_BYTES Pb_Null) v \<longleftrightarrow> (\<exists>bs. v = FBytes bs \<and> length bs < 2 ^ 32)"
    "carries (PB_REQUIRED_CALLBACK t 8 off PB_LTYPE_STRING Pb_Null) v \<longleftrightarrow> (\<exists>bs. v = FBytes bs \<and> length bs < 2 ^ 32)"
  by (cases v; simp add: layout_defs type_parts is_required_def)+

lemma parse_ints:
  assumes "flat fs" and "carried fs vs" and "\<forall>v\<in>set vs. \<not> is_bytes v" and "\<forall>f\<in>set fs. fd_ptr f = Pb_Null"
    and "length (encoding fs vs) < 2 ^ 32" and "ready (str_bytes (encoding fs vs)) t"
  shows "\<exists>m'. calls f (args m') w (parse_call (schema_env buf) fs args var f (t, m) w) \<and>
    (\<forall>i<length fs. \<exists>at. stored m' (field_addr fs var i) (vs ! i) 0 at)"
proof -
  have l: "length vs = length fs" using assms(2) by (simp add: carried_def)
  show ?thesis
    using parse_stored [where b = "\<lambda>_. 0" and buf = buf and args = args and var = var and f = f and m = m and w = w,
        OF assms(1,2) no_sinks [OF assms(3) l] assms(4) no_armed [OF assms(3) l] assms(5,6)] by force
qed

lemma parse_bytes:
  assumes fl: "flat fs" and c: "carried fs vs" and k: "length fs = Suc k" "vs ! k = FBytes bs"
    and nb: "\<forall>i<k. \<not> is_bytes (vs ! i)" and pl: "\<forall>f\<in>set fs. fd_ptr f = Pb_Null"
    and f: "frame_ok (var, bundle)" and d: "0 \<le> d" "d \<le> 12" "field_addr fs var k = var + d"
    and m: "\<And>j. j < length fs \<Longrightarrow> member fs var j \<subseteq> {var ..< var + 20}"
    and l: "length (encoding fs vs) < 2 ^ 32" and r: "ready (str_bytes (encoding fs vs)) t"
  shows "\<exists>m'. calls g (args m') w (parse_call (schema_env buf) fs args var g
      (t, INIT_PB_DECODE_DATA_STRUCT (var, bundle) d m0) w) \<and>
    (\<forall>i<k. \<exists>at. stored m' (field_addr fs var i) (vs ! i) bundle at) \<and>
    load32 m' bundle = of_nat (length bs) \<and>
    load32 m' (bundle + 4) = of_int (is_state t + int (length (str_bytes (encoding fs vs))) - int (length bs))"
proof -
  have pos: "0 < field_addr fs var k" using f d by (simp add: frame_ok_def)
  obtain m' where p: "calls g (args m') w (parse_call (schema_env buf) fs args var g
        (t, INIT_PB_DECODE_DATA_STRUCT (var, bundle) d m0) w)"
      and a: "\<forall>i<length fs. stored m' (field_addr fs var i) (vs ! i) bundle
       (value_pos fs vs (is_state t + int (length (varint_bytes (of_nat (length (encoding fs vs)))))) i)"
    using parse_stored [OF fl c frame_sinks [OF f k(1) pos nb m] pl init_armed [OF f d(1,2) k(1) d(3) nb] l r,
        where buf = buf and args = args and f = g and w = w]
    by blast
  note e = last_value_pos [of fs k vs bs, OF k]
  have "stored m' (field_addr fs var k) (FBytes bs) bundle
      (value_pos fs vs (is_state t + int (length (varint_bytes (of_nat (length (encoding fs vs)))))) k)"
    using a [rule_format, of k] k by simp
  then have b: "load32 m' bundle = of_nat (length bs)"
      "load32 m' (bundle + 4) = of_int (is_state t + int (length (str_bytes (encoding fs vs))) - int (length bs))"
    using e [of "is_state t + int (length (varint_bytes (of_nat (length (encoding fs vs)))))"]
    by (simp_all add: stored_def bundle_len_def bundle_ptr_def str_bytes_def add.assoc del: of_int_add of_int_diff)
  have "\<forall>i<k. \<exists>at. stored m' (field_addr fs var i) (vs ! i) bundle at" using a unfolding k(1) by (meson less_SucI)
  then show ?thesis using p b by blast
qed

lemma carried_shapes:
  "carried dl_1_fields vs \<longleftrightarrow> (\<exists>a. vs = [FInt a])"
  "carried dl_111_fields vs \<longleftrightarrow> (\<exists>a b c. vs = [FInt a, FInt b, FInt c])"
  "carried dl_1111_fields vs \<longleftrightarrow> (\<exists>a b c d. vs = [FInt a, FInt b, FInt c, FInt d])"
  "carried dl_array_fields vs \<longleftrightarrow> (\<exists>bs. vs = [FBytes bs] \<and> length bs < 2 ^ 32)"
  "carried dl_12_fields vs \<longleftrightarrow> (\<exists>a bs. vs = [FInt a, FBytes bs] \<and> length bs < 2 ^ 32)"
  "carried dl_112_fields vs \<longleftrightarrow> (\<exists>a b bs. vs = [FInt a, FInt b, FBytes bs] \<and> length bs < 2 ^ 32)"
  "carried dl_113_fields vs \<longleftrightarrow> (\<exists>a b bs. vs = [FInt a, FInt b, FBytes bs] \<and> length bs < 2 ^ 32)"
  "carried dl_1112_fields vs \<longleftrightarrow> (\<exists>a b c bs. vs = [FInt a, FInt b, FInt c, FBytes bs] \<and> length bs < 2 ^ 32)"
proof -
  show "carried dl_1_fields vs \<longleftrightarrow> (\<exists>a. vs = [FInt a])"
    by (auto simp: carried_def dl_1_fields_def length_Suc_conv)
  show "carried dl_111_fields vs \<longleftrightarrow> (\<exists>a b c. vs = [FInt a, FInt b, FInt c])"
    by (auto simp: carried_def dl_111_fields_def length_Suc_conv less_Suc_eq)
  show "carried dl_1111_fields vs \<longleftrightarrow> (\<exists>a b c d. vs = [FInt a, FInt b, FInt c, FInt d])"
    by (auto simp: carried_def dl_1111_fields_def length_Suc_conv less_Suc_eq)
  show "carried dl_array_fields vs \<longleftrightarrow> (\<exists>bs. vs = [FBytes bs] \<and> length bs < 2 ^ 32)"
    by (auto simp: carried_def dl_array_fields_def length_Suc_conv)
  show "carried dl_12_fields vs \<longleftrightarrow> (\<exists>a bs. vs = [FInt a, FBytes bs] \<and> length bs < 2 ^ 32)"
    by (auto simp: carried_def dl_12_fields_def length_Suc_conv less_Suc_eq)
  show "carried dl_112_fields vs \<longleftrightarrow> (\<exists>a b bs. vs = [FInt a, FInt b, FBytes bs] \<and> length bs < 2 ^ 32)"
    by (auto simp: carried_def dl_112_fields_def length_Suc_conv less_Suc_eq)
  show "carried dl_113_fields vs \<longleftrightarrow> (\<exists>a b bs. vs = [FInt a, FInt b, FBytes bs] \<and> length bs < 2 ^ 32)"
    by (auto simp: carried_def dl_113_fields_def length_Suc_conv less_Suc_eq)
  show "carried dl_1112_fields vs \<longleftrightarrow> (\<exists>a b c bs. vs = [FInt a, FInt b, FInt c, FBytes bs] \<and> length bs < 2 ^ 32)"
    by (auto simp: carried_def dl_1112_fields_def length_Suc_conv less_Suc_eq)
qed

lemma stored_int: "(\<exists>at. stored m a (FInt w) b at) \<longleftrightarrow> load32 m a = w"
  by (simp add: stored_def)

lemma not_bytes_int [simp]: "\<not> is_bytes (FInt w)" and bytes_bytes [simp]: "is_bytes (FBytes bs)"
  by (simp_all add: is_bytes_def)

lemmas parser_simps = call_args_def arg_words_def bytes_len_def stored_int addr_header addr_array addr_1 addr_111
  addr_1111 addr_12 addr_112 addr_113 addr_1112 less_Suc_eq all_conj_distrib

lemma members_in_frame:
  "j < length dl_array_fields \<Longrightarrow> member dl_array_fields var j \<subseteq> {var ..< var + 20}"
  "j < length dl_12_fields \<Longrightarrow> member dl_12_fields var j \<subseteq> {var ..< var + 20}"
  "j < length dl_112_fields \<Longrightarrow> member dl_112_fields var j \<subseteq> {var ..< var + 20}"
  "j < length dl_113_fields \<Longrightarrow> member dl_113_fields var j \<subseteq> {var ..< var + 20}"
  "j < length dl_1112_fields \<Longrightarrow> member dl_1112_fields var j \<subseteq> {var ..< var + 20}"
proof -
  have "length dl_array_fields = Suc 0" "length dl_12_fields = Suc (Suc 0)"
    "length dl_112_fields = Suc (Suc (Suc 0))" "length dl_113_fields = Suc (Suc (Suc 0))"
    "length dl_1112_fields = Suc (Suc (Suc (Suc 0)))"
    by (simp_all add: field_tables)
  note len = this
  show "j < length dl_array_fields \<Longrightarrow> member dl_array_fields var j \<subseteq> {var ..< var + 20}"
    unfolding len by (auto simp: member_def addr_array) (simp add: field_tables layout_defs)
  have s12: "data_size (dl_12_fields ! 0) = 4" "data_size (dl_12_fields ! Suc 0) = 8"
    by (simp_all add: field_tables layout_defs)
  show "j < length dl_12_fields \<Longrightarrow> member dl_12_fields var j \<subseteq> {var ..< var + 20}"
    unfolding len by (auto simp: member_def addr_12 less_Suc_eq s12)
  have s112: "data_size (dl_112_fields ! 0) = 4" "data_size (dl_112_fields ! Suc 0) = 4"
      "data_size (dl_112_fields ! Suc (Suc 0)) = 8"
    by (simp_all add: field_tables layout_defs)
  show "j < length dl_112_fields \<Longrightarrow> member dl_112_fields var j \<subseteq> {var ..< var + 20}"
    unfolding len by (auto simp: member_def addr_112 less_Suc_eq s112)
  have s113: "data_size (dl_113_fields ! 0) = 4" "data_size (dl_113_fields ! Suc 0) = 4"
      "data_size (dl_113_fields ! Suc (Suc 0)) = 8"
    by (simp_all add: field_tables layout_defs)
  show "j < length dl_113_fields \<Longrightarrow> member dl_113_fields var j \<subseteq> {var ..< var + 20}"
    unfolding len by (auto simp: member_def addr_113 less_Suc_eq s113)
  have s1112: "data_size (dl_1112_fields ! 0) = 4" "data_size (dl_1112_fields ! Suc 0) = 4"
      "data_size (dl_1112_fields ! Suc (Suc 0)) = 4" "data_size (dl_1112_fields ! Suc (Suc (Suc 0))) = 8"
    by (simp_all add: field_tables layout_defs)
  show "j < length dl_1112_fields \<Longrightarrow> member dl_1112_fields var j \<subseteq> {var ..< var + 20}"
    unfolding len by (auto simp: member_def addr_1112 less_Suc_eq s1112)
qed

text \<open>A parser that is given the encoding of its layout calls the function with the encoded arguments.\<close>

lemma parser_calls_ints:
  assumes l: "length (encoding fs vs) < 2 ^ 32" and r: "ready (str_bytes (encoding fs vs)) t" and c: "carried fs vs"
    and T: "(T, fs, parser) \<in> {(PB_1, dl_1_fields, dl1_parser), (PB_111, dl_111_fields, dl111_parser),
      (PB_1111, dl_1111_fields, dl1111_parser)}"
  shows "calls f (call_args T ptr vs) w (parser (schema_env buf) (var, bundle) f (t, m) w)"
proof -
  consider "T = PB_1" "fs = dl_1_fields" "parser = dl1_parser"
    | "T = PB_111" "fs = dl_111_fields" "parser = dl111_parser"
    | "T = PB_1111" "fs = dl_1111_fields" "parser = dl1111_parser" using T by auto
  then show ?thesis
  proof cases
    case d: 1
    obtain a where v: "vs = [FInt a]" using c by (auto simp: d carried_shapes)
    have len: "length dl_1_fields = Suc 0" by (simp add: field_tables)
    show ?thesis
      using parse_ints [OF layouts_flat(3) c [unfolded d] _ layouts_plain(3) l [unfolded d] r [unfolded d],
          where buf = buf and args = "\<lambda>m. [load32 m var]" and var = var and f = f and m = m and w = w]
      by (auto simp: d dl1_parser_def v parser_simps len)
  next
    case d: 2
    obtain a b c' where v: "vs = [FInt a, FInt b, FInt c']" using c by (auto simp: d carried_shapes)
    have len: "length dl_111_fields = Suc (Suc (Suc 0))" by (simp add: field_tables)
    show ?thesis
      using parse_ints [OF layouts_flat(4) c [unfolded d] _ layouts_plain(4) l [unfolded d] r [unfolded d],
          where buf = buf and args = "\<lambda>m. [load32 m var, load32 m (var + 4), load32 m (var + 8)]" and var = var and f = f and m = m and w = w]
      by (auto simp: d dl111_parser_def v parser_simps len)
  next
    case d: 3
    obtain a b c' e where v: "vs = [FInt a, FInt b, FInt c', FInt e]" using c by (auto simp: d carried_shapes)
    have len: "length dl_1111_fields = Suc (Suc (Suc (Suc 0)))" by (simp add: field_tables)
    show ?thesis
      using parse_ints [OF layouts_flat(5) c [unfolded d] _ layouts_plain(5) l [unfolded d] r [unfolded d],
          where buf = buf and args = "\<lambda>m. [load32 m var, load32 m (var + 4), load32 m (var + 8), load32 m (var + 12)]" and var = var and f = f and m = m and w = w]
      by (auto simp: d dl1111_parser_def v parser_simps len)
  qed
qed

lemma parser_calls_bytes:
  assumes l: "length (encoding fs vs) < 2 ^ 32" and r: "ready (str_bytes (encoding fs vs)) t" and c: "carried fs vs"
    and fr: "frame_ok (var, bundle)"
    and T: "(T, fs, parser) \<in> {(PB_2, dl_array_fields, dl_array_parser), (PB_12, dl_12_fields, dl12_parser),
      (PB_112, dl_112_fields, dl112_parser), (PB_113, dl_113_fields, dl113_parser),
      (PB_1112, dl_1112_fields, dl1112_parser)}"
  shows "calls f (call_args T (of_int (is_state t + int (length (str_bytes (encoding fs vs))) - int (bytes_len vs))) vs) w (parser (schema_env buf) (var, bundle) f (t, m) w)"
proof -
  consider "T = PB_2" "fs = dl_array_fields" "parser = dl_array_parser"
    | "T = PB_12" "fs = dl_12_fields" "parser = dl12_parser"
    | "T = PB_112" "fs = dl_112_fields" "parser = dl112_parser"
    | "T = PB_113" "fs = dl_113_fields" "parser = dl113_parser"
    | "T = PB_1112" "fs = dl_1112_fields" "parser = dl1112_parser" using T by auto
  then show ?thesis
  proof cases
    case d: 1
    obtain bs where v: "vs = [FBytes bs]" using c by (auto simp: d carried_shapes)
    show ?thesis
      using parse_bytes [OF layouts_flat(2) c [unfolded d] _ _ _ layouts_plain(2) fr _ _ _ members_in_frame(1)
          l [unfolded d] r [unfolded d], where k = 0 and bs = bs and d = 0 and buf = buf and args = "\<lambda>m. [load32 m (bundle + 4), load32 m bundle]" and g = f and ?m0.0 = m and w = w]
      by (auto simp: d dl_array_parser_def v parser_simps dl_array_fields_def [THEN arg_cong, of length])
  next
    case d: 2
    obtain a bs where v: "vs = [FInt a, FBytes bs]" using c by (auto simp: d carried_shapes)
    show ?thesis
      using parse_bytes [OF layouts_flat(6) c [unfolded d] _ _ _ layouts_plain(6) fr _ _ _ members_in_frame(2)
          l [unfolded d] r [unfolded d], where k = "Suc 0" and bs = bs and d = 4 and buf = buf and
          args = "\<lambda>m. [load32 m var, load32 m (bundle + 4), load32 m bundle]" and g = f and ?m0.0 = m and w = w]
      by (auto simp: d dl12_parser_def v parser_simps dl_12_fields_def [THEN arg_cong, of length])
  next
    case d: 3
    obtain a b bs where v: "vs = [FInt a, FInt b, FBytes bs]" using c by (auto simp: d carried_shapes)
    show ?thesis
      using parse_bytes [OF layouts_flat(7) c [unfolded d] _ _ _ layouts_plain(7) fr _ _ _ members_in_frame(3)
          l [unfolded d] r [unfolded d], where k = "Suc (Suc 0)" and bs = bs and d = 8 and buf = buf and
          args = "\<lambda>m. [load32 m var, load32 m (var + 4), load32 m (bundle + 4), load32 m bundle]" and g = f and ?m0.0 = m and w = w]
      by (auto simp: d dl112_parser_def v parser_simps dl_112_fields_def [THEN arg_cong, of length])
  next
    case d: 4
    obtain a b bs where v: "vs = [FInt a, FInt b, FBytes bs]" using c by (auto simp: d carried_shapes)
    show ?thesis
      using parse_bytes [OF layouts_flat(8) c [unfolded d] _ _ _ layouts_plain(8) fr _ _ _ members_in_frame(4)
          l [unfolded d] r [unfolded d], where k = "Suc (Suc 0)" and bs = bs and d = 8 and buf = buf and
          args = "\<lambda>m. [load32 m var, load32 m (var + 4), load32 m (bundle + 4)]" and g = f and ?m0.0 = m and w = w]
      by (auto simp: d dl113_parser_def v parser_simps dl_113_fields_def [THEN arg_cong, of length])
  next
    case d: 5
    obtain a b c' bs where v: "vs = [FInt a, FInt b, FInt c', FBytes bs]" using c by (auto simp: d carried_shapes)
    show ?thesis
      using parse_bytes [OF layouts_flat(9) c [unfolded d] _ _ _ layouts_plain(9) fr _ _ _ members_in_frame(5)
          l [unfolded d] r [unfolded d], where k = "Suc (Suc (Suc 0))" and bs = bs and d = 12 and buf = buf and
          args = "\<lambda>m. [load32 m var, load32 m (var + 4), load32 m (var + 8), load32 m (bundle + 4), load32 m bundle]" and g = f and ?m0.0 = m and w = w]
      by (auto simp: d dl1112_parser_def v parser_simps dl_1112_fields_def [THEN arg_cong, of length])
  qed
qed

lemma parser_calls:
  assumes T: "layout_entry T = (Some fs, parser)" and c: "carried fs vs" and fr: "frame_ok (var, bundle)"
    and l: "length (encoding fs vs) < 2 ^ 32" and r: "ready (str_bytes (encoding fs vs)) t"
  shows "calls f (call_args T (of_int (is_state t + int (length (str_bytes (encoding fs vs))) - int (bytes_len vs))) vs) w (parser (schema_env buf) (var, bundle) f (t, m) w)"
proof (cases "T \<in> {PB_1, PB_111, PB_1111}")
  case True
  then have "(T, fs, parser) \<in> {(PB_1, dl_1_fields, dl1_parser), (PB_111, dl_111_fields, dl111_parser),
      (PB_1111, dl_1111_fields, dl1111_parser)}" using T by auto
  from parser_calls_ints [OF l r c this] show ?thesis by blast
next
  case False
  then have "(T, fs, parser) \<in> {(PB_2, dl_array_fields, dl_array_parser), (PB_12, dl_12_fields, dl12_parser),
      (PB_112, dl_112_fields, dl112_parser), (PB_113, dl_113_fields, dl113_parser),
      (PB_1112, dl_1112_fields, dl1112_parser)}" using T by (cases T) auto
  from parser_calls_bytes [OF l r c fr this] show ?thesis by blast
qed

section \<open>A call and its receipt\<close>

lemma serialize_header:
  assumes lay: "mblue_pb_data_layout_get index = Some None" and hp: "\<not> hfail hp (hcalls hp)"
    and e: "emits (pb_encode schema_depth env (header_memory hdr meth index m) dl_rpc_header_fields hdr) he"
    and l: "length he < 128"
  shows "\<exists>pad. mblue_serialize_ipc env hdr m meth index src hp = Some (granted hp (str_bytes he @ 0 # pad))"
proof -
  let ?m = "header_memory hdr meth index m" and ?H = "str_bytes he"
  let ?size = "of_nat (length he) + 4 :: u32"
  have sz: "unat ?size = length he + 4" using l by (simp add: unat_word_ariths unat_of_nat)
  have hs: "layout_size env ?m (Some dl_rpc_header_fields) hdr = Some (Some (of_nat (length he)))"
    using l by (intro layout_size_ok e) simp
  obtain p hp1 blk where mal: "mblue_malloc ?size hp = Some (p, hp1)" "granted hp blk = (p, hp1)"
      "unat ?size \<le> length blk" "\<And>k. k < unat ?size \<Longrightarrow> \<exists>pad. drop k blk = 0 # pad"
    and up: "length blk \<le> unat ?size + 15"
    by (rule malloc_granted [of hp ?size]) (use hp sz l in auto)
  note gr = granted_facts [OF mal(2)]
  have Hl: "length ?H = length he + 1" using l by (rule length_str_bytes_short)
  let ?s0 = "pb_ostream_from_buffer ?size"
  have e1: "emits (pb_encode_delimited schema_depth env ?m dl_rpc_header_fields hdr) ?H"
    unfolding pb_encode_delimited_def str_bytes_def using l by (intro emits_submessage e) simp
  let ?hp2 = "hp1\<lparr>hblocks := (hblocks hp1)(p \<mapsto> ?H @ drop (length ?H) blk)\<rparr>"
  have b1: "encode_block p (pb_encode_delimited schema_depth env ?m dl_rpc_header_fields hdr) ?s0 hp1 =
      Some (True, put ?H ?s0, ?hp2)"
    using encode_block_ok [OF e1 _ _ _ gr(2), of ?s0] sz Hl l mal(3)
    by (simp add: sane_def fits_def pb_ostream_from_buffer_def)
  have "mblue_serialize_ipc env hdr m meth index src hp = Some (p, ?hp2)"
    using lay hs mal(1) gr(1) b1
    by (simp add: mblue_serialize_ipc_def layout_size_none header_memory_def [symmetric] Let_def del: fun_upd_apply)
  moreover obtain pad where pad: "drop (length ?H) blk = 0 # pad" using mal(4) [of "length ?H"] sz Hl by auto
  moreover have "length (?H @ 0 # pad) = length blk" unfolding pad [symmetric] using mal(3) sz Hl by simp
  note gr(3) [OF this]
  ultimately show ?thesis by (intro exI [of _ pad]) simp
qed

lemma serialize_plain:
  assumes lay: "mblue_pb_data_layout_get index = Some None"
    and n: "0 \<notin> set meth" "length meth \<le> 30" "hdr \<noteq> 0" "hdr + 32 \<noteq> 0" and hp: "\<not> hfail hp (hcalls hp)"
  shows "\<exists>pad. mblue_serialize_ipc (schema_env buf) hdr m meth index src hp =
    Some (granted hp (call_bytes meth index None vs @ 0 # pad))"
proof -
  have "emits (pb_encode schema_depth (schema_env buf) (header_memory hdr meth index m) dl_rpc_header_fields hdr)
      (encoding dl_rpc_header_fields (header_values meth index))"
    unfolding schema_depth_def One_nat_def
    using n by (intro schema.emits_message layouts_flat header_carried header_holds) simp_all
  then show ?thesis
    using serialize_header [OF lay hp] header_length [of meth index] n
    by (simp add: call_bytes_def layout_bytes_def)
qed

definition last_bytes :: "fval list \<Rightarrow> u8 list" where
  "last_bytes vs = (case rev vs of FBytes bs # _ \<Rightarrow> bs | _ \<Rightarrow> [])"

lemma bytes_len_last: "bytes_len vs = length (last_bytes vs)"
  by (simp add: bytes_len_def last_bytes_def split: list.split fval.split)

lemma encoding_last:
  assumes c: "carried fs vs"
  shows "\<exists>x. encoding fs vs = x @ last_bytes vs"
proof (cases vs rule: rev_cases)
  case (snoc ws v)
  have l: "length fs = Suc (length ws)" using c snoc by (simp add: carried_def)
  show ?thesis
  proof (cases v)
    case (FBytes bs)
    have "message_items fs vs = take (length ws) (message_items fs vs) @ [(length ws, str_bytes bs)]"
      using l by (simp add: message_items_def take_map snoc FBytes)
    then have "encoding fs vs = message_bytes fs (\<lambda>i. field_wt (fs ! i)) (take (length ws) (message_items fs vs)) @
        item_tag fs (\<lambda>i. field_wt (fs ! i)) (length ws) @ varint_bytes (of_nat (length bs)) @ bs"
      unfolding encoding_def str_bytes_def
      by (metis (no_types, lifting) append.right_neutral concat.simps(2) concat_append
          list.simps(8) list.simps(9) map_append message_bytes_def concat.simps(1) old.prod.case)
    then show ?thesis by (simp add: last_bytes_def snoc FBytes)
  qed (simp_all add: last_bytes_def snoc)
qed (simp add: last_bytes_def)

definition layout_carries :: "pb_field list option \<Rightarrow> fval list \<Rightarrow> bool" where
  "layout_carries lay vs \<longleftrightarrow> (case lay of None \<Rightarrow> vs = [] | Some fs \<Rightarrow> carried fs vs)"

definition layout_holds :: "cmem \<Rightarrow> pb_field list option \<Rightarrow> int \<Rightarrow> fval list \<Rightarrow> bool" where
  "layout_holds m lay src vs \<longleftrightarrow> (case lay of None \<Rightarrow> True
     | Some fs \<Rightarrow> (\<forall>i<length fs. holds FN_WRITE_BYTES m (field_addr fs src i) (vs ! i)))"

lemma layout_get: "layout_entry T = (lay, parser) \<Longrightarrow> mblue_pb_data_layout_get (pb_type_index T) = Some lay"
    and parser_get: "mblue_pb_data_parser_get (pb_type_index T) = Some (snd (layout_entry T))"
  by (cases T; auto simp: mblue_pb_data_layout_get_def mblue_pb_data_parser_get_def layout_at_def
      mblue_pb_data_layout_array_def)+

lemma layout_flat: "layout_entry T = (Some fs, parser) \<Longrightarrow> flat fs"
  using layouts_flat by (cases T) auto

lemma receive_call_ok:
  fixes parser :: "'w parser" and f :: "'w service"
  assumes T: "layout_entry T = (lay, parser)" and c: "layout_carries lay vs" and fr: "frame_ok frame"
    and n: "0 \<notin> set meth" "length meth \<le> 30"
    and l: "case lay of None \<Rightarrow> True | Some fs \<Rightarrow> length (encoding fs vs) < 2 ^ 31"
  shows "receive_call (schema_env buf) hdr frame addr (call_bytes meth (pb_type_index T) lay vs @ pad) f m w =
    map_option Some (f (call_args T (of_int (addr +
      int (length (call_bytes meth (pb_type_index T) lay vs) - bytes_len vs))) vs) w)"
proof -
  let ?H = "str_bytes (encoding dl_rpc_header_fields (header_values meth (pb_type_index T)))"
  let ?bytes = "call_bytes meth (pb_type_index T) lay vs @ pad"
  let ?s = "adv (length ?H) (pb_istream_from_buffer addr ?bytes (-1))"
  have "length (encoding dl_rpc_header_fields (header_values meth (pb_type_index T))) \<le> 71"
    using header_length [of meth "pb_type_index T"] n by simp
  then have hl: "length ?H \<le> 72"
    using length_str_bytes_short [of "encoding dl_rpc_header_fields (header_values meth (pb_type_index T))"] by simp
  obtain m' where h: "receive_header (schema_env buf) hdr addr ?bytes m = Some (Some (pb_type_index T, ?s, m'))"
    using receive_header_ok [OF n, of ?bytes "pb_type_index T" "layout_bytes lay vs @ pad" buf hdr addr m]
    by (auto simp: call_bytes_def)
  have p: "mblue_pb_data_parser_get (pb_type_index T) = Some parser" by (simp add: parser_get T)
  show ?thesis
  proof (cases lay)
    case None
    then have "T = PB_0" "vs = []" using T c by (cases T; simp add: layout_carries_def)+
    then show ?thesis
      using T h p None by (simp add: receive_call_def simple_request_parser_def call_args_def call_service_def map_conv_bind_option split_def o_def)
  next
    case (Some fs)
    let ?D = "str_bytes (encoding fs vs)"
    have c': "carried fs vs" and l': "length (encoding fs vs) < 2 ^ 31"
      using c l Some by (simp_all add: layout_carries_def)
    have dl: "length ?D \<le> length (encoding fs vs) + 5" using l' by (intro length_str_bytes) simp
    have "unat (-1 :: u32) = 2 ^ 32 - 1" by (simp add: unsigned_minus_1_eq_mask mask_eq_exp_minus_1)
    then have r: "ready ?D ?s"
      using hl dl l' unat_minus_of_nat [of "length ?H" "-1"]
      by (simp add: ready_def Some call_bytes_def layout_bytes_def pb_istream_from_buffer_def)
    obtain var bdl where frame: "frame = (var, bdl)" by force
    have bl: "bytes_len vs \<le> length (encoding fs vs)" using encoding_last [OF c'] by (auto simp: bytes_len_last)
    have e: "is_state ?s + int (length ?D) - int (bytes_len vs) =
        addr + int (length (call_bytes meth (pb_type_index T) lay vs) - bytes_len vs)"
      using bl by (simp add: call_bytes_def layout_bytes_def Some pb_istream_from_buffer_def str_bytes_def)
    have "calls f (call_args T (of_int (is_state ?s + int (length ?D) - int (bytes_len vs))) vs) w
        (parser (schema_env buf) frame f (?s, m') w)"
      using parser_calls [OF T [unfolded Some] c' fr [unfolded frame] _ r, where buf = buf and f = f and m = m' and w = w] l' frame by auto
    then show ?thesis using h p by (simp only: e) (auto simp: receive_call_def calls_def call_service_def map_conv_bind_option split_def o_def)
  qed
qed

text \<open>The block of a serialised call has room for at least one more byte, which is zero: text at the end
  of the arguments is terminated in the block.\<close>

lemma serialize_ipc_ok:
  assumes T: "layout_entry T = (lay, parser)" and c: "layout_carries lay vs"
    and h: "layout_holds (header_memory hdr meth (pb_type_index T) m) lay src vs"
    and n: "0 \<notin> set meth" "length meth \<le> 30" "hdr \<noteq> 0" "hdr + 32 \<noteq> 0"
    and l: "case lay of None \<Rightarrow> True | Some fs \<Rightarrow> length (encoding fs vs) < 2 ^ 31"
    and hp: "\<not> hfail hp (hcalls hp)"
  shows "\<exists>pad. mblue_serialize_ipc (schema_env buf) hdr m meth (pb_type_index T) src hp =
    Some (granted hp (call_bytes meth (pb_type_index T) lay vs @ 0 # pad)) \<and>
    (\<forall>fs. lay = Some fs \<longrightarrow> length (call_bytes meth (pb_type_index T) lay vs @ 0 # pad) \<le> 94 + length (encoding fs vs))"
proof -
  have g: "mblue_pb_data_layout_get (pb_type_index T) = Some lay" using layout_get [OF T] .
  show ?thesis
  proof (cases lay)
    case None
    then show ?thesis using serialize_plain [OF g [unfolded None] n hp] by simp
  next
    case (Some fs)
    have "carried fs vs" "length (encoding fs vs) < 2 ^ 31"
        "\<forall>i<length fs. holds FN_WRITE_BYTES (header_memory hdr meth (pb_type_index T) m) (field_addr fs src i) (vs ! i)"
      using c l h Some by (simp_all add: layout_carries_def layout_holds_def)
    then show ?thesis
      using serialize_call [OF g [unfolded Some] layout_flat [OF T [unfolded Some]] _ _ n _ hp] Some by auto
  qed
qed

lemma call_bytes_last: "layout_carries lay vs \<Longrightarrow> \<exists>x. call_bytes meth index lay vs = x @ last_bytes vs"
  by (cases lay) (auto simp: layout_carries_def last_bytes_def call_bytes_def layout_bytes_def str_bytes_def
      dest: encoding_last)

text \<open>C7 (ipc\_payload\_round\_trip): a call of any layout, serialised by the client from a struct that holds
  its arguments, gives a heap block from which the receiver decodes the same layout and calls the
  service function with the same integers and with a pointer to the same bytes inside the block.\<close>

theorem ipc_payload_round_trip:
  fixes parser :: "'w parser" and f :: "'w service"
  assumes T: "layout_entry T = (lay, parser)" and c: "layout_carries lay vs"
    and h: "layout_holds (header_memory hdr meth (pb_type_index T) m) lay src vs"
    and n: "0 \<notin> set meth" "length meth \<le> 30" "hdr \<noteq> 0" "hdr + 32 \<noteq> 0"
    and l: "case lay of None \<Rightarrow> True | Some fs \<Rightarrow> length (encoding fs vs) < 2 ^ 31"
    and hp: "\<not> hfail hp (hcalls hp)" and fr: "frame_ok frame"
  shows "\<exists>p hp' bytes off.
    mblue_serialize_ipc (schema_env buf) hdr m meth (pb_type_index T) src hp = Some (p, hp') \<and> p \<noteq> 0 \<and>
    hblocks hp' p = Some bytes \<and> take (bytes_len vs) (drop off bytes) = last_bytes vs \<and>
    receive_call (schema_env buf) hdr2 frame (int p) bytes f m2 w =
      map_option Some (f (call_args T (of_int (int p + int off)) vs) w)"
proof -
  let ?b = "call_bytes meth (pb_type_index T) lay vs"
  let ?off = "length ?b - bytes_len vs"
  obtain pad where "mblue_serialize_ipc (schema_env buf) hdr m meth (pb_type_index T) src hp = Some (granted hp (?b @ pad))"
    using serialize_ipc_ok [OF T c h n l hp] by blast
  moreover obtain p hp' where g: "granted hp (?b @ pad) = (p, hp')" by force
  ultimately have s: "mblue_serialize_ipc (schema_env buf) hdr m meth (pb_type_index T) src hp = Some (p, hp')" by simp
  obtain x where x: "?b = x @ last_bytes vs" using call_bytes_last [OF c] by blast
  then have "take (bytes_len vs) (drop ?off (?b @ pad)) = last_bytes vs" by (simp add: bytes_len_last)
  then show ?thesis
    using s granted_facts(1,2) [OF g] receive_call_ok [OF T c fr n(1,2) l, where buf = buf and hdr = hdr2 and addr = "int p" and pad = pad and f = f and m = m2 and w = w]
    by blast
qed

text \<open>A struct \<^verbatim>\<open>dl_12\<close> at 100 with the number 7 and a bundler at 200 of the two bytes at 300.\<close>

definition sample_struct :: cmem where
  "sample_struct = store_bytes (set_bundle 200 300 2
     (store32 (store32 (store32 (\<lambda>_. 0xEE) 100 7) 104 FN_WRITE_BYTES) 108 200)) 300 [5, 6]"

lemma sample_struct_holds:
  "layout_holds (header_memory 40 [109, 49] (pb_type_index PB_12) sample_struct) (Some dl_12_fields) 100 [FInt 7, FBytes [5, 6]]"
proof -
  let ?m = "header_memory 40 [109, 49] 3 sample_struct"
  have hm: "?m x = sample_struct x" if "76 \<le> x" for x
    using that by (simp add: header_memory_def store32_other store_bytes_def strncpy_short MAX_IPC_METHOD_NAME_LENGTH_def)
  have w: "load32 ?m x = load32 sample_struct x" if "76 \<le> x" for x
    by (rule load32_cong, rule hm) (use that in simp)
  have s: "load32 sample_struct x =
      load32 (set_bundle 200 300 2 (store32 (store32 (store32 (\<lambda>_. 0xEE) 100 7) 104 FN_WRITE_BYTES) 108 200)) x"
    if "x \<le> 296" for x
    unfolding sample_struct_def by (rule load32_cong) (use that in \<open>simp add: store_bytes_other\<close>)
  have "load32 ?m 100 = 7" "load32 ?m 104 = FN_WRITE_BYTES" "load32 ?m 108 = 200" "load32 ?m 200 = 2" "load32 ?m 204 = 300"
    by (simp_all add: w s set_bundle_def load32_store32_other)
  moreover have "load_bytes ?m 300 2 = [5, 6]"
  proof -
    have "load_bytes ?m 300 2 = load_bytes sample_struct 300 2"
      by (rule load_bytes_cong) (rule hm, simp)
    also have "\<dots> = [5, 6]"
      using load_store_bytes [of _ 300 "[5, 6]"] unfolding sample_struct_def
      by (simp add: numeral_2_eq_2 del: load_bytes.simps)
    finally show ?thesis .
  qed
  moreover have "?m 300 = 5" "?m 301 = 6"
    using hm [of 300] hm [of 301] by (simp_all only: sample_struct_def store_bytes_def) simp_all
  moreover have "length dl_12_fields = Suc (Suc 0)" by (simp add: field_tables)
  ultimately show ?thesis
    by (auto simp: layout_holds_def less_Suc_eq addr_12 callback_funcs_def load_ptr_def bundles_def bundle_len_def bundle_ptr_def)
qed

lemma sample_encoding_length: "length (encoding dl_12_fields [FInt 7, FBytes [5, 6]]) \<le> 42"
proof -
  have "length (varint_bytes v) \<le> 10" for v by (rule length_varint_bytes)
  from this [of "tag_value (field_wt (dl_12_fields ! 0)) (ucast (fd_tag (dl_12_fields ! 0)))"] this [of "scast (7 :: u32)"]
    this [of "tag_value (field_wt (dl_12_fields ! 1)) (ucast (fd_tag (dl_12_fields ! 1)))"] this [of "of_nat 2"]
  show ?thesis
    by (simp add: encoding_def message_bytes_def message_items_def item_tag_def tag_bytes_def key_bytes_def
      str_bytes_def int_bytes_def field_tables layout_defs type_parts)
qed

lemma sample_encoding_short: "length (encoding dl_12_fields [FInt 7, FBytes [5, 6]]) < 2 ^ 31"
  using sample_encoding_length by simp

theorem ipc_payload_round_trip_witness:
  "\<exists>p hp' bytes off.
    mblue_serialize_ipc (schema_env 0) 40 sample_struct [109, 49] (pb_type_index PB_12) 100 fresh_heap = Some (p, hp') \<and>
    p \<noteq> 0 \<and> hblocks hp' p = Some bytes \<and> take 2 (drop off bytes) = [5, 6] \<and>
    receive_call (schema_env 0) 1000 (2000, 3000) (int p) bytes (\<lambda>args w. Some (args ! 0 + args ! 2, Suc w)) (\<lambda>_. 0) 4 = Some (Some (9, 5))"
proof -
  have "layout_carries (Some dl_12_fields) [FInt 7, FBytes [5, 6]]"
    by (simp add: layout_carries_def carried_shapes)
  moreover have "bytes_len [FInt 7, FBytes [5, 6]] = 2" by (simp add: bytes_len_def)
  ultimately show ?thesis
    using ipc_payload_round_trip [OF layout_entry.simps(4) _ sample_struct_holds, where hp = fresh_heap and frame = "(2000, 3000)"
      and f = "\<lambda>args w. Some (args ! 0 + args ! 2, Suc w)" and w = 4 and ?hdr2.0 = 1000 and buf = 0 and ?m2.0 = "\<lambda>_. 0"] sample_encoding_short
    by (simp add: fresh_heap_def frame_ok_def last_bytes_def call_args_def arg_words_def)
qed

end
