(* ===== verification/Segment.thy ===== *)
theory Segment
  imports Ipc Pb_Schema
begin

text \<open>
  What a task does with the messages of its queue: the default handlers of a segment
  (\<^verbatim>\<open>middleware/components/segment/mblue_segment.c\<close>), one turn of the loop of \<^verbatim>\<open>template_proc\<close> and the
  binding of a segment to a task (\<^verbatim>\<open>pal/task/mblue_stdtask.c\<close>). The functions of the applications
  are a parameter; call headers and arguments are decoded by the parsers of the data schema. A handler runs
  to its end without waiting and without another task running in between, so the second look at the
  type of a return message it has posted finds that it need not wait.
\<close>

section \<open>What the applications provide\<close>

text \<open>Where the locals of a handler are: the header struct, the frame of the parser and the array for raw
  values of the decoder, and what the stack held before.\<close>

record stack =
  st_header :: int
  st_frame :: frame
  st_raw :: int
  st_memory :: cmem

record 'u app =
  app_signal :: "nat \<Rightarrow> addr \<Rightarrow> SMART_DATA \<Rightarrow> 'u bus_world \<Rightarrow> (int \<times> 'u bus_world) option"
  app_service :: "nat \<Rightarrow> 'u bus_world service"
  app_stack :: stack
  app_notify :: "'u notify_fn"
  app_launch :: "nat \<Rightarrow> addr \<Rightarrow> 'u bus_world \<Rightarrow> 'u bus_world option"

section \<open>The default handlers\<close>

text \<open>The search of an item array; running past an array without an end mark is an error.\<close>

fun find_item :: "handler_item list \<Rightarrow> u32 \<Rightarrow> nat option option" where
  "find_item [] minor = None"
| "find_item (p # ps) minor =
     (if item_id p = END_ITEM_ID then Some None
      else if item_id p = minor then Some (Some (item_handler p)) else find_item ps minor)"

definition items_lookup :: "addr \<Rightarrow> nat \<Rightarrow> u32 \<Rightarrow> 'u bus_world \<Rightarrow> nat option option" where
  "items_lookup ms type minor w =
     (case items_array (bw_segs w ms) type of None \<Rightarrow> Some None | Some items \<Rightarrow> find_item items minor)"

definition free_payload :: "addr \<Rightarrow> 'u bus_world \<Rightarrow> 'u bus_world option" where
  "free_payload msg w =
     (let p = smart_payload (msg_at w msg) in if PB_PAYLOAD p then world_free (unat p) w else Some w)"

text \<open>The result of \<^verbatim>\<open>default_signal_handler\<close> is uninitialised when no item matches: \<open>rc\<close> is its
  first value.\<close>

definition default_signal_handler ::
    "'u app \<Rightarrow> int \<Rightarrow> addr \<Rightarrow> addr \<Rightarrow> 'u bus_world \<Rightarrow> (int \<times> 'u bus_world) option" where
  "default_signal_handler A rc ms msg w = do {
     let minor = GET_MINOR (m_code (msg_at w msg));
     let w = link_msg ms msg w;
     h \<leftarrow> items_lookup ms (type_value SIGNAL) minor w;
     (rc, w) \<leftarrow> (case h of None \<Rightarrow> Some (rc, w)
                | Some f \<Rightarrow> if f = 0 then None else app_signal A f ms (smart_payload (msg_at w msg)) w);
     w \<leftarrow> free_payload msg w;
     Some (rc, world_release msg w)
   }"

definition find_ipc_handler_from_service :: "addr \<Rightarrow> addr \<Rightarrow> 'u bus_world \<Rightarrow> nat option" where
  "find_ipc_handler_from_service ms msg w = do {
     h \<leftarrow> items_lookup ms (type_value SYNC_CALL) (GET_MINOR (m_code (msg_at w msg))) w;
     Some (case h of None \<Rightarrow> 0 | Some f \<Rightarrow> f)
   }"

definition PB_MAX :: u16 where
  "PB_MAX = 9"

definition sender_code :: "sender \<Rightarrow> mblue_errcode" where
  "sender_code s = (case s of Sent rc \<Rightarrow> rc | _ \<Rightarrow> MBLUE_OK)"

text \<open>The header is decoded from the payload; when that fails the handler returns at once. Otherwise
  the function of the service is looked up and its answer is sent back, unless it says that the call
  is still pending; then the payload and the message are released.\<close>

text \<open>Without a payload the index is \<^verbatim>\<open>PB_MAX\<close>, for which there is no parser, and the stream is not
  initialised.\<close>

definition ipc_header :: "'u app \<Rightarrow> addr \<Rightarrow> 'u bus_world \<Rightarrow> (u16 \<times> dec_state) option option" where
  "ipc_header A msg w =
     (let p = smart_payload (msg_at w msg); k = app_stack A
      in if PB_PAYLOAD p
         then (case hblocks (bw_heap w) (unat p) of None \<Rightarrow> None
               | Some bytes \<Rightarrow>
                   receive_header (schema_env (st_raw k)) (st_header k) (int (unat p)) bytes (st_memory k))
         else Some (Some (PB_MAX, pb_istream_from_buffer 0 [] 0, st_memory k)))"

definition ipc_run ::
    "nat \<Rightarrow> 'u app \<Rightarrow> nat \<Rightarrow> u16 \<times> dec_state \<Rightarrow> addr \<Rightarrow> addr \<Rightarrow> 'u bus_world \<Rightarrow> (mblue_errcode \<times> 'u bus_world) option" where
  "ipc_run fuel A self header ms msg w = do {
     f \<leftarrow> find_ipc_handler_from_service ms msg w;
     if f = 0 then Some (MBLUE_ERR_PB_DECODE, w)
     else do {
       data_parser \<leftarrow> mblue_pb_data_parser_get (fst header);
       (ret, _, w) \<leftarrow> data_parser (schema_env (st_raw (app_stack A))) (st_frame (app_stack A)) (app_service A f)
         (snd header) w;
       if INTEGER_P ret \<and> word_errcode (GET_INTEGER ret) = errcode_value MBLUE_REMOTE_CALL_PENDING
       then Some (MBLUE_ERR_PB_DECODE, w)
       else do {
         (s, w) \<leftarrow> ipc_return fuel self (ucast (GET_MAJOR (m_code (msg_at w msg)))) (m_seq (msg_at w msg)) ret w;
         Some (sender_code s, w)
       }
     }
   }"

definition default_ipc_handler ::
    "nat \<Rightarrow> 'u app \<Rightarrow> nat \<Rightarrow> addr \<Rightarrow> addr \<Rightarrow> 'u bus_world \<Rightarrow> (mblue_errcode \<times> 'u bus_world) option" where
  "default_ipc_handler fuel A self ms msg w = do {
     let w = link_msg ms msg w;
     header \<leftarrow> ipc_header A msg w;
     (case header of None \<Rightarrow> Some (MBLUE_ERR_PB_DECODE, w)
      | Some header \<Rightarrow> do {
          (rc, w) \<leftarrow> ipc_run fuel A self header ms msg w;
          w \<leftarrow> free_payload msg w;
          Some (rc, world_release msg w)
        })
   }"

section \<open>One turn of a task\<close>

definition call_handler ::
    "nat \<Rightarrow> 'u app \<Rightarrow> nat \<Rightarrow> segment_handler \<Rightarrow> addr \<Rightarrow> addr \<Rightarrow> 'u bus_world \<Rightarrow> 'u bus_world option" where
  "call_handler fuel A self h ms msg w =
     (case h of
        Null_handler \<Rightarrow> None
      | Default_signal_handler \<Rightarrow> do { (rc, w) \<leftarrow> default_signal_handler A 0 ms msg w; Some w }
      | Default_ipc_handler \<Rightarrow> do { (rc, w) \<leftarrow> default_ipc_handler fuel A self ms msg w; Some w }
      | Handle_subscribe \<Rightarrow> do { (rc, w) \<leftarrow> handle_subscribe msg w; Some w }
      | Handle_signal \<Rightarrow> do { (rc, w) \<leftarrow> handle_signal fuel msg w; Some w }
      | Handle_call \<Rightarrow> do { (rc, w) \<leftarrow> handle_call msg w; Some w }
      | Handle_call_return \<Rightarrow> do { (rc, w) \<leftarrow> handle_call_return fuel (app_notify A) msg w; Some w })"

definition template_proc_turn ::
    "nat \<Rightarrow> 'u app \<Rightarrow> bool \<Rightarrow> addr \<Rightarrow> 'u bus_world \<Rightarrow> 'u bus_world pend option" where
  "template_proc_turn fuel A interrupted task w = do {
     r \<leftarrow> semaphore_pend interrupted (msg_sem (bw_tasks w task));
     (case r of Blocked \<Rightarrow> Some Blocked
      | Returns (rc, sem) \<Rightarrow>
          let w = upd_task task (msg_sem_update (\<lambda>_. sem)) w
          in if rc \<noteq> MBLUE_OK then Some (Returns w)
             else do {
               let mq = t_mq (bw_tasks w task);
               (msg, q) \<leftarrow> queue_remove (bw_queues w mq);
               let w = w\<lparr>bw_queues := (bw_queues w)(mq := q)\<rparr>;
               if msg = 0 then None
               else let ms = m_dst (msg_at w msg);
                        type = unat (GET_TYPE (m_code (msg_at w msg)))
                    in if ms = 0 then None
                       else do {
                         h \<leftarrow> mblue_segment_get_handler ms type w;
                         w \<leftarrow> call_handler fuel A (t_obj (bw_tasks w task)) h ms msg w;
                         Some (Returns w)
                       }
             })
   }"

section \<open>Binding a segment\<close>

text \<open>\<^verbatim>\<open>segment_bind\<close> up to the registration, which may wait, and after it.\<close>

definition segment_bind_link :: "addr \<Rightarrow> addr \<Rightarrow> 'u bus_world \<Rightarrow> 'u bus_world" where
  "segment_bind_link task ms w =
     (let w = get_system_bus_instance w;
          w = mblue_segment_set_context ms task w
      in w\<lparr>bw_seg_links := list_add_tail (list_node_of ms) (list_head_of task) (bw_seg_links w)\<rparr>)"

definition service_launch :: "int \<Rightarrow> addr \<Rightarrow> 'u bus_world \<Rightarrow> 'u bus_world option" where
  "service_launch rc ms w = do {
     let ts = mblue_segment_get_context ms w;
     let (created, w) = ipc_facade_create_instance ts w;
     (rc, w) \<leftarrow> bus_contex_notify rc w;
     Some w
   }"

definition segment_launch :: "'u app \<Rightarrow> addr \<Rightarrow> 'u bus_world \<Rightarrow> 'u bus_world option" where
  "segment_launch A ms w =
     (case on_launch (bw_segs w ms) of
        Null_launch \<Rightarrow> None
      | Default_launch \<Rightarrow> Some w
      | Bus_launch \<Rightarrow> service_launch 0 ms w
      | App_launch f \<Rightarrow> app_launch A f ms w)"

definition segment_bind_register ::
    "'u app \<Rightarrow> bool \<Rightarrow> addr \<Rightarrow> 'u bus_world \<Rightarrow> 'u bus_world pend option" where
  "segment_bind_register A interrupted ms w = do {
     r \<leftarrow> bus_register interrupted ms w;
     (case r of Blocked \<Rightarrow> Some Blocked
      | Returns w \<Rightarrow> do { w \<leftarrow> segment_launch A ms w; Some (Returns w) })
   }"

end
