(* ===== verification/Bus_Safety.thy ===== *)
theory Bus_Safety
  imports Segment "HOL-Library.Multiset"
begin

text \<open>
  Whatever the tasks and their clients do and in whatever order, no message is handed out again while
  a task's queue or a pending call still refers to it. The reference count of a message covers its
  holders, where a count of zero covers one holder as one does: messages that are not calls are sent
  with a count of zero.
\<close>

section \<open>Messages and their holders\<close>

definition backed :: "message_system \<Rightarrow> addr multiset \<Rightarrow> bool" where
  "backed s H \<longleftrightarrow> (\<exists>free. pool_holds s free \<and>
     (\<forall>m\<in>#H. m \<in> msg_objs \<and> m \<notin> set free \<and> count H m \<le> max 1 (unat (m_ref (ms_pool s m)))))"

lemma backed_subset: "backed s H \<Longrightarrow> H' \<subseteq># H \<Longrightarrow> backed s H'"
  unfolding backed_def by (meson le_trans mset_subset_eqD mset_subset_eq_count)

lemma backed_drop: "backed s (add_mset m H) \<Longrightarrow> backed s H"
  by (erule backed_subset) simp

lemma backed_alloc:
  assumes "backed s H" and "mblue_message_alloc s = (m, s')"
  shows "backed s' H" and "m \<noteq> 0 \<Longrightarrow> backed s' (add_mset m H)" and "m \<noteq> 0 \<Longrightarrow> m \<notin># H"
    and "ms_pool s' = (if m = 0 then ms_pool s else (ms_pool s)(m := zero_message))"
proof -
  obtain free where f: "pool_holds s free"
    "\<forall>m\<in>#H. m \<in> msg_objs \<and> m \<notin> set free \<and> count H m \<le> max 1 (unat (m_ref (ms_pool s m)))"
    using assms(1) unfolding backed_def by blast
  have "backed s' H \<and> (m \<noteq> 0 \<longrightarrow> backed s' (add_mset m H) \<and> m \<notin># H) \<and>
    ms_pool s' = (if m = 0 then ms_pool s else (ms_pool s)(m := zero_message))"
  proof (cases free)
    case Nil
    with f alloc_null [of s] assms(2) show ?thesis by (auto simp: backed_def)
  next
    case (Cons m0 rest)
    with f(1) alloc_first [of s m0 rest] assms(2) have
      a: "m = m0" "pool_holds s' rest" "ms_pool s' = (ms_pool s)(m := zero_message)" by auto
    have m: "m \<in> msg_objs" "m \<notin> set rest" "m \<notin># H"
      using mpool.holds_objs [OF f(1)] f(2) Cons a(1) by auto
    have z: "m \<noteq> 0" using msg_objs_facts [OF m(1)] by simp
    have "\<forall>m'\<in>#H. m' \<in> msg_objs \<and> m' \<notin> set rest \<and> m' \<noteq> m \<and> count H m' \<le> max 1 (unat (m_ref (ms_pool s' m')))"
      using f(2) Cons m(3) by (auto simp: a(3))
    then have "backed s' (add_mset m H)" unfolding backed_def
      using a(2) m by (intro exI [of _ rest]) (auto simp: not_in_iff)
    then show ?thesis using z m(3) a(3) backed_drop by auto
  qed
  then show "backed s' H" "m \<noteq> 0 \<Longrightarrow> backed s' (add_mset m H)" "m \<noteq> 0 \<Longrightarrow> m \<notin># H"
    "ms_pool s' = (if m = 0 then ms_pool s else (ms_pool s)(m := zero_message))" by auto
qed

lemma backed_release:
  assumes "backed s (add_mset m H)"
  shows "backed (mblue_message_release m s) H"
    and "\<And>m'. m' \<noteq> m \<Longrightarrow> ms_pool (mblue_message_release m s) m' = ms_pool s m'"
proof -
  obtain free where f: "pool_holds s free" "\<forall>m'\<in>#add_mset m H. m' \<in> msg_objs \<and> m' \<notin> set free \<and>
      count (add_mset m H) m' \<le> max 1 (unat (m_ref (ms_pool s m')))"
    using assms(1) unfolding backed_def by blast
  have m: "m \<in> msg_objs" "m \<notin> set free" "Suc (count H m) \<le> max 1 (unat (m_ref (ms_pool s m)))" using f(2) by auto
  have H: "m' \<in> msg_objs \<and> m' \<notin> set free \<and> count H m' \<le> max 1 (unat (m_ref (ms_pool s m')))"
    if "m' \<in># H" "m' \<noteq> m" for m' using f(2) that by auto
  have "backed (mblue_message_release m s) H \<and>
    (\<forall>m'. m' \<noteq> m \<longrightarrow> ms_pool (mblue_message_release m s) m' = ms_pool s m')"
  proof (cases "unat (m_ref (ms_pool s m)) \<le> 1")
    case True
    note r = release_last [OF f(1) m(1,2) True]
    have "count H m = 0" using m(3) True by simp
    then have "m \<notin># H" by (simp add: not_in_iff)
    then have ne: "m' \<noteq> m" if "m' \<in># H" for m' using that by auto
    have "\<forall>m'\<in>#H. m' \<in> msg_objs \<and> m' \<notin> set (free @ [m]) \<and>
        count H m' \<le> max 1 (unat (m_ref (ms_pool (mblue_message_release m s) m')))"
      using H ne r(3) [OF ne] by simp
    then show ?thesis using r unfolding backed_def by blast
  next
    case False
    then have "1 < unat (m_ref (ms_pool s m))" by simp
    note r = release_shared [OF f(1) this]
    have "\<forall>m'\<in>#H. m' \<in> msg_objs \<and> m' \<notin> set free \<and>
        count H m' \<le> max 1 (unat (m_ref (ms_pool (mblue_message_release m s) m')))"
    proof
      fix m' assume "m' \<in># H"
      then show "m' \<in> msg_objs \<and> m' \<notin> set free \<and>
          count H m' \<le> max 1 (unat (m_ref (ms_pool (mblue_message_release m s) m')))"
        using H [of m'] r(2,3) m False by (cases "m' = m") simp_all
    qed
    then show ?thesis using r unfolding backed_def by blast
  qed
  then show "backed (mblue_message_release m s) H"
    "\<And>m'. m' \<noteq> m \<Longrightarrow> ms_pool (mblue_message_release m s) m' = ms_pool s m'" by auto
qed

text \<open>Taking another reference covers another holder, provided the count itself covered the others.\<close>

lemma backed_get:
  assumes "backed s (add_mset m H)" and "m_ref (ms_pool s m) = 1"
  shows "backed (snd (get_mblue_message m s)) (add_mset m (add_mset m H))"
proof -
  obtain free where f: "pool_holds s free" "\<forall>m'\<in>#add_mset m H. m' \<in> msg_objs \<and> m' \<notin> set free \<and>
      count (add_mset m H) m' \<le> max 1 (unat (m_ref (ms_pool s m')))"
    using assms(1) unfolding backed_def by blast
  have s': "snd (get_mblue_message m s) = set_ref m 2 s" using assms(2) by (simp add: get_mblue_message_def Let_def)
  have "pool_holds (set_ref m 2 s) free" using f(1) by (simp add: pool_holds_def set_ref_def)
  moreover have "count H m = 0" using f(2) assms(2) by auto
  ultimately show ?thesis unfolding backed_def s' using f(2)
    by (intro exI [of _ free]) (auto simp: set_ref_def)
qed

text \<open>Only the reference counts matter.\<close>

lemma backed_cong:
  assumes "backed s H" and "ms_mlist s' = ms_mlist s" "ms_count s' = ms_count s"
    and "\<And>m. m \<in># H \<Longrightarrow> unat (m_ref (ms_pool s m)) \<le> max 1 (unat (m_ref (ms_pool s' m)))"
    and "\<And>free. dlist (ms_links s) msg_list_head (map msg_node free) \<Longrightarrow> set free \<inter> set_mset H = {} \<Longrightarrow>
      dlist (ms_links s') msg_list_head (map msg_node free)"
  shows "backed s' H"
proof -
  obtain free where f: "pool_holds s free" "\<forall>m\<in>#H. m \<in> msg_objs \<and> m \<notin> set free \<and>
      count H m \<le> max 1 (unat (m_ref (ms_pool s m)))"
    using assms(1) unfolding backed_def by blast
  have "set free \<inter> set_mset H = {}" using f(2) by auto
  then have "pool_holds s' free" using f(1) assms(2,3,5) by (auto simp: pool_holds_def split: if_splits)
  moreover have "count H m \<le> max 1 (unat (m_ref (ms_pool s' m)))" if "m \<in># H" for m
    using f(2) assms(4) [OF that] that by fastforce
  ultimately show ?thesis unfolding backed_def using f(2) by blast
qed

section \<open>The invariant\<close>

definition is_call :: "mblue_message \<Rightarrow> bool" where
  "is_call m \<longleftrightarrow> unat (GET_TYPE (m_code m)) \<in> {type_value SYNC_CALL, type_value ASYNC_CALL}"

text \<open>The tasks \<open>T\<close> have queues of their own, every segment runs in one of them, the bus segment \<open>sb\<close> has
  the handlers of the bus and the other segments have default handlers only.\<close>

definition config_ok :: "addr set \<Rightarrow> addr \<Rightarrow> 'u bus_world \<Rightarrow> bool" where
  "config_ok T sb w \<longleftrightarrow> finite T \<and> inj_on (\<lambda>t. t_mq (bw_tasks w t)) T \<and> (\<forall>t\<in>T. queue_wf (task_queue w t)) \<and>
     (\<forall>ms. s_context (bw_segs w ms) \<in> insert 0 T) \<and> (\<forall>t. bw_ipc w = Some t \<longrightarrow> t \<in> insert 0 T) \<and>
     (\<forall>M. 0 < M \<longrightarrow> bw_node_ms w M \<noteq> sb) \<and> handler_array (bw_segs w sb) = bus_handlers \<and>
     (\<forall>ms type. ms \<noteq> sb \<longrightarrow>
        handler_array (bw_segs w ms) type \<in> {Null_handler, Default_signal_handler, Default_ipc_handler})"

text \<open>The pending calls of each segment.\<close>

definition calls_ok :: "(nat \<Rightarrow> addr list) \<Rightarrow> 'u bus_world \<Rightarrow> bool" where
  "calls_ok cs w \<longleftrightarrow>
     (\<forall>M<SEGMENT_MAJOR_MAX. dlist (bw_call_links w) (list_head_of M) (map list_node_of (cs M))) \<and>
     (\<forall>M<SEGMENT_MAJOR_MAX. \<forall>N<SEGMENT_MAJOR_MAX. M \<noteq> N \<longrightarrow> set (cs M) \<inter> set (cs N) = {}) \<and>
     (\<forall>M<SEGMENT_MAJOR_MAX. \<forall>c\<in>set (cs M). c \<le> 16 * hnext (bw_heap w))"

definition queued :: "addr set \<Rightarrow> 'u bus_world \<Rightarrow> addr multiset" where
  "queued T w = (\<Sum>t\<in>T. mset (queue_contents (task_queue w t)))"

definition pending :: "(nat \<Rightarrow> addr list) \<Rightarrow> 'u bus_world \<Rightarrow> addr multiset" where
  "pending cs w = (\<Sum>M<SEGMENT_MAJOR_MAX. mset (map (\<lambda>c. pc_msg (bw_calls w c)) (cs M)))"

text \<open>A call that waits for the bus has one reference and does not call the bus itself.\<close>

definition fresh_call :: "addr \<Rightarrow> mblue_message \<Rightarrow> bool" where
  "fresh_call sb m \<longleftrightarrow> (m_dst m = sb \<and> is_call m \<longrightarrow> m_ref m = 1 \<and> 0 < unat (GET_MAJOR (m_code m)))"

definition bus_inv :: "addr set \<Rightarrow> addr \<Rightarrow> (nat \<Rightarrow> addr list) \<Rightarrow> addr multiset \<Rightarrow> 'u bus_world \<Rightarrow> bool" where
  "bus_inv T sb cs H w \<longleftrightarrow> config_ok T sb w \<and> calls_ok cs w \<and> backed (bw_msgs w) (queued T w + pending cs w + H) \<and>
     (\<forall>m\<in>#queued T w. fresh_call sb (msg_at w m))"

lemma bus_inv_drop: "bus_inv T sb cs (add_mset m H) w \<Longrightarrow> bus_inv T sb cs H w"
  by (auto simp: bus_inv_def dest: backed_drop)

lemma in_queued: "finite T \<Longrightarrow> m \<in># queued T w \<longleftrightarrow> (\<exists>t\<in>T. m \<in> set (queue_contents (task_queue w t)))"
  by (simp add: queued_def set_mset_sum)

text \<open>A message in a queue with one reference has no other holder.\<close>

lemma backed_single:
  assumes "backed s (Q + H)" "m \<in># Q" "m \<in># H" shows "m_ref (ms_pool s m) \<noteq> 1"
proof
  assume r: "m_ref (ms_pool s m) = 1"
  have "1 \<le> count Q m" "1 \<le> count H m" using assms(2,3) by (simp_all add: Suc_leI)
  then have "2 \<le> count (Q + H) m" unfolding count_union by linarith
  moreover have "count (Q + H) m \<le> max 1 (unat (m_ref (ms_pool s m)))"
    using assms(1,2) unfolding backed_def by auto
  ultimately show False by (simp add: r)
qed

text \<open>Updates of the world that the invariant does not look at.\<close>

lemma bus_inv_cong:
  assumes "bus_inv T sb cs H w"
    and "\<And>t. t_mq (bw_tasks w' t) = t_mq (bw_tasks w t)" "bw_queues w' = bw_queues w"
    and "\<And>ms. s_context (bw_segs w' ms) = s_context (bw_segs w ms)"
    and "\<And>ms. handler_array (bw_segs w' ms) = handler_array (bw_segs w ms)"
    and "bw_ipc w' = bw_ipc w" "bw_node_ms w' = bw_node_ms w" "bw_call_links w' = bw_call_links w"
    and "bw_calls w' = bw_calls w" "hnext (bw_heap w') \<ge> hnext (bw_heap w)" "bw_msgs w' = bw_msgs w"
  shows "bus_inv T sb cs H w'"
proof -
  have h: "16 * hnext (bw_heap w) \<le> 16 * hnext (bw_heap w')" using assms(10) by simp
  have "calls_ok cs w'" using assms(1,8) unfolding bus_inv_def calls_ok_def
    by (auto intro: order_trans [OF _ h])
  moreover have "config_ok T sb w'" using assms(1) unfolding bus_inv_def config_ok_def
    by (simp add: assms(2-7))
  moreover have "queued T w' = queued T w" "pending cs w' = pending cs w"
    by (simp_all add: queued_def pending_def assms)
  ultimately show ?thesis using assms(1) by (simp add: bus_inv_def assms(11))
qed

lemma bus_inv_user [simp]: "bus_inv T sb cs H (w\<lparr>bw_user := u\<rparr>) \<longleftrightarrow> bus_inv T sb cs H w"
  by (auto elim!: bus_inv_cong [rotated -1] intro: bus_inv_cong)

lemma bus_inv_upd_task:
  assumes "bus_inv T sb cs H w" and "\<And>t. t_mq (f t) = t_mq t"
  shows "bus_inv T sb cs H (upd_task task f w)"
  using assms(1) by (rule bus_inv_cong) (simp_all add: upd_task_def assms(2))

lemma bus_inv_upd_seg:
  assumes "bus_inv T sb cs H w" and "\<And>s. s_context (f s) = s_context s" "\<And>s. handler_array (f s) = handler_array s"
  shows "bus_inv T sb cs H (upd_seg ms f w)"
  using assms(1) by (rule bus_inv_cong) (simp_all add: upd_seg_def assms)

section \<open>Operations on messages\<close>

lemma bus_inv_release:
  assumes "bus_inv T sb cs (add_mset m H) w"
  shows "bus_inv T sb cs H (world_release m w)"
proof -
  let ?w = "world_release m w"
  have q: "queued T ?w = queued T w" "pending cs ?w = pending cs w"
    by (simp_all add: queued_def pending_def world_release_def)
  have b: "backed (bw_msgs w) (add_mset m (queued T w + pending cs w + H))"
    using assms by (simp add: bus_inv_def)
  note r = backed_release [OF b]
  have "fresh_call sb (msg_at ?w m')" if "m' \<in># queued T w" for m'
  proof (cases "m' = m")
    case True
    have f: "fresh_call sb (msg_at w m)" using assms that True by (simp add: bus_inv_def)
    have "m_ref (msg_at w m) \<noteq> 1"
      using backed_single [of "bw_msgs w" "queued T w" "pending cs w + add_mset m H" m] assms that True
      by (simp add: bus_inv_def add.assoc)
    with f have "\<not> (m_dst (msg_at w m) = sb \<and> is_call (msg_at w m))" by (auto simp: fresh_call_def)
    moreover have "m_dst (msg_at ?w m) = m_dst (msg_at w m)" "m_code (msg_at ?w m) = m_code (msg_at w m)"
      by (simp_all add: world_release_def mblue_message_release_def get_mblue_message_list_instance_def
          mblue_message_init_def put_mblue_message_def mblue_message_put_def set_ref_def Let_def)
    ultimately show ?thesis using True by (auto simp: fresh_call_def is_call_def)
  next
    case False
    then show ?thesis using r(2) assms that by (simp add: world_release_def bus_inv_def)
  qed
  moreover have "config_ok T sb ?w" "calls_ok cs ?w"
    using assms by (simp_all add: bus_inv_def config_ok_def calls_ok_def world_release_def)
  ultimately show ?thesis using r(1) q by (simp add: bus_inv_def world_release_def)
qed

text \<open>Writing a field of a message in hand: its reference count must still cover its holders, and if
  it is queued it must stay a proper call.\<close>

lemma bus_inv_upd_msg:
  assumes inv: "bus_inv T sb cs H w"
    and r: "m \<in># queued T w + pending cs w + H \<Longrightarrow> unat (m_ref (msg_at w m)) \<le> max 1 (unat (m_ref (f (msg_at w m))))"
    and f: "m \<in># queued T w \<Longrightarrow> fresh_call sb (f (msg_at w m))"
  shows "bus_inv T sb cs H (upd_msg m f w)"
proof -
  let ?w = "upd_msg m f w"
  have q: "queued T ?w = queued T w" "pending cs ?w = pending cs w"
    by (simp_all add: queued_def pending_def upd_msg_def)
  have "backed (bw_msgs ?w) (queued T w + pending cs w + H)"
    by (rule backed_cong [of "bw_msgs w"]) (use inv r in \<open>auto simp: bus_inv_def upd_msg_def\<close>)
  moreover have "config_ok T sb ?w" "calls_ok cs ?w"
    using inv by (simp_all add: bus_inv_def config_ok_def calls_ok_def upd_msg_def)
  moreover have "fresh_call sb (msg_at ?w m')" if "m' \<in># queued T w" for m'
    using f inv that by (auto simp: bus_inv_def upd_msg_def)
  ultimately show ?thesis by (simp add: bus_inv_def q)
qed

lemma bus_inv_alloc:
  assumes "bus_inv T sb cs H w" and "world_alloc w = (m, w')"
  shows "bus_inv T sb cs H w'" and "m \<noteq> 0 \<Longrightarrow> bus_inv T sb cs (add_mset m H) w'"
    and "m \<noteq> 0 \<Longrightarrow> m \<notin># queued T w' + pending cs w' + H" and "m \<noteq> 0 \<Longrightarrow> msg_at w' m = zero_message"
    and "\<And>m'. m' \<noteq> m \<Longrightarrow> msg_at w' m' = msg_at w m'"
proof -
  obtain s where s: "mblue_message_alloc (bw_msgs w) = (m, s)" "w' = w\<lparr>bw_msgs := s\<rparr>"
    using assms(2) by (auto simp: world_alloc_def split: prod.splits)
  have q: "queued T w' = queued T w" "pending cs w' = pending cs w"
    by (simp_all add: queued_def pending_def s(2))
  have b: "backed (bw_msgs w) (queued T w + pending cs w + H)" using assms(1) by (simp add: bus_inv_def)
  note a = backed_alloc [OF b s(1)]
  have c: "config_ok T sb w'" "calls_ok cs w'"
    using assms(1) by (simp_all add: bus_inv_def config_ok_def calls_ok_def s(2))
  have "fresh_call sb (msg_at w' m')" if "m' \<in># queued T w" for m'
  proof (cases "m' = m")
    case True
    then show ?thesis using a(3,4) assms(1) that by (cases "m = 0") (auto simp: s(2) bus_inv_def)
  next
    case False
    then show ?thesis using a(4) assms(1) that by (auto simp: s(2) bus_inv_def)
  qed
  then show "bus_inv T sb cs H w'" "m \<noteq> 0 \<Longrightarrow> bus_inv T sb cs (add_mset m H) w'"
    using a(1,2) c q by (simp_all add: bus_inv_def s(2))
  show "m \<noteq> 0 \<Longrightarrow> m \<notin># queued T w' + pending cs w' + H" using a(3) by (simp add: q)
  show "m \<noteq> 0 \<Longrightarrow> msg_at w' m = zero_message" "\<And>m'. m' \<noteq> m \<Longrightarrow> msg_at w' m' = msg_at w m'"
    using a(4) by (simp_all add: s(2))
qed

text \<open>The queue of one task grows or shrinks by one message.\<close>

lemma queued_update:
  assumes "config_ok T sb w" "t \<in> T" "mset (queue_contents q) + A = mset (queue_contents (task_queue w t)) + B"
  shows "queued T (w\<lparr>bw_queues := (bw_queues w)(t_mq (bw_tasks w t) := q)\<rparr>) + A = queued T w + B"
proof -
  have f: "finite T" and i: "inj_on (\<lambda>t. t_mq (bw_tasks w t)) T" using assms(1) by (simp_all add: config_ok_def)
  have "(\<Sum>s\<in>T - {t}. mset (queue_contents (if t_mq (bw_tasks w s) = t_mq (bw_tasks w t) then q else task_queue w s))) =
    (\<Sum>s\<in>T - {t}. mset (queue_contents (task_queue w s)))"
    using i assms(2) by (intro sum.cong) (auto simp: inj_on_def)
  then show ?thesis using assms(3) f assms(2)
    by (simp add: queued_def sum.remove [of T t] fun_upd_def add.assoc add.commute add.left_commute)
qed

lemma config_ok_update:
  assumes "config_ok T sb w" "t \<in> T" "queue_wf q"
  shows "config_ok T sb (w\<lparr>bw_queues := (bw_queues w)(t_mq (bw_tasks w t) := q)\<rparr>)"
  using assms by (auto simp: config_ok_def)

lemma bus_inv_enqueue:
  assumes inv: "bus_inv T sb cs (add_mset m H) w" and t: "t \<in> T" and f: "fresh_call sb (msg_at w m)"
    and q: "queue_wf q" "queue_contents q = queue_contents (task_queue w t) @ [m]"
  shows "bus_inv T sb cs H (w\<lparr>bw_queues := (bw_queues w)(t_mq (bw_tasks w t) := q)\<rparr>)" (is "bus_inv T sb cs H ?w")
proof -
  have c: "config_ok T sb w" using inv by (simp add: bus_inv_def)
  have qu: "queued T ?w = add_mset m (queued T w)" using queued_update [OF c t, of q "{#}" "{#m#}"] q by simp
  have "pending cs ?w = pending cs w" "calls_ok cs ?w"
    using inv by (simp_all add: pending_def bus_inv_def calls_ok_def)
  with config_ok_update [OF c t q(1)] inv f qu show ?thesis by (auto simp: bus_inv_def)
qed

lemma bus_inv_post:
  assumes inv: "bus_inv T sb cs (add_mset m H) w" and t: "task \<in> T" and f: "fresh_call sb (msg_at w m)"
    and post: "call_nproc task m w = Some (rc, w')"
  shows "bus_inv T sb cs H w'" and "rc = MBLUE_OK" and "bw_msgs w' = bw_msgs w"
proof -
  have p: "template_msg_post task m w = Some (rc, w')"
    using post by (simp add: call_nproc_def split: task_fn.splits)
  let ?q = "task_queue w task"
  have wf: "queue_wf ?q" using inv t by (simp add: bus_inv_def config_ok_def)
  have "bus_inv T sb cs H w' \<and> rc = MBLUE_OK \<and> bw_msgs w' = bw_msgs w"
  proof (cases "qsize ?q < qcapacity ?q")
    case True
    then obtain q where q: "queue_add ?q m = Some (0, q)" "queue_wf q" "queue_contents q = queue_contents ?q @ [m]"
      using queue_add_spec [OF wf] by blast
    have "bus_inv T sb cs H (upd_task task (msg_sem_update (\<lambda>_. sem))
        (w\<lparr>bw_queues := (bw_queues w)(t_mq (bw_tasks w task) := q)\<rparr>))" for sem
      using bus_inv_enqueue [OF inv t f q(2,3)] by (rule bus_inv_upd_task) simp
    with p q(1) show ?thesis
      by (auto simp: template_msg_post_def Let_def upd_task_def split: if_splits bind_splits)
  next
    case False
    then have "queue_add ?q m = Some (-1, ?q)" by (simp add: queue_add_full)
    with p have "rc = MBLUE_OK" "w' = w"
      by (auto simp: template_msg_post_def Let_def split: if_splits)
    then show ?thesis using bus_inv_drop [OF inv] by simp
  qed
  then show "bus_inv T sb cs H w'" "rc = MBLUE_OK" "bw_msgs w' = bw_msgs w" by auto
qed

section \<open>The bus\<close>

text \<open>The copy that a subscriber gets.\<close>

lemma bus_inv_copy:
  assumes inv: "bus_inv T sb cs (add_mset r H) w" and r: "r \<notin># queued T w + pending cs w + H"
  shows "bus_inv T sb cs (add_mset r H) (copy_message r m w)" "msg_at (copy_message r m w) r = msg_at w m"
    "queued T (copy_message r m w) = queued T w" "pending cs (copy_message r m w) = pending cs w"
proof -
  let ?w = "copy_message r m w"
  show q: "queued T ?w = queued T w" "pending cs ?w = pending cs w"
    by (simp_all add: queued_def pending_def copy_message_def)
  show "msg_at ?w r = msg_at w m" by (simp add: copy_message_def)
  have b: "backed (bw_msgs w) (queued T w + pending cs w + add_mset r H)" using inv by (simp add: bus_inv_def)
  have "r \<in> msg_objs" using b by (auto simp: backed_def)
  then have n: "msg_node r \<noteq> msg_list_head" using msg_objs_facts by simp
  have c1: "count (queued T w + pending cs w + add_mset r H) r = 1" using r by (simp add: not_in_iff)
  obtain free where f: "pool_holds (bw_msgs w) free"
    "\<forall>m\<in>#queued T w + pending cs w + add_mset r H. m \<in> msg_objs \<and> m \<notin> set free \<and>
      count (queued T w + pending cs w + add_mset r H) m \<le> max 1 (unat (m_ref (msg_at w m)))"
    using b unfolding backed_def by blast
  have "r \<notin> set free" using f(2) by simp
  then have "pool_holds (bw_msgs ?w) free" using f(1) n
    by (auto simp: pool_holds_def copy_message_def msg_node_inj intro!: dlist_set_prev dlist_set_next)
  moreover have "\<forall>m'\<in>#queued T w + pending cs w + add_mset r H. m' \<in> msg_objs \<and> m' \<notin> set free \<and>
      count (queued T w + pending cs w + add_mset r H) m' \<le> max 1 (unat (m_ref (msg_at ?w m')))"
  proof
    fix m' assume "m' \<in># queued T w + pending cs w + add_mset r H"
    with f(2) c1 show "m' \<in> msg_objs \<and> m' \<notin> set free \<and>
        count (queued T w + pending cs w + add_mset r H) m' \<le> max 1 (unat (m_ref (msg_at ?w m')))"
      by (cases "m' = r") (auto simp: copy_message_def simp del: count_add_mset)
  qed
  ultimately have "backed (bw_msgs ?w) (queued T ?w + pending cs ?w + add_mset r H)"
    unfolding backed_def q by blast
  moreover have "config_ok T sb ?w" "calls_ok cs ?w"
    using inv by (simp_all add: bus_inv_def config_ok_def calls_ok_def copy_message_def)
  moreover have "fresh_call sb (msg_at ?w m')" if "m' \<in># queued T w" for m'
    using that r inv by (auto simp: copy_message_def bus_inv_def)
  ultimately show "bus_inv T sb cs (add_mset r H) ?w" by (simp add: bus_inv_def q)
qed

lemma world_get_upd: "world_get m w = upd_msg m (\<lambda>x. x\<lparr>m_ref := m_ref x + 1\<rparr>) w"
  by (simp add: world_get_def get_mblue_message_def set_ref_def upd_msg_def Let_def)

lemma queued_upd_msg [simp]: "queued T (upd_msg m f w) = queued T w" "pending cs (upd_msg m f w) = pending cs w"
  by (simp_all add: queued_def pending_def upd_msg_def)

lemma msg_at_upd [simp]: "msg_at (upd_msg m f w) m' = (if m' = m then f (msg_at w m) else msg_at w m')"
  by (simp add: upd_msg_def)

text \<open>A message that only the hand holds may have any reference count.\<close>

lemma bus_inv_upd_only:
  assumes inv: "bus_inv T sb cs (add_mset r H) w" and r: "r \<notin># queued T w + pending cs w + H"
  shows "bus_inv T sb cs (add_mset r H) (upd_msg r f w)"
proof -
  have b: "backed (bw_msgs w) (queued T w + pending cs w + add_mset r H)" using inv by (simp add: bus_inv_def)
  then obtain free where f: "pool_holds (bw_msgs w) free"
    "\<forall>m\<in>#queued T w + pending cs w + add_mset r H. m \<in> msg_objs \<and> m \<notin> set free \<and>
      count (queued T w + pending cs w + add_mset r H) m \<le> max 1 (unat (m_ref (msg_at w m)))"
    unfolding backed_def by blast
  have c1: "count (queued T w + pending cs w + add_mset r H) r = 1" using r by (simp add: not_in_iff)
  have "\<forall>m'\<in>#queued T w + pending cs w + add_mset r H. m' \<in> msg_objs \<and> m' \<notin> set free \<and>
      count (queued T w + pending cs w + add_mset r H) m' \<le> max 1 (unat (m_ref (msg_at (upd_msg r f w) m')))"
  proof
    fix m' assume "m' \<in># queued T w + pending cs w + add_mset r H"
    with f(2) c1 show "m' \<in> msg_objs \<and> m' \<notin> set free \<and>
        count (queued T w + pending cs w + add_mset r H) m' \<le> max 1 (unat (m_ref (msg_at (upd_msg r f w) m')))"
      by (cases "m' = r") (auto simp del: count_add_mset)
  qed
  moreover have "pool_holds (bw_msgs (upd_msg r f w)) free" using f(1) by (simp add: pool_holds_def upd_msg_def)
  ultimately have "backed (bw_msgs (upd_msg r f w)) (queued T w + pending cs w + add_mset r H)"
    unfolding backed_def by blast
  moreover have "fresh_call sb (msg_at (upd_msg r f w) m')" if "m' \<in># queued T w" for m'
    using that r inv by (auto simp: bus_inv_def)
  moreover have "config_ok T sb (upd_msg r f w)" "calls_ok cs (upd_msg r f w)"
    using inv by (simp_all add: bus_inv_def config_ok_def calls_ok_def upd_msg_def)
  ultimately show ?thesis by (simp add: bus_inv_def)
qed

lemma context_task:
  assumes "bus_inv T sb cs H w" and "s_context (bw_segs w ms) \<noteq> 0"
  shows "s_context (bw_segs w ms) \<in> T"
proof -
  from assms(1) have "config_ok T sb w" by (simp add: bus_inv_def)
  then have "\<forall>ms. s_context (bw_segs w ms) \<in> insert 0 T" unfolding config_ok_def by (elim conjE)
  then have "s_context (bw_segs w ms) \<in> insert 0 T" by (rule spec)
  with assms(2) show ?thesis by simp
qed

lemma publish_to_inv:
  assumes inv: "bus_inv T sb cs (add_mset msg H) w" and c: "\<not> is_call (msg_at w msg)"
    and p: "publish_to ms msg w = Some w'"
  shows "bus_inv T sb cs (add_mset msg H) w' \<and> \<not> is_call (msg_at w' msg)"
proof (cases "s_context (bw_segs w ms) \<noteq> 0 \<and> nproc (bw_tasks w (s_context (bw_segs w ms))) \<noteq> Null_fn")
  case True
  let ?t = "s_context (bw_segs w ms)"
  obtain r w1 where a: "world_alloc w = (r, w1)" by fastforce
  define w2 where "w2 = upd_msg r (m_dst_update (\<lambda>_. ms)) (world_get r (copy_message r msg w1))"
  from p a True obtain rc where p': "r \<noteq> 0" "call_nproc ?t r w2 = Some (rc, w')"
    by (auto simp: publish_to_def mblue_segment_get_context_def w2_def Let_def split: if_splits bind_splits)
  note al = bus_inv_alloc [OF inv a]
  have r: "r \<notin># queued T w1 + pending cs w1 + add_mset msg H" using al(3) p'(1) by simp
  then have ne: "msg \<noteq> r" by auto
  note cp = bus_inv_copy [OF al(2) [OF p'(1)] r, of msg]
  have w2: "bus_inv T sb cs (add_mset r (add_mset msg H)) w2"
    unfolding w2_def world_get_upd using cp(1) r
    by (intro bus_inv_upd_only) (simp_all add: cp(3,4))
  have code: "m_code (msg_at w2 r) = m_code (msg_at w msg)" "m_code (msg_at w2 msg) = m_code (msg_at w msg)"
    using ne al(5) [of msg] by (simp_all add: w2_def world_get_upd copy_message_def)
  have "fresh_call sb (msg_at w2 r)" using c code(1) by (simp add: fresh_call_def is_call_def)
  moreover have "?t \<in> T" using context_task [OF inv] True by blast
  ultimately have "bus_inv T sb cs (add_mset msg H) w'" "bw_msgs w' = bw_msgs w2"
    using bus_inv_post [OF w2 _ _ p'(2)] by blast+
  then show ?thesis using c code(2) by (simp add: is_call_def)
next
  case False
  with p inv c show ?thesis by (auto simp: publish_to_def mblue_segment_get_context_def Let_def)
qed

lemma publish_loop_inv:
  "bus_inv T sb cs (add_mset msg H) w \<Longrightarrow> \<not> is_call (msg_at w msg) \<Longrightarrow>
   publish_loop fuel head msg node rc w = Some (rc', w') \<Longrightarrow> bus_inv T sb cs (add_mset msg H) w'"
proof (induction fuel arbitrary: node rc w)
  case (Suc fuel)
  show ?case
  proof (cases "node = head \<or> bw_subs w (list_entry node) = 0")
    case True
    with Suc.prems show ?thesis by (auto simp: Let_def split: if_splits)
  next
    case False
    with Suc.prems(3) obtain w1 where "publish_to (bw_subs w (list_entry node)) msg w = Some w1"
      "publish_loop fuel head msg (lnext (bw_pub_links w1) node) MBLUE_OK w1 = Some (rc', w')"
      by (auto simp: Let_def split: if_splits bind_splits)
    with Suc.IH publish_to_inv [OF Suc.prems(1,2)] show ?thesis by blast
  qed
qed simp

lemma bus_signal_inv:
  assumes "bus_inv T sb cs (add_mset msg H) w" and "\<not> is_call (msg_at w msg)"
    and "bus_signal fuel msg w = Some (rc, w')"
  shows "bus_inv T sb cs H w'"
proof -
  from assms(3) obtain w1 where "w1 = w \<or> (\<exists>head node rc'. publish_loop fuel head msg node MBLUE_ERR_UNKNOWN w = Some (rc', w1))"
    "w' = world_release msg w1"
    by (auto simp: bus_signal_def Let_def split: if_splits bind_splits)
  with assms(1) publish_loop_inv [OF assms(1,2)] show ?thesis using bus_inv_release by blast
qed

text \<open>Allocating and releasing memory does not touch what the invariant speaks of.\<close>

lemma world_malloc_granted:
  assumes "world_malloc n w = Some (p, w')" and "p \<noteq> 0"
  shows "p = 16 * Suc (hnext (bw_heap w))" "hnext (bw_heap w) < hnext (bw_heap w')"
    "\<exists>hp. w' = w\<lparr>bw_heap := hp\<rparr>"
  using assms by (auto simp: world_malloc_def mblue_malloc_def heap_malloc_def imalloc_def memset0_def Let_def
      split: if_splits bind_splits option.splits)

lemma world_malloc_inv:
  assumes "bus_inv T sb cs H w" and "world_malloc n w = Some (p, w')"
  shows "bus_inv T sb cs H w'"
proof -
  obtain hp where "w' = w\<lparr>bw_heap := hp\<rparr>" "hnext (bw_heap w) \<le> hnext hp"
    using assms(2) by (auto simp: world_malloc_def mblue_malloc_def heap_malloc_def imalloc_def memset0_def Let_def
      split: if_splits bind_splits option.splits)
  then show ?thesis by (intro bus_inv_cong [OF assms(1)]) auto
qed

lemma world_free_inv:
  assumes "bus_inv T sb cs H w" and "world_free p w = Some w'"
  shows "bus_inv T sb cs H w'"
proof -
  obtain hp where "w' = w\<lparr>bw_heap := hp\<rparr>" "hnext hp = hnext (bw_heap w)"
    using assms(2) by (auto simp: world_free_def mblue_free_def heap_free_def ifree_def
        split: if_splits bind_splits option.splits)
  then show ?thesis by (intro bus_inv_cong [OF assms(1)]) auto
qed

lemma bus_subscribe_inv:
  assumes "bus_inv T sb cs H w" and "bus_subscribe ms major w = Some (rc, w')"
  shows "bus_inv T sb cs H w'"
proof -
  from assms(2) obtain p w1 where m: "world_malloc sizeof_subscriber_info w = Some (p, w1)"
    and w': "w' = w1\<lparr>bw_subs := (bw_subs w1)(p := ms),
       bw_pub_links := list_add_tail (list_node_of p) (list_head_of major) (bw_pub_links w1)\<rparr>"
    by (auto simp: bus_subscribe_def Let_def split: if_splits bind_splits)
  show ?thesis using world_malloc_inv [OF assms(1) m] unfolding w' by (rule bus_inv_cong) simp_all
qed

lemma upd_msg_upd [simp]: "upd_msg m f (upd_msg m g w) = upd_msg m (\<lambda>x. f (g x)) w"
  by (simp add: upd_msg_def)

text \<open>A call on its way to its segment: the reference that the bus takes covers one more holder.\<close>

lemma bus_inv_get:
  assumes inv: "bus_inv T sb cs K w" and m: "m \<in># queued T w + pending cs w + K"
    and r: "m_ref (msg_at w m) = 1" and ms: "ms \<noteq> sb"
  shows "bus_inv T sb cs (add_mset m K) (upd_msg m (\<lambda>x. x\<lparr>m_ref := m_ref x + 1, m_dst := ms\<rparr>) w)"
    (is "bus_inv T sb cs _ ?w")
proof -
  obtain A where A: "queued T w + pending cs w + K = add_mset m A" using m by (metis mset_add)
  have "backed (bw_msgs w) (add_mset m A)" using inv A by (simp add: bus_inv_def)
  then have "backed (snd (get_mblue_message m (bw_msgs w))) (add_mset m (add_mset m A))"
    using r by (rule backed_get)
  then have "backed (bw_msgs ?w) (add_mset m (add_mset m A))"
    by (rule backed_cong) (auto simp: get_mblue_message_def set_ref_def upd_msg_def Let_def)
  then have "backed (bw_msgs ?w) (queued T ?w + pending cs ?w + add_mset m K)" using A by simp
  moreover have "config_ok T sb ?w" "calls_ok cs ?w"
    using inv by (simp_all add: bus_inv_def config_ok_def calls_ok_def upd_msg_def)
  moreover have "fresh_call sb (msg_at ?w m')" if "m' \<in># queued T w" for m'
    using that ms inv by (auto simp: bus_inv_def fresh_call_def)
  ultimately show ?thesis by (simp add: bus_inv_def)
qed

lemma bus_call_deliver_inv:
  assumes inv: "bus_inv T sb cs K w" and m: "m \<in># queued T w + pending cs w + K"
    and r: "m_ref (msg_at w m) = 1" and ms: "ms \<noteq> sb" and c: "s_context (bw_segs w ms) \<noteq> 0"
    and d: "bus_call_deliver call ms m w = Some (rc, w')"
  shows "bus_inv T sb cs K w'"
proof (cases "nproc (bw_tasks w (s_context (bw_segs w ms))) = Null_fn")
  case True
  with d obtain cl where "world_free cl w = Some w'"
    by (auto simp: bus_call_deliver_def mblue_segment_get_context_def Let_def split: option.splits bind_splits)
  with inv show ?thesis by (rule world_free_inv)
next
  case False
  define w1 where "w1 = upd_msg m (\<lambda>x. x\<lparr>m_ref := m_ref x + 1, m_dst := ms\<rparr>) w"
  have w1: "upd_msg m (m_dst_update (\<lambda>_. ms)) (world_get m w) = w1" by (simp add: w1_def world_get_upd)
  from d False obtain rc' where post: "call_nproc (s_context (bw_segs w ms)) m w1 = Some (rc', w')"
    by (auto simp: bus_call_deliver_def mblue_segment_get_context_def Let_def w1 split: bind_splits)
  have "fresh_call sb (msg_at w1 m)" using ms by (simp add: w1_def fresh_call_def)
  then show ?thesis
    using bus_inv_post(1) [OF bus_inv_get [OF inv m r ms, folded w1_def] context_task [OF inv c] _ post] by simp
qed

lemma dlist_heads_disjoint:
  assumes "calls_ok cs w" "M < SEGMENT_MAJOR_MAX" "N < SEGMENT_MAJOR_MAX" "M \<noteq> N"
  shows "set (list_head_of M # map list_node_of (cs M)) \<inter> set (list_head_of N # map list_node_of (cs N)) = {}"
proof -
  have "set (cs M) \<inter> set (cs N) = {}" using assms unfolding calls_ok_def by blast
  with assms(4) show ?thesis by auto
qed

lemma bus_inv_link_call:
  assumes inv: "bus_inv T sb cs (add_mset (pc_msg pc) H) w" and M: "M < SEGMENT_MAJOR_MAX"
    and c: "c = 16 * Suc n" "16 * Suc n \<le> 16 * hnext (bw_heap w)"
    and new: "\<And>N. N < SEGMENT_MAJOR_MAX \<Longrightarrow> c \<notin> set (cs N)"
  shows "bus_inv T sb (cs(M := cs M @ [c])) H (w\<lparr>bw_calls := (bw_calls w)(c := pc),
    bw_call_links := list_add_tail (list_node_of c) (list_head_of M) (bw_call_links w)\<rparr>)"
    (is "bus_inv T sb ?cs H ?w")
proof -
  have ok: "calls_ok cs w" using inv by (simp add: bus_inv_def)
  have c0: "c \<noteq> 0" using c by simp
  have "dlist (bw_call_links ?w) (list_head_of N) (map list_node_of (?cs N))" if N: "N < SEGMENT_MAJOR_MAX" for N
  proof (cases "N = M")
    case True
    then show ?thesis using ok M new [OF M] c0
      by (auto simp: calls_ok_def NULL_addr_def intro!: dlist_list_add_tail)
  next
    case False
    have "dlist (list_add_tail (list_node_of c) (list_head_of M) (bw_call_links w)) (list_head_of N) (map list_node_of (cs N))"
    proof (rule dlist_list_add_other(2))
      show "dlist (bw_call_links w) (list_head_of M) (map list_node_of (cs M))"
        "dlist (bw_call_links w) (list_head_of N) (map list_node_of (cs N))"
        using ok M N by (simp_all add: calls_ok_def)
      show "set (list_head_of M # map list_node_of (cs M)) \<inter> set (list_head_of N # map list_node_of (cs N)) = {}"
        using dlist_heads_disjoint [OF ok M N] False by simp
      show "list_node_of c \<notin> set (list_head_of N # map list_node_of (cs N))" using new [OF N] by auto
    qed
    with False show ?thesis by simp
  qed
  then have "calls_ok ?cs ?w" using ok new c unfolding calls_ok_def by auto
  moreover have "pending ?cs ?w = add_mset (pc_msg pc) (pending cs w)"
  proof -
    have f: "map (\<lambda>x. pc_msg (((bw_calls w)(c := pc)) x)) (cs N) = map (\<lambda>x. pc_msg (bw_calls w x)) (cs N)"
      if "N < SEGMENT_MAJOR_MAX" for N using new [OF that] by auto
    have "(\<Sum>N\<in>{..<SEGMENT_MAJOR_MAX} - {M}. mset (map (\<lambda>x. pc_msg (((bw_calls w)(c := pc)) x)) (?cs N))) =
      (\<Sum>N\<in>{..<SEGMENT_MAJOR_MAX} - {M}. mset (map (\<lambda>x. pc_msg (bw_calls w x)) (cs N)))"
    proof (rule sum.cong [OF refl])
      fix N assume "N \<in> {..<SEGMENT_MAJOR_MAX} - {M}"
      then have "N < SEGMENT_MAJOR_MAX" "N \<noteq> M" by simp_all
      then show "mset (map (\<lambda>x. pc_msg (((bw_calls w)(c := pc)) x)) (?cs N)) = mset (map (\<lambda>x. pc_msg (bw_calls w x)) (cs N))"
        by (simp only: fun_upd_other f not_False_eq_True)
    qed
    then show ?thesis using M arg_cong [OF f [OF M], of mset] by (simp add: pending_def sum.remove [of "{..<SEGMENT_MAJOR_MAX}" M])
  qed
  moreover have "config_ok T sb ?w" "queued T ?w = queued T w"
    using inv by (simp_all add: bus_inv_def config_ok_def queued_def)
  ultimately show ?thesis using inv by (simp add: bus_inv_def)
qed

lemma bus_call_inv:
  assumes inv: "bus_inv T sb cs (add_mset m H) w" and r: "m_ref (msg_at w m) = 1"
    and M: "0 < unat (GET_MAJOR (m_code (msg_at w m)))"
    and call: "bus_call m info w = Some (rc, w')"
  shows "\<exists>cs'. bus_inv T sb cs' H w'"
proof -
  define major where "major = unat (GET_MAJOR (m_code (msg_at w m)))"
  define ms where "ms = bw_node_ms w major"
  define type where "type = GET_TYPE (m_code (msg_at w m))"
  note defs = bus_call_def Let_def major_def [symmetric] ms_def [symmetric] type_def [symmetric]
    mblue_segment_get_context_def
  have lt: "major < SEGMENT_MAJOR_MAX" using call by (auto simp: bus_call_def Let_def major_def split: if_splits)
  have ms: "ms \<noteq> sb" using inv M by (simp add: bus_inv_def config_ok_def ms_def major_def)
  consider "ms = 0 \<or> s_context (bw_segs w ms) = 0"
    | "s_context (bw_segs w ms) \<noteq> 0" "unat type = type_value ASYNC_CALL \<and> info = 0"
    | "ms \<noteq> 0" "s_context (bw_segs w ms) \<noteq> 0" "\<not> (unat type = type_value ASYNC_CALL \<and> info = 0)" by argo
  then show ?thesis
  proof cases
    case 1
    with call lt have "w' = w" by (auto simp: defs)
    then show ?thesis using bus_inv_drop [OF inv] by blast
  next
    case 2
    with call lt have "bus_call_deliver None ms m w = Some (rc, w') \<or> w' = w" by (auto simp: defs split: if_splits)
    then show ?thesis using bus_call_deliver_inv [OF inv _ r ms 2(1)] bus_inv_drop inv by (metis union_single_eq_member add_mset_add_single union_iff)
  next
    case 3
    from call lt 3 obtain c w1 where a: "world_malloc sizeof_pending_call w = Some (c, w1)"
      by (auto simp: defs split: bind_splits)
    note inv1 = world_malloc_inv [OF inv a]
    show ?thesis
    proof (cases "c = 0")
      case True
      with call lt 3 a have "w' = w1" by (auto simp: defs)
      then show ?thesis using bus_inv_drop [OF inv1] by blast
    next
      case False
      note g = world_malloc_granted [OF a False]
      define f :: "mblue_message \<Rightarrow> mblue_message" where "f = (if unat type = type_value SYNC_CALL then m_extra_update (\<lambda>_. info) else (\<lambda>x. x))"
      define pc where "pc = \<lparr>pc_msg = m, pc_src = 0, pc_call_type = type,
        pc_notifier = (if unat type = type_value ASYNC_CALL then info else 0)\<rparr>"
      define w2 where "w2 = upd_msg m f w1"
      define w3 where "w3 = w2\<lparr>bw_calls := (bw_calls w2)(c := pc),
        bw_call_links := list_add_tail (list_node_of c) (list_head_of major) (bw_call_links w2)\<rparr>"
      have f: "m_ref (f x) = m_ref x" "m_dst (f x) = m_dst x" "m_code (f x) = m_code x" for x by (simp_all add: f_def)
      have inv2: "bus_inv T sb cs (add_mset m H) w2" unfolding w2_def
        by (rule bus_inv_upd_msg [OF inv1])
          (use inv1 in \<open>auto simp: f fresh_call_def is_call_def bus_inv_def\<close>)
      have h: "hnext (bw_heap w) < hnext (bw_heap w2)" using g(2) by (simp add: w2_def upd_msg_def)
      have "c \<notin> set (cs N)" if "N < SEGMENT_MAJOR_MAX" for N
        using inv that g(1) by (fastforce simp: bus_inv_def calls_ok_def)
      then have inv3: "bus_inv T sb (cs(major := cs major @ [c])) H w3" unfolding w3_def
        using inv2 lt h by (intro bus_inv_link_call [where n = "hnext (bw_heap w)"]) (auto simp: pc_def g(1))
      have same: "bw_segs w3 = bw_segs w" "msg_at w3 m = f (msg_at w m)" "bw_tasks w3 = bw_tasks w"
        using g(3) by (auto simp: w3_def w2_def upd_msg_def)
      have "bus_call_deliver (Some c) ms m w3 = Some (rc, w')"
        using call lt 3 a False
        by (cases "unat type = type_value SYNC_CALL")
          (auto simp: defs w3_def w2_def f_def pc_def upd_msg_def)
      moreover have "m \<in># queued T w3 + pending (cs(major := cs major @ [c])) w3 + H"
        using lt by (auto simp: pending_def set_mset_sum w3_def pc_def intro!: bexI [of _ major])
      ultimately have "bus_inv T sb (cs(major := cs major @ [c])) H w'"
        using bus_call_deliver_inv [OF inv3 _ _ ms] 3(2) r by (simp add: same f)
      then show ?thesis by blast
    qed
  qed
qed

text \<open>A pending call that is answered leaves its list; its message is in hand then.\<close>

lemma bus_inv_unlink_call:
  assumes inv: "bus_inv T sb cs H w" and M: "M < SEGMENT_MAJOR_MAX" and c: "cs M = xs @ c # ys"
  shows "bus_inv T sb (cs(M := xs @ ys)) (add_mset (pc_msg (bw_calls w c)) H)
    (w\<lparr>bw_call_links := list_del (list_node_of c) (bw_call_links w)\<rparr>)" (is "bus_inv T sb ?cs _ ?w")
proof -
  have ok: "calls_ok cs w" using inv by (simp add: bus_inv_def)
  then have dM: "dlist (bw_call_links w) (list_head_of M) (map list_node_of xs @ list_node_of c # map list_node_of ys)"
    using M c by (auto simp: calls_ok_def dest: spec [of _ M])
  have "dlist (bw_call_links ?w) (list_head_of N) (map list_node_of (?cs N))" if N: "N < SEGMENT_MAJOR_MAX" for N
  proof (cases "N = M")
    case True
    then show ?thesis using dlist_list_del(1) [OF dM] by simp
  next
    case False
    have "dlist (bw_call_links w) (list_head_of N) (map list_node_of (cs N))" using ok N by (simp add: calls_ok_def)
    then show ?thesis using dlist_list_del_other(2) [OF dM] dlist_heads_disjoint [OF ok M N] False c by simp
  qed
  then have "calls_ok ?cs ?w" using ok M c unfolding calls_ok_def by (auto split: if_splits) fastforce+
  moreover have "pending cs w = add_mset (pc_msg (bw_calls w c)) (pending ?cs ?w)"
    using M c by (simp add: pending_def sum.remove [of "{..<SEGMENT_MAJOR_MAX}" M])
  moreover have "config_ok T sb ?w" "queued T ?w = queued T w"
    using inv by (simp_all add: bus_inv_def config_ok_def queued_def)
  ultimately show ?thesis using inv by (simp add: bus_inv_def)
qed

text \<open>The functions of the applications change nothing but the state of the applications.\<close>

definition notify_ok :: "'u notify_fn \<Rightarrow> bool" where
  "notify_ok notify \<longleftrightarrow> (\<forall>f p d w w'. notify f p d w = Some w' \<longrightarrow> (\<exists>u. w' = w\<lparr>bw_user := u\<rparr>))"

lemma template_post_inv:
  assumes "bus_inv T sb cs H w" and "template_post task w = Some (rc, w')"
  shows "bus_inv T sb cs H w'" "bw_calls w' = bw_calls w" "bw_call_links w' = bw_call_links w"
proof -
  from assms(2) obtain sem where w': "w' = upd_task task (call_sem_update (\<lambda>_. sem)) w"
    by (auto simp: template_post_def split: bind_splits)
  show "bus_inv T sb cs H w'" unfolding w' using assms(1) by (rule bus_inv_upd_task) simp
  show "bw_calls w' = bw_calls w" "bw_call_links w' = bw_call_links w" by (simp_all add: w' upd_task_def)
qed

lemma answer_sync_inv:
  assumes inv: "bus_inv T sb cs H w" and a: "answer_sync smsg dmsg w = Some w'"
  shows "bus_inv T sb cs H w'" "bw_calls w' = bw_calls w"
proof -
  define w1 where "w1 = w\<lparr>bw_cells := (bw_cells w)(m_extra (msg_at w smsg) := smart_payload (msg_at w dmsg))\<rparr>"
  have i1: "bus_inv T sb cs H w1" unfolding w1_def using inv by (rule bus_inv_cong) simp_all
  from a have "w' = w \<or> w' = w1 \<or> (\<exists>rc. template_post (m_src (msg_at w smsg)) w1 = Some (rc, w'))"
    by (auto simp: answer_sync_def Let_def w1_def split: if_splits bind_splits)
  then show "bus_inv T sb cs H w'" "bw_calls w' = bw_calls w"
    using inv i1 template_post_inv [OF i1] by (auto simp: w1_def)
qed

lemma answer_async_inv:
  assumes inv: "bus_inv T sb cs H w" and n: "notify_ok notify" and a: "answer_async notify c dmsg w = Some w'"
  shows "bus_inv T sb cs H w'" "bw_calls w' = bw_calls w"
proof -
  from a obtain w1 f p d q where 1: "notify f p d w = Some w1" and 2: "world_free q w1 = Some w'"
    by (auto simp: answer_async_def Let_def split: if_splits bind_splits)
  from n 1 obtain u where w1: "w1 = w\<lparr>bw_user := u\<rparr>" unfolding notify_ok_def by blast
  then have "bus_inv T sb cs H w1" using inv by simp
  then show "bus_inv T sb cs H w'" using 2 by (rule world_free_inv)
  show "bw_calls w' = bw_calls w" using 2 by (auto simp: world_free_def w1 split: bind_splits)
qed

lemma world_release_links: "world_release m (w\<lparr>bw_call_links := x\<rparr>) = (world_release m w)\<lparr>bw_call_links := x\<rparr>"
  by (cases w) (simp add: world_release_def)

lemma answer_call_inv:
  assumes inv: "bus_inv T sb cs H w" and n: "notify_ok notify" and M: "M < SEGMENT_MAJOR_MAX"
    and c: "c \<in> set (cs M)" and a: "answer_call notify c dmsg w = Some (rc, w')"
  shows "\<exists>cs'. bus_inv T sb cs' H w'"
proof -
  define smsg where "smsg = pc_msg (bw_calls w c)"
  from a obtain w1 where ans: "w1 = w \<or> answer_sync smsg dmsg w = Some w1 \<or> answer_async notify c dmsg w = Some w1"
    and fr: "world_free c ((world_release smsg w1)\<lparr>bw_call_links := list_del (list_node_of c) (bw_call_links w1)\<rparr>) = Some w'"
    by (auto simp: answer_call_def Let_def smsg_def world_release_def split: bind_splits if_splits)
  have i1: "bus_inv T sb cs H w1" and s: "bw_calls w1 = bw_calls w"
    using ans inv answer_sync_inv [OF inv] answer_async_inv [OF inv n] by auto
  from c obtain xs ys where "cs M = xs @ c # ys" by (auto dest: split_list)
  note u = bus_inv_unlink_call [OF i1 M this]
  have "bus_inv T sb (cs(M := xs @ ys)) H
    (world_release smsg (w1\<lparr>bw_call_links := list_del (list_node_of c) (bw_call_links w1)\<rparr>))"
    using u by (intro bus_inv_release) (simp add: smsg_def s)
  then have "bus_inv T sb (cs(M := xs @ ys)) H
    ((world_release smsg w1)\<lparr>bw_call_links := list_del (list_node_of c) (bw_call_links w1)\<rparr>)"
    by (simp add: world_release_links)
  then have "bus_inv T sb (cs(M := xs @ ys)) H w'" using fr by (rule world_free_inv)
  then show ?thesis by blast
qed

lemma return_loop_inv:
  assumes n: "notify_ok notify" and M: "M < SEGMENT_MAJOR_MAX"
  shows "bus_inv T sb cs H w \<Longrightarrow> cs M = xs @ ys \<Longrightarrow>
    node = (case ys of [] \<Rightarrow> list_head_of M | y # _ \<Rightarrow> list_node_of y) \<Longrightarrow>
    return_loop fuel notify (list_head_of M) dmsg node w = Some (rc, w') \<Longrightarrow> \<exists>cs'. bus_inv T sb cs' H w'"
proof (induction fuel arbitrary: xs ys node)
  case (Suc fuel)
  show ?case
  proof (cases ys)
    case Nil
    with Suc.prems show ?thesis by auto
  next
    case (Cons c zs)
    have "dlist (bw_call_links w) (list_head_of M) (map list_node_of xs @ list_node_of c # map list_node_of zs)"
      using Suc.prems(1,2) M Cons by (auto simp: bus_inv_def calls_ok_def dest: spec [of _ M])
    then have nx: "lnext (bw_call_links w) (list_node_of c) =
        (case zs of [] \<Rightarrow> list_head_of M | z # _ \<Rightarrow> list_node_of z)"
      using dlist_neighbours(2) by (cases zs) fastforce+
    from Suc.prems(3,4) Cons consider "w' = w"
      | "return_loop fuel notify (list_head_of M) dmsg (lnext (bw_call_links w) (list_node_of c)) w = Some (rc, w')"
      | "answer_call notify c dmsg w = Some (rc, w')"
      by (auto simp: Let_def split: if_splits)
    then show ?thesis
    proof cases
      case 1
      then show ?thesis using Suc.prems(1) by blast
    next
      case 2
      then show ?thesis using Suc.IH [of "xs @ [c]" zs] Suc.prems(1,2) Cons nx by simp
    next
      case 3
      have "c \<in> set (cs M)" using Suc.prems(2) Cons by simp
      then show ?thesis using answer_call_inv [OF Suc.prems(1) n M _ 3] by blast
    qed
  qed
qed simp

lemma bus_call_return_inv:
  assumes inv: "bus_inv T sb cs (add_mset dmsg H) w" and n: "notify_ok notify"
    and r: "bus_call_return fuel notify dmsg w = Some (rc, w')"
  shows "\<exists>cs'. bus_inv T sb cs' H w'"
proof -
  define M where "M = unat (GET_MAJOR (m_code (msg_at w dmsg)))"
  from r have M: "M < SEGMENT_MAJOR_MAX" by (auto simp: bus_call_return_def Let_def M_def split: if_splits)
  then have "dlist (bw_call_links w) (list_head_of M) (map list_node_of (cs M))"
    using inv by (simp add: bus_inv_def calls_ok_def)
  then have first: "lnext (bw_call_links w) (list_head_of M) =
      (case cs M of [] \<Rightarrow> list_head_of M | y # _ \<Rightarrow> list_node_of y)"
    using dlist_next by (cases "cs M") fastforce+
  from r M obtain w1 where w': "w' = world_release dmsg w1"
    and w1: "w1 = w \<or> return_loop fuel notify (list_head_of M) dmsg (lnext (bw_call_links w) (list_head_of M)) w = Some (rc, w1)"
    by (auto simp: bus_call_return_def Let_def M_def [symmetric] split: if_splits bind_splits)
  have "\<exists>cs'. bus_inv T sb cs' (add_mset dmsg H) w1"
    using w1 inv return_loop_inv [OF n M inv, of "[]" "cs M"] first by auto
  then show ?thesis unfolding w' using bus_inv_release by blast
qed

section \<open>The senders\<close>

lemma find_bus_loop_inv:
  "bus_inv T sb cs (add_mset m H) w \<Longrightarrow> m \<notin># queued T w + pending cs w + H \<Longrightarrow>
   find_bus_loop fuel head m node w = Some (rc, w') \<Longrightarrow>
   bus_inv T sb cs (add_mset m H) w' \<and> m_ref (msg_at w' m) = m_ref (msg_at w m) \<and> m_code (msg_at w' m) = m_code (msg_at w m)"
proof (induction fuel arbitrary: node)
  case (Suc fuel)
  let ?w = "upd_msg m (m_dst_update (\<lambda>_. list_entry node)) w"
  from Suc.prems(3) consider "w' = w" | "w' = ?w"
    | "find_bus_loop fuel head m (lnext (bw_seg_links w) node) w = Some (rc, w')"
    by (auto simp: Let_def split: if_splits)
  then show ?case
  proof cases
    case 2
    then show ?thesis using bus_inv_upd_only [OF Suc.prems(1,2)] by simp
  qed (use Suc in auto)
qed simp

lemma call_nproc_task: "call_nproc task m w = Some r \<Longrightarrow> task \<noteq> 0"
  by (cases "task = 0") (auto simp: call_nproc_def template_msg_post_def split: task_fn.splits)

lemma ipc_invoke_post_inv:
  assumes inv: "bus_inv T sb cs (add_mset m H) w" and m: "m \<notin># queued T w + pending cs w + H"
    and f: "is_call (msg_at w m) \<Longrightarrow> m_ref (msg_at w m) = 1 \<and> 0 < unat (GET_MAJOR (m_code (msg_at w m)))"
    and p: "ipc_invoke_post fuel m w = Some (s, w')"
  shows "bus_inv T sb cs H w'"
proof -
  from p obtain rc dst w1 where r: "ipc_route fuel m w = Some ((rc, dst), w1)"
    by (auto simp: ipc_invoke_post_def split: bind_splits)
  have i1: "bus_inv T sb cs (add_mset m H) w1 \<and> m_ref (msg_at w1 m) = m_ref (msg_at w m) \<and>
      m_code (msg_at w1 m) = m_code (msg_at w m)" and d: "dst \<noteq> 0 \<Longrightarrow> dst \<in> T"
  proof -
    from r consider "w1 = w" "\<exists>ms. dst = s_context (bw_segs w ms)"
      | node where "find_bus_loop fuel (list_head_of dst) m node w = Some (rc, w1)" "bw_ipc w = Some dst"
      by (auto simp: ipc_route_def ipc_get_instance_def Let_def split: if_splits bind_splits)
    then show "bus_inv T sb cs (add_mset m H) w1 \<and> m_ref (msg_at w1 m) = m_ref (msg_at w m) \<and>
        m_code (msg_at w1 m) = m_code (msg_at w m)"
      using inv find_bus_loop_inv [OF inv m] by cases blast+
    from \<open>ipc_route fuel m w = _\<close> consider "\<exists>ms. dst = s_context (bw_segs w ms)" | "bw_ipc w = Some dst"
      by (auto simp: ipc_route_def ipc_get_instance_def Let_def split: if_splits bind_splits)
    then show "dst \<noteq> 0 \<Longrightarrow> dst \<in> T"
    proof cases
      case 2
      have "config_ok T sb w" using inv by (simp add: bus_inv_def)
      then have "\<forall>t. bw_ipc w = Some t \<longrightarrow> t \<in> insert 0 T" unfolding config_ok_def by (elim conjE)
      then show "dst \<noteq> 0 \<Longrightarrow> dst \<in> T" using 2 by auto
    qed (use context_task [OF inv] in blast)
  qed
  have fr: "fresh_call sb (msg_at w1 m)" using f i1 by (auto simp: fresh_call_def is_call_def)
  from p r consider "w' = w1" | rc' where "call_nproc dst m w1 = Some (rc', w')"
    by (auto simp: ipc_invoke_post_def split: bind_splits if_splits)
  then show ?thesis
  proof cases
    case 1
    then show ?thesis using bus_inv_drop i1 by blast
  next
    case 2
    then show ?thesis using bus_inv_post(1) [OF conjunct1 [OF i1] d fr] call_nproc_task by blast
  qed
qed

lemma send_message_inv:
  assumes inv: "bus_inv T sb cs H w" and M: "unat major < 2 ^ 12"
    and c: "type = SYNC_CALL \<or> type = ASYNC_CALL \<Longrightarrow> 0 < unat major"
    and s: "send_message fuel src seq type major minor dst input out extra pn w = Some (s, w')"
  shows "bus_inv T sb cs H w'"
proof -
  obtain m w1 where a: "world_alloc w = (m, w1)" by fastforce
  note al = bus_inv_alloc [OF inv a]
  show ?thesis
  proof (cases "m = 0")
    case True
    with s a al(1) show ?thesis by (simp add: send_message_def init_message_def)
  next
    case False
    define code where "code = message_code (of_nat (type_value type)) (ucast major) (ucast minor)"
    define f where "f = (\<lambda>x :: mblue_message. x\<lparr>m_seq := seq, m_ref := 0, m_code := code, m_src := src, m_dst := dst,
       smart_payload := input, m_extra := extra\<rparr>)"
    define g where "g = (\<lambda>x :: mblue_message. if type = SYNC_CALL \<or> type = ASYNC_CALL
       then x\<lparr>m_ref := m_ref x + 1, m_extra := (if type = SYNC_CALL then out else pn)\<rparr> else x)"
    have p: "ipc_invoke_post fuel m (upd_msg m (\<lambda>x. g (f x)) w1) = Some (s, w')"
      using s a False by (auto simp: send_message_def init_message_def INIT_MESSAGE_WITH_def Let_def
          code_def f_def g_def split: if_splits)
    note r = al(3) [OF False]
    have i: "bus_inv T sb cs (add_mset m H) (upd_msg m (\<lambda>x. g (f x)) w1)"
      by (rule bus_inv_upd_only [OF al(2) [OF False] r])
    have "m_code (g (f x)) = code" for x by (simp add: g_def f_def)
    then have k: "is_call (msg_at (upd_msg m (\<lambda>x. g (f x)) w1) m) \<Longrightarrow>
        m_ref (msg_at (upd_msg m (\<lambda>x. g (f x)) w1) m) = 1 \<and>
        0 < unat (GET_MAJOR (m_code (msg_at (upd_msg m (\<lambda>x. g (f x)) w1) m)))"
      using c sent_code [OF M, of type minor, folded code_def]
      by (cases type) (auto simp: is_call_def g_def f_def)
    show ?thesis using ipc_invoke_post_inv [OF i _ k p] r by simp
  qed
qed

lemma next_seq_inv:
  assumes "bus_inv T sb cs H w" and "next_seq w = (q, w')"
  shows "bus_inv T sb cs H w'"
proof -
  obtain x where w': "w' = w\<lparr>bw_msgs := (bw_msgs w)\<lparr>ms_sequence := x\<rparr>\<rparr>"
    using assms(2) by (auto simp: next_seq_def mblue_message_get_sequence_def Let_def split: if_splits)
  have "backed (bw_msgs w') K \<longleftrightarrow> backed (bw_msgs w) K" for K
    by (simp add: w' backed_def pool_holds_def)
  moreover have "config_ok T sb w'" "calls_ok cs w'" "queued T w' = queued T w" "pending cs w' = pending cs w"
    using assms(1) by (simp_all add: w' bus_inv_def config_ok_def calls_ok_def queued_def pending_def)
  moreover have "msg_at w' m = msg_at w m" for m by (simp add: w')
  ultimately show ?thesis using assms(1) by (simp add: bus_inv_def)
qed

section \<open>The tasks\<close>

definition app_ok :: "'u app \<Rightarrow> bool" where
  "app_ok A \<longleftrightarrow> notify_ok (app_notify A) \<and>
     (\<forall>f ms p w r w'. app_signal A f ms p w = Some (r, w') \<longrightarrow> (\<exists>u. w' = w\<lparr>bw_user := u\<rparr>)) \<and>
     (\<forall>f as w r w'. app_service A f as w = Some (r, w') \<longrightarrow> (\<exists>u. w' = w\<lparr>bw_user := u\<rparr>))"

lemma link_msg_inv: "bus_inv T sb cs H w \<Longrightarrow> bus_inv T sb cs H (link_msg ms m w)"
  unfolding link_msg_def by (rule bus_inv_upd_seg) simp_all

lemma free_payload_inv: "bus_inv T sb cs H w \<Longrightarrow> free_payload m w = Some w' \<Longrightarrow> bus_inv T sb cs H w'"
  by (auto simp: free_payload_def Let_def dest: world_free_inv split: if_splits)

lemma default_signal_handler_inv:
  assumes inv: "bus_inv T sb cs (add_mset m H) w" and A: "app_ok A"
    and h: "default_signal_handler A rc ms m w = Some (rc', w')"
  shows "bus_inv T sb cs H w'"
proof -
  define w0 where "w0 = link_msg ms m w"
  have i0: "bus_inv T sb cs (add_mset m H) w0" using inv by (simp add: w0_def link_msg_inv)
  from h obtain w1 w2 where w1: "w1 = w0 \<or> (\<exists>f p r. app_signal A f ms p w0 = Some (r, w1))"
    and w2: "free_payload m w1 = Some w2" "w' = world_release m w2"
    by (auto simp: default_signal_handler_def Let_def w0_def [symmetric] split: bind_splits option.splits if_splits) blast+
  from w1 A i0 have "bus_inv T sb cs (add_mset m H) w1" unfolding app_ok_def by (metis bus_inv_user)
  then have "bus_inv T sb cs (add_mset m H) w2" using w2(1) by (rule free_payload_inv)
  then show ?thesis unfolding w2(2) by (rule bus_inv_release)
qed

lemma GET_MAJOR_bound: "unat (ucast (GET_MAJOR code) :: u16) < 2 ^ 12"
proof -
  have m: "(0xFFF :: u32) = mask 12" by (simp add: mask_eq_exp_minus_1)
  have "unat (GET_MAJOR code) < 2 ^ 12"
    unfolding GET_MAJOR_def m unat_and_mask by simp
  then show ?thesis
    by (simp add: unsigned_ucast_eq order_le_less_trans [OF take_bit_nat_less_eq_self])
qed

lemma ipc_run_inv:
  assumes inv: "bus_inv T sb cs H w" and A: "app_ok A" and h: "ipc_run fuel A self hd' ms m w = Some (rc, w')"
  shows "bus_inv T sb cs H w'"
proof -
  from h consider "w' = w"
    | f parser ret st w1 where "mblue_pb_data_parser_get (fst hd') = Some parser"
      "parser (schema_env (st_raw (app_stack A))) (st_frame (app_stack A)) (app_service A f) (snd hd') w = Some (ret, st, w1)"
      "w' = w1 \<or> (\<exists>seq code s. ipc_return fuel self (ucast (GET_MAJOR code)) seq ret w1 = Some (s, w'))"
    by (auto simp: ipc_run_def split: bind_splits if_splits) blast+
  then show ?thesis
  proof cases
    case (2 f parser ret st w1)
    from parser_effect [OF 2(1,2)] have "w1 = w \<or> (\<exists>u. w1 = w\<lparr>bw_user := u\<rparr>)"
      using A unfolding app_ok_def by blast
    then have i1: "bus_inv T sb cs H w1" using inv bus_inv_user by metis
    with 2(3) show ?thesis
      using send_message_inv [OF i1 GET_MAJOR_bound, where type = CALL_RETURN] by (auto simp: ipc_return_def)
  qed (use inv in simp)
qed

lemma default_ipc_handler_inv:
  assumes inv: "bus_inv T sb cs (add_mset m H) w" and A: "app_ok A"
    and h: "default_ipc_handler fuel A self ms m w = Some (rc, w')"
  shows "bus_inv T sb cs H w'"
proof -
  define w0 where "w0 = link_msg ms m w"
  have i0: "bus_inv T sb cs (add_mset m H) w0" using inv by (simp add: w0_def link_msg_inv)
  from h consider "w' = w0"
    | hd' rc' w1 w2 where "ipc_run fuel A self hd' ms m w0 = Some (rc', w1)" "free_payload m w1 = Some w2"
      "w' = world_release m w2"
    by (auto simp: default_ipc_handler_def Let_def w0_def [symmetric] split: bind_splits option.splits)
  then show ?thesis
  proof cases
    case 1
    then show ?thesis using bus_inv_drop [OF i0] by simp
  next
    case (2 hd' rc' w1 w2)
    have "bus_inv T sb cs (add_mset m H) w1" using i0 A 2(1) by (rule ipc_run_inv)
    then have "bus_inv T sb cs (add_mset m H) w2" using 2(2) by (rule free_payload_inv)
    then show ?thesis unfolding 2(3) by (rule bus_inv_release)
  qed
qed

lemma call_handler_inv:
  assumes inv: "bus_inv T sb cs (add_mset m H) w" and A: "app_ok A" and f: "fresh_call sb (msg_at w m)"
    and g: "mblue_segment_get_handler (m_dst (msg_at w m)) (unat (GET_TYPE (m_code (msg_at w m)))) w = Some h"
    and c: "call_handler fuel A self h (m_dst (msg_at w m)) m w = Some w'"
  shows "\<exists>cs'. bus_inv T sb cs' H w'"
proof -
  let ?dst = "m_dst (msg_at w m)" and ?type = "unat (GET_TYPE (m_code (msg_at w m)))"
  have hd: "h = handler_array (bw_segs w ?dst) ?type"
    using g by (auto simp: mblue_segment_get_handler_def split: if_splits)
  have ok: "config_ok T sb w" using inv by (simp add: bus_inv_def)
  have bus: "handler_array (bw_segs w sb) = bus_handlers" using ok by (simp add: config_ok_def)
  have other: "\<forall>ms type. ms \<noteq> sb \<longrightarrow>
      handler_array (bw_segs w ms) type \<in> {Null_handler, Default_signal_handler, Default_ipc_handler}"
    using ok unfolding config_ok_def by (elim conjE)
  have sb: "?dst = sb" if "h \<notin> {Null_handler, Default_signal_handler, Default_ipc_handler}"
    using other that hd by blast
  have sig: "\<not> is_call (msg_at w m)" if "h = Handle_signal"
    using that sb hd bus by (auto simp: bus_handlers_def is_call_def split: if_splits)
  have cl: "is_call (msg_at w m)" if "h = Handle_call"
    using that sb hd bus by (auto simp: bus_handlers_def is_call_def split: if_splits)
  show ?thesis
  proof (cases h)
    case Handle_subscribe
    with c obtain rc where "bus_subscribe (m_extra (msg_at w m)) (unat (GET_MAJOR (m_code (msg_at w m))))
        (world_release m w) = Some (rc, w')"
      by (auto simp: call_handler_def handle_subscribe_def Let_def split: bind_splits)
    with bus_inv_release [OF inv] show ?thesis using bus_subscribe_inv by blast
  next
    case Handle_signal
    with c bus_signal_inv [OF inv sig] show ?thesis
      by (auto simp: call_handler_def handle_signal_def split: bind_splits)
  next
    case Handle_call
    then have "m_ref (msg_at w m) = 1" "0 < unat (GET_MAJOR (m_code (msg_at w m)))"
      using f cl sb by (auto simp: fresh_call_def)
    with Handle_call c show ?thesis using bus_call_inv [OF inv]
      by (auto simp: call_handler_def handle_call_def split: bind_splits)
  next
    case Handle_call_return
    have "notify_ok (app_notify A)" using A by (simp add: app_ok_def)
    with Handle_call_return c show ?thesis using bus_call_return_inv [OF inv]
      by (auto simp: call_handler_def handle_call_return_def split: bind_splits)
  next
    case Default_signal_handler
    with c obtain rc where "default_signal_handler A 0 (m_dst (msg_at w m)) m w = Some (rc, w')"
      by (auto simp: call_handler_def split: bind_splits)
    then show ?thesis using default_signal_handler_inv [OF inv A] by blast
  next
    case Default_ipc_handler
    with c obtain rc where "default_ipc_handler fuel A self (m_dst (msg_at w m)) m w = Some (rc, w')"
      by (auto simp: call_handler_def split: bind_splits)
    then show ?thesis using default_ipc_handler_inv [OF inv A] by blast
  qed (use c in \<open>simp add: call_handler_def\<close>)
qed

text \<open>Taking the first message out of a queue puts it in hand.\<close>

lemma bus_inv_dequeue:
  assumes inv: "bus_inv T sb cs H w" and t: "t \<in> T" and r: "queue_remove (task_queue w t) = Some (m, q)" and m: "m \<noteq> 0"
  shows "bus_inv T sb cs (add_mset m H) (w\<lparr>bw_queues := (bw_queues w)(t_mq (bw_tasks w t) := q)\<rparr>)" (is "bus_inv _ _ _ _ ?w")
    and "fresh_call sb (msg_at w m)"
proof -
  have c: "config_ok T sb w" using inv by (simp add: bus_inv_def)
  then have wf: "queue_wf (task_queue w t)" and fin: "finite T" using t by (simp_all add: config_ok_def)
  have "0 < qsize (task_queue w t)" using r m queue_remove_empty [of "task_queue w t"] by (cases "0 < qsize (task_queue w t)") auto
  then obtain q' where q': "queue_remove (task_queue w t) = Some (hd (queue_contents (task_queue w t)), q')"
    "queue_wf q'" "queue_contents (task_queue w t) = hd (queue_contents (task_queue w t)) # queue_contents q'"
    using queue_remove_spec [OF wf] by metis
  then have q: "queue_wf q" "queue_contents (task_queue w t) = m # queue_contents q" using r by auto
  have "queued T ?w + {#m#} = queued T w" using queued_update [OF c t, of q "{#m#}" "{#}"] q(2) by simp
  then have qu: "queued T w = add_mset m (queued T ?w)" by simp
  show "fresh_call sb (msg_at w m)" using inv qu by (auto simp: bus_inv_def)
  have "pending cs ?w = pending cs w" "calls_ok cs ?w"
    using inv by (simp_all add: pending_def bus_inv_def calls_ok_def)
  with config_ok_update [OF c t q(1)] inv qu show "bus_inv T sb cs (add_mset m H) ?w" by (auto simp: bus_inv_def)
qed

lemma template_proc_turn_inv:
  assumes inv: "bus_inv T sb cs H w" and A: "app_ok A" and t: "t \<in> T"
    and turn: "template_proc_turn fuel A i t w = Some (Returns w')"
  shows "\<exists>cs'. bus_inv T sb cs' H w'"
proof -
  from turn obtain rc sem where p: "semaphore_pend i (msg_sem (bw_tasks w t)) = Some (Returns (rc, sem))"
    by (auto simp: template_proc_turn_def split: bind_splits pend.splits)
  define w1 where "w1 = upd_task t (msg_sem_update (\<lambda>_. sem)) w"
  have i1: "bus_inv T sb cs H w1" unfolding w1_def using inv by (rule bus_inv_upd_task) simp
  show ?thesis
  proof (cases "rc = MBLUE_OK")
    case False
    with turn p have "w' = w1" by (simp add: template_proc_turn_def w1_def)
    then show ?thesis using i1 by blast
  next
    case True
    with turn p obtain m q h where r: "queue_remove (task_queue w1 t) = Some (m, q)" "m \<noteq> 0"
      and w2: "mblue_segment_get_handler (m_dst (msg_at w1 m)) (unat (GET_TYPE (m_code (msg_at w1 m))))
          (w1\<lparr>bw_queues := (bw_queues w1)(t_mq (bw_tasks w1 t) := q)\<rparr>) = Some h"
        "call_handler fuel A (t_obj (bw_tasks w1 t)) h (m_dst (msg_at w1 m)) m
          (w1\<lparr>bw_queues := (bw_queues w1)(t_mq (bw_tasks w1 t) := q)\<rparr>) = Some w'"
      by (auto simp: template_proc_turn_def w1_def [symmetric] Let_def split: bind_splits if_splits)
    note d = bus_inv_dequeue [OF i1 t r]
    show ?thesis using call_handler_inv [OF d(1) A _ _ _] d(2) w2 by simp
  qed
qed

end
