(* ===== verification/Bus_Calls.thy ===== *)
theory Bus_Calls
  imports Segment
begin

text \<open>
  A remote call from end to end: the caller posts it to the bus, the bus passes it on to the segment,
  the segment's task runs the function and posts the answer to the bus, the bus stores the answer in
  the caller's variable and wakes the caller. Each stage is a lemma that gives the next world
  explicitly; together they show that the call returns the function's answer and that the messages,
  the pending call and the payload are all given back.
\<close>

section \<open>Queues of tasks\<close>

text \<open>A running task whose queue holds the given messages.\<close>

definition task_has :: "'u bus_world \<Rightarrow> addr \<Rightarrow> addr list \<Rightarrow> bool" where
  "task_has w t xs \<longleftrightarrow> t \<noteq> 0 \<and> nproc (bw_tasks w t) = Template_fn \<and> queue_wf (task_queue w t) \<and>
     queue_contents (task_queue w t) = xs \<and> 0 < qcapacity (task_queue w t) \<and>
     sem_value (msg_sem (bw_tasks w t)) (length xs)"

lemma queue_size_contents: "queue_wf q \<Longrightarrow> qsize q = int (length (queue_contents q))"
  by (simp add: queue_wf_def)

lemma call_nproc_room:
  assumes "task_has w t xs" and "int (length xs) < qcapacity (task_queue w t)"
  obtains q sem where
    "call_nproc t m w = Some (MBLUE_OK, upd_task t (msg_sem_update (\<lambda>_. sem))
       (w\<lparr>bw_queues := (bw_queues w)(t_mq (bw_tasks w t) := q)\<rparr>))"
    "queue_wf q" "queue_contents q = xs @ [m]" "qcapacity q = qcapacity (task_queue w t)"
    "sem_value sem (Suc (length xs))"
proof -
  let ?q = "task_queue w t"
  have wf: "queue_wf ?q" and c: "queue_contents ?q = xs"
    and s: "sem_value (msg_sem (bw_tasks w t)) (length xs)" and t: "t \<noteq> 0" "nproc (bw_tasks w t) = Template_fn"
    using assms(1) by (simp_all add: task_has_def)
  have "qsize ?q < qcapacity ?q" using queue_size_contents [OF wf] c assms(2) by simp
  then obtain q where q: "queue_add ?q m = Some (0, q)" "queue_wf q" "queue_contents q = xs @ [m]"
    "qcapacity q = qcapacity ?q"
    using queue_add_spec [OF wf] c by metis
  have "length xs < SEM_VALUE_MAX" using assms(2) wf by (simp add: queue_wf_def SEM_VALUE_MAX_def)
  then obtain sem where p: "semaphore_post (msg_sem (bw_tasks w t)) = Some (MBLUE_OK, sem)" "sem_value sem (Suc (length xs))"
    using semaphore_post_value [OF s] by blast
  show thesis using that [of sem q] q p t by (simp add: call_nproc_def template_msg_post_def Let_def)
qed

lemma template_proc_turn_first:
  assumes "task_has w t (m # xs)" and "m \<noteq> 0" and "m_dst (msg_at w m) = ms" "ms \<noteq> 0"
    and "unat (GET_TYPE (m_code (msg_at w m))) = type_value type"
  obtains q sem where
    "template_proc_turn fuel A i t w = map_option Returns (call_handler fuel A (t_obj (bw_tasks w t))
       (handler_array (bw_segs w ms) (type_value type)) ms m
       (upd_task t (msg_sem_update (\<lambda>_. sem)) (w\<lparr>bw_queues := (bw_queues w)(t_mq (bw_tasks w t) := q)\<rparr>)))"
    "queue_wf q" "queue_contents q = xs" "qcapacity q = qcapacity (task_queue w t)" "sem_value sem (length xs)"
proof -
  let ?q = "task_queue w t"
  have wf: "queue_wf ?q" and c: "queue_contents ?q = m # xs"
    and s: "sem_value (msg_sem (bw_tasks w t)) (Suc (length xs))"
    using assms(1) by (simp_all add: task_has_def)
  have "0 < qsize ?q" using queue_size_contents [OF wf] c by simp
  then obtain q where q: "queue_remove ?q = Some (m, q)" "queue_wf q" "queue_contents q = xs" "qcapacity q = qcapacity ?q"
    using queue_remove_spec [OF wf] c by (metis list.sel(1) list.inject)
  obtain sem where p: "semaphore_pend i (msg_sem (bw_tasks w t)) = Some (Returns (MBLUE_OK, sem))" "sem_value sem (length xs)"
    using semaphore_pend_value [OF s] by blast
  have ty: "type_value type < MESSAGE_TYPE_MAX" by (cases type) (simp_all add: MESSAGE_TYPE_MAX_def)
  have co: "upd_task t f (w\<lparr>bw_queues := g\<rparr>) = (upd_task t f w)\<lparr>bw_queues := g\<rparr>" for f g
    by (cases w) (simp add: upd_task_def)
  have "template_proc_turn fuel A i t w = map_option Returns (call_handler fuel A (t_obj (bw_tasks w t))
       (handler_array (bw_segs w ms) (type_value type)) ms m
       (upd_task t (msg_sem_update (\<lambda>_. sem)) (w\<lparr>bw_queues := (bw_queues w)(t_mq (bw_tasks w t) := q)\<rparr>)))"
    using assms p q ty unfolding co template_proc_turn_def
    by (simp add: upd_task_def mblue_segment_get_handler_def Let_def map_option_bind option.map_comp o_def
        split: option.split) (simp add: map_conv_bind_option o_def)
  then show thesis using that q p(2) by blast
qed

section \<open>The tasks of a call\<close>

text \<open>The caller \<open>tc\<close>, the bus task \<open>tb\<close> with the bus segment \<open>sb\<close> at the front of its segments, and the
  task \<open>ts\<close> of the segment \<open>ss\<close> with major number \<open>M\<close>.\<close>

definition call_config :: "addr \<Rightarrow> addr \<Rightarrow> addr \<Rightarrow> addr \<Rightarrow> addr \<Rightarrow> nat \<Rightarrow> 'u bus_world \<Rightarrow> bool" where
  "call_config tc tb sb ts ss M w \<longleftrightarrow>
     bw_ipc w = Some tb \<and> lnext (bw_seg_links w) (list_head_of tb) = list_node_of sb \<and>
     sb \<noteq> 0 \<and> s_major (bw_segs w sb) = 0 \<and> handler_array (bw_segs w sb) = bus_handlers \<and>
     0 < M \<and> M < SEGMENT_MAJOR_MAX \<and> bw_node_ms w M = ss \<and> ss \<noteq> 0 \<and> s_context (bw_segs w ss) = ts \<and>
     handler_array (bw_segs w ss) (type_value SYNC_CALL) = Default_ipc_handler \<and>
     handler_array (bw_segs w ss) (type_value ASYNC_CALL) = Default_ipc_handler \<and>
     tb \<noteq> ts \<and> t_mq (bw_tasks w tb) \<noteq> t_mq (bw_tasks w ts) \<and> tc \<noteq> 0 \<and>
     tpend (bw_tasks w tc) = Template_fn \<and> tpost (bw_tasks w tc) = Template_fn"

text \<open>What changes while the call is served: the two queues, the value of the caller's semaphore, the
  free messages and the pending calls of the segment.\<close>

definition call_state ::
    "addr \<Rightarrow> addr \<Rightarrow> addr \<Rightarrow> addr \<Rightarrow> addr \<Rightarrow> nat \<Rightarrow> addr list \<Rightarrow> addr list \<Rightarrow> nat \<Rightarrow> addr list \<Rightarrow> addr list \<Rightarrow> 'u bus_world \<Rightarrow> bool" where
  "call_state tc tb sb ts ss M xb xs n free cs w \<longleftrightarrow>
     call_config tc tb sb ts ss M w \<and> task_has w tb xb \<and> task_has w ts xs \<and>
     sem_value (call_sem (bw_tasks w tc)) n \<and> pool_holds (bw_msgs w) free \<and>
     heap_wf (bw_heap w) \<and> dlist (bw_call_links w) (list_head_of M) (map list_node_of cs)"

text \<open>Updates of the queue and the message semaphore of one task.\<close>

definition set_queue :: "addr \<Rightarrow> mblue_queue \<Rightarrow> mblue_semaphore \<Rightarrow> 'u bus_world \<Rightarrow> 'u bus_world" where
  "set_queue t q sem w = upd_task t (msg_sem_update (\<lambda>_. sem)) (w\<lparr>bw_queues := (bw_queues w)(t_mq (bw_tasks w t) := q)\<rparr>)"

lemma set_queue_simps [simp]:
  "bw_heap (set_queue t q sem w) = bw_heap w" "bw_msgs (set_queue t q sem w) = bw_msgs w"
  "bw_segs (set_queue t q sem w) = bw_segs w" "bw_seg_links (set_queue t q sem w) = bw_seg_links w"
  "bw_node_ms (set_queue t q sem w) = bw_node_ms w" "bw_call_links (set_queue t q sem w) = bw_call_links w"
  "bw_calls (set_queue t q sem w) = bw_calls w" "bw_cells (set_queue t q sem w) = bw_cells w"
  "bw_ipc (set_queue t q sem w) = bw_ipc w" "bw_pub_links (set_queue t q sem w) = bw_pub_links w"
  "bw_subs (set_queue t q sem w) = bw_subs w" "bw_tm (set_queue t q sem w) = bw_tm w"
  "t_mq (bw_tasks (set_queue t q sem w) t') = t_mq (bw_tasks w t')"
  "t_obj (bw_tasks (set_queue t q sem w) t') = t_obj (bw_tasks w t')"
  "nproc (bw_tasks (set_queue t q sem w) t') = nproc (bw_tasks w t')"
  "tpend (bw_tasks (set_queue t q sem w) t') = tpend (bw_tasks w t')"
  "tpost (bw_tasks (set_queue t q sem w) t') = tpost (bw_tasks w t')"
  "call_sem (bw_tasks (set_queue t q sem w) t') = call_sem (bw_tasks w t')"
  "bw_user (set_queue t q sem w) = bw_user w" "bw_notifiers (set_queue t q sem w) = bw_notifiers w"
  by (simp_all add: set_queue_def upd_task_def)

lemma set_queue_has:
  assumes "task_has w t xs" and "queue_wf q" "queue_contents q = ys" "qcapacity q = qcapacity (task_queue w t)"
    "sem_value sem (length ys)"
  shows "task_has (set_queue t q sem w) t ys"
    and "t' \<noteq> t \<Longrightarrow> t_mq (bw_tasks w t') \<noteq> t_mq (bw_tasks w t) \<Longrightarrow> task_has w t' zs \<Longrightarrow>
      task_has (set_queue t q sem w) t' zs"
  using assms by (simp_all add: task_has_def set_queue_def upd_task_def)

lemma call_state_queue:
  assumes "call_state tc tb sb ts ss M xb xs n free cs w" and "queue_wf q" "queue_contents q = ys"
  shows "qcapacity q = qcapacity (task_queue w tb) \<Longrightarrow> sem_value sem (length ys) \<Longrightarrow>
      call_state tc tb sb ts ss M ys xs n free cs (set_queue tb q sem w)"
    and "qcapacity q = qcapacity (task_queue w ts) \<Longrightarrow> sem_value sem (length ys) \<Longrightarrow>
      call_state tc tb sb ts ss M xb ys n free cs (set_queue ts q sem w)"
proof -
  have b: "task_has w tb xb" and s: "task_has w ts xs" and ne: "tb \<noteq> ts" "t_mq (bw_tasks w tb) \<noteq> t_mq (bw_tasks w ts)"
    using assms(1) by (simp_all add: call_state_def call_config_def)
  have cfg: "call_config tc tb sb ts ss M (set_queue t q sem w)" for t
    using assms(1) by (simp add: call_state_def call_config_def)
  show "call_state tc tb sb ts ss M ys xs n free cs (set_queue tb q sem w)"
    if "qcapacity q = qcapacity (task_queue w tb)" "sem_value sem (length ys)"
    using set_queue_has(1) [OF b assms(2,3) that] set_queue_has(2) [OF b assms(2,3) that, of ts xs] ne s cfg assms(1)
    by (simp add: call_state_def)
  show "call_state tc tb sb ts ss M xb ys n free cs (set_queue ts q sem w)"
    if "qcapacity q = qcapacity (task_queue w ts)" "sem_value sem (length ys)"
    using set_queue_has(1) [OF s assms(2,3) that] set_queue_has(2) [OF s assms(2,3) that, of tb xb] ne b cfg assms(1)
    by (simp add: call_state_def)
qed

lemma call_state_post:
  assumes "call_state tc tb sb ts ss M xb xs n free cs w"
  shows "int (length xb) < qcapacity (task_queue w tb) \<Longrightarrow> \<exists>q sem. call_nproc tb m w = Some (MBLUE_OK, set_queue tb q sem w) \<and>
      call_state tc tb sb ts ss M (xb @ [m]) xs n free cs (set_queue tb q sem w)"
    and "int (length xs) < qcapacity (task_queue w ts) \<Longrightarrow> \<exists>q sem. call_nproc ts m w = Some (MBLUE_OK, set_queue ts q sem w) \<and>
      call_state tc tb sb ts ss M xb (xs @ [m]) n free cs (set_queue ts q sem w)"
proof -
  have b: "task_has w tb xb" and s: "task_has w ts xs" using assms by (simp_all add: call_state_def)
  show "\<exists>q sem. call_nproc tb m w = Some (MBLUE_OK, set_queue tb q sem w) \<and>
      call_state tc tb sb ts ss M (xb @ [m]) xs n free cs (set_queue tb q sem w)"
    if "int (length xb) < qcapacity (task_queue w tb)"
    using call_nproc_room [OF b that] call_state_queue(1) [OF assms]
    unfolding set_queue_def [symmetric] by (metis length_append_singleton)
  show "\<exists>q sem. call_nproc ts m w = Some (MBLUE_OK, set_queue ts q sem w) \<and>
      call_state tc tb sb ts ss M xb (xs @ [m]) n free cs (set_queue ts q sem w)"
    if "int (length xs) < qcapacity (task_queue w ts)"
    using call_nproc_room [OF s that] call_state_queue(2) [OF assms]
    unfolding set_queue_def [symmetric] by (metis length_append_singleton)
qed

text \<open>What a step of the two tasks \<open>tb\<close> and \<open>ts\<close> leaves alone: the other tasks with their queues, and the
  configuration of the segments. The heap may have grown by \<open>k\<close> units of 16 bytes.\<close>

definition aside :: "addr \<Rightarrow> addr \<Rightarrow> nat \<Rightarrow> 'u bus_world \<Rightarrow> 'u bus_world \<Rightarrow> bool" where
  "aside tb ts k w w' \<longleftrightarrow>
     (\<forall>t. t \<noteq> tb \<and> t \<noteq> ts \<longrightarrow> bw_tasks w' t = bw_tasks w t) \<and>
     (\<forall>t. t_mq (bw_tasks w' t) = t_mq (bw_tasks w t) \<and> mblue_task.t_obj (bw_tasks w' t) = mblue_task.t_obj (bw_tasks w t) \<and>
        nproc (bw_tasks w' t) = nproc (bw_tasks w t) \<and> tpend (bw_tasks w' t) = tpend (bw_tasks w t) \<and>
        tpost (bw_tasks w' t) = tpost (bw_tasks w t) \<and> call_sem (bw_tasks w' t) = call_sem (bw_tasks w t)) \<and>
     (\<forall>a. a \<noteq> t_mq (bw_tasks w tb) \<and> a \<noteq> t_mq (bw_tasks w ts) \<longrightarrow> bw_queues w' a = bw_queues w a) \<and>
     (\<forall>s. handler_array (bw_segs w' s) = handler_array (bw_segs w s) \<and> items_array (bw_segs w' s) = items_array (bw_segs w s) \<and>
        s_context (bw_segs w' s) = s_context (bw_segs w s) \<and> s_major (bw_segs w' s) = s_major (bw_segs w s)) \<and>
     bw_tm w' = bw_tm w \<and> bw_ipc w' = bw_ipc w \<and> bw_seg_links w' = bw_seg_links w \<and> bw_node_ms w' = bw_node_ms w \<and> hfail (bw_heap w') = hfail (bw_heap w) \<and>
     hnext (bw_heap w) \<le> hnext (bw_heap w') \<and> hnext (bw_heap w') \<le> hnext (bw_heap w) + k"

lemma aside_trans:
  assumes "aside tb ts j w w'" and "aside tb ts k w' w''" and "j + k \<le> n"
  shows "aside tb ts n w w''"
  using assms by (simp add: aside_def)

lemma aside_same:
  assumes "bw_tasks w' = bw_tasks w" "bw_queues w' = bw_queues w" "bw_segs w' = bw_segs w" "bw_tm w' = bw_tm w"
    "bw_ipc w' = bw_ipc w" "bw_seg_links w' = bw_seg_links w" "bw_node_ms w' = bw_node_ms w" "hfail (bw_heap w') = hfail (bw_heap w)" "hnext (bw_heap w) \<le> hnext (bw_heap w')" "hnext (bw_heap w') \<le> hnext (bw_heap w) + k"
  shows "aside tb ts k w w'"
  using assms by (simp add: aside_def)

lemma aside_queue: "aside tb ts 0 w (set_queue tb q sem w)" "aside tb ts 0 w (set_queue ts q sem w)"
  by (simp_all add: aside_def set_queue_def upd_task_def)

lemma aside_has:
  assumes "aside tb ts k w w'" and "t \<noteq> tb" "t \<noteq> ts" "t_mq (bw_tasks w t) \<noteq> t_mq (bw_tasks w tb)"
    "t_mq (bw_tasks w t) \<noteq> t_mq (bw_tasks w ts)"
  shows "task_has w' t xs \<longleftrightarrow> task_has w t xs"
  using assms by (simp add: aside_def task_has_def)

lemma call_state_aside:
  assumes "call_state tc tb sb ts ss M xb xs n free' cs w" and "aside t t k w w'" and "t \<noteq> tb" "t \<noteq> ts"
    and "t_mq (bw_tasks w t) \<noteq> t_mq (bw_tasks w tb)" "t_mq (bw_tasks w t) \<noteq> t_mq (bw_tasks w ts)"
    and "pool_holds (bw_msgs w') free" and "heap_wf (bw_heap w')" and "bw_call_links w' = bw_call_links w"
  shows "call_state tc tb sb ts ss M xb xs n free cs w'"
proof -
  have "task_has w' tb xb" "task_has w' ts xs"
    using aside_has [OF assms(2), of tb xb] aside_has [OF assms(2), of ts xs] assms(1,3-6) by (auto simp: call_state_def)
  moreover have "call_config tc tb sb ts ss M w'" using assms(1,2) by (simp add: call_state_def call_config_def aside_def)
  moreover have "sem_value (call_sem (bw_tasks w' tc)) n" using assms(1,2) by (simp add: call_state_def aside_def)
  ultimately show ?thesis using assms(1,7-9) by (simp add: call_state_def)
qed

text \<open>A task's turn on its first message: the handler runs with the message taken out.\<close>

lemma call_state_turn:
  assumes st: "call_state tc tb sb ts ss M xb xs n free cs w" and m: "m \<noteq> 0" "m_dst (msg_at w m) = ms" "ms \<noteq> 0"
    "unat (GET_TYPE (m_code (msg_at w m))) = type_value type"
  shows "xb = m # ys \<Longrightarrow> \<exists>q sem. template_proc_turn fuel A i tb w = map_option Returns (call_handler fuel A
      (t_obj (bw_tasks w tb)) (handler_array (bw_segs w ms) (type_value type)) ms m (set_queue tb q sem w)) \<and>
      call_state tc tb sb ts ss M ys xs n free cs (set_queue tb q sem w)"
    and "xs = m # ys \<Longrightarrow> \<exists>q sem. template_proc_turn fuel A i ts w = map_option Returns (call_handler fuel A
      (t_obj (bw_tasks w ts)) (handler_array (bw_segs w ms) (type_value type)) ms m (set_queue ts q sem w)) \<and>
      call_state tc tb sb ts ss M xb ys n free cs (set_queue ts q sem w)"
proof -
  have b: "task_has w tb xb" and s: "task_has w ts xs" using st by (simp_all add: call_state_def)
  show "\<exists>q sem. template_proc_turn fuel A i tb w = map_option Returns (call_handler fuel A
      (t_obj (bw_tasks w tb)) (handler_array (bw_segs w ms) (type_value type)) ms m (set_queue tb q sem w)) \<and>
      call_state tc tb sb ts ss M ys xs n free cs (set_queue tb q sem w)" if "xb = m # ys"
    using template_proc_turn_first [OF b [unfolded that] m, of fuel A i] call_state_queue(1) [OF st]
    unfolding set_queue_def [symmetric] by metis
  show "\<exists>q sem. template_proc_turn fuel A i ts w = map_option Returns (call_handler fuel A
      (t_obj (bw_tasks w ts)) (handler_array (bw_segs w ms) (type_value type)) ms m (set_queue ts q sem w)) \<and>
      call_state tc tb sb ts ss M xb ys n free cs (set_queue ts q sem w)" if "xs = m # ys"
    using template_proc_turn_first [OF s [unfolded that] m, of fuel A i] call_state_queue(2) [OF st]
    unfolding set_queue_def [symmetric] by metis
qed

section \<open>The stages\<close>

lemma call_state_update:
  assumes "call_state tc tb sb ts ss M xb xs n free cs w"
  shows "pool_holds s free' \<Longrightarrow> call_state tc tb sb ts ss M xb xs n free' cs (w\<lparr>bw_msgs := s\<rparr>)"
    and "heap_wf hp \<Longrightarrow> call_state tc tb sb ts ss M xb xs n free cs (w\<lparr>bw_heap := hp\<rparr>)"
    and "dlist l (list_head_of M) (map list_node_of cs') \<Longrightarrow>
      call_state tc tb sb ts ss M xb xs n free cs' (w\<lparr>bw_call_links := l\<rparr>)"
    and "call_state tc tb sb ts ss M xb xs n free cs (w\<lparr>bw_calls := x\<rparr>)"
    and "call_state tc tb sb ts ss M xb xs n free cs (w\<lparr>bw_cells := y\<rparr>)"
    and "call_state tc tb sb ts ss M xb xs n free cs (w\<lparr>bw_user := u\<rparr>)"
    and "call_state tc tb sb ts ss M xb xs n free cs (upd_msg m f w)"
    and "call_state tc tb sb ts ss M xb xs n free cs (link_msg ss m w)"
  using assms by (cases "sb = ss"; simp add: call_state_def call_config_def task_has_def upd_msg_def pool_holds_def
      link_msg_def upd_seg_def)+

definition sent_message ::
    "addr \<Rightarrow> u16 \<Rightarrow> MESSAGE_TYPE \<Rightarrow> u16 \<Rightarrow> u16 \<Rightarrow> addr \<Rightarrow> SMART_DATA \<Rightarrow> addr \<Rightarrow> mblue_message" where
  "sent_message src seq type major minor dst input extra =
     \<lparr>m_seq = seq, m_ref = (if type = SYNC_CALL \<or> type = ASYNC_CALL then 1 else 0),
      m_code = message_code (of_nat (type_value type)) (ucast major) (ucast minor), m_src = src, m_dst = dst,
      smart_payload = input, m_extra = extra\<rparr>"

text \<open>Sending through the bus: the next free message is filled and posted to the bus task.\<close>

lemma send_to_bus:
  assumes st: "call_state tc tb sb ts ss M [] xs n (m # free) cs w"
  obtains w' where "send_message (Suc fuel) src seq type major minor 0 input out extra pn w = Some (Posted m, w')"
    "call_state tc tb sb ts ss M [m] xs n free cs w'"
    "msg_at w' m = sent_message src seq type major minor sb input
       (if type = SYNC_CALL then out else if type = ASYNC_CALL then pn else extra)"
    "\<And>m'. m' \<noteq> m \<Longrightarrow> msg_at w' m' = msg_at w m'"
    "bw_heap w' = bw_heap w" "bw_calls w' = bw_calls w" "bw_cells w' = bw_cells w" "bw_segs w' = bw_segs w"
    "bw_user w' = bw_user w" "bw_notifiers w' = bw_notifiers w" "aside tb ts 0 w w'"
proof -
  let ?x = "if type = SYNC_CALL then out else if type = ASYNC_CALL then pn else extra"
  have p: "pool_holds (bw_msgs w) (m # free)" using st by (simp add: call_state_def)
  then obtain s where s: "mblue_message_alloc (bw_msgs w) = (m, s)" "pool_holds s free"
    "ms_pool s = (ms_pool (bw_msgs w))(m := zero_message)" using alloc_first by blast
  have m0: "m \<noteq> 0" using mpool.holds_objs [OF p] msg_objs_facts by auto
  define w3 where "w3 = upd_msg m (\<lambda>_. sent_message src seq type major minor sb input ?x) (w\<lparr>bw_msgs := s\<rparr>)"
  have st3: "call_state tc tb sb ts ss M [] xs n free cs w3"
    unfolding w3_def by (intro call_state_update(7) call_state_update(1) [OF st] s(2))
  have "int (length []) < qcapacity (task_queue w3 tb)" using st3 by (simp add: call_state_def task_has_def)
  then obtain q sem where post: "call_nproc tb m w3 = Some (MBLUE_OK, set_queue tb q sem w3)"
    "call_state tc tb sb ts ss M [m] xs n free cs (set_queue tb q sem w3)"
    using call_state_post(1) [OF st3] by force
  have cfg: "bw_ipc w = Some tb" "lnext (bw_seg_links w) (list_head_of tb) = list_node_of sb" "sb \<noteq> 0"
    "s_major (bw_segs w sb) = 0" "tb \<noteq> 0"
    using st by (simp_all add: call_state_def call_config_def task_has_def)
  have "send_message (Suc fuel) src seq type major minor 0 input out extra pn w = Some (Posted m, set_queue tb q sem w3)"
    using m0 cfg post(1) s(1,3)
    by (cases type) (simp_all add: send_message_def init_message_def world_alloc_def INIT_MESSAGE_WITH_def Let_def
        ipc_invoke_post_def ipc_route_def ipc_get_instance_def upd_msg_def w3_def sent_message_def zero_message_def)
  moreover have "aside tb ts 0 w w3" by (rule aside_same) (simp_all add: w3_def upd_msg_def)
  then have "aside tb ts 0 w (set_queue tb q sem w3)" by (rule aside_trans [OF _ aside_queue(1)]) simp
  ultimately show thesis using that [OF _ post(2)] s(3) by (simp add: w3_def upd_msg_def)
qed

lemma sent_message_fields:
  fixes major minor :: u16
  assumes "unat major < SEGMENT_MAJOR_MAX"
  shows "unat (GET_TYPE (m_code (sent_message src seq type major minor dst input extra))) = type_value type"
    "unat (GET_MAJOR (m_code (sent_message src seq type major minor dst input extra))) = unat major"
    "GET_MINOR (m_code (sent_message src seq type major minor dst input extra)) = ucast minor"
  using sent_code [of major] assms by (simp_all add: sent_message_def SEGMENT_MAJOR_MAX_def)

lemma malloc_call_block:
  assumes "heap_wf hp" and "\<not> hfail hp (hcalls hp)"
  obtains hp' where "mblue_malloc sizeof_pending_call hp = Some (16 * Suc (hnext hp), hp')" "heap_wf hp'"
    "hblocks hp (16 * Suc (hnext hp)) = None" "hblocks hp' (16 * Suc (hnext hp)) \<noteq> None"
    "(hblocks hp')(16 * Suc (hnext hp) := None) = hblocks hp"
    "hfail hp' = hfail hp" "hnext hp \<le> hnext hp'" "hnext hp' \<le> hnext hp + 3"
proof -
  note n = heap_wf_fresh [OF assms(1)]
  have s: "unat sizeof_pending_call \<le> 2 ^ 32 - 16" by (simp add: sizeof_pending_call_def)
  note g = mblue_malloc_granted [OF assms(2) s]
  have "heap_wf (snd (the (mblue_malloc sizeof_pending_call hp)))"
    using mheap.malloc_wf [OF assms(1) s g] unfolding g by simp
  then show thesis using that n unfolding g by (simp add: fun_upd_idem_iff fun_upd_idem sizeof_pending_call_def)
qed

text \<open>The two types of calls, and what the bus keeps of a call: the notifier of an asynchronous one is the
  caller's, that of a synchronous one is null.\<close>

definition call_type :: "MESSAGE_TYPE \<Rightarrow> bool" where
  "call_type ty \<longleftrightarrow> ty = SYNC_CALL \<or> ty = ASYNC_CALL"

definition pending_of :: "MESSAGE_TYPE \<Rightarrow> addr \<Rightarrow> addr \<Rightarrow> pending_call" where
  "pending_of ty m x = \<lparr>pc_msg = m, pc_src = 0, pc_call_type = of_nat (type_value ty),
     pc_notifier = (if ty = ASYNC_CALL then x else 0)\<rparr>"

text \<open>\<^verbatim>\<open>bus_call\<close> on a call: a pending call is linked and the message goes to the task of its segment with a
  second reference.\<close>

lemma bus_call_pending:
  assumes st: "call_state tc tb sb ts ss M xb [] n free [] w" and M: "unat major = M"
    and ty: "call_type ty" "x \<noteq> 0" and msg: "msg_at w m = sent_message tc seq ty major minor sb payload x"
    and gr: "\<not> hfail (bw_heap w) (hcalls (bw_heap w))"
  defines "c \<equiv> 16 * Suc (hnext (bw_heap w))"
  obtains w' where "bus_call m x w = Some (MBLUE_OK, w')"
    "call_state tc tb sb ts ss M xb [m] n free [c] w'"
    "msg_at w' m = (sent_message tc seq ty major minor ss payload x)\<lparr>m_ref := 2\<rparr>"
    "bw_calls w' c = pending_of ty m x"
    "hblocks (bw_heap w) c = None" "hblocks (bw_heap w') c \<noteq> None" "(hblocks (bw_heap w'))(c := None) = hblocks (bw_heap w)"
    "bw_segs w' = bw_segs w" "bw_user w' = bw_user w" "bw_notifiers w' = bw_notifiers w" "aside tb ts 3 w w'"
proof -
  have cfg: "bw_node_ms w M = ss" "ss \<noteq> 0" "s_context (bw_segs w ss) = ts" "M < SEGMENT_MAJOR_MAX"
    "nproc (bw_tasks w ts) = Template_fn" "ts \<noteq> 0"
    using st by (simp_all add: call_state_def call_config_def task_has_def)
  have f: "unat (GET_TYPE (m_code (msg_at w m))) = type_value ty" "unat (GET_MAJOR (m_code (msg_at w m))) = M"
    using sent_message_fields [of major] cfg(4) M unfolding msg by simp_all
  have t: "GET_TYPE (m_code (msg_at w m)) = of_nat (type_value ty)"
    unfolding f(1) [symmetric] by simp
  have hw: "heap_wf (bw_heap w)" using st by (simp add: call_state_def)
  obtain hp where hp: "mblue_malloc sizeof_pending_call (bw_heap w) = Some (c, hp)" "heap_wf hp"
    "hblocks (bw_heap w) c = None" "hblocks hp c \<noteq> None" "(hblocks hp)(c := None) = hblocks (bw_heap w)"
    "hfail hp = hfail (bw_heap w)" "hnext (bw_heap w) \<le> hnext hp" "hnext hp \<le> hnext (bw_heap w) + 3"
    using malloc_call_block [OF hw gr] unfolding c_def by blast
  define w2 where "w2 = upd_msg m (\<lambda>x. x\<lparr>m_ref := m_ref x + 1, m_dst := ss\<rparr>)
    (w\<lparr>bw_heap := hp, bw_calls := (bw_calls w)(c := pending_of ty m x),
      bw_call_links := list_add_tail (list_node_of c) (list_head_of M) (bw_call_links w)\<rparr>)"
  have "dlist (bw_call_links w) (list_head_of M) []" using st by (simp add: call_state_def)
  then have dl: "dlist (list_add_tail (list_node_of c) (list_head_of M) (bw_call_links w)) (list_head_of M) (map list_node_of [c])"
    using dlist_list_add_tail [of _ "list_head_of M" "[]" "list_node_of c"] by (simp add: c_def NULL_addr_def)
  have st2: "call_state tc tb sb ts ss M xb [] n free [c] w2" unfolding w2_def
    by (rule call_state_update(7) [OF call_state_update(3) [OF call_state_update(4) [OF call_state_update(2) [OF st hp(2)]] dl]])
  have "int (length []) < qcapacity (task_queue w2 ts)" using st2 by (simp add: call_state_def task_has_def)
  then obtain q sem where post: "call_nproc ts m w2 = Some (MBLUE_OK, set_queue ts q sem w2)"
    "call_state tc tb sb ts ss M xb [m] n free [c] (set_queue ts q sem w2)"
    using call_state_post(2) [OF st2] by force
  have c0: "c \<noteq> 0" by (simp add: c_def)
  have w2': "upd_msg m (m_dst_update (\<lambda>_. ss)) (world_get m ((if ty = SYNC_CALL
        then upd_msg m (m_extra_update (\<lambda>_. x)) (w\<lparr>bw_heap := hp\<rparr>) else w\<lparr>bw_heap := hp\<rparr>)
      \<lparr>bw_calls := (bw_calls w)(c := pending_of ty m x),
       bw_call_links := list_add_tail (list_node_of c) (list_head_of M) (bw_call_links w)\<rparr>)) = w2"
    using msg ty by (cases w) (auto simp: w2_def world_get_def get_mblue_message_def set_ref_def upd_msg_def Let_def
      sent_message_def call_type_def)
  have "bus_call m x w = Some (MBLUE_OK, set_queue ts q sem w2)"
    using ty cfg f t hp(1) post(1) w2' c0 unfolding pending_of_def call_type_def
    by (auto simp: bus_call_def Let_def mblue_segment_get_context_def world_malloc_def bus_call_deliver_def upd_msg_def)
  moreover have "aside tb ts 3 w w2" using hp(6-8) by (intro aside_same) (simp_all add: w2_def upd_msg_def)
  then have "aside tb ts 3 w (set_queue ts q sem w2)" by (rule aside_trans [OF _ aside_queue(2)]) simp
  ultimately show thesis using that [OF _ post(2)] hp ty
    by (simp add: w2_def upd_msg_def msg) (simp add: sent_message_def call_type_def)
qed

text \<open>The bus task takes the call and passes it on.\<close>

lemma bus_turn_call:
  assumes st: "call_state tc tb sb ts ss M [m] [] n free [] w" and m: "m \<noteq> 0" and M: "unat major = M"
    and ty: "call_type ty" "x \<noteq> 0" and msg: "msg_at w m = sent_message tc seq ty major minor sb payload x"
    and gr: "\<not> hfail (bw_heap w) (hcalls (bw_heap w))"
  defines "c \<equiv> 16 * Suc (hnext (bw_heap w))"
  obtains w' where "template_proc_turn fuel A i tb w = Some (Returns w')"
    "call_state tc tb sb ts ss M [] [m] n free [c] w'"
    "msg_at w' m = (sent_message tc seq ty major minor ss payload x)\<lparr>m_ref := 2\<rparr>"
    "bw_calls w' c = pending_of ty m x"
    "hblocks (bw_heap w) c = None" "hblocks (bw_heap w') c \<noteq> None" "(hblocks (bw_heap w'))(c := None) = hblocks (bw_heap w)"
    "bw_segs w' = bw_segs w" "bw_user w' = bw_user w" "bw_notifiers w' = bw_notifiers w" "aside tb ts 3 w w'"
proof -
  have cfg: "sb \<noteq> 0" "handler_array (bw_segs w sb) = bus_handlers" "M < SEGMENT_MAJOR_MAX"
    using st by (simp_all add: call_state_def call_config_def)
  have f: "unat (GET_TYPE (m_code (msg_at w m))) = type_value ty"
    using sent_message_fields(1) [of major] cfg(3) M unfolding msg by simp
  have d: "m_dst (msg_at w m) = sb" "m_extra (msg_at w m) = x" by (simp_all add: msg sent_message_def)
  obtain q sem where t: "template_proc_turn fuel A i tb w = map_option Returns (call_handler fuel A
      (t_obj (bw_tasks w tb)) (handler_array (bw_segs w sb) (type_value ty)) sb m (set_queue tb q sem w))"
    and st1: "call_state tc tb sb ts ss M [] [] n free [] (set_queue tb q sem w)"
    using call_state_turn(1) [OF st m d(1) cfg(1) f, of "[]" fuel A i] by auto
  obtain w' where b: "bus_call m x (set_queue tb q sem w) = Some (MBLUE_OK, w')"
    "call_state tc tb sb ts ss M [] [m] n free [c] w'"
    "msg_at w' m = (sent_message tc seq ty major minor ss payload x)\<lparr>m_ref := 2\<rparr>"
    "bw_calls w' c = pending_of ty m x"
    "hblocks (bw_heap w) c = None" "hblocks (bw_heap w') c \<noteq> None" "(hblocks (bw_heap w'))(c := None) = hblocks (bw_heap w)"
    "bw_segs w' = bw_segs w" "bw_user w' = bw_user w" "bw_notifiers w' = bw_notifiers w"
    "aside tb ts 3 (set_queue tb q sem w) w'"
    using bus_call_pending [OF st1 M ty, of m seq minor payload] msg gr unfolding c_def by auto
  have "aside tb ts 3 w w'" by (rule aside_trans [OF aside_queue(1) b(11)]) simp
  moreover
  have "template_proc_turn fuel A i tb w = Some (Returns w')"
    using cfg(2) b(1) d(2) ty(1) unfolding t call_type_def by (auto simp: bus_handlers_def call_handler_def handle_call_def)
  ultimately show thesis using that b by blast
qed

text \<open>A release changes nothing of a message but its reference count.\<close>

lemma release_fields:
  "m_seq (ms_pool (mblue_message_release m s) x) = m_seq (ms_pool s x)"
  "m_src (ms_pool (mblue_message_release m s) x) = m_src (ms_pool s x)"
  "m_code (ms_pool (mblue_message_release m s) x) = m_code (ms_pool s x)"
  "m_extra (ms_pool (mblue_message_release m s) x) = m_extra (ms_pool s x)"
  "m_dst (ms_pool (mblue_message_release m s) x) = m_dst (ms_pool s x)"
  "smart_payload (ms_pool (mblue_message_release m s) x) = smart_payload (ms_pool s x)"
  by (simp_all add: mblue_message_release_def get_mblue_message_list_instance_def mblue_message_init_def
      put_mblue_message_def mblue_message_put_def set_ref_def Let_def)

text \<open>An answer is never taken for a pending one: the tagged integer has lost the sign.\<close>

lemma answer_not_pending: "word_errcode (GET_INTEGER ret) \<noteq> errcode_value MBLUE_REMOTE_CALL_PENDING"
proof -
  have "unat (GET_INTEGER ret) < 2 ^ 30"
    using unsigned_less [of ret, where 'a = nat] by (simp add: GET_INTEGER_def drop_bit_eq_div unat_div_distrib)
  then have "0 \<le> sint (GET_INTEGER ret)" by (simp add: sint_small)
  then show ?thesis by (simp add: word_errcode_def)
qed

text \<open>The segment's function: its number in the item array and what it answers to a payload, when the
  header and the arguments are decoded from the block of the payload. The function may read the heap and
  change the state of the applications.\<close>

definition receive_payload :: "'u app \<Rightarrow> u32 \<Rightarrow> byte list \<Rightarrow> nat \<Rightarrow> 'u bus_world \<Rightarrow> (SMART_DATA \<times> 'u bus_world) option option" where
  "receive_payload A payload bytes f w =
     receive_call (schema_env (st_raw (app_stack A))) (st_header (app_stack A)) (st_frame (app_stack A))
       (int (unat payload)) bytes (app_service A f) (st_memory (app_stack A)) w"

definition service_answers ::
    "'u app \<Rightarrow> addr \<Rightarrow> u16 \<Rightarrow> SMART_DATA \<Rightarrow> SMART_DATA \<Rightarrow> 'u \<Rightarrow> 'u bus_world \<Rightarrow> bool" where
  "service_answers A ss minor payload ret u w \<longleftrightarrow> PB_PAYLOAD payload \<and>
     (\<exists>bytes f. hblocks (bw_heap w) (unat payload) = Some bytes \<and>
       items_lookup ss (type_value SYNC_CALL) (ucast minor) w = Some (Some f) \<and> f \<noteq> 0 \<and>
       (\<forall>v. bw_user v = bw_user w \<and> heap_wf (bw_heap v) \<and> hblocks (bw_heap v) (unat payload) = Some bytes \<longrightarrow>
          receive_payload A payload bytes f v = Some (Some (ret, v\<lparr>bw_user := u\<rparr>))))"

text \<open>A payload that is received this way has a header, and the parser of its layout answers.\<close>

lemma receive_payload_parts:
  assumes "receive_payload A payload bytes f w = Some (Some (ret, w'))"
  obtains index st parser st' where
    "receive_header (schema_env (st_raw (app_stack A))) (st_header (app_stack A)) (int (unat payload)) bytes
       (st_memory (app_stack A)) = Some (Some (index, st))"
    "mblue_pb_data_parser_get index = Some parser"
    "parser (schema_env (st_raw (app_stack A))) (st_frame (app_stack A)) (app_service A f) st w = Some (ret, st', w')"
  using assms by (auto simp: receive_payload_def receive_call_def split: bind_splits option.splits)

lemma default_ipc_handler_answers:
  assumes st: "call_state tc tb sb ts ss M [] [] n (r # free) cs w" and M: "unat major = M" and ty: "call_type ty"
    and msg: "msg_at w m = (sent_message tc seq ty major minor ss payload x)\<lparr>m_ref := 2\<rparr>"
    and srv: "service_answers A ss minor payload ret u w" and ne: "m \<noteq> r"
  obtains w' rc src where "default_ipc_handler (Suc fuel) A self ss m w = Some (rc, w')"
    "call_state tc tb sb ts ss M [r] [] n free cs w'"
    "msg_at w' r = sent_message src seq CALL_RETURN major 0 sb ret 0"
    "unat (m_ref (msg_at w' m)) = 1" "m_seq (msg_at w' m) = seq" "m_src (msg_at w' m) = tc" "m_extra (msg_at w' m) = x"
    "hblocks (bw_heap w') = (hblocks (bw_heap w))(unat payload := None)"
    "bw_calls w' = bw_calls w" "bw_notifiers w' = bw_notifiers w" "bw_user w' = u" "aside tb ts 0 w w'"
proof -
  from srv obtain bytes f where s: "PB_PAYLOAD payload" "hblocks (bw_heap w) (unat payload) = Some bytes"
    "items_lookup ss (type_value SYNC_CALL) (ucast minor) w = Some (Some f)" "f \<noteq> 0"
    "\<And>v. bw_user v = bw_user w \<Longrightarrow> heap_wf (bw_heap v) \<Longrightarrow> hblocks (bw_heap v) (unat payload) = Some bytes \<Longrightarrow>
       receive_payload A payload bytes f v = Some (Some (ret, v\<lparr>bw_user := u\<rparr>))"
    by (auto simp: service_answers_def)
  have "receive_payload A payload bytes f (link_msg ss m w) = Some (Some (ret, (link_msg ss m w)\<lparr>bw_user := u\<rparr>))"
    using s(2) st by (intro s(5)) (simp_all add: link_msg_def upd_seg_def call_state_def)
  from receive_payload_parts [OF this] obtain index st parser st' where rp:
    "receive_header (schema_env (st_raw (app_stack A))) (st_header (app_stack A)) (int (unat payload)) bytes
       (st_memory (app_stack A)) = Some (Some (index, st))"
    "mblue_pb_data_parser_get index = Some parser"
    "parser (schema_env (st_raw (app_stack A))) (st_frame (app_stack A)) (app_service A f) st (link_msg ss m w) =
       Some (ret, st', (link_msg ss m w)\<lparr>bw_user := u\<rparr>)" .
  have lt: "unat major < SEGMENT_MAJOR_MAX" using st M by (simp add: call_state_def call_config_def)
  have mj: "GET_MINOR (m_code (msg_at w m)) = ucast minor" "ucast (GET_MAJOR (m_code (msg_at w m))) = major"
    using sent_message_fields [OF lt] unfolding msg by (simp_all add: word_unat_eq_iff unsigned_ucast_eq take_bit_nat_eq_self_iff
        unsigned_less [where 'b = 16, simplified])
  define w1 where "w1 = (link_msg ss m w)\<lparr>bw_user := u\<rparr>"
  have st1: "call_state tc tb sb ts ss M [] [] n (r # free) cs w1"
    unfolding w1_def by (rule call_state_update(6) [OF call_state_update(8) [OF st]])
  obtain w2 where w2: "send_message (Suc fuel) (get_current_context self w1) seq CALL_RETURN major 0 0 ret 0 0 0 w1 = Some (Posted r, w2)"
    "call_state tc tb sb ts ss M [r] [] n free cs w2"
    "msg_at w2 r = sent_message (get_current_context self w1) seq CALL_RETURN major 0 sb ret 0"
    "\<And>m'. m' \<noteq> r \<Longrightarrow> msg_at w2 m' = msg_at w1 m'" "bw_heap w2 = bw_heap w1" "bw_calls w2 = bw_calls w1"
    "bw_notifiers w2 = bw_notifiers w1" "bw_user w2 = bw_user w1" "aside tb ts 0 w1 w2"
    by (rule send_to_bus [OF st1, of fuel "get_current_context self w1" seq CALL_RETURN major 0 ret 0 0 0]) auto
  define hp where "hp = (bw_heap w2)\<lparr>hblocks := (hblocks (bw_heap w2))(unat payload := None)\<rparr>"
  have fr: "mblue_free (unat payload) (bw_heap w2) = Some hp"
    using s(2) by (simp add: mblue_free_def heap_free_def ifree_def hp_def w2(5) w1_def link_msg_def upd_seg_def)
  have "heap_wf hp" using w2(2) by (simp add: call_state_def heap_wf_drop hp_def)
  note st3 = call_state_update(2) [OF w2(2) this]
  have m2: "msg_at w2 m = msg_at w m" using w2(4) [OF ne] by (simp add: w1_def link_msg_def upd_seg_def)
  have p: "pool_holds (bw_msgs w2) free" using w2(2) by (simp add: call_state_def)
  have "1 < unat (m_ref (ms_pool (bw_msgs w2) m))" by (simp add: m2 msg)
  note rel = release_shared [OF p this]
  define w3 where "w3 = world_release m (w2\<lparr>bw_heap := hp\<rparr>)"
  have st4: "call_state tc tb sb ts ss M [r] [] n free cs w3"
    using call_state_update(1) [OF st3 rel(1)] by (simp add: w3_def world_release_def)
  have h3: "default_ipc_handler (Suc fuel) A self ss m w = Some (MBLUE_OK, w3)"
    using s(1-4) rp mj msg w2(1) fr answer_not_pending
    by (simp add: default_ipc_handler_def ipc_header_def link_msg_def upd_seg_def Let_def ipc_run_def
        find_ipc_handler_from_service_def items_lookup_def ipc_return_def w1_def sender_code_def free_payload_def m2
        world_free_def w3_def sent_message_def)
  have as1: "aside tb ts 0 w w1"
    by (simp add: aside_def w1_def link_msg_def upd_seg_def)
  have as2: "aside tb ts 0 w w2" by (rule aside_trans [OF as1 w2(9)]) simp
  have as3: "aside tb ts 0 w2 w3" by (rule aside_same) (simp_all add: w3_def hp_def world_release_def)
  have as: "aside tb ts 0 w w3" by (rule aside_trans [OF as2 as3]) simp
  show thesis
    by (rule that [OF h3 st4 _ _ _ _ _ _ _ _ _ as])
      (use rel ne w2(3,5-8) m2 in \<open>simp_all add: w3_def world_release_def release_fields msg sent_message_def hp_def w1_def
        link_msg_def upd_seg_def\<close>)
qed

text \<open>The task of the segment runs the function and posts the answer.\<close>

lemma server_turn:
  assumes st: "call_state tc tb sb ts ss M [] [m] n (r # free) cs w" and M: "unat major = M" and m: "m \<noteq> 0" and ty: "call_type ty"
    and msg: "msg_at w m = (sent_message tc seq ty major minor ss payload x)\<lparr>m_ref := 2\<rparr>"
    and srv: "service_answers A ss minor payload ret u w" and ne: "m \<noteq> r"
  obtains w' src where "template_proc_turn (Suc fuel) A i ts w = Some (Returns w')"
    "call_state tc tb sb ts ss M [r] [] n free cs w'"
    "msg_at w' r = sent_message src seq CALL_RETURN major 0 sb ret 0"
    "unat (m_ref (msg_at w' m)) = 1" "m_seq (msg_at w' m) = seq" "m_src (msg_at w' m) = tc" "m_extra (msg_at w' m) = x"
    "hblocks (bw_heap w') = (hblocks (bw_heap w))(unat payload := None)"
    "bw_calls w' = bw_calls w" "bw_notifiers w' = bw_notifiers w" "bw_user w' = u" "aside tb ts 0 w w'"
proof -
  have cfg: "ss \<noteq> 0" "handler_array (bw_segs w ss) (type_value ty) = Default_ipc_handler" "M < SEGMENT_MAJOR_MAX"
    using st ty by (auto simp: call_state_def call_config_def call_type_def)
  have f: "unat (GET_TYPE (m_code (msg_at w m))) = type_value ty"
    using sent_message_fields(1) [of major] cfg(3) M unfolding msg by simp
  have d: "m_dst (msg_at w m) = ss" by (simp add: msg sent_message_def)
  obtain q sem where t: "template_proc_turn (Suc fuel) A i ts w = map_option Returns (call_handler (Suc fuel) A
      (t_obj (bw_tasks w ts)) (handler_array (bw_segs w ss) (type_value ty)) ss m (set_queue ts q sem w))"
    and st1: "call_state tc tb sb ts ss M [] [] n (r # free) cs (set_queue ts q sem w)"
    using call_state_turn(2) [OF st m d cfg(1) f, of "[]" "Suc fuel" A i] by auto
  have srv1: "service_answers A ss minor payload ret u (set_queue ts q sem w)"
    using srv by (simp add: service_answers_def items_lookup_def)
  have msg1: "msg_at (set_queue ts q sem w) m = (sent_message tc seq ty major minor ss payload x)\<lparr>m_ref := 2\<rparr>"
    using msg by simp
  show thesis
  proof (rule default_ipc_handler_answers [OF st1 M ty msg1 srv1 ne, of fuel "t_obj (bw_tasks w ts)"])
    fix w' rc src
    assume h: "default_ipc_handler (Suc fuel) A (t_obj (bw_tasks w ts)) ss m (set_queue ts q sem w) = Some (rc, w')"
      and rest: "call_state tc tb sb ts ss M [r] [] n free cs w'"
        "msg_at w' r = sent_message src seq CALL_RETURN major 0 sb ret 0"
        "unat (m_ref (msg_at w' m)) = 1" "m_seq (msg_at w' m) = seq" "m_src (msg_at w' m) = tc" "m_extra (msg_at w' m) = x"
        "hblocks (bw_heap w') = (hblocks (bw_heap (set_queue ts q sem w)))(unat payload := None)"
        "bw_calls w' = bw_calls (set_queue ts q sem w)" "bw_notifiers w' = bw_notifiers (set_queue ts q sem w)" "bw_user w' = u"
        "aside tb ts 0 (set_queue ts q sem w) w'"
    have "template_proc_turn (Suc fuel) A i ts w = Some (Returns w')"
      using h unfolding t cfg(2) by (simp add: call_handler_def)
    moreover have "aside tb ts 0 w w'" by (rule aside_trans [OF aside_queue(2) rest(11)]) simp
    ultimately show thesis using that rest by simp
  qed
qed

text \<open>The bus stores the answer, wakes the caller and gives back the two messages and the pending call.\<close>

lemma answer_sync_wakes:
  assumes st: "call_state tc tb sb ts ss M xb xs n free cs w" and n: "n < SEM_VALUE_MAX"
    and m: "m_src (msg_at w m) = tc" "m_extra (msg_at w m) = out" "out \<noteq> 0"
  obtains w' where "answer_sync m r w = Some w'" "call_state tc tb sb ts ss M xb xs (Suc n) free cs w'"
    "bw_cells w' = (bw_cells w)(out := smart_payload (msg_at w r))" "bw_msgs w' = bw_msgs w" "bw_heap w' = bw_heap w"
    "bw_call_links w' = bw_call_links w" "bw_user w' = bw_user w"
proof -
  have c: "tc \<noteq> 0" "tpost (bw_tasks w tc) = Template_fn" "sem_value (call_sem (bw_tasks w tc)) n"
    using st by (simp_all add: call_state_def call_config_def)
  obtain sem where p: "semaphore_post (call_sem (bw_tasks w tc)) = Some (MBLUE_OK, sem)" "sem_value sem (Suc n)"
    using semaphore_post_value [OF c(3) n] by blast
  define w' where "w' = upd_task tc (call_sem_update (\<lambda>_. sem)) (w\<lparr>bw_cells := (bw_cells w)(out := smart_payload (msg_at w r))\<rparr>)"
  have "answer_sync m r w = Some w'"
    using c p(1) m by (simp add: answer_sync_def Let_def template_post_def w'_def upd_task_def)
  moreover have "call_state tc tb sb ts ss M xb xs (Suc n) free cs w'"
    using st p(2) by (auto simp: call_state_def call_config_def task_has_def w'_def upd_task_def)
  ultimately show thesis using that by (simp add: w'_def upd_task_def)
qed

text \<open>The bus calls the notifier of an asynchronous caller and releases it.\<close>

definition notify_answers :: "'u notify_fn \<Rightarrow> nat \<Rightarrow> SMART_DATA \<Rightarrow> nat \<Rightarrow> 'u \<Rightarrow> 'u \<Rightarrow> bool" where
  "notify_answers notify k ret d u u' \<longleftrightarrow>
     (\<forall>v. bw_user v = u \<longrightarrow> notify k ret d v = Some (v\<lparr>bw_user := u'\<rparr>))"

lemma answer_async_notifies:
  assumes st: "call_state tc tb sb ts ss M xb xs n free cs w"
    and p: "pc_notifier (bw_calls w c) = pn" "live w pn" "bw_notifiers w pn = \<lparr>pn_notify = k, pn_user_data = d\<rparr>"
    and nt: "notify_answers notify k (smart_payload (msg_at w r)) d (bw_user w) u"
  obtains w' where "answer_async notify c r w = Some w'" "call_state tc tb sb ts ss M xb xs n free cs w'"
    "bw_msgs w' = bw_msgs w" "hblocks (bw_heap w') = (hblocks (bw_heap w))(pn := None)"
    "bw_call_links w' = bw_call_links w" "bw_user w' = u" "aside tb ts 0 w w'"
proof -
  define hp where "hp = (bw_heap w)\<lparr>hblocks := (hblocks (bw_heap w))(pn := None)\<rparr>"
  have fr: "mblue_free pn (bw_heap w) = Some hp" using p(2) by (auto simp: mblue_free_def heap_free_def ifree_def hp_def)
  have "heap_wf hp" using st by (simp add: call_state_def heap_wf_drop hp_def)
  then have "call_state tc tb sb ts ss M xb xs n free cs (w\<lparr>bw_user := u, bw_heap := hp\<rparr>)"
    using call_state_update(2) [OF call_state_update(6) [OF st]] by blast
  moreover have "answer_async notify c r w = Some (w\<lparr>bw_user := u, bw_heap := hp\<rparr>)"
    using nt p fr by (auto simp: answer_async_def notify_answers_def world_free_def Let_def)
  moreover have "aside tb ts 0 w (w\<lparr>bw_user := u, bw_heap := hp\<rparr>)" by (rule aside_same) (simp_all add: hp_def)
  ultimately show thesis using that by (simp add: hp_def)
qed

text \<open>Whichever way the answer reaches the caller, the two messages and the pending call are given back.\<close>

definition give_answer :: "MESSAGE_TYPE \<Rightarrow> 'u notify_fn \<Rightarrow> addr \<Rightarrow> addr \<Rightarrow> addr \<Rightarrow> 'u bus_world \<Rightarrow> 'u bus_world option" where
  "give_answer ty notify c m r w = (if ty = SYNC_CALL then answer_sync m r w else answer_async notify c r w)"

lemma bus_call_return_answers:
  assumes st: "call_state tc tb sb ts ss M xb xs n free [c] w" and M: "unat major = M" and ty: "call_type ty"
    and c: "bw_calls w c = pending_of ty m x" "live w c"
    and r: "msg_at w r = sent_message src seq CALL_RETURN major 0 sb ret 0"
    and m: "unat (m_ref (msg_at w m)) = 1" "m_seq (msg_at w m) = seq"
    and o: "m \<in> msg_objs" "m \<notin> set free" "r \<in> msg_objs" "r \<notin> set free" "m \<noteq> r"
    and ans: "give_answer ty notify c m r w = Some w1" "call_state tc tb sb ts ss M xb xs n' free [c] w1"
      "bw_msgs w1 = bw_msgs w" "bw_call_links w1 = bw_call_links w" "live w1 c"
  obtains w' where "bus_call_return (Suc fuel) notify r w = Some (MBLUE_OK, w')"
    "call_state tc tb sb ts ss M xb xs n' (free @ [m, r]) [] w'" "bw_cells w' = bw_cells w1"
    "hblocks (bw_heap w') = (hblocks (bw_heap w1))(c := None)" "bw_user w' = bw_user w1" "aside tb ts 0 w1 w'"
proof -
  have lt: "unat major < SEGMENT_MAJOR_MAX" using st M by (simp add: call_state_def call_config_def)
  have mj: "unat (GET_MAJOR (m_code (msg_at w r))) = M" using sent_message_fields(2) [OF lt] M unfolding r by simp
  have dl: "dlist (bw_call_links w) (list_head_of M) [list_node_of c]" using st by (simp add: call_state_def)
  then have nx: "lnext (bw_call_links w) (list_head_of M) = list_node_of c" "\<not> list_empty (list_head_of M) (bw_call_links w)"
    using dlist_next list_empty_iff by fastforce+
  have m0: "m \<noteq> 0" using msg_objs_facts [OF o(1)] by simp
  define s2 where "s2 = mblue_message_release m (bw_msgs w)"
  have p: "pool_holds (bw_msgs w) free" using st by (simp add: call_state_def)
  note r1 = release_last [OF p o(1,2) eq_imp_le [OF m(1)], folded s2_def]
  have rr: "unat (m_ref (ms_pool s2 r)) \<le> 1" using r1(3) [of r] o(5) r by (simp add: sent_message_def)
  have rf: "r \<notin> set (free @ [m])" using o by simp
  note r2 = release_last [OF r1(1) o(3) rf rr]
  define hp where "hp = (bw_heap w1)\<lparr>hblocks := (hblocks (bw_heap w1))(c := None)\<rparr>"
  have fr: "mblue_free c (bw_heap w1) = Some hp" using ans(5) by (auto simp: mblue_free_def heap_free_def ifree_def hp_def)
  have hw: "heap_wf hp" using ans(2) by (simp add: call_state_def heap_wf_drop hp_def)
  have dl': "dlist (list_del (list_node_of c) (bw_call_links w)) (list_head_of M) (map list_node_of [])"
    using dlist_list_del(1) [of _ _ "[]" _ "[]"] dl by simp
  define w2 where "w2 = w1\<lparr>bw_msgs := s2, bw_call_links := list_del (list_node_of c) (bw_call_links w), bw_heap := hp\<rparr>"
  define w3 where "w3 = w2\<lparr>bw_msgs := mblue_message_release r s2\<rparr>"
  have "answer_call notify c r w = Some (MBLUE_OK, w2)"
    using ans c fr ty by (auto simp: answer_call_def give_answer_def pending_of_def call_type_def Let_def world_release_def
      world_free_def s2_def w2_def)
  then have "bus_call_return (Suc fuel) notify r w = Some (MBLUE_OK, w3)"
    using lt M mj nx c m m0 r
    by (simp add: bus_call_return_def Let_def world_release_def w3_def w2_def sent_message_def pending_of_def)
  moreover have "call_state tc tb sb ts ss M xb xs n' (free @ [m, r]) [] w3" unfolding w3_def w2_def
    using call_state_update(1) [OF call_state_update(2) [OF call_state_update(3) [OF call_state_update(1) [OF ans(2) r1(1)] dl'] hw] r2(1)]
    by simp
  moreover have "aside tb ts 0 w1 w3" by (rule aside_same) (simp_all add: w3_def w2_def hp_def)
  ultimately show thesis using that by (simp add: w3_def w2_def hp_def)
qed

text \<open>The turn of the bus task that takes an answer.\<close>

lemma bus_turn_takes_answer:
  assumes st: "call_state tc tb sb ts ss M [r] xs n free [c] w" and M: "unat major = M" and o: "r \<in> msg_objs"
    and r: "msg_at w r = sent_message src seq CALL_RETURN major 0 sb ret 0"
  obtains q sem where "template_proc_turn fuel A i tb w = map_option (Returns \<circ> snd)
      (bus_call_return fuel (app_notify A) r (set_queue tb q sem w))"
    "call_state tc tb sb ts ss M [] xs n free [c] (set_queue tb q sem w)"
proof -
  have cfg: "sb \<noteq> 0" "handler_array (bw_segs w sb) = bus_handlers" "unat major < SEGMENT_MAJOR_MAX"
    using st M by (simp_all add: call_state_def call_config_def)
  have f: "unat (GET_TYPE (m_code (msg_at w r))) = type_value CALL_RETURN"
    using sent_message_fields(1) [OF cfg(3)] unfolding r by simp
  have d: "m_dst (msg_at w r) = sb" "r \<noteq> 0" using msg_objs_facts [OF o] by (simp_all add: r sent_message_def)
  have h: "call_handler fuel A k (bus_handlers (type_value CALL_RETURN)) sb r v =
      map_option snd (bus_call_return fuel (app_notify A) r v)" for k v
    by (cases "bus_call_return fuel (app_notify A) r v")
      (auto simp: call_handler_def bus_handlers_def handle_call_return_def)
  obtain q sem where "template_proc_turn fuel A i tb w = map_option Returns (call_handler fuel A
      (t_obj (bw_tasks w tb)) (handler_array (bw_segs w sb) (type_value CALL_RETURN)) sb r (set_queue tb q sem w))"
    and "call_state tc tb sb ts ss M [] xs n free [c] (set_queue tb q sem w)"
    using call_state_turn(1) [OF st d(2,1) cfg(1) f, of "[]" fuel A i] by auto
  then show thesis using that unfolding cfg(2) h by (simp add: option.map_comp)
qed

lemma bus_turn_return:
  assumes st: "call_state tc tb sb ts ss M [r] xs n free [c] w" and M: "unat major = M" and n: "n < SEM_VALUE_MAX"
    and c: "bw_calls w c = pending_of SYNC_CALL m out" "live w c"
    and r: "msg_at w r = sent_message src seq CALL_RETURN major 0 sb ret 0"
    and m: "unat (m_ref (msg_at w m)) = 1" "m_seq (msg_at w m) = seq" "m_src (msg_at w m) = tc" "m_extra (msg_at w m) = out"
    and o: "m \<in> msg_objs" "m \<notin> set free" "r \<in> msg_objs" "r \<notin> set free" "m \<noteq> r" and x: "out \<noteq> 0"
  obtains w' where "template_proc_turn (Suc fuel) A i tb w = Some (Returns w')"
    "call_state tc tb sb ts ss M [] xs (Suc n) (free @ [m, r]) [] w'" "bw_cells w' out = ret"
    "hblocks (bw_heap w') = (hblocks (bw_heap w))(c := None)" "bw_user w' = bw_user w"
proof -
  obtain q sem where t: "template_proc_turn (Suc fuel) A i tb w = map_option (Returns \<circ> snd)
      (bus_call_return (Suc fuel) (app_notify A) r (set_queue tb q sem w))"
    and st1: "call_state tc tb sb ts ss M [] xs n free [c] (set_queue tb q sem w)"
    by (rule bus_turn_takes_answer [OF st M o(3) r, of "Suc fuel" A i])
  let ?w = "set_queue tb q sem w"
  obtain w1 where w1: "answer_sync m r ?w = Some w1" "call_state tc tb sb ts ss M [] xs (Suc n) free [c] w1"
    "bw_cells w1 = (bw_cells ?w)(out := smart_payload (msg_at ?w r))" "bw_msgs w1 = bw_msgs ?w" "bw_heap w1 = bw_heap ?w"
    "bw_call_links w1 = bw_call_links ?w" "bw_user w1 = bw_user ?w"
    by (rule answer_sync_wakes [OF st1 n]) (use m x in simp_all)
  have call: "call_type SYNC_CALL" by (simp add: call_type_def)
  obtain w' where "bus_call_return (Suc fuel) (app_notify A) r ?w = Some (MBLUE_OK, w')"
    "call_state tc tb sb ts ss M [] xs (Suc n) (free @ [m, r]) [] w'" "bw_cells w' = bw_cells w1"
    "hblocks (bw_heap w') = (hblocks (bw_heap w1))(c := None)" "bw_user w' = bw_user w1" "aside tb ts 0 w1 w'"
    by (rule bus_call_return_answers [OF st1 M call _ _ _ _ _ o, where notify = "app_notify A" and ?w1.0 = w1 and n' = "Suc n"])
      (use c r m w1 in \<open>simp_all add: give_answer_def\<close>)
  then show thesis using that t w1 r by (simp add: sent_message_def)
qed

lemma bus_turn_return_async:
  assumes st: "call_state tc tb sb ts ss M [r] xs n free [c] w" and M: "unat major = M"
    and c: "bw_calls w c = pending_of ASYNC_CALL m pn" "live w c" "live w pn" "pn \<noteq> c"
      "bw_notifiers w pn = \<lparr>pn_notify = k, pn_user_data = d\<rparr>"
    and r: "msg_at w r = sent_message src seq CALL_RETURN major 0 sb ret 0"
    and m: "unat (m_ref (msg_at w m)) = 1" "m_seq (msg_at w m) = seq"
    and o: "m \<in> msg_objs" "m \<notin> set free" "r \<in> msg_objs" "r \<notin> set free" "m \<noteq> r"
    and nt: "notify_answers (app_notify A) k ret d (bw_user w) u"
  obtains w' where "template_proc_turn (Suc fuel) A i tb w = Some (Returns w')"
    "call_state tc tb sb ts ss M [] xs n (free @ [m, r]) [] w'"
    "hblocks (bw_heap w') = (hblocks (bw_heap w))(pn := None, c := None)" "bw_user w' = u" "aside tb ts 0 w w'"
proof -
  obtain q sem where t: "template_proc_turn (Suc fuel) A i tb w = map_option (Returns \<circ> snd)
      (bus_call_return (Suc fuel) (app_notify A) r (set_queue tb q sem w))"
    and st1: "call_state tc tb sb ts ss M [] xs n free [c] (set_queue tb q sem w)"
    by (rule bus_turn_takes_answer [OF st M o(3) r, of "Suc fuel" A i])
  let ?w = "set_queue tb q sem w"
  obtain w1 where w1: "answer_async (app_notify A) c r ?w = Some w1" "call_state tc tb sb ts ss M [] xs n free [c] w1"
    "bw_msgs w1 = bw_msgs ?w" "hblocks (bw_heap w1) = (hblocks (bw_heap ?w))(pn := None)"
    "bw_call_links w1 = bw_call_links ?w" "bw_user w1 = u" "aside tb ts 0 ?w w1"
    by (rule answer_async_notifies [OF st1, where c = c and pn = pn and k = k and d = d and r = r and u = u
        and notify = "app_notify A"])
      (use c nt r in \<open>simp_all add: pending_of_def sent_message_def\<close>)
  have call: "call_type ASYNC_CALL" by (simp add: call_type_def)
  obtain w' where "bus_call_return (Suc fuel) (app_notify A) r ?w = Some (MBLUE_OK, w')"
    "call_state tc tb sb ts ss M [] xs n (free @ [m, r]) [] w'" "bw_cells w' = bw_cells w1"
    "hblocks (bw_heap w') = (hblocks (bw_heap w1))(c := None)" "bw_user w' = bw_user w1" and a1: "aside tb ts 0 w1 w'"
    by (rule bus_call_return_answers [OF st1 M call _ _ _ _ _ o, where notify = "app_notify A" and ?w1.0 = w1 and n' = n])
      (use c r m w1 in \<open>simp_all add: give_answer_def\<close>)
  moreover have "aside tb ts 0 w w1" by (rule aside_trans [OF aside_queue(1) w1(7)]) simp
  then have "aside tb ts 0 w w'" by (rule aside_trans [OF _ a1]) simp
  ultimately show thesis using that t w1 by simp
qed

text \<open>The caller waits while its semaphore is zero and goes on once it has been posted.\<close>

lemma caller_waits:
  assumes "call_state tc tb sb ts ss M xb xs n free cs w"
  shows "n = 0 \<Longrightarrow> ipc_invoke_wait False tc w = Some Blocked"
    and "n = Suc k \<Longrightarrow> \<exists>w'. ipc_invoke_wait i tc w = Some (Returns (MBLUE_OK, w')) \<and>
      call_state tc tb sb ts ss M xb xs k free cs w' \<and> bw_cells w' = bw_cells w \<and> bw_heap w' = bw_heap w \<and> bw_user w' = bw_user w"
proof -
  have c: "tpend (bw_tasks w tc) = Template_fn" "sem_value (call_sem (bw_tasks w tc)) n"
    using assms by (simp_all add: call_state_def call_config_def)
  show "ipc_invoke_wait False tc w = Some Blocked" if "n = 0"
    using c that semaphore_pend_zero [of "call_sem (bw_tasks w tc)" False] by (simp add: ipc_invoke_wait_def template_pend_def)
  show "\<exists>w'. ipc_invoke_wait i tc w = Some (Returns (MBLUE_OK, w')) \<and>
      call_state tc tb sb ts ss M xb xs k free cs w' \<and> bw_cells w' = bw_cells w \<and> bw_heap w' = bw_heap w \<and> bw_user w' = bw_user w"
    if k: "n = Suc k"
  proof -
    obtain sem where p: "semaphore_pend i (call_sem (bw_tasks w tc)) = Some (Returns (MBLUE_OK, sem))" "sem_value sem k"
      using semaphore_pend_value c(2) unfolding k by metis
    define w' where "w' = upd_task tc (call_sem_update (\<lambda>_. sem)) w"
    have "ipc_invoke_wait i tc w = Some (Returns (MBLUE_OK, w'))"
      using c(1) p(1) by (simp add: ipc_invoke_wait_def template_pend_def w'_def)
    moreover have "call_state tc tb sb ts ss M xb xs k free cs w'"
      using assms p(2) by (auto simp: call_state_def call_config_def task_has_def w'_def upd_task_def)
    ultimately show ?thesis by (auto simp: w'_def upd_task_def)
  qed
qed

lemma remote_call_posted:
  assumes st: "call_state tc tb sb ts ss M [] [] n (m # free) cs w" and M: "unat major = M"
    and self: "get_current_context self w = tc"
  obtains w' seq where "mblue_remote_call (Suc fuel) self out major minor payload w = Some (Posted m, w')"
    "ipc_invoke_check m w' = Waits tc" "call_state tc tb sb ts ss M [m] [] n free cs w'"
    "msg_at w' m = sent_message tc seq SYNC_CALL major minor sb payload out"
    "bw_heap w' = bw_heap w" "bw_segs w' = bw_segs w" "bw_user w' = bw_user w"
proof -
  obtain seq w1 where q: "next_seq w = (seq, w1)" by fastforce
  then obtain x where w1: "w1 = w\<lparr>bw_msgs := (bw_msgs w)\<lparr>ms_sequence := x\<rparr>\<rparr>"
    by (auto simp: next_seq_def mblue_message_get_sequence_def Let_def split: if_splits)
  have st1: "call_state tc tb sb ts ss M [] [] n (m # free) cs w1"
    unfolding w1 using st by (intro call_state_update(1) [OF st]) (auto simp: call_state_def pool_holds_def split: if_splits)
  have self1: "get_current_context self w1 = tc" using self by (simp add: w1 get_current_context_def)
  have c: "unat major < SEGMENT_MAJOR_MAX" "tc \<noteq> 0" using st M by (simp_all add: call_state_def call_config_def)
  show thesis
  proof (rule send_to_bus [OF st1, of fuel tc seq SYNC_CALL major minor payload out 0 0])
    fix w' assume h: "send_message (Suc fuel) tc seq SYNC_CALL major minor 0 payload out 0 0 w1 = Some (Posted m, w')"
      "call_state tc tb sb ts ss M [m] [] n free cs w'"
      "msg_at w' m = sent_message tc seq SYNC_CALL major minor sb payload
         (if SYNC_CALL = SYNC_CALL then out else if SYNC_CALL = ASYNC_CALL then 0 else 0)"
      "bw_heap w' = bw_heap w1" "bw_segs w' = bw_segs w1" "bw_user w' = bw_user w1"
    have "mblue_remote_call (Suc fuel) self out major minor payload w = Some (Posted m, w')"
      using h(1) q self1 by (simp add: mblue_remote_call_def)
    moreover have "ipc_invoke_check m w' = Waits tc"
      using h(3) c sent_message_fields(1) [OF c(1), of tc seq SYNC_CALL minor sb payload out]
      by (simp add: ipc_invoke_check_def) (simp add: sent_message_def)
    ultimately show thesis using that h by (simp add: w1)
  qed
qed

text \<open>The caller of an asynchronous call does not wait.\<close>

lemma remote_call_async_posted:
  assumes st: "call_state tc tb sb ts ss M [] [] n (m # free) cs w" and M: "unat major = M"
    and self: "get_current_context self w = tc" and gr: "\<not> hfail (bw_heap w) (hcalls (bw_heap w))"
  defines "pn \<equiv> 16 * Suc (hnext (bw_heap w))"
  obtains w' seq where "mblue_remote_call_async (Suc fuel) self major minor payload k d w = Some (Posted m, w')"
    "ipc_invoke_check m w' = Sent MBLUE_OK" "call_state tc tb sb ts ss M [m] [] n free cs w'"
    "msg_at w' m = sent_message tc seq ASYNC_CALL major minor sb payload pn"
    "hblocks (bw_heap w) pn = None" "live w' pn" "(hblocks (bw_heap w'))(pn := None) = hblocks (bw_heap w)"
    "hcalls (bw_heap w') = Suc (hcalls (bw_heap w))" "hfail (bw_heap w') = hfail (bw_heap w)"
    "hnext (bw_heap w) < hnext (bw_heap w')" "bw_notifiers w' pn = \<lparr>pn_notify = k, pn_user_data = d\<rparr>"
    "bw_segs w' = bw_segs w" "bw_user w' = bw_user w" "aside tb ts 2 w w'" "\<And>m'. m' \<noteq> m \<Longrightarrow> msg_at w' m' = msg_at w m'"
proof -
  have hw: "heap_wf (bw_heap w)" using st by (simp add: call_state_def)
  note n = heap_wf_fresh [OF hw, folded pn_def]
  define hp where "hp = snd (the (mblue_malloc sizeof_pending_notifier (bw_heap w)))"
  have sz: "unat sizeof_pending_notifier \<le> 2 ^ 32 - 16" by (simp add: sizeof_pending_notifier_def)
  note g = mblue_malloc_granted [OF gr sz, folded pn_def]
  have mal: "mblue_malloc sizeof_pending_notifier (bw_heap w) = Some (pn, hp)" unfolding hp_def g by simp
  note hw' = mheap.malloc_wf [OF hw sz mal]
  have hp: "hblocks hp pn \<noteq> None" "(hblocks hp)(pn := None) = hblocks (bw_heap w)"
    "hcalls hp = Suc (hcalls (bw_heap w))" "hfail hp = hfail (bw_heap w)" "hnext (bw_heap w) < hnext hp"
    "hnext hp \<le> hnext (bw_heap w) + 2"
    using n unfolding hp_def g by (simp_all add: fun_upd_idem_iff sizeof_pending_notifier_def)
  define w0 where "w0 = w\<lparr>bw_heap := hp, bw_notifiers := (bw_notifiers w)(pn := \<lparr>pn_notify = k, pn_user_data = d\<rparr>)\<rparr>"
  have st0: "call_state tc tb sb ts ss M [] [] n (m # free) cs w0"
    using call_state_update(2) [OF st hw'] by (simp add: w0_def call_state_def call_config_def task_has_def)
  obtain seq w1 where q: "next_seq w0 = (seq, w1)" by fastforce
  then obtain x where w1: "w1 = w0\<lparr>bw_msgs := (bw_msgs w0)\<lparr>ms_sequence := x\<rparr>\<rparr>"
    by (auto simp: next_seq_def mblue_message_get_sequence_def Let_def split: if_splits)
  have st1: "call_state tc tb sb ts ss M [] [] n (m # free) cs w1"
    unfolding w1 using st0 by (intro call_state_update(1) [OF st0]) (auto simp: call_state_def pool_holds_def split: if_splits)
  have self1: "get_current_context self w1 = tc" using self by (simp add: w1 w0_def get_current_context_def)
  have c: "unat major < SEGMENT_MAJOR_MAX" using st M by (simp add: call_state_def call_config_def)
  have p0: "pn \<noteq> 0" by (simp add: pn_def)
  show thesis
  proof (rule send_to_bus [OF st1, of fuel tc seq ASYNC_CALL major minor payload 0 0 pn])
    fix w' assume h: "send_message (Suc fuel) tc seq ASYNC_CALL major minor 0 payload 0 0 pn w1 = Some (Posted m, w')"
      "call_state tc tb sb ts ss M [m] [] n free cs w'"
      "msg_at w' m = sent_message tc seq ASYNC_CALL major minor sb payload
         (if ASYNC_CALL = SYNC_CALL then 0 else if ASYNC_CALL = ASYNC_CALL then pn else 0)"
      "bw_heap w' = bw_heap w1" "bw_segs w' = bw_segs w1" "bw_user w' = bw_user w1" "bw_notifiers w' = bw_notifiers w1"
      "aside tb ts 0 w1 w'" "\<And>m'. m' \<noteq> m \<Longrightarrow> msg_at w' m' = msg_at w1 m'"
    have "aside tb ts 2 w w1" by (rule aside_same) (use hp in \<open>simp_all add: w1 w0_def\<close>)
    then have "aside tb ts 2 w w'" by (rule aside_trans [OF _ h(8)]) simp
    moreover have "mblue_remote_call_async (Suc fuel) self major minor payload k d w = Some (Posted m, w')"
      using h(1) q self1 mal p0 by (simp add: mblue_remote_call_async_def world_malloc_def w0_def [symmetric])
    moreover have "ipc_invoke_check m w' = Sent MBLUE_OK"
      using h(3) sent_message_fields(1) [OF c, of tc seq ASYNC_CALL minor sb payload pn] by (simp add: ipc_invoke_check_def)
    ultimately show thesis using that [of w' seq] h hp n by (simp add: w1 w0_def)
  qed
qed

text \<open>A message of an asynchronous call on its way to the bus, with its notifier.\<close>

definition call_sent ::
    "addr \<Rightarrow> addr \<Rightarrow> addr \<Rightarrow> u16 \<Rightarrow> u16 \<Rightarrow> SMART_DATA \<Rightarrow> nat \<Rightarrow> nat \<Rightarrow> addr \<Rightarrow> 'u bus_world \<Rightarrow> bool" where
  "call_sent tc sb m major minor payload k d pn w \<longleftrightarrow>
     (\<exists>seq. msg_at w m = sent_message tc seq ASYNC_CALL major minor sb payload pn) \<and> pn \<noteq> 0 \<and> live w pn \<and>
     bw_notifiers w pn = \<lparr>pn_notify = k, pn_user_data = d\<rparr> \<and> unat payload \<noteq> pn"

text \<open>The three turns that answer it: the bus passes the call on, the task of the segment runs the function, and the
  bus passes the answer to the notifier.\<close>

lemma async_call_answered:
  assumes st: "call_state tc tb sb ts ss M [m] [] n (r # free) [] w1" and M: "unat major = M"
    and cs: "call_sent tc sb m major minor payload k d pn w1" and o: "m \<in> msg_objs" "m \<notin> set (r # free)"
    and gr: "\<not> hfail (bw_heap w1) (hcalls (bw_heap w1))"
    and srv: "service_answers A ss minor payload ret u w1" and nt: "notify_answers (app_notify A) k ret d u u'"
  shows "\<exists>w2 w3 w4. template_proc_turn (Suc fuel) A i tb w1 = Some (Returns w2) \<and>
      template_proc_turn (Suc fuel) A i ts w2 = Some (Returns w3) \<and>
      template_proc_turn (Suc fuel) A i tb w3 = Some (Returns w4) \<and>
      call_state tc tb sb ts ss M [] [] n (free @ [m, r]) [] w4 \<and>
      hblocks (bw_heap w4) = (hblocks (bw_heap w1))(unat payload := None, pn := None) \<and> bw_user w4 = u' \<and>
      aside tb ts 3 w1 w4"
proof -
  obtain seq where 1: "msg_at w1 m = sent_message tc seq ASYNC_CALL major minor sb payload pn" "pn \<noteq> 0" "live w1 pn"
    "bw_notifiers w1 pn = \<lparr>pn_notify = k, pn_user_data = d\<rparr>" "unat payload \<noteq> pn"
    using cs unfolding call_sent_def by blast
  have "pool_holds (bw_msgs w1) (r # free)" using st by (simp add: call_state_def)
  then have objs: "m \<in> msg_objs" "m \<notin> set free" "r \<in> msg_objs" "r \<notin> set free" "m \<noteq> r"
    using mpool.holds_objs [of "bw_msgs w1" "r # free"] o by auto
  have m0: "m \<noteq> 0" using msg_objs_facts [OF o(1)] by simp
  have call: "call_type ASYNC_CALL" by (simp add: call_type_def)
  define c where "c = 16 * Suc (hnext (bw_heap w1))"
  obtain w2 where 2: "template_proc_turn (Suc fuel) A i tb w1 = Some (Returns w2)"
    "call_state tc tb sb ts ss M [] [m] n (r # free) [c] w2"
    "msg_at w2 m = (sent_message tc seq ASYNC_CALL major minor ss payload pn)\<lparr>m_ref := 2\<rparr>"
    "bw_calls w2 c = pending_of ASYNC_CALL m pn"
    "hblocks (bw_heap w1) c = None" "live w2 c" "(hblocks (bw_heap w2))(c := None) = hblocks (bw_heap w1)"
    "bw_segs w2 = bw_segs w1" "bw_user w2 = bw_user w1" "bw_notifiers w2 = bw_notifiers w1" "aside tb ts 3 w1 w2"
    using bus_turn_call [OF st m0 M call 1(2,1) gr, of "Suc fuel" A i thesis] unfolding c_def by simp
  have "live w1 (unat payload)" using srv by (auto simp: service_answers_def)
  then have ne: "pn \<noteq> c" "unat payload \<noteq> c" using 1(3) 2(5) by auto
  have "hblocks (bw_heap w2) (unat payload) = hblocks (bw_heap w1) (unat payload)" using 2(7) ne(2) by (metis fun_upd_other)
  then have srv2: "service_answers A ss minor payload ret u w2" using srv 2(8,9) by (simp add: service_answers_def items_lookup_def)
  obtain w3 src where 3: "template_proc_turn (Suc fuel) A i ts w2 = Some (Returns w3)"
    "call_state tc tb sb ts ss M [r] [] n free [c] w3"
    "msg_at w3 r = sent_message src seq CALL_RETURN major 0 sb ret 0"
    "unat (m_ref (msg_at w3 m)) = 1" "m_seq (msg_at w3 m) = seq"
    "hblocks (bw_heap w3) = (hblocks (bw_heap w2))(unat payload := None)"
    "bw_calls w3 = bw_calls w2" "bw_notifiers w3 = bw_notifiers w2" "bw_user w3 = u" "aside tb ts 0 w2 w3"
    by (rule server_turn [OF 2(2) M m0 call 2(3) srv2 objs(5), of fuel i]) (rule that)
  have "live w2 pn" using 1(3) 2(7) ne(1) by (metis fun_upd_other)
  then have c3: "bw_calls w3 c = pending_of ASYNC_CALL m pn" "live w3 c" "live w3 pn" "pn \<noteq> c"
      "bw_notifiers w3 pn = \<lparr>pn_notify = k, pn_user_data = d\<rparr>"
    using 1(4,5) 2(4,6,10) 3(6-8) ne by auto
  obtain w4 where 4: "template_proc_turn (Suc fuel) A i tb w3 = Some (Returns w4)"
    "call_state tc tb sb ts ss M [] [] n (free @ [m, r]) [] w4"
    "hblocks (bw_heap w4) = (hblocks (bw_heap w3))(pn := None, c := None)" "bw_user w4 = u'" "aside tb ts 0 w3 w4"
    by (rule bus_turn_return_async [OF 3(2) M c3 3(3-5) objs nt [folded 3(9)], of fuel i]) (rule that)
  have "(hblocks (bw_heap w2))(unat payload := None, pn := None, c := None) =
      ((hblocks (bw_heap w2))(c := None))(unat payload := None, pn := None)" using ne by auto
  then have "hblocks (bw_heap w4) = (hblocks (bw_heap w1))(unat payload := None, pn := None)"
    unfolding 4(3) 3(6) 2(7) .
  moreover have "aside tb ts 3 w2 w4" by (rule aside_trans [OF 3(10) 4(5)]) simp
  then have "aside tb ts 3 w1 w4" using 2(11) 3(10) 4(5) by (metis aside_trans add_0_right order_refl)
  ultimately show ?thesis using 2(1) 3(1) 4 by blast
qed

section \<open>The call\<close>

lemma remote_call_returns:
  assumes st: "call_state tc tb sb ts ss M [] [] 0 (m # r # free) [] w" and M: "unat major = M" and o: "out \<noteq> 0"
    and self: "get_current_context self w = tc" and gr: "\<not> hfail (bw_heap w) (hcalls (bw_heap w))"
    and srv: "service_answers A ss minor payload ret u w"
  shows "\<exists>w1 w2 w3 w4 w5. mblue_remote_call (Suc fuel) self out major minor payload w = Some (Posted m, w1) \<and>
      ipc_invoke_check m w1 = Waits tc \<and> ipc_invoke_wait False tc w1 = Some Blocked \<and>
      template_proc_turn (Suc fuel) A i tb w1 = Some (Returns w2) \<and> ipc_invoke_wait False tc w2 = Some Blocked \<and>
      template_proc_turn (Suc fuel) A i ts w2 = Some (Returns w3) \<and> ipc_invoke_wait False tc w3 = Some Blocked \<and>
      template_proc_turn (Suc fuel) A i tb w3 = Some (Returns w4) \<and>
      ipc_invoke_wait i tc w4 = Some (Returns (MBLUE_OK, w5)) \<and> mblue_remote_call_result out w5 = ret \<and>
      call_state tc tb sb ts ss M [] [] 0 (free @ [m, r]) [] w5 \<and>
      hblocks (bw_heap w5) = (hblocks (bw_heap w))(unat payload := None) \<and> bw_user w5 = u"
proof -
  define c where "c = 16 * Suc (hnext (bw_heap w))"
  have ph: "pool_holds (bw_msgs w) (m # r # free)" using st by (simp add: call_state_def)
  then have objs: "m \<in> msg_objs" "m \<notin> set free" "r \<in> msg_objs" "r \<notin> set free" "m \<noteq> r"
    using mpool.holds_objs [OF ph] by auto
  have m0: "m \<noteq> 0" using msg_objs_facts [OF objs(1)] by simp
  obtain w1 seq where 1: "mblue_remote_call (Suc fuel) self out major minor payload w = Some (Posted m, w1)"
    "ipc_invoke_check m w1 = Waits tc" "call_state tc tb sb ts ss M [m] [] 0 (r # free) [] w1"
    "msg_at w1 m = sent_message tc seq SYNC_CALL major minor sb payload out"
    "bw_heap w1 = bw_heap w" "bw_segs w1 = bw_segs w" "bw_user w1 = bw_user w"
    by (rule remote_call_posted [OF st M self])
  have g1: "\<not> hfail (bw_heap w1) (hcalls (bw_heap w1))" using gr 1(5) by simp
  have call: "call_type SYNC_CALL" by (simp add: call_type_def)
  obtain w2 where 2: "template_proc_turn (Suc fuel) A i tb w1 = Some (Returns w2)"
    "call_state tc tb sb ts ss M [] [m] 0 (r # free) [c] w2"
    "msg_at w2 m = (sent_message tc seq SYNC_CALL major minor ss payload out)\<lparr>m_ref := 2\<rparr>"
    "bw_calls w2 c = pending_of SYNC_CALL m out"
    "hblocks (bw_heap w) c = None" "hblocks (bw_heap w2) c \<noteq> None" "(hblocks (bw_heap w2))(c := None) = hblocks (bw_heap w)"
    "bw_segs w2 = bw_segs w" "bw_user w2 = bw_user w"
    using bus_turn_call [OF 1(3) m0 M call o 1(4) g1, of "Suc fuel" A i thesis] 1(5-7) unfolding c_def by simp
  have pc: "unat payload \<noteq> c" using srv 2(5) by (auto simp: service_answers_def)
  then have "hblocks (bw_heap w2) (unat payload) = hblocks (bw_heap w) (unat payload)" using 2(7) by (metis fun_upd_other)
  then have srv2: "service_answers A ss minor payload ret u w2" using srv 2(8,9) by (simp add: service_answers_def items_lookup_def)
  obtain w3 src where 3: "template_proc_turn (Suc fuel) A i ts w2 = Some (Returns w3)"
    "call_state tc tb sb ts ss M [r] [] 0 free [c] w3"
    "msg_at w3 r = sent_message src seq CALL_RETURN major 0 sb ret 0"
    "unat (m_ref (msg_at w3 m)) = 1" "m_seq (msg_at w3 m) = seq" "m_src (msg_at w3 m) = tc" "m_extra (msg_at w3 m) = out"
    "hblocks (bw_heap w3) = (hblocks (bw_heap w2))(unat payload := None)"
    "bw_calls w3 = bw_calls w2" "bw_user w3 = u"
    by (rule server_turn [OF 2(2) M m0 call 2(3) srv2 objs(5), of fuel i]) (rule that)
  have c3: "bw_calls w3 c = pending_of SYNC_CALL m out" "hblocks (bw_heap w3) c \<noteq> None"
    using 2(4,6) 3(8,9) pc by simp_all
  have sm: "0 < SEM_VALUE_MAX" by (simp add: SEM_VALUE_MAX_def)
  obtain w4 where 4: "template_proc_turn (Suc fuel) A i tb w3 = Some (Returns w4)"
    "call_state tc tb sb ts ss M [] [] (Suc 0) (free @ [m, r]) [] w4" "bw_cells w4 out = ret"
    "hblocks (bw_heap w4) = (hblocks (bw_heap w3))(c := None)" "bw_user w4 = bw_user w3"
    by (rule bus_turn_return [OF 3(2) M sm c3 3(3-7) objs o])
  obtain w5 where 5: "ipc_invoke_wait i tc w4 = Some (Returns (MBLUE_OK, w5))"
    "call_state tc tb sb ts ss M [] [] 0 (free @ [m, r]) [] w5" "bw_cells w5 = bw_cells w4" "bw_heap w5 = bw_heap w4"
    "bw_user w5 = bw_user w4"
    using caller_waits(2) [OF 4(2) refl] by blast
  have "hblocks (bw_heap w5) = (hblocks (bw_heap w))(unat payload := None)"
    unfolding 5(4) 4(4) 3(8) 2(7) [symmetric] using pc by (simp add: fun_upd_twist)
  then show ?thesis
    using 1(1,2) 2(1) 3(1,10) 4(1,3,5) 5 caller_waits(1) [OF 1(3)] caller_waits(1) [OF 2(2)] caller_waits(1) [OF 3(2)]
    by (auto simp: mblue_remote_call_result_def)
qed

lemma remote_call_async_returns:
  assumes st: "call_state tc tb sb ts ss M [] [] n (m # r # free) [] w" and M: "unat major = M"
    and self: "get_current_context self w = tc" and gr: "\<not> hfail (bw_heap w) (hcalls (bw_heap w))"
      "\<not> hfail (bw_heap w) (Suc (hcalls (bw_heap w)))"
    and srv: "service_answers A ss minor payload ret u w" and nt: "notify_answers (app_notify A) k ret d u u'"
  shows "\<exists>w1 w2 w3 w4. mblue_remote_call_async (Suc fuel) self major minor payload k d w = Some (Posted m, w1) \<and>
      ipc_invoke_check m w1 = Sent MBLUE_OK \<and>
      template_proc_turn (Suc fuel) A i tb w1 = Some (Returns w2) \<and>
      template_proc_turn (Suc fuel) A i ts w2 = Some (Returns w3) \<and>
      template_proc_turn (Suc fuel) A i tb w3 = Some (Returns w4) \<and>
      call_state tc tb sb ts ss M [] [] n (free @ [m, r]) [] w4 \<and>
      hblocks (bw_heap w4) = (hblocks (bw_heap w))(unat payload := None) \<and> bw_user w4 = u'"
proof -
  define pn where "pn = 16 * Suc (hnext (bw_heap w))"
  have ph: "pool_holds (bw_msgs w) (m # r # free)" using st by (simp add: call_state_def)
  then have objs: "m \<in> msg_objs" "m \<notin> set (r # free)"
    using mpool.holds_objs [OF ph] by auto
  obtain w1 seq where 1: "mblue_remote_call_async (Suc fuel) self major minor payload k d w = Some (Posted m, w1)"
    "ipc_invoke_check m w1 = Sent MBLUE_OK" "call_state tc tb sb ts ss M [m] [] n (r # free) [] w1"
    "msg_at w1 m = sent_message tc seq ASYNC_CALL major minor sb payload pn"
    "hblocks (bw_heap w) pn = None" "live w1 pn" "(hblocks (bw_heap w1))(pn := None) = hblocks (bw_heap w)"
    "hcalls (bw_heap w1) = Suc (hcalls (bw_heap w))" "hfail (bw_heap w1) = hfail (bw_heap w)"
    "hnext (bw_heap w) < hnext (bw_heap w1)" "bw_notifiers w1 pn = \<lparr>pn_notify = k, pn_user_data = d\<rparr>"
    "bw_segs w1 = bw_segs w" "bw_user w1 = bw_user w" "aside tb ts 2 w w1" "\<And>m'. m' \<noteq> m \<Longrightarrow> msg_at w1 m' = msg_at w m'"
    by (rule remote_call_async_posted [OF st M self gr(1), folded pn_def]) (rule that)
  have g1: "\<not> hfail (bw_heap w1) (hcalls (bw_heap w1))" using gr(2) 1(8,9) by simp
  have "live w (unat payload)" using srv by (auto simp: service_answers_def)
  then have pc: "unat payload \<noteq> pn" using 1(5) by auto
  have "hblocks (bw_heap w1) (unat payload) = hblocks (bw_heap w) (unat payload)" using 1(7) pc by (metis fun_upd_other)
  then have srv1: "service_answers A ss minor payload ret u w1"
    using srv 1(12,13) by (simp add: service_answers_def items_lookup_def)
  have "call_sent tc sb m major minor payload k d pn w1" using 1(4,6,11) pc by (auto simp: call_sent_def pn_def)
  from async_call_answered [OF 1(3) M this objs g1 srv1 nt, of fuel i] obtain w2 w3 w4 where 2:
    "template_proc_turn (Suc fuel) A i tb w1 = Some (Returns w2)" "template_proc_turn (Suc fuel) A i ts w2 = Some (Returns w3)"
    "template_proc_turn (Suc fuel) A i tb w3 = Some (Returns w4)" "call_state tc tb sb ts ss M [] [] n (free @ [m, r]) [] w4"
    "hblocks (bw_heap w4) = (hblocks (bw_heap w1))(unat payload := None, pn := None)" "bw_user w4 = u'"
    by (elim exE conjE) (rule that)
  have "hblocks (bw_heap w4) = (hblocks (bw_heap w))(unat payload := None)"
    unfolding 2(5) 1(7) [symmetric] using pc by (rule fun_upd_twist)
  then show ?thesis using 1(1,2) 2 by blast
qed

end
