(* ===== verification/Bus_Signals.thy ===== *)
theory Bus_Signals
  imports Bus_Calls
begin

text \<open>
  Publishing a signal: every subscriber of the segment gets a copy of the message, in the order of the
  subscriptions, in the queue of its task, and the original goes back to the pool. The copies share
  the payload of the original, so with two subscribers a payload on the heap is released twice.
\<close>

section \<open>One subscriber\<close>

definition tasks_have :: "addr set \<Rightarrow> (addr \<Rightarrow> addr list) \<Rightarrow> 'u bus_world \<Rightarrow> bool" where
  "tasks_have T f w \<longleftrightarrow> inj_on (\<lambda>t. t_mq (bw_tasks w t)) T \<and> (\<forall>t\<in>T. task_has w t (f t))"

definition room :: "addr \<Rightarrow> nat \<Rightarrow> 'u bus_world \<Rightarrow> bool" where
  "room t n w \<longleftrightarrow> int (length (queue_contents (task_queue w t)) + n) \<le> qcapacity (task_queue w t)"

text \<open>The copy of a message for a subscriber.\<close>

definition replica_of :: "mblue_message \<Rightarrow> addr \<Rightarrow> mblue_message" where
  "replica_of x ms = x\<lparr>m_ref := m_ref x + 1, m_dst := ms\<rparr>"

lemma pool_holds_other:
  assumes "pool_holds s free" and "m \<in> msg_objs" "m \<notin> set free"
  shows "pool_holds (s\<lparr>ms_pool := p, ms_links := set_prev (msg_node m) a (set_next (msg_node m) b (ms_links s))\<rparr>) free"
  using assms msg_objs_facts [OF assms(2)]
  by (auto simp: pool_holds_def msg_node_inj intro!: dlist_set_prev dlist_set_next)

lemma publish_to_delivers:
  assumes T: "tasks_have T f w" and t: "t \<in> T" "s_context (bw_segs w ms) = t" and rm: "room t 1 w"
    and p: "pool_holds (bw_msgs w) (r # free)" and ne: "m \<noteq> r"
  obtains q sem s where "publish_to ms m w = Some (set_queue t q sem (w\<lparr>bw_msgs := s\<rparr>))"
    "tasks_have T (f(t := f t @ [r])) (set_queue t q sem (w\<lparr>bw_msgs := s\<rparr>))"
    "qcapacity q = qcapacity (task_queue w t)" "queue_contents q = f t @ [r]" "pool_holds s free"
    "ms_pool s = (ms_pool (bw_msgs w))(r := replica_of (msg_at w m) ms)"
proof -
  have h: "task_has w t (f t)" using T t(1) by (simp add: tasks_have_def)
  obtain s0 where s0: "mblue_message_alloc (bw_msgs w) = (r, s0)" "pool_holds s0 free"
    "ms_pool s0 = (ms_pool (bw_msgs w))(r := zero_message)" using alloc_first [OF p] by blast
  have r: "r \<in> msg_objs" "r \<notin> set free" "r \<noteq> 0" using mpool.holds_objs [OF p] msg_objs_facts by auto
  define s where "s = s0\<lparr>ms_pool := (ms_pool s0)(r := replica_of (msg_at w m) ms),
    ms_links := set_prev (msg_node r) (lprev (ms_links s0) (msg_node m))
      (set_next (msg_node r) (lnext (ms_links s0) (msg_node m)) (ms_links s0))\<rparr>"
  define w1 where "w1 = w\<lparr>bw_msgs := s\<rparr>"
  have h1: "task_has w1 t (f t)" using h by (simp add: w1_def task_has_def)
  have "int (length (f t)) < qcapacity (task_queue w1 t)"
    using rm h unfolding room_def task_has_def by (simp add: w1_def del: length_queue_contents)
  then obtain q sem where post: "call_nproc t r w1 = Some (MBLUE_OK, set_queue t q sem w1)" "queue_wf q"
    "queue_contents q = f t @ [r]" "qcapacity q = qcapacity (task_queue w1 t)" "sem_value sem (Suc (length (f t)))"
    using call_nproc_room [OF h1] unfolding set_queue_def [symmetric] by metis
  have np: "nproc (bw_tasks w t) = Template_fn" "t \<noteq> 0" using h by (simp_all add: task_has_def)
  have "publish_to ms m w = Some (set_queue t q sem w1)"
  proof -
    have "upd_msg r (m_dst_update (\<lambda>_. ms)) (world_get r (copy_message r m (w\<lparr>bw_msgs := s0\<rparr>))) = w1"
      using ne s0(3) by (cases s0) (simp add: w1_def s_def copy_message_def world_get_def get_mblue_message_def set_ref_def upd_msg_def
          Let_def replica_of_def)
    then show ?thesis using np r t s0(1) post(1)
      by (simp add: publish_to_def mblue_segment_get_context_def world_alloc_def Let_def)
  qed
  moreover have "tasks_have T (f(t := f t @ [r])) (set_queue t q sem w1)"
    unfolding tasks_have_def
  proof
    show "inj_on (\<lambda>t'. t_mq (bw_tasks (set_queue t q sem w1) t')) T" using T by (simp add: tasks_have_def w1_def)
    show "\<forall>t'\<in>T. task_has (set_queue t q sem w1) t' ((f(t := f t @ [r])) t')"
    proof
      fix t' assume t': "t' \<in> T"
      then have h': "task_has w1 t' (f t')" using T by (simp add: tasks_have_def w1_def task_has_def)
      have "t' \<noteq> t \<Longrightarrow> t_mq (bw_tasks w1 t') \<noteq> t_mq (bw_tasks w1 t)"
        using T t t' by (auto simp: tasks_have_def inj_on_def w1_def)
      then show "task_has (set_queue t q sem w1) t' ((f(t := f t @ [r])) t')"
        using set_queue_has [OF h1 post(2,3,4), of sem] post(5) h' by (cases "t' = t") simp_all
    qed
  qed
  moreover have "pool_holds s free" unfolding s_def by (rule pool_holds_other [OF s0(2) r(1,2)])
  ultimately show thesis using that [of q sem s] post(3,4) s0(3) by (simp add: w1_def s_def)
qed

section \<open>All subscribers\<close>

text \<open>The copies that the task \<open>t\<close> gets when the copies \<open>rs\<close> go to the segments \<open>mss\<close>.\<close>

definition copies_for :: "'u bus_world \<Rightarrow> addr list \<Rightarrow> addr list \<Rightarrow> addr \<Rightarrow> addr list" where
  "copies_for w rs mss t = map fst (filter (\<lambda>(r, ms). s_context (bw_segs w ms) = t) (zip rs mss))"

lemma copies_for_Cons:
  "copies_for w (r # rs) (ms # mss) t = (if s_context (bw_segs w ms) = t then [r] else []) @ copies_for w rs mss t"
  by (simp add: copies_for_def)

lemma copies_for_cong: "bw_segs w' = bw_segs w \<Longrightarrow> copies_for w' = copies_for w"
  by (simp add: copies_for_def fun_eq_iff)

text \<open>The subscribers that are still to be served, from a node of the publish list on.\<close>

definition subscribers_ok :: "addr set \<Rightarrow> addr list \<Rightarrow> 'u bus_world \<Rightarrow> bool" where
  "subscribers_ok T subs w \<longleftrightarrow> (\<forall>s\<in>set subs. live w s \<and> bw_subs w s \<noteq> 0 \<and> s_context (bw_segs w (bw_subs w s)) \<in> T)"

lemma publish_loop_delivers:
  assumes "dlist (bw_pub_links w) head (map list_node_of (xs @ ys))"
    and "node = (case ys of [] \<Rightarrow> head | y # _ \<Rightarrow> list_node_of y)"
    and "subscribers_ok T ys w" and "tasks_have T f w" and "length rs = length ys" and "m \<notin> set rs"
    and "pool_holds (bw_msgs w) (rs @ free)" and "length ys < fuel"
    and "\<And>t. t \<in> T \<Longrightarrow> room t (length (copies_for w rs (map (bw_subs w) ys) t)) w"
  shows "\<exists>w'. publish_loop fuel head m node rc w = Some (if ys = [] then rc else MBLUE_OK, w') \<and>
    tasks_have T (\<lambda>t. f t @ copies_for w rs (map (bw_subs w) ys) t) w' \<and> pool_holds (bw_msgs w') free \<and>
    (\<forall>i<length ys. msg_at w' (rs ! i) = replica_of (msg_at w m) (bw_subs w (ys ! i))) \<and>
    (\<forall>x. x \<notin> set rs \<longrightarrow> msg_at w' x = msg_at w x) \<and> bw_heap w' = bw_heap w \<and> bw_segs w' = bw_segs w \<and>
    bw_pub_links w' = bw_pub_links w"
  using assms
proof (induction ys arbitrary: xs node rs w f rc fuel)
  case Nil
  then obtain k where "fuel = Suc k" by (cases fuel) auto
  then show ?case using Nil by (simp add: copies_for_def)
next
  case (Cons s ys)
  obtain r rs' where rs: "rs = r # rs'" using Cons.prems(5) by (cases rs) auto
  obtain k where k: "fuel = Suc k" "length ys < k" using Cons.prems(8) by (cases fuel) auto
  define ms where "ms = bw_subs w s"
  define t where "t = s_context (bw_segs w ms)"
  have s: "live w s" "ms \<noteq> 0" "t \<in> T" using Cons.prems(3) by (simp_all add: subscribers_ok_def ms_def t_def)
  have rm: "room t 1 w"
    using Cons.prems(9) [OF s(3)] by (simp add: rs copies_for_Cons ms_def [symmetric] t_def [symmetric] room_def)
  obtain q sem st where pt: "publish_to ms m w = Some (set_queue t q sem (w\<lparr>bw_msgs := st\<rparr>))"
    "tasks_have T (f(t := f t @ [r])) (set_queue t q sem (w\<lparr>bw_msgs := st\<rparr>))"
    "qcapacity q = qcapacity (task_queue w t)" "queue_contents q = f t @ [r]" "pool_holds st (rs' @ free)"
    "ms_pool st = (ms_pool (bw_msgs w))(r := replica_of (msg_at w m) ms)"
    using publish_to_delivers [OF Cons.prems(4) s(3) _ rm, of ms r "rs' @ free" m] Cons.prems(6,7) rs
    by (auto simp: t_def)
  define w1 where "w1 = set_queue t q sem (w\<lparr>bw_msgs := st\<rparr>)"
  have w1: "bw_pub_links w1 = bw_pub_links w" "bw_subs w1 = bw_subs w" "bw_segs w1 = bw_segs w" "bw_heap w1 = bw_heap w"
    "bw_msgs w1 = st" by (simp_all add: w1_def)
  have nx: "lnext (bw_pub_links w) (list_node_of s) = (case ys of [] \<Rightarrow> head | y # _ \<Rightarrow> list_node_of y)"
    using dlist_neighbours(2) [of "bw_pub_links w" head "map list_node_of xs" "list_node_of s" "map list_node_of ys"]
      Cons.prems(1) by (cases ys) simp_all
  have hd: "list_node_of s \<noteq> head" using Cons.prems(1) by (auto simp: dlist_def)
  have dist: "distinct rs" using mpool.holds_objs [OF Cons.prems(7)] by simp
  have rooms: "room t' (length (copies_for w1 rs' (map (bw_subs w1) ys) t')) w1" if "t' \<in> T" for t'
  proof (cases "t' = t")
    case True
    have "queue_contents (task_queue w t) = f t" using Cons.prems(4) s(3) by (simp add: tasks_have_def task_has_def)
    then show ?thesis using Cons.prems(9) [OF s(3)] True pt(3,4) unfolding copies_for_cong [OF w1(3)] w1(2)
      by (simp add: rs copies_for_Cons ms_def [symmetric] t_def [symmetric] room_def w1_def set_queue_def upd_task_def
          del: length_queue_contents)
  next
    case False
    then have "t_mq (bw_tasks w t') \<noteq> t_mq (bw_tasks w t)" using Cons.prems(4) s(3) that by (auto simp: tasks_have_def inj_on_def)
    then show ?thesis using Cons.prems(9) [OF that] False unfolding copies_for_cong [OF w1(3)] w1(2)
      by (simp add: rs copies_for_Cons ms_def [symmetric] t_def [symmetric] room_def w1_def set_queue_def upd_task_def)
  qed
  have "\<exists>w'. publish_loop k head m (lnext (bw_pub_links w1) (list_node_of s)) MBLUE_OK w1 =
      Some (if ys = [] then MBLUE_OK else MBLUE_OK, w') \<and>
    tasks_have T (\<lambda>t'. (f(t := f t @ [r])) t' @ copies_for w1 rs' (map (bw_subs w1) ys) t') w' \<and> pool_holds (bw_msgs w') free \<and>
    (\<forall>i<length ys. msg_at w' (rs' ! i) = replica_of (msg_at w1 m) (bw_subs w1 (ys ! i))) \<and>
    (\<forall>x. x \<notin> set rs' \<longrightarrow> msg_at w' x = msg_at w1 x) \<and> bw_heap w' = bw_heap w1 \<and> bw_segs w' = bw_segs w1 \<and>
    bw_pub_links w' = bw_pub_links w1"
    using Cons.prems nx pt(2,5) k rs rooms w1
    by (intro Cons.IH [of w1 "xs @ [s]"]) (simp_all add: subscribers_ok_def w1_def [symmetric] fun_upd_def)
  then obtain w' where w': "publish_loop k head m (lnext (bw_pub_links w1) (list_node_of s)) MBLUE_OK w1 = Some (MBLUE_OK, w')"
    "tasks_have T (\<lambda>t'. (f(t := f t @ [r])) t' @ copies_for w rs' (map (bw_subs w) ys) t') w'" "pool_holds (bw_msgs w') free"
    "\<forall>i<length ys. msg_at w' (rs' ! i) = replica_of (msg_at w1 m) (bw_subs w (ys ! i))"
    "\<forall>x. x \<notin> set rs' \<longrightarrow> msg_at w' x = msg_at w1 x" "bw_heap w' = bw_heap w" "bw_segs w' = bw_segs w"
    "bw_pub_links w' = bw_pub_links w"
    by (auto simp: w1 copies_for_cong [OF w1(3)])
  have "publish_loop fuel head m node rc w = Some (MBLUE_OK, w')"
    using w'(1) pt(1) s(1,2) hd Cons.prems(2) by (simp add: k(1) ms_def [symmetric] w1_def [symmetric])
  moreover have "(\<lambda>t'. (f(t := f t @ [r])) t' @ copies_for w rs' (map (bw_subs w) ys) t') =
      (\<lambda>t'. f t' @ copies_for w rs (map (bw_subs w) (s # ys)) t')"
    by (auto simp: fun_eq_iff rs copies_for_Cons ms_def [symmetric] t_def [symmetric])
  moreover have "msg_at w' (rs ! i) = replica_of (msg_at w m) (bw_subs w ((s # ys) ! i))" if "i < length (s # ys)" for i
    using that w'(4,5) dist Cons.prems(6) pt(6) by (cases i) (auto simp: rs w1 ms_def)
  ultimately show ?case using w' pt(6) by (auto simp: rs w1)
qed

lemma bus_signal_delivers:
  assumes M: "unat (GET_MAJOR (m_code (msg_at w m))) = M" "M < SEGMENT_MAJOR_MAX"
    and d: "dlist (bw_pub_links w) (list_head_of M) (map list_node_of subs)" and ne: "subs \<noteq> []"
    and s: "subscribers_ok T subs w" "tasks_have T f w" "length rs = length subs" "length subs < fuel"
    and p: "pool_holds (bw_msgs w) (rs @ free)" and m: "m \<in> msg_objs" "m \<notin> set (rs @ free)" "m_ref (msg_at w m) = 0"
    and room: "\<And>t. t \<in> T \<Longrightarrow> room t (length (copies_for w rs (map (bw_subs w) subs) t)) w"
  shows "\<exists>w'. bus_signal fuel m w = Some (MBLUE_OK, w') \<and>
    tasks_have T (\<lambda>t. f t @ copies_for w rs (map (bw_subs w) subs) t) w' \<and> pool_holds (bw_msgs w') (free @ [m]) \<and>
    (\<forall>i<length subs. msg_at w' (rs ! i) = replica_of (msg_at w m) (bw_subs w (subs ! i))) \<and>
    bw_heap w' = bw_heap w \<and> bw_segs w' = bw_segs w"
proof -
  have nx: "lnext (bw_pub_links w) (list_head_of M) = (case subs of [] \<Rightarrow> list_head_of M | y # _ \<Rightarrow> list_node_of y)"
    using dlist_next [OF d] by (cases subs) simp_all
  have em: "\<not> list_empty (list_head_of M) (bw_pub_links w)" using list_empty_iff [OF d] ne by simp
  have "m \<notin> set rs" using m(2) by simp
  then obtain w1 where w1: "publish_loop fuel (list_head_of M) m (lnext (bw_pub_links w) (list_head_of M)) MBLUE_ERR_UNKNOWN w = Some (MBLUE_OK, w1)"
    "tasks_have T (\<lambda>t. f t @ copies_for w rs (map (bw_subs w) subs) t) w1" "pool_holds (bw_msgs w1) free"
    "\<forall>i<length subs. msg_at w1 (rs ! i) = replica_of (msg_at w m) (bw_subs w (subs ! i))"
    "\<forall>x. x \<notin> set rs \<longrightarrow> msg_at w1 x = msg_at w x" "bw_heap w1 = bw_heap w" "bw_segs w1 = bw_segs w"
    using publish_loop_delivers [OF _ nx s(1,2,3) _ p s(4) room, of "[]" m MBLUE_ERR_UNKNOWN] d ne by auto
  have r: "unat (m_ref (ms_pool (bw_msgs w1) m)) \<le> 1" using w1(5) m by simp
  have mf: "m \<notin> set free" using m(2) by simp
  note rel = release_last [OF w1(3) m(1) mf r]
  have ne_i: "rs ! i \<noteq> m" if "i < length subs" for i using that m(2) s(3) nth_mem [of i rs] by auto
  have "bus_signal fuel m w = Some (MBLUE_OK, world_release m w1)"
    using M em w1(1) by (simp add: bus_signal_def Let_def)
  moreover have "tasks_have T g (world_release m w1) \<longleftrightarrow> tasks_have T g w1" for g
    by (simp add: tasks_have_def task_has_def world_release_def)
  ultimately show ?thesis using w1 rel ne_i by (simp add: world_release_def)
qed

section \<open>The shared payload\<close>

text \<open>What the default handler does with a payload on the heap, when the function it calls leaves the heap
  alone.\<close>

lemma signal_handler_payload:
  assumes h: "default_signal_handler A rc ms r w = Some (rc', w')" and p: "PB_PAYLOAD (smart_payload (msg_at w r))"
    and A: "\<And>f p v k v'. app_signal A f ms p v = Some (k, v') \<Longrightarrow> \<exists>u. v' = v\<lparr>bw_user := u\<rparr>"
  obtains w1 w2 where "bw_heap w1 = bw_heap w" "bw_msgs w1 = bw_msgs w"
    "world_free (unat (smart_payload (msg_at w r))) w1 = Some w2" "w' = world_release r w2"
proof -
  define w0 where "w0 = link_msg ms r w"
  have w0: "bw_heap w0 = bw_heap w" "bw_msgs w0 = bw_msgs w" by (simp_all add: w0_def link_msg_def upd_seg_def)
  from h obtain w1 w2 where w1: "w1 = w0 \<or> (\<exists>f p k. app_signal A f ms p w0 = Some (k, w1))"
    and w2: "free_payload r w1 = Some w2" "w' = world_release r w2"
    by (auto simp: default_signal_handler_def Let_def w0_def [symmetric] split: bind_splits option.splits if_splits) blast+
  from w1 A [of _ _ w0 _ w1] have "\<exists>u. w1 = w0\<lparr>bw_user := u\<rparr>" by (metis bus_world.surjective bus_world.update_convs(19))
  then have e: "bw_heap w1 = bw_heap w" "bw_msgs w1 = bw_msgs w" using w0 by auto
  moreover have "world_free (unat (smart_payload (msg_at w r))) w1 = Some w2"
    using w2(1) p by (simp add: free_payload_def e Let_def)
  ultimately show thesis using that w2(2) by blast
qed

lemma signal_handler_frees:
  assumes "default_signal_handler A rc ms r w = Some (rc', w')" and "PB_PAYLOAD (smart_payload (msg_at w r))"
    and "\<And>f p v k v'. app_signal A f ms p v = Some (k, v') \<Longrightarrow> \<exists>u. v' = v\<lparr>bw_user := u\<rparr>"
  shows "hblocks (bw_heap w) (unat (smart_payload (msg_at w r))) \<noteq> None"
    "hblocks (bw_heap w') (unat (smart_payload (msg_at w r))) = None"
    "\<And>x. smart_payload (msg_at w' x) = smart_payload (msg_at w x)"
proof -
  obtain w1 w2 where w: "bw_heap w1 = bw_heap w" "bw_msgs w1 = bw_msgs w"
    "world_free (unat (smart_payload (msg_at w r))) w1 = Some w2" "w' = world_release r w2"
    by (rule signal_handler_payload [OF assms])
  then have "hblocks (bw_heap w) (unat (smart_payload (msg_at w r))) \<noteq> None"
    "hblocks (bw_heap w2) (unat (smart_payload (msg_at w r))) = None" "bw_msgs w2 = bw_msgs w"
    by (auto simp: world_free_def mblue_free_def heap_free_def ifree_def split: bind_splits option.splits)
  then show "hblocks (bw_heap w) (unat (smart_payload (msg_at w r))) \<noteq> None"
    "hblocks (bw_heap w') (unat (smart_payload (msg_at w r))) = None"
    "\<And>x. smart_payload (msg_at w' x) = smart_payload (msg_at w x)"
    by (simp_all add: w(4) world_release_def release_fields)
qed

text \<open>After one subscriber has handled its copy, the handler of the next one releases the same block again.\<close>

lemma signal_handler_twice:
  assumes h: "default_signal_handler A rc ms r w = Some (rc', w')"
    and p: "PB_PAYLOAD (smart_payload (msg_at w r))" "smart_payload (msg_at w r') = smart_payload (msg_at w r)"
    and A: "\<And>f ms p v k v'. app_signal A f ms p v = Some (k, v') \<Longrightarrow> \<exists>u. v' = v\<lparr>bw_user := u\<rparr>"
  shows "default_signal_handler A rc'' ms' r' w' = None"
proof (rule ccontr)
  note f = signal_handler_frees [OF h p(1) A]
  assume "default_signal_handler A rc'' ms' r' w' \<noteq> None"
  then obtain k v where "default_signal_handler A rc'' ms' r' w' = Some (k, v)" by auto
  then have "hblocks (bw_heap w') (unat (smart_payload (msg_at w' r'))) \<noteq> None"
    by (rule signal_handler_frees(1) [OF _ _ A]) (simp add: f(3) p)
  with f(2,3) p(2) show False by simp
qed

end
