(* ===== verification/Bus_Protocol.thy ===== *)
theory Bus_Protocol
  imports Bus_Safety Bus_Signals
begin

text \<open>
  The tasks as a step relation: clients subscribe, call and send signals, the tasks take turns, the
  callers of synchronous calls wake up, in any order. The properties of the messaging layer are stated
  here, each with a run on a sample system of three tasks.
\<close>

section \<open>Steps\<close>

text \<open>The clients name a segment with a number below 4096, since larger numbers do not fit the code of a
  message, and do not call the bus itself.\<close>

inductive bus_step :: "'u app \<Rightarrow> nat \<Rightarrow> addr set \<Rightarrow> 'u bus_world \<Rightarrow> 'u bus_world \<Rightarrow> bool"
  for A fuel T where
    Step_subscribe: "mblue_subscribe fuel ms major w = Some (s, w') \<Longrightarrow> unat major < 2 ^ 12 \<Longrightarrow> bus_step A fuel T w w'"
  | Step_call: "mblue_remote_call fuel self out major minor input w = Some (s, w') \<Longrightarrow>
      0 < unat major \<Longrightarrow> unat major < 2 ^ 12 \<Longrightarrow> bus_step A fuel T w w'"
  | Step_call_async: "mblue_remote_call_async fuel self major minor input notify data w = Some (s, w') \<Longrightarrow>
      0 < unat major \<Longrightarrow> unat major < 2 ^ 12 \<Longrightarrow> bus_step A fuel T w w'"
  | Step_target_signal: "target_signal fuel source major minor dest data extra w = Some (s, w') \<Longrightarrow>
      unat major < 2 ^ 12 \<Longrightarrow> bus_step A fuel T w w'"
  | Step_broadcast_signal: "broadcast_signal fuel self major minor data w = Some (s, w') \<Longrightarrow>
      unat major < 2 ^ 12 \<Longrightarrow> bus_step A fuel T w w'"
  | Step_payload: "world_malloc n w = Some (p, w') \<Longrightarrow> bus_step A fuel T w w'"
  | Step_turn: "template_proc_turn fuel A interrupted t w = Some (Returns w') \<Longrightarrow> t \<in> T \<Longrightarrow> bus_step A fuel T w w'"
  | Step_wake: "ipc_invoke_wait interrupted t w = Some (Returns (rc, w')) \<Longrightarrow> bus_step A fuel T w w'"

text \<open>The tasks have been created and the segments bound; nothing has been sent.\<close>

definition bus_start :: "addr set \<Rightarrow> addr \<Rightarrow> 'u bus_world \<Rightarrow> bool" where
  "bus_start T sb w \<longleftrightarrow> config_ok T sb w \<and> (\<exists>free. pool_holds (bw_msgs w) free) \<and>
     (\<forall>t\<in>T. queue_contents (task_queue w t) = []) \<and>
     (\<forall>M<SEGMENT_MAJOR_MAX. dlist (bw_call_links w) (list_head_of M) [])"

lemma bus_start_inv: "bus_start T sb w \<Longrightarrow> bus_inv T sb (\<lambda>_. []) {#} w"
  by (simp add: bus_start_def bus_inv_def calls_ok_def queued_def pending_def backed_def)

text \<open>A sender takes the next sequence number and sends.\<close>

lemma sequence_send_inv:
  assumes "bus_inv T sb cs H w" and "unat major < 2 ^ 12" and "type = SYNC_CALL \<or> type = ASYNC_CALL \<Longrightarrow> 0 < unat major"
    and "(let (seq, w) = next_seq w in send_message fuel (src w) seq type major minor dst input out extra pn w) = Some (s, w')"
  shows "bus_inv T sb cs H w'"
proof -
  obtain seq w1 where q: "next_seq w = (seq, w1)" by fastforce
  have "bus_inv T sb cs H w1" by (rule next_seq_inv [OF assms(1) q])
  then show ?thesis by (rule send_message_inv [OF _ assms(2,3)]) (use assms(4) q in auto)
qed

lemma call_async_inv:
  assumes inv: "bus_inv T sb cs H w" and M: "unat major < 2 ^ 12" "0 < unat major"
    and s: "mblue_remote_call_async fuel self major minor input notify data w = Some (s, w')"
  shows "bus_inv T sb cs H w'"
proof -
  obtain pn w1 where a: "world_malloc sizeof_pending_notifier w = Some (pn, w1)"
    using s by (auto simp: mblue_remote_call_async_def split: bind_splits)
  have i1: "bus_inv T sb cs H w1" by (rule world_malloc_inv [OF inv a])
  show ?thesis
  proof (cases "pn = 0")
    case True
    with s a i1 show ?thesis by (simp add: mblue_remote_call_async_def)
  next
    case False
    define w2 where "w2 = w1\<lparr>bw_notifiers := (bw_notifiers w1)(pn := \<lparr>pn_notify = notify, pn_user_data = data\<rparr>)\<rparr>"
    have "bus_inv T sb cs H w2" unfolding w2_def by (rule bus_inv_cong [OF i1]) simp_all
    then show ?thesis
      by (rule sequence_send_inv [where type = ASYNC_CALL and src = "get_current_context self", OF _ M(1)])
        (use s a False M in \<open>simp_all add: mblue_remote_call_async_def w2_def [symmetric] Let_def\<close>)
  qed
qed

lemma bus_step_inv:
  assumes "bus_step A fuel T w w'" and inv: "bus_inv T sb cs {#} w" and A: "app_ok A"
  shows "\<exists>cs'. bus_inv T sb cs' {#} w'"
  using assms(1)
proof cases
  case Step_subscribe
  then show ?thesis
    using sequence_send_inv [OF inv, where src = "mblue_segment_get_context _" and type = SUBSCRIBE] unfolding mblue_subscribe_def by blast
next
  case Step_call
  then show ?thesis
    using sequence_send_inv [OF inv, where src = "get_current_context _" and type = SYNC_CALL] unfolding mblue_remote_call_def by blast
next
  case Step_call_async
  then show ?thesis using call_async_inv [OF inv] by blast
next
  case Step_target_signal
  then show ?thesis
    using sequence_send_inv [OF inv, where src = "\<lambda>_. _" and type = SIGNAL] unfolding target_signal_def by blast
next
  case Step_broadcast_signal
  then show ?thesis
    using sequence_send_inv [OF inv, where src = "get_current_context _" and type = SIGNAL] unfolding broadcast_signal_def by blast
next
  case Step_payload
  then show ?thesis using world_malloc_inv [OF inv] by blast
next
  case Step_turn
  then show ?thesis using template_proc_turn_inv [OF inv A] by blast
next
  case (Step_wake i t rc)
  then obtain sem where "w' = upd_task t (call_sem_update (\<lambda>_. sem)) w"
    by (auto simp: ipc_invoke_wait_def template_pend_def split: task_fn.splits bind_splits pend.splits)
  then show ?thesis using bus_inv_upd_task [OF inv, of "call_sem_update (\<lambda>_. sem)" t] by auto
qed

lemma reachable_inv:
  assumes "(bus_step A fuel T)\<^sup>*\<^sup>* w0 w" and "bus_start T sb w0" and "app_ok A"
  shows "\<exists>cs. bus_inv T sb cs {#} w"
  using assms(1)
proof (induction rule: rtranclp_induct)
  case base
  then show ?case using bus_start_inv [OF assms(2)] by blast
next
  case (step w1 w2)
  then show ?case using bus_step_inv [OF _ _ assms(3)] by blast
qed

section \<open>A sample system\<close>

text \<open>The bus in task 1, a service with number 2 in task 2, task 3 with another segment; a payload block.
  The service's function 5 answers with the number of calls it has served.\<close>

definition sample_task :: "nat \<Rightarrow> mblue_task" where
  "sample_task t = \<lparr>t_id = int t, t_priority = int t, t_name = 0, t_stack_size = 1024, t_stack = 0, t_obj = 100 + t,
     tproc = Template_fn, t_on_create = 0, nproc = Template_fn, tpend = Template_fn, tpost = Template_fn, t_mq = t,
     msg_sem = \<lparr>sem_magic = MBLUE_SEMAPHORE_MAGIC, sem_obj = Some 0\<rparr>,
     call_sem = \<lparr>sem_magic = MBLUE_SEMAPHORE_MAGIC, sem_obj = Some 0\<rparr>\<rparr>"

definition sample_segment :: "u16 \<Rightarrow> addr \<Rightarrow> (nat \<Rightarrow> segment_handler) \<Rightarrow> mblue_segment" where
  "sample_segment major t hs = \<lparr>s_magic = MBLUE_SEGMENT_MAGIC, s_major = major, s_context = t, processing_msg = 0,
     items_array = (\<lambda>type. Some [\<lparr>item_id = 7, item_handler = 5\<rparr>, \<lparr>item_id = END_ITEM_ID, item_handler = 0\<rparr>]),
     s_queue = 0, handler_array = hs, on_launch = Default_launch\<rparr>"

definition default_handlers :: "nat \<Rightarrow> segment_handler" where
  "default_handlers = (\<lambda>_. Null_handler)(type_value SIGNAL := Default_signal_handler,
     type_value SYNC_CALL := Default_ipc_handler, type_value ASYNC_CALL := Default_ipc_handler)"

text \<open>The payload at 16 is a call without arguments of a method named by two characters.\<close>

definition sample_payload :: "byte list" where
  "sample_payload = call_bytes [109, 49] (pb_type_index PB_0) None []"

definition sample_world :: "nat bus_world" where
  "sample_world = \<lparr>bw_heap = fresh_heap\<lparr>hblocks := [16 \<mapsto> sample_payload], hnext := 1\<rparr>, bw_msgs = fresh_messages,
     bw_segs = (\<lambda>_. sample_segment 0 0 (\<lambda>_. Null_handler))(10 := sample_segment 0 1 bus_handlers,
       20 := sample_segment 2 2 default_handlers, 30 := sample_segment 3 3 default_handlers),
     bw_tasks = sample_task, bw_queues = (\<lambda>_. \<lparr>qsize = 0, qnext = 0, qcapacity = 16, qdata = replicate 16 0\<rparr>),
     bw_seg_links = list_add_tail (list_node_of 10) (list_head_of 1) (INIT_LIST_HEAD (list_head_of 1) \<lparr>lnext = id, lprev = id\<rparr>),
     bw_sb_instance = True, bw_node_ms = (\<lambda>_. 0)(0 := 10, 2 := 20, 3 := 30),
     bw_pub_links = \<lparr>lnext = id, lprev = id\<rparr>, bw_call_links = \<lparr>lnext = id, lprev = id\<rparr>,
     bw_init_lock = \<lparr>sem_magic = MBLUE_SEMAPHORE_MAGIC, sem_obj = Some 0\<rparr>, bw_subs = (\<lambda>_. 0),
     bw_calls = (\<lambda>_. \<lparr>pc_msg = 0, pc_src = 0, pc_call_type = 0, pc_notifier = 0\<rparr>),
     bw_notifiers = (\<lambda>_. \<lparr>pn_notify = 0, pn_user_data = 0\<rparr>), bw_cells = (\<lambda>_. 0), bw_ipc = Some 1,
     bw_tm = (\<lambda>i. if i < 3 then Suc i else 0), bw_task_id = 3, bw_user = 0\<rparr>"

definition sample_app :: "nat app" where
  "sample_app = \<lparr>app_signal = (\<lambda>f ms p w. Some (0, w\<lparr>bw_user := Suc (bw_user w)\<rparr>)),
     app_service = (\<lambda>f args w. Some (MAKE_INTEGER (of_nat (Suc (bw_user w)) + (if args = [] then 0 else args ! 0)),
       w\<lparr>bw_user := Suc (bw_user w)\<rparr>)),
     app_stack = \<lparr>st_header = 1000, st_frame = (2000, 3000), st_raw = 0, st_memory = (\<lambda>_. 0)\<rparr>,
     app_notify = (\<lambda>f p d w. Some w), app_launch = (\<lambda>f ms w. Some w)\<rparr>"

lemma unlinked_heads: "dlist \<lparr>lnext = id, lprev = id\<rparr> (list_head_of M) []"
  by (simp add: dlist_def NULL_addr_def)

lemma sample_segs:
  "s_context (bw_segs sample_world ms) = (if ms = 10 then 1 else if ms = 20 then 2 else if ms = 30 then 3 else 0)"
  "handler_array (bw_segs sample_world ms) = (if ms = 10 then bus_handlers
     else if ms = 20 \<or> ms = 30 then default_handlers else (\<lambda>_. Null_handler))"
  by (simp_all add: sample_world_def sample_segment_def)

lemma sample_queue: "queue_wf (task_queue sample_world t)" "queue_contents (task_queue sample_world t) = []"
  by (simp_all add: sample_world_def queue_wf_def queue_contents_def)

lemma sample_has: "t \<noteq> 0 \<Longrightarrow> task_has sample_world t []"
  using sample_queue [of t] by (simp add: task_has_def sem_value_def) (simp add: sample_world_def sample_task_def)

lemma sample_app_ok: "app_ok sample_app"
proof -
  have e: "\<exists>u. w = w\<lparr>bw_user := u\<rparr>" for w :: "nat bus_world" by (rule exI [of _ "bw_user w"]) simp
  have "notify_ok (app_notify sample_app)" unfolding notify_ok_def
  proof (intro allI impI)
    fix f p d w w' assume "app_notify sample_app f p d w = Some w'"
    then have "w' = w" by (simp add: sample_app_def)
    then show "\<exists>u. w' = w\<lparr>bw_user := u\<rparr>" using e by blast
  qed
  moreover have "\<exists>u. w' = w\<lparr>bw_user := u\<rparr>" if "app_signal sample_app f ms p w = Some (r, w')" for f ms p w r w'
    using that by (intro exI [of _ "Suc (bw_user w)"]) (simp add: sample_app_def)
  moreover have "\<exists>u. w' = w\<lparr>bw_user := u\<rparr>" if "app_service sample_app f args w = Some (r, w')" for f args w r w'
    using that by (intro exI [of _ "Suc (bw_user w)"]) (simp add: sample_app_def)
  ultimately show ?thesis unfolding app_ok_def by blast
qed

lemma sample_start: "bus_start {1, 2, 3} 10 sample_world"
proof -
  have "config_ok {1, 2, 3} 10 sample_world" unfolding config_ok_def
  proof (intro conjI allI ballI impI)
    show "inj_on (\<lambda>t. t_mq (bw_tasks sample_world t)) {1, 2, 3}"
      by (simp add: inj_on_def sample_world_def sample_task_def)
    show "bw_node_ms sample_world M \<noteq> 10" if "0 < M" for M using that by (simp add: sample_world_def)
    show "t \<in> insert 0 {1, 2, 3}" if "bw_ipc sample_world = Some t" for t using that by (simp add: sample_world_def)
  qed (use sample_queue in \<open>simp_all add: sample_segs default_handlers_def\<close>)
  moreover have "pool_holds (bw_msgs sample_world) (map msg_addr [0..<32])"
    using fresh_messages_hold by (simp add: sample_world_def)
  moreover have "bw_call_links sample_world = \<lparr>lnext = id, lprev = id\<rparr>" by (simp add: sample_world_def)
  ultimately show ?thesis using sample_queue unlinked_heads unfolding bus_start_def by metis
qed

section \<open>The properties\<close>

text \<open>C4 (message\_safety): from a started system, where the clients subscribe, signal and call in any order
  (calls are for the segments with numbers from 1 to 4095: a call to the bus itself, number 0, is posted to the
  bus again with one more reference at every turn and is not covered), where the functions that the framework
  calls change only the state of the applications, and however the tasks' turns are interleaved, every message in a
  task's queue and every message of a pending call is held: it is an object of the pool that is not on the
  free list, so it cannot be handed out again while it is referred to; and where a message is referred to more
  than once its reference count covers the references.\<close>

theorem message_safety:
  assumes "bus_start T sb w0" and "app_ok A" and "(bus_step A fuel T)\<^sup>*\<^sup>* w0 w"
  shows "\<exists>cs free. pool_holds (bw_msgs w) free \<and>
    (\<forall>M<SEGMENT_MAJOR_MAX. dlist (bw_call_links w) (list_head_of M) (map list_node_of (cs M))) \<and>
    (\<forall>t\<in>T. \<forall>m\<in>set (queue_contents (task_queue w t)). m \<in> msg_objs \<and> m \<notin> set free) \<and>
    (\<forall>M<SEGMENT_MAJOR_MAX. \<forall>c\<in>set (cs M). pc_msg (bw_calls w c) \<in> msg_objs \<and> pc_msg (bw_calls w c) \<notin> set free) \<and>
    (\<forall>m. count (queued T w + pending cs w) m \<le> max 1 (unat (m_ref (msg_at w m))))"
proof -
  obtain cs where inv: "bus_inv T sb cs {#} w" using reachable_inv [OF assms(3,1,2)] by blast
  then have T: "finite T" by (simp add: bus_inv_def config_ok_def)
  obtain free where f: "pool_holds (bw_msgs w) free" "\<forall>m\<in>#queued T w + pending cs w. m \<in> msg_objs \<and> m \<notin> set free \<and>
      count (queued T w + pending cs w) m \<le> max 1 (unat (m_ref (msg_at w m)))"
    using inv unfolding bus_inv_def backed_def by auto
  have q: "m \<in># queued T w + pending cs w" if "t \<in> T" "m \<in> set (queue_contents (task_queue w t))" for t m
    using that in_queued [OF T] by auto
  have p: "pc_msg (bw_calls w c) \<in># queued T w + pending cs w" if "M < SEGMENT_MAJOR_MAX" "c \<in> set (cs M)" for M c
    using that by (auto simp: pending_def set_mset_sum)
  have c: "count (queued T w + pending cs w) m \<le> max 1 (unat (m_ref (msg_at w m)))" for m
    using f(2) by (cases "m \<in># queued T w + pending cs w") (auto simp: not_in_iff)
  have "\<forall>M<SEGMENT_MAJOR_MAX. dlist (bw_call_links w) (list_head_of M) (map list_node_of (cs M))"
    using inv by (simp add: bus_inv_def calls_ok_def)
  then show ?thesis using f q p c by blast
qed

text \<open>Why calls to the bus are left out: the handler of the bus posts an asynchronous call to segment 0 to its own
  task again, with one more reference. Nothing ever releases the message.\<close>

lemma bus_calls_itself:
  assumes "task_has w tb xs" and "int (length xs) < qcapacity (task_queue w tb)" and "bw_node_ms w 0 = sb" and "sb \<noteq> 0"
    and "s_context (bw_segs w sb) = tb" and "unat (GET_TYPE (m_code (msg_at w m))) = type_value ASYNC_CALL"
    and "GET_MAJOR (m_code (msg_at w m)) = 0" and "m_ref (msg_at w m) \<noteq> 0"
  shows "\<exists>w'. bus_call m 0 w = Some (MBLUE_OK, w') \<and> queue_contents (task_queue w' tb) = xs @ [m] \<and>
    m_ref (msg_at w' m) = m_ref (msg_at w m) + 1 \<and> m_code (msg_at w' m) = m_code (msg_at w m)"
proof -
  define w1 where "w1 = upd_msg m (m_dst_update (\<lambda>_. sb)) (world_get m w)"
  have f: "bw_tasks w1 = bw_tasks w" "bw_queues w1 = bw_queues w" "m_code (msg_at w1 m) = m_code (msg_at w m)"
    "m_ref (msg_at w1 m) = m_ref (msg_at w m) + 1"
    using assms(8) by (simp_all add: w1_def world_get_def get_mblue_message_def set_ref_def upd_msg_def Let_def)
  have t: "task_has w1 tb xs" "int (length xs) < qcapacity (task_queue w1 tb)"
    using assms(1,2) by (simp_all add: task_has_def f)
  obtain q sem where n: "call_nproc tb m w1 = Some (MBLUE_OK, upd_task tb (msg_sem_update (\<lambda>_. sem))
       (w1\<lparr>bw_queues := (bw_queues w1)(t_mq (bw_tasks w1 tb) := q)\<rparr>))" "queue_contents q = xs @ [m]"
    by (rule call_nproc_room [OF t])
  have "nproc (bw_tasks w tb) = Template_fn" "tb \<noteq> 0" using assms(1) by (simp_all add: task_has_def)
  then have "bus_call m 0 w = Some (MBLUE_OK, upd_task tb (msg_sem_update (\<lambda>_. sem))
       (w1\<lparr>bw_queues := (bw_queues w1)(t_mq (bw_tasks w1 tb) := q)\<rparr>))"
    using assms(3-7) n(1) unfolding w1_def
    by (simp add: bus_call_def Let_def mblue_segment_get_context_def bus_call_deliver_def SEGMENT_MAJOR_MAX_def)
  then show ?thesis using n(2) f by (simp add: upd_task_def)
qed

lemma sample_payload_length: "length sample_payload \<le> 16"
  by (simp add: sample_payload_def call_bytes_def layout_bytes_def encoding_def message_bytes_def message_items_def
      header_values_def item_tag_def tag_bytes_def key_bytes_def str_bytes_def int_bytes_def field_tables layout_defs type_parts
      tag_value_def varint_short field_wt_def wire_type_of_def pb_wts)

lemma sample_upt: "[0..<32] = 0 # 1 # [2..<32]"
  by code_simp

lemma sample_call_state: "call_state 3 1 10 2 20 2 [] [] 0 (msg_addr 0 # msg_addr 1 # map msg_addr [2..<32]) [] sample_world"
proof -
  have "call_config 3 1 10 2 20 2 sample_world"
    by (simp add: call_config_def sample_segs default_handlers_def)
      (simp add: sample_world_def sample_task_def sample_segment_def list_ops_defs SEGMENT_MAJOR_MAX_def)
  moreover have "sem_value (call_sem (bw_tasks sample_world 3)) 0"
    by (simp add: sem_value_def sample_world_def sample_task_def)
  moreover have "heap_wf (bw_heap sample_world)" using sample_payload_length by (simp add: heap_wf_def sample_world_def)
  moreover have "pool_holds (bw_msgs sample_world) (msg_addr 0 # msg_addr 1 # map msg_addr [2..<32])"
    using fresh_messages_hold unfolding sample_upt list.map by (simp add: sample_world_def)
  moreover have "bw_call_links sample_world = \<lparr>lnext = id, lprev = id\<rparr>" by (simp add: sample_world_def)
  ultimately show ?thesis using sample_has unlinked_heads by (simp add: call_state_def)
qed

lemma sample_call_facts:
  "get_current_context 103 sample_world = 3" "\<not> hfail (bw_heap sample_world) (hcalls (bw_heap sample_world))"
  "service_answers sample_app 20 7 16 (MAKE_INTEGER 1) 1 sample_world"
proof -
  show "get_current_context 103 sample_world = 3"
    by (simp add: get_current_context_def sample_world_def sample_task_def MBLUE_MAX_TASKS_IN_SYSTEM_def upt_conv_Cons)
  show "\<not> hfail (bw_heap sample_world) (hcalls (bw_heap sample_world))" by (simp add: sample_world_def fresh_heap_def)
  have "items_lookup 20 2 7 sample_world = Some (Some 5)"
    by (simp add: items_lookup_def sample_world_def sample_segment_def END_ITEM_ID_def)
  moreover have "receive_payload sample_app 16 sample_payload 5 v = Some (Some (MAKE_INTEGER 1, v\<lparr>bw_user := 1\<rparr>))"
    if "bw_user v = 0" for v
    using receive_call_ok [OF layout_entry.simps(1), where vs = "[]" and meth = "[109, 49]" and frame = "(2000, 3000)"
        and pad = "[]" and f = "app_service sample_app 5" and w = v and hdr = 1000 and buf = 0 and addr = 16 and m = "\<lambda>_. 0"] that
    by (simp add: receive_payload_def sample_payload_def layout_carries_def frame_ok_def call_args_def)
      (simp add: sample_app_def)
  moreover have "hblocks (bw_heap sample_world) 16 = Some sample_payload" "bw_user sample_world = 0" "PB_PAYLOAD 16"
    by (simp_all add: sample_world_def PB_PAYLOAD_def)
  ultimately show "service_answers sample_app 20 7 16 (MAKE_INTEGER 1) 1 sample_world"
    by (simp add: service_answers_def)
qed

theorem message_safety_witness:
  "\<exists>w cs free. (bus_step sample_app 4 {1, 2, 3})\<^sup>*\<^sup>* sample_world w \<and> mblue_remote_call_result 5 w = MAKE_INTEGER 1 \<and>
    pool_holds (bw_msgs w) free \<and>
    (\<forall>M<SEGMENT_MAJOR_MAX. dlist (bw_call_links w) (list_head_of M) (map list_node_of (cs M))) \<and>
    (\<forall>t\<in>{1, 2, 3}. \<forall>m\<in>set (queue_contents (task_queue w t)). m \<in> msg_objs \<and> m \<notin> set free) \<and>
    (\<forall>M<SEGMENT_MAJOR_MAX. \<forall>c\<in>set (cs M). pc_msg (bw_calls w c) \<in> msg_objs \<and> pc_msg (bw_calls w c) \<notin> set free) \<and>
    (\<forall>m. count (queued {1, 2, 3} w + pending cs w) m \<le> max 1 (unat (m_ref (msg_at w m))))"
proof -
  have M: "unat (2 :: u16) = 2" by simp
  obtain w1 w2 w3 w4 w5 where r: "mblue_remote_call 4 103 5 2 7 16 sample_world = Some (Posted (msg_addr 0), w1)"
    "template_proc_turn 4 sample_app False 1 w1 = Some (Returns w2)" "template_proc_turn 4 sample_app False 2 w2 = Some (Returns w3)"
    "template_proc_turn 4 sample_app False 1 w3 = Some (Returns w4)" "ipc_invoke_wait False 3 w4 = Some (Returns (MBLUE_OK, w5))"
    "mblue_remote_call_result 5 w5 = MAKE_INTEGER 1"
    using remote_call_returns [OF sample_call_state M _ sample_call_facts, of 5 3 False] by auto
  let ?S = "bus_step sample_app 4 {1, 2, 3}"
  have "?S sample_world w1" by (rule Step_call [OF r(1)]) simp_all
  moreover have "?S w1 w2" by (rule Step_turn [OF r(2)]) simp
  moreover have "?S w2 w3" by (rule Step_turn [OF r(3)]) simp
  moreover have "?S w3 w4" by (rule Step_turn [OF r(4)]) simp
  moreover have "?S w4 w5" by (rule Step_wake [OF r(5)])
  ultimately have "?S\<^sup>*\<^sup>* sample_world w5" by (meson rtranclp.rtrancl_into_rtrancl rtranclp.rtrancl_refl)
  with message_safety [OF sample_start sample_app_ok this] r(6) show ?thesis by blast
qed

text \<open>C1 (remote\_call\_round\_trip): a synchronous call to a bound segment. The caller posts the message
  and is blocked; the bus's turn passes the message on, the segment's turn runs its function and posts
  the answer, the bus's next turn stores the answer and wakes the caller; the caller is blocked until
  then and the call gives the function's answer. Afterwards the queues and the list of pending calls are
  empty again, both messages are back in the pool, and on the heap only the payload is gone, which was released.\<close>

theorem remote_call_round_trip:
  assumes "call_state tc tb sb ts ss M [] [] 0 (m # r # free) [] w" and "unat major = M" and "out \<noteq> 0"
    and "get_current_context self w = tc" and "\<not> hfail (bw_heap w) (hcalls (bw_heap w))"
    and "service_answers A ss minor payload ret u w"
  shows "\<exists>w1 w2 w3 w4 w5. mblue_remote_call (Suc fuel) self out major minor payload w = Some (Posted m, w1) \<and>
      ipc_invoke_check m w1 = Waits tc \<and> ipc_invoke_wait False tc w1 = Some Blocked \<and>
      template_proc_turn (Suc fuel) A i tb w1 = Some (Returns w2) \<and> ipc_invoke_wait False tc w2 = Some Blocked \<and>
      template_proc_turn (Suc fuel) A i ts w2 = Some (Returns w3) \<and> ipc_invoke_wait False tc w3 = Some Blocked \<and>
      template_proc_turn (Suc fuel) A i tb w3 = Some (Returns w4) \<and>
      ipc_invoke_wait i tc w4 = Some (Returns (MBLUE_OK, w5)) \<and> mblue_remote_call_result out w5 = ret \<and>
      call_state tc tb sb ts ss M [] [] 0 (free @ [m, r]) [] w5 \<and>
      hblocks (bw_heap w5) = (hblocks (bw_heap w))(unat payload := None) \<and> bw_user w5 = u"
  by (rule remote_call_returns [OF assms])

theorem remote_call_round_trip_witness:
  "\<exists>w1 w2 w3 w4 w5. mblue_remote_call (Suc 3) 103 5 2 7 16 sample_world = Some (Posted (msg_addr 0), w1) \<and>
      ipc_invoke_check (msg_addr 0) w1 = Waits 3 \<and> ipc_invoke_wait False 3 w1 = Some Blocked \<and>
      template_proc_turn (Suc 3) sample_app False 1 w1 = Some (Returns w2) \<and> ipc_invoke_wait False 3 w2 = Some Blocked \<and>
      template_proc_turn (Suc 3) sample_app False 2 w2 = Some (Returns w3) \<and> ipc_invoke_wait False 3 w3 = Some Blocked \<and>
      template_proc_turn (Suc 3) sample_app False 1 w3 = Some (Returns w4) \<and>
      ipc_invoke_wait False 3 w4 = Some (Returns (MBLUE_OK, w5)) \<and> mblue_remote_call_result 5 w5 = MAKE_INTEGER 1 \<and>
      call_state 3 1 10 2 20 2 [] [] 0 (map msg_addr [2..<32] @ [msg_addr 0, msg_addr 1]) [] w5 \<and>
      hblocks (bw_heap w5) = (hblocks (bw_heap sample_world))(unat (16 :: u32) := None) \<and> bw_user w5 = 1"
  by (rule remote_call_round_trip [OF sample_call_state _ _ sample_call_facts]) simp_all

text \<open>C8 (async\_call\_round\_trip): an asynchronous call to a bound segment. The caller posts the message and
  goes on at once; the bus's turn passes the message on, the segment's turn runs its function and posts the
  answer, the bus's next turn calls the caller's notifier with the answer and the caller's data. Afterwards
  the queues and the list of pending calls are empty again, both messages are back in the pool, the notifier
  and the pending call have been released, and on the heap only the payload is gone, which was released.\<close>

theorem async_call_round_trip:
  assumes "call_state tc tb sb ts ss M [] [] n (m # r # free) [] w" and "unat major = M"
    and "get_current_context self w = tc" and "\<not> hfail (bw_heap w) (hcalls (bw_heap w))"
    and "\<not> hfail (bw_heap w) (Suc (hcalls (bw_heap w)))"
    and "service_answers A ss minor payload ret u w" and "notify_answers (app_notify A) k ret d u u'"
  shows "\<exists>w1 w2 w3 w4. mblue_remote_call_async (Suc fuel) self major minor payload k d w = Some (Posted m, w1) \<and>
      ipc_invoke_check m w1 = Sent MBLUE_OK \<and>
      template_proc_turn (Suc fuel) A i tb w1 = Some (Returns w2) \<and>
      template_proc_turn (Suc fuel) A i ts w2 = Some (Returns w3) \<and>
      template_proc_turn (Suc fuel) A i tb w3 = Some (Returns w4) \<and>
      call_state tc tb sb ts ss M [] [] n (free @ [m, r]) [] w4 \<and>
      hblocks (bw_heap w4) = (hblocks (bw_heap w))(unat payload := None) \<and> bw_user w4 = u'"
  by (rule remote_call_async_returns [OF assms])

text \<open>The notifier of the sample system does nothing.\<close>

theorem async_call_round_trip_witness:
  "\<exists>w1 w2 w3 w4. mblue_remote_call_async (Suc 3) 103 2 7 16 4 9 sample_world = Some (Posted (msg_addr 0), w1) \<and>
      ipc_invoke_check (msg_addr 0) w1 = Sent MBLUE_OK \<and>
      template_proc_turn (Suc 3) sample_app False 1 w1 = Some (Returns w2) \<and>
      template_proc_turn (Suc 3) sample_app False 2 w2 = Some (Returns w3) \<and>
      template_proc_turn (Suc 3) sample_app False 1 w3 = Some (Returns w4) \<and>
      call_state 3 1 10 2 20 2 [] [] 0 (map msg_addr [2..<32] @ [msg_addr 0, msg_addr 1]) [] w4 \<and>
      hblocks (bw_heap w4) = (hblocks (bw_heap sample_world))(unat (16 :: u32) := None) \<and> bw_user w4 = 1"
proof -
  have "notify_answers (app_notify sample_app) 4 (MAKE_INTEGER 1) 9 1 1"
    by (auto simp: notify_answers_def sample_app_def)
  then show ?thesis
    by (intro async_call_round_trip [OF sample_call_state _ sample_call_facts(1,2) _ sample_call_facts(3)])
      (simp_all add: sample_world_def fresh_heap_def)
qed

text \<open>C13 (signal\_delivery): publishing a signal with enough free messages and room in the queues. Every
  subscriber of the segment, in the order of the subscriptions, gets a copy of the message addressed to it
  at the end of its task's queue; nothing else changes in the queues; the original goes back to the pool.\<close>

theorem signal_delivery:
  assumes "unat (GET_MAJOR (m_code (msg_at w m))) = M" "M < SEGMENT_MAJOR_MAX"
    and "dlist (bw_pub_links w) (list_head_of M) (map list_node_of subs)" and "subs \<noteq> []"
    and "subscribers_ok T subs w" "tasks_have T f w" "length rs = length subs" "length subs < fuel"
    and "pool_holds (bw_msgs w) (rs @ free)" and "m \<in> msg_objs" "m \<notin> set (rs @ free)" "m_ref (msg_at w m) = 0"
    and "\<And>t. t \<in> T \<Longrightarrow> room t (length (copies_for w rs (map (bw_subs w) subs) t)) w"
  shows "\<exists>w'. bus_signal fuel m w = Some (MBLUE_OK, w') \<and>
    tasks_have T (\<lambda>t. f t @ copies_for w rs (map (bw_subs w) subs) t) w' \<and> pool_holds (bw_msgs w') (free @ [m]) \<and>
    (\<forall>i<length subs. msg_at w' (rs ! i) = replica_of (msg_at w m) (bw_subs w (subs ! i))) \<and>
    bw_heap w' = bw_heap w \<and> bw_segs w' = bw_segs w"
  by (rule bus_signal_delivers [OF assms])

text \<open>The sample system with two subscribers of segment 2 and a signal of that segment with the payload at 16.\<close>

definition signal_world :: "nat bus_world" where
  "signal_world = sample_world\<lparr>
     bw_heap := (bw_heap sample_world)\<lparr>hblocks := (hblocks (bw_heap sample_world))(32 \<mapsto> replicate 12 0, 48 \<mapsto> replicate 12 0), hnext := 3\<rparr>,
     bw_subs := (\<lambda>_. 0)(32 := 20, 48 := 30),
     bw_pub_links := list_add_tail (list_node_of 48) (list_head_of 2)
       (list_add_tail (list_node_of 32) (list_head_of 2) \<lparr>lnext = id, lprev = id\<rparr>),
     bw_msgs := (snd (mblue_message_alloc fresh_messages))\<lparr>ms_pool :=
       (ms_pool fresh_messages)(msg_addr 0 := zero_message\<lparr>m_code := 0x10020007, smart_payload := 16\<rparr>)\<rparr>\<rparr>"

lemma signal_world_message: "msg_at signal_world (msg_addr 0) = zero_message\<lparr>m_code := 0x10020007, smart_payload := 16\<rparr>"
  by (simp add: signal_world_def)

lemma signal_world_messages: "bw_msgs signal_world = (snd (mblue_message_alloc fresh_messages))\<lparr>ms_pool :=
    (ms_pool fresh_messages)(msg_addr 0 := zero_message\<lparr>m_code := 0x10020007, smart_payload := 16\<rparr>)\<rparr>"
  by (simp add: signal_world_def)

lemma pool_holds_pool: "pool_holds (s\<lparr>ms_pool := p\<rparr>) free \<longleftrightarrow> pool_holds s free"
  by (simp add: pool_holds_def)

lemma signal_world_facts:
  "unat (GET_MAJOR (m_code (msg_at signal_world (msg_addr 0)))) = 2"
  "dlist (bw_pub_links signal_world) (list_head_of 2) (map list_node_of [32, 48])"
  "subscribers_ok {2, 3} [32, 48] signal_world" "tasks_have {2, 3} (\<lambda>_. []) signal_world"
  "pool_holds (bw_msgs signal_world) ([msg_addr 1, msg_addr 2] @ map msg_addr [3..<32])"
  "m_ref (msg_at signal_world (msg_addr 0)) = 0"
  "msg_addr 0 \<in> msg_objs" "msg_addr 0 \<notin> set ([msg_addr 1, msg_addr 2] @ map msg_addr [3..<32])"
  "t \<in> {2, 3} \<Longrightarrow> room t (length (copies_for signal_world [msg_addr 1, msg_addr 2] (map (bw_subs signal_world) [32, 48]) t)) signal_world"
proof -
  show "unat (GET_MAJOR (m_code (msg_at signal_world (msg_addr 0)))) = 2"
    by (simp add: signal_world_message GET_MAJOR_def MAJOR_OFFSET_def)
  have d: "dlist (list_add_tail (list_node_of 32) (list_head_of 2) \<lparr>lnext = id, lprev = id\<rparr>) (list_head_of 2) ([] @ [list_node_of 32])"
    by (rule dlist_list_add_tail [OF unlinked_heads]) (simp_all add: NULL_addr_def)
  have "dlist (list_add_tail (list_node_of 48) (list_head_of 2) (list_add_tail (list_node_of 32) (list_head_of 2)
      \<lparr>lnext = id, lprev = id\<rparr>)) (list_head_of 2) (([] @ [list_node_of 32]) @ [list_node_of 48])"
    by (rule dlist_list_add_tail [OF d]) (simp_all add: NULL_addr_def)
  then show "dlist (bw_pub_links signal_world) (list_head_of 2) (map list_node_of [32, 48])"
    by (simp add: signal_world_def)
  show "subscribers_ok {2, 3} [32, 48] signal_world"
    by (simp add: subscribers_ok_def signal_world_def) (simp add: sample_segs)
  have "task_has signal_world t []" if "t \<noteq> 0" for t
    using sample_has [OF that] by (simp add: task_has_def signal_world_def)
  then show "tasks_have {2, 3} (\<lambda>_. []) signal_world"
    by (simp add: tasks_have_def) (simp add: signal_world_def sample_world_def sample_task_def)
  have "pool_holds fresh_messages (msg_addr 0 # msg_addr 1 # map msg_addr [2..<32])"
    using fresh_messages_hold unfolding sample_upt list.map .
  moreover have "[2..<32] = 2 # [3..<32]" by code_simp
  ultimately have p: "pool_holds fresh_messages (msg_addr 0 # [msg_addr 1, msg_addr 2] @ map msg_addr [3..<32])" by simp
  have "pool_holds (snd (mblue_message_alloc fresh_messages)) ([msg_addr 1, msg_addr 2] @ map msg_addr [3..<32])"
    using alloc_first [OF p] by auto
  then show "pool_holds (bw_msgs signal_world) ([msg_addr 1, msg_addr 2] @ map msg_addr [3..<32])"
    unfolding signal_world_messages pool_holds_pool .
  show "m_ref (msg_at signal_world (msg_addr 0)) = 0" by (simp add: signal_world_message zero_message_def)
  show "msg_addr 0 \<in> msg_objs" "msg_addr 0 \<notin> set ([msg_addr 1, msg_addr 2] @ map msg_addr [3..<32])"
    using mpool.holds_objs [OF p] by auto
  show "room t (length (copies_for signal_world [msg_addr 1, msg_addr 2] (map (bw_subs signal_world) [32, 48]) t)) signal_world"
    if "t \<in> {2, 3}" using that sample_queue [of t]
    by (auto simp: room_def copies_for_def signal_world_def) (auto simp: sample_world_def)
qed

theorem signal_delivery_witness:
  "\<exists>w'. bus_signal 3 (msg_addr 0) signal_world = Some (MBLUE_OK, w') \<and>
    tasks_have {2, 3} (\<lambda>t. [] @ copies_for signal_world [msg_addr 1, msg_addr 2] (map (bw_subs signal_world) [32, 48]) t) w' \<and>
    pool_holds (bw_msgs w') (map msg_addr [3..<32] @ [msg_addr 0]) \<and>
    (\<forall>i<length [32 :: nat, 48]. msg_at w' ([msg_addr 1, msg_addr 2] ! i) =
       replica_of (msg_at signal_world (msg_addr 0)) (bw_subs signal_world ([32, 48] ! i))) \<and>
    bw_heap w' = bw_heap signal_world \<and> bw_segs w' = bw_segs signal_world"
  by (rule signal_delivery [OF signal_world_facts(1) _ signal_world_facts(2) _ signal_world_facts(3,4) _ _
        signal_world_facts(5,7,8,6) signal_world_facts(9)]) (simp_all add: SEGMENT_MAJOR_MAX_def)

text \<open>C14 (signal\_double\_free): a signal whose payload is a block on the heap, with two subscribers and
  applications that leave the heap alone. The copies share the payload: once the default handler of the
  first subscriber has run to its end, the default handler of the second releases the same block again,
  which is a memory error.\<close>

theorem signal_double_free:
  assumes "unat (GET_MAJOR (m_code (msg_at w m))) = M" "M < SEGMENT_MAJOR_MAX"
    and "dlist (bw_pub_links w) (list_head_of M) (map list_node_of [s1, s2])"
    and "subscribers_ok T [s1, s2] w" "tasks_have T f w" "2 < fuel"
    and "pool_holds (bw_msgs w) ([r1, r2] @ free)" and "m \<in> msg_objs" "m \<notin> set ([r1, r2] @ free)" "m_ref (msg_at w m) = 0"
    and "\<And>t. t \<in> T \<Longrightarrow> room t (length (copies_for w [r1, r2] (map (bw_subs w) [s1, s2]) t)) w"
    and "app_ok A" and "PB_PAYLOAD (smart_payload (msg_at w m))"
    and "\<And>f ms p v. app_signal A f ms p v \<noteq> None"
    and "items_lookup (bw_subs w s1) (type_value SIGNAL) (GET_MINOR (m_code (msg_at w m))) w = Some (Some h)" "h \<noteq> 0"
    and "hblocks (bw_heap w) (unat (smart_payload (msg_at w m))) \<noteq> None"
  shows "\<exists>w1 rc w2. bus_signal fuel m w = Some (MBLUE_OK, w1) \<and>
    default_signal_handler A 0 (bw_subs w s1) r1 w1 = Some (rc, w2) \<and>
    default_signal_handler A 0 (bw_subs w s2) r2 w2 = None"
proof -
  obtain w1 where w1: "bus_signal fuel m w = Some (MBLUE_OK, w1)"
    "\<forall>i<2. msg_at w1 ([r1, r2] ! i) = replica_of (msg_at w m) (bw_subs w ([s1, s2] ! i))"
    "bw_heap w1 = bw_heap w" "bw_segs w1 = bw_segs w"
    using bus_signal_delivers [OF assms(1-3) _ assms(4,5) _ _ assms(7-11), of fuel] assms(6) by (auto simp: numeral_2_eq_2)
  have sh: "smart_payload (msg_at w1 r1) = smart_payload (msg_at w m)" "smart_payload (msg_at w1 r2) = smart_payload (msg_at w m)"
    "m_code (msg_at w1 r1) = m_code (msg_at w m)"
    using w1(2) [rule_format, of 0] w1(2) [rule_format, of 1] by (simp_all add: replica_of_def)
  have A: "\<exists>u. v' = v\<lparr>bw_user := u\<rparr>" if "app_signal A f ms p v = Some (k, v')" for f ms p v k v'
    using assms(12) that unfolding app_ok_def by blast
  define v where "v = link_msg (bw_subs w s1) r1 w1"
  obtain k v' where s: "app_signal A h (bw_subs w s1) (smart_payload (msg_at w m)) v = Some (k, v')"
    using assms(14) [of h "bw_subs w s1" "smart_payload (msg_at w m)" v] by auto
  have v: "items_lookup (bw_subs w s1) (type_value SIGNAL) (GET_MINOR (m_code (msg_at w m))) v = Some (Some h)"
    using assms(15) w1(4) by (auto simp: v_def link_msg_def upd_seg_def items_lookup_def)
  have "bw_heap v' = bw_heap w" "bw_msgs v' = bw_msgs w1" using A [OF s] w1(3) by (auto simp: v_def link_msg_def upd_seg_def)
  then obtain w2 where f: "free_payload r1 v' = Some w2"
    using assms(13,17) sh by (auto simp: free_payload_def world_free_def mblue_free_def heap_free_def ifree_def Let_def)
  have h1: "default_signal_handler A 0 (bw_subs w s1) r1 w1 = Some (k, world_release r1 w2)"
    using s v f sh assms(16) by (simp add: default_signal_handler_def v_def [symmetric] Let_def) (simp add: v_def link_msg_def upd_seg_def sh)
  moreover have "default_signal_handler A 0 (bw_subs w s2) r2 (world_release r1 w2) = None"
    by (rule signal_handler_twice [OF h1]) (use assms(13) sh A in auto)
  ultimately show ?thesis using w1(1) by blast
qed

theorem signal_double_free_witness:
  "\<exists>w1 rc w2. bus_signal 3 (msg_addr 0) signal_world = Some (MBLUE_OK, w1) \<and>
    default_signal_handler sample_app 0 (bw_subs signal_world 32) (msg_addr 1) w1 = Some (rc, w2) \<and>
    default_signal_handler sample_app 0 (bw_subs signal_world 48) (msg_addr 2) w2 = None"
proof (rule signal_double_free [OF signal_world_facts(1) _ signal_world_facts(2,3,4) _
        signal_world_facts(5,7,8,6) signal_world_facts(9) sample_app_ok])
  show "PB_PAYLOAD (smart_payload (msg_at signal_world (msg_addr 0)))"
    by (simp add: signal_world_message PB_PAYLOAD_def)
  show "hblocks (bw_heap signal_world) (unat (smart_payload (msg_at signal_world (msg_addr 0)))) \<noteq> None"
    by (simp add: signal_world_message) (simp add: signal_world_def sample_world_def)
  show "items_lookup (bw_subs signal_world 32) (type_value SIGNAL) (GET_MINOR (m_code (msg_at signal_world (msg_addr 0))))
      signal_world = Some (Some 5)"
    by (simp add: signal_world_message items_lookup_def GET_MINOR_def)
      (simp add: signal_world_def sample_world_def sample_segment_def END_ITEM_ID_def)
qed (simp_all add: SEGMENT_MAJOR_MAX_def sample_app_def)

end
