(* ===== verification/Calendar.thy ===== *)
theory Calendar
  imports Mblue_Prelude
begin

text \<open>
  The clock of \<^verbatim>\<open>pal/clock/custom_clock.h\<close> and \<^verbatim>\<open>pal/clock/mblue_clock.c\<close>: the conversion of seconds since
  1970 into a date, and the clock object over the platform's \<^verbatim>\<open>time\<close> and \<^verbatim>\<open>localtime\<close>, whose results are
  arguments. The search for the year is a loop that need not end, hence an option: \<open>None\<close> is a loop that
  runs forever.
\<close>

section \<open>Seconds to dates\<close>

record mblue_clock_entity =
  cal_year :: u16
  cal_month :: u8
  cal_day :: u8
  cal_hour :: u8
  cal_minute :: u8
  cal_second :: u8
  cal_time_zone :: u8

definition YEAR_TO_DAYS :: "u32 \<Rightarrow> u32" where
  "YEAR_TO_DAYS y = y * 365 + y div 4 - y div 100 + y div 400"

definition leap_year :: "u32 \<Rightarrow> u8" where
  "leap_year y = (if (y mod 4 = 0 \<and> y mod 100 \<noteq> 0) \<or> y mod 400 = 0 then 1 else 0)"

definition passedDaysPerMonth :: "u32 list" where
  "passedDaysPerMonth = [0, 0, 31, 59, 90, 120, 151, 181, 212, 243, 273, 304, 334]"

partial_function (option) year_loop :: "u64 \<Rightarrow> u32 \<Rightarrow> u32 option" where
  "year_loop seconds year =
     (if seconds > ucast (YEAR_TO_DAYS (year + 1) + 30) then year_loop seconds (year + 1) else Some year)"

function month_loop :: "u64 \<Rightarrow> u32 \<Rightarrow> u32" where
  "month_loop seconds month =
     (if month < 12 \<and> seconds > ucast (367 * (month + 1) div 12) then month_loop seconds (month + 1) else month)"
  by auto
termination
  by (relation "measure (\<lambda>(s, m). 12 - unat m)") (auto simp: word_less_nat_alt unat_word_ariths)

declare month_loop.simps [simp del]

text \<open>The time zone is left alone.\<close>

definition convert_utc_to_calendar :: "u64 \<Rightarrow> mblue_clock_entity \<Rightarrow> (int \<times> mblue_clock_entity) option" where
  "convert_utc_to_calendar seconds cal = do {
     let second = (ucast (seconds mod 60) :: u32);
     let seconds = seconds div 60;
     let minute = (ucast (seconds mod 60) :: u32);
     let seconds = seconds div 60;
     let hour = (ucast (seconds mod 24) :: u32);
     let seconds = seconds div 24;
     let seconds = seconds + 719499;
     year \<leftarrow> year_loop seconds 1969;
     let seconds = seconds - ucast (YEAR_TO_DAYS year);
     let month = month_loop seconds 1;
     let seconds = seconds - ucast (367 * month div 12);
     let month = month + 2;
     let (month, year) = (if month > 12 then (month - 12, year + 1) else (month, year));
     let day = (ucast seconds :: u32);
     Some (0, cal\<lparr>cal_year := ucast year, cal_month := ucast month, cal_day := ucast day, cal_hour := ucast hour,
       cal_minute := ucast minute, cal_second := ucast second\<rparr>)
   }"

section \<open>The calendar\<close>

text \<open>The Gregorian calendar from its rules: leap years, the lengths of the months, and the days from
  1 January 1970 to a date.\<close>

definition leap :: "nat \<Rightarrow> bool" where
  "leap y \<longleftrightarrow> (y mod 4 = 0 \<and> y mod 100 \<noteq> 0) \<or> y mod 400 = 0"

definition year_length :: "nat \<Rightarrow> nat" where
  "year_length y = (if leap y then 366 else 365)"

definition month_length :: "nat \<Rightarrow> nat \<Rightarrow> nat" where
  "month_length y m = [31, if leap y then 29 else 28, 31, 30, 31, 30, 31, 31, 30, 31, 30, 31] ! (m - 1)"

definition day_number :: "nat \<Rightarrow> nat \<Rightarrow> nat \<Rightarrow> nat" where
  "day_number y m d = sum year_length {1970..<y} + sum_list (map (month_length y) [1..<m]) + (d - 1)"

definition valid_date :: "nat \<Rightarrow> nat \<Rightarrow> nat \<Rightarrow> bool" where
  "valid_date y m d \<longleftrightarrow> 1970 \<le> y \<and> 1 \<le> m \<and> m \<le> 12 \<and> 1 \<le> d \<and> d \<le> month_length y m"

text \<open>The days of the years up to a year, without wrap-around.\<close>

definition ytd :: "nat \<Rightarrow> nat" where
  "ytd y = 365 * y + y div 4 - y div 100 + y div 400"

lemma leap_days:
  fixes a b c y :: nat
  assumes "b \<le> a" and "p100 \<longrightarrow> p4" and "p400 \<longrightarrow> p100"
  shows "365 * Suc y + (a + of_bool p4) - (b + of_bool p100) + (c + of_bool p400) =
    365 * y + a - b + c + (if p4 \<and> \<not> p100 \<or> p400 then 366 else 365)"
  using assms by (cases p4; cases p100; cases p400) auto

lemma ytd_Suc: "ytd (Suc y) = ytd y + year_length (Suc y)"
proof -
  have d: "Suc y div k = y div k + of_bool (Suc y mod k = 0)" for k by (simp add: div_Suc)
  have "y div 100 \<le> y div 4" by (simp add: div_le_mono2)
  moreover have "Suc y mod 100 = 0 \<longrightarrow> Suc y mod 4 = 0" "Suc y mod 400 = 0 \<longrightarrow> Suc y mod 100 = 0" by presburger+
  ultimately show ?thesis unfolding ytd_def year_length_def leap_def d by (rule leap_days)
qed

lemma ytd_years: "1970 \<le> y \<Longrightarrow> sum year_length {1970..<y} + 719162 = ytd (y - 1)"
proof (induction y rule: dec_induct)
  case base
  show ?case by (simp add: ytd_def)
next
  case (step y)
  then show ?case using ytd_Suc [of "y - 1"] by simp
qed

lemma ytd_mono: "a \<le> b \<Longrightarrow> ytd a \<le> ytd b"
  by (induction b rule: dec_induct) (simp_all add: ytd_Suc)

lemma ytd_ge: "365 * y \<le> ytd y"
  by (induction y) (simp_all add: ytd_Suc year_length_def)

lemma ytd_le: "ytd y \<le> 366 * y"
  by (induction y) (simp_all add: ytd_Suc year_length_def, simp add: ytd_def)

lemma unat_YEAR_TO_DAYS: "unat y \<le> 2 ^ 23 \<Longrightarrow> unat (YEAR_TO_DAYS y) = ytd (unat y)"
proof -
  assume y: "unat y \<le> 2 ^ 23"
  have le: "unat y div 100 \<le> unat y div 4" by (simp add: div_le_mono2)
  have "unat (y * 365) = 365 * unat y" using y by (simp add: unat_word_ariths)
  then have a: "unat (y * 365 + y div 4) = 365 * unat y + unat y div 4"
    using y by (simp add: unat_word_ariths unat_div_distrib)
  then have b: "unat (y * 365 + y div 4 - y div 100) = 365 * unat y + unat y div 4 - unat y div 100"
    using le by (subst unat_sub) (simp_all add: word_le_nat_alt unat_div_distrib)
  then show ?thesis unfolding YEAR_TO_DAYS_def ytd_def
    using y by (subst unat_add_lem [THEN iffD1]) (simp_all add: unat_div_distrib)
qed

section \<open>The loops\<close>

lemma unat_year: "Y \<le> 2 ^ 23 \<Longrightarrow> unat (of_nat Y :: u32) = Y"
  by (simp add: unat_of_nat)

lemma year_condition:
  assumes "Y < 2 ^ 23"
  shows "(s :: u64) > ucast (YEAR_TO_DAYS (of_nat Y + 1) + 30) \<longleftrightarrow> ytd (Suc Y) + 30 < unat s"
proof -
  have y: "unat (of_nat (Suc Y) :: u32) = Suc Y" using assms by (intro unat_year) simp
  have d: "unat (YEAR_TO_DAYS (of_nat (Suc Y))) = ytd (Suc Y)" using assms y unat_YEAR_TO_DAYS [of "of_nat (Suc Y)"] by simp
  have b: "ytd (Suc Y) \<le> 366 * Suc Y" by (rule ytd_le)
  then have "unat (YEAR_TO_DAYS (of_nat (Suc Y)) + 30) = ytd (Suc Y) + 30"
    using assms d by (subst unat_add_lem [THEN iffD1]) simp_all
  then have "unat (ucast (YEAR_TO_DAYS (of_nat (Suc Y)) + 30) :: u64) = ytd (Suc Y) + 30"
    using assms b by (simp add: unsigned_ucast_eq take_bit_nat_eq_self_iff)
  then show ?thesis by (simp add: word_less_nat_alt add.commute)
qed

lemma year_loop_finds:
  assumes "y0 \<le> Y" and "Y < 2 ^ 23" and "\<And>k. y0 \<le> k \<Longrightarrow> k < Y \<Longrightarrow> ytd (Suc k) + 30 < unat s"
    and "unat s \<le> ytd (Suc Y) + 30"
  shows "year_loop s (of_nat y0) = Some (of_nat Y)"
  using assms(1,3)
proof (induction rule: inc_induct)
  case base
  show ?case using assms(4) year_condition [OF assms(2), of s] by (subst year_loop.simps) simp
next
  case (step n)
  then have "ytd (Suc n) + 30 < unat s" "n < 2 ^ 23" using assms(2) by simp_all
  then have "year_loop s (of_nat n) = year_loop s (of_nat n + 1)"
    using year_condition [of n s] by (subst year_loop.simps) simp
  also have "\<dots> = year_loop s (of_nat (Suc n))" by (simp add: add.commute)
  finally show ?case using step by simp
qed

lemma month_loop_step:
  "m < 12 \<Longrightarrow> t = ucast (367 * (m + 1) div 12) \<Longrightarrow> m' = m + 1 \<Longrightarrow>
   month_loop s m = (if s \<le> t then m else month_loop s m')"
  by (subst month_loop.simps) (auto simp: not_less)

lemma month_loop_finds:
  "month_loop s 1 = (if s \<le> 61 then 1 else if s \<le> 91 then 2 else if s \<le> 122 then 3 else if s \<le> 152 then 4
    else if s \<le> 183 then 5 else if s \<le> 214 then 6 else if s \<le> 244 then 7 else if s \<le> 275 then 8
    else if s \<le> 305 then 9 else if s \<le> 336 then 10 else if s \<le> 367 then 11 else 12)"
proof -
  have steps:
    "month_loop s 1 = (if s \<le> 61 then 1 else month_loop s 2)"
    "month_loop s 2 = (if s \<le> 91 then 2 else month_loop s 3)"
    "month_loop s 3 = (if s \<le> 122 then 3 else month_loop s 4)"
    "month_loop s 4 = (if s \<le> 152 then 4 else month_loop s 5)"
    "month_loop s 5 = (if s \<le> 183 then 5 else month_loop s 6)"
    "month_loop s 6 = (if s \<le> 214 then 6 else month_loop s 7)"
    "month_loop s 7 = (if s \<le> 244 then 7 else month_loop s 8)"
    "month_loop s 8 = (if s \<le> 275 then 8 else month_loop s 9)"
    "month_loop s 9 = (if s \<le> 305 then 9 else month_loop s 10)"
    "month_loop s 10 = (if s \<le> 336 then 10 else month_loop s 11)"
    "month_loop s 11 = (if s \<le> 367 then 11 else month_loop s 12)"
    by (rule month_loop_step; simp)+
  have "month_loop s 12 = 12" by (subst month_loop.simps) simp
  then show ?thesis unfolding steps by simp
qed

section \<open>The date\<close>

text \<open>The year of the loop: the days since the Common Era fall in the twelve months from March on.\<close>

lemma year_found:
  assumes "719192 < n" and "n < 2 ^ 30" and "unat s = n"
  obtains Y where "1969 \<le> Y" "ytd Y + 30 < n" "n \<le> ytd Y + year_length (Suc Y) + 30" "Y < 2 ^ 22"
    "year_loop s 1969 = Some (of_nat Y)"
proof -
  define Y where "Y = (LEAST y. n \<le> ytd (Suc y) + 30)"
  have "n \<le> ytd (Suc n) + 30" using ytd_ge [of "Suc n"] by simp
  then have Y: "n \<le> ytd (Suc Y) + 30" unfolding Y_def by (rule LeastI)
  have less: "ytd (Suc k) + 30 < n" if "k < Y" for k using not_less_Least [OF that [unfolded Y_def]] by simp
  have "1969 \<le> Y"
  proof (rule ccontr)
    assume "\<not> 1969 \<le> Y"
    then have "ytd (Suc Y) \<le> ytd 1969" by (intro ytd_mono) simp
    with Y assms(1) show False by (simp add: ytd_def)
  qed
  moreover have "ytd Y + 30 < n" using less [of "Y - 1"] \<open>1969 \<le> Y\<close> by simp
  moreover have "Y < 2 ^ 22" using ytd_ge [of Y] \<open>ytd Y + 30 < n\<close> assms(2) by simp
  moreover have "year_loop s (of_nat 1969) = Some (of_nat Y)"
    by (rule year_loop_finds) (use less Y assms(3) \<open>1969 \<le> Y\<close> \<open>Y < 2 ^ 22\<close> in simp_all)
  ultimately show thesis using that Y by (simp add: ytd_Suc)
qed

text \<open>The month and the day in it from the number of the day in the year that starts in March.\<close>

definition month_of :: "nat \<Rightarrow> nat" where
  "month_of r = (if r \<le> 61 then 1 else if r \<le> 91 then 2 else if r \<le> 122 then 3 else if r \<le> 152 then 4
    else if r \<le> 183 then 5 else if r \<le> 214 then 6 else if r \<le> 244 then 7 else if r \<le> 275 then 8
    else if r \<le> 305 then 9 else if r \<le> 336 then 10 else if r \<le> 367 then 11 else 12)"

lemma month_loop_month_of: "unat s = r \<Longrightarrow> month_loop s 1 = of_nat (month_of r)"
  by (simp add: month_loop_finds month_of_def word_le_nat_alt)

definition civil :: "nat \<Rightarrow> nat \<Rightarrow> nat \<times> nat \<times> nat" where
  "civil Y r = (let m = month_of r
    in if m \<le> 10 then (Y, m + 2, r - 367 * m div 12) else (Suc Y, m - 10, r - 367 * m div 12))"

lemma month_sums:
  "sum_list (map (month_length y) [1..<k]) = (if k \<le> 1 then 0 else [31, 59, 90, 120, 151, 181, 212, 243, 273, 304, 334] ! (k - 2) +
     of_bool (3 \<le> k \<and> leap y))" if "k \<le> 12"
proof -
  have "k \<in> {0, 1, 2, 3, 4, 5, 6, 7, 8, 9, 10, 11, 12}" using that by (simp, arith)
  then show ?thesis by (elim insertE emptyE) (simp_all add: month_length_def upt_conv_Cons numeral_eq_Suc)
qed

lemma spring_date:
  assumes "31 \<le> r" and "r \<le> 336" and "k = month_of r" and "d = r - 367 * k div 12"
  shows "k \<le> 10 \<and> 1 \<le> d \<and> d \<le> month_length Y (k + 2) \<and>
    sum_list (map (month_length Y) [1..<k + 2]) + d = r + 29 + of_bool (leap Y)"
proof -
  consider "30 < r" "r \<le> 61"
    | "61 < r" "r \<le> 91"
    | "91 < r" "r \<le> 122"
    | "122 < r" "r \<le> 152"
    | "152 < r" "r \<le> 183"
    | "183 < r" "r \<le> 214"
    | "214 < r" "r \<le> 244"
    | "244 < r" "r \<le> 275"
    | "275 < r" "r \<le> 305"
    | "305 < r" "r \<le> 336"
    using assms(1,2) by linarith
  then show ?thesis using assms(3,4) month_sums [of "k + 2" Y] by cases (simp_all add: month_of_def month_length_def, linarith+)
qed

lemma civil_date:
  assumes "31 \<le> r" and "r \<le> year_length (Suc Y) + 30" and "1970 \<le> Y \<or> Y = 1969 \<and> 337 \<le> r"
    and "civil Y r = (y, m, d)"
  shows "valid_date y m d \<and> day_number y m d + 719499 = ytd Y + r"
proof (cases "r \<le> 336")
  case True
  define k where "k = month_of r"
  note sp = spring_date [OF assms(1) True k_def refl, of Y]
  have Y: "1970 \<le> Y" using True assms(3) by auto
  have e: "sum year_length {1970..<Y} + 719162 + year_length Y = ytd Y"
    using ytd_years [OF Y] ytd_Suc [of "Y - 1"] Y by simp
  have md: "y = Y" "m = k + 2" "d = r - 367 * k div 12" using assms(4) sp by (simp_all add: civil_def k_def [symmetric])
  define S where "S = sum_list (map (month_length Y) [1..<k + 2])"
  have "S + d = r + 29 + of_bool (leap Y)" "1 \<le> d" "d \<le> month_length Y m" using sp md(2,3) by (simp_all only: S_def)
  moreover have "m \<le> 12" using sp md(2) by simp
  moreover have "year_length Y = 365 + of_bool (leap Y)" by (simp add: year_length_def)
  moreover have "day_number y m d = sum year_length {1970..<Y} + S + (d - 1)" by (simp only: day_number_def md(1,2) S_def)
  ultimately show ?thesis using e Y md(1,2) by (simp add: valid_date_def)
next
  case False
  then have k: "month_of r = (if r \<le> 367 then 11 else 12)" by (simp add: month_of_def)
  then have md: "y = Suc Y" "m = 1 \<and> r \<le> 367 \<and> d = r - 336 \<or> m = 2 \<and> 367 < r \<and> d = r - 367"
    using assms(4) by (auto simp: civil_def split: if_splits)
  have "1970 \<le> Suc Y" using assms(3) by auto
  then have e: "sum year_length {1970..<Suc Y} + 719162 = ytd Y" using ytd_years by fastforce
  have "sum_list (map (month_length (Suc Y)) [1..<m]) = (if m = 2 then 31 else 0)"
    using md(2) month_sums [of m "Suc Y"] by auto
  then have "day_number y m d + 719499 = ytd Y + r" using md e False unfolding day_number_def by auto
  then show ?thesis using md False assms(2,3)
    by (auto simp: valid_date_def month_length_def year_length_def split: if_splits)
qed

section \<open>The clock\<close>

text \<open>What \<^verbatim>\<open>localtime\<close> returns.\<close>

record tm =
  tm_sec :: int
  tm_min :: int
  tm_hour :: int
  tm_mday :: int
  tm_mon :: int
  tm_year :: int

definition get_system_calendar :: "tm option \<Rightarrow> mblue_clock_entity \<Rightarrow> int \<times> mblue_clock_entity" where
  "get_system_calendar localtime cal =
     (case localtime of None \<Rightarrow> (-1, cal)
      | Some p \<Rightarrow> (0, cal\<lparr>cal_year := of_int (1900 + tm_year p), cal_month := of_int (1 + tm_mon p),
          cal_day := of_int (tm_mday p), cal_hour := of_int (tm_hour p), cal_minute := of_int (tm_min p),
          cal_second := of_int (tm_sec p)\<rparr>))"

definition set_system_calendar :: "u16 \<Rightarrow> u8 \<Rightarrow> u8 \<Rightarrow> u8 \<Rightarrow> u8 \<Rightarrow> u8 \<Rightarrow> int" where
  "set_system_calendar year month day hour minute second = -1"

definition get_system_utc_tick :: "int \<Rightarrow> u64" where
  "get_system_utc_tick time = of_int time"

definition set_system_utc_tick :: "u64 \<Rightarrow> int" where
  "set_system_utc_tick seconds = -1"

text \<open>The clock object holds the last calendar; the singleton is created at its first use.\<close>

definition mblue_get_utc :: "int \<Rightarrow> u64" where
  "mblue_get_utc time = get_system_utc_tick time"

definition mblue_set_utc :: "u64 \<Rightarrow> int" where
  "mblue_set_utc seconds = set_system_utc_tick seconds"

definition mblue_set_calendar :: "mblue_clock_entity \<Rightarrow> int" where
  "mblue_set_calendar c =
     set_system_calendar (cal_year c) (cal_month c) (cal_day c) (cal_hour c) (cal_minute c) (cal_second c)"

definition mblue_get_calendar :: "tm option \<Rightarrow> mblue_clock_entity \<Rightarrow> mblue_clock_entity option \<times> mblue_clock_entity" where
  "mblue_get_calendar localtime mce =
     (let (rc, mce) = get_system_calendar localtime mce in (if rc = 0 then Some mce else None, mce))"

section \<open>The conversion\<close>

lemma unat_ucast_small: "unat w < 2 ^ LENGTH('b) \<Longrightarrow> unat (ucast (w :: 'a :: len word) :: 'b :: len word) = unat w"
  by (simp add: unsigned_ucast_eq take_bit_nat_eq_self)

lemma month_of_range: "1 \<le> month_of r" "month_of r \<le> 12" "31 \<le> r \<Longrightarrow> 367 * month_of r div 12 \<le> r"
  by (simp_all add: month_of_def)

text \<open>The month, the day and the year as the code computes them from the day in the year.\<close>

lemma date_fields:
  assumes r: "31 \<le> r" "r \<le> 396" and s: "unat s = r" and Y: "Y < 2 ^ 16"
    and c: "civil Y r = (y, m, d)" and y: "y < 2 ^ 16"
    and k: "k = month_loop s 1" "k2 = k + 2"
      "(month, year) = (if k2 > 12 then (k2 - 12, of_nat Y + 1) else (k2, of_nat Y :: u32))"
  shows "unat (ucast year :: u16) = y" "unat (ucast month :: u8) = m"
    "unat (ucast (ucast (s - ucast (367 * k div 12)) :: u32) :: u8) = d"
proof -
  have k1: "unat k = month_of r" using month_loop_month_of [OF s] month_of_range(2) [of r] k(1) by (simp add: unat_of_nat)
  have u: "unat (367 * k) = 367 * month_of r" using k1 month_of_range(2) [of r] by (simp add: unat_word_ariths)
  then have t: "unat (ucast (367 * k div 12) :: u64) = 367 * month_of r div 12"
    using month_of_range(2) [of r] by (subst unat_ucast_small) (simp_all add: unat_div_distrib)
  then have "unat (s - ucast (367 * k div 12)) = r - 367 * month_of r div 12"
    using s month_of_range(3) [OF r(1)] by (subst unat_sub) (simp_all add: word_le_nat_alt)
  moreover have "r - 367 * month_of r div 12 \<le> 66" using r by (auto simp: month_of_def)
  moreover have "d = r - 367 * month_of r div 12" using c by (simp add: civil_def Let_def split: if_splits)
  ultimately show "unat (ucast (ucast (s - ucast (367 * k div 12)) :: u32) :: u8) = d"
    by (simp add: unat_ucast_small)
  have k2: "unat k2 = month_of r + 2" using k1 k(2) month_of_range(2) [of r] by (simp add: unat_word_ariths)
  have uY: "unat (of_nat Y :: u32) = Y" "unat (of_nat Y + 1 :: u32) = Suc Y" using Y by (simp_all add: unat_of_nat unat_word_ariths)
  have "unat month = m \<and> unat year = y"
  proof (cases "month_of r \<le> 10")
    case True
    then show ?thesis using k(3) k2 uY c by (simp add: word_less_nat_alt civil_def Let_def)
  next
    case False
    then have "unat (k2 - 12) = month_of r - 10" using k2 by (subst unat_sub) (simp_all add: word_le_nat_alt)
    then show ?thesis using False k(3) k2 uY c by (simp add: word_less_nat_alt civil_def Let_def)
  qed
  moreover have "m \<le> 12" using c month_of_range(2) [of r] by (auto simp: civil_def Let_def split: if_splits)
  ultimately show "unat (ucast year :: u16) = y" "unat (ucast month :: u8) = m"
    using y by (simp_all add: unat_ucast_small)
qed

lemma convert_date:
  assumes b: "unat seconds div 86400 < 23217004" and n: "n = unat seconds div 86400"
    and s3: "s3 = seconds div 60 div 60 div 24 + 719499"
  obtains Y y m d where "year_loop s3 1969 = Some (of_nat Y)" "valid_date y m d" "day_number y m d = n" "y < 2 ^ 16" "Y < 2 ^ 16"
    "31 \<le> n + 719499 - ytd Y" "n + 719499 - ytd Y \<le> 396" "unat (s3 - ucast (YEAR_TO_DAYS (of_nat Y))) = n + 719499 - ytd Y"
    "civil Y (n + 719499 - ytd Y) = (y, m, d)"
proof -
  have "unat (seconds div 60 div 60 div 24) = n" by (simp add: unat_div_distrib n div_mult2_eq [symmetric])
  then have u: "unat s3 = n + 719499" using b n unfolding s3 by (subst unat_add_lem [THEN iffD1]) simp_all
  have N: "719192 < n + 719499" "n + 719499 < 2 ^ 30" using b n by simp_all
  obtain Y where Y: "1969 \<le> Y" "ytd Y + 30 < n + 719499" "n + 719499 \<le> ytd Y + year_length (Suc Y) + 30"
    "year_loop s3 1969 = Some (of_nat Y)"
    by (rule year_found [OF N u])
  define r where "r = n + 719499 - ytd Y"
  have "Y < 2 ^ 16"
  proof (rule ccontr)
    assume "\<not> Y < 2 ^ 16"
    then have "ytd 65536 \<le> ytd Y" by (intro ytd_mono) simp
    moreover have "ytd 65536 = 23936532" by (simp add: ytd_def)
    ultimately show False using Y(2) b n by linarith
  qed
  have r: "31 \<le> r" "r \<le> year_length (Suc Y) + 30" "ytd Y + r = n + 719499" using Y(2,3) by (simp_all add: r_def)
  then have r3: "r \<le> 396" by (simp add: year_length_def split: if_splits)
  have start: "1970 \<le> Y \<or> Y = 1969 \<and> 337 \<le> r" 
  proof (cases "Y = 1969")
    case True
    moreover have "ytd 1969 = 719162" by (simp add: ytd_def)
    ultimately show ?thesis by (simp add: r_def)
  qed (use Y(1) in simp)
  obtain y m d where c: "civil Y r = (y, m, d)" by (cases "civil Y r")
  note cd = civil_date [OF r(1,2) start c]
  have "y < 2 ^ 16"
  proof (cases "Y = 65535")
    case True
    moreover have "ytd 65535 = 23936166" by (simp add: ytd_def)
    ultimately have "r \<le> 336" using b n r(3) by simp
    then have "month_of r \<le> 10" by (simp add: month_of_def)
    then show ?thesis using c True by (simp add: civil_def Let_def)
  next
    case False
    then show ?thesis using c \<open>Y < 2 ^ 16\<close> by (auto simp: civil_def Let_def split: if_splits)
  qed
  moreover have "unat (of_nat Y :: u32) = Y" using \<open>Y < 2 ^ 16\<close> by (simp add: unat_of_nat)
  then have "unat (YEAR_TO_DAYS (of_nat Y)) = ytd Y" using unat_YEAR_TO_DAYS [of "of_nat Y"] \<open>Y < 2 ^ 16\<close> by simp
  then have "unat (ucast (YEAR_TO_DAYS (of_nat Y)) :: u64) = ytd Y" using N(2) Y(2) by (subst unat_ucast_small) simp_all
  then have "unat (s3 - ucast (YEAR_TO_DAYS (of_nat Y))) = r"
    using u Y(2) by (subst unat_sub) (simp_all add: word_le_nat_alt r_def)
  moreover have "day_number y m d = n" using cd r(3) by simp
  ultimately show thesis using that [of Y y m d] Y(4) cd \<open>Y < 2 ^ 16\<close> r(1) r3 c unfolding r_def [symmetric] by blast
qed

lemma time_of_day:
  "(x :: nat) div 86400 * 86400 + x div 3600 mod 24 * 3600 + x div 60 mod 60 * 60 + x mod 60 = x"
proof -
  have "x div 60 * 60 + x mod 60 = x" "x div 3600 * 60 + x div 60 mod 60 = x div 60"
    "x div 86400 * 24 + x div 3600 mod 24 = x div 3600"
    using div_mult_mod_eq [of x 60] div_mult_mod_eq [of "x div 60" 60] div_mult_mod_eq [of "x div 3600" 24]
    by (simp_all add: div_mult2_eq [symmetric])
  then show ?thesis by linarith
qed

text \<open>C26 (calendar\_date): for every time before the year 65536 the conversion ends and gives the date and the
  time of day of the Gregorian calendar: a valid date whose distance in days from 1 January 1970, together
  with the hours, minutes and seconds, is the given number of seconds. The time zone is not touched.\<close>

theorem calendar_date:
  assumes "unat seconds div 86400 < 23217004"
  shows "\<exists>c. convert_utc_to_calendar seconds cal = Some (0, c) \<and>
    valid_date (unat (cal_year c)) (unat (cal_month c)) (unat (cal_day c)) \<and>
    unat (cal_hour c) < 24 \<and> unat (cal_minute c) < 60 \<and> unat (cal_second c) < 60 \<and>
    day_number (unat (cal_year c)) (unat (cal_month c)) (unat (cal_day c)) * 86400 +
      unat (cal_hour c) * 3600 + unat (cal_minute c) * 60 + unat (cal_second c) = unat seconds \<and>
    cal_time_zone c = cal_time_zone cal"
proof -
  let ?s = "seconds div 60 div 60 div 24 + 719499"
  let ?n = "unat seconds div 86400"
  obtain Y y m d where d: "year_loop ?s 1969 = Some (of_nat Y)" "valid_date y m d" "day_number y m d = ?n" "y < 2 ^ 16" "Y < 2 ^ 16"
    "31 \<le> ?n + 719499 - ytd Y" "?n + 719499 - ytd Y \<le> 396" "unat (?s - ucast (YEAR_TO_DAYS (of_nat Y))) = ?n + 719499 - ytd Y"
    "civil Y (?n + 719499 - ytd Y) = (y, m, d)"
    by (rule convert_date [OF assms refl refl])
  define k where "k = month_loop (?s - ucast (YEAR_TO_DAYS (of_nat Y))) 1"
  obtain month year where my: "(month, year) = (if k + 2 > 12 then (k + 2 - 12, of_nat Y + 1) else (k + 2, of_nat Y :: u32))"
    by (metis surj_pair)
  note f = date_fields [OF d(6,7,8,5,9,4) k_def refl my]
  define c where "c = cal\<lparr>cal_year := ucast year, cal_month := ucast month,
    cal_day := ucast (ucast (?s - ucast (YEAR_TO_DAYS (of_nat Y)) - ucast (367 * k div 12)) :: u32),
    cal_hour := ucast (ucast (seconds div 60 div 60 mod 24) :: u32), cal_minute := ucast (ucast (seconds div 60 mod 60) :: u32),
    cal_second := ucast (ucast (seconds mod 60) :: u32)\<rparr>"
  have "convert_utc_to_calendar seconds cal = Some (0, c)"
    using d(1) my by (cases "k + 2 > 12") (simp_all add: convert_utc_to_calendar_def Let_def k_def [symmetric] c_def)
  have t: "unat (seconds mod 60) = unat seconds mod 60" "unat (seconds div 60 mod 60) = unat seconds div 60 mod 60"
    "unat (seconds div 60 div 60 mod 24) = unat seconds div 3600 mod 24"
    by (simp_all add: unat_mod_distrib unat_div_distrib div_mult2_eq [symmetric])
  have h: "unat (cal_hour c) = unat seconds div 3600 mod 24" "unat (cal_minute c) = unat seconds div 60 mod 60"
    "unat (cal_second c) = unat seconds mod 60"
    by (simp_all add: c_def unat_ucast_small t)
  have v: "unat (cal_year c) = y" "unat (cal_month c) = m" "unat (cal_day c) = d" "cal_time_zone c = cal_time_zone cal"
    using f by (simp_all add: c_def)
  have "unat (cal_hour c) < 24 \<and> unat (cal_minute c) < 60 \<and> unat (cal_second c) < 60" unfolding h by simp
  with \<open>convert_utc_to_calendar seconds cal = Some (0, c)\<close> d(2,3) show ?thesis
    by (intro exI [of _ c]) (simp add: v h time_of_day)
qed

theorem calendar_date_witness:
  "\<exists>c. convert_utc_to_calendar 951782400 \<lparr>cal_year = 0, cal_month = 0, cal_day = 0, cal_hour = 0, cal_minute = 0,
      cal_second = 0, cal_time_zone = 8\<rparr> = Some (0, c) \<and>
    valid_date (unat (cal_year c)) (unat (cal_month c)) (unat (cal_day c)) \<and>
    unat (cal_hour c) < 24 \<and> unat (cal_minute c) < 60 \<and> unat (cal_second c) < 60 \<and>
    day_number (unat (cal_year c)) (unat (cal_month c)) (unat (cal_day c)) * 86400 +
      unat (cal_hour c) * 3600 + unat (cal_minute c) * 60 + unat (cal_second c) = unat (951782400 :: u64) \<and>
    cal_time_zone c = 8"
  using calendar_date [of 951782400 "\<lparr>cal_year = 0, cal_month = 0, cal_day = 0, cal_hour = 0, cal_minute = 0,
      cal_second = 0, cal_time_zone = 8\<rparr>"] by simp

text \<open>A loop that ends has found a year whose days, as a 32-bit number, reach the given ones.\<close>

lemma year_loop_bound: "year_loop s y = Some Y \<Longrightarrow> s \<le> ucast (YEAR_TO_DAYS (Y + 1) + 30)"
  by (rule year_loop.raw_induct [where P = "\<lambda>s y Y. s \<le> ucast (YEAR_TO_DAYS (Y + 1) + 30)"])
    (auto simp: not_less split: if_splits)

text \<open>C31 (calendar\_diverges): from 4294247797 days after 1970 on, the conversion never ends: the days
  of the years are counted in 32 bits and never reach the given number.\<close>

theorem calendar_diverges:
  assumes "4294247797 \<le> unat seconds div 86400"
  shows "convert_utc_to_calendar seconds cal = None"
proof -
  let ?s = "seconds div 60 div 60 div 24 + 719499"
  have n: "unat (seconds div 60 div 60 div 24) = unat seconds div 86400" by (simp add: unat_div_distrib div_mult2_eq [symmetric])
  have "unat seconds < 2 ^ 64" using unsigned_less [of seconds, where 'a = nat] by simp
  then have "unat seconds div 86400 < 2 ^ 48" by simp
  then have "2 ^ 32 \<le> unat ?s" using n assms by (subst unat_add_lem [THEN iffD1]) simp_all
  moreover have "unat ?s < 2 ^ 32" if "year_loop ?s 1969 = Some Y" for Y
  proof -
    let ?t = "YEAR_TO_DAYS (Y + 1) + 30"
    have t: "unat ?t < 2 ^ 32" using unsigned_less [of ?t, where 'a = nat] by simp
    then have "unat (ucast ?t :: u64) = unat ?t" by (intro unat_ucast_small) simp
    then show ?thesis using year_loop_bound [OF that] t by (simp add: word_le_nat_alt)
  qed
  ultimately have "year_loop ?s 1969 = None" by (cases "year_loop ?s 1969") auto
  then show ?thesis by (simp add: convert_utc_to_calendar_def Let_def)
qed

theorem calendar_diverges_witness:
  "convert_utc_to_calendar 371023009660800 \<lparr>cal_year = 0, cal_month = 0, cal_day = 0, cal_hour = 0, cal_minute = 0,
      cal_second = 0, cal_time_zone = 0\<rparr> = None"
  by (rule calendar_diverges) simp

end
