(* ===== verification/Persistence.thy ===== *)
theory Persistence
  imports Pal_Heap Calendar
begin

text \<open>
  The log store of \<^verbatim>\<open>middleware/components/persistence_manager/mb_persistence.c\<close>: a circular log in a section
  of the flash (\<open>persistence_write\<close>, \<open>persistence_read\<close>) and the logger over it, which keeps the position of the
  log in a row of header slots of which only the last one is valid. The flash driver (\<^verbatim>\<open>mb_flash.h\<close>) is not
  part of the repository: its functions and constants are a parameter. \<^verbatim>\<open>size_t\<close> has 32 bits. \<open>None\<close> is a
  memory error.
\<close>

section \<open>The circular log\<close>

record data_section_info =
  start_addr :: u32
  end_addr :: u32
  cur_write_addr :: u32
  cur_read_addr :: u32
  data_start_addr :: u32
  data_end_addr :: u32
  erase_addr :: u32
  ds_magic :: u32
  ds_valid :: u32

text \<open>The callbacks of \<^verbatim>\<open>struct mb_persistence\<close>, over the state \<open>'s\<close> they work on, and the sector sizes of the
  driver. A read gives its result and the bytes it stores in the buffer.\<close>

record 's mb_persistence =
  write_cb :: "u32 \<Rightarrow> byte list \<Rightarrow> 's \<Rightarrow> int \<times> 's"
  read_cb :: "u32 \<Rightarrow> u32 \<Rightarrow> 's \<Rightarrow> int \<times> byte list"
  erase_cb :: "u32 \<Rightarrow> u32 \<Rightarrow> 's \<Rightarrow> int \<times> 's"
  get_flash_sector_size :: "u32 \<Rightarrow> u32"

text \<open>The next sector is erased when the write passes the erased part.\<close>

definition erase_ahead ::
    "'s mb_persistence \<Rightarrow> u32 \<Rightarrow> data_section_info \<Rightarrow> 's \<Rightarrow> data_section_info \<times> 's" where
  "erase_ahead lg len sd s =
     (if erase_addr sd < cur_write_addr sd + len
      then let sd = (if end_addr sd = erase_addr sd then sd\<lparr>erase_addr := start_addr sd\<rparr> else sd);
               size = get_flash_sector_size lg (erase_addr sd);
               (ret, s) = erase_cb lg (erase_addr sd) size s;
               sd = sd\<lparr>erase_addr := erase_addr sd + size\<rparr>;
               sd = sd\<lparr>data_start_addr := erase_addr sd\<rparr>;
               sd = (if data_start_addr sd = end_addr sd then sd\<lparr>data_start_addr := start_addr sd\<rparr> else sd)
           in (sd, s)
      else (sd, s))"

definition persistence_write ::
    "'s mb_persistence \<Rightarrow> byte list \<Rightarrow> data_section_info \<Rightarrow> 's \<Rightarrow> (int \<times> data_section_info \<times> 's) option" where
  "persistence_write lg buffer sd s =
     (let len = of_nat (length buffer) :: u32
      in if cur_write_addr sd + len \<le> end_addr sd
         then let (sd, s) = erase_ahead lg len sd s;
                  (nRet, s) = write_cb lg (cur_write_addr sd) buffer s;
                  sd = (if nRet \<noteq> 0 then sd\<lparr>cur_write_addr := cur_write_addr sd + len\<rparr> else sd);
                  sd = sd\<lparr>data_end_addr := cur_write_addr sd\<rparr>
              in Some (nRet, sd, s)
         else let write_size = end_addr sd - cur_write_addr sd
              in if unat write_size \<le> length buffer
                 then let (nRet, s) = write_cb lg (cur_write_addr sd) (take (unat write_size) buffer) s;
                          moreLen = len - write_size;
                          sd = sd\<lparr>cur_write_addr := start_addr sd\<rparr>;
                          size = get_flash_sector_size lg (cur_write_addr sd);
                          (ret, s) = erase_cb lg (cur_write_addr sd) size s;
                          sd = sd\<lparr>erase_addr := cur_write_addr sd + size\<rparr>;
                          sd = sd\<lparr>data_start_addr := erase_addr sd\<rparr>;
                          (nRet, s) = write_cb lg (cur_write_addr sd) (drop (unat write_size) buffer) s;
                          sd = (if nRet \<noteq> 0 then sd\<lparr>cur_write_addr := start_addr sd + moreLen\<rparr> else sd);
                          sd = sd\<lparr>data_end_addr := cur_write_addr sd\<rparr>
                      in Some (sint len, sd, s)
                 else None)"

text \<open>A read of the flash at the read position, which moves on when the callback succeeds.\<close>

definition read_at ::
    "'s mb_persistence \<Rightarrow> u32 \<Rightarrow> u32 \<Rightarrow> data_section_info \<Rightarrow> 's \<Rightarrow> int \<times> byte list \<times> data_section_info" where
  "read_at lg n next sd s =
     (let (r, bytes) = read_cb lg (cur_read_addr sd) n s; ret = (if r \<noteq> 0 then 1 else 0)
      in (ret, bytes, if ret \<noteq> 0 then sd\<lparr>cur_read_addr := next\<rparr> else sd))"

text \<open>The result, the bytes stored in the buffer and the section. \<^verbatim>\<open>read_size\<close> is an \<^verbatim>\<open>int\<close> that is passed on as a
  \<^verbatim>\<open>size_t\<close>.\<close>

definition persistence_read ::
    "'s mb_persistence \<Rightarrow> u32 \<Rightarrow> data_section_info \<Rightarrow> 's \<Rightarrow> int \<times> byte list \<times> data_section_info" where
  "persistence_read lg len sd s =
     (let r = cur_read_addr sd; de = data_end_addr sd; ds = data_start_addr sd; e = end_addr sd
      in if r = de then (0, [], sd)
         else if de > ds
         then if r + len \<le> de then read_at lg len (r + len) sd s else read_at lg (de - r) de sd s
         else if r \<ge> ds
         then if r + len \<le> e then read_at lg len (r + len) sd s
              else if e = r then (1, [], sd\<lparr>cur_read_addr := start_addr sd\<rparr>)
              else read_at lg (e - r) (start_addr sd) sd s
         else if r + len \<le> de then read_at lg len (r + len) sd s
         else read_at lg (de - r) de sd s)"

definition persistence_clear :: "'s mb_persistence \<Rightarrow> data_section_info \<Rightarrow> 's \<Rightarrow> int \<times> 's" where
  "persistence_clear lg sd s = (let (r, s) = erase_cb lg (start_addr sd) 0 s in (if r \<noteq> 0 then 1 else 0, s))"

section \<open>The logger\<close>

text \<open>The flash driver: whether a write or an erase is complete, the bytes a read stores, and its constants.\<close>

record 'f flash_driver =
  mb_flash_write :: "u32 \<Rightarrow> byte list \<Rightarrow> 'f \<Rightarrow> bool \<times> 'f"
  mb_flash_write_word :: "u32 \<Rightarrow> u32 \<Rightarrow> 'f \<Rightarrow> 'f"
  mb_flash_read :: "u32 \<Rightarrow> u32 \<Rightarrow> 'f \<Rightarrow> int \<times> byte list"
  mb_flash_erase :: "u32 \<Rightarrow> u32 \<Rightarrow> 'f \<Rightarrow> bool \<times> 'f"
  flash_sector_size :: "u32 \<Rightarrow> u32"
  get_falsh_sector :: "u32 \<Rightarrow> nat"
  FLASH_Sector_5 :: nat
  FLASH_ADDR_HEAD :: u32
  FLASH_ADDR_SECTOR1 :: u32
  FLASH_ADDR_SECTOR2 :: u32

record 'f mb_logger =
  lg_flash :: 'f
  lg_config :: data_section_info
  head_index :: u32
  lg_opr :: "('f \<times> u32) mb_persistence option"

definition LOG_HEAD_SPACE_SIZE :: u32 where "LOG_HEAD_SPACE_SIZE = 0x4000"
definition FLASH_START_ADDR :: u32 where "FLASH_START_ADDR = 0x0800C000"
definition LOG_START_ADDR :: u32 where "LOG_START_ADDR = 0x08010000"
definition LOG_END_ADDR :: u32 where "LOG_END_ADDR = 0x0803FFFF"
definition LOG_ERASE_ADDR :: u32 where "LOG_ERASE_ADDR = LOG_END_ADDR"
definition MAGIC :: u32 where "MAGIC = 12345678"
definition HEAD_VALID_FLAG :: u32 where "HEAD_VALID_FLAG = 0xFFFFFFFF"

text \<open>The bytes of a section in memory, least significant byte of each field first.\<close>

definition word_bytes :: "u32 \<Rightarrow> byte list" where
  "word_bytes w = [ucast w, ucast (drop_bit 8 w), ucast (drop_bit 16 w), ucast (drop_bit 24 w)]"

definition bytes_word :: "byte list \<Rightarrow> u32" where
  "bytes_word b = ucast (b ! 0) OR push_bit 8 (ucast (b ! 1)) OR push_bit 16 (ucast (b ! 2)) OR push_bit 24 (ucast (b ! 3))"

definition section_bytes :: "data_section_info \<Rightarrow> byte list" where
  "section_bytes sd = concat (map word_bytes [start_addr sd, end_addr sd, cur_write_addr sd, cur_read_addr sd,
     data_start_addr sd, data_end_addr sd, erase_addr sd, ds_magic sd, ds_valid sd])"

definition bytes_section :: "byte list \<Rightarrow> data_section_info" where
  "bytes_section b = (let f = (\<lambda>i. bytes_word (drop (4 * i) b))
     in \<lparr>start_addr = f 0, end_addr = f 1, cur_write_addr = f 2, cur_read_addr = f 3, data_start_addr = f 4,
         data_end_addr = f 5, erase_addr = f 6, ds_magic = f 7, ds_valid = f 8\<rparr>)"

definition get_head_size :: u32 where
  "get_head_size = 36"

text \<open>The callbacks of the logger; erasing sector 5 restarts the header slots.\<close>

definition write_function :: "'f flash_driver \<Rightarrow> u32 \<Rightarrow> byte list \<Rightarrow> 'f \<times> u32 \<Rightarrow> int \<times> 'f \<times> u32" where
  "write_function fl addr buffer = (\<lambda>(f, h). let (ok, f) = mb_flash_write fl addr buffer f in (of_bool ok, f, h))"

definition read_function :: "'f flash_driver \<Rightarrow> u32 \<Rightarrow> u32 \<Rightarrow> 'f \<times> u32 \<Rightarrow> int \<times> byte list" where
  "read_function fl addr len = (\<lambda>(f, h). mb_flash_read fl addr len f)"

definition erase_function :: "'f flash_driver \<Rightarrow> u32 \<Rightarrow> u32 \<Rightarrow> 'f \<times> u32 \<Rightarrow> int \<times> 'f \<times> u32" where
  "erase_function fl addr len = (\<lambda>(f, h).
     let h = (if get_falsh_sector fl addr = FLASH_Sector_5 fl then 0 else h);
         (ok, f) = mb_flash_erase fl addr len f in (of_bool ok, f, h))"

definition persistence_init ::
    "bool \<Rightarrow> (u32 \<Rightarrow> byte list \<Rightarrow> 's \<Rightarrow> int \<times> 's) \<Rightarrow> (u32 \<Rightarrow> u32 \<Rightarrow> 's \<Rightarrow> int \<times> byte list) \<Rightarrow> (u32 \<Rightarrow> u32 \<Rightarrow> 's \<Rightarrow> int \<times> 's) \<Rightarrow>
     (u32 \<Rightarrow> u32) \<Rightarrow> int \<times> 's mb_persistence option" where
  "persistence_init present w r e sectors =
     (if present then (1, Some \<lparr>write_cb = w, read_cb = r, erase_cb = e, get_flash_sector_size = sectors\<rparr>) else (0, None))"

definition log_init :: "'f flash_driver \<Rightarrow> 'f mb_logger \<Rightarrow> int \<times> 'f mb_logger" where
  "log_init fl lg =
     (let (rc, opr) = persistence_init True (write_function fl) (read_function fl) (erase_function fl) (flash_sector_size fl)
      in (rc, lg\<lparr>lg_opr := opr\<rparr>))"

definition set_head_index_invalid :: "'f flash_driver \<Rightarrow> u32 \<Rightarrow> 'f \<Rightarrow> 'f" where
  "set_head_index_invalid fl index f =
     mb_flash_write_word fl (FLASH_START_ADDR + index * get_head_size + get_head_size - 4) 0 f"

definition is_valid_head_index :: "u32 \<Rightarrow> bool" where
  "is_valid_head_index index \<longleftrightarrow> \<not> (index + 1) * get_head_size > LOG_HEAD_SPACE_SIZE"

definition flush_head_index :: "'f flash_driver \<Rightarrow> 'f mb_logger \<Rightarrow> 'f mb_logger" where
  "flush_head_index fl lg =
     (let h = head_index lg;
          f = (if h > 0 then set_head_index_invalid fl (h - 1) (lg_flash lg) else lg_flash lg)
      in if is_valid_head_index h
         then lg\<lparr>lg_flash := snd (mb_flash_write fl (FLASH_START_ADDR + h * get_head_size) (section_bytes (lg_config lg)) f),
                 head_index := h + 1\<rparr>
         else lg\<lparr>lg_flash := snd (mb_flash_erase fl FLASH_START_ADDR LOG_HEAD_SPACE_SIZE f), head_index := 0\<rparr>)"

definition log_clear :: "'f flash_driver \<Rightarrow> 'f mb_logger \<Rightarrow> int \<times> 'f mb_logger" where
  "log_clear fl lg =
     (let f = snd (mb_flash_erase fl (FLASH_ADDR_HEAD fl) 0 (lg_flash lg));
          f = snd (mb_flash_erase fl (FLASH_ADDR_SECTOR1 fl) 0 f);
          f = snd (mb_flash_erase fl (FLASH_ADDR_SECTOR2 fl) 0 f)
      in (1, lg\<lparr>lg_flash := f\<rparr>))"

text \<open>The search for the valid slot below ends because slot 455 is not valid, wherever it starts.\<close>

lemma head_slot_455: "\<not> is_valid_head_index 455"
  by (simp add: is_valid_head_index_def get_head_size_def LOG_HEAD_SPACE_SIZE_def)

lemma head_slots_left: "is_valid_head_index h \<Longrightarrow> unat (454 - h) < unat (455 - h)"
proof -
  assume "is_valid_head_index h"
  then have "455 - h \<noteq> 0" using head_slot_455 by auto
  moreover have "455 - h - 1 = 454 - h" by simp
  ultimately show ?thesis using measure_unat [of "455 - h"] by simp
qed

text \<open>The search for the valid slot; a slot that is read is passed, also when it is the valid one.\<close>

function find_head_loop :: "'f flash_driver \<Rightarrow> 'f \<Rightarrow> data_section_info \<Rightarrow> u32 \<Rightarrow> bool \<times> data_section_info \<times> u32" where
  "find_head_loop fl f config h =
     (if is_valid_head_index h
      then let head = bytes_section (snd (mb_flash_read fl (FLASH_START_ADDR + h * get_head_size) get_head_size f))
           in if ds_magic head = MAGIC \<and> ds_valid head = HEAD_VALID_FLAG then (True, head, h + 1)
              else find_head_loop fl f config (h + 1)
      else (False, config, h))"
  by auto
termination
  by (relation "measure (\<lambda>(fl, f, config, h). unat (455 - h))") (auto intro: head_slots_left)

declare find_head_loop.simps [simp del]

definition find_valid_head_index :: "'f flash_driver \<Rightarrow> 'f mb_logger \<Rightarrow> bool \<times> 'f mb_logger" where
  "find_valid_head_index fl lg =
     (if \<not> is_valid_head_index (head_index lg) then (False, lg)
      else let (found, config, h) = find_head_loop fl (lg_flash lg) (lg_config lg) (head_index lg)
           in (found, lg\<lparr>lg_config := config, head_index := h\<rparr>))"

fun is_valid_flash_space :: "byte list \<Rightarrow> bool" where
  "is_valid_flash_space [] = True"
| "is_valid_flash_space (c # cs) = (c = 0xFF \<and> is_valid_flash_space cs)"

definition confirm_head_and_data_section_valid :: "'f flash_driver \<Rightarrow> 'f mb_logger \<Rightarrow> 'f mb_logger" where
  "confirm_head_and_data_section_valid fl lg =
     (let a = cur_write_addr (lg_config lg)
      in if a \<ge> start_addr (lg_config lg) \<and> a < end_addr (lg_config lg) \<and> a + 8 \<le> end_addr (lg_config lg) \<and>
            \<not> is_valid_flash_space (snd (mb_flash_read fl a 8 (lg_flash lg)))
         then flush_head_index fl (snd (log_clear fl lg)) else lg)"

definition init_check :: "'f flash_driver \<Rightarrow> 'f mb_logger \<Rightarrow> 'f mb_logger" where
  "init_check fl lg =
     (let head = bytes_section (snd (mb_flash_read fl FLASH_START_ADDR get_head_size (lg_flash lg)))
      in if ds_magic head \<noteq> MAGIC then flush_head_index fl (snd (log_clear fl lg))
         else let (found, lg) = find_valid_head_index fl lg
              in if \<not> found then flush_head_index fl (snd (log_clear fl lg))
                 else confirm_head_and_data_section_valid fl lg)"

definition logger_handler :: "'f \<Rightarrow> 'f mb_logger" where
  "logger_handler f = \<lparr>lg_flash = f, lg_config = \<lparr>start_addr = LOG_START_ADDR, end_addr = LOG_END_ADDR,
     cur_write_addr = LOG_START_ADDR, cur_read_addr = LOG_START_ADDR, data_start_addr = LOG_START_ADDR,
     data_end_addr = LOG_START_ADDR, erase_addr = LOG_ERASE_ADDR, ds_magic = MAGIC, ds_valid = HEAD_VALID_FLAG\<rparr>,
     head_index = 0, lg_opr = None\<rparr>"

text \<open>The logger is created when it is first asked for.\<close>

definition get_log_instance :: "'f flash_driver \<Rightarrow> 'f \<Rightarrow> 'f mb_logger option \<Rightarrow> 'f mb_logger" where
  "get_log_instance fl f instance = (case instance of None \<Rightarrow> init_check fl (logger_handler f) | Some lg \<Rightarrow> lg)"

section \<open>Log entries\<close>

text \<open>\<^verbatim>\<open>sprintf\<close> of the time, with \<^verbatim>\<open>%d\<close> for every field, and of an entry; \<^verbatim>\<open>strlen\<close> of a buffer without a null
  byte reads past it.\<close>

function decimal :: "nat \<Rightarrow> byte list" where
  "decimal n = (if n < 10 then [of_nat (48 + n)] else decimal (n div 10) @ [of_nat (48 + n mod 10)])"
  by auto
termination
  by (relation "measure id") auto

declare decimal.simps [simp del]

definition prinf_timer :: "mblue_clock_entity \<Rightarrow> byte list" where
  "prinf_timer c = decimal (unat (cal_year c)) @ [45] @ decimal (unat (cal_month c)) @ [45] @ decimal (unat (cal_day c)) @ [32] @
     decimal (unat (cal_hour c)) @ [58] @ decimal (unat (cal_minute c)) @ [58] @ decimal (unat (cal_second c))"

fun strlen :: "byte list \<Rightarrow> nat option" where
  "strlen [] = None"
| "strlen (c # cs) = (if c = 0 then Some 0 else map_option Suc (strlen cs))"

text \<open>The entry is formatted into a block of the length of the time, \<open>len\<close> and 8 bytes, whose allocation is not
  checked; a clock without a calendar is a null pointer.\<close>

definition log_write ::
    "'f flash_driver \<Rightarrow> tm option \<Rightarrow> byte list \<Rightarrow> u32 \<Rightarrow> 'f mb_logger \<Rightarrow> mblue_clock_entity \<Rightarrow> mblue_heap \<Rightarrow>
     (int \<times> 'f mb_logger \<times> mblue_clock_entity \<times> mblue_heap) option" where
  "log_write fl localtime buffer len lg mce hp = do {
     let (now, mce) = mblue_get_calendar localtime mce;
     now \<leftarrow> now;
     let timer = prinf_timer now;
     (temp, hp) \<leftarrow> mblue_malloc (of_nat (length timer) + len + 8) hp;
     if temp = 0 then None
     else do {
       n \<leftarrow> strlen buffer;
       let entry = timer @ [32] @ take n buffer @ [32, 13, 10];
       if length entry + 1 > unat (of_nat (length timer) + len + 8 :: u32) then None
       else do {
         opr \<leftarrow> lg_opr lg;
         (ret, sd, (f, h)) \<leftarrow> persistence_write opr entry (lg_config lg) (lg_flash lg, head_index lg);
         hp \<leftarrow> mblue_free temp hp;
         Some (ret, flush_head_index fl (lg\<lparr>lg_config := sd, lg_flash := f, head_index := h\<rparr>), mce, hp)
       }
     }
   }"

text \<open>The bytes of a read replace those of the buffer from a position on.\<close>

definition store_at :: "nat \<Rightarrow> byte list \<Rightarrow> byte list \<Rightarrow> byte list option" where
  "store_at i bytes buffer =
     (if i + length bytes \<le> length buffer
      then Some (take i buffer @ bytes @ drop (i + length bytes) buffer) else None)"

definition log_read_next ::
    "byte list \<Rightarrow> u32 \<Rightarrow> 'f mb_logger \<Rightarrow> (int \<times> byte list \<times> 'f mb_logger) option" where
  "log_read_next buffer len lg = do {
     opr \<leftarrow> lg_opr lg;
     let (ret, bytes, sd) = persistence_read opr len (lg_config lg) (lg_flash lg, head_index lg);
     buffer \<leftarrow> store_at 0 bytes buffer;
     let lg = lg\<lparr>lg_config := sd\<rparr>;
     if ret = 0 then Some (ret, buffer, lg)
     else do {
       n \<leftarrow> strlen buffer;
       let more = len - of_nat n;
       if sint more > 0
       then do {
         let (ret, bytes, sd) = persistence_read opr more (lg_config lg) (lg_flash lg, head_index lg);
         buffer \<leftarrow> store_at n bytes buffer;
         Some (ret, buffer, lg\<lparr>lg_config := sd\<rparr>)
       }
       else Some (ret, buffer, lg)
     }
   }"

definition log_read :: "byte list \<Rightarrow> u32 \<Rightarrow> 'f mb_logger \<Rightarrow> (int \<times> byte list \<times> 'f mb_logger) option" where
  "log_read buffer len lg =
     log_read_next buffer len (lg\<lparr>lg_config := (lg_config lg)\<lparr>cur_read_addr := data_start_addr (lg_config lg)\<rparr>\<rparr>)"

section \<open>The flash\<close>

text \<open>Programming a flash only clears bits: the cells become the conjunction of what they were and of what is
  written. The driver programs and reads the addressed cells. \<open>cell\<close> reads a cell of the state.\<close>

definition program :: "nat \<Rightarrow> byte list \<Rightarrow> (nat \<Rightarrow> byte) \<Rightarrow> nat \<Rightarrow> byte" where
  "program a b m x = (if a \<le> x \<and> x < a + length b then m x AND b ! (x - a) else m x)"

definition callbacks_ok :: "'s mb_persistence \<Rightarrow> ('s \<Rightarrow> nat \<Rightarrow> byte) \<Rightarrow> bool" where
  "callbacks_ok lg cell \<longleftrightarrow>
     (\<forall>a b s. unat a + length b \<le> 2 ^ 32 \<longrightarrow> fst (write_cb lg a b s) \<noteq> 0 \<and>
        cell (snd (write_cb lg a b s)) = program (unat a) b (cell s)) \<and>
     (\<forall>a n s. unat a + unat n \<le> 2 ^ 32 \<longrightarrow> fst (read_cb lg a n s) \<noteq> 0 \<and>
        snd (read_cb lg a n s) = map (cell s) [unat a..<unat a + unat n])"

lemma and_ones: "(0xFF :: byte) AND c = c"
proof -
  have m: "(0xFF :: byte) = mask 8" by (simp add: mask_eq_exp_minus_1)
  have "take_bit 8 c = c" by (rule take_bit_word_eq_self) simp
  then show ?thesis unfolding m by (simp only: and.commute take_bit_eq_mask)
qed

lemma program_erased:
  "(\<And>x. a \<le> x \<Longrightarrow> x < a + length b \<Longrightarrow> m x = 0xFF) \<Longrightarrow> a \<le> x \<Longrightarrow> x < a + length b \<Longrightarrow> program a b m x = b ! (x - a)"
  by (simp add: program_def and_ones)

lemma program_outside: "\<not> (a \<le> x \<and> x < a + length b) \<Longrightarrow> program a b m x = m x"
  by (auto simp: program_def)

lemma map_program:
  assumes "\<And>x. a \<le> x \<Longrightarrow> x < a + length b \<Longrightarrow> m x = 0xFF"
  shows "map (program a b m) [a..<a + length b] = b"
  by (rule nth_equalityI) (auto simp: program_erased [OF assms])

section \<open>Writing and reading without wrap-around\<close>

text \<open>The part of the log between the read position and the write position, which is followed by erased cells.\<close>

definition log_linear :: "('s \<Rightarrow> nat \<Rightarrow> byte) \<Rightarrow> data_section_info \<Rightarrow> 's \<Rightarrow> bool" where
  "log_linear cell sd s \<longleftrightarrow> data_start_addr sd \<le> cur_read_addr sd \<and> cur_read_addr sd \<le> data_end_addr sd \<and>
     data_end_addr sd = cur_write_addr sd \<and> cur_write_addr sd \<le> erase_addr sd \<and> erase_addr sd \<le> end_addr sd \<and>
     (\<forall>x. unat (cur_write_addr sd) \<le> x \<and> x < unat (erase_addr sd) \<longrightarrow> cell s x = 0xFF)"

definition log_contents :: "('s \<Rightarrow> nat \<Rightarrow> byte) \<Rightarrow> data_section_info \<Rightarrow> 's \<Rightarrow> byte list" where
  "log_contents cell sd s = map (cell s) [unat (cur_read_addr sd)..<unat (data_end_addr sd)]"

lemma persistence_write_linear:
  assumes cb: "callbacks_ok lg cell" and lin: "log_linear cell sd s"
    and fits: "unat (cur_write_addr sd) + length b \<le> unat (erase_addr sd)"
  obtains r sd' s' where "persistence_write lg b sd s = Some (r, sd', s')" "r \<noteq> 0" "log_linear cell sd' s'"
    "log_contents cell sd' s' = log_contents cell sd s @ b" "erase_addr sd' = erase_addr sd"
    "unat (cur_write_addr sd') = unat (cur_write_addr sd) + length b" "cur_read_addr sd' = cur_read_addr sd"
proof -
  let ?w = "cur_write_addr sd"
  have b32: "unat (erase_addr sd) < 2 ^ 32" using unsigned_less [of "erase_addr sd", where 'a = nat] by simp
  have len: "unat (of_nat (length b) :: u32) = length b" using fits b32 by (simp add: unat_of_nat)
  have sum: "unat (?w + of_nat (length b)) = unat ?w + length b" using fits b32 len by (subst unat_add_lem [THEN iffD1]) simp_all
  have fitw: "?w + of_nat (length b) \<le> end_addr sd" "\<not> erase_addr sd < ?w + of_nat (length b)"
    using fits lin sum by (simp_all add: word_le_nat_alt word_less_nat_alt log_linear_def)
  obtain r s' where w: "write_cb lg ?w b s = (r, s')" by fastforce
  have l: "unat ?w + length b \<le> 2 ^ 32" using fits b32 by simp
  have r: "r \<noteq> 0" "cell s' = program (unat ?w) b (cell s)"
    using cb w l unfolding callbacks_ok_def by (metis fst_conv snd_conv)+
  define sd' where "sd' = sd\<lparr>cur_write_addr := ?w + of_nat (length b), data_end_addr := ?w + of_nat (length b)\<rparr>"
  have er: "\<And>x. unat ?w \<le> x \<Longrightarrow> x < unat ?w + length b \<Longrightarrow> cell s x = 0xFF" using lin fits by (simp add: log_linear_def)
  have "persistence_write lg b sd s = Some (r, sd', s')"
    using fitw w r(1) by (simp add: persistence_write_def erase_ahead_def Let_def sd'_def)
  moreover have "log_linear cell sd' s'"
    using lin fits sum by (auto simp: log_linear_def sd'_def r(2) program_outside word_le_nat_alt)
  moreover have "log_contents cell sd' s' = log_contents cell sd s @ b"
  proof -
    have "[unat (cur_read_addr sd)..<unat ?w + length b] = [unat (cur_read_addr sd)..<unat ?w] @ [unat ?w..<unat ?w + length b]"
      using lin by (intro upt_add_eq_append) (auto simp: log_linear_def word_le_nat_alt)
    moreover have "map (program (unat ?w) b (cell s)) [unat (cur_read_addr sd)..<unat ?w] = map (cell s) [unat (cur_read_addr sd)..<unat ?w]"
      by (simp add: program_outside)
    ultimately show ?thesis
      using lin sum map_program [OF er] by (simp add: log_contents_def sd'_def r(2) log_linear_def)
  qed
  ultimately show thesis using that r(1) sum by (simp add: sd'_def)
qed

lemma read_at_cells:
  assumes "callbacks_ok lg cell" and "unat (cur_read_addr sd) + unat n \<le> 2 ^ 32"
  shows "read_at lg n next sd s = (1, map (cell s) [unat (cur_read_addr sd)..<unat (cur_read_addr sd) + unat n],
    sd\<lparr>cur_read_addr := next\<rparr>)"
proof -
  obtain r b where "read_cb lg (cur_read_addr sd) n s = (r, b)" by fastforce
  moreover from this assms have "r \<noteq> 0" "b = map (cell s) [unat (cur_read_addr sd)..<unat (cur_read_addr sd) + unat n]"
    unfolding callbacks_ok_def by (metis fst_conv snd_conv)+
  ultimately show ?thesis by (simp add: read_at_def)
qed

lemma persistence_read_linear:
  assumes cb: "callbacks_ok lg cell" and lin: "log_linear cell sd s" and len: "unat (cur_read_addr sd) + unat n < 2 ^ 32"
  obtains sd' where "persistence_read lg n sd s = (of_bool (log_contents cell sd s \<noteq> []), take (unat n) (log_contents cell sd s), sd')"
    "log_linear cell sd' s" "log_contents cell sd' s = drop (unat n) (log_contents cell sd s)"
    "cur_write_addr sd' = cur_write_addr sd" "erase_addr sd' = erase_addr sd"
proof -
  define r where "r = cur_read_addr sd"
  define e where "e = data_end_addr sd"
  have le: "unat r \<le> unat e" using lin by (auto simp: log_linear_def word_le_nat_alt r_def e_def)
  have c: "log_contents cell sd s = map (cell s) [unat r..<unat e]" by (simp add: log_contents_def r_def e_def)
  have e32: "unat e < 2 ^ 32" using unsigned_less [of e, where 'a = nat] by simp
  consider (none) "r = e" | (all) "r \<noteq> e" "unat r + unat n \<le> unat e" | (part) "r \<noteq> e" "unat e < unat r + unat n" by linarith
  then show thesis
  proof cases
    case none
    then show ?thesis using that [of sd] lin c by (simp add: persistence_read_def r_def e_def)
  next
    case all
    have sum: "unat (r + n) = unat r + unat n" using all(2) e32 by (subst unat_add_lem [THEN iffD1]) simp_all
    have ne: "[unat r..<unat e] \<noteq> []" using all(1) le by (auto simp: word_unat_eq_iff)
    have "data_start_addr sd < e" using lin all(1) le by (simp add: log_linear_def r_def e_def word_less_nat_alt word_le_nat_alt word_unat_eq_iff)
    then have "persistence_read lg n sd s = read_at lg n (r + n) sd s"
      using all sum by (simp add: persistence_read_def r_def e_def word_le_nat_alt)
    then have p: "persistence_read lg n sd s = (1, map (cell s) [unat r..<unat r + unat n], sd\<lparr>cur_read_addr := r + n\<rparr>)"
      using read_at_cells [OF cb, of sd n] len by (simp add: r_def)
    have "log_linear cell (sd\<lparr>cur_read_addr := r + n\<rparr>) s"
      using lin all(2) sum le by (auto simp: log_linear_def word_le_nat_alt r_def e_def)
    moreover have "log_contents cell (sd\<lparr>cur_read_addr := r + n\<rparr>) s = drop (unat n) (log_contents cell sd s)"
      unfolding c using sum by (simp add: log_contents_def e_def [symmetric] drop_map)
    moreover have "take (unat n) (log_contents cell sd s) = map (cell s) [unat r..<unat r + unat n]" "log_contents cell sd s \<noteq> []"
      unfolding c using all(2) ne by (simp_all add: take_map)
    ultimately show ?thesis using that p by simp
  next
    case part
    have ne: "[unat r..<unat e] \<noteq> []" using part(1) le by (auto simp: word_unat_eq_iff)
    have d: "unat (e - r) = unat e - unat r" using le by (simp add: unat_sub word_le_nat_alt)
    have sum: "unat (r + n) = unat r + unat n" using len by (subst unat_add_lem [THEN iffD1]) (simp_all add: r_def)
    have "data_start_addr sd < e" using lin part(1) le by (simp add: log_linear_def r_def e_def word_less_nat_alt word_le_nat_alt word_unat_eq_iff)
    then have "persistence_read lg n sd s = read_at lg (e - r) e sd s"
      using part sum by (simp add: persistence_read_def r_def e_def word_le_nat_alt Let_def)
    then have p: "persistence_read lg n sd s = (1, map (cell s) [unat r..<unat e], sd\<lparr>cur_read_addr := e\<rparr>)"
      using read_at_cells [OF cb, of sd "e - r"] d le e32 by (simp add: r_def)
    have "log_linear cell (sd\<lparr>cur_read_addr := e\<rparr>) s"
      using lin le by (auto simp: log_linear_def word_le_nat_alt r_def e_def)
    moreover have "log_contents cell (sd\<lparr>cur_read_addr := e\<rparr>) s = drop (unat n) (log_contents cell sd s)"
      unfolding c using part(2) by (simp add: log_contents_def e_def [symmetric])
    moreover have "take (unat n) (log_contents cell sd s) = map (cell s) [unat r..<unat e]" "log_contents cell sd s \<noteq> []"
      unfolding c using part(2) ne by simp_all
    ultimately show ?thesis using that p by simp
  qed
qed

text \<open>Runs of writes and reads.\<close>

datatype log_op = Log_write "byte list" | Log_read u32

fun log_run :: "'s mb_persistence \<Rightarrow> log_op list \<Rightarrow> data_section_info \<Rightarrow> 's \<Rightarrow> (byte list \<times> data_section_info \<times> 's) option" where
  "log_run lg [] sd s = Some ([], sd, s)"
| "log_run lg (Log_write b # ops) sd s = do { (r, sd, s) \<leftarrow> persistence_write lg b sd s; log_run lg ops sd s }"
| "log_run lg (Log_read n # ops) sd s = do {
     let (r, bytes, sd) = persistence_read lg n sd s;
     (out, sd, s) \<leftarrow> log_run lg ops sd s;
     Some (bytes @ out, sd, s)
   }"

fun written :: "log_op list \<Rightarrow> byte list" where
  "written [] = []"
| "written (Log_write b # ops) = b @ written ops"
| "written (Log_read n # ops) = written ops"

text \<open>No read is so long that its end wraps around the address space.\<close>

definition short_reads :: "data_section_info \<Rightarrow> log_op list \<Rightarrow> bool" where
  "short_reads sd ops \<longleftrightarrow> (\<forall>n. Log_read n \<in> set ops \<longrightarrow> unat (erase_addr sd) + unat n < 2 ^ 32)"

lemma log_run_linear:
  assumes cb: "callbacks_ok lg cell"
  shows "log_linear cell sd s \<Longrightarrow> unat (cur_write_addr sd) + length (written ops) \<le> unat (erase_addr sd) \<Longrightarrow>
    short_reads sd ops \<Longrightarrow> \<exists>out sd' s'. log_run lg ops sd s = Some (out, sd', s') \<and> log_linear cell sd' s' \<and>
      log_contents cell sd s @ written ops = out @ log_contents cell sd' s'"
proof (induction ops arbitrary: sd s)
  case (Cons p ops)
  show ?case
  proof (cases p)
    case (Log_write b)
    have "unat (cur_write_addr sd) + length b \<le> unat (erase_addr sd)" using Cons.prems(2) Log_write by simp
    then obtain r sd1 s1 where w: "persistence_write lg b sd s = Some (r, sd1, s1)" "log_linear cell sd1 s1"
      "log_contents cell sd1 s1 = log_contents cell sd s @ b" "erase_addr sd1 = erase_addr sd"
      "unat (cur_write_addr sd1) = unat (cur_write_addr sd) + length b"
      using persistence_write_linear [OF cb Cons.prems(1)] by metis
    with Cons.IH [of sd1 s1] Cons.prems Log_write show ?thesis by (auto simp: short_reads_def)
  next
    case (Log_read n)
    have "unat (cur_read_addr sd) \<le> unat (erase_addr sd)" using Cons.prems(1) by (auto simp: log_linear_def word_le_nat_alt)
    then have "unat (cur_read_addr sd) + unat n < 2 ^ 32" using Cons.prems(3) Log_read by (auto simp: short_reads_def)
    then obtain r sd1 where r: "persistence_read lg n sd s = (r, take (unat n) (log_contents cell sd s), sd1)"
      "log_linear cell sd1 s" "log_contents cell sd1 s = drop (unat n) (log_contents cell sd s)"
      "cur_write_addr sd1 = cur_write_addr sd" "erase_addr sd1 = erase_addr sd"
      using persistence_read_linear [OF cb Cons.prems(1)] by metis
    with Cons.IH [of sd1 s] Cons.prems Log_read show ?thesis
      by (auto simp: short_reads_def) (metis append.assoc append_take_drop_id)
  qed
qed simp

section \<open>Properties of the log\<close>

text \<open>C22 (log\_in\_order): a log whose written part has not wrapped around, over a flash whose programming clears
  bits. Any interleaving of writes that fit the erased part with reads that are short enough for 32-bit addresses
  (the end of the erased part and the size add up to less than \<open>2\<^sup>3\<^sup>2\<close>; the address behind a longer read wraps
  in \<^verbatim>\<open>persistence_read\<close>) runs without error, and the bytes read followed by the bytes still unread are
  exactly the bytes unread at the start followed by the bytes written, in order.\<close>

theorem log_in_order:
  assumes "callbacks_ok lg cell" and "log_linear cell sd s"
    and "unat (cur_write_addr sd) + length (written ops) \<le> unat (erase_addr sd)" and "short_reads sd ops"
  shows "\<exists>out sd' s'. log_run lg ops sd s = Some (out, sd', s') \<and>
      log_contents cell sd s @ written ops = out @ log_contents cell sd' s'"
  using log_run_linear [OF assms] by blast

text \<open>A flash as an array of cells.\<close>

definition array_flash :: "(nat \<Rightarrow> byte) flash_driver" where
  "array_flash = \<lparr>mb_flash_write = (\<lambda>a b f. (True, program (unat a) b f)),
     mb_flash_write_word = (\<lambda>a v. program (unat a) (word_bytes v)),
     mb_flash_read = (\<lambda>a n f. (1, map f [unat a..<unat a + unat n])),
     mb_flash_erase = (\<lambda>a n f. (True, \<lambda>x. if unat a \<le> x \<and> x < unat a + unat n then 0xFF else f x)),
     flash_sector_size = (\<lambda>a. if a < 0x08010000 then 0x4000 else if a < 0x08020000 then 0x10000 else 0x20000),
     get_falsh_sector = (\<lambda>a. if a < 0x08010000 then 3 else if a < 0x08020000 then 4 else 5), FLASH_Sector_5 = 5,
     FLASH_ADDR_HEAD = 0x0800C000, FLASH_ADDR_SECTOR1 = 0x08010000, FLASH_ADDR_SECTOR2 = 0x08020000\<rparr>"

lemma array_callbacks: "lg_opr (snd (log_init array_flash lg)) = Some opr \<Longrightarrow> callbacks_ok opr fst"
  by (auto simp: log_init_def persistence_init_def callbacks_ok_def write_function_def read_function_def array_flash_def)

definition fresh_log :: "(nat \<Rightarrow> byte) mb_logger" where
  "fresh_log = snd (log_init array_flash (logger_handler (\<lambda>_. 0xFF)))"

lemma fresh_log_fields: "lg_opr fresh_log = Some (the (lg_opr fresh_log))" "lg_config fresh_log = lg_config (logger_handler (\<lambda>_ :: nat. 0xFF :: byte))"
  by (simp_all add: fresh_log_def log_init_def persistence_init_def)

lemma fresh_callbacks: "callbacks_ok (the (lg_opr fresh_log)) fst"
  by (rule array_callbacks [of "logger_handler (\<lambda>_. 0xFF)"]) (simp add: fresh_log_def log_init_def persistence_init_def)

lemma fresh_log_linear: "log_linear fst (lg_config fresh_log) ((\<lambda>_. 0xFF), h :: u32)"
  by (simp add: log_linear_def fresh_log_fields(2) logger_handler_def LOG_START_ADDR_def LOG_ERASE_ADDR_def LOG_END_ADDR_def)

theorem log_in_order_witness:
  "\<exists>out sd' s'. log_run (the (lg_opr fresh_log)) [Log_write [1, 2, 3], Log_read 2, Log_write [4], Log_read 9]
      (lg_config fresh_log) ((\<lambda>_. 0xFF), 0) = Some (out, sd', s') \<and>
    log_contents fst (lg_config fresh_log) ((\<lambda>_. 0xFF), 0 :: u32) @
      written [Log_write [1, 2, 3], Log_read 2, Log_write [4], Log_read 9] = out @ log_contents fst sd' s'"
  by (rule log_in_order [OF fresh_callbacks fresh_log_linear])
    (auto simp: short_reads_def fresh_log_fields(2) logger_handler_def LOG_START_ADDR_def LOG_ERASE_ADDR_def LOG_END_ADDR_def)

lemma erase_ahead_fields:
  assumes "erase_ahead lg len sd s = (sd', s')"
  shows "start_addr sd' = start_addr sd" "end_addr sd' = end_addr sd" "cur_write_addr sd' = cur_write_addr sd"
  using assms by (auto simp: erase_ahead_def Let_def split: if_splits prod.splits)

lemma erase_ahead_write: "erase_ahead (lg\<lparr>write_cb := w\<rparr>) len sd s = erase_ahead lg len sd s"
  by (simp add: erase_ahead_def)

text \<open>C27 (log\_writes\_inside): a write of at most the size of the section, from a write position inside it, always
  succeeds in the model and only writes to the flash inside the section: replacing the write callback by one
  that differs on any other range does not change what happens. The new write position is inside the section
  again and is the end of the data.\<close>

theorem log_writes_inside:
  assumes "unat (start_addr sd) \<le> unat (cur_write_addr sd)" and "unat (cur_write_addr sd) \<le> unat (end_addr sd)"
    and "length b \<le> unat (end_addr sd) - unat (start_addr sd)" and "2 * unat (end_addr sd) < 2 ^ 32"
    and "\<And>a c s. unat (start_addr sd) \<le> unat a \<Longrightarrow> unat a + length c \<le> unat (end_addr sd) \<Longrightarrow> w a c s = write_cb lg a c s"
  shows "\<exists>r sd' s'. persistence_write lg b sd s = Some (r, sd', s') \<and>
    persistence_write (lg\<lparr>write_cb := w\<rparr>) b sd s = Some (r, sd', s') \<and>
    start_addr sd' = start_addr sd \<and> end_addr sd' = end_addr sd \<and> start_addr sd \<le> cur_write_addr sd' \<and>
    cur_write_addr sd' \<le> end_addr sd \<and> data_end_addr sd' = cur_write_addr sd'"
proof -
  let ?a = "cur_write_addr sd" and ?e = "end_addr sd" and ?st = "start_addr sd"
  have len: "unat (of_nat (length b) :: u32) = length b" using assms(3,4) by (simp add: unat_of_nat)
  have sum: "unat (?a + of_nat (length b)) = unat ?a + length b" using assms len by (subst unat_add_lem [THEN iffD1]) simp_all
  show ?thesis
  proof (cases "?a + of_nat (length b) \<le> ?e")
    case True
    obtain sd1 s1 where e: "erase_ahead lg (of_nat (length b)) sd s = (sd1, s1)" by fastforce
    have e': "erase_ahead (lg\<lparr>write_cb := w\<rparr>) (of_nat (length b)) sd s = (sd1, s1)" using e by (simp only: erase_ahead_write)
    note f = erase_ahead_fields [OF e]
    have fit: "unat ?a + length b \<le> unat ?e" using True sum by (simp add: word_le_nat_alt)
    obtain r s2 where r: "write_cb lg ?a b s1 = (r, s2)" by fastforce
    then have "w ?a b s1 = (r, s2)" using assms(1,5) fit by simp
    then show ?thesis using True e e' r f fit sum assms(1,2)
      by (auto simp: persistence_write_def word_le_nat_alt)
  next
    case False
    define n where "n = unat (?e - ?a)"
    have n: "n = unat ?e - unat ?a" using assms(2) by (simp add: n_def unat_sub word_le_nat_alt)
    have more: "n \<le> length b" using False sum n by (simp add: word_le_nat_alt)
    obtain r1 s1 where r1: "write_cb lg ?a (take n b) s = (r1, s1)" by fastforce
    then have w1: "w ?a (take n b) s = (r1, s1)" using assms(1,2,5) n by simp
    obtain r2 s2 where r2: "erase_cb lg ?st (get_flash_sector_size lg ?st) s1 = (r2, s2)" by fastforce
    obtain r3 s3 where r3: "write_cb lg ?st (drop n b) s2 = (r3, s3)" by fastforce
    then have w3: "w ?st (drop n b) s2 = (r3, s3)" using assms(1,2,3,5) n by simp
    have m: "unat (of_nat (length b) - (?e - ?a)) = length b - n"
      using more len by (subst unat_sub) (simp_all add: word_le_nat_alt n_def)
    then have "unat (?st + (of_nat (length b) - (?e - ?a))) = unat ?st + (length b - n)"
      using assms(1-4) by (subst unat_add_lem [THEN iffD1]) simp_all
    moreover have "unat ?st \<le> unat ?st + length b - n" "unat ?st + length b - n \<le> unat ?e" using more assms(1-3) by linarith+
    ultimately show ?thesis using False more r1 w1 r2 r3 w3 assms(1,2,3)
      by (cases "r3 = 0") (simp_all add: persistence_write_def n_def [symmetric] word_le_nat_alt Let_def)
  qed
qed

theorem log_writes_inside_witness:
  "\<exists>r sd' s'. persistence_write (the (lg_opr fresh_log)) [7, 8] (lg_config fresh_log) ((\<lambda>_. 0xFF), 0) = Some (r, sd', s') \<and>
    persistence_write ((the (lg_opr fresh_log))\<lparr>write_cb := write_cb (the (lg_opr fresh_log))\<rparr>) [7, 8] (lg_config fresh_log)
      ((\<lambda>_. 0xFF), 0) = Some (r, sd', s') \<and>
    start_addr sd' = start_addr (lg_config fresh_log) \<and> end_addr sd' = end_addr (lg_config fresh_log) \<and>
    start_addr (lg_config fresh_log) \<le> cur_write_addr sd' \<and>
    cur_write_addr sd' \<le> end_addr (lg_config fresh_log) \<and> data_end_addr sd' = cur_write_addr sd'"
  by (rule log_writes_inside)
    (simp_all add: fresh_log_fields(2) logger_handler_def LOG_START_ADDR_def LOG_END_ADDR_def)

text \<open>C28 (log\_start\_lost): the log after it has wrapped around once, with the sectors of 64 and 128 KB the comments name.
  The write that passes into the second sector erases it and sets the start of the data to its end, which is
  one past the last address of the section and so is not recognised as its end: the start of the data is
  outside the section, and reading the log from its start asks the flash for \<open>2 ^ 32 - 1\<close> bytes.\<close>

theorem log_start_lost:
  assumes "start_addr sd = LOG_START_ADDR" and "end_addr sd = LOG_END_ADDR" and "erase_addr sd = 0x08020000"
    and "get_flash_sector_size lg 0x08020000 = 0x20000"
    and "0x08020000 < cur_write_addr sd + of_nat (length b)" and "cur_write_addr sd + of_nat (length b) \<le> LOG_END_ADDR"
    and "cur_write_addr sd \<le> 0x08020000" and "unat n < 2 ^ 31"
  shows "\<exists>r sd' s'. persistence_write lg b sd s = Some (r, sd', s') \<and> data_start_addr sd' = 0x08040000 \<and>
    end_addr sd' < data_start_addr sd' \<and>
    (let sd'' = sd'\<lparr>cur_read_addr := data_start_addr sd'\<rparr>
     in persistence_read lg n sd'' s' = read_at lg 0xFFFFFFFF LOG_START_ADDR sd'' s')"
proof -
  obtain r1 s1 where e: "erase_cb lg 0x08020000 0x20000 s = (r1, s1)" by fastforce
  obtain r2 s2 where w: "write_cb lg (cur_write_addr sd) b s1 = (r2, s2)" by fastforce
  define sd' where "sd' = (let sd1 = sd\<lparr>erase_addr := 0x08040000, data_start_addr := 0x08040000\<rparr>;
      sd2 = (if r2 \<noteq> 0 then sd1\<lparr>cur_write_addr := cur_write_addr sd + of_nat (length b)\<rparr> else sd1)
    in sd2\<lparr>data_end_addr := cur_write_addr sd2\<rparr>)"
  have p: "persistence_write lg b sd s = Some (r2, sd', s2)"
    using assms e w by (simp add: persistence_write_def erase_ahead_def sd'_def LOG_END_ADDR_def Let_def)
  have f: "start_addr sd' = LOG_START_ADDR" "end_addr sd' = 0x0803FFFF" "data_start_addr sd' = 0x08040000"
    "data_end_addr sd' \<le> 0x0803FFFF"
    using assms(1,2,6,7) by (auto simp: sd'_def Let_def LOG_END_ADDR_def word_le_nat_alt)
  have m1: "(- 1 :: u32) = 0xFFFFFFFF" by code_simp
  have g: "data_end_addr sd' \<noteq> 0x08040000" "\<not> 0x08040000 < data_end_addr sd'"
    using f(4) by (auto simp: word_le_nat_alt word_less_nat_alt)
  have "unat (0x08040000 + n) = 0x08040000 + unat n" using assms(8) by (subst unat_add_lem [THEN iffD1]) simp_all
  then have "\<not> 0x08040000 + n \<le> 0x0803FFFF" by (simp add: word_le_nat_alt)
  then have "persistence_read lg n (sd'\<lparr>cur_read_addr := data_start_addr sd'\<rparr>) s2 =
      read_at lg 0xFFFFFFFF LOG_START_ADDR (sd'\<lparr>cur_read_addr := data_start_addr sd'\<rparr>) s2"
    using f g by (simp add: persistence_read_def Let_def) (simp only: m1)
  then show ?thesis using p f by (intro exI [of _ r2] exI [of _ sd'] exI [of _ s2]) (simp add: Let_def)
qed

theorem log_start_lost_witness:
  "\<exists>r sd' s'. persistence_write (the (lg_opr fresh_log)) [7, 8]
      ((lg_config fresh_log)\<lparr>cur_write_addr := 0x0801FFFF, erase_addr := 0x08020000\<rparr>) ((\<lambda>_. 0xFF), 0) = Some (r, sd', s') \<and>
    data_start_addr sd' = 0x08040000 \<and> end_addr sd' < data_start_addr sd' \<and>
    (let sd'' = sd'\<lparr>cur_read_addr := data_start_addr sd'\<rparr>
     in persistence_read (the (lg_opr fresh_log)) 64 sd'' s' = read_at (the (lg_opr fresh_log)) 0xFFFFFFFF LOG_START_ADDR sd'' s')"
  by (rule log_start_lost)
    (simp_all add: fresh_log_fields(2) logger_handler_def LOG_START_ADDR_def LOG_END_ADDR_def,
     simp_all add: fresh_log_def log_init_def persistence_init_def array_flash_def)

section \<open>The header slots\<close>

lemma bytes_word_bytes: "bytes_word (word_bytes w @ rest) = w"
proof (rule bit_word_eqI)
  fix n assume "n < LENGTH(32)"
  then have n: "n < 32" by simp
  then consider "n < 8" | "8 \<le> n" "n < 16" | "16 \<le> n" "n < 24" | "24 \<le> n" by linarith
  then show "bit (bytes_word (word_bytes w @ rest)) n \<longleftrightarrow> bit w n"
    using n by cases (auto simp: bytes_word_def word_bytes_def bit_simps)
qed

lemma length_word_bytes [simp]: "length (word_bytes w) = 4"
  by (simp add: word_bytes_def)

lemma length_section_bytes [simp]: "length (section_bytes sd) = 36"
  by (simp add: section_bytes_def)

lemma bytes_section_bytes: "bytes_section (section_bytes sd) = sd"
  by (cases sd) (simp add: bytes_section_def section_bytes_def bytes_word_bytes Let_def
      bytes_word_bytes [of _ "[]", simplified])

text \<open>The driver programs and reads the addressed cells.\<close>

definition driver_ok :: "'f flash_driver \<Rightarrow> ('f \<Rightarrow> nat \<Rightarrow> byte) \<Rightarrow> bool" where
  "driver_ok fl cell \<longleftrightarrow>
     (\<forall>a b f. unat a + length b \<le> 2 ^ 32 \<longrightarrow> cell (snd (mb_flash_write fl a b f)) = program (unat a) b (cell f)) \<and>
     (\<forall>a v f. unat a + 4 \<le> 2 ^ 32 \<longrightarrow> cell (mb_flash_write_word fl a v f) = program (unat a) (word_bytes v) (cell f)) \<and>
     (\<forall>a n f. unat a + unat n \<le> 2 ^ 32 \<longrightarrow> snd (mb_flash_read fl a n f) = map (cell f) [unat a..<unat a + unat n])"

definition slot :: "nat \<Rightarrow> nat" where
  "slot k = 0x0800C000 + 36 * k"

text \<open>After \<open>k\<close> headers: the last one is \<open>c\<close>, the earlier ones are marked invalid, the rest is erased.\<close>

definition heads :: "(nat \<Rightarrow> byte) \<Rightarrow> nat \<Rightarrow> data_section_info \<Rightarrow> bool" where
  "heads m k c \<longleftrightarrow> (\<forall>i. Suc i = k \<longrightarrow> map m [slot i..<slot (Suc i)] = section_bytes c) \<and>
     (\<forall>i. Suc i < k \<longrightarrow> map m [slot i + 32..<slot i + 36] = [0, 0, 0, 0]) \<and>
     (\<forall>x. slot k \<le> x \<and> x < 0x08010000 \<longrightarrow> m x = 0xFF)"

lemma unat_slot: "k < 456 \<Longrightarrow> unat (FLASH_START_ADDR + of_nat k * get_head_size) = slot k"
proof -
  assume k: "k < 456"
  have "unat (of_nat k * get_head_size) = 36 * k" using k by (simp add: get_head_size_def unat_word_ariths unat_of_nat)
  then show ?thesis using k by (subst unat_add_lem [THEN iffD1]) (simp_all add: FLASH_START_ADDR_def slot_def)
qed

lemma head_index_valid: "k < 456 \<Longrightarrow> is_valid_head_index (of_nat k) \<longleftrightarrow> k < 455"
proof -
  assume k: "k < 456"
  have "unat ((of_nat k + 1) * get_head_size) = 36 * (k + 1)" using k by (simp add: get_head_size_def unat_word_ariths unat_of_nat)
  then show ?thesis by (auto simp: is_valid_head_index_def LOG_HEAD_SPACE_SIZE_def word_less_nat_alt)
qed

lemma heads_invalidate:
  assumes "heads m (Suc k) c" and that: "i \<le> k"
  shows "map (program (slot k + 32) [0, 0, 0, 0] m) [slot i + 32..<slot i + 36] = [0, 0, 0, 0]"
proof (cases "i = k")
  case True
  then show ?thesis by (simp add: program_def upt_conv_Cons numeral_eq_Suc)
next
  case False
  then have "map (program (slot k + 32) [0, 0, 0, 0] m) [slot i + 32..<slot i + 36] = map m [slot i + 32..<slot i + 36]"
    using that by (intro map_cong refl program_outside) (auto simp: slot_def)
  also have "\<dots> = [0, 0, 0, 0]" using assms(1) False that unfolding heads_def by simp
  finally show ?thesis .
qed

lemma flush_heads:
  assumes d: "driver_ok fl cell" and h: "heads (cell (lg_flash lg)) k c" and k: "head_index lg = of_nat k" "k < 455"
  shows "heads (cell (lg_flash (flush_head_index fl lg))) (Suc k) (lg_config lg)"
    "head_index (flush_head_index fl lg) = of_nat (Suc k)"
proof -
  define f1 where "f1 = (if k = 0 then lg_flash lg else set_head_index_invalid fl (of_nat (k - 1)) (lg_flash lg))"
  have km: "(of_nat k :: u32) - 1 = of_nat (k - 1)" if "k \<noteq> 0" using that by (cases k) simp_all
  have k0: "(0 :: u32) < of_nat k \<longleftrightarrow> k \<noteq> 0" using k(2) by (simp add: word_less_nat_alt unat_of_nat)
  have fl: "flush_head_index fl lg = lg\<lparr>lg_flash := snd (mb_flash_write fl (FLASH_START_ADDR + of_nat k * get_head_size)
      (section_bytes (lg_config lg)) f1), head_index := of_nat k + 1\<rparr>"
    using k head_index_valid [of k] k0 km by (auto simp: flush_head_index_def f1_def Let_def)
  then show "head_index (flush_head_index fl lg) = of_nat (Suc k)" by (simp add: add.commute)
  have u: "unat (FLASH_START_ADDR + of_nat k * get_head_size) = slot k" using k(2) by (intro unat_slot) simp
  have b: "slot k + 36 \<le> 0x08010000" using k(2) by (simp add: slot_def)
  define m1 where "m1 = cell f1"
  have m2: "cell (lg_flash (flush_head_index fl lg)) = program (slot k) (section_bytes (lg_config lg)) m1"
    using d u b unfolding driver_ok_def fl m1_def by simp
  have m1: "m1 = (if k = 0 then cell (lg_flash lg) else program (slot (k - 1) + 32) [0, 0, 0, 0] (cell (lg_flash lg)))"
  proof (cases k)
    case (Suc j)
    have "set_head_index_invalid fl (of_nat j) (lg_flash lg) =
        mb_flash_write_word fl (FLASH_START_ADDR + of_nat j * get_head_size + 32) 0 (lg_flash lg)"
      by (simp add: set_head_index_invalid_def get_head_size_def add.commute)
    moreover have "unat (FLASH_START_ADDR + of_nat j * get_head_size + 32) = slot j + 32"
      using k(2) Suc unat_slot [of j] by (subst unat_add_lem [THEN iffD1]) (simp_all add: slot_def)
    moreover have "word_bytes 0 = [0, 0, 0, 0]" by (simp add: word_bytes_def)
    ultimately show ?thesis using d k(2) Suc
      by (simp add: m1_def f1_def driver_ok_def slot_def)
  qed (simp add: m1_def f1_def)
  have er: "m1 x = 0xFF" if "slot k \<le> x" "x < 0x08010000" for x
  proof -
    have "m1 x = cell (lg_flash lg) x" using that unfolding m1 by (auto intro!: program_outside simp: slot_def)
    then show ?thesis using h that by (simp add: heads_def)
  qed
  show "heads (cell (lg_flash (flush_head_index fl lg))) (Suc k) (lg_config lg)"
    unfolding heads_def m2
  proof (intro conjI allI impI)
    show "map (program (slot k) (section_bytes (lg_config lg)) m1) [slot i..<slot (Suc i)] = section_bytes (lg_config lg)"
      if "Suc i = Suc k" for i
      using map_program [of "slot k" "section_bytes (lg_config lg)" m1] er b that by (simp add: slot_def)
    show "map (program (slot k) (section_bytes (lg_config lg)) m1) [slot i + 32..<slot i + 36] = [0, 0, 0, 0]"
      if "Suc i < Suc k" for i
    proof -
      have "map (program (slot k) (section_bytes (lg_config lg)) m1) [slot i + 32..<slot i + 36] = map m1 [slot i + 32..<slot i + 36]"
        using that by (intro map_cong refl program_outside) (auto simp: slot_def)
      also have "\<dots> = [0, 0, 0, 0]" using heads_invalidate [of "cell (lg_flash lg)" "k - 1" c i] h that by (simp add: m1)
      finally show ?thesis .
    qed
    show "program (slot k) (section_bytes (lg_config lg)) m1 x = 0xFF" if "slot (Suc k) \<le> x \<and> x < 0x08010000" for x
      using that er by (subst program_outside) (auto simp: slot_def)
  qed
qed

text \<open>The search passes the invalid headers and stops at the last one.\<close>

lemma read_slot:
  assumes "driver_ok fl cell" and "i < 455"
  shows "snd (mb_flash_read fl (FLASH_START_ADDR + of_nat i * get_head_size) get_head_size f) = map (cell f) [slot i..<slot (Suc i)]"
proof -
  have u: "unat (FLASH_START_ADDR + of_nat i * get_head_size) = slot i" using assms(2) by (intro unat_slot) simp
  have "unat (FLASH_START_ADDR + of_nat i * get_head_size) + unat get_head_size = slot (Suc i)"
    unfolding u by (simp add: get_head_size_def slot_def)
  moreover have "slot (Suc i) \<le> 2 ^ 32" using assms(2) by (simp add: slot_def)
  ultimately show ?thesis using assms(1) u unfolding driver_ok_def by metis
qed

lemma invalid_head:
  assumes "map m [slot i + 32..<slot i + 36] = [0, 0, 0, 0]"
  shows "ds_valid (bytes_section (map m [slot i..<slot (Suc i)])) = 0"
proof -
  have "drop 32 (map m [slot i..<slot (Suc i)]) = [0, 0, 0, 0]" using assms by (simp add: drop_map slot_def add.commute)
  then show ?thesis by (simp add: bytes_section_def Let_def bytes_word_def)
qed

lemma find_head:
  assumes d: "driver_ok fl cell" and h: "heads (cell f) (Suc k) c" and k: "k < 455"
    and c: "ds_magic c = MAGIC" "ds_valid c = HEAD_VALID_FLAG" and i: "i \<le> k"
  shows "find_head_loop fl f cfg (of_nat i) = (True, c, of_nat (Suc k))"
  using i
proof (induction rule: inc_induct)
  case base
  have "bytes_section (map (cell f) [slot k..<slot (Suc k)]) = c" using h by (simp add: heads_def bytes_section_bytes)
  then show ?case using k head_index_valid [of k] c
    by (subst find_head_loop.simps) (simp add: read_slot [OF d k] Let_def add.commute)
next
  case (step i)
  have i: "i < 455" "Suc i < Suc k" using step k by simp_all
  have "ds_valid (bytes_section (map (cell f) [slot i..<slot (Suc i)])) = 0"
    by (rule invalid_head) (use h i in \<open>simp add: heads_def\<close>)
  then have "find_head_loop fl f cfg (of_nat i) = find_head_loop fl f cfg (of_nat i + 1)"
    using i head_index_valid [of i]
    by (subst find_head_loop.simps) (simp add: read_slot [OF d i(1)] Let_def HEAD_VALID_FLAG_def)
  then show ?case using step by (simp add: add.commute)
qed

text \<open>The headers a logger writes one after another.\<close>

definition flush_all :: "'f flash_driver \<Rightarrow> data_section_info list \<Rightarrow> 'f mb_logger \<Rightarrow> 'f mb_logger" where
  "flush_all fl cs lg = fold (\<lambda>c lg. flush_head_index fl (lg\<lparr>lg_config := c\<rparr>)) cs lg"

lemma flush_all_heads:
  assumes "driver_ok fl cell"
  shows "heads (cell (lg_flash lg)) k c \<Longrightarrow> head_index lg = of_nat k \<Longrightarrow> k + length cs \<le> 455 \<Longrightarrow>
    heads (cell (lg_flash (flush_all fl cs lg))) (k + length cs) (if cs = [] then c else last cs)"
proof (induction cs arbitrary: lg k c)
  case (Cons c' cs)
  let ?lg = "flush_head_index fl (lg\<lparr>lg_config := c'\<rparr>)"
  have "heads (cell (lg_flash ?lg)) (Suc k) c'" "head_index ?lg = of_nat (Suc k)"
    using flush_heads [OF assms, of "lg\<lparr>lg_config := c'\<rparr>" k c] Cons.prems by simp_all
  from Cons.IH [OF this] Cons.prems(3) show ?case by (simp add: flush_all_def)
qed (simp add: flush_all_def)

text \<open>C25 (head\_recovery): from an erased header space, after a logger has written up to 455 headers one after the
  other, the search of a restarted logger finds the last of them and continues behind it.\<close>

theorem head_recovery:
  assumes "driver_ok fl cell" and "\<And>x. slot 0 \<le> x \<Longrightarrow> x < 0x08010000 \<Longrightarrow> cell f x = 0xFF"
    and "cs \<noteq> []" and "length cs \<le> 455" and "ds_magic (last cs) = MAGIC" and "ds_valid (last cs) = HEAD_VALID_FLAG"
  shows "find_valid_head_index fl (logger_handler (lg_flash (flush_all fl cs (logger_handler f)))) =
    (True, (logger_handler (lg_flash (flush_all fl cs (logger_handler f))))\<lparr>lg_config := last cs, head_index := of_nat (length cs)\<rparr>)"
proof -
  have "heads (cell (lg_flash (logger_handler f))) 0 (last cs)" using assms(2) by (simp add: heads_def logger_handler_def)
  then have "heads (cell (lg_flash (flush_all fl cs (logger_handler f)))) (0 + length cs) (if cs = [] then last cs else last cs)"
    by (rule flush_all_heads [OF assms(1)]) (use assms(4) in \<open>simp_all add: logger_handler_def\<close>)
  then have h: "heads (cell (lg_flash (flush_all fl cs (logger_handler f)))) (Suc (length cs - 1)) (last cs)"
    using assms(3) by simp
  have "length cs - 1 < 455" using assms(3,4) by (cases cs) auto
  from find_head [OF assms(1) h this assms(5,6), of 0] show ?thesis
    using assms(3) head_index_valid [of 0] by (simp add: find_valid_head_index_def logger_handler_def)
qed

lemma array_driver: "driver_ok array_flash id"
  by (simp add: driver_ok_def array_flash_def)

theorem head_recovery_witness:
  "find_valid_head_index array_flash (logger_handler (lg_flash (flush_all array_flash
      [lg_config fresh_log, (lg_config fresh_log)\<lparr>cur_write_addr := 0x08010010\<rparr>] (logger_handler (\<lambda>_. 0xFF))))) =
    (True, (logger_handler (lg_flash (flush_all array_flash
      [lg_config fresh_log, (lg_config fresh_log)\<lparr>cur_write_addr := 0x08010010\<rparr>] (logger_handler (\<lambda>_. 0xFF)))))
      \<lparr>lg_config := last [lg_config fresh_log, (lg_config fresh_log)\<lparr>cur_write_addr := 0x08010010\<rparr>],
        head_index := of_nat (length [lg_config fresh_log, (lg_config fresh_log)\<lparr>cur_write_addr := 0x08010010\<rparr>])\<rparr>)"
  by (rule head_recovery [OF array_driver]) (simp_all add: fresh_log_fields(2) logger_handler_def)

end
