(* ===== verification/Schema_Safety.thy ===== *)
theory Schema_Safety
  imports Pb_Schema
begin

text \<open>
  The receiving side of remote calls (\<^verbatim>\<open>data_schema/pb_schema.c\<close>) on payloads that no client produced:
  what every parser does with arbitrary bytes, and where the reception is weaker than it looks: names
  of the full length, byte fields of the wrong wire type, arguments that cannot be encoded.
\<close>

section \<open>Arbitrary arguments\<close>

primrec arity :: "PB_TYPE_INDEX \<Rightarrow> nat" where
  "arity PB_0 = 0" | "arity PB_1 = 1" | "arity PB_2 = 2" | "arity PB_12 = 3" | "arity PB_112 = 4"
| "arity PB_113 = 3" | "arity PB_111 = 3" | "arity PB_1111 = 4" | "arity PB_1112 = 5"

definition decode_error :: SMART_DATA where
  "decode_error = MAKE_INTEGER (errcode_word MBLUE_ERR_PB_DECODE)"

text \<open>What a parser on arbitrary input answers: it reports a decoding error and leaves the system alone, or
  it calls the function, with the words \<open>args\<close> takes from the memory.\<close>

definition answers ::
    "'w service \<Rightarrow> (u32 list \<Rightarrow> bool) \<Rightarrow> pb_istream \<Rightarrow> (cmem \<Rightarrow> bool) \<Rightarrow> 'w \<Rightarrow> (SMART_DATA \<times> dec_state \<times> 'w) option \<Rightarrow> bool" where
  "answers f A t M w r \<longleftrightarrow> (\<exists>t' m'. steps t t' \<and> M m' \<and>
     (r = Some (decode_error, (t', m'), w) \<or> (\<exists>args. A args \<and> r = call_service f args (t', m') w)))"

lemma answers_mono:
  "\<lbrakk>answers f A t M w r; \<And>m. M m \<Longrightarrow> M' m; \<And>args. A args \<Longrightarrow> A' args\<rbrakk> \<Longrightarrow> answers f A' t M' w r"
  unfolding answers_def by blast

lemma answers_error: "\<lbrakk>steps t t'; M m'\<rbrakk> \<Longrightarrow> answers f A t M w (Some (decode_error, (t', m'), w))"
  and answers_call: "\<lbrakk>steps t t'; M m'; A args\<rbrakk> \<Longrightarrow> answers f A t M w (call_service f args (t', m') w)"
  unfolding answers_def by blast+

lemma parse_out:
  assumes "flat fs" and "carried fs vs" and "sinks fs vs var b" and "\<forall>f\<in>set fs. fd_ptr f = Pb_Null"
    and a: "armed FN_GET_BYTES fs vs var b m" and t: "sound t"
  shows "answers f (\<lambda>as. \<exists>m'. as = args m') t (kept FN_GET_BYTES fs vs var b m) w
    (parse_call (schema_env buf) fs args var f (t, m) w)"
proof -
  have k: "kept FN_GET_BYTES fs vs var b m m" using a by (simp add: kept_def)
  have "mout (kept FN_GET_BYTES fs vs var b m) t (\<lambda>_. True)
      (pb_decode_delimited (Suc 0) (schema_env buf) fs var (t, m))"
    using schema.safe_decode [OF assms(1-4)] t k unfolding safe_def by blast
  then show ?thesis
    by (cases "pb_decode_delimited (Suc 0) (schema_env buf) fs var (t, m)")
       (auto simp: parse_call_def schema_depth_def decode_error_def [symmetric] intro!: answers_error answers_call)
qed

text \<open>What a parser may touch: its struct and its bundler.\<close>

definition frame_area :: "frame \<Rightarrow> int set" where
  "frame_area fr = {fst fr ..< fst fr + 20} \<union> {snd fr ..< snd fr + 8}"

lemma parse_frame:
  assumes m: "\<And>j. j < length fs \<Longrightarrow> member fs var j \<subseteq> {var ..< var + 20}"
    and k: "kept gb fs vs var (\<lambda>_. bdl) m m'" and x: "x \<notin> frame_area (var, bdl)"
  shows "m' x = m x"
proof -
  have "x \<notin> member fs var j \<and> x \<notin> region fs vs var (\<lambda>_. bdl) j" if "j < length fs" for j
    using m [OF that] x by (cases "is_bytes (vs ! j)") (auto simp: frame_area_def region_member region_bundler)
  then show ?thesis using k by (simp add: kept_def)
qed

lemma init_frame:
  assumes "0 \<le> d" "d \<le> 12" "x \<notin> frame_area (var, bdl)"
  shows "INIT_PB_DECODE_DATA_STRUCT (var, bdl) d m x = m x"
  using assms by (auto simp: INIT_PB_DECODE_DATA_STRUCT_def frame_area_def Let_def store32_other)

lemma parse_ints_out:
  assumes "flat fs" and "carried fs vs" and nb: "\<forall>v\<in>set vs. \<not> is_bytes v" and "\<forall>f\<in>set fs. fd_ptr f = Pb_Null"
    and m: "\<And>j. j < length fs \<Longrightarrow> member fs var j \<subseteq> {var ..< var + 20}" and t: "sound t"
    and n: "\<And>m. length (args m) = n"
  shows "answers f (\<lambda>as. length as = n) t (\<lambda>m'. \<forall>x. x \<notin> frame_area (var, bdl) \<longrightarrow> m' x = m x) w
    (parse_call (schema_env buf) fs args var f (t, m) w)"
proof -
  have l: "length vs = length fs" using assms(2) by (simp add: carried_def)
  note o = parse_out [where b = "\<lambda>_. bdl", OF assms(1,2) no_sinks [OF nb l] assms(4) no_armed [OF nb l] t]
  have "m' x = m x" if "kept FN_GET_BYTES fs vs var (\<lambda>_. bdl) m m'" "x \<notin> frame_area (var, bdl)" for x m'
    using that by (rule parse_frame [rotated]) (rule m)
  then show ?thesis by (intro answers_mono [OF o]) (auto simp: n)
qed

lemma parse_bytes_out:
  assumes "flat fs" and "carried fs vs" and k: "length fs = Suc k" and nb: "\<forall>i<k. \<not> is_bytes (vs ! i)"
    and "\<forall>f\<in>set fs. fd_ptr f = Pb_Null"
    and f: "frame_ok (var, bdl)" and d: "0 \<le> d" "d \<le> 12" "field_addr fs var k = var + d"
    and m: "\<And>j. j < length fs \<Longrightarrow> member fs var j \<subseteq> {var ..< var + 20}" and t: "sound t"
    and n: "\<And>m. length (args m) = n"
  shows "answers g (\<lambda>as. length as = n) t (\<lambda>m'. \<forall>x. x \<notin> frame_area (var, bdl) \<longrightarrow> m' x = m0 x) w
    (parse_call (schema_env buf) fs args var g (t, INIT_PB_DECODE_DATA_STRUCT (var, bdl) d m0) w)"
proof -
  have pos: "0 < field_addr fs var k" using f d by (simp add: frame_ok_def)
  let ?m = "INIT_PB_DECODE_DATA_STRUCT (var, bdl) d m0"
  note o = parse_out [OF assms(1,2) frame_sinks [OF f k pos nb m] assms(5) init_armed [OF f d(1,2) k d(3) nb] t]
  have "m' x = m0 x" if o: "kept FN_GET_BYTES fs vs var (\<lambda>_. bdl) ?m m'" and x: "x \<notin> frame_area (var, bdl)" for x m'
  proof -
    have "m' x = ?m x" using o x by (rule parse_frame [rotated]) (rule m)
    then show ?thesis using init_frame [OF d(1,2) x] by simp
  qed
  then show ?thesis by (intro answers_mono [OF o]) (auto simp: n)
qed

lemma int_members_in_frame:
  "j < length dl_1_fields \<Longrightarrow> member dl_1_fields var j \<subseteq> {var ..< var + 20}"
  "j < length dl_111_fields \<Longrightarrow> member dl_111_fields var j \<subseteq> {var ..< var + 20}"
  "j < length dl_1111_fields \<Longrightarrow> member dl_1111_fields var j \<subseteq> {var ..< var + 20}"
proof -
  have len: "length dl_1_fields = Suc 0" "length dl_111_fields = Suc (Suc (Suc 0))"
    "length dl_1111_fields = Suc (Suc (Suc (Suc 0)))"
    by (simp_all add: field_tables)
  have s1: "data_size (dl_1_fields ! 0) = 4" by (simp add: field_tables layout_defs)
  show "j < length dl_1_fields \<Longrightarrow> member dl_1_fields var j \<subseteq> {var ..< var + 20}"
    unfolding len by (auto simp: member_def addr_1 s1)
  have s3: "data_size (dl_111_fields ! 0) = 4" "data_size (dl_111_fields ! Suc 0) = 4"
      "data_size (dl_111_fields ! Suc (Suc 0)) = 4"
    by (simp_all add: field_tables layout_defs)
  show "j < length dl_111_fields \<Longrightarrow> member dl_111_fields var j \<subseteq> {var ..< var + 20}"
    unfolding len by (auto simp: member_def addr_111 less_Suc_eq s3)
  have s4: "data_size (dl_1111_fields ! 0) = 4" "data_size (dl_1111_fields ! Suc 0) = 4"
      "data_size (dl_1111_fields ! Suc (Suc 0)) = 4" "data_size (dl_1111_fields ! Suc (Suc (Suc 0))) = 4"
    by (simp_all add: field_tables layout_defs)
  show "j < length dl_1111_fields \<Longrightarrow> member dl_1111_fields var j \<subseteq> {var ..< var + 20}"
    unfolding len by (auto simp: member_def addr_1111 less_Suc_eq s4)
qed

lemma int_parsers_out:
  assumes T: "T = PB_1 \<or> T = PB_111 \<or> T = PB_1111" and s: "sound s"
  shows "answers f (\<lambda>as. length as = arity T) s (\<lambda>m'. \<forall>x. x \<notin> frame_area (var, bdl) \<longrightarrow> m' x = m x) w
    (snd (layout_entry T) (schema_env buf) (var, bdl) f (s, m) w)"
proof -
  have i1: "carried dl_1_fields [FInt 0]" "carried dl_111_fields [FInt 0, FInt 0, FInt 0]"
      "carried dl_1111_fields [FInt 0, FInt 0, FInt 0, FInt 0]"
    by (simp_all add: carried_shapes)
  from T show ?thesis
  proof (elim disjE)
    assume PB_1: "T = PB_1"
    show ?thesis unfolding PB_1 by (simp add: dl1_parser_def)
      (rule parse_ints_out [OF layouts_flat(3) i1(1) _ layouts_plain(3) int_members_in_frame(1) s], simp_all)
  next
    assume PB_111: "T = PB_111"
    show ?thesis unfolding PB_111 by (simp add: dl111_parser_def)
      (rule parse_ints_out [OF layouts_flat(4) i1(2) _ layouts_plain(4) int_members_in_frame(2) s], simp_all)
  next
    assume PB_1111: "T = PB_1111"
    show ?thesis unfolding PB_1111 by (simp add: dl1111_parser_def)
      (rule parse_ints_out [OF layouts_flat(5) i1(3) _ layouts_plain(5) int_members_in_frame(3) s], simp_all)
  qed
qed

lemma bytes_parsers_out:
  assumes f: "frame_ok (var, bdl)" and s: "sound s"
    and T: "T = PB_2 \<or> T = PB_12 \<or> T = PB_112 \<or> T = PB_113 \<or> T = PB_1112"
  shows "answers f (\<lambda>as. length as = arity T) s (\<lambda>m'. \<forall>x. x \<notin> frame_area (var, bdl) \<longrightarrow> m' x = m x) w
    (snd (layout_entry T) (schema_env buf) (var, bdl) f (s, m) w)"
proof -
  have i1: "carried dl_array_fields [FBytes []]" "carried dl_12_fields [FInt 0, FBytes []]"
      "carried dl_112_fields [FInt 0, FInt 0, FBytes []]" "carried dl_113_fields [FInt 0, FInt 0, FBytes []]"
      "carried dl_1112_fields [FInt 0, FInt 0, FInt 0, FBytes []]"
    by (simp_all add: carried_shapes)
  have len: "length dl_array_fields = Suc 0" "length dl_12_fields = Suc (Suc 0)"
    "length dl_112_fields = Suc (Suc (Suc 0))" "length dl_113_fields = Suc (Suc (Suc 0))"
    "length dl_1112_fields = Suc (Suc (Suc (Suc 0)))"
    by (simp_all add: field_tables)
  note out = parse_bytes_out [OF _ _ _ _ _ f _ _ _ _ s]
  from T show ?thesis
  proof (elim disjE)
    assume T: "T = PB_2"
    show ?thesis unfolding T by (simp add: dl_array_parser_def)
      (rule out [OF layouts_flat(2) i1(1) len(1) _ layouts_plain(2) _ _ _ members_in_frame(1)], simp_all add: addr_array)
  next
    assume T: "T = PB_12"
    show ?thesis unfolding T by (simp add: dl12_parser_def)
      (rule out [OF layouts_flat(6) i1(2) len(2) _ layouts_plain(6) _ _ _ members_in_frame(2)], simp_all add: addr_12)
  next
    assume T: "T = PB_112"
    show ?thesis unfolding T by (simp add: dl112_parser_def)
      (rule out [OF layouts_flat(7) i1(3) len(3) _ layouts_plain(7) _ _ _ members_in_frame(3)],
        simp_all add: addr_112 less_Suc_eq)
  next
    assume T: "T = PB_113"
    show ?thesis unfolding T by (simp add: dl113_parser_def)
      (rule out [OF layouts_flat(8) i1(4) len(4) _ layouts_plain(8) _ _ _ members_in_frame(4)],
        simp_all add: addr_113 less_Suc_eq)
  next
    assume T: "T = PB_1112"
    show ?thesis unfolding T by (simp add: dl1112_parser_def)
      (rule out [OF layouts_flat(9) i1(5) len(5) _ layouts_plain(9) _ _ _ members_in_frame(5)],
        simp_all add: addr_1112 less_Suc_eq)
  qed
qed

text \<open>C9 (any\_arguments): whatever bytes a parser is given, as long as its stream ends with their
  buffer, it comes to an end without reading outside the buffer, changes no memory but its struct and
  its bundler, and either reports a decoding error or calls the service function, with exactly as many
  words as functions of this layout take.\<close>

theorem any_arguments:
  assumes "frame_ok frame" and "sound s"
  shows "\<exists>s' m'. steps s s' \<and> (\<forall>x. x \<notin> frame_area frame \<longrightarrow> m' x = m x) \<and>
    (snd (layout_entry T) (schema_env buf) frame f (s, m) w = Some (decode_error, (s', m'), w) \<or>
     (\<exists>args. length args = arity T \<and>
        snd (layout_entry T) (schema_env buf) frame f (s, m) w = call_service f args (s', m') w))"
proof (cases "T = PB_0")
  case True
  have "arity T = length []" by (simp add: True)
  then show ?thesis by (auto simp: True simple_request_parser_def intro: exI [of _ s] exI [of _ m])
next
  case False
  obtain var bdl where fr: "frame = (var, bdl)" by force
  from False have "T = PB_1 \<or> T = PB_111 \<or> T = PB_1111 \<or>
      (T = PB_2 \<or> T = PB_12 \<or> T = PB_112 \<or> T = PB_113 \<or> T = PB_1112)" by (cases T) simp_all
  then have "answers f (\<lambda>as. length as = arity T) s (\<lambda>m'. \<forall>x. x \<notin> frame_area frame \<longrightarrow> m' x = m x) w
      (snd (layout_entry T) (schema_env buf) frame f (s, m) w)"
    unfolding fr
    by (elim disjE; intro int_parsers_out [OF _ assms(2)] bytes_parsers_out [OF assms(1) [unfolded fr] assms(2)]) simp_all
  then show ?thesis unfolding answers_def by blast
qed

text \<open>One byte that starts a length and never ends it: the parser reports the error.\<close>

theorem any_arguments_witness:
  "\<exists>ret s' m' n. dl12_parser (schema_env 0) (2000, 3000) (\<lambda>args n. Some (of_nat (length args), Suc n))
      (pb_istream_from_buffer 500 [0xFF] 1, \<lambda>_. 0) 7 = Some (ret, (s', m'), n) \<and>
    steps (pb_istream_from_buffer 500 [0xFF] 1) s' \<and> m' 1999 = 0 \<and> (ret = decode_error \<and> n = 7 \<or> ret = 3 \<and> n = 8)"
proof -
  have "frame_ok (2000, 3000)" "sound (pb_istream_from_buffer 500 [0xFF] 1)"
    by (simp_all add: frame_ok_def sound_def pb_istream_from_buffer_def)
  from any_arguments [OF this, where T = PB_12 and buf = 0 and f = "\<lambda>args n. Some (of_nat (length args), Suc n)"
      and m = "\<lambda>_. 0" and w = 7]
  show ?thesis by (fastforce simp: frame_area_def call_service_def)
qed

section \<open>Names of the full length\<close>

lemma strnlen_full: "0 \<notin> set (load_bytes m a n) \<Longrightarrow> strnlen_loop n m a = n"
proof (induction n arbitrary: a)
  case (Suc n)
  then show ?case using Suc.IH [of "a + 1"] by (auto simp: load8_def)
qed simp

definition long_header :: "u8 list \<Rightarrow> u16 \<Rightarrow> u8 list" where
  "long_header name index =
     tag_bytes PB_WT_STRING 1 @ str_bytes name @ tag_bytes PB_WT_VARINT 2 @ varint_bytes (scast (ucast index :: u32))"

lemma emits_long_header:
  assumes n: "length meth = 31" "0 \<notin> set meth" and a: "hdr \<noteq> 0" "hdr + 32 \<noteq> 0" and c: "m (hdr + 31) \<noteq> 0"
  shows "emits (pb_encode schema_depth (schema_env buf) (header_memory hdr meth index m) dl_rpc_header_fields hdr)
    (long_header (meth @ [m (hdr + 31)]) index)"
proof -
  let ?m = "header_memory hdr meth index m" and ?fs = dl_rpc_header_fields and ?name = "meth @ [m (hdr + 31)]"
  let ?each = "\<lambda>f pData. if PB_LTYPE (fd_type f) = PB_LTYPE_EXTENSION
    then encode_extension_field 0 (schema_env buf) (pb_encode 0 (schema_env buf) ?m) ?m pData
    else encode_field (schema_env buf) (pb_encode 0 (schema_env buf) ?m) ?m f pData"
  have len: "length ?fs = Suc (Suc 0)" by (simp add: dl_rpc_header_fields_def)
  have b: "?m (hdr + int j) = ?name ! j" if "j < 32" for j
    using that n
    by (cases "j = 31") (simp_all add: header_memory_def strncpy_short MAX_IPC_METHOD_NAME_LENGTH_def store32_other
        store_bytes_def nth_append)
  have name: "load_bytes ?m hdr 32 = ?name"
    by (rule nth_equalityI) (use n in \<open>simp_all add: load_bytes_nth b\<close>)
  have "0 \<notin> set ?name" using n c by simp
  then have sl: "strnlen_loop 32 ?m hdr = 32" using strnlen_full [of ?m hdr 32] name by simp
  have "encode_field (schema_env buf) sub ?m (?fs ! 0) hdr =
      seqm (pb_encode_tag_for_field (?fs ! 0)) (\<lambda>_. pb_encode_string ?name (of_nat (length ?name)))" for sub
    using a n sl name
    by (simp add: encode_field_def encode_basic_field_def PB_ENCODERS_def pb_enc_string_def field_tables layout_defs
        type_parts Let_def)
  moreover have "emits (pb_encode_tag_for_field (?fs ! 0)) (tag_bytes PB_WT_STRING 1)"
    using emits_tag_for_field [of "?fs ! 0"]
    by (simp add: field_wt_def wire_type_of_def field_tables layout_defs type_parts)
  moreover have "emits (pb_encode_string ?name (of_nat (length ?name))) (str_bytes ?name)"
    using n by (intro emits_string_len) simp
  ultimately have e0: "emits (encode_field (schema_env buf) sub ?m (?fs ! 0) hdr) (tag_bytes PB_WT_STRING 1 @ str_bytes ?name)"
    for sub by (simp only: emits_seq)
  have "carries (?fs ! Suc 0) (FInt (ucast index))"
    by (simp add: field_tables layout_defs type_parts is_required_def int_type_def)
  moreover have "holds FN_WRITE_BYTES ?m (hdr + 32) (FInt (ucast index))" using a by (simp add: header_memory_def)
  ultimately have "emits (encode_field (schema_env buf) sub ?m (?fs ! Suc 0) (hdr + 32))
      (tag_bytes (field_wt (?fs ! Suc 0)) (fd_tag (?fs ! Suc 0)) @ val_bytes (?fs ! Suc 0) (FInt (ucast index)))" for sub
    by (rule schema.emits_field)
  then have e1: "emits (encode_field (schema_env buf) sub ?m (?fs ! Suc 0) (hdr + 32))
      (tag_bytes PB_WT_VARINT 2 @ varint_bytes (scast (ucast index :: u32)))" for sub
    by (simp add: field_wt_def wire_type_of_def int_bytes_def field_tables layout_defs type_parts)
  let ?B = "\<lambda>i. if i = 0 then tag_bytes PB_WT_STRING 1 @ str_bytes ?name
      else tag_bytes PB_WT_VARINT 2 @ varint_bytes (scast (ucast index :: u32))"
  have "emits (?each (?fs ! i) (field_addr ?fs hdr i)) (?B i)" if "i < length ?fs" for i
  proof -
    have "i = 0 \<or> i = Suc 0" using that len by auto
    then show ?thesis
      using e0 e1 flatD(3) [OF layouts_flat(1) that] by (auto simp: addr_header)
  qed
  from emits_fields [of ?fs ?each hdr ?B 0, OF layouts_flat(1) this]
  have "emits (enc_fields ?each (iter_at ?fs hdr 0)) (long_header ?name index)"
    by (simp add: len long_header_def)
  moreover have "pb_field_iter_begin ?fs hdr = (True, iter_at ?fs hdr 0)"
    by (simp add: iter_begin fields_head_def field_tables layout_defs)
  ultimately show ?thesis by (simp add: schema_depth_def)
qed

lemma decode_long_name:
  assumes n: "length name = 32" and r: "ready (tag_bytes PB_WT_STRING 1 @ str_bytes name) s"
  shows "\<exists>u m'. pb_decode (Suc 0) (schema_env buf) dl_rpc_header_fields hdr (s, m) = Fail (u, m') \<and> steps s u"
proof -
  let ?fs = dl_rpc_header_fields and ?vs = "header_values [] 0"
  have len: "0 < length ?fs" by (simp add: dl_rpc_header_fields_def)
  have c: "carried ?fs ?vs" by (intro header_carried) simp_all
  have nb: "\<forall>v\<in>set ?vs. \<not> is_bytes v" by (simp add: header_values_def is_bytes_def)
  have lv: "length ?vs = length ?fs" using c by (simp add: carried_def)
  obtain m1 where "defaults_loop (pb_field_set_to_default 0 (schema_env buf) (pb_message_set_to_defaults 0 (schema_env buf)))
      (iter_at ?fs hdr 0) m = Some m1"
    using schema.defaults_flat [OF layouts_flat(1) c no_sinks [OF nb lv] layouts_plain(1) len no_armed [OF nb lv],
        where b = "\<lambda>_. 0" and buf = buf and k = 0 and defaults = "pb_message_set_to_defaults 0 (schema_env buf)"
          and m = m and dest = hdr] by blast
  moreover have bg: "pb_field_iter_begin ?fs hdr = (True, iter_at ?fs hdr 0)"
    by (simp add: iter_begin fields_head_def field_tables layout_defs)
  ultimately have d: "pb_message_set_to_defaults (Suc 0) (schema_env buf) ?fs hdr m = Some m1" by simp
  let ?t = "tag_bytes PB_WT_STRING 1" and ?v = "varint_bytes (ucast (32 :: u32))"
  have sb: "str_bytes name = ?v @ name" using n by (simp add: str_bytes_def)
  let ?s1 = "adv (length ?t) s" and ?s2 = "adv (length ?v) (adv (length ?t) s)"
  have r': "ready ?t s" "ready ?v ?s1" using r unfolding sb ready_append by simp_all
  have tag: "rdm pb_decode_tag (s, m1) = Val (True, PB_WT_STRING, 1, False) (?s1, m1)"
    using rdm_reads [OF reads_tag r'(1)] by (simp add: pb_wts)
  have nz: "bytes_left s \<noteq> 0" using r'(1) by (auto simp: ready_def tag_bytes_def key_bytes_def)
  have len2: "rdm pb_decode_varint32 (?s1, m1) = Val 32 (?s2, m1)" by (rule rdm_reads [OF reads_varint32 r'(2)])
  let ?u = "?s2\<lparr>is_errmsg := PB_SET_ERROR (is_errmsg ?s2) ''string overflow''\<rparr>"
  have "pb_dec_string (?fs ! 0) hdr (?s1, m1) = Fail (?u, m1)"
    using len2
    by (simp add: pb_dec_string_def seqm_def dec_error_def rdm_def is_error_def field_tables layout_defs type_parts)
  then have fld: "decode_field (schema_env buf) defaults noinit wt (iter_at ?fs hdr 0) (?s1, m1) = Fail (?u, m1)"
    for defaults noinit wt
    using cur_iter_at [OF layouts_flat(1) len, of hdr] field_addr_0 [OF layouts_flat(1), of hdr]
    by (simp add: decode_field_def decode_static_field_def PB_DECODERS_def field_tables layout_defs type_parts Let_def
        field_addr_def)
  have "fd_tag (?fs ! 0) = 1" by (simp add: field_tables layout_defs)
  then have find: "pb_field_iter_find (iter_at ?fs hdr 0) 1 = (True, iter_at ?fs hdr 0)"
    using iter_find_known [OF layouts_flat(1) len len, of hdr] by simp
  have "steps s ?u"
    using steps_trans [OF steps_adv steps_adv, of "length ?t" s "length ?v"] r' by (simp add: ready_def)
  then show ?thesis
    using d nz tag fld
    by (simp add: pb_decode_def run_defaults_def seqm_def noinit_body_def bg noinit_turn_def find
        del: pb_message_set_to_defaults.simps)
qed

text \<open>C30 (long\_method\_name): a method name may have 31 characters, but then the copy into the header does
  not end with a zero, and unless the last byte of the local header happens to be zero the name is sent
  with 32 characters, which the receiver always rejects: the call is serialised without an error and
  can never be received.\<close>

theorem long_method_name:
  assumes n: "length meth = 31" "0 \<notin> set meth" and a: "hdr \<noteq> 0" "hdr + 32 \<noteq> 0" and c: "m (hdr + 31) \<noteq> 0"
    and hp: "\<not> hfail hp (hcalls hp)"
  shows "\<exists>p hp' bytes. mblue_serialize_ipc (schema_env buf) hdr m meth (pb_type_index PB_0) src hp = Some (p, hp') \<and>
    p \<noteq> 0 \<and> hblocks hp' p = Some bytes \<and>
    (\<forall>hdr2 m2. receive_header (schema_env buf) hdr2 (int p) bytes m2 = Some None)"
proof -
  let ?name = "meth @ [m (hdr + 31)]"
  let ?he = "long_header ?name (pb_type_index PB_0)"
  have "length (varint_bytes v) \<le> 10" for v by (rule length_varint_bytes)
  from this [of "tag_value PB_WT_STRING 1"] this [of "of_nat (length ?name)"] this [of "tag_value PB_WT_VARINT 2"]
    this [of "scast (ucast (pb_type_index PB_0) :: u32)"]
  have l: "length ?he < 128" using n(1) by (simp add: long_header_def tag_bytes_def key_bytes_def str_bytes_def)
  have g: "mblue_pb_data_layout_get (pb_type_index PB_0) = Some None" using layout_get [of PB_0] by simp
  obtain pad where pad: "mblue_serialize_ipc (schema_env buf) hdr m meth (pb_type_index PB_0) src hp =
      Some (granted hp (str_bytes ?he @ pad))"
    using serialize_header [OF g hp emits_long_header [OF n a, where m = m, OF c] l] by blast
  obtain p hp' where "granted hp (str_bytes ?he @ pad) = (p, hp')" by force
  note s = pad [unfolded this] granted_facts(1,2) [OF this]
  have "receive_header (schema_env buf) hdr2 (int p) (str_bytes ?he @ pad) m2 = Some None" for hdr2 m2
  proof -
    let ?t = "pb_istream_from_buffer (int p) (str_bytes ?he @ pad) (-1)"
    have "length (str_bytes ?he) \<le> 133" using length_str_bytes [of ?he] l by simp
    then have r: "ready (str_bytes ?he) ?t" by (simp add: ready_def pb_istream_from_buffer_def unat_max_u32)
    have l32: "length ?he < 2 ^ 32" using l by simp
    note rs = ready_str [OF l32 r]
    let ?n = "of_nat (length ?he) :: u32"
    let ?t1 = "adv (length (varint_bytes (ucast ?n))) ?t"
    let ?s = "?t1\<lparr>bytes_left := ?n\<rparr>"
    have mk: "pb_make_string_substream ?t = Val ?s (?t1\<lparr>bytes_left := bytes_left ?t1 - ?n\<rparr>)"
      by (rule make_substream [OF rs])
    obtain q where q: "is_rest ?s = ?he @ q" using rs(1) unfolding ready_append by (auto simp: ready_def)
    have left: "unat ?n = length ?he" using rs(2) by simp
    have he: "?he = (tag_bytes PB_WT_STRING 1 @ str_bytes ?name) @
        tag_bytes PB_WT_VARINT 2 @ varint_bytes (scast (ucast (pb_type_index PB_0) :: u32))"
      by (simp add: long_header_def)
    have "ready ?he ?s" using q left by (simp add: ready_def)
    then have "ready (tag_bytes PB_WT_STRING 1 @ str_bytes ?name) ?s" unfolding he ready_append [of "_ @ _"] by simp
    moreover have "length ?name = 32" using n(1) by simp
    ultimately obtain u m' where d: "pb_decode (Suc 0) (schema_env buf) dl_rpc_header_fields hdr2 (?s, m2) = Fail (u, m')"
        "steps ?s u" using decode_long_name by blast
    have "sound ?s" using q left by (simp add: sound_def)
    from close_out [OF this d(2)] mk d(1) show ?thesis
      by (simp add: receive_header_def schema_depth_def pb_decode_delimited_def in_substream_def seqm_def rdm_def close_with_def)
  qed
  then show ?thesis using s by blast
qed

theorem long_method_name_witness:
  "\<exists>p hp' bytes. mblue_serialize_ipc (schema_env 0) 100 (\<lambda>_. 0xEE) (replicate 31 97) (pb_type_index PB_0) 0 fresh_heap =
      Some (p, hp') \<and> hblocks hp' p = Some bytes \<and> receive_header (schema_env 0) 900 (int p) bytes (\<lambda>_. 0) = Some None"
  using long_method_name [of "replicate 31 97" 100 "\<lambda>_. 0xEE" fresh_heap 0 0] by (auto simp: fresh_heap_def)

section \<open>Byte fields of another wire type\<close>

lemma reads_raw_varint:
  "length (varint_bytes v) \<le> n \<Longrightarrow> reads (raw_varint_loop n acc) (varint_bytes v) (acc @ varint_bytes v)"
proof (induction v arbitrary: n acc rule: varint_bytes.induct)
  case (1 v)
  have rd: "reads (pb_read 1) [b] [b]" for b by (rule reads_read) simp
  show ?case
  proof (cases v rule: varint_bytes_cases)
    case last
    then obtain k where n: "n = Suc k" using 1(2) by (cases n) auto
    have "reads (raw_varint_loop n acc) ([ucast v] @ []) (acc @ [ucast v])"
      unfolding n raw_varint_loop.simps
      by (rule reads_seq [OF rd]) (use last in \<open>simp add: and_80 reads_return\<close>)
    then show ?thesis using last by simp
  next
    case (more b)
    then obtain k where n: "n = Suc k" using 1(2) by (cases n) auto
    have "reads (raw_varint_loop n acc) ([b] @ varint_bytes (drop_bit 7 v)) (acc @ [b] @ varint_bytes (drop_bit 7 v))"
      unfolding n raw_varint_loop.simps
      by (rule reads_seq [OF rd]) (use 1(1) [OF more(1), of k "acc @ [b]"] 1(2) more n in \<open>simp add: and_80\<close>)
    then show ?thesis using more by simp
  qed
qed

abbreviation array_armed :: "int \<Rightarrow> int \<Rightarrow> cmem \<Rightarrow> bool" where
  "array_armed var bdl \<equiv> armed FN_GET_BYTES dl_array_fields [FBytes []] var (\<lambda>_. bdl)"

lemma array_facts:
  assumes f: "frame_ok (var, bdl)"
  shows "length dl_array_fields = Suc 0" "carried dl_array_fields [FBytes []]"
    "sinks dl_array_fields [FBytes []] var (\<lambda>_. bdl)"
    "array_armed var bdl (INIT_PB_DECODE_DATA_STRUCT (var, bdl) 0 m)"
    "array_armed var bdl m' \<Longrightarrow> array_armed var bdl (set_bundle bdl q n m')"
proof -
  let ?fs = dl_array_fields and ?vs = "[FBytes []]"
  show len: "length ?fs = Suc 0" by (simp add: field_tables)
  have nb: "\<forall>i<0. \<not> is_bytes (?vs ! i)" by simp
  show c: "carried ?fs ?vs" by (simp add: carried_shapes)
  show s: "sinks ?fs ?vs var (\<lambda>_. bdl)"
    by (rule frame_sinks [OF f len _ nb members_in_frame(1)]) (use f in \<open>simp_all add: addr_array frame_ok_def\<close>)
  show "array_armed var bdl (INIT_PB_DECODE_DATA_STRUCT (var, bdl) 0 m)"
    by (rule init_armed [OF f _ _ len _ nb]) (simp_all add: addr_array)
  assume "array_armed var bdl m'"
  then have "kept FN_GET_BYTES ?fs ?vs var (\<lambda>_. bdl) m' m'" by (simp add: kept_def)
  moreover have "set_bundle bdl q n m' x = m' x" if "x \<notin> region ?fs ?vs var (\<lambda>_. bdl) 0" for x
    using that by (auto simp: region_bundler set_bundle_def store32_other)
  moreover have "0 < length ?fs" by (simp add: len)
  ultimately have "kept FN_GET_BYTES ?fs ?vs var (\<lambda>_. bdl) m' (set_bundle bdl q n m')"
    using absorbsD [OF kept_absorbs [OF layouts_flat(2) c s, of 0 FN_GET_BYTES m']] by blast
  then show "array_armed var bdl (set_bundle bdl q n m')" by (simp add: kept_def)
qed

lemma decode_varint_as_bytes:
  assumes f: "frame_ok (var, bdl)" and m': "array_armed var bdl m'" and u: "ready (varint_bytes v) u"
  shows "decode_field (schema_env buf) defaults noinit PB_WT_VARINT (iter_at dl_array_fields var 0) (u, m') =
    Val () (adv (length (varint_bytes v)) u, set_bundle bdl buf (of_nat (length (varint_bytes v))) m')"
proof -
  let ?fs = dl_array_fields and ?p = "varint_bytes v"
  let ?raw = "pb_istream_from_buffer buf ?p (of_nat (length ?p))"
  have c10: "length ?p \<le> 10" by (rule length_varint_bytes)
  have rd: "reads (read_raw_value PB_WT_VARINT 10) ?p ?p"
    using reads_raw_varint [OF c10, of "[]"] by (simp add: read_raw_value_def)
  have "sound ?raw" using c10 by (simp add: sound_def pb_istream_from_buffer_def unat_of_nat)
  note call = schema.call_sound [OF this, where buf = buf]
  have "callback_funcs m' var = FN_GET_BYTES" "load_ptr m' (var + 4) = bdl"
    using m' array_facts(1) [OF f] by (simp_all add: armed_def addr_array)
  moreover have "cur (iter_at ?fs var 0) = ?fs ! 0" "it_pData (iter_at ?fs var 0) = var"
    using cur_iter_at [OF layouts_flat(2), of 0 var] array_facts(1) [OF f] addr_array [of var]
    by (simp_all add: field_addr_def)
  moreover have "PB_ATYPE (fd_type (?fs ! 0)) = PB_ATYPE_CALLBACK" by (simp add: field_tables layout_defs type_parts)
  moreover have "raw_buffer (schema_env buf) = buf" by (simp add: schema_env_def)
  ultimately show ?thesis
    using call [of "?fs ! 0" "callback_arg var" m'] rdm_reads [OF rd u, of m'] f
    by (simp add: decode_field_def decode_callback_field_def pb_consts pb_wts seqm_def callback_arg_def frame_ok_def
        FN_GET_BYTES_def pb_istream_from_buffer_def Let_def)
qed

lemma array_defaults:
  assumes f: "frame_ok (var, bdl)"
  obtains m1 where "pb_message_set_to_defaults (Suc 0) (schema_env buf) dl_array_fields var
      (INIT_PB_DECODE_DATA_STRUCT (var, bdl) 0 m) = Some m1" "array_armed var bdl m1"
proof -
  let ?env = "schema_env buf"
  note a = array_facts [OF f]
  have len0: "0 < length dl_array_fields" by (simp add: a(1))
  from schema.defaults_flat [OF layouts_flat(2) a(2,3) layouts_plain(2) len0 a(4) [of m], of 0 buf "pb_message_set_to_defaults 0 ?env"]
  obtain m1 where "defaults_loop (pb_field_set_to_default 0 ?env (pb_message_set_to_defaults 0 ?env))
      (iter_at dl_array_fields var 0) (INIT_PB_DECODE_DATA_STRUCT (var, bdl) 0 m) = Some m1" "array_armed var bdl m1"
    by blast
  moreover have "pb_field_iter_begin dl_array_fields var = (True, iter_at dl_array_fields var 0)"
    by (simp add: iter_begin fields_head_def field_tables layout_defs)
  ultimately show thesis using that by simp
qed

text \<open>C29 (bytes\_as\_integer): a peer may send the byte field of a call as an integer. The message is decoded
  without an error, and the service function is called with a pointer to the local array of the decoder
  that held the bytes of the integer, which no longer exists when the function runs, instead of a
  pointer into the message.\<close>

theorem bytes_as_integer:
  assumes f: "frame_ok (var, bdl)" and r: "ready (str_bytes (tag_bytes PB_WT_VARINT 1 @ varint_bytes v)) t"
  shows "\<exists>st. dl_array_parser (schema_env buf) (var, bdl) g (t, m) w =
    call_service g [of_int buf, of_nat (length (varint_bytes v))] st w"
proof -
  let ?fs = dl_array_fields and ?p = "varint_bytes v" and ?env = "schema_env buf"
  let ?m = "INIT_PB_DECODE_DATA_STRUCT (var, bdl) 0 m" and ?wt = "\<lambda>_ :: nat. PB_WT_VARINT"
  let ?eff = "\<lambda>(_ :: nat) p (_ :: int). set_bundle bdl buf (of_nat (length p))"
  let ?e = "tag_bytes PB_WT_VARINT 1 @ ?p"
  note a = array_facts [OF f]
  obtain m1 where defs: "pb_message_set_to_defaults (Suc 0) ?env ?fs var ?m = Some m1" and a1: "array_armed var bdl m1"
    using array_defaults [OF f] by blast
  have ok: "list_all (item_ok (decode_field ?env defaults noinit) ?fs var ?wt ?eff (array_armed var bdl)) [(0, ?p)]"
    for defaults noinit
    using decode_varint_as_bytes [OF f] a(5) a(1) by (simp add: item_ok_def pb_wts)
  have comp: "complete ?fs [(0, ?p)]" and u0: "unknown ?fs []" by (simp_all add: complete_def unknown_def a(1))
  have mb: "message_bytes ?fs ?wt [(0, ?p)] = ?e"
    by (simp add: message_bytes_def item_tag_def field_tables layout_defs)
  have l: "length ?e < 2 ^ 32"
    using length_varint_bytes [of v] length_varint_bytes [of "tag_value PB_WT_VARINT 1"] by (simp add: tag_bytes_def key_bytes_def)
  note rs = ready_str [OF l r]
  let ?n = "of_nat (length ?e) :: u32"
  let ?s = "(adv (length (varint_bytes (ucast ?n))) t)\<lparr>bytes_left := ?n\<rparr>"
  obtain q where q: "is_rest ?s = junk [] @ message_bytes ?fs ?wt [(0, ?p)] @ q"
    using rs(1) unfolding mb ready_append [of "varint_bytes (ucast ?n)"] by (auto simp: ready_def junk_def)
  have left: "unat (bytes_left ?s) = length (junk [] @ message_bytes ?fs ?wt [(0, ?p)])"
    using rs(2) unfolding mb by (simp add: junk_def)
  let ?m2 = "set_bundle bdl buf (of_nat (length ?p)) m1"
  have "pb_decode (Suc 0) ?env ?fs var (?s, ?m) = Val () (adv (length ?e) ?s, ?m2)"
    using noinit_body_items [OF layouts_flat(2) ok comp a1 u0 q left]
    by (simp add: pb_decode_def seqm_def run_defaults_def defs mb junk_def Let_def del: pb_message_set_to_defaults.simps)
  then have "pb_decode_delimited (Suc 0) ?env ?fs var (t, ?m) =
      Val () (adv (length (varint_bytes (ucast ?n) @ ?e)) t, ?m2)"
    unfolding pb_decode_delimited_def by (intro in_substream_val rs)
  moreover have "load32 ?m2 (bdl + 4) = of_int buf" "load32 ?m2 bdl = of_nat (length ?p)"
    by (simp_all add: set_bundle_def load32_store32_other)
  ultimately show ?thesis 
    by (intro exI [of _ "(adv (length (varint_bytes (ucast ?n) @ ?e)) t, ?m2)"])
       (simp add: dl_array_parser_def parse_call_def schema_depth_def)
qed

theorem bytes_as_integer_witness:
  "\<exists>st n. dl_array_parser (schema_env 4096) (2000, 3000) (\<lambda>args n. Some (args ! 0, n))
      (pb_istream_from_buffer 500 (str_bytes (tag_bytes PB_WT_VARINT 1 @ varint_bytes 300)) (-1), \<lambda>_. 0) n =
    Some (4096, st, n)"
proof -
  let ?e = "tag_bytes PB_WT_VARINT 1 @ varint_bytes 300"
  have "length ?e \<le> 20"
    using length_varint_bytes [of 300] length_varint_bytes [of "tag_value PB_WT_VARINT 1"] by (simp add: tag_bytes_def key_bytes_def)
  then have "length (str_bytes ?e) \<le> 25" using length_str_bytes [of ?e] by simp
  then have "ready (str_bytes ?e) (pb_istream_from_buffer 500 (str_bytes ?e) (-1))"
    by (simp add: ready_def pb_istream_from_buffer_def unat_max_u32)
  moreover have "frame_ok (2000, 3000)" by (simp add: frame_ok_def)
  ultimately show ?thesis
    using bytes_as_integer [where var = 2000 and bdl = 3000 and v = 300 and buf = 4096
        and g = "\<lambda>args n. Some (args ! 0, n)" and m = "\<lambda>_. 0"]
    by (fastforce simp: call_service_def)
qed

end
