(* ===== verification/Schema_Laws.thy ===== *)
theory Schema_Laws
  imports Schema_Safety
begin

text \<open>
  What the encoder and the decoder promise for every table of required fields (integers, strings in the
  struct, byte strings through the callbacks of the schema), not only for the layouts of calls: exact
  sizes, round trips, and messages of a newer peer with fields that the table does not know.
\<close>

section \<open>Encoding\<close>

text \<open>C24 (encode\_exact): for structs of required 4-byte integers, strings in the struct and byte strings
  through the callbacks (optional, repeated and oneof fields and submessages are not covered): the size that is
  computed for the struct is the length of its encoding; encoding it into a buffer of at least this size
  writes exactly the encoding, and into a smaller one never reports success.\<close>

theorem encode_exact:
  assumes "flat fs" and "carried fs vs"
    and "\<forall>i<length fs. holds FN_WRITE_BYTES m (field_addr fs src i) (vs ! i)" and "length (encoding fs vs) < 2 ^ 32"
  shows "pb_get_encoded_size (Suc k) (schema_env buf) m fs src = Val (of_nat (length (encoding fs vs))) () \<and>
    (if length (encoding fs vs) \<le> unat cap
     then pb_encode (Suc k) (schema_env buf) m fs src (pb_ostream_from_buffer cap) =
       Val () ((pb_ostream_from_buffer cap)\<lparr>os_out := encoding fs vs,
         bytes_written := of_nat (length (encoding fs vs))\<rparr>)
     else no_val (pb_encode (Suc k) (schema_env buf) m fs src (pb_ostream_from_buffer cap)))"
proof -
  have e: "emits (pb_encode (Suc k) (schema_env buf) m fs src) (encoding fs vs)"
    by (rule schema.emits_message [OF assms(1-3)])
  have "pb_get_encoded_size (Suc k) (schema_env buf) m fs src = Val (of_nat (length (encoding fs vs))) ()"
    unfolding pb_get_encoded_size_def emits_sizing [OF e assms(4)] by (simp add: PB_OSTREAM_SIZING_def)
  moreover have "no_val (pb_encode (Suc k) (schema_env buf) m fs src (pb_ostream_from_buffer cap))"
    if "\<not> length (encoding fs vs) \<le> unat cap"
  proof -
    have "sane (pb_ostream_from_buffer cap) (length (encoding fs vs))"
      "\<not> fits (pb_ostream_from_buffer cap) (length (encoding fs vs))"
      using that assms(4) by (simp_all add: sane_def fits_def pb_ostream_from_buffer_def)
    then show ?thesis using e by (auto simp: emits_def simp del: pb_encode.simps)
  qed
  ultimately show ?thesis using emits_from_buffer [OF e] by simp
qed

section \<open>Decoding\<close>

lemma value_in_encoding:
  assumes "i < length fs" and "vs ! i = FBytes bs"
  shows "\<exists>x y. encoding fs vs = x @ bs @ y \<and>
    int (length x) = value_pos fs vs 0 i + int (length (varint_bytes (of_nat (length bs))))"
proof -
  let ?xs = "message_items fs vs" and ?mb = "message_bytes fs (\<lambda>i. field_wt (fs ! i))"
  let ?x = "?mb (take i ?xs) @ item_tag fs (\<lambda>i. field_wt (fs ! i)) i @ varint_bytes (of_nat (length bs))"
  have l: "i < length ?xs" and n: "?xs ! i = (i, str_bytes bs)" using assms by (simp_all add: message_items_def)
  have app: "?mb (as @ cs) = ?mb as @ ?mb cs" for as cs by (simp add: message_bytes_def)
  have "?xs = take i ?xs @ (i, str_bytes bs) # drop (Suc i) ?xs" using id_take_nth_drop [OF l] n by simp
  then have "encoding fs vs = ?mb (take i ?xs @ (i, str_bytes bs) # drop (Suc i) ?xs)"
    unfolding encoding_def by (rule arg_cong)
  also have "\<dots> = ?x @ bs @ ?mb (drop (Suc i) ?xs)"
    unfolding app by (simp add: message_bytes_def str_bytes_def)
  finally show ?thesis by (intro exI [of _ ?x] exI [of _ "?mb (drop (Suc i) ?xs)"]) (simp add: value_pos_def)
qed

lemma value_pos_shift: "value_pos fs vs pos i = pos + value_pos fs vs 0 i"
  by (simp add: value_pos_def)

text \<open>The value a decoded struct has at a member: for byte strings a bundler that gives the length and the
  address of the bytes in the input, which is \<open>inp\<close> at the address \<open>a\<close>.\<close>

definition received :: "cmem \<Rightarrow> int \<Rightarrow> u8 list \<Rightarrow> int \<Rightarrow> int \<Rightarrow> fval \<Rightarrow> bool" where
  "received m a inp addr bdl v \<longleftrightarrow>
     (case v of
        FInt w \<Rightarrow> load32 m addr = w
      | FStr bs \<Rightarrow> load_bytes m addr (length bs) = bs \<and> m (addr + int (length bs)) = 0
      | FBytes bs \<Rightarrow> bundle_len m bdl = of_nat (length bs) \<and>
          (\<exists>off. take (length bs) (drop off inp) = bs \<and> bundle_ptr m bdl = of_int (a + int off)))"

lemma stored_received:
  assumes i: "i < length fs" and s: "stored m addr (vs ! i) bdl (value_pos fs vs (a + int (length pre)) i)"
  shows "received m a (pre @ encoding fs vs @ r) addr bdl (vs ! i)"
proof (cases "vs ! i")
  case (FBytes bs)
  obtain x y where e: "encoding fs vs = x @ bs @ y"
      "int (length x) = value_pos fs vs 0 i + int (length (varint_bytes (of_nat (length bs))))"
    using value_in_encoding [OF i FBytes] by blast
  have "bundle_ptr m bdl = of_int (a + int (length (pre @ x)))"
    using s e(2) by (simp add: stored_def FBytes value_pos_shift [of fs vs "a + int (length pre)"] algebra_simps)
  moreover have "take (length bs) (drop (length (pre @ x)) (pre @ encoding fs vs @ r)) = bs" by (simp add: e(1))
  ultimately have "\<exists>off. take (length bs) (drop off (pre @ encoding fs vs @ r)) = bs \<and>
      bundle_ptr m bdl = of_int (a + int off)" by blast
  then show ?thesis using s FBytes by (simp add: received_def stored_def)
qed (use s in \<open>simp_all add: received_def stored_def\<close>)

lemma decode_received:
  assumes "flat fs" and "carried fs vs" and "\<forall>f\<in>set fs. fd_ptr f = Pb_Null" and "sinks fs vs dest b"
    and "armed FN_GET_BYTES fs vs dest b m" and "unknown fs us"
    and l: "length (junk us @ encoding fs vs) < 2 ^ 31"
  defines "inp \<equiv> str_bytes (junk us @ encoding fs vs)"
  shows "\<exists>m'. pb_decode_delimited (Suc k) (schema_env buf) fs dest (pb_istream_from_buffer a (inp @ r) (-1), m) =
      Val () (pb_istream_from_buffer (a + int (length inp)) r (- 1 - of_nat (length inp)), m') \<and>
    (\<forall>i<length fs. received m' a (inp @ r) (field_addr fs dest i) (b i) (vs ! i)) \<and>
    (\<forall>x. (\<forall>j<length fs. x \<notin> member fs dest j \<and> x \<notin> region fs vs dest b j) \<longrightarrow> m' x = m x)"
proof -
  let ?t = "pb_istream_from_buffer a (inp @ r) (-1)" and ?e = "junk us @ encoding fs vs"
  let ?pre = "varint_bytes (of_nat (length ?e)) @ junk us"
  have len: "length inp < 2 ^ 32" using length_str_bytes [of ?e] l unfolding inp_def by simp
  then have "ready inp ?t" by (simp add: ready_def pb_istream_from_buffer_def unat_max_u32)
  with schema.decode_with_junk [OF assms(1,2,4,3,5,6), of ?t k buf] l
  obtain m' where d: "pb_decode_delimited (Suc k) (schema_env buf) fs dest (?t, m) = Val () (adv (length inp) ?t, m')"
    and st: "\<forall>i<length fs. stored m' (field_addr fs dest i) (vs ! i) (b i)
       (value_pos fs vs (is_state ?t + int (length (varint_bytes (of_nat (length ?e))) + length (junk us))) i)"
    and fr: "\<forall>x. (\<forall>j<length fs. x \<notin> member fs dest j \<and> x \<notin> region fs vs dest b j) \<longrightarrow> m' x = m x"
    unfolding inp_def by (auto simp del: length_append)
  have "adv (length inp) ?t = pb_istream_from_buffer (a + int (length inp)) r (- 1 - of_nat (length inp))"
    by (simp add: adv_def pb_istream_from_buffer_def)
  moreover have "received m' a (inp @ r) (field_addr fs dest i) (b i) (vs ! i)" if "i < length fs" for i
  proof -
    have "stored m' (field_addr fs dest i) (vs ! i) (b i) (value_pos fs vs (a + int (length ?pre)) i)"
      using st that by (simp add: pb_istream_from_buffer_def del: of_nat_add)
    from stored_received [OF that this, of r] show ?thesis by (simp add: inp_def str_bytes_def)
  qed
  ultimately show ?thesis using d fr by auto
qed

text \<open>C23 (unknown\_fields): the tables are those of the layouts of remote calls: required 4-byte integers,
  strings in the struct and byte strings through the callbacks. A message for such a table that starts with
  any number of well-formed fields the table does not know, with any numbers below \<open>2\<^sup>2\<^sup>9\<close> and any wire
  types, is decoded as if they were not there: a number is compared in full, so 257 is not taken for 1, every
  field of the table is received with its value, the stream stands behind the message, and no memory but the
  struct and the bundlers is written.\<close>

theorem unknown_fields:
  assumes "flat fs" and "carried fs vs" and "\<forall>f\<in>set fs. fd_ptr f = Pb_Null" and "sinks fs vs dest b"
    and "armed FN_GET_BYTES fs vs dest b m" and "unknown fs us" and "length (junk us @ encoding fs vs) < 2 ^ 31"
    and "inp = str_bytes (junk us @ encoding fs vs)"
  shows "\<exists>m'. pb_decode_delimited (Suc k) (schema_env buf) fs dest (pb_istream_from_buffer a (inp @ r) (-1), m) =
      Val () (pb_istream_from_buffer (a + int (length inp)) r (- 1 - of_nat (length inp)), m') \<and>
    (\<forall>i<length fs. received m' a (inp @ r) (field_addr fs dest i) (b i) (vs ! i)) \<and>
    (\<forall>x. (\<forall>j<length fs. x \<notin> member fs dest j \<and> x \<notin> region fs vs dest b j) \<longrightarrow> m' x = m x)"
  using decode_received [OF assms(1-7)] assms(8) by simp

text \<open>C18 (message\_round\_trip): for structs of required 4-byte integers, strings in the struct and byte
  strings through the callbacks, in any order and number that a table can hold, which are the layouts of remote
  calls (optional, repeated and oneof fields and submessages are not covered): a struct that is encoded with
  its length in front into a large enough buffer and decoded again, from a buffer that may go on behind
  it, gives a struct that received the same values.\<close>

theorem message_round_trip:
  assumes fl: "flat fs" and c: "carried fs vs" and p: "\<forall>f\<in>set fs. fd_ptr f = Pb_Null"
    and h: "\<forall>i<length fs. holds FN_WRITE_BYTES m (field_addr fs src i) (vs ! i)"
    and d: "sinks fs vs dest b" "armed FN_GET_BYTES fs vs dest b m2"
    and l: "length (encoding fs vs) < 2 ^ 31" "length (encoding fs vs) + 5 \<le> unat cap"
  shows "\<exists>out m'. pb_encode_delimited (Suc k) (schema_env buf) m fs src (pb_ostream_from_buffer cap) =
      Val () ((pb_ostream_from_buffer cap)\<lparr>os_out := out, bytes_written := of_nat (length out)\<rparr>) \<and>
    pb_decode_delimited (Suc k) (schema_env buf) fs dest (pb_istream_from_buffer a (out @ r) (-1), m2) =
      Val () (pb_istream_from_buffer (a + int (length out)) r (- 1 - of_nat (length out)), m') \<and>
    (\<forall>i<length fs. received m' a (out @ r) (field_addr fs dest i) (b i) (vs ! i))"
proof -
  let ?out = "str_bytes (encoding fs vs)"
  have "emits (pb_encode_delimited (Suc k) (schema_env buf) m fs src) ?out"
    unfolding pb_encode_delimited_def using schema.emits_delimited [OF fl c h] l by simp
  moreover have "length ?out \<le> unat cap" using length_str_bytes [of "encoding fs vs"] l by simp
  ultimately have e: "pb_encode_delimited (Suc k) (schema_env buf) m fs src (pb_ostream_from_buffer cap) =
      Val () ((pb_ostream_from_buffer cap)\<lparr>os_out := ?out, bytes_written := of_nat (length ?out)\<rparr>)"
    by (rule emits_from_buffer)
  have "unknown fs []" and "length (junk [] @ encoding fs vs) < 2 ^ 31"
    using l by (simp_all add: unknown_def junk_def)
  from decode_received [OF fl c p d this, of k buf a r] e show ?thesis by (auto simp: junk_def)
qed

section \<open>An example\<close>

text \<open>The struct \<^verbatim>\<open>dl_12\<close> of \<open>sample_struct\<close>, received into a struct at 1000 with a bundler at 2000.\<close>

definition sample_memory :: cmem where
  "sample_memory = header_memory 40 [109, 49] (pb_type_index PB_12) sample_struct"

lemma sample_facts:
  "flat dl_12_fields" "carried dl_12_fields [FInt 7, FBytes [5, 6]]" "\<forall>f\<in>set dl_12_fields. fd_ptr f = Pb_Null"
  "\<forall>i<length dl_12_fields. holds FN_WRITE_BYTES sample_memory (field_addr dl_12_fields 100 i) ([FInt 7, FBytes [5, 6]] ! i)"
  "sinks dl_12_fields [FInt 7, FBytes [5, 6]] 1000 (\<lambda>_. 2000)"
  "armed FN_GET_BYTES dl_12_fields [FInt 7, FBytes [5, 6]] 1000 (\<lambda>_. 2000)
     (INIT_PB_DECODE_DATA_STRUCT (1000, 2000) 4 (\<lambda>_. 0))"
proof -
  let ?vs = "[FInt 7, FBytes [5, 6]]"
  have len: "length dl_12_fields = Suc (Suc 0)" by (simp add: field_tables)
  have f: "frame_ok (1000, 2000)" by (simp add: frame_ok_def)
  have nb: "\<forall>i<Suc 0. \<not> is_bytes (?vs ! i)" by simp
  show "flat dl_12_fields" "\<forall>f\<in>set dl_12_fields. fd_ptr f = Pb_Null" by (rule layouts_flat layouts_plain)+
  show "carried dl_12_fields ?vs" by (simp add: carried_shapes)
  show "\<forall>i<length dl_12_fields. holds FN_WRITE_BYTES sample_memory (field_addr dl_12_fields 100 i) (?vs ! i)"
    using sample_struct_holds unfolding sample_memory_def by (simp add: layout_holds_def)
  show "sinks dl_12_fields ?vs 1000 (\<lambda>_. 2000)"
    by (rule frame_sinks [OF f len _ nb members_in_frame(2)]) (simp_all add: addr_12)
  show "armed FN_GET_BYTES dl_12_fields ?vs 1000 (\<lambda>_. 2000) (INIT_PB_DECODE_DATA_STRUCT (1000, 2000) 4 (\<lambda>_. 0))"
    by (rule init_armed [OF f _ _ len _ nb]) (simp_all add: addr_12)
qed

theorem encode_exact_witness:
  "pb_get_encoded_size (Suc 0) (schema_env 0) sample_memory dl_12_fields 100 =
    Val (of_nat (length (encoding dl_12_fields [FInt 7, FBytes [5, 6]]))) () \<and>
   no_val (pb_encode (Suc 0) (schema_env 0) sample_memory dl_12_fields 100 (pb_ostream_from_buffer 0))"
proof -
  have "encoding dl_12_fields [FInt 7, FBytes [5, 6]] \<noteq> []" by (rule encoding_nonempty [OF sample_facts(1)])
  then show ?thesis
    using encode_exact [OF sample_facts(1,2,4), of 0 0 0] sample_encoding_short by (simp del: pb_encode.simps)
qed

theorem unknown_fields_witness:
  "\<exists>m'. pb_decode_delimited (Suc 0) (schema_env 0) dl_12_fields 1000
      (pb_istream_from_buffer 500 (str_bytes (junk [(PB_WT_32BIT, 257, [1, 2, 3, 4])] @
         encoding dl_12_fields [FInt 7, FBytes [5, 6]]) @ [99]) (-1),
       INIT_PB_DECODE_DATA_STRUCT (1000, 2000) 4 (\<lambda>_. 0)) =
      Val () (pb_istream_from_buffer (500 + int (length (str_bytes (junk [(PB_WT_32BIT, 257, [1, 2, 3, 4])] @
         encoding dl_12_fields [FInt 7, FBytes [5, 6]])))) [99]
        (- 1 - of_nat (length (str_bytes (junk [(PB_WT_32BIT, 257, [1, 2, 3, 4])] @
         encoding dl_12_fields [FInt 7, FBytes [5, 6]])))), m') \<and>
    load32 m' 1000 = 7 \<and> bundle_len m' 2000 = 2"
proof -
  let ?us = "[(PB_WT_32BIT, 257, [1, 2, 3, 4])] :: (pb_wire_type \<times> u32 \<times> u8 list) list"
  let ?vs = "[FInt 7, FBytes [5, 6]]" and ?inp = "str_bytes (junk [(PB_WT_32BIT, 257, [1, 2, 3, 4])] @
         encoding dl_12_fields [FInt 7, FBytes [5, 6]])"
  have u: "unknown dl_12_fields ?us"
    by (simp add: unknown_def wire_value_def field_tables layout_defs)
  have "length (junk ?us) \<le> 14"
    using length_varint_bytes [of "tag_value PB_WT_32BIT 257"] by (simp add: junk_def key_bytes_def)
  then have l: "length (junk ?us @ encoding dl_12_fields ?vs) < 2 ^ 31"
    using sample_encoding_length by simp
  have len: "length dl_12_fields = Suc (Suc 0)" by (simp add: field_tables)
  from unknown_fields [OF sample_facts(1-3,5,6) u l refl, of 0 0 500 "[99]"]
  obtain m' where d: "pb_decode_delimited (Suc 0) (schema_env 0) dl_12_fields 1000
      (pb_istream_from_buffer 500 (?inp @ [99]) (-1), INIT_PB_DECODE_DATA_STRUCT (1000, 2000) 4 (\<lambda>_. 0)) =
      Val () (pb_istream_from_buffer (500 + int (length ?inp)) [99] (- 1 - of_nat (length ?inp)), m')"
    and r: "\<forall>i<length dl_12_fields. received m' 500 (?inp @ [99]) (field_addr dl_12_fields 1000 i) 2000 (?vs ! i)"
    by blast
  have "load32 m' 1000 = 7" "bundle_len m' 2000 = 2"
    using r [rule_format, of 0] r [rule_format, of "Suc 0"] by (simp_all add: len addr_12 received_def)
  then show ?thesis using d by blast
qed

theorem message_round_trip_witness:
  "\<exists>out m'. pb_encode_delimited (Suc 0) (schema_env 0) sample_memory dl_12_fields 100 (pb_ostream_from_buffer 100) =
      Val () ((pb_ostream_from_buffer 100)\<lparr>os_out := out, bytes_written := of_nat (length out)\<rparr>) \<and>
    pb_decode_delimited (Suc 0) (schema_env 0) dl_12_fields 1000
      (pb_istream_from_buffer 500 (out @ []) (-1), INIT_PB_DECODE_DATA_STRUCT (1000, 2000) 4 (\<lambda>_. 0)) =
      Val () (pb_istream_from_buffer (500 + int (length out)) [] (- 1 - of_nat (length out)), m') \<and>
    load32 m' 1000 = 7"
proof -
  let ?vs = "[FInt 7, FBytes [5, 6]]"
  have len: "length dl_12_fields = Suc (Suc 0)" by (simp add: field_tables)
  have l: "length (encoding dl_12_fields ?vs) + 5 \<le> unat (100 :: u32)" using sample_encoding_length by simp
  from message_round_trip [OF sample_facts _ l, of 0 0 500 "[]"] sample_encoding_short
  obtain out m' where d: "pb_encode_delimited (Suc 0) (schema_env 0) sample_memory dl_12_fields 100 (pb_ostream_from_buffer 100) =
      Val () ((pb_ostream_from_buffer 100)\<lparr>os_out := out, bytes_written := of_nat (length out)\<rparr>)"
    "pb_decode_delimited (Suc 0) (schema_env 0) dl_12_fields 1000
      (pb_istream_from_buffer 500 (out @ []) (-1), INIT_PB_DECODE_DATA_STRUCT (1000, 2000) 4 (\<lambda>_. 0)) =
      Val () (pb_istream_from_buffer (500 + int (length out)) [] (- 1 - of_nat (length out)), m')"
    and r: "\<forall>i<length dl_12_fields. received m' 500 (out @ []) (field_addr dl_12_fields 1000 i) 2000 (?vs ! i)"
    by blast
  have "load32 m' 1000 = 7" using r [rule_format, of 0] by (simp add: len addr_12 received_def)
  then show ?thesis using d by blast
qed

end
