(* ===== verification/Remote_Arguments.thy ===== *)
theory Remote_Arguments
  imports Bus_Protocol
begin

text \<open>
  A remote call with its arguments, from the client's struct to the service function and back: the
  client serialises the call into a block (\<^verbatim>\<open>data_schema/pb_schema.c\<close>), sends the block as the payload
  (\<^verbatim>\<open>ipc/ipc_helper.c\<close>), the bus passes the message on (\<^verbatim>\<open>system_bus.c\<close>), the handler of the segment
  decodes the payload and calls the function (\<^verbatim>\<open>mblue_segment.c\<close>), and the answer goes back. This
  joins the codec with the messaging layer.
\<close>

section \<open>The payload on the heap\<close>

lemma granted_payload:
  assumes g: "granted hp blk = (p, hp')" and wf: "heap_wf hp" and b: "16 * Suc (hnext hp) < 2 ^ 32"
  shows "unat (of_nat p :: u32) = p" "PB_PAYLOAD (of_nat p)" "heap_wf hp'" "hblocks hp p = None"
    "hblocks hp' = (hblocks hp)(p \<mapsto> blk)" "hfail hp' = hfail hp" "hcalls hp' = Suc (hcalls hp)"
proof -
  have p: "p = 16 * Suc (hnext hp)" using g by (simp add: granted_def)
  show "unat (of_nat p :: u32) = p" "PB_PAYLOAD (of_nat p)" using aligned_payload [of p] b p by simp_all
  show "hblocks hp p = None" using heap_wf_fresh [OF wf] by (simp add: p)
  have hp': "hp' = hp\<lparr>hblocks := (hblocks hp)(p \<mapsto> blk), hnext := hnext hp + Suc (length blk div 16),
      hcalls := Suc (hcalls hp)\<rparr>"
    using g unfolding granted_def p by (elim Pair_inject) simp
  show "hblocks hp' = (hblocks hp)(p \<mapsto> blk)" "hfail hp' = hfail hp" "hcalls hp' = Suc (hcalls hp)"
    unfolding hp' by simp_all
  show "heap_wf hp'" unfolding hp' p by (rule heap_wf_extend [OF wf refl])
qed

lemma call_bytes_length:
  assumes "length meth \<le> 30" and "length (encoding fs vs) < 2 ^ 31"
  shows "length (call_bytes meth index (Some fs) vs) \<le> 77 + length (encoding fs vs)"
  using header_length [of meth index] assms length_str_bytes [of "encoding fs vs"]
    length_str_bytes_short [of "encoding dl_rpc_header_fields (header_values meth index)"]
  by (simp add: call_bytes_def layout_bytes_def)

text \<open>The bytes a service function finds at an address, with a zero behind them.\<close>

definition heap_bytes_at :: "'u bus_world \<Rightarrow> u32 \<Rightarrow> u8 list \<Rightarrow> bool" where
  "heap_bytes_at w ptr bs \<longleftrightarrow> heap_wf (bw_heap w) \<and> (\<exists>p bytes off. hblocks (bw_heap w) p = Some bytes \<and>
     take (Suc (length bs)) (drop off bytes) = bs @ [0] \<and> ptr = of_nat (p + off) \<and> p + off + length bs < 2 ^ 32)"

text \<open>The function of the application: called with the encoded arguments and a pointer to the bytes, it
  gives the answer and the next state of the applications.\<close>

definition function_answers ::
    "'u app \<Rightarrow> nat \<Rightarrow> PB_TYPE_INDEX \<Rightarrow> fval list \<Rightarrow> SMART_DATA \<Rightarrow> 'u \<Rightarrow> 'u \<Rightarrow> bool" where
  "function_answers A f T vs ret u u' \<longleftrightarrow> (\<forall>ptr v. bw_user v = u \<and> heap_bytes_at v ptr (last_bytes vs) \<longrightarrow>
     app_service A f (call_args T ptr vs) v = Some (ret, v\<lparr>bw_user := u'\<rparr>))"

lemma payload_answers:
  fixes parser :: "'u bus_world parser" and w :: "'u bus_world"
  assumes T: "layout_entry T = (lay, parser)" and c: "layout_carries lay vs" and n: "0 \<notin> set meth" "length meth \<le> 30"
    and l: "case lay of None \<Rightarrow> True | Some fs \<Rightarrow> length (encoding fs vs) < 2 ^ 31"
    and fr: "frame_ok (st_frame (app_stack A))"
    and fn: "function_answers A f T vs ret (bw_user w) u"
    and pl: "PB_PAYLOAD payload"
      "hblocks (bw_heap w) (unat payload) = Some (call_bytes meth (pb_type_index T) lay vs @ 0 # pad)"
    and b: "unat payload + length (call_bytes meth (pb_type_index T) lay vs) < 2 ^ 32"
    and it: "items_lookup ss (type_value SYNC_CALL) (ucast minor) w = Some (Some f)" "f \<noteq> 0"
  shows "service_answers A ss minor payload ret u w"
proof -
  let ?b = "call_bytes meth (pb_type_index T) lay vs"
  let ?off = "length ?b - bytes_len vs"
  obtain x where x: "?b = x @ last_bytes vs" using call_bytes_last [OF c] by blast
  have "receive_payload A payload (?b @ 0 # pad) f v = Some (Some (ret, v\<lparr>bw_user := u\<rparr>))"
    if v: "bw_user v = bw_user w" "heap_wf (bw_heap v)" "hblocks (bw_heap v) (unat payload) = Some (?b @ 0 # pad)" for v
  proof -
    let ?ptr = "of_int (int (unat payload) + int ?off) :: u32"
    have "take (Suc (length (last_bytes vs))) (drop ?off (?b @ 0 # pad)) = last_bytes vs @ [0]" by (simp add: x bytes_len_last)
    moreover have "?ptr = of_nat (unat payload + ?off)" by simp
    moreover have "unat payload + ?off + length (last_bytes vs) < 2 ^ 32" using b by (simp add: x bytes_len_last)
    ultimately have "heap_bytes_at v ?ptr (last_bytes vs)" unfolding heap_bytes_at_def using v(2,3) by blast
    then have "app_service A f (call_args T ?ptr vs) v = Some (ret, v\<lparr>bw_user := u\<rparr>)"
      using fn v(1) unfolding function_answers_def by blast
    then show ?thesis
      unfolding receive_payload_def using receive_call_ok [OF T c fr n l, where w = v and f = "app_service A f"] by simp
  qed
  then show ?thesis unfolding service_answers_def using pl it by blast
qed

section \<open>The whole call\<close>

lemma remote_call_with_arguments:
  fixes parser :: "'u bus_world parser" and w :: "'u bus_world"
  assumes st: "call_state tc tb sb ts ss M [] [] 0 (m # r # free) [] w" and M: "unat major = M" and o: "out \<noteq> 0"
    and self: "get_current_context self w = tc"
    and gr: "\<not> hfail (bw_heap w) (hcalls (bw_heap w))" "\<not> hfail (bw_heap w) (Suc (hcalls (bw_heap w)))"
      "16 * Suc (hnext (bw_heap w)) + length (call_bytes meth (pb_type_index T) lay vs) < 2 ^ 32"
    and T: "layout_entry T = (lay, parser)" and c: "layout_carries lay vs"
    and h: "layout_holds (header_memory hdr meth (pb_type_index T) mem) lay src vs"
    and n: "0 \<notin> set meth" "length meth \<le> 30" "hdr \<noteq> 0" "hdr + 32 \<noteq> 0"
    and l: "case lay of None \<Rightarrow> True | Some fs \<Rightarrow> length (encoding fs vs) < 2 ^ 31"
    and fr: "frame_ok (st_frame (app_stack A))"
    and it: "items_lookup ss (type_value SYNC_CALL) (ucast minor) w = Some (Some f)" "f \<noteq> 0"
    and fn: "function_answers A f T vs ret (bw_user w) u"
  shows "\<exists>p hp w1 w2 w3 w4 w5.
      mblue_serialize_ipc (schema_env buf) hdr mem meth (pb_type_index T) src (bw_heap w) = Some (p, hp) \<and> p \<noteq> 0 \<and>
      mblue_remote_call (Suc fuel) self out major minor (of_nat p) (w\<lparr>bw_heap := hp\<rparr>) = Some (Posted m, w1) \<and>
      template_proc_turn (Suc fuel) A i tb w1 = Some (Returns w2) \<and>
      template_proc_turn (Suc fuel) A i ts w2 = Some (Returns w3) \<and>
      template_proc_turn (Suc fuel) A i tb w3 = Some (Returns w4) \<and>
      ipc_invoke_wait i tc w4 = Some (Returns (MBLUE_OK, w5)) \<and> mblue_remote_call_result out w5 = ret \<and>
      call_state tc tb sb ts ss M [] [] 0 (free @ [m, r]) [] w5 \<and>
      hblocks (bw_heap w5) = hblocks (bw_heap w) \<and> bw_user w5 = u"
proof -
  let ?b = "call_bytes meth (pb_type_index T) lay vs"
  obtain pad where ser: "mblue_serialize_ipc (schema_env buf) hdr mem meth (pb_type_index T) src (bw_heap w) =
      Some (granted (bw_heap w) (?b @ 0 # pad))"
    using serialize_ipc_ok [OF T c h n l gr(1)] by blast
  obtain p hp where g: "granted (bw_heap w) (?b @ 0 # pad) = (p, hp)" by force
  have "heap_wf (bw_heap w)" using st by (simp add: call_state_def)
  note p = granted_payload [OF g this add_lessD1 [OF gr(3)]]
  have b: "p + length ?b < 2 ^ 32" using gr(3) g by (simp add: granted_def)
  let ?w = "w\<lparr>bw_heap := hp\<rparr>"
  have st': "call_state tc tb sb ts ss M [] [] 0 (m # r # free) [] ?w" by (rule call_state_update(2) [OF st p(3)])
  have "service_answers A ss minor (of_nat p) ret u ?w"
    using fn it p(5) b by (intro payload_answers [OF T c n(1,2) l fr _ p(2)]) (simp_all add: p(1) items_lookup_def)
  from remote_call_returns [OF st' M o _ _ this, of self fuel i] self gr(2)
  obtain w1 w2 w3 w4 w5 where
    "mblue_remote_call (Suc fuel) self out major minor (of_nat p) ?w = Some (Posted m, w1)"
    "template_proc_turn (Suc fuel) A i tb w1 = Some (Returns w2)"
    "template_proc_turn (Suc fuel) A i ts w2 = Some (Returns w3)"
    "template_proc_turn (Suc fuel) A i tb w3 = Some (Returns w4)"
    "ipc_invoke_wait i tc w4 = Some (Returns (MBLUE_OK, w5))" "mblue_remote_call_result out w5 = ret"
    "call_state tc tb sb ts ss M [] [] 0 (free @ [m, r]) [] w5"
    "hblocks (bw_heap w5) = (hblocks hp)(p := None)" "bw_user w5 = u"
    by (auto simp: p(1,6,7) get_current_context_def)
  moreover have "(hblocks hp)(p := None) = hblocks (bw_heap w)" using p(4,5) by auto
  ultimately show ?thesis using ser g granted_facts(1) [OF g] by auto
qed

text \<open>C2 (remote\_call\_arguments): a client serialises a call of any layout and sends it to a bound
  segment. The function of the segment is called with the integers of the client's struct and a pointer
  to a copy of its bytes, its answer is the result of the call, and afterwards the payload, the pending
  call and both messages have been given back: the heap has the blocks it had before.\<close>

theorem remote_call_arguments:
  fixes parser :: "'u bus_world parser" and w :: "'u bus_world"
  assumes st: "call_state tc tb sb ts ss M [] [] 0 (m # r # free) [] w" and M: "unat major = M" and o: "out \<noteq> 0"
    and self: "get_current_context self w = tc"
    and gr: "\<not> hfail (bw_heap w) (hcalls (bw_heap w))" "\<not> hfail (bw_heap w) (Suc (hcalls (bw_heap w)))"
      "16 * Suc (hnext (bw_heap w)) + length (call_bytes meth (pb_type_index T) lay vs) < 2 ^ 32"
    and T: "layout_entry T = (lay, parser)" and c: "layout_carries lay vs"
    and h: "layout_holds (header_memory hdr meth (pb_type_index T) mem) lay src vs"
    and n: "0 \<notin> set meth" "length meth \<le> 30" "hdr \<noteq> 0" "hdr + 32 \<noteq> 0"
    and l: "case lay of None \<Rightarrow> True | Some fs \<Rightarrow> length (encoding fs vs) < 2 ^ 31"
    and fr: "frame_ok (st_frame (app_stack A))"
    and it: "items_lookup ss (type_value SYNC_CALL) (ucast minor) w = Some (Some f)" "f \<noteq> 0"
    and fn: "function_answers A f T vs ret (bw_user w) u"
  shows "\<exists>p hp w1 w2 w3 w4 w5.
      mblue_serialize_ipc (schema_env buf) hdr mem meth (pb_type_index T) src (bw_heap w) = Some (p, hp) \<and> p \<noteq> 0 \<and>
      mblue_remote_call (Suc fuel) self out major minor (of_nat p) (w\<lparr>bw_heap := hp\<rparr>) = Some (Posted m, w1) \<and>
      template_proc_turn (Suc fuel) A i tb w1 = Some (Returns w2) \<and>
      template_proc_turn (Suc fuel) A i ts w2 = Some (Returns w3) \<and>
      template_proc_turn (Suc fuel) A i tb w3 = Some (Returns w4) \<and>
      ipc_invoke_wait i tc w4 = Some (Returns (MBLUE_OK, w5)) \<and> mblue_remote_call_result out w5 = ret \<and>
      call_state tc tb sb ts ss M [] [] 0 (free @ [m, r]) [] w5 \<and>
      hblocks (bw_heap w5) = hblocks (bw_heap w) \<and> bw_user w5 = u"
  by (rule remote_call_with_arguments [OF assms])

text \<open>The struct \<^verbatim>\<open>dl_12\<close> of \<open>sample_struct\<close> sent to the sample system: the function adds its first argument to
  the number of calls, and the call gives 8.\<close>

theorem remote_call_arguments_witness:
  "\<exists>p hp w1 w2 w3 w4 w5.
      mblue_serialize_ipc (schema_env 0) 40 sample_struct [109, 49] (pb_type_index PB_12) 100 (bw_heap sample_world) = Some (p, hp) \<and> p \<noteq> 0 \<and>
      mblue_remote_call (Suc 3) 103 5 2 7 (of_nat p) (sample_world\<lparr>bw_heap := hp\<rparr>) = Some (Posted (msg_addr 0), w1) \<and>
      template_proc_turn (Suc 3) sample_app False 1 w1 = Some (Returns w2) \<and>
      template_proc_turn (Suc 3) sample_app False 2 w2 = Some (Returns w3) \<and>
      template_proc_turn (Suc 3) sample_app False 1 w3 = Some (Returns w4) \<and>
      ipc_invoke_wait False 3 w4 = Some (Returns (MBLUE_OK, w5)) \<and> mblue_remote_call_result 5 w5 = MAKE_INTEGER 8 \<and>
      call_state 3 1 10 2 20 2 [] [] 0 (map msg_addr [2..<32] @ [msg_addr 0, msg_addr 1]) [] w5 \<and>
      hblocks (bw_heap w5) = hblocks (bw_heap sample_world) \<and> bw_user w5 = 1"
proof -
  have c: "layout_carries (Some dl_12_fields) [FInt 7, FBytes [5, 6]]" by (simp add: layout_carries_def carried_shapes)
  have f: "frame_ok (st_frame (app_stack sample_app))" by (simp add: sample_app_def frame_ok_def)
  have it: "items_lookup 20 (type_value SYNC_CALL) (ucast (7 :: u16)) sample_world = Some (Some 5)"
    by (simp add: items_lookup_def sample_world_def sample_segment_def END_ITEM_ID_def)
  have fn: "function_answers sample_app 5 PB_12 [FInt 7, FBytes [5, 6]] (MAKE_INTEGER 8) (bw_user sample_world) 1"
    by (simp add: function_answers_def call_args_def arg_words_def) (simp add: sample_app_def sample_world_def)
  have hp: "\<not> hfail (bw_heap sample_world) k" for k by (simp add: sample_world_def fresh_heap_def)
  have b: "16 * Suc (hnext (bw_heap sample_world)) +
      length (call_bytes [109, 49] (pb_type_index PB_12) (Some dl_12_fields) [FInt 7, FBytes [5, 6]]) < 2 ^ 32"
    using call_bytes_length [of "[109, 49]" dl_12_fields "[FInt 7, FBytes [5, 6]]" "pb_type_index PB_12"] sample_encoding_length
    by (simp add: sample_world_def)
  have M: "unat (2 :: u16) = 2" by simp
  show ?thesis
    by (rule remote_call_arguments [OF sample_call_state M _ sample_call_facts(1) hp hp b layout_entry.simps(4) c
          sample_struct_holds _ _ _ _ _ f it _ fn]) (use sample_encoding_short in simp_all)
qed

end
