(* ===== verification/Hash_List.thy ===== *)
theory Hash_List
  imports Mblue_List
begin

text \<open>
  The hash lists of \<^verbatim>\<open>middleware/common/mblue_list.h\<close>: a head holds one pointer to the first node; a
  node has a pointer to the next node and a pointer to the pointer that leads to it, which is the
  \<^verbatim>\<open>first\<close> member of a head or the \<^verbatim>\<open>next\<close> member of another node. The abstraction \<open>hlist s h xs\<close>
  says that the nodes of the head \<open>h\<close> are \<open>xs\<close>. Both poison values of the header are the null pointer.
\<close>

section \<open>Heads, nodes and slots\<close>

text \<open>What \<^verbatim>\<open>pprev\<close> can point to.\<close>

datatype hslot = Null_slot | First_of addr | Next_of addr

record hlist_heap =
  hl_first :: "addr \<Rightarrow> addr"
  hl_next :: "addr \<Rightarrow> addr"
  hl_pprev :: "addr \<Rightarrow> hslot"

definition set_hfirst :: "addr \<Rightarrow> addr \<Rightarrow> hlist_heap \<Rightarrow> hlist_heap" where
  "set_hfirst h v s = s\<lparr>hl_first := (hl_first s)(h := v)\<rparr>"

definition set_hnext :: "addr \<Rightarrow> addr \<Rightarrow> hlist_heap \<Rightarrow> hlist_heap" where
  "set_hnext n v s = s\<lparr>hl_next := (hl_next s)(n := v)\<rparr>"

definition set_pprev :: "addr \<Rightarrow> hslot \<Rightarrow> hlist_heap \<Rightarrow> hlist_heap" where
  "set_pprev n v s = s\<lparr>hl_pprev := (hl_pprev s)(n := v)\<rparr>"

text \<open>Stores to the members of a node; through a null pointer they are errors. The heads are static objects.\<close>

definition put_next :: "addr \<Rightarrow> addr \<Rightarrow> hlist_heap \<Rightarrow> hlist_heap option" where
  "put_next n v s = (if n = NULL_addr then None else Some (set_hnext n v s))"

definition put_pprev :: "addr \<Rightarrow> hslot \<Rightarrow> hlist_heap \<Rightarrow> hlist_heap option" where
  "put_pprev n v s = (if n = NULL_addr then None else Some (set_pprev n v s))"

lemma put_live [simp]:
  "n \<noteq> NULL_addr \<Longrightarrow> put_next n v s = Some (set_hnext n v s)" "n \<noteq> NULL_addr \<Longrightarrow> put_pprev n p s = Some (set_pprev n p s)"
  by (simp_all add: put_next_def put_pprev_def)

text \<open>The assignment \<^verbatim>\<open>*pprev = v\<close>.\<close>

fun store_slot :: "hslot \<Rightarrow> addr \<Rightarrow> hlist_heap \<Rightarrow> hlist_heap option" where
  "store_slot Null_slot v s = None"
| "store_slot (First_of h) v s = Some (set_hfirst h v s)"
| "store_slot (Next_of n) v s = put_next n v s"

fun slot_value :: "hlist_heap \<Rightarrow> hslot \<Rightarrow> addr" where
  "slot_value s Null_slot = NULL_addr"
| "slot_value s (First_of h) = hl_first s h"
| "slot_value s (Next_of n) = hl_next s n"

lemma hlist_cells [simp]:
  "hl_first (set_hfirst h v s) = (hl_first s)(h := v)" "hl_next (set_hfirst h v s) = hl_next s"
  "hl_pprev (set_hfirst h v s) = hl_pprev s"
  "hl_next (set_hnext n v s) = (hl_next s)(n := v)" "hl_first (set_hnext n v s) = hl_first s"
  "hl_pprev (set_hnext n v s) = hl_pprev s"
  "hl_pprev (set_pprev n p s) = (hl_pprev s)(n := p)" "hl_first (set_pprev n p s) = hl_first s"
  "hl_next (set_pprev n p s) = hl_next s"
  by (simp_all add: set_hfirst_def set_hnext_def set_pprev_def)

section \<open>The operations\<close>

definition INIT_HLIST_HEAD :: "addr \<Rightarrow> hlist_heap \<Rightarrow> hlist_heap" where
  "INIT_HLIST_HEAD h s = set_hfirst h NULL_addr s"

definition INIT_HLIST_NODE :: "addr \<Rightarrow> hlist_heap \<Rightarrow> hlist_heap option" where
  "INIT_HLIST_NODE n s = do {
     s \<leftarrow> put_next n NULL_addr s;
     put_pprev n Null_slot s
   }"

definition hlist_unhashed :: "addr \<Rightarrow> hlist_heap \<Rightarrow> bool" where
  "hlist_unhashed n s \<longleftrightarrow> hl_pprev s n = Null_slot"

definition hlist_empty :: "addr \<Rightarrow> hlist_heap \<Rightarrow> bool" where
  "hlist_empty h s \<longleftrightarrow> hl_first s h = NULL_addr"

text \<open>\<^verbatim>\<open>__hlist_del\<close> reads the node first.\<close>

definition hlist_unlink :: "addr \<Rightarrow> hlist_heap \<Rightarrow> hlist_heap option" where
  "hlist_unlink n s =
     (if n = NULL_addr then None
      else let next = hl_next s n;
               pprev = hl_pprev s n
           in do {
             s \<leftarrow> store_slot pprev next s;
             if next \<noteq> NULL_addr then put_pprev next pprev s else Some s
           })"

definition hlist_del :: "addr \<Rightarrow> hlist_heap \<Rightarrow> hlist_heap option" where
  "hlist_del n s = do {
     s \<leftarrow> hlist_unlink n s;
     s \<leftarrow> put_next n NULL_addr s;
     put_pprev n Null_slot s
   }"

definition hlist_del_init :: "addr \<Rightarrow> hlist_heap \<Rightarrow> hlist_heap option" where
  "hlist_del_init n s =
     (if \<not> hlist_unhashed n s then do { s \<leftarrow> hlist_unlink n s; INIT_HLIST_NODE n s } else Some s)"

definition hlist_add_head :: "addr \<Rightarrow> addr \<Rightarrow> hlist_heap \<Rightarrow> hlist_heap option" where
  "hlist_add_head n h s = do {
     let first = hl_first s h;
     s \<leftarrow> put_next n first s;
     s \<leftarrow> (if first \<noteq> NULL_addr then put_pprev first (Next_of n) s else Some s);
     let s = set_hfirst h n s;
     put_pprev n (First_of h) s
   }"

text \<open>\<^verbatim>\<open>hlist_add_before\<close> reads \<^verbatim>\<open>next\<close>, which its comment requires not to be null.\<close>

definition hlist_add_before :: "addr \<Rightarrow> addr \<Rightarrow> hlist_heap \<Rightarrow> hlist_heap option" where
  "hlist_add_before n next s =
     (if next = NULL_addr then None
      else do {
        s \<leftarrow> put_pprev n (hl_pprev s next) s;
        s \<leftarrow> put_next n next s;
        s \<leftarrow> put_pprev next (Next_of n) s;
        store_slot (hl_pprev s n) n s
      })"

text \<open>\<^verbatim>\<open>hlist_add_after\<close> puts its second argument behind the first.\<close>

definition hlist_add_after :: "addr \<Rightarrow> addr \<Rightarrow> hlist_heap \<Rightarrow> hlist_heap option" where
  "hlist_add_after n next s = do {
     s \<leftarrow> put_next next (hl_next s n) s;
     s \<leftarrow> put_next n next s;
     s \<leftarrow> put_pprev next (Next_of n) s;
     if hl_next s next \<noteq> NULL_addr then put_pprev (hl_next s next) (Next_of next) s else Some s
   }"

definition hlist_move_list :: "addr \<Rightarrow> addr \<Rightarrow> hlist_heap \<Rightarrow> hlist_heap option" where
  "hlist_move_list old new s = do {
     let s = set_hfirst new (hl_first s old) s;
     s \<leftarrow> (if hl_first s new \<noteq> NULL_addr then put_pprev (hl_first s new) (First_of new) s else Some s);
     Some (set_hfirst old NULL_addr s)
   }"

text \<open>The loops with a body that may change the lists. \<^verbatim>\<open>hlist_for_each\<close> reads the next node after the
  body has run, \<^verbatim>\<open>hlist_for_each_safe\<close> before.\<close>

fun hlist_for_each_from ::
    "nat \<Rightarrow> (addr \<Rightarrow> hlist_heap \<Rightarrow> hlist_heap option) \<Rightarrow> addr \<Rightarrow> hlist_heap \<Rightarrow> (addr list \<times> hlist_heap) option" where
  "hlist_for_each_from 0 body pos s = None"
| "hlist_for_each_from (Suc fuel) body pos s =
     (if pos \<noteq> NULL_addr then
        case body pos s of
          None \<Rightarrow> None
        | Some s \<Rightarrow> map_option (apfst ((#) pos)) (hlist_for_each_from fuel body (hl_next s pos) s)
      else Some ([], s))"

definition hlist_for_each ::
    "nat \<Rightarrow> (addr \<Rightarrow> hlist_heap \<Rightarrow> hlist_heap option) \<Rightarrow> addr \<Rightarrow> hlist_heap \<Rightarrow> (addr list \<times> hlist_heap) option" where
  "hlist_for_each fuel body head s = hlist_for_each_from fuel body (hl_first s head) s"

fun hlist_for_each_safe_from ::
    "nat \<Rightarrow> (addr \<Rightarrow> hlist_heap \<Rightarrow> hlist_heap option) \<Rightarrow> addr \<Rightarrow> hlist_heap \<Rightarrow> (addr list \<times> hlist_heap) option" where
  "hlist_for_each_safe_from 0 body pos s = None"
| "hlist_for_each_safe_from (Suc fuel) body pos s =
     (if pos \<noteq> NULL_addr then
        let n = hl_next s pos in
        case body pos s of
          None \<Rightarrow> None
        | Some s \<Rightarrow> map_option (apfst ((#) pos)) (hlist_for_each_safe_from fuel body n s)
      else Some ([], s))"

definition hlist_for_each_safe ::
    "nat \<Rightarrow> (addr \<Rightarrow> hlist_heap \<Rightarrow> hlist_heap option) \<Rightarrow> addr \<Rightarrow> hlist_heap \<Rightarrow> (addr list \<times> hlist_heap) option" where
  "hlist_for_each_safe fuel body head s = hlist_for_each_safe_from fuel body (hl_first s head) s"

section \<open>Lists of nodes\<close>

text \<open>The nodes that follow a slot: each is found in the slot before it and points back to that slot.\<close>

fun hseg :: "hlist_heap \<Rightarrow> hslot \<Rightarrow> addr list \<Rightarrow> bool" where
  "hseg s p [] \<longleftrightarrow> True"
| "hseg s p (x # xs) \<longleftrightarrow> slot_value s p = x \<and> x \<noteq> NULL_addr \<and> hl_pprev s x = p \<and> hseg s (Next_of x) xs"

definition end_slot :: "hslot \<Rightarrow> addr list \<Rightarrow> hslot" where
  "end_slot p xs = (if xs = [] then p else Next_of (last xs))"

lemma end_slot_simps [simp]:
  "end_slot p [] = p" "end_slot p (x # xs) = end_slot (Next_of x) xs" "end_slot p (xs @ [x]) = Next_of x"
  by (simp_all add: end_slot_def)

definition hlist :: "hlist_heap \<Rightarrow> addr \<Rightarrow> addr list \<Rightarrow> bool" where
  "hlist s h xs \<longleftrightarrow> hseg s (First_of h) xs \<and> slot_value s (end_slot (First_of h) xs) = NULL_addr \<and> distinct xs"

lemma hseg_append: "hseg s p (xs @ ys) \<longleftrightarrow> hseg s p xs \<and> hseg s (end_slot p xs) ys"
  by (induction xs arbitrary: p) auto

lemma end_slot_append: "end_slot p (xs @ ys) = end_slot (end_slot p xs) ys"
  by (induction xs arbitrary: p) auto

text \<open>A segment does not change when its slots and the back pointers of its nodes do not.\<close>

lemma hseg_cong:
  assumes "xs \<noteq> [] \<Longrightarrow> slot_value s' p = slot_value s p" and "\<And>x. x \<in> set (butlast xs) \<Longrightarrow> hl_next s' x = hl_next s x"
    and "\<And>x. x \<in> set xs \<Longrightarrow> hl_pprev s' x = hl_pprev s x"
  shows "hseg s' p xs \<longleftrightarrow> hseg s p xs"
  using assms
proof (induction xs arbitrary: p)
  case (Cons x xs)
  have "hseg s' (Next_of x) xs \<longleftrightarrow> hseg s (Next_of x) xs"
    using Cons.prems by (intro Cons.IH) (cases xs; simp)+
  then show ?case using Cons.prems(1,3) by simp
qed simp

lemma hseg_null: "hseg s p xs \<Longrightarrow> NULL_addr \<notin> set xs"
  by (induction xs arbitrary: p) auto

lemma hlist_null: "hlist s h xs \<Longrightarrow> NULL_addr \<notin> set xs"
  by (auto simp: hlist_def dest: hseg_null)

lemma end_slot_cases: "end_slot (First_of h) xs = First_of h \<and> xs = [] \<or>
    (\<exists>ys x. xs = ys @ [x] \<and> end_slot (First_of h) xs = Next_of x)"
  by (cases xs rule: rev_cases) simp_all

text \<open>A list is the part before a node, the node, and the part behind it.\<close>

lemma hlist_split:
  "hlist s h (xs @ n # ys) \<longleftrightarrow> hseg s (First_of h) xs \<and> slot_value s (end_slot (First_of h) xs) = n \<and> n \<noteq> NULL_addr \<and>
     hl_pprev s n = end_slot (First_of h) xs \<and> hseg s (Next_of n) ys \<and> slot_value s (end_slot (Next_of n) ys) = NULL_addr \<and>
     distinct (xs @ n # ys)"
  by (auto simp: hlist_def hseg_append end_slot_append)

lemma slot_next: "slot_value s (end_slot (Next_of n) (y # ys)) = slot_value s (Next_of (last (y # ys)))"
  by (simp add: end_slot_def)

lemma hlist_frame:
  assumes "hl_first s' h = hl_first s h" and "\<And>x. x \<in> set xs \<Longrightarrow> hl_next s' x = hl_next s x \<and> hl_pprev s' x = hl_pprev s x"
  shows "hlist s' h xs \<longleftrightarrow> hlist s h xs"
proof -
  have "hseg s' (First_of h) xs \<longleftrightarrow> hseg s (First_of h) xs"
    using assms by (intro hseg_cong) (auto dest: in_set_butlastD)
  moreover have "slot_value s' (end_slot (First_of h) xs) = slot_value s (end_slot (First_of h) xs)"
    using assms by (simp add: end_slot_def)
  ultimately show ?thesis by (simp add: hlist_def)
qed

section \<open>What the operations do to the lists\<close>

lemma last_butlast: "distinct xs \<Longrightarrow> x \<in> set (butlast xs) \<Longrightarrow> x \<noteq> last xs"
  by (cases xs rule: rev_cases) auto

lemma hlist_init: "hlist (INIT_HLIST_HEAD h s) h []"
  by (simp add: hlist_def INIT_HLIST_HEAD_def)

lemma hlist_empty_iff: "hlist s h xs \<Longrightarrow> hlist_empty h s \<longleftrightarrow> xs = []"
  by (cases xs) (auto simp: hlist_def hlist_empty_def)

lemma hlist_hashed: "hlist s h (xs @ n # ys) \<Longrightarrow> \<not> hlist_unhashed n s"
  by (auto simp: hlist_split hlist_unhashed_def end_slot_def)

text \<open>Lists that share neither the head nor a node with an edited list keep their nodes.\<close>

definition untouched :: "addr \<Rightarrow> addr list \<Rightarrow> hlist_heap \<Rightarrow> hlist_heap \<Rightarrow> bool" where
  "untouched h xs s s' \<longleftrightarrow> (\<forall>h' zs. h' \<noteq> h \<longrightarrow> set zs \<inter> set xs = {} \<longrightarrow> hlist s' h' zs = hlist s h' zs)"

lemma untouchedI:
  assumes "\<And>h'. h' \<noteq> h \<Longrightarrow> hl_first s' h' = hl_first s h'"
    and "\<And>x. x \<notin> set xs \<Longrightarrow> x \<noteq> NULL_addr \<Longrightarrow> hl_next s' x = hl_next s x \<and> hl_pprev s' x = hl_pprev s x"
  shows "untouched h xs s s'"
  unfolding untouched_def
proof (intro allI impI)
  fix h' zs assume z: "h' \<noteq> h" "set zs \<inter> set xs = {}"
  show "hlist s' h' zs = hlist s h' zs"
  proof (cases "NULL_addr \<in> set zs")
    case True
    then show ?thesis using hlist_null by blast
  next
    case False
    then have "x \<noteq> NULL_addr" "x \<notin> set xs" if "x \<in> set zs" for x using that z(2) by auto
    then show ?thesis using z(1) assms by (intro hlist_frame) blast+
  qed
qed

lemma hlist_add_head_spec:
  assumes l: "hlist s h xs" and n: "n \<noteq> NULL_addr" "n \<notin> set xs"
  obtains s' where "hlist_add_head n h s = Some s'" "hlist s' h (n # xs)" "untouched h (n # xs) s s'"
proof (cases xs)
  case Nil
  have "hlist_add_head n h s = Some (set_pprev n (First_of h) (set_hfirst h n (set_hnext n NULL_addr s)))"
    using l n Nil by (simp add: hlist_def hlist_add_head_def)
  then show ?thesis by (rule that) (use l n Nil in \<open>auto simp: hlist_def intro!: untouchedI\<close>)
next
  case (Cons x ys)
  let ?s = "set_pprev n (First_of h) (set_hfirst h n (set_pprev x (Next_of n) (set_hnext n x s)))"
  have f: "hseg s (Next_of x) ys" "x \<notin> set ys" "hl_first s h = x" "x \<noteq> NULL_addr" using l Cons by (auto simp: hlist_def)
  have "hseg ?s (Next_of x) ys \<longleftrightarrow> hseg s (Next_of x) ys"
    using f n Cons by (intro hseg_cong) (auto dest: in_set_butlastD)
  then have "hlist ?s h (n # xs)" using l n Cons f by (auto simp: hlist_def end_slot_def)
  moreover have "hlist_add_head n h s = Some ?s" using f n by (simp add: hlist_add_head_def)
  moreover have "untouched h (n # xs) s ?s" using Cons by (intro untouchedI) auto
  ultimately show ?thesis using that by blast
qed

lemma hlist_unlink_spec:
  assumes l: "hlist s h (xs @ n # ys)"
  obtains s' where "hlist_unlink n s = Some s'" "hlist s' h (xs @ ys)"
    "\<And>h'. h' \<noteq> h \<Longrightarrow> hl_first s' h' = hl_first s h'"
    "\<And>x. x \<notin> set xs \<union> set ys \<Longrightarrow> hl_next s' x = hl_next s x \<and> hl_pprev s' x = hl_pprev s x"
proof -
  let ?e = "end_slot (First_of h) xs"
  note sp = l [unfolded hlist_split]
  have "?e \<noteq> Null_slot" by (simp add: end_slot_def)
  moreover have "NULL_addr \<notin> set xs" using hseg_null sp by blast
  ultimately obtain s1 where s1: "store_slot ?e (hl_next s n) s = Some s1"
    by (cases xs rule: rev_cases) auto
  have nn: "NULL_addr \<notin> set xs" using hseg_null sp by blast
  have f1: "hl_pprev s1 = hl_pprev s" "slot_value s1 ?e = hl_next s n"
    "\<And>h'. h' \<noteq> h \<Longrightarrow> hl_first s1 h' = hl_first s h'" "xs \<noteq> [] \<Longrightarrow> hl_first s1 = hl_first s"
    "\<And>x. x \<notin> set xs \<Longrightarrow> hl_next s1 x = hl_next s x" "\<And>x. x \<in> set (butlast xs) \<Longrightarrow> hl_next s1 x = hl_next s x"
    using s1 sp nn last_butlast [of xs] by (cases xs rule: rev_cases; auto simp: end_slot_def split: if_splits)+
  have ys: "hl_next s1 x = hl_next s x" if "x \<in> set ys" for x using that sp by (intro f1(5)) auto
  define s2 where "s2 = (if hl_next s n \<noteq> NULL_addr then set_pprev (hl_next s n) ?e s1 else s1)"
  have u: "hlist_unlink n s = Some s2" using sp s1 by (simp add: hlist_unlink_def s2_def)
  have v2: "slot_value s2 p = slot_value s1 p" for p by (cases p) (simp_all add: s2_def)
  have nx: "hl_next s2 = hl_next s1" "hl_first s2 = hl_first s1" by (simp_all add: s2_def)
  have hd: "hl_next s n = (case ys of [] \<Rightarrow> NULL_addr | y # _ \<Rightarrow> y)" using sp by (cases ys) auto
  have "hlist s2 h (xs @ ys)"
  proof (cases ys)
    case Nil
    then have s2: "s2 = s1" by (simp add: s2_def hd)
    have "hseg s1 (First_of h) xs \<longleftrightarrow> hseg s (First_of h) xs" by (intro hseg_cong) (simp_all add: f1)
    then show ?thesis using sp f1(2) Nil by (simp add: hlist_def s2 hd)
  next
    case (Cons y zs)
    have y: "y \<noteq> NULL_addr" "hseg s (Next_of y) zs" "y \<notin> set xs" "y \<notin> set zs" using sp Cons by auto
    have pp: "hl_pprev s2 = (hl_pprev s)(y := ?e)" using y by (simp add: s2_def hd Cons f1)
    have "hseg s2 (First_of h) xs \<longleftrightarrow> hseg s (First_of h) xs"
      using y by (intro hseg_cong) (auto simp: nx f1 pp)
    moreover have "hseg s2 (Next_of y) zs \<longleftrightarrow> hseg s (Next_of y) zs"
      using y sp Cons by (intro hseg_cong) (auto simp: nx pp ys dest: in_set_butlastD)
    moreover have "hl_next s2 (last (y # zs)) = hl_next s (last (y # zs))"
      using sp Cons by (auto simp: nx intro!: f1(5) dest: last_in_set split: if_splits)
    ultimately show ?thesis
      using sp y f1(2) Cons unfolding hlist_def
      by (auto simp: hseg_append end_slot_append v2 hd pp) (auto simp: end_slot_def nx)
  qed
  moreover have "hl_next s2 x = hl_next s x \<and> hl_pprev s2 x = hl_pprev s x" if "x \<notin> set xs \<union> set ys" for x
    using that f1 hd by (cases ys) (auto simp: s2_def)
  ultimately show thesis using u f1(3) by (intro that [of s2]) (auto simp: nx)
qed

lemma hlist_del_spec:
  assumes l: "hlist s h (xs @ n # ys)"
  obtains s' where "hlist_del n s = Some s'" "hlist_del_init n s = Some s'" "hlist s' h (xs @ ys)" "hlist_unhashed n s'"
    "hl_next s' n = NULL_addr" "untouched h (xs @ n # ys) s s'"
proof -
  obtain s1 where s1: "hlist_unlink n s = Some s1" "hlist s1 h (xs @ ys)"
      "\<And>h'. h' \<noteq> h \<Longrightarrow> hl_first s1 h' = hl_first s h'"
      "\<And>x. x \<notin> set xs \<union> set ys \<Longrightarrow> hl_next s1 x = hl_next s x \<and> hl_pprev s1 x = hl_pprev s x"
    using hlist_unlink_spec [OF l] by blast
  let ?s = "set_pprev n Null_slot (set_hnext n NULL_addr s1)"
  have n: "n \<notin> set (xs @ ys)" "n \<noteq> NULL_addr" using l by (auto simp: hlist_split)
  then have "hlist ?s h (xs @ ys)" using s1(2) by (subst hlist_frame [where s = s1]) auto
  moreover have "untouched h (xs @ n # ys) s ?s" using s1(3,4) by (intro untouchedI) auto
  ultimately show thesis
    using s1(1) hlist_hashed [OF l] n
    by (intro that [of ?s]) (auto simp: hlist_del_def hlist_del_init_def INIT_HLIST_NODE_def hlist_unhashed_def)
qed

lemma hlist_add_before_spec:
  assumes l: "hlist s h (xs @ y # ys)" and n: "n \<noteq> NULL_addr" "n \<notin> set (xs @ y # ys)"
  obtains s' where "hlist_add_before n y s = Some s'" "hlist s' h (xs @ n # y # ys)" "untouched h (n # xs @ y # ys) s s'"
proof -
  let ?e = "end_slot (First_of h) xs"
  let ?s1 = "set_pprev y (Next_of n) (set_hnext n y (set_pprev n (hl_pprev s y) s))"
  note sp = l [unfolded hlist_split]
  have "?e \<noteq> Null_slot" by (simp add: end_slot_def)
  moreover have nn: "NULL_addr \<notin> set xs" using hseg_null sp by blast
  ultimately obtain s2 where s2: "store_slot ?e n ?s1 = Some s2" by (cases xs rule: rev_cases) auto
  have ny: "n \<noteq> y" "y \<notin> set xs" "y \<notin> set ys" "n \<notin> set xs" "n \<notin> set ys" using n sp by auto
  have f2: "hl_pprev s2 = (hl_pprev s)(n := ?e, y := Next_of n)" "slot_value s2 ?e = n"
    "\<And>x. x \<notin> set xs \<Longrightarrow> x \<noteq> n \<Longrightarrow> hl_next s2 x = hl_next s x" "hl_next s2 n = y"
    "\<And>x. x \<in> set (butlast xs) \<Longrightarrow> hl_next s2 x = hl_next s x" "xs \<noteq> [] \<Longrightarrow> hl_first s2 = hl_first s"
    "\<And>h'. h' \<noteq> h \<Longrightarrow> hl_first s2 h' = hl_first s h'"
    using s2 sp ny nn last_butlast [of xs]
    by (cases xs rule: rev_cases; auto simp: end_slot_def split: if_splits dest: in_set_butlastD)+
  have ys: "hl_next s2 x = hl_next s x" if "x \<in> set (y # ys)" for x using that sp n by (intro f2(3)) auto
  have "hseg s2 (First_of h) xs \<longleftrightarrow> hseg s (First_of h) xs"
    using ny f2(5) by (intro hseg_cong) (auto simp: f2(1,6))
  moreover have "hseg s2 (Next_of y) ys \<longleftrightarrow> hseg s (Next_of y) ys"
    using ny sp by (intro hseg_cong) (auto simp: f2(1) ys dest: in_set_butlastD)
  moreover have "slot_value s2 (end_slot (Next_of y) ys) = slot_value s (end_slot (Next_of y) ys)"
    using ny sp f2(3) by (cases ys rule: rev_cases) auto
  ultimately have "hlist s2 h (xs @ n # y # ys)"
    using sp n ny unfolding hlist_split by (auto simp: f2)
  moreover have "hlist_add_before n y s = Some s2"
    using s2 sp ny n by (simp add: hlist_add_before_def)
  moreover have "untouched h (n # xs @ y # ys) s s2"
    using f2(3,7) by (intro untouchedI) (auto simp: f2(1))
  ultimately show thesis using that by blast
qed

lemma hlist_add_after_spec:
  assumes l: "hlist s h (xs @ x # ys)" and n: "n \<noteq> NULL_addr" "n \<notin> set (xs @ x # ys)"
  obtains s' where "hlist_add_after x n s = Some s'" "hlist s' h (xs @ x # n # ys)" "untouched h (n # xs @ x # ys) s s'"
proof -
  define s' where "s' = the (hlist_add_after x n s)"
  let ?s = s'
  note sp = l [unfolded hlist_split]
  have ny: "n \<noteq> x" "x \<notin> set xs" "x \<notin> set ys" "n \<notin> set xs" "n \<notin> set ys" using n sp by auto
  have hd: "hl_next s x = (case ys of [] \<Rightarrow> NULL_addr | y # _ \<Rightarrow> y)" using sp by (cases ys) auto
  have f: "hl_next ?s = (hl_next s)(n := hl_next s x, x := n)" "hl_first ?s = hl_first s"
    "hl_pprev ?s = (case ys of [] \<Rightarrow> (hl_pprev s)(n := Next_of x) | y # _ \<Rightarrow> (hl_pprev s)(n := Next_of x, y := Next_of n))"
    using ny sp n by (cases ys; auto simp: s'_def hlist_add_after_def hd)+
  have a: "hlist_add_after x n s = Some s'"
    using ny sp n by (cases ys) (auto simp: s'_def hlist_add_after_def hd)
  have "hseg ?s (First_of h) xs \<longleftrightarrow> hseg s (First_of h) xs"
    using ny sp by (intro hseg_cong) (cases ys; auto simp: f dest: in_set_butlastD)+
  moreover have "slot_value ?s (end_slot (First_of h) xs) = slot_value s (end_slot (First_of h) xs)"
    using ny by (cases xs rule: rev_cases) (auto simp: f)
  moreover have "hseg ?s (Next_of n) ys \<and> slot_value ?s (end_slot (Next_of n) ys) = NULL_addr"
  proof (cases ys)
    case (Cons y zs)
    have "hseg ?s (Next_of y) zs \<longleftrightarrow> hseg s (Next_of y) zs"
      using ny sp Cons by (intro hseg_cong) (auto simp: f dest: in_set_butlastD)
    moreover have "slot_value ?s (end_slot (Next_of y) zs) = slot_value s (end_slot (Next_of y) zs)"
      using ny sp Cons by (cases zs rule: rev_cases) (auto simp: f)
    ultimately show ?thesis using sp ny Cons by (auto simp: f hd)
  qed (use ny in \<open>simp add: f hd\<close>)
  ultimately have "hlist s' h (xs @ x # n # ys)"
    using sp n ny unfolding hlist_split by (cases ys) (auto simp: f)
  moreover have "untouched h (n # xs @ x # ys) s s'"
    by (intro untouchedI) (cases ys; auto simp: f)+
  ultimately show thesis using that a by blast
qed

lemma hlist_move_list_spec:
  assumes "hlist s old xs" and "old \<noteq> new"
  obtains s' where "hlist_move_list old new s = Some s'" "hlist s' new xs" "hlist s' old []"
proof (cases xs)
  case Nil
  then show ?thesis
    using assms by (intro that [of "set_hfirst old NULL_addr (set_hfirst new NULL_addr s)"]) (simp_all add: hlist_def hlist_move_list_def)
next
  case (Cons x ys)
  let ?s = "set_hfirst old NULL_addr (set_pprev x (First_of new) (set_hfirst new x s))"
  have f: "hl_first s old = x" "x \<noteq> NULL_addr" "x \<notin> set ys" "hseg s (Next_of x) ys"
    using assms Cons by (auto simp: hlist_def)
  have "hseg ?s (Next_of x) ys \<longleftrightarrow> hseg s (Next_of x) ys" using f by (intro hseg_cong) auto
  then have "hlist ?s new xs" using assms f Cons by (auto simp: hlist_def end_slot_def)
  then show ?thesis using f by (intro that [of ?s]) (simp_all add: hlist_def hlist_move_list_def)
qed

section \<open>Loops\<close>

lemma hlist_for_each_visits:
  assumes "hseg s p xs" and "slot_value s (end_slot p xs) = NULL_addr" and "length xs < fuel"
  shows "hlist_for_each_from fuel (\<lambda>_. Some) (slot_value s p) s = Some (xs, s)"
  using assms
proof (induction xs arbitrary: p fuel)
  case Nil
  then show ?case by (cases fuel) simp_all
next
  case (Cons x xs)
  then obtain k where k: "fuel = Suc k" by (cases fuel) simp_all
  have "hlist_for_each_from k (\<lambda>_. Some) (slot_value s (Next_of x)) s = Some (xs, s)"
    using Cons.prems k by (intro Cons.IH) simp_all
  then show ?case using Cons.prems k by simp
qed

text \<open>The safe loop with a body that deletes its node, from any node on that is the first of its list.\<close>

lemma hlist_drain:
  assumes "hlist s h xs" and "length xs < fuel"
  shows "\<exists>s'. hlist_for_each_safe_from fuel hlist_del (hl_first s h) s = Some (xs, s') \<and> hlist s' h [] \<and>
    (\<forall>n. n \<in> set xs \<or> hlist_unhashed n s \<and> n \<noteq> NULL_addr \<longrightarrow> hlist_unhashed n s')"
  using assms
proof (induction xs arbitrary: s fuel)
  case Nil
  then show ?case by (cases fuel) (auto simp: hlist_def)
next
  case (Cons x xs)
  then obtain k where k: "fuel = Suc k" "length xs < k" by (cases fuel) simp_all
  have l: "hlist s h ([] @ x # xs)" using Cons.prems by simp
  then have x: "hl_first s h = x" "x \<noteq> NULL_addr" "x \<notin> set xs" by (auto simp: hlist_def)
  obtain s1 where u: "hlist_unlink x s = Some s1"
      "\<And>y. y \<notin> set [] \<union> set xs \<Longrightarrow> hl_next s1 y = hl_next s y \<and> hl_pprev s1 y = hl_pprev s y"
    by (rule hlist_unlink_spec [OF l]) (rule that; assumption)
  obtain s2 where d: "hlist_del x s = Some s2" "hlist s2 h xs" "hlist_unhashed x s2"
    by (rule hlist_del_spec [OF l]) (simp add: that)
  have s2: "s2 = set_pprev x Null_slot (set_hnext x NULL_addr s1)" using d(1) u(1) x(2) by (simp add: hlist_del_def)
  have f: "hl_first s2 h = hl_next s x"
    using Cons.prems(1) d(2) unfolding hlist_def by (cases xs) simp_all
  obtain s3 where r: "hlist_for_each_safe_from k hlist_del (hl_first s2 h) s2 = Some (xs, s3)" "hlist s3 h []"
      "\<forall>n. n \<in> set xs \<or> hlist_unhashed n s2 \<and> n \<noteq> NULL_addr \<longrightarrow> hlist_unhashed n s3"
    using Cons.IH [OF d(2) k(2)] by blast
  have "hlist_unhashed n s2" if "hlist_unhashed n s" "n \<notin> set xs" for n
    using that u(2) [of n] by (auto simp: hlist_unhashed_def s2)
  then have "\<forall>n. n \<in> set (x # xs) \<or> hlist_unhashed n s \<and> n \<noteq> NULL_addr \<longrightarrow> hlist_unhashed n s3"
    using r(3) d(3) x by auto
  moreover have "hlist_for_each_safe_from fuel hlist_del (hl_first s h) s = Some (x # xs, s3)"
    using r(1) d(1) x by (simp add: k f)
  ultimately show ?case using r(2) by blast
qed

section \<open>Properties\<close>

text \<open>Two nodes on the head 9.\<close>

definition sample_hlist :: hlist_heap where
  "sample_hlist = \<lparr>hl_first = (\<lambda>_. 0)(9 := 1), hl_next = (\<lambda>_. 0)(1 := 2),
     hl_pprev = (\<lambda>_. Null_slot)(1 := First_of 9, 2 := Next_of 1)\<rparr>"

lemma sample_hlist: "hlist sample_hlist 9 [1, 2]"
  by (simp add: sample_hlist_def hlist_def NULL_addr_def)

lemma sample_hlist_built:
  "do { s \<leftarrow> hlist_add_head 2 9 (INIT_HLIST_HEAD 9 \<lparr>hl_first = (\<lambda>_. 0), hl_next = (\<lambda>_. 0), hl_pprev = (\<lambda>_. Null_slot)\<rparr>);
     hlist_add_head 1 9 s } = Some sample_hlist"
  by (simp add: hlist_add_head_def INIT_HLIST_HEAD_def NULL_addr_def sample_hlist_def set_hfirst_def set_hnext_def set_pprev_def
      fun_eq_iff)

text \<open>C39 (hash\_list\_edit): on a list of nodes, which may be empty: inserting a new node in front puts it there, and moving the
  list to another head moves all nodes and leaves an empty list. At a node of the list: inserting a new node before or behind it
  puts it there, and deleting the node removes exactly it and marks it as unhashed. Nothing but the
  move touches the lists of other heads. No operation stores through a null pointer, also when the list or what
  follows the node is empty.\<close>

theorem hash_list_edit:
  assumes l: "hlist s h us" and n: "n \<noteq> NULL_addr" "n \<notin> set us" and h: "h \<noteq> h'"
    and o: "hlist s h' zs" "set zs \<inter> set (n # us) = {}"
  shows "(\<exists>s'. hlist_add_head n h s = Some s' \<and> hlist s' h (n # us) \<and> hlist s' h' zs) \<and>
    (\<exists>s'. hlist_move_list h h' s = Some s' \<and> hlist s' h' us \<and> hlist s' h []) \<and>
    (\<forall>xs x ys. us = xs @ x # ys \<longrightarrow>
      (\<exists>s'. hlist_add_before n x s = Some s' \<and> hlist s' h (xs @ n # x # ys) \<and> hlist s' h' zs) \<and>
      (\<exists>s'. hlist_add_after x n s = Some s' \<and> hlist s' h (xs @ x # n # ys) \<and> hlist s' h' zs) \<and>
      (\<exists>s'. hlist_del x s = Some s' \<and> hlist_del_init x s = Some s' \<and> hlist s' h (xs @ ys) \<and> hlist_unhashed x s' \<and>
         hlist s' h' zs))"
proof (intro conjI allI impI)
  have u: "hlist s' h' zs" if "untouched h ws s s'" "set ws \<subseteq> set (n # us)" for s' ws
  proof -
    have "set zs \<inter> set ws = {}" using that(2) o(2) by blast
    with that(1) h have "hlist s' h' zs = hlist s h' zs" by (simp add: untouched_def)
    then show ?thesis using o(1) by simp
  qed
  show "\<exists>s'. hlist_add_head n h s = Some s' \<and> hlist s' h (n # us) \<and> hlist s' h' zs"
    using hlist_add_head_spec [OF l n] u by (metis subset_refl)
  show "\<exists>s'. hlist_move_list h h' s = Some s' \<and> hlist s' h' us \<and> hlist s' h []"
    using hlist_move_list_spec [OF l h] by metis
  fix xs x ys assume us: "us = xs @ x # ys"
  note l' = l [unfolded us] and n' = n [unfolded us]
  have ws: "set (n # xs @ x # ys) \<subseteq> set (n # us)" "set (xs @ x # ys) \<subseteq> set (n # us)" by (auto simp: us)
  show "\<exists>s'. hlist_add_before n x s = Some s' \<and> hlist s' h (xs @ n # x # ys) \<and> hlist s' h' zs"
    using hlist_add_before_spec [OF l' n'] u [OF _ ws(1)] by metis
  show "\<exists>s'. hlist_add_after x n s = Some s' \<and> hlist s' h (xs @ x # n # ys) \<and> hlist s' h' zs"
    using hlist_add_after_spec [OF l' n'] u [OF _ ws(1)] by metis
  show "\<exists>s'. hlist_del x s = Some s' \<and> hlist_del_init x s = Some s' \<and> hlist s' h (xs @ ys) \<and> hlist_unhashed x s' \<and>
      hlist s' h' zs"
    using hlist_del_spec [OF l'] u [OF _ ws(2)] by metis
qed

theorem hash_list_edit_witness:
  "(\<exists>s'. hlist_add_head 3 9 sample_hlist = Some s' \<and> hlist s' 9 [3, 1, 2]) \<and>
   (\<exists>s'. hlist_add_before 3 2 sample_hlist = Some s' \<and> hlist s' 9 [1, 3, 2]) \<and>
   (\<exists>s'. hlist_add_after 2 3 sample_hlist = Some s' \<and> hlist s' 9 [1, 2, 3]) \<and>
   (\<exists>s'. hlist_del 2 sample_hlist = Some s' \<and> hlist s' 9 [1]) \<and>
   (\<exists>s'. hlist_move_list 8 9 sample_hlist = Some s' \<and> hlist s' 9 [] \<and> hlist s' 8 [])"
proof -
  have e: "hlist sample_hlist 8 []" by (simp add: hlist_def sample_hlist_def NULL_addr_def)
  have n: "(3 :: addr) \<noteq> NULL_addr" "3 \<notin> set [1, 2 :: addr]" "(9 :: addr) \<noteq> 8" "set [] \<inter> set [3, 1, 2 :: addr] = {}"
    "(3 :: addr) \<notin> set []" "(8 :: addr) \<noteq> 9" "set [1, 2] \<inter> set [3 :: addr] = {}"
    by (simp_all add: NULL_addr_def)
  note a = hash_list_edit [OF sample_hlist n(1-3) e n(4)] and b = hash_list_edit [OF e n(1,5,6) sample_hlist n(7)]
  have "\<exists>s'. hlist_add_head 3 9 sample_hlist = Some s' \<and> hlist s' 9 [3, 1, 2]" using conjunct1 [OF a] by blast
  moreover have "(\<exists>s'. hlist_add_before 3 2 sample_hlist = Some s' \<and> hlist s' 9 ([1] @ [3, 2])) \<and>
      (\<exists>s'. hlist_add_after 2 3 sample_hlist = Some s' \<and> hlist s' 9 ([1] @ [2, 3])) \<and>
      (\<exists>s'. hlist_del 2 sample_hlist = Some s' \<and> hlist s' 9 ([1] @ []))"
    using conjunct2 [OF conjunct2 [OF a], rule_format, of "[1]" 2 "[]"] by auto
  moreover have "\<exists>s'. hlist_move_list 8 9 sample_hlist = Some s' \<and> hlist s' 9 [] \<and> hlist s' 8 []"
    using conjunct1 [OF conjunct2 [OF b]] by blast
  ultimately show ?thesis by simp
qed

text \<open>With one step more than nodes, the plain loop visits every node in order and
  ends, and the safe loop ends when its body deletes every node it visits: it visits all of them and
  leaves an empty list of unhashed nodes. The plain loop with the same body stops behind the first
  node, because the deletion clears the pointer it goes on with.\<close>

lemma hash_list_loops:
  assumes "hlist s h (x # xs)" and "Suc (length xs) < fuel"
  shows "hlist_for_each fuel (\<lambda>_. Some) h s = Some (x # xs, s) \<and>
    (\<exists>s'. hlist_for_each_safe fuel hlist_del h s = Some (x # xs, s') \<and> hlist s' h [] \<and> (\<forall>n\<in>set (x # xs). hlist_unhashed n s')) \<and>
    (\<exists>s'. hlist_for_each fuel hlist_del h s = Some ([x], s') \<and> hlist s' h xs)"
proof (intro conjI)
  have l: "length (x # xs) < fuel" using assms(2) by simp
  show "hlist_for_each fuel (\<lambda>_. Some) h s = Some (x # xs, s)"
    using hlist_for_each_visits [of s "First_of h" "x # xs"] assms l by (simp add: hlist_for_each_def hlist_def)
  show "\<exists>s'. hlist_for_each_safe fuel hlist_del h s = Some (x # xs, s') \<and> hlist s' h [] \<and> (\<forall>n\<in>set (x # xs). hlist_unhashed n s')"
    using hlist_drain [OF assms(1) l] unfolding hlist_for_each_safe_def by blast
  have k: "fuel = Suc (Suc (fuel - 2))" using assms(2) by simp
  obtain s' where "hlist_del x s = Some s'" "hlist s' h xs" "hl_next s' x = NULL_addr"
    by (rule hlist_del_spec [of s h "[]" x xs]) (use assms(1) in simp_all)
  then show "\<exists>s'. hlist_for_each fuel hlist_del h s = Some ([x], s') \<and> hlist s' h xs"
    using assms(1) by (subst k) (simp add: hlist_for_each_def hlist_def)
qed

lemma hash_list_loops_example:
  "hlist_for_each 3 (\<lambda>_. Some) 9 sample_hlist = Some ([1, 2], sample_hlist) \<and>
   (\<exists>s'. hlist_for_each_safe 3 hlist_del 9 sample_hlist = Some ([1, 2], s') \<and> hlist s' 9 []) \<and>
   (\<exists>s'. hlist_for_each 3 hlist_del 9 sample_hlist = Some ([1], s') \<and> hlist s' 9 [2])"
  using hash_list_loops [OF sample_hlist, of 3] by auto

end
