(* ===== verification/Payload_Map.thy ===== *)
theory Payload_Map
  imports Pal_Heap
begin

text \<open>
  The self-describing payloads of \<^verbatim>\<open>middleware/components/map/mblue_map.c\<close> and \<^verbatim>\<open>mblue_map.h\<close>: integers and
  pointers in tagged words, byte payloads and vectors of payloads on the heap, and the parser that
  lays the elements of a vector out in a struct of words. Which blocks are live and how long they are
  is the heap of \<open>Pal_Heap\<close>; the contents of payload structs and the words of entry arrays are kept
  beside it. A pointer to an entry is a block and an index.
\<close>

section \<open>Payloads\<close>

definition GUARD_MAGIC :: u32 where "GUARD_MAGIC = 0x45454545"

definition PAYLOAD_P :: "u32 \<Rightarrow> bool" where "PAYLOAD_P x \<longleftrightarrow> x AND 3 = 0"
definition POINTER_STATIC :: "u32 \<Rightarrow> bool" where "POINTER_STATIC x \<longleftrightarrow> x AND 3 = 2"
definition POINTER_DYNAMIC :: "u32 \<Rightarrow> bool" where "POINTER_DYNAMIC x \<longleftrightarrow> x AND 3 = 3"
definition POINTER_P :: "u32 \<Rightarrow> bool" where "POINTER_P x \<longleftrightarrow> POINTER_STATIC x \<or> POINTER_DYNAMIC x"
definition payload_pointer :: "u32 \<Rightarrow> u32" where "payload_pointer x = x AND 0xFFFFFFFC"

type_synonym eptr = "nat \<times> nat"

datatype mblue_payload = Pv_pair u32 u32 | Pv_byte u32 u32 | Pv_vector u32 eptr

record payload_world =
  pw_heap :: mblue_heap
  pw_objs :: "nat \<Rightarrow> mblue_payload"
  pw_words :: "nat \<Rightarrow> nat \<Rightarrow> u32"

record mblue_payload_vector_iter =
  vi_mp :: nat
  vi_pos :: eptr

definition sizeof_payload :: u32 where "sizeof_payload = 12"

definition payload_at :: "payload_world \<Rightarrow> nat \<Rightarrow> mblue_payload option" where
  "payload_at w p = (if hblocks (pw_heap w) p = None then None else Some (pw_objs w p))"

definition in_block :: "payload_world \<Rightarrow> eptr \<Rightarrow> bool" where
  "in_block w e \<longleftrightarrow> (case hblocks (pw_heap w) (fst e) of None \<Rightarrow> False | Some bs \<Rightarrow> 4 * Suc (snd e) \<le> length bs)"

definition word_at :: "payload_world \<Rightarrow> eptr \<Rightarrow> u32 option" where
  "word_at w e = (if in_block w e then Some (pw_words w (fst e) (snd e)) else None)"

definition set_word :: "eptr \<Rightarrow> u32 \<Rightarrow> payload_world \<Rightarrow> payload_world option" where
  "set_word e v w =
     (if in_block w e
      then Some (w\<lparr>pw_words := (pw_words w)(fst e := (pw_words w (fst e))(snd e := v))\<rparr>) else None)"

definition vector_fields :: "payload_world \<Rightarrow> nat \<Rightarrow> (u32 \<times> eptr) option" where
  "vector_fields w p = (case payload_at w p of Some (Pv_vector n e) \<Rightarrow> Some (n, e) | _ \<Rightarrow> None)"

definition pw_malloc :: "u32 \<Rightarrow> payload_world \<Rightarrow> (nat \<times> payload_world) option" where
  "pw_malloc size' w = do { (p, hp) \<leftarrow> mblue_malloc size' (pw_heap w); Some (p, w\<lparr>pw_heap := hp\<rparr>) }"

text \<open>Only the start of a block can be given back.\<close>

definition pw_free :: "eptr \<Rightarrow> payload_world \<Rightarrow> payload_world option" where
  "pw_free e w =
     (if snd e = 0 then do { hp \<leftarrow> mblue_free (fst e) (pw_heap w); Some (w\<lparr>pw_heap := hp\<rparr>) } else None)"

section \<open>Allocation\<close>

text \<open>\<^verbatim>\<open>mblue_malloc\<close> clears the requested bytes of the entries; the rest of the block is what the platform
  left there. The pointer is moved to the guard and is then stored as the entries of the vector.\<close>

definition mblue_payload_vector_alloc :: "u32 \<Rightarrow> payload_world \<Rightarrow> (nat \<times> payload_world) option" where
  "mblue_payload_vector_alloc size' w = do {
     (p, w) \<leftarrow> pw_malloc sizeof_payload w;
     (if p = 0 then Some (0, w) else do {
        let n = (size' + 1) * 4;
        (q, w) \<leftarrow> pw_malloc n w;
        (if q = 0 then do { w \<leftarrow> pw_free (p, 0) w; Some (0, w) } else do {
           let w = w\<lparr>pw_words := (pw_words w)(q := (\<lambda>i. if 4 * i < unat n then 0 else 0xCDCDCDCD))\<rparr>;
           w \<leftarrow> set_word (q, unat size') GUARD_MAGIC w;
           Some (p, w\<lparr>pw_objs := (pw_objs w)(p := Pv_vector size' (q, unat size'))\<rparr>)
        })
     })
   }"

definition mblue_payload_byte_alloc :: "u32 \<Rightarrow> u32 \<Rightarrow> payload_world \<Rightarrow> (nat \<times> payload_world) option" where
  "mblue_payload_byte_alloc len byte w = do {
     (p, w) \<leftarrow> pw_malloc sizeof_payload w;
     Some (if p = 0 then (0, w) else (p, w\<lparr>pw_objs := (pw_objs w)(p := Pv_byte len byte)\<rparr>))
   }"

definition mblue_payload_byte_release :: "nat \<Rightarrow> payload_world \<Rightarrow> (int \<times> payload_world) option" where
  "mblue_payload_byte_release bytes w = do { w \<leftarrow> pw_free (bytes, 0) w; Some (0, w) }"

section \<open>Iteration\<close>

definition mblue_payload_vector_iter_init :: "nat \<Rightarrow> payload_world \<Rightarrow> mblue_payload_vector_iter option" where
  "mblue_payload_vector_iter_init mp w = do {
     (n, elts) \<leftarrow> vector_fields w mp;
     Some \<lparr>vi_mp = mp, vi_pos = elts\<rparr>
   }"

definition mblue_payload_vector_iter_next ::
    "mblue_payload_vector_iter \<Rightarrow> payload_world \<Rightarrow> (int \<times> mblue_payload_vector_iter) option" where
  "mblue_payload_vector_iter_next iter w = do {
     let pos = (fst (vi_pos iter), Suc (snd (vi_pos iter)));
     let iter = iter\<lparr>vi_pos := pos\<rparr>;
     (n, elts) \<leftarrow> vector_fields w (vi_mp iter);
     (if fst pos \<noteq> fst elts then None
      else if of_nat (snd pos) - of_nat (snd elts) < n then do {
        v \<leftarrow> word_at w pos;
        Some (if v \<noteq> GUARD_MAGIC then 0 else -1, iter)
      } else Some (-1, iter))
   }"

definition mblue_payload_vector_put ::
    "mblue_payload_vector_iter \<Rightarrow> u32 \<Rightarrow> payload_world \<Rightarrow> payload_world option" where
  "mblue_payload_vector_put iter value w = set_word (vi_pos iter) value w"

definition mblue_payload_vector_get ::
    "mblue_payload_vector_iter \<Rightarrow> payload_world \<Rightarrow> (int \<times> u32) option" where
  "mblue_payload_vector_get iter w = do { v \<leftarrow> word_at w (vi_pos iter); Some (if v = 0 then -1 else 0, v) }"

section \<open>Release\<close>

text \<open>The nesting of vectors bounds the recursion of the release: \<open>No_fuel\<close> is a recursion deeper than the fuel, \<open>Fault\<close> a
  memory error.\<close>

datatype 'a outcome = Fault | No_fuel | Done 'a

definition access :: "'a option \<Rightarrow> 'a outcome" where
  "access x = (case x of None \<Rightarrow> Fault | Some y \<Rightarrow> Done y)"

definition and_then :: "'a outcome \<Rightarrow> ('a \<Rightarrow> 'b outcome) \<Rightarrow> 'b outcome" where
  "and_then x f = (case x of Fault \<Rightarrow> Fault | No_fuel \<Rightarrow> No_fuel | Done y \<Rightarrow> f y)"

lemma outcome_simps [simp]:
  "access None = Fault" "access (Some y) = Done y" "and_then Fault f = Fault" "and_then No_fuel f = No_fuel"
  "and_then (Done y) f = f y"
  by (simp_all add: access_def and_then_def)

lemma and_then_Done: "and_then x f = Done z \<longleftrightarrow> (\<exists>y. x = Done y \<and> f y = Done z)"
  by (cases x) simp_all

lemma access_Done: "access x = Done z \<longleftrightarrow> x = Some z"
  by (cases x) simp_all

text \<open>The items of a vector; \<open>rel\<close> releases an embedded vector. A null pointer counts as a payload.\<close>

primrec release_items ::
    "(nat \<Rightarrow> payload_world \<Rightarrow> payload_world outcome) \<Rightarrow> nat \<Rightarrow> eptr \<Rightarrow> payload_world \<Rightarrow> payload_world outcome" where
  "release_items rel 0 mp w = Done w"
| "release_items rel (Suc n) mp w =
     and_then (access (word_at w mp)) (\<lambda>p.
     and_then (if PAYLOAD_P p
               then and_then (access (payload_at w (unat p))) (\<lambda>obj.
                      case obj of
                        Pv_byte _ _ \<Rightarrow> access (map_option snd (mblue_payload_byte_release (unat p) w))
                      | Pv_vector _ _ \<Rightarrow> rel (unat p) w
                      | Pv_pair _ _ \<Rightarrow> Done w)
               else Done w) (\<lambda>w.
     release_items rel n (fst mp, Suc (snd mp)) w))"

primrec mblue_payload_vector_release :: "nat \<Rightarrow> nat \<Rightarrow> payload_world \<Rightarrow> payload_world outcome" where
  "mblue_payload_vector_release 0 pv_vector w = No_fuel"
| "mblue_payload_vector_release (Suc fuel) pv_vector w =
     and_then (access (vector_fields w pv_vector)) (\<lambda>(n, elts).
     and_then (release_items (mblue_payload_vector_release fuel) (unat n) elts w) (\<lambda>w.
     and_then (access (vector_fields w pv_vector)) (\<lambda>(n, elts).
     access (do { w \<leftarrow> pw_free elts w; pw_free (pv_vector, 0) w }))))"

section \<open>Parsing\<close>

text \<open>The words of the destination struct; writing outside it is an error.\<close>

definition put_dest :: "nat \<Rightarrow> u32 \<Rightarrow> u32 list \<Rightarrow> u32 list option" where
  "put_dest i v dest = (if i < length dest then Some (dest[i := v]) else None)"

definition mblue_payload_parse_byte :: "u32 \<times> u32 \<Rightarrow> nat \<Rightarrow> u32 list \<Rightarrow> u32 list option" where
  "mblue_payload_parse_byte pv i dest = do { dest \<leftarrow> put_dest (Suc i) (snd pv) dest; put_dest i (fst pv) dest }"

definition parse_item :: "u32 \<Rightarrow> nat \<Rightarrow> u32 list \<Rightarrow> payload_world \<Rightarrow> (nat \<times> u32 list) option" where
  "parse_item q i dest w =
     (if INTEGER_P q \<or> POINTER_P q then do {
        dest \<leftarrow> put_dest i (if INTEGER_P q then GET_INTEGER q else payload_pointer q) dest;
        Some (Suc i, dest)
      } else do {
        obj \<leftarrow> payload_at w (unat q);
        (case obj of
           Pv_byte len byte \<Rightarrow> do { dest \<leftarrow> mblue_payload_parse_byte (len, byte) i dest; Some (Suc (Suc i), dest) }
         | _ \<Rightarrow> Some (i, dest))
      })"

fun parse_vector_loop ::
    "nat \<Rightarrow> payload_world \<Rightarrow> mblue_payload_vector_iter \<Rightarrow> nat \<Rightarrow> u32 list \<Rightarrow> (int \<times> u32 list) option" where
  "parse_vector_loop 0 w iter i dest = None"
| "parse_vector_loop (Suc fuel) w iter i dest =
     (if i \<ge> length dest then None
      else if dest ! i = GUARD_MAGIC then Some (0, dest)
      else do {
        (ret, q) \<leftarrow> mblue_payload_vector_get iter w;
        (if ret \<noteq> 0 then Some (-1, dest) else do {
           (i, dest) \<leftarrow> parse_item q i dest w;
           (rc, iter) \<leftarrow> mblue_payload_vector_iter_next iter w;
           (if rc = 0 then parse_vector_loop fuel w iter i dest else Some (ret, dest))
         })
      })"

definition mblue_payload_parse_vector :: "nat \<Rightarrow> nat \<Rightarrow> u32 list \<Rightarrow> payload_world \<Rightarrow> (int \<times> u32 list) option" where
  "mblue_payload_parse_vector fuel pv_vector dest w = do {
     iter \<leftarrow> mblue_payload_vector_iter_init pv_vector w;
     parse_vector_loop fuel w iter 0 dest
   }"

definition mblue_payload_parse :: "nat \<Rightarrow> u32 \<Rightarrow> u32 list \<Rightarrow> payload_world \<Rightarrow> (int \<times> u32 list) option" where
  "mblue_payload_parse fuel payload dest w =
     (if INTEGER_P payload then do { dest \<leftarrow> put_dest 0 (GET_INTEGER payload) dest; Some (0, dest) }
      else do {
        obj \<leftarrow> payload_at w (unat payload);
        (case obj of
           Pv_byte len byte \<Rightarrow> do { dest \<leftarrow> mblue_payload_parse_byte (len, byte) 0 dest; Some (0, dest) }
         | Pv_vector _ _ \<Rightarrow> mblue_payload_parse_vector fuel (unat payload) dest w
         | Pv_pair _ _ \<Rightarrow> Some (0, dest))
      })"

section \<open>Parsing well-formed payloads\<close>

text \<open>The words an element stands for.\<close>

definition element_words :: "payload_world \<Rightarrow> u32 \<Rightarrow> u32 list" where
  "element_words w q =
     (if INTEGER_P q then [GET_INTEGER q] else if POINTER_P q then [payload_pointer q]
      else case payload_at w (unat q) of Some (Pv_byte len byte) \<Rightarrow> [len, byte] | _ \<Rightarrow> [])"

definition element_ok :: "payload_world \<Rightarrow> u32 \<Rightarrow> bool" where
  "element_ok w q \<longleftrightarrow> INTEGER_P q \<or> POINTER_P q \<or> (q \<noteq> 0 \<and> (\<exists>len byte. payload_at w (unat q) = Some (Pv_byte len byte)))"

text \<open>A vector whose entries are where its struct says.\<close>

definition vector_holds :: "payload_world \<Rightarrow> nat \<Rightarrow> u32 list \<Rightarrow> bool" where
  "vector_holds w p es \<longleftrightarrow> (\<exists>b k. payload_at w p = Some (Pv_vector (of_nat (length es)) (b, k)) \<and>
     k + length es < 2 ^ 32 \<and> (\<forall>j<length es. word_at w (b, k + j) = Some (es ! j)))"

text \<open>The entries the parser sees: it stops in front of an entry that looks like the guard.\<close>

fun visible :: "u32 list \<Rightarrow> u32 list" where
  "visible [] = []"
| "visible (q # qs) = q # takeWhile (\<lambda>x. x \<noteq> GUARD_MAGIC) qs"

lemma visible_Cons: "visible (q # qs) = q # (if qs = [] \<or> hd qs = GUARD_MAGIC then [] else visible qs)"
  by (cases qs) simp_all

lemma element_words_nonempty: "element_ok w q \<Longrightarrow> element_words w q \<noteq> []"
  by (auto simp: element_ok_def element_words_def)

lemma element_nonzero: "element_ok w q \<Longrightarrow> q \<noteq> 0"
  by (auto simp: element_ok_def INTEGER_P_def POINTER_P_def POINTER_STATIC_def POINTER_DYNAMIC_def)

lemma parse_item_words:
  assumes "element_ok w q" and "length pre = i" and "length (element_words w q) \<le> length rest"
  shows "parse_item q i (pre @ rest) w =
    Some (i + length (element_words w q), pre @ element_words w q @ drop (length (element_words w q)) rest)"
proof (cases "INTEGER_P q \<or> POINTER_P q")
  case True
  obtain x rs where "rest = x # rs" using assms(3) element_words_nonempty [OF assms(1)] by (cases rest) auto
  then show ?thesis using assms(2) True
    by (auto simp: parse_item_def element_words_def put_dest_def list_update_append)
next
  case False
  then obtain len byte where "payload_at w (unat q) = Some (Pv_byte len byte)"
    using assms(1) by (auto simp: element_ok_def)
  moreover from this False assms(3) obtain a b rs where "rest = a # b # rs"
    by (cases rest; cases "tl rest") (auto simp: element_words_def)
  ultimately show ?thesis using False assms(2)
    by (auto simp: parse_item_def element_words_def put_dest_def list_update_append mblue_payload_parse_byte_def)
qed

lemma parse_loop_words:
  assumes v: "payload_at w p = Some (Pv_vector n (b, k))" and n: "k + unat n < 2 ^ 32"
    and e: "\<And>i. i < length es \<Longrightarrow> word_at w (b, k + j + i) = Some (es ! i)" and j: "j + length es = unat n" "es \<noteq> []"
    and ok: "\<forall>q\<in>set (visible es). element_ok w q"
    and d: "length (concat (map (element_words w) (visible es))) \<le> length rest" "GUARD_MAGIC \<notin> set rest" and f: "length es < fuel"
  shows "parse_vector_loop fuel w \<lparr>vi_mp = p, vi_pos = (b, k + j)\<rparr> (length pre) (pre @ rest) =
    Some (0, pre @ concat (map (element_words w) (visible es)) @ drop (length (concat (map (element_words w) (visible es)))) rest)"
  using e j ok d f
proof (induction es arbitrary: j pre rest fuel)
  case (Cons q qs)
  obtain m where m: "fuel = Suc m" using Cons.prems by (cases fuel) simp_all
  have q: "element_ok w q" and w0: "word_at w (b, k + j) = Some q" using Cons.prems(1) [of 0] Cons.prems(4) by simp_all
  let ?stop = "qs = [] \<or> hd qs = GUARD_MAGIC"
  let ?ws = "element_words w q"
  have len: "length ?ws \<le> length rest" "rest \<noteq> []" using Cons.prems(5) element_words_nonempty [OF q] by auto
  then have r0: "rest ! 0 \<noteq> GUARD_MAGIC" using Cons.prems(6) by (cases rest) auto
  have it: "parse_item q (length pre) (pre @ rest) w = Some (length pre + length ?ws, pre @ ?ws @ drop (length ?ws) rest)"
    by (rule parse_item_words [OF q refl len(1)])
  have diff: "(of_nat (Suc (k + j)) - of_nat k :: u32) = of_nat (Suc j)" by simp
  have jn: "unat (of_nat (Suc j) :: u32) = Suc j" using Cons.prems(2) n by (intro unat_small32) simp
  have nx: "mblue_payload_vector_iter_next \<lparr>vi_mp = p, vi_pos = (b, k + j)\<rparr> w =
      Some (if ?stop then -1 else 0, \<lparr>vi_mp = p, vi_pos = (b, k + Suc j)\<rparr>)"
  proof (cases qs)
    case Nil
    then have "\<not> (of_nat (Suc j) :: u32) < n" using Cons.prems(2) jn by (simp add: word_less_nat_alt)
    then show ?thesis using v diff Nil
      by (simp add: mblue_payload_vector_iter_next_def vector_fields_def Let_def)
  next
    case (Cons q' qs')
    have "(of_nat (Suc j) :: u32) < n" using Cons.prems(2) jn Cons by (simp add: word_less_nat_alt)
    moreover have "word_at w (b, Suc (k + j)) = Some q'" using Cons.prems(1) [of 1] Cons by simp
    ultimately show ?thesis using v diff Cons
      by (simp add: mblue_payload_vector_iter_next_def vector_fields_def Let_def)
  qed
  have step: "parse_vector_loop fuel w \<lparr>vi_mp = p, vi_pos = (b, k + j)\<rparr> (length pre) (pre @ rest) =
      (if ?stop then Some (0, pre @ ?ws @ drop (length ?ws) rest)
       else parse_vector_loop m w \<lparr>vi_mp = p, vi_pos = (b, k + Suc j)\<rparr> (length pre + length ?ws) (pre @ ?ws @ drop (length ?ws) rest))"
    using len r0 w0 it nx element_nonzero [OF q]
    by (simp add: m mblue_payload_vector_get_def nth_append)
  show ?case
  proof (cases ?stop)
    case True
    then have "visible (q # qs) = [q]" by (simp only: visible_Cons if_True)
    then show ?thesis using step True by simp
  next
    case False
    have vis: "visible (q # qs) = q # visible qs" using False by (simp only: visible_Cons if_False)
    have "parse_vector_loop m w \<lparr>vi_mp = p, vi_pos = (b, k + Suc j)\<rparr> (length (pre @ ?ws)) ((pre @ ?ws) @ drop (length ?ws) rest) =
        Some (0, (pre @ ?ws) @ concat (map (element_words w) (visible qs)) @
          drop (length (concat (map (element_words w) (visible qs)))) (drop (length ?ws) rest))"
    proof (rule Cons.IH)
      show "word_at w (b, k + Suc j + i) = Some (qs ! i)" if "i < length qs" for i
        using Cons.prems(1) [of "Suc i"] that by simp
      show "GUARD_MAGIC \<notin> set (drop (length ?ws) rest)" using Cons.prems(6) by (meson in_set_dropD)
    qed (use Cons.prems(2-7) False m vis in \<open>auto simp del: visible.simps\<close>)
    then show ?thesis using step False unfolding vis by (simp add: add.commute del: visible.simps)
  qed
qed simp

section \<open>Vectors from the allocator\<close>

lemma pw_free_objs: "pw_free e w = Some w' \<Longrightarrow> pw_objs w' = pw_objs w"
  by (auto simp: pw_free_def split: if_splits bind_splits)

lemma byte_release_objs: "mblue_payload_byte_release p w = Some (r, w') \<Longrightarrow> pw_objs w' = pw_objs w"
  by (auto simp: mblue_payload_byte_release_def dest: pw_free_objs split: bind_splits)

lemma release_objs:
  assumes "release_items rel n mp w = Done w'" and rel: "\<And>p w w'. rel p w = Done w' \<Longrightarrow> pw_objs w' = pw_objs w"
  shows "pw_objs w' = pw_objs w"
  using assms(1)
proof (induction n arbitrary: mp w)
  case (Suc n)
  then obtain p w1 where p: "(if PAYLOAD_P p
               then and_then (access (payload_at w (unat p))) (\<lambda>obj.
                      case obj of
                        Pv_byte _ _ \<Rightarrow> access (map_option snd (mblue_payload_byte_release (unat p) w))
                      | Pv_vector _ _ \<Rightarrow> rel (unat p) w
                      | Pv_pair _ _ \<Rightarrow> Done w)
               else Done w) = Done w1"
    and r: "release_items rel n (fst mp, Suc (snd mp)) w1 = Done w'"
    by (auto simp: and_then_Done)
  have "pw_objs w1 = pw_objs w"
  proof (cases "PAYLOAD_P p")
    case True
    then obtain obj where "(case obj of
                        Pv_byte _ _ \<Rightarrow> access (map_option snd (mblue_payload_byte_release (unat p) w))
                      | Pv_vector _ _ \<Rightarrow> rel (unat p) w
                      | Pv_pair _ _ \<Rightarrow> Done w) = Done w1"
      using p by (auto simp: and_then_Done)
    then show ?thesis by (cases obj) (auto simp: access_Done dest: byte_release_objs rel)
  qed (use p in simp)
  then show ?case using Suc.IH [OF r] by simp
qed simp

lemma vector_release_objs: "mblue_payload_vector_release fuel p w = Done w' \<Longrightarrow> pw_objs w' = pw_objs w"
proof (induction fuel arbitrary: p w w')
  case (Suc fuel)
  then obtain n e w1 e' where r: "release_items (mblue_payload_vector_release fuel) n e w = Done w1"
    and f: "do { w \<leftarrow> pw_free e' w1; pw_free (p, 0) w } = Some w'"
    by (auto simp: and_then_Done access_Done)
  have "pw_objs w' = pw_objs w1" using f by (auto dest!: pw_free_objs split: bind_splits)
  then show ?case using release_objs [OF r] Suc.IH by simp
qed simp

lemma release_interior:
  assumes "pw_objs w p = Pv_vector n (q, k)" and "0 < k"
  shows "mblue_payload_vector_release fuel p w \<noteq> Done w'"
proof
  assume d: "mblue_payload_vector_release fuel p w = Done w'"
  then obtain m where m: "fuel = Suc m" by (cases fuel) simp_all
  obtain n' e w1 e' n1 where r: "release_items (mblue_payload_vector_release m) n' e w = Done w1"
    and v: "vector_fields w1 p = Some (n1, e')" and f: "do { w \<leftarrow> pw_free e' w1; pw_free (p, 0) w } = Some w'"
    using d by (auto simp: m and_then_Done access_Done)
  have "pw_objs w1 = pw_objs w" by (rule release_objs [OF r vector_release_objs])
  then have "e' = (q, k)" using v assms(1) by (auto simp: vector_fields_def payload_at_def split: if_splits)
  then show False using f assms(2) by (simp add: pw_free_def)
qed

lemma release_items_plain:
  assumes "\<And>i x. word_at w (q, i) = Some x \<Longrightarrow> k \<le> i \<Longrightarrow> \<not> PAYLOAD_P x" and "k \<le> j"
  shows "release_items rel n (q, j) w \<in> {Fault, Done w}"
  using assms(2)
proof (induction n arbitrary: j)
  case (Suc n)
  then show ?case
    using Suc.IH [of "Suc j"] assms(1) by (cases "word_at w (q, j)") simp_all
qed simp

text \<open>Without embedded payloads behind the pointer no fuel is needed.\<close>

lemma release_plain_faults:
  assumes "pw_objs w p = Pv_vector n (q, k)" and "0 < k" and "\<And>i x. word_at w (q, i) = Some x \<Longrightarrow> k \<le> i \<Longrightarrow> \<not> PAYLOAD_P x"
  shows "mblue_payload_vector_release (Suc fuel) p w = Fault"
proof -
  have "release_items (mblue_payload_vector_release fuel) (unat n) (q, k) w \<in> {Fault, Done w}"
    by (rule release_items_plain [OF assms(3) order_refl])
  then show ?thesis using assms(1,2) by (auto simp: vector_fields_def payload_at_def pw_free_def)
qed

section \<open>Properties\<close>

text \<open>A vector of an integer and a byte payload of four bytes at 4096, built by hand.\<close>

definition sample_payloads :: payload_world where
  "sample_payloads = \<lparr>pw_heap = fresh_heap\<lparr>hblocks := [16 \<mapsto> replicate 16 0, 32 \<mapsto> replicate 16 0, 48 \<mapsto> replicate 16 0], hnext := 4\<rparr>,
     pw_objs = (\<lambda>_. Pv_pair 0 0)(16 := Pv_vector 2 (32, 0), 48 := Pv_byte 4 4096),
     pw_words = (\<lambda>_ _. 0)(32 := (\<lambda>_. 0)(0 := MAKE_INTEGER 7, 1 := 48, 2 := GUARD_MAGIC))\<rparr>"

text \<open>C36 (payload\_parse): the parser on a vector whose entries are in place and a struct none of whose words has the value
  of the guard, which the parser would take for the end of the struct. It goes through the entries up to the first one
  behind the start of the vector that has the value of the guard, and lays them out: integers without their
  tag, pointers without theirs, and the length and the address of byte payloads, in the order of the
  vector. The rest of the struct stays as it was, and the answer is 0 also when the parser has stopped early. It ends
  after at most as many steps as there are entries.\<close>

theorem payload_parse:
  assumes "vector_holds w p es" and "es \<noteq> []" and "\<forall>q\<in>set (visible es). element_ok w q"
    and "length (concat (map (element_words w) (visible es))) \<le> length dest" and "GUARD_MAGIC \<notin> set dest" and "length es < fuel"
  shows "mblue_payload_parse_vector fuel p dest w =
    Some (0, concat (map (element_words w) (visible es)) @ drop (length (concat (map (element_words w) (visible es)))) dest)"
proof -
  obtain b k where v: "payload_at w p = Some (Pv_vector (of_nat (length es)) (b, k))" and n: "k + length es < 2 ^ 32"
      and e: "\<And>j. j < length es \<Longrightarrow> word_at w (b, k + j) = Some (es ! j)"
    using assms(1) unfolding vector_holds_def by blast
  have u: "unat (of_nat (length es) :: u32) = length es" using n by (intro unat_small32) simp
  note loop = parse_loop_words [OF v, where j = 0 and pre = "[]" and rest = dest and es = es and fuel = fuel]
  have "parse_vector_loop fuel w \<lparr>vi_mp = p, vi_pos = (b, k)\<rparr> 0 dest =
      Some (0, concat (map (element_words w) (visible es)) @ drop (length (concat (map (element_words w) (visible es)))) dest)"
    using loop n e assms(2-6) by (simp add: u)
  then show ?thesis
    by (simp add: mblue_payload_parse_vector_def mblue_payload_vector_iter_init_def vector_fields_def v)
qed

text \<open>The same vector with a third entry, the integer 0x11515151, whose tagged word is the guard.\<close>

definition guarded_payloads :: payload_world where
  "guarded_payloads = sample_payloads\<lparr>pw_objs := (pw_objs sample_payloads)(16 := Pv_vector 3 (32, 0))\<rparr>"

theorem payload_parse_witness:
  "mblue_payload_parse_vector 3 16 [0, 0, 0, 9] sample_payloads = Some (0, [7, 4, 4096, 9]) \<and>
   MAKE_INTEGER 0x11515151 = GUARD_MAGIC \<and>
   mblue_payload_parse_vector 4 16 [0, 0, 0, 9] guarded_payloads = Some (0, [7, 4, 4096, 9])"
proof -
  let ?es = "[MAKE_INTEGER 7, 48]" and ?w = sample_payloads and ?g = guarded_payloads
  have at: "payload_at ?w 16 = Some (Pv_vector 2 (32, 0))" "payload_at ?w 48 = Some (Pv_byte 4 4096)"
    "payload_at ?g 16 = Some (Pv_vector 3 (32, 0))" "payload_at ?g 48 = Some (Pv_byte 4 4096)"
    by (simp_all add: payload_at_def sample_payloads_def guarded_payloads_def)
  have g: "MAKE_INTEGER 0x11515151 = GUARD_MAGIC" by (simp add: MAKE_INTEGER_def GUARD_MAGIC_def)
  have v: "visible ?es = ?es" "visible (?es @ [GUARD_MAGIC]) = ?es" by (simp_all add: GUARD_MAGIC_def)
  have "vector_holds ?w 16 ?es"
    unfolding vector_holds_def at
    by (intro exI [of _ 32] exI [of _ 0]) (simp add: less_Suc_eq word_at_def in_block_def, simp add: sample_payloads_def)
  moreover have "vector_holds ?g 16 (?es @ [GUARD_MAGIC])"
    unfolding vector_holds_def at
    by (intro exI [of _ 32] exI [of _ 0])
      (simp add: less_Suc_eq word_at_def in_block_def, simp add: sample_payloads_def guarded_payloads_def)
  moreover have "element_words w (MAKE_INTEGER 7) = [7]" "element_words ?w 48 = [4, 4096]" "element_words ?g 48 = [4, 4096]" for w
    by (simp_all add: element_words_def at INTEGER_P_def MAKE_INTEGER_def GET_INTEGER_def POINTER_P_def POINTER_STATIC_def POINTER_DYNAMIC_def)
  moreover have "\<forall>q\<in>set ?es. element_ok ?w q" "\<forall>q\<in>set ?es. element_ok ?g q"
    by (simp_all add: element_ok_def at INTEGER_P_def MAKE_INTEGER_def)
  moreover have "GUARD_MAGIC \<notin> set [0, 0, 0, 9]" by (simp add: GUARD_MAGIC_def)
  ultimately show ?thesis
    using payload_parse [of ?w 16 ?es "[0, 0, 0, 9]" 3] payload_parse [of ?g 16 "?es @ [GUARD_MAGIC]" "[0, 0, 0, 9]" 4] g
    unfolding v by simp
qed

text \<open>C37 (payload\_vector\_broken): when both allocations succeed, a new vector of any size from 1 to 2 ^ 28 - 1 points
  behind its entries, at the guard: the first entry that is put overwrites the guard that should detect
  accesses out of bounds. Releasing the new vector is a memory error; it is also one after an integer has been put, and
  whatever happened to the heap and the entries in between the release never succeeds, since its entries are not the start of a
  block.\<close>

theorem payload_vector_broken:
  assumes h: "\<not> hfail (pw_heap w) (hcalls (pw_heap w))" "\<not> hfail (pw_heap w) (Suc (hcalls (pw_heap w)))"
    and n: "0 < unat size'" "unat size' < 2 ^ 28"
  shows "\<exists>p w1 q. mblue_payload_vector_alloc size' w = Some (p, w1) \<and> p \<noteq> 0 \<and> word_at w1 (q, unat size') = Some GUARD_MAGIC \<and>
    mblue_payload_vector_iter_init p w1 = Some \<lparr>vi_mp = p, vi_pos = (q, unat size')\<rparr> \<and>
    (\<forall>v. \<exists>w2. mblue_payload_vector_put \<lparr>vi_mp = p, vi_pos = (q, unat size')\<rparr> v w1 = Some w2 \<and> word_at w2 (q, unat size') = Some v \<and>
      (INTEGER_P v \<longrightarrow> (\<forall>fuel. mblue_payload_vector_release (Suc fuel) p w2 = Fault))) \<and>
    (\<forall>fuel. mblue_payload_vector_release (Suc fuel) p w1 = Fault) \<and>
    (\<forall>fuel hp ws w'. mblue_payload_vector_release fuel p (w1\<lparr>pw_heap := hp, pw_words := ws\<rparr>) \<noteq> Done w')"
proof -
  let ?n = "(size' + 1) * 4"
  have un: "unat ?n = 4 * Suc (unat size')"
    using n(2) by (simp add: unat_word_ariths)
  obtain p w0 where m1: "pw_malloc sizeof_payload w = Some (p, w0)" "p \<noteq> 0" "hblocks (pw_heap w0) p \<noteq> None"
      "hfail (pw_heap w0) = hfail (pw_heap w)" "hcalls (pw_heap w0) = Suc (hcalls (pw_heap w))" "p = 16 * Suc (hnext (pw_heap w))"
      "hnext (pw_heap w) < hnext (pw_heap w0)"
    using mblue_malloc_granted [OF h(1), of sizeof_payload] by (force simp: pw_malloc_def sizeof_payload_def)
  obtain q w1 bs where m2: "pw_malloc ?n w0 = Some (q, w1)" "q \<noteq> 0" "hblocks (pw_heap w1) q = Some bs" "4 * Suc (unat size') \<le> length bs"
      "q \<noteq> p" "hblocks (pw_heap w1) p \<noteq> None"
    using mblue_malloc_granted [of "pw_heap w0" ?n] h(2) m1 n(2) un by (force simp: pw_malloc_def)
  define w2 where "w2 = w1\<lparr>pw_words := (pw_words w1)(q := (\<lambda>i. if 4 * i < unat ?n then 0 else 0xCDCDCDCD))\<rparr>"
  have b2: "in_block w2 (q, unat size')" using m2(3,4) by (simp add: in_block_def w2_def)
  define w3 where "w3 = w2\<lparr>pw_words := (pw_words w2)(q := (pw_words w2 q)(unat size' := GUARD_MAGIC)),
    pw_objs := (pw_objs w2)(p := Pv_vector size' (q, unat size'))\<rparr>"
  have a: "mblue_payload_vector_alloc size' w = Some (p, w3)"
    using m1(1,2) m2(1,2) b2
    by (simp add: mblue_payload_vector_alloc_def set_word_def w2_def w3_def Let_def
        del: distrib_right_numeral distrib_left_numeral)
  have b3: "in_block w3 (q, unat size')" using b2 by (simp add: in_block_def w3_def)
  have f3: "vector_fields w3 p = Some (size', (q, unat size'))"
    using m2(6) by (simp add: vector_fields_def payload_at_def w3_def w2_def)
  have words: "pw_words w3 q i \<in> {GUARD_MAGIC, 0xCDCDCDCD}" if "unat size' \<le> i" for i
    using that un by (auto simp: w3_def w2_def)
  have plain: "\<not> PAYLOAD_P x" if "x \<in> {GUARD_MAGIC, 0xCDCDCDCD} \<or> INTEGER_P x" for x
    using that by (auto simp: PAYLOAD_P_def GUARD_MAGIC_def INTEGER_P_def)
  define put where "put v = w3\<lparr>pw_words := (pw_words w3)(q := (pw_words w3 q)(unat size' := v))\<rparr>" for v
  have o3: "pw_objs w3 p = Pv_vector size' (q, unat size')" "pw_objs (put v) p = Pv_vector size' (q, unat size')" for v
    by (simp_all add: put_def w3_def)
  have "mblue_payload_vector_put \<lparr>vi_mp = p, vi_pos = (q, unat size')\<rparr> v w3 = Some (put v) \<and>
      word_at (put v) (q, unat size') = Some v" for v
    using b3 by (simp add: mblue_payload_vector_put_def set_word_def word_at_def in_block_def put_def)
  moreover have "mblue_payload_vector_release (Suc fuel) p (put v) = Fault" if "INTEGER_P v" for v fuel
  proof (rule release_plain_faults [OF o3(2) n(1)])
    show "\<not> PAYLOAD_P x" if "word_at (put v) (q, i) = Some x" "unat size' \<le> i" for i x
      using that plain words [of i] \<open>INTEGER_P v\<close> by (auto simp: word_at_def put_def split: if_splits)
  qed
  moreover have "mblue_payload_vector_release (Suc fuel) p w3 = Fault" for fuel
    by (rule release_plain_faults [OF o3(1) n(1)]) (use plain words in \<open>auto simp: word_at_def split: if_splits\<close>)
  moreover have "mblue_payload_vector_release fuel p (w3\<lparr>pw_heap := hp, pw_words := ws\<rparr>) \<noteq> Done w'" for fuel hp ws w'
    by (rule release_interior [where n = size' and q = q and k = "unat size'"]) (use n(1) o3(1) in simp_all)
  moreover have "word_at w3 (q, unat size') = Some GUARD_MAGIC" using b3 by (simp add: word_at_def) (simp add: w3_def)
  moreover have "mblue_payload_vector_iter_init p w3 = Some \<lparr>vi_mp = p, vi_pos = (q, unat size')\<rparr>"
    by (simp add: mblue_payload_vector_iter_init_def f3)
  ultimately show ?thesis using a m1(2) by blast
qed

theorem payload_vector_broken_witness:
  "\<exists>p w1 q w2. mblue_payload_vector_alloc 3 sample_payloads = Some (p, w1) \<and> word_at w1 (q, 3) = Some GUARD_MAGIC \<and>
    mblue_payload_vector_put \<lparr>vi_mp = p, vi_pos = (q, 3)\<rparr> (MAKE_INTEGER 7) w1 = Some w2 \<and>
    mblue_payload_vector_release 1 p w1 = Fault \<and> mblue_payload_vector_release 1 p w2 = Fault"
proof -
  have h: "\<not> hfail (pw_heap sample_payloads) k" for k by (simp add: sample_payloads_def fresh_heap_def)
  have n: "0 < unat (3 :: u32)" "unat (3 :: u32) < 2 ^ 28" and i: "INTEGER_P (MAKE_INTEGER 7)"
    by (simp_all add: INTEGER_P_def MAKE_INTEGER_def)
  have u: "unat (3 :: u32) = 3" by simp
  obtain p w1 q where a: "mblue_payload_vector_alloc 3 sample_payloads = Some (p, w1)" "word_at w1 (q, unat (3 :: u32)) = Some GUARD_MAGIC"
      "\<forall>v. \<exists>w2. mblue_payload_vector_put \<lparr>vi_mp = p, vi_pos = (q, unat (3 :: u32))\<rparr> v w1 = Some w2 \<and>
        word_at w2 (q, unat (3 :: u32)) = Some v \<and> (INTEGER_P v \<longrightarrow> (\<forall>fuel. mblue_payload_vector_release (Suc fuel) p w2 = Fault))"
      "\<forall>fuel. mblue_payload_vector_release (Suc fuel) p w1 = Fault"
    using payload_vector_broken [OF h h n] by blast
  obtain w2 where "mblue_payload_vector_put \<lparr>vi_mp = p, vi_pos = (q, unat (3 :: u32))\<rparr> (MAKE_INTEGER 7) w1 = Some w2"
      "mblue_payload_vector_release (Suc 0) p w2 = Fault"
    using a(3) i by blast
  then show ?thesis using a(1,2,4) unfolding u One_nat_def by blast
qed

end
