(* ===== verification/Log_Text.thy ===== *)
theory Log_Text
  imports Calendar
begin

text \<open>
  The texts of the logger: C strings in buffers, the lines that \<^verbatim>\<open>middleware/components/log/log.c\<close> writes to
  its stream, and the texts that the senders of \<^verbatim>\<open>ipc/mblue_global_ipc_method.c\<close> put together: a message
  with the name of its source file, and a hex dump. A character is a byte; the formatted text of
  \<^verbatim>\<open>vsnprintf\<close> and the date are arguments. Writing or reading outside a buffer is \<open>None\<close>.
\<close>

section \<open>Strings in buffers\<close>

fun dec_digits :: "nat \<Rightarrow> u8 list" where
  "dec_digits n = (if n < 10 then [48 + of_nat n] else dec_digits (n div 10) @ [48 + of_nat (n mod 10)])"
declare dec_digits.simps [simp del]

definition hex_digit :: "nat \<Rightarrow> u8" where
  "hex_digit n = (if n < 10 then 48 + of_nat n else 87 + of_nat n)"

text \<open>\<^verbatim>\<open>"%x"\<close> of a byte.\<close>

definition hex_digits :: "u8 \<Rightarrow> u8 list" where
  "hex_digits c = (if unat c < 16 then [hex_digit (unat c)] else [hex_digit (unat c div 16), hex_digit (unat c mod 16)])"

text \<open>\<^verbatim>\<open>snprintf(buf + off, n, ...)\<close> of a text: at most \<open>n - 1\<close> characters and a zero.\<close>

definition put_string :: "nat \<Rightarrow> nat \<Rightarrow> u8 list \<Rightarrow> u8 list \<Rightarrow> u8 list option" where
  "put_string off n msg buf =
     (if n = 0 then Some buf
      else let t = take (n - 1) msg @ [0]
           in if off + length t \<le> length buf then Some (take off buf @ t @ drop (off + length t) buf) else None)"

text \<open>The string at the start of a buffer; without a zero it is read past the end.\<close>

definition c_string :: "u8 list \<Rightarrow> u8 list option" where
  "c_string buf = (if 0 \<in> set buf then Some (takeWhile (\<lambda>c. c \<noteq> 0) buf) else None)"

lemma c_string_app: "0 \<notin> set s \<Longrightarrow> c_string (s @ 0 # r) = Some s"
  by (induction s) (auto simp: c_string_def)

lemma put_string_app:
  assumes "length t < n" and "length s + length t < length (s @ r)"
  shows "put_string (length s) n t (s @ r) = Some (s @ t @ 0 # drop (Suc (length t)) r)"
  using assms by (simp add: put_string_def Let_def)

lemma put_string_cut:
  assumes "0 < n" "n \<le> Suc (length t)" and "length s + n \<le> length (s @ r)"
  shows "put_string (length s) n t (s @ r) = Some (s @ take (n - 1) t @ 0 # drop n r)"
  using assms by (cases n) (simp_all add: put_string_def Let_def min_absorb2)

text \<open>A text that is put behind a string into the rest of a buffer is cut to what fits.\<close>

lemma put_rest:
  assumes "length s < n" and "length (s @ r) = n"
  obtains r' where "put_string (length s) (n - length s) t (s @ r) = Some (s @ take (n - Suc (length s)) t @ 0 # r')"
    "length (s @ take (n - Suc (length s)) t @ 0 # r') = n"
proof (cases "length t < n - length s")
  case True
  have "put_string (length s) (n - length s) t (s @ r) = Some (s @ t @ 0 # drop (Suc (length t)) r)"
    by (rule put_string_app) (use True assms in auto)
  then show thesis using True assms by (intro that [of "drop (Suc (length t)) r"]) auto
next
  case False
  have "put_string (length s) (n - length s) t (s @ r) = Some (s @ take (n - length s - 1) t @ 0 # drop (n - length s) r)"
    by (rule put_string_cut) (use False assms in auto)
  moreover have "length r \<le> length t" "r \<noteq> []" using False assms by auto
  ultimately show thesis using assms by (intro that [of "drop (n - length s) r"]) (auto simp: min_def)
qed

lemma dec_digits_nonzero: "0 \<notin> set (dec_digits n)"
proof (induction n rule: dec_digits.induct)
  case (1 n)
  have z: "(48 + of_nat k :: u8) \<noteq> 0" if "k < 10" for k
  proof
    assume "(48 + of_nat k :: u8) = 0"
    then have "unat (of_nat (48 + k) :: u8) = 0" by simp
    then show False using that by (simp add: unat_of_nat del: of_nat_add)
  qed
  show ?case
    using 1 z [of n] z [of "n mod 10"] by (subst dec_digits.simps) auto
qed

lemma length_dec_digits: "n < 10 ^ Suc k \<Longrightarrow> length (dec_digits n) \<le> Suc k"
proof (induction k arbitrary: n)
  case (Suc k)
  then show ?case by (subst dec_digits.simps) (use Suc.IH [of "n div 10"] Suc.prems in auto)
qed (simp add: dec_digits.simps)

section \<open>The log manager\<close>

definition MAX_LOG_CACHE_LEN :: nat where "MAX_LOG_CACHE_LEN = 128"
definition MAX_CALENDAR_STRING_LEN :: nat where "MAX_CALENDAR_STRING_LEN = 20"

datatype log_level = LOG_DISABLE | LOG_ERROR | LOG_WARN | LOG_INFO | LOG_DEBUG | LOG_LEVEL_MAX

primrec log_level_value :: "log_level \<Rightarrow> u32" where
  "log_level_value LOG_DISABLE = 0" | "log_level_value LOG_ERROR = 1" | "log_level_value LOG_WARN = 2"
| "log_level_value LOG_INFO = 3" | "log_level_value LOG_DEBUG = 4" | "log_level_value LOG_LEVEL_MAX = 5"

datatype log_type = LOG_TYPE_PRINT | LOG_TYPE_STORAGE | LOG_TYPE_SERVER | LOG_TYPE_MAX

primrec log_type_value :: "log_type \<Rightarrow> u32" where
  "log_type_value LOG_TYPE_PRINT = 1" | "log_type_value LOG_TYPE_STORAGE = 2"
| "log_type_value LOG_TYPE_SERVER = 4" | "log_type_value LOG_TYPE_MAX = 7"

text \<open>Whether a stream handler is set, the cache, the level and the type, and the lines that the stream
  handler has printed.\<close>

record log_manager =
  lm_stream :: bool
  lm_cache :: "u8 list"
  lm_level :: u32
  lm_type :: u32
  lm_out :: "u8 list list"

definition log_set_stream :: "bool \<Rightarrow> log_manager \<Rightarrow> int \<times> log_manager" where
  "log_set_stream flush lm = (if flush then (0, lm\<lparr>lm_stream := True\<rparr>) else (-1, lm))"

definition log_init :: "log_manager \<Rightarrow> int \<times> log_manager" where
  "log_init lm =
     (let lm = lm\<lparr>lm_level := log_level_value LOG_DEBUG\<rparr>;
          lm = lm\<lparr>lm_type := log_type_value LOG_TYPE_PRINT\<rparr>;
          (_, lm) = log_set_stream True lm
      in (0, lm))"

text \<open>\<^verbatim>\<open>custom_print\<close>: the line goes to the terminal.\<close>

definition custom_print :: "u8 list \<Rightarrow> log_manager \<Rightarrow> int \<times> log_manager" where
  "custom_print line lm = (int (length line), lm\<lparr>lm_out := lm_out lm @ [line]\<rparr>)"

definition date_text :: "mblue_clock_entity \<Rightarrow> u8 list" where
  "date_text c = dec_digits (unat (cal_year c)) @ [45] @ dec_digits (unat (cal_month c)) @ [45] @
     dec_digits (unat (cal_day c)) @ [32] @ dec_digits (unat (cal_hour c)) @ [58] @
     dec_digits (unat (cal_minute c)) @ [58] @ dec_digits (unat (cal_second c))"

text \<open>It returns the length of the whole date, also when it was cut.\<close>

definition get_date :: "mblue_clock_entity \<Rightarrow> u8 list \<Rightarrow> (nat \<times> u8 list) option" where
  "get_date cur_time buffer = do {
     buffer \<leftarrow> put_string 0 MAX_CALENDAR_STRING_LEN (date_text cur_time) buffer;
     Some (length (date_text cur_time), buffer)
   }"

definition write_to_terminal :: "mblue_clock_entity \<Rightarrow> u8 list \<Rightarrow> log_manager \<Rightarrow> log_manager option" where
  "write_to_terminal cur_time str lm =
     (if lm_stream lm then do {
        let cache = replicate MAX_LOG_CACHE_LEN 0;
        (date_len, cache) \<leftarrow> get_date cur_time cache;
        cache \<leftarrow> put_string date_len (MAX_LOG_CACHE_LEN - date_len) ([32] @ str @ [10]) cache;
        line \<leftarrow> c_string cache;
        Some (snd (custom_print line (lm\<lparr>lm_cache := cache\<rparr>)))
      } else Some lm)"

definition log_write :: "mblue_clock_entity \<Rightarrow> u32 \<Rightarrow> u8 list \<Rightarrow> log_manager \<Rightarrow> (int \<times> log_manager) option" where
  "log_write cur_time level str lm =
     (if level \<le> lm_level lm then do { lm \<leftarrow> write_to_terminal cur_time str lm; Some (0, lm) } else Some (0, lm))"

definition log_uninit :: "log_manager \<Rightarrow> int" where
  "log_uninit lm = 0"

definition log_set_level :: "u32 \<Rightarrow> log_manager \<Rightarrow> log_manager" where
  "log_set_level level lm = (if level < log_level_value LOG_LEVEL_MAX then lm\<lparr>lm_level := level\<rparr> else lm)"

definition log_set_type :: "u32 \<Rightarrow> log_manager \<Rightarrow> log_manager" where
  "log_set_type type lm = (if type < log_type_value LOG_TYPE_MAX then lm\<lparr>lm_type := type\<rparr> else lm)"

text \<open>The instance is initialised when it is asked for the first time.\<close>

definition logger_get_instance :: "log_manager option \<Rightarrow> log_manager \<Rightarrow> log_manager" where
  "logger_get_instance lm log_manage = (case lm of Some lm \<Rightarrow> lm | None \<Rightarrow> snd (log_init log_manage))"

section \<open>The texts of the senders\<close>

text \<open>\<^verbatim>\<open>__log_get_file_name_pointer\<close>: what follows the last slash or backslash, if there is one.\<close>

definition is_slash :: "u8 \<Rightarrow> bool" where "is_slash c \<longleftrightarrow> c = 92 \<or> c = 47"

fun file_name_loop :: "nat \<Rightarrow> u8 list \<Rightarrow> u8 list option" where
  "file_name_loop 0 p = None"
| "file_name_loop (Suc pos) p = (if is_slash (p ! pos) then Some (drop (Suc pos) p) else file_name_loop pos p)"

definition log_get_file_name_pointer :: "u8 list \<Rightarrow> nat \<Rightarrow> u8 list option" where
  "log_get_file_name_pointer full_path len = file_name_loop len full_path"

text \<open>The cache of \<^verbatim>\<open>log_service_write\<close>: the prefix is cut at 126 characters but its whole length is the
  position of the text, and the room that is left for the text is computed in the unsigned size type.\<close>

definition log_prefix :: "u8 list \<Rightarrow> u32 \<Rightarrow> u8 list" where
  "log_prefix name level = name @ [91] @ dec_digits (unat level) @ [93, 32]"

definition log_text :: "u32 \<Rightarrow> u8 list \<Rightarrow> u8 list \<Rightarrow> u8 list \<Rightarrow> u8 list option" where
  "log_text level source msg tmp = do {
     let p = log_get_file_name_pointer source (length source);
     (log_len, tmp) \<leftarrow> (case p of None \<Rightarrow> Some (0, tmp)
       | Some name \<Rightarrow> do {
           tmp \<leftarrow> put_string 0 (MAX_LOG_CACHE_LEN - 1) (log_prefix name level) tmp;
           Some (of_nat (length (log_prefix name level)), tmp) });
     put_string (unat log_len) (unat (of_nat MAX_LOG_CACHE_LEN - log_len :: u32)) msg tmp
   }"

text \<open>The loop of \<^verbatim>\<open>log_service_hex\<close>: each byte is written behind the string so far.\<close>

fun hex_loop :: "u8 list \<Rightarrow> u8 list \<Rightarrow> u8 list option" where
  "hex_loop [] p = Some p"
| "hex_loop (c # cs) p = do {
     s \<leftarrow> c_string p;
     p \<leftarrow> put_string (length s) 3 (if c < 16 then 48 # hex_digits c else hex_digits c) p;
     hex_loop cs p
   }"

definition hex_line :: "u8 list \<Rightarrow> u8 list \<Rightarrow> u8 list \<Rightarrow> u8 list option" where
  "hex_line prefix s temp = put_string 0 (length prefix + length s + 3) (prefix @ [58] @ s @ [10]) temp"

definition hex_text :: "u8 list \<Rightarrow> u8 list \<Rightarrow> u8 list \<Rightarrow> u8 list \<Rightarrow> u8 list option" where
  "hex_text prefix buffer data_array temp = do {
     p \<leftarrow> hex_loop buffer data_array;
     s \<leftarrow> c_string p;
     hex_line prefix s temp
   }"

section \<open>Lines\<close>

text \<open>A date that fits its field: a year of at most four digits and two digits for everything else.\<close>

definition printable_date :: "mblue_clock_entity \<Rightarrow> bool" where
  "printable_date c \<longleftrightarrow> cal_year c < 10000 \<and> cal_month c < 100 \<and> cal_day c < 100 \<and> cal_hour c < 100 \<and>
     cal_minute c < 100 \<and> cal_second c < 100"

lemma date_text_facts:
  assumes "printable_date c"
  shows "length (date_text c) \<le> 19" "0 \<notin> set (date_text c)"
proof -
  have d2: "length (dec_digits n) \<le> 2" if "n < 100" for n using length_dec_digits [of n 1] that by simp
  have d4: "length (dec_digits n) \<le> 4" if "n < 10000" for n using length_dec_digits [of n 3] that by simp
  have "length (dec_digits (unat (cal_year c))) \<le> 4" "length (dec_digits (unat (cal_month c))) \<le> 2"
    "length (dec_digits (unat (cal_day c))) \<le> 2" "length (dec_digits (unat (cal_hour c))) \<le> 2"
    "length (dec_digits (unat (cal_minute c))) \<le> 2" "length (dec_digits (unat (cal_second c))) \<le> 2"
    using assms by (auto simp: printable_date_def word_less_nat_alt intro!: d2 d4)
  then show "length (date_text c) \<le> 19" by (simp add: date_text_def)
  show "0 \<notin> set (date_text c)" by (simp add: date_text_def dec_digits_nonzero)
qed

lemma write_line:
  assumes d: "printable_date c" and s: "0 \<notin> set str" and l: "lm_stream lm"
  shows "\<exists>cache. length cache = MAX_LOG_CACHE_LEN \<and> write_to_terminal c str lm =
    Some (lm\<lparr>lm_cache := cache, lm_out := lm_out lm @ [take 127 (date_text c @ [32] @ str @ [10])]\<rparr>)"
proof -
  let ?d = "date_text c" and ?t = "[32] @ str @ [10]"
  have dl: "length ?d \<le> 19" and d0: "0 \<notin> set ?d" using date_text_facts [OF d] by simp_all
  have g: "get_date c (replicate 128 0) = Some (length ?d, ?d @ 0 # replicate (127 - length ?d) 0)"
    using put_string_app [of ?d MAX_CALENDAR_STRING_LEN "[]" "replicate 128 0"] dl
    by (simp add: get_date_def MAX_CALENDAR_STRING_LEN_def)
  let ?r = "0 # replicate (127 - length ?d) 0 :: u8 list"
  obtain r' where p: "put_string (length ?d) (128 - length ?d) ?t (?d @ ?r) = Some (?d @ take (127 - length ?d) ?t @ 0 # r')"
      "length (?d @ take (127 - length ?d) ?t @ 0 # r') = 128"
    using put_rest [of ?d 128 ?r ?t] dl by auto
  have "0 \<notin> set (?d @ take (127 - length ?d) ?t)" using d0 s by (auto dest: in_set_takeD)
  then have c: "c_string (?d @ take (127 - length ?d) ?t @ 0 # r') = Some (?d @ take (127 - length ?d) ?t)"
    using c_string_app [of "?d @ take (127 - length ?d) ?t" r'] by simp
  have "?d @ take (127 - length ?d) ?t = take 127 (?d @ ?t)" using dl by simp
  then show ?thesis
    using l g p c by (intro exI [of _ "?d @ take (127 - length ?d) ?t @ 0 # r'"])
      (simp add: write_to_terminal_def MAX_LOG_CACHE_LEN_def custom_print_def Let_def)
qed

section \<open>Texts\<close>

lemma hex_digit_nonzero: "n < 16 \<Longrightarrow> hex_digit n \<noteq> 0"
proof
  assume n: "n < 16" "hex_digit n = 0"
  then have "unat (of_nat (if n < 10 then 48 + n else 87 + n) :: u8) = 0" by (simp add: hex_digit_def split: if_splits)
  then show False using n(1) by (simp add: unat_of_nat del: of_nat_add split: if_splits)
qed

definition hex_pair :: "u8 \<Rightarrow> u8 list" where
  "hex_pair c = [hex_digit (unat c div 16), hex_digit (unat c mod 16)]"

lemma hex_pair_written: "(if c < 16 then 48 # hex_digits c else hex_digits c) = hex_pair c"
  by (auto simp: hex_digits_def hex_pair_def word_less_nat_alt hex_digit_def)

lemma hex_pair_facts: "length (hex_pair c) = 2" "0 \<notin> set (hex_pair c)"
proof -
  have "unat c div 16 < 16" using unsigned_less [of c, where 'a = nat] by simp
  then show "length (hex_pair c) = 2" "0 \<notin> set (hex_pair c)"
    using hex_digit_nonzero [of "unat c div 16"] hex_digit_nonzero [of "unat c mod 16"] by (auto simp: hex_pair_def)
qed

lemma hex_loop_text:
  assumes "0 \<notin> set s" and "2 * length cs < length r"
  shows "\<exists>r'. hex_loop cs (s @ 0 # r) = Some (s @ concat (map hex_pair cs) @ 0 # r')"
  using assms
proof (induction cs arbitrary: s r)
  case (Cons c cs)
  let ?h = "hex_pair c"
  have "put_string (length s) 3 ?h (s @ 0 # r) = Some (s @ ?h @ 0 # drop (Suc (length ?h)) (0 # r))"
    by (rule put_string_app) (use Cons.prems hex_pair_facts [of c] in auto)
  then have "hex_loop (c # cs) (s @ 0 # r) = hex_loop cs ((s @ ?h) @ 0 # drop 2 r)"
    unfolding hex_loop.simps hex_pair_written using c_string_app [OF Cons.prems(1)] hex_pair_facts [of c] by simp
  moreover have "\<exists>r'. hex_loop cs ((s @ ?h) @ 0 # drop 2 r) = Some ((s @ ?h) @ concat (map hex_pair cs) @ 0 # r')"
    using Cons.prems hex_pair_facts [of c] by (intro Cons.IH) auto
  ultimately show ?case by simp
qed auto

lemma file_name_loop_split:
  "pos \<le> length p \<Longrightarrow> file_name_loop pos p = Some name \<Longrightarrow> \<exists>dir c. p = dir @ c # name \<and> is_slash c"
proof (induction pos)
  case (Suc pos)
  show ?case
  proof (cases "is_slash (p ! pos)")
    case True
    then have "p = take pos p @ p ! pos # name" using Suc.prems id_take_nth_drop [of pos p] by simp
    then show ?thesis using True by blast
  qed (use Suc in simp)
qed simp

section \<open>Properties\<close>

text \<open>A message of at most the level of the manager is printed as one line: the date, a
  space, the message and a line feed, cut to the 127 characters of the cache; a message above the level is
  not printed. The cache keeps its size and nothing is written outside it.\<close>

lemma log_line:
  assumes "printable_date c" and "0 \<notin> set str" and "lm_stream lm"
  shows "if level \<le> lm_level lm
    then \<exists>cache. length cache = MAX_LOG_CACHE_LEN \<and> log_write c level str lm =
      Some (0, lm\<lparr>lm_cache := cache, lm_out := lm_out lm @ [take 127 (date_text c @ [32] @ str @ [10])]\<rparr>)
    else log_write c level str lm = Some (0, lm)"
  using write_line [OF assms] by (auto simp: log_write_def)

text \<open>The first of January 2018, noon, and a message of two characters.\<close>

definition sample_date :: mblue_clock_entity where
  "sample_date = \<lparr>cal_year = 2018, cal_month = 1, cal_day = 1, cal_hour = 12, cal_minute = 0, cal_second = 0, cal_time_zone = 8\<rparr>"

definition sample_logger :: log_manager where
  "sample_logger = snd (log_init \<lparr>lm_stream = False, lm_cache = [], lm_level = 0, lm_type = 0, lm_out = []\<rparr>)"

lemma log_line_example:
  "\<exists>lm. log_write sample_date 3 [111, 107] sample_logger = Some (0, lm) \<and>
    lm_out lm = [[50, 48, 49, 56, 45, 49, 45, 49, 32, 49, 50, 58, 48, 58, 48, 32, 111, 107, 10]]"
proof -
  have "printable_date sample_date" by (simp add: printable_date_def sample_date_def)
  from log_line [OF this, of "[111, 107]" sample_logger 3]
  have "\<exists>lm. log_write sample_date 3 [111, 107] sample_logger = Some (0, lm) \<and>
      lm_out lm = [take 127 (date_text sample_date @ [32] @ [111, 107] @ [10])]"
    by (auto simp: sample_logger_def log_init_def log_set_stream_def Let_def)
  moreover have "dec_digits 2018 = [50, 48, 49, 56]" "dec_digits 12 = [49, 50]" "dec_digits 1 = [49]" "dec_digits 0 = [48]"
    by (simp_all add: dec_digits.simps)
  ultimately show ?thesis by (simp add: date_text_def sample_date_def)
qed

lemma log_text_result:
  assumes "level < log_level_value LOG_LEVEL_MAX" and "0 \<notin> set source" and "0 \<notin> set msg"
    and "length source < 2 ^ 31"
  shows "case log_get_file_name_pointer source (length source) of
      None \<Rightarrow> \<exists>r. log_text level source msg (replicate 128 0) = Some r \<and> c_string r = Some (take 127 msg)
    | Some name \<Rightarrow>
        if length name \<le> 120
        then \<exists>r. log_text level source msg (replicate 128 0) = Some r \<and>
          c_string r = Some (take 127 (log_prefix name level @ msg))
        else length name \<le> 124 \<or> log_text level source msg (replicate 128 0) = None"
proof (cases "log_get_file_name_pointer source (length source)")
  case None
  obtain r where "put_string (length []) (128 - length []) msg ([] @ replicate 128 0) =
      Some ([] @ take (128 - Suc (length [])) msg @ 0 # r)"
    using put_rest [of "[]" 128 "replicate 128 0" msg] by auto
  moreover have "0 \<notin> set (take 127 msg)" using assms(3) by (auto dest: in_set_takeD)
  ultimately show ?thesis using None c_string_app [of "take 127 msg" r] by (simp add: log_text_def MAX_LOG_CACHE_LEN_def)
next
  case (Some name)
  let ?p = "log_prefix name level"
  obtain dir c where src: "source = dir @ c # name"
    using file_name_loop_split [of "length source" source name] Some by (auto simp: log_get_file_name_pointer_def)
  have "unat level < 10" using assms(1) by (simp add: word_less_nat_alt)
  then have pl: "length ?p = length name + 4" by (simp add: log_prefix_def dec_digits.simps)
  have p0: "0 \<notin> set ?p" using assms(2) src by (simp add: log_prefix_def dec_digits_nonzero)
  have u: "unat (of_nat (length ?p) :: u32) = length ?p" using src assms(4) pl by (intro unat_small32) simp
  have lt: "log_text level source msg (replicate 128 0) =
      put_string 0 127 ?p (replicate 128 0) \<bind> put_string (length ?p) (unat (128 - of_nat (length ?p) :: u32)) msg"
    using Some by (simp add: log_text_def MAX_LOG_CACHE_LEN_def Let_def u del: of_nat_add)
  show ?thesis
  proof (cases "length name \<le> 120")
    case True
    have "put_string 0 127 ?p (replicate 128 0) = Some (?p @ 0 # drop (Suc (length ?p)) (replicate 128 0))"
      using put_string_app [of ?p 127 "[]" "replicate 128 0"] True pl by simp
    moreover have "unat (128 - of_nat (length ?p) :: u32) = 128 - length ?p"
      using True pl u by (simp add: unat_sub word_le_nat_alt del: of_nat_add)
    moreover obtain r where "put_string (length ?p) (128 - length ?p) msg (?p @ 0 # drop (Suc (length ?p)) (replicate 128 0)) =
        Some (?p @ take (128 - Suc (length ?p)) msg @ 0 # r)"
      using put_rest [of ?p 128 "0 # drop (Suc (length ?p)) (replicate 128 0)" msg] True pl by auto
    moreover have "0 \<notin> set (?p @ take (128 - Suc (length ?p)) msg)" using p0 assms(3) by (auto dest: in_set_takeD)
    moreover have "?p @ take (128 - Suc (length ?p)) msg = take 127 (?p @ msg)" using True pl by simp
    ultimately have "log_text level source msg (replicate 128 0) = Some (take 127 (?p @ msg) @ 0 # r) \<and>
        c_string (take 127 (?p @ msg) @ 0 # r) = Some (take 127 (?p @ msg))"
      using c_string_app [of "?p @ take (128 - Suc (length ?p)) msg" r] lt by simp
    then show ?thesis using True Some by auto
  next
    case False
    have "put_string (length ?p) (unat (128 - of_nat (length ?p) :: u32)) msg buf = None" if "length buf = 128" "124 < length name" for buf
    proof -
      have "unat (128 - of_nat (length ?p) :: u32) \<noteq> 0"
      proof
        assume "unat (128 - of_nat (length ?p) :: u32) = 0"
        then have "of_nat (length ?p) = (128 :: u32)" by (simp add: unat_eq_zero del: of_nat_add)
        then have "unat (of_nat (length ?p) :: u32) = 128" by simp
        then show False using u pl that by simp
      qed
      then show ?thesis using that pl by (simp add: put_string_def Let_def)
    qed
    moreover have "length buf = 128" if "put_string 0 127 ?p (replicate 128 0) = Some buf" for buf
      using that by (auto simp: put_string_def Let_def split: if_splits)
    ultimately have "124 < length name \<Longrightarrow> log_text level source msg (replicate 128 0) = None"
      unfolding lt by (cases "put_string 0 127 ?p (replicate 128 0)") (simp_all del: of_nat_add)
    then show ?thesis using False Some by (cases "length name \<le> 124") auto
  qed
qed

text \<open>C38 (log\_prefix\_room): the text of a log message in its cache of 128 characters. Without a slash in the
  source path it is the message; a name of at most 120 characters behind the last slash is put in front
  with the level, and the message is cut so that all fits; a name of more than 124 characters makes the
  room for the message wrap to a huge size, and the message is written outside the cache.\<close>

theorem log_prefix_room:
  assumes "level < log_level_value LOG_LEVEL_MAX" and "0 \<notin> set source" and "0 \<notin> set msg"
    and "length source < 2 ^ 31"
  shows "case log_get_file_name_pointer source (length source) of
      None \<Rightarrow> \<exists>r. log_text level source msg (replicate 128 0) = Some r \<and> c_string r = Some (take 127 msg)
    | Some name \<Rightarrow>
        if length name \<le> 120
        then \<exists>r. log_text level source msg (replicate 128 0) = Some r \<and>
          c_string r = Some (take 127 (log_prefix name level @ msg))
        else length name \<le> 124 \<or> log_text level source msg (replicate 128 0) = None"
  by (rule log_text_result [OF assms])

theorem log_prefix_room_witness:
  "\<exists>r. log_text 3 [47, 97] [111, 107] (replicate 128 0) = Some r \<and> c_string r = Some [97, 91, 51, 93, 32, 111, 107]"
proof -
  have "dec_digits 3 = [51]" by (simp add: dec_digits.simps)
  moreover have "log_get_file_name_pointer [47, 97] (length [47, 97 :: u8]) = Some [97]"
    by (simp add: log_get_file_name_pointer_def is_slash_def)
  ultimately show ?thesis
    using log_prefix_room [of 3 "[47, 97]" "[111, 107]"] by (simp add: log_prefix_def)
qed

text \<open>With buffers of the sizes the sender asks for, the text of a hex dump is the prefix, a
  colon, two hex digits for every byte and a line feed, for bytes of any values.\<close>

lemma hex_dump:
  assumes "0 \<notin> set prefix"
  shows "\<exists>r. hex_text prefix bytes (replicate (length bytes * 3 + 8) 0) (replicate (length prefix + 2 * length bytes + 16) 0) =
      Some (prefix @ [58] @ concat (map hex_pair bytes) @ [10, 0] @ r) \<and>
    c_string (prefix @ [58] @ concat (map hex_pair bytes) @ [10, 0] @ r) = Some (prefix @ [58] @ concat (map hex_pair bytes) @ [10])"
proof -
  let ?h = "concat (map hex_pair bytes)"
  have h0: "0 \<notin> set ?h" using hex_pair_facts by auto
  have hl: "length ?h = 2 * length bytes" by (induction bytes) (simp_all add: hex_pair_facts)
  have "\<exists>r'. hex_loop bytes ([] @ 0 # replicate (length bytes * 3 + 7) 0) = Some ([] @ ?h @ 0 # r')"
    by (rule hex_loop_text) simp_all
  then obtain r' where l: "hex_loop bytes (replicate (length bytes * 3 + 8) 0) = Some (?h @ 0 # r')"
    by (auto simp flip: replicate_Suc simp: add.commute)
  let ?t = "prefix @ [58] @ ?h @ [10]"
  obtain r where p: "put_string 0 (length prefix + length ?h + 3) ?t (replicate (length prefix + 2 * length bytes + 16) 0) =
      Some (?t @ 0 # r)"
    using put_string_app [of ?t "length prefix + length ?h + 3" "[]" "replicate (length prefix + 2 * length bytes + 16) 0"] hl by auto
  have "0 \<notin> set ?t" using assms h0 by auto
  then have "c_string (?t @ 0 # r) = Some ?t" by (rule c_string_app)
  then show ?thesis using l p c_string_app [OF h0] by (intro exI [of _ r]) (simp add: hex_text_def hex_line_def)
qed


lemma hex_dump_example:
  "\<exists>r. hex_text [114, 120] [0, 171, 255] (replicate 17 0) (replicate 24 0) =
      Some ([114, 120, 58, 48, 48, 97, 98, 102, 102, 10, 0] @ r)"
proof -
  have "concat (map hex_pair [0, 171, 255]) = [48, 48, 97, 98, 102, 102]"
    by code_simp
  then show ?thesis using hex_dump [of "[114, 120]" "[0, 171, 255]"] by auto
qed

end
