(* ===== verification/Log_Service.thy ===== *)
theory Log_Service
  imports Remote_Arguments Log_Text
begin

text \<open>
  The log service: the segment of \<^verbatim>\<open>service/log/log_service.c\<close>, whose functions write to the log manager, and
  the functions of \<^verbatim>\<open>ipc/mblue_global_ipc_method.c\<close> with which every other part of the program logs: they put
  a text together, serialise it as the arguments of a call and send the call. The state of the
  applications is what the service keeps in its static variables. The formatted message of
  \<^verbatim>\<open>vsnprintf\<close> and the time of the clock are arguments.
\<close>

section \<open>The service\<close>

text \<open>The static variables: the segment \<^verbatim>\<open>ls\<close>, whether \<^verbatim>\<open>log\<close> and \<^verbatim>\<open>lm\<close> point to the manager yet, and
  the manager itself.\<close>

record log_globals =
  lg_ls :: addr
  lg_log :: bool
  lg_lm :: bool
  lg_manage :: log_manager

type_synonym 'a log_world = "'a log_globals_scheme bus_world"

definition LOG_STREAM :: u32 where "LOG_STREAM = 2"

definition log_service_launch :: "addr \<Rightarrow> 'a log_world \<Rightarrow> 'a log_world" where
  "log_service_launch ms w =
     (let g = bw_user w;
          lm = logger_get_instance (if lg_lm g then Some (lg_manage g) else None) (lg_manage g);
          lm = log_set_type LOG_STREAM lm
      in w\<lparr>bw_user := g\<lparr>lg_ls := ms, lg_log := True, lg_lm := True, lg_manage := lm\<rparr>\<rparr>)"

text \<open>The live block with the byte of an address, and the string at an address.\<close>

definition block_at :: "mblue_heap \<Rightarrow> nat \<Rightarrow> nat option" where
  "block_at hp a =
     find (\<lambda>p. case hblocks hp p of None \<Rightarrow> False | Some bs \<Rightarrow> a < p + length bs) (rev [0..<Suc a])"

definition heap_string :: "mblue_heap \<Rightarrow> u32 \<Rightarrow> u8 list option" where
  "heap_string hp ptr = do {
     p \<leftarrow> block_at hp (unat ptr);
     bs \<leftarrow> hblocks hp p;
     c_string (drop (unat ptr - p) bs)
   }"

text \<open>The manager reads the string only when it prints it. The length of the buffer is not used.\<close>

definition service_write_log ::
    "mblue_clock_entity \<Rightarrow> u32 \<Rightarrow> u32 \<Rightarrow> u32 \<Rightarrow> 'a log_world \<Rightarrow> (SMART_DATA \<times> 'a log_world) option" where
  "service_write_log now level buffer len w = do {
     let g = bw_user w;
     (if \<not> lg_log g then None else do {
        str \<leftarrow> (if level \<le> lm_level (lg_manage g) \<and> lm_stream (lg_manage g)
               then heap_string (bw_heap w) buffer else Some []);
        (_, lm) \<leftarrow> log_write now level str (lg_manage g);
        Some (MAKE_INTEGER (errcode_word MBLUE_OK), w\<lparr>bw_user := g\<lparr>lg_manage := lm\<rparr>\<rparr>)
     })
   }"

definition service_set_log_type :: "u32 \<Rightarrow> 'a log_world \<Rightarrow> (SMART_DATA \<times> 'a log_world) option" where
  "service_set_log_type type w = do {
     let g = bw_user w;
     (if \<not> lg_log g then None
      else Some (MAKE_INTEGER (errcode_word MBLUE_OK), w\<lparr>bw_user := g\<lparr>lg_manage := log_set_type type (lg_manage g)\<rparr>\<rparr>))
   }"

definition service_set_log_level :: "u32 \<Rightarrow> 'a log_world \<Rightarrow> (SMART_DATA \<times> 'a log_world) option" where
  "service_set_log_level level w = do {
     let g = bw_user w;
     (if \<not> lg_log g then None
      else Some (MAKE_INTEGER (errcode_word MBLUE_OK), w\<lparr>bw_user := g\<lparr>lg_manage := log_set_level level (lg_manage g)\<rparr>\<rparr>))
   }"

definition service_hex_print ::
    "mblue_clock_entity \<Rightarrow> u32 \<Rightarrow> u32 \<Rightarrow> u32 \<Rightarrow> 'a log_world \<Rightarrow> (SMART_DATA \<times> 'a log_world) option" where
  "service_hex_print now tag buffer len w = do {
     (_, w) \<leftarrow> service_write_log now (log_level_value LOG_INFO) buffer len w;
     Some (MAKE_INTEGER (errcode_word MBLUE_OK), w)
   }"

text \<open>The functions of the item array by their number, called with the decoded arguments.\<close>

definition log_ipc_items :: "handler_item list" where
  "log_ipc_items =
     [\<lparr>item_id = of_nat (log_service_message_value MBLUE_LOG_SERVICE_LOG), item_handler = 1\<rparr>,
      \<lparr>item_id = of_nat (log_service_message_value MBLUE_LOG_SERVICE_SET_TYPE), item_handler = 2\<rparr>,
      \<lparr>item_id = of_nat (log_service_message_value MBLUE_LOG_SERVICE_SET_LEVEL), item_handler = 3\<rparr>,
      \<lparr>item_id = of_nat (log_service_message_value MBLUE_LOG_SERVICE_HEX), item_handler = 4\<rparr>,
      \<lparr>item_id = END_ITEM_ID, item_handler = 0\<rparr>]"

definition log_service_function :: "mblue_clock_entity \<Rightarrow> nat \<Rightarrow> 'a log_world service" where
  "log_service_function now f args w =
     (case args of
        [a] \<Rightarrow> if f = 2 then service_set_log_type a w else if f = 3 then service_set_log_level a w else None
      | [a, b, c] \<Rightarrow> if f = 1 then service_write_log now a b c w else if f = 4 then service_hex_print now a b c w else None
      | _ \<Rightarrow> None)"

definition log_service_init :: "addr \<Rightarrow> 'u bus_world \<Rightarrow> int \<times> 'u bus_world" where
  "log_service_init ms w =
     (let w = init_segment ms w;
          w = upd_seg ms (s_major_update (\<lambda>_. of_nat (major_value MBLUE_LOG_SERVICE))) w;
          w = upd_seg ms (\<lambda>s. s\<lparr>items_array := (items_array s)(type_value SYNC_CALL \<mapsto> log_ipc_items)\<rparr>) w;
          w = upd_seg ms (\<lambda>s. s\<lparr>items_array := (items_array s)(type_value ASYNC_CALL \<mapsto> log_ipc_items)\<rparr>) w;
          w = upd_seg ms (on_launch_update (\<lambda>_. App_launch 1)) w
      in (0, w))"

text \<open>What the service and its clients provide to the framework, beside the other applications \<open>R\<close>: the functions that are
  called, and the launch of the service. The only notifier is \<^verbatim>\<open>log_notify\<close>, which does nothing.\<close>

definition log_app :: "'a log_globals_scheme app \<Rightarrow> mblue_clock_entity \<Rightarrow> stack \<Rightarrow> 'a log_globals_scheme app" where
  "log_app R now stk = R\<lparr>app_service := log_service_function now, app_stack := stk,
     app_notify := (\<lambda>f p d w. Some w),
     app_launch := (\<lambda>f ms w. if f = 1 then Some (log_service_launch ms w) else app_launch R f ms w)\<rparr>"

section \<open>The clients\<close>

text \<open>Where the locals of a client are: the struct of the arguments, the bundler and the header of the
  serialisation, and what the stack held before.\<close>

record locals =
  lo_dl :: int
  lo_bundler :: int
  lo_header :: int
  lo_memory :: cmem

definition c_name :: "string \<Rightarrow> u8 list" where
  "c_name s = map of_char s"

definition log_major :: u16 where
  "log_major = of_nat (major_value MBLUE_LOG_SERVICE)"

definition log_minor :: "LOG_SERVICE_MESSAGE \<Rightarrow> u16" where
  "log_minor k = of_nat (log_service_message_value k)"

definition log_service_set_type :: "nat \<Rightarrow> nat \<Rightarrow> addr \<Rightarrow> locals \<Rightarrow> u32 \<Rightarrow> 'a log_world \<Rightarrow> (sender \<times> 'a log_world) option" where
  "log_service_set_type fuel self return_data lo type w = do {
     let m = store32 (lo_memory lo) (lo_dl lo) type;
     (payload, hp) \<leftarrow> mblue_serialize_ipc (schema_env 0) (lo_header lo) m (c_name ''log_service_set_type'')
       (pb_type_index PB_1) (lo_dl lo) (bw_heap w);
     let w = w\<lparr>bw_heap := hp\<rparr>;
     (if payload = 0 then Some (Sent MBLUE_ERR_UNKNOWN, w)
      else mblue_remote_call fuel self return_data log_major (log_minor MBLUE_LOG_SERVICE_SET_TYPE) (of_nat payload) w)
   }"

definition log_service_set_level :: "nat \<Rightarrow> nat \<Rightarrow> addr \<Rightarrow> locals \<Rightarrow> u32 \<Rightarrow> 'a log_world \<Rightarrow> (sender \<times> 'a log_world) option" where
  "log_service_set_level fuel self return_data lo level w = do {
     let m = store32 (lo_memory lo) (lo_dl lo) level;
     (payload, hp) \<leftarrow> mblue_serialize_ipc (schema_env 0) (lo_header lo) m (c_name ''log_service_set_level'')
       (pb_type_index PB_1) (lo_dl lo) (bw_heap w);
     let w = w\<lparr>bw_heap := hp\<rparr>;
     (if payload = 0 then Some (Sent MBLUE_ERR_UNKNOWN, w)
      else mblue_remote_call fuel self return_data log_major (log_minor MBLUE_LOG_SERVICE_SET_LEVEL) (of_nat payload) w)
   }"

text \<open>What they return when the call has been answered.\<close>

definition log_call_result :: "addr \<Rightarrow> 'a log_world \<Rightarrow> int" where
  "log_call_result return_data w = word_errcode (GET_INTEGER (mblue_remote_call_result return_data w))"

text \<open>The memory with the struct \<^verbatim>\<open>dl_12\<close> and the bundler of a text that is in a block at \<open>tmp\<close>.\<close>

definition text_memory :: "locals \<Rightarrow> u32 \<Rightarrow> addr \<Rightarrow> u8 list \<Rightarrow> nat \<Rightarrow> cmem" where
  "text_memory lo level tmp buf len =
     (let m = store_bytes (lo_memory lo) (int tmp) buf;
          m = set_bundle (lo_bundler lo) (int tmp) (of_nat len) m;
          m = store32 m (lo_dl lo) level;
          m = store32 m (lo_dl lo + 4) FN_WRITE_BYTES
      in store32 m (lo_dl lo + 8) (of_int (lo_bundler lo)))"

text \<open>The second half of \<^verbatim>\<open>log_service_write\<close> and of \<^verbatim>\<open>log_service_hex\<close>: the text is serialised, the block it is in is
  released, and the call is sent. Both name the method \<^verbatim>\<open>log_service_write\<close>.\<close>

definition send_text ::
    "nat \<Rightarrow> nat \<Rightarrow> locals \<Rightarrow> LOG_SERVICE_MESSAGE \<Rightarrow> u32 \<Rightarrow> addr \<Rightarrow> u8 list \<Rightarrow> 'a log_world \<Rightarrow> (sender \<times> 'a log_world) option" where
  "send_text fuel self lo k level tmp buf w = do {
     str \<leftarrow> c_string buf;
     (payload, hp) \<leftarrow> mblue_serialize_ipc (schema_env 0) (lo_header lo) (text_memory lo level tmp buf (length str))
       (c_name ''log_service_write'') (pb_type_index PB_12) (lo_dl lo) (bw_heap w);
     w \<leftarrow> world_free tmp (w\<lparr>bw_heap := hp\<rparr>);
     (if payload = 0 then Some (Sent MBLUE_ERR_PB_ENCODE, w)
      else mblue_remote_call_async fuel self log_major (log_minor k) (of_nat payload) 0 0 w)
   }"

definition set_block :: "addr \<Rightarrow> u8 list \<Rightarrow> 'a log_world \<Rightarrow> 'a log_world" where
  "set_block p buf w = w\<lparr>bw_heap := (bw_heap w)\<lparr>hblocks := (hblocks (bw_heap w))(p \<mapsto> buf)\<rparr>\<rparr>"

definition log_service_write ::
    "nat \<Rightarrow> nat \<Rightarrow> locals \<Rightarrow> u32 \<Rightarrow> u8 list \<Rightarrow> u8 list \<Rightarrow> 'a log_world \<Rightarrow> (sender \<times> 'a log_world) option" where
  "log_service_write fuel self lo level source msg w =
     (if level \<ge> log_level_value LOG_LEVEL_MAX then Some (Sent MBLUE_ERR_LOG_LEVEL, w)
      else do {
        (tmp, w) \<leftarrow> world_malloc (of_nat MAX_LOG_CACHE_LEN) w;
        (if tmp = 0 then Some (Sent MBLUE_ERR_NOMEM, w)
         else do {
           buf \<leftarrow> hblocks (bw_heap w) tmp;
           buf \<leftarrow> log_text level source msg buf;
           send_text fuel self lo MBLUE_LOG_SERVICE_LOG level tmp buf (set_block tmp buf w)
         })
      })"

text \<open>The results of \<^verbatim>\<open>mblue_malloc\<close> are only asserted: a null pointer is written through.\<close>

definition log_service_hex ::
    "nat \<Rightarrow> nat \<Rightarrow> locals \<Rightarrow> u8 list \<Rightarrow> u8 list \<Rightarrow> 'a log_world \<Rightarrow> (sender \<times> 'a log_world) option" where
  "log_service_hex fuel self lo prefix buffer w = do {
     (data_array, w) \<leftarrow> world_malloc (of_nat (length buffer) * 3 + 8) w;
     p \<leftarrow> hblocks (bw_heap w) data_array;
     p \<leftarrow> hex_loop buffer p;
     let w = set_block data_array p w;
     s \<leftarrow> c_string p;
     (temp, w) \<leftarrow> world_malloc (of_nat (length prefix) + of_nat (length s) + 16) w;
     t \<leftarrow> hblocks (bw_heap w) temp;
     t \<leftarrow> hex_line prefix s t;
     w \<leftarrow> world_free data_array (set_block temp t w);
     send_text fuel self lo MBLUE_LOG_SERVICE_HEX 0 temp t w
   }"

section \<open>Strings on the heap\<close>

lemma block_at_unique:
  assumes "heap_wf hp" and "hblocks hp p = Some bs" and "p \<le> a" "a < p + length bs"
  shows "block_at hp a = Some p"
proof -
  let ?P = "\<lambda>p. case hblocks hp p of None \<Rightarrow> False | Some bs \<Rightarrow> a < p + length bs"
  have u: "q = p" if q: "q \<le> a" "?P q" for q
  proof -
    obtain cs where cs: "hblocks hp q = Some cs" "a < q + length cs" using q(2) by (auto split: option.splits)
    have "p < q \<Longrightarrow> p + length bs \<le> q" "q < p \<Longrightarrow> q + length cs \<le> p"
      using assms(1,2) cs(1) unfolding heap_wf_def by blast+
    then show ?thesis using assms(3,4) q(1) cs(2) by linarith
  qed
  have "?P p" "p \<in> set (rev [0..<Suc a])" using assms by auto
  then have "find ?P (rev [0..<Suc a]) \<noteq> None" unfolding find_None_iff by blast
  then obtain q where q: "find ?P (rev [0..<Suc a]) = Some q" by blast
  then have "q \<le> a" "?P q" unfolding find_Some_iff by (auto simp: rev_nth simp del: upt_Suc)
  then show ?thesis using q u by (simp add: block_at_def)
qed

lemma heap_string_bytes:
  assumes "heap_bytes_at w ptr bs" and "0 \<notin> set bs"
  shows "heap_string (bw_heap w) ptr = Some bs"
proof -
  obtain p bytes off where b: "heap_wf (bw_heap w)" "hblocks (bw_heap w) p = Some bytes"
      "take (Suc (length bs)) (drop off bytes) = bs @ [0]" "ptr = of_nat (p + off)" "p + off + length bs < 2 ^ 32"
    using assms(1) by (auto simp: heap_bytes_at_def)
  have u: "unat ptr = p + off" unfolding b(4) using b(5) by (intro unat_small32) simp
  have "drop off bytes \<noteq> []" using b(3) by auto
  then have "block_at (bw_heap w) (unat ptr) = Some p"
    using u by (intro block_at_unique [OF b(1,2)]) simp_all
  moreover have "drop off bytes = bs @ 0 # drop (Suc (length bs)) (drop off bytes)"
    using append_take_drop_id [of "Suc (length bs)" "drop off bytes"] unfolding b(3) by simp
  then have "c_string (drop off bytes) = Some bs" using c_string_app [OF assms(2)] by metis
  ultimately show ?thesis using b(2) u by (simp add: heap_string_def)
qed

section \<open>The functions of the service\<close>

lemma set_level_answers:
  "lg_log g \<Longrightarrow> function_answers (log_app R now stk) 3 PB_1 [FInt level] (MAKE_INTEGER (errcode_word MBLUE_OK)) g
     (g\<lparr>lg_manage := log_set_level level (lg_manage g)\<rparr>)"
  by (auto simp: function_answers_def call_args_def arg_words_def log_app_def log_service_function_def
      service_set_log_level_def Let_def)

lemma set_type_answers:
  "lg_log g \<Longrightarrow> function_answers (log_app R now stk) 2 PB_1 [FInt type] (MAKE_INTEGER (errcode_word MBLUE_OK)) g
     (g\<lparr>lg_manage := log_set_type type (lg_manage g)\<rparr>)"
  by (auto simp: function_answers_def call_args_def arg_words_def log_app_def log_service_function_def
      service_set_log_type_def Let_def)

text \<open>The manager after a line has been printed.\<close>

definition printed :: "mblue_clock_entity \<Rightarrow> u8 list \<Rightarrow> 'a log_globals_scheme \<Rightarrow> 'a log_globals_scheme \<Rightarrow> bool" where
  "printed now str g g' \<longleftrightarrow> (\<exists>cache. length cache = MAX_LOG_CACHE_LEN \<and>
     g' = g\<lparr>lg_manage := (lg_manage g)\<lparr>lm_cache := cache,
       lm_out := lm_out (lg_manage g) @ [take 127 (date_text now @ [32] @ str @ [10])]\<rparr>\<rparr>)"

lemma write_log_answers:
  assumes "lg_log g" "lm_stream (lg_manage g)" "level \<le> lm_level (lg_manage g)" and "printable_date now" "0 \<notin> set str"
  obtains g' where "printed now str g g'"
    "function_answers (log_app R now stk) 1 PB_12 [FInt level, FBytes str] (MAKE_INTEGER (errcode_word MBLUE_OK)) g g'"
proof -
  obtain cache where c: "length cache = MAX_LOG_CACHE_LEN" "write_to_terminal now str (lg_manage g) =
      Some ((lg_manage g)\<lparr>lm_cache := cache, lm_out := lm_out (lg_manage g) @ [take 127 (date_text now @ [32] @ str @ [10])]\<rparr>)"
    using write_line [OF assms(4,5,2)] by blast
  let ?g = "g\<lparr>lg_manage := (lg_manage g)\<lparr>lm_cache := cache,
    lm_out := lm_out (lg_manage g) @ [take 127 (date_text now @ [32] @ str @ [10])]\<rparr>\<rparr>"
  have "app_service (log_app R now stk) 1 (call_args PB_12 ptr [FInt level, FBytes str]) v =
      Some (MAKE_INTEGER (errcode_word MBLUE_OK), v\<lparr>bw_user := ?g\<rparr>)"
    if v: "bw_user v = g" "heap_bytes_at v ptr (last_bytes [FInt level, FBytes str])" for ptr v
  proof -
    have "heap_string (bw_heap v) ptr = Some str"
      using heap_string_bytes [OF _ assms(5)] v(2) by (simp add: last_bytes_def)
    then show ?thesis using c(2) assms(1-3) v(1)
      by (simp add: call_args_def arg_words_def log_app_def log_service_function_def service_write_log_def log_write_def Let_def
        del: take_append)
  qed
  then show thesis using c(1) by (intro that [of ?g]) (auto simp: printed_def function_answers_def)
qed

section \<open>The arguments of the clients\<close>

text \<open>The locals are above the heap, apart from each other and below the end of the memory.\<close>

definition locals_apart :: "locals \<Rightarrow> int \<Rightarrow> bool" where
  "locals_apart lo bound \<longleftrightarrow> 0 < bound \<and> bound \<le> lo_header lo \<and> lo_header lo + 36 \<le> lo_dl lo \<and>
     lo_dl lo + 12 \<le> lo_bundler lo \<and> lo_bundler lo + 8 \<le> 2 ^ 32"

lemma header_memory_other:
  assumes "0 \<notin> set meth" "length meth \<le> 31" and "x < hdr \<or> hdr + 36 \<le> x"
  shows "header_memory hdr meth index m x = m x"
  using assms by (auto simp: header_memory_def store32_other store_bytes_other strncpy_short MAX_IPC_METHOD_NAME_LENGTH_def)

lemma level_memory_holds:
  assumes "locals_apart lo bound" and "0 \<notin> set meth" "length meth \<le> 31"
  shows "layout_holds (header_memory (lo_header lo) meth (pb_type_index PB_1) (store32 (lo_memory lo) (lo_dl lo) v))
    (Some dl_1_fields) (lo_dl lo) [FInt v]"
proof -
  let ?m = "store32 (lo_memory lo) (lo_dl lo) v"
  have "load32 (header_memory (lo_header lo) meth (pb_type_index PB_1) ?m) (lo_dl lo) = load32 ?m (lo_dl lo)"
    using assms by (intro load32_cong header_memory_other) (auto simp: locals_apart_def)
  moreover have "length dl_1_fields = Suc 0" by (simp add: field_tables)
  ultimately show ?thesis using assms(1) by (simp add: layout_holds_def addr_1 locals_apart_def)
qed

lemma text_memory_holds:
  assumes lo: "locals_apart lo bound" and tmp: "0 < tmp" "int tmp + int (length buf) \<le> bound"
    and n: "0 \<notin> set meth" "length meth \<le> 31" and str: "take (length str) buf = str"
  shows "layout_holds (header_memory (lo_header lo) meth (pb_type_index PB_12) (text_memory lo level tmp buf (length str)))
    (Some dl_12_fields) (lo_dl lo) [FInt level, FBytes str]"
proof -
  let ?m = "text_memory lo level tmp buf (length str)"
  let ?h = "header_memory (lo_header lo) meth (pb_type_index PB_12) ?m"
  let ?b = "lo_bundler lo" and ?d = "lo_dl lo"
  have hm: "?h x = ?m x" if "x < bound \<or> ?d \<le> x" for x
    using that lo by (intro header_memory_other [OF n]) (auto simp: locals_apart_def)
  have w: "load32 ?h x = load32 ?m x" if "?d \<le> x" for x
    by (rule load32_cong, rule hm) (use that in simp)
  have "load32 ?m ?d = level" "load32 ?m (?d + 4) = FN_WRITE_BYTES" "load32 ?m (?d + 8) = of_int ?b"
    "load32 ?m ?b = of_nat (length str)" "load32 ?m (?b + 4) = of_int (int tmp)"
    using lo by (simp_all add: locals_apart_def text_memory_def set_bundle_def load32_store32_other Let_def)
  moreover have "?d \<le> ?b" using lo by (simp add: locals_apart_def)
  ultimately have "load32 ?h ?d = level" "load32 ?h (?d + 4) = FN_WRITE_BYTES" "load32 ?h (?d + 8) = of_int ?b"
    "load32 ?h ?b = of_nat (length str)" "load32 ?h (?b + 4) = of_int (int tmp)"
    using w [of ?d] w [of "?d + 4"] w [of "?d + 8"] w [of ?b] w [of "?b + 4"] by simp_all
  moreover have "load_bytes ?h (int tmp) (length str) = str"
  proof -
    have l: "length str \<le> length buf" using arg_cong [OF str, of length] by simp
    have "?h x = store_bytes (lo_memory lo) (int tmp) str x" if "int tmp \<le> x" "x < int tmp + int (length str)" for x
    proof -
      have "x < bound" using that l tmp(2) by simp
      then have "?h x = store_bytes (lo_memory lo) (int tmp) buf x"
        using hm [of x] lo by (simp add: locals_apart_def text_memory_def set_bundle_def store32_other Let_def)
      moreover have "nat (x - int tmp) < length str" using that by simp
      then have "buf ! nat (x - int tmp) = str ! nat (x - int tmp)" using str by (metis nth_take)
      ultimately show ?thesis using that l by (simp add: store_bytes_def)
    qed
    then have "load_bytes ?h (int tmp) (length str) = load_bytes (store_bytes (lo_memory lo) (int tmp) str) (int tmp) (length str)"
      by (intro load_bytes_cong)
    then show ?thesis by (simp add: load_store_bytes)
  qed
  moreover have "uint (of_int ?b :: u32) = ?b"
    using lo by (simp add: locals_apart_def uint_word_of_int)
  moreover have "unat (of_nat tmp :: u32) = tmp" using lo tmp by (intro unat_small32) (simp add: locals_apart_def)
  then have "uint (of_int (int tmp) :: u32) = int tmp" by (simp add: uint_nat)
  ultimately have "bundles ?h ?b str" "load_ptr ?h (?d + 4 + 4) = ?b" "load32 ?h ?d = level"
      "callback_funcs ?h (?d + 4) = FN_WRITE_BYTES"
    by (simp_all add: bundles_def bundle_len_def bundle_ptr_def load_ptr_def callback_funcs_def add.assoc)
  moreover have "length dl_12_fields = Suc (Suc 0)" by (simp add: field_tables)
  moreover have "?d \<noteq> 0" using lo by (simp add: locals_apart_def)
  ultimately show ?thesis by (auto simp: layout_holds_def less_Suc_eq addr_12)
qed

lemma encoding_12_length: "length (encoding dl_12_fields [FInt level, FBytes str]) \<le> 40 + length str"
proof -
  have "length (varint_bytes v) \<le> 10" for v by (rule length_varint_bytes)
  from this [of "tag_value (field_wt (dl_12_fields ! 0)) (ucast (fd_tag (dl_12_fields ! 0)))"] this [of "scast level"]
    this [of "tag_value (field_wt (dl_12_fields ! 1)) (ucast (fd_tag (dl_12_fields ! 1)))"] this [of "of_nat (length str)"]
  show ?thesis
    by (simp add: encoding_def message_bytes_def message_items_def item_tag_def tag_bytes_def key_bytes_def
      str_bytes_def int_bytes_def field_tables layout_defs type_parts)
qed

lemma encoding_1_length: "length (encoding dl_1_fields [FInt v]) \<le> 20"
proof -
  have "length (varint_bytes v) \<le> 10" for v by (rule length_varint_bytes)
  from this [of "tag_value (field_wt (dl_1_fields ! 0)) (ucast (fd_tag (dl_1_fields ! 0)))"] this [of "scast v"]
  show ?thesis
    by (simp add: encoding_def message_bytes_def message_items_def item_tag_def tag_bytes_def key_bytes_def
      str_bytes_def int_bytes_def field_tables layout_defs type_parts)
qed

section \<open>Calls of the service\<close>

lemma log_items_lookup:
  assumes "items_array (bw_segs w ss) (type_value SYNC_CALL) = Some log_ipc_items"
  shows "items_lookup ss (type_value SYNC_CALL) (ucast (log_minor MBLUE_LOG_SERVICE_LOG)) w = Some (Some 1)"
    "items_lookup ss (type_value SYNC_CALL) (ucast (log_minor MBLUE_LOG_SERVICE_SET_TYPE)) w = Some (Some 2)"
    "items_lookup ss (type_value SYNC_CALL) (ucast (log_minor MBLUE_LOG_SERVICE_SET_LEVEL)) w = Some (Some 3)"
    "items_lookup ss (type_value SYNC_CALL) (ucast (log_minor MBLUE_LOG_SERVICE_HEX)) w = Some (Some 4)"
  using assms by (simp_all add: items_lookup_def log_ipc_items_def log_minor_def END_ITEM_ID_def)

lemma c_names:
  "0 \<notin> set (c_name ''log_service_set_level'')" "length (c_name ''log_service_set_level'') \<le> 30"
  "0 \<notin> set (c_name ''log_service_set_type'')" "length (c_name ''log_service_set_type'') \<le> 30"
  "0 \<notin> set (c_name ''log_service_write'')" "length (c_name ''log_service_write'') \<le> 30"
  by (simp_all add: c_name_def)

lemma log_major_value: "unat log_major = major_value MBLUE_LOG_SERVICE"
  by (simp add: log_major_def)

lemma log_level_set:
  fixes w :: "'a log_world"
  assumes st: "call_state tc tb sb ts ss (major_value MBLUE_LOG_SERVICE) [] [] 0 (m # r # free) [] w"
    and o: "out \<noteq> 0" and self: "get_current_context self w = tc"
    and gr: "\<not> hfail (bw_heap w) (hcalls (bw_heap w))" "\<not> hfail (bw_heap w) (Suc (hcalls (bw_heap w)))"
      "16 * hnext (bw_heap w) < 2 ^ 31"
    and it: "items_array (bw_segs w ss) (type_value SYNC_CALL) = Some log_ipc_items"
    and lg: "lg_log (bw_user w)" and lo: "locals_apart lo bound" and fr: "frame_ok (st_frame stk)"
  shows "\<exists>w1 w2 w3 w4 w5. log_service_set_level (Suc fuel) self out lo level w = Some (Posted m, w1) \<and>
      template_proc_turn (Suc fuel) (log_app R now stk) i tb w1 = Some (Returns w2) \<and>
      template_proc_turn (Suc fuel) (log_app R now stk) i ts w2 = Some (Returns w3) \<and>
      template_proc_turn (Suc fuel) (log_app R now stk) i tb w3 = Some (Returns w4) \<and>
      ipc_invoke_wait i tc w4 = Some (Returns (MBLUE_OK, w5)) \<and>
      log_call_result out w5 = errcode_value MBLUE_OK \<and>
      call_state tc tb sb ts ss (major_value MBLUE_LOG_SERVICE) [] [] 0 (free @ [m, r]) [] w5 \<and>
      hblocks (bw_heap w5) = hblocks (bw_heap w) \<and>
      bw_user w5 = (bw_user w)\<lparr>lg_manage := log_set_level level (lg_manage (bw_user w))\<rparr>"
proof -
  let ?meth = "c_name ''log_service_set_level''"
  have c: "layout_carries (Some dl_1_fields) [FInt level]" by (simp add: layout_carries_def carried_shapes)
  have h: "layout_holds (header_memory (lo_header lo) ?meth (pb_type_index PB_1) (store32 (lo_memory lo) (lo_dl lo) level))
      (Some dl_1_fields) (lo_dl lo) [FInt level]"
    using c_names by (intro level_memory_holds [OF lo]) simp_all
  have l: "length (encoding dl_1_fields [FInt level]) < 2 ^ 31" using encoding_1_length [of level] by simp
  have b: "16 * Suc (hnext (bw_heap w)) +
      length (call_bytes ?meth (pb_type_index PB_1) (Some dl_1_fields) [FInt level]) < 2 ^ 32"
    using call_bytes_length [OF c_names(2) l, of "pb_type_index PB_1"] encoding_1_length [of level] gr(3) by simp
  have ap: "app_stack (log_app R now stk) = stk" by (simp add: log_app_def)
  have z: "lo_header lo \<noteq> 0" "lo_header lo + 32 \<noteq> 0" using lo by (auto simp: locals_apart_def)
  have "\<exists>p hp w1 w2 w3 w4 w5.
      mblue_serialize_ipc (schema_env 0) (lo_header lo) (store32 (lo_memory lo) (lo_dl lo) level) ?meth (pb_type_index PB_1)
        (lo_dl lo) (bw_heap w) = Some (p, hp) \<and> p \<noteq> 0 \<and>
      mblue_remote_call (Suc fuel) self out log_major (log_minor MBLUE_LOG_SERVICE_SET_LEVEL) (of_nat p) (w\<lparr>bw_heap := hp\<rparr>) =
        Some (Posted m, w1) \<and>
      template_proc_turn (Suc fuel) (log_app R now stk) i tb w1 = Some (Returns w2) \<and>
      template_proc_turn (Suc fuel) (log_app R now stk) i ts w2 = Some (Returns w3) \<and>
      template_proc_turn (Suc fuel) (log_app R now stk) i tb w3 = Some (Returns w4) \<and>
      ipc_invoke_wait i tc w4 = Some (Returns (MBLUE_OK, w5)) \<and>
      mblue_remote_call_result out w5 = MAKE_INTEGER (errcode_word MBLUE_OK) \<and>
      call_state tc tb sb ts ss (major_value MBLUE_LOG_SERVICE) [] [] 0 (free @ [m, r]) [] w5 \<and>
      hblocks (bw_heap w5) = hblocks (bw_heap w) \<and>
      bw_user w5 = (bw_user w)\<lparr>lg_manage := log_set_level level (lg_manage (bw_user w))\<rparr>"
    by (rule remote_call_with_arguments [OF st log_major_value o self gr(1,2) b layout_entry.simps(2) c h c_names(1,2) z _ _
        log_items_lookup(3) [OF it] _ set_level_answers [OF lg]]) (use l fr ap in simp_all)
  then obtain p hp w1 w2 w3 w4 w5 where r:
    "mblue_serialize_ipc (schema_env 0) (lo_header lo) (store32 (lo_memory lo) (lo_dl lo) level) ?meth (pb_type_index PB_1)
       (lo_dl lo) (bw_heap w) = Some (p, hp)" "p \<noteq> 0"
    "mblue_remote_call (Suc fuel) self out log_major (log_minor MBLUE_LOG_SERVICE_SET_LEVEL) (of_nat p) (w\<lparr>bw_heap := hp\<rparr>) =
       Some (Posted m, w1)"
    "template_proc_turn (Suc fuel) (log_app R now stk) i tb w1 = Some (Returns w2)"
    "template_proc_turn (Suc fuel) (log_app R now stk) i ts w2 = Some (Returns w3)"
    "template_proc_turn (Suc fuel) (log_app R now stk) i tb w3 = Some (Returns w4)"
    "ipc_invoke_wait i tc w4 = Some (Returns (MBLUE_OK, w5))"
    "mblue_remote_call_result out w5 = MAKE_INTEGER (errcode_word MBLUE_OK)"
    "call_state tc tb sb ts ss (major_value MBLUE_LOG_SERVICE) [] [] 0 (free @ [m, r]) [] w5"
    "hblocks (bw_heap w5) = hblocks (bw_heap w)"
    "bw_user w5 = (bw_user w)\<lparr>lg_manage := log_set_level level (lg_manage (bw_user w))\<rparr>"
    by (elim exE conjE)
  have "log_service_set_level (Suc fuel) self out lo level w = Some (Posted m, w1)"
    unfolding log_service_set_level_def Let_def r(1) using r(2,3) by simp
  moreover have "log_call_result out w5 = errcode_value MBLUE_OK"
    unfolding log_call_result_def r(8) by (simp only: errcode_lost)
  ultimately show ?thesis using r(4-7,9-11) by blast
qed

text \<open>A text that is sent, in two halves. First the client: the text is serialised, its block is given back and the
  message is on its way to the bus.\<close>

definition log_call_sent ::
    "addr \<Rightarrow> addr \<Rightarrow> LOG_SERVICE_MESSAGE \<Rightarrow> u32 \<Rightarrow> u8 list \<Rightarrow> addr \<Rightarrow> u32 \<Rightarrow> addr \<Rightarrow> 'a log_world \<Rightarrow> bool" where
  "log_call_sent tc sb k level str m payload pn w \<longleftrightarrow>
     call_sent tc sb m log_major (log_minor k) payload 0 0 pn w \<and> PB_PAYLOAD payload \<and>
     (\<exists>pad. hblocks (bw_heap w) (unat payload) = Some (call_bytes (c_name ''log_service_write'') (pb_type_index PB_12)
        (Some dl_12_fields) [FInt level, FBytes str] @ 0 # pad)) \<and>
     unat payload + length (call_bytes (c_name ''log_service_write'') (pb_type_index PB_12) (Some dl_12_fields)
        [FInt level, FBytes str]) < 2 ^ 32 \<and>
     length (encoding dl_12_fields [FInt level, FBytes str]) < 2 ^ 31 \<and> layout_carries (Some dl_12_fields) [FInt level, FBytes str]"

lemma text_posted:
  fixes w :: "'a log_world"
  assumes st: "call_state tc tb sb ts ss (major_value MBLUE_LOG_SERVICE) [] [] n (m # free) [] w"
    and self: "get_current_context self w = tc"
    and gr: "\<And>j. \<not> hfail (bw_heap w) j" "16 * hnext (bw_heap w) < 2 ^ 31"
    and blk: "hblocks (bw_heap w) tmp = Some buf" "c_string buf = Some str" "length buf < 2 ^ 30"
    and lo: "locals_apart lo (int tmp + int (length buf))"
  obtains w1 payload pn where "send_text (Suc fuel) self lo k level tmp buf w = Some (Posted m, w1)"
    "call_state tc tb sb ts ss (major_value MBLUE_LOG_SERVICE) [m] [] n free [] w1"
    "log_call_sent tc sb k level str m payload pn w1"
    "(hblocks (bw_heap w1))(unat payload := None, pn := None) = (hblocks (bw_heap w))(tmp := None)"
    "bw_user w1 = bw_user w" "aside tb ts (20 + length buf) w w1" "\<And>m'. m' \<noteq> m \<Longrightarrow> msg_at w1 m' = msg_at w m'"
proof -
  let ?meth = "c_name ''log_service_write''" and ?vs = "[FInt level, FBytes str]"
  let ?b = "call_bytes ?meth (pb_type_index PB_12) (Some dl_12_fields) ?vs"
  have str: "str = takeWhile (\<lambda>c. c \<noteq> 0) buf" using blk(2) by (simp add: c_string_def split: if_splits)
  have sl: "take (length str) buf = str" "length str \<le> length buf"
    unfolding str by (rule takeWhile_eq_take [symmetric], rule length_takeWhile_le)
  have wf: "heap_wf (bw_heap w)" using st by (simp add: call_state_def)
  then have tmp: "0 < tmp" using blk(1) unfolding heap_wf_def by (metis gr0I)
  have c: "layout_carries (Some dl_12_fields) ?vs" using sl(2) blk(3) by (simp add: layout_carries_def carried_shapes)
  have h: "layout_holds (header_memory (lo_header lo) ?meth (pb_type_index PB_12) (text_memory lo level tmp buf (length str)))
      (Some dl_12_fields) (lo_dl lo) ?vs"
    using c_names sl tmp by (intro text_memory_holds [OF lo]) simp_all
  have l: "length (encoding dl_12_fields ?vs) < 2 ^ 31" using encoding_12_length [of level str] sl(2) blk(3) by simp
  have b: "16 * Suc (hnext (bw_heap w)) + length ?b < 2 ^ 32"
    using call_bytes_length [OF c_names(6) l, of "pb_type_index PB_12"] encoding_12_length [of level str] gr(2) sl(2) blk(3)
    by simp
  have z: "lo_header lo \<noteq> 0" "lo_header lo + 32 \<noteq> 0" using lo by (auto simp: locals_apart_def)
  obtain pad where ser: "mblue_serialize_ipc (schema_env 0) (lo_header lo) (text_memory lo level tmp buf (length str)) ?meth
      (pb_type_index PB_12) (lo_dl lo) (bw_heap w) = Some (granted (bw_heap w) (?b @ 0 # pad))"
    and sz: "length (?b @ 0 # pad) \<le> 94 + length (encoding dl_12_fields ?vs)"
    using serialize_ipc_ok [OF layout_entry.simps(4) c h c_names(5,6) z _ gr(1), of 0] l by auto
  obtain p hp where g: "granted (bw_heap w) (?b @ 0 # pad) = (p, hp)" by force
  note p = granted_payload [OF g wf add_lessD1 [OF b]]
  define hp2 where "hp2 = hp\<lparr>hblocks := (hblocks hp)(tmp := None)\<rparr>"
  let ?w = "w\<lparr>bw_heap := hp2\<rparr>"
  have ne: "p \<noteq> tmp" using p(4) blk(1) by auto
  have free': "world_free tmp (w\<lparr>bw_heap := hp\<rparr>) = Some ?w"
    using p(5) blk(1) ne by (simp add: world_free_def mblue_free_def heap_free_def ifree_def hp2_def)
  have st2: "call_state tc tb sb ts ss (major_value MBLUE_LOG_SERVICE) [] [] n (m # free) [] ?w"
    unfolding hp2_def by (rule call_state_update(2) [OF st heap_wf_drop [OF p(3)]])
  have pb: "p + length ?b < 2 ^ 32" using b g by (simp add: granted_def)
  have hn: "hnext hp = hnext (bw_heap w) + Suc (length (?b @ 0 # pad) div 16)" using g by (auto simp: granted_def)
  have gr2: "\<not> hfail (bw_heap ?w) (hcalls (bw_heap ?w))" using gr(1) p(6) by (simp add: hp2_def)
  have self2: "get_current_context self ?w = tc" using self by (simp add: get_current_context_def)
  let ?pn = "16 * Suc (hnext (bw_heap ?w))"
  obtain w1 seq where 1: "mblue_remote_call_async (Suc fuel) self log_major (log_minor k) (of_nat p) 0 0 ?w = Some (Posted m, w1)"
    "ipc_invoke_check m w1 = Sent MBLUE_OK" "call_state tc tb sb ts ss (major_value MBLUE_LOG_SERVICE) [m] [] n free [] w1"
    "msg_at w1 m = sent_message tc seq ASYNC_CALL log_major (log_minor k) sb (of_nat p) ?pn"
    "hblocks (bw_heap ?w) ?pn = None" "live w1 ?pn" "(hblocks (bw_heap w1))(?pn := None) = hblocks (bw_heap ?w)"
    "hcalls (bw_heap w1) = Suc (hcalls (bw_heap ?w))" "hfail (bw_heap w1) = hfail (bw_heap ?w)"
    "hnext (bw_heap ?w) < hnext (bw_heap w1)" "bw_notifiers w1 ?pn = \<lparr>pn_notify = 0, pn_user_data = 0\<rparr>"
    "bw_segs w1 = bw_segs ?w" "bw_user w1 = bw_user ?w" "aside tb ts 2 ?w w1"
    "\<And>m'. m' \<noteq> m \<Longrightarrow> msg_at w1 m' = msg_at ?w m'"
    by (rule remote_call_async_posted [OF st2 log_major_value self2 gr2]) (rule that)
  have "send_text (Suc fuel) self lo k level tmp buf w = Some (Posted m, w1)"
    unfolding send_text_def blk(2) bind.bind_lunit ser g using free' granted_facts(1) [OF g] 1(1) by simp
  moreover have pp: "hblocks (bw_heap ?w) p = Some (?b @ 0 # pad)" using p(5) ne by (simp add: hp2_def)
  then have np: "p \<noteq> ?pn" using 1(5) by auto
  then have "hblocks (bw_heap w1) p = Some (?b @ 0 # pad)" using 1(7) pp by (metis fun_upd_other)
  then have "log_call_sent tc sb k level str m (of_nat p) ?pn w1"
    unfolding log_call_sent_def call_sent_def using 1(4,6,11) np p(1,2) pb l c by auto
  moreover have "((hblocks (bw_heap w1))(unat (of_nat p :: u32) := None))(?pn := None) = (hblocks (bw_heap w))(tmp := None)"
  proof -
    have "(hblocks (bw_heap w1))(p := None, ?pn := None) = (hblocks (bw_heap ?w))(p := None)"
      unfolding 1(7) [symmetric] using np by (rule fun_upd_twist)
    also have "\<dots> = (hblocks (bw_heap w))(tmp := None)" using p(4,5) ne by (auto simp: hp2_def)
    finally show ?thesis unfolding p(1) .
  qed
  moreover have "aside tb ts (18 + length buf) w ?w"
    using hn sz encoding_12_length [of level str] sl(2) p(6) by (intro aside_same) (simp_all add: hp2_def del: length_append)
  then have "aside tb ts (20 + length buf) w w1" by (rule aside_trans [OF _ 1(14)]) simp
  ultimately show thesis using that 1(3,13,15) by simp
qed

text \<open>Then the bus, the service and the bus: the service's function gets the text, and the payload, the notifier and the
  two messages are given back.\<close>

lemma log_call_answered:
  fixes w :: "'a log_world"
  assumes st: "call_state tc tb sb ts ss (major_value MBLUE_LOG_SERVICE) [m] [] n (r # free) [] w"
    and sent: "log_call_sent tc sb k level str m payload pn w" and o: "m \<in> msg_objs" "m \<notin> set (r # free)"
    and gr: "\<And>j. \<not> hfail (bw_heap w) j" and fr: "frame_ok (st_frame stk)"
    and it: "items_lookup ss (type_value SYNC_CALL) (ucast (log_minor k)) w = Some (Some f)" "f \<noteq> 0"
    and fn: "function_answers (log_app R now stk) f PB_12 [FInt level, FBytes str] ret (bw_user w) g"
  shows "\<exists>w2 w3 w4. template_proc_turn (Suc fuel) (log_app R now stk) i tb w = Some (Returns w2) \<and>
      template_proc_turn (Suc fuel) (log_app R now stk) i ts w2 = Some (Returns w3) \<and>
      template_proc_turn (Suc fuel) (log_app R now stk) i tb w3 = Some (Returns w4) \<and>
      call_state tc tb sb ts ss (major_value MBLUE_LOG_SERVICE) [] [] n (free @ [m, r]) [] w4 \<and>
      hblocks (bw_heap w4) = (hblocks (bw_heap w))(unat payload := None, pn := None) \<and> bw_user w4 = g \<and> aside tb ts 3 w w4"
proof -
  let ?meth = "c_name ''log_service_write''" and ?vs = "[FInt level, FBytes str]"
  obtain pad where s: "call_sent tc sb m log_major (log_minor k) payload 0 0 pn w" "PB_PAYLOAD payload"
    "hblocks (bw_heap w) (unat payload) = Some (call_bytes ?meth (pb_type_index PB_12) (Some dl_12_fields) ?vs @ 0 # pad)"
    "unat payload + length (call_bytes ?meth (pb_type_index PB_12) (Some dl_12_fields) ?vs) < 2 ^ 32"
    "length (encoding dl_12_fields ?vs) < 2 ^ 31" "layout_carries (Some dl_12_fields) ?vs"
    using sent unfolding log_call_sent_def by blast
  have ap: "frame_ok (st_frame (app_stack (log_app R now stk)))" using fr by (simp add: log_app_def)
  have l: "case Some dl_12_fields of None \<Rightarrow> True | Some fs \<Rightarrow> length (encoding fs ?vs) < 2 ^ 31" using s(5) by simp
  have srv: "service_answers (log_app R now stk) ss (log_minor k) payload ret g w"
    by (rule payload_answers [OF layout_entry.simps(4) s(6) c_names(5,6) l ap fn s(2,3,4) it])
  have nt: "notify_answers (app_notify (log_app R now stk)) 0 ret 0 g g" by (auto simp: notify_answers_def log_app_def)
  show ?thesis by (rule async_call_answered [OF st log_major_value s(1) o gr srv nt])
qed

text \<open>The text of a message: with the name of the source file and the level in front, when the name is there.\<close>

definition log_message :: "u32 \<Rightarrow> u8 list \<Rightarrow> u8 list \<Rightarrow> u8 list" where
  "log_message level source msg = take 127 (case log_get_file_name_pointer source (length source) of
     None \<Rightarrow> msg | Some name \<Rightarrow> log_prefix name level @ msg)"

definition short_name :: "u8 list \<Rightarrow> bool" where
  "short_name source \<longleftrightarrow> (case log_get_file_name_pointer source (length source) of
     None \<Rightarrow> True | Some name \<Rightarrow> length name \<le> 120)"

text \<open>What a call of \<^verbatim>\<open>_write_log\<close> does to the manager.\<close>

definition logged :: "mblue_clock_entity \<Rightarrow> u32 \<Rightarrow> u8 list \<Rightarrow> 'a log_globals_scheme \<Rightarrow> 'a log_globals_scheme \<Rightarrow> bool" where
  "logged now level str g g' \<longleftrightarrow>
     (if level \<le> lm_level (lg_manage g) then printed now str g g' else g' = g)"

lemma write_log_logs:
  assumes "lg_log g" "lm_stream (lg_manage g)" and "printable_date now" "0 \<notin> set str"
  obtains g' where "logged now level str g g'"
    "function_answers (log_app R now stk) 1 PB_12 [FInt level, FBytes str] (MAKE_INTEGER (errcode_word MBLUE_OK)) g g'"
proof (cases "level \<le> lm_level (lg_manage g)")
  case True
  obtain g' where "printed now str g g'"
    "function_answers (log_app R now stk) 1 PB_12 [FInt level, FBytes str] (MAKE_INTEGER (errcode_word MBLUE_OK)) g g'"
    by (rule write_log_answers [OF assms(1,2) True assms(3,4)])
  then show thesis using True by (intro that) (simp_all add: logged_def)
next
  case False
  then have "function_answers (log_app R now stk) 1 PB_12 [FInt level, FBytes str] (MAKE_INTEGER (errcode_word MBLUE_OK)) g g"
    using assms(1) by (auto simp: function_answers_def call_args_def arg_words_def log_app_def log_service_function_def
      service_write_log_def log_write_def Let_def)
  then show thesis using False by (intro that) (simp_all add: logged_def)
qed

lemma length_put_string: "put_string off n t buf = Some buf' \<Longrightarrow> length buf' = length buf"
  by (auto simp: put_string_def Let_def split: if_splits)

lemma log_message_text:
  assumes "level < log_level_value LOG_LEVEL_MAX" and "0 \<notin> set source" "0 \<notin> set msg" and "length source < 2 ^ 31"
    and "short_name source"
  obtains buf where "log_text level source msg (replicate 128 0) = Some buf" "c_string buf = Some (log_message level source msg)"
    "length buf = 128"
proof -
  obtain buf where b: "log_text level source msg (replicate 128 0) = Some buf"
      "c_string buf = Some (log_message level source msg)"
    using log_text_result [OF assms(1-4)] assms(5)
    by (cases "log_get_file_name_pointer source (length source)") (auto simp: short_name_def log_message_def)
  have "length buf = length (replicate 128 0 :: u8 list)"
    using b(1) by (auto simp: log_text_def Let_def dest!: length_put_string split: bind_splits option.splits)
  then show thesis using that b by simp
qed

lemma message_posted:
  fixes w :: "'a log_world"
  assumes st: "call_state tc tb sb ts ss (major_value MBLUE_LOG_SERVICE) [] [] n (m # free) [] w"
    and self: "get_current_context self w = tc"
    and gr: "\<And>j. \<not> hfail (bw_heap w) j" "16 * hnext (bw_heap w) < 2 ^ 30"
    and lo: "locals_apart lo (16 * int (hnext (bw_heap w)) + 144)"
    and tx: "level < log_level_value LOG_LEVEL_MAX" "0 \<notin> set source" "0 \<notin> set msg" "length source < 2 ^ 31" "short_name source"
  obtains w1 payload pn where "log_service_write (Suc fuel) self lo level source msg w = Some (Posted m, w1)"
    "call_state tc tb sb ts ss (major_value MBLUE_LOG_SERVICE) [m] [] n free [] w1"
    "log_call_sent tc sb MBLUE_LOG_SERVICE_LOG level (log_message level source msg) m payload pn w1"
    "(hblocks (bw_heap w1))(unat payload := None, pn := None) = hblocks (bw_heap w)"
    "bw_user w1 = bw_user w" "aside tb ts 160 w w1" "\<And>m'. m' \<noteq> m \<Longrightarrow> msg_at w1 m' = msg_at w m'"
proof -
  let ?str = "log_message level source msg" and ?tmp = "16 * Suc (hnext (bw_heap w))"
  have wf: "heap_wf (bw_heap w)" using st by (simp add: call_state_def)
  obtain buf where buf: "log_text level source msg (replicate 128 0) = Some buf" "c_string buf = Some ?str" "length buf = 128"
    by (rule log_message_text [OF tx])
  define hp where "hp = snd (the (mblue_malloc (of_nat MAX_LOG_CACHE_LEN) (bw_heap w)))"
  have sz: "unat (of_nat MAX_LOG_CACHE_LEN :: u32) = 128" by (simp add: MAX_LOG_CACHE_LEN_def)
  have "unat (of_nat MAX_LOG_CACHE_LEN :: u32) \<le> 2 ^ 32 - 16" unfolding sz by simp
  note g = mblue_malloc_granted [OF gr(1) this, unfolded sz]
  have mal: "mblue_malloc (of_nat MAX_LOG_CACHE_LEN) (bw_heap w) = Some (?tmp, hp)" unfolding hp_def g by simp
  have hp: "hblocks hp = (hblocks (bw_heap w))(?tmp \<mapsto> replicate 128 0)" "hnext hp = hnext (bw_heap w) + 9"
    "hfail hp = hfail (bw_heap w)"
    unfolding hp_def g by simp_all
  let ?w = "set_block ?tmp buf (w\<lparr>bw_heap := hp\<rparr>)"
  define hp2 where "hp2 = hp\<lparr>hblocks := (hblocks hp)(?tmp \<mapsto> buf)\<rparr>"
  have w: "?w = w\<lparr>bw_heap := hp2\<rparr>" by (simp add: set_block_def hp2_def)
  have "heap_wf hp2"
    using heap_wf_extend [OF wf, where bs = buf and n = "hnext (bw_heap w) + 9" and k = "Suc (hcalls (bw_heap w))"] buf(3)
    unfolding hp2_def hp_def g heap_wf_def by simp
  note st2 = call_state_update(2) [OF st this, folded w]
  have self2: "get_current_context self ?w = tc" using self unfolding w by (simp add: get_current_context_def)
  have gr2: "\<not> hfail (bw_heap ?w) j" for j using gr(1) unfolding w by (simp add: hp2_def hp(3))
  have b2: "16 * hnext (bw_heap ?w) < 2 ^ 31" using gr(2) unfolding w by (simp add: hp2_def hp(2))
  have blk: "hblocks (bw_heap ?w) ?tmp = Some buf" "length buf < 2 ^ 30" using buf(3) unfolding w by (simp_all add: hp2_def)
  have lo2: "locals_apart lo (int ?tmp + int (length buf))" using lo by (simp add: buf(3) algebra_simps)
  obtain w1 payload pn where 1: "send_text (Suc fuel) self lo MBLUE_LOG_SERVICE_LOG level ?tmp buf ?w = Some (Posted m, w1)"
    "call_state tc tb sb ts ss (major_value MBLUE_LOG_SERVICE) [m] [] n free [] w1"
    "log_call_sent tc sb MBLUE_LOG_SERVICE_LOG level ?str m payload pn w1"
    "(hblocks (bw_heap w1))(unat payload := None, pn := None) = (hblocks (bw_heap ?w))(?tmp := None)"
    "bw_user w1 = bw_user ?w" "aside tb ts (20 + length buf) ?w w1" "\<And>m'. m' \<noteq> m \<Longrightarrow> msg_at w1 m' = msg_at ?w m'"
    by (rule text_posted [OF st2 self2 gr2 b2 blk(1) buf(2) blk(2) lo2]) (rule that)
  have "log_service_write (Suc fuel) self lo level source msg w =
      send_text (Suc fuel) self lo MBLUE_LOG_SERVICE_LOG level ?tmp buf ?w"
    using tx(1) [folded not_le] buf(1) mal hp(1) by (simp add: log_service_write_def world_malloc_def)
  moreover have "(hblocks (bw_heap ?w))(?tmp := None) = hblocks (bw_heap w)"
    using heap_wf_fresh [OF wf] unfolding w by (auto simp: hp2_def hp(1))
  moreover have "aside tb ts 9 w ?w" unfolding w by (rule aside_same) (simp_all add: hp2_def hp)
  then have "aside tb ts 160 w w1" by (rule aside_trans [OF _ 1(6)]) (simp add: buf(3))
  moreover have "bw_user ?w = bw_user w" "msg_at ?w m' = msg_at w m'" for m' unfolding w by simp_all
  ultimately show thesis using that 1 by simp
qed

lemma log_message_zero_free: "0 \<notin> set source \<Longrightarrow> 0 \<notin> set msg \<Longrightarrow> level < log_level_value LOG_LEVEL_MAX \<Longrightarrow>
    length source < 2 ^ 31 \<Longrightarrow> short_name source \<Longrightarrow> 0 \<notin> set (log_message level source msg)"
proof -
  assume "0 \<notin> set source" "0 \<notin> set msg" "level < log_level_value LOG_LEVEL_MAX" "length source < 2 ^ 31" "short_name source"
  then obtain buf where "c_string buf = Some (log_message level source msg)" using log_message_text by metis
  then have "log_message level source msg = takeWhile (\<lambda>c. c \<noteq> 0) buf" by (simp add: c_string_def split: if_splits)
  then show ?thesis by (auto dest: set_takeWhileD)
qed

lemma message_answered:
  fixes w :: "'a log_world"
  assumes st: "call_state tc tb sb ts ss (major_value MBLUE_LOG_SERVICE) [m] [] n (r # free) [] w"
    and sent: "log_call_sent tc sb MBLUE_LOG_SERVICE_LOG level str m payload pn w" and o: "m \<in> msg_objs" "m \<notin> set (r # free)"
    and gr: "\<And>j. \<not> hfail (bw_heap w) j" and fr: "frame_ok (st_frame stk)"
    and it: "items_array (bw_segs w ss) (type_value SYNC_CALL) = Some log_ipc_items"
    and lg: "lg_log (bw_user w)" "lm_stream (lg_manage (bw_user w))" and now: "printable_date now" and z: "0 \<notin> set str"
  shows "\<exists>w2 w3 w4. template_proc_turn (Suc fuel) (log_app R now stk) i tb w = Some (Returns w2) \<and>
      template_proc_turn (Suc fuel) (log_app R now stk) i ts w2 = Some (Returns w3) \<and>
      template_proc_turn (Suc fuel) (log_app R now stk) i tb w3 = Some (Returns w4) \<and>
      call_state tc tb sb ts ss (major_value MBLUE_LOG_SERVICE) [] [] n (free @ [m, r]) [] w4 \<and>
      hblocks (bw_heap w4) = (hblocks (bw_heap w))(unat payload := None, pn := None) \<and>
      logged now level str (bw_user w) (bw_user w4) \<and> aside tb ts 3 w w4"
proof -
  obtain g where g: "logged now level str (bw_user w) g"
    "function_answers (log_app R now stk) 1 PB_12 [FInt level, FBytes str] (MAKE_INTEGER (errcode_word MBLUE_OK)) (bw_user w) g"
    by (rule write_log_logs [OF lg now z, of level])
  have "(1 :: nat) \<noteq> 0" by simp
  from log_call_answered [OF st sent o gr fr log_items_lookup(1) [OF it] this g(2), of fuel i] g(1)
  show ?thesis by blast
qed

lemma message_written:
  fixes w :: "'a log_world"
  assumes st: "call_state tc tb sb ts ss (major_value MBLUE_LOG_SERVICE) [] [] n (m # r # free) [] w"
    and self: "get_current_context self w = tc"
    and gr: "\<And>j. \<not> hfail (bw_heap w) j" "16 * hnext (bw_heap w) < 2 ^ 30"
    and lo: "locals_apart lo (16 * int (hnext (bw_heap w)) + 144)" and fr: "frame_ok (st_frame stk)"
    and it: "items_array (bw_segs w ss) (type_value SYNC_CALL) = Some log_ipc_items"
    and lg: "lg_log (bw_user w)" "lm_stream (lg_manage (bw_user w))" and now: "printable_date now"
    and tx: "level < log_level_value LOG_LEVEL_MAX" "0 \<notin> set source" "0 \<notin> set msg" "length source < 2 ^ 31" "short_name source"
  shows "\<exists>w1 w2 w3 w4. log_service_write (Suc fuel) self lo level source msg w = Some (Posted m, w1) \<and>
      template_proc_turn (Suc fuel) (log_app R now stk) i tb w1 = Some (Returns w2) \<and>
      template_proc_turn (Suc fuel) (log_app R now stk) i ts w2 = Some (Returns w3) \<and>
      template_proc_turn (Suc fuel) (log_app R now stk) i tb w3 = Some (Returns w4) \<and>
      call_state tc tb sb ts ss (major_value MBLUE_LOG_SERVICE) [] [] n (free @ [m, r]) [] w4 \<and>
      hblocks (bw_heap w4) = hblocks (bw_heap w) \<and>
      logged now level (log_message level source msg) (bw_user w) (bw_user w4)"
proof -
  have "pool_holds (bw_msgs w) (m # r # free)" using st by (simp add: call_state_def)
  then have o: "m \<in> msg_objs" "m \<notin> set (r # free)" using mpool.holds_objs [of "bw_msgs w" "m # r # free"] by auto
  obtain w1 payload pn where 1: "log_service_write (Suc fuel) self lo level source msg w = Some (Posted m, w1)"
    "call_state tc tb sb ts ss (major_value MBLUE_LOG_SERVICE) [m] [] n (r # free) [] w1"
    "log_call_sent tc sb MBLUE_LOG_SERVICE_LOG level (log_message level source msg) m payload pn w1"
    "(hblocks (bw_heap w1))(unat payload := None, pn := None) = hblocks (bw_heap w)"
    "bw_user w1 = bw_user w" "aside tb ts 160 w w1"
    by (rule message_posted [OF st self gr lo tx]) (rule that)
  have a: "\<not> hfail (bw_heap w1) j" "items_array (bw_segs w1 ss) (type_value SYNC_CALL) = Some log_ipc_items" for j
    using 1(6) gr(1) it by (simp_all add: aside_def)
  have z: "0 \<notin> set (log_message level source msg)" by (rule log_message_zero_free [OF tx(2,3,1,4,5)])
  from message_answered [OF 1(2,3) o a(1) fr a(2) lg [folded 1(5)] now z, of fuel R i] 1(1,4,5) show ?thesis by auto
qed

section \<open>Properties\<close>

text \<open>C3 (log\_message\_printed): a part of the program logs a message. The message with its file name and level is
  serialised and sent to the log service; when the bus, the service and the bus have had their turns, a
  message of at most the level of the manager has been printed as one line behind the date, cut to the
  sizes of the two caches, and a message above the level has not. The caller does not wait, and
  afterwards the two text blocks, the notifier, the pending call and both messages have been given back.\<close>

theorem log_message_printed:
  fixes w :: "'a log_world"
  assumes "call_state tc tb sb ts ss (major_value MBLUE_LOG_SERVICE) [] [] n (m # r # free) [] w"
    and "get_current_context self w = tc"
    and "\<And>j. \<not> hfail (bw_heap w) j" and "16 * hnext (bw_heap w) < 2 ^ 30"
    and "locals_apart lo (16 * int (hnext (bw_heap w)) + 144)" and "frame_ok (st_frame stk)"
    and "items_array (bw_segs w ss) (type_value SYNC_CALL) = Some log_ipc_items"
    and "lg_log (bw_user w)" and "lm_stream (lg_manage (bw_user w))" and "printable_date now"
    and "level < log_level_value LOG_LEVEL_MAX" and "0 \<notin> set source" and "0 \<notin> set msg" and "length source < 2 ^ 31"
    and "short_name source"
  shows "\<exists>w1 w2 w3 w4. log_service_write (Suc fuel) self lo level source msg w = Some (Posted m, w1) \<and>
      template_proc_turn (Suc fuel) (log_app R now stk) i tb w1 = Some (Returns w2) \<and>
      template_proc_turn (Suc fuel) (log_app R now stk) i ts w2 = Some (Returns w3) \<and>
      template_proc_turn (Suc fuel) (log_app R now stk) i tb w3 = Some (Returns w4) \<and>
      call_state tc tb sb ts ss (major_value MBLUE_LOG_SERVICE) [] [] n (free @ [m, r]) [] w4 \<and>
      hblocks (bw_heap w4) = hblocks (bw_heap w) \<and>
      logged now level (log_message level source msg) (bw_user w) (bw_user w4)"
  by (rule message_written [OF assms])

text \<open>C34 (log\_level\_call): setting the level of the log manager from another task. The caller waits for the answer,
  which is always \<open>MBLUE_OK\<close>; a level below \<open>LOG_LEVEL_MAX\<close> is the manager's level afterwards, and any other
  value has changed nothing.\<close>

theorem log_level_call:
  fixes w :: "'a log_world"
  assumes "call_state tc tb sb ts ss (major_value MBLUE_LOG_SERVICE) [] [] 0 (m # r # free) [] w"
    and "out \<noteq> 0" and "get_current_context self w = tc"
    and "\<not> hfail (bw_heap w) (hcalls (bw_heap w))" and "\<not> hfail (bw_heap w) (Suc (hcalls (bw_heap w)))"
    and "16 * hnext (bw_heap w) < 2 ^ 31"
    and "items_array (bw_segs w ss) (type_value SYNC_CALL) = Some log_ipc_items"
    and "lg_log (bw_user w)" and "locals_apart lo bound" and "frame_ok (st_frame stk)"
  shows "\<exists>w1 w2 w3 w4 w5. log_service_set_level (Suc fuel) self out lo level w = Some (Posted m, w1) \<and>
      template_proc_turn (Suc fuel) (log_app R now stk) i tb w1 = Some (Returns w2) \<and>
      template_proc_turn (Suc fuel) (log_app R now stk) i ts w2 = Some (Returns w3) \<and>
      template_proc_turn (Suc fuel) (log_app R now stk) i tb w3 = Some (Returns w4) \<and>
      ipc_invoke_wait i tc w4 = Some (Returns (MBLUE_OK, w5)) \<and>
      log_call_result out w5 = errcode_value MBLUE_OK \<and>
      lg_manage (bw_user w5) = (lg_manage (bw_user w))\<lparr>lm_level :=
        if level < log_level_value LOG_LEVEL_MAX then level else lm_level (lg_manage (bw_user w))\<rparr>"
proof -
  have "log_set_level level lm = lm\<lparr>lm_level := if level < log_level_value LOG_LEVEL_MAX then level else lm_level lm\<rparr>" for lm
    by (simp add: log_set_level_def)
  then show ?thesis using log_level_set [OF assms, where fuel = fuel and level = level and now = now and i = i and R = R] by (elim exE conjE) (intro exI conjI, assumption+, simp)
qed

text \<open>The sample system of \<open>Bus_Protocol\<close> with the log service in the place of segment 2.\<close>

definition log_system :: "log_globals bus_world" where
  "log_system = \<lparr>bw_heap = bw_heap sample_world, bw_msgs = bw_msgs sample_world,
     bw_segs = (\<lambda>ms. if ms = 20 then (bw_segs sample_world 20)\<lparr>s_major := log_major,
       items_array := (\<lambda>_. None)(type_value SYNC_CALL \<mapsto> log_ipc_items, type_value ASYNC_CALL \<mapsto> log_ipc_items)\<rparr>
       else bw_segs sample_world ms),
     bw_tasks = bw_tasks sample_world, bw_queues = bw_queues sample_world, bw_seg_links = bw_seg_links sample_world,
     bw_sb_instance = True, bw_node_ms = (bw_node_ms sample_world)(major_value MBLUE_LOG_SERVICE := 20),
     bw_pub_links = bw_pub_links sample_world, bw_call_links = bw_call_links sample_world,
     bw_init_lock = bw_init_lock sample_world, bw_subs = bw_subs sample_world, bw_calls = bw_calls sample_world,
     bw_notifiers = bw_notifiers sample_world, bw_cells = bw_cells sample_world, bw_ipc = bw_ipc sample_world,
     bw_tm = bw_tm sample_world, bw_task_id = bw_task_id sample_world,
     bw_user = \<lparr>lg_ls = 20, lg_log = True, lg_lm = True, lg_manage = sample_logger\<rparr>\<rparr>"

definition sample_locals :: locals where
  "sample_locals = \<lparr>lo_dl = 5036, lo_bundler = 5048, lo_header = 5000, lo_memory = (\<lambda>_. 0)\<rparr>"

definition sample_stack :: stack where
  "sample_stack = \<lparr>st_header = 1000, st_frame = (2000, 3000), st_raw = 0, st_memory = (\<lambda>_. 0)\<rparr>"

text \<open>No other applications.\<close>

definition idle_app :: "'u app" where
  "idle_app = \<lparr>app_signal = (\<lambda>f ms p w. None), app_service = (\<lambda>f args w. None), app_stack = sample_stack,
     app_notify = (\<lambda>f p d w. None), app_launch = (\<lambda>f ms w. None)\<rparr>"

lemma log_system_state:
  "call_state 3 1 10 2 20 (major_value MBLUE_LOG_SERVICE) [] [] 0 (msg_addr 0 # msg_addr 1 # map msg_addr [2..<32]) [] log_system"
proof -
  have "dlist (bw_call_links sample_world) (list_head_of k) []" for k
    using unlinked_heads by (simp add: sample_world_def)
  then show ?thesis using sample_call_state
    by (simp add: call_state_def call_config_def task_has_def log_system_def SEGMENT_MAJOR_MAX_def)
qed

lemma log_system_facts:
  "get_current_context 103 log_system = 3" "\<And>j. \<not> hfail (bw_heap log_system) j" "hnext (bw_heap log_system) = 1"
  "items_array (bw_segs log_system 20) (type_value SYNC_CALL) = Some log_ipc_items"
  "bw_user log_system = \<lparr>lg_ls = 20, lg_log = True, lg_lm = True, lg_manage = sample_logger\<rparr>"
  "lm_stream sample_logger" "lm_level sample_logger = 4" "lm_out sample_logger = []"
  using sample_call_facts(1)
  by (simp_all add: log_system_def get_current_context_def sample_logger_def log_init_def log_set_stream_def Let_def)
    (simp_all add: sample_world_def fresh_heap_def)

lemma sample_message:
  "printable_date sample_date" "(3 :: u32) < log_level_value LOG_LEVEL_MAX" "0 \<notin> set [47, 97 :: u8]" "0 \<notin> set [111, 107 :: u8]"
  "length [47, 97 :: u8] < 2 ^ 31" "short_name [47, 97]"
  "take 127 (date_text sample_date @ [32] @ log_message 3 [47, 97] [111, 107] @ [10]) = c_name ''2018-1-1 12:0:0 a[3] ok'' @ [10]"
proof -
  have name: "log_get_file_name_pointer [47, 97] (length [47, 97 :: u8]) = Some [97]"
    by (simp add: log_get_file_name_pointer_def is_slash_def)
  have digits: "dec_digits 3 = [51]" "dec_digits 2018 = [50, 48, 49, 56]" "dec_digits 12 = [49, 50]" "dec_digits 1 = [49]"
      "dec_digits 0 = [48]"
    by (simp_all add: dec_digits.simps)
  have "log_message 3 [47, 97] [111, 107] = c_name ''a[3] ok''"
    using name digits by (simp add: log_message_def log_prefix_def c_name_def)
  moreover have "date_text sample_date = c_name ''2018-1-1 12:0:0''"
    using digits by (simp add: date_text_def sample_date_def c_name_def)
  ultimately show "take 127 (date_text sample_date @ [32] @ log_message 3 [47, 97] [111, 107] @ [10]) =
      c_name ''2018-1-1 12:0:0 a[3] ok'' @ [10]"
    by (simp add: c_name_def)
  show "short_name [47, 97]" using name by (simp add: short_name_def)
qed (simp_all add: printable_date_def sample_date_def)

theorem log_message_printed_witness:
  "\<exists>w1 w2 w3 w4. log_service_write (Suc 3) 103 sample_locals 3 [47, 97] [111, 107] log_system = Some (Posted (msg_addr 0), w1) \<and>
      template_proc_turn (Suc 3) (log_app idle_app sample_date sample_stack) False 1 w1 = Some (Returns w2) \<and>
      template_proc_turn (Suc 3) (log_app idle_app sample_date sample_stack) False 2 w2 = Some (Returns w3) \<and>
      template_proc_turn (Suc 3) (log_app idle_app sample_date sample_stack) False 1 w3 = Some (Returns w4) \<and>
      hblocks (bw_heap w4) = hblocks (bw_heap log_system) \<and>
      lm_out (lg_manage (bw_user w4)) = [c_name ''2018-1-1 12:0:0 a[3] ok'' @ [10]]"
proof -
  have lo: "locals_apart sample_locals (16 * int (hnext (bw_heap log_system)) + 144)" "16 * hnext (bw_heap log_system) < 2 ^ 30"
    by (simp_all add: log_system_facts locals_apart_def sample_locals_def)
  have fr: "frame_ok (st_frame sample_stack)" by (simp add: sample_stack_def frame_ok_def)
  have lg: "lg_log (bw_user log_system)" "lm_stream (lg_manage (bw_user log_system))" by (simp_all add: log_system_facts)
  obtain w1 w2 w3 w4 where r:
    "log_service_write (Suc 3) 103 sample_locals 3 [47, 97] [111, 107] log_system = Some (Posted (msg_addr 0), w1)"
    "template_proc_turn (Suc 3) (log_app idle_app sample_date sample_stack) False 1 w1 = Some (Returns w2)"
    "template_proc_turn (Suc 3) (log_app idle_app sample_date sample_stack) False 2 w2 = Some (Returns w3)"
    "template_proc_turn (Suc 3) (log_app idle_app sample_date sample_stack) False 1 w3 = Some (Returns w4)"
    "hblocks (bw_heap w4) = hblocks (bw_heap log_system)"
    "logged sample_date 3 (log_message 3 [47, 97] [111, 107]) (bw_user log_system) (bw_user w4)"
    using log_message_printed [OF log_system_state log_system_facts(1,2) lo(2,1) fr log_system_facts(4) lg sample_message(1-6),
        where fuel = 3 and i = False and R = idle_app]
    by (elim exE conjE) (rule that)
  have "lm_out (lg_manage (bw_user w4)) = [c_name ''2018-1-1 12:0:0 a[3] ok'' @ [10]]"
    using r(6) unfolding logged_def printed_def sample_message(7) log_system_facts by (auto simp: log_system_facts)
  then show ?thesis using r by blast
qed

theorem log_level_call_witness:
  "\<exists>w1 w2 w3 w4 w5. log_service_set_level (Suc 3) 103 5 sample_locals 1 log_system = Some (Posted (msg_addr 0), w1) \<and>
      template_proc_turn (Suc 3) (log_app idle_app sample_date sample_stack) False 1 w1 = Some (Returns w2) \<and>
      template_proc_turn (Suc 3) (log_app idle_app sample_date sample_stack) False 2 w2 = Some (Returns w3) \<and>
      template_proc_turn (Suc 3) (log_app idle_app sample_date sample_stack) False 1 w3 = Some (Returns w4) \<and>
      ipc_invoke_wait False 3 w4 = Some (Returns (MBLUE_OK, w5)) \<and>
      log_call_result 5 w5 = errcode_value MBLUE_OK \<and> lm_level (lg_manage (bw_user w5)) = 1"
proof -
  have lo: "locals_apart sample_locals 144" by (simp add: locals_apart_def sample_locals_def)
  have fr: "frame_ok (st_frame sample_stack)" by (simp add: sample_stack_def frame_ok_def)
  have "(5 :: addr) \<noteq> 0" "16 * hnext (bw_heap log_system) < 2 ^ 31" "lg_log (bw_user log_system)" by (simp_all add: log_system_facts)
  from log_level_call [OF log_system_state this(1) log_system_facts(1,2,2) this(2) log_system_facts(4) this(3) lo fr,
      where fuel = 3 and level = 1 and now = sample_date and i = False and R = idle_app]
  show ?thesis by (elim exE conjE) (intro exI conjI, assumption+, simp)
qed

end
