(* ===== verification/Power_Guard.thy ===== *)
theory Power_Guard
  imports Mblue_Prelude
begin

text \<open>
  The power guard of \<^verbatim>\<open>components/power/mblue_power_guard.c\<close>: a counter of the parts that keep the system
  awake. The counter is a word of 32 bits; it stays at 0 when it is decreased too often and wraps when it
  is increased too often. The lemmas relate it to the number of holders.
\<close>

record mblue_power_guard =
  power_holder :: u32

definition power_init :: "mblue_power_guard \<Rightarrow> mblue_power_guard" where
  "power_init guard = guard\<lparr>power_holder := 0\<rparr>"

definition power_inc :: "mblue_power_guard \<Rightarrow> mblue_power_guard" where
  "power_inc guard = guard\<lparr>power_holder := power_holder guard + 1\<rparr>"

definition power_dec :: "mblue_power_guard \<Rightarrow> mblue_power_guard" where
  "power_dec guard = (if power_holder guard \<noteq> 0 then guard\<lparr>power_holder := power_holder guard - 1\<rparr> else guard)"

definition should_sleep :: "mblue_power_guard \<Rightarrow> bool" where
  "should_sleep guard \<longleftrightarrow> power_holder guard = 0"

text \<open>The singleton is initialised by its first use. The flag is whether \<^verbatim>\<open>power_guard\<close> is set.\<close>

definition mblue_power_guard_get_instance :: "bool \<times> mblue_power_guard \<Rightarrow> bool \<times> mblue_power_guard" where
  "mblue_power_guard_get_instance s = (let (set_up, guard) = s in if \<not> set_up then (True, power_init guard) else (True, guard))"

lemma power_inc_count:
  "unat (power_holder guard) < 2 ^ 32 - 1 \<Longrightarrow> unat (power_holder (power_inc guard)) = Suc (unat (power_holder guard))"
  by (simp add: power_inc_def unat_word_ariths)

lemma power_dec_count: "unat (power_holder (power_dec guard)) = unat (power_holder guard) - 1"
  by (auto simp: power_dec_def unat_sub_if_size unat_gt_0 Suc_leI)

text \<open>As long as there are at most \<open>2 ^ 32 - 1\<close> increments, the guard lets the system sleep exactly when
  every holder has let go: excess decrements do not count.\<close>

fun holders :: "bool list \<Rightarrow> nat \<Rightarrow> nat" where
  "holders [] n = n"
| "holders (b # bs) n = holders bs (if b then Suc n else n - 1)"

fun power_run :: "bool list \<Rightarrow> mblue_power_guard \<Rightarrow> mblue_power_guard" where
  "power_run [] guard = guard"
| "power_run (b # bs) guard = power_run bs (if b then power_inc guard else power_dec guard)"

lemma power_run_counts:
  assumes "unat (power_holder guard) + length (filter id bs) < 2 ^ 32"
  shows "unat (power_holder (power_run bs guard)) = holders bs (unat (power_holder guard))"
  using assms
proof (induction bs arbitrary: guard)
  case (Cons b bs)
  then show ?case
    using power_inc_count [of guard] power_dec_count [of guard] by (cases b) simp_all
qed simp

lemma power_guard_sleeps:
  assumes "length (filter id bs) < 2 ^ 32"
  shows "should_sleep (power_run bs (power_init guard)) \<longleftrightarrow> holders bs 0 = 0"
  using power_run_counts [of "power_init guard" bs] assms
  by (simp add: should_sleep_def power_init_def) (metis unat_eq_0)

lemma power_guard_wraps: "power_holder guard = -1 \<Longrightarrow> should_sleep (power_inc guard)"
  by (simp add: should_sleep_def power_inc_def)

end
