(* ===== verification/Simple_Scenario.thy ===== *)
theory Simple_Scenario
  imports Log_Service Event_Queue
begin

text \<open>
  The example application of \<^verbatim>\<open>app/scenario/simple_scenario.c\<close> and the timer function of
  \<^verbatim>\<open>event_helper.c\<close> it uses. At its launch the scenario schedules an event that repeats every second. When
  the timer of the event expires, the timer function sends a signal with the event to the scenario, and the
  task of the scenario wakes the event, whose callback logs a line through the log service: it calls
  \<^verbatim>\<open>log_service_write\<close>, which posts a call to the bus. The event queue and the timers are part of the state of
  the applications. The variable \<^verbatim>\<open>count\<close> is not used by the code.
\<close>

section \<open>The scenario\<close>

text \<open>The state of the applications together: that of the log service, the event queues and timers, and the pointers of
  the singletons of the segments by the number of the hook that asks for them.\<close>

record system_globals = log_globals +
  sg_events :: event_world
  sg_instance :: "nat \<Rightarrow> addr"

type_synonym system_world = "system_globals bus_world"

text \<open>What the functions of the scenario work on: the event queues with the world around them, because the callback of
  its event sends messages. \<open>sc_fault\<close> says that the callback has run into a memory error.\<close>

record scenario = event_world +
  sc_world :: system_world
  sc_fault :: bool

text \<open>What the macro \<^verbatim>\<open>LOGGER\<close> takes from its place: the thread that runs it, where its locals are and the name of the
  file.\<close>

record client =
  cl_self :: nat
  cl_locals :: locals
  cl_file :: "u8 list"

text \<open>The address of the static queue, and the numbers of the two functions of the scenario that are called through
  pointers.\<close>

definition delayed_event_queue :: addr where
  "delayed_event_queue = 0x8000"

definition DEFAULT_TIMER_EVENT :: nat where
  "DEFAULT_TIMER_EVENT = 1"

definition DELAYED_WORK :: nat where
  "DELAYED_WORK = 2"

definition delayed_work :: "nat \<Rightarrow> client \<Rightarrow> addr \<Rightarrow> nat \<Rightarrow> scenario \<Rightarrow> int \<times> scenario" where
  "delayed_work fuel cl e data s =
     (let s = (case log_service_write fuel (cl_self cl) (cl_locals cl) (log_level_value LOG_INFO) (cl_file cl)
                 (c_name ''delayed work'') ((sc_world s)\<lparr>bw_heap := ts_heap s\<rparr>)
               of None \<Rightarrow> s\<lparr>sc_fault := True\<rparr>
                | Some (sent, w) \<Rightarrow> s\<lparr>ts_heap := bw_heap w, sc_world := w\<rparr>)
      in (errcode_value MBLUE_OK, s))"

text \<open>The only callback that the scenario gives to an event.\<close>

definition scenario_callbacks :: "nat \<Rightarrow> client \<Rightarrow> nat \<Rightarrow> addr \<Rightarrow> nat \<Rightarrow> scenario \<Rightarrow> int \<times> scenario" where
  "scenario_callbacks fuel cl f e data s =
     (if f = DELAYED_WORK then delayed_work fuel cl e data s else (errcode_value MBLUE_ERR_UNKNOWN, s))"

definition timer_wakeup :: "nat \<Rightarrow> client \<Rightarrow> addr \<Rightarrow> SMART_DATA \<Rightarrow> scenario \<Rightarrow> (mblue_errcode \<times> scenario) option" where
  "timer_wakeup fuel cl obj data s =
     (let q = delayed_event_queue
      in if POINTER_S data
         then do {
           e \<leftarrow> live_ele (unat (GET_POINTER data)) s;
           let type = e_type e;
           let rc = MBLUE_ERR_TIMEOUT;
           (rc', s) \<leftarrow> event_queue_wakeup fuel (scenario_callbacks fuel cl) q type (unat (MAKE_INTEGER (errcode_word rc))) s;
           (if sc_fault s then None else Some (MBLUE_OK, s))
         }
         else Some (MBLUE_OK, s))"

definition scenario_signal_items :: "handler_item list" where
  "scenario_signal_items =
     [\<lparr>item_id = of_nat (timer_message_value MBLUE_TIMER_WAKEUP), item_handler = 1\<rparr>,
      \<lparr>item_id = END_ITEM_ID, item_handler = 0\<rparr>]"

definition scenario_launch :: "nat \<Rightarrow> client \<Rightarrow> addr \<Rightarrow> scenario \<Rightarrow> scenario option" where
  "scenario_launch fuel cl ms s = do {
     let q = delayed_event_queue;
     let (rc, s) = event_queue_init q ms s;
     let s = s\<lparr>ew_queues := (ew_queues s)(q := (ew_queues s q)\<lparr>q_timer_function := DEFAULT_TIMER_EVENT\<rparr>)\<rparr>;
     (rc, s) \<leftarrow> schedule_default_event (scenario_callbacks fuel cl) q 1000 DELAYED_WORK s;
     Some s
   }"

definition scenario_init :: "addr \<Rightarrow> 'u bus_world \<Rightarrow> int \<times> 'u bus_world" where
  "scenario_init ms w =
     (let w = init_segment ms w;
          w = upd_seg ms (s_major_update (\<lambda>_. of_nat (major_value MBLUE_SIMPLE_SCENARIO))) w;
          w = upd_seg ms (on_launch_update (\<lambda>_. App_launch 2)) w;
          w = upd_seg ms (\<lambda>s. s\<lparr>items_array := (items_array s)(type_value SIGNAL \<mapsto> scenario_signal_items)\<rparr>) w
      in (0, w))"

section \<open>In the world of the tasks\<close>

text \<open>The scenario's view of the world, with the shared heap, and back.\<close>

definition events_of :: "system_world \<Rightarrow> scenario" where
  "events_of w = event_world.extend ((sg_events (bw_user w))\<lparr>ts_heap := bw_heap w\<rparr>) (scenario.fields w False)"

definition put_events :: "scenario \<Rightarrow> system_world" where
  "put_events s = (let w = sc_world s
     in w\<lparr>bw_heap := ts_heap s, bw_user := (bw_user w)\<lparr>sg_events := event_world.truncate s\<rparr>\<rparr>)"

definition scenario_app :: "nat \<Rightarrow> client \<Rightarrow> stack \<Rightarrow> system_globals app" where
  "scenario_app fuel cl stk = \<lparr>
     app_signal = (\<lambda>f ms data w. if f = 1
       then do { (rc, s) \<leftarrow> timer_wakeup fuel cl ms data (events_of w); Some (errcode_value rc, put_events s) }
       else None),
     app_service = (\<lambda>f args w. None), app_stack = stk, app_notify = (\<lambda>f p d w. None),
     app_launch = (\<lambda>f ms w. if f = 2 then do { s \<leftarrow> scenario_launch fuel cl ms (events_of w); Some (put_events s) } else None)\<rparr>"

text \<open>All applications of the system: the scenario and the log service.\<close>

definition system_app :: "nat \<Rightarrow> client \<Rightarrow> mblue_clock_entity \<Rightarrow> stack \<Rightarrow> system_globals app" where
  "system_app fuel cl now stk = log_app (scenario_app fuel cl stk) now stk"

definition MESSAGE_SOURCE_TIMER :: addr where
  "MESSAGE_SOURCE_TIMER = 0xEEF0"

text \<open>The timer function: \<open>param\<close> is the element whose timer has expired.\<close>

definition default_timer_event ::
    "nat \<Rightarrow> addr \<Rightarrow> system_world \<Rightarrow> (sender \<times> system_world) option" where
  "default_timer_event fuel param w = do {
     e \<leftarrow> live_ele param (events_of w);
     let q = e_head e;
     (if q = 0 then None
      else let ms = q_context (ew_queues (events_of w) q)
           in target_signal fuel MESSAGE_SOURCE_TIMER (of_nat (major_value MBLUE_SYSTEM))
                (of_nat (timer_message_value MBLUE_TIMER_WAKEUP)) ms (MAKE_POINTER_S (of_nat param)) 0 w)
   }"

text \<open>The kernel's timer of a timer object expires: it is armed again with its interval, and the handler of its
  signal calls the timer function.\<close>

definition timer_fires :: "nat \<Rightarrow> addr \<Rightarrow> system_world \<Rightarrow> (sender \<times> system_world) option" where
  "timer_fires fuel timer w = do {
     let s = events_of w;
     let w = put_events (timer_expire (kernel_timer timer s) s);
     call \<leftarrow> timer_notify timer (events_of w);
     (case call of None \<Rightarrow> Some (Sent MBLUE_OK, w)
      | Some (f, param) \<Rightarrow> if f = DEFAULT_TIMER_EVENT then default_timer_event fuel param w else None)
   }"

text \<open>The turns of some tasks, one after another.\<close>

fun task_turns :: "nat \<Rightarrow> 'u app \<Rightarrow> bool \<Rightarrow> addr list \<Rightarrow> 'u bus_world \<Rightarrow> 'u bus_world pend option" where
  "task_turns fuel A i [] w = Some (Returns w)"
| "task_turns fuel A i (t # ts) w = do {
     r \<leftarrow> template_proc_turn fuel A i t w;
     (case r of Blocked \<Rightarrow> Some Blocked | Returns w \<Rightarrow> task_turns fuel A i ts w)
   }"

text \<open>One second, in which the clock shows \<open>now\<close>: the timer expires, and the tasks that have something to do have
  their turns: that of the scenario, the bus, the log service and the bus again.\<close>

definition scenario_second ::
    "nat \<Rightarrow> client \<Rightarrow> stack \<Rightarrow> bool \<Rightarrow> addr \<Rightarrow> addr \<times> addr \<times> addr \<Rightarrow> mblue_clock_entity \<Rightarrow> system_world \<Rightarrow>
     system_world pend option" where
  "scenario_second fuel cl stk i timer tasks now w = do {
     let (task, tb, tg) = tasks;
     (sent, w) \<leftarrow> timer_fires fuel timer w;
     task_turns fuel (system_app fuel cl now stk) i [task, tb, tg, tb] w
   }"

fun scenario_seconds ::
    "nat \<Rightarrow> client \<Rightarrow> stack \<Rightarrow> bool \<Rightarrow> addr \<Rightarrow> addr \<times> addr \<times> addr \<Rightarrow> mblue_clock_entity list \<Rightarrow> system_world \<Rightarrow>
     system_world pend option" where
  "scenario_seconds fuel cl stk i timer tasks [] w = Some (Returns w)"
| "scenario_seconds fuel cl stk i timer tasks (now # nows) w = do {
     r \<leftarrow> scenario_second fuel cl stk i timer tasks now w;
     (case r of Blocked \<Rightarrow> Some Blocked | Returns w \<Rightarrow> scenario_seconds fuel cl stk i timer tasks nows w)
   }"

text \<open>The line of one second.\<close>

definition delayed_line :: "client \<Rightarrow> mblue_clock_entity \<Rightarrow> u8 list" where
  "delayed_line cl now = take 127 (date_text now @ [32] @
     log_message (log_level_value LOG_INFO) (cl_file cl) (c_name ''delayed work'') @ [10])"

section \<open>The event queue of the scenario\<close>

lemma events_of_fields [simp]:
  "ts_heap (events_of w) = bw_heap w" "ts_mlist (events_of w) = ts_mlist (sg_events (bw_user w))"
  "ts_links (events_of w) = ts_links (sg_events (bw_user w))" "ts_pool (events_of w) = ts_pool (sg_events (bw_user w))"
  "ts_posix (events_of w) = ts_posix (sg_events (bw_user w))" "kt_next (events_of w) = kt_next (sg_events (bw_user w))"
  "kt_spec (events_of w) = kt_spec (sg_events (bw_user w))" "kt_fail (events_of w) = kt_fail (sg_events (bw_user w))"
  "ew_links (events_of w) = ew_links (sg_events (bw_user w))" "ew_elems (events_of w) = ew_elems (sg_events (bw_user w))"
  "ew_queues (events_of w) = ew_queues (sg_events (bw_user w))" "sc_world (events_of w) = w" "sc_fault (events_of w) = False"
  by (simp_all add: events_of_def event_world.extend_def scenario.fields_def)

lemma put_events_fields [simp]:
  "bw_heap (put_events s) = ts_heap s" "bw_user (put_events s) = (bw_user (sc_world s))\<lparr>sg_events := event_world.truncate s\<rparr>"
  "bw_msgs (put_events s) = bw_msgs (sc_world s)" "bw_segs (put_events s) = bw_segs (sc_world s)"
  "bw_tasks (put_events s) = bw_tasks (sc_world s)" "bw_queues (put_events s) = bw_queues (sc_world s)"
  by (simp_all add: put_events_def Let_def)

lemma truncate_fields [simp]:
  fixes s :: scenario
  shows "ts_heap (event_world.truncate s) = ts_heap s" "ts_mlist (event_world.truncate s) = ts_mlist s"
    "ts_links (event_world.truncate s) = ts_links s" "ts_pool (event_world.truncate s) = ts_pool s"
    "ts_posix (event_world.truncate s) = ts_posix s" "kt_next (event_world.truncate s) = kt_next s"
    "kt_spec (event_world.truncate s) = kt_spec s" "kt_fail (event_world.truncate s) = kt_fail s"
    "ew_links (event_world.truncate s) = ew_links s" "ew_elems (event_world.truncate s) = ew_elems s"
    "ew_queues (event_world.truncate s) = ew_queues s"
  by (simp_all add: event_world.truncate_def)

text \<open>The facts about the queue depend on the part of the queue and the timers only, and on the blocks of the heap.\<close>

definition same_events :: "'a event_world_scheme \<Rightarrow> 'b event_world_scheme \<Rightarrow> bool" where
  "same_events s s' \<longleftrightarrow> ts_mlist s' = ts_mlist s \<and> ts_links s' = ts_links s \<and> ts_pool s' = ts_pool s \<and>
     ts_posix s' = ts_posix s \<and> kt_spec s' = kt_spec s \<and> ew_links s' = ew_links s \<and> ew_elems s' = ew_elems s \<and>
     ew_queues s' = ew_queues s \<and> hblocks (ts_heap s') = hblocks (ts_heap s) \<and> heap_wf (ts_heap s')"

lemma eq_wf_same: "same_events s s' \<Longrightarrow> eq_wf s q els tf \<Longrightarrow> eq_wf s' q els tf"
  by (simp del: not_None_eq add: same_events_def eq_wf_def eq_struct_def ticks_def types_def owned_def [abs_def] ele_ok_def [abs_def]
      timers_hold_def timer_bound_def)

lemma timer_same:
  assumes "same_events s s'"
  shows "timer_notify t s' = timer_notify t s" "kernel_setting t s' = kernel_setting t s"
  using assms by (simp_all add: same_events_def timer_notify_def live_posix_def kernel_setting_def kernel_timer_def)

lemma eq_wf_queues:
  fixes s :: scenario
  assumes "event_bm (f q) = event_bm (ew_queues s q)"
  shows "eq_wf (s\<lparr>ew_queues := f\<rparr>) q els tf \<longleftrightarrow> eq_wf s q els tf"
  using assms by (simp add: eq_wf_def eq_struct_def ticks_def types_def owned_def [abs_def] ele_ok_def [abs_def]
      timers_hold_def timer_bound_def)

lemma timer_expire_fields [simp]:
  "ts_heap (timer_expire k s) = ts_heap s" "ts_links (timer_expire k s) = ts_links s"
  "ts_mlist (timer_expire k s) = ts_mlist s" "ts_pool (timer_expire k s) = ts_pool s"
  "ts_posix (timer_expire k s) = ts_posix s" "timer_system.more (timer_expire k s) = timer_system.more s"
  "kt_spec (timer_expire k s) j = None \<longleftrightarrow> kt_spec s j = None"
  by (simp_all add: timer_expire_def split: option.splits)

lemma timer_expire_world [simp]: "sc_world (timer_expire k s) = sc_world s" "sc_fault (timer_expire k s) = sc_fault s"
  by (simp_all add: timer_expire_def split: option.split)

lemma eq_wf_expire [simp]: "eq_wf (timer_expire k s) q els tf \<longleftrightarrow> eq_wf s q els tf"
  using event_more [of "timer_expire k s" s]
  by (simp del: not_None_eq add: eq_wf_def eq_struct_def ticks_def types_def owned_def [abs_def] ele_ok_def [abs_def] timers_hold_def
      timer_bound_def)

lemma kernel_setting_expire:
  assumes "kernel_setting t s = Some (period_spec p True)"
  shows "kernel_setting t (timer_expire (kernel_timer t s) s) = Some (period_spec p True)"
  using assms by (simp add: kernel_setting_def kernel_timer_def) (simp add: timer_expire_def period_spec_def)

lemma delayed_work_ok: "fst (delayed_work fuel cl e data s) = errcode_value MBLUE_OK"
  by (simp add: delayed_work_def Let_def)

lemma scenario_wakeup:
  assumes wf: "eq_wf s delayed_event_queue [ele] tf" and e: "e_chain (ew_elems s ele) = [0, DELAYED_WORK, 0, 0]"
    and ty: "e_type (ew_elems s ele) \<noteq> 0"
  shows "event_queue_wakeup (Suc (Suc k)) (scenario_callbacks fuel cl) delayed_event_queue (e_type (ew_elems s ele)) param s =
    Some (MBLUE_OK, snd (delayed_work fuel cl ele param s))"
proof -
  have st: "eq_struct s delayed_event_queue ([] @ [ele]) tf" using wf by (simp add: eq_wf_def)
  have bm: "event_bm (ew_queues s delayed_event_queue) = e_type (ew_elems s ele)"
    using wf by (simp add: eq_wf_def types_def or_list_def)
  have "wakeup_element (scenario_callbacks fuel cl) delayed_event_queue ele param s = Some (snd (delayed_work fuel cl ele param s))"
    using e eq_struct_live [OF st, of ele] delayed_work_ok [of fuel cl ele param s]
    by (simp add: wakeup_element_def chain_at_def scenario_callbacks_def DELAYED_WORK_def case_prod_beta)
  then show ?thesis
    using wakeup_loop_spec [OF st, of "Suc (Suc k)" "scenario_callbacks fuel cl" "e_type (ew_elems s ele)" param]
      dlist_ele_first [OF eq_struct_dlist [OF st]] ty
    by (simp add: event_queue_wakeup_def bm)
qed

text \<open>The scenario with its event on the queue and the timer of the event armed.\<close>

definition scenario_element :: "addr \<Rightarrow> event_queue_element" where
  "scenario_element timer =
     (INIT_EVENT_ELEMENT_WITH MBLUE_EVENT_DELAYED_EVENT EVENT_MODE_EVENT_PERIODICAL 1000 0 0 0 0 DELAYED_WORK 0 0)
       \<lparr>e_head := delayed_event_queue, e_tick := timer\<rparr>"

definition scenario_runs :: "addr \<Rightarrow> addr \<Rightarrow> addr \<Rightarrow> addr list \<Rightarrow> scenario \<Rightarrow> bool" where
  "scenario_runs ms timer ele tf s \<longleftrightarrow>
     eq_wf s delayed_event_queue [ele] tf \<and> ew_elems s ele = scenario_element timer \<and>
     q_context (ew_queues s delayed_event_queue) = ms \<and>
     timer_notify timer s = Some (Some (DEFAULT_TIMER_EVENT, ele)) \<and>
     kernel_setting timer s = Some (period_spec 1000 True) \<and> ele \<noteq> 0 \<and> ele mod 16 = 0 \<and> ele < 2 ^ 32"

lemma scenario_runs_same: "same_events s s' \<Longrightarrow> scenario_runs ms t ele tf s \<Longrightarrow> scenario_runs ms t ele tf s'"
  using eq_wf_same [of s s'] timer_same [of s s' t] by (simp add: scenario_runs_def) (simp add: same_events_def)

lemma scenario_launched:
  assumes h: "heap_wf (ts_heap s)" "timers_hold s (t # tf)" "grants s" and b: "16 * Suc (hnext (ts_heap s)) < 2 ^ 32"
  obtains s' where "scenario_launch fuel cl ms s = Some s'"
    "scenario_runs ms t (16 * Suc (hnext (ts_heap s))) tf s'" "sc_world s' = sc_world s"
    "hfail (ts_heap s') = hfail (ts_heap s)" "hnext (ts_heap s') = hnext (ts_heap s) + 8"
proof -
  let ?cb = "scenario_callbacks fuel cl"
  define s1 where "s1 = snd (event_queue_init delayed_event_queue ms s)"
  define s2 where "s2 = s1\<lparr>ew_queues := (ew_queues s1)(delayed_event_queue :=
      (ew_queues s1 delayed_event_queue)\<lparr>q_timer_function := DEFAULT_TIMER_EVENT\<rparr>)\<rparr>"
  define e where "e = INIT_EVENT_ELEMENT_WITH MBLUE_EVENT_DELAYED_EVENT EVENT_MODE_EVENT_PERIODICAL 1000 0 0 0 0 DELAYED_WORK 0 0"
  have "eq_wf s1 delayed_event_queue [] (t # tf)" unfolding s1_def by (rule event_queue_init_wf [OF h(1,2)])
  then have wf: "eq_wf s2 delayed_event_queue [] (t # tf)"
    unfolding s2_def by (subst eq_wf_queues) simp_all
  have ok: "element_ok s2 [] e"
    by (simp add: element_ok_def e_def INIT_EVENT_ELEMENT_WITH_def CALL_CHAIN_MAX_def PB_PAYLOAD_def)
  have f: "grants s2" "ts_heap s2 = ts_heap s" "event_bm (ew_queues s2 delayed_event_queue) = 0" "sc_world s2 = sc_world s"
    "event_bm (ew_queues s1 delayed_event_queue) = 0"
    "q_context (ew_queues s2 delayed_event_queue) = ms" "q_timer_function (ew_queues s2 delayed_event_queue) = DEFAULT_TIMER_EVENT"
    using h(3) by (simp_all add: s2_def s1_def event_queue_init_def Let_def grants_def set_bm_def)
  have timed: "e_period e \<noteq> 0 \<and> e_period e \<noteq> EVENT_TIMEOUT_FOREVER" "e_mode e \<noteq> 0" "e_period e = 1000"
    by (simp_all add: e_def INIT_EVENT_ELEMENT_WITH_def EVENT_TIMEOUT_FOREVER_def EVENT_MODE_EVENT_PERIODICAL_def)
  have q: "delayed_event_queue mod 16 = 0" by (simp add: delayed_event_queue_def)
  have bm: "event_bm (ew_queues s2 delayed_event_queue) AND e_type e = 0" by (simp add: f)
  obtain ele s' where a: "event_queue_add ?cb delayed_event_queue e s2 =
       Some (if e_chain e ! 0 \<noteq> 0 then ?cb (e_chain e ! 0) ele delayed_event_queue s' else (0, s'))"
    "eq_wf s' delayed_event_queue ([] @ [ele]) tf"
    "ew_elems s' = (ew_elems s2)(ele := e\<lparr>e_head := delayed_event_queue, e_tick := t\<rparr>)"
    "ele = 16 * Suc (hnext (ts_heap s))" "event_world.more s' = event_world.more s2"
    "ew_queues s' = (ew_queues s2)(delayed_event_queue := (ew_queues s2 delayed_event_queue)\<lparr>event_bm :=
       event_bm (ew_queues s2 delayed_event_queue) OR e_type e\<rparr>)"
    "timer_notify t s' = Some (Some (DEFAULT_TIMER_EVENT, ele))"
    "kernel_setting t s' = Some (period_spec 1000 True)"
    "hfail (ts_heap s') = hfail (ts_heap s)" "hnext (ts_heap s') = hnext (ts_heap s) + 8"
    by (rule event_queue_add_spec [OF wf ok f(1) q bm, of ?cb]) (use timed f in simp_all)
  have "scenario_launch fuel cl ms s = Some s'"
    using a(1) unfolding scenario_launch_def schedule_default_event_def schedule_delayed_event_with_type_def
    by (simp add: event_queue_get_pending_event_def e_def INIT_EVENT_ELEMENT_WITH_def case_prod_beta
        s1_def [symmetric] s2_def [symmetric] f)
  moreover have "scenario_runs ms t ele tf s'"
    using a b f by (simp add: scenario_runs_def scenario_element_def e_def)
  moreover have "sc_world s' = sc_world s" using a(5) f(4) by (cases s', cases s2) simp
  ultimately show thesis using that a(4,9,10) by blast
qed

text \<open>The pointer of an element survives its tagged form.\<close>

lemma element_pointer:
  assumes "ele \<noteq> 0" "ele mod 16 = 0" "ele < 2 ^ 32"
  shows "POINTER_S (MAKE_POINTER_S (of_nat ele))" "unat (GET_POINTER (MAKE_POINTER_S (of_nat ele))) = ele"
    "\<not> PB_PAYLOAD (MAKE_POINTER_S (of_nat ele))"
proof -
  note p = aligned_payload [OF assms]
  have r: "GET_POINTER (MAKE_POINTER_S (of_nat ele)) = of_nat ele" "POINTER_S (MAKE_POINTER_S (of_nat ele))"
    using smart_data_roundtrip [of 0 "of_nat ele"] p(2) by (simp_all add: PB_PAYLOAD_def)
  then show "POINTER_S (MAKE_POINTER_S (of_nat ele))" "unat (GET_POINTER (MAKE_POINTER_S (of_nat ele))) = ele"
    by (simp_all add: p)
  from r show "\<not> PB_PAYLOAD (MAKE_POINTER_S (of_nat ele))" by (auto simp: POINTER_S_def PB_PAYLOAD_def)
qed

lemma scenario_runs_expire:
  assumes "scenario_runs ms t ele tf s"
  shows "scenario_runs ms t ele tf (timer_expire (kernel_timer t s) s)"
proof -
  let ?s = "timer_expire (kernel_timer t s) s"
  have "ew_elems ?s = ew_elems s" "ew_queues ?s = ew_queues s" using event_more [of ?s s] by simp_all
  moreover have "timer_notify t ?s = timer_notify t s" by (simp add: timer_notify_def live_posix_def)
  ultimately show ?thesis using assms kernel_setting_expire [of t s 1000] by (simp add: scenario_runs_def)
qed

lemma scenario_runs_live:
  assumes "scenario_runs ms t ele tf s"
  shows "live_ele ele s = Some (scenario_element t)"
  using assms eq_struct_live [of s delayed_event_queue "[ele]" tf ele] by (simp add: scenario_runs_def eq_wf_def)

text \<open>Waking the event runs its callback.\<close>

lemma scenario_runs_wakeup:
  assumes r: "scenario_runs ms t ele tf s" and ok: "\<not> sc_fault (snd (delayed_work (Suc (Suc k)) cl ele x s))"
  shows "timer_wakeup (Suc (Suc k)) cl obj (MAKE_POINTER_S (of_nat ele)) s =
    Some (MBLUE_OK, snd (delayed_work (Suc (Suc k)) cl ele x s))"
proof -
  have p: "POINTER_S (MAKE_POINTER_S (of_nat ele))" "unat (GET_POINTER (MAKE_POINTER_S (of_nat ele))) = ele"
    using element_pointer [of ele] r by (simp_all add: scenario_runs_def)
  have wf: "eq_wf s delayed_event_queue [ele] tf" and el: "ew_elems s ele = scenario_element t"
    using r by (simp_all add: scenario_runs_def)
  have "e_chain (ew_elems s ele) = [0, DELAYED_WORK, 0, 0]" "e_type (ew_elems s ele) \<noteq> 0"
    by (simp_all add: el scenario_element_def INIT_EVENT_ELEMENT_WITH_def MBLUE_EVENT_DELAYED_EVENT_def)
  note wk = scenario_wakeup [OF wf this, unfolded el]
  have "delayed_work (Suc (Suc k)) cl ele (unat (MAKE_INTEGER (errcode_word MBLUE_ERR_TIMEOUT))) s =
      delayed_work (Suc (Suc k)) cl ele x s" by (simp add: delayed_work_def)
  then show ?thesis
    using p scenario_runs_live [OF r] wk ok by (simp add: timer_wakeup_def Let_def)
qed

section \<open>The task of the scenario\<close>

definition scenario_task :: "addr \<Rightarrow> addr \<Rightarrow> addr list \<Rightarrow> addr list \<Rightarrow> system_world \<Rightarrow> bool" where
  "scenario_task ms task xs free w \<longleftrightarrow>
     task_has w task xs \<and> ms \<noteq> 0 \<and> s_context (bw_segs w ms) = task \<and>
     handler_array (bw_segs w ms) (type_value SIGNAL) = Default_signal_handler \<and>
     items_array (bw_segs w ms) (type_value SIGNAL) = Some scenario_signal_items \<and> pool_holds (bw_msgs w) free"

lemma scenario_task_updates [simp]:
  "scenario_task ms task xs free (w\<lparr>bw_heap := hp\<rparr>) \<longleftrightarrow> scenario_task ms task xs free w"
  "scenario_task ms task xs free (w\<lparr>bw_user := u\<rparr>) \<longleftrightarrow> scenario_task ms task xs free w"
  "scenario_task ms task xs free (link_msg ms' m w) \<longleftrightarrow> scenario_task ms task xs free w"
  "scenario_task ms task xs free (upd_msg m f w) \<longleftrightarrow> scenario_task ms task xs free w"
  by (cases "ms' = ms"; simp add: scenario_task_def task_has_def link_msg_def upd_seg_def upd_msg_def pool_holds_def)+

lemma scenario_task_msgs:
  "scenario_task ms task xs free w \<Longrightarrow> pool_holds s free' \<Longrightarrow> scenario_task ms task xs free' (w\<lparr>bw_msgs := s\<rparr>)"
  by (simp add: scenario_task_def task_has_def)

lemma scenario_task_queue:
  assumes "scenario_task ms task xs free w" and "queue_wf q" "queue_contents q = ys"
    "qcapacity q = qcapacity (task_queue w task)" "sem_value sem (length ys)"
  shows "scenario_task ms task ys free (set_queue task q sem w)"
  using assms set_queue_has(1) [of w task xs q ys sem] by (simp add: scenario_task_def)

lemma scenario_task_aside:
  assumes "scenario_task ms task xs free w" and "aside tb ts k w w'" and "task \<noteq> tb" "task \<noteq> ts"
    and "t_mq (bw_tasks w task) \<noteq> t_mq (bw_tasks w tb)" "t_mq (bw_tasks w task) \<noteq> t_mq (bw_tasks w ts)"
    and "pool_holds (bw_msgs w') free'"
  shows "scenario_task ms task xs free' w'"
  using assms(1,7) aside_has [OF assms(2-6), of xs] assms(2) by (simp add: scenario_task_def aside_def)

text \<open>The timer function posts the signal to the task of the scenario.\<close>

lemma timer_event_posted:
  assumes st: "scenario_task ms task [] (m # free) w" and r: "scenario_runs ms t ele tf (events_of w)"
  obtains w' seq where "default_timer_event fuel ele w = Some (Posted m, w')" "scenario_task ms task [m] free w'"
    "msg_at w' m = sent_message MESSAGE_SOURCE_TIMER seq SIGNAL (of_nat (major_value MBLUE_SYSTEM))
       (of_nat (timer_message_value MBLUE_TIMER_WAKEUP)) ms (MAKE_POINTER_S (of_nat ele)) 0"
    "bw_heap w' = bw_heap w" "bw_user w' = bw_user w" "bw_call_links w' = bw_call_links w" "aside task task 0 w w'"
proof -
  let ?msg = "\<lambda>seq. sent_message MESSAGE_SOURCE_TIMER seq SIGNAL (of_nat (major_value MBLUE_SYSTEM))
      (of_nat (timer_message_value MBLUE_TIMER_WAKEUP)) ms (MAKE_POINTER_S (of_nat ele)) 0"
  obtain seq w1 where q: "next_seq w = (seq, w1)" by fastforce
  then obtain x where w1: "w1 = w\<lparr>bw_msgs := (bw_msgs w)\<lparr>ms_sequence := x\<rparr>\<rparr>"
    by (auto simp: next_seq_def mblue_message_get_sequence_def Let_def split: if_splits)
  have p: "pool_holds (bw_msgs w1) (m # free)"
    using st unfolding w1 by (auto simp: scenario_task_def pool_holds_def split: if_splits)
  have st1: "scenario_task ms task [] (m # free) w1"
    using scenario_task_msgs [OF st, of "(bw_msgs w)\<lparr>ms_sequence := x\<rparr>"] p by (simp add: w1)
  obtain s where s: "mblue_message_alloc (bw_msgs w1) = (m, s)" "pool_holds s free"
    "ms_pool s = (ms_pool (bw_msgs w1))(m := zero_message)" using alloc_first [OF p] by blast
  have m0: "m \<noteq> 0" using mpool.holds_objs [OF p] msg_objs_facts by auto
  define w3 where "w3 = upd_msg m (\<lambda>_. ?msg seq) (w1\<lparr>bw_msgs := s\<rparr>)"
  have st3: "scenario_task ms task [] free w3"
    unfolding w3_def using scenario_task_msgs [OF st1 s(2)] by simp
  then have th: "task_has w3 task []" and room: "int (length ([] :: addr list)) < qcapacity (task_queue w3 task)"
    and ms: "ms \<noteq> 0" "s_context (bw_segs w3 ms) = task"
    by (simp_all add: scenario_task_def task_has_def)
  obtain qu sem where post: "call_nproc task m w3 = Some (MBLUE_OK, set_queue task qu sem w3)"
    "queue_wf qu" "queue_contents qu = [] @ [m]" "qcapacity qu = qcapacity (task_queue w3 task)" "sem_value sem (Suc (length ([] :: addr list)))"
    by (rule call_nproc_room [OF th room, of m, folded set_queue_def]) (rule that)
  note scenario_runs_live [OF r]
  moreover have "e_head (scenario_element t) = delayed_event_queue" "delayed_event_queue \<noteq> 0"
    by (simp_all add: scenario_element_def delayed_event_queue_def)
  moreover have "q_context (ew_queues (events_of w) delayed_event_queue) = ms" using r by (simp add: scenario_runs_def)
  moreover have "send_message fuel MESSAGE_SOURCE_TIMER seq SIGNAL (of_nat (major_value MBLUE_SYSTEM))
      (of_nat (timer_message_value MBLUE_TIMER_WAKEUP)) ms (MAKE_POINTER_S (of_nat ele)) 0 0 0 w1 =
      Some (Posted m, set_queue task qu sem w3)"
    using m0 ms post(1) s(1,3)
    by (simp add: send_message_def init_message_def world_alloc_def INIT_MESSAGE_WITH_def Let_def
        ipc_invoke_post_def ipc_route_def upd_msg_def w3_def sent_message_def zero_message_def)
  ultimately have "default_timer_event fuel ele w = Some (Posted m, set_queue task qu sem w3)"
    by (simp add: default_timer_event_def target_signal_def q)
  moreover have "scenario_task ms task [m] free (set_queue task qu sem w3)"
    using scenario_task_queue [OF st3, of qu "[m]" sem] post by simp
  moreover have "aside task task 0 w w3" by (rule aside_same) (simp_all add: w3_def w1 upd_msg_def)
  then have "aside task task 0 w (set_queue task qu sem w3)" by (rule aside_trans [OF _ aside_queue(1)]) simp
  moreover have "bw_heap (set_queue task qu sem w3) = bw_heap w" "bw_user (set_queue task qu sem w3) = bw_user w"
    "bw_call_links (set_queue task qu sem w3) = bw_call_links w"
    by (simp_all add: w3_def w1 upd_msg_def)
  moreover have "msg_at (set_queue task qu sem w3) m = ?msg seq" by (simp add: w3_def upd_msg_def)
  ultimately show thesis using that by blast
qed

text \<open>What every step keeps of the system beside the states of its tasks: the functions of the segments, and which thread
  runs which task. The heap may have grown by \<open>k\<close> units.\<close>

definition same_setup :: "nat \<Rightarrow> 'u bus_world \<Rightarrow> 'v bus_world \<Rightarrow> bool" where
  "same_setup k w w' \<longleftrightarrow> hfail (bw_heap w') = hfail (bw_heap w) \<and> hnext (bw_heap w') \<le> hnext (bw_heap w) + k \<and>
     (\<forall>s. items_array (bw_segs w' s) = items_array (bw_segs w s)) \<and>
     (\<forall>self. get_current_context self w' = get_current_context self w) \<and>
     (\<forall>t. t_mq (bw_tasks w' t) = t_mq (bw_tasks w t))"

lemma same_setup_trans:
  assumes "same_setup j w w'" and "same_setup k w' w''" and "j + k \<le> n"
  shows "same_setup n w w''"
  using assms by (simp add: same_setup_def)

lemma same_setup_aside: "aside tb ts k w w' \<Longrightarrow> same_setup k w w'"
  by (simp add: same_setup_def aside_def get_current_context_def)

lemma same_setup_fields:
  assumes "bw_segs w' = bw_segs w" "bw_tasks w' = bw_tasks w" "bw_tm w' = bw_tm w" "bw_heap w' = bw_heap w"
  shows "same_setup 0 w w'"
  using assms by (simp add: same_setup_def get_current_context_def)

text \<open>What a part of the program needs to log: its locals above the heap, and a file name that fits.\<close>

definition client_ok :: "client \<Rightarrow> int \<Rightarrow> bool" where
  "client_ok cl bound \<longleftrightarrow> locals_apart (cl_locals cl) bound \<and> 0 \<notin> set (cl_file cl) \<and> length (cl_file cl) < 2 ^ 31 \<and>
     short_name (cl_file cl)"

lemma client_ok_mono: "client_ok cl b \<Longrightarrow> 0 < a \<Longrightarrow> a \<le> b \<Longrightarrow> client_ok cl a"
  by (simp add: client_ok_def locals_apart_def)

abbreviation delayed_text :: "client \<Rightarrow> u8 list" where
  "delayed_text cl \<equiv> log_message (log_level_value LOG_INFO) (cl_file cl) (c_name ''delayed work'')"

lemma delayed_message:
  "(log_level_value LOG_INFO :: u32) < log_level_value LOG_LEVEL_MAX" "0 \<notin> set (c_name ''delayed work'')"
  by (simp_all add: c_name_def)

text \<open>The call is still on its way after the world has changed elsewhere.\<close>

lemma log_call_sent_cong:
  assumes "log_call_sent tc sb k level str m payload pn w" and "msg_at w' m = msg_at w m" "bw_heap w' = bw_heap w"
    "bw_notifiers w' = bw_notifiers w"
  shows "log_call_sent tc sb k level str m payload pn w'"
  using assms by (simp add: log_call_sent_def call_sent_def)

text \<open>The callback sends the line to the log service.\<close>

lemma delayed_work_sends:
  assumes st: "call_state task tb sb ts ss (major_value MBLUE_LOG_SERVICE) [] [] n (r # free) [] w"
    and self: "get_current_context (cl_self cl) w = task"
    and gr: "\<And>j. \<not> hfail (bw_heap w) j" "16 * hnext (bw_heap w) < 2 ^ 30"
    and cl: "client_ok cl (16 * int (hnext (bw_heap w)) + 144)"
  obtains w1 payload pn where
    "snd (delayed_work (Suc k) cl ele x (events_of w)) = (events_of w)\<lparr>ts_heap := bw_heap w1, sc_world := w1\<rparr>"
    "call_state task tb sb ts ss (major_value MBLUE_LOG_SERVICE) [r] [] n free [] w1"
    "log_call_sent task sb MBLUE_LOG_SERVICE_LOG (log_level_value LOG_INFO) (delayed_text cl) r payload pn w1"
    "(hblocks (bw_heap w1))(unat payload := None, pn := None) = hblocks (bw_heap w)"
    "bw_user w1 = bw_user w" "aside tb ts 160 w w1" "\<And>m'. m' \<noteq> r \<Longrightarrow> msg_at w1 m' = msg_at w m'"
proof -
  have c: "locals_apart (cl_locals cl) (16 * int (hnext (bw_heap w)) + 144)" "0 \<notin> set (cl_file cl)" "length (cl_file cl) < 2 ^ 31"
    "short_name (cl_file cl)" using cl by (simp_all add: client_ok_def)
  obtain w1 payload pn where 1:
    "log_service_write (Suc k) (cl_self cl) (cl_locals cl) (log_level_value LOG_INFO) (cl_file cl) (c_name ''delayed work'') w =
       Some (Posted r, w1)"
    "call_state task tb sb ts ss (major_value MBLUE_LOG_SERVICE) [r] [] n free [] w1"
    "log_call_sent task sb MBLUE_LOG_SERVICE_LOG (log_level_value LOG_INFO) (delayed_text cl) r payload pn w1"
    "(hblocks (bw_heap w1))(unat payload := None, pn := None) = hblocks (bw_heap w)"
    "bw_user w1 = bw_user w" "aside tb ts 160 w w1" "\<And>m'. m' \<noteq> r \<Longrightarrow> msg_at w1 m' = msg_at w m'"
    by (rule message_posted [OF st self gr c(1) delayed_message(1) c(2) delayed_message(2) c(3,4)]) (rule that)
  have "snd (delayed_work (Suc k) cl ele x (events_of w)) = (events_of w)\<lparr>ts_heap := bw_heap w1, sc_world := w1\<rparr>"
    using 1(1) by (simp add: delayed_work_def)
  then show thesis using that 1(2-7) by blast
qed

lemma truncate_events: "event_world.truncate ((events_of w)\<lparr>ts_heap := h, sc_world := v\<rparr>) = (sg_events (bw_user w))\<lparr>ts_heap := h\<rparr>"
  by (cases "sg_events (bw_user w)") (simp add: events_of_def event_world.extend_def event_world.truncate_def scenario.fields_def)

text \<open>The turn of the task wakes the event, which logs, and gives the message back.\<close>

lemma scenario_turn:
  assumes st: "scenario_task ms task [m] (r # free) w" and cs: "call_state task tb sb ts ss (major_value MBLUE_LOG_SERVICE) [] [] n (r # free) [] w"
    and runs: "scenario_runs ms t ele tf (events_of w)"
    and ne: "task \<noteq> tb" "task \<noteq> ts" "t_mq (bw_tasks w task) \<noteq> t_mq (bw_tasks w tb)" "t_mq (bw_tasks w task) \<noteq> t_mq (bw_tasks w ts)"
    and msg: "msg_at w m = sent_message MESSAGE_SOURCE_TIMER seq SIGNAL (of_nat (major_value MBLUE_SYSTEM))
       (of_nat (timer_message_value MBLUE_TIMER_WAKEUP)) ms (MAKE_POINTER_S (of_nat ele)) 0"
    and m: "m \<in> msg_objs" "m \<notin> set (r # free)" and self: "get_current_context (cl_self cl) w = task"
    and gr: "\<And>j. \<not> hfail (bw_heap w) j" "16 * hnext (bw_heap w) < 2 ^ 30"
    and cl: "client_ok cl (16 * int (hnext (bw_heap w)) + 144)"
  obtains w' payload pn h where "template_proc_turn (Suc (Suc k)) (system_app (Suc (Suc k)) cl now stk) i task w = Some (Returns w')"
    "scenario_task ms task [] (free @ [m]) w'" "call_state task tb sb ts ss (major_value MBLUE_LOG_SERVICE) [r] [] n (free @ [m]) [] w'"
    "log_call_sent task sb MBLUE_LOG_SERVICE_LOG (log_level_value LOG_INFO) (delayed_text cl) r payload pn w'"
    "(hblocks (bw_heap w'))(unat payload := None, pn := None) = hblocks (bw_heap w)"
    "bw_user w' = (bw_user w)\<lparr>sg_events := (sg_events (bw_user w))\<lparr>ts_heap := h\<rparr>\<rparr>" "same_setup 160 w w'"
proof -
  let ?A = "system_app (Suc (Suc k)) cl now stk"
  have th: "task_has w task [m]" and ms: "ms \<noteq> 0"
    and h: "handler_array (bw_segs w ms) (type_value SIGNAL) = Default_signal_handler"
    using st by (simp_all add: scenario_task_def)
  have m0: "m \<noteq> 0" using m(1) msg_objs_facts by auto
  have f: "m_dst (msg_at w m) = ms" "smart_payload (msg_at w m) = MAKE_POINTER_S (of_nat ele)" "m_ref (msg_at w m) = 0"
    by (simp_all add: msg sent_message_def)
  have c: "unat (GET_TYPE (m_code (msg_at w m))) = type_value SIGNAL" "GET_MINOR (m_code (msg_at w m)) = 1"
    using sent_message_fields(1,3) [of "of_nat (major_value MBLUE_SYSTEM)"]
    by (simp_all add: msg SEGMENT_MAJOR_MAX_def)
  obtain q sem where tt: "template_proc_turn (Suc (Suc k)) ?A i task w = map_option Returns (call_handler (Suc (Suc k)) ?A
      (mblue_task.t_obj (bw_tasks w task)) (handler_array (bw_segs w ms) (type_value SIGNAL)) ms m (set_queue task q sem w))"
    "queue_wf q" "queue_contents q = []" "qcapacity q = qcapacity (task_queue w task)" "sem_value sem (length ([] :: addr list))"
    by (rule template_proc_turn_first [OF th m0 f(1) ms c(1), of "Suc (Suc k)" ?A i, folded set_queue_def]) (rule that)
  define w1 where "w1 = link_msg ms m (set_queue task q sem w)"
  have st1: "scenario_task ms task [] (r # free) w1"
    unfolding w1_def using scenario_task_queue [OF st tt(2-4)] tt(5) by simp
  have w1: "bw_heap w1 = bw_heap w" "bw_user w1 = bw_user w" "bw_msgs w1 = bw_msgs w" "bw_call_links w1 = bw_call_links w"
    by (simp_all add: w1_def link_msg_def upd_seg_def)
  have "aside task task 0 (set_queue task q sem w) w1" by (simp add: aside_def w1_def link_msg_def upd_seg_def)
  then have as1: "aside task task 0 w w1" by (rule aside_trans [OF aside_queue(1)]) simp
  have pl: "pool_holds (bw_msgs w1) (r # free)" "heap_wf (bw_heap w1)" using cs by (simp_all add: w1 call_state_def)
  have cs1: "call_state task tb sb ts ss (major_value MBLUE_LOG_SERVICE) [] [] n (r # free) [] w1"
    by (rule call_state_aside [OF cs as1 ne pl w1(4)])
  have self1: "get_current_context (cl_self cl) w1 = task" using self same_setup_aside [OF as1] by (simp add: same_setup_def)
  have b1: "\<not> hfail (bw_heap w1) j" "16 * hnext (bw_heap w1) < 2 ^ 30" "client_ok cl (16 * int (hnext (bw_heap w1)) + 144)" for j
    using gr cl by (simp_all add: w1)
  obtain wl payload pn where l:
    "snd (delayed_work (Suc (Suc k)) cl ele 0 (events_of w1)) = (events_of w1)\<lparr>ts_heap := bw_heap wl, sc_world := wl\<rparr>"
    "call_state task tb sb ts ss (major_value MBLUE_LOG_SERVICE) [r] [] n free [] wl"
    "log_call_sent task sb MBLUE_LOG_SERVICE_LOG (log_level_value LOG_INFO) (delayed_text cl) r payload pn wl"
    "(hblocks (bw_heap wl))(unat payload := None, pn := None) = hblocks (bw_heap w1)"
    "bw_user wl = bw_user w1" "aside tb ts 160 w1 wl" "\<And>m'. m' \<noteq> r \<Longrightarrow> msg_at wl m' = msg_at w1 m'"
    by (rule delayed_work_sends [OF cs1 self1 b1, of "Suc k" ele 0]) (rule that)
  let ?s = "(events_of w1)\<lparr>ts_heap := bw_heap wl, sc_world := wl\<rparr>"
  define w2 where "w2 = put_events ?s"
  have w2: "w2 = wl\<lparr>bw_heap := bw_heap wl, bw_user := (bw_user wl)\<lparr>sg_events := (sg_events (bw_user w1))\<lparr>ts_heap := bw_heap wl\<rparr>\<rparr>\<rparr>"
    by (simp add: w2_def put_events_def truncate_events Let_def)
  have st2: "scenario_task ms task [] free wl"
    using l(2) as1 ne by (intro scenario_task_aside [OF st1 l(6) ne(1,2)]) (simp_all add: call_state_def aside_def)
  have items: "items_lookup ms (type_value SIGNAL) 1 w1 = Some (Some 1)"
    using st1 by (simp add: scenario_task_def items_lookup_def scenario_signal_items_def END_ITEM_ID_def)
  have "same_events (events_of w) (events_of w1)" using pl(2) by (simp add: same_events_def w1)
  then have r1: "scenario_runs ms t ele tf (events_of w1)" using runs by (rule scenario_runs_same)
  have "\<not> sc_fault (snd (delayed_work (Suc (Suc k)) cl ele 0 (events_of w1)))" unfolding l(1) by simp
  note wk = scenario_runs_wakeup [OF r1 this, of ms, unfolded l(1)]
  have sig: "app_signal ?A 1 ms (MAKE_POINTER_S (of_nat ele)) w1 = Some (errcode_value MBLUE_OK, w2)"
    using wk by (simp add: system_app_def log_app_def scenario_app_def w2_def)
  have mr: "m \<noteq> r" using m(2) by simp
  have m2: "msg_at w2 m = msg_at w m" using l(7) [OF mr] by (simp add: w2 w1)
  have np: "\<not> PB_PAYLOAD (MAKE_POINTER_S (of_nat ele))"
    using element_pointer(3) [of ele] runs by (simp add: scenario_runs_def)
  let ?w3 = "world_release m w2"
  have "default_signal_handler ?A 0 ms m (set_queue task q sem w) = Some (errcode_value MBLUE_OK, ?w3)"
    using items sig f(2) c(2) np
    by (simp add: default_signal_handler_def w1_def [symmetric] w1 m2 free_payload_def)
  then have "template_proc_turn (Suc (Suc k)) ?A i task w = Some (Returns ?w3)"
    unfolding tt(1) h by (simp add: call_handler_def)
  moreover have p2: "pool_holds (bw_msgs w2) free" using l(2) by (simp add: w2 call_state_def)
  have "unat (m_ref (msg_at w2 m)) \<le> 1" "m \<notin> set free" using f(3) m2 m(2) by simp_all
  note rel = release_last [OF p2 m(1) this(2,1)]
  have cs2: "call_state task tb sb ts ss (major_value MBLUE_LOG_SERVICE) [r] [] n free [] w2"
    using l(2) unfolding w2 by (intro call_state_update(6) call_state_update(2)) (simp_all add: call_state_def)
  then have "call_state task tb sb ts ss (major_value MBLUE_LOG_SERVICE) [r] [] n (free @ [m]) [] ?w3"
    unfolding world_release_def using rel(1) by (intro call_state_update(1))
  moreover have "scenario_task ms task [] free w2" using st2 unfolding w2 by simp
  then have "scenario_task ms task [] (free @ [m]) ?w3"
    unfolding world_release_def using rel(1) by (rule scenario_task_msgs)
  moreover have "log_call_sent task sb MBLUE_LOG_SERVICE_LOG (log_level_value LOG_INFO) (delayed_text cl) r payload pn ?w3"
    using rel(3) mr by (intro log_call_sent_cong [OF l(3)]) (simp_all add: world_release_def w2)
  moreover have "(hblocks (bw_heap ?w3))(unat payload := None, pn := None) = hblocks (bw_heap w)"
    using l(4) by (simp add: world_release_def w2 w1)
  moreover have "bw_user ?w3 = (bw_user w)\<lparr>sg_events := (sg_events (bw_user w))\<lparr>ts_heap := bw_heap wl\<rparr>\<rparr>"
    using l(5) by (simp add: world_release_def w2 w1)
  moreover have "same_setup 0 wl ?w3" by (rule same_setup_fields) (simp_all add: world_release_def w2)
  then have "same_setup 160 w1 ?w3" by (rule same_setup_trans [OF same_setup_aside [OF l(6)]]) simp
  then have "same_setup 160 w ?w3" by (rule same_setup_trans [OF same_setup_aside [OF as1]]) simp
  ultimately show thesis using that by blast
qed

text \<open>The system between two seconds: nothing is on its way.\<close>

definition scenario_up ::
    "addr \<Rightarrow> addr \<Rightarrow> addr \<Rightarrow> addr \<Rightarrow> addr \<Rightarrow> addr \<Rightarrow> addr \<Rightarrow> addr \<Rightarrow> addr list \<Rightarrow> nat \<Rightarrow> client \<Rightarrow> addr list \<Rightarrow> system_world \<Rightarrow> bool" where
  "scenario_up ms task tb sb tg ls t ele tf n cl free w \<longleftrightarrow>
     call_state task tb sb tg ls (major_value MBLUE_LOG_SERVICE) [] [] n free [] w \<and> scenario_task ms task [] free w \<and>
     scenario_runs ms t ele tf (events_of w) \<and> task \<noteq> tb \<and> task \<noteq> tg \<and>
     t_mq (bw_tasks w task) \<noteq> t_mq (bw_tasks w tb) \<and> t_mq (bw_tasks w task) \<noteq> t_mq (bw_tasks w tg) \<and>
     get_current_context (cl_self cl) w = task \<and> items_array (bw_segs w ls) (type_value SYNC_CALL) = Some log_ipc_items \<and>
     lg_log (bw_user w) \<and> lm_stream (lg_manage (bw_user w)) \<and> log_level_value LOG_INFO \<le> lm_level (lg_manage (bw_user w)) \<and>
     (\<forall>j. \<not> hfail (bw_heap w) j)"

text \<open>The first half of a second, up to the turn of the scenario.\<close>

lemma timer_signal_posted:
  assumes up: "scenario_up ms task tb sb tg ls t ele tf n cl (m # free) w"
  obtains w2 seq where "timer_fires fuel t w = Some (Posted m, w2)" "scenario_task ms task [m] free w2"
    "call_state task tb sb tg ls (major_value MBLUE_LOG_SERVICE) [] [] n free [] w2" "scenario_runs ms t ele tf (events_of w2)"
    "msg_at w2 m = sent_message MESSAGE_SOURCE_TIMER seq SIGNAL (of_nat (major_value MBLUE_SYSTEM))
       (of_nat (timer_message_value MBLUE_TIMER_WAKEUP)) ms (MAKE_POINTER_S (of_nat ele)) 0"
    "bw_heap w2 = bw_heap w" "log_globals.truncate (bw_user w2) = log_globals.truncate (bw_user w)" "same_setup 0 w w2"
proof -
  have st: "scenario_task ms task [] (m # free) w" and runs: "scenario_runs ms t ele tf (events_of w)"
    and cs: "call_state task tb sb tg ls (major_value MBLUE_LOG_SERVICE) [] [] n (m # free) [] w"
    and ne: "task \<noteq> tb" "task \<noteq> tg" "t_mq (bw_tasks w task) \<noteq> t_mq (bw_tasks w tb)" "t_mq (bw_tasks w task) \<noteq> t_mq (bw_tasks w tg)"
    using up by (simp_all add: scenario_up_def)
  define s1 where "s1 = timer_expire (kernel_timer t (events_of w)) (events_of w)"
  define w1 where "w1 = put_events s1"
  have s1: "sc_world s1 = w" "ts_heap s1 = bw_heap w" by (simp_all add: s1_def)
  have w1: "w1 = w\<lparr>bw_heap := bw_heap w, bw_user := (bw_user w)\<lparr>sg_events := event_world.truncate s1\<rparr>\<rparr>"
    by (simp add: w1_def put_events_def s1 Let_def)
  have hw: "heap_wf (bw_heap w)" using cs by (simp add: call_state_def)
  have "same_events s1 (events_of w1)" using hw by (simp add: same_events_def w1 s1)
  then have r1: "scenario_runs ms t ele tf (events_of w1)"
    using scenario_runs_expire [OF runs] unfolding s1_def by (rule scenario_runs_same)
  have st1: "scenario_task ms task [] (m # free) w1" using st by (simp add: w1)
  have cs1: "call_state task tb sb tg ls (major_value MBLUE_LOG_SERVICE) [] [] n (m # free) [] w1"
    unfolding w1 by (intro call_state_update(6) call_state_update(2) cs hw)
  obtain w2 seq where w2: "default_timer_event fuel ele w1 = Some (Posted m, w2)" "scenario_task ms task [m] free w2"
    "msg_at w2 m = sent_message MESSAGE_SOURCE_TIMER seq SIGNAL (of_nat (major_value MBLUE_SYSTEM))
       (of_nat (timer_message_value MBLUE_TIMER_WAKEUP)) ms (MAKE_POINTER_S (of_nat ele)) 0"
    "bw_heap w2 = bw_heap w1" "bw_user w2 = bw_user w1" "bw_call_links w2 = bw_call_links w1" "aside task task 0 w1 w2"
    by (rule timer_event_posted [OF st1 r1])
  have "pool_holds (bw_msgs w2) free" "heap_wf (bw_heap w2)" using w2(2) hw by (simp_all add: scenario_task_def w2(4) w1)
  then have "call_state task tb sb tg ls (major_value MBLUE_LOG_SERVICE) [] [] n free [] w2"
    using ne w2(6) by (intro call_state_aside [OF cs1 w2(7)]) (simp_all add: w1)
  moreover have "same_events (events_of w1) (events_of w2)" using hw by (simp add: same_events_def w2(4,5)) (simp add: w1)
  then have "scenario_runs ms t ele tf (events_of w2)" using r1 by (rule scenario_runs_same)
  moreover have "timer_notify t (events_of w1) = Some (Some (DEFAULT_TIMER_EVENT, ele))" using r1 by (simp add: scenario_runs_def)
  then have "timer_fires fuel t w = Some (Posted m, w2)"
    using w2(1) by (simp add: timer_fires_def s1_def [symmetric] w1_def [symmetric])
  moreover have "same_setup 0 w w1" by (rule same_setup_fields) (simp_all add: w1)
  then have "same_setup 0 w w2" by (rule same_setup_trans [OF _ same_setup_aside [OF w2(7)]]) simp
  moreover have "log_globals.truncate (bw_user w2) = log_globals.truncate (bw_user w)"
    by (simp add: w2(5) w1 log_globals.truncate_def)
  ultimately show thesis using that w2(2-4) by (simp add: w1)
qed

lemma scenario_second_step:
  assumes up: "scenario_up ms task tb sb tg ls t ele tf n cl (m # r # f # free) w"
    and b: "16 * hnext (bw_heap w) < 2 ^ 30" "client_ok cl (16 * int (hnext (bw_heap w)) + 144)"
    and fr: "frame_ok (st_frame stk)" and now: "printable_date now"
  obtains w' where "scenario_second (Suc (Suc k)) cl stk i t (task, tb, tg) now w = Some (Returns w')"
    "scenario_up ms task tb sb tg ls t ele tf n cl (free @ [m, r, f]) w'" "hblocks (bw_heap w') = hblocks (bw_heap w)"
    "hnext (bw_heap w') \<le> hnext (bw_heap w) + 163"
    "lm_out (lg_manage (bw_user w')) = lm_out (lg_manage (bw_user w)) @ [delayed_line cl now]"
proof -
  let ?A = "system_app (Suc (Suc k)) cl now stk"
  have cs: "call_state task tb sb tg ls (major_value MBLUE_LOG_SERVICE) [] [] n (m # r # f # free) [] w"
    and ne: "task \<noteq> tb" "task \<noteq> tg" "t_mq (bw_tasks w task) \<noteq> t_mq (bw_tasks w tb)" "t_mq (bw_tasks w task) \<noteq> t_mq (bw_tasks w tg)"
    and self: "get_current_context (cl_self cl) w = task"
    and it: "items_array (bw_segs w ls) (type_value SYNC_CALL) = Some log_ipc_items"
    and lg: "lg_log (bw_user w)" "lm_stream (lg_manage (bw_user w))" "log_level_value LOG_INFO \<le> lm_level (lg_manage (bw_user w))"
    and gr: "\<And>j. \<not> hfail (bw_heap w) j"
    using up by (simp_all add: scenario_up_def)
  have "pool_holds (bw_msgs w) (m # r # f # free)" using cs by (simp add: call_state_def)
  then have o: "m \<in> msg_objs" "m \<notin> set (r # f # free)" "r \<in> msg_objs" "r \<notin> set (f # free @ [m])"
    using mpool.holds_objs [of "bw_msgs w" "m # r # f # free"] by auto
  obtain w2 seq where 2: "timer_fires (Suc (Suc k)) t w = Some (Posted m, w2)" "scenario_task ms task [m] (r # f # free) w2"
    "call_state task tb sb tg ls (major_value MBLUE_LOG_SERVICE) [] [] n (r # f # free) [] w2" "scenario_runs ms t ele tf (events_of w2)"
    "msg_at w2 m = sent_message MESSAGE_SOURCE_TIMER seq SIGNAL (of_nat (major_value MBLUE_SYSTEM))
       (of_nat (timer_message_value MBLUE_TIMER_WAKEUP)) ms (MAKE_POINTER_S (of_nat ele)) 0"
    "bw_heap w2 = bw_heap w" "log_globals.truncate (bw_user w2) = log_globals.truncate (bw_user w)" "same_setup 0 w w2"
    by (rule timer_signal_posted [OF up])
  have ne2: "t_mq (bw_tasks w2 task) \<noteq> t_mq (bw_tasks w2 tb)" "t_mq (bw_tasks w2 task) \<noteq> t_mq (bw_tasks w2 tg)"
    and self2: "get_current_context (cl_self cl) w2 = task"
    using 2(8) ne self by (simp_all add: same_setup_def)
  have b2: "\<not> hfail (bw_heap w2) j" "16 * hnext (bw_heap w2) < 2 ^ 30" "client_ok cl (16 * int (hnext (bw_heap w2)) + 144)" for j
    using gr b by (simp_all add: 2(6))
  obtain w3 payload pn h where 3: "template_proc_turn (Suc (Suc k)) ?A i task w2 = Some (Returns w3)"
    "scenario_task ms task [] ((f # free) @ [m]) w3"
    "call_state task tb sb tg ls (major_value MBLUE_LOG_SERVICE) [r] [] n ((f # free) @ [m]) [] w3"
    "log_call_sent task sb MBLUE_LOG_SERVICE_LOG (log_level_value LOG_INFO) (delayed_text cl) r payload pn w3"
    "(hblocks (bw_heap w3))(unat payload := None, pn := None) = hblocks (bw_heap w2)"
    "bw_user w3 = (bw_user w2)\<lparr>sg_events := (sg_events (bw_user w2))\<lparr>ts_heap := h\<rparr>\<rparr>" "same_setup 160 w2 w3"
    by (rule scenario_turn [OF 2(2,3,4) ne(1,2) ne2 2(5) o(1,2) self2 b2, of k now stk i])
  have s3: "same_setup 160 w w3" by (rule same_setup_trans [OF 2(8) 3(7)]) simp
  have tr: "lg_log (bw_user w2) = lg_log (bw_user w)" "lg_manage (bw_user w2) = lg_manage (bw_user w)"
    using 2(7) by (simp_all add: log_globals.truncate_def)
  have f3: "\<not> hfail (bw_heap w3) j" "items_array (bw_segs w3 ls) (type_value SYNC_CALL) = Some log_ipc_items"
    "lg_log (bw_user w3)" "lm_stream (lg_manage (bw_user w3))" for j
    using s3 gr it lg by (simp_all add: same_setup_def 3(6) tr)
  have z: "0 \<notin> set (delayed_text cl)"
    using b(2) delayed_message by (intro log_message_zero_free) (simp_all add: client_ok_def)
  have cs3: "call_state task tb sb tg ls (major_value MBLUE_LOG_SERVICE) [r] [] n (f # free @ [m]) [] w3" using 3(3) by simp
  obtain w4 w5 w6 where 6: "template_proc_turn (Suc (Suc k)) ?A i tb w3 = Some (Returns w4)"
    "template_proc_turn (Suc (Suc k)) ?A i tg w4 = Some (Returns w5)" "template_proc_turn (Suc (Suc k)) ?A i tb w5 = Some (Returns w6)"
    "call_state task tb sb tg ls (major_value MBLUE_LOG_SERVICE) [] [] n ((free @ [m]) @ [r, f]) [] w6"
    "hblocks (bw_heap w6) = (hblocks (bw_heap w3))(unat payload := None, pn := None)"
    "logged now (log_level_value LOG_INFO) (delayed_text cl) (bw_user w3) (bw_user w6)" "aside tb tg 3 w3 w6"
    using message_answered [OF cs3 3(4) o(3,4) f3(1) fr f3(2-4) now z, of "Suc k" "scenario_app (Suc (Suc k)) cl stk" i,
      folded system_app_def]
    by (elim exE conjE) (rule that)
  have run: "scenario_second (Suc (Suc k)) cl stk i t (task, tb, tg) now w = Some (Returns w6)"
    using 2(1) 3(1) 6(1-3) by (simp add: scenario_second_def)
  have s6: "same_setup 163 w w6" by (rule same_setup_trans [OF s3 same_setup_aside [OF 6(7)]]) simp
  obtain cache where pr: "bw_user w6 = (bw_user w3)\<lparr>lg_manage := (lg_manage (bw_user w3))\<lparr>lm_cache := cache,
       lm_out := lm_out (lg_manage (bw_user w3)) @ [delayed_line cl now]\<rparr>\<rparr>"
    using 6(6) lg(3) by (auto simp: logged_def printed_def delayed_line_def 3(6) tr)
  have hb: "hblocks (bw_heap w6) = hblocks (bw_heap w)" using 6(5) 3(5) 2(6) by simp
  have "heap_wf (bw_heap w6)" "pool_holds (bw_msgs w6) (free @ [m, r, f])" using 6(4) by (simp_all add: call_state_def)
  moreover have "t_mq (bw_tasks w3 task) \<noteq> t_mq (bw_tasks w3 tb)" "t_mq (bw_tasks w3 task) \<noteq> t_mq (bw_tasks w3 tg)"
    using s3 ne by (simp_all add: same_setup_def)
  ultimately have st6: "scenario_task ms task [] (free @ [m, r, f]) w6" by (intro scenario_task_aside [OF 3(2) 6(7) ne(1,2)])
  have "same_events (events_of w2) (events_of w6)"
    using \<open>heap_wf (bw_heap w6)\<close> hb by (simp add: same_events_def pr 3(6) 2(6))
  then have r6: "scenario_runs ms t ele tf (events_of w6)" using 2(4) by (rule scenario_runs_same)
  have "scenario_up ms task tb sb tg ls t ele tf n cl (free @ [m, r, f]) w6"
    unfolding scenario_up_def using 6(4) st6 r6 s6 ne self it lg gr by (simp add: same_setup_def pr 3(6) tr)
  moreover have "hnext (bw_heap w6) \<le> hnext (bw_heap w) + 163" using s6 by (simp add: same_setup_def)
  moreover have "lm_out (lg_manage (bw_user w6)) = lm_out (lg_manage (bw_user w)) @ [delayed_line cl now]"
    by (simp add: pr 3(6) tr)
  ultimately show thesis using that run hb by blast
qed

text \<open>The allocator of the model never uses an address again: \<open>seconds_fit\<close> says that the addresses last.\<close>

definition seconds_fit :: "client \<Rightarrow> nat \<Rightarrow> nat \<Rightarrow> bool" where
  "seconds_fit cl a k \<longleftrightarrow> 16 * (a + 163 * k) < 2 ^ 30 \<and> client_ok cl (16 * int (a + 163 * k) + 144)"

lemma seconds_fit_mono: "seconds_fit cl a k \<Longrightarrow> b + 163 * j \<le> a + 163 * k \<Longrightarrow> seconds_fit cl b j"
  using client_ok_mono [of cl "16 * int (a + 163 * k) + 144" "16 * int (b + 163 * j) + 144"] by (auto simp: seconds_fit_def)

lemma scenario_seconds_steps:
  assumes "scenario_up ms task tb sb tg ls t ele tf n cl free w" and "3 \<le> length free"
    and "seconds_fit cl (hnext (bw_heap w)) (length nows)" and "frame_ok (st_frame stk)" and "\<forall>now\<in>set nows. printable_date now"
  shows "\<exists>w' free'. scenario_seconds (Suc (Suc k)) cl stk i t (task, tb, tg) nows w = Some (Returns w') \<and>
    scenario_up ms task tb sb tg ls t ele tf n cl free' w' \<and> mset free' = mset free \<and>
    hblocks (bw_heap w') = hblocks (bw_heap w) \<and>
    lm_out (lg_manage (bw_user w')) = lm_out (lg_manage (bw_user w)) @ map (delayed_line cl) nows"
  using assms
proof (induction nows arbitrary: w free)
  case Nil
  then show ?case by auto
next
  case (Cons now nows)
  obtain m r f rest where free: "free = m # r # f # rest" using Cons.prems(2)
    by (metis Suc_le_length_iff numeral_3_eq_3)
  have b: "16 * hnext (bw_heap w) < 2 ^ 30" "client_ok cl (16 * int (hnext (bw_heap w)) + 144)"
    using seconds_fit_mono [OF Cons.prems(3), of "hnext (bw_heap w)" 0] by (simp_all add: seconds_fit_def)
  have now: "printable_date now" using Cons.prems(5) by simp
  obtain w1 where w1: "scenario_second (Suc (Suc k)) cl stk i t (task, tb, tg) now w = Some (Returns w1)"
    "scenario_up ms task tb sb tg ls t ele tf n cl (rest @ [m, r, f]) w1" "hblocks (bw_heap w1) = hblocks (bw_heap w)"
    "hnext (bw_heap w1) \<le> hnext (bw_heap w) + 163"
    "lm_out (lg_manage (bw_user w1)) = lm_out (lg_manage (bw_user w)) @ [delayed_line cl now]"
    by (rule scenario_second_step [OF Cons.prems(1) [unfolded free] b Cons.prems(4) now])
  have "seconds_fit cl (hnext (bw_heap w1)) (length nows)" using w1(4) by (intro seconds_fit_mono [OF Cons.prems(3)]) simp
  from Cons.IH [OF w1(2) _ this Cons.prems(4)] Cons.prems(5) obtain w' free' where
    "scenario_seconds (Suc (Suc k)) cl stk i t (task, tb, tg) nows w1 = Some (Returns w')"
    "scenario_up ms task tb sb tg ls t ele tf n cl free' w'" "mset free' = mset (rest @ [m, r, f])"
    "hblocks (bw_heap w') = hblocks (bw_heap w1)"
    "lm_out (lg_manage (bw_user w')) = lm_out (lg_manage (bw_user w1)) @ map (delayed_line cl) nows" by auto
  then show ?case using w1(1,3,5) by (intro exI [of _ w'] exI [of _ free']) (simp add: free)
qed

lemma scenario_runs_alive:
  assumes "scenario_runs ms t ele tf s"
  shows "mblue_timer_alive t s = Some True"
proof -
  have n: "timer_notify t s = Some (Some (DEFAULT_TIMER_EVENT, ele))" and k: "kernel_setting t s = Some (period_spec 1000 True)"
    using assms by (simp_all add: scenario_runs_def)
  let ?pt = "mblue_timer.t_obj (ts_pool s t)"
  have "?pt \<noteq> 0" "live_posix ?pt s = Some (ts_posix s ?pt)"
    using n by (auto simp: timer_notify_def live_posix_def split: if_splits)
  then show ?thesis
    using k period_spec_armed [of 1000 True]
    by (simp add: mblue_timer_alive_def platform_timer_alive_def timer_gettime_def kernel_setting_def kernel_timer_def Let_def)
qed

text \<open>A signal of the timer that is still queued when its event is cancelled carries a pointer to a released element:
  the handler reads the type of the event from it.\<close>

lemma stale_timer_signal:
  assumes r: "scenario_runs ms t ele tf s"
  shows "\<exists>s'. cancel_delayed_event (Suc (Suc fuel)) delayed_event_queue MBLUE_EVENT_DELAYED_EVENT s = Some (MBLUE_OK, s') \<and>
    timer_wakeup fuel' cl obj (MAKE_POINTER_S (of_nat ele)) s' = None"
proof -
  let ?q = delayed_event_queue and ?ty = MBLUE_EVENT_DELAYED_EVENT
  have wf: "eq_wf s ?q ([] @ ele # []) tf" and el: "e_type (ew_elems s ele) = ?ty"
    using r by (simp_all add: scenario_runs_def scenario_element_def INIT_EVENT_ELEMENT_WITH_def)
  have bm: "event_bm (ew_queues s ?q) = ?ty" "?ty AND ?ty \<noteq> 0"
    using wf el by (simp_all add: eq_wf_def types_def or_list_def MBLUE_EVENT_DELAYED_EVENT_def)
  have st: "eq_struct s ?q [ele] tf" using wf by (simp add: eq_wf_def)
  note d = eq_struct_dlist [OF st]
  obtain s' tf' where s': "free_event_element ele (set_bm ?q (event_bm (ew_queues s ?q) AND NOT (e_type (ew_elems s ele))) s) = Some s'"
    "hblocks (ts_heap s') = hblocks (ts_heap s) |` (- set (owned s ele))"
    by (rule remove_element [OF wf])
  have nx: "lnext (ew_links s) (queue_list ?q) = ele_node ele" "lnext (ew_links s) (ele_node ele) = queue_list ?q"
    "ele_node ele \<noteq> queue_list ?q"
    using dlist_ele_first [OF d] dlist_ele_next [of "ew_links s" ?q "[]" ele "[]"] d by (simp_all add: first_node_def)
  have "delete_loop (Suc (Suc fuel)) ?q ?ty (ele_node ele) (queue_list ?q) MBLUE_ERR_UNKNOWN s = Some (MBLUE_OK, s')"
    using nx(3) scenario_runs_live [OF r] el s'(1) by (simp add: scenario_element_def INIT_EVENT_ELEMENT_WITH_def)
  then have "cancel_delayed_event (Suc (Suc fuel)) ?q ?ty s = Some (MBLUE_OK, s')"
    using bm nx by (simp add: cancel_delayed_event_def event_queue_get_pending_event_def event_queue_delete_def Let_def)
  moreover have "hblocks (ts_heap s') ele = None" by (simp add: s'(2) owned_def Let_def)
  then have "timer_wakeup fuel' cl obj (MAKE_POINTER_S (of_nat ele)) s' = None"
    using element_pointer(1,2) [of ele] r by (simp add: timer_wakeup_def Let_def live_ele_def scenario_runs_def)
  ultimately show ?thesis by blast
qed

text \<open>The launch of the scenario brings the system into this state.\<close>

lemma scenario_launches:
  assumes cs: "call_state task tb sb tg ls (major_value MBLUE_LOG_SERVICE) [] [] n free [] w" and th: "task_has w task []"
    and ne: "task \<notin> {tb, tg}" "t_mq (bw_tasks w task) \<notin> {t_mq (bw_tasks w tb), t_mq (bw_tasks w tg)}"
    and self: "get_current_context (cl_self cl) w = task" and ms: "ms \<notin> {0, sb, ls}"
    and it: "items_array (bw_segs w ls) (type_value SYNC_CALL) = Some log_ipc_items"
    and lg: "lg_log (bw_user w)" "lm_stream (lg_manage (bw_user w))" "log_level_value LOG_INFO \<le> lm_level (lg_manage (bw_user w))"
    and h: "timers_hold (events_of w) (t # tf)" "grants (events_of w)" "16 * Suc (hnext (bw_heap w)) < 2 ^ 32"
  obtains w1 where "segment_launch (system_app fuel cl now stk) ms
      (mblue_segment_set_context ms task (snd (scenario_init ms w))) = Some w1"
    "scenario_up ms task tb sb tg ls t (16 * Suc (hnext (bw_heap w))) tf n cl free w1" "hnext (bw_heap w1) = hnext (bw_heap w) + 8"
    "lg_manage (bw_user w1) = lg_manage (bw_user w)"
proof -
  define w0 where "w0 = mblue_segment_set_context ms task (snd (scenario_init ms w))"
  have w0: "w0 = w\<lparr>bw_segs := (bw_segs w)(ms := bw_segs w0 ms),
      bw_seg_links := set_next (list_node_of ms) 0 (set_prev (list_node_of ms) 0 (bw_seg_links w))\<rparr>" "on_launch (bw_segs w0 ms) = App_launch 2"
    "s_context (bw_segs w0 ms) = task" "handler_array (bw_segs w0 ms) = default_handlers"
    "items_array (bw_segs w0 ms) (type_value SIGNAL) = Some scenario_signal_items"
    by (simp_all add: w0_def mblue_segment_set_context_def scenario_init_def init_segment_def upd_seg_def Let_def
        default_handlers_def fun_eq_iff)
  have f: "bw_heap w0 = bw_heap w" "bw_user w0 = bw_user w" "bw_tasks w0 = bw_tasks w" "bw_queues w0 = bw_queues w"
    "bw_msgs w0 = bw_msgs w" "bw_tm w0 = bw_tm w"
    by (subst w0(1), simp)+
  have sg: "bw_segs w0 s = bw_segs w s" if "s \<noteq> ms" for s using that by (subst w0(1)) simp
  have cs0: "call_state task tb sb tg ls (major_value MBLUE_LOG_SERVICE) [] [] n free [] w0"
    using cs ms by (subst w0(1)) (auto simp: call_state_def call_config_def task_has_def)
  have st0: "scenario_task ms task [] free w0"
    using th ms cs0 w0(3-5) by (simp add: scenario_task_def task_has_def f default_handlers_def call_state_def)
  obtain s where s: "scenario_launch fuel cl ms (events_of w0) = Some s"
    "scenario_runs ms t (16 * Suc (hnext (ts_heap (events_of w0)))) tf s" "sc_world s = sc_world (events_of w0)"
    "hfail (ts_heap s) = hfail (ts_heap (events_of w0))" "hnext (ts_heap s) = hnext (ts_heap (events_of w0)) + 8"
  proof (rule scenario_launched [of "events_of w0" t tf fuel cl ms])
    show "heap_wf (ts_heap (events_of w0))" using cs0 by (simp add: call_state_def)
    show "timers_hold (events_of w0) (t # tf)" "grants (events_of w0)" using h(1,2) by (simp_all add: timers_hold_def grants_def f cong: if_cong)
    show "16 * Suc (hnext (ts_heap (events_of w0))) < 2 ^ 32" using h(3) by (simp add: f)
  qed (rule that)
  define w1 where "w1 = put_events s"
  have w1: "w1 = w0\<lparr>bw_heap := ts_heap s, bw_user := (bw_user w0)\<lparr>sg_events := event_world.truncate s\<rparr>\<rparr>"
    by (simp add: w1_def put_events_def s(3) Let_def)
  have hs: "heap_wf (ts_heap s)" using s(2) by (simp add: scenario_runs_def eq_wf_def eq_struct_def)
  have "segment_launch (system_app fuel cl now stk) ms w0 = Some w1"
    using s(1) by (simp add: segment_launch_def w0(2) system_app_def log_app_def scenario_app_def w1_def)
  moreover have "call_state task tb sb tg ls (major_value MBLUE_LOG_SERVICE) [] [] n free [] w1"
    unfolding w1 by (intro call_state_update(6) call_state_update(2) cs0 hs)
  moreover have "scenario_task ms task [] free w1" using st0 by (simp add: w1)
  moreover have "same_events s (events_of w1)" using hs by (simp add: same_events_def w1)
  then have "scenario_runs ms t (16 * Suc (hnext (bw_heap w))) tf (events_of w1)"
    using s(2) by (simp add: f scenario_runs_same)
  moreover have "get_current_context (cl_self cl) w1 = task" using self by (simp add: w1 get_current_context_def f)
  moreover have "\<not> hfail (bw_heap w1) j" for j using h(2) s(4) by (simp add: w1 grants_def f)
  moreover have "items_array (bw_segs w1 ls) (type_value SYNC_CALL) = Some log_ipc_items" using it ms sg [of ls] by (simp add: w1)
  ultimately have "scenario_up ms task tb sb tg ls t (16 * Suc (hnext (bw_heap w))) tf n cl free w1"
    using ne lg by (simp add: scenario_up_def w1 f)
  moreover have "hnext (bw_heap w1) = hnext (bw_heap w) + 8" "lg_manage (bw_user w1) = lg_manage (bw_user w)"
    using s(5) by (simp_all add: w1 f)
  ultimately show thesis
    using that \<open>segment_launch (system_app fuel cl now stk) ms w0 = Some w1\<close> unfolding w0_def by blast
qed

section \<open>Properties\<close>

text \<open>C12 (scenario\_every\_second): the example application, from the initialisation of its segment and its launch, in a
  system with the bus and the log service. In every second the timer of its event expires, the timer function sends
  a signal to the task, the turn of the task wakes the event, whose callback logs a message, and when the bus, the log
  service and the bus have had their turns the message is on the terminal. After any number of seconds (up to the
  bound below) the terminal shows one line with its date for each of them and nothing else is new, the timer is
  armed for the next one, the queues of the three tasks are empty, every block that was taken has been released
  and all messages are back in the pool. The bound \<open>seconds_fit\<close> is the model's: its allocator never
  uses an address twice, a second takes at most 163 units of 16 bytes, and the locals are above them.\<close>

theorem scenario_every_second:
  assumes "call_state task tb sb tg ls (major_value MBLUE_LOG_SERVICE) [] [] n (m # r # f # free) [] w" and "task_has w task []"
    and "task \<notin> {tb, tg}" and "t_mq (bw_tasks w task) \<notin> {t_mq (bw_tasks w tb), t_mq (bw_tasks w tg)}"
    and "get_current_context (cl_self cl) w = task" and "ms \<notin> {0, sb, ls}"
    and "items_array (bw_segs w ls) (type_value SYNC_CALL) = Some log_ipc_items"
    and "lg_log (bw_user w)" and "lm_stream (lg_manage (bw_user w))" and "log_level_value LOG_INFO \<le> lm_level (lg_manage (bw_user w))"
    and "timers_hold (events_of w) (t # tf)" and "grants (events_of w)"
    and "seconds_fit cl (hnext (bw_heap w) + 8) (length nows)" and "frame_ok (st_frame stk)"
    and "\<forall>now\<in>set nows. printable_date now"
  shows "\<exists>w1 w2 free'. segment_launch (system_app (Suc (Suc k)) cl start stk) ms
      (mblue_segment_set_context ms task (snd (scenario_init ms w))) = Some w1 \<and>
    scenario_seconds (Suc (Suc k)) cl stk i t (task, tb, tg) nows w1 = Some (Returns w2) \<and>
    lm_out (lg_manage (bw_user w2)) = lm_out (lg_manage (bw_user w)) @ map (delayed_line cl) nows \<and>
    mblue_timer_alive t (events_of w2) = Some True \<and> queue_contents (task_queue w2 task) = [] \<and>
    queue_contents (task_queue w2 tb) = [] \<and> queue_contents (task_queue w2 tg) = [] \<and>
    hblocks (bw_heap w2) = hblocks (bw_heap w1) \<and> pool_holds (bw_msgs w2) free' \<and> mset free' = mset (m # r # f # free)"
proof -
  have b: "16 * Suc (hnext (bw_heap w)) < 2 ^ 32" using assms(13) by (simp add: seconds_fit_def)
  obtain w1 where 1: "segment_launch (system_app (Suc (Suc k)) cl start stk) ms
      (mblue_segment_set_context ms task (snd (scenario_init ms w))) = Some w1"
    "scenario_up ms task tb sb tg ls t (16 * Suc (hnext (bw_heap w))) tf n cl (m # r # f # free) w1"
    "hnext (bw_heap w1) = hnext (bw_heap w) + 8" "lg_manage (bw_user w1) = lg_manage (bw_user w)"
    by (rule scenario_launches [OF assms(1-12) b])
  have "seconds_fit cl (hnext (bw_heap w1)) (length nows)" using assms(13) by (simp add: 1(3))
  from scenario_seconds_steps [OF 1(2) _ this assms(14,15), of k i] obtain w2 free' where 2:
    "scenario_seconds (Suc (Suc k)) cl stk i t (task, tb, tg) nows w1 = Some (Returns w2)"
    "scenario_up ms task tb sb tg ls t (16 * Suc (hnext (bw_heap w))) tf n cl free' w2" "mset free' = mset (m # r # f # free)"
    "hblocks (bw_heap w2) = hblocks (bw_heap w1)"
    "lm_out (lg_manage (bw_user w2)) = lm_out (lg_manage (bw_user w1)) @ map (delayed_line cl) nows" by auto
  have "mblue_timer_alive t (events_of w2) = Some True" using 2(2) scenario_runs_alive by (auto simp: scenario_up_def)
  moreover have "queue_contents (task_queue w2 task) = []" "queue_contents (task_queue w2 tb) = []"
    "queue_contents (task_queue w2 tg) = []" "pool_holds (bw_msgs w2) free'"
    using 2(2) by (simp_all add: scenario_up_def scenario_task_def call_state_def task_has_def)
  ultimately show ?thesis using 1(1,4) 2(1,3-5) by auto
qed

text \<open>The sample system with the log service and the scenario in the place of segment 3, and fresh timers.\<close>

definition scenario_system :: "system_world" where
  "scenario_system = \<lparr>bw_heap = bw_heap log_system, bw_msgs = bw_msgs log_system, bw_segs = bw_segs log_system,
     bw_tasks = bw_tasks log_system, bw_queues = bw_queues log_system, bw_seg_links = bw_seg_links log_system,
     bw_sb_instance = True, bw_node_ms = bw_node_ms log_system,
     bw_pub_links = bw_pub_links log_system, bw_call_links = bw_call_links log_system,
     bw_init_lock = bw_init_lock log_system, bw_subs = bw_subs log_system, bw_calls = bw_calls log_system,
     bw_notifiers = bw_notifiers log_system, bw_cells = bw_cells log_system, bw_ipc = bw_ipc log_system,
     bw_tm = bw_tm log_system, bw_task_id = bw_task_id log_system,
     bw_user = \<lparr>lg_ls = 20, lg_log = True, lg_lm = True, lg_manage = sample_logger,
       sg_events = fresh_events, sg_instance = (\<lambda>_. 0)\<rparr>\<rparr>"

definition sample_client :: client where
  "sample_client = \<lparr>cl_self = 103, cl_locals = \<lparr>lo_dl = 0x40000036, lo_bundler = 0x40000048, lo_header = 0x40000000,
     lo_memory = (\<lambda>_. 0)\<rparr>, cl_file = [47, 97]\<rparr>"

lemma sample_client_ok: "b \<le> 0x40000000 \<Longrightarrow> 0 < b \<Longrightarrow> client_ok sample_client b"
  using sample_message(3,5,6) by (simp add: client_ok_def sample_client_def locals_apart_def)

lemma sample_client_line: "delayed_line sample_client sample_date = c_name ''2018-1-1 12:0:0 a[3] delayed work'' @ [10]"
proof -
  have name: "log_get_file_name_pointer [47, 97] (length [47, 97 :: u8]) = Some [97]"
    by (simp add: log_get_file_name_pointer_def is_slash_def)
  have digits: "dec_digits 3 = [51]" "dec_digits 2018 = [50, 48, 49, 56]" "dec_digits 12 = [49, 50]" "dec_digits 1 = [49]"
      "dec_digits 0 = [48]"
    by (simp_all add: dec_digits.simps)
  have "log_message 3 [47, 97] (c_name ''delayed work'') = c_name ''a[3] delayed work''"
    using name digits by (simp add: log_message_def log_prefix_def c_name_def)
  moreover have "date_text sample_date = c_name ''2018-1-1 12:0:0''"
    using digits by (simp add: date_text_def sample_date_def c_name_def)
  ultimately show ?thesis by (simp add: delayed_line_def sample_client_def c_name_def)
qed

theorem scenario_every_second_witness:
  "\<exists>w1 w2. segment_launch (system_app (Suc (Suc 0)) sample_client sample_date sample_stack) 30
      (mblue_segment_set_context 30 3 (snd (scenario_init 30 scenario_system))) = Some w1 \<and>
    scenario_seconds (Suc (Suc 0)) sample_client sample_stack False (timer_addr 0) (3, 1, 2) [sample_date, sample_date] w1 =
      Some (Returns w2) \<and>
    lm_out (lg_manage (bw_user w2)) = [c_name ''2018-1-1 12:0:0 a[3] delayed work'' @ [10],
      c_name ''2018-1-1 12:0:0 a[3] delayed work'' @ [10]] \<and>
    mblue_timer_alive (timer_addr 0) (events_of w2) = Some True"
proof -
  have up: "map msg_addr [2..<32] = msg_addr 2 # map msg_addr [3..<32]" by (simp add: upt_rec)
  have cs: "call_state 3 1 10 2 20 (major_value MBLUE_LOG_SERVICE) [] [] 0 (msg_addr 0 # msg_addr 1 # msg_addr 2 # map msg_addr [3..<32]) []
      scenario_system"
    using log_system_state unfolding up by (simp add: call_state_def call_config_def task_has_def scenario_system_def)
  have th: "task_has scenario_system 3 []"
    using sample_has [of 3] by (simp add: task_has_def scenario_system_def log_system_def)
  have ne: "(3 :: addr) \<notin> {1, 2}" "t_mq (bw_tasks scenario_system 3) \<notin> {t_mq (bw_tasks scenario_system 1), t_mq (bw_tasks scenario_system 2)}"
    by (simp_all add: scenario_system_def log_system_def sample_world_def sample_task_def)
  have self: "get_current_context (cl_self sample_client) scenario_system = 3"
    using log_system_facts(1) by (simp add: get_current_context_def scenario_system_def sample_client_def)
  have ms: "(30 :: addr) \<notin> {0, 10, 20}" by simp
  have it: "items_array (bw_segs scenario_system 20) (type_value SYNC_CALL) = Some log_ipc_items"
    using log_system_facts(4) by (simp add: scenario_system_def)
  have u: "bw_user scenario_system = \<lparr>lg_ls = 20, lg_log = True, lg_lm = True, lg_manage = sample_logger,
      sg_events = fresh_events, sg_instance = (\<lambda>_. 0)\<rparr>" "bw_heap scenario_system = bw_heap log_system"
    by (simp_all add: scenario_system_def)
  have lg: "lg_log (bw_user scenario_system)" "lm_stream (lg_manage (bw_user scenario_system))"
    "log_level_value LOG_INFO \<le> lm_level (lg_manage (bw_user scenario_system))"
    by (simp_all add: u log_system_facts)
  have "map timer_addr [0..<12] = timer_addr 0 # map timer_addr [1..<12]" by (simp add: upt_conv_Cons [of 0 12])
  then have tm: "timers_hold (events_of scenario_system) (timer_addr 0 # map timer_addr [1..<12])"
    by (simp add: timers_hold_def u fresh_events_def fresh_timers_def timer_system.extend_def MAX_TIMER_NUM_def)
  have gr: "grants (events_of scenario_system)"
    using log_system_facts(2) by (simp add: grants_def u fresh_events_def fresh_timers_def timer_system.extend_def)
  have fit: "seconds_fit sample_client (hnext (bw_heap scenario_system) + 8) (length [sample_date, sample_date])"
    using sample_client_ok by (simp add: seconds_fit_def u(2) log_system_facts(3))
  have fr: "frame_ok (st_frame sample_stack)" by (simp add: sample_stack_def frame_ok_def)
  have now: "\<forall>now\<in>set [sample_date, sample_date]. printable_date now" using sample_message(1) by simp
  have out: "lm_out (lg_manage (bw_user scenario_system)) = []" by (simp add: u log_system_facts)
  from scenario_every_second [OF cs th ne self ms it lg tm gr fit fr now, where k = 0 and start = sample_date and i = False]
  show ?thesis unfolding out by (elim exE conjE) (intro exI conjI, assumption+, simp_all add: sample_client_line)
qed

end
