(* ===== verification/Start_Up.thy ===== *)
theory Start_Up
  imports Simple_Scenario
begin

text \<open>
  The start of the system: \<^verbatim>\<open>main/main.c\<close>, \<^verbatim>\<open>task_prepare\<close> of \<^verbatim>\<open>pal/task/mblue_stdtask.c\<close> with the table of
  \<^verbatim>\<open>mblue_task_cfg.h\<close>, and the hooks of \<^verbatim>\<open>mblue_task_entry.h\<close> with which the tasks bind the segments of the
  system bus, the example application and the log service. The hooks run in the threads of their tasks: each is
  split where it can wait for the bus, and the parts run in any order. The tasks have been created before
  the first hook runs. What the other theories assume of the system is shown to hold when all hooks are done.
\<close>

section \<open>The tasks\<close>

text \<open>The static objects: the table of the tasks, the names, the stacks and the segments.\<close>

definition preload_task :: "nat \<Rightarrow> addr" where
  "preload_task i = 0x20000 + unat sizeof_mblue_task * i"

definition stack_bus :: addr where "stack_bus = 0x30000"
definition stack_user_space :: addr where "stack_user_space = 0x30400"
definition stack_log :: addr where "stack_log = 0x30800"

definition MBLUE_TASK_DEFAULT_STACK_SIZE :: u32 where
  "MBLUE_TASK_DEFAULT_STACK_SIZE = 1024"

definition MBLUE_TASK_MAX_MSG_IN_QUEUE :: u32 where
  "MBLUE_TASK_MAX_MSG_IN_QUEUE = 16"

definition bus_segment :: addr where "bus_segment = 0x31000"
definition scenario_segment :: addr where "scenario_segment = 0x31100"
definition log_segment :: addr where "log_segment = 0x31200"

text \<open>The hooks by their number.\<close>

datatype on_create = bus_on_create | user_space_on_create | log_on_create

primrec on_create_number :: "on_create \<Rightarrow> nat" where
  "on_create_number bus_on_create = 1"
| "on_create_number user_space_on_create = 2"
| "on_create_number log_on_create = 3"

record preload =
  pl_task :: addr
  pl_name :: addr
  pl_priority :: int
  pl_stack :: addr
  pl_stack_size :: u32
  pl_on_create :: nat

definition mblue_preload_tasks :: "preload list" where
  "mblue_preload_tasks =
     [\<lparr>pl_task = preload_task 0, pl_name = 0x32000, pl_priority = int MBLUE_MAX_TASKS_IN_SYSTEM - 1,
       pl_stack = stack_bus, pl_stack_size = MBLUE_TASK_DEFAULT_STACK_SIZE, pl_on_create = on_create_number bus_on_create\<rparr>,
      \<lparr>pl_task = preload_task 1, pl_name = 0x32010, pl_priority = 4,
       pl_stack = stack_user_space, pl_stack_size = MBLUE_TASK_DEFAULT_STACK_SIZE,
       pl_on_create = on_create_number user_space_on_create\<rparr>,
      \<lparr>pl_task = preload_task 2, pl_name = 0x32020, pl_priority = 3,
       pl_stack = stack_log, pl_stack_size = MBLUE_TASK_DEFAULT_STACK_SIZE, pl_on_create = on_create_number log_on_create\<rparr>]"

text \<open>The threads get the handles \<open>threads 0\<close>, \<open>threads 1\<close> and so on.\<close>

fun task_prepare_loop :: "(nat \<Rightarrow> nat) \<Rightarrow> nat \<Rightarrow> preload list \<Rightarrow> 'u bus_world \<Rightarrow> 'u bus_world option" where
  "task_prepare_loop threads i [] w = Some w"
| "task_prepare_loop threads i (p # ps) w = do {
     (task, w) \<leftarrow> create_mblue_task (threads i) (pl_task p) (pl_priority p) (pl_name p) (pl_stack p) (pl_stack_size p)
       MBLUE_TASK_MAX_MSG_IN_QUEUE (pl_on_create p) w;
     task_prepare_loop threads (Suc i) ps w
   }"

definition task_prepare :: "(nat \<Rightarrow> nat) \<Rightarrow> 'u bus_world \<Rightarrow> 'u bus_world option" where
  "task_prepare threads w = task_prepare_loop threads 0 mblue_preload_tasks w"

definition system_preinit :: int where
  "system_preinit = 0"

text \<open>The thread of \<^verbatim>\<open>main\<close> ends in \<^verbatim>\<open>task_run\<close>.\<close>

definition main :: "(nat \<Rightarrow> nat) \<Rightarrow> 'u bus_world \<Rightarrow> 'u bus_world option" where
  "main threads w = (let rc = system_preinit in task_prepare threads w)"

section \<open>The hooks\<close>

text \<open>Each hook asks for the instance of its segment, which is initialised when it is asked for the first time, and binds
  it to the task.\<close>

definition set_instance :: "nat \<Rightarrow> addr \<Rightarrow> system_world \<Rightarrow> system_world" where
  "set_instance f ms w = w\<lparr>bw_user := (bw_user w)\<lparr>sg_instance := (sg_instance (bw_user w))(f := ms)\<rparr>\<rparr>"

definition segment_get_instance :: "nat \<Rightarrow> system_world \<Rightarrow> (addr \<times> system_world) option" where
  "segment_get_instance f w =
     (let ms = sg_instance (bw_user w) f
      in if ms \<noteq> 0 then Some (ms, w)
      else if f = on_create_number bus_on_create
      then do { w \<leftarrow> system_bus_service_init bus_segment (set_instance f bus_segment w); Some (bus_segment, w) }
      else if f = on_create_number user_space_on_create
      then Some (scenario_segment, snd (scenario_init scenario_segment (set_instance f scenario_segment w)))
      else if f = on_create_number log_on_create
      then Some (log_segment, snd (log_service_init log_segment (set_instance f log_segment w)))
      else None)"

definition on_create_bind :: "addr \<Rightarrow> system_world \<Rightarrow> (addr \<times> system_world) option" where
  "on_create_bind task w = do {
     (ms, w) \<leftarrow> segment_get_instance (t_on_create (bw_tasks w task)) w;
     Some (ms, segment_bind_link task ms w)
   }"

text \<open>The start of a thread: nothing has been done, the segment is bound and waits for its registration, or the hook
  is done and the task begins its loop.\<close>

datatype thread = Created | Bound addr | Running

inductive boot_step ::
    "system_globals app \<Rightarrow> (addr \<Rightarrow> thread) \<times> system_world \<Rightarrow> (addr \<Rightarrow> thread) \<times> system_world \<Rightarrow> bool" for A where
  bind: "p t = Created \<Longrightarrow> t \<in> pl_task ` set mblue_preload_tasks \<Longrightarrow> on_create_bind t w = Some (ms, w') \<Longrightarrow>
    boot_step A (p, w) (p(t := Bound ms), w')"
| register: "p t = Bound ms \<Longrightarrow> segment_bind_register A False ms w = Some (Returns w') \<Longrightarrow>
    boot_step A (p, w) (p(t := Running), w')"

section \<open>Creating the tasks\<close>

lemma queue_alloc_granted:
  assumes wf: "heap_wf hp" and g: "\<And>j. \<not> hfail hp j"
  obtains d q hp' where
    "mblue_queue_alloc MBLUE_TASK_MAX_MSG_IN_QUEUE hp = Some (Some (16 * Suc (hnext hp), d, q), hp')"
    "heap_wf hp'" "\<And>j. \<not> hfail hp' j" "hnext hp' = hnext hp + 9" "queue_wf q" "queue_contents q = []" "qcapacity q = 16"
proof -
  let ?n = "MBLUE_TASK_MAX_MSG_IN_QUEUE" and ?q = "\<lparr>qsize = 0, qnext = 0, qcapacity = 0, qdata = []\<rparr>"
  have s: "unat sizeof_mblue_queue = 40" "unat sizeof_mblue_queue \<le> 2 ^ 32 - 16" by (simp_all add: sizeof_mblue_queue_def)
  have d: "unat (?n * 4) = 64" "unat (?n * 4) \<le> 2 ^ 32 - 16" "unat ?n = 16" "?n \<le> 128"
    by (simp_all add: MBLUE_TASK_MAX_MSG_IN_QUEUE_def)
  define h1 where "h1 = snd (the (mblue_malloc sizeof_mblue_queue hp))"
  note g1 = mblue_malloc_granted [OF g s(2), unfolded s(1)]
  have m1: "mblue_malloc sizeof_mblue_queue hp = Some (16 * Suc (hnext hp), h1)" unfolding h1_def g1 by simp
  have h1: "\<not> hfail h1 j" "hnext h1 = hnext hp + 4" for j using g unfolding h1_def g1 by simp_all
  define h2 where "h2 = snd (the (mblue_malloc (?n * 4) h1))"
  note g2 = mblue_malloc_granted [OF h1(1) d(2), unfolded d(1)]
  have m2: "mblue_malloc (?n * 4) h1 = Some (16 * Suc (hnext h1), h2)" unfolding h2_def g2 by simp
  have h2: "\<not> hfail h2 j" "hnext h2 = hnext hp + 9" "hblocks h2 (16 * Suc (hnext h1)) = Some (replicate 64 0)" for j
    using h1 unfolding h2_def g2 by simp_all
  have c: "take 16 (cells_of_bytes (replicate 64 0)) = replicate 16 0"
    using cells_of_zero [of 16 "[]"] by simp
  obtain q where q: "queue_init ?q (replicate 16 0) ?n = (0, q)" "queue_wf q" "queue_contents q = []" "qcapacity q = 16"
    using queue_init_spec [OF d(4), of "replicate 16 0" ?q] d(3) by (cases "queue_init ?q (replicate 16 0) ?n") simp
  have wf2: "heap_wf h2"
    using mheap.malloc_wf [OF mheap.malloc_wf [OF wf s(2) m1] d(2) m2] .
  have "mblue_queue_alloc ?n hp = Some (Some (16 * Suc (hnext hp), 16 * Suc (hnext h1), q), h2)"
    using m1 m2 h2(3) c q(1) by (simp add: mblue_queue_alloc_def mblue_queue_construct_def d(3))
  then show thesis using that wf2 h2(1,2) q(2-4) by blast
qed

text \<open>A task that is ready to start: its queue is empty, its semaphores are at zero and it has no segments.\<close>

definition task_ready :: "addr \<Rightarrow> nat \<Rightarrow> nat \<Rightarrow> addr \<Rightarrow> 'u bus_world \<Rightarrow> bool" where
  "task_ready t thread h mq w \<longleftrightarrow>
     task_has w t [] \<and> tpend (bw_tasks w t) = Template_fn \<and> tpost (bw_tasks w t) = Template_fn \<and>
     sem_value (call_sem (bw_tasks w t)) 0 \<and> mblue_task.t_obj (bw_tasks w t) = thread \<and> t_on_create (bw_tasks w t) = h \<and>
     t_mq (bw_tasks w t) = mq"

definition no_segments :: "addr \<Rightarrow> 'u bus_world \<Rightarrow> bool" where
  "no_segments t w \<longleftrightarrow> dlist (bw_seg_links w) (list_head_of t) []"

lemma task_created:
  assumes t: "task \<noteq> 0" and i: "unat (bw_task_id w) = i" "i < MBLUE_MAX_TASKS_IN_SYSTEM"
    and wf: "heap_wf (bw_heap w)" and g: "\<And>j. \<not> hfail (bw_heap w) j"
  obtains w' where
    "create_mblue_task thread task prio name stk size' MBLUE_TASK_MAX_MSG_IN_QUEUE h w = Some (task, w')"
    "task_ready task thread h (16 * Suc (hnext (bw_heap w))) w'" "no_segments task w'"
    "heap_wf (bw_heap w')" "\<And>j. \<not> hfail (bw_heap w') j" "hnext (bw_heap w') = hnext (bw_heap w) + 9"
    "unat (bw_task_id w') = Suc i" "bw_tm w' = (bw_tm w)(i := task)"
    "\<And>t' th h' mq'. t' \<noteq> task \<Longrightarrow> mq' \<noteq> 16 * Suc (hnext (bw_heap w)) \<Longrightarrow> task_ready t' th h' mq' w \<Longrightarrow> task_ready t' th h' mq' w'"
    "\<And>t'. t' \<noteq> task \<Longrightarrow> no_segments t' w \<Longrightarrow> no_segments t' w'"
    "bw_msgs w' = bw_msgs w" "bw_segs w' = bw_segs w" "bw_sb_instance w' = bw_sb_instance w" "bw_node_ms w' = bw_node_ms w"
    "bw_ipc w' = bw_ipc w" "bw_user w' = bw_user w"
proof -
  obtain d q hp' where q:
    "mblue_queue_alloc MBLUE_TASK_MAX_MSG_IN_QUEUE (bw_heap w) = Some (Some (16 * Suc (hnext (bw_heap w)), d, q), hp')"
    "heap_wf hp'" "\<And>j. \<not> hfail hp' j" "hnext hp' = hnext (bw_heap w) + 9" "queue_wf q" "queue_contents q = []" "qcapacity q = 16"
    by (rule queue_alloc_granted [OF wf g]) (rule that)
  have n: "unat (bw_task_id w + 1) = Suc i"
    using i by (simp add: unat_word_ariths MBLUE_MAX_TASKS_IN_SYSTEM_def)
  have sem: "sem_value (snd (mblue_semaphore_construct s)) 0" for s by (rule semaphore_construct_value)
  define w' where "w' = snd (the (create_mblue_task thread task prio name stk size' MBLUE_TASK_MAX_MSG_IN_QUEUE h w))"
  have c: "create_mblue_task thread task prio name stk size' MBLUE_TASK_MAX_MSG_IN_QUEUE h w = Some (task, w')"
    using t i(2) q(1) unfolding w'_def
    by (simp add: create_mblue_task_def task_start_def task_create_def Let_def i(1) upd_task_def)
  show thesis
  proof (rule that [OF c])
    show "task_ready task thread h (16 * Suc (hnext (bw_heap w))) w'"
      using t i(2) q sem unfolding w'_def
      by (simp add: create_mblue_task_def task_start_def task_create_def Let_def i(1) upd_task_def task_ready_def task_has_def)
  qed (use t i q n in \<open>auto simp: w'_def create_mblue_task_def task_start_def task_create_def Let_def upd_task_def
      task_ready_def task_has_def no_segments_def dlist_def INIT_LIST_HEAD_def set_next_def set_prev_def NULL_addr_def\<close>)
qed

section \<open>What binding does\<close>

lemma preload_simps [simp]:
  "preload_task i = preload_task j \<longleftrightarrow> i = j" "preload_task i \<noteq> 0"
  by (simp_all add: preload_task_def sizeof_mblue_task_def)

lemmas segment_defs = bus_segment_def scenario_segment_def log_segment_def

lemma segment_simps [simp]:
  "bus_segment \<noteq> scenario_segment" "scenario_segment \<noteq> bus_segment" "bus_segment \<noteq> log_segment" "log_segment \<noteq> bus_segment"
  "scenario_segment \<noteq> log_segment" "log_segment \<noteq> scenario_segment" "bus_segment \<noteq> 0" "scenario_segment \<noteq> 0" "log_segment \<noteq> 0"
  by (simp_all add: segment_defs)

text \<open>The three segments once they are bound, with the context \<open>t\<close>, and the links of the list of the task.\<close>

definition segment_for :: "nat \<Rightarrow> (nat \<Rightarrow> handler_item list option) \<Rightarrow> (nat \<Rightarrow> segment_handler) \<Rightarrow> launch_hook \<Rightarrow> addr \<Rightarrow> mblue_segment" where
  "segment_for major items handlers launch t =
     \<lparr>s_magic = MBLUE_SEGMENT_MAGIC, s_major = of_nat major, s_context = t, processing_msg = 0, items_array = items, s_queue = 0,
      handler_array = handlers, on_launch = launch\<rparr>"

definition bus_bound :: "addr \<Rightarrow> mblue_segment" where
  "bus_bound = segment_for (major_value MBLUE_BUS) (\<lambda>_. None) bus_handlers Bus_launch"

definition scenario_bound :: "addr \<Rightarrow> mblue_segment" where
  "scenario_bound = segment_for (major_value MBLUE_SIMPLE_SCENARIO) [type_value SIGNAL \<mapsto> scenario_signal_items]
     default_handlers (App_launch 2)"

definition log_bound :: "addr \<Rightarrow> mblue_segment" where
  "log_bound = segment_for (major_value MBLUE_LOG_SERVICE)
     [type_value SYNC_CALL \<mapsto> log_ipc_items, type_value ASYNC_CALL \<mapsto> log_ipc_items] default_handlers (App_launch 1)"

definition bind_links :: "addr \<Rightarrow> addr \<Rightarrow> list_heap \<Rightarrow> list_heap" where
  "bind_links t ms h = list_add_tail (list_node_of ms) (list_head_of t) (set_next (list_node_of ms) 0 (set_prev (list_node_of ms) 0 h))"

lemma bus_instance_fields [simp]:
  "bw_heap (get_system_bus_instance w) = bw_heap w" "bw_msgs (get_system_bus_instance w) = bw_msgs w"
  "bw_tasks (get_system_bus_instance w) = bw_tasks w" "bw_queues (get_system_bus_instance w) = bw_queues w"
  "bw_seg_links (get_system_bus_instance w) = bw_seg_links w" "bw_node_ms (get_system_bus_instance w) = bw_node_ms w"
  "bw_ipc (get_system_bus_instance w) = bw_ipc w" "bw_user (get_system_bus_instance w) = bw_user w"
  "bw_sb_instance (get_system_bus_instance w)"
  by (simp_all add: get_system_bus_instance_def bus_init_def Let_def)

lemma bus_instance_twice [simp]: "get_system_bus_instance (get_system_bus_instance w) = get_system_bus_instance w"
  by (subst get_system_bus_instance_def) simp

lemma bus_instance_update [simp]:
  "get_system_bus_instance (w\<lparr>bw_segs := s\<rparr>) = (get_system_bus_instance w)\<lparr>bw_segs := s\<rparr>"
  "get_system_bus_instance (w\<lparr>bw_seg_links := l\<rparr>) = (get_system_bus_instance w)\<lparr>bw_seg_links := l\<rparr>"
  "get_system_bus_instance (w\<lparr>bw_user := u\<rparr>) = (get_system_bus_instance w)\<lparr>bw_user := u\<rparr>"
  by (simp_all add: get_system_bus_instance_def bus_init_def Let_def)

lemma bus_init_lists:
  assumes "M < SEGMENT_MAJOR_MAX"
  shows "dlist (fold (\<lambda>i. INIT_LIST_HEAD (list_head_of i)) [0..<SEGMENT_MAJOR_MAX] h) (list_head_of M) []"
proof -
  have "dlist (fold (\<lambda>i. INIT_LIST_HEAD (list_head_of i)) [0..<n] h) (list_head_of M) []" if "M < n" for n
    using that by (induction n) (auto simp: less_Suc_eq dlist_INIT NULL_addr_def intro: dlist_INIT_other)
  then show ?thesis using assms by blast
qed

definition bus_ready :: "nat \<Rightarrow> 'u bus_world \<Rightarrow> bool" where
  "bus_ready n w \<longleftrightarrow> sem_value (bw_init_lock w) n \<and> (\<forall>M<SEGMENT_MAJOR_MAX. dlist (bw_call_links w) (list_head_of M) [])"

lemma bus_instance_ready:
  assumes "if bw_sb_instance w then bus_ready n w else n = 0"
  shows "bus_ready n (get_system_bus_instance w)"
  using assms bus_init_lists semaphore_construct_value(2)
  by (auto simp: bus_ready_def get_system_bus_instance_def bus_init_def Let_def split: if_splits)

definition bind_to :: "addr \<Rightarrow> addr \<Rightarrow> mblue_segment \<Rightarrow> system_world \<Rightarrow> system_world" where
  "bind_to t ms s w = (get_system_bus_instance (set_instance (t_on_create (bw_tasks w t)) ms w))
     \<lparr>bw_segs := (bw_segs w)(ms := s), bw_seg_links := bind_links t ms (bw_seg_links w)\<rparr>"

lemma hooks_bind:
  "t_on_create (bw_tasks w t) = on_create_number bus_on_create \<Longrightarrow> sg_instance (bw_user w) (on_create_number bus_on_create) = 0 \<Longrightarrow>
     on_create_bind t w = Some (bus_segment, bind_to t bus_segment (bus_bound t) w)"
  "t_on_create (bw_tasks w t) = on_create_number user_space_on_create \<Longrightarrow>
     sg_instance (bw_user w) (on_create_number user_space_on_create) = 0 \<Longrightarrow>
     on_create_bind t w = Some (scenario_segment, bind_to t scenario_segment (scenario_bound t) w)"
  "t_on_create (bw_tasks w t) = on_create_number log_on_create \<Longrightarrow> sg_instance (bw_user w) (on_create_number log_on_create) = 0 \<Longrightarrow>
     on_create_bind t w = Some (log_segment, bind_to t log_segment (log_bound t) w)"
  by (simp_all add: on_create_bind_def segment_get_instance_def segment_bind_link_def mblue_segment_set_context_def upd_seg_def
      system_bus_service_init_def scenario_init_def log_service_init_def init_segment_def Let_def set_instance_def
      mblue_segment_set_handler_def MESSAGE_TYPE_MAX_def bind_to_def bus_bound_def scenario_bound_def log_bound_def
      segment_for_def default_handlers_def bus_handlers_def bind_links_def fun_eq_iff)

lemma bind_links_own: "dlist h (list_head_of t) [] \<Longrightarrow> ms \<noteq> 0 \<Longrightarrow> dlist (bind_links t ms h) (list_head_of t) [list_node_of ms]"
  unfolding bind_links_def
  using dlist_list_add_tail [of "set_next (list_node_of ms) 0 (set_prev (list_node_of ms) 0 h)" "list_head_of t" "[]" "list_node_of ms"]
  by (simp add: dlist_set_next dlist_set_prev NULL_addr_def)

lemma bind_links_other:
  assumes "dlist h (list_head_of t) []" and "dlist h (list_head_of t') xs" and "t' \<noteq> t" and "xs \<in> {[], [list_node_of ms']}" and "ms' \<noteq> ms"
  shows "dlist (bind_links t ms h) (list_head_of t') xs"
  unfolding bind_links_def using assms
  by (intro dlist_list_add_other(2) [where xs = "[]"]) (auto simp: dlist_set_next dlist_set_prev)

section \<open>What holds during the start\<close>

definition task_bus :: addr where "task_bus = preload_task 0"
definition task_user_space :: addr where "task_user_space = preload_task 1"
definition task_log :: addr where "task_log = preload_task 2"

lemma task_simps [simp]:
  "task_bus \<noteq> task_user_space" "task_user_space \<noteq> task_bus" "task_bus \<noteq> task_log" "task_log \<noteq> task_bus"
  "task_user_space \<noteq> task_log" "task_log \<noteq> task_user_space" "task_bus \<noteq> 0" "task_user_space \<noteq> 0" "task_log \<noteq> 0"
  by (simp_all add: task_bus_def task_user_space_def task_log_def)

lemma preload_tasks: "pl_task ` set mblue_preload_tasks = {task_bus, task_user_space, task_log}"
  by (simp add: mblue_preload_tasks_def task_bus_def task_user_space_def task_log_def)

definition own_segment :: "addr \<Rightarrow> addr" where
  "own_segment t = (if t = task_bus then bus_segment else if t = task_user_space then scenario_segment else log_segment)"

lemma own_segment_simps [simp]:
  "own_segment task_bus = bus_segment" "own_segment task_user_space = scenario_segment" "own_segment task_log = log_segment"
  by (simp_all add: own_segment_def)

lemma own_segment_nonzero: "own_segment t \<noteq> 0"
  unfolding own_segment_def using segment_simps(7-9) by presburger

definition own_hook :: "addr \<Rightarrow> nat" where
  "own_hook t = on_create_number (if t = task_bus then bus_on_create else if t = task_user_space then user_space_on_create else log_on_create)"

definition boot_progress :: "(addr \<Rightarrow> thread) \<Rightarrow> bool" where
  "boot_progress p \<longleftrightarrow> (\<forall>t. p t \<in> {Created, Bound (own_segment t), Running}) \<and>
     (\<forall>t. t \<notin> {task_bus, task_user_space, task_log} \<longrightarrow> p t = Created) \<and>
     (p task_bus \<noteq> Running \<longrightarrow> p task_user_space \<noteq> Running \<and> p task_log \<noteq> Running)"

definition boot_tasks :: "(nat \<Rightarrow> nat) \<Rightarrow> 'u bus_world \<Rightarrow> bool" where
  "boot_tasks threads w \<longleftrightarrow> task_ready task_bus (threads 0) 1 16 w \<and> task_ready task_user_space (threads 1) 2 160 w \<and>
     task_ready task_log (threads 2) 3 304 w \<and> bw_tm w 0 = task_bus \<and> bw_tm w 1 = task_user_space \<and> bw_tm w 2 = task_log \<and>
     bw_msgs w = fresh_messages"

definition no_segment :: mblue_segment where
  "no_segment = \<lparr>s_magic = 0, s_major = 0, s_context = 0, processing_msg = 0, items_array = (\<lambda>_. None), s_queue = 0,
     handler_array = (\<lambda>_. Null_handler), on_launch = Null_launch\<rparr>"

definition own_links :: "(addr \<Rightarrow> thread) \<Rightarrow> 'u bus_world \<Rightarrow> addr \<Rightarrow> bool" where
  "own_links p w t \<longleftrightarrow> dlist (bw_seg_links w) (list_head_of t) (if p t = Created then [] else [list_node_of (own_segment t)])"

definition boot_segs :: "(addr \<Rightarrow> thread) \<Rightarrow> 'u bus_world \<Rightarrow> bool" where
  "boot_segs p w \<longleftrightarrow>
     bw_segs w = (\<lambda>ms. if ms = bus_segment \<and> p task_bus \<noteq> Created then bus_bound task_bus
       else if ms = scenario_segment \<and> p task_user_space \<noteq> Created then scenario_bound task_user_space
       else if ms = log_segment \<and> p task_log \<noteq> Created then log_bound task_log else no_segment) \<and>
     own_links p w task_bus \<and> own_links p w task_user_space \<and> own_links p w task_log"

text \<open>The launch of the bus posts its semaphore once for each segment.\<close>

definition permits :: "(addr \<Rightarrow> thread) \<Rightarrow> nat" where
  "permits p = (if p task_bus = Running
     then SEGMENT_MAJOR_MAX - (of_bool (p task_user_space = Running) + of_bool (p task_log = Running)) else 0)"

definition boot_bus :: "(addr \<Rightarrow> thread) \<Rightarrow> 'u bus_world \<Rightarrow> bool" where
  "boot_bus p w \<longleftrightarrow>
     (if p task_bus = Created \<and> p task_user_space = Created \<and> p task_log = Created then \<not> bw_sb_instance w
      else bw_sb_instance w \<and> bus_ready (permits p) w) \<and>
     bw_node_ms w = (\<lambda>M. if M = major_value MBLUE_BUS \<and> p task_bus = Running then bus_segment
       else if M = major_value MBLUE_SIMPLE_SCENARIO \<and> p task_user_space = Running then scenario_segment
       else if M = major_value MBLUE_LOG_SERVICE \<and> p task_log = Running then log_segment else 0) \<and>
     bw_ipc w = (if p task_bus = Running then Some task_bus else None)"

text \<open>The element of the event queue is the block that follows the queues of the three tasks.\<close>

definition boot_apps :: "(addr \<Rightarrow> thread) \<Rightarrow> system_world \<Rightarrow> bool" where
  "boot_apps p w \<longleftrightarrow>
     (if p task_log = Running then lg_ls (bw_user w) = log_segment \<and> lg_log (bw_user w) \<and> lm_stream (lg_manage (bw_user w)) \<and>
        lm_level (lg_manage (bw_user w)) = log_level_value LOG_DEBUG
      else \<not> lg_lm (bw_user w)) \<and>
     (\<forall>t\<in>{task_bus, task_user_space, task_log}. sg_instance (bw_user w) (own_hook t) =
        (if p t = Created then 0 else own_segment t)) \<and>
     lm_out (lg_manage (bw_user w)) = [] \<and> heap_wf (bw_heap w) \<and> hfail (bw_heap w) = (\<lambda>_. False) \<and>
     hnext (bw_heap w) = (if p task_user_space = Running then 35 else 27) \<and>
     (if p task_user_space = Running
      then scenario_runs scenario_segment (timer_addr 0) 448 (map timer_addr [1..<MAX_TIMER_NUM]) (events_of w)
      else timers_hold (events_of w) (map timer_addr [0..<MAX_TIMER_NUM]) \<and> grants (events_of w))"

definition booting :: "(nat \<Rightarrow> nat) \<Rightarrow> (addr \<Rightarrow> thread) \<Rightarrow> system_world \<Rightarrow> bool" where
  "booting threads p w \<longleftrightarrow> boot_progress p \<and> boot_tasks threads w \<and> boot_segs p w \<and> boot_bus p w \<and> boot_apps p w"

lemmas booting_parts = booting_def boot_progress_def boot_tasks_def boot_segs_def boot_bus_def boot_apps_def

section \<open>Every step of a thread\<close>

lemma boot_tasks_cong:
  "bw_tasks w' = bw_tasks w \<Longrightarrow> bw_queues w' = bw_queues w \<Longrightarrow> bw_tm w' = bw_tm w \<Longrightarrow> bw_msgs w' = bw_msgs w \<Longrightarrow>
   boot_tasks threads w' \<longleftrightarrow> boot_tasks threads w"
  by (simp add: boot_tasks_def task_ready_def task_has_def)

lemma boot_apps_cong:
  assumes a: "boot_apps p w" and "bw_heap w' = bw_heap w" and "bw_user w' = bw_user w"
    and "p' task_log = Running \<longleftrightarrow> p task_log = Running" and "p' task_user_space = Running \<longleftrightarrow> p task_user_space = Running"
    and "\<And>t. p' t = Created \<longleftrightarrow> p t = Created"
  shows "boot_apps p' w'"
proof -
  have "same_events (events_of w) (events_of w')" using a by (simp add: same_events_def assms(2,3) boot_apps_def)
  then have "scenario_runs ms t ele tf (events_of w) \<Longrightarrow> scenario_runs ms t ele tf (events_of w')" for ms t ele tf
    by (rule scenario_runs_same)
  moreover have "timers_hold (events_of w') = timers_hold (events_of w)" "grants (events_of w') = grants (events_of w)"
    by (simp_all add: timers_hold_def grants_def fun_eq_iff assms(2,3))
  ultimately show ?thesis using a unfolding boot_apps_def assms(2-6) by (auto split: if_splits)
qed

lemma bind_to_fields [simp]:
  "bw_heap (bind_to t ms s w) = bw_heap w" "bw_msgs (bind_to t ms s w) = bw_msgs w" "bw_tasks (bind_to t ms s w) = bw_tasks w"
  "bw_queues (bind_to t ms s w) = bw_queues w" "bw_node_ms (bind_to t ms s w) = bw_node_ms w" "bw_ipc (bind_to t ms s w) = bw_ipc w"
  "bw_sb_instance (bind_to t ms s w)" "bw_tm (bind_to t ms s w) = bw_tm w"
  "bus_ready n (bind_to t ms s w) \<longleftrightarrow> bus_ready n (get_system_bus_instance w)" "bw_segs (bind_to t ms s w) = (bw_segs w)(ms := s)"
  "bw_seg_links (bind_to t ms s w) = bind_links t ms (bw_seg_links w)"
  "bw_user (bind_to t ms s w) = (bw_user w)\<lparr>sg_instance := (sg_instance (bw_user w))(t_on_create (bw_tasks w t) := ms)\<rparr>"
  by (simp_all add: bind_to_def bus_ready_def get_system_bus_instance_def bus_init_def Let_def set_instance_def)

lemma boot_apps_bind:
  assumes a: "boot_apps p w" and t: "t \<in> {task_bus, task_user_space, task_log}" and h: "t_on_create (bw_tasks w t) = own_hook t"
    and p: "p t = Created"
  shows "boot_apps (p(t := Bound (own_segment t))) (bind_to t (own_segment t) s w)"
proof -
  let ?w = "bind_to t (own_segment t) s w"
  have "same_events (events_of w) (events_of ?w)" using a by (simp add: same_events_def boot_apps_def)
  then have "scenario_runs ms t' ele tf (events_of w) \<Longrightarrow> scenario_runs ms t' ele tf (events_of ?w)" for ms t' ele tf
    by (rule scenario_runs_same)
  moreover have "timers_hold (events_of ?w) = timers_hold (events_of w)" "grants (events_of ?w) = grants (events_of w)"
    by (simp_all add: timers_hold_def grants_def fun_eq_iff)
  moreover have "\<forall>t'\<in>{task_bus, task_user_space, task_log}. sg_instance (bw_user ?w) (own_hook t') =
      (if (p(t := Bound (own_segment t))) t' = Created then 0 else own_segment t')"
    using a t by (auto simp: boot_apps_def h own_hook_def)
  moreover have "p task_log = Running \<longleftrightarrow> (p(t := Bound (own_segment t))) task_log = Running"
    "p task_user_space = Running \<longleftrightarrow> (p(t := Bound (own_segment t))) task_user_space = Running" using p by auto
  ultimately show ?thesis using a unfolding boot_apps_def by (auto split: if_splits simp del: fun_upd_apply)
qed

lemma boot_progress_step:
  assumes "boot_progress p" and "t \<in> {task_bus, task_user_space, task_log}" and "s \<in> {Bound (own_segment t), Running}"
    and "if s = Running then t = task_bus \<or> p task_bus = Running else p t = Created"
  shows "boot_progress (p(t := s))"
  using assms by (auto simp: boot_progress_def)

lemma own_links_bind:
  assumes "own_links p w t" "p t = Created" "t \<in> {task_bus, task_user_space, task_log}"
    and "own_links p w t'" "t' \<in> {task_bus, task_user_space, task_log}"
  shows "own_links (p(t := Bound (own_segment t))) (bind_to t (own_segment t) s w) t'"
proof (cases "t' = t")
  case True
  then show ?thesis using assms(1,2) bind_links_own [OF _ own_segment_nonzero] by (simp add: own_links_def)
next
  case False
  then have "own_segment t' \<noteq> own_segment t" using assms(3,5) by auto
  then show ?thesis
    using assms False bind_links_other [of "bw_seg_links w" t t' _ "own_segment t'" "own_segment t"]
    by (simp add: own_links_def)
qed

lemma boot_bus_bind:
  assumes "boot_bus p w" and "t \<in> {task_bus, task_user_space, task_log}" and "p t = Created"
  shows "boot_bus (p(t := Bound (own_segment t))) (bind_to t ms s w)"
proof -
  have n: "permits (p(t := Bound (own_segment t))) = permits p" using assms by (auto simp: permits_def)
  have "if bw_sb_instance w then bus_ready (permits p) w else permits p = 0"
    using assms(1) by (auto simp: boot_bus_def permits_def split: if_splits)
  then have "bus_ready (permits p) (get_system_bus_instance w)" by (rule bus_instance_ready)
  then show ?thesis using assms n by (auto simp: boot_bus_def)
qed

definition bound_segment :: "addr \<Rightarrow> mblue_segment" where
  "bound_segment t = (if t = task_bus then bus_bound t else if t = task_user_space then scenario_bound t else log_bound t)"

lemma boot_hooks:
  assumes "boot_tasks threads w" and "t \<in> {task_bus, task_user_space, task_log}" and "sg_instance (bw_user w) (own_hook t) = 0"
  shows "on_create_bind t w = Some (own_segment t, bind_to t (own_segment t) (bound_segment t) w)"
    and "t_on_create (bw_tasks w t) = own_hook t"
proof -
  have h: "t_on_create (bw_tasks w task_bus) = on_create_number bus_on_create"
    "t_on_create (bw_tasks w task_user_space) = on_create_number user_space_on_create"
    "t_on_create (bw_tasks w task_log) = on_create_number log_on_create"
    using assms(1) by (simp_all add: boot_tasks_def task_ready_def)
  from hooks_bind(1) [OF this(1)] hooks_bind(2) [OF this(2)] hooks_bind(3) [OF this(3)]
  show "on_create_bind t w = Some (own_segment t, bind_to t (own_segment t) (bound_segment t) w)"
    using assms(2,3) by (elim insertE emptyE) (simp_all add: bound_segment_def own_hook_def)
  show "t_on_create (bw_tasks w t) = own_hook t" using assms(2) h by (auto simp: own_hook_def)
qed

lemma boot_segs_bind:
  assumes "boot_segs p w" and t: "t \<in> {task_bus, task_user_space, task_log}" and p: "p t = Created"
  shows "boot_segs (p(t := Bound (own_segment t))) (bind_to t (own_segment t) (bound_segment t) w)"
proof -
  have l: "own_links p w task_bus" "own_links p w task_user_space" "own_links p w task_log"
    using assms(1) by (simp_all add: boot_segs_def)
  then have "own_links p w t" using t by blast
  note b = own_links_bind [OF this p t]
  have "own_links (p(t := Bound (own_segment t))) (bind_to t (own_segment t) (bound_segment t) w) task_bus"
    "own_links (p(t := Bound (own_segment t))) (bind_to t (own_segment t) (bound_segment t) w) task_user_space"
    "own_links (p(t := Bound (own_segment t))) (bind_to t (own_segment t) (bound_segment t) w) task_log"
    by (rule b, rule l, simp)+
  moreover have "bw_segs w = (\<lambda>ms. if ms = bus_segment \<and> p task_bus \<noteq> Created then bus_bound task_bus
       else if ms = scenario_segment \<and> p task_user_space \<noteq> Created then scenario_bound task_user_space
       else if ms = log_segment \<and> p task_log \<noteq> Created then log_bound task_log else no_segment)"
    using assms(1) by (simp only: boot_segs_def)
  ultimately show ?thesis unfolding boot_segs_def
    using t by (elim insertE emptyE) (simp_all add: bound_segment_def fun_eq_iff)
qed

lemma bind_booting:
  assumes b: "booting threads p w" and t: "t \<in> {task_bus, task_user_space, task_log}" and p: "p t = Created"
  shows "\<exists>w'. on_create_bind t w = Some (own_segment t, w') \<and> booting threads (p(t := Bound (own_segment t))) w'"
proof -
  let ?p = "p(t := Bound (own_segment t))" and ?w = "bind_to t (own_segment t) (bound_segment t) w"
  have a: "boot_apps p w" "boot_tasks threads w" using b by (simp_all add: booting_def)
  have "sg_instance (bw_user w) (own_hook t) = 0" using a(1) t p unfolding boot_apps_def by auto
  note h = boot_hooks [OF a(2) t this]
  note h(1)
  moreover have "boot_progress ?p" by (rule boot_progress_step [OF _ t]) (use b p in \<open>simp_all add: booting_def\<close>)
  moreover have "boot_tasks threads ?w" using b boot_tasks_cong [of ?w w threads] by (simp add: booting_def)
  moreover have "boot_segs ?p ?w" by (rule boot_segs_bind [where p = p, OF _ t p]) (use b in \<open>simp add: booting_def\<close>)
  moreover have "boot_bus ?p ?w" by (rule boot_bus_bind [where p = p, OF _ t p]) (use b in \<open>simp add: booting_def\<close>)
  moreover have "boot_apps ?p ?w" by (rule boot_apps_bind [OF a(1) t h(2) p])
  ultimately show ?thesis by (auto simp: booting_def)
qed

lemma notify_loop_posts:
  "sem_value sem n \<Longrightarrow> n + k \<le> SEM_VALUE_MAX \<Longrightarrow> \<exists>rc' sem'. notify_loop k rc sem = Some (rc', sem') \<and> sem_value sem' (n + k)"
proof (induction k arbitrary: rc sem n)
  case (Suc k)
  obtain sem1 where s: "semaphore_post sem = Some (MBLUE_OK, sem1)" "sem_value sem1 (Suc n)"
    using semaphore_post_value [OF Suc.prems(1)] Suc.prems(2) by auto
  show ?case using Suc.IH [OF s(2)] s(1) Suc.prems(2) by simp
qed simp

lemma booting_segs:
  assumes "booting threads p w"
  shows "p task_bus \<noteq> Created \<Longrightarrow> bw_segs w bus_segment = bus_bound task_bus"
    "p task_user_space \<noteq> Created \<Longrightarrow> bw_segs w scenario_segment = scenario_bound task_user_space"
    "p task_log \<noteq> Created \<Longrightarrow> bw_segs w log_segment = log_bound task_log"
  using assms by (simp_all add: booting_def boot_segs_def)

lemma boot_segs_run:
  assumes "boot_segs p w" and "p t \<noteq> Created" and "bw_segs w' = bw_segs w" "bw_seg_links w' = bw_seg_links w"
  shows "boot_segs (p(t := Running)) w'"
proof -
  have "(p(t := Running)) t' = Created \<longleftrightarrow> p t' = Created" for t' using assms(2) by simp
  then show ?thesis using assms(1,3,4) unfolding boot_segs_def own_links_def by (simp only:)
qed

lemma bus_registers:
  assumes b: "booting threads p w" and p: "p task_bus = Bound bus_segment"
  shows "\<exists>w'. segment_bind_register A False bus_segment w = Some (Returns w') \<and> booting threads (p(task_bus := Running)) w'"
proof -
  have sg: "bw_segs w bus_segment = bus_bound task_bus" using booting_segs(1) [OF b] p by simp
  have bus: "boot_bus p w" "bw_ipc w = None" "bus_ready 0 w" "bw_sb_instance w"
    using b p by (auto simp: booting_def boot_bus_def permits_def)
  obtain rc sem where sem: "notify_loop SEGMENT_MAJOR_MAX 0 (bw_init_lock w) = Some (rc, sem)" "sem_value sem SEGMENT_MAJOR_MAX"
    using notify_loop_posts [of "bw_init_lock w" 0 SEGMENT_MAJOR_MAX 0] bus(3)
    by (auto simp: bus_ready_def SEM_VALUE_MAX_def SEGMENT_MAJOR_MAX_def)
  define w' where "w' = w\<lparr>bw_node_ms := (bw_node_ms w)(0 := bus_segment), bw_ipc := Some task_bus, bw_init_lock := sem\<rparr>"
  have "segment_bind_register A False bus_segment w = Some (Returns w')"
    by (simp add: segment_bind_register_def bus_register_def sg bus_bound_def segment_for_def segment_launch_def service_launch_def
        mblue_segment_get_context_def ipc_facade_create_instance_def bus(2) ipc_init_def bus_contex_notify_def sem w'_def)
      (simp add: SEGMENT_MAJOR_MAX_def)
  moreover have "boot_progress (p(task_bus := Running))" using b by (intro boot_progress_step) (simp_all add: booting_def)
  moreover have "boot_tasks threads w'" using b boot_tasks_cong [of w' w threads] by (simp add: w'_def booting_def)
  moreover have "boot_segs (p(task_bus := Running)) w'"
    using b boot_segs_run [of p w task_bus w'] p by (simp add: booting_def w'_def)
  moreover have "permits (p(task_bus := Running)) = SEGMENT_MAJOR_MAX"
    using b p by (simp add: permits_def booting_def boot_progress_def)
  then have "boot_bus (p(task_bus := Running)) w'"
    using bus p sem by (auto simp: boot_bus_def w'_def bus_ready_def)
  moreover have "boot_apps (p(task_bus := Running)) w'"
    by (rule boot_apps_cong [of p w]) (use b p in \<open>simp_all add: booting_def w'_def\<close>)
  ultimately show ?thesis by (auto simp: booting_def)
qed

text \<open>The other segments wait until the bus has been launched.\<close>

lemma waits_for_bus:
  assumes b: "booting threads p w" and t: "t = task_user_space \<or> t = task_log" and p: "p t = Bound (own_segment t)"
    and bus: "p task_bus \<noteq> Running"
  shows "segment_bind_register A False (own_segment t) w = Some Blocked"
proof -
  have "sem_value (bw_init_lock w) 0" using b p t bus by (auto simp: booting_def boot_bus_def permits_def bus_ready_def split: if_splits)
  then show ?thesis
    using b t p semaphore_pend_zero [of "bw_init_lock w" False] booting_segs(2,3) [OF b]
    by (auto simp: segment_bind_register_def bus_register_def scenario_bound_def log_bound_def segment_for_def)
qed

lemma registers:
  assumes b: "booting threads p w" and t: "t = task_user_space \<or> t = task_log" and p: "p t = Bound (own_segment t)"
    and bus: "p task_bus = Running"
  obtains sem where "bus_register False (own_segment t) w = Some (Returns (w\<lparr>bw_init_lock := sem,
       bw_node_ms := (bw_node_ms w)(unat (s_major (bw_segs w (own_segment t))) := own_segment t)\<rparr>))"
    "boot_bus (p(t := Running)) (w\<lparr>bw_init_lock := sem,
       bw_node_ms := (bw_node_ms w)(unat (s_major (bw_segs w (own_segment t))) := own_segment t)\<rparr>)"
proof -
  have ready: "bus_ready (Suc (permits (p(t := Running)))) w"
    using b t p bus by (auto simp: booting_def boot_bus_def permits_def SEGMENT_MAJOR_MAX_def split: if_splits)
  obtain sem where sem: "semaphore_pend False (bw_init_lock w) = Some (Returns (MBLUE_OK, sem))"
    "sem_value sem (permits (p(t := Running)))"
    using ready semaphore_pend_value unfolding bus_ready_def by blast
  have major: "unat (s_major (bw_segs w (own_segment t))) = (if t = task_log then 2 else 3)"
    using t p booting_segs(2,3) [OF b] by (auto simp: scenario_bound_def log_bound_def segment_for_def)
  show thesis
  proof (rule that [of sem])
    show "bus_register False (own_segment t) w = Some (Returns (w\<lparr>bw_init_lock := sem,
       bw_node_ms := (bw_node_ms w)(unat (s_major (bw_segs w (own_segment t))) := own_segment t)\<rparr>))"
      by (simp add: bus_register_def major sem SEGMENT_MAJOR_MAX_def)
    show "boot_bus (p(t := Running)) (w\<lparr>bw_init_lock := sem,
       bw_node_ms := (bw_node_ms w)(unat (s_major (bw_segs w (own_segment t))) := own_segment t)\<rparr>)"
      using b t p bus ready sem(2) unfolding major
      by (auto simp: booting_def boot_bus_def bus_ready_def fun_eq_iff split: if_splits)
  qed
qed

lemma boot_bus_cong:
  assumes "boot_bus p w" and "bw_sb_instance w' = bw_sb_instance w" and "bw_init_lock w' = bw_init_lock w"
    and "bw_call_links w' = bw_call_links w" and "bw_node_ms w' = bw_node_ms w" and "bw_ipc w' = bw_ipc w"
  shows "boot_bus p w'"
  using assms(1) unfolding boot_bus_def bus_ready_def assms(2-6) .

lemma boot_segs_cong:
  assumes "boot_segs p w" and "bw_segs w' = bw_segs w" and "bw_seg_links w' = bw_seg_links w"
  shows "boot_segs p w'"
  using assms(1) unfolding boot_segs_def own_links_def assms(2-3) .

lemma launches:
  assumes b: "booting threads p w" and t: "t = task_user_space \<or> t = task_log" and p: "p t = Bound (own_segment t)"
    and bus: "p task_bus = Running"
    and l: "\<And>w1. bw_segs w1 = bw_segs w \<Longrightarrow> bw_heap w1 = bw_heap w \<Longrightarrow> bw_user w1 = bw_user w \<Longrightarrow>
      \<exists>hp u. segment_launch A (own_segment t) w1 = Some (w1\<lparr>bw_heap := hp, bw_user := u\<rparr>) \<and>
        boot_apps (p(t := Running)) (w1\<lparr>bw_heap := hp, bw_user := u\<rparr>)"
  shows "\<exists>w'. segment_bind_register A False (own_segment t) w = Some (Returns w') \<and> booting threads (p(t := Running)) w'"
proof -
  obtain sem where r: "bus_register False (own_segment t) w = Some (Returns (w\<lparr>bw_init_lock := sem,
       bw_node_ms := (bw_node_ms w)(unat (s_major (bw_segs w (own_segment t))) := own_segment t)\<rparr>))"
    "boot_bus (p(t := Running)) (w\<lparr>bw_init_lock := sem,
       bw_node_ms := (bw_node_ms w)(unat (s_major (bw_segs w (own_segment t))) := own_segment t)\<rparr>)"
    by (rule registers [OF b t p bus])
  define w1 where "w1 = w\<lparr>bw_init_lock := sem,
       bw_node_ms := (bw_node_ms w)(unat (s_major (bw_segs w (own_segment t))) := own_segment t)\<rparr>"
  have f: "bw_segs w1 = bw_segs w" "bw_seg_links w1 = bw_seg_links w" "bw_heap w1 = bw_heap w" "bw_user w1 = bw_user w"
    "bw_tasks w1 = bw_tasks w" "bw_queues w1 = bw_queues w" "bw_tm w1 = bw_tm w" "bw_msgs w1 = bw_msgs w"
    by (simp_all add: w1_def)
  obtain hp u where u: "segment_launch A (own_segment t) w1 = Some (w1\<lparr>bw_heap := hp, bw_user := u\<rparr>)"
    "boot_apps (p(t := Running)) (w1\<lparr>bw_heap := hp, bw_user := u\<rparr>)"
    using l [OF f(1,3,4)] by blast
  let ?w = "w1\<lparr>bw_heap := hp, bw_user := u\<rparr>"
  have "segment_bind_register A False (own_segment t) w = Some (Returns ?w)"
    using r(1) u(1) by (simp add: segment_bind_register_def w1_def)
  moreover have "boot_progress (p(t := Running))"
    by (rule boot_progress_step) (use b t bus in \<open>auto simp: booting_def\<close>)
  moreover have "boot_tasks threads ?w" using b boot_tasks_cong [of ?w w threads] f by (simp add: booting_def)
  moreover have "boot_segs (p(t := Running)) ?w"
    by (rule boot_segs_run [of p w]) (use b f p in \<open>simp_all add: booting_def\<close>)
  moreover have "boot_bus (p(t := Running)) ?w"
    by (rule boot_bus_cong [OF r(2)]) (simp_all add: w1_def)
  ultimately show ?thesis using u(2) by (auto simp: booting_def)
qed

lemma scenario_registers:
  assumes b: "booting threads p w" and p: "p task_user_space = Bound scenario_segment" and bus: "p task_bus = Running"
  shows "\<exists>w'. segment_bind_register (system_app fuel cl now stk) False scenario_segment w = Some (Returns w') \<and>
    booting threads (p(task_user_space := Running)) w'"
proof -
  have a: "boot_apps p w" using b by (simp add: booting_def)
  have h: "heap_wf (bw_heap w)" "timers_hold (events_of w) (map timer_addr [0..<MAX_TIMER_NUM])" "grants (events_of w)"
    "hnext (bw_heap w) = 27"
    using a p by (simp_all add: boot_apps_def)
  have tm: "map timer_addr [0..<MAX_TIMER_NUM] = timer_addr 0 # map timer_addr [1..<MAX_TIMER_NUM]"
    by (simp add: MAX_TIMER_NUM_def upt_conv_Cons)
  show ?thesis
  proof (rule launches [where t = task_user_space, simplified, OF b p bus])
    fix w1 :: system_world
    assume f: "bw_segs w1 = bw_segs w" "bw_heap w1 = bw_heap w" "bw_user w1 = bw_user w"
    have h1: "timers_hold (events_of w1) (timer_addr 0 # map timer_addr [1..<MAX_TIMER_NUM])" "grants (events_of w1)"
      using h(2,3) unfolding tm by (simp_all add: timers_hold_def grants_def f cong: if_cong)
    obtain s where s: "scenario_launch fuel cl scenario_segment (events_of w1) = Some s"
      "scenario_runs scenario_segment (timer_addr 0) 448 (map timer_addr [1..<MAX_TIMER_NUM]) s"
      "sc_world s = w1" "hfail (ts_heap s) = hfail (bw_heap w)" "hnext (ts_heap s) = 35"
      using scenario_launched [of "events_of w1" "timer_addr 0" "map timer_addr [1..<MAX_TIMER_NUM]" fuel cl scenario_segment]
        h(1,4) h1 f(2) by auto
    have hs: "heap_wf (ts_heap s)" using s(2) by (simp add: scenario_runs_def eq_wf_def eq_struct_def)
    have "same_events s (events_of (put_events s))" using hs by (simp add: same_events_def)
    then have r: "scenario_runs scenario_segment (timer_addr 0) 448 (map timer_addr [1..<MAX_TIMER_NUM]) (events_of (put_events s))"
      using s(2) by (rule scenario_runs_same)
    have "bw_segs w1 scenario_segment = scenario_bound task_user_space" using booting_segs(2) [OF b] p f(1) by simp
    then have "segment_launch (system_app fuel cl now stk) scenario_segment w1 = Some (put_events s)"
      using s(1) by (simp add: segment_launch_def scenario_bound_def segment_for_def system_app_def log_app_def scenario_app_def)
    moreover have "boot_apps (p(task_user_space := Running)) (put_events s)"
      using a s hs f(3) r p by (simp add: boot_apps_def)
    moreover have "put_events s = w1\<lparr>bw_heap := ts_heap s, bw_user := bw_user (put_events s)\<rparr>"
      by (simp add: put_events_def s(3) Let_def)
    ultimately show "\<exists>hp u. segment_launch (system_app fuel cl now stk) scenario_segment w1 = Some (w1\<lparr>bw_heap := hp, bw_user := u\<rparr>) \<and>
        boot_apps (p(task_user_space := Running)) (w1\<lparr>bw_heap := hp, bw_user := u\<rparr>)"
      by metis
  qed
qed

lemma boot_apps_log:
  assumes a: "boot_apps p w" and p: "p task_log = Bound log_segment" and f: "bw_heap w1 = bw_heap w" "bw_user w1 = bw_user w"
  shows "boot_apps (p(task_log := Running)) (log_service_launch log_segment w1)"
proof -
  let ?w = "log_service_launch log_segment w1"
  have u: "bw_heap ?w = bw_heap w" "sg_events (bw_user ?w) = sg_events (bw_user w)" "sg_instance (bw_user ?w) = sg_instance (bw_user w)"
    by (simp_all add: log_service_launch_def Let_def f)
  have l: "lg_ls (bw_user ?w) = log_segment" "lg_log (bw_user ?w)" "lm_stream (lg_manage (bw_user ?w))"
    "lm_level (lg_manage (bw_user ?w)) = log_level_value LOG_DEBUG" "lm_out (lg_manage (bw_user ?w)) = []"
    using a p by (simp_all add: boot_apps_def log_service_launch_def Let_def f logger_get_instance_def log_init_def
        log_set_stream_def log_set_type_def)
  have "same_events (events_of w) (events_of ?w)" using a by (simp add: same_events_def u boot_apps_def)
  then have "scenario_runs ms t ele tf (events_of w) \<Longrightarrow> scenario_runs ms t ele tf (events_of ?w)" for ms t ele tf
    by (rule scenario_runs_same)
  moreover have "timers_hold (events_of ?w) = timers_hold (events_of w)" "grants (events_of ?w) = grants (events_of w)"
    by (simp_all add: timers_hold_def grants_def fun_eq_iff u)
  moreover have "\<forall>t\<in>{task_bus, task_user_space, task_log}. sg_instance (bw_user ?w) (own_hook t) =
      (if (p(task_log := Running)) t = Created then 0 else own_segment t)"
    using a p unfolding u boot_apps_def by auto
  ultimately show ?thesis using a l unfolding boot_apps_def u by (auto split: if_splits)
qed

lemma log_registers:
  assumes b: "booting threads p w" and p: "p task_log = Bound log_segment" and bus: "p task_bus = Running"
  shows "\<exists>w'. segment_bind_register (system_app fuel cl now stk) False log_segment w = Some (Returns w') \<and>
    booting threads (p(task_log := Running)) w'"
proof -
  have a: "boot_apps p w" using b by (simp add: booting_def)
  show ?thesis
  proof (rule launches [where t = task_log, simplified, OF b p bus])
    fix w1 :: system_world
    assume f: "bw_segs w1 = bw_segs w" "bw_heap w1 = bw_heap w" "bw_user w1 = bw_user w"
    have "bw_segs w1 log_segment = log_bound task_log" using booting_segs(3) [OF b] p f(1) by simp
    then have "segment_launch (system_app fuel cl now stk) log_segment w1 = Some (log_service_launch log_segment w1)"
      by (simp add: segment_launch_def log_bound_def segment_for_def system_app_def log_app_def)
    moreover have "boot_apps (p(task_log := Running)) (log_service_launch log_segment w1)"
      by (rule boot_apps_log [OF a p f(2,3)])
    moreover have "log_service_launch log_segment w1 = w1\<lparr>bw_heap := bw_heap w1, bw_user := bw_user (log_service_launch log_segment w1)\<rparr>"
      by (simp add: log_service_launch_def Let_def)
    ultimately show "\<exists>hp u. segment_launch (system_app fuel cl now stk) log_segment w1 = Some (w1\<lparr>bw_heap := hp, bw_user := u\<rparr>) \<and>
        boot_apps (p(task_log := Running)) (w1\<lparr>bw_heap := hp, bw_user := u\<rparr>)"
      by metis
  qed
qed

text \<open>How far the threads are: two steps for each of the three.\<close>

definition steps_of :: "thread \<Rightarrow> nat" where
  "steps_of s = (case s of Created \<Rightarrow> 0 | Bound ms \<Rightarrow> 1 | Running \<Rightarrow> 2)"

definition boot_steps :: "(addr \<Rightarrow> thread) \<Rightarrow> nat" where
  "boot_steps p = steps_of (p task_bus) + steps_of (p task_user_space) + steps_of (p task_log)"

lemma boot_steps_Suc:
  assumes "t \<in> {task_bus, task_user_space, task_log}" and "steps_of s = Suc (steps_of (p t))"
  shows "boot_steps (p(t := s)) = Suc (boot_steps p)"
  using assms by (elim insertE emptyE) (simp_all add: boot_steps_def)

lemma bound_task:
  assumes "booting threads p w" and "p t = Bound ms"
  shows "t \<in> {task_bus, task_user_space, task_log}" and "ms = own_segment t"
proof -
  have b: "p t \<in> {Created, Bound (own_segment t), Running}" "t \<notin> {task_bus, task_user_space, task_log} \<longrightarrow> p t = Created"
    using assms(1) by (simp_all add: booting_def boot_progress_def)
  then show "t \<in> {task_bus, task_user_space, task_log}" "ms = own_segment t" using assms(2) by auto
qed

lemma register_booting:
  assumes b: "booting threads p w" and p: "p t = Bound ms"
  shows "if t = task_bus \<or> p task_bus = Running
    then \<exists>w'. segment_bind_register (system_app fuel cl now stk) False ms w = Some (Returns w') \<and> booting threads (p(t := Running)) w'
    else segment_bind_register (system_app fuel cl now stk) False ms w = Some Blocked"
proof -
  have "t = task_bus \<or> t = task_user_space \<or> t = task_log" using bound_task(1) [OF b p] by simp
  moreover have ms: "ms = own_segment t" by (rule bound_task(2) [OF b p])
  ultimately consider "t = task_bus" | "t \<noteq> task_bus" "p task_bus \<noteq> Running" "t = task_user_space \<or> t = task_log"
    | "t = task_user_space" "p task_bus = Running" | "t = task_log" "p task_bus = Running" by blast
  then show ?thesis
  proof cases
    case 1
    then show ?thesis using bus_registers [OF b] p ms by simp
  next
    case 2
    then show ?thesis using waits_for_bus [OF b 2(3)] p ms by simp
  next
    case 3
    then show ?thesis using scenario_registers [OF b] p ms by simp
  next
    case 4
    then show ?thesis using log_registers [OF b] p ms by simp
  qed
qed

lemma boot_step_booting:
  assumes "boot_step (system_app fuel cl now stk) (p, w) (p', w')" and b: "booting threads p w"
  shows "booting threads p' w'" and "boot_steps p' = Suc (boot_steps p)"
proof -
  from assms(1) have "booting threads p' w' \<and> boot_steps p' = Suc (boot_steps p)"
  proof cases
    case (bind t ms)
    have t: "t \<in> {task_bus, task_user_space, task_log}" using bind(3) by (simp only: preload_tasks)
    show ?thesis using bind_booting [OF b t bind(2)] bind boot_steps_Suc [OF t] by (auto simp: steps_of_def)
  next
    case (register t ms)
    have t: "t \<in> {task_bus, task_user_space, task_log}" by (rule bound_task(1) [OF b register(2)])
    show ?thesis
      using register_booting [OF b register(2), of fuel cl now stk] register boot_steps_Suc [OF t]
      by (auto simp: steps_of_def split: if_splits)
  qed
  then show "booting threads p' w'" "boot_steps p' = Suc (boot_steps p)" by simp_all
qed

lemma boot_step_exists:
  assumes b: "booting threads p w" and n: "boot_steps p < 6"
  shows "\<exists>s. boot_step (system_app fuel cl now stk) (p, w) s"
proof -
  have st: "p t = Created \<or> (\<exists>ms. p t = Bound ms) \<or> p t = Running" for t by (cases "p t") auto
  obtain t where "t \<in> {task_bus, task_user_space, task_log}" "p t = Created \<or> (\<exists>ms. p t = Bound ms) \<and> (t = task_bus \<or> p task_bus = Running)"
    using st [of task_bus] st [of task_user_space] st [of task_log] n
    by (auto simp: boot_steps_def steps_of_def)
  moreover have ?thesis if t: "p t = Bound ms" "t = task_bus \<or> p task_bus = Running" for t ms
  proof -
    obtain w' where "segment_bind_register (system_app fuel cl now stk) False ms w = Some (Returns w')"
      using register_booting [OF b t(1), of fuel cl now stk] t(2) by auto
    then show ?thesis using boot_step.register [of p t ms, OF t(1)] by blast
  qed
  moreover have ?thesis if t: "t \<in> {task_bus, task_user_space, task_log}" "p t = Created" for t
  proof -
    obtain w' where "on_create_bind t w = Some (own_segment t, w')" using bind_booting [OF b t] by blast
    then have "boot_step (system_app fuel cl now stk) (p, w) (p(t := Bound (own_segment t)), w')"
      by (rule boot_step.bind [of p t, OF t(2) t(1) [folded preload_tasks]])
    then show ?thesis by blast
  qed
  ultimately show ?thesis by blast
qed

lemma boot_run:
  assumes "(boot_step (system_app fuel cl now stk) ^^ n) (p0, w0) (p, w)" and "booting threads p0 w0"
  shows "booting threads p w \<and> boot_steps p = boot_steps p0 + n"
  using assms
proof (induction n arbitrary: p w)
  case (Suc n)
  then obtain p1 w1 where s: "(boot_step (system_app fuel cl now stk) ^^ n) (p0, w0) (p1, w1)"
    "boot_step (system_app fuel cl now stk) (p1, w1) (p, w)" by auto
  have "booting threads p1 w1" "boot_steps p1 = boot_steps p0 + n" using Suc.IH [OF s(1) Suc.prems(2)] by simp_all
  then show ?case using boot_step_booting [OF s(2)] by simp
qed simp

section \<open>From power on to the running system\<close>

text \<open>The static data before \<open>main\<close>: all zero.\<close>

definition no_task :: mblue_task where
  "no_task = \<lparr>t_id = 0, t_priority = 0, t_name = 0, t_stack_size = 0, t_stack = 0, t_obj = 0, tproc = Null_fn, t_on_create = 0,
     nproc = Null_fn, tpend = Null_fn, tpost = Null_fn, t_mq = 0, msg_sem = \<lparr>sem_magic = 0, sem_obj = None\<rparr>,
     call_sem = \<lparr>sem_magic = 0, sem_obj = None\<rparr>\<rparr>"

definition boot_world :: system_world where
  "boot_world = \<lparr>bw_heap = fresh_heap, bw_msgs = fresh_messages, bw_segs = (\<lambda>_. no_segment), bw_tasks = (\<lambda>_. no_task),
     bw_queues = (\<lambda>_. \<lparr>qsize = 0, qnext = 0, qcapacity = 0, qdata = []\<rparr>), bw_seg_links = \<lparr>lnext = (\<lambda>_. 0), lprev = (\<lambda>_. 0)\<rparr>,
     bw_sb_instance = False, bw_node_ms = (\<lambda>_. 0), bw_pub_links = \<lparr>lnext = (\<lambda>_. 0), lprev = (\<lambda>_. 0)\<rparr>,
     bw_call_links = \<lparr>lnext = (\<lambda>_. 0), lprev = (\<lambda>_. 0)\<rparr>, bw_init_lock = \<lparr>sem_magic = 0, sem_obj = None\<rparr>, bw_subs = (\<lambda>_. 0),
     bw_calls = (\<lambda>_. \<lparr>pc_msg = 0, pc_src = 0, pc_call_type = 0, pc_notifier = 0\<rparr>),
     bw_notifiers = (\<lambda>_. \<lparr>pn_notify = 0, pn_user_data = 0\<rparr>), bw_cells = (\<lambda>_. 0), bw_ipc = None, bw_tm = (\<lambda>_. 0), bw_task_id = 0,
     bw_user = \<lparr>lg_ls = 0, lg_log = False, lg_lm = False,
       lg_manage = \<lparr>lm_stream = False, lm_cache = [], lm_level = 0, lm_type = 0, lm_out = []\<rparr>,
       sg_events = fresh_events, sg_instance = (\<lambda>_. 0)\<rparr>\<rparr>"

text \<open>After the first \<open>n\<close> entries of the table.\<close>

definition prepared :: "(nat \<Rightarrow> nat) \<Rightarrow> nat \<Rightarrow> system_world \<Rightarrow> bool" where
  "prepared threads n w \<longleftrightarrow> unat (bw_task_id w) = n \<and> heap_wf (bw_heap w) \<and> (\<forall>j. \<not> hfail (bw_heap w) j) \<and>
     hnext (bw_heap w) = 9 * n \<and> bw_msgs w = bw_msgs boot_world \<and> bw_segs w = bw_segs boot_world \<and>
     \<not> bw_sb_instance w \<and> bw_node_ms w = bw_node_ms boot_world \<and> bw_ipc w = None \<and> bw_user w = bw_user boot_world \<and>
     (\<forall>k<n. task_ready (preload_task k) (threads k) (Suc k) (16 * Suc (9 * k)) w \<and> no_segments (preload_task k) w \<and>
        bw_tm w k = preload_task k)"

lemma prepared_boot: "prepared threads 0 boot_world"
  by (simp add: prepared_def boot_world_def) (simp add: fresh_heap_def)

lemma prepared_Suc:
  assumes p: "prepared threads n w" and n: "n < MBLUE_MAX_TASKS_IN_SYSTEM"
  shows "\<exists>w'. create_mblue_task (threads n) (preload_task n) prio name stk size' MBLUE_TASK_MAX_MSG_IN_QUEUE (Suc n) w =
    Some (preload_task n, w') \<and> prepared threads (Suc n) w'"
proof -
  have w: "unat (bw_task_id w) = n" "heap_wf (bw_heap w)" "\<not> hfail (bw_heap w) j" "hnext (bw_heap w) = 9 * n" for j
    using p by (simp_all add: prepared_def)
  show ?thesis
  proof (rule task_created [OF preload_simps(2) [of n] w(1) n w(2,3), of "threads n" prio name stk size' "Suc n"], rule exI, rule conjI,
      assumption)
    fix w' :: system_world
    assume c: "task_ready (preload_task n) (threads n) (Suc n) (16 * Suc (hnext (bw_heap w))) w'" "no_segments (preload_task n) w'"
      "heap_wf (bw_heap w')" "\<And>j. \<not> hfail (bw_heap w') j" "hnext (bw_heap w') = hnext (bw_heap w) + 9"
      "unat (bw_task_id w') = Suc n" "bw_tm w' = (bw_tm w)(n := preload_task n)"
      "\<And>t' th h' mq'. t' \<noteq> preload_task n \<Longrightarrow> mq' \<noteq> 16 * Suc (hnext (bw_heap w)) \<Longrightarrow> task_ready t' th h' mq' w \<Longrightarrow>
         task_ready t' th h' mq' w'"
      "\<And>t'. t' \<noteq> preload_task n \<Longrightarrow> no_segments t' w \<Longrightarrow> no_segments t' w'"
      "bw_msgs w' = bw_msgs w" "bw_segs w' = bw_segs w" "bw_sb_instance w' = bw_sb_instance w" "bw_node_ms w' = bw_node_ms w"
      "bw_ipc w' = bw_ipc w" "bw_user w' = bw_user w"
    have "task_ready (preload_task k) (threads k) (Suc k) (16 * Suc (9 * k)) w' \<and> no_segments (preload_task k) w' \<and>
        bw_tm w' k = preload_task k" if "k < Suc n" for k
    proof (cases "k = n")
      case True
      then show ?thesis using c(1,2,7) w(4) by simp
    next
      case False
      then have "task_ready (preload_task k) (threads k) (Suc k) (16 * Suc (9 * k)) w" "no_segments (preload_task k) w"
          "bw_tm w k = preload_task k"
        using p that by (simp_all add: prepared_def)
      then show ?thesis using c(7) c(8) [of "preload_task k"] c(9) [of "preload_task k"] False w(4) by simp
    qed
    then show "prepared threads (Suc n) w'" using p c(3-6,10-15) unfolding prepared_def by simp
  qed
qed

lemma main_creates:
  obtains w where "main threads boot_world = Some w" "booting threads (\<lambda>_. Created) w"
proof -
  have m: "0 < MBLUE_MAX_TASKS_IN_SYSTEM" "Suc 0 < MBLUE_MAX_TASKS_IN_SYSTEM" "Suc (Suc 0) < MBLUE_MAX_TASKS_IN_SYSTEM"
    by (simp_all add: MBLUE_MAX_TASKS_IN_SYSTEM_def)
  obtain w1 where w1: "create_mblue_task (threads 0) (preload_task 0) (int MBLUE_MAX_TASKS_IN_SYSTEM - 1) 0x32000 stack_bus
      MBLUE_TASK_DEFAULT_STACK_SIZE MBLUE_TASK_MAX_MSG_IN_QUEUE (Suc 0) boot_world = Some (preload_task 0, w1)"
    "prepared threads (Suc 0) w1"
    using prepared_Suc [OF prepared_boot m(1)] by blast
  obtain w2 where w2: "create_mblue_task (threads (Suc 0)) (preload_task (Suc 0)) 4 0x32010 stack_user_space
      MBLUE_TASK_DEFAULT_STACK_SIZE MBLUE_TASK_MAX_MSG_IN_QUEUE (Suc (Suc 0)) w1 = Some (preload_task (Suc 0), w2)"
    "prepared threads (Suc (Suc 0)) w2"
    using prepared_Suc [OF w1(2) m(2)] by blast
  obtain w3 where w3: "create_mblue_task (threads (Suc (Suc 0))) (preload_task (Suc (Suc 0))) 3 0x32020 stack_log
      MBLUE_TASK_DEFAULT_STACK_SIZE MBLUE_TASK_MAX_MSG_IN_QUEUE (Suc (Suc (Suc 0))) w2 = Some (preload_task (Suc (Suc 0)), w3)"
    "prepared threads (Suc (Suc (Suc 0))) w3"
    using prepared_Suc [OF w2(2) m(3)] by blast
  have "main threads boot_world = Some w3"
    using w1(1) w2(1) w3(1) by (simp add: main_def task_prepare_def mblue_preload_tasks_def numeral_2_eq_2 numeral_3_eq_3)
  moreover have "booting threads (\<lambda>_. Created) w3"
  proof -
    have r: "\<And>k. k < 3 \<Longrightarrow> task_ready (preload_task k) (threads k) (Suc k) (16 * Suc (9 * k)) w3 \<and>
        no_segments (preload_task k) w3 \<and> bw_tm w3 k = preload_task k"
      using w3(2) by (simp add: prepared_def numeral_3_eq_3)
    have b: "bw_msgs w3 = fresh_messages" "bw_segs w3 = (\<lambda>_. no_segment)" "\<not> bw_sb_instance w3" "bw_node_ms w3 = (\<lambda>_. 0)"
      "bw_ipc w3 = None" "bw_user w3 = bw_user boot_world" "heap_wf (bw_heap w3)" "\<not> hfail (bw_heap w3) j"
      "hnext (bw_heap w3) = 27" for j
      using w3(2) by (simp_all add: prepared_def) (simp_all add: boot_world_def)
    have "boot_progress (\<lambda>_. Created)" by (simp add: boot_progress_def)
    moreover have "boot_tasks threads w3" using r [of 0] r [of 1] r [of 2] b(1)
      by (simp add: boot_tasks_def task_bus_def task_user_space_def task_log_def numeral_2_eq_2 numeral_3_eq_3)
    moreover have "boot_segs (\<lambda>_. Created) w3" using r [of 0] r [of 1] r [of 2] b(2)
      by (simp add: boot_segs_def own_links_def no_segments_def task_bus_def task_user_space_def task_log_def numeral_2_eq_2)
    moreover have "boot_bus (\<lambda>_. Created) w3" using b by (simp add: boot_bus_def)
    moreover have "timers_hold (events_of w3) (map timer_addr [0..<MAX_TIMER_NUM])" "grants (events_of w3)" "sg_instance (bw_user w3) = (\<lambda>_. 0)"
      "\<not> lg_lm (bw_user w3)" "lm_out (lg_manage (bw_user w3)) = []"
      using b(8) by (simp_all add: b(6) timers_hold_def grants_def)
        (simp_all add: boot_world_def fresh_events_def fresh_timers_def timer_system.extend_def)
    then have "boot_apps (\<lambda>_. Created) w3" using b by (simp add: boot_apps_def fun_eq_iff)
    ultimately show ?thesis by (simp add: booting_def)
  qed
  ultimately show thesis by (rule that)
qed

text \<open>The system is up: the bus and the tasks are as the other theories assume, every thread finds its task, the log service
  answers calls of the application and the application has its timer.\<close>

definition system_up :: "(nat \<Rightarrow> nat) \<Rightarrow> system_world \<Rightarrow> bool" where
  "system_up threads w \<longleftrightarrow>
     bus_start {task_bus, task_user_space, task_log} bus_segment w \<and>
     get_current_context (threads 0) w = task_bus \<and> get_current_context (threads 1) w = task_user_space \<and>
     get_current_context (threads 2) w = task_log \<and>
     call_state task_user_space task_bus bus_segment task_log log_segment (major_value MBLUE_LOG_SERVICE) [] [] 0
       (map msg_addr [0..<32]) [] w \<and>
     items_array (bw_segs w log_segment) (type_value SYNC_CALL) = Some log_ipc_items \<and>
     lg_log (bw_user w) \<and> lm_stream (lg_manage (bw_user w)) \<and> lm_level (lg_manage (bw_user w)) = log_level_value LOG_DEBUG \<and>
     lm_out (lg_manage (bw_user w)) = [] \<and> hfail (bw_heap w) = (\<lambda>_. False) \<and> hnext (bw_heap w) = 35 \<and>
     scenario_task scenario_segment task_user_space [] (map msg_addr [0..<32]) w \<and>
     scenario_runs scenario_segment (timer_addr 0) 448 (map timer_addr [1..<MAX_TIMER_NUM]) (events_of w)"

lemma all_running:
  assumes "boot_steps p = 6"
  shows "p task_bus = Running" "p task_user_space = Running" "p task_log = Running"
proof -
  have "steps_of (p t) \<le> 2" "steps_of (p t) = 2 \<Longrightarrow> p t = Running" for t by (auto simp: steps_of_def split: thread.splits)
  note s = this(1) [of task_bus] this(1) [of task_user_space] this(1) [of task_log] this(2)
  show "p task_bus = Running" "p task_user_space = Running" "p task_log = Running"
    using s(1-3) assms by (auto simp: boot_steps_def intro!: s(4))
qed

lemma boot_steps_bound: "boot_steps p \<le> 6"
proof -
  have "steps_of (p t) \<le> 2" for t by (simp add: steps_of_def split: thread.split)
  note s = this [of task_bus] this [of task_user_space] this [of task_log]
  show ?thesis using s by (simp add: boot_steps_def)
qed

lemma booted_bus:
  assumes b: "booting threads p w" and p: "p task_bus = Running" "p task_user_space = Running" "p task_log = Running"
  shows "bus_start {task_bus, task_user_space, task_log} bus_segment w"
proof -
  let ?T = "{task_bus, task_user_space, task_log}"
  have t: "task_ready task_bus (threads 0) 1 16 w" "task_ready task_user_space (threads 1) 2 160 w"
    "task_ready task_log (threads 2) 3 304 w" "bw_msgs w = fresh_messages"
    using b by (simp_all add: booting_def boot_tasks_def)
  have s: "bw_segs w ms = (if ms = bus_segment then bus_bound task_bus else if ms = scenario_segment then scenario_bound task_user_space
       else if ms = log_segment then log_bound task_log else no_segment)" for ms
    using b p by (simp add: booting_def boot_segs_def)
  have l: "bw_node_ms w M \<noteq> bus_segment" if "0 < M" for M using b p that by (simp add: booting_def boot_bus_def)
  have c: "bw_ipc w = Some task_bus" "\<forall>M<SEGMENT_MAJOR_MAX. dlist (bw_call_links w) (list_head_of M) []"
    using b p by (simp_all add: booting_def boot_bus_def bus_ready_def)
  have q: "queue_wf (task_queue w t)" "queue_contents (task_queue w t) = []" if "t \<in> ?T" for t
    using t(1-3) that by (auto simp: task_ready_def task_has_def)
  have "config_ok ?T bus_segment w" unfolding config_ok_def
  proof (intro conjI allI ballI impI)
    show "inj_on (\<lambda>t. t_mq (bw_tasks w t)) ?T" using t(1-3) by (simp add: task_ready_def inj_on_def)
    show "s_context (bw_segs w ms) \<in> insert 0 ?T" for ms
      by (simp add: s bus_bound_def scenario_bound_def log_bound_def segment_for_def no_segment_def)
    show "handler_array (bw_segs w bus_segment) = bus_handlers" by (simp add: s bus_bound_def segment_for_def)
    show "handler_array (bw_segs w ms) type \<in> {Null_handler, Default_signal_handler, Default_ipc_handler}"
      if "ms \<noteq> bus_segment" for ms type
      using that by (simp add: s scenario_bound_def log_bound_def segment_for_def no_segment_def default_handlers_def)
    show "t \<in> insert 0 ?T" if "bw_ipc w = Some t" for t using that c(1) by simp
  qed (use q l in \<open>simp_all\<close>)
  moreover have "pool_holds (bw_msgs w) (map msg_addr [0..<32])" using t(4) fresh_messages_hold by simp
  then have "\<exists>free. pool_holds (bw_msgs w) free" by (rule exI)
  ultimately show ?thesis unfolding bus_start_def using q(2) c(2) by simp
qed

lemma booted_up:
  assumes b: "booting threads p w" and p: "p task_bus = Running" "p task_user_space = Running" "p task_log = Running"
    and i: "inj threads"
  shows "system_up threads w"
proof -
  have t: "task_ready task_bus (threads 0) 1 16 w" "task_ready task_user_space (threads 1) 2 160 w"
    "task_ready task_log (threads 2) 3 304 w" "bw_tm w 0 = task_bus" "bw_tm w (Suc 0) = task_user_space" "bw_tm w 2 = task_log"
    and m: "pool_holds (bw_msgs w) (map msg_addr [0..<32])"
    using b fresh_messages_hold by (simp_all add: booting_def boot_tasks_def)
  have s: "bw_segs w bus_segment = bus_bound task_bus" "bw_segs w scenario_segment = scenario_bound task_user_space"
    "bw_segs w log_segment = log_bound task_log"
    using booting_segs [OF b] p by simp_all
  have l: "dlist (bw_seg_links w) (list_head_of task_bus) [list_node_of bus_segment]"
    using b p by (simp add: booting_def boot_segs_def own_links_def)
  have c: "bw_ipc w = Some task_bus" "bw_node_ms w (major_value MBLUE_LOG_SERVICE) = log_segment"
    "dlist (bw_call_links w) (list_head_of (major_value MBLUE_LOG_SERVICE)) []"
    using b p by (simp_all add: booting_def boot_bus_def bus_ready_def SEGMENT_MAJOR_MAX_def)
  have a: "lg_log (bw_user w)" "lm_stream (lg_manage (bw_user w))" "heap_wf (bw_heap w)"
    "lm_level (lg_manage (bw_user w)) = log_level_value LOG_DEBUG" "lm_out (lg_manage (bw_user w)) = []"
    "hfail (bw_heap w) = (\<lambda>_. False)" "hnext (bw_heap w) = 35"
    "scenario_runs scenario_segment (timer_addr 0) 448 (map timer_addr [1..<MAX_TIMER_NUM]) (events_of w)"
    using b p by (simp_all add: booting_def boot_apps_def)
  have "[0..<MBLUE_MAX_TASKS_IN_SYSTEM] = 0 # Suc 0 # 2 # [3..<MBLUE_MAX_TASKS_IN_SYSTEM]"
    by (simp add: MBLUE_MAX_TASKS_IN_SYSTEM_def upt_rec)
  then have "map (bw_tm w) [0..<MBLUE_MAX_TASKS_IN_SYSTEM] =
      task_bus # task_user_space # task_log # map (bw_tm w) [3..<MBLUE_MAX_TASKS_IN_SYSTEM]"
    using t(4-6) by (simp only: list.map)
  then have "get_current_context (threads 0) w = task_bus" "get_current_context (threads 1) w = task_user_space"
    "get_current_context (threads 2) w = task_log"
    using t(1-3) inj_eq [OF i] by (simp_all add: get_current_context_def task_ready_def)
  moreover have "call_config task_user_space task_bus bus_segment task_log log_segment (major_value MBLUE_LOG_SERVICE) w"
    using t(1-3) c l dlist_next [of "bw_seg_links w" "list_head_of task_bus" "[]"]
    by (simp add: call_config_def s bus_bound_def log_bound_def segment_for_def default_handlers_def task_ready_def
        SEGMENT_MAJOR_MAX_def dlist_def)
  then have "call_state task_user_space task_bus bus_segment task_log log_segment (major_value MBLUE_LOG_SERVICE) [] [] 0
      (map msg_addr [0..<32]) [] w"
    using t(1-3) m a(3) c(3) by (simp add: call_state_def task_ready_def)
  moreover have "scenario_task scenario_segment task_user_space [] (map msg_addr [0..<32]) w"
    using t(2) m by (simp add: scenario_task_def s scenario_bound_def segment_for_def default_handlers_def task_ready_def)
  moreover have "items_array (bw_segs w log_segment) (type_value SYNC_CALL) = Some log_ipc_items"
    by (simp add: s log_bound_def segment_for_def)
  ultimately show ?thesis using booted_bus [OF b p] a unfolding system_up_def by blast
qed

lemma boot_runs:
  assumes "booting threads (\<lambda>_. Created) w0" and "n \<le> 6"
  shows "\<exists>p w. (boot_step (system_app fuel cl now stk) ^^ n) (\<lambda>_. Created, w0) (p, w)"
  using assms(2)
proof (induction n)
  case (Suc n)
  then obtain p w where r: "(boot_step (system_app fuel cl now stk) ^^ n) (\<lambda>_. Created, w0) (p, w)" by auto
  have "booting threads p w" "boot_steps p < 6"
    using boot_run [OF r assms(1)] Suc.prems by (simp_all add: boot_steps_def [of "\<lambda>_. Created"] steps_of_def)
  then obtain p' w' where "boot_step (system_app fuel cl now stk) (p, w) (p', w')"
    using boot_step_exists by (metis surj_pair)
  then show ?case using r by auto
qed simp

lemma six_steps:
  assumes "inj threads" and "main threads boot_world = Some w0"
    and "(boot_step (system_app fuel cl now stk) ^^ 6) (\<lambda>_. Created, w0) (p, w)"
  shows "system_up threads w"
proof -
  have b0: "booting threads (\<lambda>_. Created) w0" using main_creates [of threads] assms(2) by (metis option.inject)
  have b: "booting threads p w" "boot_steps p = 6"
    using boot_run [OF assms(3) b0] by (simp_all add: boot_steps_def [of "\<lambda>_. Created"] steps_of_def)
  show ?thesis by (rule booted_up [OF b(1) all_running [OF b(2)] assms(1)])
qed

text \<open>What the seconds of the application assume.\<close>

lemma system_scenario:
  assumes up: "system_up threads w" and self: "cl_self cl = threads 1"
  shows "scenario_up scenario_segment task_user_space task_bus bus_segment task_log log_segment (timer_addr 0) 448
    (map timer_addr [1..<MAX_TIMER_NUM]) 0 cl (map msg_addr [0..<32]) w"
proof -
  have "inj_on (\<lambda>t. t_mq (bw_tasks w t)) {task_bus, task_user_space, task_log}"
    using up by (simp add: system_up_def bus_start_def config_ok_def)
  then have "t_mq (bw_tasks w task_user_space) \<noteq> t_mq (bw_tasks w task_bus)" "t_mq (bw_tasks w task_user_space) \<noteq> t_mq (bw_tasks w task_log)"
    by (simp_all add: inj_on_def)
  moreover have "log_level_value LOG_INFO \<le> (log_level_value LOG_DEBUG :: u32)" by simp
  ultimately show ?thesis using up self by (simp add: system_up_def scenario_up_def)
qed

section \<open>Properties\<close>

text \<open>C5 (system\_starts): the start of the system, from \<open>main\<close> on zeroed static data. The table of the tasks
  is created. Then, in whatever order the threads of the three tasks run their hooks, with no signal in between, some thread
  can go on until all hooks are done, after exactly six steps: the log service and the application wait for
  the bus at most until its launch has posted its semaphore. Then the system is up:
  what the properties of the bus, of remote calls and of the log service assume of the system holds, every
  thread finds its own task, and when the clock shows \<open>nows\<close> in the next seconds, the terminal shows after them
  one line of the application for each, with its date. The bound \<open>seconds_fit\<close> on their number is the one of C12.\<close>

theorem system_starts:
  assumes "inj threads"
  shows "\<exists>w0. main threads boot_world = Some w0 \<and>
    (\<forall>n p w. (boot_step (system_app (Suc (Suc fuel)) cl now stk) ^^ n) (\<lambda>_. Created, w0) (p, w) \<longrightarrow>
       n \<le> 6 \<and> (n < 6 \<longrightarrow> (\<exists>s. boot_step (system_app (Suc (Suc fuel)) cl now stk) (p, w) s)) \<and>
       (n = 6 \<longrightarrow> (\<forall>t\<in>{task_bus, task_user_space, task_log}. p t = Running) \<and> system_up threads w \<and>
          (\<forall>nows. cl_self cl = threads 1 \<and> seconds_fit cl 35 (length nows) \<and> frame_ok (st_frame stk) \<and>
             (\<forall>now\<in>set nows. printable_date now) \<longrightarrow>
             (\<exists>w2. scenario_seconds (Suc (Suc fuel)) cl stk i (timer_addr 0) (task_user_space, task_bus, task_log) nows w =
                Some (Returns w2) \<and> lm_out (lg_manage (bw_user w2)) = map (delayed_line cl) nows))))"
proof -
  let ?R = "boot_step (system_app (Suc (Suc fuel)) cl now stk)"
  let ?S = "\<lambda>nows w. scenario_seconds (Suc (Suc fuel)) cl stk i (timer_addr 0) (task_user_space, task_bus, task_log) nows w"
  obtain w0 where w0: "main threads boot_world = Some w0" "booting threads (\<lambda>_. Created) w0" by (rule main_creates)
  have "n \<le> 6 \<and> (n < 6 \<longrightarrow> (\<exists>s. ?R (p, w) s)) \<and>
       (n = 6 \<longrightarrow> (\<forall>t\<in>{task_bus, task_user_space, task_log}. p t = Running) \<and> system_up threads w \<and>
          (\<forall>nows. cl_self cl = threads 1 \<and> seconds_fit cl 35 (length nows) \<and> frame_ok (st_frame stk) \<and>
             (\<forall>now\<in>set nows. printable_date now) \<longrightarrow>
             (\<exists>w2. ?S nows w = Some (Returns w2) \<and> lm_out (lg_manage (bw_user w2)) = map (delayed_line cl) nows)))"
    if r: "(?R ^^ n) (\<lambda>_. Created, w0) (p, w)" for n p w
  proof (intro conjI impI allI)
    have b: "booting threads p w" "boot_steps p = n"
      using boot_run [OF r w0(2)] by (simp_all add: boot_steps_def [of "\<lambda>_. Created"] steps_of_def)
    show "n \<le> 6" using boot_steps_bound [of p] b(2) by simp
    show "\<exists>s. ?R (p, w) s" if "n < 6" by (rule boot_step_exists [OF b(1)]) (use that b(2) in simp)
    assume "n = 6"
    then have run: "p task_bus = Running" "p task_user_space = Running" "p task_log = Running"
      using all_running [of p] b(2) by simp_all
    then show "\<forall>t\<in>{task_bus, task_user_space, task_log}. p t = Running" by simp
    show up: "system_up threads w" by (rule booted_up [OF b(1) run assms])
    fix nows
    assume h: "cl_self cl = threads 1 \<and> seconds_fit cl 35 (length nows) \<and> frame_ok (st_frame stk) \<and> (\<forall>now\<in>set nows. printable_date now)"
    have a: "hnext (bw_heap w) = 35" "lm_out (lg_manage (bw_user w)) = []" using up by (simp_all add: system_up_def)
    show "\<exists>w2. ?S nows w = Some (Returns w2) \<and> lm_out (lg_manage (bw_user w2)) = map (delayed_line cl) nows"
      using scenario_seconds_steps [OF system_scenario [OF up], of cl nows stk fuel i] h a by auto
  qed
  then show ?thesis using w0(1) by blast
qed

text \<open>The application runs on the thread of its task.\<close>

definition boot_client :: client where
  "boot_client = sample_client\<lparr>cl_self := 1\<rparr>"

theorem system_starts_witness:
  "\<exists>w0 p w w2. main id boot_world = Some w0 \<and>
    (boot_step (system_app (Suc (Suc 0)) boot_client sample_date sample_stack) ^^ 6) (\<lambda>_. Created, w0) (p, w) \<and> system_up id w \<and>
    scenario_seconds (Suc (Suc 0)) boot_client sample_stack False (timer_addr 0) (task_user_space, task_bus, task_log)
      [sample_date, sample_date] w = Some (Returns w2) \<and>
    lm_out (lg_manage (bw_user w2)) = [c_name ''2018-1-1 12:0:0 a[3] delayed work'' @ [10],
      c_name ''2018-1-1 12:0:0 a[3] delayed work'' @ [10]]"
proof -
  let ?R = "boot_step (system_app (Suc (Suc 0)) boot_client sample_date sample_stack)"
  let ?S = "\<lambda>w. scenario_seconds (Suc (Suc 0)) boot_client sample_stack False (timer_addr 0) (task_user_space, task_bus, task_log)
      [sample_date, sample_date] w"
  have c: "cl_self boot_client = id 1" "seconds_fit boot_client 35 (length [sample_date, sample_date])"
    "frame_ok (st_frame sample_stack)" "\<forall>now\<in>set [sample_date, sample_date]. printable_date now"
    using sample_client_ok [of 5920] sample_message(1)
    by (simp_all add: boot_client_def seconds_fit_def client_ok_def sample_stack_def frame_ok_def)
  have line: "delayed_line boot_client = delayed_line sample_client" by (simp add: boot_client_def delayed_line_def fun_eq_iff)
  obtain w0 where w0: "main id boot_world = Some w0" and
    up: "\<And>p w. (?R ^^ 6) (\<lambda>_. Created, w0) (p, w) \<Longrightarrow> system_up id w \<and>
      (\<exists>w2. ?S w = Some (Returns w2) \<and> lm_out (lg_manage (bw_user w2)) = map (delayed_line boot_client) [sample_date, sample_date])"
    using system_starts [OF inj_on_id, of 0 boot_client sample_date sample_stack False] c by blast
  have "booting id (\<lambda>_. Created) w0" using main_creates [of id] w0 by (metis option.inject)
  then obtain p w where r: "(?R ^^ 6) (\<lambda>_. Created, w0) (p, w)" using boot_runs [of id w0 6] by blast
  then obtain w2 where "system_up id w" "?S w = Some (Returns w2)"
      "lm_out (lg_manage (bw_user w2)) = map (delayed_line boot_client) [sample_date, sample_date]"
    using up by blast
  then show ?thesis using w0 r by (auto simp: line sample_client_line)
qed

text \<open>C6 (first\_log\_message): the whole way from \<open>main\<close> to the terminal. When all hooks are done, in
  whatever order they ran, the application logs a message: it is posted to the bus, the bus passes it on, the log service
  prints it behind the date and the name of the source file, and the bus gives back the memory of the call.\<close>

theorem first_log_message:
  assumes "inj threads" and "main threads boot_world = Some w0"
    and "(boot_step (system_app fuel cl now stk) ^^ 6) (\<lambda>_. Created, w0) (p, w)"
    and "locals_apart lo 704" and "frame_ok (st_frame stk)" and "printable_date now"
    and "level < log_level_value LOG_LEVEL_MAX" and "0 \<notin> set source" and "0 \<notin> set msg" and "length source < 2 ^ 31"
    and "short_name source"
  shows "\<exists>w1 w2 w3 w4. log_service_write (Suc n) (threads 1) lo level source msg w = Some (Posted (msg_addr 0), w1) \<and>
      template_proc_turn (Suc n) (system_app fuel cl now stk) i task_bus w1 = Some (Returns w2) \<and>
      template_proc_turn (Suc n) (system_app fuel cl now stk) i task_log w2 = Some (Returns w3) \<and>
      template_proc_turn (Suc n) (system_app fuel cl now stk) i task_bus w3 = Some (Returns w4) \<and>
      hblocks (bw_heap w4) = hblocks (bw_heap w) \<and>
      lm_out (lg_manage (bw_user w4)) = [take 127 (date_text now @ [32] @ log_message level source msg @ [10])]"
proof -
  have up: "system_up threads w" by (rule six_steps [OF assms(1-3)])
  have "[0..<32] = 0 # Suc 0 # [2..<32]" by (simp add: upt_rec)
  then have st: "call_state task_user_space task_bus bus_segment task_log log_segment (major_value MBLUE_LOG_SERVICE) [] [] 0
      (msg_addr 0 # msg_addr (Suc 0) # map msg_addr [2..<32]) [] w"
    using up by (simp only: system_up_def list.map)
  have f: "get_current_context (threads 1) w = task_user_space" "\<And>j. \<not> hfail (bw_heap w) j" "16 * hnext (bw_heap w) < 2 ^ 30"
    "items_array (bw_segs w log_segment) (type_value SYNC_CALL) = Some log_ipc_items" "lg_log (bw_user w)"
    "lm_stream (lg_manage (bw_user w))" "locals_apart lo (16 * int (hnext (bw_heap w)) + 144)"
    using up assms(4) by (simp_all add: system_up_def)
  have lv: "level \<le> lm_level (lg_manage (bw_user w))" "lm_out (lg_manage (bw_user w)) = []"
    using up assms(7) by (simp_all add: system_up_def word_less_nat_alt word_le_nat_alt)
  obtain w1 w2 w3 w4 where r: "log_service_write (Suc n) (threads 1) lo level source msg w = Some (Posted (msg_addr 0), w1)"
      "template_proc_turn (Suc n) (system_app fuel cl now stk) i task_bus w1 = Some (Returns w2)"
      "template_proc_turn (Suc n) (system_app fuel cl now stk) i task_log w2 = Some (Returns w3)"
      "template_proc_turn (Suc n) (system_app fuel cl now stk) i task_bus w3 = Some (Returns w4)"
      "hblocks (bw_heap w4) = hblocks (bw_heap w)" "logged now level (log_message level source msg) (bw_user w) (bw_user w4)"
    using message_written [OF st f(1-3,7) assms(5) f(4-6) assms(6-11), where R = "scenario_app fuel cl stk" and fuel = n and i = i]
    unfolding system_app_def by blast
  have "lm_out (lg_manage (bw_user w4)) = [take 127 (date_text now @ [32] @ log_message level source msg @ [10])]"
    using r(6) lv by (auto simp: logged_def printed_def)
  then show ?thesis using r by blast
qed

theorem first_log_message_witness:
  "\<exists>w0 p w w1 w2 w3 w4. main id boot_world = Some w0 \<and>
    (boot_step (system_app 2 sample_client sample_date sample_stack) ^^ 6) (\<lambda>_. Created, w0) (p, w) \<and>
    log_service_write (Suc 3) (id 1) sample_locals 3 [47, 97] [111, 107] w = Some (Posted (msg_addr 0), w1) \<and>
    template_proc_turn (Suc 3) (system_app 2 sample_client sample_date sample_stack) False task_bus w1 = Some (Returns w2) \<and>
    template_proc_turn (Suc 3) (system_app 2 sample_client sample_date sample_stack) False task_log w2 = Some (Returns w3) \<and>
    template_proc_turn (Suc 3) (system_app 2 sample_client sample_date sample_stack) False task_bus w3 = Some (Returns w4) \<and>
    lm_out (lg_manage (bw_user w4)) = [c_name ''2018-1-1 12:0:0 a[3] ok'' @ [10]]"
proof -
  obtain w0 where w0: "main id boot_world = Some w0" "booting id (\<lambda>_. Created) w0" by (rule main_creates)
  then obtain p w where r: "(boot_step (system_app 2 sample_client sample_date sample_stack) ^^ 6) (\<lambda>_. Created, w0) (p, w)"
    using boot_runs [of id w0 6] by blast
  have lo: "locals_apart sample_locals 704" by (simp add: locals_apart_def sample_locals_def)
  have fr: "frame_ok (st_frame sample_stack)" by (simp add: sample_stack_def frame_ok_def)
  note sm = sample_message
  from first_log_message [OF inj_on_id w0(1) r lo fr sm(1-6), of 3 False] show ?thesis
    unfolding sm(7) using w0(1) r by blast
qed

end
