(* ===== verification/Spec2Isabelle.thy ===== *)
theory Spec2Isabelle
  imports Ring_Fifo Msg_Queue Hash_Crc Message Event_Queue State_Machine Bus_Protocol Persistence Schema_Laws Remote_Arguments Hash_List Payload_Map Log_Text Log_Service Power_Guard Simple_Scenario Start_Up
begin

text \<open>
  MBlue is a framework in C for small devices with 32-bit processors. An application is a set of
  segments (services and scenarios) that run in tasks; each task has a queue of messages and a loop
  that takes one message after the other and hands it to the handler of the addressed segment. The
  segments talk through the system bus, a segment of its own in the main task: they subscribe to the
  signals of another segment, publish signals, and call each other synchronously or asynchronously.
  Below this layer there are message, timer and memory pools, queues, lists, event queues and state
  machines; beside it a byte ring, checksums, a calendar, a log store in flash memory and the platform
  layer (heap, timers, semaphores, threads).

  This development models these parts as executable functions on explicit states and proves what
  makes each of them correct, and then what makes them work together. The sources are under \<^verbatim>\<open>src/\<close>;
  every theory says at its beginning what it models.

  \<^bold>\<open>Conventions.\<close> Integers of the C code are words of their width, so arithmetic wraps as in C; \<^verbatim>\<open>int\<close>
  is \<^typ>\<open>int\<close> where it cannot overflow. Addresses are natural numbers and 0 is the null pointer. A
  partial operation is an option: \<^const>\<open>None\<close> is a memory error, such as an index outside its array, a
  released block that is used or a null pointer that is followed. Error codes are values of
  \<open>mblue_errcode\<close>. The assertions of the code are compiled out of a release build and are not modelled.
  Loops over lists take fuel where the list could be damaged; the theorems show that one step more than
  the length of the list is enough. A loop that may not end is a partial function into an option.

  \<^bold>\<open>Theories, from the bottom up.\<close>

  \<^item> \<open>Mblue_Prelude\<close>: words and bytes, \<^verbatim>\<open>memcpy\<close>, error codes, the tagged data \<^verbatim>\<open>SMART_DATA\<close> and the
    size macros (\<^verbatim>\<open>middleware/common/mblue_errcode.h\<close>, \<^verbatim>\<open>mblue_macro.h\<close>).
  \<^item> \<open>Mblue_List\<close>: the circular doubly linked lists of \<^verbatim>\<open>mblue_list.h\<close> on a store of next and previous
    pointers. Every operation is related to an operation on the list of entries.
  \<^item> \<open>Pal_Heap\<close>, \<open>Pal_Semaphore\<close>: \<^verbatim>\<open>pal/heap\<close> and \<^verbatim>\<open>pal/semaphore\<close> over the allocator of the platform, which
    may refuse any request, and over POSIX semaphores.
  \<^item> \<open>Fifo_Spec\<close>, \<open>Pool_Spec\<close>: the interfaces of bounded queues and of object pools, as locales with their
    consequences for arbitrary sequences of operations. The first is interpreted by the byte ring and the
    pointer queue, the second by the message pool and the timer pool.
  \<^item> \<open>Ring_Fifo\<close>, \<open>Msg_Queue\<close>: \<^verbatim>\<open>components/ring_buffer\<close> and \<^verbatim>\<open>components/queue\<close>.
  \<^item> \<open>Hash_Crc\<close>: \<^verbatim>\<open>util/hash\<close> and \<^verbatim>\<open>util/crc\<close>: the hashes as polynomials, the table-driven checksum against
    the bitwise definition, and the errors it detects.
  \<^item> \<open>Message\<close>: \<^verbatim>\<open>components/message\<close>: codes, sequence numbers, the pool and the reference counts.
  \<^item> \<open>Timer\<close>, \<open>Event_Queue\<close>: \<^verbatim>\<open>pal/timer\<close> and \<^verbatim>\<open>components/event_queue\<close>: events with timers on a queue, with
    the invariant that ties the queue, its bitmap, the timers and the heap together.
  \<^item> \<open>State_Machine\<close>: \<^verbatim>\<open>components/state_machine\<close>: hierarchical state machines with the trace of the actions
    they run.
  \<^item> \<open>Bus_World\<close>, \<open>System_Bus\<close>, \<open>Ipc\<close>, \<open>Segment\<close>: the state the tasks share and the operations on it, in the
    order of the code: tasks (\<^verbatim>\<open>pal/task\<close>, \<^verbatim>\<open>task_manager\<close>), the bus and its service (\<^verbatim>\<open>components/system_bus\<close>,
    \<^verbatim>\<open>service/system_bus\<close>), the senders (\<^verbatim>\<open>ipc\<close>), the handlers and the turn of a task (\<^verbatim>\<open>components/segment\<close>).
    The functions of the applications are a parameter.
  \<^item> \<open>Bus_Safety\<close>, \<open>Bus_Calls\<close>, \<open>Bus_Signals\<close>, \<open>Bus_Protocol\<close>: what holds in every interleaving of the tasks,
    the stages of a remote call, the delivery of signals, and the properties that span the components.
  \<^item> \<open>Calendar\<close>, \<open>Persistence\<close>: \<^verbatim>\<open>pal/clock\<close> and \<^verbatim>\<open>components/persistence_manager\<close>: dates against the Gregorian
    calendar; the circular log in flash memory and the recovery of its position after a restart, over a
    flash driver that is a parameter.

  \<^item> \<open>Pb_Common\<close>, \<open>Pb_Encode\<close>, \<open>Pb_Decode\<close>: the protocol buffer library in \<^verbatim>\<open>components/protocal_buffer\<close>
    (\<^verbatim>\<open>pb_common.c\<close>, \<^verbatim>\<open>pb_encode.c\<close>, \<^verbatim>\<open>pb_decode.c\<close>): the field iterator, the encoder and the decoder on
    streams over buffers, with structs in a memory of bytes.
  \<^item> \<open>Pb_Wire\<close>, \<open>Pb_Message\<close>: what encoders write and decoders read of each kind of value and of whole
    messages; \<open>Pb_Robust\<close>: what the decoder does on arbitrary input.
  \<^item> \<open>Pb_Schema\<close>: \<^verbatim>\<open>components/data_schema\<close>: the layouts of remote calls, serialising and receiving a call.
    \<open>Schema_Safety\<close>, \<open>Schema_Laws\<close>: calls with arbitrary bytes, and the laws of the codec on these layouts.
  \<^item> \<open>Remote_Arguments\<close>: a remote call from the client's struct to the function of the segment, with its
    arguments on the heap in between.
  \<^item> \<open>Hash_List\<close>, \<open>Payload_Map\<close>: the hash lists of \<^verbatim>\<open>mblue_list.h\<close> and the payload vectors of \<^verbatim>\<open>components/map\<close>.
  \<^item> \<open>Log_Text\<close>, \<open>Log_Service\<close>: the texts and the manager of \<^verbatim>\<open>components/log\<close>; the log service
    (\<^verbatim>\<open>service/log\<close>) and the functions of \<^verbatim>\<open>ipc/mblue_global_ipc_method.c\<close> that every part logs with.
  \<^item> \<open>Power_Guard\<close>, \<open>Simple_Scenario\<close>: the counter of \<^verbatim>\<open>components/power\<close>; the example application of
    \<^verbatim>\<open>app/scenario\<close> with its timer, its event and its task.
  \<^item> \<open>Start_Up\<close>: \<^verbatim>\<open>main/main.c\<close>, the table of the tasks (\<^verbatim>\<open>middleware/common/mblue_task_cfg.h\<close>), their creation
    by \<^verbatim>\<open>task_prepare\<close> and the hooks of \<^verbatim>\<open>mblue_task_entry.h\<close>, in every order of the threads.

  \<^bold>\<open>What is shown.\<close> The central properties are those of \<open>Bus_Protocol\<close>: a synchronous call returns the answer
  of the called function, blocks its caller until then and gives back every message and block it used; in
  every interleaving no message that is queued or belongs to a pending call is handed out again; a signal
  reaches every subscriber once and in order. \<open>Remote_Arguments\<close> and \<open>Log_Service\<close> compose these with the codec: the function of a segment
  gets the arguments of its caller, and a log message ends as one line on the terminal while all the memory
  it took is given back. \<open>Start_Up\<close> shows that the start of the system, in every order of its threads, ends in a
  state where these theorems apply, and follows the first log message from \<open>main\<close> to the terminal;
  \<open>Simple_Scenario\<close> follows the example application, which logs a line every second, through timer, signal, event
  queue, bus and log service. They rest on the properties of the parts: the queues keep
  the order, the pools partition their objects, the lists are well formed after every operation, event
  queues and timers stay consistent, state machines take exactly the transitions of their tables. A call is
  serialised so that the receiver calls the function with the same arguments, and the decoder stays inside
  its input whatever bytes it is given. Some
  theorems state flaws of the code: payloads shared by two subscribers are released twice, the log loses
  the start of its data, the calendar never ends on very large times.

  \<^bold>\<open>Bounds.\<close> The pools have the sizes of the code (32 messages, 12 timers), the queue of a task at most 128
  entries, the log 455 header slots. Fuel is an argument of the definitions that loop over lists and is
  bounded in the theorems by the length of the list. The codec takes the depth of submessages as fuel; the
  layouts have none, so one level (\<open>schema_depth\<close>) is enough, and the loops over the fields and over the
  input end without fuel. The allocator of the model never gives out an address twice, so runs of the example
  application are bounded by the space below the locals (\<open>seconds_fit\<close>), at 163 units of 16 bytes a second.

  \<^bold>\<open>Not modelled.\<close> A handler runs to its end without another task running in between, and the functions of
  the applications change only the state of the applications, except that the callback of the example application
  logs and so posts a message. Calls to the bus itself are outside the theorem about all interleavings; what they do is
  \<open>bus_calls_itself\<close>. Threads, signals and sockets of the platform,
  the board support and the terminal output are outside. Of the protocol buffer library the branches that the
  configuration compiles out (allocation of members, 32-bit only values) and streams with callbacks of their
  own are left out;
  the network proxy is not built and calls functions that the repository does not have.
\<close>

end
